(* ===== verification/Kl_Prelude.thy ===== *)
theory Kl_Prelude
  imports "HOL-Library.Word" "HOL-Library.Monad_Syntax"
begin

text \<open>
  Shared by every component of the driver model.

  \<^item> The driver's error numbers (\<^verbatim>\<open>include/xpu/defs.h\<close> and the kernel's \<^verbatim>\<open>errno\<close> values it
    returns) as one datatype, and the type of a function result that is only a status.
  \<^item> Unsigned 64 and 32 bit arithmetic on natural numbers, with the wrap-around written out.
  \<^item> Generic facts on lists and options that the component proofs share.

  Conventions used throughout: a status \<^term>\<open>None\<close> is the C result 0; \<^term>\<open>Some e\<close> is the C
  result \<open>-e\<close>. A function whose C version may spin forever on a held lock, loop without
  progress, or touch freed memory returns an option, where \<^term>\<open>None\<close> is that outcome.
\<close>

section \<open>Error numbers\<close>

datatype kl_err =
    XPUERR_NOMEM | XPUERR_NOCPUMEM | XPUERR_INVALID_PARAM | XPUERR_NOSUPPORT
  | XPUERR_ABNORMAL | XPUERR_KEXCEPTION | XPUERR_TIMEOUT | XPUERR_UCECC | XPUERR_OVERHEAT
  | XPUERR_BUSY | XPUERR_EVENTWAIT | XPUERR_HWEXCEPTION | XPUERR_PEERRESET | XPUERR_DMATIMEOUT | XPUERR_DEVRESET
  | EINVAL | ENOMEM | EEXIST | EBUSY | EFAULT | ETIMEDOUT | EAGAIN | ERESTARTSYS | ENOSPC

type_synonym kl_status = "kl_err option"

section \<open>Machine arithmetic on naturals\<close>

definition u64 :: "nat \<Rightarrow> nat" where
  "u64 n = n mod 2 ^ 64"

definition u64_sub :: "nat \<Rightarrow> nat \<Rightarrow> nat" where
  "u64_sub a b = (a + (2 ^ 64 - b mod 2 ^ 64)) mod 2 ^ 64"

definition u32 :: "nat \<Rightarrow> nat" where
  "u32 n = n mod 2 ^ 32"

definition u32_sub :: "nat \<Rightarrow> nat \<Rightarrow> nat" where
  "u32_sub a b = (a + (2 ^ 32 - b mod 2 ^ 32)) mod 2 ^ 32"

named_theorems kl_wrap \<open>elimination of wrap-around under bounds\<close>
named_theorems kl_frame \<open>which fields an operation leaves alone\<close>

lemma u64_id [kl_wrap]: "n < 2 ^ 64 \<Longrightarrow> u64 n = n"
  by (simp add: u64_def)

lemma u64_lt [simp]: "u64 n < 2 ^ 64"
  by (simp add: u64_def)

lemma u64_le: "u64 n \<le> n"
  by (simp add: u64_def)

lemma u64_sub_le [kl_wrap]: "b \<le> a \<Longrightarrow> a < 2 ^ 64 \<Longrightarrow> u64_sub a b = a - b"
  by (simp add: u64_sub_def mod_if)

lemma u32_id [kl_wrap]: "n < 2 ^ 32 \<Longrightarrow> u32 n = n"
  by (simp add: u32_def)

lemma u32_lt [simp]: "u32 n < 2 ^ 32"
  by (simp add: u32_def)

lemma u32_u32_add [simp]: "u32 (u32 a + b) = u32 (a + b)"
  by (simp add: u32_def mod_add_left_eq)

lemma u32_sub_le [kl_wrap]: "b \<le> a \<Longrightarrow> a < 2 ^ 32 \<Longrightarrow> u32_sub a b = a - b"
  by (simp add: u32_sub_def mod_if)

section \<open>Lists and options\<close>

lemma sum_list_update_nat:
  "i < length xs \<Longrightarrow> sum_list (xs[i := (v :: nat)]) + xs ! i = sum_list xs + v"
  by (induction xs arbitrary: i) (auto split: nat.splits)

lemma sum_list_zero_nat: "(\<forall>i < length xs. xs ! i = (0 :: nat)) \<Longrightarrow> sum_list xs = 0"
  by (induction xs) fastforce+

lemma nth_le_sum_list: "i < length xs \<Longrightarrow> xs ! i \<le> sum_list (xs :: nat list)"
  by (induction xs arbitrary: i) (auto split: nat.splits simp: nth_Cons trans_le_add2)

lemma nth_update_if: "xs[i := v] ! j = (if i = j \<and> i < length xs then v else xs ! j)"
  by (cases "i < length xs"; cases "i = j") (simp_all add: list_update_beyond not_less)

end
