(* ===== verification/Kl_Bitmap.thy ===== *)
theory Kl_Bitmap
  imports Kl_Prelude
begin

text \<open>
  The kernel's bitmaps as the page allocators of \<^verbatim>\<open>kl_mm.c\<close> (KL2) and \<^verbatim>\<open>kl1/xpu_mem.c\<close> (KL1)
  use them, and the allocation tables both keep beside the bitmap.

  A bitmap is a list of booleans. The search for a free run of pages,
  \<^verbatim>\<open>bitmap_find_next_zero_area\<close>, is code of the kernel and not of this repository: it is an
  argument of the definitions that call it, and what they rely on is the locale
  \<open>zero_area_finder\<close>. A first-fit search, \<open>first_fit\<close>, satisfies it.

  \<open>tables_ok\<close> is the invariant that ties the bitmap, the table of allocation lengths and the
  table of owners of a region together.
\<close>

section \<open>Bitmap operations\<close>

definition bitmap_set :: "bool list \<Rightarrow> nat \<Rightarrow> nat \<Rightarrow> bool list" where
  "bitmap_set bm start nbits =
     map (\<lambda>i. bm ! i \<or> (start \<le> i \<and> i < start + nbits)) [0..<length bm]"

definition bitmap_clear :: "bool list \<Rightarrow> nat \<Rightarrow> nat \<Rightarrow> bool list" where
  "bitmap_clear bm start nbits =
     map (\<lambda>i. bm ! i \<and> \<not> (start \<le> i \<and> i < start + nbits)) [0..<length bm]"

definition find_next_bit :: "bool list \<Rightarrow> nat \<Rightarrow> nat \<Rightarrow> nat" where
  "find_next_bit bm sz off = (case List.find (\<lambda>i. bm ! i) [off..<sz] of None \<Rightarrow> sz | Some i \<Rightarrow> i)"

definition area_free :: "bool list \<Rightarrow> nat \<Rightarrow> nat \<Rightarrow> bool" where
  "area_free bm start nr = list_all (\<lambda>i. \<not> bm ! i) [start..<start + nr]"

lemma length_bitmap_set [simp]: "length (bitmap_set bm s c) = length bm"
  by (simp add: bitmap_set_def)

lemma length_bitmap_clear [simp]: "length (bitmap_clear bm s c) = length bm"
  by (simp add: bitmap_clear_def)

lemma nth_bitmap_set [simp]:
  "i < length bm \<Longrightarrow> bitmap_set bm s c ! i \<longleftrightarrow> bm ! i \<or> (s \<le> i \<and> i < s + c)"
  by (simp add: bitmap_set_def)

lemma nth_bitmap_clear [simp]:
  "i < length bm \<Longrightarrow> bitmap_clear bm s c ! i \<longleftrightarrow> bm ! i \<and> \<not> (s \<le> i \<and> i < s + c)"
  by (simp add: bitmap_clear_def)

lemma area_free_iff: "area_free bm s c \<longleftrightarrow> (\<forall>i. s \<le> i \<and> i < s + c \<longrightarrow> \<not> bm ! i)"
  by (auto simp: area_free_def list_all_iff)

lemma bitmap_set_none [simp]: "bitmap_set bm s 0 = bm"
  by (rule nth_equalityI) auto

lemma bitmap_clear_set:
  assumes "area_free bm s c"
  shows "bitmap_clear (bitmap_set bm s c) s c = bm"
  using assms by (intro nth_equalityI) (auto simp: area_free_iff)

lemma find_next_bit_le: "off \<le> sz \<Longrightarrow> off \<le> find_next_bit bm sz off \<and> find_next_bit bm sz off \<le> sz"
  by (auto simp: find_next_bit_def split: option.splits dest!: find_Some_iff [THEN iffD1])

lemma find_next_bit_hit:
  "find_next_bit bm sz off < sz \<Longrightarrow> bm ! find_next_bit bm sz off \<and> off \<le> find_next_bit bm sz off"
  by (auto simp: find_next_bit_def split: option.splits dest!: find_Some_iff [THEN iffD1])

lemma find_next_bit_skip:
  "off \<le> i \<Longrightarrow> i < find_next_bit bm sz off \<Longrightarrow> i < sz \<Longrightarrow> \<not> bm ! i"
proof (cases "List.find (\<lambda>i. bm ! i) [off..<sz]")
  case None
  assume "off \<le> i" "i < sz"
  with None show ?thesis by (auto simp: find_None_iff)
next
  case (Some j)
  assume a: "off \<le> i" "i < find_next_bit bm sz off" "i < sz"
  from Some obtain k where k: "k < sz - off" "j = off + k" "\<forall>m<k. \<not> bm ! (off + m)"
    by (auto simp: find_Some_iff)
  from a Some have "i < j" by (simp add: find_next_bit_def)
  with a k have "i - off < k" "off + (i - off) = i" by auto
  with k show ?thesis by metis
qed

section \<open>The kernel's search for a free run\<close>

text \<open>
  What the allocators rely on: an answer below the size is a run of clear bits that fits
  (\<open>found_fits\<close>), and whenever a run of at least one bit exists the answer is not beyond it
  (\<open>found_first\<close>).
\<close>

locale zero_area_finder =
  fixes find_area :: "bool list \<Rightarrow> nat \<Rightarrow> nat \<Rightarrow> nat \<Rightarrow> nat"
  assumes found_fits:
    "sz \<le> length bm \<Longrightarrow> find_area bm sz start nr < sz \<Longrightarrow>
       start \<le> find_area bm sz start nr \<and> find_area bm sz start nr + nr \<le> sz \<and>
       area_free bm (find_area bm sz start nr) nr"
  and found_first:
    "sz \<le> length bm \<Longrightarrow> 0 < nr \<Longrightarrow> start \<le> p \<Longrightarrow> p + nr \<le> sz \<Longrightarrow> area_free bm p nr \<Longrightarrow>
       find_area bm sz start nr \<le> p"
begin

lemma found_iff:
  assumes "sz \<le> length bm" "0 < nr"
  shows "find_area bm sz start nr < sz \<longleftrightarrow>
           (\<exists>p. start \<le> p \<and> p + nr \<le> sz \<and> area_free bm p nr)"
proof
  assume lt: "find_area bm sz start nr < sz"
  then show "\<exists>p. start \<le> p \<and> p + nr \<le> sz \<and> area_free bm p nr"
    using found_fits [OF assms(1) lt] by blast
next
  assume "\<exists>p. start \<le> p \<and> p + nr \<le> sz \<and> area_free bm p nr"
  then obtain p where p: "start \<le> p" "p + nr \<le> sz" "area_free bm p nr" by blast
  from found_first [OF assms p] p(2) assms(2) show "find_area bm sz start nr < sz" by simp
qed

end

definition first_fit :: "bool list \<Rightarrow> nat \<Rightarrow> nat \<Rightarrow> nat \<Rightarrow> nat" where
  "first_fit bm sz start nr =
     (case List.find (\<lambda>p. p + nr \<le> sz \<and> area_free bm p nr) [start..<sz] of
        None \<Rightarrow> sz + nr | Some p \<Rightarrow> p)"

interpretation ff: zero_area_finder first_fit
proof unfold_locales
  fix sz :: nat and bm start nr
  assume "first_fit bm sz start nr < sz"
  then show "start \<le> first_fit bm sz start nr \<and> first_fit bm sz start nr + nr \<le> sz \<and>
       area_free bm (first_fit bm sz start nr) nr"
    by (auto simp: first_fit_def split: option.splits dest!: find_Some_iff [THEN iffD1])
next
  fix sz :: nat and bm start p nr
  assume p: "0 < nr" "start \<le> p" "p + nr \<le> sz" "area_free bm p nr"
  show "first_fit bm sz start nr \<le> p"
  proof (cases "List.find (\<lambda>p. p + nr \<le> sz \<and> area_free bm p nr) [start..<sz]")
    case None
    with p show ?thesis by (auto simp: find_None_iff)
  next
    case (Some q)
    then obtain k where k: "q = start + k" "\<forall>j<k. \<not> (start + j + nr \<le> sz \<and> area_free bm (start + j) nr)"
      by (auto simp: find_Some_iff)
    have "\<not> p < q"
    proof
      assume "p < q"
      with p(2) k(1) have "p - start < k" "start + (p - start) = p" by auto
      with k(2) p show False by metis
    qed
    with Some show ?thesis by (simp add: first_fit_def)
  qed
qed

end
