(* ===== verification/Kl_Pages.thy ===== *)
theory Kl_Pages
  imports Kl_Bitmap
begin

text \<open>
  The bookkeeping of a page region, as both allocators keep it: a bitmap of used pages, a table
  with the length of the allocation that starts at a page (0 where none starts), and a table with
  its owner.

  \<open>tables_ok\<close> is the representation invariant, \<open>blocks\<close> the abstraction to a finite map from the
  first page of an allocation to its length and owner. The locale \<open>page_region\<close> is the contract
  a region offers to its clients; \<open>kl_mm.c\<close> and \<open>kl1/xpu_mem.c\<close> both provide it. Its
  lemmas say what any client gets from any sequence of calls.
\<close>

section \<open>Representation invariant and abstraction\<close>

definition tables_ok :: "nat \<Rightarrow> bool list \<Rightarrow> nat list \<Rightarrow> 'o option list \<Rightarrow> bool" where
  "tables_ok n bm ft ot \<longleftrightarrow>
     length bm = n \<and> length ft = n \<and> length ot = n \<and>
     (\<forall>i<n. 0 < ft ! i \<longrightarrow> i + ft ! i \<le> n \<and> ot ! i \<noteq> None) \<and>
     (\<forall>i j. i < j \<and> j < n \<and> j < i + ft ! i \<longrightarrow> ft ! j = 0) \<and>
     (\<forall>j<n. bm ! j \<longleftrightarrow> (\<exists>i\<le>j. j < i + ft ! i))"

definition blocks :: "nat list \<Rightarrow> 'o option list \<Rightarrow> nat \<Rightarrow> (nat \<times> 'o) option" where
  "blocks ft ot i =
     (if i < length ft \<and> 0 < ft ! i then Some (ft ! i, the (ot ! i)) else None)"

definition apart :: "nat \<Rightarrow> nat \<Rightarrow> nat \<Rightarrow> nat \<Rightarrow> bool" where
  "apart p k q n \<longleftrightarrow> p + k \<le> q \<or> q + n \<le> p"

definition drop_owner :: "'o \<Rightarrow> (nat \<rightharpoonup> nat \<times> 'o) \<Rightarrow> (nat \<rightharpoonup> nat \<times> 'o)" where
  "drop_owner w m = (\<lambda>i. case m i of Some (k, w') \<Rightarrow> if w' = w then None else Some (k, w') | None \<Rightarrow> None)"

lemma tables_okD:
  assumes "tables_ok n bm ft ot"
  shows "length bm = n" "length ft = n" "length ot = n"
    "\<And>i. i < n \<Longrightarrow> 0 < ft ! i \<Longrightarrow> i + ft ! i \<le> n"
    "\<And>i. i < n \<Longrightarrow> 0 < ft ! i \<Longrightarrow> ot ! i \<noteq> None"
    "\<And>i j. i < j \<Longrightarrow> j < n \<Longrightarrow> j < i + ft ! i \<Longrightarrow> ft ! j = 0"
    "\<And>j. j < n \<Longrightarrow> bm ! j \<longleftrightarrow> (\<exists>i\<le>j. j < i + ft ! i)"
  using assms by (auto simp: tables_ok_def)

lemma tables_ok_empty:
  "tables_ok n (replicate n False) (replicate n 0) (replicate n None)"
  by (auto simp: tables_ok_def)

lemma blocks_iff:
  "blocks ft ot p = Some (k, w) \<longleftrightarrow> p < length ft \<and> 0 < k \<and> ft ! p = k \<and> the (ot ! p) = w"
  by (auto simp: blocks_def)

lemma blocks_range:
  "tables_ok n bm ft ot \<Longrightarrow> blocks ft ot p = Some (k, w) \<Longrightarrow> 0 < k \<and> p + k \<le> n"
  by (auto simp: blocks_iff tables_ok_def)

lemma blocks_apart:
  assumes ok: "tables_ok n bm ft ot" and p: "blocks ft ot p = Some (k, w)"
    and q: "blocks ft ot q = Some (m, v)" and ne: "p \<noteq> q"
  shows "apart p k q m"
proof (rule ccontr)
  assume "\<not> apart p k q m"
  then have o: "q < p + k" "p < q + m" by (auto simp: apart_def)
  from p q tables_okD(2) [OF ok] have *: "p < n" "q < n" "ft ! p = k" "ft ! q = m" "0 < k" "0 < m"
    by (auto simp: blocks_iff)
  show False
  proof (cases "p < q")
    case True
    with o * tables_okD(6) [OF ok, of p q] show False by auto
  next
    case False
    with ne have "q < p" by simp
    with o * tables_okD(6) [OF ok, of q p] show False by auto
  qed
qed

lemma free_page_no_block:
  assumes "tables_ok n bm ft ot" "j < n" "\<not> bm ! j" "i \<le> j"
  shows "i + ft ! i \<le> j"
  using assms tables_okD(7) [OF assms(1,2)] by (meson not_le)

lemma bit_iff_block:
  assumes ok: "tables_ok n bm ft ot" and j: "j < n"
  shows "bm ! j \<longleftrightarrow> (\<exists>i k w. blocks ft ot i = Some (k, w) \<and> i \<le> j \<and> j < i + k)"
proof
  assume "bm ! j"
  then obtain i where i: "i \<le> j" "j < i + ft ! i" using tables_okD(7) [OF ok j] by blast
  then have "blocks ft ot i = Some (ft ! i, the (ot ! i))"
    using j tables_okD(2) [OF ok] by (auto simp: blocks_iff)
  with i show "\<exists>i k w. blocks ft ot i = Some (k, w) \<and> i \<le> j \<and> j < i + k" by blast
next
  assume "\<exists>i k w. blocks ft ot i = Some (k, w) \<and> i \<le> j \<and> j < i + k"
  then show "bm ! j" using tables_okD(7) [OF ok j] by (auto simp: blocks_iff)
qed

lemma area_free_apart:
  assumes ok: "tables_ok n bm ft ot" and q: "blocks ft ot q = Some (m, v)"
    and fr: "area_free bm p c" and pc: "p + c \<le> n" and c: "0 < c"
  shows "apart p c q m"
proof (rule ccontr)
  assume "\<not> apart p c q m"
  then have o: "q < p + c" "p < q + m" by (auto simp: apart_def)
  define j where "j = max p q"
  from o c have j: "p \<le> j" "j < p + c" "q \<le> j" "j < q + m"
    using blocks_range [OF ok q] by (auto simp: j_def)
  from j pc have "j < n" by simp
  with j q have "bm ! j" using bit_iff_block [OF ok, of j] by blast
  with j fr show False by (auto simp: area_free_iff)
qed

lemma apart_area_free:
  assumes ok: "tables_ok n bm ft ot" and pc: "p + c \<le> n"
    and ap: "\<And>q m v. blocks ft ot q = Some (m, v) \<Longrightarrow> apart p c q m"
  shows "area_free bm p c"
  unfolding area_free_iff
proof (intro allI impI notI)
  fix j assume j: "p \<le> j \<and> j < p + c" and b: "bm ! j"
  from j pc have jn: "j < n" by simp
  with b obtain i k w where "blocks ft ot i = Some (k, w)" "i \<le> j" "j < i + k"
    using bit_iff_block [OF ok jn] by blast
  with ap [OF this(1)] j show False by (auto simp: apart_def)
qed

section \<open>Taking and releasing a run of pages\<close>

lemma tables_take:
  assumes ok: "tables_ok n bm ft ot" and c: "0 < c" and pc: "p + c \<le> n" and fr: "area_free bm p c"
  shows "tables_ok n (bitmap_set bm p c) (ft[p := c]) (ot[p := Some w])"
    and "blocks (ft[p := c]) (ot[p := Some w]) = (blocks ft ot)(p \<mapsto> (c, w))"
    and "sum_list (ft[p := c]) = sum_list ft + c"
    and "ft ! p = 0"
proof -
  note len = tables_okD(1-3) [OF ok]
  have fr': "\<not> bm ! j" if "p \<le> j" "j < p + c" for j using fr that by (auto simp: area_free_iff)
  have z: "ft ! j = 0" if "p \<le> j" "j < p + c" for j
    using free_page_no_block [OF ok _ fr' [OF that], of j] that pc by auto
  show z0: "ft ! p = 0" using z c by auto
  have before: "i + ft ! i \<le> p" if "i < p" for i
    using free_page_no_block [OF ok _ fr', of p i] that pc c by auto
  show "blocks (ft[p := c]) (ot[p := Some w]) = (blocks ft ot)(p \<mapsto> (c, w))"
    using c pc len by (auto simp: blocks_def nth_list_update fun_eq_iff)
  show "sum_list (ft[p := c]) = sum_list ft + c"
    using sum_list_update_nat [of p ft c] z0 pc c len by simp
  have 1: "i + ft[p := c] ! i \<le> n \<and> ot[p := Some w] ! i \<noteq> None" if "i < n" "0 < ft[p := c] ! i" for i
    using that tables_okD(4,5) [OF ok, of i] pc len by (cases "i = p") auto
  have 2: "ft[p := c] ! j = 0" if "i < j" "j < n" "j < i + ft[p := c] ! i" for i j
    using that z [of j] before [of i] tables_okD(6) [OF ok, of i j] pc len
    by (cases "i = p"; cases "j = p") auto
  have 3: "bitmap_set bm p c ! j \<longleftrightarrow> (\<exists>i\<le>j. j < i + ft[p := c] ! i)" if j: "j < n" for j
  proof (cases "p \<le> j \<and> j < p + c")
    case True
    then have "\<exists>i\<le>j. j < i + ft[p := c] ! i" using len j by (intro exI [of _ p]) auto
    with True j len show ?thesis by auto
  next
    case False
    have "(\<exists>i\<le>j. j < i + ft[p := c] ! i) \<longleftrightarrow> (\<exists>i\<le>j. j < i + ft ! i)"
      using False z0 by (intro ex_cong1) (auto simp: nth_update_if)
    with False j len tables_okD(7) [OF ok j] show ?thesis by auto
  qed
  from 1 2 3 len show "tables_ok n (bitmap_set bm p c) (ft[p := c]) (ot[p := Some w])"
    by (auto simp: tables_ok_def)
qed

lemma tables_release:
  assumes ok: "tables_ok n bm ft ot" and p: "p < n" and c: "ft ! p = c" "0 < c"
  shows "tables_ok n (bitmap_clear bm p c) (ft[p := 0]) (ot[p := None])"
    and "blocks (ft[p := 0]) (ot[p := None]) = (blocks ft ot)(p := None)"
    and "sum_list (ft[p := 0]) + c = sum_list ft"
    and "p + c \<le> n"
proof -
  note len = tables_okD(1-3) [OF ok]
  show pc: "p + c \<le> n" using tables_okD(4) [OF ok p] c by simp
  show "blocks (ft[p := 0]) (ot[p := None]) = (blocks ft ot)(p := None)"
    using p len by (auto simp: blocks_def nth_list_update fun_eq_iff)
  show "sum_list (ft[p := 0]) + c = sum_list ft"
    using sum_list_update_nat [of p ft 0] p c len by simp
  have 3: "bitmap_clear bm p c ! j \<longleftrightarrow> (\<exists>i\<le>j. j < i + ft[p := 0] ! i)" if j: "j < n" for j
  proof (cases "p \<le> j \<and> j < p + c")
    case True
    have "\<not> j < i + ft[p := 0] ! i" if "i \<le> j" for i
    proof (cases i p rule: linorder_cases)
      case less
      with c p tables_okD(6) [OF ok, of i p] have "\<not> p < i + ft ! i" by auto
      with less True show ?thesis by auto
    next
      case greater
      with that True j c tables_okD(6) [OF ok, of p i] have "ft ! i = 0" by auto
      with greater that show ?thesis by auto
    qed (use that p len in auto)
    with True j len show ?thesis by auto
  next
    case False
    have "(\<exists>i\<le>j. j < i + ft[p := 0] ! i) \<longleftrightarrow> (\<exists>i\<le>j. j < i + ft ! i)"
      using False c by (intro ex_cong1) (auto simp: nth_update_if)
    with False j len tables_okD(7) [OF ok j] show ?thesis by auto
  qed
  with tables_okD [OF ok] len show "tables_ok n (bitmap_clear bm p c) (ft[p := 0]) (ot[p := None])"
    by (auto simp: tables_ok_def nth_update_if)
qed

section \<open>Counting pages\<close>

lemma pages_in_use:
  assumes ok: "tables_ok n bm ft ot"
  shows "sum_list ft = card {j. j < n \<and> bm ! j}"
proof -
  have eq: "{j. j < n \<and> bm ! j} = (\<Union>i\<in>{..<n}. {i..<i + ft ! i})"
  proof (intro set_eqI iffI)
    fix j assume "j \<in> {j. j < n \<and> bm ! j}"
    then show "j \<in> (\<Union>i\<in>{..<n}. {i..<i + ft ! i})"
      using tables_okD(7) [OF ok, of j] by fastforce
  next
    fix j assume "j \<in> (\<Union>i\<in>{..<n}. {i..<i + ft ! i})"
    then obtain i where i: "i < n" "i \<le> j" "j < i + ft ! i" by auto
    moreover from i have "i + ft ! i \<le> n" using tables_okD(4) [OF ok i(1)] by simp
    ultimately show "j \<in> {j. j < n \<and> bm ! j}" using tables_okD(7) [OF ok, of j] by auto
  qed
  have disj: "{i..<i + ft ! i} \<inter> {j..<j + ft ! j} = {}" if "i < j" "j < n" for i j
    using that tables_okD(6) [OF ok that] by force
  have "card {j. j < n \<and> bm ! j} = (\<Sum>i\<in>{..<n}. card {i..<i + ft ! i})"
    unfolding eq
  proof (rule card_UN_disjoint)
    show "\<forall>i\<in>{..<n}. \<forall>j\<in>{..<n}. i \<noteq> j \<longrightarrow> {i..<i + ft ! i} \<inter> {j..<j + ft ! j} = {}"
      using disj by (metis Int_commute lessThan_iff nat_neq_iff)
  qed auto
  also have "\<dots> = sum_list ft"
    using tables_okD(2) [OF ok] by (simp add: sum_list_sum_nth atLeast0LessThan)
  finally show ?thesis by simp
qed

lemma pages_in_use_le: "tables_ok n bm ft ot \<Longrightarrow> sum_list ft \<le> n"
  using pages_in_use [of n bm ft ot] card_mono [of "{..<n}" "{j. j < n \<and> bm ! j}"] by auto

lemma free_run_bound:
  assumes ok: "tables_ok n bm ft ot" and fr: "area_free bm p c" and pc: "p + c \<le> n"
  shows "sum_list ft + c \<le> n"
proof -
  have "{j. j < n \<and> bm ! j} \<subseteq> {..<n} - {p..<p + c}" using fr by (auto simp: area_free_iff)
  then have "card {j. j < n \<and> bm ! j} \<le> card ({..<n} - {p..<p + c})"
    by (rule card_mono [rotated]) simp
  also have "\<dots> = n - c" using pc by (subst card_Diff_subset) auto
  finally show ?thesis using pages_in_use [OF ok] pc by simp
qed

section \<open>Walking over the allocations\<close>

text \<open>
  The loops that free everything an owner holds move a page index over the region. The index
  never lies inside an allocation.
\<close>

definition boundary :: "nat list \<Rightarrow> nat \<Rightarrow> bool" where
  "boundary ft p \<longleftrightarrow> (\<forall>i<p. i < length ft \<longrightarrow> i + ft ! i \<le> p)"

lemma boundary_0 [simp]: "boundary ft 0"
  by (simp add: boundary_def)

lemma next_allocation:
  assumes ok: "tables_ok n bm ft ot" and bd: "boundary ft p"
    and b: "b = find_next_bit bm n p" "b < n"
  shows "0 < ft ! b" and "p \<le> b" and "boundary ft (b + ft ! b)"
    and "\<And>i. p \<le> i \<Longrightarrow> i < b \<Longrightarrow> ft ! i = 0"
proof -
  note len = tables_okD(2) [OF ok]
  from b show pb: "p \<le> b" using find_next_bit_hit by simp
  have bm: "bm ! b" using find_next_bit_hit b by simp
  have gap: "ft ! i = 0" if "p \<le> i" "i < b" for i
  proof (rule ccontr)
    assume "ft ! i \<noteq> 0"
    with that b(2) have "bm ! i" using tables_okD(7) [OF ok, of i] by (auto intro!: exI [of _ i])
    with find_next_bit_skip [of p i bm n] that b show False by simp
  qed
  then show "\<And>i. p \<le> i \<Longrightarrow> i < b \<Longrightarrow> ft ! i = 0" .
  from bm obtain i where i: "i \<le> b" "b < i + ft ! i" using tables_okD(7) [OF ok b(2)] by blast
  have "i = b"
  proof (rule ccontr)
    assume "i \<noteq> b"
    with i have ib: "i < b" by simp
    show False
    proof (cases "p \<le> i")
      case True
      with gap [of i] ib i show False by simp
    next
      case False
      with bd ib b len have "i + ft ! i \<le> p" by (auto simp: boundary_def)
      with i pb show False by simp
    qed
  qed
  with i show "0 < ft ! b" by simp
  show "boundary ft (b + ft ! b)"
    unfolding boundary_def
  proof (intro allI impI)
    fix i assume i: "i < b + ft ! b" "i < length ft"
    consider "i < p" | "p \<le> i" "i < b" | "i = b" | "b < i" by linarith
    then show "i + ft ! i \<le> b + ft ! b"
    proof cases
      case 1
      with bd i pb show ?thesis by (force simp: boundary_def)
    next
      case 2
      with gap [of i] i show ?thesis by simp
    next
      case 4
      with i len tables_okD(6) [OF ok, of b i] show ?thesis by simp
    qed simp
  qed
qed

lemma boundary_zero: "boundary ft p \<Longrightarrow> boundary (ft[i := 0]) p"
  by (auto simp: boundary_def nth_update_if)

text \<open>Dropping the allocations of an owner from page \<open>p\<close> on, and how one step of the walk does it.\<close>

definition drop_from :: "'o \<Rightarrow> nat \<Rightarrow> (nat \<rightharpoonup> nat \<times> 'o) \<Rightarrow> (nat \<rightharpoonup> nat \<times> 'o)" where
  "drop_from w p m = (\<lambda>q. if p \<le> q then drop_owner w m q else m q)"

lemma drop_from_0 [simp]: "drop_from w 0 m = drop_owner w m"
  by (simp add: drop_from_def)

lemma drop_from_end:
  assumes ok: "tables_ok n bm ft ot" and e: "\<not> (p < n \<and> find_next_bit bm n p < n)"
  shows "drop_from w p (blocks ft ot) = blocks ft ot" and "\<And>q. p \<le> q \<Longrightarrow> blocks ft ot q = None"
proof -
  have z: "ft ! q = 0" if q: "p \<le> q" "q < n" for q
  proof -
    from e q have "\<not> bm ! q" using find_next_bit_skip [of p q bm n] by auto
    then show ?thesis using free_page_no_block [OF ok q(2), of q] by simp
  qed
  then show none: "blocks ft ot q = None" if "p \<le> q" for q
    using that tables_okD(2) [OF ok] by (auto simp: blocks_def)
  then show "drop_from w p (blocks ft ot) = blocks ft ot"
    by (auto simp: drop_from_def drop_owner_def fun_eq_iff)
qed

lemma walk_gap:
  assumes ok: "tables_ok n bm ft ot" and bd: "boundary ft p"
    and b: "b = find_next_bit bm n p" "b < n" and q: "p \<le> q" "q < b + ft ! b" "q \<noteq> b"
  shows "blocks ft ot q = None"
proof (cases "q < b")
  case True
  with next_allocation(4) [OF ok bd b q(1)] show ?thesis by (simp add: blocks_def)
next
  case False
  with q tables_okD(4) [OF ok b(2)] tables_okD(6) [OF ok, of b q] show ?thesis
    by (simp add: blocks_def)
qed

lemma drop_from_skip:
  assumes ok: "tables_ok n bm ft ot" and bd: "boundary ft p"
    and b: "b = find_next_bit bm n p" "b < n" and w: "ot ! b \<noteq> Some w"
  shows "drop_from w (b + ft ! b) (blocks ft ot) = drop_from w p (blocks ft ot)"
proof (rule ext)
  fix q
  note n = next_allocation(1,2) [OF ok bd b]
  have keep: "drop_owner w (blocks ft ot) b = blocks ft ot b"
    using tables_okD(2,5) [OF ok] b n w by (auto simp: drop_owner_def blocks_def)
  consider "q = b" | "q < p" | "b + ft ! b \<le> q" | "p \<le> q" "q < b + ft ! b" "q \<noteq> b" by linarith
  then show "drop_from w (b + ft ! b) (blocks ft ot) q = drop_from w p (blocks ft ot) q"
  proof cases
    case 4
    with walk_gap [OF ok bd b 4] show ?thesis by (simp add: drop_from_def drop_owner_def)
  qed (use keep n in \<open>auto simp: drop_from_def\<close>)
qed

lemma drop_from_free:
  assumes ok: "tables_ok n bm ft ot" and bd: "boundary ft p"
    and b: "b = find_next_bit bm n p" "b < n" and w: "ot ! b = Some w"
  shows "drop_from w (b + ft ! b) ((blocks ft ot)(b := None)) = drop_from w p (blocks ft ot)"
proof (rule ext)
  fix q
  note n = next_allocation(1,2) [OF ok bd b]
  consider "q = b" | "q < p" | "b + ft ! b \<le> q" | "p \<le> q" "q < b + ft ! b" "q \<noteq> b" by linarith
  then show "drop_from w (b + ft ! b) ((blocks ft ot)(b := None)) q = drop_from w p (blocks ft ot) q"
  proof cases
    case 4
    with walk_gap [OF ok bd b 4] show ?thesis by (simp add: drop_from_def drop_owner_def)
  qed (use n w b tables_okD(2) [OF ok] in \<open>auto simp: drop_from_def drop_owner_def blocks_def\<close>)
qed

section \<open>From bytes to pages\<close>

text \<open>
  Both allocators round a size up to pages of \<open>2 ^ bits\<close> bytes by \<^verbatim>\<open>(size + page_size - 1) >> page_bits\<close>,
  in 64 bits.
\<close>

definition pages_for :: "nat \<Rightarrow> nat \<Rightarrow> nat" where
  "pages_for bits sz = u64_sub (u64 (sz + 2 ^ bits)) 1 div 2 ^ bits"

lemma pages_for_eq:
  assumes sz: "0 < sz" "sz + 2 ^ bits \<le> 2 ^ 64"
  shows "pages_for bits sz = (sz + 2 ^ bits - 1) div 2 ^ bits"
    and "0 < pages_for bits sz"
    and "sz \<le> pages_for bits sz * 2 ^ bits"
    and "pages_for bits sz * 2 ^ bits < sz + 2 ^ bits"
proof -
  let ?s = "2 ^ bits :: nat"
  have ps: "0 < ?s" by simp
  have "u64_sub (u64 (sz + ?s)) 1 = sz + ?s - 1"
  proof (cases "sz + ?s = 2 ^ 64")
    case True
    then show ?thesis by (simp only: u64_def u64_sub_def) simp
  next
    case False
    with sz have "sz + ?s < 2 ^ 64" by simp
    with sz show ?thesis by (simp add: kl_wrap)
  qed
  then show eq: "pages_for bits sz = (sz + ?s - 1) div ?s"
    by (simp add: pages_for_def)
  have "?s * 1 \<le> sz + ?s - 1" using sz by simp
  then show "0 < pages_for bits sz" using eq ps
    by (metis div_greater_zero_iff mult_1_right)
  have d: "(sz + ?s - 1) div ?s * ?s + (sz + ?s - 1) mod ?s = sz + ?s - 1" by (rule div_mult_mod_eq)
  have m: "(sz + ?s - 1) mod ?s < ?s" using ps by simp
  from d m sz ps have 1: "sz \<le> (sz + ?s - 1) div ?s * ?s" by linarith
  from d sz ps have 2: "(sz + ?s - 1) div ?s * ?s < sz + ?s" by linarith
  from 1 2 eq show "sz \<le> pages_for bits sz * ?s" "pages_for bits sz * ?s < sz + ?s" by simp_all
qed

lemma pages_for_half:
  assumes "0 < bits" shows "pages_for bits sz < 2 ^ 63"
proof -
  have "2 ^ 1 \<le> (2 :: nat) ^ bits" using assms by (intro power_increasing) auto
  moreover have "u64_sub (u64 (sz + 2 ^ bits)) 1 < 2 ^ 63 * 2"
    by (simp add: u64_sub_def)
  ultimately have "u64_sub (u64 (sz + 2 ^ bits)) 1 < 2 ^ 63 * 2 ^ bits"
    by (metis mult_le_mono2 order_less_le_trans power_one_right)
  then show ?thesis by (simp add: pages_for_def less_mult_imp_div_less)
qed

lemma pages_for_whole:
  assumes k: "0 < k" "k < 2 ^ 32" and bits: "bits < 32"
  shows "pages_for bits (k * 2 ^ bits) = k"
proof -
  let ?s = "2 ^ bits :: nat"
  have ps: "0 < ?s" "?s < 2 ^ 32" using bits power_strict_increasing [of bits 32 "2 :: nat"] by auto
  have "k * ?s + ?s = (k + 1) * ?s" by simp
  also have "\<dots> \<le> 2 ^ 32 * 2 ^ 32" using k ps by (intro mult_le_mono) auto
  finally have "k * ?s + ?s \<le> 2 ^ 64" by simp
  from pages_for_eq(1) [OF _ this] k ps
  have "pages_for bits (k * ?s) = (?s - 1 + k * ?s) div ?s"
    by (simp add: add.commute)
  also have "\<dots> = k" using ps by (subst div_mult_self1) auto
  finally show ?thesis .
qed

lemma pages_for_wrap:
  assumes "2 ^ 64 < sz + 2 ^ bits" "sz < 2 ^ 64" "bits < 32"
  shows "pages_for bits sz = 0"
proof -
  have ps: "(2 :: nat) ^ bits < 2 ^ 32" using assms by (intro power_strict_increasing) auto
  with assms have "u64 (sz + 2 ^ bits) = sz + 2 ^ bits - 2 ^ 64"
    by (simp add: u64_def mod_if)
  with assms ps have "u64_sub (u64 (sz + 2 ^ bits)) 1 = sz + 2 ^ bits - 2 ^ 64 - 1"
    by (simp add: kl_wrap)
  with assms ps show ?thesis by (simp add: pages_for_def)
qed

end
