(* ===== verification/Kl_Region.thy ===== *)
theory Kl_Region
  imports Kl_Pages
begin

text \<open>
  The contract of a page region towards its clients: the locale \<open>page_region\<close>. A provider
  allocates a run of pages for an owner, frees an allocation, and purges everything an owner
  holds. The laws say what each call does to the map of live allocations; the lemmas inside the
  locale say what follows for any sequence of calls. \<open>Kl_Mm\<close> and \<open>Kl1_Mem\<close> interpret the
  locale on the operations of the two drivers.
\<close>

section \<open>Calls on a region\<close>

datatype 'o region_call = Alloc nat 'o | Free nat 'o | Purge 'o

text \<open>A failed allocation or free leaves the region as it was; a purge may not return.\<close>

fun region_step ::
    "('s \<Rightarrow> nat \<Rightarrow> 'o \<Rightarrow> ('s \<times> nat) option) \<Rightarrow> ('s \<Rightarrow> nat \<Rightarrow> 'o \<Rightarrow> 's option) \<Rightarrow> ('s \<Rightarrow> 'o \<Rightarrow> 's option) \<Rightarrow>
     's \<Rightarrow> 'o region_call \<Rightarrow> 's option" where
  "region_step alloc free purge s (Alloc k w) = Some (case alloc s k w of None \<Rightarrow> s | Some (s', _) \<Rightarrow> s')"
| "region_step alloc free purge s (Free p w) = Some (case free s p w of None \<Rightarrow> s | Some s' \<Rightarrow> s')"
| "region_step alloc free purge s (Purge w) = purge s w"

fun region_run ::
    "('s \<Rightarrow> nat \<Rightarrow> 'o \<Rightarrow> ('s \<times> nat) option) \<Rightarrow> ('s \<Rightarrow> nat \<Rightarrow> 'o \<Rightarrow> 's option) \<Rightarrow> ('s \<Rightarrow> 'o \<Rightarrow> 's option) \<Rightarrow>
     's \<Rightarrow> 'o region_call list \<Rightarrow> 's option" where
  "region_run alloc free purge s [] = Some s"
| "region_run alloc free purge s (c # cs) =
     (case region_step alloc free purge s c of
        None \<Rightarrow> None | Some s' \<Rightarrow> region_run alloc free purge s' cs)"

text \<open>Calls within the size of the region: at least one page and at most as many as there are.\<close>

fun call_ok :: "nat \<Rightarrow> 'o region_call \<Rightarrow> bool" where
  "call_ok n (Alloc k w) \<longleftrightarrow> 0 < k \<and> k \<le> n"
| "call_ok n (Free p w) \<longleftrightarrow> p < n"
| "call_ok n (Purge w) \<longleftrightarrow> True"

section \<open>The contract\<close>

locale page_region =
  fixes inv :: "'s \<Rightarrow> bool"
    and size :: "'s \<Rightarrow> nat"
    and used :: "'s \<Rightarrow> nat"
    and live :: "'s \<Rightarrow> nat \<rightharpoonup> nat \<times> 'o"
    and alloc :: "'s \<Rightarrow> nat \<Rightarrow> 'o \<Rightarrow> ('s \<times> nat) option"
    and free :: "'s \<Rightarrow> nat \<Rightarrow> 'o \<Rightarrow> 's option"
    and purge :: "'s \<Rightarrow> 'o \<Rightarrow> 's option"
  assumes live_range: "inv s \<Longrightarrow> live s p = Some (k, w) \<Longrightarrow> 0 < k \<and> p + k \<le> size s"
    and live_apart: "inv s \<Longrightarrow> live s p = Some (k, w) \<Longrightarrow> live s q = Some (m, v) \<Longrightarrow> p \<noteq> q \<Longrightarrow> apart p k q m"
    and used_live: "inv s \<Longrightarrow> used s = (\<Sum>p\<in>dom (live s). fst (the (live s p)))"
    and alloc_some: "inv s \<Longrightarrow> 0 < k \<Longrightarrow> k \<le> size s \<Longrightarrow> alloc s k w = Some (s', p) \<Longrightarrow>
       inv s' \<and> size s' = size s \<and> live s p = None \<and> live s' = (live s)(p \<mapsto> (k, w))"
    and alloc_none: "inv s \<Longrightarrow> 0 < k \<Longrightarrow> k \<le> size s \<Longrightarrow> alloc s k w = None \<Longrightarrow> p + k \<le> size s \<Longrightarrow>
       \<exists>q m v. live s q = Some (m, v) \<and> \<not> apart p k q m"
    and free_own: "inv s \<Longrightarrow> live s p = Some (k, w) \<Longrightarrow>
       \<exists>s'. free s p w = Some s' \<and> inv s' \<and> size s' = size s \<and> live s' = (live s)(p := None)"
    and free_other: "inv s \<Longrightarrow> p < size s \<Longrightarrow> (\<nexists>k. live s p = Some (k, w)) \<Longrightarrow> free s p w = None"
    and purge_all: "inv s \<Longrightarrow>
       \<exists>s'. purge s w = Some s' \<and> inv s' \<and> size s' = size s \<and> live s' = drop_owner w (live s)"
begin

lemma step_inv:
  assumes "inv s" and "call_ok (size s) c"
  shows "\<exists>s'. region_step alloc free purge s c = Some s' \<and> inv s' \<and> size s' = size s"
proof (cases c)
  case (Alloc k w)
  show ?thesis
  proof (cases "alloc s k w")
    case None
    with Alloc assms show ?thesis by simp
  next
    case (Some r)
    obtain s' p where r: "r = (s', p)" by (cases r)
    with Some Alloc assms alloc_some [of s k w s' p] show ?thesis by simp
  qed
next
  case (Free p w)
  show ?thesis
  proof (cases "\<exists>k. live s p = Some (k, w)")
    case True
    with free_own [OF assms(1)] Free show ?thesis by fastforce
  next
    case False
    with free_other [OF assms(1)] Free assms show ?thesis by simp
  qed
next
  case (Purge w)
  with purge_all [OF assms(1), of w] show ?thesis by auto
qed

lemma run_inv:
  assumes "inv s" and "\<forall>c\<in>set cs. call_ok (size s) c"
  shows "\<exists>s'. region_run alloc free purge s cs = Some s' \<and> inv s' \<and> size s' = size s"
  using assms
proof (induction cs arbitrary: s)
  case (Cons c cs)
  from step_inv [of s c] Cons.prems obtain s' where s':
    "region_step alloc free purge s c = Some s'" "inv s'" "size s' = size s" by auto
  with Cons.IH [of s'] Cons.prems show ?case by auto
qed simp

lemma used_le: assumes "inv s" shows "used s \<le> size s"
proof -
  let ?D = "dom (live s)"
  have sub: "?D \<subseteq> {..<size s}"
    using live_range [OF assms] by fastforce
  then have fin: "finite ?D" by (rule finite_subset) simp
  have "(\<Sum>p\<in>?D. fst (the (live s p))) = (\<Sum>p\<in>?D. card {p..<p + fst (the (live s p))})" by simp
  also have "\<dots> = card (\<Union>p\<in>?D. {p..<p + fst (the (live s p))})"
  proof (rule card_UN_disjoint [symmetric, OF fin])
    show "\<forall>i\<in>?D. \<forall>j\<in>?D. i \<noteq> j \<longrightarrow>
        {i..<i + fst (the (live s i))} \<inter> {j..<j + fst (the (live s j))} = {}"
      using live_apart [OF assms] by (fastforce simp: apart_def)
  qed simp
  also have "\<dots> \<le> card {..<size s}"
    by (rule card_mono) (use live_range [OF assms] in \<open>fastforce+\<close>)
  finally show ?thesis using used_live [OF assms] by simp
qed

lemma alloc_used:
  assumes "inv s" "0 < k" "k \<le> size s" "alloc s k w = Some (s', p)"
  shows "used s' = used s + k"
proof -
  note a = alloc_some [OF assms]
  have fin: "finite (dom (live s))"
    by (rule finite_subset [of _ "{..<size s}"]) (use live_range [OF assms(1)] in fastforce)+
  from a have "used s' = (\<Sum>q\<in>insert p (dom (live s)). fst (the (((live s)(p \<mapsto> (k, w))) q)))"
    using used_live [of s'] by simp
  also have "\<dots> = k + (\<Sum>q\<in>dom (live s). fst (the (((live s)(p \<mapsto> (k, w))) q)))"
    using a fin by (subst sum.insert) auto
  also have "(\<Sum>q\<in>dom (live s). fst (the (((live s)(p \<mapsto> (k, w))) q))) =
      (\<Sum>q\<in>dom (live s). fst (the (live s q)))"
    by (rule sum.cong) (use a in auto)
  finally show ?thesis using used_live [OF assms(1)] by simp
qed

lemma alloc_free_restores:
  assumes "inv s" "0 < k" "k \<le> size s" "alloc s k w = Some (s', p)"
  shows "\<exists>s''. free s' p w = Some s'' \<and> inv s'' \<and> live s'' = live s \<and> used s'' = used s"
proof -
  note a = alloc_some [OF assms]
  then obtain s'' where s'': "free s' p w = Some s''" "inv s''" "live s'' = (live s')(p := None)"
    using free_own [of s' p k w] by auto
  have "live s'' = live s" using a s'' by (auto simp: fun_eq_iff)
  then show ?thesis using s'' used_live [OF s''(2)] used_live [OF assms(1)] by auto
qed

text \<open>After any calls, purging an owner leaves no allocation of it and every other one as it was.\<close>

lemma run_purge:
  assumes "inv s" and "\<forall>c\<in>set cs. call_ok (size s) c"
  shows "\<exists>s1 s2. region_run alloc free purge s cs = Some s1 \<and>
           region_run alloc free purge s (cs @ [Purge w]) = Some s2 \<and>
           live s2 = drop_owner w (live s1)"
proof -
  have app: "region_run alloc free purge t (cs @ [c]) =
      (case region_run alloc free purge t cs of None \<Rightarrow> None | Some t' \<Rightarrow> region_step alloc free purge t' c)"
    for t c cs
    by (induction cs arbitrary: t) (auto split: option.splits)
  from run_inv [OF assms] obtain s1 where
    s1: "region_run alloc free purge s cs = Some s1" "inv s1" by auto
  with purge_all [OF s1(2), of w] app [of s cs "Purge w"] show ?thesis by auto
qed

end

section \<open>What the tables give\<close>

lemma used_live_tables:
  assumes ok: "tables_ok n bm ft ot"
  shows "sum_list ft = (\<Sum>p\<in>dom (blocks ft ot). fst (the (blocks ft ot p)))"
proof -
  have "sum_list ft = (\<Sum>i\<in>{..<length ft}. ft ! i)"
    by (simp add: sum_list_sum_nth atLeast0LessThan)
  also have "\<dots> = (\<Sum>i\<in>dom (blocks ft ot). ft ! i)"
    by (rule sum.mono_neutral_right) (auto simp: blocks_def split: if_splits)
  also have "\<dots> = (\<Sum>p\<in>dom (blocks ft ot). fst (the (blocks ft ot p)))"
    by (rule sum.cong) (auto simp: blocks_def split: if_splits)
  finally show ?thesis .
qed

section \<open>Pages held by a group of owners\<close>

text \<open>
  The pages of the allocations whose owner belongs to group \<open>c\<close>; \<open>xctx\<close> says which group an owner
  belongs to (the context of a KL1 session, the process or the instance of a KL2 session).
\<close>

definition owned :: "('o \<Rightarrow> nat) \<Rightarrow> nat \<Rightarrow> (nat \<rightharpoonup> nat \<times> 'o) \<Rightarrow> nat" where
  "owned xctx c bl = (\<Sum>p\<in>dom bl. if xctx (snd (the (bl p))) = c then fst (the (bl p)) else 0)"

lemma owned_new:
  assumes "finite (dom bl)" "bl p = None"
  shows "owned xctx c (bl(p \<mapsto> (k, w))) = owned xctx c bl + (if xctx w = c then k else 0)"
proof -
  have "owned xctx c (bl(p \<mapsto> (k, w))) = (if xctx w = c then k else 0) +
      (\<Sum>q\<in>dom bl. if xctx (snd (the ((bl(p \<mapsto> (k, w))) q))) = c then fst (the ((bl(p \<mapsto> (k, w))) q)) else 0)"
    using assms by (simp add: owned_def domIff)
  also have "(\<Sum>q\<in>dom bl. if xctx (snd (the ((bl(p \<mapsto> (k, w))) q))) = c then fst (the ((bl(p \<mapsto> (k, w))) q)) else 0)
      = owned xctx c bl"
    unfolding owned_def by (rule sum.cong) (use assms in auto)
  finally show ?thesis by (simp only: add.commute)
qed

lemma owned_gone:
  assumes "finite (dom bl)" "bl p = Some (k, w)"
  shows "owned xctx c (bl(p := None)) + (if xctx w = c then k else 0) = owned xctx c bl"
proof -
  have "(bl(p := None))(p \<mapsto> (k, w)) = bl" using assms by auto
  with owned_new [of "bl(p := None)" p xctx c k w] assms show ?thesis by simp
qed

lemma blocks_finite: "tables_ok n bm ft ot \<Longrightarrow> finite (dom (blocks ft ot))"
  by (rule finite_subset [of _ "{..<length ft}"]) (auto simp: blocks_def split: if_splits)

lemma owned_le:
  assumes ok: "tables_ok n bm ft ot"
  shows "owned xctx c (blocks ft ot) \<le> n"
proof -
  have "owned xctx c (blocks ft ot) \<le> (\<Sum>p\<in>dom (blocks ft ot). fst (the (blocks ft ot p)))"
    unfolding owned_def by (rule sum_mono) simp
  also have "\<dots> \<le> n" using used_live_tables [OF ok] pages_in_use_le [OF ok] by simp
  finally show ?thesis .
qed

end
