(* ===== verification/Kl_Mm.thy ===== *)
theory Kl_Mm
  imports Kl_Region
begin

text \<open>
  The device memory manager of KL2, \<^verbatim>\<open>kl_mm.c\<close> and \<^verbatim>\<open>kl_mm.h\<close>: regions of pages with a bitmap,
  a length table and an owner table each, allocation by first fit within the regions of a kind,
  and "huge" allocations that may cross the border between neighbouring main-memory regions.

  Spin locks are part of the state. Taking a lock that is already held spins forever, which is
  the outcome \<^term>\<open>None\<close>. The allocator of the kernel is the argument \<open>find_area\<close>
  (\<open>zero_area_finder\<close>); \<^verbatim>\<open>vzalloc\<close> and \<^verbatim>\<open>kcalloc\<close> may fail, which is an argument
  of \<open>kl_mm_init\<close>. The statistics callback is modelled by the list of its calls. Pointer
  arguments that the callers never pass as NULL have no NULL case.
\<close>

section \<open>Data\<close>

definition XPU_MEM_MAIN :: nat where "XPU_MEM_MAIN = 0"
definition XPU_MEM_L3 :: nat where "XPU_MEM_L3 = 1"
definition XPU_MEM_CODE :: nat where "XPU_MEM_CODE = 2"
definition XPU_MEM_PARAM :: nat where "XPU_MEM_PARAM = 3"
definition XPU_MEM_PRINTF :: nat where "XPU_MEM_PRINTF = 4"
definition XPU_MEM_RESERVED :: nat where "XPU_MEM_RESERVED = 5"
definition XPU_MEM_COUNT :: nat where "XPU_MEM_COUNT = 6"
definition XPU_MEM_MAIN_KL2_HUGE :: nat where "XPU_MEM_MAIN_KL2_HUGE = 17"
definition BITS_PER_LONG :: nat where "BITS_PER_LONG = 64"

lemmas xpu_mem_kinds = XPU_MEM_MAIN_def XPU_MEM_L3_def XPU_MEM_CODE_def XPU_MEM_PARAM_def
  XPU_MEM_PRINTF_def XPU_MEM_RESERVED_def XPU_MEM_COUNT_def XPU_MEM_MAIN_KL2_HUGE_def

record kl_memory_info =
  info_base :: nat
  info_size :: nat
  info_page_bits :: nat
  info_kind :: nat

record 'o kl_memory =
  km_idx :: nat
  km_kind :: nat
  km_lock :: bool
  km_base :: nat
  km_size :: nat
  km_limit :: nat
  km_page_bits :: nat
  km_page_size :: nat
  km_page_count :: nat
  km_page_bitmap :: "bool list"
  km_page_current :: nat
  km_page_used :: nat
  km_free_table :: "nat list"
  km_owner_table :: "'o option list"

record 'o kl_mm =
  mm_mem :: "'o kl_memory list"
  mm_huge_mem :: "'o kl_memory"

text \<open>One call of the callback \<^verbatim>\<open>kl_mm_cb_t\<close>: what it gets, with the fields of the region it reads.\<close>

record 'o kl_mm_cb_call =
  cb_addr :: nat
  cb_size :: nat
  cb_kind :: nat
  cb_owner :: 'o
  cb_mem_kind :: nat
  cb_mem_page_size :: nat
  cb_mem_page_bits :: nat

definition cb_call :: "nat \<Rightarrow> nat \<Rightarrow> nat \<Rightarrow> 'o \<Rightarrow> 'o kl_memory \<Rightarrow> 'o kl_mm_cb_call" where
  "cb_call addr sz kind w mem =
     \<lparr>cb_addr = addr, cb_size = sz, cb_kind = kind, cb_owner = w, cb_mem_kind = km_kind mem,
      cb_mem_page_size = km_page_size mem, cb_mem_page_bits = km_page_bits mem\<rparr>"

definition pageid_to_addr :: "'o kl_memory \<Rightarrow> nat \<Rightarrow> nat" where
  "pageid_to_addr mem page_id = u64 (km_base mem + page_id * 2 ^ km_page_bits mem)"

definition addr_to_pageid :: "'o kl_memory \<Rightarrow> nat \<Rightarrow> nat" where
  "addr_to_pageid mem addr = u64_sub addr (km_base mem) div 2 ^ km_page_bits mem"

definition spin_lock :: "'o kl_memory \<Rightarrow> 'o kl_memory option" where
  "spin_lock mem = (if km_lock mem then None else Some (mem\<lparr>km_lock := True\<rparr>))"

definition spin_unlock :: "'o kl_memory \<Rightarrow> 'o kl_memory" where
  "spin_unlock mem = mem\<lparr>km_lock := False\<rparr>"

section \<open>Setting up\<close>

definition empty_kl_memory :: "nat \<Rightarrow> 'o kl_memory" where
  "empty_kl_memory i =
     \<lparr>km_idx = i, km_kind = 0, km_lock = False, km_base = 0, km_size = 0, km_limit = 0,
      km_page_bits = 0, km_page_size = 0, km_page_count = 0, km_page_bitmap = [],
      km_page_current = 0, km_page_used = 0, km_free_table = [], km_owner_table = []\<rparr>"

definition setup_kl_memory :: "'o kl_memory \<Rightarrow> kl_memory_info \<Rightarrow> bool \<Rightarrow> kl_err + 'o kl_memory" where
  "setup_kl_memory mem info vzalloc_ok =
     (let count = info_size info div 2 ^ info_page_bits info;
          mem1 = mem\<lparr>km_kind := info_kind info, km_base := info_base info,
                     km_size := info_size info, km_limit := u64 (info_base info + info_size info),
                     km_page_bits := info_page_bits info,
                     km_page_size := u32 (2 ^ info_page_bits info),
                     km_page_count := count, km_page_current := 0, km_page_used := 0\<rparr>
      in if count \<noteq> 0 then
           (if vzalloc_ok then
              Inr (mem1\<lparr>km_page_bitmap := replicate count False,
                        km_free_table := replicate count 0,
                        km_owner_table := replicate count None, km_lock := False\<rparr>)
            else Inl XPUERR_NOCPUMEM)
         else Inr (mem1\<lparr>km_lock := False\<rparr>))"

definition unsetup_kl_memory :: "'o kl_memory \<Rightarrow> 'o kl_memory" where
  "unsetup_kl_memory mem =
     mem\<lparr>km_page_size := 0, km_page_count := 0, km_page_current := 0, km_page_used := 0,
         km_owner_table := [], km_free_table := [], km_page_bitmap := []\<rparr>"

text \<open>
  The first loop of \<^verbatim>\<open>kl_mm_init\<close>: the main-memory entries must be page aligned, hold a multiple
  of 64 pages, agree on the page size and follow each other without a gap. The accumulator is
  \<^verbatim>\<open>huge_mem_info\<close> and \<^verbatim>\<open>last_info_limit\<close>.
\<close>

fun check_main_infos :: "kl_memory_info list \<Rightarrow> kl_memory_info \<Rightarrow> nat \<Rightarrow> kl_err + kl_memory_info" where
  "check_main_infos [] huge lim = Inr huge"
| "check_main_infos (info # rest) huge lim =
     (if info_kind info \<noteq> XPU_MEM_MAIN then check_main_infos rest huge lim
      else if info_base info mod 2 ^ info_page_bits info \<noteq> 0 then Inl XPUERR_INVALID_PARAM
      else if info_size info mod 2 ^ info_page_bits info \<noteq> 0 then Inl XPUERR_INVALID_PARAM
      else if (info_size info div 2 ^ info_page_bits info) mod BITS_PER_LONG \<noteq> 0
        then Inl XPUERR_INVALID_PARAM
      else if info_size huge \<noteq> 0 \<and> info_page_bits huge \<noteq> info_page_bits info
        then Inl XPUERR_INVALID_PARAM
      else if info_size huge \<noteq> 0 \<and> lim \<noteq> info_base info then Inl XPUERR_INVALID_PARAM
      else
        let huge1 = (if info_size huge \<noteq> 0 then huge
                     else huge\<lparr>info_base := info_base info, info_page_bits := info_page_bits info\<rparr>)
        in check_main_infos rest (huge1\<lparr>info_size := u64 (info_size huge1 + info_size info)\<rparr>)
             (u64 (info_base info + info_size info)))"

text \<open>
  The allocations \<^verbatim>\<open>kl_mm_init\<close> makes, each of which may fail: the array of regions, the tables
  of the region with a given index, the huge region and its tables.
\<close>

record kl_mm_allocs =
  ka_array :: bool
  ka_tables :: "nat \<Rightarrow> bool"
  ka_huge :: bool
  ka_huge_tables :: bool

text \<open>The set-up loop: the error and the index it failed at, or all regions.\<close>

fun setup_all :: "(nat \<Rightarrow> bool) \<Rightarrow> nat \<Rightarrow> kl_memory_info list \<Rightarrow> (kl_err \<times> nat) + 'o kl_memory list" where
  "setup_all ok i [] = Inr []"
| "setup_all ok i (info # rest) =
     (case setup_kl_memory (empty_kl_memory i) info (ok i) of
        Inl e \<Rightarrow> Inl (e, i)
      | Inr m \<Rightarrow> (case setup_all ok (Suc i) rest of Inl e \<Rightarrow> Inl e | Inr ms \<Rightarrow> Inr (m # ms)))"

text \<open>On failure the second component lists the regions that are torn down again, in order.\<close>

definition kl_mm_init :: "kl_mm_allocs \<Rightarrow> kl_memory_info list \<Rightarrow> (kl_err \<times> nat list) + 'o kl_mm" where
  "kl_mm_init ka infos =
     (case check_main_infos infos
             \<lparr>info_base = 2 ^ 64 - 1, info_size = 0, info_page_bits = 0, info_kind = XPU_MEM_MAIN\<rparr> 0 of
        Inl e \<Rightarrow> Inl (e, [])
      | Inr huge_info \<Rightarrow>
          if \<not> ka_array ka then Inl (XPUERR_NOCPUMEM, [])
          else (case setup_all (ka_tables ka) 0 infos of
                  Inl (e, i) \<Rightarrow> Inl (e, rev [0..<i])
                | Inr mems \<Rightarrow>
                    if \<not> ka_huge ka then Inl (XPUERR_NOCPUMEM, rev [0..<length infos])
                    else (case setup_kl_memory (empty_kl_memory 0) huge_info (ka_huge_tables ka) of
                            Inl e \<Rightarrow> Inl (e, rev [0..<length infos])
                          | Inr huge \<Rightarrow> Inr \<lparr>mm_mem = mems, mm_huge_mem = huge\<rparr>)))"

definition kl_mm_uninit :: "'o kl_mm \<Rightarrow> 'o kl_mm" where
  "kl_mm_uninit mm = \<lparr>mm_mem = [], mm_huge_mem = unsetup_kl_memory (mm_huge_mem mm)\<rparr>"

section \<open>Pages of one region\<close>

text \<open>
  The kernel's bitmap functions take the number of bits, and \<^verbatim>\<open>bitmap_set\<close> also the first bit, as
  \<^verbatim>\<open>unsigned int\<close>: the 64 bit page numbers of the caller are truncated.
\<close>

definition find_free_pages ::
    "(bool list \<Rightarrow> nat \<Rightarrow> nat \<Rightarrow> nat \<Rightarrow> nat) \<Rightarrow> 'o kl_memory \<Rightarrow> nat \<Rightarrow> kl_err + nat" where
  "find_free_pages find_area mem page_cnt =
     (let pos = find_area (km_page_bitmap mem) (km_page_count mem) 0 (u32 page_cnt)
      in if pos \<ge> km_page_count mem then Inl XPUERR_NOMEM else Inr pos)"

definition take_pages :: "'o kl_memory \<Rightarrow> nat \<Rightarrow> nat \<Rightarrow> 'o \<Rightarrow> 'o kl_memory" where
  "take_pages mem page_id page_cnt w =
     mem\<lparr>km_page_bitmap := bitmap_set (km_page_bitmap mem) (u32 page_id) (u32 page_cnt),
         km_page_used := u64 (km_page_used mem + page_cnt),
         km_free_table := (km_free_table mem)[page_id := page_cnt],
         km_owner_table := (km_owner_table mem)[page_id := Some w],
         km_page_current :=
           (if u64 (page_id + page_cnt) \<ge> km_page_count mem then 0 else u64 (page_id + page_cnt))\<rparr>"

definition release_pages :: "'o kl_memory \<Rightarrow> nat \<Rightarrow> nat \<Rightarrow> 'o kl_memory" where
  "release_pages mem page_id page_cnt =
     mem\<lparr>km_page_bitmap := bitmap_clear (km_page_bitmap mem) (u32 page_id) (u32 page_cnt),
         km_page_used := u64_sub (km_page_used mem) page_cnt,
         km_free_table := (km_free_table mem)[page_id := 0],
         km_owner_table := (km_owner_table mem)[page_id := None]\<rparr>"

definition malloc_pages_needed :: "'o kl_memory \<Rightarrow> nat \<Rightarrow> nat" where
  "malloc_pages_needed mem sz = u64_sub (u64 (sz + km_page_size mem)) 1 div 2 ^ km_page_bits mem"

definition malloc_locked ::
    "(bool list \<Rightarrow> nat \<Rightarrow> nat \<Rightarrow> nat \<Rightarrow> nat) \<Rightarrow> 'o kl_memory \<Rightarrow> nat \<Rightarrow> 'o \<Rightarrow> kl_err + 'o kl_memory \<times> nat" where
  "malloc_locked find_area mem sz w =
     (let page_needed = malloc_pages_needed mem sz
      in if u64 (page_needed + km_page_used mem) > km_page_count mem then Inl XPUERR_NOMEM
         else (case find_free_pages find_area mem page_needed of
                 Inl _ \<Rightarrow> Inl XPUERR_NOMEM
               | Inr page_id \<Rightarrow>
                   Inr (take_pages mem page_id page_needed w, pageid_to_addr mem page_id)))"

section \<open>Huge allocations\<close>

text \<open>\<^verbatim>\<open>memcpy\<close> of \<open>cnt\<close> bits (a whole number of bytes) to bit \<open>off\<close> of the destination.\<close>

definition memcpy_bits :: "bool list \<Rightarrow> nat \<Rightarrow> bool list \<Rightarrow> nat \<Rightarrow> bool list" where
  "memcpy_bits dst off src cnt = take off dst @ take cnt src @ drop (off + cnt) dst"

text \<open>
  The macro \<^verbatim>\<open>lock_and_sync_mem_bitmap\<close>: lock the main-memory regions in order and copy their
  bitmaps into the one of the huge region. The destination is a pointer to \<^verbatim>\<open>unsigned long\<close>
  advanced by \<^verbatim>\<open>page_id_begin / BITS_PER_LONG\<close>; the length is \<^verbatim>\<open>page_count >> 3\<close> bytes.
\<close>

fun lock_and_sync_mem_bitmap ::
    "'o kl_memory list \<Rightarrow> nat \<Rightarrow> bool list \<Rightarrow> ('o kl_memory list \<times> bool list) option" where
  "lock_and_sync_mem_bitmap [] page_id_begin hb = Some ([], hb)"
| "lock_and_sync_mem_bitmap (m # ms) page_id_begin hb =
     (if km_kind m \<noteq> XPU_MEM_MAIN then do {
        (ms', hb') \<leftarrow> lock_and_sync_mem_bitmap ms page_id_begin hb;
        Some (m # ms', hb')
      } else do {
        m' \<leftarrow> spin_lock m;
        (ms', hb') \<leftarrow> lock_and_sync_mem_bitmap ms (u64 (page_id_begin + km_page_count m))
          (memcpy_bits hb (page_id_begin div BITS_PER_LONG * BITS_PER_LONG)
             (km_page_bitmap m) (km_page_count m div 8 * 8));
        Some (m' # ms', hb')
      })"

text \<open>The macro \<^verbatim>\<open>sync_mem_bitmap_and_unlock\<close>: copy back and unlock.\<close>

fun sync_mem_bitmap_and_unlock :: "'o kl_memory list \<Rightarrow> nat \<Rightarrow> bool list \<Rightarrow> 'o kl_memory list" where
  "sync_mem_bitmap_and_unlock [] page_id_begin hb = []"
| "sync_mem_bitmap_and_unlock (m # ms) page_id_begin hb =
     (if km_kind m \<noteq> XPU_MEM_MAIN then m # sync_mem_bitmap_and_unlock ms page_id_begin hb
      else
        spin_unlock (m\<lparr>km_page_bitmap := memcpy_bits (km_page_bitmap m) 0
            (drop (page_id_begin div BITS_PER_LONG * BITS_PER_LONG) hb) (km_page_count m div 8 * 8)\<rparr>)
        # sync_mem_bitmap_and_unlock ms (u64 (page_id_begin + km_page_count m)) hb)"

text \<open>The loop of \<^verbatim>\<open>__malloc_huge_mem\<close> that enters the allocation into the regions it covers.\<close>

fun huge_enter :: "'o kl_memory list \<Rightarrow> nat \<Rightarrow> nat \<Rightarrow> nat \<Rightarrow> bool \<Rightarrow> 'o \<Rightarrow> 'o kl_memory list" where
  "huge_enter [] page_id_begin page_id page_needed first_mem w = []"
| "huge_enter (m # ms) page_id_begin page_id page_needed first_mem w =
     (if km_kind m \<noteq> XPU_MEM_MAIN then m # huge_enter ms page_id_begin page_id page_needed first_mem w
      else
        let page_id_end = u64 (page_id_begin + km_page_count m)
        in if page_id \<ge> page_id_begin \<and> page_id < page_id_end \<and> page_needed > 0 then
             let page_id_in_mem = page_id - page_id_begin;
                 page_needed_in_mem = min (page_id_end - page_id) page_needed;
                 m1 = (if first_mem then
                         m\<lparr>km_free_table := (km_free_table m)[page_id_in_mem := page_needed],
                           km_owner_table := (km_owner_table m)[page_id_in_mem := Some w]\<rparr>
                       else m\<lparr>km_free_table := (km_free_table m)[page_id_in_mem := page_needed_in_mem]\<rparr>)
             in m1\<lparr>km_page_used := u64 (km_page_used m1 + page_needed_in_mem)\<rparr>
                # huge_enter ms page_id_end page_id_end (page_needed - page_needed_in_mem) False w
           else m # huge_enter ms page_id_end page_id page_needed first_mem w)"

text \<open>The loop of \<^verbatim>\<open>__free_huge_mem\<close> that removes it again.\<close>

fun huge_leave :: "'o kl_memory list \<Rightarrow> nat \<Rightarrow> nat \<Rightarrow> nat \<Rightarrow> 'o kl_memory list" where
  "huge_leave [] page_id_begin page_id page_freed = []"
| "huge_leave (m # ms) page_id_begin page_id page_freed =
     (if km_kind m \<noteq> XPU_MEM_MAIN then m # huge_leave ms page_id_begin page_id page_freed
      else
        let page_id_end = u64 (page_id_begin + km_page_count m)
        in if page_id \<ge> page_id_begin \<and> page_id < page_id_end \<and> page_freed > 0 then
             let page_id_in_mem = page_id - page_id_begin;
                 page_freed_in_mem = min (page_id_end - page_id) page_freed
             in m\<lparr>km_free_table := (km_free_table m)[page_id_in_mem := 0],
                  km_owner_table := (km_owner_table m)[page_id_in_mem := None],
                  km_page_used := u64_sub (km_page_used m) page_freed_in_mem\<rparr>
                # huge_leave ms page_id_end page_id_end (page_freed - page_freed_in_mem)
           else m # huge_leave ms page_id_end page_id page_freed)"

type_synonym 'o mm_malloc_result =
  "((kl_err + nat \<times> nat option) \<times> 'o kl_mm \<times> 'o kl_mm_cb_call list) option"

type_synonym 'o mm_free_result = "(kl_status \<times> 'o kl_mm \<times> 'o kl_mm_cb_call list) option"

text \<open>
  \<^verbatim>\<open>__malloc_huge_mem\<close>. A success gives the address; the region pointer of the caller is left
  alone (the \<^term>\<open>None\<close> beside it). \<open>cb\<close> says whether a callback is given.
\<close>

definition malloc_huge_mem ::
    "(bool list \<Rightarrow> nat \<Rightarrow> nat \<Rightarrow> nat \<Rightarrow> nat) \<Rightarrow> 'o kl_mm \<Rightarrow> nat \<Rightarrow> 'o \<Rightarrow> bool \<Rightarrow> 'o mm_malloc_result" where
  "malloc_huge_mem find_area mm sz w cb = do {
     let page_needed = malloc_pages_needed (mm_huge_mem mm) sz;
     (ms, hb) \<leftarrow> lock_and_sync_mem_bitmap (mm_mem mm) 0 (km_page_bitmap (mm_huge_mem mm));
     let huge = (mm_huge_mem mm)\<lparr>km_page_bitmap := hb\<rparr>;
     (case find_free_pages find_area huge page_needed of
        Inl e \<Rightarrow>
          Some (Inl e, mm\<lparr>mm_mem := sync_mem_bitmap_and_unlock ms 0 hb, mm_huge_mem := huge\<rparr>, [])
      | Inr page_id \<Rightarrow>
          let huge1 = take_pages huge page_id page_needed w;
              addr = pageid_to_addr huge1 page_id;
              ms1 = huge_enter ms 0 page_id page_needed True w
          in Some (Inr (addr, None),
               mm\<lparr>mm_mem := sync_mem_bitmap_and_unlock ms1 0 (km_page_bitmap huge1), mm_huge_mem := huge1\<rparr>,
               (if cb then [cb_call addr sz XPU_MEM_MAIN w huge1] else [])))
   }"

text \<open>
  \<^verbatim>\<open>__free_huge_mem\<close>, called for region \<open>i\<close> without its lock. Both early returns come after the
  regions were locked and return without unlocking them.
\<close>

definition free_huge_mem :: "'o kl_mm \<Rightarrow> nat \<Rightarrow> 'o \<Rightarrow> nat \<Rightarrow> bool \<Rightarrow> 'o mm_free_result" where
  "free_huge_mem mm i w addr cb = do {
     (ms, hb) \<leftarrow> lock_and_sync_mem_bitmap (mm_mem mm) 0 (km_page_bitmap (mm_huge_mem mm));
     let huge = (mm_huge_mem mm)\<lparr>km_page_bitmap := hb\<rparr>;
     let mm1 = mm\<lparr>mm_mem := ms, mm_huge_mem := huge\<rparr>;
     let page_id = addr_to_pageid huge addr;
     let page_id_in_mem = addr_to_pageid (ms ! i) addr;
     let page_freed = km_free_table huge ! page_id;
     (if page_freed = 0 then Some (Some XPUERR_INVALID_PARAM, mm1, [])
      else if km_owner_table (ms ! i) ! page_id_in_mem \<noteq> Some w
        then Some (Some XPUERR_INVALID_PARAM, mm1, [])
      else
        let huge1 = release_pages huge page_id page_freed;
            ms1 = huge_leave ms 0 page_id page_freed
        in Some (None,
             mm\<lparr>mm_mem := sync_mem_bitmap_and_unlock ms1 0 (km_page_bitmap huge1), mm_huge_mem := huge1\<rparr>,
             (if cb then [cb_call addr (u64 (page_freed * km_page_size huge1)) XPU_MEM_MAIN w huge1] else [])))
   }"

section \<open>Allocation\<close>

text \<open>The loop over the regions of the asked kind; \<open>err\<close> is what it returns if none serves.\<close>

fun malloc_scan ::
    "(bool list \<Rightarrow> nat \<Rightarrow> nat \<Rightarrow> nat \<Rightarrow> nat) \<Rightarrow> 'o kl_memory list \<Rightarrow> nat \<Rightarrow> nat \<Rightarrow> nat \<Rightarrow> 'o \<Rightarrow> kl_err \<Rightarrow>
     ((kl_err + nat \<times> nat) \<times> 'o kl_memory list) option" where
  "malloc_scan find_area [] idx sz kind w err = Some (Inl err, [])"
| "malloc_scan find_area (m # ms) idx sz kind w err =
     (if km_kind m \<noteq> kind then do {
        (r, ms') \<leftarrow> malloc_scan find_area ms (Suc idx) sz kind w err;
        Some (r, m # ms')
      } else do {
        m1 \<leftarrow> spin_lock m;
        (case malloc_locked find_area m1 sz w of
           Inr (m2, addr) \<Rightarrow> Some (Inr (addr, idx), spin_unlock m2 # ms)
         | Inl e \<Rightarrow> do {
             (r, ms') \<leftarrow> malloc_scan find_area ms (Suc idx) sz kind w e;
             Some (r, spin_unlock m1 # ms')
           })
      })"

definition kl_mm_malloc ::
    "(bool list \<Rightarrow> nat \<Rightarrow> nat \<Rightarrow> nat \<Rightarrow> nat) \<Rightarrow> 'o kl_mm \<Rightarrow> nat \<Rightarrow> nat \<Rightarrow> 'o option \<Rightarrow> bool \<Rightarrow>
     'o mm_malloc_result" where
  "kl_mm_malloc find_area mm sz kind owner cb =
     (case owner of
        None \<Rightarrow> Some (Inl XPUERR_INVALID_PARAM, mm, [])
      | Some w \<Rightarrow>
          if sz = 0 then Some (Inl XPUERR_INVALID_PARAM, mm, [])
          else if kind = XPU_MEM_MAIN_KL2_HUGE then malloc_huge_mem find_area mm sz w cb
          else do {
            (r, ms) \<leftarrow> malloc_scan find_area (mm_mem mm) 0 sz kind w XPUERR_NOMEM;
            let mm' = mm\<lparr>mm_mem := ms\<rparr>;
            (case r of
               Inl e \<Rightarrow> Some (Inl e, mm', [])
             | Inr (addr, idx) \<Rightarrow>
                 Some (Inr (addr, Some idx), mm', (if cb then [cb_call addr sz kind w (ms ! idx)] else [])))
          })"

section \<open>Freeing\<close>

definition find_memory_by_addr :: "'o kl_mm \<Rightarrow> nat \<Rightarrow> nat option" where
  "find_memory_by_addr mm addr =
     List.find (\<lambda>i. km_base (mm_mem mm ! i) \<le> addr \<and> addr < km_limit (mm_mem mm ! i))
       [0..<length (mm_mem mm)]"

definition set_mem :: "'o kl_mm \<Rightarrow> nat \<Rightarrow> 'o kl_memory \<Rightarrow> 'o kl_mm" where
  "set_mem mm i m = mm\<lparr>mm_mem := (mm_mem mm)[i := m]\<rparr>"

definition lock_mem :: "'o kl_mm \<Rightarrow> nat \<Rightarrow> 'o kl_mm option" where
  "lock_mem mm i = map_option (set_mem mm i) (spin_lock (mm_mem mm ! i))"

definition unlock_mem :: "'o kl_mm \<Rightarrow> nat \<Rightarrow> 'o kl_mm" where
  "unlock_mem mm i = set_mem mm i (spin_unlock (mm_mem mm ! i))"

text \<open>
  \<^verbatim>\<open>__free_locked\<close> on region \<open>i\<close>, whose lock is held. An allocation that runs past the end of
  the region was a huge one: the lock is dropped around \<^verbatim>\<open>__free_huge_mem\<close> and taken again.
\<close>

definition free_locked :: "'o kl_mm \<Rightarrow> nat \<Rightarrow> nat \<Rightarrow> 'o \<Rightarrow> bool \<Rightarrow> 'o mm_free_result" where
  "free_locked mm i addr w cb =
     (let mem = mm_mem mm ! i;
          page_id = addr_to_pageid mem addr;
          page_freed = km_free_table mem ! page_id
      in if page_freed = 0 then Some (Some XPUERR_INVALID_PARAM, mm, [])
         else if km_owner_table mem ! page_id \<noteq> Some w then Some (Some XPUERR_INVALID_PARAM, mm, [])
         else if u64 (page_id + page_freed) > km_page_count mem then do {
           (err, mm1, cbs) \<leftarrow> free_huge_mem (unlock_mem mm i) i w addr cb;
           mm2 \<leftarrow> lock_mem mm1 i;
           Some (err, mm2, cbs)
         }
         else
           let mem1 = release_pages mem page_id page_freed
           in Some (None, set_mem mm i mem1,
                (if cb then [cb_call addr (u64 (page_freed * km_page_size mem1)) (km_kind mem1) w mem1]
                 else [])))"

definition kl_mm_free :: "'o kl_mm \<Rightarrow> nat \<Rightarrow> 'o \<Rightarrow> bool \<Rightarrow> 'o mm_free_result" where
  "kl_mm_free mm addr w cb =
     (case find_memory_by_addr mm addr of
        None \<Rightarrow> Some (Some XPUERR_INVALID_PARAM, mm, [])
      | Some i \<Rightarrow> do {
          mm1 \<leftarrow> lock_mem mm i;
          (err, mm2, cbs) \<leftarrow> free_locked mm1 i addr w cb;
          Some (err, unlock_mem mm2 i, cbs)
        })"

text \<open>
  \<^verbatim>\<open>__free_by_owner_locked\<close>: the loop need not make progress (an allocation of length 0), so it may
  not return.
\<close>

partial_function (option) free_by_owner_locked ::
    "'o kl_mm \<Rightarrow> nat \<Rightarrow> 'o \<Rightarrow> bool \<Rightarrow> nat \<Rightarrow> ('o kl_mm \<times> 'o kl_mm_cb_call list) option" where
  "free_by_owner_locked mm i w cb p =
     (let mem = mm_mem mm ! i
      in if p < km_page_count mem then
           let blk = find_next_bit (km_page_bitmap mem) (km_page_count mem) p
           in if blk \<ge> km_page_count mem then Some (mm, [])
              else
                let p' = u64 (blk + km_free_table mem ! blk)
                in if km_owner_table mem ! blk \<noteq> Some w then free_by_owner_locked mm i w cb p'
                   else do {
                     (err, mm1, cbs) \<leftarrow> free_locked mm i (pageid_to_addr mem blk) w cb;
                     (mm2, cbs2) \<leftarrow> free_by_owner_locked mm1 i w cb p';
                     Some (mm2, cbs @ cbs2)
                   }
         else Some (mm, []))"

fun free_by_owner_from ::
    "'o kl_mm \<Rightarrow> nat list \<Rightarrow> 'o \<Rightarrow> bool \<Rightarrow> ('o kl_mm \<times> 'o kl_mm_cb_call list) option" where
  "free_by_owner_from mm [] w cb = Some (mm, [])"
| "free_by_owner_from mm (i # is) w cb = do {
     mm1 \<leftarrow> lock_mem mm i;
     (mm2, cbs) \<leftarrow> free_by_owner_locked mm1 i w cb 0;
     (mm3, cbs2) \<leftarrow> free_by_owner_from (unlock_mem mm2 i) is w cb;
     Some (mm3, cbs @ cbs2)
   }"

definition kl_mm_free_by_owner ::
    "'o kl_mm \<Rightarrow> 'o \<Rightarrow> bool \<Rightarrow> ('o kl_mm \<times> 'o kl_mm_cb_call list) option" where
  "kl_mm_free_by_owner mm w cb = free_by_owner_from mm [0..<length (mm_mem mm)] w cb"

section \<open>Statistics\<close>

definition kl_mm_get_pgsz :: "'o kl_mm \<Rightarrow> nat \<Rightarrow> nat" where
  "kl_mm_get_pgsz mm kind =
     (case List.find (\<lambda>m. km_kind m = kind) (mm_mem mm) of None \<Rightarrow> 0 | Some m \<Rightarrow> km_page_size m)"

definition sum_of_kind :: "('o kl_memory \<Rightarrow> nat) \<Rightarrow> 'o kl_mm \<Rightarrow> nat \<Rightarrow> nat" where
  "sum_of_kind f mm kind =
     foldl (\<lambda>ret m. if km_kind m = kind then u64 (ret + f m) else ret) 0 (mm_mem mm)"

definition kl_mm_get_pg_used :: "'o kl_mm \<Rightarrow> nat \<Rightarrow> nat" where
  "kl_mm_get_pg_used mm kind = sum_of_kind km_page_used mm kind"

definition kl_mm_get_pg_all :: "'o kl_mm \<Rightarrow> nat \<Rightarrow> nat" where
  "kl_mm_get_pg_all mm kind = sum_of_kind km_page_count mm kind"

definition kl_mm_get_bytes_used :: "'o kl_mm \<Rightarrow> nat \<Rightarrow> nat" where
  "kl_mm_get_bytes_used mm kind =
     sum_of_kind (\<lambda>m. u64 (km_page_used m * km_page_size m)) mm kind"

definition kl_mm_get_bytes_all :: "'o kl_mm \<Rightarrow> nat \<Rightarrow> nat" where
  "kl_mm_get_bytes_all mm kind = sum_of_kind km_size mm kind"

end
