(* ===== verification/Kl_Mm_Region.thy ===== *)
theory Kl_Mm_Region
  imports Kl_Mm
begin

text \<open>
  One region of the KL2 memory manager: its invariant, what allocation, free and the purge loop do
  to it, and the interpretation of \<open>page_region\<close> on these operations.
\<close>

section \<open>The invariant of a region\<close>

text \<open>
  The tables agree, the page counter is the number of pages in use, and the geometry fits: a page
  is more than one byte, the region is a whole number of pages, fewer than \<open>2 ^ 32\<close> of them, and ends below \<open>2 ^ 64\<close>.
\<close>

definition mem_wf :: "'o kl_memory \<Rightarrow> bool" where
  "mem_wf m \<longleftrightarrow>
     tables_ok (km_page_count m) (km_page_bitmap m) (km_free_table m) (km_owner_table m) \<and>
     km_page_used m = sum_list (km_free_table m) \<and>
     0 < km_page_bits m \<and> km_page_bits m < 32 \<and> km_page_size m = 2 ^ km_page_bits m \<and>
     km_size m = km_page_count m * 2 ^ km_page_bits m \<and>
     km_page_count m < 2 ^ 32 \<and>
     km_limit m = km_base m + km_size m \<and> km_limit m < 2 ^ 64"

abbreviation mem_blocks :: "'o kl_memory \<Rightarrow> nat \<rightharpoonup> nat \<times> 'o" where
  "mem_blocks m \<equiv> blocks (km_free_table m) (km_owner_table m)"

definition same_region :: "'o kl_memory \<Rightarrow> 'o kl_memory \<Rightarrow> bool" where
  "same_region m m' \<longleftrightarrow>
     km_idx m' = km_idx m \<and> km_kind m' = km_kind m \<and> km_lock m' = km_lock m \<and>
     km_base m' = km_base m \<and> km_size m' = km_size m \<and> km_limit m' = km_limit m \<and>
     km_page_bits m' = km_page_bits m \<and> km_page_size m' = km_page_size m \<and>
     km_page_count m' = km_page_count m"

lemma same_region_refl [simp]: "same_region m m"
  by (simp add: same_region_def)

lemma same_region_trans: "same_region a b \<Longrightarrow> same_region b c \<Longrightarrow> same_region a c"
  by (simp add: same_region_def)

lemma take_pages_same [simp]: "same_region m (take_pages m p c w)"
  by (simp add: same_region_def take_pages_def)

lemma release_pages_same [simp]: "same_region m (release_pages m p c)"
  by (simp add: same_region_def release_pages_def)

lemma mem_wf_tables: "mem_wf m \<Longrightarrow>
    tables_ok (km_page_count m) (km_page_bitmap m) (km_free_table m) (km_owner_table m)"
  by (simp add: mem_wf_def)

lemma mem_wf_lock [simp]: "mem_wf (m\<lparr>km_lock := b\<rparr>) = mem_wf m"
  by (simp add: mem_wf_def)

section \<open>Addresses and pages\<close>

lemma addr_bound:
  assumes "mem_wf m" "p < km_page_count m"
  shows "km_base m + p * 2 ^ km_page_bits m < km_limit m"
  using assms by (simp add: mem_wf_def)

lemma addr_to_pageid_to_addr:
  assumes wf: "mem_wf m" and p: "p < km_page_count m"
  shows "addr_to_pageid m (pageid_to_addr m p) = p"
    and "km_base m \<le> pageid_to_addr m p" and "pageid_to_addr m p < km_limit m"
proof -
  have lt: "km_base m + p * 2 ^ km_page_bits m < 2 ^ 64"
    using addr_bound [OF wf p] wf unfolding mem_wf_def by linarith
  then have a: "pageid_to_addr m p = km_base m + p * 2 ^ km_page_bits m"
    by (simp add: pageid_to_addr_def kl_wrap)
  from a lt show "addr_to_pageid m (pageid_to_addr m p) = p"
    by (simp add: addr_to_pageid_def kl_wrap)
  from a show "km_base m \<le> pageid_to_addr m p" by simp
  from a addr_bound [OF wf p] show "pageid_to_addr m p < km_limit m" by simp
qed

lemma addr_to_pageid_lt:
  assumes wf: "mem_wf m" and a: "km_base m \<le> addr" "addr < km_limit m"
  shows "addr_to_pageid m addr < km_page_count m"
proof -
  from wf a have "addr < 2 ^ 64" by (simp add: mem_wf_def)
  with a have "addr_to_pageid m addr = (addr - km_base m) div 2 ^ km_page_bits m"
    by (simp add: addr_to_pageid_def kl_wrap)
  moreover from wf a have "addr - km_base m < km_page_count m * 2 ^ km_page_bits m"
    by (auto simp: mem_wf_def)
  ultimately show ?thesis by (simp add: less_mult_imp_div_less)
qed

text \<open>The number of pages asked for is the size in pages, rounded up, unless the size wraps.\<close>

lemma malloc_pages_needed_for:
  "mem_wf m \<Longrightarrow> malloc_pages_needed m sz = pages_for (km_page_bits m) sz"
  by (simp add: malloc_pages_needed_def pages_for_def mem_wf_def)

lemma malloc_pages_needed_eq:
  assumes wf: "mem_wf m" and sz: "0 < sz" "sz + km_page_size m \<le> 2 ^ 64"
  shows "malloc_pages_needed m sz = (sz + km_page_size m - 1) div km_page_size m"
    and "0 < malloc_pages_needed m sz"
  using pages_for_eq(1,2) [of sz "km_page_bits m"] assms malloc_pages_needed_for [OF wf]
  by (simp_all add: mem_wf_def)

lemma malloc_pages_needed_half: "mem_wf m \<Longrightarrow> malloc_pages_needed m sz < 2 ^ 63"
  using pages_for_half [of "km_page_bits m" sz] malloc_pages_needed_for [of m sz]
  by (simp add: mem_wf_def)

lemma malloc_pages_needed_whole:
  assumes wf: "mem_wf m" and k: "0 < k" "k \<le> km_page_count m"
  shows "malloc_pages_needed m (k * km_page_size m) = k"
  using pages_for_whole [of k "km_page_bits m"] k wf malloc_pages_needed_for [OF wf]
  by (simp add: mem_wf_def)

lemma malloc_pages_needed_wrap:
  assumes wf: "mem_wf m" and sz: "2 ^ 64 < sz + km_page_size m" "sz < 2 ^ 64"
  shows "malloc_pages_needed m sz = 0"
  using pages_for_wrap [of sz "km_page_bits m"] sz wf malloc_pages_needed_for [OF wf]
  by (simp add: mem_wf_def)

section \<open>Allocation and free\<close>

lemma take_pages_wf:
  assumes wf: "mem_wf m" and c: "0 < c" and pc: "p + c \<le> km_page_count m"
    and fr: "area_free (km_page_bitmap m) p c"
  shows "mem_wf (take_pages m p c w)"
    and "mem_blocks (take_pages m p c w) = (mem_blocks m)(p \<mapsto> (c, w))"
    and "mem_blocks m p = None"
proof -
  note t = tables_take [OF mem_wf_tables [OF wf] c pc fr]
  from wf pc have b: "u32 p = p" "u32 c = c" by (auto simp: mem_wf_def kl_wrap)
  have "sum_list (km_free_table m) + c \<le> km_page_count m"
    by (rule free_run_bound [OF mem_wf_tables [OF wf] fr pc])
  with wf have "u64 (km_page_used m + c) = km_page_used m + c"
    by (simp add: mem_wf_def kl_wrap)
  with t b wf show "mem_wf (take_pages m p c w)"
    by (simp add: mem_wf_def take_pages_def)
  from t show "mem_blocks (take_pages m p c w) = (mem_blocks m)(p \<mapsto> (c, w))"
    by (simp add: take_pages_def)
  from t(4) show "mem_blocks m p = None" by (simp add: blocks_def)
qed

lemma release_pages_wf:
  assumes wf: "mem_wf m" and b: "mem_blocks m p = Some (c, w)"
  shows "mem_wf (release_pages m p c)"
    and "mem_blocks (release_pages m p c) = (mem_blocks m)(p := None)"
    and "p + c \<le> km_page_count m"
proof -
  from b have p: "p < km_page_count m" "km_free_table m ! p = c" "0 < c"
    using tables_okD(2) [OF mem_wf_tables [OF wf]] by (auto simp: blocks_iff)
  note t = tables_release [OF mem_wf_tables [OF wf] p]
  from wf t(4) have u: "u32 p = p" "u32 c = c" by (auto simp: mem_wf_def kl_wrap)
  have "u64_sub (km_page_used m) c = sum_list ((km_free_table m)[p := 0])"
  proof -
    have "km_page_used m \<le> km_page_count m"
      using wf pages_in_use_le [OF mem_wf_tables [OF wf]] by (simp add: mem_wf_def)
    with wf t(3) show ?thesis by (simp add: mem_wf_def kl_wrap)
  qed
  with t u wf show "mem_wf (release_pages m p c)"
    by (simp add: mem_wf_def release_pages_def)
  from t show "mem_blocks (release_pages m p c) = (mem_blocks m)(p := None)"
    by (simp add: release_pages_def)
  show "p + c \<le> km_page_count m" by (rule t(4))
qed

text \<open>\<^verbatim>\<open>__malloc_locked\<close> on every branch.\<close>

lemma malloc_locked_Inr:
  assumes fa: "zero_area_finder find_area" and wf: "mem_wf m"
    and k: "0 < malloc_pages_needed m sz"
    and r: "malloc_locked find_area m sz w = Inr (m', addr)"
  shows "\<exists>p. addr = pageid_to_addr m p \<and> p + malloc_pages_needed m sz \<le> km_page_count m \<and>
           area_free (km_page_bitmap m) p (malloc_pages_needed m sz) \<and>
           m' = take_pages m p (malloc_pages_needed m sz) w"
proof -
  let ?k = "malloc_pages_needed m sz"
  from r obtain p where p: "find_free_pages find_area m ?k = Inr p" "m' = take_pages m p ?k w"
      "addr = pageid_to_addr m p" and le: "u64 (?k + km_page_used m) \<le> km_page_count m"
    by (auto simp: malloc_locked_def Let_def split: if_splits sum.splits)
  have used: "km_page_used m \<le> km_page_count m" "km_page_count m < 2 ^ 32"
    using wf pages_in_use_le [OF mem_wf_tables [OF wf]] by (auto simp: mem_wf_def)
  have kle: "?k \<le> km_page_count m"
    using le used malloc_pages_needed_half [OF wf, of sz] by (simp add: kl_wrap)
  from kle used have "u32 ?k = ?k" by (simp add: kl_wrap)
  with p(1) have f: "p = find_area (km_page_bitmap m) (km_page_count m) 0 ?k" "p < km_page_count m"
    by (auto simp: find_free_pages_def Let_def split: if_splits)
  have "km_page_count m \<le> length (km_page_bitmap m)"
    using tables_okD(1) [OF mem_wf_tables [OF wf]] by simp
  from zero_area_finder.found_fits [OF fa this] f
  have "p + ?k \<le> km_page_count m" "area_free (km_page_bitmap m) p ?k" by auto
  with p show ?thesis by blast
qed

lemma malloc_locked_wf:
  assumes fa: "zero_area_finder find_area" and wf: "mem_wf m"
    and k: "0 < malloc_pages_needed m sz"
    and r: "malloc_locked find_area m sz w = Inr (m', addr)"
  shows "mem_wf m'" and "same_region m m'"
    and "mem_blocks m' = (mem_blocks m)(addr_to_pageid m addr \<mapsto> (malloc_pages_needed m sz, w))"
    and "mem_blocks m (addr_to_pageid m addr) = None"
    and "km_base m \<le> addr" "addr < km_limit m"
    and "pageid_to_addr m (addr_to_pageid m addr) = addr"
    and "addr_to_pageid m addr + malloc_pages_needed m sz \<le> km_page_count m"
proof -
  from malloc_locked_Inr [OF assms] obtain p where p: "addr = pageid_to_addr m p"
    "p + malloc_pages_needed m sz \<le> km_page_count m"
    "area_free (km_page_bitmap m) p (malloc_pages_needed m sz)"
    "m' = take_pages m p (malloc_pages_needed m sz) w" by blast
  from p k have lt: "p < km_page_count m" by simp
  note t = take_pages_wf [OF wf k p(2,3)]
  note a = addr_to_pageid_to_addr [OF wf lt]
  show "mem_wf m'" "same_region m m'" using t p by simp_all
  show "mem_blocks m' = (mem_blocks m)(addr_to_pageid m addr \<mapsto> (malloc_pages_needed m sz, w))"
    using t p a by simp
  show "mem_blocks m (addr_to_pageid m addr) = None" using t p a by simp
  show "km_base m \<le> addr" "addr < km_limit m" using a p by simp_all
  show "pageid_to_addr m (addr_to_pageid m addr) = addr" using a p by simp
  show "addr_to_pageid m addr + malloc_pages_needed m sz \<le> km_page_count m" using a p by simp
qed

lemma malloc_locked_Inl:
  assumes fa: "zero_area_finder find_area" and wf: "mem_wf m"
    and k: "0 < malloc_pages_needed m sz"
    and r: "malloc_locked find_area m sz w = Inl e"
    and p: "p + malloc_pages_needed m sz \<le> km_page_count m"
  shows "e = XPUERR_NOMEM"
    and "\<exists>q n v. mem_blocks m q = Some (n, v) \<and> \<not> apart p (malloc_pages_needed m sz) q n"
proof -
  let ?k = "malloc_pages_needed m sz"
  note ok = mem_wf_tables [OF wf]
  show "e = XPUERR_NOMEM"
    using r by (auto simp: malloc_locked_def Let_def split: if_splits sum.splits)
  show "\<exists>q n v. mem_blocks m q = Some (n, v) \<and> \<not> apart p ?k q n"
  proof (rule ccontr)
    assume "\<not> ?thesis"
    then have fr: "area_free (km_page_bitmap m) p ?k"
      using apart_area_free [OF ok p] by blast
    have len: "km_page_count m \<le> length (km_page_bitmap m)" using tables_okD(1) [OF ok] by simp
    have lt: "p < km_page_count m" using p k by simp
    have cnt: "km_page_count m < 2 ^ 32" "km_page_used m = sum_list (km_free_table m)"
      using wf by (auto simp: mem_wf_def)
    with p have u: "u32 ?k = ?k" by (simp add: kl_wrap)
    from zero_area_finder.found_first [OF fa len k _ p fr, of 0] lt
    have "find_area (km_page_bitmap m) (km_page_count m) 0 ?k < km_page_count m" by simp
    then have 1: "find_free_pages find_area m ?k = Inr (find_area (km_page_bitmap m) (km_page_count m) 0 ?k)"
      by (simp add: find_free_pages_def u)
    have "?k + km_page_used m \<le> km_page_count m"
      using free_run_bound [OF ok fr p] cnt by simp
    then have "\<not> u64 (?k + km_page_used m) > km_page_count m"
      using u64_le [of "?k + km_page_used m"] by linarith
    with 1 r show False by (simp add: malloc_locked_def Let_def)
  qed
qed

text \<open>\<^verbatim>\<open>__free_locked\<close> on an allocation that lies within its region, and on anything else.\<close>

lemma set_mem_simps [simp]:
  "mm_mem (set_mem mm i m) = (mm_mem mm)[i := m]"
  "mm_huge_mem (set_mem mm i m) = mm_huge_mem mm"
  "set_mem (set_mem mm i m) i m' = set_mem mm i m'"
  by (simp_all add: set_mem_def)

lemma set_mem_same [simp]: "set_mem mm i (mm_mem mm ! i) = mm"
  by (simp add: set_mem_def)

lemma free_locked_ok:
  assumes wf: "mem_wf (mm_mem mm ! i)"
    and b: "mem_blocks (mm_mem mm ! i) (addr_to_pageid (mm_mem mm ! i) addr) = Some (c, w)"
  shows "free_locked mm i addr w cb =
    Some (None, set_mem mm i (release_pages (mm_mem mm ! i) (addr_to_pageid (mm_mem mm ! i) addr) c),
      (if cb then [cb_call addr (u64 (c * km_page_size (mm_mem mm ! i))) (km_kind (mm_mem mm ! i)) w
                     (mm_mem mm ! i)] else []))"
proof -
  let ?m = "mm_mem mm ! i"
  let ?p = "addr_to_pageid ?m addr"
  note r = release_pages_wf [OF wf b]
  from b have f: "km_free_table ?m ! ?p = c" "0 < c" "the (km_owner_table ?m ! ?p) = w"
    by (auto simp: blocks_iff)
  moreover have "km_owner_table ?m ! ?p \<noteq> None"
    using tables_okD(5) [OF mem_wf_tables [OF wf], of ?p] r(3) f by auto
  ultimately have o: "km_owner_table ?m ! ?p = Some w" by auto
  have "\<not> u64 (?p + c) > km_page_count ?m" using r(3) u64_le [of "?p + c"] by linarith
  with f o show ?thesis
    by (simp add: free_locked_def Let_def cb_call_def release_pages_def)
qed

lemma free_locked_no:
  assumes wf: "mem_wf (mm_mem mm ! i)"
    and lt: "addr_to_pageid (mm_mem mm ! i) addr < km_page_count (mm_mem mm ! i)"
    and b: "\<nexists>c. mem_blocks (mm_mem mm ! i) (addr_to_pageid (mm_mem mm ! i) addr) = Some (c, w)"
  shows "free_locked mm i addr w cb = Some (Some XPUERR_INVALID_PARAM, mm, [])"
proof -
  let ?m = "mm_mem mm ! i"
  let ?p = "addr_to_pageid ?m addr"
  have "km_free_table ?m ! ?p = 0 \<or> km_owner_table ?m ! ?p \<noteq> Some w"
    using b lt tables_okD(2) [OF mem_wf_tables [OF wf]] by (auto simp: blocks_def)
  then show ?thesis by (auto simp: free_locked_def Let_def)
qed

section \<open>Freeing everything an owner holds\<close>

definition owned_pages :: "'o kl_memory \<Rightarrow> 'o \<Rightarrow> nat \<Rightarrow> nat list" where
  "owned_pages m w p = filter (\<lambda>q. \<exists>k. mem_blocks m q = Some (k, w)) [p..<km_page_count m]"

definition free_calls :: "'o kl_memory \<Rightarrow> 'o \<Rightarrow> nat \<Rightarrow> 'o kl_mm_cb_call list" where
  "free_calls m w p =
     map (\<lambda>q. cb_call (pageid_to_addr m q) (u64 (km_free_table m ! q * km_page_size m)) (km_kind m) w m)
       (owned_pages m w p)"

lemma owned_pages_skip:
  assumes "p \<le> b" "b \<le> km_page_count m" and z: "\<And>q. p \<le> q \<Longrightarrow> q < b \<Longrightarrow> km_free_table m ! q = 0"
  shows "owned_pages m w p = owned_pages m w b"
proof -
  have "[p..<km_page_count m] = [p..<b] @ [b..<km_page_count m]"
    using assms(1,2) upt_add_eq_append [of p b "km_page_count m - b"] by simp
  moreover have "filter (\<lambda>q. \<exists>k. mem_blocks m q = Some (k, w)) [p..<b] = []"
    using z by (auto simp: filter_empty_conv blocks_iff)
  ultimately show ?thesis by (simp add: owned_pages_def)
qed

lemma owned_pages_step:
  assumes "b < km_page_count m" "0 < km_free_table m ! b"
    and wf: "mem_wf m"
  shows "owned_pages m w b =
    (if km_owner_table m ! b = Some w then [b] else []) @ owned_pages m w (b + km_free_table m ! b)"
proof -
  note ok = mem_wf_tables [OF wf]
  have e: "b + km_free_table m ! b \<le> km_page_count m" using tables_okD(4) [OF ok] assms by simp
  have ow: "(\<exists>k. mem_blocks m b = Some (k, w)) \<longleftrightarrow> km_owner_table m ! b = Some w"
    using assms tables_okD(2,5) [OF ok] by (auto simp: blocks_iff)
  have "owned_pages m w b = (if km_owner_table m ! b = Some w then [b] else []) @ owned_pages m w (Suc b)"
    using assms ow by (simp add: owned_pages_def upt_conv_Cons)
  also have "owned_pages m w (Suc b) = owned_pages m w (b + km_free_table m ! b)"
    using assms e tables_okD(6) [OF ok, of b] by (intro owned_pages_skip) auto
  finally show ?thesis .
qed

lemma free_calls_released:
  assumes sr: "same_region m m1" and bl: "mem_blocks m1 = (mem_blocks m)(b := None)"
    and ft: "km_free_table m1 = (km_free_table m)[b := 0]" and p: "b < p"
  shows "free_calls m1 w p = free_calls m w p"
proof -
  have "owned_pages m1 w p = owned_pages m w p"
    using bl p sr by (auto simp: owned_pages_def same_region_def intro!: filter_cong)
  then show ?thesis
    using sr ft p by (auto simp: free_calls_def owned_pages_def same_region_def cb_call_def
        pageid_to_addr_def)
qed

lemma free_by_owner_locked_correct:
  assumes "mem_wf (mm_mem mm ! i)" and "i < length (mm_mem mm)"
    and "boundary (km_free_table (mm_mem mm ! i)) p"
  shows "\<exists>m'. free_by_owner_locked mm i w cb p =
             Some (set_mem mm i m', if cb then free_calls (mm_mem mm ! i) w p else []) \<and>
           mem_wf m' \<and> same_region (mm_mem mm ! i) m' \<and>
           mem_blocks m' = drop_from w p (mem_blocks (mm_mem mm ! i))"
  using assms
proof (induction "km_page_count (mm_mem mm ! i) - p" arbitrary: mm p rule: less_induct)
  case less
  define m where "m = mm_mem mm ! i"
  define b where "b = find_next_bit (km_page_bitmap m) (km_page_count m) p"
  from less.prems have wf: "mem_wf m" and il: "i < length (mm_mem mm)"
    and bd: "boundary (km_free_table m) p" by (auto simp: m_def)
  note ok = mem_wf_tables [OF wf]
  show ?case
  proof (cases "p < km_page_count m \<and> b < km_page_count m")
    case False
    note e = drop_from_end [OF ok, of p, folded b_def, OF False]
    have "owned_pages m w p = []" using e(2) by (auto simp: owned_pages_def filter_empty_conv)
    moreover have "free_by_owner_locked mm i w cb p = Some (set_mem mm i m, [])"
      using False by (subst free_by_owner_locked.simps) (auto simp: m_def b_def Let_def)
    ultimately show ?thesis using wf e(1) [of w]
      unfolding m_def [symmetric] by (intro exI [of _ m]) (simp add: free_calls_def)
  next
    case True
    then have bn: "b < km_page_count m" by simp
    define c where "c = km_free_table m ! b"
    note n = next_allocation [OF ok bd b_def bn]
    have e: "b + c \<le> km_page_count m" "0 < c" using tables_okD(4) [OF ok bn] n(1) by (auto simp: c_def)
    have u: "u64 (b + c) = b + c" using e wf by (simp add: mem_wf_def kl_wrap)
    have small: "km_page_count m - (b + c) < km_page_count m - p" using True n(2) e by auto
    note bd' = n(3) [folded c_def]
    have ow: "owned_pages m w p =
        (if km_owner_table m ! b = Some w then [b] else []) @ owned_pages m w (b + c)"
      using owned_pages_skip [of p b m w] n(2,4) bn owned_pages_step [OF _ _ wf, of b w] n(1)
      by (simp add: c_def)
    show ?thesis
    proof (cases "km_owner_table m ! b = Some w")
      case False
      have "free_by_owner_locked mm i w cb p = free_by_owner_locked mm i w cb (b + c)"
        using True False u by (subst free_by_owner_locked.simps) (auto simp: m_def b_def c_def Let_def)
      moreover note less.hyps [of mm "b + c", folded m_def, OF small wf il bd']
        drop_from_skip [OF ok bd b_def bn False, folded c_def]
      moreover have "free_calls m w p = free_calls m w (b + c)" using ow False by (simp add: free_calls_def)
      ultimately show ?thesis unfolding m_def [symmetric] by (cases cb) simp_all
    next
      case own: True
      define m1 where "m1 = release_pages m b c"
      let ?mm1 = "set_mem mm i m1"
      have blk: "mem_blocks m b = Some (c, w)"
        using own e bn tables_okD(2) [OF ok] by (auto simp: blocks_iff c_def)
      note rel = release_pages_wf [OF wf blk, folded m1_def]
      have sr: "same_region m m1" by (simp add: m1_def)
      have ft1: "km_free_table m1 = (km_free_table m)[b := 0]" by (simp add: m1_def release_pages_def)
      have fl: "free_locked mm i (pageid_to_addr m b) w cb = Some (None, ?mm1,
          if cb then [cb_call (pageid_to_addr m b) (u64 (c * km_page_size m)) (km_kind m) w m] else [])"
        using free_locked_ok [of mm i "pageid_to_addr m b" c w cb] wf blk addr_to_pageid_to_addr(1) [OF wf bn]
        by (simp add: m_def m1_def)
      have nth: "mm_mem ?mm1 ! i = m1" using il by simp
      have small1: "km_page_count m1 - (b + c) < km_page_count m - p"
        using small sr by (simp add: same_region_def)
      have bd1: "boundary (km_free_table m1) (b + c)" using bd' by (simp add: ft1 boundary_zero)
      have il1: "i < length (mm_mem ?mm1)" using il by simp
      from less.hyps [of ?mm1 "b + c", folded m_def, unfolded nth, OF small1 rel(1) il1 bd1]
      obtain m' where m': "free_by_owner_locked ?mm1 i w cb (b + c) =
            Some (set_mem mm i m', if cb then free_calls m1 w (b + c) else [])" "mem_wf m'"
        "same_region m1 m'" "mem_blocks m' = drop_from w (b + c) (mem_blocks m1)"
        by auto
      have calls: "free_calls m1 w (b + c) = free_calls m w (b + c)"
        using free_calls_released [OF sr rel(2) ft1] e by simp
      have "free_by_owner_locked mm i w cb p = Some (set_mem mm i m', if cb then free_calls m w p else [])"
        using True own u fl m'(1) calls ow
        by (subst free_by_owner_locked.simps) (auto simp: m_def b_def c_def Let_def free_calls_def)
      moreover have "mem_blocks m' = drop_from w p (mem_blocks m)"
        using m'(4) rel(2) drop_from_free [OF ok bd b_def bn own] by (simp add: c_def)
      ultimately show ?thesis using m'(2) same_region_trans [OF sr m'(3)]
        unfolding m_def [symmetric] by blast
    qed
  qed
qed

section \<open>The contract of a page region\<close>

text \<open>The operations of one region on whole pages, by the code's own functions.\<close>

definition one_region :: "'o kl_memory \<Rightarrow> 'o kl_mm" where
  "one_region m = \<lparr>mm_mem = [m], mm_huge_mem = empty_kl_memory 0\<rparr>"

definition region_alloc ::
    "(bool list \<Rightarrow> nat \<Rightarrow> nat \<Rightarrow> nat \<Rightarrow> nat) \<Rightarrow> 'o kl_memory \<Rightarrow> nat \<Rightarrow> 'o \<Rightarrow> ('o kl_memory \<times> nat) option" where
  "region_alloc find_area m k w =
     (case malloc_locked find_area m (k * km_page_size m) w of
        Inl _ \<Rightarrow> None | Inr (m', addr) \<Rightarrow> Some (m', addr_to_pageid m addr))"

definition region_free :: "'o kl_memory \<Rightarrow> nat \<Rightarrow> 'o \<Rightarrow> 'o kl_memory option" where
  "region_free m p w =
     (case free_locked (one_region m) 0 (pageid_to_addr m p) w False of
        Some (None, mm, _) \<Rightarrow> Some (mm_mem mm ! 0) | _ \<Rightarrow> None)"

definition region_purge :: "'o kl_memory \<Rightarrow> 'o \<Rightarrow> 'o kl_memory option" where
  "region_purge m w =
     map_option (\<lambda>(mm, _). mm_mem mm ! 0) (free_by_owner_locked (one_region m) 0 w False 0)"

lemma one_region_simps [simp]: "mm_mem (one_region m) = [m]"
  by (simp add: one_region_def)

lemma kl_page_region:
  assumes fa: "zero_area_finder find_area"
  shows "page_region mem_wf km_page_count km_page_used mem_blocks
           (region_alloc find_area) region_free region_purge"
proof unfold_locales
  fix s :: "'o kl_memory" and p k w q m v
  assume wf: "mem_wf s"
  note ok = mem_wf_tables [OF wf]
  show "0 < k \<and> p + k \<le> km_page_count s" if "mem_blocks s p = Some (k, w)"
    using blocks_range [OF ok that] .
  show "apart p k q m" if "mem_blocks s p = Some (k, w)" "mem_blocks s q = Some (m, v)" "p \<noteq> q"
    using blocks_apart [OF ok that] .
  show "km_page_used s = (\<Sum>p\<in>dom (mem_blocks s). fst (the (mem_blocks s p)))"
    using used_live_tables [OF ok] wf by (simp add: mem_wf_def)
next
  fix s :: "'o kl_memory" and k w s' p
  assume wf: "mem_wf s" and k: "0 < k" "k \<le> km_page_count s"
    and r: "region_alloc find_area s k w = Some (s', p)"
  note need = malloc_pages_needed_whole [OF wf k]
  from r obtain addr where "malloc_locked find_area s (k * km_page_size s) w = Inr (s', addr)"
      "p = addr_to_pageid s addr"
    by (auto simp: region_alloc_def split: sum.splits)
  with malloc_locked_wf [OF fa wf _ this(1)] need k
  show "mem_wf s' \<and> km_page_count s' = km_page_count s \<and> mem_blocks s p = None \<and>
      mem_blocks s' = (mem_blocks s)(p \<mapsto> (k, w))"
    by (simp add: same_region_def)
next
  fix s :: "'o kl_memory" and k w p
  assume wf: "mem_wf s" and k: "0 < k" "k \<le> km_page_count s"
    and r: "region_alloc find_area s k w = None" and p: "p + k \<le> km_page_count s"
  note need = malloc_pages_needed_whole [OF wf k]
  from r obtain e where "malloc_locked find_area s (k * km_page_size s) w = Inl e"
    by (auto simp: region_alloc_def split: sum.splits)
  from malloc_locked_Inl(2) [OF fa wf _ this, of p] need k p
  show "\<exists>q m v. mem_blocks s q = Some (m, v) \<and> \<not> apart p k q m" by simp
next
  fix s :: "'o kl_memory" and p k w
  assume wf: "mem_wf s" and b: "mem_blocks s p = Some (k, w)"
  from blocks_range [OF mem_wf_tables [OF wf] b] have p: "p < km_page_count s" by simp
  note ad = addr_to_pageid_to_addr(1) [OF wf p]
  from free_locked_ok [of "one_region s" 0 "pageid_to_addr s p" k w False] wf b ad
  have "region_free s p w = Some (release_pages s p k)"
    by (simp add: region_free_def)
  with release_pages_wf [OF wf b] release_pages_same [of s p k]
  show "\<exists>s'. region_free s p w = Some s' \<and> mem_wf s' \<and> km_page_count s' = km_page_count s \<and>
      mem_blocks s' = (mem_blocks s)(p := None)"
    by (simp add: same_region_def)
next
  fix s :: "'o kl_memory" and p w
  assume wf: "mem_wf s" and p: "p < km_page_count s" and b: "\<nexists>k. mem_blocks s p = Some (k, w)"
  note ad = addr_to_pageid_to_addr(1) [OF wf p]
  from free_locked_no [of "one_region s" 0 "pageid_to_addr s p" w False] wf b p ad
  show "region_free s p w = None" by (simp add: region_free_def)
next
  fix s :: "'o kl_memory" and w
  assume wf: "mem_wf s"
  from free_by_owner_locked_correct [of "one_region s" 0 0 w False] wf
  obtain m' where "free_by_owner_locked (one_region s) 0 w False 0 = Some (set_mem (one_region s) 0 m', [])"
    "mem_wf m'" "same_region s m'" "mem_blocks m' = drop_owner w (mem_blocks s)"
    by auto
  then show "\<exists>s'. region_purge s w = Some s' \<and> mem_wf s' \<and> km_page_count s' = km_page_count s \<and>
      mem_blocks s' = drop_owner w (mem_blocks s)"
    by (simp add: region_purge_def same_region_def)
qed

interpretation km: page_region mem_wf km_page_count km_page_used mem_blocks
  "region_alloc first_fit" region_free region_purge
  by (rule kl_page_region) (rule ff.zero_area_finder_axioms)

end
