(* ===== verification/Kl_Mm_Props.thy ===== *)
theory Kl_Mm_Props
  imports Kl_Mm_Region
begin

text \<open>
  Properties of the KL2 memory manager as a whole (\<^verbatim>\<open>kl_mm.c\<close>): initialisation establishes the
  invariant, allocation and free keep it on every branch and release every lock they take, freeing
  by owner returns and frees exactly what the owner holds, and what huge allocations do to the
  bitmaps of the regions they cross.
\<close>

section \<open>The invariant of the manager\<close>

definition mm_wf :: "'o kl_mm \<Rightarrow> bool" where
  "mm_wf mm \<longleftrightarrow>
     (\<forall>m\<in>set (mm_mem mm). mem_wf m \<and> \<not> km_lock m) \<and>
     (\<forall>i j. i < j \<and> j < length (mm_mem mm) \<longrightarrow>
        apart (km_base (mm_mem mm ! i)) (km_size (mm_mem mm ! i))
              (km_base (mm_mem mm ! j)) (km_size (mm_mem mm ! j)))"

text \<open>No run of \<open>k\<close> pages is free in the region.\<close>

definition cannot_serve :: "'o kl_memory \<Rightarrow> nat \<Rightarrow> bool" where
  "cannot_serve m k \<longleftrightarrow>
     (\<forall>p. p + k \<le> km_page_count m \<longrightarrow> (\<exists>q n v. mem_blocks m q = Some (n, v) \<and> \<not> apart p k q n))"

text \<open>The region \<open>m\<close> became \<open>m'\<close> by one new allocation of \<open>k\<close> pages for \<open>w\<close> at \<open>addr\<close>.\<close>

definition allocated :: "'o kl_memory \<Rightarrow> nat \<Rightarrow> 'o \<Rightarrow> 'o kl_memory \<Rightarrow> nat \<Rightarrow> bool" where
  "allocated m k w m' addr \<longleftrightarrow>
     mem_wf m' \<and> same_region m m' \<and> km_base m \<le> addr \<and> addr < km_limit m \<and>
     pageid_to_addr m (addr_to_pageid m addr) = addr \<and>
     addr_to_pageid m addr + k \<le> km_page_count m \<and>
     mem_blocks m (addr_to_pageid m addr) = None \<and>
     mem_blocks m' = (mem_blocks m)(addr_to_pageid m addr \<mapsto> (k, w))"

lemma mm_wfD: "mm_wf mm \<Longrightarrow> i < length (mm_mem mm) \<Longrightarrow> mem_wf (mm_mem mm ! i) \<and> \<not> km_lock (mm_mem mm ! i)"
  by (simp add: mm_wf_def)

lemma mm_wf_set_mem:
  assumes wf: "mm_wf mm" and m: "mem_wf m'" and sr: "same_region (mm_mem mm ! i) m'"
  shows "mm_wf (set_mem mm i m')"
proof (cases "i < length (mm_mem mm)")
  case True
  have l: "\<not> km_lock m'" using mm_wfD [OF wf True] sr by (simp add: same_region_def)
  have b: "km_base ((mm_mem mm)[i := m'] ! j) = km_base (mm_mem mm ! j)"
      "km_size ((mm_mem mm)[i := m'] ! j) = km_size (mm_mem mm ! j)" for j
    using sr True by (auto simp: nth_update_if same_region_def)
  have "mem_wf x \<and> \<not> km_lock x" if "x \<in> set ((mm_mem mm)[i := m'])" for x
    using that m l wf set_update_subset_insert [of "mm_mem mm" i m'] by (auto simp: mm_wf_def)
  then show ?thesis using wf b by (auto simp: mm_wf_def)
next
  case False
  then show ?thesis using wf by (simp add: set_mem_def list_update_beyond not_less)
qed

lemma find_memory_unique:
  assumes wf: "mm_wf mm" and i: "i < length (mm_mem mm)"
    and a: "km_base (mm_mem mm ! i) \<le> addr" "addr < km_limit (mm_mem mm ! i)"
  shows "find_memory_by_addr mm addr = Some i"
proof -
  let ?P = "\<lambda>i. km_base (mm_mem mm ! i) \<le> addr \<and> addr < km_limit (mm_mem mm ! i)"
  have "\<not> ?P j" if "j < i" for j
  proof
    assume "?P j"
    with that i have "mem_wf (mm_mem mm ! j)" "mem_wf (mm_mem mm ! i)"
      "apart (km_base (mm_mem mm ! j)) (km_size (mm_mem mm ! j))
             (km_base (mm_mem mm ! i)) (km_size (mm_mem mm ! i))"
      using wf by (auto simp: mm_wf_def)
    with \<open>?P j\<close> a show False by (auto simp: apart_def mem_wf_def)
  qed
  then show ?thesis
    using a i by (auto simp: find_memory_by_addr_def find_Some_iff intro!: exI [of _ i])
qed

section \<open>Allocation\<close>

lemma malloc_locked_cases:
  assumes fa: "zero_area_finder find_area" and wf: "mem_wf m"
    and sz: "0 < sz" "sz + 2 ^ 32 \<le> 2 ^ 64"
  shows "(malloc_locked find_area m sz w = Inl XPUERR_NOMEM \<and> cannot_serve m (malloc_pages_needed m sz)) \<or>
         (\<exists>m' addr. malloc_locked find_area m sz w = Inr (m', addr) \<and>
            allocated m (malloc_pages_needed m sz) w m' addr)"
proof -
  have "km_page_size m \<le> 2 ^ 32"
    using wf power_increasing [of "km_page_bits m" 32 "2 :: nat"] by (auto simp: mem_wf_def)
  with sz have k: "0 < malloc_pages_needed m sz"
    by (intro malloc_pages_needed_eq(2) [OF wf]) auto
  show ?thesis
  proof (cases "malloc_locked find_area m sz w")
    case (Inl e)
    from Inl malloc_locked_Inl [OF fa wf k Inl] have "cannot_serve m (malloc_pages_needed m sz)"
      by (auto simp: cannot_serve_def)
    moreover have "e = XPUERR_NOMEM"
      using Inl by (auto simp: malloc_locked_def Let_def split: if_splits sum.splits)
    ultimately show ?thesis using Inl by simp
  next
    case (Inr r)
    obtain m' addr where r: "r = (m', addr)" by (cases r)
    with Inr malloc_locked_wf [OF fa wf k, of w m' addr] show ?thesis
      by (auto simp: allocated_def)
  qed
qed

lemma unlock_lock [simp]: "\<not> km_lock m \<Longrightarrow> spin_unlock (m\<lparr>km_lock := True\<rparr>) = m"
  by (simp add: spin_unlock_def)

lemma locked_same [simp]:
  "malloc_pages_needed (m\<lparr>km_lock := b\<rparr>) sz = malloc_pages_needed m sz"
  "cannot_serve (m\<lparr>km_lock := b\<rparr>) k = cannot_serve m k"
  "pageid_to_addr (m\<lparr>km_lock := b\<rparr>) p = pageid_to_addr m p"
  "addr_to_pageid (m\<lparr>km_lock := b\<rparr>) a = addr_to_pageid m a"
  by (simp_all add: malloc_pages_needed_def cannot_serve_def pageid_to_addr_def addr_to_pageid_def)

lemma allocated_unlock:
  "\<not> km_lock m \<Longrightarrow> allocated (m\<lparr>km_lock := True\<rparr>) k w m' addr \<Longrightarrow> allocated m k w (spin_unlock m') addr"
  by (simp add: allocated_def same_region_def spin_unlock_def)

lemma malloc_scan_correct:
  assumes fa: "zero_area_finder find_area" and sz: "0 < sz" "sz + 2 ^ 32 \<le> 2 ^ 64"
    and wf: "\<forall>m\<in>set ms. mem_wf m \<and> \<not> km_lock m"
  shows "(\<exists>e. malloc_scan find_area ms idx sz kind w XPUERR_NOMEM = Some (Inl XPUERR_NOMEM, ms) \<and>
            (\<forall>m\<in>set ms. km_kind m = kind \<longrightarrow> cannot_serve m (malloc_pages_needed m sz))) \<or>
         (\<exists>i m' addr. malloc_scan find_area ms idx sz kind w XPUERR_NOMEM =
              Some (Inr (addr, idx + i), ms[i := m']) \<and>
            i < length ms \<and> km_kind (ms ! i) = kind \<and>
            (\<forall>j<i. km_kind (ms ! j) = kind \<longrightarrow> cannot_serve (ms ! j) (malloc_pages_needed (ms ! j) sz)) \<and>
            allocated (ms ! i) (malloc_pages_needed (ms ! i) sz) w m' addr)"
  using wf
proof (induction ms arbitrary: idx)
  case Nil
  then show ?case by simp
next
  case (Cons m ms)
  let ?lm = "m\<lparr>km_lock := True\<rparr>"
  have m: "mem_wf m" "\<not> km_lock m" using Cons.prems by auto
  have shift: "(\<exists>e. malloc_scan find_area (m # ms) idx sz kind w XPUERR_NOMEM =
        Some (Inl XPUERR_NOMEM, m # ms) \<and>
            (\<forall>m'\<in>set (m # ms). km_kind m' = kind \<longrightarrow> cannot_serve m' (malloc_pages_needed m' sz))) \<or>
         (\<exists>i m' addr. malloc_scan find_area (m # ms) idx sz kind w XPUERR_NOMEM =
              Some (Inr (addr, idx + i), (m # ms)[i := m']) \<and>
            i < length (m # ms) \<and> km_kind ((m # ms) ! i) = kind \<and>
            (\<forall>j<i. km_kind ((m # ms) ! j) = kind \<longrightarrow>
               cannot_serve ((m # ms) ! j) (malloc_pages_needed ((m # ms) ! j) sz)) \<and>
            allocated ((m # ms) ! i) (malloc_pages_needed ((m # ms) ! i) sz) w m' addr)"
    if skip: "malloc_scan find_area (m # ms) idx sz kind w XPUERR_NOMEM =
        do { (r, ms') \<leftarrow> malloc_scan find_area ms (Suc idx) sz kind w XPUERR_NOMEM; Some (r, m # ms') }"
      and no: "km_kind m = kind \<longrightarrow> cannot_serve m (malloc_pages_needed m sz)"
  proof -
    from Cons.IH [of "Suc idx"] Cons.prems consider
      (none) "malloc_scan find_area ms (Suc idx) sz kind w XPUERR_NOMEM = Some (Inl XPUERR_NOMEM, ms)"
        "\<forall>m\<in>set ms. km_kind m = kind \<longrightarrow> cannot_serve m (malloc_pages_needed m sz)"
    | (some) i m' addr where "malloc_scan find_area ms (Suc idx) sz kind w XPUERR_NOMEM =
          Some (Inr (addr, Suc idx + i), ms[i := m'])" "i < length ms" "km_kind (ms ! i) = kind"
        "\<forall>j<i. km_kind (ms ! j) = kind \<longrightarrow> cannot_serve (ms ! j) (malloc_pages_needed (ms ! j) sz)"
        "allocated (ms ! i) (malloc_pages_needed (ms ! i) sz) w m' addr"
      by auto
    then show ?thesis
    proof cases
      case none
      with skip no show ?thesis by simp
    next
      case some
      have "\<forall>j<Suc i. km_kind ((m # ms) ! j) = kind \<longrightarrow>
          cannot_serve ((m # ms) ! j) (malloc_pages_needed ((m # ms) ! j) sz)"
        using some(4) no by (simp add: less_Suc_eq_0_disj nth_Cons split: nat.split)
      with skip some show ?thesis
        by (intro disjI2 exI [of _ "Suc i"] exI [of _ m'] exI [of _ addr]) simp
    qed
  qed
  show ?case
  proof (cases "km_kind m = kind")
    case False
    then show ?thesis by (intro shift) auto
  next
    case kind: True
    have l: "spin_lock m = Some ?lm" using m by (simp add: spin_lock_def)
    from malloc_locked_cases [OF fa _ sz, of ?lm w] m consider
      (no) "malloc_locked find_area ?lm sz w = Inl XPUERR_NOMEM" "cannot_serve m (malloc_pages_needed m sz)"
    | (yes) m' addr where "malloc_locked find_area ?lm sz w = Inr (m', addr)"
        "allocated ?lm (malloc_pages_needed m sz) w m' addr"
      by auto
    then show ?thesis
    proof cases
      case no
      then show ?thesis using kind l m by (intro shift) simp_all
    next
      case yes
      with allocated_unlock [OF m(2) yes(2)] kind l show ?thesis
        by (intro disjI2 exI [of _ 0] exI [of _ "spin_unlock m'"] exI [of _ addr]) simp
    qed
  qed
qed

lemma set_mem_self [simp]: "set_mem mm i (mm_mem mm ! i) = mm"
  by (simp add: set_mem_def)

lemma malloc_main_unfold:
  assumes "0 < sz" "kind \<noteq> XPU_MEM_MAIN_KL2_HUGE"
  shows "kl_mm_malloc find_area mm sz kind (Some w) cb =
     (case malloc_scan find_area (mm_mem mm) 0 sz kind w XPUERR_NOMEM of
        None \<Rightarrow> None
      | Some (Inl e, ms) \<Rightarrow> Some (Inl e, mm\<lparr>mm_mem := ms\<rparr>, [])
      | Some (Inr (addr, idx), ms) \<Rightarrow> Some (Inr (addr, Some idx), mm\<lparr>mm_mem := ms\<rparr>,
           if cb then [cb_call addr sz kind w (ms ! idx)] else []))"
  using assms by (auto simp: kl_mm_malloc_def split: option.splits sum.splits)

lemma allocated_same: "allocated m k w m' addr \<Longrightarrow> same_region m m'"
  by (simp add: allocated_def)

lemma kl_mm_malloc_cases:
  assumes fa: "zero_area_finder find_area" and wf: "mm_wf mm"
    and sz: "0 < sz" "sz + 2 ^ 32 \<le> 2 ^ 64" and kind: "kind \<noteq> XPU_MEM_MAIN_KL2_HUGE"
  shows "(kl_mm_malloc find_area mm sz kind (Some w) cb = Some (Inl XPUERR_NOMEM, mm, []) \<and>
            (\<forall>m\<in>set (mm_mem mm). km_kind m = kind \<longrightarrow> cannot_serve m (malloc_pages_needed m sz))) \<or>
         (\<exists>i m' addr. kl_mm_malloc find_area mm sz kind (Some w) cb =
              Some (Inr (addr, Some i), set_mem mm i m',
                    if cb then [cb_call addr sz kind w (mm_mem mm ! i)] else []) \<and>
            i < length (mm_mem mm) \<and> km_kind (mm_mem mm ! i) = kind \<and>
            (\<forall>j<i. km_kind (mm_mem mm ! j) = kind \<longrightarrow>
               cannot_serve (mm_mem mm ! j) (malloc_pages_needed (mm_mem mm ! j) sz)) \<and>
            allocated (mm_mem mm ! i) (malloc_pages_needed (mm_mem mm ! i) sz) w m' addr \<and>
            mm_wf (set_mem mm i m'))"
proof -
  have all: "\<forall>m\<in>set (mm_mem mm). mem_wf m \<and> \<not> km_lock m" using wf by (simp add: mm_wf_def)
  note un = malloc_main_unfold [OF sz(1) kind, of find_area mm w cb]
  from malloc_scan_correct [OF fa sz all, of 0 kind w] consider
    (none) "malloc_scan find_area (mm_mem mm) 0 sz kind w XPUERR_NOMEM = Some (Inl XPUERR_NOMEM, mm_mem mm)"
      "\<forall>m\<in>set (mm_mem mm). km_kind m = kind \<longrightarrow> cannot_serve m (malloc_pages_needed m sz)"
  | (some) i m' addr where "malloc_scan find_area (mm_mem mm) 0 sz kind w XPUERR_NOMEM =
        Some (Inr (addr, i), (mm_mem mm)[i := m'])" "i < length (mm_mem mm)" "km_kind (mm_mem mm ! i) = kind"
      "\<forall>j<i. km_kind (mm_mem mm ! j) = kind \<longrightarrow>
         cannot_serve (mm_mem mm ! j) (malloc_pages_needed (mm_mem mm ! j) sz)"
      "allocated (mm_mem mm ! i) (malloc_pages_needed (mm_mem mm ! i) sz) w m' addr"
    by auto
  then show ?thesis
  proof cases
    case none
    then show ?thesis using un by simp
  next
    case some
    have sr: "same_region (mm_mem mm ! i) m'" and m': "mem_wf m'"
      using some(5) by (auto simp: allocated_def)
    have "cb_call addr sz kind w m' = cb_call addr sz kind w (mm_mem mm ! i)"
      using sr by (simp add: cb_call_def same_region_def)
    with un some(1,2) have "kl_mm_malloc find_area mm sz kind (Some w) cb =
        Some (Inr (addr, Some i), set_mem mm i m',
              if cb then [cb_call addr sz kind w (mm_mem mm ! i)] else [])"
      by (simp add: set_mem_def)
    with some mm_wf_set_mem [OF wf m' sr] show ?thesis by blast
  qed
qed

section \<open>Freeing\<close>

lemma lock_mem_ok:
  "mm_wf mm \<Longrightarrow> i < length (mm_mem mm) \<Longrightarrow>
     lock_mem mm i = Some (set_mem mm i ((mm_mem mm ! i)\<lparr>km_lock := True\<rparr>))"
  by (simp add: lock_mem_def spin_lock_def mm_wfD)

lemma set_mem_twice [simp]: "set_mem (set_mem mm i a) i b = set_mem mm i b"
  by (simp add: set_mem_def)

lemma nth_set_mem [simp]: "i < length (mm_mem mm) \<Longrightarrow> mm_mem (set_mem mm i a) ! i = a"
  by (simp add: set_mem_def)

lemma release_lock:
  "\<not> km_lock m \<Longrightarrow> spin_unlock (release_pages (m\<lparr>km_lock := True\<rparr>) p k) = release_pages m p k"
  by (simp add: spin_unlock_def release_pages_def)

lemma cb_call_lock [simp]: "cb_call a s k w (m\<lparr>km_lock := b\<rparr>) = cb_call a s k w m"
  by (simp add: cb_call_def)

lemma kl_mm_free_own:
  assumes wf: "mm_wf mm" and i: "i < length (mm_mem mm)"
    and a: "km_base (mm_mem mm ! i) \<le> addr" "addr < km_limit (mm_mem mm ! i)"
    and b: "mem_blocks (mm_mem mm ! i) (addr_to_pageid (mm_mem mm ! i) addr) = Some (k, w)"
  shows "kl_mm_free mm addr w cb =
           Some (None, set_mem mm i (release_pages (mm_mem mm ! i) (addr_to_pageid (mm_mem mm ! i) addr) k),
             if cb then [cb_call addr (u64 (k * km_page_size (mm_mem mm ! i))) (km_kind (mm_mem mm ! i)) w
                           (mm_mem mm ! i)] else [])"
    and "mm_wf (set_mem mm i (release_pages (mm_mem mm ! i) (addr_to_pageid (mm_mem mm ! i) addr) k))"
proof -
  let ?m = "mm_mem mm ! i" and ?p = "addr_to_pageid (mm_mem mm ! i) addr"
  let ?lm = "?m\<lparr>km_lock := True\<rparr>"
  note f = find_memory_unique [OF wf i a]
  have m: "mem_wf ?m" "\<not> km_lock ?m" using mm_wfD [OF wf i] by auto
  from free_locked_ok [of "set_mem mm i ?lm" i addr k w cb] m b i
  have "free_locked (set_mem mm i ?lm) i addr w cb =
      Some (None, set_mem mm i (release_pages ?lm ?p k),
        if cb then [cb_call addr (u64 (k * km_page_size ?m)) (km_kind ?m) w ?m] else [])"
    by simp
  then show "kl_mm_free mm addr w cb = Some (None, set_mem mm i (release_pages ?m ?p k),
             if cb then [cb_call addr (u64 (k * km_page_size ?m)) (km_kind ?m) w ?m] else [])"
    using f lock_mem_ok [OF wf i] i m(2) by (simp add: kl_mm_free_def unlock_mem_def release_lock)
  show "mm_wf (set_mem mm i (release_pages ?m ?p k))"
    by (rule mm_wf_set_mem [OF wf release_pages_wf(1) [OF m(1) b]]) simp
qed

lemma kl_mm_free_reject:
  assumes wf: "mm_wf mm" and i: "i < length (mm_mem mm)"
    and a: "km_base (mm_mem mm ! i) \<le> addr" "addr < km_limit (mm_mem mm ! i)"
    and b: "\<nexists>k. mem_blocks (mm_mem mm ! i) (addr_to_pageid (mm_mem mm ! i) addr) = Some (k, w)"
  shows "kl_mm_free mm addr w cb = Some (Some XPUERR_INVALID_PARAM, mm, [])"
proof -
  let ?m = "mm_mem mm ! i" and ?lm = "(mm_mem mm ! i)\<lparr>km_lock := True\<rparr>"
  note f = find_memory_unique [OF wf i a]
  have m: "mem_wf ?m" "\<not> km_lock ?m" using mm_wfD [OF wf i] by auto
  from free_locked_no [of "set_mem mm i ?lm" i addr w cb] m b i addr_to_pageid_lt [OF m(1) a]
  have "free_locked (set_mem mm i ?lm) i addr w cb =
      Some (Some XPUERR_INVALID_PARAM, set_mem mm i ?lm, [])"
    by simp
  then show ?thesis using f lock_mem_ok [OF wf i] i m(2) by (simp add: kl_mm_free_def unlock_mem_def)
qed

section \<open>Initialisation\<close>

text \<open>
  What the region table of the hardware promises: pages of more than a byte and at most
  \<open>2 ^ 31\<close>, whole pages, fewer than \<open>2 ^ 32\<close> of them, no wrap-around, no overlap.
\<close>

definition info_ok :: "kl_memory_info \<Rightarrow> bool" where
  "info_ok info \<longleftrightarrow>
     0 < info_page_bits info \<and> info_page_bits info < 32 \<and>
     info_size info mod 2 ^ info_page_bits info = 0 \<and>
     info_size info div 2 ^ info_page_bits info < 2 ^ 32 \<and>
     info_base info + info_size info < 2 ^ 64"

definition infos_ok :: "kl_memory_info list \<Rightarrow> bool" where
  "infos_ok infos \<longleftrightarrow>
     list_all info_ok infos \<and>
     sorted_wrt (\<lambda>a b. apart (info_base a) (info_size a) (info_base b) (info_size b)) infos"

text \<open>A region as it comes out of \<^verbatim>\<open>__setup_kl_memory\<close>.\<close>

definition fresh_region :: "nat \<Rightarrow> kl_memory_info \<Rightarrow> 'o kl_memory \<Rightarrow> bool" where
  "fresh_region i info m \<longleftrightarrow>
     km_idx m = i \<and> km_kind m = info_kind info \<and> km_base m = info_base info \<and>
     km_size m = info_size info \<and> km_page_bits m = info_page_bits info \<and>
     \<not> km_lock m \<and> km_page_used m = 0 \<and>
     mem_blocks m = Map.empty"

lemma setup_kl_memory_fresh:
  assumes "info_ok info" "setup_kl_memory (empty_kl_memory i) info ok = Inr m"
  shows "mem_wf m \<and> fresh_region i info m"
proof -
  from assms(1) have "(2 :: nat) ^ info_page_bits info < 2 ^ 32"
    by (intro power_strict_increasing) (auto simp: info_ok_def)
  then have "u32 (2 ^ info_page_bits info) = 2 ^ info_page_bits info" by (rule u32_id)
  moreover have "info_size info div 2 ^ info_page_bits info * 2 ^ info_page_bits info = info_size info"
    using assms(1) by (auto simp: info_ok_def)
  moreover have "u64 (info_base info + info_size info) = info_base info + info_size info"
    using assms(1) by (simp add: info_ok_def kl_wrap)
  ultimately show ?thesis
    using assms tables_ok_empty [of "info_size info div 2 ^ info_page_bits info"] tables_ok_empty [of 0]
    by (auto simp: setup_kl_memory_def Let_def mem_wf_def fresh_region_def empty_kl_memory_def
        info_ok_def blocks_def fun_eq_iff split: if_splits)
qed

lemma setup_all_fresh:
  assumes "list_all info_ok infos" "setup_all ok i infos = Inr ms"
  shows "length ms = length infos \<and>
         (\<forall>j<length infos. mem_wf (ms ! j) \<and> fresh_region (i + j) (infos ! j) (ms ! j))"
  using assms
proof (induction infos arbitrary: i ms)
  case (Cons info infos)
  from Cons.prems obtain m ms' where *: "ms = m # ms'"
    "setup_kl_memory (empty_kl_memory i) info (ok i) = Inr m" "setup_all ok (Suc i) infos = Inr ms'"
    by (auto split: sum.splits prod.splits)
  from setup_kl_memory_fresh [OF _ *(2)] Cons.IH [OF _ *(3)] Cons.prems *(1)
  show ?case by (auto simp: nth_Cons split: nat.splits)
qed simp

lemma kl_mm_init_fresh:
  assumes ok: "infos_ok infos" and r: "kl_mm_init ka infos = Inr mm"
  shows "mm_wf mm" and "length (mm_mem mm) = length infos"
    and "\<And>j. j < length infos \<Longrightarrow> fresh_region j (infos ! j) (mm_mem mm ! j)"
proof -
  from r have "setup_all (ka_tables ka) 0 infos = Inr (mm_mem mm)"
    by (auto simp: kl_mm_init_def split: sum.splits if_splits prod.splits)
  with setup_all_fresh [of infos "ka_tables ka" 0 "mm_mem mm"] ok have *: "length (mm_mem mm) = length infos"
    "\<forall>j<length infos. mem_wf (mm_mem mm ! j) \<and> fresh_region j (infos ! j) (mm_mem mm ! j)"
    by (auto simp: infos_ok_def)
  from * show "length (mm_mem mm) = length infos"
    "\<And>j. j < length infos \<Longrightarrow> fresh_region j (infos ! j) (mm_mem mm ! j)" by auto
  from * ok show "mm_wf mm"
    by (auto simp: mm_wf_def fresh_region_def infos_ok_def sorted_wrt_iff_nth_less in_set_conv_nth)
qed

text \<open>A small configuration for the examples: 64 pages of main memory and 4 pages of L3.\<close>

definition demo_infos :: "kl_memory_info list" where
  "demo_infos = [\<lparr>info_base = 0, info_size = 64 * 4096, info_page_bits = 12, info_kind = 0\<rparr>,
                 \<lparr>info_base = 1048576, info_size = 4 * 4096, info_page_bits = 12, info_kind = 1\<rparr>]"

definition demo_allocs :: kl_mm_allocs where
  "demo_allocs = \<lparr>ka_array = True, ka_tables = (\<lambda>_. True), ka_huge = True, ka_huge_tables = True\<rparr>"

definition demo_mm :: "nat kl_mm" where
  "demo_mm = (case kl_mm_init demo_allocs demo_infos of Inr mm \<Rightarrow> mm)"

lemma demo_infos_ok: "infos_ok demo_infos"
  by (simp add: infos_ok_def demo_infos_def info_ok_def apart_def)

lemma demo_init: "kl_mm_init demo_allocs demo_infos = Inr demo_mm"
  by (simp add: demo_mm_def kl_mm_init_def demo_infos_def demo_allocs_def xpu_mem_kinds
      BITS_PER_LONG_def setup_kl_memory_def Let_def u64_def)

lemmas demo_wf = kl_mm_init_fresh(1) [OF demo_infos_ok demo_init]

lemma demo_length: "length (mm_mem demo_mm) = 2"
  using kl_mm_init_fresh(2) [OF demo_infos_ok demo_init] by (simp add: demo_infos_def)

lemma demo_L3:
  "km_kind (mm_mem demo_mm ! 1) = 1" "km_base (mm_mem demo_mm ! 1) = 1048576"
  "mem_blocks (mm_mem demo_mm ! 1) = Map.empty" "km_kind (mm_mem demo_mm ! 0) = 0"
  using kl_mm_init_fresh(3) [OF demo_infos_ok demo_init, of 0] kl_mm_init_fresh(3) [OF demo_infos_ok demo_init, of 1]
  by (auto simp: fresh_region_def demo_infos_def)

section \<open>Freeing by owner\<close>

lemma free_by_owner_from_correct:
  assumes "mm_wf mm" and "distinct is" and "\<forall>i\<in>set is. i < length (mm_mem mm)"
  shows "\<exists>mm'. free_by_owner_from mm is w cb =
             Some (mm', if cb then concat (map (\<lambda>i. free_calls (mm_mem mm ! i) w 0) is) else []) \<and>
           mm_wf mm' \<and> length (mm_mem mm') = length (mm_mem mm) \<and>
           mm_huge_mem mm' = mm_huge_mem mm \<and>
           (\<forall>i. i < length (mm_mem mm) \<longrightarrow> same_region (mm_mem mm ! i) (mm_mem mm' ! i) \<and>
             (if i \<in> set is then mem_blocks (mm_mem mm' ! i) = drop_owner w (mem_blocks (mm_mem mm ! i))
              else mm_mem mm' ! i = mm_mem mm ! i))"
  using assms
proof (induction "is" arbitrary: mm)
  case (Cons i "is")
  let ?m = "mm_mem mm ! i" and ?lm = "(mm_mem mm ! i)\<lparr>km_lock := True\<rparr>"
  have wf: "mm_wf mm" and il: "i < length (mm_mem mm)" using Cons.prems by auto
  have m: "mem_wf ?m" "\<not> km_lock ?m" using mm_wfD [OF wf il] by auto
  have fc: "free_calls ?lm w 0 = free_calls ?m w 0"
    by (simp add: free_calls_def owned_pages_def pageid_to_addr_def)
  from free_by_owner_locked_correct [of "set_mem mm i ?lm" i 0 w cb] m il fc
  obtain m' where m': "free_by_owner_locked (set_mem mm i ?lm) i w cb 0 =
        Some (set_mem mm i m', if cb then free_calls ?m w 0 else [])" "mem_wf m'"
      "same_region ?lm m'" "mem_blocks m' = drop_owner w (mem_blocks ?m)"
    by auto
  define mm1 where "mm1 = set_mem mm i (spin_unlock m')"
  have sr: "same_region ?m (spin_unlock m')"
    using m'(3) m(2) by (simp add: same_region_def spin_unlock_def)
  have w1: "mem_wf (spin_unlock m')" using m'(2) by (simp add: spin_unlock_def)
  have wf1: "mm_wf mm1" unfolding mm1_def by (rule mm_wf_set_mem [OF wf w1 sr])
  have same: "mm_mem mm1 ! j = mm_mem mm ! j" if "j \<noteq> i" for j
    using that by (simp add: mm1_def)
  from Cons.IH [OF wf1] Cons.prems obtain mm' where mm': "free_by_owner_from mm1 is w cb =
        Some (mm', if cb then concat (map (\<lambda>i. free_calls (mm_mem mm1 ! i) w 0) is) else [])"
      "mm_wf mm'" "length (mm_mem mm') = length (mm_mem mm)" "mm_huge_mem mm' = mm_huge_mem mm"
      "\<forall>j. j < length (mm_mem mm) \<longrightarrow> same_region (mm_mem mm1 ! j) (mm_mem mm' ! j) \<and>
         (if j \<in> set is then mem_blocks (mm_mem mm' ! j) = drop_owner w (mem_blocks (mm_mem mm1 ! j))
          else mm_mem mm' ! j = mm_mem mm1 ! j)"
    by (auto simp: mm1_def)
  have cs: "map (\<lambda>i. free_calls (mm_mem mm1 ! i) w 0) is = map (\<lambda>i. free_calls (mm_mem mm ! i) w 0) is"
    by (rule map_cong [OF refl]) (metis Cons.prems(2) distinct.simps(2) same)
  have "free_by_owner_from mm (i # is) w cb =
      Some (mm', if cb then concat (map (\<lambda>i. free_calls (mm_mem mm ! i) w 0) (i # is)) else [])"
    using lock_mem_ok [OF wf il] m'(1) mm'(1) [unfolded cs] il by (simp add: unlock_mem_def mm1_def)
  moreover have "same_region (mm_mem mm ! j) (mm_mem mm' ! j) \<and>
         (if j \<in> set (i # is) then mem_blocks (mm_mem mm' ! j) = drop_owner w (mem_blocks (mm_mem mm ! j))
          else mm_mem mm' ! j = mm_mem mm ! j)" if j: "j < length (mm_mem mm)" for j
  proof (cases "j = i")
    case True
    have "mm_mem mm1 ! i = spin_unlock m'" using il by (simp add: mm1_def)
    moreover have "i \<notin> set is" using Cons.prems by simp
    ultimately have "mm_mem mm' ! i = spin_unlock m'" using mm'(5) il by simp
    with True sr m'(4) show ?thesis by (simp add: spin_unlock_def)
  next
    case False
    with mm'(5) j same show ?thesis by auto
  qed
  ultimately show ?case using mm' by blast
qed simp

lemma kl_mm_free_by_owner_effect:
  assumes "mm_wf mm"
  shows "\<exists>mm'. kl_mm_free_by_owner mm w cb = Some (mm',
             if cb then concat (map (\<lambda>m. free_calls m w 0) (mm_mem mm)) else []) \<and>
           mm_wf mm' \<and> length (mm_mem mm') = length (mm_mem mm) \<and>
           (\<forall>i < length (mm_mem mm). same_region (mm_mem mm ! i) (mm_mem mm' ! i) \<and>
             mem_blocks (mm_mem mm' ! i) = drop_owner w (mem_blocks (mm_mem mm ! i)))"
proof -
  have "map (\<lambda>i. free_calls (mm_mem mm ! i) w 0) [0..<length (mm_mem mm)] =
      map (\<lambda>m. free_calls m w 0) (mm_mem mm)"
    by (rule nth_equalityI) auto
  with free_by_owner_from_correct [OF assms, of "[0..<length (mm_mem mm)]" w cb]
  show ?thesis by (auto simp: kl_mm_free_by_owner_def)
qed

lemma demo_geo: "km_page_count (mm_mem demo_mm ! 1) = 4" "km_page_size (mm_mem demo_mm ! 1) = 4096"
  by (simp_all add: demo_mm_def kl_mm_init_def demo_infos_def demo_allocs_def xpu_mem_kinds
      BITS_PER_LONG_def setup_kl_memory_def Let_def u64_def u32_def)

lemma demo_malloc:
  "\<exists>addr r mm1 calls. kl_mm_malloc first_fit demo_mm 5000 XPU_MEM_L3 (Some 7) True = Some (Inr (addr, r), mm1, calls)"
proof -
  let ?m = "mm_mem demo_mm ! 1"
  have wf: "mem_wf ?m" using mm_wfD [OF demo_wf, of 1] demo_length by simp
  note geo = demo_geo
  have "malloc_pages_needed ?m 5000 = 2"
    using malloc_pages_needed_eq(1) [OF wf, of 5000] geo by simp
  then have "\<not> cannot_serve ?m (malloc_pages_needed ?m 5000)"
    using geo demo_L3 by (auto simp: cannot_serve_def intro: exI [of _ 0])
  moreover have "?m \<in> set (mm_mem demo_mm)" using demo_length by (intro nth_mem) simp
  ultimately show ?thesis
    using kl_mm_malloc_cases [OF ff.zero_area_finder_axioms demo_wf, of 5000 XPU_MEM_L3 7 True] demo_L3(1)
    by (fastforce simp: xpu_mem_kinds)
qed

section \<open>Properties of the memory manager\<close>



text \<open>
  C2: allocation and free are inverse, and only the owner may free. After a successful request the
  owner's free succeeds once, with one callback over the whole allocation, gives back exactly the
  pages that were taken (every region has the allocations it had before), and a second free of the
  same address fails; a free by anybody else is refused and changes nothing.
\<close>

theorem kl_mm_malloc_free:
  assumes "zero_area_finder find_area" and "mm_wf mm"
    and "0 < sz" and "sz + 2 ^ 32 \<le> 2 ^ 64" and "kind \<noteq> XPU_MEM_MAIN_KL2_HUGE"
    and "kl_mm_malloc find_area mm sz kind (Some w) cb = Some (Inr (addr, r), mm1, calls)"
  shows "\<exists>i mm2. kl_mm_free mm1 addr w True =
             Some (None, mm2, [cb_call addr
               (u64 (malloc_pages_needed (mm_mem mm ! i) sz * km_page_size (mm_mem mm ! i))) kind w (mm_mem mm ! i)]) \<and>
           mm_wf mm2 \<and>
           map (\<lambda>m. mem_blocks m) (mm_mem mm2) = map (\<lambda>m. mem_blocks m) (mm_mem mm) \<and>
           kl_mm_free mm2 addr w True = Some (Some XPUERR_INVALID_PARAM, mm2, []) \<and>
           (\<forall>v. v \<noteq> w \<longrightarrow> kl_mm_free mm1 addr v True = Some (Some XPUERR_INVALID_PARAM, mm1, []))"
proof -
  from kl_mm_malloc_cases [OF assms(1-5), of w cb] assms(6) obtain i m' where
    i: "i < length (mm_mem mm)" and mm1: "mm1 = set_mem mm i m'" "mm_wf mm1"
    and al: "allocated (mm_mem mm ! i) (malloc_pages_needed (mm_mem mm ! i) sz) w m' addr"
    and kind: "km_kind (mm_mem mm ! i) = kind" by auto
  let ?m = "mm_mem mm ! i" let ?k = "malloc_pages_needed ?m sz" let ?p = "addr_to_pageid ?m addr"
  have sr: "same_region ?m m'" and bl: "mem_blocks m' = (mem_blocks ?m)(?p \<mapsto> (?k, w))"
      "mem_blocks ?m ?p = None" and a: "km_base ?m \<le> addr" "addr < km_limit ?m"
    using al by (auto simp: allocated_def)
  have same: "addr_to_pageid m' addr = ?p" "km_base m' = km_base ?m" "km_limit m' = km_limit ?m"
      "km_page_size m' = km_page_size ?m" "km_kind m' = kind" "cb_call addr z kind w m' = cb_call addr z kind w ?m" for z
    using sr kind by (simp_all add: same_region_def addr_to_pageid_def cb_call_def)
  have i1: "i < length (mm_mem mm1)" "mm_mem mm1 ! i = m'" using i mm1 by simp_all
  let ?m2 = "release_pages m' ?p ?k"
  have own: "mem_blocks (mm_mem mm1 ! i) (addr_to_pageid (mm_mem mm1 ! i) addr) = Some (?k, w)"
    using i1 same bl by simp
  have a1: "km_base (mm_mem mm1 ! i) \<le> addr" "addr < km_limit (mm_mem mm1 ! i)"
    using a same i1 by simp_all
  note f = kl_mm_free_own [OF mm1(2) i1(1) a1 own]
  let ?mm2 = "set_mem mm i ?m2"
  have wf2: "mm_wf ?mm2" using f(2) i1 same mm1 by simp
  have free: "kl_mm_free mm1 addr w True =
      Some (None, ?mm2, [cb_call addr (u64 (?k * km_page_size ?m)) kind w ?m])"
    using f(1) [of True] i1 same mm1 by simp
  have rel: "mem_blocks ?m2 = (mem_blocks m')(?p := None)"
    using release_pages_wf(2) [of m' ?p ?k w] own al i1 same by (simp add: allocated_def)
  have restored: "mem_blocks ?m2 = mem_blocks ?m" using rel bl by (auto simp: fun_eq_iff)
  have rest: "map (\<lambda>m. mem_blocks m) (mm_mem ?mm2) = map (\<lambda>m. mem_blocks m) (mm_mem mm)"
    using restored i by (intro nth_equalityI) (auto simp: nth_update_if)
  have p2: "addr_to_pageid ?m2 addr = ?p" "km_base ?m2 = km_base ?m" "km_limit ?m2 = km_limit ?m"
    using sr by (simp_all add: same_region_def release_pages_def addr_to_pageid_def)
  have twice: "kl_mm_free ?mm2 addr w True = Some (Some XPUERR_INVALID_PARAM, ?mm2, [])"
    by (rule kl_mm_free_reject [OF wf2, of i]) (use i a p2 restored bl in auto)
  have other: "kl_mm_free mm1 addr v True = Some (Some XPUERR_INVALID_PARAM, mm1, [])" if "v \<noteq> w" for v
    by (rule kl_mm_free_reject [OF mm1(2) i1(1) a1]) (use own that in auto)
  show ?thesis using free wf2 rest twice other by blast
qed

lemma kl_mm_malloc_free_witness:
  "\<exists>addr r mm1 calls mm2 calls2. kl_mm_malloc first_fit demo_mm 5000 XPU_MEM_L3 (Some 7) True =
       Some (Inr (addr, r), mm1, calls) \<and> kl_mm_free mm1 addr 7 True = Some (None, mm2, calls2) \<and>
       kl_mm_free mm1 addr 8 True = Some (Some XPUERR_INVALID_PARAM, mm1, [])"
proof -
  obtain addr r mm1 calls where m:
    "kl_mm_malloc first_fit demo_mm 5000 XPU_MEM_L3 (Some 7) True = Some (Inr (addr, r), mm1, calls)"
    using demo_malloc by blast
  with kl_mm_malloc_free [OF ff.zero_area_finder_axioms demo_wf _ _ _ m]
  have "\<exists>mm2 calls2. kl_mm_free mm1 addr 7 True = Some (None, mm2, calls2)"
      "kl_mm_free mm1 addr 8 True = Some (Some XPUERR_INVALID_PARAM, mm1, [])"
    by (auto simp: xpu_mem_kinds)
  with m show ?thesis by blast
qed

text \<open>
  C3: freeing by owner. \<^verbatim>\<open>kl_mm_free_by_owner\<close> returns (its loop over every region always makes
  progress), leaves no allocation of the owner in any region and every allocation of the others as
  it was, keeps the geometry of the regions and the invariant, leaves no lock held, and reports one
  callback per freed allocation, in address order.
\<close>

theorem kl_mm_free_by_owner_correct:
  assumes "mm_wf mm"
  shows "\<exists>mm'. kl_mm_free_by_owner mm w cb = Some (mm',
             if cb then concat (map (\<lambda>m. free_calls m w 0) (mm_mem mm)) else []) \<and>
           mm_wf mm' \<and> length (mm_mem mm') = length (mm_mem mm) \<and>
           (\<forall>i < length (mm_mem mm). same_region (mm_mem mm ! i) (mm_mem mm' ! i) \<and>
             mem_blocks (mm_mem mm' ! i) = drop_owner w (mem_blocks (mm_mem mm ! i)))"
  using kl_mm_free_by_owner_effect [OF assms] .

lemma kl_mm_free_by_owner_correct_witness:
  "\<exists>mm' calls. kl_mm_free_by_owner demo_mm 7 True = Some (mm', calls) \<and> mm_wf mm'"
  using kl_mm_free_by_owner_correct [OF demo_wf, of 7 True] by blast

text \<open>
  initialisation. From a region table without overlap or wrap-around, a successful
  \<^verbatim>\<open>kl_mm_init\<close> establishes the invariant, with one empty region per entry of the table, in its order.
\<close>

theorem kl_mm_init_correct:
  assumes "infos_ok infos" and "kl_mm_init ka infos = Inr mm"
  shows "mm_wf mm \<and> length (mm_mem mm) = length infos \<and>
         (\<forall>i < length infos. fresh_region i (infos ! i) (mm_mem mm ! i))"
  using kl_mm_init_fresh [OF assms] by blast

lemma kl_mm_init_correct_witness:
  "mm_wf demo_mm \<and> length (mm_mem demo_mm) = length demo_infos"
  using kl_mm_init_correct [OF demo_infos_ok demo_init] by blast

text \<open>
  Any history of a region. Whatever sequence of page allocations, frees (own, foreign or
  stray) and purges clients issue on a region, every call returns, the invariant holds at the end,
  and the number of pages counted as used never exceeds the number of pages there are.
\<close>

theorem kl_region_history:
  assumes "mem_wf m" and "\<forall>c\<in>set cs. call_ok (km_page_count m) c"
  shows "\<exists>m'. region_run (region_alloc first_fit) region_free region_purge m cs = Some m' \<and>
           mem_wf m' \<and> km_page_count m' = km_page_count m \<and> km_page_used m' \<le> km_page_count m"
  using km.run_inv [OF assms] km.used_le by fastforce

lemma kl_region_history_witness:
  "\<exists>m'. region_run (region_alloc first_fit) region_free region_purge (mm_mem demo_mm ! 1)
     [Alloc 2 3, Free 0 3, Alloc 4 5, Purge 5] = Some m' \<and> km_page_used m' \<le> km_page_count (mm_mem demo_mm ! 1)"
  using kl_region_history [of "mm_mem demo_mm ! 1" "[Alloc 2 3, Free 0 3, Alloc 4 5, Purge 5]"]
    mm_wfD [OF demo_wf, of 1] demo_length demo_geo
  by auto

text \<open>
  Sizes near the top of the address space. The rounding \<^verbatim>\<open>size + page_size - 1\<close> wraps, so for
  \<open>2 ^ 64 - page_size < size < 2 ^ 64\<close> the request becomes one for no page at all: while the region
  has a free page (which the search for an empty run then returns), the allocation succeeds with
  an address, and takes nothing.
\<close>

theorem malloc_locked_size_wrap:
  assumes "mem_wf m" and "2 ^ 64 < sz + km_page_size m" and "sz < 2 ^ 64"
    and "find_area (km_page_bitmap m) (km_page_count m) 0 0 = p" and "p < km_page_count m"
    and "\<not> km_page_bitmap m ! p"
  shows "\<exists>m'. malloc_locked find_area m sz w = Inr (m', pageid_to_addr m p) \<and>
           mem_blocks m' = mem_blocks m \<and> km_page_bitmap m' = km_page_bitmap m \<and>
           km_page_used m' = km_page_used m"
proof -
  note k = malloc_pages_needed_wrap [OF assms(1-3)]
  note ok = mem_wf_tables [OF assms(1)]
  have used: "km_page_used m \<le> km_page_count m" "km_page_count m < 2 ^ 32"
    using assms(1) pages_in_use_le [OF ok] by (auto simp: mem_wf_def)
  have ft: "km_free_table m ! p = 0" using free_page_no_block [OF ok assms(5,6), of p] by simp
  have "malloc_locked find_area m sz w = Inr (take_pages m p 0 w, pageid_to_addr m p)"
    using k used assms by (simp add: malloc_locked_def find_free_pages_def u32_def kl_wrap)
  moreover have "mem_blocks (take_pages m p 0 w) = mem_blocks m"
    using ft by (auto simp: take_pages_def blocks_def nth_update_if fun_eq_iff)
  ultimately show ?thesis using used by (simp add: take_pages_def u32_def kl_wrap)
qed

lemma malloc_locked_size_wrap_witness:
  "\<exists>m'. malloc_locked first_fit (mm_mem demo_mm ! 1) (2 ^ 64 - 1) 7 = Inr (m', 1048576) \<and>
     km_page_used m' = km_page_used (mm_mem demo_mm ! 1)"
proof -
  let ?m = "mm_mem demo_mm ! 1"
  have wf: "mem_wf ?m" using mm_wfD [OF demo_wf, of 1] demo_length by simp
  note ok = mem_wf_tables [OF wf]
  have "\<not> km_page_bitmap ?m ! 0"
    using bit_iff_block [OF ok, of 0] demo_geo demo_L3(3) by simp
  moreover have "first_fit (km_page_bitmap ?m) (km_page_count ?m) 0 0 = 0"
    by (simp add: first_fit_def demo_geo area_free_def upt_rec)
  moreover have "pageid_to_addr ?m 0 = 1048576" using demo_L3(2) by (simp add: pageid_to_addr_def u64_def)
  ultimately show ?thesis
    using malloc_locked_size_wrap [OF wf, of "2 ^ 64 - 1" first_fit 0 7] demo_geo by auto
qed

lemma lock_and_sync_locks:
  "lock_and_sync_mem_bitmap ms b hb = Some (ms', hb') \<Longrightarrow>
     length ms' = length ms \<and>
     (\<forall>i < length ms. km_kind (ms' ! i) = km_kind (ms ! i) \<and>
        (km_kind (ms ! i) = XPU_MEM_MAIN \<longrightarrow> km_lock (ms' ! i)))"
  by (induction ms b hb arbitrary: ms' hb' rule: lock_and_sync_mem_bitmap.induct)
    (fastforce simp: spin_lock_def nth_Cons split: if_splits bind_splits nat.splits)+

text \<open>
  C4: the error path of \<^verbatim>\<open>__free_huge_mem\<close>. It returns after locking every main-memory region and
  without unlocking any, so whenever it reports an error (the allocation is already gone, which a
  second free racing with the first one meets), each main-memory region stays locked for ever:
  taking the lock of any of them, as the caller does right after, never returns.
\<close>

theorem free_huge_mem_error_locks:
  assumes "free_huge_mem mm i w addr cb = Some (Some e, mm1, calls)"
    and "j < length (mm_mem mm)" and "km_kind (mm_mem mm ! j) = XPU_MEM_MAIN"
  shows "lock_mem mm1 j = None \<and> (find_memory_by_addr mm1 a = Some j \<longrightarrow> kl_mm_free mm1 a v True = None)"
proof -
  from assms(1) obtain ms hb where *: "lock_and_sync_mem_bitmap (mm_mem mm) 0 (km_page_bitmap (mm_huge_mem mm)) =
      Some (ms, hb)" "mm_mem mm1 = ms"
    by (auto simp: free_huge_mem_def Let_def split: bind_splits if_splits)
  from lock_and_sync_locks [OF *(1)] assms * have "lock_mem mm1 j = None"
    by (simp add: lock_mem_def spin_lock_def)
  then show ?thesis by (simp add: kl_mm_free_def)
qed

lemma free_huge_mem_error_locks_witness:
  "\<exists>mm1. free_huge_mem demo_mm 0 7 0 True = Some (Some XPUERR_INVALID_PARAM, mm1, []) \<and> lock_mem mm1 0 = None"
proof -
  obtain mm1 where f: "free_huge_mem demo_mm 0 7 0 True = Some (Some XPUERR_INVALID_PARAM, mm1, [])"
    by (simp add: free_huge_mem_def demo_mm_def kl_mm_init_def demo_infos_def demo_allocs_def xpu_mem_kinds
        BITS_PER_LONG_def setup_kl_memory_def Let_def u64_def u32_def u64_sub_def spin_lock_def
        empty_kl_memory_def addr_to_pageid_def)
  with free_huge_mem_error_locks [OF f, of 0] demo_length demo_L3(4) show ?thesis
    by (auto simp: xpu_mem_kinds)
qed

end
