(* ===== verification/Kl_Cxpu.thy ===== *)
theory Kl_Cxpu
  imports Kl_Mm
begin

text \<open>
  The shares of a device that a container gets, \<^verbatim>\<open>kl_cxpu.c\<close> and \<^verbatim>\<open>kl_cxpu.h\<close>: instances with a
  name, a token (the control group that created them), limits on the pages of each kind of memory
  and a reference count.

  An instance is known by its address; \<open>cx_store\<close> says which addresses are alive, and following a
  pointer to a freed instance is the outcome \<^term>\<open>None\<close>. Each section under \<^verbatim>\<open>instance_list_lock\<close>
  is one function; \<^verbatim>\<open>kl_cxpu_create_instance\<close> tests the number of instances before it takes the
  lock, so it has two. Names are C strings, char lists without the terminating zero, so that
  comparing at most \<^verbatim>\<open>CXPU_INSTANCE_ID_LEN\<close> characters is comparing prefixes. The manager of the
  device memory, \<^verbatim>\<open>cxpu->mm\<close>, is an argument. NULL devices are not modelled; a NULL instance is
  \<^term>\<open>None\<close>.
\<close>

section \<open>Data\<close>

definition CXPU_INSTANCE_ID_LEN :: nat where "CXPU_INSTANCE_ID_LEN = 12"
definition CXPU_INSTANCE_MEM_UNLIMIT :: nat where "CXPU_INSTANCE_MEM_UNLIMIT = 2 ^ 64 - 1"
definition CXPU_INSTANCE_CORE_UNLIMIT :: nat where "CXPU_INSTANCE_CORE_UNLIMIT = 2 ^ 32 - 1"
definition CXPU_INSTANCE_MAX_CORE_NUM :: nat where "CXPU_INSTANCE_MAX_CORE_NUM = 100"

record kl_cxpu_mem_info =
  mi_page_size :: nat
  mi_page_cnt :: nat
  mi_page_used :: nat

record kl_cxpu_instance =
  ci_refs :: nat
  ci_instance_id :: string
  ci_token :: nat
  ci_mem_used_pgcnt :: "nat list"
  ci_mem_limit_pgcnt :: "nat list"
  ci_core_limit :: nat

record kl_cxpu =
  cx_instance_list :: "nat list"
  cx_store :: "nat \<Rightarrow> kl_cxpu_instance option"
  cx_instance_cnt :: int
  cx_instance_max_cnt :: int
  cx_enabled :: bool
  cx_ecc_on :: bool
  cx_main_mem :: kl_cxpu_mem_info
  cx_l3_mem :: kl_cxpu_mem_info
  cx_assigned_core :: nat
  cx_total_core :: nat

definition upd_instance ::
    "kl_cxpu \<Rightarrow> nat \<Rightarrow> (kl_cxpu_instance \<Rightarrow> kl_cxpu_instance) \<Rightarrow> kl_cxpu option" where
  "upd_instance cx a f = map_option (\<lambda>i. cx\<lparr>cx_store := (cx_store cx)(a \<mapsto> f i)\<rparr>) (cx_store cx a)"

section \<open>Arithmetic\<close>

definition mk2md :: "'o kl_mm \<Rightarrow> nat \<Rightarrow> 'o kl_memory option" where
  "mk2md mm kind = List.find (\<lambda>m. km_kind m = kind) (mm_mem mm)"

definition bytes2pgcnt :: "'o kl_memory \<Rightarrow> nat \<Rightarrow> nat" where
  "bytes2pgcnt mem bytes =
     (if u64 (u64_sub bytes 1 + km_page_size mem) < bytes then CXPU_INSTANCE_MEM_UNLIMIT
      else u64_sub (u64 (bytes + km_page_size mem)) 1 div 2 ^ km_page_bits mem)"

definition exceed_limit :: "nat \<Rightarrow> nat \<Rightarrow> nat \<Rightarrow> bool" where
  "exceed_limit used needed lim \<longleftrightarrow> lim < u64 (used + needed)"

definition actmem_to_showmem :: "bool \<Rightarrow> nat \<Rightarrow> nat \<Rightarrow> nat" where
  "actmem_to_showmem ecc_on kind act_mem =
     (if ecc_on \<and> kind = XPU_MEM_MAIN then u64 (act_mem * 8) div 7 else act_mem)"

definition showmem_to_actmem :: "bool \<Rightarrow> nat \<Rightarrow> nat \<Rightarrow> nat" where
  "showmem_to_actmem ecc_on kind show_mem =
     (if ecc_on \<and> kind = XPU_MEM_MAIN then u64 (show_mem * 7 + 7) div 8 else show_mem)"

definition kl_cxpu_get_mainmem_cnt_all :: "'o kl_mm \<Rightarrow> nat" where
  "kl_cxpu_get_mainmem_cnt_all mm =
     u64 (kl_mm_get_bytes_all mm XPU_MEM_MAIN + kl_mm_get_bytes_all mm XPU_MEM_CODE +
          kl_mm_get_bytes_all mm XPU_MEM_PARAM + kl_mm_get_bytes_all mm XPU_MEM_PRINTF +
          kl_mm_get_bytes_all mm XPU_MEM_RESERVED) div kl_mm_get_pgsz mm XPU_MEM_MAIN"

section \<open>Setting up\<close>

definition kl_cxpu_init :: "'o kl_mm \<Rightarrow> bool \<Rightarrow> kl_cxpu" where
  "kl_cxpu_init mm ecc_on =
     \<lparr>cx_instance_list = [], cx_store = (\<lambda>_. None), cx_instance_cnt = 0, cx_instance_max_cnt = 12,
      cx_enabled = True, cx_ecc_on = ecc_on,
      cx_main_mem = \<lparr>mi_page_size = kl_mm_get_pgsz mm XPU_MEM_MAIN,
                     mi_page_cnt = kl_cxpu_get_mainmem_cnt_all mm, mi_page_used = 0\<rparr>,
      cx_l3_mem = \<lparr>mi_page_size = kl_mm_get_pgsz mm XPU_MEM_L3,
                   mi_page_cnt = kl_mm_get_pg_all mm XPU_MEM_L3, mi_page_used = 0\<rparr>,
      cx_assigned_core = 0, cx_total_core = CXPU_INSTANCE_MAX_CORE_NUM\<rparr>"

text \<open>Switching off frees every instance, whoever still refers to it.\<close>

definition kl_cxpu_uninit :: "kl_cxpu \<Rightarrow> kl_status \<times> kl_cxpu" where
  "kl_cxpu_uninit cx =
     (if \<not> cx_enabled cx then (Some EINVAL, cx)
      else (None, cx\<lparr>cx_enabled := False, cx_instance_list := [],
                     cx_store := (\<lambda>a. if a \<in> set (cx_instance_list cx) then None else cx_store cx a)\<rparr>))"

section \<open>The list of instances\<close>

definition kl_cxpu_get_instance_count :: "kl_cxpu \<Rightarrow> int" where
  "kl_cxpu_get_instance_count cx = cx_instance_cnt cx"

definition kl_cxpu_get_max_instance_count :: "kl_cxpu \<Rightarrow> int" where
  "kl_cxpu_get_max_instance_count cx = cx_instance_max_cnt cx"

text \<open>The name at an index; \<open>buf\<close> is what the caller's buffer held before.\<close>

definition kl_cxpu_get_instance_id :: "kl_cxpu \<Rightarrow> int \<Rightarrow> string \<Rightarrow> (kl_err + string) option" where
  "kl_cxpu_get_instance_id cx index buf =
     (if index \<ge> cx_instance_max_cnt cx then Some (Inl EINVAL)
      else if 0 \<le> index \<and> index < int (length (cx_instance_list cx)) then
        map_option (\<lambda>i. Inr (ci_instance_id i)) (cx_store cx (cx_instance_list cx ! nat index))
      else Some (Inr buf))"

definition same_name :: "string \<Rightarrow> string \<Rightarrow> bool" where
  "same_name s t \<longleftrightarrow> take CXPU_INSTANCE_ID_LEN s = take CXPU_INSTANCE_ID_LEN t"

text \<open>The walk along the list to the first instance with a property.\<close>

fun find_instance ::
    "(nat \<Rightarrow> kl_cxpu_instance option) \<Rightarrow> (kl_cxpu_instance \<Rightarrow> bool) \<Rightarrow> nat list \<Rightarrow> nat option option" where
  "find_instance st P [] = Some None"
| "find_instance st P (a # as) =
     (case st a of None \<Rightarrow> None
      | Some i \<Rightarrow> if P i then Some (Some a) else find_instance st P as)"

definition instance_get :: "kl_cxpu \<Rightarrow> nat option \<Rightarrow> (nat option \<times> kl_cxpu) option" where
  "instance_get cx ins =
     (case ins of None \<Rightarrow> Some (None, cx)
      | Some a \<Rightarrow> map_option (Pair (Some a)) (upd_instance cx a (\<lambda>i. i\<lparr>ci_refs := ci_refs i + 1\<rparr>)))"

definition kl_cxpu_get_instance_by_id_locked :: "kl_cxpu \<Rightarrow> string \<Rightarrow> (nat option \<times> kl_cxpu) option" where
  "kl_cxpu_get_instance_by_id_locked cx iid =
     (if \<not> cx_enabled cx then Some (None, cx)
      else do {
        ins \<leftarrow> find_instance (cx_store cx) (\<lambda>i. same_name (ci_instance_id i) iid) (cx_instance_list cx);
        instance_get cx ins
      })"

definition kl_cxpu_get_instance_by_token_locked :: "kl_cxpu \<Rightarrow> nat \<Rightarrow> (nat option \<times> kl_cxpu) option" where
  "kl_cxpu_get_instance_by_token_locked cx token =
     (if \<not> cx_enabled cx then Some (None, cx)
      else do {
        ins \<leftarrow> find_instance (cx_store cx) (\<lambda>i. ci_token i = token) (cx_instance_list cx);
        instance_get cx ins
      })"

text \<open>What a limit takes from the pages of the device.\<close>

definition limit_pages :: "kl_cxpu_instance \<Rightarrow> nat \<Rightarrow> nat" where
  "limit_pages i kind =
     (if ci_mem_limit_pgcnt i ! kind = CXPU_INSTANCE_MEM_UNLIMIT then 0 else ci_mem_limit_pgcnt i ! kind)"

definition kl_cxpu_destroy_instance_ref :: "kl_cxpu \<Rightarrow> nat \<Rightarrow> kl_cxpu option" where
  "kl_cxpu_destroy_instance_ref cx a = do {
     i \<leftarrow> cx_store cx a;
     Some (cx\<lparr>cx_instance_list := remove1 a (cx_instance_list cx),
              cx_instance_cnt := cx_instance_cnt cx - 1,
              cx_assigned_core :=
                (if ci_core_limit i \<noteq> CXPU_INSTANCE_CORE_UNLIMIT
                 then u32_sub (cx_assigned_core cx) (ci_core_limit i) else cx_assigned_core cx),
              cx_main_mem := (cx_main_mem cx)\<lparr>mi_page_used :=
                u64_sub (mi_page_used (cx_main_mem cx)) (limit_pages i XPU_MEM_MAIN)\<rparr>,
              cx_l3_mem := (cx_l3_mem cx)\<lparr>mi_page_used :=
                u64_sub (mi_page_used (cx_l3_mem cx)) (limit_pages i XPU_MEM_L3)\<rparr>,
              cx_store := (cx_store cx)(a := None)\<rparr>)
   }"

definition instance_put :: "kl_cxpu \<Rightarrow> nat \<Rightarrow> kl_cxpu option" where
  "instance_put cx a = do {
     i \<leftarrow> cx_store cx a;
     (if ci_refs i = 1 then kl_cxpu_destroy_instance_ref cx a
      else upd_instance cx a (\<lambda>i. i\<lparr>ci_refs := ci_refs i - 1\<rparr>))
   }"

definition kl_cxpu_put_instance_locked :: "kl_cxpu \<Rightarrow> nat option \<Rightarrow> kl_cxpu option" where
  "kl_cxpu_put_instance_locked cx ins =
     (if \<not> cx_enabled cx then Some cx
      else case ins of None \<Rightarrow> Some cx | Some a \<Rightarrow> instance_put cx a)"

text \<open>
  Creating an instance: the tests before the lock is taken, and the section under the lock. The
  argument \<open>fresh\<close> is the result of \<^verbatim>\<open>kzalloc\<close>, which the code does not test.
\<close>

definition create_check :: "kl_cxpu \<Rightarrow> kl_status" where
  "create_check cx =
     (if \<not> cx_enabled cx then Some EINVAL
      else if cx_instance_cnt cx \<ge> cx_instance_max_cnt cx then Some ENOMEM else None)"

definition new_instance :: "nat \<Rightarrow> string \<Rightarrow> kl_cxpu_instance" where
  "new_instance token iid =
     \<lparr>ci_refs = 1, ci_instance_id = take CXPU_INSTANCE_ID_LEN iid, ci_token = token,
      ci_mem_used_pgcnt = replicate XPU_MEM_COUNT 0,
      ci_mem_limit_pgcnt = replicate XPU_MEM_COUNT CXPU_INSTANCE_MEM_UNLIMIT,
      ci_core_limit = CXPU_INSTANCE_CORE_UNLIMIT\<rparr>"

definition create_locked :: "kl_cxpu \<Rightarrow> nat option \<Rightarrow> nat \<Rightarrow> string \<Rightarrow> (kl_status \<times> kl_cxpu) option" where
  "create_locked cx fresh token iid = do {
     ins \<leftarrow> find_instance (cx_store cx) (\<lambda>i. same_name (ci_instance_id i) iid) (cx_instance_list cx);
     (case ins of
        Some _ \<Rightarrow> Some (Some EEXIST, cx)
      | None \<Rightarrow> do {
          a \<leftarrow> fresh;
          Some (None, cx\<lparr>cx_store := (cx_store cx)(a \<mapsto> new_instance token iid),
                         cx_instance_list := cx_instance_list cx @ [a],
                         cx_instance_cnt := cx_instance_cnt cx + 1\<rparr>)
        })
   }"

definition kl_cxpu_create_instance ::
    "kl_cxpu \<Rightarrow> nat option \<Rightarrow> nat \<Rightarrow> string \<Rightarrow> (kl_status \<times> kl_cxpu) option" where
  "kl_cxpu_create_instance cx fresh token iid =
     (case create_check cx of Some e \<Rightarrow> Some (Some e, cx) | None \<Rightarrow> create_locked cx fresh token iid)"

definition kl_cxpu_destroy_instance :: "kl_cxpu \<Rightarrow> string \<Rightarrow> (kl_status \<times> kl_cxpu) option" where
  "kl_cxpu_destroy_instance cx iid =
     (if \<not> cx_enabled cx then Some (Some EINVAL, cx)
      else do {
        ins \<leftarrow> find_instance (cx_store cx) (\<lambda>i. same_name (ci_instance_id i) iid) (cx_instance_list cx);
        (case ins of
           None \<Rightarrow> Some (None, cx)
         | Some a \<Rightarrow> do {
             i \<leftarrow> cx_store cx a;
             (if ci_refs i > 1 then Some (Some EBUSY, cx) else map_option (Pair None) (instance_put cx a))
           })
      })"

section \<open>Limits\<close>

definition limit_info :: "kl_cxpu \<Rightarrow> nat \<Rightarrow> kl_cxpu_mem_info" where
  "limit_info cx kind = (if kind = XPU_MEM_MAIN then cx_main_mem cx else cx_l3_mem cx)"

definition set_limit_used :: "kl_cxpu \<Rightarrow> nat \<Rightarrow> nat \<Rightarrow> kl_cxpu" where
  "set_limit_used cx kind used =
     (if kind = XPU_MEM_MAIN then cx\<lparr>cx_main_mem := (cx_main_mem cx)\<lparr>mi_page_used := used\<rparr>\<rparr>
      else cx\<lparr>cx_l3_mem := (cx_l3_mem cx)\<lparr>mi_page_used := used\<rparr>\<rparr>)"

definition set_limit_pages :: "kl_cxpu \<Rightarrow> nat \<Rightarrow> nat \<Rightarrow> nat \<Rightarrow> kl_cxpu option" where
  "set_limit_pages cx a kind pgcnt =
     upd_instance cx a (\<lambda>i. i\<lparr>ci_mem_limit_pgcnt := (ci_mem_limit_pgcnt i)[kind := pgcnt]\<rparr>)"

text \<open>All pages a kind of memory has for limits, as \<^verbatim>\<open>kl_cxpu_instance_set_mem_limit_locked\<close> counts them.\<close>

definition pages_for_limits :: "'o kl_mm \<Rightarrow> nat \<Rightarrow> nat" where
  "pages_for_limits mm kind =
     (if kind = XPU_MEM_MAIN then kl_cxpu_get_mainmem_cnt_all mm else kl_mm_get_pg_all mm kind)"

definition kl_cxpu_instance_set_mem_limit_locked ::
    "'o kl_mm \<Rightarrow> kl_cxpu \<Rightarrow> nat option \<Rightarrow> nat \<Rightarrow> nat \<Rightarrow> (kl_status \<times> kl_cxpu) option" where
  "kl_cxpu_instance_set_mem_limit_locked mm cx ins kind limit_bytes =
     (case ins of
        None \<Rightarrow> Some (Some EINVAL, cx)
      | Some a \<Rightarrow>
          (case mk2md mm kind of
             None \<Rightarrow> Some (Some EINVAL, cx)
           | Some mem \<Rightarrow>
               if kind \<noteq> XPU_MEM_MAIN \<and> kind \<noteq> XPU_MEM_L3 then Some (Some EINVAL, cx)
               else do {
                 i \<leftarrow> cx_store cx a;
                 let last = limit_pages i kind;
                 let used = mi_page_used (limit_info cx kind);
                 (if limit_bytes = CXPU_INSTANCE_MEM_UNLIMIT then
                    map_option (Pair None)
                      (set_limit_pages (set_limit_used cx kind (u64_sub used last)) a kind
                         CXPU_INSTANCE_MEM_UNLIMIT)
                  else if bytes2pgcnt mem limit_bytes = CXPU_INSTANCE_MEM_UNLIMIT then Some (Some EINVAL, cx)
                  else
                    let pgcnt = showmem_to_actmem (cx_ecc_on cx) kind (bytes2pgcnt mem limit_bytes);
                        available = u64_sub (u64 (pages_for_limits mm kind + last)) used
                    in if pgcnt \<le> available then
                         map_option (Pair None)
                           (set_limit_pages (set_limit_used cx kind (u64 (u64_sub used last + pgcnt))) a kind pgcnt)
                       else Some (Some ENOMEM, cx))
               }))"

definition kl_cxpu_set_instance_mem_limit ::
    "'o kl_mm \<Rightarrow> kl_cxpu \<Rightarrow> string \<Rightarrow> nat \<Rightarrow> nat \<Rightarrow> (kl_status \<times> kl_cxpu) option" where
  "kl_cxpu_set_instance_mem_limit mm cx iid kind limit_bytes = do {
     (ins, cx1) \<leftarrow> kl_cxpu_get_instance_by_id_locked cx iid;
     (ret, cx2) \<leftarrow> kl_cxpu_instance_set_mem_limit_locked mm cx1 ins kind limit_bytes;
     cx3 \<leftarrow> kl_cxpu_put_instance_locked cx2 ins;
     Some (ret, cx3)
   }"

section \<open>Reading\<close>

definition kl_cxpu_get_memory_info :: "kl_cxpu \<Rightarrow> nat \<Rightarrow> kl_err + kl_cxpu_mem_info" where
  "kl_cxpu_get_memory_info cx kind =
     (if kind \<noteq> XPU_MEM_MAIN \<and> kind \<noteq> XPU_MEM_L3 then Inl EINVAL
      else let m = limit_info cx kind
           in Inr \<lparr>mi_page_size = mi_page_size m,
                   mi_page_cnt = actmem_to_showmem (cx_ecc_on cx) kind (mi_page_cnt m),
                   mi_page_used = actmem_to_showmem (cx_ecc_on cx) kind (mi_page_used m)\<rparr>)"

definition kl_cxpu_instance_get_token :: "kl_cxpu \<Rightarrow> nat option \<Rightarrow> nat option" where
  "kl_cxpu_instance_get_token cx ins =
     (case ins of None \<Rightarrow> Some 0 | Some a \<Rightarrow> map_option ci_token (cx_store cx a))"

definition kl_cxpu_instance_get_refcount :: "kl_cxpu \<Rightarrow> nat option \<Rightarrow> (kl_err + nat) option" where
  "kl_cxpu_instance_get_refcount cx ins =
     (case ins of None \<Rightarrow> Some (Inl EINVAL) | Some a \<Rightarrow> map_option (\<lambda>i. Inr (ci_refs i)) (cx_store cx a))"

definition kl_cxpu_instance_is_mem_limit_on :: "kl_cxpu \<Rightarrow> nat option \<Rightarrow> nat \<Rightarrow> bool option" where
  "kl_cxpu_instance_is_mem_limit_on cx ins kind =
     (case ins of None \<Rightarrow> Some False
      | Some a \<Rightarrow> map_option (\<lambda>i. ci_mem_limit_pgcnt i ! kind \<noteq> CXPU_INSTANCE_MEM_UNLIMIT) (cx_store cx a))"

definition kl_cxpu_instance_get_mem_used :: "kl_cxpu \<Rightarrow> nat option \<Rightarrow> nat \<Rightarrow> nat option" where
  "kl_cxpu_instance_get_mem_used cx ins kind =
     (case ins of None \<Rightarrow> Some 0
      | Some a \<Rightarrow> map_option (\<lambda>i. actmem_to_showmem (cx_ecc_on cx) kind (ci_mem_used_pgcnt i ! kind)) (cx_store cx a))"

definition kl_cxpu_instance_get_mem_limit :: "kl_cxpu \<Rightarrow> nat option \<Rightarrow> nat \<Rightarrow> nat option" where
  "kl_cxpu_instance_get_mem_limit cx ins kind =
     (case ins of None \<Rightarrow> Some CXPU_INSTANCE_MEM_UNLIMIT
      | Some a \<Rightarrow> map_option (\<lambda>i. actmem_to_showmem (cx_ecc_on cx) kind (ci_mem_limit_pgcnt i ! kind)) (cx_store cx a))"

definition kl_cxpu_instance_get_core_limit :: "kl_cxpu \<Rightarrow> nat option \<Rightarrow> nat option" where
  "kl_cxpu_instance_get_core_limit cx ins =
     (case ins of None \<Rightarrow> Some CXPU_INSTANCE_CORE_UNLIMIT | Some a \<Rightarrow> map_option ci_core_limit (cx_store cx a))"

definition kl_cxpu_get_instance_memory_info ::
    "'o kl_mm \<Rightarrow> kl_cxpu \<Rightarrow> string \<Rightarrow> nat \<Rightarrow> ((kl_err + kl_cxpu_mem_info) \<times> kl_cxpu) option" where
  "kl_cxpu_get_instance_memory_info mm cx iid kind = do {
     (ins, cx1) \<leftarrow> kl_cxpu_get_instance_by_id_locked cx iid;
     (case ins of
        None \<Rightarrow> Some (Inl EINVAL, cx1)
      | Some a \<Rightarrow> do {
          used \<leftarrow> kl_cxpu_instance_get_mem_used cx1 (Some a) kind;
          lim \<leftarrow> kl_cxpu_instance_get_mem_limit cx1 (Some a) kind;
          cx2 \<leftarrow> kl_cxpu_put_instance_locked cx1 (Some a);
          Some (Inr \<lparr>mi_page_size = kl_mm_get_pgsz mm kind, mi_page_cnt = lim, mi_page_used = used\<rparr>, cx2)
        })
   }"

section \<open>Charging\<close>

definition charge_with :: "(nat \<Rightarrow> nat) \<Rightarrow> kl_cxpu \<Rightarrow> nat option \<Rightarrow> nat \<Rightarrow> kl_cxpu option" where
  "charge_with f cx ins kind =
     (case ins of None \<Rightarrow> Some cx
      | Some a \<Rightarrow> upd_instance cx a
          (\<lambda>i. i\<lparr>ci_mem_used_pgcnt := (ci_mem_used_pgcnt i)[kind := f (ci_mem_used_pgcnt i ! kind)]\<rparr>))"

definition kl_cxpu_instance_add_mem_used :: "kl_cxpu \<Rightarrow> nat option \<Rightarrow> nat \<Rightarrow> nat \<Rightarrow> kl_cxpu option" where
  "kl_cxpu_instance_add_mem_used cx ins kind page_cnt = charge_with (\<lambda>n. u64 (n + page_cnt)) cx ins kind"

definition kl_cxpu_instance_sub_mem_used :: "kl_cxpu \<Rightarrow> nat option \<Rightarrow> nat \<Rightarrow> nat \<Rightarrow> kl_cxpu option" where
  "kl_cxpu_instance_sub_mem_used cx ins kind page_cnt = charge_with (\<lambda>n. u64_sub n page_cnt) cx ins kind"

definition kl_cxpu_instance_check_mem_limit :: "kl_cxpu \<Rightarrow> nat option \<Rightarrow> nat \<Rightarrow> nat \<Rightarrow> kl_status option" where
  "kl_cxpu_instance_check_mem_limit cx ins kind page_needed =
     (case ins of
        None \<Rightarrow> Some None
      | Some a \<Rightarrow> map_option
          (\<lambda>i. if exceed_limit (ci_mem_used_pgcnt i ! kind) page_needed (ci_mem_limit_pgcnt i ! kind)
               then Some XPUERR_NOMEM else None) (cx_store cx a))"

end
