(* ===== verification/Kl_Cxpu_Props.thy ===== *)
theory Kl_Cxpu_Props
  imports Kl_Cxpu Kl_Mm_Props
begin

text \<open>
  The invariant of the instances of \<^verbatim>\<open>kl_cxpu.c\<close>: the list holds exactly the live instances, once
  each and under different names, an instance is referred to by the list and its holders, and the
  pages given away are the sum of the limits and not more than there are. Every operation returns
  and keeps it.
\<close>

section \<open>The invariant\<close>

definition limit_total :: "kl_cxpu \<Rightarrow> nat \<Rightarrow> nat" where
  "limit_total cx kind = (\<Sum>a\<in>set (cx_instance_list cx). limit_pages (the (cx_store cx a)) kind)"

definition instance_ok :: "nat \<Rightarrow> kl_cxpu_instance \<Rightarrow> bool" where
  "instance_ok hold i \<longleftrightarrow>
     ci_refs i = 1 + hold \<and> length (ci_mem_used_pgcnt i) = XPU_MEM_COUNT \<and>
     length (ci_mem_limit_pgcnt i) = XPU_MEM_COUNT \<and> length (ci_instance_id i) \<le> CXPU_INSTANCE_ID_LEN \<and>
     ci_core_limit i = CXPU_INSTANCE_CORE_UNLIMIT"

definition info_sum_ok :: "kl_cxpu \<Rightarrow> nat \<Rightarrow> nat \<Rightarrow> bool" where
  "info_sum_ok cx kind cap \<longleftrightarrow>
     mi_page_used (limit_info cx kind) = limit_total cx kind \<and> limit_total cx kind \<le> cap \<and>
     cap < 2 ^ 63 \<and> mi_page_cnt (limit_info cx kind) = cap"

definition cx_ok :: "(nat \<Rightarrow> nat) \<Rightarrow> nat \<Rightarrow> nat \<Rightarrow> kl_cxpu \<Rightarrow> bool" where
  "cx_ok hold main_total l3_total cx \<longleftrightarrow>
     cx_enabled cx \<and> distinct (cx_instance_list cx) \<and>
     (\<forall>a. cx_store cx a \<noteq> None \<longleftrightarrow> a \<in> set (cx_instance_list cx)) \<and>
     cx_instance_cnt cx = int (length (cx_instance_list cx)) \<and>
     (\<forall>a i. cx_store cx a = Some i \<longrightarrow> instance_ok (hold a) i) \<and>
     (\<forall>a b i j. cx_store cx a = Some i \<and> cx_store cx b = Some j \<and>
        ci_instance_id i = ci_instance_id j \<longrightarrow> a = b) \<and>
     info_sum_ok cx XPU_MEM_MAIN main_total \<and> info_sum_ok cx XPU_MEM_L3 l3_total"

lemma cx_okD:
  assumes "cx_ok hold mt lt cx"
  shows "cx_enabled cx" "distinct (cx_instance_list cx)"
    "cx_store cx a \<noteq> None \<longleftrightarrow> a \<in> set (cx_instance_list cx)"
    "cx_instance_cnt cx = int (length (cx_instance_list cx))"
    "cx_store cx a = Some i \<Longrightarrow> instance_ok (hold a) i"
    "cx_store cx a = Some i \<Longrightarrow> cx_store cx b = Some j \<Longrightarrow> ci_instance_id i = ci_instance_id j \<Longrightarrow> a = b"
    "info_sum_ok cx XPU_MEM_MAIN mt" "info_sum_ok cx XPU_MEM_L3 lt"
  using assms unfolding cx_ok_def by blast+

lemma same_name_short:
  "length s \<le> CXPU_INSTANCE_ID_LEN \<Longrightarrow> same_name s t \<longleftrightarrow> s = take CXPU_INSTANCE_ID_LEN t"
  by (simp add: same_name_def)

lemma find_instance_cases:
  assumes "\<forall>a\<in>set as. st a \<noteq> None"
  shows "(find_instance st P as = Some None \<and> (\<forall>a\<in>set as. \<not> P (the (st a)))) \<or>
         (\<exists>a i. find_instance st P as = Some (Some a) \<and> a \<in> set as \<and> st a = Some i \<and> P i)"
  using assms by (induction as) (auto split: option.splits)

lemma cx_find:
  assumes "cx_ok hold mt lt cx"
  shows "(find_instance (cx_store cx) P (cx_instance_list cx) = Some None \<and>
            (\<forall>a i. cx_store cx a = Some i \<longrightarrow> \<not> P i)) \<or>
         (\<exists>a i. find_instance (cx_store cx) P (cx_instance_list cx) = Some (Some a) \<and>
            cx_store cx a = Some i \<and> P i)"
proof -
  have all: "\<forall>a\<in>set (cx_instance_list cx). cx_store cx a \<noteq> None"
    using cx_okD(3) [OF assms] by blast
  have in_list: "a \<in> set (cx_instance_list cx)" if "cx_store cx a = Some i" for a i
    using that cx_okD(3) [OF assms, of a] by simp
  from find_instance_cases [OF all, of P] show ?thesis
    using in_list by (metis option.sel)
qed

section \<open>Changing one instance\<close>

text \<open>
  An update of an instance that keeps its name: the invariant moves to the new holders, and the
  pages given away change by the difference of the limits.
\<close>

lemma limit_total_upd:
  assumes ok: "cx_ok hold mt lt cx" and a: "cx_store cx a = Some i"
  shows "limit_total (cx\<lparr>cx_store := (cx_store cx)(a \<mapsto> j)\<rparr>) k + limit_pages i k
         = limit_total cx k + limit_pages j k"
    and "limit_pages i k \<le> limit_total cx k"
proof -
  let ?S = "set (cx_instance_list cx)" and ?g = "\<lambda>st x. limit_pages (the (st x)) k"
  have m: "a \<in> ?S" using cx_okD(3) [OF ok, of a] a by simp
  have rest: "(\<Sum>x\<in>?S - {a}. ?g ((cx_store cx)(a \<mapsto> j)) x) = (\<Sum>x\<in>?S - {a}. ?g (cx_store cx) x)"
    by (rule sum.cong) auto
  show "limit_total (cx\<lparr>cx_store := (cx_store cx)(a \<mapsto> j)\<rparr>) k + limit_pages i k
         = limit_total cx k + limit_pages j k"
    using m a rest sum.remove [of ?S a "?g (cx_store cx)"] sum.remove [of ?S a "?g ((cx_store cx)(a \<mapsto> j))"]
    by (simp add: limit_total_def)
  show "limit_pages i k \<le> limit_total cx k"
    using m a member_le_sum [of a ?S "?g (cx_store cx)"] by (simp add: limit_total_def)
qed

lemma cx_ok_upd:
  assumes ok: "cx_ok hold mt lt cx" and a: "cx_store cx a = Some i"
    and j: "instance_ok (hold' a) j" "ci_instance_id j = ci_instance_id i"
    and h: "\<forall>b. b \<noteq> a \<longrightarrow> hold' b = hold b"
    and s: "info_sum_ok (cx\<lparr>cx_store := (cx_store cx)(a \<mapsto> j), cx_main_mem := mm', cx_l3_mem := lm'\<rparr>) XPU_MEM_MAIN mt"
      "info_sum_ok (cx\<lparr>cx_store := (cx_store cx)(a \<mapsto> j), cx_main_mem := mm', cx_l3_mem := lm'\<rparr>) XPU_MEM_L3 lt"
  shows "cx_ok hold' mt lt (cx\<lparr>cx_store := (cx_store cx)(a \<mapsto> j), cx_main_mem := mm', cx_l3_mem := lm'\<rparr>)"
proof -
  let ?cx = "cx\<lparr>cx_store := (cx_store cx)(a \<mapsto> j), cx_main_mem := mm', cx_l3_mem := lm'\<rparr>"
  have dom: "cx_store ?cx b \<noteq> None \<longleftrightarrow> b \<in> set (cx_instance_list ?cx)" for b
    using cx_okD(3) [OF ok, of b] cx_okD(3) [OF ok, of a] a by auto
  have ins: "instance_ok (hold' b) y" if "cx_store ?cx b = Some y" for b y
    using that j(1) h cx_okD(5) [OF ok, of b y] by (auto split: if_splits)
  have nm: "b = c" if "cx_store ?cx b = Some y" "cx_store ?cx c = Some z" "ci_instance_id y = ci_instance_id z"
    for b c y z
    using that j(2) a cx_okD(6) [OF ok] by (auto split: if_splits)
  have en: "cx_enabled ?cx" "distinct (cx_instance_list ?cx)"
      "cx_instance_cnt ?cx = int (length (cx_instance_list ?cx))"
    using cx_okD(1,2,4) [OF ok] by auto
  show ?thesis unfolding cx_ok_def using en dom ins nm s by blast
qed

lemma same_limits [simp]:
  "cx\<lparr>cx_store := st, cx_main_mem := cx_main_mem cx, cx_l3_mem := cx_l3_mem cx\<rparr> = cx\<lparr>cx_store := st\<rparr>"
  by (cases cx) simp

lemma limit_info_store [simp]: "limit_info (cx\<lparr>cx_store := st\<rparr>) k = limit_info cx k"
  by (simp add: limit_info_def)

text \<open>An update that keeps the limits.\<close>

lemma cx_ok_keep:
  assumes ok: "cx_ok hold mt lt cx" and a: "cx_store cx a = Some i"
    and j: "instance_ok (hold' a) j" "ci_instance_id j = ci_instance_id i"
      "ci_mem_limit_pgcnt j = ci_mem_limit_pgcnt i"
    and h: "\<forall>b. b \<noteq> a \<longrightarrow> hold' b = hold b"
  shows "cx_ok hold' mt lt (cx\<lparr>cx_store := (cx_store cx)(a \<mapsto> j)\<rparr>)"
proof -
  have "limit_total (cx\<lparr>cx_store := (cx_store cx)(a \<mapsto> j)\<rparr>) k = limit_total cx k" for k
    using limit_total_upd(1) [OF ok a, of j k] j(3) by (simp add: limit_pages_def split: if_splits)
  then show ?thesis
    using cx_ok_upd [OF ok a j(1,2) h, where mm' = "cx_main_mem cx" and lm' = "cx_l3_mem cx"] cx_okD(7,8) [OF ok]
    by (simp add: info_sum_ok_def)
qed

lemma charge_ok:
  assumes ok: "cx_ok hold mt lt cx" and a: "cx_store cx a = Some i"
  shows "cx_ok hold mt lt (cx\<lparr>cx_store := (cx_store cx)(a \<mapsto> i\<lparr>ci_mem_used_pgcnt :=
           (ci_mem_used_pgcnt i)[k := v]\<rparr>)\<rparr>)"
  by (rule cx_ok_keep [OF ok a]) (use cx_okD(5) [OF ok a] in \<open>auto simp: instance_ok_def\<close>)

section \<open>References\<close>

lemma instance_get_ok:
  assumes ok: "cx_ok hold mt lt cx" and a: "cx_store cx a = Some i"
  shows "instance_get cx (Some a) = Some (Some a, cx\<lparr>cx_store := (cx_store cx)(a \<mapsto> i\<lparr>ci_refs := ci_refs i + 1\<rparr>)\<rparr>)"
    and "cx_ok (hold(a := hold a + 1)) mt lt (cx\<lparr>cx_store := (cx_store cx)(a \<mapsto> i\<lparr>ci_refs := ci_refs i + 1\<rparr>)\<rparr>)"
proof -
  show "instance_get cx (Some a) = Some (Some a, cx\<lparr>cx_store := (cx_store cx)(a \<mapsto> i\<lparr>ci_refs := ci_refs i + 1\<rparr>)\<rparr>)"
    using a by (simp add: instance_get_def upd_instance_def)
  show "cx_ok (hold(a := hold a + 1)) mt lt (cx\<lparr>cx_store := (cx_store cx)(a \<mapsto> i\<lparr>ci_refs := ci_refs i + 1\<rparr>)\<rparr>)"
    by (rule cx_ok_keep [OF ok a]) (use cx_okD(5) [OF ok a] in \<open>auto simp: instance_ok_def\<close>)
qed

text \<open>Dropping a reference that a holder has never frees the instance, the list still refers to it.\<close>

lemma put_holder:
  assumes ok: "cx_ok hold mt lt cx" and a: "cx_store cx a = Some i" and h: "0 < hold a"
  shows "kl_cxpu_put_instance_locked cx (Some a) =
      Some (cx\<lparr>cx_store := (cx_store cx)(a \<mapsto> i\<lparr>ci_refs := ci_refs i - 1\<rparr>)\<rparr>)"
    and "cx_ok (hold(a := hold a - 1)) mt lt (cx\<lparr>cx_store := (cx_store cx)(a \<mapsto> i\<lparr>ci_refs := ci_refs i - 1\<rparr>)\<rparr>)"
proof -
  note i = cx_okD(5) [OF ok a]
  show "kl_cxpu_put_instance_locked cx (Some a) =
      Some (cx\<lparr>cx_store := (cx_store cx)(a \<mapsto> i\<lparr>ci_refs := ci_refs i - 1\<rparr>)\<rparr>)"
    using cx_okD(1) [OF ok] a h i
    by (simp add: kl_cxpu_put_instance_locked_def instance_put_def upd_instance_def instance_ok_def)
  show "cx_ok (hold(a := hold a - 1)) mt lt (cx\<lparr>cx_store := (cx_store cx)(a \<mapsto> i\<lparr>ci_refs := ci_refs i - 1\<rparr>)\<rparr>)"
    by (rule cx_ok_keep [OF ok a]) (use i h in \<open>auto simp: instance_ok_def\<close>)
qed

lemma get_by_token_cases:
  assumes ok: "cx_ok hold mt lt cx"
  shows "(kl_cxpu_get_instance_by_token_locked cx token = Some (None, cx) \<and>
            (\<forall>a i. cx_store cx a = Some i \<longrightarrow> ci_token i \<noteq> token)) \<or>
         (\<exists>a i. cx_store cx a = Some i \<and> ci_token i = token \<and>
            kl_cxpu_get_instance_by_token_locked cx token =
              Some (Some a, cx\<lparr>cx_store := (cx_store cx)(a \<mapsto> i\<lparr>ci_refs := ci_refs i + 1\<rparr>)\<rparr>))"
  using cx_find [OF ok, of "\<lambda>i. ci_token i = token"] cx_okD(1) [OF ok]
  by (auto simp: kl_cxpu_get_instance_by_token_locked_def instance_get_def upd_instance_def)

section \<open>Creating and destroying\<close>

lemma create_locked_cases:
  assumes ok: "cx_ok hold mt lt cx" and fr: "cx_store cx a = None" "hold a = 0"
  shows "(create_locked cx (Some a) token iid = Some (Some EEXIST, cx) \<and>
            (\<exists>b i. cx_store cx b = Some i \<and> ci_instance_id i = take CXPU_INSTANCE_ID_LEN iid)) \<or>
         (\<exists>cx'. create_locked cx (Some a) token iid = Some (None, cx') \<and> cx_ok hold mt lt cx' \<and>
            cx_store cx' = (cx_store cx)(a \<mapsto> new_instance token iid))"
proof -
  let ?P = "\<lambda>i. same_name (ci_instance_id i) iid"
  have sn: "?P i \<longleftrightarrow> ci_instance_id i = take CXPU_INSTANCE_ID_LEN iid" if "cx_store cx b = Some i" for b i
    using cx_okD(5) [OF ok that] by (intro same_name_short) (simp add: instance_ok_def)
  from cx_find [OF ok, of ?P] consider
    (none) "find_instance (cx_store cx) ?P (cx_instance_list cx) = Some None" "\<forall>b i. cx_store cx b = Some i \<longrightarrow> \<not> ?P i"
  | (some) b i where "find_instance (cx_store cx) ?P (cx_instance_list cx) = Some (Some b)" "cx_store cx b = Some i" "?P i"
    by blast
  then show ?thesis
  proof cases
    case none
    let ?cx = "cx\<lparr>cx_store := (cx_store cx)(a \<mapsto> new_instance token iid),
                  cx_instance_list := cx_instance_list cx @ [a], cx_instance_cnt := cx_instance_cnt cx + 1\<rparr>"
    have nl: "a \<notin> set (cx_instance_list cx)" using cx_okD(3) [OF ok, of a] fr by simp
    have z: "limit_pages (new_instance token iid) k = 0" if "k = XPU_MEM_MAIN \<or> k = XPU_MEM_L3" for k
      using that by (auto simp: limit_pages_def new_instance_def xpu_mem_kinds)
    have tot: "limit_total ?cx k = limit_total cx k" if "k = XPU_MEM_MAIN \<or> k = XPU_MEM_L3" for k
    proof -
      have "(\<Sum>x\<in>set (cx_instance_list cx). limit_pages (the (((cx_store cx)(a \<mapsto> new_instance token iid)) x)) k)
          = limit_total cx k"
        unfolding limit_total_def by (rule sum.cong) (use nl in auto)
      then show ?thesis using nl z [OF that] by (simp add: limit_total_def)
    qed
    have li: "limit_info ?cx k = limit_info cx k" for k by (simp add: limit_info_def)
    have s: "info_sum_ok ?cx XPU_MEM_MAIN mt" "info_sum_ok ?cx XPU_MEM_L3 lt"
      using cx_okD(7,8) [OF ok] tot li by (simp_all add: info_sum_ok_def)
    have dom: "cx_store ?cx b \<noteq> None \<longleftrightarrow> b \<in> set (cx_instance_list ?cx)" for b
      using cx_okD(3) [OF ok, of b] by auto
    have new: "instance_ok (hold a) (new_instance token iid)"
      using fr(2) by (simp add: instance_ok_def new_instance_def)
    have ins: "instance_ok (hold b) y" if "cx_store ?cx b = Some y" for b y
      using that new cx_okD(5) [OF ok, of b y] by (auto split: if_splits)
    have other: "ci_instance_id y \<noteq> ci_instance_id (new_instance token iid)" if "cx_store cx b = Some y" for b y
      using none(2) that sn by (auto simp: new_instance_def)
    have nm: "b = c" if "cx_store ?cx b = Some y" "cx_store ?cx c = Some z" "ci_instance_id y = ci_instance_id z"
      for b c y z
      using that other [of b y] other [of c z] cx_okD(6) [OF ok, of b y c z] by (auto split: if_splits)
    have en: "cx_enabled ?cx" "distinct (cx_instance_list ?cx)"
        "cx_instance_cnt ?cx = int (length (cx_instance_list ?cx))"
      using cx_okD(1,2,4) [OF ok] nl by auto
    have "cx_ok hold mt lt ?cx" unfolding cx_ok_def using en dom ins nm s by blast
    then show ?thesis using none(1) by (intro disjI2 exI [of _ ?cx]) (simp add: create_locked_def)
  next
    case some
    then show ?thesis using sn by (auto simp: create_locked_def)
  qed
qed

text \<open>An instance is destroyed exactly when nobody but the list refers to it.\<close>

lemma destroy_ref_ok:
  assumes ok: "cx_ok hold mt lt cx" and a: "cx_store cx a = Some i" and h: "hold a = 0"
  shows "\<exists>cx'. instance_put cx a = Some cx' \<and> cx_ok hold mt lt cx' \<and> cx_store cx' = (cx_store cx)(a := None)"
proof -
  note i = cx_okD(5) [OF ok a]
  obtain cx' where cx': "kl_cxpu_destroy_instance_ref cx a = Some cx'"
    using a by (simp add: kl_cxpu_destroy_instance_ref_def)
  then have put: "instance_put cx a = Some cx'" using a i h by (simp add: instance_put_def instance_ok_def)
  note d = cx' [unfolded kl_cxpu_destroy_instance_ref_def a, simplified]
  have fields: "cx_instance_list cx' = remove1 a (cx_instance_list cx)" "cx_store cx' = (cx_store cx)(a := None)"
      "cx_enabled cx' = cx_enabled cx" "cx_instance_cnt cx' = cx_instance_cnt cx - 1"
    using d by auto
  have m: "a \<in> set (cx_instance_list cx)" using cx_okD(3) [OF ok, of a] a by simp
  have set': "set (cx_instance_list cx') = set (cx_instance_list cx) - {a}"
    using fields(1) cx_okD(2) [OF ok] by (simp add: set_remove1_eq)
  have tot: "limit_total cx' k + limit_pages i k = limit_total cx k" for k
  proof -
    have "limit_total cx' k = (\<Sum>x\<in>set (cx_instance_list cx) - {a}. limit_pages (the (cx_store cx x)) k)"
      unfolding limit_total_def set' by (rule sum.cong) (auto simp: fields)
    then show ?thesis using m a sum.remove [of "set (cx_instance_list cx)" a "\<lambda>x. limit_pages (the (cx_store cx x)) k"]
      by (simp add: limit_total_def)
  qed
  have mm: "mi_page_used (cx_main_mem cx') = u64_sub (mi_page_used (cx_main_mem cx)) (limit_pages i XPU_MEM_MAIN)"
      "mi_page_used (cx_l3_mem cx') = u64_sub (mi_page_used (cx_l3_mem cx)) (limit_pages i XPU_MEM_L3)"
      "mi_page_cnt (cx_main_mem cx') = mi_page_cnt (cx_main_mem cx)" "mi_page_cnt (cx_l3_mem cx') = mi_page_cnt (cx_l3_mem cx)"
    using d by auto
  have s: "info_sum_ok cx' XPU_MEM_MAIN mt" "info_sum_ok cx' XPU_MEM_L3 lt"
    using cx_okD(7,8) [OF ok] tot [of XPU_MEM_MAIN] tot [of XPU_MEM_L3] mm
    by (auto simp: info_sum_ok_def limit_info_def xpu_mem_kinds u64_sub_le)
  have dom: "cx_store cx' b \<noteq> None \<longleftrightarrow> b \<in> set (cx_instance_list cx')" for b
    using cx_okD(3) [OF ok, of b] set' fields(2) by auto
  have ins: "instance_ok (hold b) y" if "cx_store cx' b = Some y" for b y
    using that fields(2) cx_okD(5) [OF ok, of b y] by (auto split: if_splits)
  have nm: "b = c" if "cx_store cx' b = Some y" "cx_store cx' c = Some z" "ci_instance_id y = ci_instance_id z"
    for b c y z
    using that fields(2) cx_okD(6) [OF ok, of b y c z] by (auto split: if_splits)
  have "0 < length (cx_instance_list cx)" using m by (cases "cx_instance_list cx") auto
  then have en: "cx_enabled cx'" "distinct (cx_instance_list cx')"
      "cx_instance_cnt cx' = int (length (cx_instance_list cx'))"
    using cx_okD(1,2,4) [OF ok] fields m by (auto simp: length_remove1 of_nat_diff Suc_leI)
  have "cx_ok hold mt lt cx'" unfolding cx_ok_def using en dom ins nm s by blast
  with put fields show ?thesis by blast
qed

lemma destroy_instance_cases:
  assumes ok: "cx_ok hold mt lt cx"
  obtains (busy) a i where "kl_cxpu_destroy_instance cx iid = Some (Some EBUSY, cx)" "cx_store cx a = Some i"
      "ci_instance_id i = take CXPU_INSTANCE_ID_LEN iid" "0 < hold a"
  | (gone) a i cx' where "kl_cxpu_destroy_instance cx iid = Some (None, cx')" "cx_store cx a = Some i"
      "ci_instance_id i = take CXPU_INSTANCE_ID_LEN iid" "hold a = 0" "cx_ok hold mt lt cx'"
      "cx_store cx' = (cx_store cx)(a := None)"
  | (unknown) "kl_cxpu_destroy_instance cx iid = Some (None, cx)"
      "\<forall>a i. cx_store cx a = Some i \<longrightarrow> ci_instance_id i \<noteq> take CXPU_INSTANCE_ID_LEN iid"
proof -
  let ?P = "\<lambda>i. same_name (ci_instance_id i) iid"
  have sn: "?P i \<longleftrightarrow> ci_instance_id i = take CXPU_INSTANCE_ID_LEN iid" if "cx_store cx b = Some i" for b i
    using cx_okD(5) [OF ok that] by (intro same_name_short) (simp add: instance_ok_def)
  note en = cx_okD(1) [OF ok]
  from cx_find [OF ok, of ?P] consider
    (none) "find_instance (cx_store cx) ?P (cx_instance_list cx) = Some None" "\<forall>b i. cx_store cx b = Some i \<longrightarrow> \<not> ?P i"
  | (some) a i where "find_instance (cx_store cx) ?P (cx_instance_list cx) = Some (Some a)" "cx_store cx a = Some i" "?P i"
    by blast
  then show ?thesis
  proof cases
    case none
    then have "kl_cxpu_destroy_instance cx iid = Some (None, cx)" using en by (simp add: kl_cxpu_destroy_instance_def)
    with none(2) sn unknown show ?thesis by blast
  next
    case some
    note i = cx_okD(5) [OF ok some(2)]
    show ?thesis
    proof (cases "hold a = 0")
      case True
      from destroy_ref_ok [OF ok some(2) True] obtain cx' where cx': "instance_put cx a = Some cx'"
        "cx_ok hold mt lt cx'" "cx_store cx' = (cx_store cx)(a := None)" by blast
      have "kl_cxpu_destroy_instance cx iid = Some (None, cx')"
        using en some i True cx' by (simp add: kl_cxpu_destroy_instance_def instance_ok_def)
      with gone some sn True cx' show ?thesis by blast
    next
      case False
      have "kl_cxpu_destroy_instance cx iid = Some (Some EBUSY, cx)"
        using en some i False by (simp add: kl_cxpu_destroy_instance_def instance_ok_def)
      with busy some sn False show ?thesis by blast
    qed
  qed
qed

section \<open>Limits\<close>

text \<open>
  Setting a limit: the pages given away change by the difference of the limits, and a limit that
  does not fit beside those of the other instances is refused without effect.
\<close>

lemma set_limit_ok:
  assumes ok: "cx_ok hold mt lt cx" and a: "cx_store cx a = Some i"
    and k: "k = XPU_MEM_MAIN \<or> k = XPU_MEM_L3"
    and p: "j = i\<lparr>ci_mem_limit_pgcnt := (ci_mem_limit_pgcnt i)[k := v]\<rparr>"
    and fit: "limit_total cx k - limit_pages i k + limit_pages j k \<le> (if k = XPU_MEM_MAIN then mt else lt)"
    and used: "used = limit_total cx k - limit_pages i k + limit_pages j k"
  shows "\<exists>cx'. set_limit_pages (set_limit_used cx k used) a k v = Some cx' \<and> cx_ok hold mt lt cx' \<and>
           cx_store cx' = (cx_store cx)(a \<mapsto> j)"
proof -
  note i = cx_okD(5) [OF ok a]
  have lk: "k < length (ci_mem_limit_pgcnt i)" using i k by (auto simp: instance_ok_def xpu_mem_kinds)
  define mm' where "mm' = (if k = XPU_MEM_MAIN then (cx_main_mem cx)\<lparr>mi_page_used := used\<rparr> else cx_main_mem cx)"
  define lm' where "lm' = (if k = XPU_MEM_MAIN then cx_l3_mem cx else (cx_l3_mem cx)\<lparr>mi_page_used := used\<rparr>)"
  let ?cx = "cx\<lparr>cx_store := (cx_store cx)(a \<mapsto> j), cx_main_mem := mm', cx_l3_mem := lm'\<rparr>"
  have e: "set_limit_pages (set_limit_used cx k used) a k v = Some ?cx"
    using a p by (cases cx) (auto simp: set_limit_pages_def set_limit_used_def upd_instance_def mm'_def lm'_def)
  have other: "limit_pages j k' = limit_pages i k'" if "k' \<noteq> k" for k'
    using p that by (simp add: limit_pages_def)
  have tot: "limit_total ?cx k' = limit_total cx k' - limit_pages i k' + limit_pages j k'" for k'
    using limit_total_upd(1) [OF ok a, of j k'] limit_total_upd(2) [OF ok a, of k'] by (simp add: limit_total_def)
  have keep: "limit_total ?cx k' = limit_total cx k'" if "k' \<noteq> k" for k'
    using tot [of k'] other [OF that] limit_total_upd(2) [OF ok a, of k'] by simp
  have s: "info_sum_ok ?cx XPU_MEM_MAIN mt" "info_sum_ok ?cx XPU_MEM_L3 lt"
    using cx_okD(7,8) [OF ok] k fit used tot [of k] keep [of XPU_MEM_MAIN] keep [of XPU_MEM_L3]
    by (auto simp: info_sum_ok_def limit_info_def mm'_def lm'_def xpu_mem_kinds)
  have "cx_ok hold mt lt ?cx"
    by (rule cx_ok_upd [OF ok a _ _ _ s]) (use i p in \<open>auto simp: instance_ok_def\<close>)
  with e show ?thesis by (intro exI [of _ ?cx]) simp
qed

lemma set_mem_limit_cases:
  assumes ok: "cx_ok hold mt lt cx" and a: "cx_store cx a = Some i"
    and tot: "pages_for_limits mm XPU_MEM_MAIN = mt" "pages_for_limits mm XPU_MEM_L3 = lt"
  shows "(\<exists>e. kl_cxpu_instance_set_mem_limit_locked mm cx (Some a) k bytes = Some (Some e, cx)) \<or>
         (\<exists>cx' v. kl_cxpu_instance_set_mem_limit_locked mm cx (Some a) k bytes = Some (None, cx') \<and>
            cx_ok hold mt lt cx' \<and>
            cx_store cx' = (cx_store cx)(a \<mapsto> i\<lparr>ci_mem_limit_pgcnt := (ci_mem_limit_pgcnt i)[k := v]\<rparr>))"
proof (cases "mk2md mm k")
  case None
  then show ?thesis by (auto simp: kl_cxpu_instance_set_mem_limit_locked_def)
next
  case (Some mem)
  show ?thesis
  proof (cases "k = XPU_MEM_MAIN \<or> k = XPU_MEM_L3")
    case False
    then show ?thesis using Some by (auto simp: kl_cxpu_instance_set_mem_limit_locked_def)
  next
    case True
    let ?last = "limit_pages i k" and ?used = "mi_page_used (limit_info cx k)"
    let ?cap = "if k = XPU_MEM_MAIN then mt else lt"
    have u: "?used = limit_total cx k" "?used \<le> ?cap" "?cap < 2 ^ 63" "pages_for_limits mm k = ?cap"
      using True cx_okD(7,8) [OF ok] tot by (auto simp: info_sum_ok_def)
    note l = limit_total_upd(2) [OF ok a, of k]
    note i = cx_okD(5) [OF ok a]
    have lk: "k < length (ci_mem_limit_pgcnt i)" using i True by (auto simp: instance_ok_def xpu_mem_kinds)
    let ?j = "\<lambda>v. i\<lparr>ci_mem_limit_pgcnt := (ci_mem_limit_pgcnt i)[k := v]\<rparr>"
    have lp: "limit_pages (?j v) k = (if v = CXPU_INSTANCE_MEM_UNLIMIT then 0 else v)" for v
      using lk by (simp add: limit_pages_def)
    let ?pg = "showmem_to_actmem (cx_ecc_on cx) k (bytes2pgcnt mem bytes)"
    let ?av = "u64_sub (u64 (pages_for_limits mm k + ?last)) ?used"
    have kd: "(k \<noteq> XPU_MEM_MAIN \<and> k \<noteq> XPU_MEM_L3) = False" using True by auto
    have un: "kl_cxpu_instance_set_mem_limit_locked mm cx (Some a) k bytes =
        (if bytes = CXPU_INSTANCE_MEM_UNLIMIT then
           map_option (Pair None)
             (set_limit_pages (set_limit_used cx k (u64_sub ?used ?last)) a k CXPU_INSTANCE_MEM_UNLIMIT)
         else if bytes2pgcnt mem bytes = CXPU_INSTANCE_MEM_UNLIMIT then Some (Some EINVAL, cx)
         else if ?pg \<le> ?av then
           map_option (Pair None) (set_limit_pages (set_limit_used cx k (u64 (u64_sub ?used ?last + ?pg))) a k ?pg)
         else Some (Some ENOMEM, cx))"
      using Some a by (simp add: kl_cxpu_instance_set_mem_limit_locked_def Let_def kd)
    have w1: "u64_sub ?used ?last = ?used - ?last" using l u by (intro u64_sub_le) auto
    have w2: "?av = ?cap + ?last - ?used"
    proof -
      have "?cap + ?last < 2 ^ 64" using l u by (simp split: if_splits)
      then show ?thesis using l u by (simp add: u64_id u64_sub_le)
    qed
    show ?thesis
    proof (cases "bytes = CXPU_INSTANCE_MEM_UNLIMIT")
      case unl: True
      have "\<exists>cx'. set_limit_pages (set_limit_used cx k (u64_sub ?used ?last)) a k CXPU_INSTANCE_MEM_UNLIMIT = Some cx' \<and>
          cx_ok hold mt lt cx' \<and> cx_store cx' = (cx_store cx)(a \<mapsto> ?j CXPU_INSTANCE_MEM_UNLIMIT)"
        by (rule set_limit_ok [OF ok a True refl]) (use w1 u l lp in auto)
      with un unl show ?thesis by auto
    next
      case lim: False
      show ?thesis
      proof (cases "bytes2pgcnt mem bytes \<noteq> CXPU_INSTANCE_MEM_UNLIMIT \<and> ?pg \<le> ?av")
        case no: False
        with un lim show ?thesis by auto
      next
        case yes: True
        have pg: "?pg \<le> ?cap + ?last - ?used" using yes w2 by simp
        have small: "?pg \<noteq> CXPU_INSTANCE_MEM_UNLIMIT" "?used - ?last + ?pg \<le> ?cap"
          using pg l u by (auto simp: CXPU_INSTANCE_MEM_UNLIMIT_def)
        have w3: "u64 (u64_sub ?used ?last + ?pg) = ?used - ?last + ?pg"
          using small u w1 by (simp add: u64_id)
        have "\<exists>cx'. set_limit_pages (set_limit_used cx k (u64 (u64_sub ?used ?last + ?pg))) a k ?pg = Some cx' \<and>
            cx_ok hold mt lt cx' \<and> cx_store cx' = (cx_store cx)(a \<mapsto> ?j ?pg)"
          by (rule set_limit_ok [OF ok a True refl]) (use w3 u small lp in auto)
        with un lim yes show ?thesis by auto
      qed
    qed
  qed
qed

end
