(* ===== verification/Kl2_Spec.thy ===== *)
theory Kl2_Spec
  imports Kl_Mm
begin

text \<open>
  The configurations of a KL2 device, \<^verbatim>\<open>kl2/spec.c\<close>: for every board and every way to share it
  between a physical function and up to three virtual ones, the memory regions the manager works on,
  the address ranges open to the DMA of users, and which of the compute resources the function has;
  and the registers that cut the device memory between virtual functions (\<^verbatim>\<open>kl2/hw.c\<close>).

  The two-dimensional tables of the code are sparse: \<open>table_at\<close> reads one of them, where an index
  outside of the table is the outcome \<^term>\<open>None\<close> and an entry the initialiser leaves out is a NULL
  pointer. The kind \<^verbatim>\<open>-1\<close> of the physical function's only region is read as an unsigned number.
\<close>

section \<open>Enumerations\<close>

abbreviation (input) KL2_BOARD_ID_R100 :: int where "KL2_BOARD_ID_R100 \<equiv> 1"
abbreviation (input) KL2_BOARD_ID_R200 :: int where "KL2_BOARD_ID_R200 \<equiv> 2"
abbreviation (input) KL2_BOARD_ID_R300 :: int where "KL2_BOARD_ID_R300 \<equiv> 3"
abbreviation (input) KL2_BOARD_ID_R200_8F :: int where "KL2_BOARD_ID_R200_8F \<equiv> 4"
abbreviation (input) KL2_BOARD_ID_R200_8FS :: int where "KL2_BOARD_ID_R200_8FS \<equiv> 5"
abbreviation (input) KL2_BOARD_ID_R200_DEBUG_BOARD :: int where "KL2_BOARD_ID_R200_DEBUG_BOARD \<equiv> 6"
abbreviation (input) KL2_BOARD_ID_R420 :: int where "KL2_BOARD_ID_R420 \<equiv> 7"
abbreviation (input) KL2_BOARD_ID_RG800 :: int where "KL2_BOARD_ID_RG800 \<equiv> 8"
abbreviation (input) KL2_BOARD_ID_RG800_PRO :: int where "KL2_BOARD_ID_RG800_PRO \<equiv> 9"
abbreviation (input) KL2_BOARD_ID_RM80 :: int where "KL2_BOARD_ID_RM80 \<equiv> 10"

abbreviation (input) KL2_SRIOV_CONF_ID_SRIOV_OFF :: int where "KL2_SRIOV_CONF_ID_SRIOV_OFF \<equiv> 1"
abbreviation (input) KL2_SRIOV_CONF_ID_1VF :: int where "KL2_SRIOV_CONF_ID_1VF \<equiv> 2"
abbreviation (input) KL2_SRIOV_CONF_ID_2VF :: int where "KL2_SRIOV_CONF_ID_2VF \<equiv> 3"
abbreviation (input) KL2_SRIOV_CONF_ID_3VF :: int where "KL2_SRIOV_CONF_ID_3VF \<equiv> 4"
abbreviation (input) NUM_KL2_SRIOV_CONF_ID :: int where "NUM_KL2_SRIOV_CONF_ID \<equiv> 5"

abbreviation (input) KL2_SRIOV_FUNC_ID_SRIOV_OFF :: int where "KL2_SRIOV_FUNC_ID_SRIOV_OFF \<equiv> 1"
abbreviation (input) KL2_SRIOV_FUNC_ID_PF :: int where "KL2_SRIOV_FUNC_ID_PF \<equiv> 2"
abbreviation (input) KL2_SRIOV_FUNC_ID_VF_0 :: int where "KL2_SRIOV_FUNC_ID_VF_0 \<equiv> 3"
abbreviation (input) KL2_SRIOV_FUNC_ID_VF_1 :: int where "KL2_SRIOV_FUNC_ID_VF_1 \<equiv> 4"
abbreviation (input) KL2_SRIOV_FUNC_ID_VF_2 :: int where "KL2_SRIOV_FUNC_ID_VF_2 \<equiv> 5"
abbreviation (input) NUM_KL2_SRIOV_FUNC_ID :: int where "NUM_KL2_SRIOV_FUNC_ID \<equiv> 6"

section \<open>Data\<close>

record kl_memory_range =
  rg_base :: nat
  rg_size :: nat

record kl_mm_info =
  nfo_mem :: "kl_memory_info list"
  nfo_user_dma_range :: "kl_memory_range list"

definition mem_info :: "nat \<Rightarrow> nat \<Rightarrow> nat \<Rightarrow> nat \<Rightarrow> kl_memory_info" where
  "mem_info base sz bits kind =
     \<lparr>info_base = base, info_size = sz, info_page_bits = bits, info_kind = kind\<rparr>"

definition mem_range :: "nat \<Rightarrow> nat \<Rightarrow> kl_memory_range" where
  "mem_range base sz = \<lparr>rg_base = base, rg_size = sz\<rparr>"

text \<open>Reading a table with so many rows, one column per function.\<close>

definition table_at :: "int \<Rightarrow> ((int \<times> int) \<times> 'a) list \<Rightarrow> int \<Rightarrow> int \<Rightarrow> 'a option option" where
  "table_at rows tbl conf func =
     (if 0 \<le> conf \<and> conf < rows \<and> 0 \<le> func \<and> func < NUM_KL2_SRIOV_FUNC_ID
      then Some (map_of tbl (conf, func)) else None)"

section \<open>Memory tables\<close>

definition KL2_GENERAL_REGISTER_RANGE :: "kl_memory_range list" where
  "KL2_GENERAL_REGISTER_RANGE =
     [mem_range 0x25200000 0x40000, mem_range 0x23000000 0x280000, mem_range 0x24000000 0x800000, mem_range 0x25000000 0x1000000, mem_range 0x26000000 0x800000, mem_range 0x27000000 0x800000]"

definition KL2_CCIX_ADDRESS_RANGE :: "kl_memory_range list" where
  "KL2_CCIX_ADDRESS_RANGE =
     [mem_range 0x4000000000 0x1000000000, mem_range 0x5000000000 0x1000000000, mem_range 0x6000000000 0x1000000000, mem_range 0x7000000000 0x1000000000]"

definition kl_mem_info_eccoff_32g :: "kl_memory_info list" where
  "kl_mem_info_eccoff_32g =
     [mem_info 0x830000000 0xd0000000 15 XPU_MEM_MAIN,
      mem_info 0x900000000 0x100000000 15 XPU_MEM_MAIN,
      mem_info 0xa00000000 0x100000000 15 XPU_MEM_MAIN,
      mem_info 0xb00000000 0x100000000 15 XPU_MEM_MAIN,
      mem_info 0xc00000000 0x100000000 15 XPU_MEM_MAIN,
      mem_info 0xd00000000 0x100000000 15 XPU_MEM_MAIN,
      mem_info 0xe00000000 0x100000000 15 XPU_MEM_MAIN,
      mem_info 0xf00000000 0x100000000 15 XPU_MEM_MAIN,
      mem_info 0xc0001000 0x3fff000 12 XPU_MEM_L3,
      mem_info 0x800000000 0x10000000 12 XPU_MEM_CODE,
      mem_info 0x810000000 0x10000000 10 XPU_MEM_PARAM,
      mem_info 0x820000000 0x8000000 10 XPU_MEM_PRINTF,
      mem_info 0x828000000 0x8000000 10 XPU_MEM_RESERVED]"

definition kl_user_dma_rr_rw_range_eccoff_32g :: "kl_memory_range list" where
  "kl_user_dma_rr_rw_range_eccoff_32g =
     [mem_range 0x800000000 0x800000000, mem_range 0xc0000000 0x4000000] @ KL2_GENERAL_REGISTER_RANGE"

definition kl_user_dma_rr_rw_ccix_range_eccoff_32g :: "kl_memory_range list" where
  "kl_user_dma_rr_rw_ccix_range_eccoff_32g =
     [mem_range 0x800000000 0x800000000, mem_range 0xc0000000 0x4000000] @ KL2_GENERAL_REGISTER_RANGE @ KL2_CCIX_ADDRESS_RANGE"

definition kl_mm_info_eccoff_32g :: kl_mm_info where
  "kl_mm_info_eccoff_32g =
     \<lparr>nfo_mem = kl_mem_info_eccoff_32g, nfo_user_dma_range = kl_user_dma_rr_rw_range_eccoff_32g\<rparr>"

definition kl_mm_info_eccoff_32g_r300 :: kl_mm_info where
  "kl_mm_info_eccoff_32g_r300 =
     \<lparr>nfo_mem = kl_mem_info_eccoff_32g, nfo_user_dma_range = kl_user_dma_rr_rw_ccix_range_eccoff_32g\<rparr>"

definition kl_mem_info_eccon_32g :: "kl_memory_info list" where
  "kl_mem_info_eccon_32g =
     [mem_info 0x830000000 0xd0000000 15 XPU_MEM_MAIN,
      mem_info 0x900000000 0x100000000 15 XPU_MEM_MAIN,
      mem_info 0xa00000000 0x100000000 15 XPU_MEM_MAIN,
      mem_info 0xb00000000 0x100000000 15 XPU_MEM_MAIN,
      mem_info 0xc00000000 0x100000000 15 XPU_MEM_MAIN,
      mem_info 0xd00000000 0x100000000 15 XPU_MEM_MAIN,
      mem_info 0xe00000000 0x100000000 15 XPU_MEM_MAIN,
      mem_info 0xc0001000 0x3fff000 12 XPU_MEM_L3,
      mem_info 0x800000000 0x10000000 12 XPU_MEM_CODE,
      mem_info 0x810000000 0x10000000 10 XPU_MEM_PARAM,
      mem_info 0x820000000 0x8000000 10 XPU_MEM_PRINTF,
      mem_info 0x828000000 0x8000000 10 XPU_MEM_RESERVED]"

definition kl_user_dma_rr_rw_range_eccon_32g :: "kl_memory_range list" where
  "kl_user_dma_rr_rw_range_eccon_32g =
     [mem_range 0x800000000 0x700000000, mem_range 0xc0000000 0x4000000] @ KL2_GENERAL_REGISTER_RANGE"

definition kl_user_dma_rr_rw_ccix_range_eccon_32g :: "kl_memory_range list" where
  "kl_user_dma_rr_rw_ccix_range_eccon_32g =
     [mem_range 0x800000000 0x700000000, mem_range 0xc0000000 0x4000000] @ KL2_GENERAL_REGISTER_RANGE @ KL2_CCIX_ADDRESS_RANGE"

definition kl_mm_info_eccon_32g :: kl_mm_info where
  "kl_mm_info_eccon_32g =
     \<lparr>nfo_mem = kl_mem_info_eccon_32g, nfo_user_dma_range = kl_user_dma_rr_rw_range_eccon_32g\<rparr>"

definition kl_mm_info_eccon_32g_r300 :: kl_mm_info where
  "kl_mm_info_eccon_32g_r300 =
     \<lparr>nfo_mem = kl_mem_info_eccon_32g, nfo_user_dma_range = kl_user_dma_rr_rw_ccix_range_eccon_32g\<rparr>"

definition kl_mem_info_eccoff_16g :: "kl_memory_info list" where
  "kl_mem_info_eccoff_16g =
     [mem_info 0x830000000 0xd0000000 15 XPU_MEM_MAIN,
      mem_info 0x900000000 0x100000000 15 XPU_MEM_MAIN,
      mem_info 0xa00000000 0x100000000 15 XPU_MEM_MAIN,
      mem_info 0xb00000000 0x100000000 15 XPU_MEM_MAIN,
      mem_info 0xc0001000 0x3fff000 12 XPU_MEM_L3,
      mem_info 0x800000000 0x10000000 12 XPU_MEM_CODE,
      mem_info 0x810000000 0x10000000 10 XPU_MEM_PARAM,
      mem_info 0x820000000 0x8000000 10 XPU_MEM_PRINTF,
      mem_info 0x828000000 0x8000000 10 XPU_MEM_RESERVED]"

definition kl_user_dma_rr_rw_range_eccoff_16g :: "kl_memory_range list" where
  "kl_user_dma_rr_rw_range_eccoff_16g =
     [mem_range 0x800000000 0x400000000, mem_range 0xc0000000 0x4000000] @ KL2_GENERAL_REGISTER_RANGE"

definition kl_mm_info_eccoff_16g :: kl_mm_info where
  "kl_mm_info_eccoff_16g =
     \<lparr>nfo_mem = kl_mem_info_eccoff_16g, nfo_user_dma_range = kl_user_dma_rr_rw_range_eccoff_16g\<rparr>"

definition kl_mem_info_eccon_16g :: "kl_memory_info list" where
  "kl_mem_info_eccon_16g =
     [mem_info 0x830000000 0xd0000000 15 XPU_MEM_MAIN,
      mem_info 0x900000000 0x100000000 15 XPU_MEM_MAIN,
      mem_info 0xa00000000 0x100000000 15 XPU_MEM_MAIN,
      mem_info 0xb00000000 0x80000000 15 XPU_MEM_MAIN,
      mem_info 0xc0001000 0x3fff000 12 XPU_MEM_L3,
      mem_info 0x800000000 0x10000000 12 XPU_MEM_CODE,
      mem_info 0x810000000 0x10000000 10 XPU_MEM_PARAM,
      mem_info 0x820000000 0x8000000 10 XPU_MEM_PRINTF,
      mem_info 0x828000000 0x8000000 10 XPU_MEM_RESERVED]"

definition kl_user_dma_rr_rw_range_eccon_16g :: "kl_memory_range list" where
  "kl_user_dma_rr_rw_range_eccon_16g =
     [mem_range 0x800000000 0x380000000, mem_range 0xc0000000 0x4000000] @ KL2_GENERAL_REGISTER_RANGE"

definition kl_mm_info_eccon_16g :: kl_mm_info where
  "kl_mm_info_eccon_16g =
     \<lparr>nfo_mem = kl_mem_info_eccon_16g, nfo_user_dma_range = kl_user_dma_rr_rw_range_eccon_16g\<rparr>"

definition kl_mem_info_eccoff_12g :: "kl_memory_info list" where
  "kl_mem_info_eccoff_12g =
     [mem_info 0x830000000 0xd0000000 15 XPU_MEM_MAIN,
      mem_info 0x900000000 0x100000000 15 XPU_MEM_MAIN,
      mem_info 0xa00000000 0x100000000 15 XPU_MEM_MAIN,
      mem_info 0xc0001000 0x3fff000 12 XPU_MEM_L3,
      mem_info 0x800000000 0x10000000 12 XPU_MEM_CODE,
      mem_info 0x810000000 0x10000000 10 XPU_MEM_PARAM,
      mem_info 0x820000000 0x8000000 10 XPU_MEM_PRINTF,
      mem_info 0x828000000 0x8000000 10 XPU_MEM_RESERVED]"

definition kl_user_dma_rr_rw_range_eccoff_12g :: "kl_memory_range list" where
  "kl_user_dma_rr_rw_range_eccoff_12g =
     [mem_range 0x800000000 0x300000000, mem_range 0xc0000000 0x4000000] @ KL2_GENERAL_REGISTER_RANGE"

definition kl_mm_info_eccoff_12g :: kl_mm_info where
  "kl_mm_info_eccoff_12g =
     \<lparr>nfo_mem = kl_mem_info_eccoff_12g, nfo_user_dma_range = kl_user_dma_rr_rw_range_eccoff_12g\<rparr>"

definition kl_mem_info_eccon_12g :: "kl_memory_info list" where
  "kl_mem_info_eccon_12g =
     [mem_info 0x830000000 0xd0000000 15 XPU_MEM_MAIN,
      mem_info 0x900000000 0x100000000 15 XPU_MEM_MAIN,
      mem_info 0xa00000000 0xa0000000 15 XPU_MEM_MAIN,
      mem_info 0xc0001000 0x3fff000 12 XPU_MEM_L3,
      mem_info 0x800000000 0x10000000 12 XPU_MEM_CODE,
      mem_info 0x810000000 0x10000000 10 XPU_MEM_PARAM,
      mem_info 0x820000000 0x8000000 10 XPU_MEM_PRINTF,
      mem_info 0x828000000 0x8000000 10 XPU_MEM_RESERVED]"

definition kl_user_dma_rr_rw_range_eccon_12g :: "kl_memory_range list" where
  "kl_user_dma_rr_rw_range_eccon_12g =
     [mem_range 0x800000000 0x2a0000000, mem_range 0xc0000000 0x4000000] @ KL2_GENERAL_REGISTER_RANGE"

definition kl_mm_info_eccon_12g :: kl_mm_info where
  "kl_mm_info_eccon_12g =
     \<lparr>nfo_mem = kl_mem_info_eccon_12g, nfo_user_dma_range = kl_user_dma_rr_rw_range_eccon_12g\<rparr>"

definition kl_mem_info_sriov_pf :: "kl_memory_info list" where
  "kl_mem_info_sriov_pf =
     [mem_info 0x0 0x0 15 (2 ^ 32 - 1)]"

definition kl_mm_info_sriov_pf_eccoff_32g :: kl_mm_info where
  "kl_mm_info_sriov_pf_eccoff_32g =
     \<lparr>nfo_mem = kl_mem_info_sriov_pf, nfo_user_dma_range = kl_user_dma_rr_rw_range_eccoff_32g\<rparr>"

definition kl_mm_info_sriov_pf_eccon_32g :: kl_mm_info where
  "kl_mm_info_sriov_pf_eccon_32g =
     \<lparr>nfo_mem = kl_mem_info_sriov_pf, nfo_user_dma_range = kl_user_dma_rr_rw_range_eccon_32g\<rparr>"

definition kl_mm_info_sriov_pf_eccoff_16g :: kl_mm_info where
  "kl_mm_info_sriov_pf_eccoff_16g =
     \<lparr>nfo_mem = kl_mem_info_sriov_pf, nfo_user_dma_range = kl_user_dma_rr_rw_range_eccoff_16g\<rparr>"

definition kl_mm_info_sriov_pf_eccon_16g :: kl_mm_info where
  "kl_mm_info_sriov_pf_eccon_16g =
     \<lparr>nfo_mem = kl_mem_info_sriov_pf, nfo_user_dma_range = kl_user_dma_rr_rw_range_eccon_16g\<rparr>"

definition kl_mem_info_eccoff_16g_2vf :: "kl_memory_info list" where
  "kl_mem_info_eccoff_16g_2vf =
     [mem_info 0x830000000 0xd0000000 15 XPU_MEM_MAIN,
      mem_info 0x900000000 0x100000000 15 XPU_MEM_MAIN,
      mem_info 0xc0001000 0x1fff000 12 XPU_MEM_L3,
      mem_info 0x800000000 0x10000000 12 XPU_MEM_CODE,
      mem_info 0x810000000 0x10000000 10 XPU_MEM_PARAM,
      mem_info 0x820000000 0x8000000 10 XPU_MEM_PRINTF,
      mem_info 0x828000000 0x8000000 10 XPU_MEM_RESERVED]"

definition kl_user_dma_rr_rw_range_eccoff_16g_2vf :: "kl_memory_range list" where
  "kl_user_dma_rr_rw_range_eccoff_16g_2vf =
     [mem_range 0x800000000 0x200000000, mem_range 0xc0000000 0x2000000] @ KL2_GENERAL_REGISTER_RANGE"

definition kl_mm_info_eccoff_16g_2vf :: kl_mm_info where
  "kl_mm_info_eccoff_16g_2vf =
     \<lparr>nfo_mem = kl_mem_info_eccoff_16g_2vf, nfo_user_dma_range = kl_user_dma_rr_rw_range_eccoff_16g_2vf\<rparr>"

definition kl_mem_info_eccon_16g_2vf :: "kl_memory_info list" where
  "kl_mem_info_eccon_16g_2vf =
     [mem_info 0x830000000 0xd0000000 15 XPU_MEM_MAIN,
      mem_info 0x900000000 0xc0000000 15 XPU_MEM_MAIN,
      mem_info 0xc0001000 0x1fff000 12 XPU_MEM_L3,
      mem_info 0x800000000 0x10000000 12 XPU_MEM_CODE,
      mem_info 0x810000000 0x10000000 10 XPU_MEM_PARAM,
      mem_info 0x820000000 0x8000000 10 XPU_MEM_PRINTF,
      mem_info 0x828000000 0x8000000 10 XPU_MEM_RESERVED]"

definition kl_user_dma_rr_rw_range_eccon_16g_2vf :: "kl_memory_range list" where
  "kl_user_dma_rr_rw_range_eccon_16g_2vf =
     [mem_range 0x800000000 0x1c0000000, mem_range 0xc0000000 0x2000000] @ KL2_GENERAL_REGISTER_RANGE"

definition kl_mm_info_eccon_16g_2vf :: kl_mm_info where
  "kl_mm_info_eccon_16g_2vf =
     \<lparr>nfo_mem = kl_mem_info_eccon_16g_2vf, nfo_user_dma_range = kl_user_dma_rr_rw_range_eccon_16g_2vf\<rparr>"

definition kl_mem_info_eccoff_16g_3vf :: "kl_memory_info list" where
  "kl_mem_info_eccoff_16g_3vf =
     [mem_info 0x830000000 0xd0000000 15 XPU_MEM_MAIN,
      mem_info 0x900000000 0x55000000 15 XPU_MEM_MAIN,
      mem_info 0xc0001000 0xfff000 12 XPU_MEM_L3,
      mem_info 0x800000000 0x10000000 12 XPU_MEM_CODE,
      mem_info 0x810000000 0x10000000 10 XPU_MEM_PARAM,
      mem_info 0x820000000 0x8000000 10 XPU_MEM_PRINTF,
      mem_info 0x828000000 0x8000000 10 XPU_MEM_RESERVED]"

definition kl_user_dma_rr_rw_range_eccoff_16g_3vf :: "kl_memory_range list" where
  "kl_user_dma_rr_rw_range_eccoff_16g_3vf =
     [mem_range 0x800000000 0x155000000, mem_range 0xc0000000 0x1000000] @ KL2_GENERAL_REGISTER_RANGE"

definition kl_mm_info_eccoff_16g_3vf :: kl_mm_info where
  "kl_mm_info_eccoff_16g_3vf =
     \<lparr>nfo_mem = kl_mem_info_eccoff_16g_3vf, nfo_user_dma_range = kl_user_dma_rr_rw_range_eccoff_16g_3vf\<rparr>"

definition kl_mem_info_eccon_16g_3vf :: "kl_memory_info list" where
  "kl_mem_info_eccon_16g_3vf =
     [mem_info 0x830000000 0xd0000000 15 XPU_MEM_MAIN,
      mem_info 0x900000000 0x2a800000 15 XPU_MEM_MAIN,
      mem_info 0xc0001000 0xfff000 12 XPU_MEM_L3,
      mem_info 0x800000000 0x10000000 12 XPU_MEM_CODE,
      mem_info 0x810000000 0x10000000 10 XPU_MEM_PARAM,
      mem_info 0x820000000 0x8000000 10 XPU_MEM_PRINTF,
      mem_info 0x828000000 0x8000000 10 XPU_MEM_RESERVED]"

definition kl_user_dma_rr_rw_range_eccon_16g_3vf :: "kl_memory_range list" where
  "kl_user_dma_rr_rw_range_eccon_16g_3vf =
     [mem_range 0x800000000 0x12a800000, mem_range 0xc0000000 0x1000000] @ KL2_GENERAL_REGISTER_RANGE"

definition kl_mm_info_eccon_16g_3vf :: kl_mm_info where
  "kl_mm_info_eccon_16g_3vf =
     \<lparr>nfo_mem = kl_mem_info_eccon_16g_3vf, nfo_user_dma_range = kl_user_dma_rr_rw_range_eccon_16g_3vf\<rparr>"

definition kl_mem_info_eccoff_32g_2vf :: "kl_memory_info list" where
  "kl_mem_info_eccoff_32g_2vf =
     [mem_info 0x830000000 0xd0000000 15 XPU_MEM_MAIN,
      mem_info 0x900000000 0x100000000 15 XPU_MEM_MAIN,
      mem_info 0xa00000000 0x100000000 15 XPU_MEM_MAIN,
      mem_info 0xb00000000 0x100000000 15 XPU_MEM_MAIN,
      mem_info 0xc0001000 0x1fff000 12 XPU_MEM_L3,
      mem_info 0x800000000 0x10000000 12 XPU_MEM_CODE,
      mem_info 0x810000000 0x10000000 10 XPU_MEM_PARAM,
      mem_info 0x820000000 0x8000000 10 XPU_MEM_PRINTF,
      mem_info 0x828000000 0x8000000 10 XPU_MEM_RESERVED]"

definition kl_user_dma_rr_rw_range_eccoff_32g_2vf :: "kl_memory_range list" where
  "kl_user_dma_rr_rw_range_eccoff_32g_2vf =
     [mem_range 0x800000000 0x400000000, mem_range 0xc0000000 0x2000000] @ KL2_GENERAL_REGISTER_RANGE"

definition kl_mm_info_eccoff_32g_2vf :: kl_mm_info where
  "kl_mm_info_eccoff_32g_2vf =
     \<lparr>nfo_mem = kl_mem_info_eccoff_32g_2vf, nfo_user_dma_range = kl_user_dma_rr_rw_range_eccoff_32g_2vf\<rparr>"

definition kl_mem_info_eccon_32g_2vf :: "kl_memory_info list" where
  "kl_mem_info_eccon_32g_2vf =
     [mem_info 0x830000000 0xd0000000 15 XPU_MEM_MAIN,
      mem_info 0x900000000 0x100000000 15 XPU_MEM_MAIN,
      mem_info 0xa00000000 0x100000000 15 XPU_MEM_MAIN,
      mem_info 0xb00000000 0x80000000 15 XPU_MEM_MAIN,
      mem_info 0xc0001000 0x1fff000 12 XPU_MEM_L3,
      mem_info 0x800000000 0x10000000 12 XPU_MEM_CODE,
      mem_info 0x810000000 0x10000000 10 XPU_MEM_PARAM,
      mem_info 0x820000000 0x8000000 10 XPU_MEM_PRINTF,
      mem_info 0x828000000 0x8000000 10 XPU_MEM_RESERVED]"

definition kl_user_dma_rr_rw_range_eccon_32g_2vf :: "kl_memory_range list" where
  "kl_user_dma_rr_rw_range_eccon_32g_2vf =
     [mem_range 0x800000000 0x380000000, mem_range 0xc0000000 0x2000000] @ KL2_GENERAL_REGISTER_RANGE"

definition kl_mm_info_eccon_32g_2vf :: kl_mm_info where
  "kl_mm_info_eccon_32g_2vf =
     \<lparr>nfo_mem = kl_mem_info_eccon_32g_2vf, nfo_user_dma_range = kl_user_dma_rr_rw_range_eccon_32g_2vf\<rparr>"

definition kl_mem_info_eccoff_32g_3vf :: "kl_memory_info list" where
  "kl_mem_info_eccoff_32g_3vf =
     [mem_info 0x830000000 0xd0000000 15 XPU_MEM_MAIN,
      mem_info 0x900000000 0x100000000 15 XPU_MEM_MAIN,
      mem_info 0xa00000000 0xaa800000 15 XPU_MEM_MAIN,
      mem_info 0xc0001000 0xfff000 12 XPU_MEM_L3,
      mem_info 0x800000000 0x10000000 12 XPU_MEM_CODE,
      mem_info 0x810000000 0x10000000 10 XPU_MEM_PARAM,
      mem_info 0x820000000 0x8000000 10 XPU_MEM_PRINTF,
      mem_info 0x828000000 0x8000000 10 XPU_MEM_RESERVED]"

definition kl_user_dma_rr_rw_range_eccoff_32g_3vf :: "kl_memory_range list" where
  "kl_user_dma_rr_rw_range_eccoff_32g_3vf =
     [mem_range 0x800000000 0x2aa800000, mem_range 0xc0000000 0x1000000] @ KL2_GENERAL_REGISTER_RANGE"

definition kl_mm_info_eccoff_32g_3vf :: kl_mm_info where
  "kl_mm_info_eccoff_32g_3vf =
     \<lparr>nfo_mem = kl_mem_info_eccoff_32g_3vf, nfo_user_dma_range = kl_user_dma_rr_rw_range_eccoff_32g_3vf\<rparr>"

definition kl_mem_info_eccon_32g_3vf :: "kl_memory_info list" where
  "kl_mem_info_eccon_32g_3vf =
     [mem_info 0x830000000 0xd0000000 15 XPU_MEM_MAIN,
      mem_info 0x900000000 0x100000000 15 XPU_MEM_MAIN,
      mem_info 0xa00000000 0x55000000 15 XPU_MEM_MAIN,
      mem_info 0xc0001000 0xfff000 12 XPU_MEM_L3,
      mem_info 0x800000000 0x10000000 12 XPU_MEM_CODE,
      mem_info 0x810000000 0x10000000 10 XPU_MEM_PARAM,
      mem_info 0x820000000 0x8000000 10 XPU_MEM_PRINTF,
      mem_info 0x828000000 0x8000000 10 XPU_MEM_RESERVED]"

definition kl_user_dma_rr_rw_range_eccon_32g_3vf :: "kl_memory_range list" where
  "kl_user_dma_rr_rw_range_eccon_32g_3vf =
     [mem_range 0x800000000 0x255000000, mem_range 0xc0000000 0x1000000] @ KL2_GENERAL_REGISTER_RANGE"

definition kl_mm_info_eccon_32g_3vf :: kl_mm_info where
  "kl_mm_info_eccon_32g_3vf =
     \<lparr>nfo_mem = kl_mem_info_eccon_32g_3vf, nfo_user_dma_range = kl_user_dma_rr_rw_range_eccon_32g_3vf\<rparr>"

definition kl2_get_sriov_mm_info_16g :: "int \<Rightarrow> int \<Rightarrow> bool \<Rightarrow> kl_mm_info option option" where
  "kl2_get_sriov_mm_info_16g sriov_conf_id sriov_func_id ecc_on =
     (if \<not> ecc_on then table_at 5
        [((KL2_SRIOV_CONF_ID_SRIOV_OFF, KL2_SRIOV_FUNC_ID_SRIOV_OFF), kl_mm_info_eccoff_16g),
         ((KL2_SRIOV_CONF_ID_SRIOV_OFF, KL2_SRIOV_FUNC_ID_PF), kl_mm_info_eccoff_16g),
         ((KL2_SRIOV_CONF_ID_1VF, KL2_SRIOV_FUNC_ID_PF), kl_mm_info_sriov_pf_eccoff_16g),
         ((KL2_SRIOV_CONF_ID_1VF, KL2_SRIOV_FUNC_ID_VF_0), kl_mm_info_eccoff_16g),
         ((KL2_SRIOV_CONF_ID_2VF, KL2_SRIOV_FUNC_ID_PF), kl_mm_info_sriov_pf_eccoff_16g),
         ((KL2_SRIOV_CONF_ID_2VF, KL2_SRIOV_FUNC_ID_VF_0), kl_mm_info_eccoff_16g_2vf),
         ((KL2_SRIOV_CONF_ID_2VF, KL2_SRIOV_FUNC_ID_VF_1), kl_mm_info_eccoff_16g_2vf),
         ((KL2_SRIOV_CONF_ID_3VF, KL2_SRIOV_FUNC_ID_PF), kl_mm_info_sriov_pf_eccoff_16g),
         ((KL2_SRIOV_CONF_ID_3VF, KL2_SRIOV_FUNC_ID_VF_0), kl_mm_info_eccoff_16g_3vf),
         ((KL2_SRIOV_CONF_ID_3VF, KL2_SRIOV_FUNC_ID_VF_1), kl_mm_info_eccoff_16g_3vf),
         ((KL2_SRIOV_CONF_ID_3VF, KL2_SRIOV_FUNC_ID_VF_2), kl_mm_info_eccoff_16g_3vf)] sriov_conf_id sriov_func_id
      else table_at 5
        [((KL2_SRIOV_CONF_ID_SRIOV_OFF, KL2_SRIOV_FUNC_ID_SRIOV_OFF), kl_mm_info_eccon_16g),
         ((KL2_SRIOV_CONF_ID_SRIOV_OFF, KL2_SRIOV_FUNC_ID_PF), kl_mm_info_eccon_16g),
         ((KL2_SRIOV_CONF_ID_1VF, KL2_SRIOV_FUNC_ID_PF), kl_mm_info_sriov_pf_eccon_16g),
         ((KL2_SRIOV_CONF_ID_1VF, KL2_SRIOV_FUNC_ID_VF_0), kl_mm_info_eccon_16g),
         ((KL2_SRIOV_CONF_ID_2VF, KL2_SRIOV_FUNC_ID_PF), kl_mm_info_sriov_pf_eccon_16g),
         ((KL2_SRIOV_CONF_ID_2VF, KL2_SRIOV_FUNC_ID_VF_0), kl_mm_info_eccon_16g_2vf),
         ((KL2_SRIOV_CONF_ID_2VF, KL2_SRIOV_FUNC_ID_VF_1), kl_mm_info_eccon_16g_2vf),
         ((KL2_SRIOV_CONF_ID_3VF, KL2_SRIOV_FUNC_ID_PF), kl_mm_info_sriov_pf_eccon_16g),
         ((KL2_SRIOV_CONF_ID_3VF, KL2_SRIOV_FUNC_ID_VF_0), kl_mm_info_eccon_16g_3vf),
         ((KL2_SRIOV_CONF_ID_3VF, KL2_SRIOV_FUNC_ID_VF_1), kl_mm_info_eccon_16g_3vf),
         ((KL2_SRIOV_CONF_ID_3VF, KL2_SRIOV_FUNC_ID_VF_2), kl_mm_info_eccon_16g_3vf)] sriov_conf_id sriov_func_id)"

definition kl2_get_sriov_mm_info_32g :: "int \<Rightarrow> int \<Rightarrow> bool \<Rightarrow> kl_mm_info option option" where
  "kl2_get_sriov_mm_info_32g sriov_conf_id sriov_func_id ecc_on =
     (if \<not> ecc_on then table_at 5
        [((KL2_SRIOV_CONF_ID_SRIOV_OFF, KL2_SRIOV_FUNC_ID_SRIOV_OFF), kl_mm_info_eccoff_32g),
         ((KL2_SRIOV_CONF_ID_SRIOV_OFF, KL2_SRIOV_FUNC_ID_PF), kl_mm_info_eccoff_32g),
         ((KL2_SRIOV_CONF_ID_1VF, KL2_SRIOV_FUNC_ID_PF), kl_mm_info_sriov_pf_eccoff_32g),
         ((KL2_SRIOV_CONF_ID_1VF, KL2_SRIOV_FUNC_ID_VF_0), kl_mm_info_eccoff_32g),
         ((KL2_SRIOV_CONF_ID_2VF, KL2_SRIOV_FUNC_ID_PF), kl_mm_info_sriov_pf_eccoff_32g),
         ((KL2_SRIOV_CONF_ID_2VF, KL2_SRIOV_FUNC_ID_VF_0), kl_mm_info_eccoff_32g_2vf),
         ((KL2_SRIOV_CONF_ID_2VF, KL2_SRIOV_FUNC_ID_VF_1), kl_mm_info_eccoff_32g_2vf),
         ((KL2_SRIOV_CONF_ID_3VF, KL2_SRIOV_FUNC_ID_PF), kl_mm_info_sriov_pf_eccoff_32g),
         ((KL2_SRIOV_CONF_ID_3VF, KL2_SRIOV_FUNC_ID_VF_0), kl_mm_info_eccoff_32g_3vf),
         ((KL2_SRIOV_CONF_ID_3VF, KL2_SRIOV_FUNC_ID_VF_1), kl_mm_info_eccoff_32g_3vf),
         ((KL2_SRIOV_CONF_ID_3VF, KL2_SRIOV_FUNC_ID_VF_2), kl_mm_info_eccoff_32g_3vf)] sriov_conf_id sriov_func_id
      else table_at 5
        [((KL2_SRIOV_CONF_ID_SRIOV_OFF, KL2_SRIOV_FUNC_ID_SRIOV_OFF), kl_mm_info_eccon_32g),
         ((KL2_SRIOV_CONF_ID_SRIOV_OFF, KL2_SRIOV_FUNC_ID_PF), kl_mm_info_eccon_32g),
         ((KL2_SRIOV_CONF_ID_1VF, KL2_SRIOV_FUNC_ID_PF), kl_mm_info_sriov_pf_eccon_32g),
         ((KL2_SRIOV_CONF_ID_1VF, KL2_SRIOV_FUNC_ID_VF_0), kl_mm_info_eccon_32g),
         ((KL2_SRIOV_CONF_ID_2VF, KL2_SRIOV_FUNC_ID_PF), kl_mm_info_sriov_pf_eccon_32g),
         ((KL2_SRIOV_CONF_ID_2VF, KL2_SRIOV_FUNC_ID_VF_0), kl_mm_info_eccon_32g_2vf),
         ((KL2_SRIOV_CONF_ID_2VF, KL2_SRIOV_FUNC_ID_VF_1), kl_mm_info_eccon_32g_2vf),
         ((KL2_SRIOV_CONF_ID_3VF, KL2_SRIOV_FUNC_ID_PF), kl_mm_info_sriov_pf_eccon_32g),
         ((KL2_SRIOV_CONF_ID_3VF, KL2_SRIOV_FUNC_ID_VF_0), kl_mm_info_eccon_32g_3vf),
         ((KL2_SRIOV_CONF_ID_3VF, KL2_SRIOV_FUNC_ID_VF_1), kl_mm_info_eccon_32g_3vf),
         ((KL2_SRIOV_CONF_ID_3VF, KL2_SRIOV_FUNC_ID_VF_2), kl_mm_info_eccon_32g_3vf)] sriov_conf_id sriov_func_id)"

definition kl2_get_sriov_mm_info_32g_r300 :: "int \<Rightarrow> int \<Rightarrow> bool \<Rightarrow> kl_mm_info option option" where
  "kl2_get_sriov_mm_info_32g_r300 sriov_conf_id sriov_func_id ecc_on =
     (if \<not> ecc_on then table_at 5
        [((KL2_SRIOV_CONF_ID_SRIOV_OFF, KL2_SRIOV_FUNC_ID_SRIOV_OFF), kl_mm_info_eccoff_32g_r300),
         ((KL2_SRIOV_CONF_ID_SRIOV_OFF, KL2_SRIOV_FUNC_ID_PF), kl_mm_info_eccoff_32g_r300),
         ((KL2_SRIOV_CONF_ID_1VF, KL2_SRIOV_FUNC_ID_PF), kl_mm_info_sriov_pf_eccoff_32g),
         ((KL2_SRIOV_CONF_ID_1VF, KL2_SRIOV_FUNC_ID_VF_0), kl_mm_info_eccoff_32g),
         ((KL2_SRIOV_CONF_ID_2VF, KL2_SRIOV_FUNC_ID_PF), kl_mm_info_sriov_pf_eccoff_32g),
         ((KL2_SRIOV_CONF_ID_2VF, KL2_SRIOV_FUNC_ID_VF_0), kl_mm_info_eccoff_32g_2vf),
         ((KL2_SRIOV_CONF_ID_2VF, KL2_SRIOV_FUNC_ID_VF_1), kl_mm_info_eccoff_32g_2vf),
         ((KL2_SRIOV_CONF_ID_3VF, KL2_SRIOV_FUNC_ID_PF), kl_mm_info_sriov_pf_eccoff_32g),
         ((KL2_SRIOV_CONF_ID_3VF, KL2_SRIOV_FUNC_ID_VF_0), kl_mm_info_eccoff_32g_3vf),
         ((KL2_SRIOV_CONF_ID_3VF, KL2_SRIOV_FUNC_ID_VF_1), kl_mm_info_eccoff_32g_3vf),
         ((KL2_SRIOV_CONF_ID_3VF, KL2_SRIOV_FUNC_ID_VF_2), kl_mm_info_eccoff_32g_3vf)] sriov_conf_id sriov_func_id
      else table_at 5
        [((KL2_SRIOV_CONF_ID_SRIOV_OFF, KL2_SRIOV_FUNC_ID_SRIOV_OFF), kl_mm_info_eccon_32g_r300),
         ((KL2_SRIOV_CONF_ID_SRIOV_OFF, KL2_SRIOV_FUNC_ID_PF), kl_mm_info_eccon_32g_r300),
         ((KL2_SRIOV_CONF_ID_1VF, KL2_SRIOV_FUNC_ID_PF), kl_mm_info_sriov_pf_eccon_32g),
         ((KL2_SRIOV_CONF_ID_1VF, KL2_SRIOV_FUNC_ID_VF_0), kl_mm_info_eccon_32g),
         ((KL2_SRIOV_CONF_ID_2VF, KL2_SRIOV_FUNC_ID_PF), kl_mm_info_sriov_pf_eccon_32g),
         ((KL2_SRIOV_CONF_ID_2VF, KL2_SRIOV_FUNC_ID_VF_0), kl_mm_info_eccon_32g_2vf),
         ((KL2_SRIOV_CONF_ID_2VF, KL2_SRIOV_FUNC_ID_VF_1), kl_mm_info_eccon_32g_2vf),
         ((KL2_SRIOV_CONF_ID_3VF, KL2_SRIOV_FUNC_ID_PF), kl_mm_info_sriov_pf_eccon_32g),
         ((KL2_SRIOV_CONF_ID_3VF, KL2_SRIOV_FUNC_ID_VF_0), kl_mm_info_eccon_32g_3vf),
         ((KL2_SRIOV_CONF_ID_3VF, KL2_SRIOV_FUNC_ID_VF_1), kl_mm_info_eccon_32g_3vf),
         ((KL2_SRIOV_CONF_ID_3VF, KL2_SRIOV_FUNC_ID_VF_2), kl_mm_info_eccon_32g_3vf)] sriov_conf_id sriov_func_id)"

definition kl2_get_sriov_mm_info_12g :: "int \<Rightarrow> int \<Rightarrow> bool \<Rightarrow> kl_mm_info option option" where
  "kl2_get_sriov_mm_info_12g sriov_conf_id sriov_func_id ecc_on =
     (if \<not> ecc_on then table_at 2
        [((KL2_SRIOV_CONF_ID_SRIOV_OFF, KL2_SRIOV_FUNC_ID_SRIOV_OFF), kl_mm_info_eccoff_12g)] sriov_conf_id sriov_func_id
      else table_at 2
        [((KL2_SRIOV_CONF_ID_SRIOV_OFF, KL2_SRIOV_FUNC_ID_SRIOV_OFF), kl_mm_info_eccon_12g)] sriov_conf_id sriov_func_id)"

section \<open>Choosing a configuration\<close>

text \<open>What \<^verbatim>\<open>kl2/spec.c\<close> reads of the device: \<^verbatim>\<open>dev_info\<close>, \<^verbatim>\<open>ddr_conf\<close>, \<^verbatim>\<open>otp_info\<close> and \<^verbatim>\<open>kdev->num_vfs\<close>.\<close>

record kl2_conf =
  cf_board :: int
  cf_sriov_conf :: int
  cf_sriov_func_id :: int
  cf_num_vfs :: int
  cf_ddr_x8 :: bool
  cf_ecc_on :: bool
  cf_nchannel :: nat
  cf_otp_cl_bits :: nat
  cf_otp_sdnn_bits :: nat
  cf_otp_dec_bits :: nat

definition kl_mm_info_general_fn :: "kl2_conf \<Rightarrow> kl_mm_info option option" where
  "kl_mm_info_general_fn c =
     (let board = cf_board c; conf = cf_sriov_conf c; func = cf_sriov_func_id c; ecc_on = cf_ecc_on c
      in if board = KL2_BOARD_ID_R200 then
           (if \<not> cf_ddr_x8 c then
              (if cf_nchannel c = 6 then kl2_get_sriov_mm_info_12g conf func ecc_on
               else if cf_nchannel c = 8 then kl2_get_sriov_mm_info_16g conf func ecc_on
               else Some None)
            else Some None)
         else if board = KL2_BOARD_ID_R300 then kl2_get_sriov_mm_info_32g_r300 conf func ecc_on
         else if board = KL2_BOARD_ID_R200_8F \<or> board = KL2_BOARD_ID_R200_8FS \<or>
                 board = KL2_BOARD_ID_RG800 \<or> board = KL2_BOARD_ID_RG800_PRO
           then kl2_get_sriov_mm_info_32g conf func ecc_on
         else if board = KL2_BOARD_ID_R200_DEBUG_BOARD then kl2_get_sriov_mm_info_32g conf func ecc_on
         else if board = KL2_BOARD_ID_R100 \<or> board = KL2_BOARD_ID_R420 \<or> board = KL2_BOARD_ID_RM80
           then kl2_get_sriov_mm_info_12g conf func ecc_on
         else kl2_get_sriov_mm_info_16g conf func ecc_on)"

definition kl_vf_mm_info_general_fn :: "kl2_conf \<Rightarrow> kl_mm_info option option" where
  "kl_vf_mm_info_general_fn c =
     (let conf = KL2_SRIOV_CONF_ID_1VF + cf_num_vfs c - 1; func = KL2_SRIOV_FUNC_ID_VF_0;
          board = cf_board c; ecc_on = cf_ecc_on c
      in if cf_nchannel c \<noteq> 8 then Some None
         else if board = KL2_BOARD_ID_R200 then kl2_get_sriov_mm_info_16g conf func ecc_on
         else if board = KL2_BOARD_ID_R300 then kl2_get_sriov_mm_info_32g_r300 conf func ecc_on
         else if board = KL2_BOARD_ID_R200_8F \<or> board = KL2_BOARD_ID_R200_8FS \<or>
                 board = KL2_BOARD_ID_RG800 \<or> board = KL2_BOARD_ID_RG800_PRO
           then kl2_get_sriov_mm_info_32g conf func ecc_on
         else kl2_get_sriov_mm_info_16g conf func ecc_on)"

record kl2_df_spec =
  sp_valid :: bool
  sp_dmach_bits :: nat
  sp_hwq_bits :: nat
  sp_cl_bits :: nat
  sp_sdnn_bits :: nat
  sp_enc_bits :: nat
  sp_dec_bits :: nat
  sp_imgproc_bits :: nat
  sp_kl_mm_info_fn :: "(kl2_conf \<Rightarrow> kl_mm_info option option) option"
  sp_kl_vf_mm_info_fn :: "(kl2_conf \<Rightarrow> kl_mm_info option option) option"

datatype spec_id_kl2 =
    SPEC_ID_KL2_NA | SPEC_ID_KL2_GENERAL | SPEC_ID_KL2_GENERAL_SRIOV_PF
  | SPEC_ID_KL2_GENERAL_SRIOV_1VF_0
  | SPEC_ID_KL2_GENERAL_SRIOV_2VF_0 | SPEC_ID_KL2_GENERAL_SRIOV_2VF_1
  | SPEC_ID_KL2_GENERAL_SRIOV_3VF_0 | SPEC_ID_KL2_GENERAL_SRIOV_3VF_1 | SPEC_ID_KL2_GENERAL_SRIOV_3VF_2

definition df_spec_row ::
    "nat \<Rightarrow> nat \<Rightarrow> nat \<Rightarrow> nat \<Rightarrow> nat \<Rightarrow> nat \<Rightarrow> nat \<Rightarrow> bool \<Rightarrow> kl2_df_spec" where
  "df_spec_row dmach hwq cl sdnn enc dec imgproc has_vf =
     \<lparr>sp_valid = True, sp_dmach_bits = dmach, sp_hwq_bits = hwq, sp_cl_bits = cl, sp_sdnn_bits = sdnn,
      sp_enc_bits = enc, sp_dec_bits = dec, sp_imgproc_bits = imgproc,
      sp_kl_mm_info_fn = Some kl_mm_info_general_fn,
      sp_kl_vf_mm_info_fn = (if has_vf then Some kl_vf_mm_info_general_fn else None)\<rparr>"

text \<open>The row of the table that no initialiser names is all zero.\<close>

definition kl2_df_spec_table :: "spec_id_kl2 \<Rightarrow> kl2_df_spec" where
  "kl2_df_spec_table i =
     (case i of
        SPEC_ID_KL2_NA \<Rightarrow>
          \<lparr>sp_valid = False, sp_dmach_bits = 0, sp_hwq_bits = 0, sp_cl_bits = 0, sp_sdnn_bits = 0,
           sp_enc_bits = 0, sp_dec_bits = 0, sp_imgproc_bits = 0, sp_kl_mm_info_fn = None,
           sp_kl_vf_mm_info_fn = None\<rparr>
      | SPEC_ID_KL2_GENERAL \<Rightarrow> df_spec_row 0xff 0xfff 0xff 0x3f 0x7 0x1ff 0x3f True
      | SPEC_ID_KL2_GENERAL_SRIOV_PF \<Rightarrow> df_spec_row 0x3 0x0 0x0 0x0 0x0 0x0 0x0 True
      | SPEC_ID_KL2_GENERAL_SRIOV_1VF_0 \<Rightarrow> df_spec_row 0xfc 0xfff 0xff 0x3f 0x7 0x1ff 0x3f False
      | SPEC_ID_KL2_GENERAL_SRIOV_2VF_0 \<Rightarrow> df_spec_row 0x1c 0x3f 0x7 0x7 0x1 0xf 0x7 False
      | SPEC_ID_KL2_GENERAL_SRIOV_2VF_1 \<Rightarrow> df_spec_row 0xe0 0x3f 0x7 0x7 0x1 0xf 0x7 False
      | SPEC_ID_KL2_GENERAL_SRIOV_3VF_0 \<Rightarrow> df_spec_row 0xc 0xf 0x3 0x3 0x1 0x7 0x3 False
      | SPEC_ID_KL2_GENERAL_SRIOV_3VF_1 \<Rightarrow> df_spec_row 0x30 0xf 0x3 0x3 0x1 0x7 0x3 False
      | SPEC_ID_KL2_GENERAL_SRIOV_3VF_2 \<Rightarrow> df_spec_row 0xc0 0xf 0x3 0x3 0x1 0x7 0x3 False)"

definition kl2_df_spec_mapping :: "((int \<times> int) \<times> spec_id_kl2) list" where
  "kl2_df_spec_mapping =
     [((KL2_SRIOV_CONF_ID_SRIOV_OFF, KL2_SRIOV_FUNC_ID_SRIOV_OFF), SPEC_ID_KL2_GENERAL),
      ((KL2_SRIOV_CONF_ID_1VF, KL2_SRIOV_FUNC_ID_PF), SPEC_ID_KL2_GENERAL_SRIOV_PF),
      ((KL2_SRIOV_CONF_ID_1VF, KL2_SRIOV_FUNC_ID_VF_0), SPEC_ID_KL2_GENERAL_SRIOV_1VF_0),
      ((KL2_SRIOV_CONF_ID_2VF, KL2_SRIOV_FUNC_ID_PF), SPEC_ID_KL2_GENERAL_SRIOV_PF),
      ((KL2_SRIOV_CONF_ID_2VF, KL2_SRIOV_FUNC_ID_VF_0), SPEC_ID_KL2_GENERAL_SRIOV_2VF_0),
      ((KL2_SRIOV_CONF_ID_2VF, KL2_SRIOV_FUNC_ID_VF_1), SPEC_ID_KL2_GENERAL_SRIOV_2VF_1),
      ((KL2_SRIOV_CONF_ID_3VF, KL2_SRIOV_FUNC_ID_PF), SPEC_ID_KL2_GENERAL_SRIOV_PF),
      ((KL2_SRIOV_CONF_ID_3VF, KL2_SRIOV_FUNC_ID_VF_0), SPEC_ID_KL2_GENERAL_SRIOV_3VF_0),
      ((KL2_SRIOV_CONF_ID_3VF, KL2_SRIOV_FUNC_ID_VF_1), SPEC_ID_KL2_GENERAL_SRIOV_3VF_1),
      ((KL2_SRIOV_CONF_ID_3VF, KL2_SRIOV_FUNC_ID_VF_2), SPEC_ID_KL2_GENERAL_SRIOV_3VF_2)]"

text \<open>
  \<^verbatim>\<open>kl2_get_df_spec\<close>: the row of a known configuration, with the compute units that the fuses of the
  smaller boards leave; otherwise \<^verbatim>\<open>EINVAL\<close>, and the old row \<open>old\<close> marked invalid.
\<close>

definition kl2_get_df_spec :: "kl2_conf \<Rightarrow> kl2_df_spec \<Rightarrow> kl_status \<times> kl2_df_spec" where
  "kl2_get_df_spec c old =
     (let mapping = (if 0 \<le> cf_sriov_conf c \<and> cf_sriov_conf c < NUM_KL2_SRIOV_CONF_ID \<and>
                        0 \<le> cf_sriov_func_id c \<and> cf_sriov_func_id c < NUM_KL2_SRIOV_FUNC_ID
                     then case map_of kl2_df_spec_mapping (cf_sriov_conf c, cf_sriov_func_id c) of
                            None \<Rightarrow> SPEC_ID_KL2_NA | Some i \<Rightarrow> i
                     else SPEC_ID_KL2_NA)
      in if mapping \<noteq> SPEC_ID_KL2_NA \<and> sp_valid (kl2_df_spec_table mapping) then
           (None,
            if cf_board c = KL2_BOARD_ID_R100 \<or> cf_board c = KL2_BOARD_ID_R420 \<or> cf_board c = KL2_BOARD_ID_RM80
            then (kl2_df_spec_table mapping)\<lparr>sp_cl_bits := cf_otp_cl_bits c, sp_sdnn_bits := cf_otp_sdnn_bits c,
                                       sp_dec_bits := cf_otp_dec_bits c\<rparr>
            else kl2_df_spec_table mapping)
         else (Some EINVAL, old\<lparr>sp_valid := False\<rparr>))"

text \<open>A \<^verbatim>\<open>BUG_ON\<close> or a read outside of a table is \<^term>\<open>None\<close>.\<close>

definition kl2_get_mm_info :: "kl2_df_spec \<Rightarrow> kl2_conf \<Rightarrow> kl_mm_info option option" where
  "kl2_get_mm_info spec c =
     (if \<not> sp_valid spec then None
      else case sp_kl_mm_info_fn spec of None \<Rightarrow> None | Some f \<Rightarrow> f c)"

definition kl2_get_vf_mm_info :: "kl2_df_spec \<Rightarrow> kl2_conf \<Rightarrow> kl_mm_info option option" where
  "kl2_get_vf_mm_info spec c =
     (if \<not> sp_valid spec then None
      else case sp_kl_vf_mm_info_fn spec of None \<Rightarrow> None | Some f \<Rightarrow> f c)"

section \<open>Checking user addresses\<close>

text \<open>\<^verbatim>\<open>kl2_dma_valid_check\<close> on the device side of a transfer: it returns 0 when this is \<^term>\<open>True\<close>.\<close>

definition kl2_dma_valid_check :: "kl_mm_info \<Rightarrow> nat \<Rightarrow> nat \<Rightarrow> bool" where
  "kl2_dma_valid_check info dma_start dma_size =
     (let dma_end = u64 (dma_start + dma_size)
      in dma_size \<noteq> 0 \<and> \<not> dma_end < dma_start \<and>
         list_ex (\<lambda>r. dma_start \<ge> rg_base r \<and> dma_start < u64 (rg_base r + rg_size r) \<and>
                      dma_end > rg_base r \<and> dma_end \<le> u64 (rg_base r + rg_size r)) (nfo_user_dma_range info))"

section \<open>Cutting the device memory\<close>

definition KL2_REG_VMUGDDR_BAR2_BASE :: nat where "KL2_REG_VMUGDDR_BAR2_BASE = 0x0500000"
definition KL2_REG_VMUL3_BAR2_BASE :: nat where "KL2_REG_VMUL3_BAR2_BASE = 0x0600000"
definition KL2_REG_VMUL3RO_BAR2_BASE :: nat where "KL2_REG_VMUL3RO_BAR2_BASE = 0x0601000"

text \<open>The register writes of a function, as offsets in BAR 2 with the values, in order.\<close>

type_synonym reg_writes = "(nat \<times> nat) list"

unbundle bit_operations_syntax

definition vf_page :: "nat \<Rightarrow> nat \<Rightarrow> nat" where
  "vf_page start_addr_in_mb end_addr_in_mb =
     u32 (0x80000000 OR push_bit 16 (start_addr_in_mb AND 0xffff) OR (end_addr_in_mb AND 0xffff))"

definition kl2_set_vf_page :: "nat \<Rightarrow> nat \<Rightarrow> nat \<Rightarrow> nat \<Rightarrow> reg_writes" where
  "kl2_set_vf_page mem_kind vf_id start_addr_in_mb end_addr_in_mb =
     (let v = vf_page start_addr_in_mb end_addr_in_mb
      in if mem_kind = XPU_MEM_L3 then
           [(KL2_REG_VMUL3_BAR2_BASE + 0x0020 + vf_id * 0x4, v),
            (KL2_REG_VMUL3RO_BAR2_BASE + 0x0020 + vf_id * 0x4, v)]
         else [(KL2_REG_VMUGDDR_BAR2_BASE + 0x0020 + vf_id * 0x4, v)])"

definition vf_pages :: "nat \<Rightarrow> nat \<Rightarrow> nat \<Rightarrow> reg_writes" where
  "vf_pages gddr_per_ch l3_per_ch num_vfs =
     concat (map (\<lambda>i. kl2_set_vf_page XPU_MEM_MAIN i (gddr_per_ch * i) (u64_sub (gddr_per_ch * (i + 1)) 1) @
                      kl2_set_vf_page XPU_MEM_L3 i (l3_per_ch * i) (u64_sub (l3_per_ch * (i + 1)) 1))
              [0..<num_vfs])"

text \<open>\<^verbatim>\<open>kl2_config_vmu\<close>; \<^term>\<open>None\<close> is the dereference of a missing memory table.\<close>

definition kl2_config_vmu :: "kl2_df_spec \<Rightarrow> kl2_conf \<Rightarrow> nat \<Rightarrow> reg_writes option" where
  "kl2_config_vmu spec c num_vfs =
     (let v = (if num_vfs = 0 then 0 else push_bit 5 (num_vfs AND 0x3) OR 0x11);
          mode = [(KL2_REG_VMUL3_BAR2_BASE, v), (KL2_REG_VMUL3RO_BAR2_BASE, v), (KL2_REG_VMUGDDR_BAR2_BASE, v)]
      in if num_vfs = 0 then Some mode
         else case kl2_get_vf_mm_info spec c of
           Some (Some info) \<Rightarrow>
             (let gddr = rg_size (nfo_user_dma_range info ! 0) div 2 ^ 20;
                  l3 = rg_size (nfo_user_dma_range info ! 1) div 2 ^ 20
              in Some (mode @
                   [(KL2_REG_VMUGDDR_BAR2_BASE + 0x0004, u32_sub gddr 1),
                    (KL2_REG_VMUL3_BAR2_BASE + 0x0004, u32_sub l3 1),
                    (KL2_REG_VMUL3RO_BAR2_BASE + 0x0004, u32_sub l3 1)] @
                   vf_pages (gddr div 8) (l3 div 8) num_vfs))
         | _ \<Rightarrow> None)"

end
