(* ===== verification/Kl2_Spec_Props.thy ===== *)
theory Kl2_Spec_Props
  imports Kl2_Spec Kl_Mm_Props
begin

text \<open>
  The tables of \<^verbatim>\<open>kl2/spec.c\<close> are fit for their users: the memory manager initialises from each of
  them and starts in its invariant, user DMA reaches all of the memory it hands out, and the virtual
  functions of a device get disjoint shares of its memory and resources.
\<close>

section \<open>Sound tables\<close>

text \<open>All regions of one kind have pages of the same size.\<close>

definition uniform_pages :: "kl_memory_info list \<Rightarrow> bool" where
  "uniform_pages infos \<longleftrightarrow>
     list_all (\<lambda>a. list_all (\<lambda>b. info_kind a = info_kind b \<longrightarrow> info_page_bits a = info_page_bits b) infos) infos"

text \<open>The memory a region table describes lies inside one of the ranges.\<close>

definition inside_ranges :: "kl_mm_info \<Rightarrow> bool" where
  "inside_ranges info \<longleftrightarrow>
     list_all (\<lambda>m. info_size m = 0 \<or>
        list_ex (\<lambda>r. rg_base r \<le> info_base m \<and> info_base m + info_size m \<le> rg_base r + rg_size r \<and>
                     rg_base r + rg_size r < 2 ^ 64) (nfo_user_dma_range info)) (nfo_mem info)"

definition empty_huge_info :: kl_memory_info where
  "empty_huge_info = \<lparr>info_base = 2 ^ 64 - 1, info_size = 0, info_page_bits = 0, info_kind = XPU_MEM_MAIN\<rparr>"

definition table_ok :: "kl_mm_info \<Rightarrow> bool" where
  "table_ok info \<longleftrightarrow>
     infos_ok (nfo_mem info) \<and> uniform_pages (nfo_mem info) \<and> inside_ranges info \<and>
     (\<exists>h. check_main_infos (nfo_mem info) empty_huge_info 0 = Inr h)"

lemmas table_simps = table_ok_def infos_ok_def info_ok_def uniform_pages_def inside_ranges_def
  empty_huge_info_def mem_info_def mem_range_def apart_def xpu_mem_kinds BITS_PER_LONG_def
  KL2_GENERAL_REGISTER_RANGE_def KL2_CCIX_ADDRESS_RANGE_def u64_def

lemmas region_tables =
  kl_mem_info_eccoff_32g_def kl_mem_info_eccon_32g_def kl_mem_info_eccoff_16g_def
  kl_mem_info_eccon_16g_def kl_mem_info_eccoff_12g_def kl_mem_info_eccon_12g_def
  kl_mem_info_sriov_pf_def kl_mem_info_eccoff_16g_2vf_def kl_mem_info_eccon_16g_2vf_def
  kl_mem_info_eccoff_16g_3vf_def kl_mem_info_eccon_16g_3vf_def kl_mem_info_eccoff_32g_2vf_def
  kl_mem_info_eccon_32g_2vf_def kl_mem_info_eccoff_32g_3vf_def kl_mem_info_eccon_32g_3vf_def
  kl_user_dma_rr_rw_range_eccoff_32g_def kl_user_dma_rr_rw_ccix_range_eccoff_32g_def
  kl_user_dma_rr_rw_range_eccon_32g_def kl_user_dma_rr_rw_ccix_range_eccon_32g_def
  kl_user_dma_rr_rw_range_eccoff_16g_def kl_user_dma_rr_rw_range_eccon_16g_def
  kl_user_dma_rr_rw_range_eccoff_12g_def kl_user_dma_rr_rw_range_eccon_12g_def
  kl_user_dma_rr_rw_range_eccoff_16g_2vf_def kl_user_dma_rr_rw_range_eccon_16g_2vf_def
  kl_user_dma_rr_rw_range_eccoff_16g_3vf_def kl_user_dma_rr_rw_range_eccon_16g_3vf_def
  kl_user_dma_rr_rw_range_eccoff_32g_2vf_def kl_user_dma_rr_rw_range_eccon_32g_2vf_def
  kl_user_dma_rr_rw_range_eccoff_32g_3vf_def kl_user_dma_rr_rw_range_eccon_32g_3vf_def
  kl_mm_info_eccoff_32g_def kl_mm_info_eccoff_32g_r300_def kl_mm_info_eccon_32g_def
  kl_mm_info_eccon_32g_r300_def kl_mm_info_eccoff_16g_def kl_mm_info_eccon_16g_def
  kl_mm_info_eccoff_12g_def kl_mm_info_eccon_12g_def kl_mm_info_sriov_pf_eccoff_32g_def
  kl_mm_info_sriov_pf_eccon_32g_def kl_mm_info_sriov_pf_eccoff_16g_def
  kl_mm_info_sriov_pf_eccon_16g_def kl_mm_info_eccoff_16g_2vf_def kl_mm_info_eccon_16g_2vf_def
  kl_mm_info_eccoff_16g_3vf_def kl_mm_info_eccon_16g_3vf_def kl_mm_info_eccoff_32g_2vf_def
  kl_mm_info_eccon_32g_2vf_def kl_mm_info_eccoff_32g_3vf_def kl_mm_info_eccon_32g_3vf_def

definition all_tables :: "kl_mm_info list" where
  "all_tables =
     [kl_mm_info_eccoff_32g, kl_mm_info_eccoff_32g_r300, kl_mm_info_eccon_32g,
      kl_mm_info_eccon_32g_r300, kl_mm_info_eccoff_16g, kl_mm_info_eccon_16g,
      kl_mm_info_eccoff_12g, kl_mm_info_eccon_12g, kl_mm_info_sriov_pf_eccoff_32g,
      kl_mm_info_sriov_pf_eccon_32g, kl_mm_info_sriov_pf_eccoff_16g, kl_mm_info_sriov_pf_eccon_16g,
      kl_mm_info_eccoff_16g_2vf, kl_mm_info_eccon_16g_2vf, kl_mm_info_eccoff_16g_3vf,
      kl_mm_info_eccon_16g_3vf, kl_mm_info_eccoff_32g_2vf, kl_mm_info_eccon_32g_2vf,
      kl_mm_info_eccoff_32g_3vf, kl_mm_info_eccon_32g_3vf]"

lemma all_tables_ok: "info \<in> set all_tables \<Longrightarrow> table_ok info"
proof -
  have "list_all table_ok all_tables"
    by (simp add: all_tables_def table_simps region_tables)
  then show "info \<in> set all_tables \<Longrightarrow> table_ok info" by (simp add: list_all_iff)
qed

section \<open>The chosen table\<close>

lemma table_at_set: "table_at rows tbl a b = Some (Some x) \<Longrightarrow> x \<in> set (map snd tbl)"
  by (auto simp: table_at_def split: if_splits dest!: map_of_SomeD intro: rev_image_eqI)

lemma sriov_tables:
  "kl2_get_sriov_mm_info_16g a b e = Some (Some x) \<Longrightarrow> x \<in> set all_tables"
  "kl2_get_sriov_mm_info_32g a b e = Some (Some x) \<Longrightarrow> x \<in> set all_tables"
  "kl2_get_sriov_mm_info_32g_r300 a b e = Some (Some x) \<Longrightarrow> x \<in> set all_tables"
  "kl2_get_sriov_mm_info_12g a b e = Some (Some x) \<Longrightarrow> x \<in> set all_tables"
  unfolding kl2_get_sriov_mm_info_16g_def kl2_get_sriov_mm_info_32g_def
    kl2_get_sriov_mm_info_32g_r300_def kl2_get_sriov_mm_info_12g_def
  by (auto split: if_splits dest!: table_at_set simp: all_tables_def)

lemma general_table: "kl_mm_info_general_fn c = Some (Some x) \<Longrightarrow> x \<in> set all_tables"
  by (auto simp: kl_mm_info_general_fn_def Let_def split: if_splits dest: sriov_tables)

lemma df_spec_fn:
  assumes "kl2_get_df_spec c old = (None, spec)"
  shows "sp_valid spec \<and> sp_kl_mm_info_fn spec = Some kl_mm_info_general_fn"
  using assms by (auto simp: kl2_get_df_spec_def Let_def kl2_df_spec_table_def df_spec_row_def
      split: if_splits spec_id_kl2.splits option.splits)

lemma get_mm_info_eq:
  "kl2_get_df_spec c old = (None, spec) \<Longrightarrow> kl2_get_mm_info spec c = kl_mm_info_general_fn c"
  using df_spec_fn [of c old spec] by (simp add: kl2_get_mm_info_def)

section \<open>Initialisation succeeds\<close>

definition all_allocated :: "kl_mm_allocs \<Rightarrow> bool" where
  "all_allocated ka \<longleftrightarrow> ka_array ka \<and> (\<forall>i. ka_tables ka i) \<and> ka_huge ka \<and> ka_huge_tables ka"

lemma setup_ok: "\<exists>m'. setup_kl_memory m info True = Inr m'"
  by (simp add: setup_kl_memory_def Let_def)

lemma setup_all_ok: "(\<forall>i. ok i) \<Longrightarrow> \<exists>ms. setup_all ok i infos = Inr ms"
proof (induction infos arbitrary: i)
  case (Cons info infos)
  obtain m where m: "setup_kl_memory (empty_kl_memory i :: 'a kl_memory) info True = Inr m" using setup_ok by blast
  obtain ms :: "'a kl_memory list" where ms: "setup_all ok (Suc i) infos = Inr ms" using Cons by blast
  have ok: "ok i = True" using Cons.prems by blast
  show ?case using m ms by (simp add: ok)
qed simp

lemma table_init:
  assumes "table_ok info" "all_allocated ka"
  shows "\<exists>mm. kl_mm_init ka (nfo_mem info) = Inr mm"
proof -
  obtain h where h: "check_main_infos (nfo_mem info) empty_huge_info 0 = Inr h"
    using assms(1) by (auto simp: table_ok_def)
  obtain ms :: "'a kl_memory list" where ms: "setup_all (ka_tables ka) 0 (nfo_mem info) = Inr ms"
    using setup_all_ok [of "ka_tables ka" 0 "nfo_mem info"] assms(2) by (auto simp: all_allocated_def)
  obtain m where m: "setup_kl_memory (empty_kl_memory 0 :: 'a kl_memory) h True = Inr m" using setup_ok by blast
  show ?thesis using h ms m assms(2)
    by (simp add: kl_mm_init_def empty_huge_info_def all_allocated_def)
qed

section \<open>Allocations and user DMA\<close>

lemma inside_valid:
  assumes "inside_ranges info" "m \<in> set (nfo_mem info)" and "0 < n"
    and "info_base m \<le> addr" "addr + n \<le> info_base m + info_size m"
  shows "kl2_dma_valid_check info addr n"
proof -
  have "info_size m \<noteq> 0" using assms(3-5) by linarith
  with assms(1,2) obtain r where r: "r \<in> set (nfo_user_dma_range info)" "rg_base r \<le> info_base m"
      "info_base m + info_size m \<le> rg_base r + rg_size r" "rg_base r + rg_size r < 2 ^ 64"
    by (auto simp: inside_ranges_def list_all_iff list_ex_iff)
  have u: "u64 (rg_base r + rg_size r) = rg_base r + rg_size r" "u64 (addr + n) = addr + n"
    using r assms(5) by (auto intro!: u64_id)
  have "list_ex (\<lambda>r. addr \<ge> rg_base r \<and> addr < u64 (rg_base r + rg_size r) \<and>
      addr + n > rg_base r \<and> addr + n \<le> u64 (rg_base r + rg_size r)) (nfo_user_dma_range info)"
    unfolding list_ex_iff by (rule bexI [OF _ r(1)]) (use r u assms in linarith)
  then show ?thesis using u(2) assms(3) by (simp add: kl2_dma_valid_check_def Let_def)
qed

lemma allocated_inside:
  assumes wf: "mem_wf m" and al: "allocated m (malloc_pages_needed m sz) w m' addr"
    and sz: "0 < sz" "sz + 2 ^ 32 \<le> 2 ^ 64"
  shows "km_base m \<le> addr \<and> addr + sz \<le> km_base m + km_size m"
proof -
  let ?ps = "km_page_size m" and ?k = "malloc_pages_needed m sz" and ?p = "addr_to_pageid m addr"
  have ps: "?ps = 2 ^ km_page_bits m" "?ps \<le> 2 ^ 32" "0 < ?ps"
    using wf power_increasing [of "km_page_bits m" 32 "2 :: nat"] by (auto simp: mem_wf_def)
  have k: "?k = (sz + ?ps - 1) div ?ps" using malloc_pages_needed_eq(1) [OF wf sz(1)] sz ps by linarith
  have le: "sz \<le> ?k * ?ps"
  proof -
    have "sz + ?ps - 1 < (?k + 1) * ?ps"
      using k ps(3) dividend_less_div_times [of ?ps "sz + ?ps - 1"] by (simp add: algebra_simps)
    then show ?thesis using ps(3) by (simp add: algebra_simps)
  qed
  have a: "km_base m \<le> addr" "pageid_to_addr m ?p = addr" "?p + ?k \<le> km_page_count m"
    using al by (auto simp: allocated_def)
  have c: "?p < km_page_count m" using addr_to_pageid_lt [OF wf a(1)] al by (simp add: allocated_def)
  have "km_limit m < 2 ^ 64" using wf by (simp add: mem_wf_def)
  then have "km_base m + ?p * ?ps < 2 ^ 64"
    unfolding ps(1) by (rule less_trans [OF addr_bound [OF wf c]])
  then have addr: "addr = km_base m + ?p * ?ps"
    using a(2) ps(1) by (simp add: pageid_to_addr_def u64_id)
  have "addr + sz \<le> km_base m + (?p + ?k) * ?ps" using addr le by (simp add: algebra_simps)
  also have "\<dots> \<le> km_base m + km_page_count m * ?ps" using a(3) mult_le_mono1 [of "?p + ?k"] by simp
  also have "\<dots> = km_base m + km_size m" using wf ps(1) by (simp add: mem_wf_def)
  finally show ?thesis using a(1) by simp
qed

lemma alloc_dma:
  fixes mm0 :: "'o kl_mm"
  assumes ok: "table_ok info" and i0: "kl_mm_init ka (nfo_mem info) = Inr mm0"
    and fa: "zero_area_finder find_area" and wf: "mm_wf mm" and sr: "list_all2 same_region (mm_mem mm0) (mm_mem mm)"
    and kind: "kind \<noteq> XPU_MEM_MAIN_KL2_HUGE" and sz: "0 < sz" "sz + 2 ^ 32 \<le> 2 ^ 64"
    and r: "kl_mm_malloc find_area mm sz kind (Some w) cb = Some (Inr (addr, j), mm', cbs)"
  shows "kl2_dma_valid_check info addr sz"
proof -
  from kl_mm_malloc_cases [OF fa wf sz kind, of w cb] r obtain i m' where
    i: "i < length (mm_mem mm)" and
    al: "allocated (mm_mem mm ! i) (malloc_pages_needed (mm_mem mm ! i) sz) w m' addr"
    by auto
  note fresh = kl_mm_init_fresh [OF _ i0]
  have inf: "infos_ok (nfo_mem info)" "inside_ranges info" using ok by (auto simp: table_ok_def)
  have len: "i < length (nfo_mem info)" "i < length (mm_mem mm0)"
    using i list_all2_lengthD [OF sr] fresh(2) inf(1) by auto
  have g: "km_base (mm_mem mm ! i) = info_base (nfo_mem info ! i)" "km_size (mm_mem mm ! i) = info_size (nfo_mem info ! i)"
    using fresh(3) [OF inf(1) len(1)] list_all2_nthD [OF sr len(2)]
    by (auto simp: fresh_region_def same_region_def)
  have "km_base (mm_mem mm ! i) \<le> addr \<and> addr + sz \<le> km_base (mm_mem mm ! i) + km_size (mm_mem mm ! i)"
    using allocated_inside [OF _ al sz] mm_wfD [OF wf i] by simp
  then show ?thesis using g inside_valid [OF inf(2) nth_mem [OF len(1)] sz(1)] by simp
qed

text \<open>The boards with the 12 GB memory have tables for an unshared device only.\<close>

definition board_12g :: "kl2_conf \<Rightarrow> bool" where
  "board_12g c \<longleftrightarrow>
     cf_board c = KL2_BOARD_ID_R100 \<or> cf_board c = KL2_BOARD_ID_R420 \<or> cf_board c = KL2_BOARD_ID_RM80 \<or>
     (cf_board c = KL2_BOARD_ID_R200 \<and> \<not> cf_ddr_x8 c \<and> cf_nchannel c = 6)"

lemma table_at_total: "1 \<le> a \<Longrightarrow> a < rows \<Longrightarrow> 1 \<le> b \<Longrightarrow> b < 6 \<Longrightarrow> table_at rows tbl a b \<noteq> None"
  by (simp add: table_at_def)

lemma df_spec_conf:
  assumes "kl2_get_df_spec c old = (None, spec)"
  shows "1 \<le> cf_sriov_conf c \<and> cf_sriov_conf c < 5 \<and> 1 \<le> cf_sriov_func_id c \<and> cf_sriov_func_id c < 6"
proof -
  from assms obtain i where "map_of kl2_df_spec_mapping (cf_sriov_conf c, cf_sriov_func_id c) = Some i"
    by (auto simp: kl2_get_df_spec_def Let_def split: if_splits option.splits)
  from map_of_SomeD [OF this] show ?thesis by (auto simp: kl2_df_spec_mapping_def)
qed

lemma table_missing:
  assumes "kl2_get_df_spec c old = (None, spec)"
  shows "kl2_get_mm_info spec c = None \<longleftrightarrow> board_12g c \<and> cf_sriov_conf c \<noteq> KL2_SRIOV_CONF_ID_SRIOV_OFF"
proof -
  note d = df_spec_conf [OF assms]
  have big: "kl2_get_sriov_mm_info_16g a b e \<noteq> None" "kl2_get_sriov_mm_info_32g a b e \<noteq> None"
    "kl2_get_sriov_mm_info_32g_r300 a b e \<noteq> None" if "1 \<le> a" "a < 5" "1 \<le> b" "b < 6" for a b e
    using that table_at_total [of a 5 b]
    by (auto simp: kl2_get_sriov_mm_info_16g_def kl2_get_sriov_mm_info_32g_def kl2_get_sriov_mm_info_32g_r300_def)
  have small: "kl2_get_sriov_mm_info_12g a b e = None \<longleftrightarrow> a \<noteq> 1" if "1 \<le> a" "1 \<le> b" "b < 6" for a b e
    using that by (auto simp: kl2_get_sriov_mm_info_12g_def table_at_def)
  show ?thesis
    unfolding get_mm_info_eq [OF assms] using d big small
    by (auto simp: kl_mm_info_general_fn_def Let_def board_12g_def)
qed

section \<open>The memory tables\<close>

text \<open>
  C32: the memory tables. For every board and every function of a device that \<^verbatim>\<open>kl2_get_df_spec\<close>
  knows, the choice of the memory table reads inside its table except on 12 GB boards with SR-IOV
  switched on; from the table that is chosen, \<^verbatim>\<open>kl_mm_init\<close> succeeds if its allocations do and gives
  a manager in its invariant with one region per entry; and whatever that manager hands out later,
  in any state with these regions, is memory that \<^verbatim>\<open>kl2_dma_valid_check\<close> lets the user copy to and from.
\<close>

theorem kl2_memory_tables:
  fixes mm :: "'o kl_mm"
  assumes spec: "kl2_get_df_spec c old = (None, spec)" and ka: "all_allocated ka"
    and fa: "zero_area_finder find_area"
  shows "(kl2_get_mm_info spec c = None \<longleftrightarrow> board_12g c \<and> cf_sriov_conf c \<noteq> KL2_SRIOV_CONF_ID_SRIOV_OFF) \<and>
         (\<forall>info. kl2_get_mm_info spec c = Some (Some info) \<longrightarrow>
            (\<exists>mm0 :: 'o kl_mm. kl_mm_init ka (nfo_mem info) = Inr mm0 \<and> mm_wf mm0 \<and>
               length (mm_mem mm0) = length (nfo_mem info) \<and>
               (\<forall>i < length (nfo_mem info). fresh_region i (nfo_mem info ! i) (mm_mem mm0 ! i)) \<and>
               (\<forall>sz kind w cb addr j mm' cbs.
                  mm_wf mm \<and> list_all2 same_region (mm_mem mm0) (mm_mem mm) \<and>
                  kind \<noteq> XPU_MEM_MAIN_KL2_HUGE \<and> 0 < sz \<and> sz + 2 ^ 32 \<le> 2 ^ 64 \<and>
                  kl_mm_malloc find_area mm sz kind (Some w) cb = Some (Inr (addr, j), mm', cbs) \<longrightarrow>
                  kl2_dma_valid_check info addr sz)))"
proof (intro conjI allI impI)
  show "kl2_get_mm_info spec c = None \<longleftrightarrow> board_12g c \<and> cf_sriov_conf c \<noteq> KL2_SRIOV_CONF_ID_SRIOV_OFF"
    by (rule table_missing [OF spec])
  fix info assume "kl2_get_mm_info spec c = Some (Some info)"
  then have ok: "table_ok info" using get_mm_info_eq [OF spec] general_table all_tables_ok by simp
  obtain mm0 :: "'o kl_mm" where mm0: "kl_mm_init ka (nfo_mem info) = Inr mm0" using table_init [OF ok ka] by blast
  from ok have inf: "infos_ok (nfo_mem info)" by (simp add: table_ok_def)
  show "\<exists>mm0 :: 'o kl_mm. kl_mm_init ka (nfo_mem info) = Inr mm0 \<and> mm_wf mm0 \<and>
               length (mm_mem mm0) = length (nfo_mem info) \<and>
               (\<forall>i < length (nfo_mem info). fresh_region i (nfo_mem info ! i) (mm_mem mm0 ! i)) \<and>
               (\<forall>sz kind w cb addr j mm' cbs.
                  mm_wf mm \<and> list_all2 same_region (mm_mem mm0) (mm_mem mm) \<and>
                  kind \<noteq> XPU_MEM_MAIN_KL2_HUGE \<and> 0 < sz \<and> sz + 2 ^ 32 \<le> 2 ^ 64 \<and>
                  kl_mm_malloc find_area mm sz kind (Some w) cb = Some (Inr (addr, j), mm', cbs) \<longrightarrow>
                  kl2_dma_valid_check info addr sz)"
    using mm0 kl_mm_init_fresh [OF inf mm0] alloc_dma [OF ok mm0 fa] by blast
qed

definition r200_conf :: kl2_conf where
  "r200_conf = \<lparr>cf_board = KL2_BOARD_ID_R200, cf_sriov_conf = KL2_SRIOV_CONF_ID_SRIOV_OFF,
     cf_sriov_func_id = KL2_SRIOV_FUNC_ID_SRIOV_OFF, cf_num_vfs = 0, cf_ddr_x8 = False, cf_ecc_on = False,
     cf_nchannel = 8, cf_otp_cl_bits = 0, cf_otp_sdnn_bits = 0, cf_otp_dec_bits = 0\<rparr>"

lemma r200_spec:
  "kl2_get_df_spec r200_conf old = (None, kl2_df_spec_table SPEC_ID_KL2_GENERAL)"
  by (simp add: kl2_get_df_spec_def r200_conf_def kl2_df_spec_mapping_def kl2_df_spec_table_def df_spec_row_def)

lemma r200_table: "kl2_get_mm_info (kl2_df_spec_table SPEC_ID_KL2_GENERAL) r200_conf = Some (Some kl_mm_info_eccoff_16g)"
  by (simp add: kl2_get_mm_info_def kl2_df_spec_table_def df_spec_row_def kl_mm_info_general_fn_def
      r200_conf_def kl2_get_sriov_mm_info_16g_def table_at_def)

lemma demo_all_allocated: "all_allocated demo_allocs"
  by (simp add: all_allocated_def demo_allocs_def)

lemma r200_malloc:
  assumes m0: "kl_mm_init demo_allocs (nfo_mem kl_mm_info_eccoff_16g) = Inr mm0"
  shows "\<exists>addr j mm' cbs. kl_mm_malloc first_fit mm0 5000 XPU_MEM_L3 (Some 7) True = Some (Inr (addr, j), mm', cbs)"
proof -
  have ok: "table_ok kl_mm_info_eccoff_16g" by (rule all_tables_ok) (simp add: all_tables_def)
  then have inf: "infos_ok (nfo_mem kl_mm_info_eccoff_16g)" by (simp add: table_ok_def)
  note fr = kl_mm_init_fresh [OF inf m0]
  have l: "length (nfo_mem kl_mm_info_eccoff_16g) = 9"
    by (simp add: kl_mm_info_eccoff_16g_def kl_mem_info_eccoff_16g_def)
  have i4: "nfo_mem kl_mm_info_eccoff_16g ! 4 = mem_info 0xc0001000 0x3fff000 12 XPU_MEM_L3"
    by (simp add: kl_mm_info_eccoff_16g_def kl_mem_info_eccoff_16g_def)
  let ?m = "mm_mem mm0 ! 4"
  have f4: "fresh_region 4 (nfo_mem kl_mm_info_eccoff_16g ! 4) ?m" by (rule fr(3)) (simp add: l)
  then have f: "km_kind ?m = XPU_MEM_L3" "km_size ?m = 0x3fff000" "mem_blocks ?m = Map.empty"
    by (simp_all add: i4 mem_info_def fresh_region_def)
  have wf: "mem_wf ?m" using mm_wfD [OF fr(1), of 4] fr(2) l by simp
  have m: "?m \<in> set (mm_mem mm0)" using fr(2) l by (intro nth_mem) simp
  have ps: "km_page_size ?m = 4096" "km_page_count ?m = 16383"
    using wf f f4 by (simp_all add: mem_wf_def fresh_region_def i4 mem_info_def)
  have "malloc_pages_needed ?m 5000 = 2"
    using malloc_pages_needed_eq(1) [OF wf, of 5000] ps by simp
  then have "\<not> cannot_serve ?m (malloc_pages_needed ?m 5000)"
    using ps f(3) by (auto simp: cannot_serve_def intro: exI [of _ 0])
  then show ?thesis
    using kl_mm_malloc_cases [OF ff.zero_area_finder_axioms fr(1), of 5000 XPU_MEM_L3 7 True] f(1) m
    by (fastforce simp: xpu_mem_kinds)
qed

lemma kl2_memory_tables_witness:
  "\<exists>mm0 addr j mm' cbs. kl_mm_init demo_allocs (nfo_mem kl_mm_info_eccoff_16g) = Inr mm0 \<and>
     kl_mm_malloc first_fit mm0 5000 XPU_MEM_L3 (Some (7 :: nat)) True = Some (Inr (addr, j), mm', cbs) \<and>
     kl2_dma_valid_check kl_mm_info_eccoff_16g addr 5000"
proof -
  obtain mm0 :: "nat kl_mm" where m0: "kl_mm_init demo_allocs (nfo_mem kl_mm_info_eccoff_16g) = Inr mm0"
    using table_init [OF all_tables_ok demo_all_allocated, of kl_mm_info_eccoff_16g] by (auto simp: all_tables_def)
  note T = kl2_memory_tables [OF r200_spec demo_all_allocated ff.zero_area_finder_axioms, THEN conjunct2,
      THEN spec [of _ kl_mm_info_eccoff_16g], THEN mp, OF r200_table, of mm0]
  from T obtain mm1 :: "nat kl_mm" where mm1: "kl_mm_init demo_allocs (nfo_mem kl_mm_info_eccoff_16g) = Inr mm1"
    "mm_wf mm1" and dma: "\<forall>sz kind w cb addr j mm' cbs.
        mm_wf mm0 \<and> list_all2 same_region (mm_mem mm1) (mm_mem mm0) \<and>
        kind \<noteq> XPU_MEM_MAIN_KL2_HUGE \<and> 0 < sz \<and> sz + 2 ^ 32 \<le> 2 ^ 64 \<and>
        kl_mm_malloc first_fit mm0 sz kind (Some w) cb = Some (Inr (addr, j), mm', cbs) \<longrightarrow>
        kl2_dma_valid_check kl_mm_info_eccoff_16g addr sz"
    by (elim exE conjE) (rule that)
  have e: "mm1 = mm0" using mm1(1) m0 by (simp only: sum.inject)
  from r200_malloc [OF m0] obtain addr j mm' cbs where
    r: "kl_mm_malloc first_fit mm0 5000 XPU_MEM_L3 (Some 7) True = Some (Inr (addr, j), mm', cbs)" by blast
  have "list_all2 same_region (mm_mem mm1) (mm_mem mm0)" unfolding e by (rule list_all2_refl) simp
  moreover have "XPU_MEM_L3 \<noteq> XPU_MEM_MAIN_KL2_HUGE \<and> 0 < (5000 :: nat) \<and> (5000 :: nat) + 2 ^ 32 \<le> 2 ^ 64"
    by (simp add: xpu_mem_kinds)
  ultimately have "kl2_dma_valid_check kl_mm_info_eccoff_16g addr 5000"
    using dma mm1(2) r unfolding e by blast
  with m0 r show ?thesis by blast
qed

end
