(* ===== verification/Kl_Bits.thy ===== *)
theory Kl_Bits
  imports Kl_Prelude
begin

text \<open>
  Bit fields of register values, as natural numbers: cutting a field out of a number and putting
  fields next to each other with \<open>OR\<close>; and the driver's count of the bits of a word, \<^verbatim>\<open>bitcount\<close> of
  \<^verbatim>\<open>kl_util.h\<close>, which adds up ever longer fields in parallel.
\<close>

unbundle bit_operations_syntax

named_theorems kl_field \<open>reading and writing bit fields\<close>

lemma and_low_mask: "(x :: nat) AND (2 ^ n - 1) = x mod 2 ^ n"
  by (simp only: mask_eq_exp_minus_1 [symmetric] take_bit_eq_mask [symmetric] take_bit_eq_mod)

lemma and_masks [kl_field]:
  "(x :: nat) AND 1 = x mod 2" "(x :: nat) AND 0xf = x mod 16" "(x :: nat) AND 0x3f = x mod 64"
  "(x :: nat) AND 0xff = x mod 256" "(x :: nat) AND 0xfff = x mod 4096"
  "(x :: nat) AND 0xffff = x mod 65536" "(x :: nat) AND 0xffffffff = x mod 4294967296"
  using and_low_mask [of x 1] and_low_mask [of x 4] and_low_mask [of x 6] and_low_mask [of x 8]
    and_low_mask [of x 12] and_low_mask [of x 16] and_low_mask [of x 32]
  by simp_all

lemma or_disjoint:
  assumes "(x :: nat) < 2 ^ n"
  shows "push_bit n y OR x = y * 2 ^ n + x" and "x OR push_bit n y = y * 2 ^ n + x"
proof -
  have "push_bit n y AND x = 0"
  proof (rule bit_eqI)
    fix m show "bit (push_bit n y AND x) m = bit (0 :: nat) m"
    proof (cases "m < n")
      case True then show ?thesis by (simp add: bit_and_iff bit_push_bit_iff)
    next
      case False
      then have "x < 2 ^ m" using assms power_increasing [of n m "2 :: nat"] by linarith
      then have "\<not> bit x m" by (simp add: bit_iff_odd)
      then show ?thesis by (simp add: bit_and_iff)
    qed
  qed
  from disjunctive_add_eq_or [OF this] show 1: "push_bit n y OR x = y * 2 ^ n + x"
    by (simp add: push_bit_eq_mult)
  then show "x OR push_bit n y = y * 2 ^ n + x" by (simp only: or.commute)
qed

lemma field_high [kl_field]: "x < 2 ^ n \<Longrightarrow> (y * 2 ^ n + x) div 2 ^ n = (y :: nat)"
  by simp

lemma field_low [kl_field]: "x < 2 ^ n \<Longrightarrow> (y * 2 ^ n + x) mod 2 ^ n = (x :: nat)"
  by simp

lemma fields_bound: "x < 2 ^ n \<Longrightarrow> y < 2 ^ k \<Longrightarrow> y * 2 ^ n + x < (2 ^ (n + k) :: nat)"
proof -
  assume a: "x < 2 ^ n" "y < 2 ^ k"
  then have "y * 2 ^ n + x < (y + 1) * 2 ^ n" by (simp add: algebra_simps)
  also have "\<dots> \<le> 2 ^ k * 2 ^ n" using a(2) by (intro mult_le_mono1) simp
  finally show ?thesis by (simp add: power_add mult.commute)
qed

section \<open>Counting bits\<close>

definition bitcount :: "nat \<Rightarrow> nat" where
  "bitcount v0 =
     (let v = u32_sub v0 (drop_bit 1 v0 AND 0x55555555);
          v = u32 ((v AND 0x33333333) + (drop_bit 2 v AND 0x33333333))
      in drop_bit 24 (u32 ((u32 (v + drop_bit 4 v) AND 0x0F0F0F0F) * 0x01010101)))"

text \<open>A conjunction works on the low byte and on the rest.\<close>

lemma and_byte: "m < 256 \<Longrightarrow> (x :: nat) AND (m + 256 * y) = (x mod 256 AND m) + 256 * (x div 256 AND y)"
proof -
  assume m: "m < 256"
  let ?A = "x AND (m + 256 * y)"
  have "take_bit 8 ?A = x mod 256 AND m"
    using m by (simp only: take_bit_and) (simp add: take_bit_eq_mod)
  moreover have "drop_bit 8 ?A = x div 256 AND y"
    using m by (simp only: drop_bit_and) (simp add: drop_bit_eq_div)
  moreover have "?A = push_bit 8 (drop_bit 8 ?A) + take_bit 8 ?A"
    by (rule bits_ident [symmetric])
  ultimately show ?thesis by (simp add: push_bit_eq_mult mult.commute)
qed

text \<open>What the three steps do to one byte.\<close>

definition byte_pairs :: "nat \<Rightarrow> nat" where "byte_pairs a = a - (a div 2 AND 0x55)"
definition byte_nibbles :: "nat \<Rightarrow> nat" where
  "byte_nibbles a = (byte_pairs a AND 0x33) + (byte_pairs a div 4 AND 0x33)"
definition byte_count :: "nat \<Rightarrow> nat" where
  "byte_count a = (byte_nibbles a mod 16) + (byte_nibbles a div 16)"

primrec bits_of :: "nat \<Rightarrow> nat \<Rightarrow> nat" where
  "bits_of 0 v = 0"
| "bits_of (Suc n) v = v mod 2 + bits_of n (v div 2)"

lemma bits_of_numeral: "bits_of (numeral k) v = v mod 2 + bits_of (pred_numeral k) (v div 2)"
  by (simp add: numeral_eq_Suc)

definition byte_good :: "nat \<Rightarrow> bool" where
  "byte_good a \<longleftrightarrow> byte_count a = bits_of 8 a \<and> a div 2 AND 0x55 \<le> a \<and> byte_pairs a < 256 \<and>
     byte_nibbles a < 256 \<and> byte_nibbles a mod 16 \<le> 4 \<and> byte_nibbles a div 16 \<le> 4 \<and>
     (a div 2 + 128) AND 0x55 = a div 2 AND 0x55 \<and>
     (byte_pairs a div 4 + 64) AND 0x33 = byte_pairs a div 4 AND 0x33 \<and>
     (byte_pairs a div 4 + 128) AND 0x33 = byte_pairs a div 4 AND 0x33 \<and>
     (byte_pairs a div 4 + 192) AND 0x33 = byte_pairs a div 4 AND 0x33"

lemmas byte_eval = byte_good_def byte_count_def byte_nibbles_def byte_pairs_def bits_of_numeral

lemma all_bytes:
  assumes "a < 256"
  shows "byte_good a"
proof -
  have "list_all byte_good [2..<256]" by (simp add: upt_rec_numeral byte_eval)
  then have all: "\<forall>b\<in>{2..<256}. byte_good b" by (simp only: list_all_iff set_upt)
  have "byte_good 0" "byte_good 1" by (simp_all add: byte_eval)
  moreover have "a = 0 \<or> a = 1 \<or> a \<in> {2..<256}" using assms by (simp only: atLeastLessThan_iff) arith
  ultimately show ?thesis using all by blast
qed

lemma byteD:
  assumes "a < 256"
  shows "byte_count a = bits_of 8 a" "a div 2 AND 0x55 \<le> a" "byte_pairs a < 256"
    "byte_nibbles a < 256" "byte_nibbles a mod 16 \<le> 4" "byte_nibbles a div 16 \<le> 4"
    "k < 2 \<Longrightarrow> (a div 2 + 128 * k) AND 0x55 = a div 2 AND 0x55"
    "k < 4 \<Longrightarrow> (byte_pairs a div 4 + 64 * k) AND 0x33 = byte_pairs a div 4 AND 0x33"
proof -
  note g = all_bytes [OF assms, unfolded byte_good_def]
  show "byte_count a = bits_of 8 a" "a div 2 AND 0x55 \<le> a" "byte_pairs a < 256"
    "byte_nibbles a < 256" "byte_nibbles a mod 16 \<le> 4" "byte_nibbles a div 16 \<le> 4"
    using g by blast+
  show "(a div 2 + 128 * k) AND 0x55 = a div 2 AND 0x55" if "k < 2"
  proof -
    from that have "k = 0 \<or> k = 1" by linarith
    then show ?thesis using g by (elim disjE) simp_all
  qed
  show "(byte_pairs a div 4 + 64 * k) AND 0x33 = byte_pairs a div 4 AND 0x33" if "k < 4"
  proof -
    from that have "k = 0 \<or> k = 1 \<or> k = 2 \<or> k = 3" by linarith
    then show ?thesis using g by (elim disjE) simp_all
  qed
qed

lemma shift_byte:
  fixes a x :: nat
  assumes "a < 256"
  shows "(a + 256 * x) div 2 mod 256 = a div 2 + 128 * (x mod 2)" "(a + 256 * x) div 2 div 256 = x div 2"
    "(a + 256 * x) div 4 mod 256 = a div 4 + 64 * (x mod 4)" "(a + 256 * x) div 4 div 256 = x div 4"
    "(a + 256 * x) mod 256 = a" "(a + 256 * x) div 256 = x"
proof -
  have d: "(a + (128 * x) * 2) div 2 = 128 * x + a div 2" "(a + (64 * x) * 4) div 4 = 64 * x + a div 4"
    by (rule div_mult_self1; simp)+
  have s: "2 * (x div 2) + x mod 2 = x" "4 * (x div 4) + x mod 4 = x" by (rule mult_div_mod_eq)+
  have m: "a + (128 * x) * 2 = a + 256 * x" "a + (64 * x) * 4 = a + 256 * x" by simp_all
  have e: "(a + 256 * x) div 2 = (a div 2 + 128 * (x mod 2)) + 256 * (x div 2)"
      "(a + 256 * x) div 4 = (a div 4 + 64 * (x mod 4)) + 256 * (x div 4)"
    using d [unfolded m] s by linarith+
  have "x mod 2 \<le> 1" "x mod 4 \<le> 3" "a div 2 < 128" "a div 4 < 64" using assms by linarith+
  then have l: "a div 2 + 128 * (x mod 2) < 256" "a div 4 + 64 * (x mod 4) < 256" by linarith+
  have g: "(r + 256 * q) mod 256 = r" "(r + 256 * q) div 256 = q" if "r < 256" for r q :: nat
    using that by auto
  show "(a + 256 * x) div 2 mod 256 = a div 2 + 128 * (x mod 2)" "(a + 256 * x) div 2 div 256 = x div 2"
    "(a + 256 * x) div 4 mod 256 = a div 4 + 64 * (x mod 4)" "(a + 256 * x) div 4 div 256 = x div 4"
    "(a + 256 * x) mod 256 = a" "(a + 256 * x) div 256 = x"
    unfolding e by (rule g [OF l(1)] g [OF l(2)] g [OF assms])+
qed

text \<open>The three steps, byte by byte.\<close>

lemma and_le: "(x :: nat) AND y \<le> x"
  by (simp add: and_nat_def) (metis AND_upper1 of_nat_0_le_iff nat_int nat_mono)

lemma pairs_step:
  assumes "a < 256"
  shows "(a + 256 * x) - ((a + 256 * x) div 2 AND (0x55 + 256 * M)) = byte_pairs a + 256 * (x - (x div 2 AND M))"
    and "(a + 256 * x) div 2 AND (0x55 + 256 * M) \<le> a + 256 * x"
proof -
  have "x mod 2 < 2" by simp
  then have e: "(a + 256 * x) div 2 AND (0x55 + 256 * M) = (a div 2 AND 0x55) + 256 * (x div 2 AND M)"
    using and_byte [of 85 "(a + 256 * x) div 2" M] byteD(7) [OF assms, of "x mod 2"]
    unfolding shift_byte [OF assms] by simp
  have "x div 2 AND M \<le> x" using and_le [of "x div 2" M] by linarith
  then show "(a + 256 * x) - ((a + 256 * x) div 2 AND (0x55 + 256 * M)) = byte_pairs a + 256 * (x - (x div 2 AND M))"
    and "(a + 256 * x) div 2 AND (0x55 + 256 * M) \<le> a + 256 * x"
    unfolding e byte_pairs_def using byteD(2) [OF assms] by (simp_all add: diff_mult_distrib2)
qed

lemma nibbles_step:
  assumes "a < 256"
  shows "((byte_pairs a + 256 * y) AND (0x33 + 256 * M)) + ((byte_pairs a + 256 * y) div 4 AND (0x33 + 256 * M))
       = byte_nibbles a + 256 * ((y AND M) + (y div 4 AND M))"
proof -
  let ?p = "byte_pairs a"
  have p: "?p < 256" by (rule byteD(3) [OF assms])
  have 1: "(?p + 256 * y) AND (0x33 + 256 * M) = (?p AND 0x33) + 256 * (y AND M)"
    using and_byte [of 51 "?p + 256 * y" M] unfolding shift_byte [OF p] by simp
  have "y mod 4 < 4" by simp
  then have 2: "(?p + 256 * y) div 4 AND (0x33 + 256 * M) = (?p div 4 AND 0x33) + 256 * (y div 4 AND M)"
    using and_byte [of 51 "(?p + 256 * y) div 4" M] byteD(8) [OF assms, of "y mod 4"]
    unfolding shift_byte [OF p] by simp
  show ?thesis unfolding 1 2 byte_nibbles_def by (simp add: algebra_simps)
qed

text \<open>The four bytes of a 32 bit number.\<close>

definition bytes4 :: "nat \<Rightarrow> nat \<Rightarrow> nat \<Rightarrow> nat \<Rightarrow> nat" where
  "bytes4 a b c d = a + 256 * (b + 256 * (c + 256 * (d + 256 * 0)))"

lemma bytes4_ex: "v < 2 ^ 32 \<Longrightarrow> \<exists>a b c d. v = bytes4 a b c d \<and> a < 256 \<and> b < 256 \<and> c < 256 \<and> d < 256"
proof (intro exI conjI)
  assume v: "v < 2 ^ 32"
  show "v = bytes4 (v mod 256) (v div 256 mod 256) (v div 256 div 256 mod 256) (v div 256 div 256 div 256)"
    unfolding bytes4_def by (simp only: mult_0_right add_0_right mod_mult_div_eq)
  have "v div 256 < 16777216" using v by (simp add: less_mult_imp_div_less)
  then have "v div 256 div 256 < 65536" by (simp add: less_mult_imp_div_less)
  then show "v div 256 div 256 div 256 < 256" by (simp add: less_mult_imp_div_less)
qed simp_all

lemma bytes4_lt: "a < 256 \<Longrightarrow> b < 256 \<Longrightarrow> c < 256 \<Longrightarrow> d < 256 \<Longrightarrow> bytes4 a b c d < 2 ^ 32"
  by (simp add: bytes4_def)

lemma bits_of_split: "bits_of (n + m) v = bits_of n v + bits_of m (v div 2 ^ n)"
  by (induction n arbitrary: v) (simp_all add: div_mult2_eq)

lemma bits_of_low: "bits_of n (v + 2 ^ n * x) = bits_of n v"
proof (induction n arbitrary: v)
  case (Suc n)
  have e: "v + 2 ^ Suc n * x = v + (2 ^ n * x) * 2" by simp
  have "(v + 2 ^ Suc n * x) mod 2 = v mod 2" unfolding e by (rule mod_mult_self1)
  moreover have "(v + 2 ^ Suc n * x) div 2 = v div 2 + 2 ^ n * x"
    unfolding e by (subst div_mult_self1) simp_all
  ultimately show ?case using Suc by simp
qed simp

lemma bits_of_byte: "a < 256 \<Longrightarrow> bits_of (8 + m) (a + 256 * x) = bits_of 8 a + bits_of m x"
proof -
  assume a: "a < 256"
  have "bits_of (8 + m) (a + 256 * x) = bits_of 8 (a + 2 ^ 8 * x) + bits_of m ((a + 256 * x) div 2 ^ 8)"
    unfolding bits_of_split by simp
  then show ?thesis unfolding bits_of_low using shift_byte(6) [OF a, of x] by simp
qed

lemma bits_of_zero [simp]: "bits_of n 0 = 0"
  by (induction n) simp_all

lemma bits_of_bytes4:
  assumes "a < 256" "b < 256" "c < 256" "d < 256"
  shows "bits_of 32 (bytes4 a b c d) = bits_of 8 a + bits_of 8 b + bits_of 8 c + bits_of 8 d"
proof -
  have "bits_of (8 + (8 + (8 + (8 + 0)))) (bytes4 a b c d) = bits_of 8 a + (bits_of 8 b + (bits_of 8 c + (bits_of 8 d + 0)))"
    unfolding bytes4_def bits_of_byte [OF assms(1)] bits_of_byte [OF assms(2)] bits_of_byte [OF assms(3)]
      bits_of_byte [OF assms(4)] bits_of_zero ..
  moreover have "8 + (8 + (8 + (8 + 0))) = (32 :: nat)" by simp
  ultimately show ?thesis by (simp only: add.assoc add_0_right)
qed

lemma masks4: "(0x55555555 :: nat) = 0x55 + 256 * (0x55 + 256 * (0x55 + 256 * (0x55 + 256 * 0)))"
  "(0x33333333 :: nat) = 0x33 + 256 * (0x33 + 256 * (0x33 + 256 * (0x33 + 256 * 0)))"
  "(0x0F0F0F0F :: nat) = 0x0F + 256 * (0x0F + 256 * (0x0F + 256 * (0x0F + 256 * 0)))"
  by simp_all

lemma bitcount_pairs:
  assumes "a < 256" "b < 256" "c < 256" "d < 256"
  shows "u32_sub (bytes4 a b c d) (drop_bit 1 (bytes4 a b c d) AND 0x55555555)
       = bytes4 (byte_pairs a) (byte_pairs b) (byte_pairs c) (byte_pairs d)"
proof -
  let ?v = "bytes4 a b c d"
  have "?v div 2 AND 0x55555555 \<le> ?v"
    unfolding masks4 bytes4_def by (rule pairs_step(2) [OF assms(1)])
  then have "u32_sub ?v (drop_bit 1 ?v AND 0x55555555) = ?v - (?v div 2 AND 0x55555555)"
    using bytes4_lt [OF assms] by (simp add: u32_sub_le drop_bit_eq_div)
  also have "\<dots> = bytes4 (byte_pairs a) (byte_pairs b) (byte_pairs c) (byte_pairs d)"
    unfolding masks4 bytes4_def pairs_step(1) [OF assms(1)] pairs_step(1) [OF assms(2)]
      pairs_step(1) [OF assms(3)] pairs_step(1) [OF assms(4)] by simp
  finally show ?thesis .
qed

lemma bitcount_nibbles:
  assumes "a < 256" "b < 256" "c < 256" "d < 256"
  defines "p \<equiv> bytes4 (byte_pairs a) (byte_pairs b) (byte_pairs c) (byte_pairs d)"
  shows "u32 ((p AND 0x33333333) + (drop_bit 2 p AND 0x33333333))
       = bytes4 (byte_nibbles a) (byte_nibbles b) (byte_nibbles c) (byte_nibbles d)"
proof -
  have "(p AND 0x33333333) + (p div 4 AND 0x33333333)
       = bytes4 (byte_nibbles a) (byte_nibbles b) (byte_nibbles c) (byte_nibbles d)"
    unfolding masks4 p_def bytes4_def nibbles_step [OF assms(1)] nibbles_step [OF assms(2)]
      nibbles_step [OF assms(3)] nibbles_step [OF assms(4)] by simp
  then show ?thesis
    using bytes4_lt byteD(4) assms by (simp add: drop_bit_eq_div u32_id)
qed

lemma mask_step: "(s :: nat) < 256 \<Longrightarrow> (s + 256 * z) AND (0x0F + 256 * M) = s mod 16 + 256 * (z AND M)"
  using and_byte [of 15 "s + 256 * z" M] shift_byte(5,6) [of s z] by (simp add: and_masks)

lemma bitcount_bytes:
  assumes n: "l0 \<le> 4" "l1 \<le> 4" "l2 \<le> 4" "l3 \<le> 4" "h0 \<le> 4" "h1 \<le> 4" "h2 \<le> 4" "h3 \<le> 4"
  defines "v \<equiv> bytes4 (l0 + 16 * h0) (l1 + 16 * h1) (l2 + 16 * h2) (l3 + 16 * h3)"
  shows "u32 (v + drop_bit 4 v) AND 0x0F0F0F0F = bytes4 (l0 + h0) (l1 + h1) (l2 + h2) (l3 + h3)"
proof -
  let ?q = "h0 + 16 * (l1 + 16 * h1 + 256 * (l2 + 16 * h2 + 256 * (l3 + 16 * h3)))"
  have e: "v = l0 + ?q * 16" by (simp add: v_def bytes4_def algebra_simps)
  have "v div 16 = ?q + l0 div 16" unfolding e by (rule div_mult_self1) simp
  then have d: "drop_bit 4 v = ?q" using n by (simp add: drop_bit_eq_div)
  let ?s = "bytes4 (l0 + h0 + 16 * (h0 + l1)) (l1 + h1 + 16 * (h1 + l2)) (l2 + h2 + 16 * (h2 + l3)) (l3 + h3 + 16 * h3)"
  have s: "v + drop_bit 4 v = ?s" unfolding d unfolding v_def bytes4_def by (simp add: algebra_simps)
  have lt: "l0 + h0 + 16 * (h0 + l1) < 256" "l1 + h1 + 16 * (h1 + l2) < 256" "l2 + h2 + 16 * (h2 + l3) < 256"
      "l3 + h3 + 16 * h3 < 256"
    using n by simp_all
  have m: "(x + 16 * y) mod 16 = x" if "x \<le> 8" for x y :: nat using that by simp
  have n8: "l0 + h0 \<le> 8" "l1 + h1 \<le> 8" "l2 + h2 \<le> 8" "l3 + h3 \<le> 8" using n by simp_all
  have "u32 (v + drop_bit 4 v) = ?s" unfolding s by (rule u32_id [OF bytes4_lt [OF lt]])
  also have "?s AND 0x0F0F0F0F = bytes4 (l0 + h0) (l1 + h1) (l2 + h2) (l3 + h3)"
    unfolding masks4 bytes4_def mask_step [OF lt(1)] mask_step [OF lt(2)] mask_step [OF lt(3)]
      mask_step [OF lt(4)] m [OF n8(1)] m [OF n8(2)] m [OF n8(3)] m [OF n8(4)] by simp
  finally show ?thesis .
qed

lemma bitcount_sum:
  assumes "a \<le> 8" "b \<le> 8" "c \<le> 8" "d \<le> 8"
  shows "drop_bit 24 (u32 (bytes4 a b c d * 0x01010101)) = a + b + c + d"
proof -
  let ?low = "a + 256 * (a + b) + 65536 * (a + b + c)" and ?hi = "(b + c + d) + 256 * (c + d) + 65536 * d"
  have e: "bytes4 a b c d * 0x01010101 = (?low + (a + b + c + d) * 2 ^ 24) + ?hi * 2 ^ 32"
    by (simp add: bytes4_def algebra_simps)
  have l: "?low < 2 ^ 24" using assms by simp
  have m: "?low + (a + b + c + d) * 2 ^ 24 < 2 ^ 32" using assms by simp
  have "u32 (bytes4 a b c d * 0x01010101) = ?low + (a + b + c + d) * 2 ^ 24"
    unfolding e u32_def using m by (simp only: mod_mult_self1 mod_less)
  moreover have "(?low + (a + b + c + d) * 2 ^ 24) div 2 ^ 24 = (a + b + c + d) + ?low div 2 ^ 24"
    by (rule div_mult_self1) simp
  ultimately show ?thesis using l by (simp add: drop_bit_eq_div)
qed

lemma bitcount_eq: "v < 2 ^ 32 \<Longrightarrow> bitcount v = bits_of 32 v"
proof -
  assume "v < 2 ^ 32"
  then obtain a b c d where v: "v = bytes4 a b c d" and lt: "a < 256" "b < 256" "c < 256" "d < 256"
    using bytes4_ex by blast
  let ?l = "\<lambda>x. byte_nibbles x mod 16" and ?h = "\<lambda>x. byte_nibbles x div 16"
  have sp: "byte_nibbles x = ?l x + 16 * ?h x" for x by (simp only: mod_mult_div_eq)
  have n: "?l a \<le> 4" "?l b \<le> 4" "?l c \<le> 4" "?l d \<le> 4" "?h a \<le> 4" "?h b \<le> 4" "?h c \<le> 4" "?h d \<le> 4"
    using lt byteD(5,6) by blast+
  have "bitcount v = drop_bit 24 (u32 ((u32 (bytes4 (byte_nibbles a) (byte_nibbles b) (byte_nibbles c) (byte_nibbles d) +
      drop_bit 4 (bytes4 (byte_nibbles a) (byte_nibbles b) (byte_nibbles c) (byte_nibbles d))) AND 0x0F0F0F0F) * 0x01010101))"
    unfolding bitcount_def Let_def v bitcount_pairs [OF lt] bitcount_nibbles [OF lt] ..
  also have "\<dots> = drop_bit 24 (u32 (bytes4 (?l a + ?h a) (?l b + ?h b) (?l c + ?h c) (?l d + ?h d) * 0x01010101))"
    by (subst (1 2 3 4 5 6 7 8) sp) (simp only: bitcount_bytes [OF n])
  also have "\<dots> = (?l a + ?h a) + (?l b + ?h b) + (?l c + ?h c) + (?l d + ?h d)"
    by (rule bitcount_sum) (use n in linarith)+
  also have "\<dots> = bits_of 32 v"
    unfolding v bits_of_bytes4 [OF lt] using byteD(1) lt by (simp only: byte_count_def)
  finally show ?thesis .
qed

lemma bits_of_card: "bits_of n v = card {i. i < n \<and> bit v i}"
proof (induction n arbitrary: v)
  case (Suc n)
  have "{i. i < Suc n \<and> bit v i} = (if odd v then {0} else {}) \<union> Suc ` {i. i < n \<and> bit (v div 2) i}"
    by (auto simp: bit_Suc less_Suc_eq_0_disj bit_0 split: if_splits)
  moreover have "card (Suc ` {i. i < n \<and> bit (v div 2) i}) = bits_of n (v div 2)"
    using Suc by (simp add: card_image)
  ultimately show ?case by (auto simp: card_Un_disjoint mod2_eq_if image_iff)
qed simp

text \<open>
  C34: the parallel bit count. For every 32 bit number, \<^verbatim>\<open>bitcount\<close> returns the number of its set
  bits, the same as the loop that adds up the bits one by one: no partial sum overflows its field
  and the multiplication that adds the bytes loses nothing.
\<close>

theorem bitcount_correct:
  assumes "v < 2 ^ 32"
  shows "bitcount v = card {i. i < 32 \<and> bit v i} \<and> bitcount v = bits_of 32 v"
  using bitcount_eq [OF assms] bits_of_card [where n = 32 and v = v] by simp

lemma bitcount_correct_witness: "bitcount 0xfff = 12 \<and> card {i. i < 32 \<and> bit (0xfff :: nat) i} = 12"
  using bitcount_correct [where v = "0xfff"] by (simp add: bits_of_numeral)

end
