(* ===== verification/Kl2_Vf_Props.thy ===== *)
theory Kl2_Vf_Props
  imports Kl2_Spec_Props Kl_Bits
begin

text \<open>
  Virtual functions are kept apart: the registers \<^verbatim>\<open>kl2_config_vmu\<close> writes give each of them a slice
  of every memory channel, the slices do not overlap, they lie inside the channel, and each holds
  exactly the memory that the table of the virtual function describes; and the DMA channels,
  clusters, SDNN units, hardware queues and codecs of \<^verbatim>\<open>kl2_df_spec\<close> do not exceed those of the device.
\<close>

section \<open>Reading a page register\<close>

text \<open>The layout that \<^verbatim>\<open>kl2_set_vf_page\<close> states: the enable flag in bit 31, start in 27:16, end in 11:0.\<close>

definition page_enabled :: "nat \<Rightarrow> bool" where "page_enabled v = bit v 31"
definition page_start :: "nat \<Rightarrow> nat" where "page_start v = v div 2 ^ 16 mod 2 ^ 12"
definition page_end :: "nat \<Rightarrow> nat" where "page_end v = v mod 2 ^ 12"

lemma vf_page_eq:
  assumes "a < 2 ^ 12" "b < 2 ^ 12"
  shows "vf_page a b = 2 ^ 31 + (a * 2 ^ 16 + b)"
proof -
  have b: "b < 2 ^ 16" using assms by simp
  have l: "a * 2 ^ 16 + b < 2 ^ 31" using assms by simp
  have "vf_page a b = u32 (push_bit 31 1 OR (push_bit 16 a OR b))"
    using assms by (simp add: vf_page_def or.assoc and_masks)
  also have "\<dots> = u32 (2 ^ 31 + (a * 2 ^ 16 + b))"
    unfolding or_disjoint(1) [OF b] or_disjoint(1) [OF l] by simp
  also have "\<dots> = 2 ^ 31 + (a * 2 ^ 16 + b)" using l by (intro u32_id) simp
  finally show ?thesis .
qed

lemma vf_page_fields:
  assumes "a < 2 ^ 12" "b < 2 ^ 12"
  shows "page_enabled (vf_page a b) \<and> page_start (vf_page a b) = a \<and> page_end (vf_page a b) = b"
proof -
  have l: "a * 2 ^ 16 + b < 2 ^ 31" using assms by simp
  have "(2 ^ 31 + (a * 2 ^ 16 + b)) div 2 ^ 31 = 1" using l by (intro div_nat_eqI) auto
  then have "page_enabled (2 ^ 31 + (a * 2 ^ 16 + b))" by (simp add: page_enabled_def bit_iff_odd)
  moreover have "(2 ^ 31 + (a * 2 ^ 16 + b)) div 2 ^ 16 = 2 ^ 15 + a"
    using assms by (intro div_nat_eqI) auto
  then have "page_start (2 ^ 31 + (a * 2 ^ 16 + b)) = (a + 8 * 2 ^ 12) mod 2 ^ 12"
    by (simp add: page_start_def add.commute)
  moreover have "(a + 8 * 2 ^ 12) mod 2 ^ 12 = a"
    unfolding mod_mult_self1 using assms(1) by (rule mod_less)
  moreover have "page_end (2 ^ 31 + (a * 2 ^ 16 + b)) = b"
  proof -
    have "2 ^ 31 + (a * 2 ^ 16 + b) = b + (2 ^ 19 + a * 16) * 2 ^ 12" by simp
    then show ?thesis unfolding page_end_def using assms(2) by (simp only: mod_mult_self1 mod_less)
  qed
  ultimately show ?thesis unfolding vf_page_eq [OF assms] by simp
qed

section \<open>Shares of memory\<close>

text \<open>
  \<open>whole\<close> is the table of the device, \<open>info\<close> that of one of \<open>n\<close> virtual functions. Range 0 of a
  table is the GDDR memory and range 1 the L3 memory; both are spread over 8 channels.
\<close>

definition share_ok :: "kl_mm_info \<Rightarrow> nat \<Rightarrow> kl_mm_info \<Rightarrow> bool" where
  "share_ok whole n info \<longleftrightarrow>
     (\<forall>k<2. \<exists>g. 0 < g \<and> g * n \<le> 2 ^ 12 \<and> rg_size (nfo_user_dma_range info ! k) = g * 2 ^ 23 \<and>
            g * n * 2 ^ 23 \<le> rg_size (nfo_user_dma_range whole ! k))"

definition share :: "kl_mm_info \<Rightarrow> nat \<Rightarrow> nat" where
  "share info k = rg_size (nfo_user_dma_range info ! k) div 2 ^ 23"

lemma share_okI:
  assumes "rg_size (nfo_user_dma_range info ! 0) = g * 2 ^ 23" "0 < g" "g * n \<le> 2 ^ 12"
    "g * n * 2 ^ 23 \<le> rg_size (nfo_user_dma_range whole ! 0)"
    "rg_size (nfo_user_dma_range info ! 1) = l * 2 ^ 23" "0 < l" "l * n \<le> 2 ^ 12"
    "l * n * 2 ^ 23 \<le> rg_size (nfo_user_dma_range whole ! 1)"
  shows "share_ok whole n info"
  using assms by (auto simp: share_ok_def less_2_cases_iff)

lemmas share_simps = region_tables mem_range_def

lemma shares_16g:
  "share_ok kl_mm_info_eccoff_16g 1 kl_mm_info_eccoff_16g" "share_ok kl_mm_info_eccon_16g 1 kl_mm_info_eccon_16g"
  "share_ok kl_mm_info_eccoff_16g 2 kl_mm_info_eccoff_16g_2vf" "share_ok kl_mm_info_eccon_16g 2 kl_mm_info_eccon_16g_2vf"
  "share_ok kl_mm_info_eccoff_16g 3 kl_mm_info_eccoff_16g_3vf" "share_ok kl_mm_info_eccon_16g 3 kl_mm_info_eccon_16g_3vf"
  by (rule share_okI [of _ 2048 _ _ 8] share_okI [of _ 1792 _ _ 8] share_okI [of _ 1024 _ _ 4]
        share_okI [of _ 896 _ _ 4] share_okI [of _ 682 _ _ 2] share_okI [of _ 597 _ _ 2]; simp add: share_simps; fail)+

lemma shares_32g:
  "share_ok kl_mm_info_eccoff_32g 1 kl_mm_info_eccoff_32g" "share_ok kl_mm_info_eccon_32g 1 kl_mm_info_eccon_32g"
  "share_ok kl_mm_info_eccoff_32g 2 kl_mm_info_eccoff_32g_2vf" "share_ok kl_mm_info_eccon_32g 2 kl_mm_info_eccon_32g_2vf"
  "share_ok kl_mm_info_eccoff_32g 3 kl_mm_info_eccoff_32g_3vf" "share_ok kl_mm_info_eccon_32g 3 kl_mm_info_eccon_32g_3vf"
  by (rule share_okI [of _ 4096 _ _ 8] share_okI [of _ 3584 _ _ 8] share_okI [of _ 2048 _ _ 4]
        share_okI [of _ 1792 _ _ 4] share_okI [of _ 1365 _ _ 2] share_okI [of _ 1194 _ _ 2]; simp add: share_simps; fail)+

text \<open>The tables of the R300 board differ in their ranges for the CCIX links only.\<close>

lemma shares_r300:
  "share_ok w n i \<Longrightarrow> nfo_user_dma_range w ! 0 = nfo_user_dma_range w' ! 0 \<Longrightarrow>
   nfo_user_dma_range w ! 1 = nfo_user_dma_range w' ! 1 \<Longrightarrow> share_ok w' n i"
  by (auto simp: share_ok_def less_2_cases_iff)

text \<open>The boards \<^verbatim>\<open>kl2_pci_sriov_configure\<close> shares, and how they report themselves.\<close>

definition sriov_board :: "kl2_conf \<Rightarrow> bool" where
  "sriov_board c \<longleftrightarrow>
     cf_nchannel c = 8 \<and>
     (cf_board c = KL2_BOARD_ID_R200 \<and> \<not> cf_ddr_x8 c \<or> cf_board c = KL2_BOARD_ID_R300 \<or>
      cf_board c = KL2_BOARD_ID_R200_8F \<or> cf_board c = KL2_BOARD_ID_R200_8FS \<or>
      cf_board c = KL2_BOARD_ID_RG800 \<or> cf_board c = KL2_BOARD_ID_RG800_PRO)"

text \<open>The same device as its unshared function and as virtual function \<open>i\<close> of \<open>n\<close> see it.\<close>

definition unshared :: "kl2_conf \<Rightarrow> kl2_conf" where
  "unshared c = c\<lparr>cf_sriov_conf := KL2_SRIOV_CONF_ID_SRIOV_OFF, cf_sriov_func_id := KL2_SRIOV_FUNC_ID_SRIOV_OFF\<rparr>"

definition virtual_fn :: "kl2_conf \<Rightarrow> nat \<Rightarrow> nat \<Rightarrow> kl2_conf" where
  "virtual_fn c n i = c\<lparr>cf_sriov_conf := KL2_SRIOV_CONF_ID_1VF + int n - 1,
                        cf_sriov_func_id := KL2_SRIOV_FUNC_ID_VF_0 + int i\<rparr>"

lemma n_cases: "0 < n \<Longrightarrow> n \<le> 3 \<Longrightarrow> n = 1 \<or> n = 2 \<or> n = (3 :: nat)"
  by linarith

lemma i_cases: "i < n \<Longrightarrow> n \<le> 3 \<Longrightarrow> i = 0 \<or> i = 1 \<or> i = (2 :: nat)"
  by linarith

lemmas choose_simps = kl_vf_mm_info_general_fn_def kl_mm_info_general_fn_def unshared_def virtual_fn_def
  Let_def table_at_def

lemma share_tables_16g:
  assumes b: "cf_nchannel c = 8" "cf_board c = KL2_BOARD_ID_R200" "\<not> cf_ddr_x8 c" and n: "0 < n" "n \<le> 3"
    and v: "cf_num_vfs c = int n"
  shows "\<exists>whole info. kl_mm_info_general_fn (unshared c) = Some (Some whole) \<and>
           kl_vf_mm_info_general_fn c = Some (Some info) \<and> share_ok whole n info \<and>
           (\<forall>i<n. kl_mm_info_general_fn (virtual_fn c n i) = Some (Some info))"
proof -
  have all: "kl_mm_info_general_fn (unshared c) = kl2_get_sriov_mm_info_16g 1 1 (cf_ecc_on c)"
    "kl_vf_mm_info_general_fn c = kl2_get_sriov_mm_info_16g (1 + int n) 3 (cf_ecc_on c)"
    "kl_mm_info_general_fn (virtual_fn c n i) = kl2_get_sriov_mm_info_16g (1 + int n) (3 + int i) (cf_ecc_on c)" for i
    using b v by (simp_all add: choose_simps)
  from n_cases [OF n] show ?thesis
    unfolding all using shares_16g
    by (elim disjE; cases "cf_ecc_on c")
       (auto simp: kl2_get_sriov_mm_info_16g_def table_at_def less_2_cases_iff less_Suc_eq numeral_3_eq_3)
qed

lemma share_tables_32g:
  assumes b: "cf_nchannel c = 8" "cf_board c \<in> {KL2_BOARD_ID_R200_8F, KL2_BOARD_ID_R200_8FS,
      KL2_BOARD_ID_RG800, KL2_BOARD_ID_RG800_PRO}" and n: "0 < n" "n \<le> 3"
    and v: "cf_num_vfs c = int n"
  shows "\<exists>whole info. kl_mm_info_general_fn (unshared c) = Some (Some whole) \<and>
           kl_vf_mm_info_general_fn c = Some (Some info) \<and> share_ok whole n info \<and>
           (\<forall>i<n. kl_mm_info_general_fn (virtual_fn c n i) = Some (Some info))"
proof -
  have all: "kl_mm_info_general_fn (unshared c) = kl2_get_sriov_mm_info_32g 1 1 (cf_ecc_on c)"
    "kl_vf_mm_info_general_fn c = kl2_get_sriov_mm_info_32g (1 + int n) 3 (cf_ecc_on c)"
    "kl_mm_info_general_fn (virtual_fn c n i) = kl2_get_sriov_mm_info_32g (1 + int n) (3 + int i) (cf_ecc_on c)" for i
    using b v by (auto simp: choose_simps)
  from n_cases [OF n] show ?thesis
    unfolding all using shares_32g
    by (elim disjE; cases "cf_ecc_on c")
       (auto simp: kl2_get_sriov_mm_info_32g_def table_at_def less_2_cases_iff less_Suc_eq numeral_3_eq_3)
qed

lemma share_tables_r300:
  assumes b: "cf_nchannel c = 8" "cf_board c = KL2_BOARD_ID_R300" and n: "0 < n" "n \<le> 3"
    and v: "cf_num_vfs c = int n"
  shows "\<exists>whole info. kl_mm_info_general_fn (unshared c) = Some (Some whole) \<and>
           kl_vf_mm_info_general_fn c = Some (Some info) \<and> share_ok whole n info \<and>
           (\<forall>i<n. kl_mm_info_general_fn (virtual_fn c n i) = Some (Some info))"
proof -
  have all: "kl_mm_info_general_fn (unshared c) = kl2_get_sriov_mm_info_32g_r300 1 1 (cf_ecc_on c)"
    "kl_vf_mm_info_general_fn c = kl2_get_sriov_mm_info_32g_r300 (1 + int n) 3 (cf_ecc_on c)"
    "kl_mm_info_general_fn (virtual_fn c n i) = kl2_get_sriov_mm_info_32g_r300 (1 + int n) (3 + int i) (cf_ecc_on c)" for i
    using b v by (simp_all add: choose_simps)
  have r: "nfo_user_dma_range kl_mm_info_eccoff_32g ! k = nfo_user_dma_range kl_mm_info_eccoff_32g_r300 ! k"
    "nfo_user_dma_range kl_mm_info_eccon_32g ! k = nfo_user_dma_range kl_mm_info_eccon_32g_r300 ! k" if "k < 2" for k
    using that by (auto simp: share_simps less_2_cases_iff)
  note sh = shares_32g(1,3,5) [THEN shares_r300, of kl_mm_info_eccoff_32g_r300]
    shares_32g(2,4,6) [THEN shares_r300, of kl_mm_info_eccon_32g_r300]
  from n_cases [OF n] show ?thesis
    unfolding all using sh r [of 0] r [of 1]
    by (elim disjE; cases "cf_ecc_on c")
       (auto simp: kl2_get_sriov_mm_info_32g_r300_def table_at_def less_2_cases_iff less_Suc_eq numeral_3_eq_3)
qed

lemma share_tables:
  assumes b: "sriov_board c" and n: "0 < n" "n \<le> 3" and v: "cf_num_vfs c = int n"
  shows "\<exists>whole info. kl_mm_info_general_fn (unshared c) = Some (Some whole) \<and>
           kl_vf_mm_info_general_fn c = Some (Some info) \<and> share_ok whole n info \<and>
           (\<forall>i<n. kl_mm_info_general_fn (virtual_fn c n i) = Some (Some info))"
proof -
  from b consider "cf_board c = KL2_BOARD_ID_R200" "\<not> cf_ddr_x8 c" | "cf_board c = KL2_BOARD_ID_R300"
    | "cf_board c \<in> {KL2_BOARD_ID_R200_8F, KL2_BOARD_ID_R200_8FS, KL2_BOARD_ID_RG800, KL2_BOARD_ID_RG800_PRO}"
    by (auto simp: sriov_board_def)
  moreover have "cf_nchannel c = 8" using b by (simp add: sriov_board_def)
  ultimately show ?thesis
    using share_tables_16g [OF _ _ _ n v] share_tables_r300 [OF _ _ n v] share_tables_32g [OF _ _ n v]
    by cases simp_all
qed

section \<open>The registers\<close>

text \<open>The last value written to a register, and the page register of virtual function \<open>i\<close> for GDDR (0) and L3 (1).\<close>

definition reg_value :: "reg_writes \<Rightarrow> nat \<Rightarrow> nat option" where
  "reg_value ws a = map_of (rev ws) a"

definition page_reg :: "nat \<Rightarrow> nat \<Rightarrow> nat" where
  "page_reg k i = (if k = 0 then KL2_REG_VMUGDDR_BAR2_BASE else KL2_REG_VMUL3_BAR2_BASE) + 0x0020 + i * 0x4"

lemmas vmu_regs = KL2_REG_VMUGDDR_BAR2_BASE_def KL2_REG_VMUL3_BAR2_BASE_def KL2_REG_VMUL3RO_BAR2_BASE_def

lemma vf_pages_value:
  assumes n: "0 < n" "n \<le> 3" "i < n"
  shows "reg_value (ws @ vf_pages g l n) (page_reg 0 i) = Some (vf_page (g * i) (u64_sub (g * (i + 1)) 1))"
    and "reg_value (ws @ vf_pages g l n) (page_reg 1 i) = Some (vf_page (l * i) (u64_sub (l * (i + 1)) 1))"
proof -
  have u: "[0..<3] = [0, 1, 2]" "[0..<2] = [0, 1]" "[0..<1] = [0]"
    by (simp_all add: upt_rec)
  have "reg_value (ws @ vf_pages g l n) (page_reg 0 i) = Some (vf_page (g * i) (u64_sub (g * (i + 1)) 1)) \<and>
        reg_value (ws @ vf_pages g l n) (page_reg 1 i) = Some (vf_page (l * i) (u64_sub (l * (i + 1)) 1))"
    using n_cases [OF n(1,2)] i_cases [OF n(3,2)] n(3)
    by (elim disjE) (simp_all add: reg_value_def page_reg_def vf_pages_def kl2_set_vf_page_def Let_def u
        xpu_mem_kinds vmu_regs mult.commute)
  then show "reg_value (ws @ vf_pages g l n) (page_reg 0 i) = Some (vf_page (g * i) (u64_sub (g * (i + 1)) 1))"
    and "reg_value (ws @ vf_pages g l n) (page_reg 1 i) = Some (vf_page (l * i) (u64_sub (l * (i + 1)) 1))"
    by blast+
qed

lemma page_of_share:
  assumes "g * n \<le> 2 ^ 12" "i < n" "0 < g"
  defines "v \<equiv> vf_page (g * i) (u64_sub (g * (i + 1)) 1)"
  shows "page_enabled v" "page_start v = g * i" "page_end v + 1 = g * (i + 1)"
proof -
  have le: "g * (i + 1) \<le> 2 ^ 12" using assms(1,2) le_trans [OF mult_le_mono2 [of "i + 1" n g]] by simp
  have pos: "g * i < g * (i + 1)" using assms(3) by simp
  have lt: "g * i < 2 ^ 12" using le_trans [OF Suc_leI [OF pos] le] by simp
  have e: "u64_sub (g * (i + 1)) 1 = g * (i + 1) - 1" using le pos by (intro u64_sub_le) auto
  have lt2: "g * (i + 1) - 1 < 2 ^ 12" using le pos by linarith
  note f = vf_page_fields [OF lt lt2, folded e, folded v_def]
  show "page_enabled v" "page_start v = g * i" using f by blast+
  have "page_end v = g * (i + 1) - 1" using f unfolding e by blast
  then show "page_end v + 1 = g * (i + 1)" using pos by linarith
qed

lemma config_vmu_pages:
  assumes sp: "sp_valid spec" "sp_kl_vf_mm_info_fn spec = Some kl_vf_mm_info_general_fn"
    and info: "kl_vf_mm_info_general_fn c = Some (Some info)" and n: "0 < n"
    and g: "rg_size (nfo_user_dma_range info ! 0) = g * 2 ^ 23" "rg_size (nfo_user_dma_range info ! 1) = l * 2 ^ 23"
  shows "\<exists>ws. kl2_config_vmu spec c n = Some (ws @ vf_pages g l n)"
proof -
  have d: "(x * 2 ^ 23) div 2 ^ 20 div 8 = x" for x :: nat
  proof -
    have "(x * 2 ^ 23) div 2 ^ 20 div 8 = (x * 2 ^ 23) div (2 ^ 20 * 8)" by (rule div_mult2_eq [symmetric])
    also have "\<dots> = x" by simp
    finally show ?thesis .
  qed
  show ?thesis using sp info n
    unfolding kl2_config_vmu_def kl2_get_vf_mm_info_def Let_def by (simp add: g [unfolded One_nat_def] d [simplified])
qed

section \<open>Resources\<close>

definition vf_row :: "nat \<Rightarrow> nat \<Rightarrow> spec_id_kl2" where
  "vf_row n i =
     (if n = 1 then SPEC_ID_KL2_GENERAL_SRIOV_1VF_0
      else if n = 2 then (if i = 0 then SPEC_ID_KL2_GENERAL_SRIOV_2VF_0 else SPEC_ID_KL2_GENERAL_SRIOV_2VF_1)
      else if i = 0 then SPEC_ID_KL2_GENERAL_SRIOV_3VF_0
      else if i = 1 then SPEC_ID_KL2_GENERAL_SRIOV_3VF_1 else SPEC_ID_KL2_GENERAL_SRIOV_3VF_2)"

lemma vf_spec_row:
  assumes "0 < n" "n \<le> 3" "i < n" "sriov_board c"
  shows "kl2_get_df_spec (virtual_fn c n i) old = (None, kl2_df_spec_table (vf_row n i))"
proof -
  have b: "cf_board c \<noteq> 1" "cf_board c \<noteq> 7" "cf_board c \<noteq> 10" using assms(4) by (auto simp: sriov_board_def)
  have v: "sp_valid (kl2_df_spec_table (vf_row n i))" by (simp add: vf_row_def kl2_df_spec_table_def df_spec_row_def)
  show ?thesis
    using n_cases [OF assms(1,2)] i_cases [OF assms(3,2)] assms(3) b v
    by (elim disjE) (simp_all add: kl2_get_df_spec_def virtual_fn_def kl2_df_spec_mapping_def vf_row_def)
qed

lemma vf_row_channels:
  assumes "n \<le> 3" "i < n"
  shows "sp_dmach_bits (kl2_df_spec_table (vf_row n i)) AND
           sp_dmach_bits (kl2_df_spec_table SPEC_ID_KL2_GENERAL_SRIOV_PF) = 0"
    and "j < i \<Longrightarrow> sp_dmach_bits (kl2_df_spec_table (vf_row n j)) AND
           sp_dmach_bits (kl2_df_spec_table (vf_row n i)) = 0"
proof -
  have "n = 1 \<and> i = 0 \<or> n = 2 \<and> i = 0 \<or> n = 2 \<and> i = 1 \<or> n = 3 \<and> i = 0 \<or> n = 3 \<and> i = 1 \<or> n = 3 \<and> i = 2"
    using assms by linarith
  then show "sp_dmach_bits (kl2_df_spec_table (vf_row n i)) AND
           sp_dmach_bits (kl2_df_spec_table SPEC_ID_KL2_GENERAL_SRIOV_PF) = 0"
    by (elim disjE) (simp_all add: vf_row_def kl2_df_spec_table_def df_spec_row_def)
  show "sp_dmach_bits (kl2_df_spec_table (vf_row n j)) AND
           sp_dmach_bits (kl2_df_spec_table (vf_row n i)) = 0" if "j < i"
  proof -
    have "n = 2 \<and> i = 1 \<and> j = 0 \<or> n = 3 \<and> i = 1 \<and> j = 0 \<or> n = 3 \<and> i = 2 \<and> j = 0 \<or> n = 3 \<and> i = 2 \<and> j = 1"
      using assms that by linarith
    then show ?thesis
      by (elim disjE) (simp_all add: vf_row_def kl2_df_spec_table_def df_spec_row_def)
  qed
qed

text \<open>The units are numbered from 0, so the count of a mask decides which units it names.\<close>

lemma unit_counts:
  "bitcount 0 = 0" "bitcount 1 = 1" "bitcount 3 = 2" "bitcount 7 = 3" "bitcount 0xf = 4" "bitcount 0x3f = 6"
  "bitcount 0xff = 8" "bitcount 0x1ff = 9" "bitcount 0xfff = 12"
  by (simp_all add: bitcount_eq bits_of_numeral)

definition unit_masks :: "(kl2_df_spec \<Rightarrow> nat) list" where
  "unit_masks = [sp_hwq_bits, sp_cl_bits, sp_sdnn_bits, sp_enc_bits, sp_dec_bits, sp_imgproc_bits]"

lemma vf_row_units:
  assumes "n \<le> 3" "i < n" "f \<in> set unit_masks"
  shows "n * bitcount (f (kl2_df_spec_table (vf_row n i))) \<le> bitcount (f (kl2_df_spec_table SPEC_ID_KL2_GENERAL))"
proof -
  have "n = 1 \<and> i = 0 \<or> n = 2 \<and> i = 0 \<or> n = 2 \<and> i = 1 \<or> n = 3 \<and> i = 0 \<or> n = 3 \<and> i = 1 \<or> n = 3 \<and> i = 2"
    using assms by linarith
  moreover have "f = sp_hwq_bits \<or> f = sp_cl_bits \<or> f = sp_sdnn_bits \<or> f = sp_enc_bits \<or> f = sp_dec_bits \<or>
      f = sp_imgproc_bits"
    using assms(3) by (simp add: unit_masks_def)
  ultimately show ?thesis
    by (elim disjE conjE; simp add: vf_row_def kl2_df_spec_table_def df_spec_row_def unit_counts [simplified])
qed

section \<open>The property\<close>

text \<open>What the pages of a channel promise for range \<open>k\<close>: slices in order, each of the size of the table.\<close>

definition slices_ok :: "reg_writes \<Rightarrow> nat \<Rightarrow> kl_mm_info \<Rightarrow> kl_mm_info \<Rightarrow> nat \<Rightarrow> bool" where
  "slices_ok ws n whole info k \<longleftrightarrow>
     (\<forall>i<n. \<exists>v. reg_value ws (page_reg k i) = Some v \<and> page_enabled v \<and> page_start v \<le> page_end v \<and>
        (page_end v + 1 - page_start v) * 2 ^ 23 = rg_size (nfo_user_dma_range info ! k) \<and>
        (page_end v + 1) * 2 ^ 23 \<le> rg_size (nfo_user_dma_range whole ! k) \<and>
        (\<forall>j v'. i < j \<and> j < n \<and> reg_value ws (page_reg k j) = Some v' \<longrightarrow> page_end v < page_start v'))"

lemma slices_okI:
  assumes val: "\<And>i. i < n \<Longrightarrow> reg_value ws (page_reg k i) = Some (vf_page (g * i) (u64_sub (g * (i + 1)) 1))"
    and g: "0 < g" "g * n \<le> 2 ^ 12" "rg_size (nfo_user_dma_range info ! k) = g * 2 ^ 23"
      "g * n * 2 ^ 23 \<le> rg_size (nfo_user_dma_range whole ! k)"
  shows "slices_ok ws n whole info k"
  unfolding slices_ok_def
proof (intro allI impI exI conjI)
  fix i assume i: "i < n"
  let ?v = "vf_page (g * i) (u64_sub (g * (i + 1)) 1)"
  note p = page_of_share [OF g(2) i g(1)]
  have len: "page_end ?v + 1 - page_start ?v = g" unfolding p by simp
  show "reg_value ws (page_reg k i) = Some ?v" by (rule val [OF i])
  show "page_enabled ?v" by (rule p)
  show "page_start ?v \<le> page_end ?v" using len g(1) by linarith
  show "(page_end ?v + 1 - page_start ?v) * 2 ^ 23 = rg_size (nfo_user_dma_range info ! k)"
    unfolding len g(3) ..
  have "g * (i + 1) * 2 ^ 23 \<le> g * n * 2 ^ 23" using i by (intro mult_le_mono1 mult_le_mono2) simp
  then show "(page_end ?v + 1) * 2 ^ 23 \<le> rg_size (nfo_user_dma_range whole ! k)"
    unfolding p using g(4) by (rule le_trans)
  fix j v' assume j: "i < j \<and> j < n \<and> reg_value ws (page_reg k j) = Some v'"
  then have "v' = vf_page (g * j) (u64_sub (g * (j + 1)) 1)"
    using val [of j] by (metis option.inject)
  then have "page_start v' = g * j" using page_of_share(2) [OF g(2) _ g(1)] j by blast
  moreover have "g * (i + 1) \<le> g * j" using j by (intro mult_le_mono2) simp
  ultimately show "page_end ?v < page_start v'" using p(3) by linarith
qed

text \<open>
  C33: virtual functions are kept apart. On every board that \<^verbatim>\<open>kl2_pci_sriov_configure\<close> shares among one to
  three functions, the driver finds a memory table for the function that shares and for each
  virtual function. The page registers that \<^verbatim>\<open>kl2_config_vmu\<close> leaves behind give virtual function
  \<open>i\<close> in the GDDR (0) and L3 memory (1) a slice of each of the 8 channels. It is enabled and is as
  large as the memory its own table describes, it ends inside the memory of the device and, before
  the slice of the next function starts. The row of the device table for the virtual function
  shares no DMA channel with the physical function or another virtual function, and for every kind
  of unit \<open>n\<close> times its units are at most those of the device.
\<close>

theorem kl2_vf_isolation:
  assumes b: "sriov_board c" and n: "0 < n" "n \<le> 3" and v: "cf_num_vfs c = int n"
    and sp: "sp_valid spec" "sp_kl_vf_mm_info_fn spec = Some kl_vf_mm_info_general_fn"
  shows "\<exists>ws whole info.
     kl2_config_vmu spec c n = Some ws \<and>
     kl_mm_info_general_fn (unshared c) = Some (Some whole) \<and>
     slices_ok ws n whole info 0 \<and> slices_ok ws n whole info 1 \<and>
     (\<forall>i<n. kl_mm_info_general_fn (virtual_fn c n i) = Some (Some info) \<and>
        (\<exists>s. kl2_get_df_spec (virtual_fn c n i) spec = (None, s) \<and>
             sp_dmach_bits s AND sp_dmach_bits (kl2_df_spec_table SPEC_ID_KL2_GENERAL_SRIOV_PF) = 0 \<and>
             (\<forall>j<i. sp_dmach_bits (snd (kl2_get_df_spec (virtual_fn c n j) spec)) AND sp_dmach_bits s = 0) \<and>
             (\<forall>f\<in>set unit_masks. n * bitcount (f s) \<le> bitcount (f (kl2_df_spec_table SPEC_ID_KL2_GENERAL)))))"
proof -
  obtain whole info where t: "kl_mm_info_general_fn (unshared c) = Some (Some whole)"
    "kl_vf_mm_info_general_fn c = Some (Some info)" "share_ok whole n info"
    "\<And>i. i < n \<Longrightarrow> kl_mm_info_general_fn (virtual_fn c n i) = Some (Some info)"
    using share_tables [OF b n v] by blast
  obtain g where g: "0 < g" "g * n \<le> 2 ^ 12" "rg_size (nfo_user_dma_range info ! 0) = g * 2 ^ 23"
      "g * n * 2 ^ 23 \<le> rg_size (nfo_user_dma_range whole ! 0)"
    using t(3) [unfolded share_ok_def, rule_format, of 0] by auto
  obtain l where l: "0 < l" "l * n \<le> 2 ^ 12" "rg_size (nfo_user_dma_range info ! 1) = l * 2 ^ 23"
      "l * n * 2 ^ 23 \<le> rg_size (nfo_user_dma_range whole ! 1)"
    using t(3) [unfolded share_ok_def, rule_format, of 1] by auto
  obtain ws where ws: "kl2_config_vmu spec c n = Some (ws @ vf_pages g l n)"
    using config_vmu_pages [OF sp t(2) n(1) g(3) l(3)] by blast
  have "slices_ok (ws @ vf_pages g l n) n whole info 0" "slices_ok (ws @ vf_pages g l n) n whole info 1"
    by (rule slices_okI [OF vf_pages_value(1) [OF n] g] slices_okI [OF vf_pages_value(2) [OF n] l], assumption)+
  moreover have "\<exists>s. kl2_get_df_spec (virtual_fn c n i) spec = (None, s) \<and>
      sp_dmach_bits s AND sp_dmach_bits (kl2_df_spec_table SPEC_ID_KL2_GENERAL_SRIOV_PF) = 0 \<and>
      (\<forall>j<i. sp_dmach_bits (snd (kl2_get_df_spec (virtual_fn c n j) spec)) AND sp_dmach_bits s = 0) \<and>
      (\<forall>f\<in>set unit_masks. n * bitcount (f s) \<le> bitcount (f (kl2_df_spec_table SPEC_ID_KL2_GENERAL)))"
    if i: "i < n" for i
    using vf_spec_row [OF n _ b, of _ spec] vf_row_channels [OF n(2) i] vf_row_units [OF n(2) i] i by simp
  ultimately show ?thesis using ws t by blast
qed

definition r200_two :: kl2_conf where
  "r200_two = r200_conf\<lparr>cf_sriov_conf := KL2_SRIOV_CONF_ID_2VF, cf_sriov_func_id := KL2_SRIOV_FUNC_ID_PF,
                       cf_num_vfs := 2\<rparr>"

lemma kl2_vf_isolation_witness:
  "\<exists>ws whole info.
     kl2_config_vmu (kl2_df_spec_table SPEC_ID_KL2_GENERAL_SRIOV_PF) r200_two 2 = Some ws \<and>
     kl_mm_info_general_fn (unshared r200_two) = Some (Some whole) \<and>
     slices_ok ws 2 whole info 0 \<and> slices_ok ws 2 whole info 1"
  using kl2_vf_isolation [of r200_two 2 "kl2_df_spec_table SPEC_ID_KL2_GENERAL_SRIOV_PF"]
  by (auto simp: sriov_board_def r200_two_def r200_conf_def kl2_df_spec_table_def df_spec_row_def)

end
