(* ===== verification/Kl2_Mbox.thy ===== *)
theory Kl2_Mbox
  imports Kl_Prelude "HOL-Library.Word" "HOL-Library.State_Monad"
begin

text \<open>
  The mailbox between the physical function of a shared KL2 device and its virtual functions,
  \<^verbatim>\<open>kl2/mbox.c\<close> and \<^verbatim>\<open>kl2/mbox.h\<close>: one 32 bit register per virtual function. The virtual function
  writes a message and polls for the answer; a thread of the physical function goes around the
  three registers and answers. A program of the virtual function is a state transformer that
  reads and writes its register. Each access takes one entry of a schedule: the steps that the
  thread and the other virtual functions make before the next access. The registers of the
  scheduling engine that the physical function consults are fields of the state.
\<close>

unbundle bit_operations_syntax

section \<open>Messages\<close>

type_synonym u32w = "32 word"

datatype KL2_SRIOV_MSGTYPE =
    KL2_SRIOV_MSGTYPE_NONE | KL2_SRIOV_MSGTYPE_REQ_CLUSTER_HWQ_ID | KL2_SRIOV_MSGTYPE_REQ_SDNN_HWQ_ID
  | KL2_SRIOV_MSGTYPE_RESET_CLUSTER | KL2_SRIOV_MSGTYPE_RESET_SDNN | KL2_SRIOV_MSGTYPE_REQ_XPU_BUSY_STATUS

fun msgtype_code :: "KL2_SRIOV_MSGTYPE \<Rightarrow> u32w" where
  "msgtype_code KL2_SRIOV_MSGTYPE_NONE = 0"
| "msgtype_code KL2_SRIOV_MSGTYPE_REQ_CLUSTER_HWQ_ID = 1"
| "msgtype_code KL2_SRIOV_MSGTYPE_REQ_SDNN_HWQ_ID = 2"
| "msgtype_code KL2_SRIOV_MSGTYPE_RESET_CLUSTER = 3"
| "msgtype_code KL2_SRIOV_MSGTYPE_RESET_SDNN = 4"
| "msgtype_code KL2_SRIOV_MSGTYPE_REQ_XPU_BUSY_STATUS = 5"

datatype KL2_SRIOV_MBOX_STATUS =
  KL2_SRIOV_MBOX_STATUS_EMPTY | KL2_SRIOV_MBOX_STATUS_MSG_NEW | KL2_SRIOV_MBOX_STATUS_MSG_ACKED

fun status_code :: "KL2_SRIOV_MBOX_STATUS \<Rightarrow> u32w" where
  "status_code KL2_SRIOV_MBOX_STATUS_EMPTY = 0"
| "status_code KL2_SRIOV_MBOX_STATUS_MSG_NEW = 1"
| "status_code KL2_SRIOV_MBOX_STATUS_MSG_ACKED = 2"

definition GET_MSG_TYPE :: "u32w \<Rightarrow> u32w" where "GET_MSG_TYPE msg = drop_bit 28 (msg AND 0xf0000000)"
definition GET_SRC_USER_ID :: "u32w \<Rightarrow> u32w" where "GET_SRC_USER_ID msg = drop_bit 24 (msg AND 0xf000000)"
definition GET_SDNN_ID :: "u32w \<Rightarrow> u32w" where "GET_SDNN_ID msg = drop_bit 20 (msg AND 0xf00000)"
definition GET_CLUSTER_ID :: "u32w \<Rightarrow> u32w" where "GET_CLUSTER_ID msg = drop_bit 16 (msg AND 0xf0000)"
definition GET_HWQ_ID :: "u32w \<Rightarrow> u32w" where "GET_HWQ_ID msg = drop_bit 12 (msg AND 0xf000)"
definition GET_XPU_BUSY_STATUS :: "u32w \<Rightarrow> u32w" where "GET_XPU_BUSY_STATUS msg = drop_bit 4 (msg AND 0x3fff0)"
definition GET_STATUS :: "u32w \<Rightarrow> u32w" where "GET_STATUS msg = msg AND 0xf"

definition SET_MSG_TYPE :: "u32w \<Rightarrow> u32w \<Rightarrow> u32w" where "SET_MSG_TYPE msg val = msg OR push_bit 28 val"
definition SET_SRC_USER_ID :: "u32w \<Rightarrow> u32w \<Rightarrow> u32w" where "SET_SRC_USER_ID msg val = msg OR push_bit 24 val"
definition SET_SDNN_ID :: "u32w \<Rightarrow> u32w \<Rightarrow> u32w" where "SET_SDNN_ID msg val = msg OR push_bit 20 val"
definition SET_CLUSTER_ID :: "u32w \<Rightarrow> u32w \<Rightarrow> u32w" where "SET_CLUSTER_ID msg val = msg OR push_bit 16 val"
definition SET_HWQ_ID :: "u32w \<Rightarrow> u32w \<Rightarrow> u32w" where "SET_HWQ_ID msg val = msg OR push_bit 12 val"
definition SET_XPU_BUSY_STATUS :: "u32w \<Rightarrow> u32w \<Rightarrow> u32w" where "SET_XPU_BUSY_STATUS msg val = msg OR push_bit 4 val"
definition SET_STATUS :: "u32w \<Rightarrow> u32w \<Rightarrow> u32w" where
  "SET_STATUS msg val = (msg AND 0xfffffff0) OR (val AND 0xf)"

section \<open>State\<close>

text \<open>What the registers of the scheduling engine hold; the first four are per user.\<close>

record sse_regs =
  sse_xpu_info :: "nat \<Rightarrow> u32w"
  sse_queue_info :: "nat \<Rightarrow> u32w"
  sse_cluster_map :: "nat \<Rightarrow> u32w"
  sse_sdnn_map :: "nat \<Rightarrow> u32w"
  sse_busy_status :: u32w

datatype unit_reset = Reset_cluster nat | Reset_sdnn nat

text \<open>The thread is about to read register \<open>i\<close>, or has read a new message there.\<close>

datatype pf_pc = Pf_At nat | Pf_Busy nat u32w

datatype mbox_act = Pf_Step | Other_Vf nat u32w

text \<open>
  \<open>mb_fault\<close> is set when the physical function reads outside of \<^verbatim>\<open>kl2_sriov_mbox_offset_tbl\<close> or shifts by
  more than the width of a word.
\<close>

record mbox_sys =
  mb_dr :: "u32w list"
  mb_sse :: sse_regs
  mb_pf :: pf_pc
  mb_resets :: "unit_reset list"
  mb_fault :: bool
  mb_sched :: "mbox_act list list"

definition KL2_SRIOV_MBOX_CNT :: nat where "KL2_SRIOV_MBOX_CNT = 3"

section \<open>The scheduling engine\<close>

definition kl2_sse_get_cluster_number :: "sse_regs \<Rightarrow> nat \<Rightarrow> u32w" where
  "kl2_sse_get_cluster_number r user = sse_xpu_info r user AND 0xf"

definition kl2_sse_get_sdnn_number :: "sse_regs \<Rightarrow> nat \<Rightarrow> u32w" where
  "kl2_sse_get_sdnn_number r user = drop_bit 16 (sse_xpu_info r user) AND 0xf"

definition kl2_sse_get_hwq_number :: "sse_regs \<Rightarrow> nat \<Rightarrow> u32w" where
  "kl2_sse_get_hwq_number r user = sse_queue_info r user AND 0xf"

definition kl2_sse_cluster_map_hwq :: "sse_regs \<Rightarrow> nat \<Rightarrow> u32w \<Rightarrow> u32w" where
  "kl2_sse_cluster_map_hwq r user cl_id = drop_bit (unat (push_bit 2 cl_id)) (sse_cluster_map r user) AND 0xf"

definition kl2_sse_sdnn_map_hwq :: "sse_regs \<Rightarrow> nat \<Rightarrow> u32w \<Rightarrow> u32w" where
  "kl2_sse_sdnn_map_hwq r user sdnn_id = drop_bit (unat (push_bit 2 sdnn_id)) (sse_sdnn_map r user) AND 0xf"

section \<open>The physical function\<close>

definition mbox_write_response :: "u32w \<Rightarrow> u32w \<Rightarrow> mbox_sys \<Rightarrow> mbox_sys" where
  "mbox_write_response user_id msg s =
     (if unat user_id < KL2_SRIOV_MBOX_CNT
      then s\<lparr>mb_dr := (mb_dr s)[unat user_id := SET_STATUS msg (status_code KL2_SRIOV_MBOX_STATUS_MSG_ACKED)]\<rparr>
      else s\<lparr>mb_fault := True\<rparr>)"

definition mbox_reset_cluster_pf :: "u32w \<Rightarrow> mbox_sys \<Rightarrow> mbox_sys" where
  "mbox_reset_cluster_pf msg s =
     (let cluster_num_per_user = kl2_sse_get_cluster_number (mb_sse s) 0;
          user_id = GET_SRC_USER_ID msg;
          vf_cluster_id = GET_CLUSTER_ID msg;
          phy_cluster_id = vf_cluster_id + user_id * cluster_num_per_user
      in mbox_write_response user_id msg (s\<lparr>mb_resets := mb_resets s @ [Reset_cluster (unat phy_cluster_id)]\<rparr>))"

definition mbox_reset_sdnn_pf :: "u32w \<Rightarrow> mbox_sys \<Rightarrow> mbox_sys" where
  "mbox_reset_sdnn_pf msg s =
     (let sdnn_num_per_user = kl2_sse_get_sdnn_number (mb_sse s) 0;
          user_id = GET_SRC_USER_ID msg;
          vf_sdnn_id = GET_SDNN_ID msg;
          phy_sdnn_id = vf_sdnn_id + user_id * sdnn_num_per_user
      in mbox_write_response user_id msg (s\<lparr>mb_resets := mb_resets s @ [Reset_sdnn (unat phy_sdnn_id)]\<rparr>))"

definition mbox_response_cluster_hwqid :: "u32w \<Rightarrow> mbox_sys \<Rightarrow> mbox_sys" where
  "mbox_response_cluster_hwqid msg s =
     (let hwq_num_per_user = kl2_sse_get_hwq_number (mb_sse s) 0;
          cluster_num_per_user = kl2_sse_get_cluster_number (mb_sse s) 0;
          user_id = GET_SRC_USER_ID msg;
          vf_cluster_id = GET_CLUSTER_ID msg;
          phy_cluster_id = vf_cluster_id + user_id * cluster_num_per_user
      in if 32 \<le> unat (push_bit 2 phy_cluster_id) then s\<lparr>mb_fault := True\<rparr>
         else let hwq_id = kl2_sse_cluster_map_hwq (mb_sse s) (unat user_id) phy_cluster_id
              in mbox_write_response user_id (SET_HWQ_ID msg (hwq_id - user_id * hwq_num_per_user)) s)"

definition mbox_response_sdnn_hwqid :: "u32w \<Rightarrow> mbox_sys \<Rightarrow> mbox_sys" where
  "mbox_response_sdnn_hwqid msg s =
     (let hwq_num_per_user = kl2_sse_get_hwq_number (mb_sse s) 0;
          sdnn_num_per_user = kl2_sse_get_sdnn_number (mb_sse s) 0;
          user_id = GET_SRC_USER_ID msg;
          vf_sdnn_id = GET_SDNN_ID msg;
          phy_sdnn_id = vf_sdnn_id + user_id * sdnn_num_per_user
      in if 32 \<le> unat (push_bit 2 phy_sdnn_id) then s\<lparr>mb_fault := True\<rparr>
         else let hwq_id = kl2_sse_sdnn_map_hwq (mb_sse s) (unat user_id) phy_sdnn_id
              in mbox_write_response user_id (SET_HWQ_ID msg (hwq_id - user_id * hwq_num_per_user)) s)"

definition make_vf_xpu_busy_status :: "sse_regs \<Rightarrow> u32w \<Rightarrow> u32w \<Rightarrow> u32w" where
  "make_vf_xpu_busy_status r user_id phy_sse_xpu_busy_status =
     (let cluster_num_per_user = kl2_sse_get_cluster_number r 0;
          sdnn_num_per_user = kl2_sse_get_sdnn_number r 0;
          vf_cluster_status = drop_bit (unat (user_id * cluster_num_per_user)) (phy_sse_xpu_busy_status AND 0xff);
          vf_sdnn_status = drop_bit (unat (user_id * sdnn_num_per_user)) (phy_sse_xpu_busy_status AND 0x3f00)
      in vf_sdnn_status OR vf_cluster_status)"

definition mbox_response_xpu_busy_status_pf :: "u32w \<Rightarrow> mbox_sys \<Rightarrow> mbox_sys" where
  "mbox_response_xpu_busy_status_pf msg s =
     (let user_id = GET_SRC_USER_ID msg;
          vf_sse_xpu_busy_status = make_vf_xpu_busy_status (mb_sse s) user_id (sse_busy_status (mb_sse s))
      in mbox_write_response user_id (SET_XPU_BUSY_STATUS msg vf_sse_xpu_busy_status) s)"

text \<open>The switch of \<^verbatim>\<open>kl2_sriov_mbox_check_msg\<close>.\<close>

definition mbox_handle_msg :: "u32w \<Rightarrow> mbox_sys \<Rightarrow> mbox_sys" where
  "mbox_handle_msg msg s =
     (let msg_type = GET_MSG_TYPE msg
      in if msg_type = msgtype_code KL2_SRIOV_MSGTYPE_RESET_CLUSTER then mbox_reset_cluster_pf msg s
         else if msg_type = msgtype_code KL2_SRIOV_MSGTYPE_RESET_SDNN then mbox_reset_sdnn_pf msg s
         else if msg_type = msgtype_code KL2_SRIOV_MSGTYPE_REQ_CLUSTER_HWQ_ID then mbox_response_cluster_hwqid msg s
         else if msg_type = msgtype_code KL2_SRIOV_MSGTYPE_REQ_SDNN_HWQ_ID then mbox_response_sdnn_hwqid msg s
         else if msg_type = msgtype_code KL2_SRIOV_MSGTYPE_REQ_XPU_BUSY_STATUS then mbox_response_xpu_busy_status_pf msg s
         else s)"

text \<open>
  One step of \<^verbatim>\<open>kl2_sriov_mbox_check_msg\<close>: read a register, or handle the message read before. After
  the last register the thread starts again at the first.
\<close>

definition next_box :: "nat \<Rightarrow> pf_pc" where
  "next_box i = Pf_At (Suc i mod KL2_SRIOV_MBOX_CNT)"

definition pf_step :: "mbox_sys \<Rightarrow> mbox_sys" where
  "pf_step s =
     (case mb_pf s of
        Pf_At i \<Rightarrow>
          (let msg = mb_dr s ! i
           in if GET_STATUS msg \<noteq> status_code KL2_SRIOV_MBOX_STATUS_MSG_NEW then s\<lparr>mb_pf := next_box i\<rparr>
              else s\<lparr>mb_pf := Pf_Busy i msg\<rparr>)
      | Pf_Busy i msg \<Rightarrow> (mbox_handle_msg msg s)\<lparr>mb_pf := next_box i\<rparr>)"

fun mbox_event :: "mbox_act \<Rightarrow> mbox_sys \<Rightarrow> mbox_sys" where
  "mbox_event Pf_Step s = pf_step s"
| "mbox_event (Other_Vf i w) s = s\<lparr>mb_dr := (mb_dr s)[i := w]\<rparr>"

section \<open>A virtual function\<close>

text \<open>What happens between two accesses of the virtual function.\<close>

definition mbox_tick :: "mbox_sys \<Rightarrow> mbox_sys" where
  "mbox_tick s = (case mb_sched s of [] \<Rightarrow> s | es # rest \<Rightarrow> fold mbox_event es (s\<lparr>mb_sched := rest\<rparr>))"

definition mbox_readl :: "nat \<Rightarrow> (mbox_sys, u32w) state" where
  "mbox_readl i = State (\<lambda>s. (mb_dr s ! i, mbox_tick s))"

definition mbox_writel :: "nat \<Rightarrow> u32w \<Rightarrow> (mbox_sys, unit) state" where
  "mbox_writel i w = State (\<lambda>s. ((), mbox_tick (s\<lparr>mb_dr := (mb_dr s)[i := w]\<rparr>)))"

definition mbox_clear_msg :: "nat \<Rightarrow> (mbox_sys, unit) state" where
  "mbox_clear_msg mbox_idx = mbox_writel mbox_idx 0"

primrec wait_loop :: "nat \<Rightarrow> nat \<Rightarrow> u32w \<Rightarrow> u32w \<Rightarrow> (mbox_sys, u32w) state" where
  "wait_loop 0 mbox_idx status cur_status = State_Monad.return cur_status"
| "wait_loop (Suc n) mbox_idx status cur_status =
     (if cur_status = status then State_Monad.return cur_status
      else do { m \<leftarrow> mbox_readl mbox_idx; wait_loop n mbox_idx status (GET_STATUS m) })"

definition mbox_wait_status :: "nat \<Rightarrow> u32w \<Rightarrow> nat \<Rightarrow> (mbox_sys, kl_status) state" where
  "mbox_wait_status mbox_idx status timeout_ms =
     do { m \<leftarrow> mbox_readl mbox_idx;
          cur_status \<leftarrow> wait_loop (timeout_ms * 20) mbox_idx status (GET_STATUS m);
          State_Monad.return (if cur_status \<noteq> status then Some ETIMEDOUT else None) }"

definition mbox_read_response :: "nat \<Rightarrow> u32w \<Rightarrow> nat \<Rightarrow> (mbox_sys, kl_status \<times> u32w) state" where
  "mbox_read_response mbox_idx msg timeout_ms =
     do { ret \<leftarrow> mbox_wait_status mbox_idx (status_code KL2_SRIOV_MBOX_STATUS_MSG_ACKED) timeout_ms;
          case ret of
            None \<Rightarrow> do { m \<leftarrow> mbox_readl mbox_idx; State_Monad.return (None, m) }
          | Some e \<Rightarrow> State_Monad.return (Some e, msg) }"

definition mbox_is_msg_responsed :: "nat \<Rightarrow> u32w \<Rightarrow> (mbox_sys, bool) state" where
  "mbox_is_msg_responsed mbox_idx msg =
     do { cur_msg \<leftarrow> mbox_readl mbox_idx;
          State_Monad.return (GET_MSG_TYPE cur_msg = GET_MSG_TYPE msg \<and>
                              GET_STATUS cur_msg = status_code KL2_SRIOV_MBOX_STATUS_MSG_ACKED) }"

definition mbox_write_msg :: "nat \<Rightarrow> u32w \<Rightarrow> nat \<Rightarrow> (mbox_sys, kl_status) state" where
  "mbox_write_msg mbox_idx msg timeout_ms =
     do { ret \<leftarrow> mbox_wait_status mbox_idx (status_code KL2_SRIOV_MBOX_STATUS_EMPTY) timeout_ms;
          case ret of
            Some e \<Rightarrow> State_Monad.return (Some e)
          | None \<Rightarrow> do { _ \<leftarrow> mbox_writel mbox_idx (SET_STATUS msg (status_code KL2_SRIOV_MBOX_STATUS_MSG_NEW));
                        State_Monad.return None } }"

definition mbox_reset_cluster_vf :: "nat \<Rightarrow> nat \<Rightarrow> nat \<Rightarrow> (mbox_sys, kl_status) state" where
  "mbox_reset_cluster_vf user_id vf_cluster_id timeout_ms =
     (let msg = SET_MSG_TYPE 0 (msgtype_code KL2_SRIOV_MSGTYPE_RESET_CLUSTER);
          msg = SET_SRC_USER_ID msg (of_nat user_id);
          msg = SET_CLUSTER_ID msg (of_nat vf_cluster_id)
      in do { _ \<leftarrow> mbox_write_msg user_id msg timeout_ms;
              _ \<leftarrow> mbox_read_response user_id msg timeout_ms;
              _ \<leftarrow> mbox_clear_msg user_id;
              State_Monad.return None })"

definition mbox_reset_sdnn_vf :: "nat \<Rightarrow> nat \<Rightarrow> nat \<Rightarrow> (mbox_sys, kl_status) state" where
  "mbox_reset_sdnn_vf user_id vf_sdnn_id timeout_ms =
     (let msg = SET_MSG_TYPE 0 (msgtype_code KL2_SRIOV_MSGTYPE_RESET_SDNN);
          msg = SET_SRC_USER_ID msg (of_nat user_id);
          msg = SET_SDNN_ID msg (of_nat vf_sdnn_id)
      in do { _ \<leftarrow> mbox_write_msg user_id msg timeout_ms;
              _ \<leftarrow> mbox_read_response user_id msg timeout_ms;
              _ \<leftarrow> mbox_clear_msg user_id;
              State_Monad.return None })"

definition mbox_request_cluster_hwqid_vf :: "nat \<Rightarrow> nat \<Rightarrow> nat \<Rightarrow> (mbox_sys, u32w) state" where
  "mbox_request_cluster_hwqid_vf user_id vf_cluster_id timeout_ms =
     (let msg = SET_MSG_TYPE 0 (msgtype_code KL2_SRIOV_MSGTYPE_REQ_CLUSTER_HWQ_ID);
          msg = SET_SRC_USER_ID msg (of_nat user_id);
          msg = SET_CLUSTER_ID msg (of_nat vf_cluster_id)
      in do { _ \<leftarrow> mbox_write_msg user_id msg timeout_ms;
              r \<leftarrow> mbox_read_response user_id msg timeout_ms;
              let hwq_id = GET_HWQ_ID (snd r);
              _ \<leftarrow> mbox_clear_msg user_id;
              State_Monad.return hwq_id })"

definition mbox_request_sdnn_hwqid_vf :: "nat \<Rightarrow> nat \<Rightarrow> nat \<Rightarrow> (mbox_sys, u32w) state" where
  "mbox_request_sdnn_hwqid_vf user_id vf_sdnn_id timeout_ms =
     (let msg = SET_MSG_TYPE 0 (msgtype_code KL2_SRIOV_MSGTYPE_REQ_SDNN_HWQ_ID);
          msg = SET_SRC_USER_ID msg (of_nat user_id);
          msg = SET_SDNN_ID msg (of_nat vf_sdnn_id)
      in do { _ \<leftarrow> mbox_write_msg user_id msg timeout_ms;
              r \<leftarrow> mbox_read_response user_id msg timeout_ms;
              let hwq_id = GET_HWQ_ID (snd r);
              _ \<leftarrow> mbox_clear_msg user_id;
              State_Monad.return hwq_id })"

text \<open>The error and the status; the status is left as it was when there is an error.\<close>

definition mbox_req_xpu_busy_status_vf :: "nat \<Rightarrow> u32w \<Rightarrow> (mbox_sys, kl_status \<times> u32w) state" where
  "mbox_req_xpu_busy_status_vf user_id sse_xpu_busy_status =
     (let msg = SET_MSG_TYPE 0 (msgtype_code KL2_SRIOV_MSGTYPE_REQ_XPU_BUSY_STATUS);
          msg = SET_SRC_USER_ID msg (of_nat user_id)
      in do { ready \<leftarrow> mbox_is_msg_responsed user_id msg;
              if ready then do {
                r \<leftarrow> mbox_read_response user_id msg 50;
                _ \<leftarrow> mbox_clear_msg user_id;
                State_Monad.return (None, GET_XPU_BUSY_STATUS (snd r)) }
              else do {
                _ \<leftarrow> mbox_write_msg user_id msg 50;
                State_Monad.return (Some EAGAIN, sse_xpu_busy_status) } })"

end
