(* ===== verification/Kl2_Mbox_Props.thy ===== *)
theory Kl2_Mbox_Props
  imports Kl2_Mbox
begin

text \<open>
  The mailbox works between honest functions: a message in the register of a virtual function is
  answered after at most six steps of the thread of the physical function, whatever the other
  functions do with theirs, and a request then returns what the hardware would have said. And where
  it does not: the answer to a request nobody repeats is taken for the answer to the next one.
\<close>

unbundle bit_operations_syntax

section \<open>Fields of a message\<close>

lemma field_get:
  "GET_MSG_TYPE m = take_bit 4 (drop_bit 28 m)" "GET_SRC_USER_ID m = take_bit 4 (drop_bit 24 m)"
  "GET_SDNN_ID m = take_bit 4 (drop_bit 20 m)" "GET_CLUSTER_ID m = take_bit 4 (drop_bit 16 m)"
  "GET_HWQ_ID m = take_bit 4 (drop_bit 12 m)" "GET_XPU_BUSY_STATUS m = take_bit 14 (drop_bit 4 m)"
  "GET_STATUS m = take_bit 4 m"
proof -
  have c: "(0xf0000000 :: 32 word) = push_bit 28 (mask 4)" "(0xf000000 :: 32 word) = push_bit 24 (mask 4)"
    "(0xf00000 :: 32 word) = push_bit 20 (mask 4)" "(0xf0000 :: 32 word) = push_bit 16 (mask 4)"
    "(0xf000 :: 32 word) = push_bit 12 (mask 4)" "(0x3fff0 :: 32 word) = push_bit 4 (mask 14)"
    "(0xf :: 32 word) = mask 4"
    by (simp_all add: mask_eq_exp_minus_1 push_bit_eq_mult)
  show "GET_MSG_TYPE m = take_bit 4 (drop_bit 28 m)" "GET_SRC_USER_ID m = take_bit 4 (drop_bit 24 m)"
    "GET_SDNN_ID m = take_bit 4 (drop_bit 20 m)" "GET_CLUSTER_ID m = take_bit 4 (drop_bit 16 m)"
    "GET_HWQ_ID m = take_bit 4 (drop_bit 12 m)" "GET_XPU_BUSY_STATUS m = take_bit 14 (drop_bit 4 m)"
    "GET_STATUS m = take_bit 4 m"
    unfolding GET_MSG_TYPE_def GET_SRC_USER_ID_def GET_SDNN_ID_def GET_CLUSTER_ID_def GET_HWQ_ID_def
      GET_XPU_BUSY_STATUS_def GET_STATUS_def c
    by (auto intro!: bit_eqI simp: bit_simps)
qed

lemma status_set: "SET_STATUS m v = (m AND NOT (mask 4)) OR take_bit 4 v"
proof -
  have "(0xfffffff0 :: 32 word) + 16 = 0" by simp
  then have "(0xfffffff0 :: 32 word) = - 16" by (simp only: eq_neg_iff_add_eq_0)
  also have "\<dots> = NOT (mask 4)" by (simp add: mask_eq_exp_minus_1)
  finally have c: "(0xfffffff0 :: 32 word) = NOT (mask 4)" .
  have "(0xf :: 32 word) = mask 4" by (simp add: mask_eq_exp_minus_1)
  then show ?thesis unfolding SET_STATUS_def c by (simp only: take_bit_eq_mask)
qed

lemmas field_set = SET_MSG_TYPE_def SET_SRC_USER_ID_def SET_SDNN_ID_def SET_CLUSTER_ID_def SET_HWQ_ID_def
  SET_XPU_BUSY_STATUS_def status_set

lemma status_fields:
  "GET_STATUS (SET_STATUS m v) = take_bit 4 v" "GET_MSG_TYPE (SET_STATUS m v) = GET_MSG_TYPE m"
  "GET_SRC_USER_ID (SET_STATUS m v) = GET_SRC_USER_ID m" "GET_SDNN_ID (SET_STATUS m v) = GET_SDNN_ID m"
  "GET_CLUSTER_ID (SET_STATUS m v) = GET_CLUSTER_ID m" "GET_HWQ_ID (SET_STATUS m v) = GET_HWQ_ID m"
  "GET_XPU_BUSY_STATUS (SET_STATUS m v) = GET_XPU_BUSY_STATUS m"
  unfolding field_get field_set by (auto intro!: bit_eqI simp: bit_simps)

text \<open>A request carries its type, its user and one unit; the other fields are empty.\<close>

lemma hwq_fields:
  "GET_HWQ_ID (SET_HWQ_ID m v) = GET_HWQ_ID m OR take_bit 4 v"
  "GET_XPU_BUSY_STATUS (SET_XPU_BUSY_STATUS m v) = GET_XPU_BUSY_STATUS m OR take_bit 14 v"
  unfolding field_get field_set by (auto intro!: bit_eqI simp: bit_simps)

definition request :: "u32w \<Rightarrow> u32w \<Rightarrow> u32w \<Rightarrow> u32w \<Rightarrow> u32w" where
  "request t u sd cl = SET_CLUSTER_ID (SET_SDNN_ID (SET_SRC_USER_ID (SET_MSG_TYPE 0 t) u) sd) cl"

lemma request_fields:
  assumes "t = take_bit 4 t" "u = take_bit 4 u" "sd = take_bit 4 sd" "cl = take_bit 4 cl"
  shows "GET_MSG_TYPE (request t u sd cl) = t" "GET_SRC_USER_ID (request t u sd cl) = u"
    "GET_SDNN_ID (request t u sd cl) = sd" "GET_CLUSTER_ID (request t u sd cl) = cl"
    "GET_HWQ_ID (request t u sd cl) = 0"
proof -
  have b: "\<not> bit t n" "\<not> bit u n" "\<not> bit sd n" "\<not> bit cl n" if "4 \<le> n" for n
    using assms that by (metis bit_take_bit_iff not_le)+
  have r: "bit (request t u sd cl) k \<longleftrightarrow> k < 32 \<and> (28 \<le> k \<and> bit t (k - 28) \<or> 24 \<le> k \<and> bit u (k - 24) \<or>
      20 \<le> k \<and> bit sd (k - 20) \<or> 16 \<le> k \<and> bit cl (k - 16))" for k
    by (auto simp: request_def field_set bit_simps)
  have g: "take_bit 4 (drop_bit j (request t u sd cl)) = x"
    if "\<And>n. n < 4 \<Longrightarrow> bit (request t u sd cl) (j + n) = bit x n" "\<And>n. 4 \<le> n \<Longrightarrow> \<not> bit x n" for j and x :: u32w
  proof (rule bit_eqI)
    fix n show "bit (take_bit 4 (drop_bit j (request t u sd cl))) n = bit x n"
      using that(1) [of n] that(2) [of n] by (cases "n < 4") (auto simp: bit_take_bit_iff bit_drop_bit_eq)
  qed
  show "GET_MSG_TYPE (request t u sd cl) = t"
    unfolding field_get by (rule g) (simp_all add: r b)
  show "GET_SRC_USER_ID (request t u sd cl) = u" 
    unfolding field_get by (rule g) (simp_all add: r b)
  show "GET_SDNN_ID (request t u sd cl) = sd" 
    unfolding field_get by (rule g) (simp_all add: r b)
  show "GET_CLUSTER_ID (request t u sd cl) = cl"
    unfolding field_get by (rule g) (simp_all add: r b)
  show "GET_HWQ_ID (request t u sd cl) = 0"
    unfolding field_get by (rule g) (simp_all add: r b)
qed
section \<open>What the physical function answers\<close>

text \<open>
  The handlers as one table: whether a message is answered, with what, and which units are reset.
\<close>

definition phys_unit :: "sse_regs \<Rightarrow> u32w \<Rightarrow> u32w" where
  "phys_unit r m =
     (if GET_MSG_TYPE m = 1 \<or> GET_MSG_TYPE m = 3
      then GET_CLUSTER_ID m + GET_SRC_USER_ID m * kl2_sse_get_cluster_number r 0
      else GET_SDNN_ID m + GET_SRC_USER_ID m * kl2_sse_get_sdnn_number r 0)"

definition answerable :: "sse_regs \<Rightarrow> u32w \<Rightarrow> bool" where
  "answerable r m \<longleftrightarrow>
     unat (GET_SRC_USER_ID m) < 3 \<and> GET_MSG_TYPE m \<in> {1, 2, 3, 4, 5} \<and>
     (GET_MSG_TYPE m \<in> {1, 2} \<longrightarrow> unat (push_bit 2 (phys_unit r m)) < 32)"

definition mb_answer :: "sse_regs \<Rightarrow> u32w \<Rightarrow> u32w" where
  "mb_answer r m =
     (let u = GET_SRC_USER_ID m
      in if GET_MSG_TYPE m = 1 then
           SET_HWQ_ID m (kl2_sse_cluster_map_hwq r (unat u) (phys_unit r m) - u * kl2_sse_get_hwq_number r 0)
         else if GET_MSG_TYPE m = 2 then
           SET_HWQ_ID m (kl2_sse_sdnn_map_hwq r (unat u) (phys_unit r m) - u * kl2_sse_get_hwq_number r 0)
         else if GET_MSG_TYPE m = 5 then SET_XPU_BUSY_STATUS m (make_vf_xpu_busy_status r u (sse_busy_status r))
         else m)"

definition mb_effect :: "sse_regs \<Rightarrow> u32w \<Rightarrow> unit_reset list" where
  "mb_effect r m =
     (if GET_MSG_TYPE m = 3 then [Reset_cluster (unat (phys_unit r m))]
      else if GET_MSG_TYPE m = 4 then [Reset_sdnn (unat (phys_unit r m))] else [])"

lemmas handlers = mbox_handle_msg_def mbox_reset_cluster_pf_def mbox_reset_sdnn_pf_def
  mbox_response_cluster_hwqid_def mbox_response_sdnn_hwqid_def mbox_response_xpu_busy_status_pf_def
  mbox_write_response_def KL2_SRIOV_MBOX_CNT_def Let_def

lemma handle_answerable:
  "answerable (mb_sse s) m \<Longrightarrow>
   mbox_handle_msg m s = s\<lparr>mb_dr := (mb_dr s)[unat (GET_SRC_USER_ID m) := SET_STATUS (mb_answer (mb_sse s) m) 2],
                           mb_resets := mb_resets s @ mb_effect (mb_sse s) m\<rparr>"
  by (auto simp: answerable_def handlers mb_answer_def mb_effect_def phys_unit_def not_le)

lemma handle_frame:
  "mb_sse (mbox_handle_msg m s) = mb_sse s" "mb_pf (mbox_handle_msg m s) = mb_pf s"
  "mb_sched (mbox_handle_msg m s) = mb_sched s" "length (mb_dr (mbox_handle_msg m s)) = length (mb_dr s)"
  by (simp_all add: handlers)

lemma handle_other:
  assumes "j < 3" "unat (GET_SRC_USER_ID m) \<noteq> j"
  shows "mb_dr (mbox_handle_msg m s) ! j = mb_dr s ! j"
  using assms by (simp add: handlers)

lemma acked_not_new:
  assumes "j < length d" "GET_STATUS (d[k := SET_STATUS x 2] ! j) = 1"
  shows "d[k := SET_STATUS x 2] ! j = d ! j"
proof (cases "j = k")
  case True
  moreover have "GET_STATUS (SET_STATUS x 2) = 2" by (simp add: status_fields)
  ultimately show ?thesis using assms by simp
qed simp

lemma handle_dr:
  "mb_dr (mbox_handle_msg m s) = mb_dr s \<or> (\<exists>x. mb_dr (mbox_handle_msg m s) = (mb_dr s)[unat (GET_SRC_USER_ID m) := SET_STATUS x 2])"
  by (auto simp: handlers)

lemma handle_status:
  "j < length (mb_dr s) \<Longrightarrow> GET_STATUS (mb_dr (mbox_handle_msg m s) ! j) = 1 \<Longrightarrow>
   mb_dr (mbox_handle_msg m s) ! j = mb_dr s ! j"
  using handle_dr [of m s] acked_not_new by metis

lemma handle_resets: "\<exists>rs. mb_resets (mbox_handle_msg m s) = mb_resets s @ rs"
  by (auto simp: handlers)

section \<open>The mailbox of one virtual function\<close>

fun honest :: "nat \<Rightarrow> mbox_act \<Rightarrow> bool" where
  "honest u Pf_Step = True"
| "honest u (Other_Vf j w) = (j \<noteq> u \<and> unat (GET_SRC_USER_ID w) \<noteq> u)"

definition pf_clean :: "nat \<Rightarrow> pf_pc \<Rightarrow> bool" where
  "pf_clean u pc = (case pc of Pf_At i \<Rightarrow> i < 3 | Pf_Busy i m \<Rightarrow> i < 3 \<and> i \<noteq> u \<and> unat (GET_SRC_USER_ID m) \<noteq> u)"

definition others_ok :: "nat \<Rightarrow> mbox_sys \<Rightarrow> bool" where
  "others_ok u s \<longleftrightarrow> u < 3 \<and> length (mb_dr s) = 3 \<and> (\<forall>es \<in> set (mb_sched s). \<forall>e \<in> set es. honest u e) \<and>
     (\<forall>j<3. j \<noteq> u \<and> GET_STATUS (mb_dr s ! j) = 1 \<longrightarrow> unat (GET_SRC_USER_ID (mb_dr s ! j)) \<noteq> u)"

text \<open>Nobody has a message of function \<open>u\<close>; its register holds \<open>w\<close>, which is not a new message.\<close>

definition mbox_still :: "nat \<Rightarrow> u32w \<Rightarrow> mbox_sys \<Rightarrow> bool" where
  "mbox_still u w s \<longleftrightarrow> others_ok u s \<and> pf_clean u (mb_pf s) \<and> mb_dr s ! u = w \<and> GET_STATUS w \<noteq> 1"

text \<open>Message \<open>m\<close> is waiting in the register, is being handled, or is answered.\<close>

definition mbox_answered :: "nat \<Rightarrow> u32w \<Rightarrow> mbox_sys \<Rightarrow> mbox_sys \<Rightarrow> bool" where
  "mbox_answered u m s0 s \<longleftrightarrow> mbox_still u (SET_STATUS (mb_answer (mb_sse s0) m) 2) s \<and>
     (\<exists>rs. mb_resets s = mb_resets s0 @ rs \<and> set (mb_effect (mb_sse s0) m) \<subseteq> set rs)"

definition mbox_posted :: "nat \<Rightarrow> u32w \<Rightarrow> mbox_sys \<Rightarrow> mbox_sys \<Rightarrow> bool" where
  "mbox_posted u m s0 s \<longleftrightarrow> mb_sse s = mb_sse s0 \<and>
     (mbox_answered u m s0 s \<or>
      (others_ok u s \<and> mb_dr s ! u = m \<and> (pf_clean u (mb_pf s) \<or> mb_pf s = Pf_Busy u m) \<and>
       (\<exists>rs. mb_resets s = mb_resets s0 @ rs)))"

lemma pf_clean_next [simp]: "pf_clean u (next_box i)"
  by (simp add: pf_clean_def next_box_def KL2_SRIOV_MBOX_CNT_def)

lemma others_ok_frame:
  "others_ok u s \<Longrightarrow> mb_sched s' = mb_sched s \<Longrightarrow> length (mb_dr s') = length (mb_dr s) \<Longrightarrow>
   (\<And>j. j < 3 \<Longrightarrow> j \<noteq> u \<Longrightarrow> GET_STATUS (mb_dr s' ! j) = 1 \<Longrightarrow> mb_dr s' ! j = mb_dr s ! j \<or>
      unat (GET_SRC_USER_ID (mb_dr s' ! j)) \<noteq> u) \<Longrightarrow> others_ok u s'"
  unfolding others_ok_def by metis

lemma event_others:
  assumes "others_ok u s" "honest u e"
  shows "others_ok u (mbox_event e s) \<and> mb_sse (mbox_event e s) = mb_sse s \<and>
         (\<exists>rs. mb_resets (mbox_event e s) = mb_resets s @ rs)"
proof (cases e)
  case (Other_Vf j w)
  have "others_ok u (s\<lparr>mb_dr := (mb_dr s)[j := w]\<rparr>)"
  proof (rule others_ok_frame [OF assms(1)])
    fix i :: nat assume "i < 3"
    then show "mb_dr (s\<lparr>mb_dr := (mb_dr s)[j := w]\<rparr>) ! i = mb_dr s ! i \<or>
        unat (GET_SRC_USER_ID (mb_dr (s\<lparr>mb_dr := (mb_dr s)[j := w]\<rparr>) ! i)) \<noteq> u"
      using assms Other_Vf by (cases "i = j") (simp_all add: others_ok_def)
  qed simp_all
  then show ?thesis using Other_Vf by simp
next
  case Pf_Step
  show ?thesis
  proof (cases "mb_pf s")
    case (Pf_At i)
    then show ?thesis using assms Pf_Step by (auto simp: pf_step_def Let_def intro: others_ok_frame)
  next
    case (Pf_Busy i m)
    have "others_ok u (mbox_handle_msg m s\<lparr>mb_pf := next_box i\<rparr>)"
      using assms(1) handle_status [of _ s m] by (auto intro!: others_ok_frame [OF assms(1)] simp: handle_frame others_ok_def)
    then show ?thesis using Pf_Step Pf_Busy handle_resets [of m s] by (simp add: pf_step_def handle_frame)
  qed
qed

lemma event_still:
  assumes "mbox_still u w s" "honest u e"
  shows "mbox_still u w (mbox_event e s)"
proof -
  note a = assms(1) [unfolded mbox_still_def]
  have u: "u < 3" "length (mb_dr s) = 3" using a by (simp_all add: others_ok_def)
  have "pf_clean u (mb_pf (mbox_event e s)) \<and> mb_dr (mbox_event e s) ! u = w"
  proof (cases e)
    case (Other_Vf j w) then show ?thesis using a assms(2) by simp
  next
    case Pf_Step
    show ?thesis
    proof (cases "mb_pf s")
      case (Pf_At i)
      show ?thesis
      proof (cases "GET_STATUS (mb_dr s ! i) = 1")
        case True
        then have "i < 3" "i \<noteq> u" using a Pf_At by (auto simp: pf_clean_def)
        then show ?thesis using a Pf_Step Pf_At True by (simp add: pf_step_def Let_def pf_clean_def others_ok_def)
      next
        case False then show ?thesis using a Pf_Step Pf_At by (simp add: pf_step_def Let_def)
      qed
    next
      case (Pf_Busy i m)
      then have "unat (GET_SRC_USER_ID m) \<noteq> u" using a by (simp add: pf_clean_def)
      then show ?thesis using a u Pf_Step Pf_Busy handle_other [of u m s] by (simp add: pf_step_def)
    qed
  qed
  then show ?thesis using a event_others [of u s e] assms(2) by (simp add: mbox_still_def)
qed

lemma event_answered:
  assumes "mbox_answered u m s0 s" "honest u e"
  shows "mbox_answered u m s0 (mbox_event e s)"
proof -
  have "\<exists>rs. mb_resets (mbox_event e s) = mb_resets s @ rs"
    using assms event_others [of u s e] by (simp add: mbox_answered_def mbox_still_def)
  then show ?thesis using assms event_still unfolding mbox_answered_def by fastforce
qed

section \<open>Progress of the physical function\<close>

text \<open>How many steps of the thread a posted message of function \<open>u\<close> is at most away from its answer.\<close>

definition mb_dist :: "nat \<Rightarrow> pf_pc \<Rightarrow> nat" where
  "mb_dist u pc = (case pc of Pf_At i \<Rightarrow> 2 * ((u + 3 - i) mod 3) + 2
                   | Pf_Busy i m \<Rightarrow> if i = u then 1 else 2 * ((u + 2 - i) mod 3) + 3)"

lemma dist_pos: "0 < mb_dist u pc"
  by (simp add: mb_dist_def split: pf_pc.split)

lemma dist_next:
  assumes "u < 3" "i < 3" "i \<noteq> u"
  shows "mb_dist u (next_box i) < mb_dist u (Pf_Busy i m)" "mb_dist u (Pf_Busy i m) < mb_dist u (Pf_At i)"
proof -
  have "u = 0 \<or> u = 1 \<or> u = 2" "i = 0 \<or> i = 1 \<or> i = 2" using assms by linarith+
  then show "mb_dist u (next_box i) < mb_dist u (Pf_Busy i m)" "mb_dist u (Pf_Busy i m) < mb_dist u (Pf_At i)"
    using assms(3) by (auto simp: mb_dist_def next_box_def KL2_SRIOV_MBOX_CNT_def)
qed

lemma dist_max: "u < 3 \<Longrightarrow> pf_clean u pc \<Longrightarrow> mb_dist u pc \<le> 6"
proof (cases pc)
  case (Pf_At i)
  have "(u + 3 - i) mod 3 < 3" by simp
  then show "mb_dist u pc \<le> 6" using Pf_At by (simp add: mb_dist_def)
next
  case (Pf_Busy i m)
  assume a: "u < 3" "pf_clean u pc"
  then have "u = 0 \<or> u = 1 \<or> u = 2" "i = 0 \<or> i = 1 \<or> i = 2" "i \<noteq> u"
    using Pf_Busy by (auto simp: pf_clean_def)
  then show "mb_dist u pc \<le> 6" using Pf_Busy by (auto simp: mb_dist_def)
qed

definition message_ok :: "nat \<Rightarrow> u32w \<Rightarrow> sse_regs \<Rightarrow> bool" where
  "message_ok u m r \<longleftrightarrow> u < 3 \<and> GET_STATUS m = 1 \<and> unat (GET_SRC_USER_ID m) = u \<and> answerable r m"

text \<open>Posted, and answered after at most \<open>k\<close> more steps of the thread.\<close>

definition mbox_due :: "nat \<Rightarrow> u32w \<Rightarrow> mbox_sys \<Rightarrow> nat \<Rightarrow> mbox_sys \<Rightarrow> bool" where
  "mbox_due u m s0 k s \<longleftrightarrow> mbox_posted u m s0 s \<and> (mbox_answered u m s0 s \<or> mb_dist u (mb_pf s) \<le> k)"

lemma due_0: "mbox_due u m s0 0 s \<Longrightarrow> mbox_answered u m s0 s"
  using dist_pos [of u "mb_pf s"] by (simp add: mbox_due_def)

lemma due_mono: "mbox_due u m s0 k s \<Longrightarrow> k \<le> l \<Longrightarrow> mbox_due u m s0 l s"
  by (auto simp: mbox_due_def)

lemma posted_answered:
  assumes "mbox_posted u m s0 s" "GET_STATUS m = 1" "GET_STATUS (mb_dr s ! u) = 2"
  shows "mbox_answered u m s0 s"
  using assms by (auto simp: mbox_posted_def)

definition act_steps :: "mbox_act \<Rightarrow> nat" where
  "act_steps e = (if e = Pf_Step then 1 else 0)"

lemma event_posted_step:
  assumes m: "message_ok u m (mb_sse s0)" and p: "mbox_posted u m s0 s" and na: "\<not> mbox_answered u m s0 s"
  shows "mbox_posted u m s0 (pf_step s) \<and>
         (mbox_answered u m s0 (pf_step s) \<or> mb_dist u (mb_pf (pf_step s)) < mb_dist u (mb_pf s))"
proof -
  obtain rs where s: "mb_sse s = mb_sse s0" "others_ok u s" "mb_dr s ! u = m"
      "pf_clean u (mb_pf s) \<or> mb_pf s = Pf_Busy u m" "mb_resets s = mb_resets s0 @ rs"
    using p na by (auto simp: mbox_posted_def)
  have u: "u < 3" "length (mb_dr s) = 3" "GET_STATUS m = 1" "unat (GET_SRC_USER_ID m) = u" "answerable (mb_sse s) m"
    using m s by (simp_all add: message_ok_def others_ok_def)
  have o: "others_ok u (pf_step s)" "mb_sse (pf_step s) = mb_sse s0" "\<exists>rs. mb_resets (pf_step s) = mb_resets s0 @ rs"
    using event_others [OF s(2), of Pf_Step] s(1,5) by auto
  show ?thesis
  proof (cases "mb_pf s")
    case (Pf_At i)
    then have i: "i < 3" using s(4) by (simp add: pf_clean_def)
    show ?thesis
    proof (cases "i = u")
      case True
      then have "mb_pf (pf_step s) = Pf_Busy u m" "mb_dr (pf_step s) ! u = m"
        using Pf_At s(3) u(3) by (simp_all add: pf_step_def Let_def)
      then show ?thesis using o True Pf_At by (auto simp: mbox_posted_def mb_dist_def)
    next
      case False
      have d: "mb_dist u (next_box i) < mb_dist u (Pf_At i)" "mb_dist u (Pf_Busy i x) < mb_dist u (Pf_At i)" for x
        using dist_next [OF u(1) i False] less_trans by blast+
      have c: "GET_STATUS (mb_dr s ! i) = 1 \<Longrightarrow> unat (GET_SRC_USER_ID (mb_dr s ! i)) \<noteq> u"
        using s(2) i False by (simp add: others_ok_def)
      have "(if GET_STATUS (mb_dr s ! i) = 1 then mb_pf (pf_step s) = Pf_Busy i (mb_dr s ! i)
             else mb_pf (pf_step s) = next_box i) \<and> mb_dr (pf_step s) ! u = m"
        using Pf_At s(3) by (simp add: pf_step_def Let_def)
      moreover have "GET_STATUS (mb_dr s ! i) = 1 \<Longrightarrow> pf_clean u (Pf_Busy i (mb_dr s ! i))"
        using c i False by (simp add: pf_clean_def)
      ultimately show ?thesis using o Pf_At d by (auto simp: mbox_posted_def split: if_splits)
    qed
  next
    case (Pf_Busy i x)
    show ?thesis
    proof (cases "i = u")
      case True
      then have [simp]: "x = m" using s(4) Pf_Busy by (simp add: pf_clean_def)
      have st: "GET_STATUS (SET_STATUS (mb_answer (mb_sse s0) m) 2) = 2" by (simp add: status_fields)
      have "mb_dr (pf_step s) ! u = SET_STATUS (mb_answer (mb_sse s0) m) 2"
        "mb_resets (pf_step s) = mb_resets s0 @ rs @ mb_effect (mb_sse s0) m" "pf_clean u (mb_pf (pf_step s))"
        using Pf_Busy u s(1,5) by (simp_all add: pf_step_def handle_answerable)
      then have "mbox_answered u m s0 (pf_step s)"
        using o(1) st unfolding mbox_answered_def mbox_still_def by auto
      then show ?thesis using o(2) by (simp add: mbox_posted_def)
    next
      case False
      then have c: "i < 3" "unat (GET_SRC_USER_ID x) \<noteq> u" using s(4) Pf_Busy by (simp_all add: pf_clean_def)
      have "mb_pf (pf_step s) = next_box i" "mb_dr (pf_step s) ! u = m"
        using Pf_Busy s(3) handle_other [OF u(1) c(2)] by (simp_all add: pf_step_def)
      then show ?thesis using o Pf_Busy dist_next(1) [OF u(1) c(1) False] by (simp add: mbox_posted_def)
    qed
  qed
qed

lemma event_due:
  assumes m: "message_ok u m (mb_sse s0)" and d: "mbox_due u m s0 k s" and h: "honest u e"
  shows "mbox_due u m s0 (k - act_steps e) (mbox_event e s)"
proof (cases "mbox_answered u m s0 s")
  case True
  have "mb_sse (mbox_event e s) = mb_sse s0"
    using True event_others [of u s e] h d by (simp add: mbox_answered_def mbox_still_def mbox_due_def mbox_posted_def)
  then show ?thesis using event_answered [OF True h] by (simp add: mbox_due_def mbox_posted_def)
next
  case False
  show ?thesis
  proof (cases e)
    case Pf_Step
    then show ?thesis using event_posted_step [OF m _ False] d False
      by (auto simp: mbox_due_def act_steps_def)
  next
    case (Other_Vf j w)
    then show ?thesis using d False h event_others [of u s e]
      by (auto simp: mbox_due_def mbox_posted_def act_steps_def mbox_answered_def)
  qed
qed

section \<open>Accesses of the virtual function\<close>

definition steps_in :: "mbox_act list list \<Rightarrow> nat" where
  "steps_in ess = sum_list (map (\<lambda>es. sum_list (map act_steps es)) ess)"

lemma event_sched [simp]: "mb_sched (mbox_event e s) = mb_sched s"
  by (cases e) (simp_all add: pf_step_def Let_def handle_frame split: pf_pc.split)

lemma fold_sched [simp]: "mb_sched (fold mbox_event es s) = mb_sched s"
  by (induction es arbitrary: s) simp_all

lemma tick_sched [simp]: "mb_sched (mbox_tick s) = tl (mb_sched s)"
  by (simp add: mbox_tick_def split: list.split)

lemma rest_ok: "others_ok u s \<Longrightarrow> mb_sched s = es # rest \<Longrightarrow> others_ok u (s\<lparr>mb_sched := rest\<rparr>) \<and> (\<forall>e\<in>set es. honest u e)"
  by (simp add: others_ok_def)

lemma tick_still:
  assumes "mbox_still u w s"
  shows "mbox_still u w (mbox_tick s) \<and> mb_sse (mbox_tick s) = mb_sse s \<and> (\<exists>rs. mb_resets (mbox_tick s) = mb_resets s @ rs)"
proof (cases "mb_sched s")
  case Nil then show ?thesis using assms by (simp add: mbox_tick_def)
next
  case (Cons es rest)
  have "mbox_still u w (fold mbox_event es t) \<and> mb_sse (fold mbox_event es t) = mb_sse t \<and>
        (\<exists>rs. mb_resets (fold mbox_event es t) = mb_resets t @ rs)"
    if "mbox_still u w t" "\<forall>e\<in>set es. honest u e" for t
    using that
  proof (induction es arbitrary: t)
    case (Cons e es)
    then show ?case using event_still [of u w t e] event_others [of u t e] by (fastforce simp: mbox_still_def)
  qed simp
  moreover have "mbox_still u w (s\<lparr>mb_sched := rest\<rparr>)" "\<forall>e\<in>set es. honest u e"
    using assms rest_ok [OF _ Cons] by (simp_all add: mbox_still_def)
  ultimately show ?thesis using Cons by (fastforce simp: mbox_tick_def)
qed

lemma due_sched: "mbox_due u m s0 k s \<Longrightarrow> mb_sched s = es # rest \<Longrightarrow>
    mbox_due u m s0 k (s\<lparr>mb_sched := rest\<rparr>) \<and> (\<forall>e\<in>set es. honest u e)"
  using rest_ok by (auto simp: mbox_due_def mbox_posted_def mbox_answered_def mbox_still_def)

lemma tick_due:
  assumes m: "message_ok u m (mb_sse s0)" and d: "mbox_due u m s0 k s"
  shows "mbox_due u m s0 (k - steps_in (take 1 (mb_sched s))) (mbox_tick s)"
proof (cases "mb_sched s")
  case Nil then show ?thesis using d by (simp add: mbox_tick_def steps_in_def)
next
  case (Cons es rest)
  have "mbox_due u m s0 (k - sum_list (map act_steps es)) (fold mbox_event es t)"
    if "mbox_due u m s0 k t" "\<forall>e\<in>set es. honest u e" for k t
    using that
  proof (induction es arbitrary: k t)
    case (Cons e es)
    then show ?case using event_due [OF m, of k t e] Cons.IH [of "k - act_steps e"] by (simp add: diff_diff_left)
  qed simp
  then show ?thesis using due_sched [OF d Cons] Cons by (simp add: mbox_tick_def steps_in_def)
qed

section \<open>Polling\<close>

lemma wait_status_loop:
  "cur \<noteq> st \<Longrightarrow> mbox_wait_status i st t =
     do { c \<leftarrow> wait_loop (Suc (t * 20)) i st cur; State_Monad.return (if c \<noteq> st then Some ETIMEDOUT else None) }"
  by (simp add: mbox_wait_status_def)

lemma run_readl [simp]: "run_state (mbox_readl i) s = (mb_dr s ! i, mbox_tick s)"
  by (simp add: mbox_readl_def)

lemma run_writel [simp]: "run_state (mbox_writel i w) s = ((), mbox_tick (s\<lparr>mb_dr := (mb_dr s)[i := w]\<rparr>))"
  by (simp add: mbox_writel_def)

lemma steps_in_take_Suc: "steps_in (take (Suc n) xs) = steps_in (take 1 xs) + steps_in (take n (tl xs))"
  by (cases xs) (simp_all add: steps_in_def)

text \<open>Waiting for the answer: what is seen is the answer, and it is seen if the thread runs often enough.\<close>

lemma wait_loop_due:
  assumes m: "message_ok u m (mb_sse s0)"
  shows "mbox_due u m s0 k s \<Longrightarrow> (cur = 2 \<longrightarrow> mbox_answered u m s0 s) \<Longrightarrow>
         run_state (wait_loop n u 2 cur) s = (c, s') \<Longrightarrow>
         mbox_posted u m s0 s' \<and> (c = 2 \<longrightarrow> mbox_answered u m s0 s') \<and>
         (0 < n \<and> k \<le> steps_in (take (n - 1) (mb_sched s)) \<longrightarrow> c = 2)"
proof (induction n arbitrary: k s cur)
  case 0 then show ?case by (simp add: mbox_due_def)
next
  case (Suc n)
  show ?case
  proof (cases "cur = 2")
    case True then show ?thesis using Suc.prems by (simp add: mbox_due_def)
  next
    case False
    let ?k = "k - steps_in (take 1 (mb_sched s))" and ?c = "GET_STATUS (mb_dr s ! u)"
    have run: "run_state (wait_loop n u 2 ?c) (mbox_tick s) = (c, s')" using Suc.prems(3) False by simp
    have due: "mbox_due u m s0 ?k (mbox_tick s)" by (rule tick_due [OF m Suc.prems(1)])
    have st: "GET_STATUS m = 1" using m by (simp add: message_ok_def)
    have ans: "?c = 2 \<Longrightarrow> mbox_answered u m s0 s"
      using posted_answered [OF _ st] Suc.prems(1) by (simp add: mbox_due_def)
    have ans': "mbox_answered u m s0 (mbox_tick s)" if "mbox_answered u m s0 s"
      using tick_due [OF m, of 0 s] that Suc.prems(1) due_0
      by (simp add: mbox_due_def) (metis dist_pos not_gr0 le_zero_eq mbox_due_def)
    note ih = Suc.IH [OF due _ run]
    have "c = 2" if "k \<le> steps_in (take n (mb_sched s))"
    proof (cases n)
      case 0
      then have "mbox_due u m s0 0 s" using that Suc.prems(1) due_mono by (simp add: steps_in_def)
      then have "?c = 2" using due_0 by (fastforce simp: mbox_answered_def mbox_still_def status_fields)
      then show ?thesis using run 0 by simp
    next
      case (Suc n')
      then have "?k \<le> steps_in (take (n - 1) (mb_sched (mbox_tick s)))"
        using that by (simp add: steps_in_take_Suc [of n'])
      then show ?thesis using ih ans ans' Suc by blast
    qed
    then show ?thesis using ih ans ans' by simp
  qed
qed

lemma wait_status_due:
  assumes m: "message_ok u m (mb_sse s0)" and d: "mbox_due u m s0 k s"
    and run: "run_state (mbox_wait_status u 2 t) s = (ret, s')"
  shows "mbox_posted u m s0 s' \<and> (ret = None \<longrightarrow> mbox_answered u m s0 s') \<and>
         (k \<le> steps_in (take (t * 20) (mb_sched s)) \<longrightarrow> ret = None)"
proof -
  obtain c where c: "run_state (wait_loop (Suc (t * 20)) u 2 0) s = (c, s')" "ret = (if c \<noteq> 2 then Some ETIMEDOUT else None)"
    using run by (auto simp: wait_status_loop [of 0] simp del: wait_loop.simps split: prod.splits)
  show ?thesis using wait_loop_due [OF m d _ c(1)] c(2) by simp
qed

text \<open>Polling a register that does not hold the awaited status and that nobody writes.\<close>

lemma wait_status_seen:
  assumes "GET_STATUS (mb_dr s ! u) = st"
  shows "run_state (mbox_wait_status u st t) s = (None, mbox_tick s)"
proof -
  have "run_state (wait_loop n u st st) s' = (st, s')" for n s' by (cases n) simp_all
  then show ?thesis using assms by (simp add: mbox_wait_status_def)
qed

lemma wait_loop_still:
  "mbox_still u w s \<Longrightarrow> GET_STATUS w \<noteq> st \<Longrightarrow> cur \<noteq> st \<Longrightarrow>
   \<exists>s'. run_state (wait_loop n u st cur) s = (if n = 0 then cur else GET_STATUS w, s') \<and> mbox_still u w s'"
proof (induction n arbitrary: s cur)
  case (Suc n)
  have "mbox_still u w (mbox_tick s)" using tick_still [OF Suc.prems(1)] by blast
  from Suc.IH [OF this Suc.prems(2,2)] show ?case using Suc.prems by (auto simp: mbox_still_def)
qed simp

lemma wait_status_still:
  assumes "mbox_still u w s" "GET_STATUS w \<noteq> st"
  shows "\<exists>s'. run_state (mbox_wait_status u st t) s = (Some ETIMEDOUT, s') \<and> mbox_still u w s'"
proof -
  have "(st + 1 :: u32w) \<noteq> st" by simp
  then show ?thesis
    using wait_loop_still [OF assms, of "st + 1" "Suc (t * 20)"] assms(2)
    by (auto simp: wait_status_loop [of "st + 1"] simp del: wait_loop.simps)
qed

section \<open>Requests\<close>

text \<open>A request as all four functions make it: post, wait, clear.\<close>

definition transact :: "nat \<Rightarrow> u32w \<Rightarrow> nat \<Rightarrow> (mbox_sys, kl_status \<times> u32w) state" where
  "transact u m0 t =
     do { _ \<leftarrow> mbox_write_msg u m0 t; r \<leftarrow> mbox_read_response u m0 t; _ \<leftarrow> mbox_clear_msg u; State_Monad.return r }"

lemma request_transact:
  "mbox_reset_cluster_vf u cl t = do { _ \<leftarrow> transact u (request 3 (of_nat u) 0 (of_nat cl)) t; State_Monad.return None }"
  "mbox_reset_sdnn_vf u sd t = do { _ \<leftarrow> transact u (request 4 (of_nat u) (of_nat sd) 0) t; State_Monad.return None }"
  "mbox_request_cluster_hwqid_vf u cl t =
     do { r \<leftarrow> transact u (request 1 (of_nat u) 0 (of_nat cl)) t; State_Monad.return (GET_HWQ_ID (snd r)) }"
  "mbox_request_sdnn_hwqid_vf u sd t =
     do { r \<leftarrow> transact u (request 2 (of_nat u) (of_nat sd) 0) t; State_Monad.return (GET_HWQ_ID (snd r)) }"
proof -
  have z: "SET_SDNN_ID x 0 = x" "SET_CLUSTER_ID x 0 = x" for x by (simp_all add: field_set)
  show "mbox_reset_cluster_vf u cl t = do { _ \<leftarrow> transact u (request 3 (of_nat u) 0 (of_nat cl)) t; State_Monad.return None }"
    "mbox_reset_sdnn_vf u sd t = do { _ \<leftarrow> transact u (request 4 (of_nat u) (of_nat sd) 0) t; State_Monad.return None }"
    "mbox_request_cluster_hwqid_vf u cl t =
       do { r \<leftarrow> transact u (request 1 (of_nat u) 0 (of_nat cl)) t; State_Monad.return (GET_HWQ_ID (snd r)) }"
    "mbox_request_sdnn_hwqid_vf u sd t =
       do { r \<leftarrow> transact u (request 2 (of_nat u) (of_nat sd) 0) t; State_Monad.return (GET_HWQ_ID (snd r)) }"
    by (simp_all add: mbox_reset_cluster_vf_def mbox_reset_sdnn_vf_def mbox_request_cluster_hwqid_vf_def
        mbox_request_sdnn_hwqid_vf_def transact_def request_def z Let_def)
qed

lemma still_set:
  assumes "mbox_still u w s" "GET_STATUS v \<noteq> 1"
  shows "mbox_still u v (s\<lparr>mb_dr := (mb_dr s)[u := v]\<rparr>)"
  using assms by (auto simp: mbox_still_def others_ok_def)

lemma post_due:
  assumes "mbox_still u w s" "message_ok u m (mb_sse s0)" "mb_sse s = mb_sse s0" "mb_resets s = mb_resets s0 @ rs"
  shows "mbox_due u m s0 6 (s\<lparr>mb_dr := (mb_dr s)[u := m]\<rparr>)"
  using assms dist_max [of u "mb_pf s"]
  by (auto simp: mbox_due_def mbox_posted_def mbox_still_def others_ok_def)

lemma transact_ok:
  assumes still: "mbox_still u w s" "GET_STATUS w = 0" and m: "message_ok u (SET_STATUS m0 1) (mb_sse s)"
    and run: "run_state (transact u m0 t) s = ((ret, x), s')"
  shows "(ret = None \<longrightarrow> mbox_still u 0 s' \<and> x = SET_STATUS (mb_answer (mb_sse s) (SET_STATUS m0 1)) 2 \<and>
            (\<exists>rs. mb_resets s' = mb_resets s @ rs \<and> set (mb_effect (mb_sse s) (SET_STATUS m0 1)) \<subseteq> set rs)) \<and>
         (ret \<noteq> None \<longrightarrow> x = m0) \<and>
         (6 \<le> steps_in (take (t * 20) (drop 2 (mb_sched s))) \<longrightarrow> ret = None)"
proof -
  let ?m = "SET_STATUS m0 1"
  define s1 where "s1 = mbox_tick s"
  define s2 where "s2 = mbox_tick (s1\<lparr>mb_dr := (mb_dr s1)[u := ?m]\<rparr>)"
  have st: "GET_STATUS (mb_dr s ! u) = 0" using still by (simp add: mbox_still_def)
  have w: "run_state (mbox_write_msg u m0 t) s = (None, s2)"
    using wait_status_seen [OF st, of t] by (simp add: mbox_write_msg_def s1_def s2_def)
  obtain rs1 where s1: "mbox_still u w s1" "mb_sse s1 = mb_sse s" "mb_resets s1 = mb_resets s @ rs1"
    using tick_still [OF still(1)] by (auto simp: s1_def)
  have "mbox_due u ?m s (6 - steps_in (take 1 (mb_sched s1))) s2"
    unfolding s2_def using tick_due [OF m post_due [OF s1(1) m s1(2,3)]] by simp
  then have d2: "mbox_due u ?m s 6 s2" by (rule due_mono) simp
  have sched: "mb_sched s2 = drop 2 (mb_sched s)"
    by (simp add: s2_def s1_def drop_Suc numeral_2_eq_2)
  obtain ret0 s3 where r: "run_state (mbox_wait_status u 2 t) s2 = (ret0, s3)" by fastforce
  note ws = wait_status_due [OF m d2 r, unfolded sched]
  show ?thesis
  proof (cases ret0)
    case None
    then have a: "mbox_answered u ?m s s3" using ws by blast
    let ?v = "SET_STATUS (mb_answer (mb_sse s) ?m) 2"
    have v: "mb_dr s3 ! u = ?v" "mbox_still u ?v s3" using a by (simp_all add: mbox_answered_def mbox_still_def)
    obtain rs where rs: "mb_resets s3 = mb_resets s @ rs" "set (mb_effect (mb_sse s) ?m) \<subseteq> set rs"
      using a by (auto simp: mbox_answered_def)
    obtain rs4 where t4: "mbox_still u ?v (mbox_tick s3)" "mb_resets (mbox_tick s3) = mb_resets s3 @ rs4"
      using tick_still [OF v(2)] by blast
    have z: "GET_STATUS 0 \<noteq> 1" by (simp add: GET_STATUS_def)
    obtain rs5 where t5: "mbox_still u 0 s'" "mb_resets s' = mb_resets s3 @ rs4 @ rs5" "ret = None" "x = ?v"
      using run w r None v(1) tick_still [OF still_set [OF t4(1) z]] t4(2)
      by (auto simp: transact_def mbox_read_response_def mbox_clear_msg_def)
    show ?thesis using t5 rs by auto
  next
    case (Some e)
    then have "ret = Some e" "x = m0" using run w r by (simp_all add: transact_def mbox_read_response_def mbox_clear_msg_def)
    then show ?thesis using ws Some by auto
  qed
qed

section \<open>The properties\<close>

text \<open>The queue, in the numbering of function \<open>u\<close>, that the hardware lists for its cluster or SDNN.\<close>

definition local_cluster_hwq :: "sse_regs \<Rightarrow> nat \<Rightarrow> nat \<Rightarrow> u32w" where
  "local_cluster_hwq r u cl =
     take_bit 4 (kl2_sse_cluster_map_hwq r u (of_nat cl + of_nat u * kl2_sse_get_cluster_number r 0) -
                 of_nat u * kl2_sse_get_hwq_number r 0)"

definition local_sdnn_hwq :: "sse_regs \<Rightarrow> nat \<Rightarrow> nat \<Rightarrow> u32w" where
  "local_sdnn_hwq r u sd =
     take_bit 4 (kl2_sse_sdnn_map_hwq r u (of_nat sd + of_nat u * kl2_sse_get_sdnn_number r 0) -
                 of_nat u * kl2_sse_get_hwq_number r 0)"

lemma small_field: "x < 16 \<Longrightarrow> take_bit 4 (of_nat x :: u32w) = of_nat x" "x < 16 \<Longrightarrow> unat (of_nat x :: u32w) = x"
  by (simp_all add: take_bit_of_nat take_bit_nat_eq_self unat_of_nat)

lemma small_codes: "take_bit 4 (1 :: u32w) = 1" "take_bit 4 (2 :: u32w) = 2" "take_bit 4 (3 :: u32w) = 3"
  "take_bit 4 (4 :: u32w) = 4" "take_bit 4 (5 :: u32w) = 5" "take_bit 4 (0 :: u32w) = 0"
  by simp_all

lemma unit_number:
  assumes "x + u * unat n < 8"
  shows "unat (of_nat x + of_nat u * n :: u32w) = x + u * unat n"
    "unat (push_bit 2 (of_nat x + of_nat u * n :: u32w)) < 32"
proof -
  have e: "of_nat x + of_nat u * n = (of_nat (x + u * unat n) :: u32w)" by simp
  show "unat (of_nat x + of_nat u * n :: u32w) = x + u * unat n"
    unfolding e unat_of_nat using assms by (simp add: take_bit_nat_eq_self)
  show "unat (push_bit 2 (of_nat x + of_nat u * n :: u32w)) < 32"
    unfolding e push_bit_of_nat unat_of_nat using assms by (simp add: push_bit_eq_mult take_bit_nat_eq_self)
qed

definition request_new :: "u32w \<Rightarrow> nat \<Rightarrow> nat \<Rightarrow> nat \<Rightarrow> u32w" where
  "request_new ty u sd cl = SET_STATUS (request ty (of_nat u) (of_nat sd) (of_nat cl)) 1"

lemma request_new_fields:
  assumes "u < 3" "sd < 16" "cl < 16" "ty \<in> {1, 2, 3, 4, 5}"
  shows "GET_STATUS (request_new ty u sd cl) = 1" "GET_MSG_TYPE (request_new ty u sd cl) = ty"
    "GET_SRC_USER_ID (request_new ty u sd cl) = of_nat u" "GET_SDNN_ID (request_new ty u sd cl) = of_nat sd"
    "GET_CLUSTER_ID (request_new ty u sd cl) = of_nat cl" "GET_HWQ_ID (request_new ty u sd cl) = 0"
proof -
  have "take_bit 4 ty = ty" using assms(4) by auto
  then show "GET_STATUS (request_new ty u sd cl) = 1" "GET_MSG_TYPE (request_new ty u sd cl) = ty"
    "GET_SRC_USER_ID (request_new ty u sd cl) = of_nat u" "GET_SDNN_ID (request_new ty u sd cl) = of_nat sd"
    "GET_CLUSTER_ID (request_new ty u sd cl) = of_nat cl" "GET_HWQ_ID (request_new ty u sd cl) = 0"
    using assms small_field(1) [of u] small_field(1) [of sd] small_field(1) [of cl]
    by (simp_all add: request_new_def status_fields request_fields)
qed

lemma request_ok:
  assumes "u < 3" "sd < 8" "cl < 8" "ty \<in> {1, 2, 3, 4, 5}"
    "cl + u * unat (kl2_sse_get_cluster_number r 0) < 8" "sd + u * unat (kl2_sse_get_sdnn_number r 0) < 8"
  shows "message_ok u (request_new ty u sd cl) r"
proof -
  have l: "u < 3" "sd < 16" "cl < 16" using assms by simp_all
  note f = request_new_fields [OF l assms(4)]
  have "unat (of_nat u :: u32w) = u" using assms(1) by (simp add: small_field)
  then show ?thesis
    using assms(1,4) f unit_number(2) [OF assms(5)] unit_number(2) [OF assms(6)]
    by (auto simp: message_ok_def answerable_def phys_unit_def)
qed

text \<open>The steps of the thread between the access after the posting of a message and the last poll.\<close>

definition thread_runs :: "nat \<Rightarrow> mbox_sys \<Rightarrow> bool" where
  "thread_runs t s \<longleftrightarrow> 6 \<le> steps_in (take (t * 20) (drop 2 (mb_sched s)))"

definition new_resets :: "mbox_sys \<Rightarrow> mbox_sys \<Rightarrow> unit_reset set" where
  "new_resets s s' = set (drop (length (mb_resets s)) (mb_resets s'))"

lemma transact_request:
  assumes still: "mbox_still u w s" "GET_STATUS w = 0"
    and m: "message_ok u (request_new ty u sd cl) (mb_sse s)"
    and run: "run_state (transact u (request ty (of_nat u) (of_nat sd) (of_nat cl)) t) s = ((ret, x), s')"
  shows "(x = SET_STATUS (mb_answer (mb_sse s) (request_new ty u sd cl)) 2 \<and> mbox_still u 0 s' \<and>
          set (mb_effect (mb_sse s) (request_new ty u sd cl)) \<subseteq> new_resets s s') \<or>
         \<not> thread_runs t s \<and> x = request ty (of_nat u) (of_nat sd) (of_nat cl)"
  using transact_ok [OF still m [unfolded request_new_def] run]
  by (cases ret) (auto simp: thread_runs_def request_new_def new_resets_def)


definition demo_sse :: sse_regs where
  "demo_sse = \<lparr>sse_xpu_info = \<lambda>_. 0x30003, sse_queue_info = \<lambda>_. 6, sse_cluster_map = \<lambda>_. 0x876000,
               sse_sdnn_map = \<lambda>_. 0x876000, sse_busy_status = 0\<rparr>"

definition demo_mbox :: mbox_sys where
  "demo_mbox = \<lparr>mb_dr = [0, 0, 0], mb_sse = demo_sse, mb_pf = Pf_At 0, mb_resets = [], mb_fault = False,
                mb_sched = [[], [Pf_Step], [Pf_Step, Pf_Step], [Other_Vf 0 0x30000000, Pf_Step, Pf_Step], [Pf_Step, Pf_Step]]\<rparr>"


section \<open>Answers nobody collects\<close>

lemma transact_stale:
  assumes "mbox_still u w s" "GET_STATUS w = 2"
  shows "\<exists>s'. mbox_still u 0 s' \<and> (\<forall>m0. run_state (transact u m0 t) s = ((None, w), s'))"
proof -
  obtain s1 where s1: "run_state (mbox_wait_status u 0 t) s = (Some ETIMEDOUT, s1)" "mbox_still u w s1"
    using wait_status_still [OF assms(1), of 0 t] assms(2) by auto
  let ?s2 = "mbox_tick s1" and ?s3 = "mbox_tick (mbox_tick s1)"
  have s2: "mbox_still u w ?s2" "mbox_still u w ?s3" using tick_still s1(2) by blast+
  have dr: "mb_dr s1 ! u = w" "mb_dr ?s2 ! u = w" using s1(2) s2 by (simp_all add: mbox_still_def)
  have seen: "run_state (mbox_wait_status u 2 t) s1 = (None, ?s2)"
    using wait_status_seen [of s1 u 2 t] dr assms(2) by simp
  have z: "GET_STATUS 0 \<noteq> 1" by (simp add: GET_STATUS_def)
  have "mbox_still u 0 (mbox_tick (?s3\<lparr>mb_dr := (mb_dr ?s3)[u := 0]\<rparr>))"
    using tick_still [OF still_set [OF s2(2) z]] by blast
  moreover have "run_state (transact u m0 t) s = ((None, w), mbox_tick (?s3\<lparr>mb_dr := (mb_dr ?s3)[u := 0]\<rparr>))" for m0
    using s1(1) seen dr by (simp add: transact_def mbox_write_msg_def mbox_read_response_def mbox_clear_msg_def)
  ultimately show ?thesis by blast
qed

text \<open>Posting the busy request: the function returns at once, and the thread answers afterwards.\<close>

lemma busy_posted:
  assumes still: "mbox_still u w s" "GET_STATUS w = 0"
    and m: "message_ok u (request_new 5 u 0 0) (mb_sse s)"
    and enough: "6 \<le> steps_in (take 1 (drop 2 (mb_sched s)))"
    and run: "run_state (mbox_req_xpu_busy_status_vf u b) s = (r, s')"
  shows "r = (Some EAGAIN, b) \<and> mbox_still u (SET_STATUS (mb_answer (mb_sse s) (request_new 5 u 0 0)) 2) s'"
proof -
  let ?m = "request_new 5 u 0 0"
  define s1 where "s1 = mbox_tick s"
  define s2 where "s2 = mbox_tick s1"
  define s3 where "s3 = mbox_tick (s2\<lparr>mb_dr := (mb_dr s2)[u := ?m]\<rparr>)"
  obtain rs1 where s1: "mbox_still u w s1" "mb_sse s1 = mb_sse s" "mb_resets s1 = mb_resets s @ rs1"
    using tick_still [OF still(1)] by (auto simp: s1_def)
  obtain rs2 where s2: "mbox_still u w s2" "mb_sse s2 = mb_sse s" "mb_resets s2 = mb_resets s @ rs2"
    using tick_still [OF s1(1)] s1(2,3) by (auto simp: s2_def)
  have dr: "mb_dr s ! u = w" "mb_dr s1 ! u = w" using still s1 by (simp_all add: mbox_still_def)
  have "take 1 (mb_sched s2) = take 1 (drop 2 (mb_sched s))"
    by (simp add: s2_def s1_def drop_Suc numeral_2_eq_2)
  then have k: "6 - steps_in (take 1 (mb_sched (s2\<lparr>mb_dr := (mb_dr s2)[u := ?m]\<rparr>))) = 0" using enough by simp
  have "mbox_due u ?m s 0 s3"
    unfolding s3_def using tick_due [OF m post_due [OF s2(1) m s2(2,3)]] unfolding k .
  then have a: "mbox_still u (SET_STATUS (mb_answer (mb_sse s) ?m) 2) s3"
    using due_0 by (simp add: mbox_answered_def)
  have e: "SET_SRC_USER_ID (SET_MSG_TYPE 0 5) (of_nat u) = request 5 (of_nat u) 0 0"
    by (simp add: request_def field_set)
  have st: "GET_STATUS (mb_dr s1 ! u) = 0" using dr still(2) by simp
  have "run_state (mbox_req_xpu_busy_status_vf u b) s = ((Some EAGAIN, b), s3)"
    using dr still(2) wait_status_seen [OF st, of 50]
    by (simp add: mbox_req_xpu_busy_status_vf_def mbox_is_msg_responsed_def mbox_write_msg_def e Let_def
        s1_def s2_def s3_def request_new_def)
  then show ?thesis using run a by simp
qed

lemma busy_hwq_bits: "GET_HWQ_ID (SET_XPU_BUSY_STATUS m v) = GET_HWQ_ID m OR take_bit 4 (drop_bit 8 v)"
  unfolding field_get field_set by (auto intro!: bit_eqI simp: bit_simps)

text \<open>
  C36: an answer that nobody collects is taken for the next one. A virtual function asks for the busy
  status of its units, which returns \<^verbatim>\<open>EAGAIN\<close>, and the thread answers. Unless the function asks for the
  busy status again, the next request of any other kind is never posted: its wait for an empty
  register times out, the error is ignored, and the answer in the register is taken for its own. A
  request for a queue returns bits 11:8 of the busy status, a reset resets nothing, whatever
  the unit, and all of them leave the same state.
\<close>

theorem mbox_stale_answer:
  assumes "mbox_still u w s" "GET_STATUS w = 0" "6 \<le> steps_in (take 1 (drop 2 (mb_sched s)))"
    and "u * unat (kl2_sse_get_cluster_number (mb_sse s) 0) < 8"
    and "u * unat (kl2_sse_get_sdnn_number (mb_sse s) 0) < 8"
    and "run_state (mbox_req_xpu_busy_status_vf u b) s = (r, s1)"
  shows "r = (Some EAGAIN, b) \<and>
         (\<exists>s'. mbox_still u 0 s' \<and>
            (\<forall>x. (let q = take_bit 4 (drop_bit 8 (make_vf_xpu_busy_status (mb_sse s) (of_nat u) (sse_busy_status (mb_sse s))))
                 in run_state (mbox_request_cluster_hwqid_vf u x t) s1 = (q, s') \<and>
                    run_state (mbox_request_sdnn_hwqid_vf u x t) s1 = (q, s')) \<and>
                 run_state (mbox_reset_cluster_vf u x t) s1 = (None, s') \<and>
                 run_state (mbox_reset_sdnn_vf u x t) s1 = (None, s')))"
proof -
  let ?m = "request_new 5 u 0 0" and ?w = "SET_STATUS (mb_answer (mb_sse s) (request_new 5 u 0 0)) 2"
  have u: "u < 3" using assms(1) by (simp add: mbox_still_def others_ok_def)
  have m: "message_ok u ?m (mb_sse s)" by (rule request_ok) (use u assms(4,5) in simp_all)
  have p: "r = (Some EAGAIN, b)" "mbox_still u ?w s1"
    using busy_posted [OF assms(1,2) m assms(3,6)] by blast+
  have st: "GET_STATUS ?w = 2" by (simp add: status_fields)
  obtain s' where s': "mbox_still u 0 s'" "\<And>m0. run_state (transact u m0 t) s1 = ((None, ?w), s')"
    using transact_stale [OF p(2) st] by blast
  have "GET_HWQ_ID ?w = take_bit 4 (drop_bit 8 (make_vf_xpu_busy_status (mb_sse s) (of_nat u) (sse_busy_status (mb_sse s))))"
    using request_new_fields [OF u, of 0 0 5] by (simp add: mb_answer_def Let_def status_fields busy_hwq_bits)
  then show ?thesis using p(1) s' by (auto simp: request_transact Let_def)
qed

text \<open>
  With one virtual function and the first SDNN units busy, the answer is queue 15, and a device
  has 12 queues.
\<close>

definition busy_mbox :: mbox_sys where
  "busy_mbox = \<lparr>mb_dr = [0, 0, 0],
     mb_sse = \<lparr>sse_xpu_info = \<lambda>_. 0x60008, sse_queue_info = \<lambda>_. 12, sse_cluster_map = \<lambda>_. 0, sse_sdnn_map = \<lambda>_. 0,
               sse_busy_status = 0xf00\<rparr>,
     mb_pf = Pf_At 0, mb_resets = [], mb_fault = False, mb_sched = [[], [], replicate 6 Pf_Step]\<rparr>"

lemma mbox_stale_answer_witness:
  "fst (run_state (mbox_request_cluster_hwqid_vf 0 3 200)
     (snd (run_state (mbox_req_xpu_busy_status_vf 0 0) busy_mbox))) = 15"
proof -
  have s: "mbox_still 0 0 busy_mbox"
    by (auto simp: mbox_still_def others_ok_def pf_clean_def busy_mbox_def GET_STATUS_def GET_SRC_USER_ID_def
        less_Suc_eq numeral_3_eq_3)
  have b: "make_vf_xpu_busy_status (mb_sse busy_mbox) (of_nat 0) (sse_busy_status (mb_sse busy_mbox)) = 0xf00"
    by (simp add: make_vf_xpu_busy_status_def busy_mbox_def kl2_sse_get_cluster_number_def Let_def)
  have k: "6 \<le> steps_in (take 1 (drop 2 (mb_sched busy_mbox)))"
    by (simp add: busy_mbox_def steps_in_def act_steps_def sum_list_replicate)
  have q: "take_bit 4 (drop_bit 8 (0xf00 :: u32w)) = 15" by (simp add: drop_bit_eq_div)
  obtain r s1 where run: "run_state (mbox_req_xpu_busy_status_vf 0 0) busy_mbox = (r, s1)" by fastforce
  show ?thesis
    using mbox_stale_answer [OF s _ k _ _ run, of 200] b q run by (auto simp: GET_STATUS_def Let_def)
qed

text \<open>
  The physical function believes a message: any virtual function has any unit reset, and a user
  number above 2 makes it read outside of its table.
\<close>

lemma pf_believes_message:
  assumes "x < 16" "mb_pf s = Pf_At 0" "mb_dr s = request_new 3 0 0 x # rest" "length rest = 2"
  shows "mb_resets (pf_step (pf_step s)) = mb_resets s @ [Reset_cluster x]"
proof -
  have f: "GET_STATUS (request_new 3 0 0 x) = 1" "GET_MSG_TYPE (request_new 3 0 0 x) = 3"
      "GET_SRC_USER_ID (request_new 3 0 0 x) = 0" "GET_CLUSTER_ID (request_new 3 0 0 x) = of_nat x"
    using request_new_fields [of 0 0 x 3] assms(1) by simp_all
  have "answerable (mb_sse s) (request_new 3 0 0 x)" using f by (simp add: answerable_def)
  then show ?thesis
    using assms f by (simp add: pf_step_def Let_def handle_answerable mb_effect_def phys_unit_def small_field)
qed

lemma pf_reads_outside:
  assumes "mb_pf s = Pf_At 0" "mb_dr s = SET_STATUS (request 3 3 0 0) 1 # rest"
  shows "mb_fault (pf_step (pf_step s))"
proof -
  have f: "GET_STATUS (SET_STATUS (request 3 3 0 0) 1) = 1" "GET_MSG_TYPE (SET_STATUS (request 3 3 0 0) 1) = 3"
      "GET_SRC_USER_ID (SET_STATUS (request 3 3 0 0) 1) = 3"
    by (simp_all add: status_fields request_fields)
  then show ?thesis using assms by (simp add: pf_step_def Let_def handlers)
qed
end
