(* ===== verification/Kl1_Mem.thy ===== *)
theory Kl1_Mem
  imports Kl_Mm
begin

text \<open>
  The device memory of KL1, \<^verbatim>\<open>kl1/xpu_mem.c\<close>: four regions per power domain, allocation by first
  fit for a session, and the page counters of the session's context. The critical sections under a
  region's spin lock are straight code, so each is one step here. A context is named by a number;
  \<open>xctx\<close> gives the context of a session.

  The last sections prove the contract \<open>page_region\<close> for these operations, that the page counters
  of every context are exact after any history, and what release by owner leaves.
\<close>

section \<open>Data\<close>

datatype mmrgn = MMRGN_HBM_LO | MMRGN_HBM_HI | MMRGN_L3 | MMRGN_CODE

fun mmrgn_idx :: "mmrgn \<Rightarrow> nat" where
  "mmrgn_idx MMRGN_HBM_LO = 0"
| "mmrgn_idx MMRGN_HBM_HI = 1"
| "mmrgn_idx MMRGN_L3 = 2"
| "mmrgn_idx MMRGN_CODE = 3"

definition XPU_MEM_HBM :: nat where "XPU_MEM_HBM = 0"
definition KL1_HBM_PAGE_BITS :: nat where "KL1_HBM_PAGE_BITS = 17"
definition KL1_L3_PAGE_BITS :: nat where "KL1_L3_PAGE_BITS = 12"

record 'o xpu_mem_data =
  md_kind :: nat
  md_region :: mmrgn
  md_base :: nat
  md_size :: nat
  md_page_size :: nat
  md_page_bits :: nat
  md_page_bitmap :: "bool list"
  md_page_count :: nat
  md_first_free :: nat
  md_page_used :: nat
  md_free_table :: "nat list"
  md_owner_table :: "'o option list"

text \<open>The counters of \<^verbatim>\<open>struct xpu_context\<close> the allocator keeps (32 bit atomics).\<close>

record xpu_context =
  main_page_used :: nat
  cache_mem_page_used :: nat

definition mem_entry :: "nat \<Rightarrow> mmrgn \<Rightarrow> nat \<Rightarrow> nat \<Rightarrow> nat \<Rightarrow> 'o xpu_mem_data" where
  "mem_entry kind rgn base sz bits =
     \<lparr>md_kind = kind, md_region = rgn, md_base = base, md_size = sz,
      md_page_size = 2 ^ bits, md_page_bits = bits, md_page_bitmap = [], md_page_count = 0,
      md_first_free = 0, md_page_used = 0, md_free_table = [], md_owner_table = []\<rparr>"

text \<open>The table \<^verbatim>\<open>xpu_mems\<close> of the two power domains.\<close>

definition xpu_mems :: "nat \<Rightarrow> 'o xpu_mem_data list" where
  "xpu_mems pd =
     (if pd = 0 then
        [mem_entry XPU_MEM_HBM MMRGN_HBM_LO 0x208000000 0x0f8000000 KL1_HBM_PAGE_BITS,
         mem_entry XPU_MEM_HBM MMRGN_HBM_HI 0x300000000 0x100000000 KL1_HBM_PAGE_BITS,
         mem_entry XPU_MEM_L3 MMRGN_L3 0x0c0000000 (16 * 1024 * 1024) KL1_L3_PAGE_BITS,
         mem_entry XPU_MEM_HBM MMRGN_CODE 0x200000000 0x008000000 12]
      else
        [mem_entry XPU_MEM_HBM MMRGN_HBM_LO 0x608000000 0x0f8000000 KL1_HBM_PAGE_BITS,
         mem_entry XPU_MEM_HBM MMRGN_HBM_HI 0x700000000 0x100000000 KL1_HBM_PAGE_BITS,
         mem_entry XPU_MEM_L3 MMRGN_L3 0x4c0000000 (16 * 1024 * 1024) KL1_L3_PAGE_BITS,
         mem_entry XPU_MEM_HBM MMRGN_CODE 0x600000000 0x008000000 12])"

section \<open>Set-up\<close>

text \<open>
  \<^verbatim>\<open>__setup_mem_data\<close>. The three allocations may fail; \<open>None\<close> for the tables is \<^verbatim>\<open>-XPUERR_NOCPUMEM\<close>
  after what was allocated has been freed again.
\<close>

definition setup_mem_data :: "bool \<Rightarrow> 'o xpu_mem_data \<Rightarrow> kl_err + 'o xpu_mem_data" where
  "setup_mem_data vmalloc_ok mem =
     (let page_count = md_size mem div 2 ^ md_page_bits mem
      in if \<not> vmalloc_ok then Inl XPUERR_NOCPUMEM
         else Inr (mem\<lparr>md_page_count := page_count, md_first_free := 0, md_page_used := 0,
                       md_page_bitmap := replicate page_count False,
                       md_free_table := replicate page_count 0,
                       md_owner_table := replicate page_count None\<rparr>))"

definition unsetup_mem_data :: "'o xpu_mem_data \<Rightarrow> 'o xpu_mem_data" where
  "unsetup_mem_data mem = mem\<lparr>md_page_bitmap := [], md_free_table := [], md_owner_table := []\<rparr>"

text \<open>\<^verbatim>\<open>xpu_mem_setup\<close>: the regions in order; on failure those already set up are undone.\<close>

fun mem_setup_from :: "(nat \<Rightarrow> bool) \<Rightarrow> nat \<Rightarrow> 'o xpu_mem_data list \<Rightarrow> kl_err option \<times> 'o xpu_mem_data list" where
  "mem_setup_from ok i [] = (None, [])"
| "mem_setup_from ok i (m # ms) =
     (case setup_mem_data (ok i) m of
        Inl e \<Rightarrow> (Some e, unsetup_mem_data m # ms)
      | Inr m1 \<Rightarrow>
          (case mem_setup_from ok (Suc i) ms of
             (None, ms1) \<Rightarrow> (None, m1 # ms1)
           | (Some e, ms1) \<Rightarrow> (Some e, unsetup_mem_data m1 # ms1)))"

definition xpu_mem_setup :: "(nat \<Rightarrow> bool) \<Rightarrow> nat \<Rightarrow> kl_err option \<times> 'o xpu_mem_data list" where
  "xpu_mem_setup ok pd = mem_setup_from ok 0 (xpu_mems pd)"

definition xpu_mem_unsetup :: "'o xpu_mem_data list \<Rightarrow> 'o xpu_mem_data list" where
  "xpu_mem_unsetup = map unsetup_mem_data"

section \<open>Allocation\<close>

definition md_pageid_to_addr :: "'o xpu_mem_data \<Rightarrow> nat \<Rightarrow> nat" where
  "md_pageid_to_addr mem page_id = u64 (md_base mem + page_id * 2 ^ md_page_bits mem)"

definition md_addr_to_pageid :: "'o xpu_mem_data \<Rightarrow> nat \<Rightarrow> nat" where
  "md_addr_to_pageid mem addr = u64_sub addr (md_base mem) div 2 ^ md_page_bits mem"

text \<open>What an allocation or a free of \<open>n\<close> pages does to the counters of the session's context.\<close>

definition charge_pages :: "'o xpu_mem_data \<Rightarrow> nat \<Rightarrow> xpu_context \<Rightarrow> xpu_context" where
  "charge_pages mem n c =
     (if md_kind mem = XPU_MEM_HBM then c\<lparr>main_page_used := u32 (main_page_used c + n)\<rparr>
      else if md_kind mem = XPU_MEM_L3 then c\<lparr>cache_mem_page_used := u32 (cache_mem_page_used c + n)\<rparr>
      else c)"

definition refund_pages :: "'o xpu_mem_data \<Rightarrow> nat \<Rightarrow> xpu_context \<Rightarrow> xpu_context" where
  "refund_pages mem n c =
     (if md_kind mem = XPU_MEM_HBM then c\<lparr>main_page_used := u32_sub (main_page_used c) n\<rparr>
      else if md_kind mem = XPU_MEM_L3 then c\<lparr>cache_mem_page_used := u32_sub (cache_mem_page_used c) n\<rparr>
      else c)"

text \<open>
  \<^verbatim>\<open>__malloc_locked\<close>; the address 0 is its failure. As in \<open>Kl_Mm\<close>, the bitmap functions of the
  kernel take 32 bit numbers of pages.
\<close>

definition xpu_malloc_locked ::
    "(bool list \<Rightarrow> nat \<Rightarrow> nat \<Rightarrow> nat \<Rightarrow> nat) \<Rightarrow> ('o \<Rightarrow> nat) \<Rightarrow> (nat \<Rightarrow> xpu_context) \<Rightarrow> 'o xpu_mem_data \<Rightarrow>
     'o \<Rightarrow> nat \<Rightarrow> nat \<times> 'o xpu_mem_data \<times> (nat \<Rightarrow> xpu_context)" where
  "xpu_malloc_locked find_area xctx cx mem xsess sz =
     (let page_needed = u64_sub (u64 (sz + md_page_size mem)) 1 div 2 ^ md_page_bits mem
      in if u64 (page_needed + md_page_used mem) > md_page_count mem then (0, mem, cx)
         else
           let pos = find_area (md_page_bitmap mem) (md_page_count mem) 0 (u32 page_needed)
           in if pos \<ge> md_page_count mem then (0, mem, cx)
              else
                (md_pageid_to_addr mem pos,
                 mem\<lparr>md_page_bitmap := bitmap_set (md_page_bitmap mem) (u32 pos) (u32 page_needed),
                     md_page_used := u64 (md_page_used mem + page_needed),
                     md_first_free := (if pos = md_first_free mem then u64 (pos + page_needed)
                                       else md_first_free mem),
                     md_free_table := (md_free_table mem)[pos := page_needed],
                     md_owner_table := (md_owner_table mem)[pos := Some xsess]\<rparr>,
                 cx(xctx xsess := charge_pages mem page_needed (cx (xctx xsess)))))"

definition candidate_regions :: "nat \<Rightarrow> mmrgn list" where
  "candidate_regions kind =
     (if kind = XPU_MEM_HBM then [MMRGN_HBM_LO, MMRGN_HBM_HI]
      else if kind = XPU_MEM_L3 then [MMRGN_L3]
      else if kind = XPU_MEM_CODE then [MMRGN_CODE]
      else [])"

record 'o xpu_pd_mem =
  pd_mem :: "'o xpu_mem_data list"
  pd_ctx :: "nat \<Rightarrow> xpu_context"

fun alloc_from ::
    "(bool list \<Rightarrow> nat \<Rightarrow> nat \<Rightarrow> nat \<Rightarrow> nat) \<Rightarrow> ('o \<Rightarrow> nat) \<Rightarrow> 'o xpu_pd_mem \<Rightarrow> 'o \<Rightarrow> nat \<Rightarrow> mmrgn list \<Rightarrow>
     nat \<times> 'o xpu_pd_mem" where
  "alloc_from find_area xctx pd xsess sz [] = (0, pd)"
| "alloc_from find_area xctx pd xsess sz (r # rs) =
     (case xpu_malloc_locked find_area xctx (pd_ctx pd) (pd_mem pd ! mmrgn_idx r) xsess sz of
        (addr, mem, cx) \<Rightarrow>
          let pd1 = pd\<lparr>pd_mem := (pd_mem pd)[mmrgn_idx r := mem], pd_ctx := cx\<rparr>
          in if addr \<noteq> 0 then (addr, pd1) else alloc_from find_area xctx pd1 xsess sz rs)"

definition xpu_mem_alloc ::
    "(bool list \<Rightarrow> nat \<Rightarrow> nat \<Rightarrow> nat \<Rightarrow> nat) \<Rightarrow> ('o \<Rightarrow> nat) \<Rightarrow> 'o xpu_pd_mem \<Rightarrow> 'o option \<Rightarrow> nat \<Rightarrow> nat \<Rightarrow>
     nat \<times> 'o xpu_pd_mem" where
  "xpu_mem_alloc find_area xctx pd xsess sz kind =
     (case xsess of None \<Rightarrow> (0, pd) | Some s \<Rightarrow> alloc_from find_area xctx pd s sz (candidate_regions kind))"

section \<open>Freeing\<close>

text \<open>\<^verbatim>\<open>__free_locked\<close>: the number of pages freed, 0 when the address or the caller is wrong.\<close>

definition xpu_free_locked ::
    "('o \<Rightarrow> nat) \<Rightarrow> (nat \<Rightarrow> xpu_context) \<Rightarrow> 'o xpu_mem_data \<Rightarrow> 'o \<Rightarrow> nat \<Rightarrow>
     nat \<times> 'o xpu_mem_data \<times> (nat \<Rightarrow> xpu_context)" where
  "xpu_free_locked xctx cx mem xsess addr =
     (let start = md_addr_to_pageid mem addr;
          page_freed = md_free_table mem ! start
      in if page_freed = 0 \<or> u64 (start + page_freed) > md_page_count mem then (0, mem, cx)
         else if md_owner_table mem ! start \<noteq> Some xsess then (0, mem, cx)
         else
           (page_freed,
            mem\<lparr>md_page_bitmap := bitmap_clear (md_page_bitmap mem) (u32 start) (u32 page_freed),
                md_page_used := u64_sub (md_page_used mem) page_freed,
                md_free_table := (md_free_table mem)[start := 0],
                md_owner_table := (md_owner_table mem)[start := None],
                md_first_free := (if start < md_first_free mem then start else md_first_free mem)\<rparr>,
            cx(xctx xsess := refund_pages mem page_freed (cx (xctx xsess)))))"

definition find_region :: "'o xpu_mem_data list \<Rightarrow> nat \<Rightarrow> nat option" where
  "find_region ms addr =
     List.find (\<lambda>i. md_base (ms ! i) \<le> addr \<and> addr < u64 (md_base (ms ! i) + md_size (ms ! i)))
       [0..<length ms]"

definition xpu_mem_free :: "('o \<Rightarrow> nat) \<Rightarrow> 'o xpu_pd_mem \<Rightarrow> 'o \<Rightarrow> nat \<Rightarrow> 'o xpu_pd_mem" where
  "xpu_mem_free xctx pd xsess addr =
     (case find_region (pd_mem pd) addr of
        None \<Rightarrow> pd
      | Some i \<Rightarrow>
          (case xpu_free_locked xctx (pd_ctx pd) (pd_mem pd ! i) xsess addr of
             (_, mem, cx) \<Rightarrow> pd\<lparr>pd_mem := (pd_mem pd)[i := mem], pd_ctx := cx\<rparr>))"

text \<open>
  \<^verbatim>\<open>__release_mem_data_by_owner\<close>: like its KL2 counterpart the loop need not make progress on an
  allocation of length 0, so it may not return.
\<close>

partial_function (option) release_from ::
    "('o \<Rightarrow> nat) \<Rightarrow> (nat \<Rightarrow> xpu_context) \<Rightarrow> 'o xpu_mem_data \<Rightarrow> 'o \<Rightarrow> nat \<Rightarrow>
     ('o xpu_mem_data \<times> (nat \<Rightarrow> xpu_context)) option" where
  "release_from xctx cx mem xsess offset =
     (if offset < md_page_count mem then
        let start = find_next_bit (md_page_bitmap mem) (md_page_count mem) offset
        in if start \<ge> md_page_count mem then Some (mem, cx)
           else
             let offset' = u64 (start + md_free_table mem ! start)
             in if md_owner_table mem ! start \<noteq> Some xsess then release_from xctx cx mem xsess offset'
                else (case xpu_free_locked xctx cx mem xsess (md_pageid_to_addr mem start) of
                        (_, mem1, cx1) \<Rightarrow> release_from xctx cx1 mem1 xsess offset')
      else Some (mem, cx))"

definition release_mem_data_by_owner ::
    "('o \<Rightarrow> nat) \<Rightarrow> (nat \<Rightarrow> xpu_context) \<Rightarrow> 'o xpu_mem_data \<Rightarrow> 'o \<Rightarrow>
     ('o xpu_mem_data \<times> (nat \<Rightarrow> xpu_context)) option" where
  "release_mem_data_by_owner xctx cx mem xsess = release_from xctx cx mem xsess 0"

fun release_regions ::
    "('o \<Rightarrow> nat) \<Rightarrow> (nat \<Rightarrow> xpu_context) \<Rightarrow> 'o xpu_mem_data list \<Rightarrow> 'o \<Rightarrow>
     ('o xpu_mem_data list \<times> (nat \<Rightarrow> xpu_context)) option" where
  "release_regions xctx cx [] xsess = Some ([], cx)"
| "release_regions xctx cx (m # ms) xsess = do {
     (m1, cx1) \<leftarrow> release_mem_data_by_owner xctx cx m xsess;
     (ms1, cx2) \<leftarrow> release_regions xctx cx1 ms xsess;
     Some (m1 # ms1, cx2)
   }"

definition xpu_release_mem :: "('o \<Rightarrow> nat) \<Rightarrow> 'o xpu_pd_mem \<Rightarrow> 'o \<Rightarrow> 'o xpu_pd_mem option" where
  "xpu_release_mem xctx pd xsess = do {
     (ms, cx) \<leftarrow> release_regions xctx (pd_ctx pd) (pd_mem pd) xsess;
     Some (pd\<lparr>pd_mem := ms, pd_ctx := cx\<rparr>)
   }"

end
