(* ===== verification/Kl1_Mem_Props.thy ===== *)
theory Kl1_Mem_Props
  imports Kl1_Mem
begin

text \<open>
  Properties of the KL1 device memory: what allocation, free and release by owner do to a region and
  to the page counters of the contexts, the interpretation of \<open>page_region\<close>, and the exactness of
  the counters after any history of calls on a power domain.
\<close>

section \<open>The invariant of a region\<close>

abbreviation md_blocks :: "'o xpu_mem_data \<Rightarrow> nat \<rightharpoonup> nat \<times> 'o" where
  "md_blocks m \<equiv> blocks (md_free_table m) (md_owner_table m)"

definition md_wf :: "'o xpu_mem_data \<Rightarrow> bool" where
  "md_wf m \<longleftrightarrow>
     tables_ok (md_page_count m) (md_page_bitmap m) (md_free_table m) (md_owner_table m) \<and>
     md_page_used m = sum_list (md_free_table m) \<and>
     0 < md_page_bits m \<and> md_page_bits m < 32 \<and> md_page_size m = 2 ^ md_page_bits m \<and>
     md_size m = md_page_count m * 2 ^ md_page_bits m \<and> md_page_count m < 2 ^ 32 \<and>
     0 < md_base m \<and> md_base m + md_size m < 2 ^ 64"

definition same_md :: "'o xpu_mem_data \<Rightarrow> 'o xpu_mem_data \<Rightarrow> bool" where
  "same_md m m' \<longleftrightarrow>
     md_kind m' = md_kind m \<and> md_region m' = md_region m \<and> md_base m' = md_base m \<and>
     md_size m' = md_size m \<and> md_page_bits m' = md_page_bits m \<and> md_page_size m' = md_page_size m \<and>
     md_page_count m' = md_page_count m"

lemma same_md_refl [simp]: "same_md m m"
  by (simp add: same_md_def)

lemma same_md_trans: "same_md a b \<Longrightarrow> same_md b c \<Longrightarrow> same_md a c"
  by (simp add: same_md_def)

lemma md_wf_tables: "md_wf m \<Longrightarrow>
    tables_ok (md_page_count m) (md_page_bitmap m) (md_free_table m) (md_owner_table m)"
  by (simp add: md_wf_def)

lemma md_addr:
  assumes wf: "md_wf m" and p: "p < md_page_count m"
  shows "md_pageid_to_addr m p = md_base m + p * 2 ^ md_page_bits m"
    and "md_addr_to_pageid m (md_pageid_to_addr m p) = p"
    and "md_base m \<le> md_pageid_to_addr m p" "md_pageid_to_addr m p < md_base m + md_size m"
    and "md_pageid_to_addr m p \<noteq> 0"
proof -
  have lt: "md_base m + p * 2 ^ md_page_bits m < md_base m + md_size m"
    using wf p by (simp add: md_wf_def)
  moreover have "md_base m + md_size m < 2 ^ 64" using wf by (simp add: md_wf_def)
  ultimately have lt64: "md_base m + p * 2 ^ md_page_bits m < 2 ^ 64" by linarith
  then show a: "md_pageid_to_addr m p = md_base m + p * 2 ^ md_page_bits m"
    by (simp add: md_pageid_to_addr_def kl_wrap)
  from a lt64 show "md_addr_to_pageid m (md_pageid_to_addr m p) = p"
    by (simp add: md_addr_to_pageid_def kl_wrap)
  from a lt wf show "md_base m \<le> md_pageid_to_addr m p" "md_pageid_to_addr m p < md_base m + md_size m"
    "md_pageid_to_addr m p \<noteq> 0" by (auto simp: md_wf_def)
qed

lemma md_addr_to_pageid_lt:
  assumes wf: "md_wf m" and a: "md_base m \<le> addr" "addr < md_base m + md_size m"
  shows "md_addr_to_pageid m addr < md_page_count m"
proof -
  from wf have "md_base m + md_size m < 2 ^ 64" by (simp add: md_wf_def)
  with a have "addr < 2 ^ 64" by linarith
  with a have "md_addr_to_pageid m addr = (addr - md_base m) div 2 ^ md_page_bits m"
    by (simp add: md_addr_to_pageid_def kl_wrap)
  moreover from wf a have "addr - md_base m < md_page_count m * 2 ^ md_page_bits m"
    by (auto simp: md_wf_def)
  ultimately show ?thesis by (simp add: less_mult_imp_div_less)
qed

section \<open>Pages charged to a context\<close>

text \<open>
  What a region contributes to the two counters of context \<open>c\<close>, and the statement that the
  counters are the contributions of this region on top of those of the others.
\<close>

definition hbm_pages :: "('o \<Rightarrow> nat) \<Rightarrow> nat \<Rightarrow> 'o xpu_mem_data \<Rightarrow> nat" where
  "hbm_pages xctx c m = (if md_kind m = XPU_MEM_HBM then owned xctx c (md_blocks m) else 0)"

definition l3_pages :: "('o \<Rightarrow> nat) \<Rightarrow> nat \<Rightarrow> 'o xpu_mem_data \<Rightarrow> nat" where
  "l3_pages xctx c m = (if md_kind m = XPU_MEM_L3 then owned xctx c (md_blocks m) else 0)"

definition charged ::
    "('o \<Rightarrow> nat) \<Rightarrow> (nat \<Rightarrow> nat) \<Rightarrow> (nat \<Rightarrow> nat) \<Rightarrow> (nat \<Rightarrow> xpu_context) \<Rightarrow> 'o xpu_mem_data \<Rightarrow> bool" where
  "charged xctx h l cx m \<longleftrightarrow>
     (\<forall>c. main_page_used (cx c) = h c + hbm_pages xctx c m \<and> h c + md_page_count m < 2 ^ 32 \<and>
          cache_mem_page_used (cx c) = l c + l3_pages xctx c m \<and> l c + md_page_count m < 2 ^ 32)"

lemma charged_take:
  assumes wf: "md_wf m" and ch: "charged xctx h l cx m" and wf': "md_wf m'" and same: "same_md m m'"
    and bl: "md_blocks m' = (md_blocks m)(p \<mapsto> (k, w))" "md_blocks m p = None"
  shows "charged xctx h l (cx(xctx w := charge_pages m k (cx (xctx w)))) m'"
proof -
  note fin = blocks_finite [OF md_wf_tables [OF wf]]
  note new = owned_new [OF fin bl(2), of xctx _ k w]
  have cnt: "md_page_count m' = md_page_count m" "md_kind m' = md_kind m" using same by (auto simp: same_md_def)
  have le: "owned xctx c (md_blocks m') \<le> md_page_count m" for c
    using owned_le [OF md_wf_tables [OF wf']] cnt by simp
  have u: "u32 (a + owned xctx (xctx w) (md_blocks m) + k) = a + owned xctx (xctx w) (md_blocks m) + k"
    if "a + md_page_count m < 2 ^ 32" for a
    using le [of "xctx w"] that new [of "xctx w"] by (simp add: bl kl_wrap)
  show ?thesis
    using ch u cnt new by (auto simp: charged_def hbm_pages_def l3_pages_def charge_pages_def bl XPU_MEM_HBM_def XPU_MEM_L3_def)
qed

lemma charged_release:
  assumes wf: "md_wf m" and ch: "charged xctx h l cx m" and same: "same_md m m'"
    and bl: "md_blocks m' = (md_blocks m)(p := None)" "md_blocks m p = Some (k, w)"
  shows "charged xctx h l (cx(xctx w := refund_pages m k (cx (xctx w)))) m'"
proof -
  note fin = blocks_finite [OF md_wf_tables [OF wf]]
  note gone = owned_gone [OF fin bl(2), of xctx]
  have cnt: "md_page_count m' = md_page_count m" "md_kind m' = md_kind m" using same by (auto simp: same_md_def)
  have le: "owned xctx c (md_blocks m) \<le> md_page_count m" for c
    using owned_le [OF md_wf_tables [OF wf]] by simp
  have u: "u32_sub (a + owned xctx (xctx w) (md_blocks m)) k = a + owned xctx (xctx w) ((md_blocks m)(p := None))"
    if "a + md_page_count m < 2 ^ 32" for a
    using le [of "xctx w"] that gone [of "xctx w"] by (simp add: kl_wrap)
  have o: "owned xctx c ((md_blocks m)(p := None)) = owned xctx c (md_blocks m)" if "xctx w \<noteq> c" for c
    using gone [of c] that by simp
  show ?thesis
    using ch u cnt o by (auto simp: charged_def hbm_pages_def l3_pages_def refund_pages_def bl XPU_MEM_HBM_def XPU_MEM_L3_def)
qed

section \<open>Operations on one region\<close>

definition md_cannot_serve :: "'o xpu_mem_data \<Rightarrow> nat \<Rightarrow> bool" where
  "md_cannot_serve m k \<longleftrightarrow>
     (\<forall>p. p + k \<le> md_page_count m \<longrightarrow> (\<exists>q n v. md_blocks m q = Some (n, v) \<and> \<not> apart p k q n))"

text \<open>The region \<open>m'\<close> is \<open>m\<close> with one new allocation of \<open>k\<close> pages at page \<open>p\<close>.\<close>

definition md_allocated :: "'o xpu_mem_data \<Rightarrow> nat \<Rightarrow> nat \<Rightarrow> 'o \<Rightarrow> 'o xpu_mem_data \<Rightarrow> bool" where
  "md_allocated m p k w m' \<longleftrightarrow>
     md_wf m' \<and> same_md m m' \<and> p + k \<le> md_page_count m \<and> md_blocks m p = None \<and>
     md_blocks m' = (md_blocks m)(p \<mapsto> (k, w))"

lemma xpu_malloc_cases:
  assumes fa: "zero_area_finder find_area" and wf: "md_wf m"
    and k: "k = pages_for (md_page_bits m) sz" "0 < k"
  shows "(xpu_malloc_locked find_area xctx cx m w sz = (0, m, cx) \<and> md_cannot_serve m k) \<or>
         (\<exists>p m'. xpu_malloc_locked find_area xctx cx m w sz =
              (md_pageid_to_addr m p, m', cx(xctx w := charge_pages m k (cx (xctx w)))) \<and>
            md_allocated m p k w m')"
proof -
  note ok = md_wf_tables [OF wf]
  have need: "u64_sub (u64 (sz + md_page_size m)) 1 div 2 ^ md_page_bits m = k"
    using wf k by (simp add: pages_for_def md_wf_def)
  have used: "md_page_used m \<le> md_page_count m" "md_page_count m < 2 ^ 32"
      "md_page_used m = sum_list (md_free_table m)"
    using wf pages_in_use_le [OF ok] by (auto simp: md_wf_def)
  have half: "k < 2 ^ 63" using pages_for_half [of "md_page_bits m" sz] wf k by (simp add: md_wf_def)
  have len: "md_page_count m \<le> length (md_page_bitmap m)" using tables_okD(1) [OF ok] by simp
  let ?pos = "find_area (md_page_bitmap m) (md_page_count m) 0 k"
  show ?thesis
  proof (cases "u64 (k + md_page_used m) \<le> md_page_count m \<and> ?pos < md_page_count m")
    case True
    from True half used have kc: "k \<le> md_page_count m" by (simp add: kl_wrap)
    with used have u: "u32 k = k" "u32 ?pos = ?pos" using True by (auto simp: kl_wrap)
    from zero_area_finder.found_fits [OF fa len, of 0 k] True
    have fit: "?pos + k \<le> md_page_count m" "area_free (md_page_bitmap m) ?pos k" by auto
    note t = tables_take [OF ok k(2) fit]
    have sum: "u64 (md_page_used m + k) = md_page_used m + k"
      using free_run_bound [OF ok fit(2,1)] used by (simp add: kl_wrap)
    define m' where "m' = m\<lparr>md_page_bitmap := bitmap_set (md_page_bitmap m) ?pos k,
        md_page_used := md_page_used m + k,
        md_first_free := (if ?pos = md_first_free m then u64 (?pos + k) else md_first_free m),
        md_free_table := (md_free_table m)[?pos := k],
        md_owner_table := (md_owner_table m)[?pos := Some w]\<rparr>"
    have "xpu_malloc_locked find_area xctx cx m w sz =
        (md_pageid_to_addr m ?pos, m', cx(xctx w := charge_pages m k (cx (xctx w))))"
      using True need u sum by (simp add: xpu_malloc_locked_def m'_def Let_def)
    moreover have "md_allocated m ?pos k w m'"
      using t fit wf used by (simp add: md_allocated_def m'_def md_wf_def same_md_def blocks_def)
    ultimately show ?thesis by blast
  next
    case False
    have "xpu_malloc_locked find_area xctx cx m w sz = (0, m, cx)"
    proof (cases "u64 (k + md_page_used m) \<le> md_page_count m")
      case True
      with half used have "k \<le> md_page_count m" by (simp add: kl_wrap)
      with used have "u32 k = k" by (simp add: kl_wrap)
      with True False need show ?thesis by (simp add: xpu_malloc_locked_def Let_def)
    next
      case False
      with need show ?thesis by (simp add: xpu_malloc_locked_def Let_def)
    qed
    moreover have "md_cannot_serve m k"
      unfolding md_cannot_serve_def
    proof (intro allI impI, rule ccontr)
      fix p assume pk: "p + k \<le> md_page_count m"
        and "\<nexists>q n v. md_blocks m q = Some (n, v) \<and> \<not> apart p k q n"
      then have fr: "area_free (md_page_bitmap m) p k" using apart_area_free [OF ok pk] by blast
      from zero_area_finder.found_first [OF fa len k(2) _ pk fr, of 0] pk k(2)
      have "?pos < md_page_count m" by simp
      moreover have "k + md_page_used m \<le> md_page_count m"
        using free_run_bound [OF ok fr pk] used by simp
      ultimately show False using False u64_le [of "k + md_page_used m"] by linarith
    qed
    ultimately show ?thesis by simp
  qed
qed

lemma xpu_free_own:
  assumes wf: "md_wf m" and p: "p = md_addr_to_pageid m addr" and b: "md_blocks m p = Some (k, w)"
  shows "\<exists>m'. xpu_free_locked xctx cx m w addr = (k, m', cx(xctx w := refund_pages m k (cx (xctx w)))) \<and>
           md_wf m' \<and> same_md m m' \<and> md_blocks m' = (md_blocks m)(p := None) \<and>
           md_free_table m' = (md_free_table m)[p := 0]"
proof -
  note ok = md_wf_tables [OF wf]
  from b have f: "p < md_page_count m" "md_free_table m ! p = k" "0 < k" "the (md_owner_table m ! p) = w"
    using tables_okD(2) [OF ok] by (auto simp: blocks_iff)
  have ow: "md_owner_table m ! p = Some w" using tables_okD(5) [OF ok f(1)] f by auto
  note t = tables_release [OF ok f(1-3)]
  have cnt: "md_page_count m < 2 ^ 32" "md_page_used m = sum_list (md_free_table m)"
    using wf by (auto simp: md_wf_def)
  with t(4) have u: "u32 p = p" "u32 k = k" "u64 (p + k) = p + k" by (auto simp: kl_wrap)
  have "u64_sub (md_page_used m) k = sum_list ((md_free_table m)[p := 0])"
    using t(3) cnt pages_in_use_le [OF ok] by (simp add: kl_wrap)
  with f ow u t(4) t wf show ?thesis
    by (simp add: xpu_free_locked_def p [symmetric] Let_def md_wf_def same_md_def)
qed

lemma xpu_free_other:
  assumes wf: "md_wf m" and p: "md_addr_to_pageid m addr < md_page_count m"
    and b: "\<nexists>k. md_blocks m (md_addr_to_pageid m addr) = Some (k, w)"
  shows "xpu_free_locked xctx cx m w addr = (0, m, cx)"
proof -
  have "md_free_table m ! md_addr_to_pageid m addr = 0 \<or>
      md_owner_table m ! md_addr_to_pageid m addr \<noteq> Some w"
    using b p tables_okD(2) [OF md_wf_tables [OF wf]] by (auto simp: blocks_iff)
  then show ?thesis by (auto simp: xpu_free_locked_def Let_def)
qed

lemma release_from_correct:
  assumes "md_wf m" and "boundary (md_free_table m) p" and "charged xctx h l cx m"
  shows "\<exists>m' cx'. release_from xctx cx m w p = Some (m', cx') \<and> md_wf m' \<and> same_md m m' \<and>
           md_blocks m' = drop_from w p (md_blocks m) \<and> charged xctx h l cx' m' \<and>
           (\<forall>c. c \<noteq> xctx w \<longrightarrow> cx' c = cx c)"
  using assms
proof (induction "md_page_count m - p" arbitrary: m cx p rule: less_induct)
  case less
  note wf = less.prems(1) and bd = less.prems(2)
  note ok = md_wf_tables [OF wf]
  define b where "b = find_next_bit (md_page_bitmap m) (md_page_count m) p"
  show ?case
  proof (cases "p < md_page_count m \<and> b < md_page_count m")
    case False
    then have "release_from xctx cx m w p = Some (m, cx)"
      by (subst release_from.simps) (auto simp: b_def Let_def)
    with drop_from_end(1) [OF ok, of p w] False less.prems show ?thesis by (auto simp: b_def)
  next
    case True
    then have bn: "b < md_page_count m" by simp
    define k where "k = md_free_table m ! b"
    note n = next_allocation [OF ok bd b_def bn]
    have e: "b + k \<le> md_page_count m" "0 < k" using tables_okD(4) [OF ok bn] n(1) by (auto simp: k_def)
    have u: "u64 (b + k) = b + k" using e wf by (simp add: md_wf_def kl_wrap)
    have small: "md_page_count m - (b + k) < md_page_count m - p" using True n(2) e by auto
    note bd' = n(3) [folded k_def]
    show ?thesis
    proof (cases "md_owner_table m ! b = Some w")
      case False
      then have "release_from xctx cx m w p = release_from xctx cx m w (b + k)"
        using True u by (subst release_from.simps) (auto simp: b_def k_def Let_def)
      with less.hyps [OF small wf bd' less.prems(3)] drop_from_skip [OF ok bd b_def bn False]
      show ?thesis by (simp add: k_def)
    next
      case own: True
      have blk: "md_blocks m b = Some (k, w)"
        using own bn n(1) tables_okD(2) [OF ok] by (simp add: blocks_def k_def)
      let ?cx1 = "cx(xctx w := refund_pages m k (cx (xctx w)))"
      from xpu_free_own [OF wf md_addr(2) [OF wf bn, symmetric] blk, of xctx cx]
      obtain m1 where m1: "xpu_free_locked xctx cx m w (md_pageid_to_addr m b) = (k, m1, ?cx1)"
        "md_wf m1" "same_md m m1" "md_blocks m1 = (md_blocks m)(b := None)"
        "md_free_table m1 = (md_free_table m)[b := 0]" by blast
      have step: "release_from xctx cx m w p = release_from xctx ?cx1 m1 w (b + k)"
        using True own u m1(1) by (subst release_from.simps) (auto simp: b_def k_def Let_def)
      have small1: "md_page_count m1 - (b + k) < md_page_count m - p"
        using small m1(3) by (simp add: same_md_def)
      have bd1: "boundary (md_free_table m1) (b + k)" using bd' m1(5) by (simp add: boundary_zero)
      note ch1 = charged_release [OF wf less.prems(3) m1(3,4) blk]
      from less.hyps [OF small1 m1(2) bd1 ch1] step drop_from_free [OF ok bd b_def bn own]
      show ?thesis using same_md_trans [OF m1(3)] by (fastforce simp: m1(4) k_def)
    qed
  qed
qed

section \<open>The contract of a page region\<close>

text \<open>The operations of one region on whole pages, by the code's own functions.\<close>

definition md_region_alloc ::
    "(bool list \<Rightarrow> nat \<Rightarrow> nat \<Rightarrow> nat \<Rightarrow> nat) \<Rightarrow> 'o xpu_mem_data \<Rightarrow> nat \<Rightarrow> 'o \<Rightarrow> ('o xpu_mem_data \<times> nat) option" where
  "md_region_alloc find_area m k w =
     (case xpu_malloc_locked find_area (\<lambda>_. 0) (\<lambda>_. \<lparr>main_page_used = 0, cache_mem_page_used = 0\<rparr>) m w
             (k * md_page_size m) of
        (addr, m', _) \<Rightarrow> if addr = 0 then None else Some (m', md_addr_to_pageid m addr))"

definition md_region_free :: "'o xpu_mem_data \<Rightarrow> nat \<Rightarrow> 'o \<Rightarrow> 'o xpu_mem_data option" where
  "md_region_free m p w =
     (case xpu_free_locked (\<lambda>_. 0) (\<lambda>_. \<lparr>main_page_used = 0, cache_mem_page_used = 0\<rparr>) m w
             (md_pageid_to_addr m p) of
        (n, m', _) \<Rightarrow> if n = 0 then None else Some m')"

definition md_region_purge :: "'o xpu_mem_data \<Rightarrow> 'o \<Rightarrow> 'o xpu_mem_data option" where
  "md_region_purge m w =
     map_option fst (release_mem_data_by_owner (\<lambda>_. 0)
       (\<lambda>c. \<lparr>main_page_used = hbm_pages (\<lambda>_. 0) c m, cache_mem_page_used = l3_pages (\<lambda>_. 0) c m\<rparr>) m w)"

lemma md_page_region:
  assumes fa: "zero_area_finder find_area"
  shows "page_region md_wf md_page_count md_page_used md_blocks
           (md_region_alloc find_area) md_region_free md_region_purge"
proof unfold_locales
  fix s :: "'o xpu_mem_data" and p k w q m v
  assume wf: "md_wf s"
  note ok = md_wf_tables [OF wf]
  show "0 < k \<and> p + k \<le> md_page_count s" if "md_blocks s p = Some (k, w)"
    using blocks_range [OF ok that] .
  show "apart p k q m" if "md_blocks s p = Some (k, w)" "md_blocks s q = Some (m, v)" "p \<noteq> q"
    using blocks_apart [OF ok that] .
  show "md_page_used s = (\<Sum>p\<in>dom (md_blocks s). fst (the (md_blocks s p)))"
    using used_live_tables [OF ok] wf by (simp add: md_wf_def)
next
  fix s :: "'o xpu_mem_data" and k w s' p
  assume wf: "md_wf s" and k: "0 < k" "k \<le> md_page_count s"
    and r: "md_region_alloc find_area s k w = Some (s', p)"
  have need: "k = pages_for (md_page_bits s) (k * md_page_size s)"
    using pages_for_whole [of k "md_page_bits s"] k wf by (simp add: md_wf_def)
  from xpu_malloc_cases [OF fa wf need k(1), of "\<lambda>_. 0" "\<lambda>_. \<lparr>main_page_used = 0, cache_mem_page_used = 0\<rparr>" w] r
  obtain p' m' where "md_allocated s p' k w m'" "s' = m'"
      "p = md_addr_to_pageid s (md_pageid_to_addr s p')"
    by (auto simp: md_region_alloc_def split: prod.splits if_splits)
  with md_addr(2) [OF wf, of p'] k
  show "md_wf s' \<and> md_page_count s' = md_page_count s \<and> md_blocks s p = None \<and>
      md_blocks s' = (md_blocks s)(p \<mapsto> (k, w))"
    by (simp add: md_allocated_def same_md_def)
next
  fix s :: "'o xpu_mem_data" and k w p
  assume wf: "md_wf s" and k: "0 < k" "k \<le> md_page_count s"
    and r: "md_region_alloc find_area s k w = None" and p: "p + k \<le> md_page_count s"
  have need: "k = pages_for (md_page_bits s) (k * md_page_size s)"
    using pages_for_whole [of k "md_page_bits s"] k wf by (simp add: md_wf_def)
  have "md_pageid_to_addr s p' \<noteq> 0" if "md_allocated s p' k w m'" for p' m'
    using md_addr(5) [OF wf, of p'] that k by (simp add: md_allocated_def)
  with xpu_malloc_cases [OF fa wf need k(1), of "\<lambda>_. 0" "\<lambda>_. \<lparr>main_page_used = 0, cache_mem_page_used = 0\<rparr>" w] r
  have "md_cannot_serve s k"
    by (fastforce simp: md_region_alloc_def split: prod.splits if_splits)
  with p show "\<exists>q m v. md_blocks s q = Some (m, v) \<and> \<not> apart p k q m"
    by (simp add: md_cannot_serve_def)
next
  fix s :: "'o xpu_mem_data" and p k w
  assume wf: "md_wf s" and b: "md_blocks s p = Some (k, w)"
  from blocks_range [OF md_wf_tables [OF wf] b] have p: "p < md_page_count s" "0 < k" by auto
  from xpu_free_own [OF wf md_addr(2) [OF wf p(1), symmetric] b,
      of "\<lambda>_. 0" "\<lambda>_. \<lparr>main_page_used = 0, cache_mem_page_used = 0\<rparr>"] p(2)
  show "\<exists>s'. md_region_free s p w = Some s' \<and> md_wf s' \<and> md_page_count s' = md_page_count s \<and>
      md_blocks s' = (md_blocks s)(p := None)"
    by (auto simp: md_region_free_def same_md_def)
next
  fix s :: "'o xpu_mem_data" and p w
  assume wf: "md_wf s" and p: "p < md_page_count s" and b: "\<nexists>k. md_blocks s p = Some (k, w)"
  show "md_region_free s p w = None"
    using xpu_free_other [OF wf, of "md_pageid_to_addr s p" w] p b md_addr(2) [OF wf p]
    by (simp add: md_region_free_def)
next
  fix s :: "'o xpu_mem_data" and w
  assume wf: "md_wf s"
  have "charged (\<lambda>_. 0) (\<lambda>_. 0) (\<lambda>_. 0)
      (\<lambda>c. \<lparr>main_page_used = hbm_pages (\<lambda>_. 0) c s, cache_mem_page_used = l3_pages (\<lambda>_. 0) c s\<rparr>) s"
    using wf by (simp add: charged_def md_wf_def)
  from release_from_correct [OF wf boundary_0 this, of w]
  show "\<exists>s'. md_region_purge s w = Some s' \<and> md_wf s' \<and> md_page_count s' = md_page_count s \<and>
      md_blocks s' = drop_owner w (md_blocks s)"
    by (auto simp: md_region_purge_def release_mem_data_by_owner_def same_md_def)
qed

interpretation md: page_region md_wf md_page_count md_page_used md_blocks
  "md_region_alloc first_fit" md_region_free md_region_purge
  by (rule md_page_region) (rule ff.zero_area_finder_axioms)

section \<open>A power domain\<close>

definition others :: "('a \<Rightarrow> nat) \<Rightarrow> 'a list \<Rightarrow> nat \<Rightarrow> nat" where
  "others f xs i = sum_list ((map f xs)[i := 0])"

lemma others_split: "i < length xs \<Longrightarrow> sum_list (map f xs) = others f xs i + f (xs ! i)"
  using sum_list_update_nat [of i "map f xs" 0] by (simp add: others_def)

lemma others_update: "others f (xs[i := v]) i = others f xs i"
  by (simp add: others_def map_update)

lemma others_le: "(\<And>x. x \<in> set xs \<Longrightarrow> f x \<le> g x) \<Longrightarrow> others f xs i \<le> others g xs i"
  unfolding others_def by (rule sum_list_mono2) (auto simp: nth_update_if)

text \<open>
  The invariant: sound regions that do not overlap, fewer than \<open>2 ^ 32\<close> pages in all, and for each
  context the two counters are the pages its sessions hold.
\<close>

definition pd_wf :: "('o \<Rightarrow> nat) \<Rightarrow> 'o xpu_pd_mem \<Rightarrow> bool" where
  "pd_wf xctx pd \<longleftrightarrow>
     (\<forall>m\<in>set (pd_mem pd). md_wf m) \<and>
     (\<forall>i j. i < j \<and> j < length (pd_mem pd) \<longrightarrow>
        apart (md_base (pd_mem pd ! i)) (md_size (pd_mem pd ! i))
              (md_base (pd_mem pd ! j)) (md_size (pd_mem pd ! j))) \<and>
     sum_list (map md_page_count (pd_mem pd)) < 2 ^ 32 \<and>
     (\<forall>c. main_page_used (pd_ctx pd c) = sum_list (map (hbm_pages xctx c) (pd_mem pd)) \<and>
          cache_mem_page_used (pd_ctx pd c) = sum_list (map (l3_pages xctx c) (pd_mem pd)))"

lemma pages_le_count: "md_wf m \<Longrightarrow> hbm_pages xctx c m \<le> md_page_count m \<and> l3_pages xctx c m \<le> md_page_count m"
  using owned_le [OF md_wf_tables] by (auto simp: hbm_pages_def l3_pages_def)

lemma pd_charged:
  assumes wf: "pd_wf xctx pd" and i: "i < length (pd_mem pd)"
  shows "charged xctx (\<lambda>c. others (hbm_pages xctx c) (pd_mem pd) i)
           (\<lambda>c. others (l3_pages xctx c) (pd_mem pd) i) (pd_ctx pd) (pd_mem pd ! i)"
proof -
  have cnt: "others md_page_count (pd_mem pd) i + md_page_count (pd_mem pd ! i) < 2 ^ 32"
    using wf others_split [OF i, of md_page_count] by (simp add: pd_wf_def)
  have le: "others (hbm_pages xctx c) (pd_mem pd) i \<le> others md_page_count (pd_mem pd) i"
    "others (l3_pages xctx c) (pd_mem pd) i \<le> others md_page_count (pd_mem pd) i" for c
    using wf by (auto intro!: others_le simp: pd_wf_def pages_le_count)
  have sums: "main_page_used (pd_ctx pd c) = others (hbm_pages xctx c) (pd_mem pd) i + hbm_pages xctx c (pd_mem pd ! i)"
    "cache_mem_page_used (pd_ctx pd c) = others (l3_pages xctx c) (pd_mem pd) i + l3_pages xctx c (pd_mem pd ! i)" for c
    using wf others_split [OF i, of "hbm_pages xctx c"] others_split [OF i, of "l3_pages xctx c"]
    by (simp_all add: pd_wf_def)
  show ?thesis
    unfolding charged_def
  proof (intro allI conjI)
    fix c
    show "others (hbm_pages xctx c) (pd_mem pd) i + md_page_count (pd_mem pd ! i) < 2 ^ 32"
      using cnt le(1) [of c] by linarith
    show "others (l3_pages xctx c) (pd_mem pd) i + md_page_count (pd_mem pd ! i) < 2 ^ 32"
      using cnt le(2) [of c] by linarith
  qed (rule sums)+
qed

lemma pd_wf_update:
  assumes wf: "pd_wf xctx pd" and i: "i < length (pd_mem pd)"
    and m: "md_wf m'" "same_md (pd_mem pd ! i) m'"
    and ch: "charged xctx (\<lambda>c. others (hbm_pages xctx c) (pd_mem pd) i)
           (\<lambda>c. others (l3_pages xctx c) (pd_mem pd) i) cx' m'"
  shows "pd_wf xctx (pd\<lparr>pd_mem := (pd_mem pd)[i := m'], pd_ctx := cx'\<rparr>)"
proof -
  have j: "md_base ((pd_mem pd)[i := m'] ! j) = md_base (pd_mem pd ! j)"
      "md_size ((pd_mem pd)[i := m'] ! j) = md_size (pd_mem pd ! j)" for j
    using m(2) i by (auto simp: nth_update_if same_md_def)
  have cnt: "map md_page_count ((pd_mem pd)[i := m']) = map md_page_count (pd_mem pd)"
    using m(2) i by (intro nth_equalityI) (auto simp: nth_update_if same_md_def)
  have "md_wf x" if "x \<in> set ((pd_mem pd)[i := m'])" for x
    using that m wf set_update_subset_insert [of "pd_mem pd" i m'] by (auto simp: pd_wf_def)
  moreover have "sum_list (map f ((pd_mem pd)[i := m'])) = others f (pd_mem pd) i + f m'" for f
    using others_split [of i "(pd_mem pd)[i := m']" f] i by (simp add: others_update)
  ultimately show ?thesis using wf ch j cnt by (simp add: pd_wf_def charged_def)
qed

lemma alloc_from_cases:
  assumes fa: "zero_area_finder find_area" and wf: "pd_wf xctx pd"
    and sz: "0 < sz" "sz + 2 ^ 32 \<le> 2 ^ 64" and rs: "\<forall>r\<in>set rs. mmrgn_idx r < length (pd_mem pd)"
  shows "(alloc_from find_area xctx pd w sz rs = (0, pd) \<and>
            (\<forall>r\<in>set rs. md_cannot_serve (pd_mem pd ! mmrgn_idx r)
               (pages_for (md_page_bits (pd_mem pd ! mmrgn_idx r)) sz))) \<or>
         (\<exists>pre r post p m' cx'. rs = pre @ r # post \<and>
            (\<forall>r'\<in>set pre. md_cannot_serve (pd_mem pd ! mmrgn_idx r')
               (pages_for (md_page_bits (pd_mem pd ! mmrgn_idx r')) sz)) \<and>
            md_allocated (pd_mem pd ! mmrgn_idx r) p (pages_for (md_page_bits (pd_mem pd ! mmrgn_idx r)) sz) w m' \<and>
            md_pageid_to_addr (pd_mem pd ! mmrgn_idx r) p \<noteq> 0 \<and>
            alloc_from find_area xctx pd w sz rs =
              (md_pageid_to_addr (pd_mem pd ! mmrgn_idx r) p,
               pd\<lparr>pd_mem := (pd_mem pd)[mmrgn_idx r := m'], pd_ctx := cx'\<rparr>) \<and>
            pd_wf xctx (pd\<lparr>pd_mem := (pd_mem pd)[mmrgn_idx r := m'], pd_ctx := cx'\<rparr>))"
  using rs
proof (induction rs)
  case (Cons r rs)
  let ?i = "mmrgn_idx r" let ?m = "pd_mem pd ! ?i" let ?k = "pages_for (md_page_bits ?m) sz"
  have i: "?i < length (pd_mem pd)" using Cons.prems by simp
  have m: "md_wf ?m" using wf i by (simp add: pd_wf_def)
  have "md_page_size ?m \<le> 2 ^ 32"
    using m power_increasing [of "md_page_bits ?m" 32 "2 :: nat"] by (auto simp: md_wf_def)
  with m sz have k: "0 < ?k" by (intro pages_for_eq(2)) (auto simp: md_wf_def)
  from xpu_malloc_cases [OF fa m refl k, of xctx "pd_ctx pd" w] consider
    (no) "xpu_malloc_locked find_area xctx (pd_ctx pd) ?m w sz = (0, ?m, pd_ctx pd)" "md_cannot_serve ?m ?k"
  | (yes) p m' where "xpu_malloc_locked find_area xctx (pd_ctx pd) ?m w sz = (md_pageid_to_addr ?m p, m',
        (pd_ctx pd)(xctx w := charge_pages ?m ?k (pd_ctx pd (xctx w))))" "md_allocated ?m p ?k w m'"
    by blast
  then show ?case
  proof cases
    case no
    then have step: "alloc_from find_area xctx pd w sz (r # rs) = alloc_from find_area xctx pd w sz rs"
      by simp
    from Cons.IH Cons.prems consider
      (none) "alloc_from find_area xctx pd w sz rs = (0, pd)" "\<forall>r\<in>set rs. md_cannot_serve (pd_mem pd ! mmrgn_idx r)
               (pages_for (md_page_bits (pd_mem pd ! mmrgn_idx r)) sz)"
    | (some) pre r1 post p m' cx' where "rs = pre @ r1 # post"
        "\<forall>r'\<in>set pre. md_cannot_serve (pd_mem pd ! mmrgn_idx r')
               (pages_for (md_page_bits (pd_mem pd ! mmrgn_idx r')) sz)"
        "md_allocated (pd_mem pd ! mmrgn_idx r1) p (pages_for (md_page_bits (pd_mem pd ! mmrgn_idx r1)) sz) w m'"
        "md_pageid_to_addr (pd_mem pd ! mmrgn_idx r1) p \<noteq> 0"
        "alloc_from find_area xctx pd w sz rs = (md_pageid_to_addr (pd_mem pd ! mmrgn_idx r1) p,
               pd\<lparr>pd_mem := (pd_mem pd)[mmrgn_idx r1 := m'], pd_ctx := cx'\<rparr>)"
        "pd_wf xctx (pd\<lparr>pd_mem := (pd_mem pd)[mmrgn_idx r1 := m'], pd_ctx := cx'\<rparr>)"
      by auto
    then show ?thesis
    proof cases
      case none
      with no step show ?thesis by simp
    next
      case some
      with no have "\<forall>r'\<in>set (r # pre). md_cannot_serve (pd_mem pd ! mmrgn_idx r')
               (pages_for (md_page_bits (pd_mem pd ! mmrgn_idx r')) sz)" by simp
      moreover have "r # rs = (r # pre) @ r1 # post" using some by simp
      ultimately show ?thesis using some(3-6) step by metis
    qed
  next
    case yes
    have nz: "md_pageid_to_addr ?m p \<noteq> 0"
      using md_addr(5) [OF m, of p] yes(2) k by (simp add: md_allocated_def)
    have al: "md_wf m'" "same_md ?m m'" "md_blocks m' = (md_blocks ?m)(p \<mapsto> (?k, w))" "md_blocks ?m p = None"
      using yes(2) by (auto simp: md_allocated_def)
    define cx1 where "cx1 = (pd_ctx pd)(xctx w := charge_pages ?m ?k (pd_ctx pd (xctx w)))"
    have "pd_wf xctx (pd\<lparr>pd_mem := (pd_mem pd)[?i := m'], pd_ctx := cx1\<rparr>)"
      unfolding cx1_def
      by (rule pd_wf_update [OF wf i al(1,2) charged_take [OF m pd_charged [OF wf i] al]])
    moreover have "alloc_from find_area xctx pd w sz (r # rs) =
        (md_pageid_to_addr ?m p, pd\<lparr>pd_mem := (pd_mem pd)[?i := m'], pd_ctx := cx1\<rparr>)"
      using yes nz by (simp add: cx1_def)
    moreover have "r # rs = [] @ r # rs" "\<forall>r'\<in>set []. md_cannot_serve (pd_mem pd ! mmrgn_idx r')
        (pages_for (md_page_bits (pd_mem pd ! mmrgn_idx r')) sz)" by simp_all
    ultimately show ?thesis using yes(2) nz by blast
  qed
qed simp

lemma find_region_Some:
  "find_region ms addr = Some i \<Longrightarrow> i < length ms \<and> md_base (ms ! i) \<le> addr \<and>
     addr < u64 (md_base (ms ! i) + md_size (ms ! i))"
  by (auto simp: find_region_def dest!: find_Some_iff [THEN iffD1])

lemma find_region_unique:
  assumes wf: "pd_wf xctx pd" and i: "i < length (pd_mem pd)"
    and a: "md_base (pd_mem pd ! i) \<le> addr" "addr < md_base (pd_mem pd ! i) + md_size (pd_mem pd ! i)"
  shows "find_region (pd_mem pd) addr = Some i"
proof -
  have u: "u64 (md_base (pd_mem pd ! j) + md_size (pd_mem pd ! j)) = md_base (pd_mem pd ! j) + md_size (pd_mem pd ! j)"
    if "j < length (pd_mem pd)" for j
  proof -
    have "md_wf (pd_mem pd ! j)" using wf that by (simp add: pd_wf_def)
    then have "md_base (pd_mem pd ! j) + md_size (pd_mem pd ! j) < 2 ^ 64" unfolding md_wf_def by blast
    then show ?thesis by (rule u64_id)
  qed
  have "\<not> (md_base (pd_mem pd ! j) \<le> addr \<and> addr < u64 (md_base (pd_mem pd ! j) + md_size (pd_mem pd ! j)))"
    if "j < i" for j
  proof -
    have "apart (md_base (pd_mem pd ! j)) (md_size (pd_mem pd ! j)) (md_base (pd_mem pd ! i)) (md_size (pd_mem pd ! i))"
      using wf i that by (simp add: pd_wf_def)
    with u [of j] that i a show ?thesis by (auto simp: apart_def)
  qed
  then show ?thesis
    using a i u [OF i] by (auto simp: find_region_def find_Some_iff intro!: exI [of _ i])
qed

text \<open>\<^verbatim>\<open>xpu_mem_free\<close>: either the caller owns the allocation that starts at that page, or nothing changes.\<close>

lemma xpu_mem_free_cases:
  assumes wf: "pd_wf xctx pd"
  shows "(xpu_mem_free xctx pd w addr = pd \<and>
            (\<forall>i. find_region (pd_mem pd) addr = Some i \<longrightarrow>
               (\<nexists>k. md_blocks (pd_mem pd ! i) (md_addr_to_pageid (pd_mem pd ! i) addr) = Some (k, w)))) \<or>
         (\<exists>i k m' cx'. find_region (pd_mem pd) addr = Some i \<and>
            md_blocks (pd_mem pd ! i) (md_addr_to_pageid (pd_mem pd ! i) addr) = Some (k, w) \<and>
            xpu_mem_free xctx pd w addr = pd\<lparr>pd_mem := (pd_mem pd)[i := m'], pd_ctx := cx'\<rparr> \<and>
            md_blocks m' = (md_blocks (pd_mem pd ! i))(md_addr_to_pageid (pd_mem pd ! i) addr := None) \<and>
            same_md (pd_mem pd ! i) m' \<and>
            pd_wf xctx (pd\<lparr>pd_mem := (pd_mem pd)[i := m'], pd_ctx := cx'\<rparr>))"
proof (cases "find_region (pd_mem pd) addr")
  case None
  then show ?thesis by (simp add: xpu_mem_free_def)
next
  case (Some i)
  let ?m = "pd_mem pd ! i" let ?p = "md_addr_to_pageid ?m addr"
  from find_region_Some [OF Some] have i: "i < length (pd_mem pd)" and a: "md_base ?m \<le> addr"
      "addr < u64 (md_base ?m + md_size ?m)" by auto
  have m: "md_wf ?m" using wf i by (simp add: pd_wf_def)
  then have a': "addr < md_base ?m + md_size ?m" using a(2) u64_le by (meson less_le_trans)
  show ?thesis
  proof (cases "\<exists>k. md_blocks ?m ?p = Some (k, w)")
    case True
    then obtain k where b: "md_blocks ?m ?p = Some (k, w)" by blast
    from xpu_free_own [OF m refl b, of xctx "pd_ctx pd"] obtain m' where m':
      "xpu_free_locked xctx (pd_ctx pd) ?m w addr =
         (k, m', (pd_ctx pd)(xctx w := refund_pages ?m k (pd_ctx pd (xctx w))))"
      "md_wf m'" "same_md ?m m'" "md_blocks m' = (md_blocks ?m)(?p := None)" by blast
    from pd_wf_update [OF wf i m'(2,3) charged_release [OF m pd_charged [OF wf i] m'(3,4) b]] m' Some b
    show ?thesis by (auto simp: xpu_mem_free_def)
  next
    case False
    with xpu_free_other [OF m md_addr_to_pageid_lt [OF m a(1) a']] Some
    show ?thesis by (simp add: xpu_mem_free_def)
  qed
qed

lemma release_regions_correct:
  assumes "pd_wf xctx \<lparr>pd_mem = pre @ ms, pd_ctx = cx\<rparr>"
  shows "\<exists>ms' cx'. release_regions xctx cx ms w = Some (ms', cx') \<and>
           pd_wf xctx \<lparr>pd_mem = pre @ ms', pd_ctx = cx'\<rparr> \<and> length ms' = length ms \<and>
           (\<forall>i < length ms. same_md (ms ! i) (ms' ! i) \<and> md_blocks (ms' ! i) = drop_owner w (md_blocks (ms ! i)))"
  using assms
proof (induction ms arbitrary: pre cx)
  case (Cons m ms)
  let ?pd = "\<lparr>pd_mem = pre @ m # ms, pd_ctx = cx\<rparr>"
  have i: "length pre < length (pd_mem ?pd)" and nth: "pd_mem ?pd ! length pre = m" by simp_all
  have wf: "md_wf m" using Cons.prems by (simp add: pd_wf_def)
  from release_from_correct [OF wf boundary_0 pd_charged [OF Cons.prems i, unfolded nth], of w]
  obtain m' cx' where m': "release_mem_data_by_owner xctx cx m w = Some (m', cx')" "md_wf m'" "same_md m m'"
    "md_blocks m' = drop_owner w (md_blocks m)"
    and ch: "charged xctx (\<lambda>c. others (hbm_pages xctx c) (pd_mem ?pd) (length pre))
        (\<lambda>c. others (l3_pages xctx c) (pd_mem ?pd) (length pre)) cx' m'"
    by (auto simp: release_mem_data_by_owner_def)
  from pd_wf_update [OF Cons.prems i m'(2) _ ch] m'(3)
  have "pd_wf xctx \<lparr>pd_mem = (pre @ [m']) @ ms, pd_ctx = cx'\<rparr>" by simp
  from Cons.IH [OF this] m' show ?case by (fastforce simp: nth_Cons split: nat.splits)
qed simp

lemma xpu_release_mem_effect:
  assumes "pd_wf xctx pd"
  shows "\<exists>pd'. xpu_release_mem xctx pd w = Some pd' \<and> pd_wf xctx pd' \<and>
           length (pd_mem pd') = length (pd_mem pd) \<and>
           (\<forall>i < length (pd_mem pd). same_md (pd_mem pd ! i) (pd_mem pd' ! i) \<and>
              md_blocks (pd_mem pd' ! i) = drop_owner w (md_blocks (pd_mem pd ! i)))"
proof -
  have "pd_wf xctx \<lparr>pd_mem = [] @ pd_mem pd, pd_ctx = pd_ctx pd\<rparr>" using assms by (simp add: pd_wf_def)
  from release_regions_correct [OF this, of w] show ?thesis
    by (fastforce simp: xpu_release_mem_def pd_wf_def)
qed

section \<open>Set-up\<close>

definition geometry_ok :: "'o xpu_mem_data \<Rightarrow> bool" where
  "geometry_ok m \<longleftrightarrow>
     0 < md_page_bits m \<and> md_page_bits m < 32 \<and> md_page_size m = 2 ^ md_page_bits m \<and>
     md_size m mod 2 ^ md_page_bits m = 0 \<and> md_size m div 2 ^ md_page_bits m < 2 ^ 32 \<and>
     0 < md_base m \<and> md_base m + md_size m < 2 ^ 64"

lemma setup_mem_data_fresh:
  assumes "geometry_ok m"
  shows "\<exists>m'. setup_mem_data True m = Inr m' \<and> md_wf m' \<and> md_blocks m' = Map.empty \<and>
           md_base m' = md_base m \<and> md_size m' = md_size m \<and>
           md_page_count m' = md_size m div 2 ^ md_page_bits m"
  using assms tables_ok_empty [of "md_size m div 2 ^ md_page_bits m"]
  by (auto simp: setup_mem_data_def Let_def geometry_ok_def md_wf_def blocks_def fun_eq_iff)

lemma mem_setup_from_fresh:
  assumes "\<forall>m\<in>set ms. geometry_ok m"
  shows "\<exists>ms'. mem_setup_from (\<lambda>_. True) i ms = (None, ms') \<and>
           list_all2 (\<lambda>m m'. md_wf m' \<and> md_blocks m' = Map.empty \<and> md_base m' = md_base m \<and>
             md_size m' = md_size m \<and> md_page_count m' = md_size m div 2 ^ md_page_bits m) ms ms'"
  using assms
proof (induction ms arbitrary: i)
  case (Cons m ms)
  from setup_mem_data_fresh [of m] Cons.prems obtain m' where m': "setup_mem_data True m = Inr m'"
    "md_wf m'" "md_blocks m' = Map.empty" "md_base m' = md_base m" "md_size m' = md_size m"
    "md_page_count m' = md_size m div 2 ^ md_page_bits m" by auto
  from Cons.IH [of "Suc i"] Cons.prems obtain ms' where
    "mem_setup_from (\<lambda>_. True) (Suc i) ms = (None, ms')"
    "list_all2 (\<lambda>m m'. md_wf m' \<and> md_blocks m' = Map.empty \<and> md_base m' = md_base m \<and>
       md_size m' = md_size m \<and> md_page_count m' = md_size m div 2 ^ md_page_bits m) ms ms'" by auto
  with m' show ?case by auto
qed simp

definition no_pages :: xpu_context where
  "no_pages = \<lparr>main_page_used = 0, cache_mem_page_used = 0\<rparr>"

lemma xpu_mem_setup_wf:
  fixes xctx :: "'o \<Rightarrow> nat"
  shows "\<exists>ms. xpu_mem_setup (\<lambda>_. True) pd = (None, ms) \<and> length ms = 4 \<and>
     pd_wf xctx \<lparr>pd_mem = ms, pd_ctx = \<lambda>_. no_pages\<rparr> \<and> (\<forall>m\<in>set ms. md_blocks m = Map.empty)"
proof -
  have geo: "\<forall>m\<in>set (xpu_mems pd :: 'o xpu_mem_data list). geometry_ok m"
    by (simp add: xpu_mems_def mem_entry_def geometry_ok_def KL1_HBM_PAGE_BITS_def KL1_L3_PAGE_BITS_def)
  from mem_setup_from_fresh [OF geo, of 0] obtain ms where
    r: "mem_setup_from (\<lambda>_. True) 0 (xpu_mems pd) = (None, ms :: 'o xpu_mem_data list)" and
    all: "list_all2 (\<lambda>m m'. md_wf m' \<and> md_blocks m' = Map.empty \<and> md_base m' = md_base m \<and>
       md_size m' = md_size m \<and> md_page_count m' = md_size m div 2 ^ md_page_bits m) (xpu_mems pd :: 'o xpu_mem_data list) ms"
    by auto
  have len: "length ms = 4" using list_all2_lengthD [OF all] by (simp add: xpu_mems_def split: if_splits)
  have emp: "\<forall>m\<in>set ms. md_wf m \<and> md_blocks m = Map.empty"
    using all by (auto simp: list_all2_conv_all_nth in_set_conv_nth)
  have geom: "md_base (ms ! j) = md_base ((xpu_mems pd :: 'o xpu_mem_data list) ! j)"
    "md_size (ms ! j) = md_size ((xpu_mems pd :: 'o xpu_mem_data list) ! j)" if "j < 4" for j
    using all that len by (auto simp: list_all2_conv_all_nth)
  have ap: "apart (md_base ((xpu_mems pd :: 'o xpu_mem_data list) ! i)) (md_size ((xpu_mems pd :: 'o xpu_mem_data list) ! i))
      (md_base ((xpu_mems pd :: 'o xpu_mem_data list) ! j)) (md_size ((xpu_mems pd :: 'o xpu_mem_data list) ! j))"
    if "i < j" "j < 4" for i j
  proof -
    from that have "j = 1 \<and> i = 0 \<or> j = 2 \<and> i = 0 \<or> j = 2 \<and> i = 1 \<or> j = 3 \<and> i = 0 \<or> j = 3 \<and> i = 1 \<or> j = 3 \<and> i = 2"
      by auto
    then show ?thesis by (auto simp: xpu_mems_def mem_entry_def apart_def)
  qed
  have "map md_page_count ms = map (\<lambda>m. md_size m div 2 ^ md_page_bits m) (xpu_mems pd :: 'o xpu_mem_data list)"
    using all len by (intro nth_equalityI) (auto simp: list_all2_conv_all_nth)
  then have cnt: "sum_list (map md_page_count ms) < 2 ^ 32"
    by (simp add: xpu_mems_def mem_entry_def KL1_HBM_PAGE_BITS_def KL1_L3_PAGE_BITS_def)
  have zero: "sum_list (map (hbm_pages xctx c) ms) = 0" "sum_list (map (l3_pages xctx c) ms) = 0" for c
    using emp by (auto simp: hbm_pages_def l3_pages_def owned_def)
  have "pd_wf xctx \<lparr>pd_mem = ms, pd_ctx = \<lambda>_. no_pages\<rparr>"
    using emp geom ap len cnt zero by (simp add: pd_wf_def no_pages_def)
  with r len emp show ?thesis by (auto simp: xpu_mem_setup_def)
qed

section \<open>Any history of calls\<close>

datatype 'o mem_call = MemAlloc 'o nat nat | MemFree 'o nat | MemRelease 'o

fun mem_call_ok :: "'o mem_call \<Rightarrow> bool" where
  "mem_call_ok (MemAlloc s sz kind) \<longleftrightarrow> 0 < sz \<and> sz + 2 ^ 32 \<le> 2 ^ 64"
| "mem_call_ok _ \<longleftrightarrow> True"

fun mem_call_step ::
    "(bool list \<Rightarrow> nat \<Rightarrow> nat \<Rightarrow> nat \<Rightarrow> nat) \<Rightarrow> ('o \<Rightarrow> nat) \<Rightarrow> 'o xpu_pd_mem \<Rightarrow> 'o mem_call \<Rightarrow> 'o xpu_pd_mem option" where
  "mem_call_step fa xctx pd (MemAlloc s sz kind) = Some (snd (xpu_mem_alloc fa xctx pd (Some s) sz kind))"
| "mem_call_step fa xctx pd (MemFree s addr) = Some (xpu_mem_free xctx pd s addr)"
| "mem_call_step fa xctx pd (MemRelease s) = xpu_release_mem xctx pd s"

fun mem_call_run ::
    "(bool list \<Rightarrow> nat \<Rightarrow> nat \<Rightarrow> nat \<Rightarrow> nat) \<Rightarrow> ('o \<Rightarrow> nat) \<Rightarrow> 'o xpu_pd_mem \<Rightarrow> 'o mem_call list \<Rightarrow> 'o xpu_pd_mem option" where
  "mem_call_run fa xctx pd [] = Some pd"
| "mem_call_run fa xctx pd (c # cs) =
     (case mem_call_step fa xctx pd c of None \<Rightarrow> None | Some pd' \<Rightarrow> mem_call_run fa xctx pd' cs)"

lemma candidate_idx: "r \<in> set (candidate_regions kind) \<Longrightarrow> mmrgn_idx r < 4"
  by (cases r) simp_all

lemma mem_call_step_wf:
  assumes fa: "zero_area_finder fa" and wf: "pd_wf xctx pd" "length (pd_mem pd) = 4" and ok: "mem_call_ok c"
  shows "\<exists>pd'. mem_call_step fa xctx pd c = Some pd' \<and> pd_wf xctx pd' \<and> length (pd_mem pd') = 4"
proof (cases c)
  case (MemAlloc s sz kind)
  with ok have sz: "0 < sz" "sz + 2 ^ 32 \<le> 2 ^ 64" by auto
  have "\<forall>r\<in>set (candidate_regions kind). mmrgn_idx r < length (pd_mem pd)"
    using candidate_idx wf(2) by simp
  from alloc_from_cases [OF fa wf(1) sz this, of s] show ?thesis
    using MemAlloc wf by (auto simp: xpu_mem_alloc_def)
next
  case (MemFree s addr)
  with xpu_mem_free_cases [OF wf(1), of s addr] wf show ?thesis by auto
next
  case (MemRelease s)
  with xpu_release_mem_effect [OF wf(1), of s] wf show ?thesis by auto
qed

lemma mem_call_run_wf:
  assumes "zero_area_finder fa" and "pd_wf xctx pd" "length (pd_mem pd) = 4" and "\<forall>c\<in>set cs. mem_call_ok c"
  shows "\<exists>pd'. mem_call_run fa xctx pd cs = Some pd' \<and> pd_wf xctx pd' \<and> length (pd_mem pd') = 4"
  using assms(2-)
proof (induction cs arbitrary: pd)
  case (Cons c cs)
  from mem_call_step_wf [OF assms(1) Cons.prems(1,2), of c] Cons.prems(3) obtain pd1 where
    "mem_call_step fa xctx pd c = Some pd1" "pd_wf xctx pd1" "length (pd_mem pd1) = 4" by auto
  with Cons.IH [of pd1] Cons.prems(3) show ?case by auto
qed simp

section \<open>Properties of the KL1 device memory\<close>

text \<open>
  C5: set-up and history. The region table of either power domain satisfies the invariant once it
  is set up, and after any sequence of allocations, frees and releases by any sessions every call
  has returned, the regions are sound, and the two page counters of every context are exactly the
  numbers of main-memory and of L3 pages its sessions hold.
\<close>

theorem kl1_mem_history:
  assumes "zero_area_finder find_area" and "xpu_mem_setup (\<lambda>_. True) pd = (None, ms)"
    and "\<forall>c\<in>set cs. mem_call_ok c"
  shows "\<exists>pd'. mem_call_run find_area xctx \<lparr>pd_mem = ms, pd_ctx = \<lambda>_. no_pages\<rparr> cs = Some pd' \<and>
           (\<forall>m\<in>set (pd_mem pd'). md_wf m) \<and>
           (\<forall>c. main_page_used (pd_ctx pd' c) = sum_list (map (hbm_pages xctx c) (pd_mem pd')) \<and>
                cache_mem_page_used (pd_ctx pd' c) = sum_list (map (l3_pages xctx c) (pd_mem pd')))"
proof -
  from xpu_mem_setup_wf [of pd xctx] assms(2)
  have "pd_wf xctx \<lparr>pd_mem = ms, pd_ctx = \<lambda>_. no_pages\<rparr>" "length ms = 4" by auto
  with mem_call_run_wf [OF assms(1) this(1) _ assms(3)] show ?thesis by (auto simp: pd_wf_def)
qed

lemma kl1_mem_history_witness:
  "\<exists>ms pd'. xpu_mem_setup (\<lambda>_. True) 1 = (None, ms) \<and>
     mem_call_run first_fit (\<lambda>s. s div 2) \<lparr>pd_mem = ms, pd_ctx = \<lambda>_. no_pages\<rparr>
       [MemAlloc (4 :: nat) 5000 XPU_MEM_L3, MemFree 5 0x4c0000000, MemRelease 4] = Some pd'"
proof -
  obtain ms :: "nat xpu_mem_data list" where ms: "xpu_mem_setup (\<lambda>_. True) 1 = (None, ms)"
    using xpu_mem_setup_wf [of 1 "\<lambda>s. s div 2"] by auto
  with kl1_mem_history [OF ff.zero_area_finder_axioms ms,
      of "[MemAlloc 4 5000 XPU_MEM_L3, MemFree 5 0x4c0000000, MemRelease 4]" "\<lambda>s. s div 2"]
  show ?thesis by fastforce
qed

text \<open>
  allocation. \<^verbatim>\<open>xpu_mem_alloc\<close> returns 0 and changes nothing exactly when no candidate region of
  the kind has a free run that is long enough; otherwise the address is that of a run of enough
  pages, free before, in the first candidate region that has one, recorded for the session.
\<close>

theorem xpu_mem_alloc_correct:
  assumes "zero_area_finder find_area" and "pd_wf xctx pd" and "length (pd_mem pd) = 4"
    and "0 < sz" and "sz + 2 ^ 32 \<le> 2 ^ 64"
  shows "(xpu_mem_alloc find_area xctx pd (Some w) sz kind = (0, pd) \<and>
            (\<forall>r\<in>set (candidate_regions kind). md_cannot_serve (pd_mem pd ! mmrgn_idx r)
               (pages_for (md_page_bits (pd_mem pd ! mmrgn_idx r)) sz))) \<or>
         (\<exists>pre r post p m' cx'. candidate_regions kind = pre @ r # post \<and>
            (\<forall>r'\<in>set pre. md_cannot_serve (pd_mem pd ! mmrgn_idx r')
               (pages_for (md_page_bits (pd_mem pd ! mmrgn_idx r')) sz)) \<and>
            md_allocated (pd_mem pd ! mmrgn_idx r) p (pages_for (md_page_bits (pd_mem pd ! mmrgn_idx r)) sz) w m' \<and>
            md_pageid_to_addr (pd_mem pd ! mmrgn_idx r) p \<noteq> 0 \<and>
            xpu_mem_alloc find_area xctx pd (Some w) sz kind =
              (md_pageid_to_addr (pd_mem pd ! mmrgn_idx r) p,
               pd\<lparr>pd_mem := (pd_mem pd)[mmrgn_idx r := m'], pd_ctx := cx'\<rparr>) \<and>
            pd_wf xctx (pd\<lparr>pd_mem := (pd_mem pd)[mmrgn_idx r := m'], pd_ctx := cx'\<rparr>))"
proof -
  have "\<forall>r\<in>set (candidate_regions kind). mmrgn_idx r < length (pd_mem pd)"
    using candidate_idx assms(3) by simp
  from alloc_from_cases [OF assms(1,2,4,5) this, of w] show ?thesis
    by (simp add: xpu_mem_alloc_def)
qed

lemma xpu_mem_alloc_correct_witness:
  "\<exists>ms. xpu_mem_setup (\<lambda>_. True) 0 = (None, ms) \<and>
     (\<exists>addr pd'. xpu_mem_alloc first_fit (\<lambda>s. s) \<lparr>pd_mem = ms, pd_ctx = \<lambda>_. no_pages\<rparr> (Some (3 :: nat)) 100
        XPU_MEM_L3 = (addr, pd') \<and> addr \<noteq> 0)"
proof -
  obtain ms :: "nat xpu_mem_data list" where ms: "xpu_mem_setup (\<lambda>_. True) 0 = (None, ms)"
    and wf: "pd_wf (\<lambda>s. s) \<lparr>pd_mem = ms, pd_ctx = \<lambda>_. no_pages\<rparr>" and len: "length ms = 4"
    and emp: "\<forall>m\<in>set ms. md_blocks m = Map.empty"
    using xpu_mem_setup_wf [of 0 "\<lambda>s. s"] by auto
  have geo: "md_page_count (ms ! 2) = 4096" "md_page_bits (ms ! 2) = 12"
    using ms by (auto simp: xpu_mem_setup_def xpu_mems_def mem_entry_def setup_mem_data_def Let_def
        KL1_L3_PAGE_BITS_def KL1_HBM_PAGE_BITS_def)
  have "pages_for 12 100 = 1" using pages_for_eq(1) [of 100 12] by simp
  then have "\<not> md_cannot_serve (ms ! 2) (pages_for (md_page_bits (ms ! 2)) 100)"
    using geo emp len by (auto simp: md_cannot_serve_def intro: exI [of _ 0])
  moreover have "candidate_regions XPU_MEM_L3 = [MMRGN_L3]"
    by (simp add: candidate_regions_def XPU_MEM_HBM_def XPU_MEM_L3_def)
  ultimately show ?thesis
    using xpu_mem_alloc_correct [OF ff.zero_area_finder_axioms wf, of 100 3 XPU_MEM_L3] ms len by auto
qed

text \<open>
  Free and release. A free changes nothing unless an allocation of the calling session starts
  at the page of the address, and then removes exactly that one. Releasing a session returns,
  removes its allocations from all regions and leaves everyone else's; the counters of a context
  none of whose other sessions holds a page are then zero.
\<close>

theorem xpu_mem_free_release:
  assumes "pd_wf xctx pd"
  shows "((xpu_mem_free xctx pd w addr = pd \<and>
            (\<forall>i. find_region (pd_mem pd) addr = Some i \<longrightarrow>
               (\<nexists>k. md_blocks (pd_mem pd ! i) (md_addr_to_pageid (pd_mem pd ! i) addr) = Some (k, w)))) \<or>
          (\<exists>i k m' cx'. find_region (pd_mem pd) addr = Some i \<and>
             md_blocks (pd_mem pd ! i) (md_addr_to_pageid (pd_mem pd ! i) addr) = Some (k, w) \<and>
             xpu_mem_free xctx pd w addr = pd\<lparr>pd_mem := (pd_mem pd)[i := m'], pd_ctx := cx'\<rparr> \<and>
             md_blocks m' = (md_blocks (pd_mem pd ! i))(md_addr_to_pageid (pd_mem pd ! i) addr := None))) \<and>
         (\<exists>pd'. xpu_release_mem xctx pd w = Some pd' \<and> pd_wf xctx pd' \<and>
            (\<forall>i < length (pd_mem pd). md_blocks (pd_mem pd' ! i) = drop_owner w (md_blocks (pd_mem pd ! i))) \<and>
            ((\<forall>m\<in>set (pd_mem pd). \<forall>p k v. md_blocks m p = Some (k, v) \<and> xctx v = xctx w \<longrightarrow> v = w) \<longrightarrow>
               pd_ctx pd' (xctx w) = no_pages))"
proof (rule conjI)
  show "(xpu_mem_free xctx pd w addr = pd \<and>
            (\<forall>i. find_region (pd_mem pd) addr = Some i \<longrightarrow>
               (\<nexists>k. md_blocks (pd_mem pd ! i) (md_addr_to_pageid (pd_mem pd ! i) addr) = Some (k, w)))) \<or>
          (\<exists>i k m' cx'. find_region (pd_mem pd) addr = Some i \<and>
             md_blocks (pd_mem pd ! i) (md_addr_to_pageid (pd_mem pd ! i) addr) = Some (k, w) \<and>
             xpu_mem_free xctx pd w addr = pd\<lparr>pd_mem := (pd_mem pd)[i := m'], pd_ctx := cx'\<rparr> \<and>
             md_blocks m' = (md_blocks (pd_mem pd ! i))(md_addr_to_pageid (pd_mem pd ! i) addr := None))"
    using xpu_mem_free_cases [OF assms, of w addr] by blast
  from xpu_release_mem_effect [OF assms, of w] obtain pd' where pd':
    "xpu_release_mem xctx pd w = Some pd'" "pd_wf xctx pd'" "length (pd_mem pd') = length (pd_mem pd)"
    "\<forall>i < length (pd_mem pd). md_blocks (pd_mem pd' ! i) = drop_owner w (md_blocks (pd_mem pd ! i))" by blast
  have "pd_ctx pd' (xctx w) = no_pages"
    if one: "\<forall>m\<in>set (pd_mem pd). \<forall>p k v. md_blocks m p = Some (k, v) \<and> xctx v = xctx w \<longrightarrow> v = w"
  proof -
    have "owned xctx (xctx w) (md_blocks (pd_mem pd' ! i)) = 0" if i: "i < length (pd_mem pd)" for i
      using pd'(4) i one nth_mem [OF i]
      by (fastforce simp: owned_def drop_owner_def split: option.splits prod.splits if_splits intro!: sum.neutral)
    then have "owned xctx (xctx w) (md_blocks m) = 0" if "m \<in> set (pd_mem pd')" for m
      using that pd'(3) by (metis in_set_conv_nth)
    then show ?thesis using pd'(2)
      by (intro xpu_context.equality) (auto simp: pd_wf_def hbm_pages_def l3_pages_def no_pages_def)
  qed
  with pd' show "\<exists>pd'. xpu_release_mem xctx pd w = Some pd' \<and> pd_wf xctx pd' \<and>
            (\<forall>i < length (pd_mem pd). md_blocks (pd_mem pd' ! i) = drop_owner w (md_blocks (pd_mem pd ! i))) \<and>
            ((\<forall>m\<in>set (pd_mem pd). \<forall>p k v. md_blocks m p = Some (k, v) \<and> xctx v = xctx w \<longrightarrow> v = w) \<longrightarrow>
               pd_ctx pd' (xctx w) = no_pages)" by blast
qed

lemma xpu_mem_free_release_witness:
  "\<exists>ms pd'. xpu_mem_setup (\<lambda>_. True) 0 = (None, ms) \<and>
     xpu_release_mem (\<lambda>s. s) \<lparr>pd_mem = ms, pd_ctx = \<lambda>_. no_pages\<rparr> (3 :: nat) = Some pd' \<and> pd_ctx pd' 3 = no_pages"
proof -
  obtain ms :: "nat xpu_mem_data list" where ms: "xpu_mem_setup (\<lambda>_. True) 0 = (None, ms)"
    and wf: "pd_wf (\<lambda>s. s) \<lparr>pd_mem = ms, pd_ctx = \<lambda>_. no_pages\<rparr>"
    and emp: "\<forall>m\<in>set ms. md_blocks m = Map.empty"
    using xpu_mem_setup_wf [of 0 "\<lambda>s. s"] by auto
  from xpu_mem_free_release [OF wf, of 3 0] ms emp show ?thesis by auto
qed

end
