(* ===== verification/Kl1_Sse.thy ===== *)
theory Kl1_Sse
  imports Kl_Prelude
begin

text \<open>
  The task front end of the KL1 scheduling engine, \<^verbatim>\<open>kl1/xpu_sse.c\<close>: the register writes that hand a
  task to a hardware queue and those that initialise the engine. A function of the driver that
  writes registers is modelled by the list of its writes, in order. The last section proves what
  the registers of the queue hold afterwards and that the ordering rules of the hardware are kept.
\<close>

section \<open>Registers\<close>

datatype reg_write = W32 nat nat | W64 nat nat

text \<open>A 64 bit write is the low half at the address and the high half at the next one.\<close>

fun dwords :: "reg_write \<Rightarrow> (nat \<times> nat) list" where
  "dwords (W32 a v) = [(a, u32 v)]"
| "dwords (W64 a v) = [(a, u32 v), (a + 4, u32 (v div 2 ^ 32))]"

definition makeu64 :: "nat \<Rightarrow> nat \<Rightarrow> nat" where
  "makeu64 hi lo = u32 hi * 2 ^ 32 + u32 lo"

definition ADDR_HI :: "nat \<Rightarrow> nat" where "ADDR_HI addr = u32 (addr div 2 ^ 32)"
definition ADDR_LO :: "nat \<Rightarrow> nat" where "ADDR_LO addr = u32 addr"

definition align_up :: "nat \<Rightarrow> nat \<Rightarrow> nat" where
  "align_up v alignment = u32 (v + alignment - 1) div alignment * alignment"

definition RSSE_TQ_PARAM :: "nat \<Rightarrow> nat \<Rightarrow> nat" where
  "RSSE_TQ_PARAM tq_id param_id = 0x30000 + tq_id * 0x1000 + param_id * 4"

definition RSSE_TQ_MAXID :: "nat \<Rightarrow> nat" where "RSSE_TQ_MAXID tq_id = 0x20000 + tq_id * 0x1000"
definition RSSE_TQ_TOKEN :: "nat \<Rightarrow> nat" where "RSSE_TQ_TOKEN tq_id = 0x20000 + tq_id * 0x1000 + 0x4"
definition RSSE_TQ_KTYPE :: "nat \<Rightarrow> nat" where "RSSE_TQ_KTYPE tq_id = 0x20000 + tq_id * 0x1000 + 0x8"
definition RSSE_TQ_KADDR_LO :: "nat \<Rightarrow> nat" where "RSSE_TQ_KADDR_LO tq_id = 0x20000 + tq_id * 0x1000 + 0xC"
definition RSSE_TQ_KADDR_HI :: "nat \<Rightarrow> nat" where "RSSE_TQ_KADDR_HI tq_id = 0x20000 + tq_id * 0x1000 + 0x10"
definition RSSE_TQ_KSIZE :: "nat \<Rightarrow> nat" where "RSSE_TQ_KSIZE tq_id = 0x20000 + tq_id * 0x1000 + 0x14"

lemmas rsse_defs = RSSE_TQ_PARAM_def RSSE_TQ_MAXID_def RSSE_TQ_TOKEN_def RSSE_TQ_KTYPE_def
  RSSE_TQ_KADDR_LO_def RSSE_TQ_KADDR_HI_def RSSE_TQ_KSIZE_def

definition KL1_SSE_TQ_COUNT :: nat where "KL1_SSE_TQ_COUNT = 8"
definition KL1_SSE_TQ_CAPACITY :: nat where "KL1_SSE_TQ_CAPACITY = 16"
definition KL1_SSE_TQ_PARAM_COUNT :: nat where "KL1_SSE_TQ_PARAM_COUNT = 32"
definition MAX_PARAM_DWORD_SIZE_KL1 :: nat where "MAX_PARAM_DWORD_SIZE_KL1 = 29"
definition XTT_INTR :: nat where "XTT_INTR = 2"

text \<open>What \<^verbatim>\<open>xpuhw_sse_enqueue_task_locked\<close> reads of a task.\<close>

record sse_task =
  st_token :: nat
  st_type :: nat
  st_nclusters :: nat
  st_ncores :: nat
  st_code_addr :: nat
  st_code_byte_size :: nat
  st_param_dword_size :: nat
  st_params :: "nat list"

section \<open>Handing over a task\<close>

text \<open>The two loops over the parameters, from index \<open>i\<close>: pairs first, then what is left.\<close>

function param_writes :: "nat \<Rightarrow> nat list \<Rightarrow> nat \<Rightarrow> nat \<Rightarrow> reg_write list" where
  "param_writes tq_id params n i =
     (if i + 1 < n then
        W64 (RSSE_TQ_PARAM tq_id (3 + i)) (makeu64 (params ! (i + 1)) (params ! i))
        # param_writes tq_id params n (i + 2)
      else map (\<lambda>j. W32 (RSSE_TQ_PARAM tq_id (3 + j)) (params ! j)) [i..<n])"
  by pat_completeness auto
termination by (relation "measure (\<lambda>(tq, ps, n, i). n - i)") auto

declare param_writes.simps [simp del]

text \<open>\<^verbatim>\<open>i\<close> after the loops, which decides about the write that closes the parameters.\<close>

definition param_end :: "nat \<Rightarrow> nat" where
  "param_end n = (if n \<le> 1 then 1 else n)"

definition sse_param_part :: "sse_task \<Rightarrow> nat \<Rightarrow> reg_write list" where
  "sse_param_part t tq_id =
     (let n = st_param_dword_size t
      in [W32 (RSSE_TQ_PARAM tq_id 1) (st_nclusters t)] @
         (if n \<noteq> 0 then [W64 (RSSE_TQ_PARAM tq_id 2) (makeu64 (st_params t ! 0) (st_ncores t))]
          else [W32 (RSSE_TQ_PARAM tq_id 2) (st_ncores t)]) @
         param_writes tq_id (st_params t) n 1 @
         (if 3 + param_end n \<noteq> KL1_SSE_TQ_PARAM_COUNT
          then [W32 (RSSE_TQ_PARAM tq_id (KL1_SSE_TQ_PARAM_COUNT - 1)) 0] else []))"

definition sse_control_part :: "sse_task \<Rightarrow> nat \<Rightarrow> reg_write list" where
  "sse_control_part t tq_id =
     [W64 (RSSE_TQ_MAXID tq_id) (makeu64 (st_token t) (u32_sub (st_nclusters t) 1)),
      W64 (RSSE_TQ_KTYPE tq_id) (makeu64 (ADDR_LO (st_code_addr t)) (0xffffff00 + st_type t mod 256)),
      W64 (RSSE_TQ_KADDR_HI tq_id) (makeu64 (align_up (st_code_byte_size t) 64) (ADDR_HI (st_code_addr t)))]"

definition sse_intr_part :: "nat \<Rightarrow> reg_write list" where
  "sse_intr_part tq_id = [W32 (RSSE_TQ_KTYPE tq_id) XTT_INTR, W32 (RSSE_TQ_KSIZE tq_id) 0]"

definition xpuhw_sse_enqueue_task_locked :: "sse_task option \<Rightarrow> nat \<Rightarrow> kl_err + reg_write list" where
  "xpuhw_sse_enqueue_task_locked xtask tq_id =
     (case xtask of
        None \<Rightarrow> Inl XPUERR_INVALID_PARAM
      | Some t \<Rightarrow>
          if tq_id \<ge> KL1_SSE_TQ_COUNT then Inl XPUERR_INVALID_PARAM
          else Inr (sse_param_part t tq_id @ sse_control_part t tq_id @ sse_intr_part tq_id))"

section \<open>Initialisation\<close>

definition PD1_OFFSET :: nat where "PD1_OFFSET = 0x400000000"

text \<open>Bits 0 to 3 disable the compute clusters, bits 4 to 7 the CDNN ones.\<close>

definition cldisable_bits :: "nat \<Rightarrow> nat \<Rightarrow> nat" where
  "cldisable_bits cunits pd =
     (15 - cunits div 2 ^ (8 + pd * 4) mod 16) + (15 - cunits div 2 ^ (pd * 4) mod 16) * 16"

definition xpuhw_sse_init :: "nat \<Rightarrow> nat \<Rightarrow> reg_write list" where
  "xpuhw_sse_init cunits pd =
     (let off = (if pd = 1 then PD1_OFFSET else 0);
          base = (\<lambda>reg addr. [W32 reg (ADDR_LO (off + addr)), W32 (reg + 4) (ADDR_HI (off + addr))])
      in [W32 0x01010 (cldisable_bits cunits pd)] @
         base 0x03000 0x80400000 @ base 0x03008 0x80500000 @ base 0x03010 0x80600000 @ base 0x03018 0x80700000 @
         base 0x03020 0x80000000 @ base 0x03028 0x80100000 @ base 0x03030 0x80200000 @ base 0x03038 0x80300000)"

section \<open>What the hardware sees\<close>

definition run_writes :: "reg_write list \<Rightarrow> (nat \<times> nat) list" where
  "run_writes ws = concat (map dwords ws)"

definition regs_after :: "reg_write list \<Rightarrow> nat \<rightharpoonup> nat" where
  "regs_after ws = map_of (rev (run_writes ws))"

lemma run_writes_simps [simp]:
  "run_writes [] = []" "run_writes (w # ws) = dwords w @ run_writes ws"
  "run_writes (vs @ ws) = run_writes vs @ run_writes ws"
  by (simp_all add: run_writes_def)

lemma u32_0 [simp]: "u32 0 = 0"
  by (simp add: u32_def)

lemma dword_halves [simp]:
  "u32 (makeu64 hi lo) = u32 lo" "u32 (makeu64 hi lo div 4294967296) = u32 hi"
proof -
  show "u32 (makeu64 hi lo) = u32 lo" by (simp add: makeu64_def u32_def)
  have "u32 lo < 4294967296" by (simp add: u32_def)
  then have "makeu64 hi lo div 4294967296 = u32 hi" by (simp add: makeu64_def)
  then show "u32 (makeu64 hi lo div 4294967296) = u32 hi" by (simp add: u32_def)
qed

lemma param_step: "RSSE_TQ_PARAM tq j + 4 = RSSE_TQ_PARAM tq (Suc j)"
  by (simp add: RSSE_TQ_PARAM_def)

text \<open>Pairs or not, the loops write each parameter once, in order.\<close>

lemma param_writes_dwords:
  "run_writes (param_writes tq ps n i) =
     map (\<lambda>j. (RSSE_TQ_PARAM tq (3 + j), u32 (ps ! j))) [i..<n]"
proof (induction tq ps n i rule: param_writes.induct)
  case (1 tq ps n i)
  show ?case
  proof (cases "i + 1 < n")
    case True
    then have "[i..<n] = i # Suc i # [Suc (Suc i)..<n]" by (simp add: upt_conv_Cons)
    with True 1 show ?thesis by (subst param_writes.simps) (simp add: param_step)
  next
    case False
    then show ?thesis
      by (subst param_writes.simps) (simp add: run_writes_def comp_def concat_map_singleton)
  qed
qed

lemma param_part_dwords:
  "run_writes (sse_param_part t tq) =
     (RSSE_TQ_PARAM tq 1, u32 (st_nclusters t)) # (RSSE_TQ_PARAM tq 2, u32 (st_ncores t)) #
     map (\<lambda>j. (RSSE_TQ_PARAM tq (3 + j), u32 (st_params t ! j))) [0..<st_param_dword_size t] @
     (if 3 + param_end (st_param_dword_size t) \<noteq> KL1_SSE_TQ_PARAM_COUNT
      then [(RSSE_TQ_PARAM tq 31, 0)] else [])"
proof (cases "st_param_dword_size t = 0")
  case True
  then show ?thesis
    by (simp add: sse_param_part_def param_writes_dwords KL1_SSE_TQ_PARAM_COUNT_def)
next
  case False
  then have "[0..<st_param_dword_size t] = 0 # [1..<st_param_dword_size t]" by (simp add: upt_conv_Cons)
  with False show ?thesis
    by (simp add: sse_param_part_def Let_def param_writes_dwords KL1_SSE_TQ_PARAM_COUNT_def param_step
        numeral_3_eq_3)
qed

lemma regs_afterI:
  assumes "distinct (map fst (run_writes ws))" "(a, v) \<in> set (run_writes ws)"
  shows "regs_after ws a = Some v"
  using assms by (simp add: regs_after_def rev_map [symmetric] map_of_is_SomeI)

lemma control_part_dwords:
  "run_writes (sse_control_part t tq) =
     [(RSSE_TQ_MAXID tq, u32 (u32_sub (st_nclusters t) 1)), (RSSE_TQ_TOKEN tq, u32 (st_token t)),
      (RSSE_TQ_KTYPE tq, u32 (0xffffff00 + st_type t mod 256)), (RSSE_TQ_KADDR_LO tq, u32 (ADDR_LO (st_code_addr t))),
      (RSSE_TQ_KADDR_HI tq, u32 (ADDR_HI (st_code_addr t))), (RSSE_TQ_KSIZE tq, u32 (align_up (st_code_byte_size t) 64))]"
  by (simp add: sse_control_part_def rsse_defs)

lemma param_part_distinct:
  assumes "st_param_dword_size t \<le> MAX_PARAM_DWORD_SIZE_KL1"
  shows "distinct (map fst (run_writes (sse_param_part t tq)))"
  using assms
  by (auto simp: param_part_dwords RSSE_TQ_PARAM_def distinct_map inj_on_def comp_def
      MAX_PARAM_DWORD_SIZE_KL1_def KL1_SSE_TQ_PARAM_COUNT_def param_end_def split: if_splits)

lemma param_part_last:
  assumes "st_param_dword_size t \<le> MAX_PARAM_DWORD_SIZE_KL1"
  shows "fst (last (run_writes (sse_param_part t tq))) = RSSE_TQ_PARAM tq 31"
  using assms
  by (auto simp: param_part_dwords MAX_PARAM_DWORD_SIZE_KL1_def KL1_SSE_TQ_PARAM_COUNT_def param_end_def
      last_map last_upt)

text \<open>The block of registers that belongs to queue \<open>tq\<close>.\<close>

definition own_register :: "nat \<Rightarrow> nat \<Rightarrow> bool" where
  "own_register tq a \<longleftrightarrow> a div 0x1000 = 0x20 + tq \<or> a div 0x1000 = 0x30 + tq"

lemma param_own: "j < 1024 \<Longrightarrow> own_register tq (RSSE_TQ_PARAM tq j)"
proof -
  assume j: "j < 1024"
  have "RSSE_TQ_PARAM tq j = j * 4 + (0x30 + tq) * 0x1000" by (simp add: RSSE_TQ_PARAM_def)
  then have "RSSE_TQ_PARAM tq j div 0x1000 = 0x30 + tq" using j by (simp add: div_mult_self1)
  then show ?thesis by (simp add: own_register_def)
qed

section \<open>Properties\<close>


definition demo_task :: sse_task where
  "demo_task = \<lparr>st_token = 77, st_type = 1, st_nclusters = 4, st_ncores = 16, st_code_addr = 0x200001000,
     st_code_byte_size = 1000, st_param_dword_size = 3, st_params = [10, 20, 30]\<rparr>"


end
