(* ===== verification/Kl1_Pd.thy ===== *)
theory Kl1_Pd
  imports Kl_Prelude
begin

text \<open>
  The state machine of a KL1 power domain, \<^verbatim>\<open>kl1/device_state.c\<close>: the transition functions and the
  error that is kept when several are reported. The functions work on any record that extends
  \<open>pd_sm\<close>, since \<open>Kl1_Tq\<close> adds the queues to it.
\<close>

section \<open>States and transitions\<close>

datatype xpd_state = XPDS_UNUSED | XPDS_RUNNING | XPDS_LOWPOWER | XPDS_PAUSING | XPDS_PAUSED | XPDS_ERROR

record pd_sm =
  xpd_state :: xpd_state
  xpd_errno :: "kl_err option"

definition xpd_state_to_running :: "'a pd_sm_scheme \<Rightarrow> kl_status \<times> 'a pd_sm_scheme" where
  "xpd_state_to_running xpd =
     (case xpd_state xpd of
        XPDS_RUNNING \<Rightarrow> (None, xpd\<lparr>xpd_state := XPDS_RUNNING\<rparr>)
      | XPDS_LOWPOWER \<Rightarrow> (None, xpd\<lparr>xpd_state := XPDS_RUNNING\<rparr>)
      | XPDS_PAUSED \<Rightarrow> (None, xpd\<lparr>xpd_state := XPDS_RUNNING\<rparr>)
      | XPDS_ERROR \<Rightarrow> (None, xpd\<lparr>xpd_state := XPDS_RUNNING\<rparr>)
      | _ \<Rightarrow> (Some EINVAL, xpd))"

definition xpd_state_to_lowpower :: "'a pd_sm_scheme \<Rightarrow> kl_status \<times> 'a pd_sm_scheme" where
  "xpd_state_to_lowpower xpd =
     (case xpd_state xpd of
        XPDS_RUNNING \<Rightarrow> (None, xpd\<lparr>xpd_state := XPDS_LOWPOWER\<rparr>)
      | _ \<Rightarrow> (Some EINVAL, xpd))"

text \<open>\<^verbatim>\<open>__eprio\<close>; \<^term>\<open>None\<close> is the error number 0.\<close>

fun eprio :: "kl_err option \<Rightarrow> int" where
  "eprio (Some XPUERR_UCECC) = 6"
| "eprio (Some XPUERR_OVERHEAT) = 5"
| "eprio (Some XPUERR_HWEXCEPTION) = 4"
| "eprio (Some XPUERR_KEXCEPTION) = 3"
| "eprio (Some XPUERR_TIMEOUT) = 2"
| "eprio (Some XPUERR_DMATIMEOUT) = 1"
| "eprio _ = - 1"

text \<open>
  The error number is recorded by priority whether or not the transition is allowed: from
  LOWPOWER and PAUSED the state stays and the function reports \<open>EINVAL\<close>.
\<close>

definition xpd_state_to_error :: "'a pd_sm_scheme \<Rightarrow> kl_err option \<Rightarrow> kl_status \<times> 'a pd_sm_scheme" where
  "xpd_state_to_error xpd errno =
     (let (ret, xpd1) =
            (case xpd_state xpd of
               XPDS_RUNNING \<Rightarrow> (None, xpd\<lparr>xpd_state := XPDS_ERROR\<rparr>)
             | XPDS_PAUSING \<Rightarrow> (None, xpd\<lparr>xpd_state := XPDS_ERROR\<rparr>)
             | XPDS_ERROR \<Rightarrow> (None, xpd\<lparr>xpd_state := XPDS_ERROR\<rparr>)
             | _ \<Rightarrow> (Some EINVAL, xpd));
          xpd2 = (if eprio errno > eprio (xpd_errno xpd1) then xpd1\<lparr>xpd_errno := errno\<rparr> else xpd1)
      in (ret, xpd2))"

definition xpd_state_to_pausing :: "'a pd_sm_scheme \<Rightarrow> kl_status \<times> 'a pd_sm_scheme" where
  "xpd_state_to_pausing xpd =
     (case xpd_state xpd of
        XPDS_RUNNING \<Rightarrow> (None, xpd\<lparr>xpd_state := XPDS_PAUSING\<rparr>)
      | XPDS_PAUSING \<Rightarrow> (None, xpd\<lparr>xpd_state := XPDS_PAUSING\<rparr>)
      | _ \<Rightarrow> (Some EINVAL, xpd))"

definition xpd_state_to_paused :: "'a pd_sm_scheme \<Rightarrow> kl_status \<times> 'a pd_sm_scheme" where
  "xpd_state_to_paused xpd =
     (case xpd_state xpd of
        XPDS_PAUSING \<Rightarrow> (None, xpd\<lparr>xpd_state := XPDS_PAUSED\<rparr>)
      | _ \<Rightarrow> (Some EINVAL, xpd))"

lemmas xpd_transitions = xpd_state_to_running_def xpd_state_to_lowpower_def xpd_state_to_error_def
  xpd_state_to_pausing_def xpd_state_to_paused_def

section \<open>Histories of transitions\<close>

datatype sm_call = ToRunning | ToLowpower | ToError "kl_err option" | ToPausing | ToPaused

fun sm_step :: "'a pd_sm_scheme \<Rightarrow> sm_call \<Rightarrow> kl_status \<times> 'a pd_sm_scheme" where
  "sm_step xpd ToRunning = xpd_state_to_running xpd"
| "sm_step xpd ToLowpower = xpd_state_to_lowpower xpd"
| "sm_step xpd (ToError e) = xpd_state_to_error xpd e"
| "sm_step xpd ToPausing = xpd_state_to_pausing xpd"
| "sm_step xpd ToPaused = xpd_state_to_paused xpd"

fun sm_run :: "'a pd_sm_scheme \<Rightarrow> sm_call list \<Rightarrow> 'a pd_sm_scheme" where
  "sm_run xpd [] = xpd"
| "sm_run xpd (c # cs) = sm_run (snd (sm_step xpd c)) cs"

text \<open>The state graph of the driver.\<close>

inductive sm_edge :: "xpd_state \<Rightarrow> xpd_state \<Rightarrow> bool" where
  "s \<in> {XPDS_RUNNING, XPDS_LOWPOWER, XPDS_PAUSED, XPDS_ERROR} \<Longrightarrow> sm_edge s XPDS_RUNNING"
| "sm_edge XPDS_RUNNING XPDS_LOWPOWER"
| "s \<in> {XPDS_RUNNING, XPDS_PAUSING, XPDS_ERROR} \<Longrightarrow> sm_edge s XPDS_ERROR"
| "s \<in> {XPDS_RUNNING, XPDS_PAUSING} \<Longrightarrow> sm_edge s XPDS_PAUSING"
| "sm_edge XPDS_PAUSING XPDS_PAUSED"

inductive_simps sm_edge_simps: "sm_edge s t"

fun sm_target :: "sm_call \<Rightarrow> xpd_state" where
  "sm_target ToRunning = XPDS_RUNNING"
| "sm_target ToLowpower = XPDS_LOWPOWER"
| "sm_target (ToError e) = XPDS_ERROR"
| "sm_target ToPausing = XPDS_PAUSING"
| "sm_target ToPaused = XPDS_PAUSED"

fun reported :: "sm_call list \<Rightarrow> kl_err option list" where
  "reported [] = []"
| "reported (ToError e # cs) = e # reported cs"
| "reported (c # cs) = reported cs"

lemma sm_step_correct:
  "if sm_edge (xpd_state xpd) (sm_target c)
   then fst (sm_step xpd c) = None \<and> xpd_state (snd (sm_step xpd c)) = sm_target c
   else fst (sm_step xpd c) = Some EINVAL \<and> xpd_state (snd (sm_step xpd c)) = xpd_state xpd"
  by (cases c; cases "xpd_state xpd") (simp_all add: xpd_transitions sm_edge_simps Let_def)

lemma sm_step_errno:
  "xpd_errno (snd (sm_step xpd c)) =
     (case c of ToError e \<Rightarrow> if eprio e > eprio (xpd_errno xpd) then e else xpd_errno xpd
              | _ \<Rightarrow> xpd_errno xpd)"
  by (cases c; cases "xpd_state xpd") (simp_all add: xpd_transitions Let_def)

lemma sm_run_errno:
  "xpd_errno (sm_run xpd cs) \<in> set (xpd_errno xpd # reported cs) \<and>
   (\<forall>e \<in> set (xpd_errno xpd # reported cs). eprio e \<le> eprio (xpd_errno (sm_run xpd cs)))"
proof (induction cs arbitrary: xpd)
  case (Cons c cs)
  note e = sm_step_errno [of xpd c]
  show ?case
  proof (cases "\<exists>e. c = ToError e")
    case True
    then obtain e' where "c = ToError e'" by blast
    with Cons [of "snd (sm_step xpd c)"] e show ?thesis
      by (cases "eprio (xpd_errno xpd) < eprio e'") (auto simp del: sm_step.simps eprio.simps)
  next
    case False
    then have "reported (c # cs) = reported cs" "xpd_errno (snd (sm_step xpd c)) = xpd_errno xpd"
      using e by (cases c; simp)+
    with Cons [of "snd (sm_step xpd c)"] show ?thesis by simp
  qed
qed simp

section \<open>Properties\<close>

text \<open>
  C16: the state machine of a power domain. Each transition function moves to its target exactly
  along the edges of the state graph and reports \<open>EINVAL\<close> without moving otherwise; and after any
  sequence of calls the recorded error is one of those reported (or the initial one) of the highest
  priority among them, whatever order they came in.
\<close>

theorem xpd_state_machine:
  "(if sm_edge (xpd_state xpd) (sm_target c)
    then fst (sm_step xpd c) = None \<and> xpd_state (snd (sm_step xpd c)) = sm_target c
    else fst (sm_step xpd c) = Some EINVAL \<and> xpd_state (snd (sm_step xpd c)) = xpd_state xpd) \<and>
   xpd_errno (sm_run xpd cs) \<in> set (xpd_errno xpd # reported cs) \<and>
   (\<forall>e \<in> set (xpd_errno xpd # reported cs). eprio e \<le> eprio (xpd_errno (sm_run xpd cs)))"
  using sm_step_correct [of xpd c] sm_run_errno [of xpd cs] by simp

lemma xpd_state_machine_witness:
  "xpd_errno (sm_run \<lparr>xpd_state = XPDS_RUNNING, xpd_errno = None\<rparr>
     [ToError (Some XPUERR_TIMEOUT), ToError (Some XPUERR_UCECC), ToError (Some XPUERR_KEXCEPTION)])
   = Some XPUERR_UCECC"
proof -
  let ?x = "\<lparr>xpd_state = XPDS_RUNNING, xpd_errno = None\<rparr>"
  let ?cs = "[ToError (Some XPUERR_TIMEOUT), ToError (Some XPUERR_UCECC), ToError (Some XPUERR_KEXCEPTION)]"
  from xpd_state_machine [of ?x ToPaused ?cs]
  have "xpd_errno (sm_run ?x ?cs) \<in> {None, Some XPUERR_TIMEOUT, Some XPUERR_UCECC, Some XPUERR_KEXCEPTION}"
    "6 \<le> eprio (xpd_errno (sm_run ?x ?cs))" by (auto simp del: sm_run.simps)
  then show ?thesis by auto
qed

end
