(* ===== verification/Kl1_Tq.thy ===== *)
theory Kl1_Tq
  imports Kl1_Sse Kl1_Pd
begin

text \<open>
  The task queues of KL1, \<^verbatim>\<open>kl1/xpu_tq.c\<close>, with the sessions they account for: adding tasks,
  dispatching them to the hardware, finishing them on an interrupt, and hanging the queues on an
  exception; then the parts of \<^verbatim>\<open>kl1/xpu_session.c\<close>, \<^verbatim>\<open>kl1/xpu_sched.c\<close>, \<^verbatim>\<open>kl1/xpu_irq.c\<close> and
  \<^verbatim>\<open>kl1/device.c\<close> that drive them.

  The list of a queue is a HOL list; \<open>tq_last_running\<close> is \<^term>\<open>None\<close> when the C pointer is the
  head of the list and the address of a task otherwise. Sessions live in a store from addresses;
  reading one that is not there (freed) makes the whole operation \<^term>\<open>None\<close>. Each body under a
  queue's lock is one function; \<open>Kl1_Sched\<close> interleaves them.
\<close>

section \<open>Data\<close>

datatype xpu_task_state = XTS_PENDING | XTS_RUNNING | XTS_FINISHED | XTS_EXCEPTION

datatype xpu_tq_state = XTQS_NORMAL | XTQS_HANGUP

datatype xpu_session_state = XSS_NORMAL | XSS_ERROR | XSS_CLOSED

text \<open>\<open>xt_ref\<close> is the address of the task; \<open>xt_sse\<close> what the hardware interface reads of it.\<close>

record xpu_task =
  xt_ref :: nat
  xt_state :: xpu_task_state
  xt_free_by_tq :: bool
  xt_xsess :: "nat option"
  xt_xtq_id :: nat
  xt_sse :: sse_task

record xpu_tq =
  tq_id :: nat
  tq_state :: xpu_tq_state
  tq_enable :: bool
  tq_capacity :: nat
  tq_cnt_running :: nat
  tq_cnt_all :: nat
  tq_tasks :: "xpu_task list"
  tq_last_running :: "nat option"
  tq_task_issued :: nat
  tq_msi_received :: nat

record xpu_session =
  ss_id :: nat
  ss_state :: xpu_session_state
  ss_errno :: "kl_err option"
  ss_unfinished_cnt :: int
  ss_xtq :: "nat option"
  ss_binding_fixed :: bool
  ss_xctx :: nat

text \<open>The context of a user process, as far as the session manager keeps it.\<close>

record xpu_ctx =
  cx_pid :: int
  cx_sess_cnt :: int

text \<open>
  A power domain: its state machine, its queues, the mask of queues that have drained while
  pausing, whether the device is disabled or in reset, the tokens of the compute units with an
  error, whether the saved error tasks are stale, these tasks, the live sessions and contexts with the lists that link them, and
  the lock of these lists.
\<close>

record xpu_pd = pd_sm +
  xpd_xtqs :: "xpu_tq list"
  xpd_pending_finish_flag :: "32 word"
  xpd_disabled_or_in_reset :: bool
  xpd_cu_error_tokens :: "nat list"
  xpd_need_clean_etasks :: bool
  xpd_etasks :: "xpu_task list"
  xpd_sessions :: "nat \<Rightarrow> xpu_session option"
  xpd_session_list :: "nat list"
  xpd_contexts :: "nat \<Rightarrow> xpu_ctx option"
  xpd_context_list :: "nat list"
  xpd_sessions_lock :: bool
  xpd_session_id_counter :: nat

definition xtq_init :: "nat \<Rightarrow> xpu_tq" where
  "xtq_init i =
     \<lparr>tq_id = i, tq_state = XTQS_NORMAL, tq_enable = True, tq_capacity = KL1_SSE_TQ_CAPACITY,
      tq_cnt_running = 0, tq_cnt_all = 0, tq_tasks = [], tq_last_running = None,
      tq_task_issued = 0, tq_msi_received = 0\<rparr>"

definition xtq_free_count :: "xpu_tq \<Rightarrow> nat" where
  "xtq_free_count tq = u32_sub (tq_capacity tq) (tq_cnt_running tq)"

section \<open>Adding tasks\<close>

definition xtq_add_tasks_locked :: "xpd_state \<Rightarrow> xpu_tq \<Rightarrow> xpu_task list \<Rightarrow> kl_err + xpu_tq" where
  "xtq_add_tasks_locked pdst xtq xtasks =
     (if xtasks = [] then Inl EINVAL
      else if pdst = XPDS_UNUSED \<or> pdst = XPDS_ERROR then Inl XPUERR_ABNORMAL
      else if tq_state xtq = XTQS_HANGUP then Inl XPUERR_ABNORMAL
      else Inr (foldl (\<lambda>q t. q\<lparr>tq_tasks := tq_tasks q @ [t\<lparr>xt_xtq_id := tq_id q\<rparr>],
                                tq_cnt_all := u32 (tq_cnt_all q + 1)\<rparr>) xtq xtasks))"

section \<open>Dispatching\<close>

text \<open>
  \<^verbatim>\<open>xtq->last_running->next\<close>, as an index into the list: the first task when \<open>last_running\<close> is
  the head, else the one after it. \<^term>\<open>None\<close> is the head again, the case \<^verbatim>\<open>list_is_last\<close> tests.
\<close>

definition next_index :: "xpu_tq \<Rightarrow> nat option" where
  "next_index xtq =
     (let i = (case tq_last_running xtq of
                 None \<Rightarrow> 0
               | Some r \<Rightarrow> (case List.find (\<lambda>i. xt_ref (tq_tasks xtq ! i) = r) [0..<length (tq_tasks xtq)] of
                             None \<Rightarrow> length (tq_tasks xtq) | Some i \<Rightarrow> Suc i))
      in if i < length (tq_tasks xtq) then Some i else None)"

text \<open>The loop of \<^verbatim>\<open>tasklet_xtq_dispatch\<close>: the queue after it and the tasks written to the hardware.\<close>

function dispatch_loop :: "xpu_tq \<Rightarrow> xpu_tq \<times> xpu_task list" where
  "dispatch_loop xtq =
     (if tq_cnt_running xtq < tq_capacity xtq then
        (case next_index xtq of
           None \<Rightarrow> (xtq, [])
         | Some i \<Rightarrow>
             let xtask = (tq_tasks xtq ! i)\<lparr>xt_state := XTS_RUNNING\<rparr>;
                 (xtq', issued) = dispatch_loop (xtq\<lparr>tq_cnt_running := tq_cnt_running xtq + 1,
                   tq_task_issued := u64 (tq_task_issued xtq + 1),
                   tq_tasks := (tq_tasks xtq)[i := xtask],
                   tq_last_running := Some (xt_ref xtask)\<rparr>)
             in (xtq', xtask # issued))
      else (xtq, []))"
  by pat_completeness auto
termination by (relation "measure (\<lambda>q. tq_capacity q - tq_cnt_running q)") auto

declare dispatch_loop.simps [simp del]

definition tasklet_xtq_dispatch :: "xpu_pd \<Rightarrow> nat \<Rightarrow> xpu_pd \<times> xpu_task list" where
  "tasklet_xtq_dispatch xpd i =
     (let xtq = xpd_xtqs xpd ! i
      in if tq_cnt_running xtq \<ge> tq_capacity xtq then (xpd, [])
         else if tq_cnt_running xtq = tq_cnt_all xtq then (xpd, [])
         else if xpd_state xpd \<noteq> XPDS_RUNNING then (xpd, [])
         else if xpd_disabled_or_in_reset xpd then (xpd, [])
         else
           let (xtq', issued) = dispatch_loop xtq
           in (xpd\<lparr>xpd_xtqs := (xpd_xtqs xpd)[i := xtq']\<rparr>, issued))"

text \<open>What a dispatch writes to the registers: each task in order.\<close>

definition sse_writes :: "nat \<Rightarrow> xpu_task list \<Rightarrow> reg_write list" where
  "sse_writes tq issued =
     concat (map (\<lambda>t. case xpuhw_sse_enqueue_task_locked (Some (xt_sse t)) tq of
                        Inl _ \<Rightarrow> [] | Inr ws \<Rightarrow> ws) issued)"

section \<open>Finishing\<close>

definition sub_unfinished :: "(nat \<Rightarrow> xpu_session option) \<Rightarrow> nat \<Rightarrow> (nat \<Rightarrow> xpu_session option) option" where
  "sub_unfinished sess s = do {
     x \<leftarrow> sess s;
     Some (sess(s \<mapsto> x\<lparr>ss_unfinished_cnt := ss_unfinished_cnt x - 1\<rparr>))
   }"

text \<open>
  The loop of \<^verbatim>\<open>ISR_xtq_on_finish\<close> over the head of the list. The result has the finished tasks and
  what is left of the countdown.
\<close>

fun finish_loop ::
    "xpu_task list \<Rightarrow> xpu_tq \<Rightarrow> (nat \<Rightarrow> xpu_session option) \<Rightarrow> nat \<Rightarrow>
     (xpu_tq \<times> (nat \<Rightarrow> xpu_session option) \<times> xpu_task list \<times> nat) option" where
  "finish_loop [] xtq sess countdown = Some (xtq, sess, [], countdown)"
| "finish_loop (xtask # rest) xtq sess countdown = do {
     let xtq1 = xtq\<lparr>tq_tasks := rest, tq_cnt_running := u32_sub (tq_cnt_running xtq) 1,
                    tq_cnt_all := u32_sub (tq_cnt_all xtq) 1,
                    tq_last_running := (if tq_last_running xtq = Some (xt_ref xtask) then None
                                        else tq_last_running xtq)\<rparr>;
     sess1 \<leftarrow> (case xt_xsess xtask of None \<Rightarrow> Some sess | Some s \<Rightarrow> sub_unfinished sess s);
     let fin = xtask\<lparr>xt_state := XTS_FINISHED\<rparr>;
     (if countdown - 1 = 0 then Some (xtq1, sess1, [fin], 0)
      else do {
        (xtq2, sess2, fins, cd) \<leftarrow> finish_loop rest xtq1 sess1 (countdown - 1);
        Some (xtq2, sess2, fin # fins, cd)
      })
   }"

definition all_queues_mask :: "32 word" where
  "all_queues_mask = push_bit KL1_SSE_TQ_COUNT 1 - 1"

text \<open>The part of \<^verbatim>\<open>ISR_xtq_on_finish\<close> under the lock.\<close>

definition finish_locked :: "xpu_pd \<Rightarrow> nat \<Rightarrow> nat \<Rightarrow> (xpu_pd \<times> xpu_task list) option" where
  "finish_locked xpd i cnt_finish =
     (let xtq = (xpd_xtqs xpd ! i)\<lparr>tq_msi_received := u64 (tq_msi_received (xpd_xtqs xpd ! i) + 1)\<rparr>;
          xpd1 = xpd\<lparr>xpd_xtqs := (xpd_xtqs xpd)[i := xtq]\<rparr>
      in if cnt_finish = 0 then Some (xpd1, [])
         else if xpd_disabled_or_in_reset xpd then Some (xpd1, [])
         else do {
           (xtq1, sess1, fins, cd) \<leftarrow> finish_loop (tq_tasks xtq) xtq (xpd_sessions xpd) cnt_finish;
           let xpd2 = xpd1\<lparr>xpd_xtqs := (xpd_xtqs xpd)[i := xtq1], xpd_sessions := sess1\<rparr>;
           Some
             (if xpd_state xpd2 = XPDS_PAUSING \<and> tq_cnt_running xtq1 = 0 then
                let flag = or (xpd_pending_finish_flag xpd2) (push_bit (tq_id xtq1) 1);
                    xpd3 = xpd2\<lparr>xpd_pending_finish_flag := flag\<rparr>
                in if flag = all_queues_mask then snd (xpd_state_to_paused xpd3) else xpd3
              else xpd2,
              fins)
         })"

definition ISR_xtq_on_finish :: "xpu_pd \<Rightarrow> nat \<Rightarrow> nat \<Rightarrow> (xpu_pd \<times> xpu_task list \<times> xpu_task list) option" where
  "ISR_xtq_on_finish xpd i cnt_finish = do {
     (xpd1, fins) \<leftarrow> finish_locked xpd i cnt_finish;
     let xtq = xpd_xtqs xpd1 ! i;
     let (xpd2, issued) =
       (if cnt_finish \<noteq> 0 \<and> \<not> xpd_disabled_or_in_reset xpd \<and>
           tq_cnt_running xtq < tq_cnt_all xtq \<and> xpd_state xpd1 = XPDS_RUNNING
        then tasklet_xtq_dispatch xpd1 i else (xpd1, []));
     Some (xpd2, fins, issued)
   }"

section \<open>Exceptions\<close>

text \<open>
  The tasks saved by an earlier exception are dropped when the first one after a reset comes:
  \<^verbatim>\<open>xpd_clean_etasks_ifneed\<close> and \<^verbatim>\<open>xpd_clean_etasks_locked\<close> of \<^verbatim>\<open>kl1/xpu_pd.c\<close>.
\<close>

definition xpd_clean_etasks_locked :: "xpu_pd \<Rightarrow> xpu_pd" where
  "xpd_clean_etasks_locked xpd = xpd\<lparr>xpd_etasks := []\<rparr>"

definition xpd_clean_etasks_ifneed :: "xpu_pd \<Rightarrow> xpu_pd" where
  "xpd_clean_etasks_ifneed xpd =
     (if xpd_need_clean_etasks xpd
      then (xpd_clean_etasks_locked xpd)\<lparr>xpd_need_clean_etasks := False\<rparr> else xpd)"

text \<open>
  \<^verbatim>\<open>xtq_save_etask_locked\<close> on the list of saved tasks; its allocation may fail, and its result is
  ignored.
\<close>

definition xtq_save_etask_locked :: "bool \<Rightarrow> xpu_task list \<Rightarrow> xpu_task \<Rightarrow> xpu_task list" where
  "xtq_save_etask_locked kzalloc_ok etasks xtask = (if kzalloc_ok then etasks @ [xtask] else etasks)"

text \<open>The mark an exception leaves on the session of a task: the first error counts.\<close>

definition mark_session ::
    "(nat \<Rightarrow> xpu_session option) \<Rightarrow> nat option \<Rightarrow> kl_err \<Rightarrow> (nat \<Rightarrow> xpu_session option) option" where
  "mark_session sess xsess e = do {
     s \<leftarrow> xsess;
     x \<leftarrow> sess s;
     Some (if ss_errno x = None then sess(s \<mapsto> x\<lparr>ss_state := XSS_ERROR, ss_errno := Some e\<rparr>) else sess)
   }"

fun mark_tasks ::
    "(nat \<Rightarrow> xpu_session option) \<Rightarrow> xpu_task list \<Rightarrow> kl_err \<Rightarrow> (nat \<Rightarrow> xpu_session option) option" where
  "mark_tasks sess [] e = Some sess"
| "mark_tasks sess (t # ts) e = do {
     sess1 \<leftarrow> mark_session sess (xt_xsess t) e;
     mark_tasks sess1 ts e
   }"

definition hang_queues ::
    "xpu_pd \<Rightarrow> kl_err \<Rightarrow> xpu_pd option" where
  "hang_queues xpd e = do {
     sess \<leftarrow> mark_tasks (xpd_sessions xpd) (concat (map tq_tasks (xpd_xtqs xpd))) e;
     Some (xpd\<lparr>xpd_xtqs := map (\<lambda>q. q\<lparr>tq_state := XTQS_HANGUP\<rparr>) (xpd_xtqs xpd), xpd_sessions := sess\<rparr>)
   }"

text \<open>\<^verbatim>\<open>ISR_xpd_on_exception\<close>: tasks whose token a failed unit reports are saved.\<close>

definition ISR_xpd_on_exception :: "(nat \<Rightarrow> bool) \<Rightarrow> xpu_pd \<Rightarrow> xpu_pd option" where
  "ISR_xpd_on_exception kzalloc_ok xpd = do {
     let xpd1 = snd (xpd_state_to_error xpd (Some XPUERR_KEXCEPTION));
     let culprits = filter (\<lambda>t. st_token (xt_sse t) \<in> set (xpd_cu_error_tokens xpd1))
                      (concat (map tq_tasks (xpd_xtqs xpd1)));
     let xpd2 = xpd1\<lparr>xpd_etasks := foldl (\<lambda>es t. xtq_save_etask_locked (kzalloc_ok (xt_ref t)) es t)
                                   (xpd_etasks xpd1) culprits\<rparr>;
     hang_queues xpd2 XPUERR_KEXCEPTION
   }"

definition isr_xpd_on_sse_exception :: "xpu_pd \<Rightarrow> xpu_pd option" where
  "isr_xpd_on_sse_exception xpd =
     hang_queues (snd (xpd_state_to_error xpd (Some XPUERR_HWEXCEPTION))) XPUERR_HWEXCEPTION"

text \<open>
  What \<^verbatim>\<open>ioctl_wait\<close> does when the wait of session \<open>s\<close> timed out: the power domain goes to the
  error state and the session's queue hangs; the task at its head is the culprit.
\<close>

definition wait_timed_out :: "bool \<Rightarrow> xpu_pd \<Rightarrow> nat \<Rightarrow> xpu_pd option" where
  "wait_timed_out kzalloc_ok xpd s = do {
     x \<leftarrow> xpd_sessions xpd s;
     i \<leftarrow> ss_xtq x;
     let xpd1 = xpd_clean_etasks_ifneed (snd (xpd_state_to_error xpd (Some XPUERR_TIMEOUT)));
     let xtq = (xpd_xtqs xpd1 ! i)\<lparr>tq_state := XTQS_HANGUP\<rparr>;
     let xpd2 = xpd1\<lparr>xpd_xtqs := (xpd_xtqs xpd1)[i := xtq]\<rparr>;
     (case tq_tasks xtq of
        [] \<Rightarrow> Some xpd2
      | t # _ \<Rightarrow> do {
          sess \<leftarrow> mark_session (xpd_sessions xpd2) (xt_xsess t) XPUERR_TIMEOUT;
          Some (xpd2\<lparr>xpd_etasks := xtq_save_etask_locked kzalloc_ok (xpd_etasks xpd2) t, xpd_sessions := sess\<rparr>)
        })
   }"

section \<open>Launching\<close>

definition KL1_TQS :: nat where "KL1_TQS = 8"

text \<open>\<^verbatim>\<open>xpu_sched_bind_sess\<close>: a session without a queue gets one by its id.\<close>

definition xpu_sched_bind_sess :: "xpu_pd \<Rightarrow> nat \<Rightarrow> xpu_pd option" where
  "xpu_sched_bind_sess xpd s = do {
     x \<leftarrow> xpd_sessions xpd s;
     Some (if ss_binding_fixed x then xpd
           else if ss_xtq x \<noteq> None then xpd
           else xpd\<lparr>xpd_sessions := (xpd_sessions xpd)(s \<mapsto> x\<lparr>ss_xtq := Some (ss_id x mod KL1_TQS)\<rparr>)\<rparr>)
   }"

definition xpu_sched_bind_sess_to_tq :: "xpu_pd \<Rightarrow> nat \<Rightarrow> nat \<Rightarrow> xpu_pd option" where
  "xpu_sched_bind_sess_to_tq xpd s tq =
     (if tq \<ge> KL1_SSE_TQ_COUNT then Some xpd
      else do {
        x \<leftarrow> xpd_sessions xpd s;
        Some (xpd\<lparr>xpd_sessions := (xpd_sessions xpd)(s \<mapsto> x\<lparr>ss_xtq := Some tq\<rparr>)\<rparr>)
      })"

text \<open>\<^verbatim>\<open>xtq_add_tasks\<close> on the queue the session is bound to.\<close>

definition launch_add :: "xpu_pd \<Rightarrow> nat \<Rightarrow> xpu_task list \<Rightarrow> (kl_status \<times> xpu_pd) option" where
  "launch_add xpd s xtasks = do {
     x \<leftarrow> xpd_sessions xpd s;
     i \<leftarrow> ss_xtq x;
     Some (case xtq_add_tasks_locked (xpd_state xpd) (xpd_xtqs xpd ! i) xtasks of
             Inl e \<Rightarrow> (Some e, xpd)
           | Inr q \<Rightarrow> (None, xpd\<lparr>xpd_xtqs := (xpd_xtqs xpd)[i := q]\<rparr>))
   }"

definition launch_count :: "xpu_pd \<Rightarrow> nat \<Rightarrow> nat \<Rightarrow> xpu_pd option" where
  "launch_count xpd s cnt = do {
     x \<leftarrow> xpd_sessions xpd s;
     Some (xpd\<lparr>xpd_sessions := (xpd_sessions xpd)(s \<mapsto>
             x\<lparr>ss_unfinished_cnt := ss_unfinished_cnt x + int cnt\<rparr>)\<rparr>)
   }"

definition session_launch_tasks ::
    "xpu_pd \<Rightarrow> nat \<Rightarrow> xpu_task list \<Rightarrow> (kl_status \<times> xpu_pd \<times> xpu_task list) option" where
  "session_launch_tasks xpd s xtasks = do {
     xpd1 \<leftarrow> xpu_sched_bind_sess xpd s;
     (err, xpd2) \<leftarrow> launch_add xpd1 s xtasks;
     (if err \<noteq> None then Some (err, xpd2, [])
      else do {
        xpd3 \<leftarrow> launch_count xpd2 s (length xtasks);
        x \<leftarrow> xpd_sessions xpd3 s;
        i \<leftarrow> ss_xtq x;
        let (xpd4, issued) = (if xpd_state xpd3 = XPDS_RUNNING then tasklet_xtq_dispatch xpd3 i else (xpd3, []));
        Some (None, xpd4, issued)
      })
   }"

text \<open>\<^verbatim>\<open>ioctl_session_bindtq\<close>.\<close>

definition ioctl_session_bindtq :: "xpu_pd \<Rightarrow> nat \<Rightarrow> nat \<Rightarrow> (kl_status \<times> xpu_pd) option" where
  "ioctl_session_bindtq xpd s data = do {
     x \<leftarrow> xpd_sessions xpd s;
     Some (if ss_unfinished_cnt x \<noteq> 0 then (Some XPUERR_BUSY, xpd)
           else if u32 data \<ge> KL1_SSE_TQ_COUNT
             then (Some XPUERR_INVALID_PARAM,
                   xpd\<lparr>xpd_sessions := (xpd_sessions xpd)(s \<mapsto> x\<lparr>ss_xtq := None\<rparr>)\<rparr>)
           else (None, xpd\<lparr>xpd_sessions := (xpd_sessions xpd)(s \<mapsto>
                  x\<lparr>ss_xtq := Some (u32 data), ss_binding_fixed := True\<rparr>)\<rparr>))
   }"

section \<open>Pausing and resuming\<close>

text \<open>
  \<^verbatim>\<open>isr_pausing_xpd\<close> in the pieces that can interleave with the interrupts of the queues: the state
  change, clearing the mask, looking at one queue under its lock, and the test at the end.
\<close>

definition pause_begin :: "xpu_pd \<Rightarrow> xpu_pd option" where
  "pause_begin xpd = (if xpd_state xpd \<noteq> XPDS_RUNNING then None else Some (snd (xpd_state_to_pausing xpd)))"

definition pause_clear :: "xpu_pd \<Rightarrow> xpu_pd" where
  "pause_clear xpd = xpd\<lparr>xpd_pending_finish_flag := 0\<rparr>"

definition pause_scan :: "xpu_pd \<Rightarrow> nat \<Rightarrow> xpu_pd" where
  "pause_scan xpd i =
     (if tq_cnt_running (xpd_xtqs xpd ! i) = 0
      then xpd\<lparr>xpd_pending_finish_flag := or (xpd_pending_finish_flag xpd) (push_bit (tq_id (xpd_xtqs xpd ! i)) 1)\<rparr>
      else xpd)"

definition pause_end :: "xpu_pd \<Rightarrow> xpu_pd" where
  "pause_end xpd =
     (if xpd_pending_finish_flag xpd = all_queues_mask then snd (xpd_state_to_paused xpd) else xpd)"

definition isr_pausing_xpd :: "xpu_pd \<Rightarrow> xpu_pd" where
  "isr_pausing_xpd xpd =
     (case pause_begin xpd of
        None \<Rightarrow> xpd
      | Some xpd1 \<Rightarrow> pause_end (foldl pause_scan (pause_clear xpd1) [0..<KL1_SSE_TQ_COUNT]))"

text \<open>\<^verbatim>\<open>isr_resume_xpd\<close>; the tasklets it schedules are dispatches of their own.\<close>

definition isr_resume_xpd :: "xpu_pd \<Rightarrow> xpu_pd" where
  "isr_resume_xpd xpd =
     (if xpd_state xpd \<noteq> XPDS_PAUSED then xpd else snd (xpd_state_to_running xpd))"

section \<open>Reset\<close>

text \<open>\<^verbatim>\<open>lock_and_clean_tqs\<close>: every task of one queue is dropped.\<close>

fun clean_tq_loop ::
    "xpu_task list \<Rightarrow> xpu_tq \<Rightarrow> (nat \<Rightarrow> xpu_session option) \<Rightarrow> (xpu_tq \<times> (nat \<Rightarrow> xpu_session option)) option" where
  "clean_tq_loop [] xtq sess = Some (xtq, sess)"
| "clean_tq_loop (t # ts) xtq sess = do {
     s \<leftarrow> xt_xsess t;
     sess1 \<leftarrow> sub_unfinished sess s;
     clean_tq_loop ts (xtq\<lparr>tq_tasks := ts, tq_cnt_running := u32_sub (tq_cnt_running xtq) 1,
                           tq_cnt_all := u32_sub (tq_cnt_all xtq) 1\<rparr>) sess1
   }"

definition clean_tq :: "xpu_pd \<Rightarrow> nat \<Rightarrow> xpu_pd option" where
  "clean_tq xpd i = do {
     let xtq = (xpd_xtqs xpd ! i)\<lparr>tq_enable := False\<rparr>;
     (xtq1, sess1) \<leftarrow> clean_tq_loop (tq_tasks xtq) xtq (xpd_sessions xpd);
     Some (xpd\<lparr>xpd_xtqs := (xpd_xtqs xpd)[i := xtq1], xpd_sessions := sess1\<rparr>)
   }"

text \<open>The loop over the queues of one power domain.\<close>

fun lock_and_clean_tqs :: "xpu_pd \<Rightarrow> nat list \<Rightarrow> xpu_pd option" where
  "lock_and_clean_tqs xpd [] = Some xpd"
| "lock_and_clean_tqs xpd (i # is) = do {
     xpd1 \<leftarrow> clean_tq xpd i;
     lock_and_clean_tqs xpd1 is
   }"

text \<open>The queue part of the re-initialisation after a reset (\<^verbatim>\<open>kl1/device.c\<close>): the list itself is kept.\<close>

definition reinit_tq :: "xpu_tq \<Rightarrow> xpu_tq" where
  "reinit_tq xtq =
     xtq\<lparr>tq_state := XTQS_NORMAL, tq_cnt_running := 0, tq_cnt_all := 0, tq_last_running := None,
         tq_msi_received := 0, tq_task_issued := 0, tq_enable := True\<rparr>"

definition reinit_pd :: "xpu_pd \<Rightarrow> xpu_pd" where
  "reinit_pd xpd =
     (if xpd_state xpd = XPDS_UNUSED then xpd
      else xpd\<lparr>xpd_state := XPDS_RUNNING, xpd_errno := None, xpd_need_clean_etasks := True,
               xpd_pending_finish_flag := 0,
               xpd_xtqs := map reinit_tq (xpd_xtqs xpd)\<rparr>)"

end
