(* ===== verification/Kl1_Tq_Props.thy ===== *)
theory Kl1_Tq_Props
  imports Kl1_Tq
begin

text \<open>
  One task queue of KL1: the invariant that ties the list, the counters and the \<open>last_running\<close>
  pointer together, what dispatch and finish do under it, and first-in first-out service.
\<close>

section \<open>The invariant\<close>

definition task_refs :: "xpu_tq \<Rightarrow> nat list" where
  "task_refs q = map xt_ref (tq_tasks q)"

definition tq_wf :: "xpu_tq \<Rightarrow> bool" where
  "tq_wf q \<longleftrightarrow>
     distinct (task_refs q) \<and>
     tq_cnt_all q = length (tq_tasks q) \<and> length (tq_tasks q) < 2 ^ 32 \<and>
     tq_cnt_running q \<le> length (tq_tasks q) \<and> tq_cnt_running q \<le> tq_capacity q \<and>
     tq_last_running q =
       (if tq_cnt_running q = 0 then None else Some (xt_ref (tq_tasks q ! (tq_cnt_running q - 1)))) \<and>
     (\<forall>i < tq_cnt_running q. xt_state (tq_tasks q ! i) = XTS_RUNNING)"

lemma tq_wfD:
  assumes "tq_wf q"
  shows "distinct (map xt_ref (tq_tasks q))" "tq_cnt_all q = length (tq_tasks q)"
    "length (tq_tasks q) < 2 ^ 32" "tq_cnt_running q \<le> length (tq_tasks q)"
    "tq_cnt_running q \<le> tq_capacity q"
    "tq_last_running q =
       (if tq_cnt_running q = 0 then None else Some (xt_ref (tq_tasks q ! (tq_cnt_running q - 1))))"
    "\<And>i. i < tq_cnt_running q \<Longrightarrow> xt_state (tq_tasks q ! i) = XTS_RUNNING"
  using assms by (auto simp: tq_wf_def task_refs_def)

lemma xtq_init_wf: "tq_wf (xtq_init i)"
  by (simp add: tq_wf_def task_refs_def xtq_init_def)

section \<open>Adding\<close>

lemma add_tasks_fold:
  "foldl (\<lambda>q t. q\<lparr>tq_tasks := tq_tasks q @ [t\<lparr>xt_xtq_id := tq_id q\<rparr>],
                  tq_cnt_all := u32 (Suc (tq_cnt_all q))\<rparr>) q ts =
     q\<lparr>tq_tasks := tq_tasks q @ map (\<lambda>t. t\<lparr>xt_xtq_id := tq_id q\<rparr>) ts,
       tq_cnt_all := (if ts = [] then tq_cnt_all q else u32 (tq_cnt_all q + length ts))\<rparr>"
proof (induction ts arbitrary: q)
  case (Cons t ts)
  have "u32 (u32 (Suc (tq_cnt_all q)) + length ts) = u32 (tq_cnt_all q + length (t # ts))" by simp
  then show ?case by (simp only: foldl.simps Cons) simp
qed simp

lemma add_tasks_wf:
  assumes wf: "tq_wf q" and r: "xtq_add_tasks_locked st q ts = Inr q'"
    and d: "distinct (map xt_ref (tq_tasks q @ ts))" and l: "length (tq_tasks q @ ts) < 2 ^ 32"
  shows "tq_wf q'" and "tq_tasks q' = tq_tasks q @ map (\<lambda>t. t\<lparr>xt_xtq_id := tq_id q\<rparr>) ts"
    and "tq_cnt_running q' = tq_cnt_running q" "tq_id q' = tq_id q" "tq_capacity q' = tq_capacity q"
    "tq_state q' = tq_state q"
proof -
  from r have q': "q' = q\<lparr>tq_tasks := tq_tasks q @ map (\<lambda>t. t\<lparr>xt_xtq_id := tq_id q\<rparr>) ts,
      tq_cnt_all := u32 (tq_cnt_all q + length ts)\<rparr>"
    by (auto simp: xtq_add_tasks_locked_def add_tasks_fold split: if_splits)
  show "tq_tasks q' = tq_tasks q @ map (\<lambda>t. t\<lparr>xt_xtq_id := tq_id q\<rparr>) ts"
    "tq_cnt_running q' = tq_cnt_running q" "tq_id q' = tq_id q" "tq_capacity q' = tq_capacity q"
    "tq_state q' = tq_state q"
    by (simp_all add: q')
  have "u32 (tq_cnt_all q + length ts) = length (tq_tasks q @ ts)"
    using l tq_wfD(2) [OF wf] by (simp add: kl_wrap)
  with wf d l show "tq_wf q'"
    by (auto simp: tq_wf_def task_refs_def q' nth_append comp_def)
qed

section \<open>Dispatching\<close>

lemma find_index_distinct:
  assumes "distinct (map f xs)" "i < length xs"
  shows "List.find (\<lambda>j. f (xs ! j) = f (xs ! i)) [0..<length xs] = Some i"
proof -
  have "f (xs ! j) \<noteq> f (xs ! i)" if "j < i" for j
    using assms that nth_eq_iff_index_eq [OF assms(1), of j i] by simp
  with assms(2) show ?thesis by (auto simp: find_Some_iff intro!: exI [of _ i])
qed

lemma next_index_wf:
  assumes wf: "tq_wf q"
  shows "next_index q = (if tq_cnt_running q < length (tq_tasks q) then Some (tq_cnt_running q) else None)"
proof (cases "tq_cnt_running q = 0")
  case True
  with tq_wfD(6) [OF wf] show ?thesis by (simp add: next_index_def)
next
  case False
  with tq_wfD(4) [OF wf] have "tq_cnt_running q - 1 < length (tq_tasks q)" by simp
  from find_index_distinct [OF tq_wfD(1) [OF wf] this] False tq_wfD(6) [OF wf]
  show ?thesis by (simp add: next_index_def)
qed

abbreviation running :: "xpu_task \<Rightarrow> xpu_task" where
  "running t \<equiv> t\<lparr>xt_state := XTS_RUNNING\<rparr>"

lemma dispatch_loop_correct:
  assumes "tq_wf q" and "dispatch_loop q = (q', issued)"
    and n: "n = min (tq_capacity q) (length (tq_tasks q))"
  shows "tq_wf q' \<and> tq_cnt_running q' = n \<and>
    tq_tasks q' = map running (take n (tq_tasks q)) @ drop n (tq_tasks q) \<and>
    issued = map running (drop (tq_cnt_running q) (take n (tq_tasks q))) \<and>
    tq_id q' = tq_id q \<and> tq_capacity q' = tq_capacity q \<and> tq_state q' = tq_state q"
  using assms
proof (induction q arbitrary: q' issued rule: dispatch_loop.induct)
  case (1 q)
  let ?k = "tq_cnt_running q"
  note wf = 1(2)
  have same: "map running (take ?k (tq_tasks q)) = take ?k (tq_tasks q)"
    using tq_wfD(4,7) [OF wf] by (intro nth_equalityI) (auto intro!: xpu_task.equality)
  show ?case
  proof (cases "?k < tq_capacity q \<and> ?k < length (tq_tasks q)")
    case False
    with tq_wfD(4,5) [OF wf] 1(4) have k: "n = ?k" by auto
    from False next_index_wf [OF wf] 1(3) have "q' = q" "issued = []"
      by (auto simp: dispatch_loop.simps [of q] split: if_splits)
    with wf k same tq_wfD(4) [OF wf] show ?thesis by simp
  next
    case True
    let ?t = "running (tq_tasks q ! ?k)"
    define q1 where "q1 = q\<lparr>tq_cnt_running := ?k + 1, tq_task_issued := u64 (tq_task_issued q + 1),
        tq_tasks := (tq_tasks q)[?k := ?t], tq_last_running := Some (xt_ref ?t)\<rparr>"
    have ni: "next_index q = Some ?k" using True next_index_wf [OF wf] by simp
    obtain r where r: "dispatch_loop q1 = (q', r)" "issued = ?t # r"
      using 1(3) True ni by (auto simp: dispatch_loop.simps [of q] q1_def Let_def split: prod.splits)
    have refs: "map xt_ref ((tq_tasks q)[?k := ?t]) = map xt_ref (tq_tasks q)"
      using True by (intro nth_equalityI) (auto simp: nth_list_update)
    have wf1: "tq_wf q1"
      using wf True refs by (auto simp: tq_wf_def task_refs_def q1_def nth_list_update less_Suc_eq)
    have n1: "n = min (tq_capacity q1) (length (tq_tasks q1))" using 1(4) by (simp add: q1_def)
    note IH = 1(1) [OF conjunct1 [OF True] ni refl, folded q1_def, OF wf1 r(1) n1]
    have kn: "?k < n" using True 1(4) by simp
    have a: "map running (take n (tq_tasks q1)) = map running (take n (tq_tasks q))"
      by (rule nth_equalityI) (auto simp: q1_def nth_update_if)
    have b: "drop n (tq_tasks q1) = drop n (tq_tasks q)" using kn by (simp add: q1_def)
    have c: "drop (Suc ?k) (take n (tq_tasks q1)) = drop (Suc ?k) (take n (tq_tasks q))"
      by (simp add: q1_def take_update_swap)
    have d: "drop ?k (take n (tq_tasks q)) = tq_tasks q ! ?k # drop (Suc ?k) (take n (tq_tasks q))"
      using kn True by (subst Cons_nth_drop_Suc [symmetric]) simp_all
    from IH r(2) a b c d show ?thesis by (simp add: q1_def)
  qed
qed

section \<open>Finishing\<close>

abbreviation finished :: "xpu_task \<Rightarrow> xpu_task" where
  "finished t \<equiv> t\<lparr>xt_state := XTS_FINISHED\<rparr>"

definition count_for :: "nat \<Rightarrow> xpu_task list \<Rightarrow> nat" where
  "count_for s ts = length (filter (\<lambda>t. xt_xsess t = Some s) ts)"

lemma count_for_simps [simp]:
  "count_for s [] = 0"
  "count_for s (t # ts) = (if xt_xsess t = Some s then 1 else 0) + count_for s ts"
  "count_for s (ts @ us) = count_for s ts + count_for s us"
  by (simp_all add: count_for_def)

lemma count_for_map: "(\<And>t. xt_xsess (f t) = xt_xsess t) \<Longrightarrow> count_for s (map f ts) = count_for s ts"
  by (induction ts) auto

lemma count_for_split: "count_for s (take n ts) + count_for s (drop n ts) = count_for s ts"
  by (metis append_take_drop_id count_for_simps(3))

text \<open>The sessions with the finished tasks taken off their counts.\<close>

definition dec_sess :: "(nat \<Rightarrow> xpu_session option) \<Rightarrow> xpu_task list \<Rightarrow> (nat \<Rightarrow> xpu_session option)" where
  "dec_sess sess ts = (\<lambda>s. map_option
     (\<lambda>x. x\<lparr>ss_unfinished_cnt := ss_unfinished_cnt x - int (count_for s ts)\<rparr>) (sess s))"

definition sessions_live :: "(nat \<Rightarrow> xpu_session option) \<Rightarrow> xpu_task list \<Rightarrow> bool" where
  "sessions_live sess ts \<longleftrightarrow> (\<forall>t\<in>set ts. \<forall>s. xt_xsess t = Some s \<longrightarrow> sess s \<noteq> None)"

lemma dec_sess_Nil [simp]: "dec_sess sess [] = sess"
  by (auto simp: dec_sess_def fun_eq_iff option.map_ident_strong)

lemma sessions_live_dec [simp]: "sessions_live (dec_sess sess us) ts = sessions_live sess ts"
  by (simp add: sessions_live_def dec_sess_def)

lemma sub_step:
  assumes "sessions_live sess [t]"
  shows "(case xt_xsess t of None \<Rightarrow> Some sess | Some s \<Rightarrow> sub_unfinished sess s) = Some (dec_sess sess [t])"
proof (cases "xt_xsess t")
  case None
  then show ?thesis by (auto simp: dec_sess_def fun_eq_iff option.map_ident_strong)
next
  case (Some s)
  with assms obtain x where x: "sess s = Some x" by (auto simp: sessions_live_def)
  have "sess(s \<mapsto> x\<lparr>ss_unfinished_cnt := ss_unfinished_cnt x - 1\<rparr>) = dec_sess sess [t]"
    using Some x by (auto simp: dec_sess_def fun_eq_iff option.map_ident_strong)
  with Some x show ?thesis by (simp add: sub_unfinished_def)
qed

lemma dec_sess_Cons: "dec_sess (dec_sess sess [t]) ts = dec_sess sess (t # ts)"
  by (auto simp: dec_sess_def fun_eq_iff option.map_comp intro!: option.map_cong)

lemma finish_step_wf:
  assumes wf: "tq_wf q" and q: "tq_tasks q = t # rest" and k: "0 < tq_cnt_running q"
    and q1: "q1 = q\<lparr>tq_tasks := rest, tq_cnt_running := u32_sub (tq_cnt_running q) 1,
       tq_cnt_all := u32_sub (tq_cnt_all q) 1,
       tq_last_running := (if tq_last_running q = Some (xt_ref t) then None else tq_last_running q)\<rparr>"
  shows "tq_wf q1" and "tq_cnt_running q1 = tq_cnt_running q - 1"
proof -
  note d = tq_wfD [OF wf]
  have u: "u32_sub (tq_cnt_running q) 1 = tq_cnt_running q - 1" "u32_sub (tq_cnt_all q) 1 = tq_cnt_all q - 1"
    using d(2,3,4) k q by (auto simp: kl_wrap)
  then show "tq_cnt_running q1 = tq_cnt_running q - 1" by (simp add: q1)
  have lastr: "(if tq_last_running q = Some (xt_ref t) then None else tq_last_running q) =
      (if tq_cnt_running q - 1 = 0 then None else Some (xt_ref (rest ! (tq_cnt_running q - 1 - 1))))"
  proof (cases "tq_cnt_running q = 1")
    case True
    with d(6) q show ?thesis by simp
  next
    case False
    with k obtain j where j: "tq_cnt_running q = Suc (Suc j)" by (metis One_nat_def Suc_pred neq0_conv)
    with d(4) q have "rest ! j \<in> set rest" by (intro nth_mem) simp
    then have "xt_ref (rest ! j) \<in> xt_ref ` set rest" by (rule imageI)
    with d(1) q have "xt_ref (rest ! j) \<noteq> xt_ref t" by auto
    with d(6) q j show ?thesis by simp
  qed
  have run: "xt_state (rest ! i) = XTS_RUNNING" if "i < tq_cnt_running q - 1" for i
    using d(7) [of "Suc i"] that q by simp
  show "tq_wf q1"
    using d q k u lastr run by (auto simp: tq_wf_def task_refs_def q1 simp del: One_nat_def)
qed

lemma finish_loop_correct:
  assumes "tq_wf q" and "0 < c" "c \<le> tq_cnt_running q" and "sessions_live sess (take c (tq_tasks q))"
  shows "\<exists>q'. finish_loop (tq_tasks q) q sess c =
             Some (q', dec_sess sess (take c (tq_tasks q)), map finished (take c (tq_tasks q)), 0) \<and>
           tq_wf q' \<and> tq_tasks q' = drop c (tq_tasks q) \<and> tq_cnt_running q' = tq_cnt_running q - c \<and>
           tq_id q' = tq_id q \<and> tq_capacity q' = tq_capacity q \<and> tq_state q' = tq_state q"
  using assms
proof (induction c arbitrary: q sess)
  case (Suc c)
  from Suc.prems(3) tq_wfD(4) [OF Suc.prems(1)] obtain t rest where q: "tq_tasks q = t # rest"
    by (cases "tq_tasks q") auto
  define q1 where "q1 = q\<lparr>tq_tasks := rest, tq_cnt_running := u32_sub (tq_cnt_running q) 1,
       tq_cnt_all := u32_sub (tq_cnt_all q) 1,
       tq_last_running := (if tq_last_running q = Some (xt_ref t) then None else tq_last_running q)\<rparr>"
  have k: "0 < tq_cnt_running q" using Suc.prems(3) by simp
  note w = finish_step_wf [OF Suc.prems(1) q k q1_def]
  have live: "sessions_live sess [t]" "sessions_live sess (take c rest)"
    using Suc.prems(4) q by (auto simp: sessions_live_def)
  note sub = sub_step [OF live(1)]
  have f1: "tq_tasks q1 = rest" "tq_id q1 = tq_id q" "tq_capacity q1 = tq_capacity q" "tq_state q1 = tq_state q"
    by (simp_all add: q1_def)
  show ?case
  proof (cases "c = 0")
    case True
    then have "finish_loop (tq_tasks q) q sess (Suc c) = Some (q1, dec_sess sess [t], [finished t], 0)"
      using sub by (simp add: q q1_def)
    with True w q f1 show ?thesis by simp
  next
    case False
    have live1: "sessions_live (dec_sess sess [t]) (take c (tq_tasks q1))" using live(2) f1 by simp
    have c: "0 < c" "c \<le> tq_cnt_running q1" using False w(2) Suc.prems(3) by auto
    from Suc.IH [OF w(1) c live1] obtain q' where q':
      "finish_loop (tq_tasks q1) q1 (dec_sess sess [t]) c =
         Some (q', dec_sess (dec_sess sess [t]) (take c (tq_tasks q1)), map finished (take c (tq_tasks q1)), 0)"
      "tq_wf q'" "tq_tasks q' = drop c (tq_tasks q1)" "tq_cnt_running q' = tq_cnt_running q1 - c"
      "tq_id q' = tq_id q1" "tq_capacity q' = tq_capacity q1" "tq_state q' = tq_state q1" by blast
    have "finish_loop (tq_tasks q) q sess (Suc c) =
        Some (q', dec_sess sess (take (Suc c) (tq_tasks q)), map finished (take (Suc c) (tq_tasks q)), 0)"
      using sub False q'(1) [unfolded f1(1)]
      by (cases "tq_last_running q = Some (xt_ref t)") (simp_all add: q q1_def dec_sess_Cons)
    with q' f1 w(2) q show ?thesis by simp
  qed
qed simp

end
