(* ===== verification/Kl1_Tq_Claims.thy ===== *)
theory Kl1_Tq_Claims
  imports Kl1_Tq_Props
begin

text \<open>
  Properties of one KL1 task queue over any history of additions, dispatches and completions, and
  two ways to leave the safe ground: a completion interrupt that reports more tasks than were
  issued, and a binding that loses the queue of a session.
\<close>

section \<open>Histories of a queue\<close>

text \<open>
  A queue with the tasks submitted to it, issued to the hardware and finished so far, each in order.
\<close>

inductive tq_history :: "xpu_tq \<Rightarrow> nat list \<Rightarrow> nat list \<Rightarrow> nat list \<Rightarrow> bool" where
  start: "tq_history (xtq_init i) [] [] []"
| add: "tq_history q sub iss fin \<Longrightarrow> xtq_add_tasks_locked st q ts = Inr q' \<Longrightarrow>
     distinct (map xt_ref (tq_tasks q @ ts)) \<Longrightarrow> length (tq_tasks q @ ts) < 2 ^ 32 \<Longrightarrow>
     tq_history q' (sub @ map xt_ref ts) iss fin"
| dispatch: "tq_history q sub iss fin \<Longrightarrow> dispatch_loop q = (q', issued) \<Longrightarrow>
     tq_history q' sub (iss @ map xt_ref issued) fin"
| finish: "tq_history q sub iss fin \<Longrightarrow> 0 < c \<Longrightarrow> c \<le> tq_cnt_running q \<Longrightarrow>
     sessions_live sess (take c (tq_tasks q)) \<Longrightarrow>
     finish_loop (tq_tasks q) q sess c = Some (q', sess', fins, cd) \<Longrightarrow>
     tq_history q' sub iss (fin @ map xt_ref fins)"

lemma map_ref_states [simp]:
  "map (xt_ref \<circ> running) ts = map xt_ref ts" "map (xt_ref \<circ> finished) ts = map xt_ref ts"
  "map (xt_ref \<circ> (\<lambda>t. t\<lparr>xt_xtq_id := i\<rparr>)) ts = map xt_ref ts"
  by (simp_all add: comp_def)

lemma map_take_drop [simp]: "map f (take n xs) @ map f (drop n xs) = map f xs"
  by (simp flip: map_append)

lemma history_inv:
  assumes "tq_history q sub iss fin"
  shows "tq_wf q \<and> tq_capacity q = KL1_SSE_TQ_CAPACITY \<and> sub = fin @ map xt_ref (tq_tasks q) \<and>
    iss = fin @ map xt_ref (take (tq_cnt_running q) (tq_tasks q))"
  using assms
proof (induction rule: tq_history.induct)
  case (start i)
  then show ?case using xtq_init_wf by (simp add: xtq_init_def)
next
  case (add q sub iss fin st ts q')
  then have "tq_wf q" by simp
  from add_tasks_wf [OF this add.hyps(2-4)] add.IH tq_wfD(4) [OF this] show ?case by simp
next
  case (dispatch q sub iss fin q' issued)
  then have wf: "tq_wf q" by simp
  note d = dispatch_loop_correct [OF wf dispatch.hyps(2) refl]
  let ?n = "min (tq_capacity q) (length (tq_tasks q))"
  have "tq_cnt_running q \<le> ?n" using tq_wfD(4,5) [OF wf] by simp
  then have "take (tq_cnt_running q) (tq_tasks q) @ drop (tq_cnt_running q) (take ?n (tq_tasks q)) = take ?n (tq_tasks q)"
    by (metis append_take_drop_id min.absorb1 take_take)
  from arg_cong [OF this, of "map xt_ref"]
  have i: "map xt_ref (take (tq_cnt_running q) (tq_tasks q)) @ map xt_ref issued = map xt_ref (take ?n (tq_tasks q))"
    using d by simp
  have t: "map xt_ref (tq_tasks q') = map xt_ref (tq_tasks q)"
    using d by simp
  have r: "take (tq_cnt_running q') (tq_tasks q') = map running (take ?n (tq_tasks q))" using d by simp
  show ?case unfolding r using d dispatch.IH i t by simp
next
  case (finish q sub iss fin c sess q' sess' fins cd)
  then have wf: "tq_wf q" by simp
  from finish_loop_correct [OF wf finish.hyps(2-4)] finish.hyps(5) have
    r: "tq_wf q'" "fins = map finished (take c (tq_tasks q))" "tq_tasks q' = drop c (tq_tasks q)"
      "tq_cnt_running q' = tq_cnt_running q - c" "tq_capacity q' = tq_capacity q" by auto
  have "take c (tq_tasks q) @ take (tq_cnt_running q - c) (drop c (tq_tasks q)) = take (tq_cnt_running q) (tq_tasks q)"
    using finish.hyps(3) by (metis le_add_diff_inverse take_add)
  from arg_cong [OF this, of "map xt_ref"]
    r finish.IH show ?case by simp
qed

lemmas history_wf = history_inv [THEN conjunct1]

text \<open>
  C13: A task queue serves first in, first out: at every point of any history, the submitted tasks
  are those finished followed by those still on the list, the issued ones are those finished
  followed by the running prefix of the list, the counters say exactly how long these parts are,
  and no more tasks run than the hardware queue holds.
\<close>

theorem tq_fifo:
  assumes "tq_history q sub iss fin"
  shows "sub = fin @ map xt_ref (tq_tasks q) \<and>
    iss = fin @ map xt_ref (take (tq_cnt_running q) (tq_tasks q)) \<and>
    tq_cnt_all q = length (tq_tasks q) \<and> tq_cnt_running q \<le> tq_cnt_all q \<and>
    tq_cnt_running q \<le> tq_capacity q \<and> tq_capacity q = KL1_SSE_TQ_CAPACITY \<and>
    next_index q = (if tq_cnt_running q < tq_cnt_all q then Some (tq_cnt_running q) else None)"
proof -
  note inv = history_inv [OF assms] and wf = history_wf [OF assms]
  show ?thesis using inv tq_wfD(2,4,5) [OF wf] next_index_wf [OF wf] by simp
qed


definition ex_sse :: "nat \<Rightarrow> sse_task" where
  "ex_sse token = \<lparr>st_token = token, st_type = 0, st_nclusters = 1, st_ncores = 1, st_code_addr = 0,
     st_code_byte_size = 64, st_param_dword_size = 0, st_params = []\<rparr>"

definition ex_task :: "nat \<Rightarrow> nat \<Rightarrow> xpu_task" where
  "ex_task r s = \<lparr>xt_ref = r, xt_state = XTS_PENDING, xt_free_by_tq = True, xt_xsess = Some s,
     xt_xtq_id = 0, xt_sse = ex_sse r\<rparr>"

definition ex_added :: xpu_tq where
  "ex_added = (case xtq_add_tasks_locked XPDS_RUNNING (xtq_init 3) [ex_task 1 9, ex_task 2 9] of Inr q \<Rightarrow> q)"

definition ex_issued :: "xpu_tq \<times> xpu_task list" where
  "ex_issued = dispatch_loop ex_added"

lemma ex_added_history: "tq_history ex_added [1, 2] [] []"
proof -
  have "xtq_add_tasks_locked XPDS_RUNNING (xtq_init 3) [ex_task 1 9, ex_task 2 9] = Inr ex_added"
    by (simp add: ex_added_def xtq_add_tasks_locked_def xtq_init_def)
  from tq_history.add [OF tq_history.start this] show ?thesis by (simp add: ex_task_def xtq_init_def)
qed

lemma ex_issued_simps:
  "map xt_ref (snd ex_issued) = [1, 2]" "tq_cnt_running (fst ex_issued) = 2"
  "map xt_ref (tq_tasks (fst ex_issued)) = [1, 2]"
  by (simp_all add: ex_issued_def ex_added_def xtq_add_tasks_locked_def xtq_init_def ex_task_def
      dispatch_loop.simps next_index_def KL1_SSE_TQ_CAPACITY_def Let_def u32_def upt_rec)

lemma ex_issued_history: "tq_history (fst ex_issued) [1, 2] [1, 2] []"
  using tq_history.dispatch [OF ex_added_history, of "fst ex_issued" "snd ex_issued"]
  by (simp add: ex_issued_simps(1)) (simp add: ex_issued_def)

lemma tq_fifo_witness:
  "[1, 2] = [] @ map xt_ref (tq_tasks (fst ex_issued)) \<and>
   [1, 2] = [] @ map xt_ref (take 2 (tq_tasks (fst ex_issued))) \<and> tq_cnt_running (fst ex_issued) = 2"
  using tq_fifo [OF ex_issued_history] by (simp add: ex_issued_simps)

section \<open>Service\<close>

text \<open>
  Dispatching wastes no slot: on a queue with any history in a running domain that is not
  disabled, it issues the waiting tasks in order until the hardware queue is full or none is left,
  marks them running, hands each to the hardware once, and leaves the other queues alone.
\<close>

theorem dispatch_serves:
  assumes "tq_history (xpd_xtqs pd ! i) sub iss fin" "i < length (xpd_xtqs pd)"
    and "xpd_state pd = XPDS_RUNNING" "\<not> xpd_disabled_or_in_reset pd"
    and r: "tasklet_xtq_dispatch pd i = (pd', issued)"
  shows "tq_cnt_running (xpd_xtqs pd' ! i) =
      min (tq_capacity (xpd_xtqs pd ! i)) (length (tq_tasks (xpd_xtqs pd ! i))) \<and>
    map xt_ref issued = map xt_ref (drop (tq_cnt_running (xpd_xtqs pd ! i))
      (take (tq_capacity (xpd_xtqs pd ! i)) (tq_tasks (xpd_xtqs pd ! i)))) \<and>
    map xt_ref (tq_tasks (xpd_xtqs pd' ! i)) = map xt_ref (tq_tasks (xpd_xtqs pd ! i)) \<and>
    (\<forall>t\<in>set issued. xt_state t = XTS_RUNNING) \<and>
    (\<forall>j. j \<noteq> i \<longrightarrow> xpd_xtqs pd' ! j = xpd_xtqs pd ! j)"
proof -
  let ?q = "xpd_xtqs pd ! i" let ?n = "min (tq_capacity ?q) (length (tq_tasks ?q))"
  have wf: "tq_wf ?q" by (rule history_wf [OF assms(1)])
  have cut: "take ?n (tq_tasks ?q) = take (tq_capacity ?q) (tq_tasks ?q)" by (simp add: min_def)
  show ?thesis
  proof (cases "tq_cnt_running ?q < ?n")
    case True
    obtain q' where q': "dispatch_loop ?q = (q', issued)" "pd' = pd\<lparr>xpd_xtqs := (xpd_xtqs pd)[i := q']\<rparr>"
      using r True assms(3,4) tq_wfD(2) [OF wf]
      by (auto simp: tasklet_xtq_dispatch_def Let_def split: prod.splits)
    note d = dispatch_loop_correct [OF wf q'(1) refl]
    have "map xt_ref (tq_tasks q') = map xt_ref (tq_tasks ?q)"
      using d by simp
    then show ?thesis using d q'(2) assms(2) cut by auto
  next
    case False
    then have n: "tq_cnt_running ?q = ?n" using tq_wfD(4,5) [OF wf] by (auto simp: min_def)
    have "pd' = pd" "issued = []"
      using r n tq_wfD(2) [OF wf] by (auto simp: tasklet_xtq_dispatch_def Let_def min_def split: if_splits)
    then show ?thesis using n cut by (simp flip: cut)
  qed
qed


definition ex_pd :: "xpu_tq list \<Rightarrow> (nat \<Rightarrow> xpu_session option) \<Rightarrow> xpu_pd" where
  "ex_pd qs sess =
     \<lparr>xpd_state = XPDS_RUNNING, xpd_errno = None, xpd_xtqs = qs, xpd_pending_finish_flag = 0,
      xpd_disabled_or_in_reset = False, xpd_cu_error_tokens = [], xpd_need_clean_etasks = False, xpd_etasks = [], xpd_sessions = sess,
      xpd_session_list = [], xpd_contexts = Map.empty, xpd_context_list = [], xpd_sessions_lock = False,
      xpd_session_id_counter = 100\<rparr>"

lemma ex_pd_simps [simp]:
  "xpd_state (ex_pd qs sess) = XPDS_RUNNING" "xpd_xtqs (ex_pd qs sess) = qs"
  "\<not> xpd_disabled_or_in_reset (ex_pd qs sess)" "xpd_sessions (ex_pd qs sess) = sess"
  by (simp_all add: ex_pd_def)

lemma dispatch_serves_witness:
  "map xt_ref (snd (tasklet_xtq_dispatch (ex_pd [ex_added] Map.empty) 0)) = [1, 2] \<and>
   tq_cnt_running (xpd_xtqs (fst (tasklet_xtq_dispatch (ex_pd [ex_added] Map.empty) 0)) ! 0) = 2"
proof -
  let ?pd = "ex_pd [ex_added] Map.empty"
  have h: "tq_history (xpd_xtqs ?pd ! 0) [1, 2] [] []" using ex_added_history by simp
  have i: "0 < length (xpd_xtqs ?pd)" "xpd_state ?pd = XPDS_RUNNING" "\<not> xpd_disabled_or_in_reset ?pd" by simp_all
  have a: "tq_cnt_running ex_added = 0" "tq_capacity ex_added = 16" "map xt_ref (tq_tasks ex_added) = [1, 2]"
    "length (tq_tasks ex_added) = 2"
    by (simp_all add: ex_added_def xtq_add_tasks_locked_def xtq_init_def KL1_SSE_TQ_CAPACITY_def ex_task_def)
  have "map xt_ref (take 16 (tq_tasks ex_added)) = [1, 2]" by (simp add: take_map [symmetric] a)
  with dispatch_serves [OF h i prod.collapse [symmetric]] show ?thesis by (simp add: a)
qed

section \<open>Too many completions\<close>

lemma finish_loop_count:
  assumes "0 < c" "c \<le> length (tq_tasks q)" "sessions_live sess (take c (tq_tasks q))"
    and "tq_cnt_running q < 2 ^ 32"
  shows "\<exists>q' sess'. finish_loop (tq_tasks q) q sess c = Some (q', sess', map finished (take c (tq_tasks q)), 0) \<and>
     tq_cnt_running q' = (tq_cnt_running q + (2 ^ 32 - 1) * c) mod 2 ^ 32 \<and>
     tq_tasks q' = drop c (tq_tasks q) \<and> tq_capacity q' = tq_capacity q"
  using assms
proof (induction c arbitrary: q sess)
  case (Suc c)
  from Suc.prems(2) obtain t rest where q: "tq_tasks q = t # rest" by (cases "tq_tasks q") auto
  define q1 where "q1 = q\<lparr>tq_tasks := rest, tq_cnt_running := u32_sub (tq_cnt_running q) 1,
       tq_cnt_all := u32_sub (tq_cnt_all q) 1,
       tq_last_running := (if tq_last_running q = Some (xt_ref t) then None else tq_last_running q)\<rparr>"
  have live: "sessions_live sess [t]" "sessions_live (dec_sess sess [t]) (take c rest)"
    using Suc.prems(3) q by (auto simp: sessions_live_def dec_sess_def)
  have f1: "tq_tasks q1 = rest" "tq_capacity q1 = tq_capacity q"
    "tq_cnt_running q1 = (tq_cnt_running q + (2 ^ 32 - 1)) mod 2 ^ 32" "tq_cnt_running q1 < 2 ^ 32"
    by (simp_all add: q1_def u32_sub_def)
  show ?case
  proof (cases "c = 0")
    case True
    then have "finish_loop (tq_tasks q) q sess (Suc c) = Some (q1, dec_sess sess [t], [finished t], 0)"
      using sub_step [OF live(1)] by (simp add: q q1_def)
    with True f1 q show ?thesis by simp
  next
    case False
    have "0 < c" "c \<le> length (tq_tasks q1)" "sessions_live (dec_sess sess [t]) (take c (tq_tasks q1))"
      using False Suc.prems(2) q f1 live by auto
    from Suc.IH [OF this f1(4)] obtain q' sess' where q':
      "finish_loop (tq_tasks q1) q1 (dec_sess sess [t]) c = Some (q', sess', map finished (take c (tq_tasks q1)), 0)"
      "tq_cnt_running q' = (tq_cnt_running q1 + (2 ^ 32 - 1) * c) mod 2 ^ 32"
      "tq_tasks q' = drop c (tq_tasks q1)" "tq_capacity q' = tq_capacity q1" by blast
    have "finish_loop (tq_tasks q) q sess (Suc c) = Some (q', sess', map finished (take (Suc c) (tq_tasks q)), 0)"
      using sub_step [OF live(1)] False q'(1) [unfolded f1(1)]
      by (cases "tq_last_running q = Some (xt_ref t)") (simp_all add: q q1_def)
    moreover have "(tq_cnt_running q1 + (2 ^ 32 - 1) * c) mod 2 ^ 32 = (tq_cnt_running q + (2 ^ 32 - 1) * Suc c) mod 2 ^ 32"
      unfolding f1(3) by (simp only: mod_add_left_eq mult_Suc_right add.assoc)
    ultimately show ?thesis using q' f1 q by simp
  qed
qed simp

text \<open>
  C14: The finish handler trusts the count the hardware reports. When it exceeds the tasks issued
  (but not those on the list), tasks that never ran are taken off as finished, the running count
  wraps around, and from then on a dispatch of this queue issues nothing.
\<close>

theorem finish_too_many:
  assumes h: "tq_history q sub iss fin" and c: "tq_cnt_running q < c" "c \<le> length (tq_tasks q)"
    and live: "sessions_live sess (take c (tq_tasks q))" and small: "c - tq_cnt_running q < 2 ^ 31"
  shows "\<exists>q' sess'. finish_loop (tq_tasks q) q sess c = Some (q', sess', map finished (take c (tq_tasks q)), 0) \<and>
    tq_cnt_running q' = 2 ^ 32 - (c - tq_cnt_running q) \<and>
    (\<forall>pd i. i < length (xpd_xtqs pd) \<longrightarrow> xpd_xtqs pd ! i = q' \<longrightarrow> tasklet_xtq_dispatch pd i = (pd, []))"
proof -
  note wf = history_wf [OF h]
  let ?k = "tq_cnt_running q"
  have k: "?k < 2 ^ 32" using tq_wfD(3,4) [OF wf] by simp
  from finish_loop_count [of c q sess] c live k obtain q' sess' where
    q': "finish_loop (tq_tasks q) q sess c = Some (q', sess', map finished (take c (tq_tasks q)), 0)"
      "tq_cnt_running q' = (?k + (2 ^ 32 - 1) * c) mod 2 ^ 32" "tq_capacity q' = tq_capacity q" by auto
  obtain d where d: "c = ?k + d" "0 < d" "d < 2 ^ 31" using c(1) small by (metis add_diff_inverse_nat less_imp_not_less zero_less_diff)
  have "?k + (2 ^ 32 - 1) * c = (2 ^ 32 - d) + (?k + d - 1) * 2 ^ 32"
    using d by (simp add: diff_mult_distrib add_mult_distrib)
  then have "tq_cnt_running q' = (2 ^ 32 - d) mod 2 ^ 32" using q'(2) by (simp only: mod_mult_self1)
  with d have cnt: "tq_cnt_running q' = 2 ^ 32 - d" by simp
  moreover have "tq_capacity q' = 16" using history_inv [OF h] q'(3) by (simp add: KL1_SSE_TQ_CAPACITY_def)
  ultimately have "tq_capacity q' \<le> tq_cnt_running q'" using d by simp
  then show ?thesis using q'(1) cnt d(1) by (auto simp: tasklet_xtq_dispatch_def)
qed

lemma finish_too_many_witness:
  "\<exists>q' sess'. finish_loop (tq_tasks ex_added) ex_added (\<lambda>_. Some \<lparr>ss_id = 9, ss_state = XSS_NORMAL, ss_errno = None,
       ss_unfinished_cnt = 2, ss_xtq = Some 3, ss_binding_fixed = False, ss_xctx = 0\<rparr>) 1 =
     Some (q', sess', map finished (take 1 (tq_tasks ex_added)), 0) \<and> tq_cnt_running q' = 4294967295"
proof -
  have a: "tq_cnt_running ex_added = 0" "length (tq_tasks ex_added) = 2"
    by (simp_all add: ex_added_def xtq_add_tasks_locked_def xtq_init_def)
  from finish_too_many [OF ex_added_history, of 1 "\<lambda>_. Some \<lparr>ss_id = 9, ss_state = XSS_NORMAL, ss_errno = None,
       ss_unfinished_cnt = 2, ss_xtq = Some 3, ss_binding_fixed = False, ss_xctx = 0\<rparr>"] a
  show ?thesis by (auto simp: sessions_live_def)
qed

end
