(* ===== verification/Kl1_Session.thy ===== *)
theory Kl1_Session
  imports Kl1_Tq Kl1_Mem
begin

text \<open>
  The sessions of KL1, \<^verbatim>\<open>kl1/xpu_session.c\<close>, and their clean-up by the timer of the power domain,
  \<^verbatim>\<open>__clean_sessions\<close> of \<^verbatim>\<open>kl1/xpu_pd.c\<close>. Sessions of one process share a context, which lives as
  long as one of them does. Taking the spin lock of the lists while it is held, and reading a freed
  session or context, is the outcome \<^term>\<open>None\<close>.
\<close>

section \<open>Opening and closing\<close>

definition session_init :: "xpu_pd \<Rightarrow> xpu_pd" where
  "session_init xpd =
     xpd\<lparr>xpd_session_list := [], xpd_context_list := [], xpd_sessions_lock := False,
         xpd_session_id_counter := 100\<rparr>"

text \<open>
  What \<^verbatim>\<open>session_create\<close> gets from its surroundings: the addresses of the session and of the
  context it may allocate (\<^term>\<open>None\<close> when the allocation fails), the process id, and whether a
  reset in progress ends in time.
\<close>

record create_env =
  ce_sess :: "nat option"
  ce_ctx :: "nat option"
  ce_pid :: int
  ce_reset_ends :: bool

fun find_ctx :: "(nat \<Rightarrow> xpu_ctx option) \<Rightarrow> nat list \<Rightarrow> int \<Rightarrow> nat option option" where
  "find_ctx ctxs [] pid = Some None"
| "find_ctx ctxs (c # cs) pid = do {
     x \<leftarrow> ctxs c;
     (if cx_pid x = pid then Some (Some c) else find_ctx ctxs cs pid)
   }"

definition new_session :: "nat \<Rightarrow> nat \<Rightarrow> xpu_session" where
  "new_session sid ctx =
     \<lparr>ss_id = sid, ss_state = XSS_NORMAL, ss_errno = None, ss_unfinished_cnt = 0, ss_xtq = None,
      ss_binding_fixed = False, ss_xctx = ctx\<rparr>"

text \<open>
  \<^verbatim>\<open>session_create\<close>. When the allocation of a context fails the session is freed while it is on the
  list, and the function returns with the lock held.
\<close>

definition session_create :: "create_env \<Rightarrow> xpu_pd \<Rightarrow> (nat option \<times> xpu_pd) option" where
  "session_create env xpd =
     (case ce_sess env of
        None \<Rightarrow> Some (None, xpd)
      | Some s \<Rightarrow>
          let sid = u32 (xpd_session_id_counter xpd + 1);
              xpd0 = xpd\<lparr>xpd_session_id_counter := sid\<rparr>
          in if xpd_sessions_lock xpd0 then None
             else if xpd_disabled_or_in_reset xpd0 \<and> \<not> ce_reset_ends env then Some (None, xpd0)
             else
               let xpd1 = xpd0\<lparr>xpd_session_list := xpd_session_list xpd0 @ [s]\<rparr>
               in do {
                 found \<leftarrow> find_ctx (xpd_contexts xpd1) (xpd_context_list xpd1) (ce_pid env);
                 (case found of
                    Some c \<Rightarrow> do {
                      x \<leftarrow> xpd_contexts xpd1 c;
                      Some (Some s, xpd1\<lparr>xpd_contexts := (xpd_contexts xpd1)(c \<mapsto> x\<lparr>cx_sess_cnt := cx_sess_cnt x + 1\<rparr>),
                                         xpd_sessions := (xpd_sessions xpd1)(s \<mapsto> new_session sid c)\<rparr>)
                    }
                  | None \<Rightarrow>
                      (case ce_ctx env of
                         None \<Rightarrow> Some (None, xpd1\<lparr>xpd_sessions_lock := True\<rparr>)
                       | Some c \<Rightarrow>
                           Some (Some s, xpd1\<lparr>xpd_contexts := (xpd_contexts xpd1)(c \<mapsto> \<lparr>cx_pid = ce_pid env, cx_sess_cnt = 1\<rparr>),
                                              xpd_context_list := xpd_context_list xpd1 @ [c],
                                              xpd_sessions := (xpd_sessions xpd1)(s \<mapsto> new_session sid c)\<rparr>)))
               })"

definition session_destroy :: "xpu_pd \<Rightarrow> nat option \<Rightarrow> xpu_pd option" where
  "session_destroy xpd sess =
     (case sess of
        None \<Rightarrow> Some xpd
      | Some s \<Rightarrow> do {
          x \<leftarrow> xpd_sessions xpd s;
          Some (xpd\<lparr>xpd_sessions := (xpd_sessions xpd)(s \<mapsto> x\<lparr>ss_state := XSS_CLOSED\<rparr>)\<rparr>)
        })"

text \<open>\<^verbatim>\<open>sessions_prepare_reset\<close> for one power domain.\<close>

fun prepare_reset_loop :: "(nat \<Rightarrow> xpu_session option) \<Rightarrow> nat list \<Rightarrow> (nat \<Rightarrow> xpu_session option) option" where
  "prepare_reset_loop sess [] = Some sess"
| "prepare_reset_loop sess (s # ss) = do {
     x \<leftarrow> sess s;
     prepare_reset_loop
       (if ss_state x = XSS_NORMAL
        then sess(s \<mapsto> x\<lparr>ss_state := XSS_ERROR, ss_errno := Some XPUERR_PEERRESET\<rparr>) else sess) ss
   }"

section \<open>Clean-up\<close>

text \<open>
  The loop of \<^verbatim>\<open>__clean_sessions\<close>: the sessions that stay on the list, those to free, the contexts
  and the list of contexts after it, and the contexts to free.
\<close>

fun clean_loop ::
    "(nat \<Rightarrow> xpu_session option) \<Rightarrow> nat list \<Rightarrow> (nat \<Rightarrow> xpu_ctx option) \<Rightarrow> nat list \<Rightarrow>
     (nat list \<times> nat list \<times> (nat \<Rightarrow> xpu_ctx option) \<times> nat list \<times> nat list) option" where
  "clean_loop sess [] ctxs clist = Some ([], [], ctxs, clist, [])"
| "clean_loop sess (s # ss) ctxs clist = do {
     x \<leftarrow> sess s;
     (if ss_state x \<noteq> XSS_CLOSED \<or> ss_unfinished_cnt x \<noteq> 0 then do {
        (keep, free, ctxs1, clist1, cfree) \<leftarrow> clean_loop sess ss ctxs clist;
        Some (s # keep, free, ctxs1, clist1, cfree)
      } else do {
        c \<leftarrow> ctxs (ss_xctx x);
        let n = cx_sess_cnt c - 1;
        let ctxs' = ctxs(ss_xctx x \<mapsto> c\<lparr>cx_sess_cnt := n\<rparr>);
        let clist' = (if n = 0 then filter (\<lambda>d. d \<noteq> ss_xctx x) clist else clist);
        (keep, free, ctxs1, clist1, cfree) \<leftarrow> clean_loop sess ss ctxs' clist';
        Some (keep, s # free, ctxs1, clist1, (if n = 0 then [ss_xctx x] else []) @ cfree)
      })
   }"

text \<open>
  \<^verbatim>\<open>__clean_sessions\<close>, with the sessions it frees: each has its device memory released first
  (\<open>clean_memory\<close> below), then the sessions and the contexts are freed.
\<close>

definition clean_sessions :: "xpu_pd \<Rightarrow> (xpu_pd \<times> nat list) option" where
  "clean_sessions xpd =
     (if xpd_sessions_lock xpd then None
      else do {
        (keep, free, ctxs, clist, cfree) \<leftarrow>
          clean_loop (xpd_sessions xpd) (xpd_session_list xpd) (xpd_contexts xpd) (xpd_context_list xpd);
        Some (xpd\<lparr>xpd_session_list := keep, xpd_context_list := clist,
                  xpd_sessions := (\<lambda>s. if s \<in> set free then None else xpd_sessions xpd s),
                  xpd_contexts := (\<lambda>c. if c \<in> set cfree then None else ctxs c)\<rparr>, free)
      })"

fun clean_memory :: "(nat \<Rightarrow> nat) \<Rightarrow> nat xpu_pd_mem \<Rightarrow> nat list \<Rightarrow> nat xpu_pd_mem option" where
  "clean_memory xctx mem [] = Some mem"
| "clean_memory xctx mem (s # ss) = do {
     mem1 \<leftarrow> xpu_release_mem xctx mem s;
     clean_memory xctx mem1 ss
   }"

end
