(* ===== verification/Kl1_Sched.thy ===== *)
theory Kl1_Sched
  imports Kl1_Tq_Props Kl1_Session
begin

text \<open>
  A KL1 power domain under concurrency: system calls, the timer, tasklets and interrupts interleave
  at the granularity of the critical sections of \<^verbatim>\<open>kl1/xpu_tq.c\<close>, \<^verbatim>\<open>kl1/xpu_session.c\<close> and
  \<^verbatim>\<open>kl1/xpu_irq.c\<close>. Two operations are split because they are not atomic in the code: a launch adds
  its tasks to the queue and only then to the session's count, and pausing changes the state, clears
  the mask and looks at the queues one by one. The device has a single interrupt vector, so the
  interrupt handlers do not interleave with one another; a pause can still be interleaved with
  launches, dispatches and the timer.

  What the driver takes for granted is in the guards: an interrupt never reports more finished tasks
  than were issued, new objects have new addresses, a queue never holds \<open>2 ^ 32\<close> tasks, and a file
  is released only when no call on it is in progress.
\<close>

section \<open>The steps\<close>

text \<open>Where the pause handler is.\<close>

datatype pause_pc = PauseIdle | PauseClear | PauseScan nat

text \<open>
  The power domain, the pause handler, the launches that have added tasks but not yet counted them
  (session and number), and the sessions whose file is open.
\<close>

record sys =
  sy_pd :: xpu_pd
  sy_pause :: pause_pc
  sy_launch :: "(nat \<times> nat) list"
  sy_open :: "nat set"

inductive kl1_step :: "sys \<Rightarrow> sys \<Rightarrow> bool" where
  create: "session_create env (sy_pd y) = Some (r, pd') \<Longrightarrow> ce_ctx env \<noteq> None \<Longrightarrow>
     (\<forall>s. ce_sess env = Some s \<longrightarrow> xpd_sessions (sy_pd y) s = None) \<Longrightarrow>
     (\<forall>c. ce_ctx env = Some c \<longrightarrow> xpd_contexts (sy_pd y) c = None) \<Longrightarrow>
     kl1_step y (y\<lparr>sy_pd := pd', sy_open := sy_open y \<union> set_option r\<rparr>)"
| bind: "s \<in> sy_open y \<Longrightarrow> xpu_sched_bind_sess (sy_pd y) s = Some pd' \<Longrightarrow>
     kl1_step y (y\<lparr>sy_pd := pd'\<rparr>)"
| bindtq: "s \<in> sy_open y \<Longrightarrow> ioctl_session_bindtq (sy_pd y) s d = Some (r, pd') \<Longrightarrow>
     kl1_step y (y\<lparr>sy_pd := pd'\<rparr>)"
| add: "s \<in> sy_open y \<Longrightarrow> xpd_sessions (sy_pd y) s = Some x \<Longrightarrow> ss_xtq x = Some i \<Longrightarrow>
     launch_add (sy_pd y) s ts = Some (None, pd') \<Longrightarrow> (\<forall>t\<in>set ts. xt_xsess t = Some s) \<Longrightarrow>
     distinct (map xt_ref (tq_tasks (xpd_xtqs (sy_pd y) ! i) @ ts)) \<Longrightarrow>
     length (tq_tasks (xpd_xtqs (sy_pd y) ! i) @ ts) < 2 ^ 32 \<Longrightarrow>
     kl1_step y (y\<lparr>sy_pd := pd', sy_launch := (s, length ts) # sy_launch y\<rparr>)"
| count: "(s, n) \<in> set (sy_launch y) \<Longrightarrow> launch_count (sy_pd y) s n = Some pd' \<Longrightarrow>
     kl1_step y (y\<lparr>sy_pd := pd', sy_launch := remove1 (s, n) (sy_launch y)\<rparr>)"
| dispatch: "i < KL1_TQS \<Longrightarrow> tasklet_xtq_dispatch (sy_pd y) i = (pd', issued) \<Longrightarrow>
     kl1_step y (y\<lparr>sy_pd := pd'\<rparr>)"
| finish: "sy_pause y = PauseIdle \<Longrightarrow> i < KL1_TQS \<Longrightarrow>
     c \<le> tq_cnt_running (xpd_xtqs (sy_pd y) ! i) \<Longrightarrow> finish_locked (sy_pd y) i c = Some (pd', fins) \<Longrightarrow>
     kl1_step y (y\<lparr>sy_pd := pd'\<rparr>)"
| pause_begin: "sy_pause y = PauseIdle \<Longrightarrow> pause_begin (sy_pd y) = Some pd' \<Longrightarrow>
     kl1_step y (y\<lparr>sy_pd := pd', sy_pause := PauseClear\<rparr>)"
| pause_clear: "sy_pause y = PauseClear \<Longrightarrow>
     kl1_step y (y\<lparr>sy_pd := pause_clear (sy_pd y), sy_pause := PauseScan 0\<rparr>)"
| pause_scan: "sy_pause y = PauseScan i \<Longrightarrow> i < KL1_TQS \<Longrightarrow>
     kl1_step y (y\<lparr>sy_pd := pause_scan (sy_pd y) i, sy_pause := PauseScan (Suc i)\<rparr>)"
| pause_end: "sy_pause y = PauseScan KL1_TQS \<Longrightarrow>
     kl1_step y (y\<lparr>sy_pd := pause_end (sy_pd y), sy_pause := PauseIdle\<rparr>)"
| resume: "sy_pause y = PauseIdle \<Longrightarrow> kl1_step y (y\<lparr>sy_pd := isr_resume_xpd (sy_pd y)\<rparr>)"
| exc: "sy_pause y = PauseIdle \<Longrightarrow> ISR_xpd_on_exception ok (sy_pd y) = Some pd' \<Longrightarrow>
     kl1_step y (y\<lparr>sy_pd := pd'\<rparr>)"
| sse_exc: "sy_pause y = PauseIdle \<Longrightarrow> isr_xpd_on_sse_exception (sy_pd y) = Some pd' \<Longrightarrow>
     kl1_step y (y\<lparr>sy_pd := pd'\<rparr>)"
| warning: "sy_pause y = PauseIdle \<Longrightarrow>
     kl1_step y (y\<lparr>sy_pd := snd (xpd_state_to_error (sy_pd y) e)\<rparr>)"
| timeout: "s \<in> sy_open y \<Longrightarrow> wait_timed_out ok (sy_pd y) s = Some pd' \<Longrightarrow>
     kl1_step y (y\<lparr>sy_pd := pd'\<rparr>)"
| close: "s \<in> sy_open y \<Longrightarrow> s \<notin> fst ` set (sy_launch y) \<Longrightarrow>
     session_destroy (sy_pd y) (Some s) = Some pd' \<Longrightarrow>
     kl1_step y (y\<lparr>sy_pd := pd', sy_open := sy_open y - {s}\<rparr>)"
| clean: "clean_sessions (sy_pd y) = Some (pd', freed) \<Longrightarrow> kl1_step y (y\<lparr>sy_pd := pd'\<rparr>)"

definition sys_init :: sys where
  "sys_init =
     \<lparr>sy_pd = \<lparr>xpd_state = XPDS_RUNNING, xpd_errno = None, xpd_xtqs = map xtq_init [0..<KL1_TQS],
              xpd_pending_finish_flag = 0, xpd_disabled_or_in_reset = False, xpd_cu_error_tokens = [], xpd_need_clean_etasks = False,
              xpd_etasks = [], xpd_sessions = Map.empty, xpd_session_list = [],
              xpd_contexts = Map.empty, xpd_context_list = [], xpd_sessions_lock = False,
              xpd_session_id_counter = 100\<rparr>,
      sy_pause = PauseIdle, sy_launch = [], sy_open = {}\<rparr>"

inductive kl1_reachable :: "sys \<Rightarrow> bool" where
  init: "kl1_reachable sys_init"
| step: "kl1_reachable y \<Longrightarrow> kl1_step y z \<Longrightarrow> kl1_reachable z"

section \<open>The invariant\<close>

definition tasks_of :: "xpu_pd \<Rightarrow> nat \<Rightarrow> nat" where
  "tasks_of pd s = sum_list (map (\<lambda>q. count_for s (tq_tasks q)) (xpd_xtqs pd))"

definition uncounted :: "(nat \<times> nat) list \<Rightarrow> nat \<Rightarrow> nat" where
  "uncounted L s = sum_list (map snd (filter (\<lambda>e. fst e = s) L))"

definition queues_ok :: "xpu_pd \<Rightarrow> bool" where
  "queues_ok pd \<longleftrightarrow> length (xpd_xtqs pd) = KL1_TQS \<and>
     (\<forall>i < KL1_TQS. tq_wf (xpd_xtqs pd ! i) \<and> tq_id (xpd_xtqs pd ! i) = i)"

definition owners_ok :: "xpu_pd \<Rightarrow> bool" where
  "owners_ok pd \<longleftrightarrow>
     (\<forall>q\<in>set (xpd_xtqs pd). \<forall>t\<in>set (tq_tasks q). \<exists>s. xt_xsess t = Some s \<and> xpd_sessions pd s \<noteq> None)"

definition counts_ok :: "xpu_pd \<Rightarrow> (nat \<times> nat) list \<Rightarrow> bool" where
  "counts_ok pd L \<longleftrightarrow> (\<forall>s x. xpd_sessions pd s = Some x \<longrightarrow>
     ss_unfinished_cnt x + int (uncounted L s) = int (tasks_of pd s) \<and>
     (\<forall>i. ss_xtq x = Some i \<longrightarrow> i < KL1_TQS))"

definition open_ok :: "xpu_pd \<Rightarrow> (nat \<times> nat) list \<Rightarrow> nat set \<Rightarrow> bool" where
  "open_ok pd L op \<longleftrightarrow>
     (\<forall>s\<in>op. \<exists>x. xpd_sessions pd s = Some x \<and> ss_state x \<noteq> XSS_CLOSED) \<and> fst ` set L \<subseteq> op"

definition users :: "(nat \<Rightarrow> xpu_session option) \<Rightarrow> nat \<Rightarrow> nat set" where
  "users sess c = {s. \<exists>x. sess s = Some x \<and> ss_xctx x = c}"

definition lists_ok :: "xpu_pd \<Rightarrow> bool" where
  "lists_ok pd \<longleftrightarrow>
     \<not> xpd_sessions_lock pd \<and>
     distinct (xpd_session_list pd) \<and> set (xpd_session_list pd) = dom (xpd_sessions pd) \<and>
     distinct (xpd_context_list pd) \<and> set (xpd_context_list pd) = dom (xpd_contexts pd) \<and>
     (\<forall>s x. xpd_sessions pd s = Some x \<longrightarrow> ss_xctx x \<in> dom (xpd_contexts pd)) \<and>
     (\<forall>c x. xpd_contexts pd c = Some x \<longrightarrow>
        cx_sess_cnt x = int (card (users (xpd_sessions pd) c)) \<and> users (xpd_sessions pd) c \<noteq> {})"

text \<open>What the mask and the state say about the queues, depending on where the pause handler is.\<close>

definition drained :: "xpu_pd \<Rightarrow> nat \<Rightarrow> bool" where
  "drained pd i \<longleftrightarrow> tq_cnt_running (xpd_xtqs pd ! i) = 0"

definition pause_ok :: "xpu_pd \<Rightarrow> pause_pc \<Rightarrow> bool" where
  "pause_ok pd pc \<longleftrightarrow>
     (\<forall>i. bit (xpd_pending_finish_flag pd) i \<longrightarrow> i < KL1_TQS) \<and>
     (pc \<noteq> PauseIdle \<longrightarrow> xpd_state pd = XPDS_PAUSING \<or> xpd_state pd = XPDS_ERROR) \<and>
     (\<forall>n. pc = PauseScan n \<longrightarrow> n \<le> KL1_TQS) \<and>
     (xpd_state pd = XPDS_PAUSED \<longrightarrow> (\<forall>i < KL1_TQS. drained pd i)) \<and>
     (xpd_state pd = XPDS_PAUSING \<longrightarrow>
        (case pc of
           PauseIdle \<Rightarrow> (\<forall>i < KL1_TQS. bit (xpd_pending_finish_flag pd) i \<longleftrightarrow> drained pd i) \<and>
                        (\<exists>i < KL1_TQS. \<not> drained pd i)
         | PauseClear \<Rightarrow> True
         | PauseScan n \<Rightarrow> \<forall>i < KL1_TQS. bit (xpd_pending_finish_flag pd) i \<longleftrightarrow> i < n \<and> drained pd i))"

definition sys_ok :: "sys \<Rightarrow> bool" where
  "sys_ok y \<longleftrightarrow>
     queues_ok (sy_pd y) \<and> owners_ok (sy_pd y) \<and> counts_ok (sy_pd y) (sy_launch y) \<and>
     open_ok (sy_pd y) (sy_launch y) (sy_open y) \<and> lists_ok (sy_pd y) \<and> pause_ok (sy_pd y) (sy_pause y)"

end
