(* ===== verification/Kl1_Sched_Props.thy ===== *)
theory Kl1_Sched_Props
  imports Kl1_Sched
begin

text \<open>
  Every reachable state of a KL1 power domain satisfies the invariant of \<open>Kl1_Sched\<close>: one lemma
  per operation, then the step relation by cases. The properties read off what it means: exact
  accounting, no use of a freed session, safe clean-up, and a pause protocol that neither reports
  too early nor gets stuck.
\<close>

section \<open>Frames\<close>

definition sess_like :: "(nat \<Rightarrow> xpu_session option) \<Rightarrow> (nat \<Rightarrow> xpu_session option) \<Rightarrow> bool" where
  "sess_like sess sess' \<longleftrightarrow> (\<forall>s. rel_option (\<lambda>x y. ss_xctx y = ss_xctx x \<and>
     (ss_state x \<noteq> XSS_CLOSED \<longrightarrow> ss_state y \<noteq> XSS_CLOSED)) (sess s) (sess' s))"

definition same_lists :: "xpu_pd \<Rightarrow> xpu_pd \<Rightarrow> bool" where
  "same_lists pd pd' \<longleftrightarrow>
     xpd_session_list pd' = xpd_session_list pd \<and> xpd_contexts pd' = xpd_contexts pd \<and>
     xpd_context_list pd' = xpd_context_list pd \<and> xpd_sessions_lock pd' = xpd_sessions_lock pd"

lemma sess_like_refl [simp]: "sess_like sess sess"
  by (auto simp: sess_like_def option.rel_refl)

lemma sess_likeD:
  assumes "sess_like sess sess'"
  shows "sess s = None \<longleftrightarrow> sess' s = None"
    and "sess' s = Some y \<Longrightarrow> \<exists>x. sess s = Some x \<and> ss_xctx y = ss_xctx x"
    and "sess s = Some x \<Longrightarrow> \<exists>y. sess' s = Some y \<and> ss_xctx y = ss_xctx x \<and>
           (ss_state x \<noteq> XSS_CLOSED \<longrightarrow> ss_state y \<noteq> XSS_CLOSED)"
  using assms unfolding sess_like_def by (cases "sess s"; cases "sess' s"; force dest: spec [of _ s])+

lemma sess_like_update:
  "sess s = Some x \<Longrightarrow> ss_xctx y = ss_xctx x \<Longrightarrow> (ss_state x \<noteq> XSS_CLOSED \<longrightarrow> ss_state y \<noteq> XSS_CLOSED) \<Longrightarrow>
     sess_like sess (sess(s \<mapsto> y))"
  by (auto simp: sess_like_def intro!: option.rel_refl)

lemma sess_like_trans:
  assumes "sess_like a b" "sess_like b c" shows "sess_like a c"
proof -
  have "rel_option (\<lambda>x y. ss_xctx y = ss_xctx x \<and> (ss_state x \<noteq> XSS_CLOSED \<longrightarrow> ss_state y \<noteq> XSS_CLOSED)) (a s) (c s)" for s
    using assms unfolding sess_like_def
    by (cases "a s"; cases "b s"; cases "c s") (force dest: spec [of _ s])+
  then show ?thesis by (simp add: sess_like_def)
qed

lemma sess_like_dec [simp]: "sess_like sess (dec_sess sess ts)"
  by (auto simp: sess_like_def dec_sess_def option.rel_map intro!: option.rel_refl)

lemma users_like: "sess_like sess sess' \<Longrightarrow> users sess' c = users sess c"
  using sess_likeD by (fastforce simp: users_def)

lemma dom_like: "sess_like sess sess' \<Longrightarrow> dom sess' = dom sess"
  using sess_likeD(1) by (auto simp: dom_def)

lemma lists_ok_like:
  assumes "lists_ok pd" "sess_like (xpd_sessions pd) (xpd_sessions pd')" "same_lists pd pd'"
  shows "lists_ok pd'"
  using assms(1,3) users_like [OF assms(2)] dom_like [OF assms(2)] sess_likeD(2) [OF assms(2)]
  unfolding lists_ok_def same_lists_def by (metis domI)

lemma open_ok_like:
  assumes "open_ok pd L op" "sess_like (xpd_sessions pd) (xpd_sessions pd')"
  shows "open_ok pd' L op"
proof -
  have "\<exists>y. xpd_sessions pd' s = Some y \<and> ss_state y \<noteq> XSS_CLOSED" if "s \<in> op" for s
  proof -
    from assms(1) that obtain x where "xpd_sessions pd s = Some x" "ss_state x \<noteq> XSS_CLOSED"
      by (auto simp: open_ok_def)
    with sess_likeD(3) [OF assms(2)] show ?thesis by blast
  qed
  with assms(1) show ?thesis by (simp add: open_ok_def)
qed

lemma owners_ok_like:
  assumes "owners_ok pd" "sess_like (xpd_sessions pd) (xpd_sessions pd')"
    and "\<And>q' t. q' \<in> set (xpd_xtqs pd') \<Longrightarrow> t \<in> set (tq_tasks q') \<Longrightarrow>
      \<exists>q u. q \<in> set (xpd_xtqs pd) \<and> u \<in> set (tq_tasks q) \<and> xt_xsess t = xt_xsess u"
  shows "owners_ok pd'"
  unfolding owners_ok_def
proof (intro ballI)
  fix q' t assume "q' \<in> set (xpd_xtqs pd')" "t \<in> set (tq_tasks q')"
  from assms(3) [OF this] obtain q u where "q \<in> set (xpd_xtqs pd)" "u \<in> set (tq_tasks q)"
    "xt_xsess t = xt_xsess u" by blast
  with assms(1) obtain s where "xt_xsess t = Some s" "xpd_sessions pd s \<noteq> None"
    unfolding owners_ok_def by fastforce
  then show "\<exists>s. xt_xsess t = Some s \<and> xpd_sessions pd' s \<noteq> None"
    using sess_likeD(1) [OF assms(2), of s] by auto
qed

lemma tasks_of_update:
  "i < length (xpd_xtqs pd) \<Longrightarrow>
     tasks_of (pd\<lparr>xpd_xtqs := (xpd_xtqs pd)[i := q]\<rparr>) s + count_for s (tq_tasks (xpd_xtqs pd ! i)) =
     tasks_of pd s + count_for s (tq_tasks q)"
  using sum_list_update_nat [of i "map (\<lambda>q. count_for s (tq_tasks q)) (xpd_xtqs pd)" "count_for s (tq_tasks q)"]
  by (simp add: tasks_of_def map_update)

lemma xtq_init_simps [simp]:
  "tq_tasks (xtq_init i) = []" "tq_id (xtq_init i) = i" "tq_cnt_running (xtq_init i) = 0"
  by (simp_all add: xtq_init_def)

lemma sys_init_ok: "sys_ok sys_init"
  by (auto simp: sys_ok_def sys_init_def queues_ok_def owners_ok_def counts_ok_def open_ok_def
      lists_ok_def pause_ok_def xtq_init_wf tasks_of_def users_def drained_def)

section \<open>The state machine and the mask\<close>

lemma state_calls [simp]:
  "xpd_xtqs (snd (xpd_state_to_error pd e)) = xpd_xtqs pd"
  "xpd_sessions (snd (xpd_state_to_error pd e)) = xpd_sessions pd"
  "xpd_pending_finish_flag (snd (xpd_state_to_error pd e)) = xpd_pending_finish_flag pd"
  "same_lists pd (snd (xpd_state_to_error pd e))"
  "xpd_xtqs (snd (xpd_state_to_paused pd)) = xpd_xtqs pd"
  "xpd_sessions (snd (xpd_state_to_paused pd)) = xpd_sessions pd"
  "xpd_pending_finish_flag (snd (xpd_state_to_paused pd)) = xpd_pending_finish_flag pd"
  "same_lists pd (snd (xpd_state_to_paused pd))"
  by (auto simp: xpd_state_to_error_def xpd_state_to_paused_def Let_def same_lists_def split: xpd_state.splits)

lemma error_state:
  "xpd_state (snd (xpd_state_to_error pd e)) =
     (if xpd_state pd \<in> {XPDS_RUNNING, XPDS_PAUSING, XPDS_ERROR} then XPDS_ERROR else xpd_state pd)"
  by (auto simp: xpd_state_to_error_def Let_def split: xpd_state.splits)

lemma pause_ok_error: "pause_ok pd pc \<Longrightarrow> pause_ok (snd (xpd_state_to_error pd e)) pc"
  by (auto simp: pause_ok_def error_state drained_def split: if_splits)

lemma bit_all_queues: "bit all_queues_mask i \<longleftrightarrow> i < KL1_TQS"
proof -
  have m: "all_queues_mask = mask 8"
    by (simp add: all_queues_mask_def KL1_SSE_TQ_COUNT_def mask_eq_decr_exp push_bit_eq_mult)
  show ?thesis unfolding m by (auto simp: bit_mask_iff possible_bit_word KL1_TQS_def)
qed

lemma mask_full:
  assumes "\<forall>i. bit f i \<longrightarrow> i < KL1_TQS"
  shows "f = all_queues_mask \<longleftrightarrow> (\<forall>i < KL1_TQS. bit f i)"
proof
  assume "\<forall>i < KL1_TQS. bit f i"
  with assms show "f = all_queues_mask" by (intro bit_eqI) (auto simp: bit_all_queues)
qed (simp add: bit_all_queues)

lemma bit_or_queue: "i < KL1_TQS \<Longrightarrow> bit (or (f :: 32 word) (push_bit i 1)) j \<longleftrightarrow> bit f j \<or> j = i"
  by (auto simp: bit_or_iff bit_exp_iff possible_bit_word KL1_TQS_def)

section \<open>Steps that change a session only\<close>

lemma tasks_of_cong: "xpd_xtqs pd' = xpd_xtqs pd \<Longrightarrow> tasks_of pd' s = tasks_of pd s"
  by (simp add: tasks_of_def)

lemma queues_ok_cong: "queues_ok pd \<Longrightarrow> xpd_xtqs pd' = xpd_xtqs pd \<Longrightarrow> queues_ok pd'"
  by (simp add: queues_ok_def)

lemma pause_ok_cong:
  "pause_ok pd pc \<Longrightarrow> xpd_state pd' = xpd_state pd \<Longrightarrow>
     xpd_pending_finish_flag pd' = xpd_pending_finish_flag pd \<Longrightarrow>
     (\<And>i. drained pd' i = drained pd i) \<Longrightarrow> pause_ok pd' pc"
  by (cases pc) (simp_all add: pause_ok_def)

lemma drained_cong: "xpd_xtqs pd' = xpd_xtqs pd \<Longrightarrow> drained pd' i = drained pd i"
  by (simp add: drained_def)

lemma session_update_ok:
  assumes ok: "sys_ok y" and x: "xpd_sessions (sy_pd y) s = Some x"
    and z: "z = x\<lparr>ss_unfinished_cnt := ss_unfinished_cnt x + d, ss_xtq := q, ss_binding_fixed := b\<rparr>"
    and q: "\<And>i. q = Some i \<Longrightarrow> i < KL1_TQS"
    and L: "int (uncounted L s) + d = int (uncounted (sy_launch y) s)"
       "\<And>v. v \<noteq> s \<Longrightarrow> uncounted L v = uncounted (sy_launch y) v" "fst ` set L \<subseteq> sy_open y"
  shows "sys_ok (y\<lparr>sy_pd := (sy_pd y)\<lparr>xpd_sessions := (xpd_sessions (sy_pd y))(s \<mapsto> z)\<rparr>, sy_launch := L\<rparr>)"
proof -
  let ?pd = "sy_pd y" let ?pd' = "?pd\<lparr>xpd_sessions := (xpd_sessions ?pd)(s \<mapsto> z)\<rparr>"
  have like: "sess_like (xpd_sessions ?pd) (xpd_sessions ?pd')"
    using x by (auto simp: z intro!: sess_like_update)
  have o: "queues_ok ?pd" "owners_ok ?pd" "counts_ok ?pd (sy_launch y)" "open_ok ?pd (sy_launch y) (sy_open y)"
    "lists_ok ?pd" "pause_ok ?pd (sy_pause y)" using ok by (auto simp: sys_ok_def)
  have "owners_ok ?pd'" by (rule owners_ok_like [OF o(2) like]) auto
  moreover have "lists_ok ?pd'" by (rule lists_ok_like [OF o(5) like]) (simp add: same_lists_def)
  moreover have "open_ok ?pd' L (sy_open y)"
    using open_ok_like [OF o(4) like] L(3) by (simp add: open_ok_def)
  moreover have "counts_ok ?pd' L"
  proof -
    have t: "tasks_of ?pd' v = tasks_of ?pd v" for v by (rule tasks_of_cong) simp
    have "ss_unfinished_cnt x + int (uncounted (sy_launch y) s) = int (tasks_of ?pd s)"
      using o(3) x by (simp add: counts_ok_def)
    with L(1) have "ss_unfinished_cnt x + d + int (uncounted L s) = int (tasks_of ?pd s)" by linarith
    with t o(3) q L(2) show ?thesis by (simp add: counts_ok_def z)
  qed
  moreover have "pause_ok ?pd' (sy_pause y)"
    by (rule pause_ok_cong [OF o(6)]) (simp_all add: drained_def)
  moreover have "queues_ok ?pd'" using o(1) by (simp add: queues_ok_def)
  ultimately show ?thesis by (simp add: sys_ok_def)
qed

lemma sys_update_same [simp]: "y\<lparr>sy_pd := pd, sy_launch := sy_launch y\<rparr> = y\<lparr>sy_pd := pd\<rparr>"
  by simp

lemma bind_ok:
  assumes ok: "sys_ok y" and r: "xpu_sched_bind_sess (sy_pd y) s = Some pd'"
  shows "sys_ok (y\<lparr>sy_pd := pd'\<rparr>)"
proof -
  from r obtain x where x: "xpd_sessions (sy_pd y) s = Some x"
    and pd': "pd' = sy_pd y \<or>
      pd' = (sy_pd y)\<lparr>xpd_sessions := (xpd_sessions (sy_pd y))(s \<mapsto> x\<lparr>ss_xtq := Some (ss_id x mod KL1_TQS)\<rparr>)\<rparr>"
    by (auto simp: xpu_sched_bind_sess_def split: bind_splits if_splits)
  have op: "fst ` set (sy_launch y) \<subseteq> sy_open y" using ok by (simp add: sys_ok_def open_ok_def)
  from pd' show ?thesis
  proof
    assume "pd' = sy_pd y"
    then show ?thesis using ok by simp
  next
    assume p: "pd' = (sy_pd y)\<lparr>xpd_sessions := (xpd_sessions (sy_pd y))(s \<mapsto> x\<lparr>ss_xtq := Some (ss_id x mod KL1_TQS)\<rparr>)\<rparr>"
    from session_update_ok [OF ok x, where z = "x\<lparr>ss_xtq := Some (ss_id x mod KL1_TQS)\<rparr>" and d = 0
        and q = "Some (ss_id x mod KL1_TQS)" and b = "ss_binding_fixed x" and L = "sy_launch y"] op p
    show ?thesis by (simp add: KL1_TQS_def)
  qed
qed

lemma bindtq_ok:
  assumes ok: "sys_ok y" and r: "ioctl_session_bindtq (sy_pd y) s d = Some (e, pd')"
  shows "sys_ok (y\<lparr>sy_pd := pd'\<rparr>)"
proof -
  from r obtain x where x: "xpd_sessions (sy_pd y) s = Some x"
    by (auto simp: ioctl_session_bindtq_def split: bind_splits)
  have keep: "x\<lparr>ss_xtq := q\<rparr> = x\<lparr>ss_xtq := q, ss_binding_fixed := ss_binding_fixed x\<rparr>" for q by simp
  consider "pd' = sy_pd y"
    | "pd' = (sy_pd y)\<lparr>xpd_sessions := (xpd_sessions (sy_pd y))(s \<mapsto> x\<lparr>ss_xtq := None\<rparr>)\<rparr>"
    | "pd' = (sy_pd y)\<lparr>xpd_sessions := (xpd_sessions (sy_pd y))(s \<mapsto>
         x\<lparr>ss_xtq := Some (u32 d), ss_binding_fixed := True\<rparr>)\<rparr>" "u32 d < KL1_TQS"
    using r x by (auto simp: ioctl_session_bindtq_def KL1_TQS_def KL1_SSE_TQ_COUNT_def split: if_splits)
  then have pd': "pd' = sy_pd y \<or>
      (\<exists>q b. pd' = (sy_pd y)\<lparr>xpd_sessions := (xpd_sessions (sy_pd y))(s \<mapsto> x\<lparr>ss_xtq := q, ss_binding_fixed := b\<rparr>)\<rparr> \<and>
         (\<forall>i. q = Some i \<longrightarrow> i < KL1_TQS))"
    by cases (use keep [of None] in \<open>metis option.distinct(1) option.inject\<close>)+
  have op: "fst ` set (sy_launch y) \<subseteq> sy_open y" using ok by (simp add: sys_ok_def open_ok_def)
  from pd' show ?thesis
  proof
    assume "pd' = sy_pd y"
    then show ?thesis using ok by simp
  next
    assume "\<exists>q b. pd' = (sy_pd y)\<lparr>xpd_sessions := (xpd_sessions (sy_pd y))(s \<mapsto> x\<lparr>ss_xtq := q, ss_binding_fixed := b\<rparr>)\<rparr> \<and>
         (\<forall>i. q = Some i \<longrightarrow> i < KL1_TQS)"
    then obtain q b where p: "pd' = (sy_pd y)\<lparr>xpd_sessions := (xpd_sessions (sy_pd y))(s \<mapsto> x\<lparr>ss_xtq := q, ss_binding_fixed := b\<rparr>)\<rparr>"
      and q: "\<forall>i. q = Some i \<longrightarrow> i < KL1_TQS" by blast
    from session_update_ok [OF ok x, where z = "x\<lparr>ss_xtq := q, ss_binding_fixed := b\<rparr>" and d = 0
        and q = q and b = b and L = "sy_launch y"] op p q
    show ?thesis by simp
  qed
qed

lemma uncounted_remove1:
  "(s, n) \<in> set L \<Longrightarrow> uncounted (remove1 (s, n) L) v + (if v = s then n else 0) = uncounted L v"
  by (induction L) (auto simp: uncounted_def)

lemma count_ok:
  assumes ok: "sys_ok y" and e: "(s, n) \<in> set (sy_launch y)" and r: "launch_count (sy_pd y) s n = Some pd'"
  shows "sys_ok (y\<lparr>sy_pd := pd', sy_launch := remove1 (s, n) (sy_launch y)\<rparr>)"
proof -
  from r obtain x where x: "xpd_sessions (sy_pd y) s = Some x"
    and pd': "pd' = (sy_pd y)\<lparr>xpd_sessions := (xpd_sessions (sy_pd y))(s \<mapsto>
        x\<lparr>ss_unfinished_cnt := ss_unfinished_cnt x + int n\<rparr>)\<rparr>"
    by (auto simp: launch_count_def split: bind_splits)
  have q: "i < KL1_TQS" if "ss_xtq x = Some i" for i
    using ok x that by (auto simp: sys_ok_def counts_ok_def)
  have op: "fst ` set (remove1 (s, n) (sy_launch y)) \<subseteq> sy_open y"
    using ok set_remove1_subset [of "(s, n)" "sy_launch y"] by (auto simp: sys_ok_def open_ok_def)
  have u: "int (uncounted (remove1 (s, n) (sy_launch y)) s) + int n = int (uncounted (sy_launch y) s)"
    using uncounted_remove1 [OF e, of s] by simp
  have v: "uncounted (remove1 (s, n) (sy_launch y)) v = uncounted (sy_launch y) v" if "v \<noteq> s" for v
    using uncounted_remove1 [OF e, of v] that by simp
  from session_update_ok [OF ok x refl, where q = "ss_xtq x" and b = "ss_binding_fixed x", OF q u v op] pd'
  show ?thesis by simp
qed

section \<open>Steps on a queue\<close>

lemma sys_okD:
  assumes "sys_ok y"
  shows "queues_ok (sy_pd y)" "owners_ok (sy_pd y)" "counts_ok (sy_pd y) (sy_launch y)"
    "open_ok (sy_pd y) (sy_launch y) (sy_open y)" "lists_ok (sy_pd y)" "pause_ok (sy_pd y) (sy_pause y)"
  using assms by (auto simp: sys_ok_def)

lemma queues_update:
  assumes "queues_ok pd" "i < KL1_TQS" "tq_wf q" "tq_id q = i"
    "xpd_xtqs pd' = (xpd_xtqs pd)[i := q]"
  shows "queues_ok pd'"
  using assms by (auto simp: queues_ok_def nth_list_update)

lemma owners_update:
  assumes o: "owners_ok pd" and i: "i < length (xpd_xtqs pd)" and x: "xpd_xtqs pd' = (xpd_xtqs pd)[i := q]"
    and like: "sess_like (xpd_sessions pd) (xpd_sessions pd')"
    and t: "\<And>t. t \<in> set (tq_tasks q) \<Longrightarrow>
      (\<exists>u \<in> set (tq_tasks (xpd_xtqs pd ! i)). xt_xsess t = xt_xsess u) \<or>
      (\<exists>s. xt_xsess t = Some s \<and> xpd_sessions pd s \<noteq> None)"
  shows "owners_ok pd'"
  unfolding owners_ok_def
proof (intro ballI)
  fix q' t assume q': "q' \<in> set (xpd_xtqs pd')" and m: "t \<in> set (tq_tasks q')"
  have "\<exists>s. xt_xsess t = Some s \<and> xpd_sessions pd s \<noteq> None"
  proof (cases "q' \<in> set (xpd_xtqs pd)")
    case True
    with o m show ?thesis by (simp add: owners_ok_def)
  next
    case False
    with q' x have "q' = q" using set_update_subset_insert [of "xpd_xtqs pd" i q] by auto
    with m have "t \<in> set (tq_tasks q)" by simp
    from t [OF this] show ?thesis
    proof (elim disjE bexE)
      fix u assume u: "u \<in> set (tq_tasks (xpd_xtqs pd ! i))" "xt_xsess t = xt_xsess u"
      from o nth_mem [OF i] u(1) have "\<exists>s. xt_xsess u = Some s \<and> xpd_sessions pd s \<noteq> None"
        unfolding owners_ok_def by blast
      with u(2) show ?thesis by simp
    qed auto
  qed
  then show "\<exists>s. xt_xsess t = Some s \<and> xpd_sessions pd' s \<noteq> None"
    using sess_likeD(1) [OF like] by auto
qed

lemma tasks_of_queue:
  assumes "i < length (xpd_xtqs pd)" "xpd_xtqs pd' = (xpd_xtqs pd)[i := q]"
  shows "tasks_of pd' s + count_for s (tq_tasks (xpd_xtqs pd ! i)) = tasks_of pd s + count_for s (tq_tasks q)"
proof -
  have "tasks_of pd' s = tasks_of (pd\<lparr>xpd_xtqs := (xpd_xtqs pd)[i := q]\<rparr>) s"
    using assms(2) by (simp add: tasks_of_def)
  with tasks_of_update [OF assms(1), of q s] show ?thesis by simp
qed

lemma add_ok:
  assumes ok: "sys_ok y" and s: "s \<in> sy_open y" and x: "xpd_sessions (sy_pd y) s = Some x" "ss_xtq x = Some i"
    and r: "launch_add (sy_pd y) s ts = Some (None, pd')" and own: "\<forall>t\<in>set ts. xt_xsess t = Some s"
    and d: "distinct (map xt_ref (tq_tasks (xpd_xtqs (sy_pd y) ! i) @ ts))"
    and l: "length (tq_tasks (xpd_xtqs (sy_pd y) ! i) @ ts) < 2 ^ 32"
  shows "sys_ok (y\<lparr>sy_pd := pd', sy_launch := (s, length ts) # sy_launch y\<rparr>)"
proof -
  let ?pd = "sy_pd y" let ?q = "xpd_xtqs ?pd ! i"
  note o = sys_okD [OF ok]
  have i: "i < KL1_TQS" using o(3) x by (simp add: counts_ok_def)
  have len: "i < length (xpd_xtqs ?pd)" and wf: "tq_wf ?q" "tq_id ?q = i"
    using o(1) i by (auto simp: queues_ok_def)
  from r x obtain q where q: "xtq_add_tasks_locked (xpd_state ?pd) ?q ts = Inr q"
    and pd': "pd' = ?pd\<lparr>xpd_xtqs := (xpd_xtqs ?pd)[i := q]\<rparr>"
    by (auto simp: launch_add_def split: sum.splits)
  note a = add_tasks_wf [OF wf(1) q d l]
  have xtqs: "xpd_xtqs pd' = (xpd_xtqs ?pd)[i := q]" by (simp add: pd')
  have cnt: "count_for v (tq_tasks q) = count_for v (tq_tasks ?q) + (if v = s then length ts else 0)" for v
  proof -
    have "count_for v (map (\<lambda>t. t\<lparr>xt_xtq_id := tq_id ?q\<rparr>) ts) = count_for v ts"
      by (rule count_for_map) simp
    moreover have "count_for v ts = (if v = s then length ts else 0)"
      using own by (induction ts) auto
    ultimately show ?thesis by (simp add: a(2))
  qed
  have "tasks_of pd' v = tasks_of ?pd v + (if v = s then length ts else 0)" for v
    using tasks_of_queue [OF len xtqs, of v] cnt [of v] by simp
  moreover have "uncounted ((s, length ts) # sy_launch y) v =
      uncounted (sy_launch y) v + (if v = s then length ts else 0)" for v
    by (simp add: uncounted_def)
  ultimately have "counts_ok pd' ((s, length ts) # sy_launch y)"
    using o(3) by (auto simp: counts_ok_def pd')
  moreover have "owners_ok pd'"
  proof (rule owners_update [OF o(2) len xtqs])
    show "sess_like (xpd_sessions ?pd) (xpd_sessions pd')" by (simp add: pd')
    fix t assume "t \<in> set (tq_tasks q)"
    then show "(\<exists>u\<in>set (tq_tasks ?q). xt_xsess t = xt_xsess u) \<or> (\<exists>s. xt_xsess t = Some s \<and> xpd_sessions ?pd s \<noteq> None)"
      using own x by (auto simp: a(2))
  qed
  moreover have "queues_ok pd'" by (rule queues_update [OF o(1) i a(1) _ xtqs]) (simp add: a wf)
  moreover have "open_ok pd' ((s, length ts) # sy_launch y) (sy_open y)"
    using o(4) s by (auto simp: open_ok_def pd')
  moreover have "lists_ok pd'" using o(5) by (simp add: lists_ok_def pd')
  moreover have "pause_ok pd' (sy_pause y)"
    by (rule pause_ok_cong [OF o(6)]) (use a len in \<open>auto simp: pd' drained_def nth_list_update\<close>)
  ultimately show ?thesis by (simp add: sys_ok_def)
qed

lemma dispatch_ok:
  assumes ok: "sys_ok y" and i: "i < KL1_TQS" and r: "tasklet_xtq_dispatch (sy_pd y) i = (pd', issued)"
  shows "sys_ok (y\<lparr>sy_pd := pd'\<rparr>)"
proof (cases "pd' = sy_pd y")
  case True
  then show ?thesis using ok by simp
next
  case False
  let ?pd = "sy_pd y" let ?q = "xpd_xtqs ?pd ! i"
  note o = sys_okD [OF ok]
  have len: "i < length (xpd_xtqs ?pd)" and wf: "tq_wf ?q" "tq_id ?q = i"
    using o(1) i by (auto simp: queues_ok_def)
  from r False obtain q where q: "dispatch_loop ?q = (q, issued)" and run: "xpd_state ?pd = XPDS_RUNNING"
    and pd': "pd' = ?pd\<lparr>xpd_xtqs := (xpd_xtqs ?pd)[i := q]\<rparr>"
    by (auto simp: tasklet_xtq_dispatch_def Let_def split: if_splits prod.splits)
  note c = dispatch_loop_correct [OF wf(1) q refl]
  have xtqs: "xpd_xtqs pd' = (xpd_xtqs ?pd)[i := q]" by (simp add: pd')
  have cnt: "count_for v (tq_tasks q) = count_for v (tq_tasks ?q)" for v
    using c count_for_split [of v] by (simp add: count_for_map)
  have "tasks_of pd' v = tasks_of ?pd v" for v
    using tasks_of_queue [OF len xtqs, of v] cnt [of v] by simp
  then have "counts_ok pd' (sy_launch y)" using o(3) by (simp add: counts_ok_def pd')
  moreover have "owners_ok pd'"
  proof (rule owners_update [OF o(2) len xtqs])
    show "sess_like (xpd_sessions ?pd) (xpd_sessions pd')" by (simp add: pd')
    fix t assume "t \<in> set (tq_tasks q)"
    then show "(\<exists>u\<in>set (tq_tasks ?q). xt_xsess t = xt_xsess u) \<or> (\<exists>s. xt_xsess t = Some s \<and> xpd_sessions ?pd s \<noteq> None)"
      using c by (fastforce dest: in_set_takeD in_set_dropD)
  qed
  moreover have "queues_ok pd'" by (rule queues_update [OF o(1) i _ _ xtqs]) (use c wf in auto)
  moreover have "open_ok pd' (sy_launch y) (sy_open y)" using o(4) by (simp add: open_ok_def pd')
  moreover have "lists_ok pd'" using o(5) by (simp add: lists_ok_def pd')
  moreover have "pause_ok pd' (sy_pause y)" using o(6) run by (auto simp: pause_ok_def pd')
  ultimately show ?thesis by (simp add: sys_ok_def)
qed

section \<open>Finishing\<close>

lemma dec_sess_Some:
  "dec_sess sess ts v = Some x \<longleftrightarrow>
     (\<exists>x0. sess v = Some x0 \<and> x = x0\<lparr>ss_unfinished_cnt := ss_unfinished_cnt x0 - int (count_for v ts)\<rparr>)"
  by (auto simp: dec_sess_def)

lemma owners_live:
  assumes "owners_ok pd" "i < length (xpd_xtqs pd)"
  shows "sessions_live (xpd_sessions pd) (take c (tq_tasks (xpd_xtqs pd ! i)))"
  unfolding sessions_live_def
proof (intro ballI allI impI)
  fix t s assume t: "t \<in> set (take c (tq_tasks (xpd_xtqs pd ! i)))" "xt_xsess t = Some s"
  have "xpd_xtqs pd ! i \<in> set (xpd_xtqs pd)" using assms(2) by simp
  with assms(1) in_set_takeD [OF t(1)] t(2) show "xpd_sessions pd s \<noteq> None"
    unfolding owners_ok_def by fastforce
qed

text \<open>The queue after a finish, with the interrupt counter the handler keeps.\<close>

lemma msi_wf: "tq_wf q \<Longrightarrow> tq_wf (q\<lparr>tq_msi_received := m\<rparr>)"
  by (simp add: tq_wf_def task_refs_def)

lemma finish_locked_cases:
  assumes o: "queues_ok pd" "owners_ok pd" and i: "i < KL1_TQS"
    and c: "c \<le> tq_cnt_running (xpd_xtqs pd ! i)"
  obtains (skip) q where "finish_locked pd i c = Some (pd\<lparr>xpd_xtqs := (xpd_xtqs pd)[i := q]\<rparr>, [])"
      "q = (xpd_xtqs pd ! i)\<lparr>tq_msi_received := u64 (tq_msi_received (xpd_xtqs pd ! i) + 1)\<rparr>"
      "c = 0 \<or> xpd_disabled_or_in_reset pd"
  | (run) q pd2 where "0 < c" "tq_wf q" "tq_id q = i" "tq_tasks q = drop c (tq_tasks (xpd_xtqs pd ! i))"
      "tq_cnt_running q = tq_cnt_running (xpd_xtqs pd ! i) - c"
      "pd2 = pd\<lparr>xpd_xtqs := (xpd_xtqs pd)[i := q],
         xpd_sessions := dec_sess (xpd_sessions pd) (take c (tq_tasks (xpd_xtqs pd ! i)))\<rparr>"
      "finish_locked pd i c = Some
         (if xpd_state pd = XPDS_PAUSING \<and> tq_cnt_running q = 0 then
            let flag = or (xpd_pending_finish_flag pd) (push_bit i 1);
                pd3 = pd2\<lparr>xpd_pending_finish_flag := flag\<rparr>
            in if flag = all_queues_mask then snd (xpd_state_to_paused pd3) else pd3
          else pd2, map finished (take c (tq_tasks (xpd_xtqs pd ! i))))"
proof (cases "c = 0 \<or> xpd_disabled_or_in_reset pd")
  case True
  then have "finish_locked pd i c =
      Some (pd\<lparr>xpd_xtqs := (xpd_xtqs pd)
        [i := (xpd_xtqs pd ! i)\<lparr>tq_msi_received := u64 (tq_msi_received (xpd_xtqs pd ! i) + 1)\<rparr>]\<rparr>, [])"
    by (auto simp: finish_locked_def Let_def)
  with True skip show thesis by blast
next
  case False
  define q0 where "q0 = (xpd_xtqs pd ! i)\<lparr>tq_msi_received := u64 (tq_msi_received (xpd_xtqs pd ! i) + 1)\<rparr>"
  have len: "i < length (xpd_xtqs pd)" and wf: "tq_wf (xpd_xtqs pd ! i)" "tq_id (xpd_xtqs pd ! i) = i"
    using o(1) i by (auto simp: queues_ok_def)
  have t0: "tq_tasks q0 = tq_tasks (xpd_xtqs pd ! i)" "tq_cnt_running q0 = tq_cnt_running (xpd_xtqs pd ! i)"
    "tq_id q0 = i" by (simp_all add: q0_def wf)
  have "tq_wf q0" unfolding q0_def by (rule msi_wf [OF wf(1)])
  moreover have "0 < c" "c \<le> tq_cnt_running q0" using False c t0 by auto
  moreover have "sessions_live (xpd_sessions pd) (take c (tq_tasks q0))"
    using owners_live [OF o(2) len] t0 by simp
  ultimately obtain q where q: "finish_loop (tq_tasks q0) q0 (xpd_sessions pd) c =
      Some (q, dec_sess (xpd_sessions pd) (take c (tq_tasks q0)), map finished (take c (tq_tasks q0)), 0)"
    "tq_wf q" "tq_tasks q = drop c (tq_tasks q0)" "tq_cnt_running q = tq_cnt_running q0 - c" "tq_id q = tq_id q0"
    using finish_loop_correct [of q0 c "xpd_sessions pd"] by blast
  have "finish_locked pd i c = Some
         (if xpd_state pd = XPDS_PAUSING \<and> tq_cnt_running q = 0 then
            let flag = or (xpd_pending_finish_flag pd) (push_bit i 1);
                pd3 = (pd\<lparr>xpd_xtqs := (xpd_xtqs pd)[i := q],
         xpd_sessions := dec_sess (xpd_sessions pd) (take c (tq_tasks (xpd_xtqs pd ! i)))\<rparr>)\<lparr>xpd_pending_finish_flag := flag\<rparr>
            in if flag = all_queues_mask then snd (xpd_state_to_paused pd3) else pd3
          else pd\<lparr>xpd_xtqs := (xpd_xtqs pd)[i := q],
         xpd_sessions := dec_sess (xpd_sessions pd) (take c (tq_tasks (xpd_xtqs pd ! i)))\<rparr>,
          map finished (take c (tq_tasks (xpd_xtqs pd ! i))))"
    unfolding finish_locked_def Let_def q0_def [symmetric] using False q t0 by simp
  then show thesis using run [OF \<open>0 < c\<close> q(2)] q(3-5) t0 by simp
qed

lemma queue_step_ok:
  assumes ok: "sys_ok y" and i: "i < KL1_TQS" and q: "tq_wf q" "tq_id q = i"
    and x: "xpd_xtqs pd' = (xpd_xtqs (sy_pd y))[i := q]"
    and s: "xpd_sessions pd' = dec_sess (xpd_sessions (sy_pd y)) us" and l: "same_lists (sy_pd y) pd'"
    and t: "tq_tasks (xpd_xtqs (sy_pd y) ! i) = us @ tq_tasks q" and p: "pause_ok pd' (sy_pause y)"
  shows "sys_ok (y\<lparr>sy_pd := pd'\<rparr>)"
proof -
  let ?pd = "sy_pd y"
  note o = sys_okD [OF ok]
  have len: "i < length (xpd_xtqs ?pd)" using o(1) i by (simp add: queues_ok_def)
  have like: "sess_like (xpd_sessions ?pd) (xpd_sessions pd')" by (simp add: s)
  have tk: "int (tasks_of pd' v) + int (count_for v us) = int (tasks_of ?pd v)" for v
    using tasks_of_queue [OF len x, of v] by (simp add: t)
  have "counts_ok pd' (sy_launch y)"
    unfolding counts_ok_def
  proof (intro allI impI)
    fix v z assume "xpd_sessions pd' v = Some z"
    then obtain z0 where z0: "xpd_sessions ?pd v = Some z0"
      "z = z0\<lparr>ss_unfinished_cnt := ss_unfinished_cnt z0 - int (count_for v us)\<rparr>"
      by (auto simp: s dec_sess_Some)
    from o(3) z0(1) have "ss_unfinished_cnt z0 + int (uncounted (sy_launch y) v) = int (tasks_of ?pd v)"
      "\<forall>j. ss_xtq z0 = Some j \<longrightarrow> j < KL1_TQS" by (auto simp: counts_ok_def)
    with z0(2) tk [of v] show "ss_unfinished_cnt z + int (uncounted (sy_launch y) v) = int (tasks_of pd' v) \<and>
        (\<forall>j. ss_xtq z = Some j \<longrightarrow> j < KL1_TQS)"
      by simp
  qed
  moreover have "owners_ok pd'" by (rule owners_update [OF o(2) len x like]) (auto simp: t)
  moreover have "queues_ok pd'" by (rule queues_update [OF o(1) i q x])
  moreover have "open_ok pd' (sy_launch y) (sy_open y)" by (rule open_ok_like [OF o(4) like])
  moreover have "lists_ok pd'" by (rule lists_ok_like [OF o(5) like l])
  ultimately show ?thesis using p by (simp add: sys_ok_def)
qed

text \<open>The pause protocol when the running count of one queue goes down.\<close>

lemma pause_ok_finish:
  assumes p: "pause_ok pd PauseIdle" and qs: "queues_ok pd" and i: "i < KL1_TQS"
    and x: "xpd_xtqs pd2 = (xpd_xtqs pd)[i := q]" and st: "xpd_state pd2 = xpd_state pd"
    and fl: "xpd_pending_finish_flag pd2 = xpd_pending_finish_flag pd"
    and r: "tq_cnt_running q = tq_cnt_running (xpd_xtqs pd ! i) - c"
      "0 < c" "c \<le> tq_cnt_running (xpd_xtqs pd ! i)"
  shows "pause_ok
     (if xpd_state pd = XPDS_PAUSING \<and> tq_cnt_running q = 0 then
        let flag = or (xpd_pending_finish_flag pd) (push_bit i 1);
            pd3 = pd2\<lparr>xpd_pending_finish_flag := flag\<rparr>
        in if flag = all_queues_mask then snd (xpd_state_to_paused pd3) else pd3
      else pd2) PauseIdle"
proof -
  have d: "drained pd2 j \<longleftrightarrow> (if j = i then tq_cnt_running q = 0 else drained pd j)" for j
    using qs i by (auto simp: drained_def x queues_ok_def nth_list_update)
  have nd: "\<not> drained pd i" using r by (simp add: drained_def)
  show ?thesis
  proof (cases "xpd_state pd = XPDS_PAUSING \<and> tq_cnt_running q = 0")
    case False
    have np: "xpd_state pd \<noteq> XPDS_PAUSED" using p nd i by (auto simp: pause_ok_def)
    have "pause_ok pd2 PauseIdle"
    proof (cases "xpd_state pd = XPDS_PAUSING")
      case True
      with False d nd have "drained pd2 j = drained pd j" for j by auto
      with p st fl show ?thesis by (intro pause_ok_cong [OF p]) simp_all
    qed (use p np st fl in \<open>simp add: pause_ok_def\<close>)
    then show ?thesis by (subst if_not_P [OF False])
  next
    case True
    let ?f = "or (xpd_pending_finish_flag pd) (push_bit i 1)"
    have b: "bit ?f j \<longleftrightarrow> bit (xpd_pending_finish_flag pd) j \<or> j = i" for j by (rule bit_or_queue [OF i])
    have lt: "\<forall>j. bit ?f j \<longrightarrow> j < KL1_TQS" unfolding b using p i by (auto simp: pause_ok_def)
    have bd: "bit ?f j \<longleftrightarrow> drained pd2 j" if "j < KL1_TQS" for j
      unfolding b using p True d that by (auto simp: pause_ok_def)
    show ?thesis
    proof (cases "?f = all_queues_mask")
      case full: True
      then have "\<forall>j < KL1_TQS. drained pd2 j" using mask_full [OF lt] bd by blast
      with True full st lt show ?thesis
        by (simp add: pause_ok_def Let_def xpd_state_to_paused_def drained_def)
    next
      case False
      then have "\<exists>j < KL1_TQS. \<not> drained pd2 j" using mask_full [OF lt] bd by blast
      with True False st lt bd show ?thesis
        by (simp add: pause_ok_def Let_def drained_def)
    qed
  qed
qed

lemma finish_ok:
  assumes ok: "sys_ok y" and pc: "sy_pause y = PauseIdle" and i: "i < KL1_TQS"
    and c: "c \<le> tq_cnt_running (xpd_xtqs (sy_pd y) ! i)" and r: "finish_locked (sy_pd y) i c = Some (pd', fins)"
  shows "sys_ok (y\<lparr>sy_pd := pd'\<rparr>)"
proof -
  let ?pd = "sy_pd y"
  note o = sys_okD [OF ok]
  have len: "i < length (xpd_xtqs ?pd)" and wf: "tq_wf (xpd_xtqs ?pd ! i)" "tq_id (xpd_xtqs ?pd ! i) = i"
    using o(1) i by (auto simp: queues_ok_def)
  from o(1,2) i c show ?thesis
  proof (cases rule: finish_locked_cases)
    case (skip q)
    with r have pd': "pd' = ?pd\<lparr>xpd_xtqs := (xpd_xtqs ?pd)[i := q]\<rparr>" by simp
    show ?thesis
    proof (rule queue_step_ok [OF ok i, where q = q and us = "[]"])
      show "tq_wf q" unfolding skip(2) by (rule msi_wf [OF wf(1)])
      show "pause_ok pd' (sy_pause y)"
        by (rule pause_ok_cong [OF o(6)]) (use len skip(2) in \<open>auto simp: pd' drained_def nth_list_update\<close>)
    qed (use skip(2) wf in \<open>auto simp: pd' same_lists_def\<close>)
  next
    case (run q pd2)
    let ?us = "take c (tq_tasks (xpd_xtqs ?pd ! i))"
    have pd2: "xpd_xtqs pd2 = (xpd_xtqs ?pd)[i := q]" "xpd_sessions pd2 = dec_sess (xpd_sessions ?pd) ?us"
      "xpd_state pd2 = xpd_state ?pd" "xpd_pending_finish_flag pd2 = xpd_pending_finish_flag ?pd"
      by (simp_all add: run(6))
    have "pd' = (if xpd_state ?pd = XPDS_PAUSING \<and> tq_cnt_running q = 0 then
            let flag = or (xpd_pending_finish_flag ?pd) (push_bit i 1);
                pd3 = pd2\<lparr>xpd_pending_finish_flag := flag\<rparr>
            in if flag = all_queues_mask then snd (xpd_state_to_paused pd3) else pd3
          else pd2)" (is "_ = ?r") using run(7) r by simp
    moreover have "pause_ok ?r PauseIdle"
      using pause_ok_finish [OF o(6) [unfolded pc] o(1) i pd2(1,3,4) run(5,1) c] .
    moreover have "xpd_xtqs ?r = xpd_xtqs pd2" "xpd_sessions ?r = xpd_sessions pd2" by (simp_all add: Let_def)
    moreover have "same_lists ?pd ?r"
      by (auto simp: run(6) Let_def same_lists_def xpd_state_to_paused_def split: xpd_state.splits)
    ultimately show ?thesis
      using queue_step_ok [OF ok i run(2,3), of pd' ?us] pd2 run(4) pc by simp
  qed
qed

section \<open>Steps that keep tasks and counts\<close>

text \<open>Queues and sessions that differ only in their states and error numbers.\<close>

definition queues_like :: "xpu_pd \<Rightarrow> xpu_pd \<Rightarrow> bool" where
  "queues_like pd pd' \<longleftrightarrow> length (xpd_xtqs pd') = length (xpd_xtqs pd) \<and>
     (\<forall>i < length (xpd_xtqs pd). \<exists>s. xpd_xtqs pd' ! i = (xpd_xtqs pd ! i)\<lparr>tq_state := s\<rparr>)"

definition marked :: "(nat \<Rightarrow> xpu_session option) \<Rightarrow> (nat \<Rightarrow> xpu_session option) \<Rightarrow> bool" where
  "marked sess sess' \<longleftrightarrow> (\<forall>s. rel_option (\<lambda>x y.
     y = x \<or> (\<exists>e. y = x\<lparr>ss_state := XSS_ERROR, ss_errno := e\<rparr>)) (sess s) (sess' s))"

lemma queues_like_refl [simp]: "xpd_xtqs pd' = xpd_xtqs pd \<Longrightarrow> queues_like pd pd'"
  by (metis queues_like_def xpu_tq.surjective xpu_tq.update_convs(2))

lemma marked_refl [simp]: "marked sess sess"
  by (auto simp: marked_def option.rel_refl)

lemma marked_like: "marked sess sess' \<Longrightarrow> sess_like sess sess'"
  unfolding marked_def sess_like_def by (fastforce elim!: option.rel_mono_strong)

lemma marked_trans:
  assumes "marked a b" "marked b c" shows "marked a c"
proof -
  have "rel_option (\<lambda>x y. y = x \<or> (\<exists>e. y = x\<lparr>ss_state := XSS_ERROR, ss_errno := e\<rparr>)) (a s) (c s)" for s
    using assms unfolding marked_def by (cases "a s"; cases "b s"; cases "c s") (force dest: spec [of _ s])+
  then show ?thesis by (simp add: marked_def)
qed

lemma queues_likeD:
  assumes "queues_like pd pd'"
  shows "i < length (xpd_xtqs pd) \<Longrightarrow> drained pd' i = drained pd i"
    and "map tq_tasks (xpd_xtqs pd') = map tq_tasks (xpd_xtqs pd)"
proof -
  show "drained pd' i = drained pd i" if "i < length (xpd_xtqs pd)"
    using assms that by (fastforce simp: queues_like_def drained_def)
  show "map tq_tasks (xpd_xtqs pd') = map tq_tasks (xpd_xtqs pd)"
    using assms by (intro nth_equalityI) (fastforce simp: queues_like_def)+
qed

lemma tasks_of_like: "queues_like pd pd' \<Longrightarrow> tasks_of pd' s = tasks_of pd s"
  using arg_cong [OF queues_likeD(2), of pd pd' "\<lambda>l. sum_list (map (count_for s) l)"]
  by (simp add: tasks_of_def comp_def)

lemma queues_ok_like:
  assumes "queues_ok pd" "queues_like pd pd'" shows "queues_ok pd'"
proof -
  have "tq_wf (xpd_xtqs pd' ! i) \<and> tq_id (xpd_xtqs pd' ! i) = i" if "i < KL1_TQS" for i
  proof -
    from assms that obtain s where "xpd_xtqs pd' ! i = (xpd_xtqs pd ! i)\<lparr>tq_state := s\<rparr>"
      by (auto simp: queues_ok_def queues_like_def)
    with assms(1) that show ?thesis by (simp add: queues_ok_def tq_wf_def task_refs_def)
  qed
  with assms show ?thesis by (simp add: queues_ok_def queues_like_def)
qed

lemma control_ok:
  assumes ok: "sys_ok y" and q: "queues_like (sy_pd y) pd'" and m: "marked (xpd_sessions (sy_pd y)) (xpd_sessions pd')"
    and l: "same_lists (sy_pd y) pd'" and p: "pause_ok pd' pc"
  shows "sys_ok (y\<lparr>sy_pd := pd', sy_pause := pc\<rparr>)"
proof -
  let ?pd = "sy_pd y"
  note o = sys_okD [OF ok]
  note like = marked_like [OF m]
  have tk: "map tq_tasks (xpd_xtqs pd') = map tq_tasks (xpd_xtqs ?pd)" by (rule queues_likeD(2) [OF q])
  have "owners_ok pd'"
  proof (rule owners_ok_like [OF o(2) like])
    fix q' t assume "q' \<in> set (xpd_xtqs pd')" "t \<in> set (tq_tasks q')"
    moreover then have "tq_tasks q' \<in> set (map tq_tasks (xpd_xtqs pd'))" by simp
    ultimately obtain q where "q \<in> set (xpd_xtqs ?pd)" "t \<in> set (tq_tasks q)"
      unfolding tk by auto
    then show "\<exists>q u. q \<in> set (xpd_xtqs ?pd) \<and> u \<in> set (tq_tasks q) \<and> xt_xsess t = xt_xsess u"
      by blast
  qed
  moreover have "counts_ok pd' (sy_launch y)"
    unfolding counts_ok_def
  proof (intro allI impI)
    fix v z assume z: "xpd_sessions pd' v = Some z"
    with m obtain x where x: "xpd_sessions ?pd v = Some x" "ss_unfinished_cnt z = ss_unfinished_cnt x" "ss_xtq z = ss_xtq x"
      unfolding marked_def by (cases "xpd_sessions ?pd v") (fastforce dest: spec [of _ v])+
    from o(3) x(1) have "ss_unfinished_cnt x + int (uncounted (sy_launch y) v) = int (tasks_of ?pd v)"
      "\<forall>j. ss_xtq x = Some j \<longrightarrow> j < KL1_TQS" by (auto simp: counts_ok_def)
    with x tasks_of_like [OF q] show "ss_unfinished_cnt z + int (uncounted (sy_launch y) v) = int (tasks_of pd' v) \<and>
        (\<forall>j. ss_xtq z = Some j \<longrightarrow> j < KL1_TQS)" by simp
  qed
  moreover have "queues_ok pd'" by (rule queues_ok_like [OF o(1) q])
  moreover have "open_ok pd' (sy_launch y) (sy_open y)" by (rule open_ok_like [OF o(4) like])
  moreover have "lists_ok pd'" by (rule lists_ok_like [OF o(5) like l])
  ultimately show ?thesis using p by (simp add: sys_ok_def)
qed

section \<open>Exceptions\<close>

lemma mark_session_correct:
  assumes "xsess = Some s" "sess s \<noteq> None"
  shows "\<exists>sess'. mark_session sess xsess e = Some sess' \<and> marked sess sess'"
  using assms by (auto simp: mark_session_def marked_def intro!: option.rel_refl)

lemma marked_live: "marked sess sess' \<Longrightarrow> sess' s = None \<longleftrightarrow> sess s = None"
  using sess_likeD(1) [OF marked_like] by blast

lemma mark_tasks_correct:
  "\<forall>t\<in>set ts. \<exists>s. xt_xsess t = Some s \<and> sess s \<noteq> None \<Longrightarrow>
     \<exists>sess'. mark_tasks sess ts e = Some sess' \<and> marked sess sess'"
proof (induction ts arbitrary: sess)
  case (Cons t ts)
  then obtain s where "xt_xsess t = Some s" "sess s \<noteq> None" by auto
  from mark_session_correct [where sess = sess and s = s, OF this] obtain sess1 where
    1: "mark_session sess (xt_xsess t) e = Some sess1" "marked sess sess1" by blast
  with Cons.prems have "\<forall>t\<in>set ts. \<exists>s. xt_xsess t = Some s \<and> sess1 s \<noteq> None"
    using marked_live [OF 1(2)] by auto
  from Cons.IH [OF this] obtain sess' where "mark_tasks sess1 ts e = Some sess'" "marked sess1 sess'" by blast
  with 1 marked_trans show ?case by auto
qed simp

definition control_like :: "xpu_pd \<Rightarrow> xpu_pd \<Rightarrow> bool" where
  "control_like pd pd' \<longleftrightarrow> queues_like pd pd' \<and> marked (xpd_sessions pd) (xpd_sessions pd') \<and>
     same_lists pd pd' \<and> xpd_state pd' = xpd_state pd \<and>
     xpd_pending_finish_flag pd' = xpd_pending_finish_flag pd"

lemma hang_queues_correct:
  assumes "owners_ok pd"
  shows "\<exists>pd'. hang_queues pd e = Some pd' \<and> control_like pd pd'"
proof -
  from assms have "\<forall>t\<in>set (concat (map tq_tasks (xpd_xtqs pd))). \<exists>s. xt_xsess t = Some s \<and> xpd_sessions pd s \<noteq> None"
    by (auto simp: owners_ok_def)
  from mark_tasks_correct [OF this, of e] show ?thesis
    by (auto simp: hang_queues_def control_like_def same_lists_def queues_like_def)
qed

lemma pause_ok_control:
  assumes "control_like pd pd'" "pause_ok pd pc" "length (xpd_xtqs pd) = KL1_TQS"
  shows "pause_ok pd' pc"
proof -
  have "drained pd' i = drained pd i" if "i < KL1_TQS" for i
    using assms that queues_likeD(1) [of pd pd' i] by (simp add: control_like_def)
  then have d: "(\<forall>i < KL1_TQS. drained pd' i) = (\<forall>i < KL1_TQS. drained pd i)"
    "(\<exists>i < KL1_TQS. \<not> drained pd' i) = (\<exists>i < KL1_TQS. \<not> drained pd i)"
    "(\<forall>i < KL1_TQS. P i = drained pd' i) = (\<forall>i < KL1_TQS. P i = drained pd i)"
    "(\<forall>i < KL1_TQS. P i = (i < n \<and> drained pd' i)) = (\<forall>i < KL1_TQS. P i = (i < n \<and> drained pd i))" for P n
    by blast+
  have "xpd_state pd' = xpd_state pd" "xpd_pending_finish_flag pd' = xpd_pending_finish_flag pd"
    using assms(1) by (auto simp: control_like_def)
  with assms(2) show ?thesis by (cases pc) (simp_all only: pause_ok_def d pause_pc.case)
qed

text \<open>An exception: the state change, then the marks.\<close>

lemma same_lists_trans: "same_lists a b \<Longrightarrow> same_lists b c \<Longrightarrow> same_lists a c"
  by (simp add: same_lists_def)

lemma queues_like_trans_eq: "xpd_xtqs b = xpd_xtqs a \<Longrightarrow> queues_like b c \<Longrightarrow> queues_like a c"
  by (simp add: queues_like_def)

lemma exception_ok:
  assumes ok: "sys_ok y" and e: "pd1 = snd (xpd_state_to_error (sy_pd y) e)" and c: "control_like pd1 pd'"
  shows "sys_ok (y\<lparr>sy_pd := pd'\<rparr>)"
proof -
  note o = sys_okD [OF ok]
  have len: "length (xpd_xtqs pd1) = KL1_TQS" using o(1) by (simp add: e queues_ok_def)
  have "pause_ok pd1 (sy_pause y)" unfolding e by (rule pause_ok_error [OF o(6)])
  from pause_ok_control [OF c this len] have "pause_ok pd' (sy_pause y)" .
  moreover have "queues_like (sy_pd y) pd'"
    by (rule queues_like_trans_eq [of pd1]) (use c in \<open>simp_all add: e control_like_def\<close>)
  moreover have "marked (xpd_sessions (sy_pd y)) (xpd_sessions pd')" "same_lists (sy_pd y) pd'"
    using c same_lists_trans [OF state_calls(4)] by (auto simp: e control_like_def)
  ultimately show ?thesis using control_ok [OF ok, of pd' "sy_pause y"] by simp
qed

lemma control_like_etasks: "control_like (pd\<lparr>xpd_etasks := es\<rparr>) pd' \<Longrightarrow> control_like pd pd'"
  by (simp add: control_like_def queues_like_def same_lists_def)

lemma exc_ok:
  assumes ok: "sys_ok y"
  shows "\<exists>pd'. ISR_xpd_on_exception mem (sy_pd y) = Some pd' \<and> sys_ok (y\<lparr>sy_pd := pd'\<rparr>)"
proof -
  let ?pd1 = "snd (xpd_state_to_error (sy_pd y) (Some XPUERR_KEXCEPTION))"
  have "owners_ok (?pd1\<lparr>xpd_etasks := es\<rparr>)" for es
    using sys_okD(2) [OF ok] by (simp add: owners_ok_def)
  from hang_queues_correct [OF this] show ?thesis
    using exception_ok [OF ok refl] control_like_etasks unfolding ISR_xpd_on_exception_def Let_def by meson
qed

lemma sse_exc_ok:
  assumes ok: "sys_ok y"
  shows "\<exists>pd'. isr_xpd_on_sse_exception (sy_pd y) = Some pd' \<and> sys_ok (y\<lparr>sy_pd := pd'\<rparr>)"
proof -
  have "owners_ok (snd (xpd_state_to_error (sy_pd y) (Some XPUERR_HWEXCEPTION)))"
    using sys_okD(2) [OF ok] by (simp add: owners_ok_def)
  from hang_queues_correct [OF this] show ?thesis
    using exception_ok [OF ok refl] unfolding isr_xpd_on_sse_exception_def by blast
qed

lemma warning_ok: "sys_ok y \<Longrightarrow> sys_ok (y\<lparr>sy_pd := snd (xpd_state_to_error (sy_pd y) e)\<rparr>)"
  by (rule exception_ok [OF _ refl]) (simp_all add: control_like_def same_lists_def)

lemma clean_etasks_eq:
  "xpd_clean_etasks_ifneed pd =
     pd\<lparr>xpd_etasks := (if xpd_need_clean_etasks pd then [] else xpd_etasks pd), xpd_need_clean_etasks := False\<rparr>"
  by (simp add: xpd_clean_etasks_ifneed_def xpd_clean_etasks_locked_def)

lemma hang_one_queue:
  "i < length qs \<Longrightarrow> \<exists>st. qs[i := (qs ! i)\<lparr>tq_state := XTQS_HANGUP\<rparr>] ! j = (qs ! j)\<lparr>tq_state := st\<rparr>"
  by (intro exI [of _ "if j = i then XTQS_HANGUP else tq_state (qs ! j)"]) simp

lemma timeout_ok:
  assumes ok: "sys_ok y" and x: "xpd_sessions (sy_pd y) s = Some x" "ss_xtq x = Some i"
  shows "\<exists>pd'. wait_timed_out mem (sy_pd y) s = Some pd' \<and> sys_ok (y\<lparr>sy_pd := pd'\<rparr>)"
proof -
  note o = sys_okD [OF ok]
  let ?pd0 = "snd (xpd_state_to_error (sy_pd y) (Some XPUERR_TIMEOUT))"
  let ?pd1 = "xpd_clean_etasks_ifneed ?pd0"
  let ?q = "(xpd_xtqs ?pd1 ! i)\<lparr>tq_state := XTQS_HANGUP\<rparr>"
  let ?pd2 = "?pd1\<lparr>xpd_xtqs := (xpd_xtqs ?pd1)[i := ?q]\<rparr>"
  have i: "i < length (xpd_xtqs (sy_pd y))" using o(1,3) x by (simp add: counts_ok_def queues_ok_def)
  have "\<exists>st. (xpd_xtqs ?pd1)[i := ?q] ! j = (xpd_xtqs ?pd1 ! j)\<lparr>tq_state := st\<rparr>" for j
    by (rule hang_one_queue) (use i in \<open>simp add: clean_etasks_eq\<close>)
  then have ql: "queues_like ?pd0 ?pd2" by (simp add: queues_like_def clean_etasks_eq)
  show ?thesis
  proof (cases "tq_tasks ?q")
    case Nil
    then have "wait_timed_out mem (sy_pd y) s = Some ?pd2"
      using x by (simp add: wait_timed_out_def Let_def)
    moreover have "control_like ?pd0 ?pd2" using ql by (simp add: control_like_def same_lists_def clean_etasks_eq)
    ultimately show ?thesis using exception_ok [OF ok refl] by blast
  next
    case (Cons t ts)
    then have "t \<in> set (tq_tasks (xpd_xtqs (sy_pd y) ! i))" by (simp add: clean_etasks_eq)
    with o(2) nth_mem [OF i] obtain v where v: "xt_xsess t = Some v" "xpd_sessions (sy_pd y) v \<noteq> None"
      unfolding owners_ok_def by blast
    from mark_session_correct [OF v(1), of "xpd_sessions ?pd2" XPUERR_TIMEOUT] v(2) obtain sess where
      m: "mark_session (xpd_sessions ?pd2) (xt_xsess t) XPUERR_TIMEOUT = Some sess" "marked (xpd_sessions ?pd2) sess"
      by (auto simp: clean_etasks_eq)
    let ?pd3 = "?pd2\<lparr>xpd_etasks := xtq_save_etask_locked mem (xpd_etasks ?pd2) t, xpd_sessions := sess\<rparr>"
    have "wait_timed_out mem (sy_pd y) s = Some ?pd3"
      using x Cons m(1) by (simp add: wait_timed_out_def Let_def)
    moreover have "control_like ?pd0 ?pd3"
      using ql m(2) by (simp add: control_like_def same_lists_def queues_like_def clean_etasks_eq)
    ultimately show ?thesis using exception_ok [OF ok refl] by blast
  qed
qed

section \<open>Pausing and resuming\<close>

lemma pause_begin_ok:
  assumes ok: "sys_ok y" and r: "pause_begin (sy_pd y) = Some pd'"
  shows "sys_ok (y\<lparr>sy_pd := pd', sy_pause := PauseClear\<rparr>)"
proof -
  from r have pd': "pd' = (sy_pd y)\<lparr>xpd_state := XPDS_PAUSING\<rparr>"
    by (auto simp: pause_begin_def xpd_state_to_pausing_def split: if_splits)
  have "\<forall>i. bit (xpd_pending_finish_flag (sy_pd y)) i \<longrightarrow> i < KL1_TQS"
    using sys_okD(6) [OF ok] by (simp add: pause_ok_def)
  then have "pause_ok pd' PauseClear" by (simp add: pd' pause_ok_def)
  from control_ok [OF ok _ _ _ this] show ?thesis by (simp add: pd' same_lists_def)
qed

lemma pause_clear_ok:
  assumes ok: "sys_ok y" and pc: "sy_pause y = PauseClear"
  shows "sys_ok (y\<lparr>sy_pd := pause_clear (sy_pd y), sy_pause := PauseScan 0\<rparr>)"
proof -
  have "pause_ok (pause_clear (sy_pd y)) (PauseScan 0)"
    using sys_okD(6) [OF ok] by (auto simp: pause_ok_def pause_clear_def pc)
  from control_ok [OF ok _ _ _ this] show ?thesis by (simp add: pause_clear_def same_lists_def)
qed

lemma pause_scan_ok:
  assumes ok: "sys_ok y" and pc: "sy_pause y = PauseScan n" and n: "n < KL1_TQS"
  shows "sys_ok (y\<lparr>sy_pd := pause_scan (sy_pd y) n, sy_pause := PauseScan (Suc n)\<rparr>)"
proof -
  let ?pd = "sy_pd y" let ?pd' = "pause_scan ?pd n"
  note o = sys_okD [OF ok]
  note p = o(6) [unfolded pc]
  have id: "tq_id (xpd_xtqs ?pd ! n) = n" using o(1) n by (simp add: queues_ok_def)
  have fl: "bit (xpd_pending_finish_flag ?pd') j \<longleftrightarrow> bit (xpd_pending_finish_flag ?pd) j \<or> j = n \<and> drained ?pd n" for j
    using bit_or_queue [OF n, of "xpd_pending_finish_flag ?pd" j]
    by (auto simp: pause_scan_def drained_def id simp del: push_bit_of_1)
  have st: "xpd_state ?pd' = xpd_state ?pd" "\<And>j. drained ?pd' j = drained ?pd j"
    by (simp_all add: pause_scan_def drained_def)
  have "pause_ok ?pd' (PauseScan (Suc n))"
    using p n by (auto simp: pause_ok_def st fl less_Suc_eq)
  from control_ok [OF ok _ _ _ this] show ?thesis by (simp add: pause_scan_def same_lists_def)
qed

lemma pause_end_ok:
  assumes ok: "sys_ok y" and pc: "sy_pause y = PauseScan KL1_TQS"
  shows "sys_ok (y\<lparr>sy_pd := pause_end (sy_pd y), sy_pause := PauseIdle\<rparr>)"
proof -
  let ?pd = "sy_pd y"
  note p = sys_okD(6) [OF ok, unfolded pc]
  have lt: "\<forall>i. bit (xpd_pending_finish_flag ?pd) i \<longrightarrow> i < KL1_TQS" using p by (simp add: pause_ok_def)
  have full: "xpd_pending_finish_flag ?pd = all_queues_mask \<longleftrightarrow> (\<forall>i < KL1_TQS. drained ?pd i)"
    if "xpd_state ?pd = XPDS_PAUSING"
    unfolding mask_full [OF lt] using p that by (simp add: pause_ok_def)
  have "pause_ok (pause_end ?pd) PauseIdle"
  proof (cases "xpd_state ?pd = XPDS_PAUSING")
    case True
    then show ?thesis using p full [OF True]
      by (auto simp: pause_ok_def pause_end_def xpd_state_to_paused_def drained_def)
  next
    case False
    then have "xpd_state ?pd = XPDS_ERROR" using p by (simp add: pause_ok_def)
    then show ?thesis using p by (auto simp: pause_ok_def pause_end_def xpd_state_to_paused_def)
  qed
  moreover have "same_lists ?pd ?pd" by (simp add: same_lists_def)
  ultimately show ?thesis by (intro control_ok [OF ok]) (simp_all add: pause_end_def)
qed

lemma resume_ok:
  assumes ok: "sys_ok y" and pc: "sy_pause y = PauseIdle"
  shows "sys_ok (y\<lparr>sy_pd := isr_resume_xpd (sy_pd y)\<rparr>)"
proof -
  have "pause_ok (isr_resume_xpd (sy_pd y)) (sy_pause y)"
    using sys_okD(6) [OF ok] by (auto simp: pause_ok_def isr_resume_xpd_def xpd_state_to_running_def pc)
  from control_ok [OF ok _ _ _ this] show ?thesis
    by (simp add: isr_resume_xpd_def xpd_state_to_running_def same_lists_def)
qed

section \<open>Opening and closing sessions\<close>

lemma close_ok:
  assumes ok: "sys_ok y" and s: "s \<in> sy_open y" "s \<notin> fst ` set (sy_launch y)"
    and r: "session_destroy (sy_pd y) (Some s) = Some pd'"
  shows "sys_ok (y\<lparr>sy_pd := pd', sy_open := sy_open y - {s}\<rparr>)"
proof -
  let ?pd = "sy_pd y"
  note o = sys_okD [OF ok]
  from r obtain x where x: "xpd_sessions ?pd s = Some x"
    and pd': "pd' = ?pd\<lparr>xpd_sessions := (xpd_sessions ?pd)(s \<mapsto> x\<lparr>ss_state := XSS_CLOSED\<rparr>)\<rparr>"
    by (auto simp: session_destroy_def split: bind_splits)
  have u: "users (xpd_sessions pd') c = users (xpd_sessions ?pd) c" for c
    using x by (auto simp: users_def pd')
  have "owners_ok pd'" using o(2) x by (fastforce simp: owners_ok_def pd')
  moreover have "counts_ok pd' (sy_launch y)" using o(3) x by (auto simp: counts_ok_def pd' tasks_of_def)
  moreover have "queues_ok pd'" using o(1) by (simp add: queues_ok_def pd')
  moreover have "open_ok pd' (sy_launch y) (sy_open y - {s})" using o(4) s by (auto simp: open_ok_def pd')
  moreover have "lists_ok pd'"
  proof -
    have "dom (xpd_sessions pd') = dom (xpd_sessions ?pd)" using x by (auto simp: pd')
    moreover have "\<forall>v z. xpd_sessions pd' v = Some z \<longrightarrow> ss_xctx z \<in> dom (xpd_contexts pd')"
      using o(5) x by (auto simp: lists_ok_def pd')
    ultimately show ?thesis using o(5) u by (simp add: lists_ok_def) (simp add: pd')
  qed
  moreover have "pause_ok pd' (sy_pause y)" by (rule pause_ok_cong [OF o(6)]) (simp_all add: pd' drained_def)
  ultimately show ?thesis by (simp add: sys_ok_def)
qed

lemma find_ctx_found:
  "find_ctx ctxs cs pid = Some (Some c) \<Longrightarrow> c \<in> set cs \<and> (\<exists>x. ctxs c = Some x \<and> cx_pid x = pid)"
  by (induction cs) (auto split: bind_splits if_splits)

lemma find_ctx_none:
  "find_ctx ctxs cs pid = Some None \<Longrightarrow> \<forall>c\<in>set cs. \<exists>x. ctxs c = Some x \<and> cx_pid x \<noteq> pid"
  by (induction cs) (auto split: bind_splits if_splits)

lemma find_ctx_total: "set cs \<subseteq> dom ctxs \<Longrightarrow> find_ctx ctxs cs pid \<noteq> None"
  by (induction cs) auto

lemma tasks_of_none:
  assumes "owners_ok pd" "xpd_sessions pd s = None" shows "tasks_of pd s = 0"
proof -
  have "count_for s (tq_tasks q) = 0" if "q \<in> set (xpd_xtqs pd)" for q
    using assms that by (fastforce simp: owners_ok_def count_for_def filter_empty_conv)
  then show ?thesis by (simp add: tasks_of_def sum_list_eq_0_iff)
qed

lemma uncounted_none: "s \<notin> fst ` set L \<Longrightarrow> uncounted L s = 0"
  by (auto simp: uncounted_def image_iff filter_empty_conv intro!: sum_list_0)

lemma finite_users: "lists_ok pd \<Longrightarrow> finite (users (xpd_sessions pd) c)"
  by (rule finite_subset [OF _ finite_set [of "xpd_session_list pd"]]) (auto simp: lists_ok_def users_def)

lemma new_session_ok:
  assumes ok: "sys_ok y" and s: "xpd_sessions (sy_pd y) s = None"
    and same: "xpd_xtqs pd' = xpd_xtqs (sy_pd y)" "xpd_state pd' = xpd_state (sy_pd y)"
      "xpd_pending_finish_flag pd' = xpd_pending_finish_flag (sy_pd y)" "\<not> xpd_sessions_lock pd'"
    and sl: "xpd_session_list pd' = xpd_session_list (sy_pd y) @ [s]"
      "xpd_sessions pd' = (xpd_sessions (sy_pd y))(s \<mapsto> new_session sid c)"
    and cl: "xpd_contexts pd' = (xpd_contexts (sy_pd y))(c \<mapsto> x)" "distinct (xpd_context_list pd')"
      "set (xpd_context_list pd') = insert c (set (xpd_context_list (sy_pd y)))"
    and cnt: "cx_sess_cnt x = int (card (users (xpd_sessions (sy_pd y)) c)) + 1"
  shows "sys_ok (y\<lparr>sy_pd := pd', sy_open := insert s (sy_open y)\<rparr>)"
proof -
  let ?pd = "sy_pd y"
  note o = sys_okD [OF ok]
  have u: "users (xpd_sessions pd') d = (if d = c then insert s (users (xpd_sessions ?pd) d) else users (xpd_sessions ?pd) d)" for d
    using s by (auto simp: users_def sl new_session_def)
  have nu: "s \<notin> users (xpd_sessions ?pd) c" using s by (simp add: users_def)
  have sop: "s \<notin> sy_open y" using o(4) s by (auto simp: open_ok_def)
  then have su: "uncounted (sy_launch y) s = 0" using o(4) by (intro uncounted_none) (auto simp: open_ok_def)
  have "owners_ok pd'" using o(2) by (fastforce simp: owners_ok_def same sl)
  moreover have "counts_ok pd' (sy_launch y)"
    using o(3) tasks_of_none [OF o(2) s] su by (simp add: counts_ok_def sl tasks_of_cong [OF same(1)] new_session_def)
  moreover have "queues_ok pd'" using o(1) by (simp add: queues_ok_def same)
  moreover have "open_ok pd' (sy_launch y) (insert s (sy_open y))"
    using o(4) by (auto simp: open_ok_def sl new_session_def)
  moreover have "lists_ok pd'"
    unfolding lists_ok_def
  proof (intro conjI allI impI)
    show "distinct (xpd_session_list pd')" "set (xpd_session_list pd') = dom (xpd_sessions pd')"
      using o(5) s by (auto simp: lists_ok_def sl)
    show "set (xpd_context_list pd') = dom (xpd_contexts pd')" using o(5) by (auto simp: lists_ok_def cl)
    show "ss_xctx z \<in> dom (xpd_contexts pd')" if "xpd_sessions pd' v = Some z" for v z
      using o(5) that by (auto simp: lists_ok_def sl cl new_session_def split: if_splits)
    fix d z assume z: "xpd_contexts pd' d = Some z"
    show "cx_sess_cnt z = int (card (users (xpd_sessions pd') d))"
      using z o(5) cnt nu finite_users [OF o(5)] by (auto simp: u cl lists_ok_def split: if_splits)
    show "users (xpd_sessions pd') d \<noteq> {}"
      using z o(5) by (auto simp: u cl lists_ok_def split: if_splits)
  qed (use same cl in auto)
  moreover have "pause_ok pd' (sy_pause y)"
    by (rule pause_ok_cong [OF o(6)]) (simp_all add: same drained_def)
  ultimately show ?thesis by (simp add: sys_ok_def)
qed

lemma counter_ok:
  assumes ok: "sys_ok y" shows "sys_ok (y\<lparr>sy_pd := (sy_pd y)\<lparr>xpd_session_id_counter := n\<rparr>\<rparr>)"
proof -
  have "pause_ok ((sy_pd y)\<lparr>xpd_session_id_counter := n\<rparr>) (sy_pause y)"
    by (rule pause_ok_cong [OF sys_okD(6) [OF ok]]) (simp_all add: drained_def)
  from control_ok [OF ok _ _ _ this] show ?thesis by (simp add: same_lists_def)
qed

lemma create_ok:
  assumes ok: "sys_ok y" and r: "session_create env (sy_pd y) = Some (r, pd')" and c: "ce_ctx env \<noteq> None"
    and fs: "\<forall>s. ce_sess env = Some s \<longrightarrow> xpd_sessions (sy_pd y) s = None"
    and fc: "\<forall>c. ce_ctx env = Some c \<longrightarrow> xpd_contexts (sy_pd y) c = None"
  shows "sys_ok (y\<lparr>sy_pd := pd', sy_open := sy_open y \<union> set_option r\<rparr>)"
proof (cases "ce_sess env")
  case None
  then show ?thesis using r ok by (auto simp: session_create_def)
next
  case (Some s)
  let ?pd = "sy_pd y" let ?sid = "u32 (xpd_session_id_counter ?pd + 1)"
  note o = sys_okD [OF ok]
  have lk: "\<not> xpd_sessions_lock ?pd" using o(5) by (simp add: lists_ok_def)
  have fs': "xpd_sessions ?pd s = None" using fs Some by simp
  from c obtain cn where cn: "ce_ctx env = Some cn" by blast
  have fcn: "xpd_contexts ?pd cn = None" using fc cn by simp
  show ?thesis
  proof (cases "xpd_disabled_or_in_reset ?pd \<and> \<not> ce_reset_ends env")
    case True
    then have "pd' = ?pd\<lparr>xpd_session_id_counter := ?sid\<rparr>" "r = None"
      using r Some lk by (auto simp: session_create_def Let_def)
    then show ?thesis using counter_ok [OF ok] by simp
  next
    case False
    from r Some lk False obtain fnd where fnd: "find_ctx (xpd_contexts ?pd) (xpd_context_list ?pd) (ce_pid env) = Some fnd"
      by (auto simp: session_create_def Let_def split: bind_splits)
    show ?thesis
    proof (cases fnd)
      case n: None
      have pd': "r = Some s" "pd' = ?pd\<lparr>xpd_session_id_counter := ?sid, xpd_session_list := xpd_session_list ?pd @ [s],
          xpd_contexts := (xpd_contexts ?pd)(cn \<mapsto> \<lparr>cx_pid = ce_pid env, cx_sess_cnt = 1\<rparr>),
          xpd_context_list := xpd_context_list ?pd @ [cn],
          xpd_sessions := (xpd_sessions ?pd)(s \<mapsto> new_session ?sid cn)\<rparr>"
        using r Some lk False fnd n cn by (auto simp: session_create_def Let_def)
      have "cn \<notin> set (xpd_context_list ?pd)" "users (xpd_sessions ?pd) cn = {}"
        using o(5) fcn by (auto simp: lists_ok_def users_def)
      then show ?thesis
        using new_session_ok [OF ok fs', where pd' = pd' and sid = ?sid and c = cn
            and x = "\<lparr>cx_pid = ce_pid env, cx_sess_cnt = 1\<rparr>"] o(5) lk
        by (simp add: pd' lists_ok_def)
    next
      case (Some cf)
      from find_ctx_found [OF fnd [unfolded Some]] obtain x where x: "cf \<in> set (xpd_context_list ?pd)"
        "xpd_contexts ?pd cf = Some x" by blast
      have pd': "r = Some s" "pd' = ?pd\<lparr>xpd_session_id_counter := ?sid, xpd_session_list := xpd_session_list ?pd @ [s],
          xpd_contexts := (xpd_contexts ?pd)(cf \<mapsto> x\<lparr>cx_sess_cnt := cx_sess_cnt x + 1\<rparr>),
          xpd_sessions := (xpd_sessions ?pd)(s \<mapsto> new_session ?sid cf)\<rparr>"
        using r \<open>ce_sess env = Some s\<close> lk False fnd Some x by (auto simp: session_create_def Let_def)
      have "cx_sess_cnt x = int (card (users (xpd_sessions ?pd) cf))" "insert cf (set (xpd_context_list ?pd)) = set (xpd_context_list ?pd)"
        using o(5) x by (auto simp: lists_ok_def)
      then show ?thesis
        using new_session_ok [OF ok fs', where pd' = pd' and sid = ?sid and c = cf
            and x = "x\<lparr>cx_sess_cnt := cx_sess_cnt x + 1\<rparr>"] o(5) lk
        by (simp add: pd' lists_ok_def)
    qed
  qed
qed

section \<open>Clean-up\<close>

definition dead :: "(nat \<Rightarrow> xpu_session option) \<Rightarrow> nat \<Rightarrow> bool" where
  "dead sess s \<longleftrightarrow> (\<exists>x. sess s = Some x \<and> ss_state x = XSS_CLOSED \<and> ss_unfinished_cnt x = 0)"

text \<open>The sessions of \<open>A\<close> that use context \<open>c\<close>, and what the loop keeps true of the contexts.\<close>

definition users_in :: "(nat \<Rightarrow> xpu_session option) \<Rightarrow> nat set \<Rightarrow> nat \<Rightarrow> nat set" where
  "users_in sess A c = users sess c \<inter> A"

definition ctxs_ok :: "(nat \<Rightarrow> xpu_session option) \<Rightarrow> nat set \<Rightarrow> (nat \<Rightarrow> xpu_ctx option) \<Rightarrow> nat list \<Rightarrow> bool" where
  "ctxs_ok sess A ctxs clist \<longleftrightarrow>
     (\<forall>c x. ctxs c = Some x \<longrightarrow> cx_sess_cnt x = int (card (users_in sess A c))) \<and>
     distinct clist \<and> set clist = {c \<in> dom ctxs. users_in sess A c \<noteq> {}}"

lemma users_in_remove:
  "sess s = Some x \<Longrightarrow> users_in sess (A - {s}) c =
     (if c = ss_xctx x then users_in sess A c - {s} else users_in sess A c)"
  by (auto simp: users_in_def users_def)

lemma clean_loop_correct:
  assumes "ctxs_ok sess A ctxs clist" "finite A" "set ss \<subseteq> A" "distinct ss"
    and "\<forall>s\<in>A. \<exists>x. sess s = Some x \<and> ss_xctx x \<in> dom ctxs"
  shows "\<exists>ctxs1 clist1 cfree. clean_loop sess ss ctxs clist =
       Some (filter (\<lambda>s. \<not> dead sess s) ss, filter (dead sess) ss, ctxs1, clist1, cfree) \<and>
     ctxs_ok sess (A - set (filter (dead sess) ss)) ctxs1 clist1 \<and> dom ctxs1 = dom ctxs \<and>
     set cfree = set clist - set clist1 \<and> distinct cfree \<and>
     (\<forall>c x. ctxs1 c = Some x \<longrightarrow> (\<exists>x0. ctxs c = Some x0 \<and> cx_pid x = cx_pid x0))"
  using assms
proof (induction ss arbitrary: A ctxs clist)
  case Nil
  then show ?case by auto
next
  case (Cons s ss)
  have "s \<in> A" using Cons.prems(3) by simp
  with Cons.prems(5) obtain x where x: "sess s = Some x" "ss_xctx x \<in> dom ctxs" by blast
  have sub: "set ss \<subseteq> A" "distinct ss" and sA: "s \<in> A" "s \<notin> set ss" using Cons.prems(3,4) by auto
  show ?case
  proof (cases "dead sess s")
    case False
    then have live: "ss_state x \<noteq> XSS_CLOSED \<or> ss_unfinished_cnt x \<noteq> 0" using x by (auto simp: dead_def)
    from Cons.IH [OF Cons.prems(1,2) sub Cons.prems(5)] False live x(1) show ?thesis by auto
  next
    case True
    then have d: "\<not> (ss_state x \<noteq> XSS_CLOSED \<or> ss_unfinished_cnt x \<noteq> 0)" using x by (auto simp: dead_def)
    let ?c = "ss_xctx x"
    from x(2) obtain cx where cx: "ctxs ?c = Some cx" by blast
    let ?n = "cx_sess_cnt cx - 1"
    define ctxs' where "ctxs' = ctxs(?c \<mapsto> cx\<lparr>cx_sess_cnt := ?n\<rparr>)"
    define clist' where "clist' = (if ?n = 0 then filter (\<lambda>d. d \<noteq> ?c) clist else clist)"
    have su: "s \<in> users_in sess A ?c" using x sA by (auto simp: users_in_def users_def)
    have fin: "finite (users_in sess A ?c)" using Cons.prems(2) by (simp add: users_in_def)
    have "cx_sess_cnt cx = int (card (users_in sess A ?c))" using Cons.prems(1) cx by (simp add: ctxs_ok_def)
    also have "card (users_in sess A ?c) = Suc (card (users_in sess (A - {s}) ?c))"
      using card_Suc_Diff1 [OF fin su] users_in_remove [of sess s x A ?c] x(1) by simp
    finally have n: "?n = int (card (users_in sess (A - {s}) ?c))" by simp
    have "finite (users_in sess (A - {s}) ?c)" using Cons.prems(2) by (simp add: users_in_def)
    then have n0: "?n = 0 \<longleftrightarrow> users_in sess (A - {s}) ?c = {}" unfolding n by simp
    have ok': "ctxs_ok sess (A - {s}) ctxs' clist'"
      unfolding ctxs_ok_def
    proof (intro conjI allI impI)
      fix c z assume "ctxs' c = Some z"
      then show "cx_sess_cnt z = int (card (users_in sess (A - {s}) c))"
        using n Cons.prems(1) users_in_remove [of sess s x A c] x(1)
        by (auto simp: ctxs'_def ctxs_ok_def split: if_splits)
    next
      show "distinct clist'" using Cons.prems(1) by (simp add: clist'_def ctxs_ok_def)
      have cl: "set clist = {c \<in> dom ctxs. users_in sess A c \<noteq> {}}" using Cons.prems(1) by (simp add: ctxs_ok_def)
      have u: "users_in sess (A - {s}) c = {} \<longleftrightarrow> users_in sess A c = {} \<or> c = ?c \<and> ?n = 0" for c
        using users_in_remove [of sess s x A c] x(1) n0 su by (cases "c = ?c") auto
      have "dom ctxs' = dom ctxs" using cx by (auto simp: ctxs'_def)
      then show "set clist' = {c \<in> dom ctxs'. users_in sess (A - {s}) c \<noteq> {}}"
        unfolding u by (auto simp: clist'_def cl)
    qed
    have dom': "dom ctxs' = dom ctxs" using cx by (auto simp: ctxs'_def)
    have "\<forall>v\<in>A - {s}. \<exists>x. sess v = Some x \<and> ss_xctx x \<in> dom ctxs'" using Cons.prems(5) dom' by blast
    from Cons.IH [OF ok' _ _ sub(2) this] Cons.prems(2) sub sA obtain ctxs1 clist1 cfree where
      r: "clean_loop sess ss ctxs' clist' = Some (filter (\<lambda>s. \<not> dead sess s) ss, filter (dead sess) ss, ctxs1, clist1, cfree)"
      "ctxs_ok sess (A - {s} - set (filter (dead sess) ss)) ctxs1 clist1" "dom ctxs1 = dom ctxs'"
      "set cfree = set clist' - set clist1" "distinct cfree"
      "\<forall>c x. ctxs1 c = Some x \<longrightarrow> (\<exists>x0. ctxs' c = Some x0 \<and> cx_pid x = cx_pid x0)" by blast
    let ?cf = "(if ?n = 0 then [?c] else []) @ cfree"
    have "clean_loop sess (s # ss) ctxs clist =
        Some (filter (\<lambda>s. \<not> dead sess s) (s # ss), filter (dead sess) (s # ss), ctxs1, clist1, ?cf)"
      using x(1) cx d r(1) True by (simp add: ctxs'_def clist'_def Let_def)
    moreover have "A - {s} - set (filter (dead sess) ss) = A - set (filter (dead sess) (s # ss))" using True by auto
    moreover have "?c \<in> set clist" using Cons.prems(1) x(2) su by (auto simp: ctxs_ok_def)
    moreover have "set clist1 \<subseteq> set clist'"
      using r(2,3) ok' by (auto simp: ctxs_ok_def users_in_def)
    then have "set ?cf = set clist - set clist1" "distinct ?cf"
      using r(4,5) \<open>?c \<in> set clist\<close> by (auto simp: clist'_def)
    moreover have "\<forall>c x. ctxs1 c = Some x \<longrightarrow> (\<exists>x0. ctxs c = Some x0 \<and> cx_pid x = cx_pid x0)"
      using r(6) cx by (fastforce simp: ctxs'_def split: if_splits)
    ultimately show ?thesis using r(2,3) dom' by metis
  qed
qed

lemma clean_result:
  assumes l: "lists_ok pd"
  shows "\<exists>pd'. clean_sessions pd = Some (pd', filter (dead (xpd_sessions pd)) (xpd_session_list pd)) \<and>
     lists_ok pd' \<and> xpd_sessions pd' = (\<lambda>s. if dead (xpd_sessions pd) s then None else xpd_sessions pd s) \<and>
     xpd_xtqs pd' = xpd_xtqs pd \<and> xpd_state pd' = xpd_state pd \<and>
     xpd_pending_finish_flag pd' = xpd_pending_finish_flag pd \<and>
     dom (xpd_contexts pd') = {c \<in> dom (xpd_contexts pd). users (xpd_sessions pd') c \<noteq> {}}"
proof -
  let ?sess = "xpd_sessions pd" let ?L = "xpd_session_list pd"
  have uin: "users_in ?sess (set ?L) = users ?sess"
    using l by (fastforce simp: users_in_def users_def lists_ok_def)
  have "ctxs_ok ?sess (set ?L) (xpd_contexts pd) (xpd_context_list pd)"
    unfolding ctxs_ok_def uin using l by (auto simp: lists_ok_def)
  moreover have "\<forall>s\<in>set ?L. \<exists>x. ?sess s = Some x \<and> ss_xctx x \<in> dom (xpd_contexts pd)"
    using l by (fastforce simp: lists_ok_def)
  ultimately obtain ctxs1 clist1 cfree where r: "clean_loop ?sess ?L (xpd_contexts pd) (xpd_context_list pd) =
       Some (filter (\<lambda>s. \<not> dead ?sess s) ?L, filter (dead ?sess) ?L, ctxs1, clist1, cfree)"
     "ctxs_ok ?sess (set ?L - set (filter (dead ?sess) ?L)) ctxs1 clist1" "dom ctxs1 = dom (xpd_contexts pd)"
     "set cfree = set (xpd_context_list pd) - set clist1"
    using clean_loop_correct [of ?sess "set ?L" "xpd_contexts pd" "xpd_context_list pd" ?L] l
    by (auto simp: lists_ok_def)
  define sess' where "sess' = (\<lambda>s. if dead ?sess s then None else ?sess s)"
  have free: "(\<lambda>s. if s \<in> set (filter (dead ?sess) ?L) then None else ?sess s) = sess'"
    using l by (auto simp: sess'_def fun_eq_iff lists_ok_def)
  have uin': "users_in ?sess (set ?L - set (filter (dead ?sess) ?L)) c = users sess' c" for c
  proof -
    have "set ?L = dom ?sess" using l by (simp add: lists_ok_def)
    then show ?thesis by (fastforce simp: users_in_def users_def sess'_def split: if_splits)
  qed
  define ctxs' where "ctxs' = (\<lambda>c. if c \<in> set cfree then None else ctxs1 c)"
  note r2 = r(2) [unfolded ctxs_ok_def uin']
  have clist: "set clist1 = {c \<in> dom (xpd_contexts pd). users sess' c \<noteq> {}}" "distinct clist1"
    using r2 r(3) by simp_all
  have ctxs': "dom ctxs' = set clist1"
  proof -
    have "dom ctxs' = dom ctxs1 - set cfree" by (auto simp: ctxs'_def split: if_splits)
    also have "\<dots> = set clist1" unfolding r(3,4) clist(1) using l by (auto simp: lists_ok_def)
    finally show ?thesis .
  qed
  let ?pd' = "pd\<lparr>xpd_session_list := filter (\<lambda>s. \<not> dead ?sess s) ?L, xpd_context_list := clist1,
      xpd_sessions := sess', xpd_contexts := ctxs'\<rparr>"
  have c: "clean_sessions pd = Some (?pd', filter (dead ?sess) ?L)"
    using l r(1) free by (simp add: clean_sessions_def lists_ok_def ctxs'_def)
  have "lists_ok ?pd'"
    unfolding lists_ok_def
  proof (intro conjI allI impI)
    show "\<not> xpd_sessions_lock ?pd'" "distinct (xpd_session_list ?pd')" using l by (auto simp: lists_ok_def)
    show "set (xpd_session_list ?pd') = dom (xpd_sessions ?pd')"
      using l by (auto simp: lists_ok_def sess'_def split: if_splits)
    show "distinct (xpd_context_list ?pd')" "set (xpd_context_list ?pd') = dom (xpd_contexts ?pd')"
      using clist ctxs' by simp_all
    show "ss_xctx x \<in> dom (xpd_contexts ?pd')" if "xpd_sessions ?pd' s = Some x" for s x
    proof -
      from that have "s \<in> users sess' (ss_xctx x)" "?sess s = Some x"
        by (auto simp: users_def sess'_def split: if_splits)
      with l clist(1) ctxs' show ?thesis by (fastforce simp: lists_ok_def)
    qed
    fix c z assume z: "xpd_contexts ?pd' c = Some z"
    then have "ctxs1 c = Some z" by (simp add: ctxs'_def split: if_splits)
    with r2 show "cx_sess_cnt z = int (card (users (xpd_sessions ?pd') c))" by simp
    from z have "c \<in> dom ctxs'" by (simp add: domI)
    then show "users (xpd_sessions ?pd') c \<noteq> {}" unfolding ctxs' clist(1) by simp
  qed
  with c ctxs' clist(1) show ?thesis by (simp add: sess'_def)
qed

text \<open>A session that goes away has no task in any queue.\<close>

lemma dead_no_tasks:
  assumes ok: "sys_ok y" and d: "dead (xpd_sessions (sy_pd y)) s"
  shows "tasks_of (sy_pd y) s = 0" "s \<notin> sy_open y"
proof -
  note o = sys_okD [OF ok]
  from d obtain x where x: "xpd_sessions (sy_pd y) s = Some x" "ss_state x = XSS_CLOSED" "ss_unfinished_cnt x = 0"
    by (auto simp: dead_def)
  then show "s \<notin> sy_open y" using o(4) by (auto simp: open_ok_def)
  then have "uncounted (sy_launch y) s = 0" using o(4) by (intro uncounted_none) (auto simp: open_ok_def)
  moreover from o(3) x(1) have "ss_unfinished_cnt x + int (uncounted (sy_launch y) s) = int (tasks_of (sy_pd y) s)"
    by (simp add: counts_ok_def)
  ultimately show "tasks_of (sy_pd y) s = 0" using x(3) by simp
qed

lemma tasks_of_pos:
  assumes "q \<in> set (xpd_xtqs pd)" "t \<in> set (tq_tasks q)" "xt_xsess t = Some s"
  shows "tasks_of pd s \<noteq> 0"
proof -
  have "count_for s (tq_tasks q) \<noteq> 0" using assms(2,3) by (auto simp: count_for_def filter_empty_conv)
  with assms(1) show ?thesis by (auto simp: tasks_of_def sum_list_eq_0_iff)
qed

lemma clean_ok:
  assumes ok: "sys_ok y" and r: "clean_sessions (sy_pd y) = Some (pd', freed)"
  shows "sys_ok (y\<lparr>sy_pd := pd'\<rparr>)"
proof -
  let ?pd = "sy_pd y"
  note o = sys_okD [OF ok]
  from clean_result [OF o(5)] r have c: "lists_ok pd'" "xpd_sessions pd' = (\<lambda>s. if dead (xpd_sessions ?pd) s then None else xpd_sessions ?pd s)"
     "xpd_xtqs pd' = xpd_xtqs ?pd" "xpd_state pd' = xpd_state ?pd"
     "xpd_pending_finish_flag pd' = xpd_pending_finish_flag ?pd" by auto
  have "owners_ok pd'"
    unfolding owners_ok_def c(3)
  proof (intro ballI)
    fix q t assume q: "q \<in> set (xpd_xtqs ?pd)" "t \<in> set (tq_tasks q)"
    with o(2) obtain s where s: "xt_xsess t = Some s" "xpd_sessions ?pd s \<noteq> None" unfolding owners_ok_def by blast
    from tasks_of_pos [OF q s(1)] dead_no_tasks(1) [OF ok, of s] have "\<not> dead (xpd_sessions ?pd) s" by auto
    with s show "\<exists>s. xt_xsess t = Some s \<and> xpd_sessions pd' s \<noteq> None" by (simp add: c(2))
  qed
  moreover have "counts_ok pd' (sy_launch y)"
    using o(3) by (simp add: counts_ok_def c(2) tasks_of_cong [OF c(3)])
  moreover have "queues_ok pd'" using o(1) by (simp add: queues_ok_def c(3))
  moreover have "open_ok pd' (sy_launch y) (sy_open y)"
    using o(4) dead_no_tasks(2) [OF ok] by (auto simp: open_ok_def c(2))
  moreover have "pause_ok pd' (sy_pause y)"
    by (rule pause_ok_cong [OF o(6)]) (simp_all add: c drained_def)
  ultimately show ?thesis using c(1) by (simp add: sys_ok_def)
qed

section \<open>Every reachable state\<close>

lemma kl1_step_ok: "kl1_step y z \<Longrightarrow> sys_ok y \<Longrightarrow> sys_ok z"
proof (induction rule: kl1_step.induct)
  case (exc y ok pd')
  then show ?case using exc_ok [OF exc(3), of ok] by auto
next
  case (sse_exc y pd')
  then show ?case using sse_exc_ok [OF sse_exc(3)] by auto
next
  case (timeout s y mem pd')
  then obtain x i where "xpd_sessions (sy_pd y) s = Some x" "ss_xtq x = Some i"
    by (auto simp: wait_timed_out_def split: bind_splits)
  then show ?case using timeout_ok [OF timeout(3), of s x i mem] timeout(2) by auto
qed (blast intro: create_ok bind_ok bindtq_ok add_ok count_ok dispatch_ok finish_ok pause_begin_ok
  pause_clear_ok pause_scan_ok pause_end_ok resume_ok warning_ok close_ok clean_ok)+

lemma kl1_reachable_ok: "kl1_reachable y \<Longrightarrow> sys_ok y"
  by (induction rule: kl1_reachable.induct) (blast intro: sys_init_ok kl1_step_ok)+

end
