(* ===== verification/Kl1_Sched_Claims.thy ===== *)
theory Kl1_Sched_Claims
  imports Kl1_Sched_Props Kl1_Tq_Claims
begin

text \<open>
  What the invariant of a KL1 power domain means for its users: exact accounting and no use of a
  freed session, safe clean-up, a sound and complete pause, fail-stop after an exception; and the
  two paths on which the code breaks its own rules.
\<close>

section \<open>A run used by the witnesses\<close>

definition ex_env :: create_env where
  "ex_env = \<lparr>ce_sess = Some 1, ce_ctx = Some 2, ce_pid = 7, ce_reset_ends = True\<rparr>"

text \<open>One session, bound to queue 5, with two tasks added, counted and issued.\<close>

definition ex_sess :: "int \<Rightarrow> nat option \<Rightarrow> xpu_session" where
  "ex_sess n q = \<lparr>ss_id = 101, ss_state = XSS_NORMAL, ss_errno = None, ss_unfinished_cnt = n, ss_xtq = q,
     ss_binding_fixed = False, ss_xctx = 2\<rparr>"

definition ex_domain :: "xpu_tq \<Rightarrow> int \<Rightarrow> nat option \<Rightarrow> xpu_pd" where
  "ex_domain q5 n q = \<lparr>xpd_state = XPDS_RUNNING, xpd_errno = None,
      xpd_xtqs = (map xtq_init [0..<KL1_TQS])[5 := q5], xpd_pending_finish_flag = 0,
      xpd_disabled_or_in_reset = False, xpd_cu_error_tokens = [], xpd_need_clean_etasks = False, xpd_etasks = [],
      xpd_sessions = [1 \<mapsto> ex_sess n q], xpd_session_list = [1],
      xpd_contexts = [2 \<mapsto> \<lparr>cx_pid = 7, cx_sess_cnt = 1\<rparr>], xpd_context_list = [2],
      xpd_sessions_lock = False, xpd_session_id_counter = 101\<rparr>"

definition ex_q :: "xpu_tq" where
  "ex_q = (xtq_init 5)\<lparr>tq_tasks := [(ex_task 1 1)\<lparr>xt_xtq_id := 5\<rparr>, (ex_task 2 1)\<lparr>xt_xtq_id := 5\<rparr>], tq_cnt_all := 2\<rparr>"

definition ex_sys :: "xpu_tq \<Rightarrow> int \<Rightarrow> nat option \<Rightarrow> (nat \<times> nat) list \<Rightarrow> sys" where
  "ex_sys q5 n q L = \<lparr>sy_pd = ex_domain q5 n q, sy_pause = PauseIdle, sy_launch = L, sy_open = {1}\<rparr>"

lemma ex_tqs: "map xtq_init [0..<KL1_TQS] = [xtq_init 0, xtq_init 1, xtq_init 2, xtq_init 3, xtq_init 4,
    xtq_init 5, xtq_init 6, xtq_init 7]"
  by (simp add: KL1_TQS_def upt_rec eval_nat_numeral)

lemma ex_created: "kl1_reachable (ex_sys (xtq_init 5) 0 None [])"
proof -
  have "session_create ex_env (sy_pd sys_init) = Some (Some 1, ex_domain (xtq_init 5) 0 None)"
    by (simp add: session_create_def ex_env_def sys_init_def ex_domain_def new_session_def ex_sess_def u32_def ex_tqs)
  then have "kl1_step sys_init (sys_init\<lparr>sy_pd := ex_domain (xtq_init 5) 0 None, sy_open := sy_open sys_init \<union> set_option (Some 1)\<rparr>)"
    by (rule kl1_step.create) (simp_all add: ex_env_def sys_init_def)
  then have "kl1_step sys_init (ex_sys (xtq_init 5) 0 None [])"
    by (simp add: ex_sys_def sys_init_def)
  then show ?thesis by (rule kl1_reachable.step [OF kl1_reachable.init])
qed

lemma ex_bound: "kl1_reachable (ex_sys (xtq_init 5) 0 (Some 5) [])"
proof -
  let ?y = "ex_sys (xtq_init 5) 0 None []"
  have "xpu_sched_bind_sess (sy_pd ?y) 1 = Some (ex_domain (xtq_init 5) 0 (Some 5))"
    by (simp add: xpu_sched_bind_sess_def ex_sys_def ex_domain_def ex_sess_def KL1_TQS_def)
  then have "kl1_step ?y (?y\<lparr>sy_pd := ex_domain (xtq_init 5) 0 (Some 5)\<rparr>)"
    by (intro kl1_step.bind) (simp_all add: ex_sys_def)
  from kl1_reachable.step [OF ex_created this] show ?thesis by (simp add: ex_sys_def)
qed

lemma ex_launched: "kl1_reachable (ex_sys ex_q 0 (Some 5) [(1, 2)])"
proof -
  let ?y = "ex_sys (xtq_init 5) 0 (Some 5) []" let ?ts = "[ex_task 1 1, ex_task 2 1]"
  have l: "launch_add (sy_pd ?y) 1 ?ts = Some (None, ex_domain ex_q 0 (Some 5))"
    by (simp add: launch_add_def ex_sys_def ex_domain_def ex_sess_def xtq_add_tasks_locked_def ex_tqs
        xtq_init_def ex_q_def u32_def)
  have "kl1_step ?y (?y\<lparr>sy_pd := ex_domain ex_q 0 (Some 5), sy_launch := (1, length ?ts) # sy_launch ?y\<rparr>)"
    by (rule kl1_step.add [where i = 5 and x = "ex_sess 0 (Some 5)", OF _ _ _ l])
      (simp_all add: ex_sys_def ex_domain_def ex_sess_def ex_task_def ex_tqs)
  from kl1_reachable.step [OF ex_bound this] show ?thesis by (simp add: ex_sys_def numeral_2_eq_2)
qed

lemma ex_counted: "kl1_reachable (ex_sys ex_q 2 (Some 5) [])"
proof -
  let ?y = "ex_sys ex_q 0 (Some 5) [(1, 2)]"
  have "launch_count (sy_pd ?y) 1 2 = Some (ex_domain ex_q 2 (Some 5))"
    by (simp add: launch_count_def ex_sys_def ex_domain_def ex_sess_def)
  then have "kl1_step ?y (?y\<lparr>sy_pd := ex_domain ex_q 2 (Some 5), sy_launch := remove1 (1, 2) (sy_launch ?y)\<rparr>)"
    by (intro kl1_step.count) (simp_all add: ex_sys_def)
  from kl1_reachable.step [OF ex_launched this] show ?thesis by (simp add: ex_sys_def)
qed

definition ex_running :: xpu_tq where
  "ex_running = fst (dispatch_loop ex_q)"

lemma ex_running_eq: "ex_running = ex_q\<lparr>tq_tasks := map running (tq_tasks ex_q), tq_cnt_running := 2,
    tq_last_running := Some 2, tq_task_issued := 2\<rparr>"
  by (simp add: ex_running_def ex_q_def ex_task_def xtq_init_def dispatch_loop.simps next_index_def
      KL1_SSE_TQ_CAPACITY_def Let_def upt_rec u64_def)

lemma ex_dispatched: "kl1_reachable (ex_sys ex_running 2 (Some 5) [])"
proof -
  let ?y = "ex_sys ex_q 2 (Some 5) []"
  obtain iss where "dispatch_loop ex_q = (ex_running, iss)" unfolding ex_running_def by (metis prod.collapse)
  then have "tasklet_xtq_dispatch (sy_pd ?y) 5 = (ex_domain ex_running 2 (Some 5), iss)"
    by (simp add: tasklet_xtq_dispatch_def ex_sys_def ex_domain_def ex_tqs ex_q_def xtq_init_def
        KL1_SSE_TQ_CAPACITY_def)
  then have "kl1_step ?y (?y\<lparr>sy_pd := ex_domain ex_running 2 (Some 5)\<rparr>)"
    by (intro kl1_step.dispatch [where i = 5]) (simp_all add: KL1_TQS_def)
  from kl1_reachable.step [OF ex_counted this] show ?thesis by (simp add: ex_sys_def)
qed

section \<open>Accounting\<close>

text \<open>
  C6: In every reachable state of a power domain, under any interleaving of launches, dispatches,
  interrupts, pauses and clean-ups, the unfinished count of a live session, plus the tasks of its
  launches that have not been counted yet, is exactly the number of its tasks on all queues; every
  queue counts its list, runs at most what the hardware holds, and what runs is a prefix of the
  list in running state.
\<close>

theorem kl1_accounting:
  assumes "kl1_reachable y" "xpd_sessions (sy_pd y) s = Some x"
  shows "ss_unfinished_cnt x + int (uncounted (sy_launch y) s) = int (tasks_of (sy_pd y) s) \<and>
    (\<forall>q\<in>set (xpd_xtqs (sy_pd y)). tq_cnt_all q = length (tq_tasks q) \<and>
       tq_cnt_running q \<le> tq_cnt_all q \<and> tq_cnt_running q \<le> tq_capacity q \<and>
       (\<forall>t\<in>set (take (tq_cnt_running q) (tq_tasks q)). xt_state t = XTS_RUNNING))"
proof -
  note o = sys_okD [OF kl1_reachable_ok [OF assms(1)]]
  have "tq_wf q" if "q \<in> set (xpd_xtqs (sy_pd y))" for q
    using o(1) that by (auto simp: queues_ok_def in_set_conv_nth)
  then have "\<forall>q\<in>set (xpd_xtqs (sy_pd y)). tq_cnt_all q = length (tq_tasks q) \<and>
       tq_cnt_running q \<le> tq_cnt_all q \<and> tq_cnt_running q \<le> tq_capacity q \<and>
       (\<forall>t\<in>set (take (tq_cnt_running q) (tq_tasks q)). xt_state t = XTS_RUNNING)"
    using tq_wfD(2,4,5,7) by (fastforce simp: in_set_conv_nth)
  moreover from o(3) assms(2) have "ss_unfinished_cnt x + int (uncounted (sy_launch y) s) = int (tasks_of (sy_pd y) s)"
    by (simp add: counts_ok_def)
  ultimately show ?thesis by blast
qed

lemma kl1_accounting_witness:
  "(2 :: int) + int (uncounted [] 1) = int (tasks_of (ex_domain ex_running 2 (Some 5)) 1)"
proof -
  have "xpd_sessions (sy_pd (ex_sys ex_running 2 (Some 5) [])) 1 = Some (ex_sess 2 (Some 5))"
    by (simp add: ex_sys_def ex_domain_def)
  from kl1_accounting [OF ex_dispatched this] show ?thesis by (simp add: ex_sys_def ex_sess_def)
qed



section \<open>Clean-up\<close>

text \<open>
  C8: In every reachable state the timer's clean-up frees exactly the sessions whose file was
  closed and that have no task on any queue; no queued task refers to a freed session, the sessions
  of open files stay as they are, and a context goes away exactly with its last session.
\<close>

theorem kl1_clean_safe:
  assumes "kl1_reachable y" "clean_sessions (sy_pd y) = Some (pd', freed)"
  shows "set freed = {s. \<exists>x. xpd_sessions (sy_pd y) s = Some x \<and> ss_state x = XSS_CLOSED \<and>
       tasks_of (sy_pd y) s = 0} \<and>
    (\<forall>q\<in>set (xpd_xtqs pd'). \<forall>t\<in>set (tq_tasks q). \<exists>s. xt_xsess t = Some s \<and> s \<notin> set freed \<and>
       xpd_sessions pd' s \<noteq> None) \<and>
    (\<forall>s\<in>sy_open y. xpd_sessions pd' s = xpd_sessions (sy_pd y) s) \<and>
    (\<forall>c. xpd_contexts pd' c \<noteq> None \<longleftrightarrow> (\<exists>s x. xpd_sessions pd' s = Some x \<and> ss_xctx x = c))"
proof -
  let ?pd = "sy_pd y"
  note ok = kl1_reachable_ok [OF assms(1)]
  note o = sys_okD [OF ok]
  from clean_result [OF o(5)] assms(2) have r: "freed = filter (dead (xpd_sessions ?pd)) (xpd_session_list ?pd)"
    "xpd_sessions pd' = (\<lambda>s. if dead (xpd_sessions ?pd) s then None else xpd_sessions ?pd s)"
    "dom (xpd_contexts pd') = {c \<in> dom (xpd_contexts ?pd). users (xpd_sessions pd') c \<noteq> {}}" by auto
  have "set (xpd_session_list ?pd) = dom (xpd_sessions ?pd)" using o(5) by (simp add: lists_ok_def)
  then have fd: "set freed = {s. dead (xpd_sessions ?pd) s}" by (auto simp: r(1) dead_def)
  have "dead (xpd_sessions ?pd) s" if x: "xpd_sessions ?pd s = Some x" "ss_state x = XSS_CLOSED" "tasks_of ?pd s = 0" for s x
  proof -
    have "ss_unfinished_cnt x + int (uncounted (sy_launch y) s) = int (tasks_of ?pd s)"
      using o(3) x(1) by (simp add: counts_ok_def)
    moreover have "s \<notin> sy_open y" using o(4) x by (auto simp: open_ok_def)
    then have "uncounted (sy_launch y) s = 0" using o(4) by (intro uncounted_none) (auto simp: open_ok_def)
    ultimately show ?thesis using x by (auto simp: dead_def)
  qed
  with dead_no_tasks(1) [OF ok] have 1: "set freed = {s. \<exists>x. xpd_sessions ?pd s = Some x \<and>
      ss_state x = XSS_CLOSED \<and> tasks_of ?pd s = 0}" unfolding fd by (auto simp: dead_def)
  have "owners_ok pd'" using sys_okD(2) [OF clean_ok [OF ok assms(2)]] by simp
  then have 2: "\<forall>q\<in>set (xpd_xtqs pd'). \<forall>t\<in>set (tq_tasks q). \<exists>s. xt_xsess t = Some s \<and> s \<notin> set freed \<and>
       xpd_sessions pd' s \<noteq> None"
    unfolding owners_ok_def fd r(2) by (metis mem_Collect_eq)
  have 3: "\<forall>s\<in>sy_open y. xpd_sessions pd' s = xpd_sessions ?pd s"
    using dead_no_tasks(2) [OF ok] by (auto simp: r(2))
  have "xpd_contexts ?pd (ss_xctx x) \<noteq> None" if "xpd_sessions pd' s = Some x" for s x
    using o(5) that by (auto simp: r(2) lists_ok_def split: if_splits)
  with r(3) have 4: "xpd_contexts pd' c \<noteq> None \<longleftrightarrow> (\<exists>s x. xpd_sessions pd' s = Some x \<and> ss_xctx x = c)" for c
    by (auto simp: users_def dom_def) blast+
  show ?thesis using 1 2 3 4 by blast
qed

lemma ex_closed: "kl1_reachable ((ex_sys (xtq_init 5) 0 None [])\<lparr>
    sy_pd := (ex_domain (xtq_init 5) 0 None)\<lparr>xpd_sessions := [1 \<mapsto> (ex_sess 0 None)\<lparr>ss_state := XSS_CLOSED\<rparr>]\<rparr>, sy_open := {}\<rparr>)"
proof -
  let ?y = "ex_sys (xtq_init 5) 0 None []"
  let ?pd = "(ex_domain (xtq_init 5) 0 None)\<lparr>xpd_sessions := [1 \<mapsto> (ex_sess 0 None)\<lparr>ss_state := XSS_CLOSED\<rparr>]\<rparr>"
  have "session_destroy (sy_pd ?y) (Some 1) = Some ?pd"
    by (simp add: session_destroy_def ex_sys_def ex_domain_def)
  then have "kl1_step ?y (?y\<lparr>sy_pd := ?pd, sy_open := sy_open ?y - {1}\<rparr>)"
    by (rule kl1_step.close [rotated 2]) (simp_all add: ex_sys_def)
  from kl1_reachable.step [OF ex_created this] show ?thesis by (simp add: ex_sys_def)
qed

lemma kl1_clean_safe_witness:
  "\<exists>pd' freed. clean_sessions ((ex_domain (xtq_init 5) 0 None)\<lparr>xpd_sessions :=
      [1 \<mapsto> (ex_sess 0 None)\<lparr>ss_state := XSS_CLOSED\<rparr>]\<rparr>) = Some (pd', freed) \<and> set freed = {1}"
proof -
  let ?pd = "(ex_domain (xtq_init 5) 0 None)\<lparr>xpd_sessions := [1 \<mapsto> (ex_sess 0 None)\<lparr>ss_state := XSS_CLOSED\<rparr>]\<rparr>"
  let ?y = "(ex_sys (xtq_init 5) 0 None [])\<lparr>sy_pd := ?pd, sy_open := {}\<rparr>"
  have "clean_sessions ?pd = Some (fst (the (clean_sessions ?pd)), [1])"
    by (simp add: clean_sessions_def ex_domain_def ex_sess_def)
  then obtain pd' where c: "clean_sessions ?pd = Some (pd', [1])" by blast
  then have "clean_sessions (sy_pd ?y) = Some (pd', [1])" by simp
  from kl1_clean_safe [OF ex_closed this] have "set [1] = {s. \<exists>x. xpd_sessions (sy_pd ?y) s = Some x \<and>
      ss_state x = XSS_CLOSED \<and> tasks_of (sy_pd ?y) s = 0}" by blast
  with c show ?thesis by auto
qed

section \<open>Pausing\<close>

text \<open>
  C9: The domain is in the paused state only when no queue runs a task, in every interleaving of
  the pause handler with launches and dispatches. While it is pausing and the handler is done, the
  mask is exactly the set of the drained queues and some queue still runs, so the last completion
  is yet to come; and in neither state does a dispatch issue anything.
\<close>

theorem kl1_pause_sound:
  assumes "kl1_reachable y"
  shows "(xpd_state (sy_pd y) = XPDS_PAUSED \<longrightarrow> (\<forall>q\<in>set (xpd_xtqs (sy_pd y)). tq_cnt_running q = 0)) \<and>
    (xpd_state (sy_pd y) = XPDS_PAUSING \<longrightarrow> sy_pause y = PauseIdle \<longrightarrow>
       (\<forall>i < KL1_TQS. bit (xpd_pending_finish_flag (sy_pd y)) i \<longleftrightarrow> tq_cnt_running (xpd_xtqs (sy_pd y) ! i) = 0) \<and>
       (\<exists>q\<in>set (xpd_xtqs (sy_pd y)). tq_cnt_running q \<noteq> 0)) \<and>
    (xpd_state (sy_pd y) \<in> {XPDS_PAUSING, XPDS_PAUSED} \<longrightarrow>
       (\<forall>i. tasklet_xtq_dispatch (sy_pd y) i = (sy_pd y, [])))"
proof -
  note o = sys_okD [OF kl1_reachable_ok [OF assms]]
  have len: "length (xpd_xtqs (sy_pd y)) = KL1_TQS" using o(1) by (simp add: queues_ok_def)
  have "\<forall>i. tasklet_xtq_dispatch (sy_pd y) i = (sy_pd y, [])"
    if "xpd_state (sy_pd y) \<in> {XPDS_PAUSING, XPDS_PAUSED}"
    using that by (auto simp: tasklet_xtq_dispatch_def Let_def)
  moreover have "\<forall>q\<in>set (xpd_xtqs (sy_pd y)). tq_cnt_running q = 0" if "xpd_state (sy_pd y) = XPDS_PAUSED"
    using o(6) that len by (auto simp: pause_ok_def drained_def in_set_conv_nth)
  moreover have "(\<forall>i < KL1_TQS. bit (xpd_pending_finish_flag (sy_pd y)) i \<longleftrightarrow> tq_cnt_running (xpd_xtqs (sy_pd y) ! i) = 0) \<and>
       (\<exists>q\<in>set (xpd_xtqs (sy_pd y)). tq_cnt_running q \<noteq> 0)"
    if "xpd_state (sy_pd y) = XPDS_PAUSING" "sy_pause y = PauseIdle"
    using o(6) that len by (auto simp: pause_ok_def drained_def)
  ultimately show ?thesis by blast
qed

text \<open>The completions still owed by the hardware, queue by queue.\<close>

fun drain_queues :: "xpu_pd \<Rightarrow> nat list \<Rightarrow> xpu_pd option" where
  "drain_queues pd [] = Some pd"
| "drain_queues pd (i # is) = do {
     (pd1, fins) \<leftarrow> finish_locked pd i (tq_cnt_running (xpd_xtqs pd ! i));
     drain_queues pd1 is
   }"

lemma finish_drains:
  assumes ok: "sys_ok y" and pc: "sy_pause y = PauseIdle" and i: "i < KL1_TQS"
    and st: "xpd_state (sy_pd y) \<in> {XPDS_PAUSING, XPDS_PAUSED}" "\<not> xpd_disabled_or_in_reset (sy_pd y)"
  shows "\<exists>pd' fins. finish_locked (sy_pd y) i (tq_cnt_running (xpd_xtqs (sy_pd y) ! i)) = Some (pd', fins) \<and>
    sys_ok (y\<lparr>sy_pd := pd'\<rparr>) \<and> xpd_state pd' \<in> {XPDS_PAUSING, XPDS_PAUSED} \<and> \<not> xpd_disabled_or_in_reset pd' \<and>
    (\<forall>j. drained pd' j \<longleftrightarrow> j = i \<or> drained (sy_pd y) j)"
proof -
  let ?pd = "sy_pd y" let ?c = "tq_cnt_running (xpd_xtqs ?pd ! i)"
  note o = sys_okD [OF ok]
  have len: "i < length (xpd_xtqs ?pd)" using o(1) i by (simp add: queues_ok_def)
  from o(1,2) i order_refl show ?thesis
  proof (cases rule: finish_locked_cases)
    case (skip q)
    have "?c = 0" using skip(3) st(2) by blast
    with finish_ok [OF ok pc i order_refl skip(1)] skip(1,2) st len show ?thesis
      by (auto simp: drained_def nth_list_update)
  next
    case (run q pd2)
    from finish_ok [OF ok pc i order_refl run(7)] run(5,6,7) st len show ?thesis
      by (auto simp: drained_def nth_list_update Let_def xpd_state_to_paused_def)
  qed
qed

lemma drain_all:
  assumes "sys_ok y" "sy_pause y = PauseIdle" "set is \<subseteq> {..<KL1_TQS}"
    and "xpd_state (sy_pd y) \<in> {XPDS_PAUSING, XPDS_PAUSED}" "\<not> xpd_disabled_or_in_reset (sy_pd y)"
  shows "\<exists>pd'. drain_queues (sy_pd y) is = Some pd' \<and> sys_ok (y\<lparr>sy_pd := pd'\<rparr>) \<and>
    xpd_state pd' \<in> {XPDS_PAUSING, XPDS_PAUSED} \<and> (\<forall>j. drained pd' j \<longleftrightarrow> j \<in> set is \<or> drained (sy_pd y) j)"
  using assms
proof (induction "is" arbitrary: y)
  case Nil
  then show ?case by simp
next
  case (Cons i "is")
  from finish_drains [OF Cons.prems(1,2) _ Cons.prems(4,5), of i] Cons.prems(3) obtain pd1 fins where
    1: "finish_locked (sy_pd y) i (tq_cnt_running (xpd_xtqs (sy_pd y) ! i)) = Some (pd1, fins)"
    "sys_ok (y\<lparr>sy_pd := pd1\<rparr>)" "xpd_state pd1 \<in> {XPDS_PAUSING, XPDS_PAUSED}" "\<not> xpd_disabled_or_in_reset pd1"
    "\<forall>j. drained pd1 j \<longleftrightarrow> j = i \<or> drained (sy_pd y) j" by auto
  from Cons.IH [of "y\<lparr>sy_pd := pd1\<rparr>"] 1 Cons.prems(2,3) obtain pd' where
    "drain_queues pd1 is = Some pd'" "sys_ok (y\<lparr>sy_pd := pd'\<rparr>)" "xpd_state pd' \<in> {XPDS_PAUSING, XPDS_PAUSED}"
    "\<forall>j. drained pd' j \<longleftrightarrow> j \<in> set is \<or> drained pd1 j" by auto
  with 1 show ?case by auto
qed

text \<open>
  C10: A pause completes. From every reachable pausing state in which the handler is done and the
  domain is not in reset, once the hardware has reported the tasks that were running, queue by
  queue, the domain is in the paused state.
\<close>

theorem kl1_pause_completes:
  assumes "kl1_reachable y" "xpd_state (sy_pd y) = XPDS_PAUSING" "sy_pause y = PauseIdle"
    and "\<not> xpd_disabled_or_in_reset (sy_pd y)"
  shows "\<exists>pd'. drain_queues (sy_pd y) [0..<KL1_TQS] = Some pd' \<and> xpd_state pd' = XPDS_PAUSED"
proof -
  have "set [0..<KL1_TQS] \<subseteq> {..<KL1_TQS}" by auto
  from drain_all [OF kl1_reachable_ok [OF assms(1)] assms(3) this _ assms(4)] assms(2) obtain pd' where
    d: "drain_queues (sy_pd y) [0..<KL1_TQS] = Some pd'" "sys_ok (y\<lparr>sy_pd := pd'\<rparr>)"
      "xpd_state pd' \<in> {XPDS_PAUSING, XPDS_PAUSED}" "\<forall>j < KL1_TQS. drained pd' j" by auto
  have "pause_ok pd' PauseIdle" using sys_okD(6) [OF d(2)] assms(3) by simp
  with d(3,4) have "xpd_state pd' = XPDS_PAUSED" by (auto simp: pause_ok_def)
  with d(1) show ?thesis by blast
qed

definition ex_pause :: "pause_pc \<Rightarrow> 32 word \<Rightarrow> sys" where
  "ex_pause pc f = (ex_sys ex_running 2 (Some 5) [])\<lparr>
     sy_pd := (ex_domain ex_running 2 (Some 5))\<lparr>xpd_state := XPDS_PAUSING, xpd_pending_finish_flag := f\<rparr>,
     sy_pause := pc\<rparr>"

lemma ex_pause_begin: "kl1_reachable (ex_pause (PauseScan 0) 0)"
proof -
  let ?y = "ex_sys ex_running 2 (Some 5) []"
  have "pause_begin (sy_pd ?y) = Some (sy_pd (ex_pause PauseClear 0))"
    by (simp add: pause_begin_def ex_sys_def ex_pause_def ex_domain_def xpd_state_to_pausing_def)
  from kl1_step.pause_begin [OF _ this] have "kl1_step ?y (ex_pause PauseClear 0)"
    by (simp add: ex_sys_def ex_pause_def)
  moreover have "kl1_step (ex_pause PauseClear 0) (ex_pause (PauseScan 0) 0)"
    using kl1_step.pause_clear [of "ex_pause PauseClear 0"] by (simp add: ex_pause_def pause_clear_def ex_domain_def)
  ultimately show ?thesis using ex_dispatched kl1_reachable.step by blast
qed

lemma ex_pause_scan:
  assumes "kl1_reachable (ex_pause (PauseScan i) f)" "i < KL1_TQS"
  shows "kl1_reachable (ex_pause (PauseScan (Suc i)) (if i = 5 then f else or f (push_bit i 1)))"
proof -
  have q: "tq_cnt_running (xpd_xtqs (ex_domain ex_running 2 (Some 5)) ! i) = (if i = 5 then 2 else 0)"
    "tq_id (xpd_xtqs (ex_domain ex_running 2 (Some 5)) ! i) = i"
    using assms(2) by (cases "i = 5"; simp add: ex_domain_def nth_update_if ex_running_eq ex_q_def)+
  have s: "sy_pause (ex_pause (PauseScan i) f) = PauseScan i" by (simp add: ex_pause_def)
  have "kl1_step (ex_pause (PauseScan i) f) (ex_pause (PauseScan (Suc i)) (if i = 5 then f else or f (push_bit i 1)))"
    using kl1_step.pause_scan [OF s assms(2)] by (auto simp: ex_pause_def pause_scan_def q split: if_splits)
  then show ?thesis using assms(1) kl1_reachable.step by blast
qed

lemma ex_paused_idle: "\<exists>f. kl1_reachable (ex_pause PauseIdle f)"
proof -
  have "\<exists>f. kl1_reachable (ex_pause (PauseScan n) f)" if "n \<le> KL1_TQS" for n
    using that
  proof (induction n)
    case 0
    then show ?case using ex_pause_begin by blast
  next
    case (Suc n)
    then show ?case using ex_pause_scan [of n] by fastforce
  qed
  then obtain f where f: "kl1_reachable (ex_pause (PauseScan KL1_TQS) f)" by blast
  have pd: "sy_pd (ex_pause pc f) = (ex_domain ex_running 2 (Some 5))\<lparr>xpd_state := XPDS_PAUSING, xpd_pending_finish_flag := f\<rparr>" for pc
    by (simp add: ex_pause_def)
  have "\<not> drained (sy_pd (ex_pause (PauseScan KL1_TQS) f)) 5"
    by (simp add: pd drained_def ex_domain_def ex_running_eq ex_tqs)
  then have "\<not> bit f 5" using sys_okD(6) [OF kl1_reachable_ok [OF f]]
    by (auto simp: pause_ok_def ex_pause_def KL1_TQS_def)
  then have "f \<noteq> all_queues_mask" using bit_all_queues [of 5] by (auto simp: KL1_TQS_def)
  then have "kl1_step (ex_pause (PauseScan KL1_TQS) f) (ex_pause PauseIdle f)"
    using kl1_step.pause_end [of "ex_pause (PauseScan KL1_TQS) f"] by (simp add: ex_pause_def pause_end_def)
  then show ?thesis using f kl1_reachable.step by blast
qed

lemma kl1_pause_sound_witness:
  "\<exists>y :: sys. xpd_state (sy_pd y) = XPDS_PAUSING \<and> tq_cnt_running (xpd_xtqs (sy_pd y) ! 5) = 2 \<and>
     \<not> bit (xpd_pending_finish_flag (sy_pd y)) 5 \<and> bit (xpd_pending_finish_flag (sy_pd y)) 3"
proof -
  obtain f where "kl1_reachable (ex_pause PauseIdle f)" using ex_paused_idle by blast
  from kl1_pause_sound [OF this] have b: "\<forall>i < KL1_TQS. bit f i \<longleftrightarrow>
      tq_cnt_running (xpd_xtqs (ex_domain ex_running 2 (Some 5)) ! i) = 0"
    by (simp add: ex_pause_def)
  have q: "tq_cnt_running (xpd_xtqs (ex_domain ex_running 2 (Some 5)) ! 5) = 2"
    "tq_cnt_running (xpd_xtqs (ex_domain ex_running 2 (Some 5)) ! 3) = 0"
    by (simp_all add: ex_domain_def ex_running_eq ex_tqs)
  with b have "\<not> bit f 5" "bit f 3" by (simp_all add: KL1_TQS_def)
  with q show ?thesis by (intro exI [of _ "ex_pause PauseIdle f"]) (simp add: ex_pause_def)
qed

lemma kl1_pause_completes_witness:
  "\<exists>(pd :: xpu_pd) pd'. xpd_state pd = XPDS_PAUSING \<and> drain_queues pd [0..<KL1_TQS] = Some pd' \<and> xpd_state pd' = XPDS_PAUSED"
proof -
  obtain f where f: "kl1_reachable (ex_pause PauseIdle f)" using ex_paused_idle by blast
  have "xpd_state (sy_pd (ex_pause PauseIdle f)) = XPDS_PAUSING" "sy_pause (ex_pause PauseIdle f) = PauseIdle"
    "\<not> xpd_disabled_or_in_reset (sy_pd (ex_pause PauseIdle f))"
    by (simp_all add: ex_pause_def ex_domain_def)
  from this(1) kl1_pause_completes [OF f this] show ?thesis by blast
qed

section \<open>Exceptions\<close>

definition flagged :: "(nat \<Rightarrow> xpu_session option) \<Rightarrow> nat \<Rightarrow> bool" where
  "flagged sess s \<longleftrightarrow> (\<exists>x. sess s = Some x \<and> ss_errno x \<noteq> None)"

lemma mark_session_flags:
  "mark_session sess xsess e = Some sess' \<Longrightarrow>
     (\<forall>s. flagged sess s \<longrightarrow> flagged sess' s) \<and> (\<forall>s. xsess = Some s \<longrightarrow> flagged sess' s)"
  by (auto simp: mark_session_def flagged_def split: bind_splits if_splits)

lemma mark_tasks_flags:
  "mark_tasks sess ts e = Some sess' \<Longrightarrow>
     (\<forall>s. flagged sess s \<longrightarrow> flagged sess' s) \<and> (\<forall>t\<in>set ts. \<forall>s. xt_xsess t = Some s \<longrightarrow> flagged sess' s)"
proof (induction ts arbitrary: sess)
  case (Cons t ts)
  then obtain sess1 where 1: "mark_session sess (xt_xsess t) e = Some sess1" "mark_tasks sess1 ts e = Some sess'"
    by (auto split: bind_splits)
  from mark_session_flags [OF 1(1)] Cons.IH [OF 1(2)] show ?case by auto
qed simp

lemma hang_stops:
  assumes "hang_queues pd e = Some pd'"
  shows "(\<forall>q\<in>set (xpd_xtqs pd'). tq_state q = XTQS_HANGUP) \<and>
    map tq_tasks (xpd_xtqs pd') = map tq_tasks (xpd_xtqs pd) \<and>
    (\<forall>q\<in>set (xpd_xtqs pd). \<forall>t\<in>set (tq_tasks q). \<forall>s. xt_xsess t = Some s \<longrightarrow> flagged (xpd_sessions pd') s) \<and>
    xpd_state pd' = xpd_state pd"
proof -
  from assms obtain sess where m: "mark_tasks (xpd_sessions pd) (concat (map tq_tasks (xpd_xtqs pd))) e = Some sess"
    and pd': "pd' = pd\<lparr>xpd_xtqs := map (\<lambda>q. q\<lparr>tq_state := XTQS_HANGUP\<rparr>) (xpd_xtqs pd), xpd_sessions := sess\<rparr>"
    by (auto simp: hang_queues_def split: bind_splits)
  from mark_tasks_flags [OF m] have "\<forall>t\<in>set (concat (map tq_tasks (xpd_xtqs pd))). \<forall>s. xt_xsess t = Some s \<longrightarrow> flagged sess s"
    by blast
  then show ?thesis by (auto simp: pd')
qed

text \<open>
  C11: A kernel exception stops the domain: in every reachable state, after the handler every queue
  hangs with its tasks still on it, every session with a queued task carries an error, a domain
  that was running or pausing is in the error state, nothing is dispatched any more while it is,
  and every later launch of an open session is refused as abnormal.
\<close>

theorem kl1_exception_stops:
  assumes "kl1_reachable y" "ISR_xpd_on_exception mem (sy_pd y) = Some pd'"
  shows "(\<forall>q\<in>set (xpd_xtqs pd'). tq_state q = XTQS_HANGUP) \<and>
    map tq_tasks (xpd_xtqs pd') = map tq_tasks (xpd_xtqs (sy_pd y)) \<and>
    (\<forall>q\<in>set (xpd_xtqs pd'). \<forall>t\<in>set (tq_tasks q). \<forall>s. xt_xsess t = Some s \<longrightarrow> flagged (xpd_sessions pd') s) \<and>
    (xpd_state (sy_pd y) \<in> {XPDS_RUNNING, XPDS_PAUSING} \<longrightarrow> xpd_state pd' = XPDS_ERROR \<and>
       (\<forall>i. tasklet_xtq_dispatch pd' i = (pd', []))) \<and>
    (\<forall>s x i ts. xpd_sessions pd' s = Some x \<longrightarrow> ss_xtq x = Some i \<longrightarrow> ts \<noteq> [] \<longrightarrow>
       launch_add pd' s ts = Some (Some XPUERR_ABNORMAL, pd'))"
proof -
  let ?pd1 = "snd (xpd_state_to_error (sy_pd y) (Some XPUERR_KEXCEPTION))"
  from assms(2) obtain es where h: "hang_queues (?pd1\<lparr>xpd_etasks := es\<rparr>) XPUERR_KEXCEPTION = Some pd'"
    unfolding ISR_xpd_on_exception_def Let_def by blast
  note stop = hang_stops [OF h]
  have tasks: "map tq_tasks (xpd_xtqs pd') = map tq_tasks (xpd_xtqs (sy_pd y))" using stop by simp
  have fl: "flagged (xpd_sessions pd') s" if "q \<in> set (xpd_xtqs pd')" "t \<in> set (tq_tasks q)" "xt_xsess t = Some s" for q t s
  proof -
    have "tq_tasks q \<in> set (map tq_tasks (xpd_xtqs (sy_pd y)))" using tasks that(1) by (metis image_eqI list.set_map)
    then show ?thesis using stop that(2,3) by auto
  qed
  have st: "xpd_state pd' = XPDS_ERROR" if "xpd_state (sy_pd y) \<in> {XPDS_RUNNING, XPDS_PAUSING}"
    using stop that by (auto simp: error_state)
  have dis: "tasklet_xtq_dispatch pd' i = (pd', [])" if "xpd_state pd' = XPDS_ERROR" for i
    using that by (simp add: tasklet_xtq_dispatch_def Let_def)
  have "sys_ok (y\<lparr>sy_pd := pd'\<rparr>)" using exc_ok [OF kl1_reachable_ok [OF assms(1)], of mem] assms(2) by auto
  note o = sys_okD [OF this]
  have "launch_add pd' s ts = Some (Some XPUERR_ABNORMAL, pd')"
    if "xpd_sessions pd' s = Some x" "ss_xtq x = Some i" "ts \<noteq> []" for s x i ts
  proof -
    have "i < length (xpd_xtqs pd')" using o(1,3) that by (simp add: counts_ok_def queues_ok_def)
    then have "tq_state (xpd_xtqs pd' ! i) = XTQS_HANGUP" using stop by simp
    with that show ?thesis by (simp add: launch_add_def xtq_add_tasks_locked_def)
  qed
  with stop tasks fl st dis show ?thesis by blast
qed

lemma kl1_exception_stops_witness:
  "\<exists>pd'. ISR_xpd_on_exception (\<lambda>_. True) (ex_domain ex_running 2 (Some 5)) = Some pd' \<and>
     xpd_state pd' = XPDS_ERROR \<and> flagged (xpd_sessions pd') 1"
proof -
  let ?y = "ex_sys ex_running 2 (Some 5) []"
  from exc_ok [OF kl1_reachable_ok [OF ex_dispatched]] obtain pd' where
    e: "ISR_xpd_on_exception (\<lambda>_. True) (sy_pd ?y) = Some pd'" by blast
  note t = kl1_exception_stops [OF ex_dispatched e]
  have "length (xpd_xtqs pd') = 8" using t
    by (metis (no_types) length_map ex_sys_def sys.select_convs(1) ex_domain_def xpu_pd.select_convs(1)
      length_list_update length_upt KL1_TQS_def diff_zero)
  then have "xpd_xtqs pd' ! 5 \<in> set (xpd_xtqs pd')" by simp
  moreover have "tq_tasks (xpd_xtqs pd' ! 5) = tq_tasks ex_running"
  proof -
    have "tq_tasks (xpd_xtqs pd' ! 5) = map tq_tasks (xpd_xtqs pd') ! 5" using \<open>length (xpd_xtqs pd') = 8\<close> by simp
    also have "map tq_tasks (xpd_xtqs pd') = map tq_tasks (xpd_xtqs (sy_pd ?y))" using t by blast
    finally show ?thesis by (simp add: ex_sys_def ex_domain_def ex_tqs)
  qed
  then have "running ((ex_task 1 1)\<lparr>xt_xtq_id := 5\<rparr>) \<in> set (tq_tasks (xpd_xtqs pd' ! 5))"
    by (simp add: ex_running_eq ex_q_def)
  moreover have "xt_xsess (running ((ex_task 1 1)\<lparr>xt_xtq_id := 5\<rparr>)) = Some 1" by (simp add: ex_task_def)
  ultimately have "flagged (xpd_sessions pd') 1" using t by blast
  moreover have "xpd_state pd' = XPDS_ERROR" using t by (simp add: ex_sys_def ex_domain_def)
  ultimately show ?thesis using e by (simp add: ex_sys_def)
qed

section \<open>Reset\<close>

lemma dec_sess_append: "dec_sess (dec_sess sess ts) us = dec_sess sess (ts @ us)"
  by (auto simp: dec_sess_def fun_eq_iff option.map_comp intro!: option.map_cong)

lemma clean_tq_loop_correct:
  "\<forall>t\<in>set ts. \<exists>s. xt_xsess t = Some s \<and> sess s \<noteq> None \<Longrightarrow>
     \<exists>q'. clean_tq_loop ts q sess = Some (q', dec_sess sess ts) \<and> (ts \<noteq> [] \<longrightarrow> tq_tasks q' = []) \<and>
       (ts = [] \<longrightarrow> q' = q)"
proof (induction ts arbitrary: q sess)
  case (Cons t ts)
  then obtain s where s: "xt_xsess t = Some s" "sess s \<noteq> None" by auto
  then have sub: "sub_unfinished sess s = Some (dec_sess sess [t])"
    using sub_step [of sess t] by (simp add: sessions_live_def)
  have "\<forall>t\<in>set ts. \<exists>s. xt_xsess t = Some s \<and> dec_sess sess [t'] s \<noteq> None" for t'
    using Cons.prems by (fastforce simp: dec_sess_def)
  from Cons.IH [OF this, of "q\<lparr>tq_tasks := ts, tq_cnt_running := u32_sub (tq_cnt_running q) 1,
      tq_cnt_all := u32_sub (tq_cnt_all q) 1\<rparr>" t] s sub show ?case
    by (fastforce simp: dec_sess_append)
qed simp

lemma clean_tq_correct:
  assumes "owners_ok pd" "i < length (xpd_xtqs pd)"
  shows "\<exists>q'. clean_tq pd i = Some (pd\<lparr>xpd_xtqs := (xpd_xtqs pd)[i := q'],
      xpd_sessions := dec_sess (xpd_sessions pd) (tq_tasks (xpd_xtqs pd ! i))\<rparr>) \<and> tq_tasks q' = []"
proof -
  let ?q = "xpd_xtqs pd ! i"
  have "\<forall>t\<in>set (tq_tasks ?q). \<exists>s. xt_xsess t = Some s \<and> xpd_sessions pd s \<noteq> None"
    using assms nth_mem [OF assms(2)] unfolding owners_ok_def by blast
  from clean_tq_loop_correct [OF this, of "?q\<lparr>tq_enable := False\<rparr>"] show ?thesis
    by (cases "tq_tasks ?q = []") (auto simp: clean_tq_def)
qed

lemma clean_all_correct:
  assumes "owners_ok pd" "set is \<subseteq> {..<length (xpd_xtqs pd)}" "distinct is"
  shows "\<exists>pd'. lock_and_clean_tqs pd is = Some pd' \<and> length (xpd_xtqs pd') = length (xpd_xtqs pd) \<and>
    xpd_sessions pd' = dec_sess (xpd_sessions pd) (concat (map (\<lambda>i. tq_tasks (xpd_xtqs pd ! i)) is)) \<and>
    (\<forall>j < length (xpd_xtqs pd). tq_tasks (xpd_xtqs pd' ! j) = (if j \<in> set is then [] else tq_tasks (xpd_xtqs pd ! j))) \<and>
    xpd_state pd' = xpd_state pd"
  using assms
proof (induction "is" arbitrary: pd)
  case Nil
  then show ?case by simp
next
  case (Cons i "is")
  then have i: "i < length (xpd_xtqs pd)" "i \<notin> set is" by auto
  from clean_tq_correct [OF Cons.prems(1) i(1)] obtain q' where
    c: "clean_tq pd i = Some (pd\<lparr>xpd_xtqs := (xpd_xtqs pd)[i := q'],
      xpd_sessions := dec_sess (xpd_sessions pd) (tq_tasks (xpd_xtqs pd ! i))\<rparr>)" "tq_tasks q' = []" by blast
  let ?pd = "pd\<lparr>xpd_xtqs := (xpd_xtqs pd)[i := q'], xpd_sessions := dec_sess (xpd_sessions pd) (tq_tasks (xpd_xtqs pd ! i))\<rparr>"
  have "owners_ok ?pd" by (rule owners_update [where q = q', OF Cons.prems(1) i(1)]) (simp_all add: c(2))
  moreover have "set is \<subseteq> {..<length (xpd_xtqs ?pd)}" "distinct is" using Cons.prems(2,3) by auto
  ultimately obtain pd' where r: "lock_and_clean_tqs ?pd is = Some pd'" "length (xpd_xtqs pd') = length (xpd_xtqs ?pd)"
    "xpd_sessions pd' = dec_sess (xpd_sessions ?pd) (concat (map (\<lambda>i. tq_tasks (xpd_xtqs ?pd ! i)) is))"
    "\<forall>j < length (xpd_xtqs ?pd). tq_tasks (xpd_xtqs pd' ! j) = (if j \<in> set is then [] else tq_tasks (xpd_xtqs ?pd ! j))"
    "xpd_state pd' = xpd_state ?pd" using Cons.IH by blast
  have "concat (map (\<lambda>j. tq_tasks (xpd_xtqs ?pd ! j)) is) = concat (map (\<lambda>j. tq_tasks (xpd_xtqs pd ! j)) is)"
    using i(2) by (intro arg_cong [of _ _ concat]) (auto simp: nth_update_if)
  then have "xpd_sessions pd' = dec_sess (xpd_sessions pd) (concat (map (\<lambda>i. tq_tasks (xpd_xtqs pd ! i)) (i # is)))"
    using r(3) by (simp add: dec_sess_append)
  moreover have "\<forall>j < length (xpd_xtqs pd). tq_tasks (xpd_xtqs pd' ! j) =
      (if j \<in> set (i # is) then [] else tq_tasks (xpd_xtqs pd ! j))"
    using r(4) c(2) i by (auto simp: nth_update_if)
  ultimately show ?case using c(1) r(1,2,5) by simp
qed



section \<open>Sessions in error\<close>

text \<open>
  A session in the error state stays there, whatever happens, once its file is closed: every step
  keeps it.
\<close>

definition stuck :: "xpu_pd \<Rightarrow> nat \<Rightarrow> bool" where
  "stuck pd s \<longleftrightarrow> (\<exists>x. xpd_sessions pd s = Some x \<and> ss_state x = XSS_ERROR)"

lemma stuck_marked: "stuck pd s \<Longrightarrow> marked (xpd_sessions pd) (xpd_sessions pd') \<Longrightarrow> stuck pd' s"
  unfolding stuck_def marked_def by (cases "xpd_sessions pd' s") (fastforce dest: spec [of _ s])+

lemma stuck_same: "stuck pd s \<Longrightarrow> xpd_sessions pd' = xpd_sessions pd \<Longrightarrow> stuck pd' s"
  by (simp add: stuck_def)

lemma stuck_dec: "stuck pd s \<Longrightarrow> xpd_sessions pd' = dec_sess (xpd_sessions pd) ts \<Longrightarrow> stuck pd' s"
  by (auto simp: stuck_def dec_sess_def)

lemma hang_marked: "hang_queues pd e = Some pd' \<Longrightarrow> owners_ok pd \<Longrightarrow> marked (xpd_sessions pd) (xpd_sessions pd')"
  using hang_queues_correct [of pd e] by (auto simp: control_like_def)

lemma timeout_marked:
  assumes "wait_timed_out mem pd s = Some pd'" shows "marked (xpd_sessions pd) (xpd_sessions pd')"
proof -
  have "marked sess sess'" if "mark_session sess v e = Some sess'" for sess v e sess'
    using that by (auto simp: mark_session_def marked_def option.rel_refl split: bind_splits if_splits)
  with assms show ?thesis
    by (auto simp: wait_timed_out_def Let_def clean_etasks_eq split: bind_splits list.splits)
qed

lemma stuck_create:
  assumes "session_create env pd = Some (r, pd')" "stuck pd v" "\<forall>s. ce_sess env = Some s \<longrightarrow> xpd_sessions pd s = None"
  shows "stuck pd' v"
  using assms by (auto simp: session_create_def stuck_def Let_def split: option.splits if_splits bind_splits)

lemma step_keeps_stuck:
  assumes "kl1_step y z" "sys_ok y" "stuck (sy_pd y) v" "v \<notin> sy_open y"
  shows "stuck (sy_pd z) v \<and> v \<notin> sy_open z"
  using assms
proof (induction rule: kl1_step.induct)
  case (create env y r pd')
  have "v \<notin> set_option r"
  proof
    assume "v \<in> set_option r"
    then have "ce_sess env = Some v"
      using create(1) by (auto simp: session_create_def Let_def split: option.splits if_splits bind_splits)
    with create(3,6) show False by (auto simp: stuck_def)
  qed
  with create stuck_create [OF create(1,6,3)] show ?case by simp
next
  case (bind s y pd')
  then show ?case by (auto simp: xpu_sched_bind_sess_def stuck_def split: bind_splits if_splits)
next
  case (bindtq s y d r pd')
  then show ?case by (auto simp: ioctl_session_bindtq_def stuck_def split: bind_splits if_splits)
next
  case (add s y x i ts pd')
  then have "xpd_sessions pd' = xpd_sessions (sy_pd y)"
    by (auto simp: launch_add_def split: bind_splits sum.splits)
  then show ?case using add stuck_same by simp
next
  case (count s n y pd')
  then show ?case by (auto simp: launch_count_def stuck_def split: bind_splits)
next
  case (dispatch i y pd' issued)
  then have "xpd_sessions pd' = xpd_sessions (sy_pd y)"
    by (auto simp: tasklet_xtq_dispatch_def Let_def split: if_splits prod.splits)
  then show ?case using dispatch stuck_same by simp
next
  case (finish y i c pd' fins)
  note o = sys_okD [OF finish(5)]
  from o(1,2) finish(2,3) have "\<exists>ts. xpd_sessions pd' = dec_sess (xpd_sessions (sy_pd y)) ts"
  proof (cases rule: finish_locked_cases)
    case (skip q)
    then show ?thesis using finish(4) by (intro exI [of _ "[]"]) simp
  next
    case (run q pd2)
    then show ?thesis using finish(4) by (auto simp: Let_def)
  qed
  then show ?case using finish stuck_dec by auto
next
  case (exc y mem pd')
  have "owners_ok ((snd (xpd_state_to_error (sy_pd y) (Some XPUERR_KEXCEPTION)))\<lparr>xpd_etasks := es\<rparr>)" for es
    using sys_okD(2) [OF exc(3)] by (simp add: owners_ok_def)
  with exc(2) have "marked (xpd_sessions (sy_pd y)) (xpd_sessions pd')"
    using hang_marked unfolding ISR_xpd_on_exception_def Let_def by fastforce
  then show ?case using exc stuck_marked by auto
next
  case (sse_exc y pd')
  have "owners_ok (snd (xpd_state_to_error (sy_pd y) (Some XPUERR_HWEXCEPTION)))"
    using sys_okD(2) [OF sse_exc(3)] by (simp add: owners_ok_def)
  with sse_exc(2) have "marked (xpd_sessions (sy_pd y)) (xpd_sessions pd')"
    using hang_marked unfolding isr_xpd_on_sse_exception_def by fastforce
  then show ?case using sse_exc stuck_marked by auto
next
  case (timeout s y mem pd')
  then show ?case using timeout_marked stuck_marked by auto
next
  case (close s y pd')
  then show ?case by (auto simp: session_destroy_def stuck_def split: bind_splits)
next
  case (clean y pd' freed)
  note o = sys_okD [OF clean(2)]
  from clean_result [OF o(5)] clean(1) have "xpd_sessions pd' = (\<lambda>s. if dead (xpd_sessions (sy_pd y)) s then None else xpd_sessions (sy_pd y) s)"
    by auto
  then show ?case using clean by (auto simp: stuck_def dead_def)
next
  case (pause_begin y pd')
  then have "xpd_sessions pd' = xpd_sessions (sy_pd y)"
    by (auto simp: pause_begin_def xpd_state_to_pausing_def split: if_splits)
  then show ?case using pause_begin stuck_same by simp
qed (auto simp: stuck_def pause_clear_def pause_scan_def pause_end_def isr_resume_xpd_def xpd_state_to_running_def
  split: if_splits)

text \<open>
  A session that an exception or a timeout has put in the error state after its file was
  closed is never freed: it is live and in the error state in every state reachable from there,
  and no clean-up takes it, so its record, its context and its device memory stay allocated until
  a reset.
\<close>

theorem kl1_error_leak:
  assumes "kl1_reachable y" "s \<notin> sy_open y" "xpd_sessions (sy_pd y) s = Some x" "ss_state x = XSS_ERROR"
    and "kl1_step\<^sup>*\<^sup>* y z"
  shows "(\<exists>x'. xpd_sessions (sy_pd z) s = Some x' \<and> ss_state x' = XSS_ERROR \<and>
      xpd_contexts (sy_pd z) (ss_xctx x') \<noteq> None) \<and>
    (\<forall>pd' freed. clean_sessions (sy_pd z) = Some (pd', freed) \<longrightarrow> s \<notin> set freed)"
proof -
  from assms(5) have "sys_ok z \<and> stuck (sy_pd z) s \<and> s \<notin> sy_open z"
  proof (induction rule: rtranclp_induct)
    case base
    then show ?case using assms kl1_reachable_ok by (auto simp: stuck_def)
  next
    case (step a b)
    then show ?case using kl1_step_ok step_keeps_stuck by blast
  qed
  then obtain x' where x': "xpd_sessions (sy_pd z) s = Some x'" "ss_state x' = XSS_ERROR" and ok: "sys_ok z"
    by (auto simp: stuck_def)
  note o = sys_okD [OF ok]
  from x' o(5) have "xpd_contexts (sy_pd z) (ss_xctx x') \<noteq> None" by (auto simp: lists_ok_def)
  moreover have "s \<notin> set freed" if "clean_sessions (sy_pd z) = Some (pd', freed)" for pd' freed
    using clean_result [OF o(5)] that x' by (auto simp: dead_def)
  ultimately show ?thesis using x' by blast
qed

definition ex_closed_busy :: xpu_pd where
  "ex_closed_busy = (ex_domain ex_running 2 (Some 5))\<lparr>xpd_sessions := [1 \<mapsto> (ex_sess 2 (Some 5))\<lparr>ss_state := XSS_CLOSED\<rparr>]\<rparr>"

definition ex_left_over :: xpu_pd where
  "ex_left_over = (ex_domain ex_running 2 (Some 5))\<lparr>xpd_state := XPDS_ERROR, xpd_errno := Some XPUERR_KEXCEPTION,
     xpd_xtqs := map (\<lambda>q. q\<lparr>tq_state := XTQS_HANGUP\<rparr>) (xpd_xtqs (ex_domain ex_running 2 (Some 5))),
     xpd_sessions := [1 \<mapsto> (ex_sess 2 (Some 5))\<lparr>ss_state := XSS_ERROR, ss_errno := Some XPUERR_KEXCEPTION\<rparr>]\<rparr>"

lemma ex_left_over_reachable: "kl1_reachable ((ex_sys ex_running 2 (Some 5) [])\<lparr>sy_pd := ex_left_over, sy_open := {}\<rparr>)"
proof -
  let ?y = "ex_sys ex_running 2 (Some 5) []" let ?c = "?y\<lparr>sy_pd := ex_closed_busy, sy_open := {}\<rparr>"
  have "session_destroy (sy_pd ?y) (Some 1) = Some ex_closed_busy"
    by (simp add: session_destroy_def ex_sys_def ex_domain_def ex_closed_busy_def)
  then have "kl1_step ?y (?y\<lparr>sy_pd := ex_closed_busy, sy_open := sy_open ?y - {1}\<rparr>)"
    by (rule kl1_step.close [rotated 2]) (simp_all add: ex_sys_def)
  from kl1_reachable.step [OF ex_dispatched this] have c: "kl1_reachable ?c" by (simp add: ex_sys_def)
  have "ISR_xpd_on_exception (\<lambda>_. True) ex_closed_busy = Some ex_left_over"
    by (simp add: ISR_xpd_on_exception_def ex_closed_busy_def ex_left_over_def ex_domain_def ex_tqs
        xpd_state_to_error_def hang_queues_def Let_def ex_running_eq ex_q_def ex_task_def mark_session_def
        ex_sess_def xtq_init_def)
  then have "kl1_step ?c (?c\<lparr>sy_pd := ex_left_over\<rparr>)"
    by (intro kl1_step.exc [where ok = "\<lambda>_. True"]) (simp_all add: ex_sys_def)
  from kl1_reachable.step [OF c this] show ?thesis by (simp add: ex_sys_def)
qed

lemma kl1_error_leak_witness:
  "\<exists>pd' freed. clean_sessions ex_left_over = Some (pd', freed) \<and> 1 \<notin> set freed \<and> xpd_sessions pd' 1 \<noteq> None"
proof -
  let ?y = "(ex_sys ex_running 2 (Some 5) [])\<lparr>sy_pd := ex_left_over, sy_open := {}\<rparr>"
  from clean_result [OF sys_okD(5) [OF kl1_reachable_ok [OF ex_left_over_reachable]]]
  obtain pd' freed where c: "clean_sessions (sy_pd ?y) = Some (pd', freed)" by blast
  have s: "1 \<notin> sy_open ?y" "xpd_sessions (sy_pd ?y) 1 =
      Some ((ex_sess 2 (Some 5))\<lparr>ss_state := XSS_ERROR, ss_errno := Some XPUERR_KEXCEPTION\<rparr>)"
    by (simp_all add: ex_left_over_def)
  from kl1_error_leak [OF ex_left_over_reachable s _ rtranclp.rtrancl_refl] c have "1 \<notin> set freed" by auto
  moreover have "kl1_step\<^sup>*\<^sup>* ?y (?y\<lparr>sy_pd := pd'\<rparr>)" using kl1_step.clean [OF c] by (rule r_into_rtranclp)
  from kl1_error_leak [OF ex_left_over_reachable s _ this] have "xpd_sessions pd' 1 \<noteq> None" by auto
  ultimately show ?thesis using c by simp
qed

section \<open>Paths on which the code breaks its own rules\<close>

text \<open>
  When a process opens its first session and the context cannot be allocated, the session is
  freed while it is on the list and the lock of the lists is never released: the next opening of a
  session, and the next clean-up, do not return.
\<close>

theorem session_create_nomem:
  assumes "ce_sess env = Some s" "ce_ctx env = None" "\<not> xpd_sessions_lock pd"
    and "\<not> xpd_disabled_or_in_reset pd"
    and "\<forall>c\<in>set (xpd_context_list pd). \<exists>x. xpd_contexts pd c = Some x \<and> cx_pid x \<noteq> ce_pid env"
  shows "\<exists>pd'. session_create env pd = Some (None, pd') \<and> s \<in> set (xpd_session_list pd') \<and>
    xpd_sessions pd' = xpd_sessions pd \<and> clean_sessions pd' = None \<and>
    (\<forall>env'. ce_sess env' \<noteq> None \<longrightarrow> session_create env' pd' = None)"
proof -
  have f: "find_ctx ctxs cs pid = Some None"
    if "\<forall>c\<in>set cs. \<exists>x. ctxs c = Some x \<and> cx_pid x \<noteq> pid" for ctxs cs pid
    using that by (induction cs) auto
  from f [OF assms(5)] assms(1-4) show ?thesis
    by (auto simp: session_create_def clean_sessions_def Let_def)
qed

lemma session_create_nomem_witness:
  "\<exists>pd'. session_create (ex_env\<lparr>ce_ctx := None\<rparr>) (sy_pd sys_init) = Some (None, pd') \<and> clean_sessions pd' = None"
  using session_create_nomem [of "ex_env\<lparr>ce_ctx := None\<rparr>" 1 "sy_pd sys_init"]
  by (auto simp: ex_env_def sys_init_def)

text \<open>
  Rebinding loses the queue: after a valid explicit binding of an idle session, a second
  binding request with a number that is too large reports an invalid parameter but leaves the
  session with no queue and its binding fixed, so the next launch of any task dereferences NULL.
\<close>

theorem bindtq_twice:
  assumes x: "xpd_sessions pd s = Some x" "ss_unfinished_cnt x = 0"
    and d: "u32 d < KL1_SSE_TQ_COUNT" "KL1_SSE_TQ_COUNT \<le> u32 d'"
  shows "\<exists>pd1 pd2. ioctl_session_bindtq pd s d = Some (None, pd1) \<and>
    ioctl_session_bindtq pd1 s d' = Some (Some XPUERR_INVALID_PARAM, pd2) \<and>
    (\<forall>ts. session_launch_tasks pd2 s ts = None)"
  using assms
  by (auto simp: ioctl_session_bindtq_def session_launch_tasks_def xpu_sched_bind_sess_def launch_add_def)

lemma bindtq_twice_witness:
  "\<exists>pd1 pd2. ioctl_session_bindtq (ex_domain (xtq_init 5) 0 None) 1 3 = Some (None, pd1) \<and>
     ioctl_session_bindtq pd1 1 8 = Some (Some XPUERR_INVALID_PARAM, pd2) \<and>
     session_launch_tasks pd2 1 [ex_task 1 1] = None"
  using bindtq_twice [of "ex_domain (xtq_init 5) 0 None" 1 "ex_sess 0 None" 3 8]
  by (auto simp: ex_domain_def ex_sess_def u32_def KL1_SSE_TQ_COUNT_def)

end
