(* ===== verification/Kl2_Dev.thy ===== *)
theory Kl2_Dev
  imports Kl_Prelude
begin

text \<open>
  The data of the KL2 task path: the structures of \<^verbatim>\<open>kl2/kl2.h\<close> for tasks, hardware queues,
  sessions, events and user processes, and the reference counts of \<^verbatim>\<open>kl_util.h\<close> with their release
  functions (\<^verbatim>\<open>kl2/session.c\<close>, \<^verbatim>\<open>kl2/event.c\<close>).

  Objects live in stores from addresses to values; a freed address maps to \<^term>\<open>None\<close>. An operation
  that reads a freed object has the outcome \<^term>\<open>None\<close>. A 32 or 64 bit counter is a natural number,
  its wrap-around written with \<^term>\<open>u32\<close> and \<^term>\<open>u64\<close>.
\<close>

section \<open>Constants and enumerations\<close>

definition KL2_HWQ_CNT :: nat where "KL2_HWQ_CNT = 12"
definition KL2_HWQ_DEPTH :: nat where "KL2_HWQ_DEPTH = 32"

datatype kl2_state = KL2_UNUSED | KL2_RUNNING | KL2_ERROR
datatype kl2_tasktype = KL2_TASKTYPE_KERNEL | KL2_TASKTYPE_EVNTREC | KL2_TASKTYPE_EVNTWAIT
datatype kl2_evnt_state = KL2_EVNT_NORMAL | KL2_EVNT_REVOKED | KL2_EVNT_DESTROYED
datatype kl2_hwq_state = KL2_HWQ_NORMAL | KL2_HWQ_TAINT | KL2_HWQ_STALL | KL2_HWQ_UNDERWAY_EQUALS_ZERO
datatype kl2_sess_state = KL2_SESS_NORMAL | KL2_SESS_ERROR | KL2_SESS_TAINT
datatype kl2_uproc_state = KL2_UPROC_NORMAL | KL2_UPROC_ERROR

section \<open>Structures\<close>

text \<open>
  A task: its address, the fields of its descriptor the driver reads, its type and flag, the event
  of a record task, and its session and queue.
\<close>

record kl2_task =
  tk_ref :: nat
  tk_token :: nat
  tk_type :: kl2_tasktype
  tk_free_param :: bool
  tk_param_addr :: nat
  tk_wait_vstream_id :: nat
  tk_record_seq :: nat
  tk_evnt :: "nat option"
  tk_sess :: nat
  tk_hwq_id :: nat

text \<open>
  A hardware queue. \<^verbatim>\<open>hq_finish_work\<close> says that its work item is queued and \<^verbatim>\<open>hq_free\<close> is the local
  \<^verbatim>\<open>free_list\<close> of a running work item; a work item runs at most once at a time.
\<close>

record kl2_hwq =
  hq_id :: nat
  hq_enable :: bool
  hq_pt_list :: "kl2_task list"
  hq_rt_list :: "kl2_task list"
  hq_ft_list :: "kl2_task list"
  hq_cnt_running :: nat
  hq_cnt_all :: nat
  hq_session_list :: "nat list"
  hq_session_cnt :: int
  hq_taint_state :: kl2_hwq_state
  hq_regular_timer_state :: kl2_hwq_state
  hq_exception_list :: "kl2_task list"
  hq_evnt_seq :: nat
  hq_finish_work :: bool
  hq_free :: "kl2_task list"

record kl2_session =
  s2_id :: nat
  s2_uproc :: nat
  s2_state :: kl2_sess_state
  s2_taint_state :: kl2_sess_state
  s2_errno :: kl_status
  s2_taint_errno :: kl_status
  s2_unfinished_cnt :: int
  s2_refs :: nat
  s2_hwq :: "nat option"

record kl2_userprocess =
  up_pid :: nat
  up_refs :: nat
  up_state :: kl2_uproc_state
  up_event_list :: "nat list"

record kl2_event =
  ev_id :: nat
  ev_uproc :: nat
  ev_state :: kl2_evnt_state
  ev_rec :: "(nat \<times> nat) option"
  ev_rec_cnt :: nat
  ev_fin_cnt :: nat
  ev_refs :: nat

text \<open>The exception board of a queue, as far as the task path reads it.\<close>

record kl2_board =
  eb_token :: nat
  eb_excp_cnt :: nat
  eb_taint_cnt :: nat
  eb_taint_2_reset_cnt :: nat

text \<open>The calls the task path makes to the memory manager, in order.\<close>

datatype kl2_mm_call = MmFreeParam nat nat | MmFreeByOwner nat

record kl2_dev =
  d2_state :: kl2_state
  d2_in_reset_state :: bool
  d2_hwq :: "kl2_hwq list"
  d2_hwq_bitmap :: "64 word"
  d2_task_token :: nat
  d2_board :: "kl2_board list"
  d2_sess :: "nat \<Rightarrow> kl2_session option"
  d2_session_idr :: "(nat \<times> nat) list"
  d2_uproc :: "nat \<Rightarrow> kl2_userprocess option"
  d2_uproc_idr :: "(nat \<times> nat) list"
  d2_evnt :: "nat \<Rightarrow> kl2_event option"
  d2_event_idr :: "(nat \<times> nat) list"
  d2_mm_calls :: "kl2_mm_call list"

section \<open>Tables of identifiers\<close>

text \<open>
  An \<^verbatim>\<open>idr\<close> of the kernel: identifiers with pointers, iterated in the order of the identifiers.
\<close>

definition idr_find :: "(nat \<times> nat) list \<Rightarrow> nat \<Rightarrow> nat option" where
  "idr_find idr k = map_of idr k"

definition idr_insert :: "nat \<Rightarrow> nat \<Rightarrow> (nat \<times> nat) list \<Rightarrow> (nat \<times> nat) list" where
  "idr_insert k p idr = insort_key fst (k, p) idr"

definition idr_remove :: "(nat \<times> nat) list \<Rightarrow> nat \<Rightarrow> (nat \<times> nat) list" where
  "idr_remove idr k = filter (\<lambda>e. fst e \<noteq> k) idr"

section \<open>States of a session\<close>

definition kl2_session_state_normal :: "kl2_session \<Rightarrow> bool" where
  "kl2_session_state_normal sess \<longleftrightarrow> s2_state sess = KL2_SESS_NORMAL \<and> s2_taint_state sess = KL2_SESS_NORMAL"

definition kl2_session_mark_error :: "kl2_session \<Rightarrow> kl_status \<Rightarrow> bool \<Rightarrow> kl2_session" where
  "kl2_session_mark_error sess err taint =
     (let sess1 = sess\<lparr>s2_state := KL2_SESS_ERROR\<rparr>
      in if \<not> taint \<or> s2_errno sess1 = None then sess1\<lparr>s2_errno := err\<rparr> else sess1)"

definition kl2_session_taint :: "kl2_session \<Rightarrow> kl_err \<Rightarrow> kl2_session" where
  "kl2_session_taint sess err = sess\<lparr>s2_taint_state := KL2_SESS_TAINT, s2_taint_errno := Some err\<rparr>"

text \<open>A change of the session at an address, and of a queue.\<close>

definition upd_sess :: "kl2_dev \<Rightarrow> nat \<Rightarrow> (kl2_session \<Rightarrow> kl2_session) \<Rightarrow> kl2_dev option" where
  "upd_sess d s f = map_option (\<lambda>x. d\<lparr>d2_sess := (d2_sess d)(s \<mapsto> f x)\<rparr>) (d2_sess d s)"

definition upd_hwq :: "kl2_dev \<Rightarrow> nat \<Rightarrow> (kl2_hwq \<Rightarrow> kl2_hwq) \<Rightarrow> kl2_dev" where
  "upd_hwq d i f = d\<lparr>d2_hwq := (d2_hwq d)[i := f (d2_hwq d ! i)]\<rparr>"

definition upd_evnt :: "kl2_dev \<Rightarrow> nat \<Rightarrow> (kl2_event \<Rightarrow> kl2_event) \<Rightarrow> kl2_dev option" where
  "upd_evnt d e f = map_option (\<lambda>v. d\<lparr>d2_evnt := (d2_evnt d)(e \<mapsto> f v)\<rparr>) (d2_evnt d e)"

definition upd_uproc :: "kl2_dev \<Rightarrow> nat \<Rightarrow> (kl2_userprocess \<Rightarrow> kl2_userprocess) \<Rightarrow> kl2_dev option" where
  "upd_uproc d u f = map_option (\<lambda>p. d\<lparr>d2_uproc := (d2_uproc d)(u \<mapsto> f p)\<rparr>) (d2_uproc d u)"

section \<open>Reference counts and release functions\<close>

text \<open>
  \<^verbatim>\<open>kl2_destroy_event_ref\<close> and \<^verbatim>\<open>kl2_destroy_event_locked_ref\<close> differ in who takes the lock of
  the table. Both reach the device through the event's user process.
\<close>

definition kl2_destroy_event_ref :: "kl2_dev \<Rightarrow> nat \<Rightarrow> kl2_dev option" where
  "kl2_destroy_event_ref d e = do {
     v \<leftarrow> d2_evnt d e;
     d1 \<leftarrow> upd_uproc d (ev_uproc v) (\<lambda>p. p\<lparr>up_event_list := remove1 e (up_event_list p)\<rparr>);
     Some (d1\<lparr>d2_event_idr := idr_remove (d2_event_idr d1) (ev_id v), d2_evnt := (d2_evnt d1)(e := None)\<rparr>)
   }"

definition evnt_get :: "kl2_dev \<Rightarrow> nat \<Rightarrow> kl2_dev option" where
  "evnt_get d e = upd_evnt d e (\<lambda>v. v\<lparr>ev_refs := ev_refs v + 1\<rparr>)"

definition evnt_put :: "kl2_dev \<Rightarrow> nat \<Rightarrow> kl2_dev option" where
  "evnt_put d e = do {
     v \<leftarrow> d2_evnt d e;
     (if ev_refs v = 1 then kl2_destroy_event_ref d e
      else upd_evnt d e (\<lambda>v. v\<lparr>ev_refs := ev_refs v - 1\<rparr>))
   }"

fun kl2_destroy_uproc_event_list :: "kl2_dev \<Rightarrow> nat list \<Rightarrow> kl2_dev option" where
  "kl2_destroy_uproc_event_list d [] = Some d"
| "kl2_destroy_uproc_event_list d (e # es) = do {
     d1 \<leftarrow> evnt_put d e;
     kl2_destroy_uproc_event_list d1 es
   }"

text \<open>The host memory and peer-to-peer records of the process are not part of the task path.\<close>

definition kl2_destroy_userprocess_ref :: "kl2_dev \<Rightarrow> nat \<Rightarrow> kl2_dev option" where
  "kl2_destroy_userprocess_ref d u = do {
     p \<leftarrow> d2_uproc d u;
     let d1 = d\<lparr>d2_uproc_idr := idr_remove (d2_uproc_idr d) (up_pid p)\<rparr>;
     d2 \<leftarrow> kl2_destroy_uproc_event_list d1 (up_event_list p);
     Some (d2\<lparr>d2_uproc := (d2_uproc d2)(u := None)\<rparr>)
   }"

definition uproc_put :: "kl2_dev \<Rightarrow> nat \<Rightarrow> kl2_dev option" where
  "uproc_put d u = do {
     p \<leftarrow> d2_uproc d u;
     (if up_refs p = 1 then kl2_destroy_userprocess_ref d u
      else upd_uproc d u (\<lambda>p. p\<lparr>up_refs := up_refs p - 1\<rparr>))
   }"

definition kl2_session_release_hwq_locked :: "kl2_dev \<Rightarrow> nat \<Rightarrow> kl2_dev option" where
  "kl2_session_release_hwq_locked d s = do {
     x \<leftarrow> d2_sess d s;
     (case s2_hwq x of
        None \<Rightarrow> Some d
      | Some i \<Rightarrow> Some (upd_hwq d i (\<lambda>q. q\<lparr>hq_session_list := remove1 s (hq_session_list q),
                                            hq_session_cnt := hq_session_cnt q - 1\<rparr>)))
   }"

definition kl2_destroy_session_ref :: "kl2_dev \<Rightarrow> nat \<Rightarrow> kl2_dev option" where
  "kl2_destroy_session_ref d s = do {
     x \<leftarrow> d2_sess d s;
     let d1 = d\<lparr>d2_session_idr := idr_remove (d2_session_idr d) (s2_id x)\<rparr>;
     d2 \<leftarrow> kl2_session_release_hwq_locked d1 s;
     let d3 = d2\<lparr>d2_mm_calls := d2_mm_calls d2 @ [MmFreeByOwner s]\<rparr>;
     d4 \<leftarrow> uproc_put d3 (s2_uproc x);
     Some (d4\<lparr>d2_sess := (d2_sess d4)(s := None)\<rparr>)
   }"

definition sess_get :: "kl2_dev \<Rightarrow> nat \<Rightarrow> kl2_dev option" where
  "sess_get d s = upd_sess d s (\<lambda>x. x\<lparr>s2_refs := s2_refs x + 1\<rparr>)"

definition sess_put :: "kl2_dev \<Rightarrow> nat \<Rightarrow> kl2_dev option" where
  "sess_put d s = do {
     x \<leftarrow> d2_sess d s;
     (if s2_refs x = 1 then kl2_destroy_session_ref d s
      else upd_sess d s (\<lambda>x. x\<lparr>s2_refs := s2_refs x - 1\<rparr>))
   }"

end
