(* ===== verification/Kl2_Hwq.thy ===== *)
theory Kl2_Hwq
  imports Kl2_Dev
begin

text \<open>
  The hardware queues of KL2, \<^verbatim>\<open>kl2/hwq.c\<close>: initialisation, dispatch, the completion interrupt and
  the deferred clean-up of finished tasks. A task moves from the pending list to the running list
  when it is written to the hardware, to the finished list when the hardware reports it, and to the
  local list of the work item that ends it; an exception moves it to the exception list instead.

  An operation that writes descriptors returns the tasks written, in order.
\<close>

section \<open>Initialisation\<close>

definition hwq_init_one :: "32 word \<Rightarrow> nat \<Rightarrow> kl2_hwq" where
  "hwq_init_one hwq_bits i =
     \<lparr>hq_id = i, hq_enable = bit hwq_bits i, hq_pt_list = [], hq_rt_list = [], hq_ft_list = [],
      hq_cnt_running = 0, hq_cnt_all = 0, hq_session_list = [], hq_session_cnt = 0,
      hq_taint_state = KL2_HWQ_NORMAL, hq_regular_timer_state = KL2_HWQ_NORMAL, hq_exception_list = [],
      hq_evnt_seq = 0, hq_finish_work = False, hq_free = []\<rparr>"

definition kl2_hwq_init :: "32 word \<Rightarrow> kl2_dev \<Rightarrow> kl2_dev" where
  "kl2_hwq_init hwq_bits d =
     d\<lparr>d2_hwq := map (hwq_init_one hwq_bits) [0..<KL2_HWQ_CNT],
       d2_hwq_bitmap := foldl (\<lambda>b i. if bit hwq_bits i then b else set_bit i b) 0 [0..<KL2_HWQ_CNT]\<rparr>"

section \<open>Dispatch\<close>

function dispatch_nocheck ::
    "(nat \<Rightarrow> kl2_session option) \<Rightarrow> kl2_hwq \<Rightarrow> (kl2_hwq \<times> kl2_task list) option" where
  "dispatch_nocheck sess q =
     (if hq_cnt_running q < KL2_HWQ_DEPTH then
        (case hq_pt_list q of
           [] \<Rightarrow> Some (q, [])
         | task # rest \<Rightarrow> do {
             x \<leftarrow> sess (tk_sess task);
             (if kl2_session_state_normal x then do {
                (q', written) \<leftarrow> dispatch_nocheck sess
                  (q\<lparr>hq_pt_list := rest, hq_rt_list := hq_rt_list q @ [task],
                     hq_cnt_running := u32 (hq_cnt_running q + 1)\<rparr>);
                Some (q', task # written)
              } else Some (q, []))
           })
      else Some (q, []))"
  by pat_completeness auto
termination
  by (relation "measure (\<lambda>(sess, q). length (hq_pt_list q))") auto

declare dispatch_nocheck.simps [simp del]

definition kl2_hwq_dispatch_locked :: "kl2_dev \<Rightarrow> nat \<Rightarrow> (kl2_dev \<times> kl2_task list) option" where
  "kl2_hwq_dispatch_locked d i =
     (if d2_state d \<noteq> KL2_RUNNING \<or> d2_in_reset_state d then Some (d, [])
      else do {
        (q, written) \<leftarrow> dispatch_nocheck (d2_sess d) (d2_hwq d ! i);
        Some (upd_hwq d i (\<lambda>_. q), written)
      })"

section \<open>Completion interrupt\<close>

text \<open>\<^verbatim>\<open>atomic_sub(1, &task->sess->unfinished_cnt)\<close>.\<close>

definition sub_unfinished2 :: "(nat \<Rightarrow> kl2_session option) \<Rightarrow> kl2_task \<Rightarrow> (nat \<Rightarrow> kl2_session option) option" where
  "sub_unfinished2 sess task =
     map_option (\<lambda>x. sess(tk_sess task \<mapsto> x\<lparr>s2_unfinished_cnt := s2_unfinished_cnt x - 1\<rparr>)) (sess (tk_sess task))"

fun finish_running ::
    "(nat \<Rightarrow> kl2_session option) \<Rightarrow> nat \<Rightarrow> kl2_task list \<Rightarrow> kl2_task list \<Rightarrow>
     ((nat \<Rightarrow> kl2_session option) \<times> kl2_task list \<times> kl2_task list) option" where
  "finish_running sess cnt [] ft = Some (sess, [], ft)"
| "finish_running sess cnt (task # rt) ft =
     (if cnt = 0 then Some (sess, task # rt, ft)
      else do {
        sess1 \<leftarrow> sub_unfinished2 sess task;
        finish_running sess1 (cnt - 1) rt (ft @ [task])
      })"

definition kl2_handle_hwq_intr :: "kl2_dev \<Rightarrow> nat \<Rightarrow> nat \<Rightarrow> (kl2_dev \<times> kl2_task list) option" where
  "kl2_handle_hwq_intr d i cnt0 =
     (if cnt0 = 0 then Some (d, [])
      else
        let q = d2_hwq d ! i;
            cnt = (if hq_cnt_running q < cnt0 then hq_cnt_running q else cnt0)
        in do {
          (sess, rt, ft) \<leftarrow> finish_running (d2_sess d) cnt (hq_rt_list q) (hq_ft_list q);
          let d1 = (upd_hwq d i (\<lambda>q. q\<lparr>hq_rt_list := rt, hq_ft_list := ft,
                                       hq_cnt_running := u32_sub (hq_cnt_running q) cnt,
                                       hq_cnt_all := u32_sub (hq_cnt_all q) cnt\<rparr>))\<lparr>d2_sess := sess\<rparr>;
          (d2, written) \<leftarrow> kl2_hwq_dispatch_locked d1 i;
          Some (upd_hwq d2 i (\<lambda>q. q\<lparr>hq_finish_work := True\<rparr>), written)
        })"

section \<open>Deferred clean-up\<close>

fun sub_all :: "(nat \<Rightarrow> kl2_session option) \<Rightarrow> kl2_task list \<Rightarrow> (nat \<Rightarrow> kl2_session option) option" where
  "sub_all sess [] = Some sess"
| "sub_all sess (task # ts) = do {
     sess1 \<leftarrow> sub_unfinished2 sess task;
     sub_all sess1 ts
   }"

text \<open>The critical section of \<^verbatim>\<open>kl2_hwq_finish_work_func\<close>, run when the work item starts.\<close>

definition finish_work_collect :: "kl2_dev \<Rightarrow> nat \<Rightarrow> kl2_dev option" where
  "finish_work_collect d i = do {
     let q = d2_hwq d ! i;
     sess \<leftarrow> sub_all (d2_sess d) (hq_exception_list q);
     Some ((upd_hwq d i (\<lambda>q. q\<lparr>hq_finish_work := False, hq_exception_list := [], hq_ft_list := [],
                              hq_free := hq_exception_list q @ hq_ft_list q\<rparr>))\<lparr>d2_sess := sess\<rparr>)
   }"

definition finish_task :: "kl2_dev \<Rightarrow> kl2_task \<Rightarrow> kl2_dev option" where
  "finish_task d task = do {
     x \<leftarrow> d2_sess d (tk_sess task);
     (case tk_type task of
        KL2_TASKTYPE_KERNEL \<Rightarrow>
          Some (if tk_free_param task
                then d\<lparr>d2_mm_calls := d2_mm_calls d @ [MmFreeParam (tk_param_addr task) (tk_sess task)]\<rparr> else d)
      | KL2_TASKTYPE_EVNTREC \<Rightarrow> do {
          e \<leftarrow> tk_evnt task;
          d1 \<leftarrow> upd_evnt d e (\<lambda>v. v\<lparr>ev_fin_cnt := u32 (ev_fin_cnt v + 1)\<rparr>);
          evnt_put d1 e
        }
      | KL2_TASKTYPE_EVNTWAIT \<Rightarrow> Some d)
   }"

definition kl2_session_free_task :: "kl2_dev \<Rightarrow> kl2_task \<Rightarrow> kl2_dev option" where
  "kl2_session_free_task d task = sess_put d (tk_sess task)"

text \<open>One turn of the loop over \<^verbatim>\<open>free_list\<close>, and the whole loop.\<close>

definition finish_work_one :: "kl2_dev \<Rightarrow> nat \<Rightarrow> kl2_dev option" where
  "finish_work_one d i =
     (case hq_free (d2_hwq d ! i) of
        [] \<Rightarrow> Some d
      | task # rest \<Rightarrow> do {
          d1 \<leftarrow> finish_task d task;
          kl2_session_free_task (upd_hwq d1 i (\<lambda>q. q\<lparr>hq_free := rest\<rparr>)) task
        })"

fun finish_work_loop :: "nat \<Rightarrow> kl2_dev \<Rightarrow> nat \<Rightarrow> kl2_dev option" where
  "finish_work_loop 0 d i = Some d"
| "finish_work_loop (Suc n) d i = do {
     d1 \<leftarrow> finish_work_one d i;
     finish_work_loop n d1 i
   }"

definition kl2_hwq_finish_work_func :: "kl2_dev \<Rightarrow> nat \<Rightarrow> kl2_dev option" where
  "kl2_hwq_finish_work_func d i = do {
     d1 \<leftarrow> finish_work_collect d i;
     finish_work_loop (length (hq_free (d2_hwq d1 ! i))) d1 i
   }"

section \<open>Recovery after an exception\<close>

text \<open>
  \<^verbatim>\<open>revoke_task_from_err_session_locked\<close> of \<^verbatim>\<open>kl2/exception.c\<close>: the tasks of sessions in error leave
  the list for the exception list, in order; their events are marked.
\<close>

fun revoke_list ::
    "(nat \<Rightarrow> kl2_session option) \<Rightarrow> (nat \<Rightarrow> kl2_event option) \<Rightarrow> kl2_task list \<Rightarrow>
     ((nat \<Rightarrow> kl2_event option) \<times> kl2_task list \<times> kl2_task list) option" where
  "revoke_list sess evnt [] = Some (evnt, [], [])"
| "revoke_list sess evnt (task # ts) = do {
     x \<leftarrow> sess (tk_sess task);
     (if s2_state x = KL2_SESS_NORMAL then do {
        (evnt', kept, revoked) \<leftarrow> revoke_list sess evnt ts;
        Some (evnt', task # kept, revoked)
      } else do {
        evnt1 \<leftarrow> (if tk_type task = KL2_TASKTYPE_EVNTREC then do {
                    e \<leftarrow> tk_evnt task;
                    v \<leftarrow> evnt e;
                    Some (evnt(e \<mapsto> v\<lparr>ev_state := KL2_EVNT_REVOKED\<rparr>))
                  } else Some evnt);
        (evnt', kept, revoked) \<leftarrow> revoke_list sess evnt1 ts;
        Some (evnt', kept, task # revoked)
      })
   }"

definition revoke_task_from_err_session_locked :: "kl2_dev \<Rightarrow> nat \<Rightarrow> kl2_dev option" where
  "revoke_task_from_err_session_locked d i = do {
     let q = d2_hwq d ! i;
     (evnt1, rt, rt_revoked) \<leftarrow> revoke_list (d2_sess d) (d2_evnt d) (hq_rt_list q);
     (evnt2, pt, pt_revoked) \<leftarrow> revoke_list (d2_sess d) evnt1 (hq_pt_list q);
     Some ((upd_hwq d i (\<lambda>q. q\<lparr>hq_rt_list := rt, hq_pt_list := pt,
                              hq_exception_list := hq_exception_list q @ rt_revoked @ pt_revoked,
                              hq_cnt_all := u32_sub (u32_sub (hq_cnt_all q) (length rt_revoked)) (length pt_revoked),
                              hq_cnt_running := u32_sub (hq_cnt_running q) (length rt_revoked)\<rparr>))\<lparr>d2_evnt := evnt2\<rparr>)
   }"

text \<open>\<^verbatim>\<open>redispatch_running_task_locked\<close>: the tasks written again; more than the hardware holds is a \<^verbatim>\<open>BUG()\<close>.\<close>

definition redispatch_running_task_locked :: "kl2_hwq \<Rightarrow> kl2_task list option" where
  "redispatch_running_task_locked q = (if KL2_HWQ_DEPTH < hq_cnt_running q then None else Some (hq_rt_list q))"

end
