(* ===== verification/Kl2_Session.thy ===== *)
theory Kl2_Session
  imports Kl2_Hwq
begin

text \<open>
  The sessions and events of KL2, \<^verbatim>\<open>kl2/session.c\<close> and \<^verbatim>\<open>kl2/event.c\<close>: opening and releasing a
  session, binding it to a hardware queue, adding tasks, and the event requests. Where a system call
  consists of several critical sections each of them is a definition, and the call their composition.
\<close>

section \<open>Binding\<close>

text \<open>
  The scan of \<^verbatim>\<open>kl2_session_bind_hwq_locked\<close> for the enabled queue with the fewest sessions; the
  count is compared as an unsigned number.
\<close>

fun bind_scan :: "kl2_hwq list \<Rightarrow> 64 word \<Rightarrow> nat \<Rightarrow> int \<Rightarrow> nat \<Rightarrow> nat" where
  "bind_scan [] bm i least min_hwq_id = min_hwq_id"
| "bind_scan (q # qs) bm i least min_hwq_id =
     (if bit bm i then bind_scan qs bm (i + 1) least min_hwq_id
      else if hq_session_cnt q mod 2 ^ 32 < least
      then bind_scan qs bm (i + 1) (hq_session_cnt q mod 2 ^ 32) i
      else bind_scan qs bm (i + 1) least min_hwq_id)"

definition kl2_session_bind_hwq :: "kl2_dev \<Rightarrow> nat \<Rightarrow> kl2_dev option" where
  "kl2_session_bind_hwq d s = do {
     x \<leftarrow> d2_sess d s;
     (if s2_hwq x \<noteq> None then Some d
      else
        let i = bind_scan (d2_hwq d) (d2_hwq_bitmap d) 0 (2 ^ 32 - 1) 0
        in upd_sess (upd_hwq d i (\<lambda>q. q\<lparr>hq_session_list := hq_session_list q @ [s],
                                          hq_session_cnt := hq_session_cnt q + 1\<rparr>))
             s (\<lambda>x. x\<lparr>s2_hwq := Some i\<rparr>))
   }"

section \<open>Opening\<close>

text \<open>
  What opening gets from its surroundings: the address of the session and its identifier
  (\<^term>\<open>None\<close> when the allocation fails), the process id, the address of the user process that may be
  created, and whether its identifier could be entered.
\<close>

record create2_env =
  c2_sess :: "nat option"
  c2_id :: "nat option"
  c2_pid :: nat
  c2_uproc :: "nat option"
  c2_uproc_idr :: bool

definition kl2_create_userprocess_locked :: "create2_env \<Rightarrow> kl2_dev \<Rightarrow> (kl_err + nat) \<times> kl2_dev" where
  "kl2_create_userprocess_locked env d =
     (case c2_uproc env of
        None \<Rightarrow> (Inl ENOMEM, d)
      | Some u \<Rightarrow>
          if \<not> c2_uproc_idr env then (Inl ENOMEM, d)
          else (Inr u, d\<lparr>d2_uproc_idr := idr_insert (c2_pid env) u (d2_uproc_idr d),
                         d2_uproc := (d2_uproc d)(u \<mapsto> \<lparr>up_pid = c2_pid env, up_refs = 1,
                           up_state = KL2_UPROC_NORMAL, up_event_list = []\<rparr>)\<rparr>))"

text \<open>The part of \<^verbatim>\<open>kl2_create_session\<close> that finds or creates the user process and takes a reference.\<close>

definition find_or_create_uproc :: "create2_env \<Rightarrow> kl2_dev \<Rightarrow> ((kl_err + nat) \<times> kl2_dev) option" where
  "find_or_create_uproc env d =
     (case idr_find (d2_uproc_idr d) (c2_pid env) of
        None \<Rightarrow> Some (kl2_create_userprocess_locked env d)
      | Some u \<Rightarrow> do {
          p \<leftarrow> d2_uproc d u;
          (if up_state p \<noteq> KL2_UPROC_NORMAL then Some (Inl XPUERR_EVENTWAIT, d)
           else do {
             d1 \<leftarrow> upd_uproc d u (\<lambda>p. p\<lparr>up_refs := up_refs p + 1\<rparr>);
             Some (Inr u, d1)
           })
        })"

definition new_session2 :: "nat \<Rightarrow> nat \<Rightarrow> kl2_session" where
  "new_session2 sid u =
     \<lparr>s2_id = sid, s2_uproc = u, s2_state = KL2_SESS_NORMAL, s2_taint_state = KL2_SESS_NORMAL,
      s2_errno = None, s2_taint_errno = None, s2_unfinished_cnt = 0, s2_refs = 1, s2_hwq = None\<rparr>"

definition kl2_create_session :: "create2_env \<Rightarrow> kl2_dev \<Rightarrow> ((kl_err + nat) \<times> kl2_dev) option" where
  "kl2_create_session env d =
     (case c2_sess env of
        None \<Rightarrow> Some (Inl ENOMEM, d)
      | Some s \<Rightarrow>
          (case c2_id env of
             None \<Rightarrow> Some (Inl ENOSPC, d)
           | Some sid \<Rightarrow> do {
               let d1 = d\<lparr>d2_session_idr := idr_insert sid s (d2_session_idr d)\<rparr>;
               (r, d2) \<leftarrow> find_or_create_uproc env d1;
               (case r of
                  Inl err \<Rightarrow> Some (Inl err, d2\<lparr>d2_session_idr := idr_remove (d2_session_idr d2) sid\<rparr>)
                | Inr u \<Rightarrow> Some (Inr s, d2\<lparr>d2_sess := (d2_sess d2)(s \<mapsto> new_session2 sid u)\<rparr>))
             }))"

section \<open>Adding a task\<close>

text \<open>
  The bookkeeping of \<^verbatim>\<open>kl2_session_add_task\<close> that depends on the type of the task. A record task
  without an event is a \<^verbatim>\<open>BUG()\<close>. The result is the task as it is queued.
\<close>

definition account_task :: "kl2_dev \<Rightarrow> nat \<Rightarrow> kl2_task \<Rightarrow> (kl2_task \<times> kl2_dev) option" where
  "account_task d i task =
     (case tk_type task of
        KL2_TASKTYPE_KERNEL \<Rightarrow> Some (task, d)
      | KL2_TASKTYPE_EVNTREC \<Rightarrow> do {
          e \<leftarrow> tk_evnt task;
          let evnt_seq = u64 (hq_evnt_seq (d2_hwq d ! i) + 1);
          let d1 = upd_hwq d i (\<lambda>q. q\<lparr>hq_evnt_seq := evnt_seq\<rparr>);
          d2 \<leftarrow> upd_evnt d1 e (\<lambda>v. v\<lparr>ev_rec_cnt := u32 (ev_rec_cnt v + 1)\<rparr>);
          d3 \<leftarrow> evnt_get d2 e;
          Some (task\<lparr>tk_record_seq := evnt_seq\<rparr>, d3)
        }
      | KL2_TASKTYPE_EVNTWAIT \<Rightarrow> Some (task, d))"

definition add_task_locked ::
    "kl2_dev \<Rightarrow> nat \<Rightarrow> kl2_task \<Rightarrow> (kl_status \<times> kl2_dev \<times> kl2_task list \<times> kl2_task) option" where
  "add_task_locked d s task0 = do {
     x \<leftarrow> d2_sess d s;
     i \<leftarrow> s2_hwq x;
     let task = task0\<lparr>tk_sess := s, tk_hwq_id := hq_id (d2_hwq d ! i)\<rparr>;
     (if \<not> kl2_session_state_normal x then Some (Some XPUERR_NOSUPPORT, d, [], task)
      else do {
        (task1, d1) \<leftarrow> account_task d i task;
        d2 \<leftarrow> upd_sess d1 s (\<lambda>x. x\<lparr>s2_unfinished_cnt := s2_unfinished_cnt x + 1\<rparr>);
        d3 \<leftarrow> sess_get d2 s;
        let d4 = upd_hwq d3 i (\<lambda>q. q\<lparr>hq_pt_list := hq_pt_list q @ [task1], hq_cnt_all := u32 (hq_cnt_all q + 1)\<rparr>);
        (d5, written) \<leftarrow> kl2_hwq_dispatch_locked d4 i;
        Some (None, d5, written, task1)
      })
   }"

text \<open>Making a record known to those who wait for the event.\<close>

definition publish_record :: "kl2_dev \<Rightarrow> nat \<Rightarrow> nat \<Rightarrow> nat \<Rightarrow> kl2_dev option" where
  "publish_record d e i evnt_seq = upd_evnt d e (\<lambda>v. v\<lparr>ev_rec := Some (i, evnt_seq)\<rparr>)"

definition kl2_session_add_task ::
    "kl2_dev \<Rightarrow> nat \<Rightarrow> kl2_task \<Rightarrow> (kl_status \<times> kl2_dev \<times> kl2_task list) option" where
  "kl2_session_add_task d s task = do {
     x \<leftarrow> d2_sess d s;
     (if \<not> kl2_session_state_normal x \<or> d2_state d = KL2_ERROR then Some (Some XPUERR_NOSUPPORT, d, [])
      else do {
        d1 \<leftarrow> kl2_session_bind_hwq d s;
        (err, d2, written, task1) \<leftarrow> add_task_locked d1 s task;
        (if err \<noteq> None then Some (err, d2, written)
         else
           (case tk_type task1 of
              KL2_TASKTYPE_EVNTREC \<Rightarrow> do {
                e \<leftarrow> tk_evnt task1;
                d3 \<leftarrow> publish_record d2 e (tk_hwq_id task1) (tk_record_seq task1);
                Some (None, d3, written)
              }
            | _ \<Rightarrow> Some (None, d2, written)))
      })
   }"

text \<open>\<^verbatim>\<open>atomic_add_return(2, &kl2_dev->task_token) - 2\<close>.\<close>

definition take_token :: "kl2_dev \<Rightarrow> nat \<times> kl2_dev" where
  "take_token d = (d2_task_token d, d\<lparr>d2_task_token := u32 (d2_task_token d + 2)\<rparr>)"

text \<open>
  \<^verbatim>\<open>kl2_session_wait_until_finished\<close> when its first wait is over: a session with unfinished tasks is
  marked together with its queue. The two waits only read the count.
\<close>

definition taint_unfinished :: "kl2_dev \<Rightarrow> nat \<Rightarrow> kl2_dev option" where
  "taint_unfinished d s = do {
     x \<leftarrow> d2_sess d s;
     (if s2_unfinished_cnt x = 0 then Some d
      else do {
        d1 \<leftarrow> upd_sess d s (\<lambda>x. kl2_session_taint x XPUERR_TIMEOUT);
        (case s2_hwq x of
           None \<Rightarrow> Some d1
         | Some i \<Rightarrow> Some (upd_hwq d1 i (\<lambda>q. q\<lparr>hq_taint_state := KL2_HWQ_TAINT\<rparr>)))
      })
   }"

text \<open>Releasing the file after the wait.\<close>

definition kl2_release :: "kl2_dev \<Rightarrow> nat \<Rightarrow> kl2_dev option" where
  "kl2_release d s = sess_put d s"

section \<open>Events\<close>

definition kl2_event_find_and_get :: "kl2_dev \<Rightarrow> nat \<Rightarrow> (nat option \<times> kl2_dev) option" where
  "kl2_event_find_and_get d evnt_id =
     (case idr_find (d2_event_idr d) evnt_id of
        None \<Rightarrow> Some (None, d)
      | Some e \<Rightarrow> map_option (\<lambda>d1. (Some e, d1)) (evnt_get d e))"

text \<open>The address of the new event and its identifier are arguments.\<close>

definition kl2_create_event :: "kl2_dev \<Rightarrow> nat \<Rightarrow> nat option \<Rightarrow> nat option \<Rightarrow> (nat option \<times> kl2_dev) option" where
  "kl2_create_event d s addr eid =
     (case addr of
        None \<Rightarrow> Some (None, d)
      | Some e \<Rightarrow>
          (case eid of
             None \<Rightarrow> Some (None, d)
           | Some k \<Rightarrow> do {
               x \<leftarrow> d2_sess d s;
               let d1 = d\<lparr>d2_event_idr := idr_insert k e (d2_event_idr d)\<rparr>;
               d2 \<leftarrow> upd_uproc d1 (s2_uproc x) (\<lambda>p. p\<lparr>up_event_list := up_event_list p @ [e]\<rparr>);
               Some (Some e, d2\<lparr>d2_evnt := (d2_evnt d2)(e \<mapsto>
                 \<lparr>ev_id = k, ev_uproc = s2_uproc x, ev_state = KL2_EVNT_NORMAL, ev_rec = None,
                  ev_rec_cnt = 0, ev_fin_cnt = 0, ev_refs = 1\<rparr>)\<rparr>)
             }))"

text \<open>
  The requests. Copying the arguments from user space is an argument (\<^term>\<open>None\<close> when it faults), as
  are the addresses of new objects.
\<close>

definition ioctl_event_create ::
    "kl2_dev \<Rightarrow> nat \<Rightarrow> bool \<Rightarrow> nat option \<Rightarrow> nat option \<Rightarrow> bool \<Rightarrow> ((kl_err + nat) \<times> kl2_dev) option" where
  "ioctl_event_create d s copy_in addr eid copy_out =
     (if \<not> copy_in then Some (Inl EFAULT, d)
      else do {
        (r, d1) \<leftarrow> kl2_create_event d s addr eid;
        (case r of
           None \<Rightarrow> Some (Inl ENOMEM, d1)
         | Some e \<Rightarrow> do {
             v \<leftarrow> d2_evnt d1 e;
             Some (if copy_out then Inr (ev_id v) else Inl EFAULT, d1)
           })
      })"

definition ioctl_event_destroy :: "kl2_dev \<Rightarrow> nat \<Rightarrow> nat option \<Rightarrow> (kl_status \<times> kl2_dev) option" where
  "ioctl_event_destroy d s arg =
     (case arg of
        None \<Rightarrow> Some (Some EFAULT, d)
      | Some evnt_id \<Rightarrow>
          (case idr_find (d2_event_idr d) evnt_id of
             None \<Rightarrow> Some (Some XPUERR_INVALID_PARAM, d)
           | Some e \<Rightarrow> do {
               v \<leftarrow> d2_evnt d e;
               x \<leftarrow> d2_sess d s;
               (if ev_uproc v \<noteq> s2_uproc x then Some (Some XPUERR_INVALID_PARAM, d)
                else if ev_state v = KL2_EVNT_DESTROYED then Some (Some XPUERR_INVALID_PARAM, d)
                else do {
                  d1 \<leftarrow> upd_evnt d e (\<lambda>v. v\<lparr>ev_state := KL2_EVNT_DESTROYED\<rparr>);
                  d2 \<leftarrow> evnt_put d1 e;
                  Some (None, d2)
                })
             }))"

text \<open>An event reference taken, checked against the process of the session, and given back on a mismatch.\<close>

definition event_of_session :: "kl2_dev \<Rightarrow> nat \<Rightarrow> nat \<Rightarrow> (nat option \<times> kl2_dev) option" where
  "event_of_session d s evnt_id = do {
     (r, d1) \<leftarrow> kl2_event_find_and_get d evnt_id;
     (case r of
        None \<Rightarrow> Some (None, d1)
      | Some e \<Rightarrow> do {
          v \<leftarrow> d2_evnt d1 e;
          x \<leftarrow> d2_sess d1 s;
          (if ev_uproc v \<noteq> s2_uproc x
           then map_option (\<lambda>d2. (None, d2)) (evnt_put d1 e) else Some (Some e, d1))
        })
   }"

definition event_task :: "kl2_tasktype \<Rightarrow> nat \<Rightarrow> nat \<Rightarrow> nat option \<Rightarrow> nat \<times> nat \<Rightarrow> kl2_task" where
  "event_task ty ref token evnt wait =
     \<lparr>tk_ref = ref, tk_token = token, tk_type = ty, tk_free_param = False, tk_param_addr = 0,
      tk_wait_vstream_id = fst wait, tk_record_seq = snd wait, tk_evnt = evnt, tk_sess = 0, tk_hwq_id = 0\<rparr>"

definition ioctl_event_record ::
    "kl2_dev \<Rightarrow> nat \<Rightarrow> nat option \<Rightarrow> nat option \<Rightarrow> (kl_status \<times> kl2_dev \<times> kl2_task list) option" where
  "ioctl_event_record d s arg task_addr =
     (case arg of
        None \<Rightarrow> Some (Some EFAULT, d, [])
      | Some evnt_id \<Rightarrow> do {
          (r, d1) \<leftarrow> event_of_session d s evnt_id;
          (case r of
             None \<Rightarrow> Some (Some XPUERR_INVALID_PARAM, d1, [])
           | Some e \<Rightarrow>
               (case task_addr of
                  None \<Rightarrow> map_option (\<lambda>d2. (Some ENOMEM, d2, [])) (evnt_put d1 e)
                | Some ref \<Rightarrow> do {
                    let (token, d2) = take_token d1;
                    (err, d3, written) \<leftarrow>
                      kl2_session_add_task d2 s (event_task KL2_TASKTYPE_EVNTREC ref token (Some e) (0, 0));
                    d4 \<leftarrow> evnt_put d3 e;
                    Some (err, d4, written)
                  }))
        })"

definition ioctl_event_stream_wait ::
    "kl2_dev \<Rightarrow> nat \<Rightarrow> nat option \<Rightarrow> nat option \<Rightarrow> (kl_status \<times> kl2_dev \<times> kl2_task list) option" where
  "ioctl_event_stream_wait d s arg task_addr =
     (case arg of
        None \<Rightarrow> Some (Some EFAULT, d, [])
      | Some evnt_id \<Rightarrow> do {
          (r, d1) \<leftarrow> event_of_session d s evnt_id;
          (case r of
             None \<Rightarrow> Some (Some XPUERR_INVALID_PARAM, d1, [])
           | Some e \<Rightarrow>
               (case task_addr of
                  None \<Rightarrow> map_option (\<lambda>d2. (Some ENOMEM, d2, [])) (evnt_put d1 e)
                | Some ref \<Rightarrow> do {
                    let (token, d2) = take_token d1;
                    v \<leftarrow> d2_evnt d2 e;
                    (case ev_rec v of
                       None \<Rightarrow> map_option (\<lambda>d3. (Some XPUERR_INVALID_PARAM, d3, [])) (evnt_put d2 e)
                     | Some w \<Rightarrow> do {
                         (err, d3, written) \<leftarrow>
                           kl2_session_add_task d2 s (event_task KL2_TASKTYPE_EVNTWAIT ref token None w);
                         d4 \<leftarrow> evnt_put d3 e;
                         Some (err, d4, written)
                       })
                  }))
        })"

text \<open>
  One look of the polling loop \<^verbatim>\<open>wait_evnt_timeout_interruptible\<close>: \<^term>\<open>None\<close> goes on polling. Whether
  the time is up and a signal is pending are arguments.
\<close>

definition wait_evnt_poll :: "kl2_session \<Rightarrow> kl2_event \<Rightarrow> bool \<Rightarrow> bool \<Rightarrow> kl_status option" where
  "wait_evnt_poll sess v time_up signal =
     (if ev_rec_cnt v = 0 \<or> ev_rec_cnt v \<le> ev_fin_cnt v then Some (s2_errno sess)
      else if time_up then Some (Some XPUERR_TIMEOUT)
      else if signal then Some (Some ERESTARTSYS)
      else if ev_state v = KL2_EVNT_REVOKED then Some (Some XPUERR_EVENTWAIT)
      else if s2_errno sess \<noteq> None then Some (s2_errno sess)
      else None)"

end
