(* ===== verification/Kl2_Excp.thy ===== *)
theory Kl2_Excp
  imports Kl2_Session
begin

text \<open>
  Recovery of KL2 after an exception or a time-out, the task side of \<^verbatim>\<open>kl2_handle_excp_work_func\<close> in
  \<^verbatim>\<open>kl2/exception.c\<close>: the error spreads to the sessions that may wait for a lost record, marked sessions
  become sessions in error, and the queues concerned are reset, purged and filled again.

  The first part of the work item resets the compute units until no queue has a task under way; which
  queues got there is the argument \<open>underway_zero\<close>.
\<close>

section \<open>Spreading the error\<close>

definition kl2_excp_find_sess_tainting_from :: "kl2_dev \<Rightarrow> nat \<Rightarrow> nat option" where
  "kl2_excp_find_sess_tainting_from d i =
     (let q = d2_hwq d ! i;
          etoken = eb_token (d2_board d ! i)
      in case dropWhile (\<lambda>task. tk_token task \<noteq> etoken) (hq_rt_list q) of
           [] \<Rightarrow> None
         | etask # rest \<Rightarrow>
             if list_ex (\<lambda>task. tk_type task = KL2_TASKTYPE_EVNTREC \<and> tk_sess task = tk_sess etask)
                  (rest @ hq_pt_list q)
             then Some (tk_sess etask) else None)"

definition upd_board :: "kl2_dev \<Rightarrow> nat \<Rightarrow> (kl2_board \<Rightarrow> kl2_board) \<Rightarrow> kl2_dev" where
  "upd_board d i f = d\<lparr>d2_board := (d2_board d)[i := f (d2_board d ! i)]\<rparr>"

definition kl2_excp_taint_hwq :: "kl2_dev \<Rightarrow> nat \<Rightarrow> kl2_dev option" where
  "kl2_excp_taint_hwq d s = do {
     d1 \<leftarrow> kl2_session_bind_hwq d s;
     x \<leftarrow> d2_sess d1 s;
     i \<leftarrow> s2_hwq x;
     Some (upd_board d1 i (\<lambda>b. b\<lparr>eb_taint_cnt := u32 (eb_taint_cnt b + 1)\<rparr>))
   }"

fun taint_sessions :: "kl2_dev \<Rightarrow> nat \<Rightarrow> nat \<Rightarrow> (nat \<times> nat) list \<Rightarrow> kl2_dev option" where
  "taint_sessions d u esess [] = Some d"
| "taint_sessions d u esess ((sid, s) # idr) = do {
     x \<leftarrow> d2_sess d s;
     (if s2_uproc x = u \<and> s \<noteq> esess then do {
        d1 \<leftarrow> upd_sess d s (\<lambda>x. kl2_session_mark_error x (Some XPUERR_EVENTWAIT) True);
        d2 \<leftarrow> kl2_excp_taint_hwq d1 s;
        taint_sessions d2 u esess idr
      } else taint_sessions d u esess idr)
   }"

definition kl2_excp_taint_uproc_sess :: "kl2_dev \<Rightarrow> nat \<Rightarrow> kl2_dev option" where
  "kl2_excp_taint_uproc_sess d esess = do {
     x \<leftarrow> d2_sess d esess;
     p \<leftarrow> d2_uproc d (s2_uproc x);
     (if up_state p \<noteq> KL2_UPROC_NORMAL then Some d
      else do {
        d1 \<leftarrow> upd_uproc d (s2_uproc x) (\<lambda>p. p\<lparr>up_state := KL2_UPROC_ERROR\<rparr>);
        taint_sessions d1 (s2_uproc x) esess (d2_session_idr d1)
      })
   }"

definition taint_from_queue :: "kl2_dev \<Rightarrow> nat \<Rightarrow> kl2_dev option" where
  "taint_from_queue d i =
     (if eb_excp_cnt (d2_board d ! i) = 0 then Some d
      else
        (case kl2_excp_find_sess_tainting_from d i of
           None \<Rightarrow> Some d
         | Some esess \<Rightarrow> do {
             d1 \<leftarrow> upd_sess d esess (\<lambda>x. kl2_session_mark_error x (Some XPUERR_KEXCEPTION) False);
             kl2_excp_taint_uproc_sess d1 esess
           }))"

definition valid_queues :: "kl2_dev \<Rightarrow> nat list" where
  "valid_queues d = filter (\<lambda>i. \<not> bit (d2_hwq_bitmap d) i) [0..<KL2_HWQ_CNT]"

fun over_queues :: "(kl2_dev \<Rightarrow> nat \<Rightarrow> kl2_dev option) \<Rightarrow> kl2_dev \<Rightarrow> nat list \<Rightarrow> kl2_dev option" where
  "over_queues f d [] = Some d"
| "over_queues f d (i # is) = do { d1 \<leftarrow> f d i; over_queues f d1 is }"

definition kl2_excp_taint_all :: "kl2_dev \<Rightarrow> kl2_dev option" where
  "kl2_excp_taint_all d = over_queues taint_from_queue d (valid_queues d)"

text \<open>The marks of \<^verbatim>\<open>taint_state\<close> become errors.\<close>

fun convert_taint :: "kl2_dev \<Rightarrow> (nat \<times> nat) list \<Rightarrow> kl2_dev option" where
  "convert_taint d [] = Some d"
| "convert_taint d ((sid, s) # idr) = do {
     x \<leftarrow> d2_sess d s;
     d1 \<leftarrow> (if s2_taint_state x \<noteq> KL2_SESS_NORMAL
            then upd_sess d s (\<lambda>x. kl2_session_mark_error x (s2_taint_errno x) True) else Some d);
     convert_taint d1 idr
   }"

section \<open>Which queues to reset\<close>

definition settle_board :: "(nat \<Rightarrow> bool) \<Rightarrow> kl2_dev \<Rightarrow> nat \<Rightarrow> kl2_dev" where
  "settle_board underway_zero d i =
     (let b = d2_board d ! i
      in if eb_excp_cnt b = 0 \<and> eb_taint_2_reset_cnt b = 0 \<and> eb_taint_cnt b \<noteq> 0
         then upd_board
                (if underway_zero i
                 then upd_board d i (\<lambda>b. b\<lparr>eb_taint_2_reset_cnt := u32 (eb_taint_2_reset_cnt b + 1)\<rparr>)
                 else upd_hwq d i (\<lambda>q. q\<lparr>hq_taint_state := KL2_HWQ_TAINT\<rparr>))
                i (\<lambda>b. b\<lparr>eb_taint_cnt := 0\<rparr>)
         else d)"

section \<open>Resetting a queue\<close>

text \<open>What the reset does to the hardware queue: it is emptied, then descriptors are written.\<close>

datatype hw_op = HwReset nat | HwWrite nat kl2_task

definition reset_queue :: "kl2_dev \<Rightarrow> nat \<Rightarrow> (kl2_dev \<times> hw_op list) option" where
  "reset_queue d i = do {
     let b = d2_board d ! i;
     let etask = (if eb_excp_cnt b \<noteq> 0 then find (\<lambda>task. tk_token task = eb_token b) (hq_rt_list (d2_hwq d ! i))
                  else None);
     d1 \<leftarrow> (case etask of
              None \<Rightarrow> Some d
            | Some task \<Rightarrow> do {
                d1 \<leftarrow> sess_get d (tk_sess task);
                upd_sess d1 (tk_sess task) (\<lambda>x. kl2_session_mark_error x (Some XPUERR_KEXCEPTION) False)
              });
     d2 \<leftarrow> revoke_task_from_err_session_locked d1 i;
     again \<leftarrow> redispatch_running_task_locked (d2_hwq d2 ! i);
     (q, written) \<leftarrow> dispatch_nocheck (d2_sess d2) (d2_hwq d2 ! i);
     let d3 = upd_hwq d2 i (\<lambda>_. q);
     d4 \<leftarrow> (case etask of None \<Rightarrow> Some d3 | Some task \<Rightarrow> sess_put d3 (tk_sess task));
     let d5 = upd_hwq d4 i (\<lambda>q. q\<lparr>hq_finish_work := True\<rparr>);
     Some (upd_board d5 i (\<lambda>_. \<lparr>eb_token = 0, eb_excp_cnt = 0, eb_taint_cnt = 0, eb_taint_2_reset_cnt = 0\<rparr>),
           HwReset i # map (HwWrite i) (again @ written))
   }"

fun reset_queues :: "(nat \<Rightarrow> bool) \<Rightarrow> kl2_dev \<Rightarrow> nat list \<Rightarrow> (kl2_dev \<times> hw_op list) option" where
  "reset_queues underway_zero d [] = Some (d, [])"
| "reset_queues underway_zero d (i # is) =
     (if \<not> underway_zero i \<or> eb_excp_cnt (d2_board d ! i) = 0 \<and> eb_taint_2_reset_cnt (d2_board d ! i) = 0
      then reset_queues underway_zero d is
      else do {
        (d1, ops) \<leftarrow> reset_queue d i;
        (d2, ops') \<leftarrow> reset_queues underway_zero d1 is;
        Some (d2, ops @ ops')
      })"

text \<open>The part of the work item after the compute units are idle.\<close>

definition excp_work_tasks :: "(nat \<Rightarrow> bool) \<Rightarrow> kl2_dev \<Rightarrow> (kl2_dev \<times> hw_op list) option" where
  "excp_work_tasks underway_zero d = do {
     d1 \<leftarrow> kl2_excp_taint_all d;
     d2 \<leftarrow> convert_taint d1 (d2_session_idr d1);
     let d3 = foldl (settle_board underway_zero) d2 (valid_queues d2);
     (d4, ops) \<leftarrow> reset_queues underway_zero d3 (valid_queues d3);
     Some (if d2_in_reset_state d4 then d4 else d4\<lparr>d2_state := KL2_RUNNING\<rparr>, ops)
   }"

end
