(* ===== verification/Kl2_Own.thy ===== *)
theory Kl2_Own
  imports Kl2_Excp "HOL-Library.Multiset"
begin

text \<open>
  Who refers to what in the KL2 task path, apart from how the code stores it: the sessions, user
  processes and events by address, and for every queue the tasks that a session still waits for
  (\<open>B\<close>) and those that are only being ended (\<open>D\<close>). The multiset \<open>H\<close> holds the references to
  sessions outside the queues (an open file, a task that is being ended), \<open>C\<close> those to events (a
  request in progress, with its session), and \<open>owned\<close> the events whose creator has not destroyed
  them. The predicate \<open>own_ok\<close> says that every count is exact and nothing refers to a freed object;
  one lemma per operation shows that it is kept.
\<close>

section \<open>Counting tasks\<close>

definition n_of :: "(kl2_task \<Rightarrow> bool) \<Rightarrow> kl2_task multiset \<Rightarrow> nat" where
  "n_of P M = size (filter_mset P M)"

definition of_sess :: "nat \<Rightarrow> kl2_task \<Rightarrow> bool" where
  "of_sess s t \<longleftrightarrow> tk_sess t = s"

definition is_rec :: "nat \<Rightarrow> kl2_task \<Rightarrow> bool" where
  "is_rec e t \<longleftrightarrow> tk_type t = KL2_TASKTYPE_EVNTREC \<and> tk_evnt t = Some e"

lemma n_of_simps [simp]:
  "n_of P {#} = 0"
  "n_of P (add_mset t M) = (if P t then n_of P M + 1 else n_of P M)"
  "n_of P (M + N) = n_of P M + n_of P N"
  by (simp_all add: n_of_def)

lemma n_of_minus: "t \<in># M \<Longrightarrow> n_of P M = n_of P (M - {#t#}) + (if P t then 1 else 0)"
  using n_of_simps(2) [of P t "M - {#t#}"] by simp

lemma n_of_pos: "t \<in># M \<Longrightarrow> P t \<Longrightarrow> 0 < n_of P M"
  using n_of_minus [of t M P] by simp

lemma n_of_zeroD: "n_of P M = 0 \<Longrightarrow> t \<in># M \<Longrightarrow> \<not> P t"
  using n_of_pos by fastforce

definition rec_refs :: "(nat \<Rightarrow> kl2_task multiset) \<Rightarrow> nat \<Rightarrow> nat" where
  "rec_refs A e = (\<Sum>i<KL2_HWQ_CNT. n_of (is_rec e) (A i))"

lemma sum_upd_nat: "i < (n :: nat) \<Longrightarrow> (\<Sum>j<n. f ((A(i := M)) j)) + f (A i) = (\<Sum>j<n. f (A j)) + (f M :: nat)"
proof -
  assume i: "i < n"
  have "(\<Sum>j<n. f ((A(i := M)) j)) = f M + (\<Sum>j\<in>{..<n} - {i}. f ((A(i := M)) j))"
    using i by (subst sum.remove [of _ i]) auto
  moreover have "(\<Sum>j\<in>{..<n} - {i}. f ((A(i := M)) j)) = (\<Sum>j\<in>{..<n} - {i}. f (A j))"
    by (rule sum.cong) auto
  moreover have "(\<Sum>j<n. f (A j)) = f (A i) + (\<Sum>j\<in>{..<n} - {i}. f (A j))"
    using i by (subst sum.remove [of _ i]) auto
  ultimately show ?thesis by simp
qed

lemma rec_refs_upd: "i < KL2_HWQ_CNT \<Longrightarrow>
    rec_refs (A(i := M)) e + n_of (is_rec e) (A i) = rec_refs A e + n_of (is_rec e) M"
  unfolding rec_refs_def by (rule sum_upd_nat)

lemma rec_refs_pos: "i < KL2_HWQ_CNT \<Longrightarrow> t \<in># A i \<Longrightarrow> is_rec e t \<Longrightarrow> 0 < rec_refs A e"
  unfolding rec_refs_def by (metis (mono_tags, lifting) finite_lessThan lessThan_iff n_of_pos sum_eq_0_iff zero_less_iff_neq_zero)

lemma rec_refs_zeroI: "(\<And>i t. i < KL2_HWQ_CNT \<Longrightarrow> t \<in># A i \<Longrightarrow> \<not> is_rec e t) \<Longrightarrow> rec_refs A e = 0"
  by (auto simp: rec_refs_def n_of_def)

section \<open>Exact ownership\<close>

definition all_tasks :: "(nat \<Rightarrow> kl2_task multiset) \<Rightarrow> (nat \<Rightarrow> kl2_task multiset) \<Rightarrow> nat \<Rightarrow> kl2_task multiset" where
  "all_tasks B D i = B i + D i"

definition on_queue :: "(nat \<Rightarrow> kl2_task multiset) \<Rightarrow> kl2_session \<Rightarrow> nat \<Rightarrow> nat" where
  "on_queue A x s = (case s2_hwq x of None \<Rightarrow> 0 | Some i \<Rightarrow> n_of (of_sess s) (A i))"

definition sessions_of :: "(nat \<Rightarrow> kl2_session option) \<Rightarrow> nat \<Rightarrow> nat set" where
  "sessions_of S u = {s. \<exists>x. S s = Some x \<and> s2_uproc x = u}"

text \<open>An event reference of a session: both are live and belong to one process.\<close>

definition linked :: "(nat \<Rightarrow> kl2_session option) \<Rightarrow> (nat \<Rightarrow> kl2_event option) \<Rightarrow> nat \<Rightarrow> nat \<Rightarrow> bool" where
  "linked S E s e \<longleftrightarrow> (\<exists>x v. S s = Some x \<and> E e = Some v \<and> ev_uproc v = s2_uproc x)"

definition tasks_ok ::
    "(nat \<Rightarrow> kl2_session option) \<Rightarrow> (nat \<Rightarrow> kl2_event option) \<Rightarrow> (nat \<Rightarrow> kl2_task multiset) \<Rightarrow> bool"
  where
  "tasks_ok S E A \<longleftrightarrow> (\<forall>i < KL2_HWQ_CNT. \<forall>t. t \<in># A i \<longrightarrow>
     (\<exists>x. S (tk_sess t) = Some x \<and> s2_hwq x = Some i) \<and>
     (tk_type t = KL2_TASKTYPE_EVNTREC \<longrightarrow> (\<exists>e. tk_evnt t = Some e \<and> linked S E (tk_sess t) e)))"

definition sess_entry ::
    "(nat \<Rightarrow> kl2_userprocess option) \<Rightarrow> (nat \<Rightarrow> kl2_task multiset) \<Rightarrow> (nat \<Rightarrow> kl2_task multiset) \<Rightarrow> nat multiset \<Rightarrow> nat \<Rightarrow> kl2_session \<Rightarrow> bool"
  where
  "sess_entry U A B H s x \<longleftrightarrow>
     (\<forall>i. s2_hwq x = Some i \<longrightarrow> i < KL2_HWQ_CNT) \<and>
     s2_unfinished_cnt x = int (on_queue B x s) \<and>
     s2_refs x = on_queue A x s + count H s \<and> 0 < s2_refs x \<and> U (s2_uproc x) \<noteq> None"

definition sess_ok ::
    "(nat \<Rightarrow> kl2_session option) \<Rightarrow> (nat \<Rightarrow> kl2_userprocess option) \<Rightarrow> (nat \<Rightarrow> kl2_task multiset) \<Rightarrow> (nat \<Rightarrow> kl2_task multiset) \<Rightarrow> nat multiset \<Rightarrow> bool"
  where
  "sess_ok S U A B H \<longleftrightarrow> (\<forall>s x. S s = Some x \<longrightarrow> sess_entry U A B H s x)"

text \<open>The record count and the finished count of an event differ by its records that are on a queue.\<close>

definition evnt_entry ::
    "(nat \<Rightarrow> kl2_userprocess option) \<Rightarrow> (nat \<Rightarrow> kl2_task multiset) \<Rightarrow> (nat \<times> nat) multiset \<Rightarrow> nat set \<Rightarrow> nat \<Rightarrow> kl2_event \<Rightarrow> bool"
  where
  "evnt_entry U A C owned e v \<longleftrightarrow>
     ev_refs v = rec_refs A e + count (image_mset snd C) e + (if e \<in> owned then 1 else 0) \<and> 0 < ev_refs v \<and>
     (\<exists>p. U (ev_uproc v) = Some p \<and> e \<in> set (up_event_list p)) \<and>
     ev_rec_cnt v = ev_fin_cnt v + rec_refs A e \<and> ev_rec_cnt v < 2 ^ 32"

definition evnts_ok ::
    "(nat \<Rightarrow> kl2_userprocess option) \<Rightarrow> (nat \<Rightarrow> kl2_event option) \<Rightarrow> (nat \<Rightarrow> kl2_task multiset) \<Rightarrow> (nat \<times> nat) multiset \<Rightarrow> nat set \<Rightarrow> bool"
  where
  "evnts_ok U E A C owned \<longleftrightarrow> (\<forall>e v. E e = Some v \<longrightarrow> evnt_entry U A C owned e v)"

definition uprocs_ok ::
    "(nat \<Rightarrow> kl2_session option) \<Rightarrow> (nat \<Rightarrow> kl2_userprocess option) \<Rightarrow> (nat \<Rightarrow> kl2_event option) \<Rightarrow> bool"
  where
  "uprocs_ok S U E \<longleftrightarrow> finite (dom S) \<and> (\<forall>u p. U u = Some p \<longrightarrow>
     up_refs p = card (sessions_of S u) \<and> 0 < up_refs p \<and> distinct (up_event_list p) \<and>
     (\<forall>e. e \<in> set (up_event_list p) \<longrightarrow> (\<exists>v. E e = Some v \<and> ev_uproc v = u)))"

definition held_ok ::
    "(nat \<Rightarrow> kl2_session option) \<Rightarrow> (nat \<Rightarrow> kl2_event option) \<Rightarrow> nat multiset \<Rightarrow> (nat \<times> nat) multiset \<Rightarrow> nat set \<Rightarrow> bool"
  where
  "held_ok S E H C owned \<longleftrightarrow>
     (\<forall>s. s \<in># H \<longrightarrow> S s \<noteq> None) \<and> (\<forall>s e. (s, e) \<in># C \<longrightarrow> s \<in># H \<and> linked S E s e) \<and>
     (\<forall>e. e \<in> owned \<longrightarrow> E e \<noteq> None)"

definition own_ok ::
    "(nat \<Rightarrow> kl2_session option) \<Rightarrow> (nat \<Rightarrow> kl2_userprocess option) \<Rightarrow> (nat \<Rightarrow> kl2_event option) \<Rightarrow> (nat \<Rightarrow> kl2_task multiset) \<Rightarrow> (nat \<Rightarrow> kl2_task multiset) \<Rightarrow> nat multiset \<Rightarrow> (nat \<times> nat) multiset \<Rightarrow> nat set \<Rightarrow> bool"
  where
  "own_ok S U E B D H C owned \<longleftrightarrow>
     tasks_ok S E (all_tasks B D) \<and> sess_ok S U (all_tasks B D) B H \<and>
     evnts_ok U E (all_tasks B D) C owned \<and> uprocs_ok S U E \<and> held_ok S E H C owned"

lemmas own_defs = own_ok_def tasks_ok_def sess_ok_def evnts_ok_def uprocs_ok_def held_ok_def

lemma all_tasks_upd [simp]:
  "all_tasks (B(i := M)) D = (all_tasks B D)(i := M + D i)"
  "all_tasks B (D(i := M)) = (all_tasks B D)(i := B i + M)"
  by (auto simp: all_tasks_def)

lemma sess_okD: "sess_ok S U A B H \<Longrightarrow> S s = Some x \<Longrightarrow> sess_entry U A B H s x"
  by (simp add: sess_ok_def)

lemma sess_ok_upd:
  assumes "sess_ok S U A B H" "sess_entry U' A' B' H' s x'"
    "\<And>s' y. s' \<noteq> s \<Longrightarrow> S s' = Some y \<Longrightarrow> sess_entry U A B H s' y \<Longrightarrow> sess_entry U' A' B' H' s' y"
  shows "sess_ok (S(s \<mapsto> x')) U' A' B' H'"
  using assms by (auto simp: sess_ok_def)

lemma evnts_okD: "evnts_ok U E A C owned \<Longrightarrow> E e = Some v \<Longrightarrow> evnt_entry U A C owned e v"
  by (simp add: evnts_ok_def)

lemma evnts_ok_upd:
  assumes "evnts_ok U E A C owned" "evnt_entry U' A' C' owned' e v'"
    "\<And>e' y. e' \<noteq> e \<Longrightarrow> E e' = Some y \<Longrightarrow> evnt_entry U A C owned e' y \<Longrightarrow> evnt_entry U' A' C' owned' e' y"
  shows "evnts_ok U' (E(e \<mapsto> v')) A' C' owned'"
  using assms by (auto simp: evnts_ok_def)

lemma sess_entry_cong:
  "on_queue A' x s = on_queue A x s \<Longrightarrow> on_queue B' x s = on_queue B x s \<Longrightarrow> count H' s = count H s \<Longrightarrow>
   sess_entry U A' B' H' s x \<longleftrightarrow> sess_entry U A B H s x"
  by (simp add: sess_entry_def)

lemma evnt_entry_cong:
  "rec_refs A' e = rec_refs A e \<Longrightarrow> count (image_mset snd C') e = count (image_mset snd C) e \<Longrightarrow>
   (e \<in> owned' \<longleftrightarrow> e \<in> owned) \<Longrightarrow> evnt_entry U A' C' owned' e v \<longleftrightarrow> evnt_entry U A C owned e v"
  by (simp only: evnt_entry_def)

text \<open>Sessions that agree on process and queue.\<close>

definition same_ends :: "(nat \<Rightarrow> kl2_session option) \<Rightarrow> (nat \<Rightarrow> kl2_session option) \<Rightarrow> bool" where
  "same_ends S S' \<longleftrightarrow> (\<forall>s. (S s = None \<longleftrightarrow> S' s = None) \<and>
     (\<forall>x x'. S s = Some x \<longrightarrow> S' s = Some x' \<longrightarrow> s2_uproc x' = s2_uproc x \<and> (s2_hwq x \<noteq> None \<longrightarrow> s2_hwq x' = s2_hwq x)))"

lemma same_endsI: "S s = Some x \<Longrightarrow> s2_uproc x' = s2_uproc x \<Longrightarrow> s2_hwq x \<noteq> None \<longrightarrow> s2_hwq x' = s2_hwq x \<Longrightarrow>
    same_ends S (S(s \<mapsto> x'))"
  by (auto simp: same_ends_def)

lemma same_ends_dom: "same_ends S S' \<Longrightarrow> dom S' = dom S"
  by (rule set_eqI) (metis same_ends_def domIff)

lemma same_ends_D: "same_ends S S' \<Longrightarrow> S s = Some x \<Longrightarrow>
    \<exists>x'. S' s = Some x' \<and> s2_uproc x' = s2_uproc x \<and> (s2_hwq x \<noteq> None \<longrightarrow> s2_hwq x' = s2_hwq x)"
  unfolding same_ends_def by (metis option.exhaust)

lemma same_ends_D2: "same_ends S S' \<Longrightarrow> S' s = Some x' \<Longrightarrow> \<exists>x. S s = Some x \<and> s2_uproc x' = s2_uproc x"
  unfolding same_ends_def by (metis option.exhaust)

lemma linked_same: "same_ends S S' \<Longrightarrow> linked S E s e \<Longrightarrow> linked S' E s e"
  unfolding linked_def by (metis same_ends_D)

lemma sessions_of_same: "same_ends S S' \<Longrightarrow> sessions_of S' u = sessions_of S u"
  unfolding sessions_of_def by (auto dest: same_ends_D same_ends_D2)

lemma tasks_okD: "tasks_ok S E A \<Longrightarrow> i < KL2_HWQ_CNT \<Longrightarrow> t \<in># A i \<Longrightarrow>
    (\<exists>x. S (tk_sess t) = Some x \<and> s2_hwq x = Some i) \<and>
     (tk_type t = KL2_TASKTYPE_EVNTREC \<longrightarrow> (\<exists>e. tk_evnt t = Some e \<and> linked S E (tk_sess t) e))"
  unfolding tasks_ok_def by blast

lemma tasks_same:
  assumes "same_ends S S'" "tasks_ok S E A"
  shows "tasks_ok S' E A"
  unfolding tasks_ok_def
proof (intro allI impI)
  fix i t assume i: "i < KL2_HWQ_CNT" "t \<in># A i"
  from tasks_okD [OF assms(2) i] obtain x where x: "S (tk_sess t) = Some x" "s2_hwq x = Some i"
    and r: "tk_type t = KL2_TASKTYPE_EVNTREC \<longrightarrow> (\<exists>e. tk_evnt t = Some e \<and> linked S E (tk_sess t) e)" by blast
  from same_ends_D [OF assms(1) x(1)] x(2) obtain x' where "S' (tk_sess t) = Some x'" "s2_hwq x' = Some i" by auto
  with r linked_same [OF assms(1)] show "(\<exists>x. S' (tk_sess t) = Some x \<and> s2_hwq x = Some i) \<and>
      (tk_type t = KL2_TASKTYPE_EVNTREC \<longrightarrow> (\<exists>e. tk_evnt t = Some e \<and> linked S' E (tk_sess t) e))" by blast
qed

lemma uprocs_same: "same_ends S S' \<Longrightarrow> uprocs_ok S U E \<Longrightarrow> uprocs_ok S' U E"
  unfolding uprocs_ok_def by (simp only: sessions_of_same same_ends_dom) blast

lemma held_same: "same_ends S S' \<Longrightarrow> held_ok S E H C owned \<Longrightarrow> held_ok S' E H C owned"
  unfolding held_ok_def by (metis linked_same same_ends_def)

text \<open>Events that agree on their process.\<close>

lemma linked_evnt: "E e = Some v \<Longrightarrow> ev_uproc v' = ev_uproc v \<Longrightarrow> linked S (E(e \<mapsto> v')) s e' \<longleftrightarrow> linked S E s e'"
  by (auto simp: linked_def)

lemma tasks_evnt: "E e = Some v \<Longrightarrow> ev_uproc v' = ev_uproc v \<Longrightarrow> tasks_ok S (E(e \<mapsto> v')) A \<longleftrightarrow> tasks_ok S E A"
  by (simp add: tasks_ok_def linked_evnt)

lemma uprocs_evnt: "E e = Some v \<Longrightarrow> ev_uproc v' = ev_uproc v \<Longrightarrow> uprocs_ok S U E \<Longrightarrow> uprocs_ok S U (E(e \<mapsto> v'))"
  unfolding uprocs_ok_def by (metis (no_types, lifting) fun_upd_apply option.inject)

lemma held_evnt: "E e = Some v \<Longrightarrow> ev_uproc v' = ev_uproc v \<Longrightarrow>
    held_ok S (E(e \<mapsto> v')) H C owned \<longleftrightarrow> held_ok S E H C owned"
  by (auto simp: held_ok_def linked_evnt)

section \<open>Tasks\<close>

lemma on_queue_upd: "on_queue (A(i := M)) x s = (if s2_hwq x = Some i then n_of (of_sess s) M else on_queue A x s)"
  by (simp add: on_queue_def split: option.split)

lemma on_queue_cong: "s2_hwq x' = s2_hwq x \<Longrightarrow> on_queue A x' s = on_queue A x s"
  by (simp add: on_queue_def)

lemma no_tasks_elsewhere:
  "tasks_ok S E A \<Longrightarrow> S s = Some x \<Longrightarrow> s2_hwq x \<noteq> Some i \<Longrightarrow> i < KL2_HWQ_CNT \<Longrightarrow> t \<in># A i \<Longrightarrow> tk_sess t \<noteq> s"
  unfolding tasks_ok_def by force

lemma n_of_zeroI: "(\<And>t. t \<in># M \<Longrightarrow> \<not> P t) \<Longrightarrow> n_of P M = 0"
  by (auto simp: n_of_def)

lemma sess_entryD: "sess_entry U A B H s x \<Longrightarrow> s2_hwq x = Some i \<Longrightarrow> i < KL2_HWQ_CNT"
  by (simp add: sess_entry_def)

lemma own_bind:
  assumes ok: "own_ok S U E B D H C owned" and x: "S s = Some x" "s2_hwq x = None" and i: "i < KL2_HWQ_CNT"
  shows "own_ok (S(s \<mapsto> x\<lparr>s2_hwq := Some i\<rparr>)) U E B D H C owned"
proof -
  have t: "tasks_ok S E (all_tasks B D)" and s: "sess_ok S U (all_tasks B D) B H" using ok by (simp_all add: own_ok_def)
  have same: "same_ends S (S(s \<mapsto> x\<lparr>s2_hwq := Some i\<rparr>))" by (rule same_endsI [where x = x]) (simp_all add: x)
  have z: "n_of (of_sess s) (all_tasks B D i) = 0"
    by (rule n_of_zeroI) (use no_tasks_elsewhere [OF t x(1) _ i] x(2) in \<open>auto simp: of_sess_def\<close>)
  then have zB: "n_of (of_sess s) (B i) = 0" by (simp add: all_tasks_def)
  have "sess_entry U (all_tasks B D) B H s (x\<lparr>s2_hwq := Some i\<rparr>)"
    using sess_okD [OF s x(1)] x(2) z zB i by (auto simp: sess_entry_def on_queue_def)
  from sess_ok_upd [OF s this] ok same show ?thesis
    unfolding own_ok_def using tasks_same [OF same] uprocs_same [OF same] held_same [OF same] by blast
qed

lemma sess_ok_add:
  assumes ok: "sess_ok S U A B H" and x: "S s = Some x" "s2_hwq x = Some i" and t: "tk_sess t = s"
    and x': "s2_uproc x' = s2_uproc x" "s2_hwq x' = s2_hwq x"
      "s2_unfinished_cnt x' = s2_unfinished_cnt x + 1" "s2_refs x' = s2_refs x + 1"
  shows "sess_ok (S(s \<mapsto> x')) U (A(i := add_mset t (A i))) (B(i := add_mset t (B i))) H"
proof (rule sess_ok_upd [OF ok])
  show "sess_entry U (A(i := add_mset t (A i))) (B(i := add_mset t (B i))) H s x'"
    using sess_okD [OF ok x(1)] x x' t by (simp add: sess_entry_def on_queue_def of_sess_def)
next
  fix s' y assume "s' \<noteq> s" "sess_entry U A B H s' y"
  then show "sess_entry U (A(i := add_mset t (A i))) (B(i := add_mset t (B i))) H s' y"
    using t by (subst sess_entry_cong) (auto simp: on_queue_def of_sess_def split: option.split)
qed

lemma own_add:
  assumes ok: "own_ok S U E B D H C owned" and x: "S s = Some x" "s2_hwq x = Some i" and t: "tk_sess t = s"
    and x': "s2_uproc x' = s2_uproc x" "s2_hwq x' = s2_hwq x"
      "s2_unfinished_cnt x' = s2_unfinished_cnt x + 1" "s2_refs x' = s2_refs x + 1"
    and ty: "tk_type t \<noteq> KL2_TASKTYPE_EVNTREC"
  shows "own_ok (S(s \<mapsto> x')) U E (B(i := add_mset t (B i))) D H C owned"
proof -
  let ?A = "all_tasks B D"
  have s: "sess_ok S U ?A B H" and tk: "tasks_ok S E ?A" and ev: "evnts_ok U E ?A C owned"
    using ok by (simp_all add: own_ok_def)
  have i: "i < KL2_HWQ_CNT" using sess_entryD [OF sess_okD [OF s x(1)] x(2)] .
  have same: "same_ends S (S(s \<mapsto> x'))" by (rule same_endsI [where x = x]) (simp_all add: x x')
  have A: "all_tasks (B(i := add_mset t (B i))) D = ?A(i := add_mset t (?A i))"
    by (auto simp: all_tasks_def)
  have "rec_refs (?A(i := add_mset t (?A i))) e = rec_refs ?A e" for e
    using rec_refs_upd [OF i, of ?A "add_mset t (?A i)" e] ty by (simp add: is_rec_def)
  then have "evnts_ok U E (?A(i := add_mset t (?A i))) C owned"
    using ev unfolding evnts_ok_def by (metis evnt_entry_cong)
  moreover have "tasks_ok (S(s \<mapsto> x')) E (?A(i := add_mset t (?A i)))"
    using tasks_same [OF same tk] t x x' ty unfolding tasks_ok_def by auto
  ultimately show ?thesis
    using ok same sess_ok_add [OF s x t x']
    unfolding own_ok_def A using uprocs_same [OF same] held_same [OF same] by blast
qed

lemma own_add_rec:
  assumes ok: "own_ok S U E B D H C owned" and x: "S s = Some x" "s2_hwq x = Some i" and t: "tk_sess t = s"
    and x': "s2_uproc x' = s2_uproc x" "s2_hwq x' = s2_hwq x"
      "s2_unfinished_cnt x' = s2_unfinished_cnt x + 1" "s2_refs x' = s2_refs x + 1"
    and ty: "tk_type t = KL2_TASKTYPE_EVNTREC" "tk_evnt t = Some e"
    and e: "E e = Some v" "ev_uproc v = s2_uproc x" "ev_rec_cnt v + 1 < 2 ^ 32"
    and v': "ev_uproc v' = ev_uproc v" "ev_refs v' = ev_refs v + 1" "ev_rec_cnt v' = ev_rec_cnt v + 1"
      "ev_fin_cnt v' = ev_fin_cnt v"
  shows "own_ok (S(s \<mapsto> x')) U (E(e \<mapsto> v')) (B(i := add_mset t (B i))) D H C owned"
proof -
  let ?A = "all_tasks B D"
  have s: "sess_ok S U ?A B H" and tk: "tasks_ok S E ?A" and ev: "evnts_ok U E ?A C owned"
    and up: "uprocs_ok S U E" and h: "held_ok S E H C owned"
    using ok by (simp_all add: own_ok_def)
  have i: "i < KL2_HWQ_CNT" using sess_entryD [OF sess_okD [OF s x(1)] x(2)] .
  have same: "same_ends S (S(s \<mapsto> x'))" by (rule same_endsI [where x = x]) (simp_all add: x x')
  have A: "all_tasks (B(i := add_mset t (B i))) D = ?A(i := add_mset t (?A i))"
    by (auto simp: all_tasks_def)
  have r: "rec_refs (?A(i := add_mset t (?A i))) e' = rec_refs ?A e' + (if e' = e then 1 else 0)" for e'
    using rec_refs_upd [OF i, of ?A "add_mset t (?A i)" e'] ty by (auto simp: is_rec_def)
  have "evnts_ok U (E(e \<mapsto> v')) (?A(i := add_mset t (?A i))) C owned"
  proof (rule evnts_ok_upd [OF ev])
    show "evnt_entry U (?A(i := add_mset t (?A i))) C owned e v'"
      using evnts_okD [OF ev e(1)] v' e(3) r [of e] by (simp add: evnt_entry_def)
  next
    fix e' y assume "e' \<noteq> e" "evnt_entry U ?A C owned e' y"
    then show "evnt_entry U (?A(i := add_mset t (?A i))) C owned e' y"
      using r [of e'] by (subst evnt_entry_cong) simp_all
  qed
  moreover have "tasks_ok (S(s \<mapsto> x')) (E(e \<mapsto> v')) (?A(i := add_mset t (?A i)))"
  proof -
    have "tasks_ok (S(s \<mapsto> x')) (E(e \<mapsto> v')) ?A"
      using tasks_same [OF same tk] tasks_evnt [where E = E and v = v, OF e(1) v'(1)] by blast
    moreover have "linked (S(s \<mapsto> x')) (E(e \<mapsto> v')) s e" using x x' e v' by (simp add: linked_def)
    ultimately show ?thesis using t x x' ty unfolding tasks_ok_def by auto
  qed
  moreover have "uprocs_ok (S(s \<mapsto> x')) U (E(e \<mapsto> v'))"
    using uprocs_same [OF same up] uprocs_evnt [where E = E and v = v, OF e(1) v'(1)] by blast
  moreover have "held_ok (S(s \<mapsto> x')) (E(e \<mapsto> v')) H C owned"
    using held_same [OF same h] held_evnt [where E = E and v = v, OF e(1) v'(1)] by blast
  ultimately show ?thesis
    using sess_ok_add [OF s x t x'] unfolding own_ok_def A by blast
qed

text \<open>A task the session no longer waits for.\<close>

lemma own_finish:
  assumes ok: "own_ok S U E B D H C owned" and t: "t \<in># B i" and i: "i < KL2_HWQ_CNT"
    and x: "S (tk_sess t) = Some x"
  shows "own_ok (S(tk_sess t \<mapsto> x\<lparr>s2_unfinished_cnt := s2_unfinished_cnt x - 1\<rparr>)) U E
     (B(i := B i - {#t#})) (D(i := add_mset t (D i))) H C owned" (is "own_ok (S(_ \<mapsto> ?x)) U E ?B ?D H C owned")
proof -
  let ?A = "all_tasks B D" let ?s = "tk_sess t"
  have s: "sess_ok S U ?A B H" and tk: "tasks_ok S E ?A" using ok by (simp_all add: own_ok_def)
  have A: "all_tasks ?B ?D = ?A" using t by (auto simp: all_tasks_def fun_eq_iff)
  have q: "s2_hwq x = Some i" using tasks_okD [OF tk i, of t] t x by (auto simp: all_tasks_def)
  have same: "same_ends S (S(?s \<mapsto> ?x))" by (rule same_endsI [where x = x]) (simp_all add: x)
  have "sess_ok (S(?s \<mapsto> ?x)) U ?A ?B H"
  proof (rule sess_ok_upd [OF s])
    show "sess_entry U ?A ?B H ?s ?x"
      using sess_okD [OF s x] q n_of_minus [OF t, of "of_sess ?s"]
      by (auto simp: sess_entry_def on_queue_def of_sess_def)
  next
    fix s' y assume "s' \<noteq> ?s" "sess_entry U ?A B H s' y"
    then show "sess_entry U ?A ?B H s' y"
      using n_of_minus [OF t, of "of_sess s'"]
      by (subst sess_entry_cong) (auto simp: on_queue_def of_sess_def split: option.split)
  qed
  with ok same show ?thesis unfolding own_ok_def A using tasks_same [OF same] uprocs_same [OF same] held_same [OF same] by blast
qed

text \<open>
  A task that is ended hands its references over: the one to its session to \<open>H\<close> and, for a record,
  the one to its event to \<open>C\<close>.
\<close>

lemma tasks_less: "tasks_ok S E A \<Longrightarrow> (\<And>i. A' i \<subseteq># A i) \<Longrightarrow> tasks_ok S E A'"
  unfolding tasks_ok_def by (meson mset_subset_eqD)

lemma sess_ok_drop:
  assumes s: "sess_ok S U A B H" and t: "t \<in># A i" and x: "S (tk_sess t) = Some x" "s2_hwq x = Some i"
  shows "sess_ok S U (A(i := A i - {#t#})) B (add_mset (tk_sess t) H)"
  unfolding sess_ok_def
proof (intro allI impI)
  fix s' y assume y: "S s' = Some y"
  have *: "on_queue A y s' + count H s' = on_queue (A(i := A i - {#t#})) y s' + count (add_mset (tk_sess t) H) s'"
    using n_of_minus [OF t, of "of_sess s'"] x y by (auto simp: on_queue_def of_sess_def split: option.split)
  have "s2_refs y = on_queue A y s' + count H s'" using sess_okD [OF s y] unfolding sess_entry_def by blast
  with sess_okD [OF s y] show "sess_entry U (A(i := A i - {#t#})) B (add_mset (tk_sess t) H) s' y"
    unfolding sess_entry_def * by blast
qed

lemma own_drop:
  assumes ok: "own_ok S U E B D H C owned" and t: "t \<in># D i" and i: "i < KL2_HWQ_CNT"
    and ty: "tk_type t \<noteq> KL2_TASKTYPE_EVNTREC"
  shows "own_ok S U E B (D(i := D i - {#t#})) (add_mset (tk_sess t) H) C owned"
proof -
  let ?A = "all_tasks B D" let ?A' = "?A(i := ?A i - {#t#})"
  have s: "sess_ok S U ?A B H" and tk: "tasks_ok S E ?A" and ev: "evnts_ok U E ?A C owned"
    and h: "held_ok S E H C owned"
    using ok by (simp_all add: own_ok_def)
  have tA: "t \<in># ?A i" using t by (simp add: all_tasks_def)
  have A: "all_tasks B (D(i := D i - {#t#})) = ?A'"
    using t by (auto simp: all_tasks_def)
  obtain x where x: "S (tk_sess t) = Some x" "s2_hwq x = Some i" using tasks_okD [OF tk i tA] by blast
  have "rec_refs ?A' e = rec_refs ?A e" for e
    using rec_refs_upd [OF i, of ?A "?A i - {#t#}" e] n_of_minus [OF tA, of "is_rec e"] ty by (simp add: is_rec_def)
  then have "evnts_ok U E ?A' C owned" using ev unfolding evnts_ok_def by (metis evnt_entry_cong)
  moreover have "tasks_ok S E ?A'" by (rule tasks_less [OF tk]) simp
  moreover have "held_ok S E (add_mset (tk_sess t) H) C owned" using h x unfolding held_ok_def by auto
  ultimately show ?thesis
    using ok sess_ok_drop [OF s tA x] unfolding own_ok_def A by blast
qed

lemma own_drop_rec:
  assumes ok: "own_ok S U E B D H C owned" and t: "t \<in># D i" and i: "i < KL2_HWQ_CNT"
    and ty: "tk_type t = KL2_TASKTYPE_EVNTREC" "tk_evnt t = Some e" and e: "E e = Some v"
    and v': "ev_uproc v' = ev_uproc v" "ev_refs v' = ev_refs v" "ev_rec_cnt v' = ev_rec_cnt v"
      "ev_fin_cnt v' = ev_fin_cnt v + 1"
  shows "own_ok S U (E(e \<mapsto> v')) B (D(i := D i - {#t#})) (add_mset (tk_sess t) H) (add_mset (tk_sess t, e) C) owned"
proof -
  let ?A = "all_tasks B D" let ?A' = "?A(i := ?A i - {#t#})"
  have s: "sess_ok S U ?A B H" and tk: "tasks_ok S E ?A" and ev: "evnts_ok U E ?A C owned"
    and h: "held_ok S E H C owned" and up: "uprocs_ok S U E"
    using ok by (simp_all add: own_ok_def)
  have tA: "t \<in># ?A i" using t by (simp add: all_tasks_def)
  have A: "all_tasks B (D(i := D i - {#t#})) = ?A'" using t by (auto simp: all_tasks_def)
  obtain x where x: "S (tk_sess t) = Some x" "s2_hwq x = Some i" and l: "linked S E (tk_sess t) e"
    using tasks_okD [OF tk i tA] ty by auto
  have r: "rec_refs ?A e' = rec_refs ?A' e' + (if e' = e then 1 else 0)" for e'
    using rec_refs_upd [OF i, of ?A "?A i - {#t#}" e'] n_of_minus [OF tA, of "is_rec e'"] ty
    by (auto simp: is_rec_def)
  have "evnts_ok U (E(e \<mapsto> v')) ?A' (add_mset (tk_sess t, e) C) owned"
  proof (rule evnts_ok_upd [OF ev])
    show "evnt_entry U ?A' (add_mset (tk_sess t, e) C) owned e v'"
      using evnts_okD [OF ev e] v' r [of e] by (simp add: evnt_entry_def)
  next
    fix e' y assume "e' \<noteq> e" "evnt_entry U ?A C owned e' y"
    then show "evnt_entry U ?A' (add_mset (tk_sess t, e) C) owned e' y"
      using r [of e'] by (subst evnt_entry_cong) simp_all
  qed
  moreover have "tasks_ok S (E(e \<mapsto> v')) ?A'"
    unfolding tasks_evnt [where E = E and v = v, OF e v'(1)] by (rule tasks_less [OF tk]) simp
  moreover have "uprocs_ok S U (E(e \<mapsto> v'))" by (rule uprocs_evnt [where v = v, OF e v'(1) up])
  moreover have "held_ok S (E(e \<mapsto> v')) (add_mset (tk_sess t) H) (add_mset (tk_sess t, e) C) owned"
    unfolding held_evnt [where E = E and v = v, OF e v'(1)] using h x l unfolding held_ok_def by auto
  ultimately show ?thesis
    using sess_ok_drop [OF s tA x] unfolding own_ok_def A by blast
qed

section \<open>Event references\<close>

lemma own_get_evnt:
  assumes ok: "own_ok S U E B D H C owned" and s: "s \<in># H" "linked S E s e" and e: "E e = Some v"
  shows "own_ok S U (E(e \<mapsto> v\<lparr>ev_refs := ev_refs v + 1\<rparr>)) B D H (add_mset (s, e) C) owned"
    (is "own_ok S U (E(e \<mapsto> ?v)) B D H ?C owned")
proof -
  let ?A = "all_tasks B D"
  have tk: "tasks_ok S E ?A" and ev: "evnts_ok U E ?A C owned" and h: "held_ok S E H C owned" and up: "uprocs_ok S U E"
    using ok by (simp_all add: own_ok_def)
  have v: "ev_uproc ?v = ev_uproc v" by simp
  have "evnts_ok U (E(e \<mapsto> ?v)) ?A ?C owned"
  proof (rule evnts_ok_upd [OF ev])
    show "evnt_entry U ?A ?C owned e ?v" using evnts_okD [OF ev e] by (simp add: evnt_entry_def)
  next
    fix e' y assume "e' \<noteq> e" "evnt_entry U ?A C owned e' y"
    then show "evnt_entry U ?A ?C owned e' y" by (subst evnt_entry_cong) simp_all
  qed
  moreover have "held_ok S (E(e \<mapsto> ?v)) H ?C owned"
    unfolding held_evnt [where E = E and v = v, OF e v] using h s unfolding held_ok_def by auto
  ultimately show ?thesis
    using ok tk uprocs_evnt [where v = v, OF e v up] tasks_evnt [where E = E and v = v, OF e v]
    unfolding own_ok_def by blast
qed

lemma own_put_evnt_more:
  assumes ok: "own_ok S U E B D H C owned" and c: "(s, e) \<in># C" and e: "E e = Some v" "ev_refs v \<noteq> 1"
  shows "own_ok S U (E(e \<mapsto> v\<lparr>ev_refs := ev_refs v - 1\<rparr>)) B D H (C - {#(s, e)#}) owned"
    (is "own_ok S U (E(e \<mapsto> ?v)) B D H ?C owned")
proof -
  let ?A = "all_tasks B D"
  have tk: "tasks_ok S E ?A" and ev: "evnts_ok U E ?A C owned" and h: "held_ok S E H C owned" and up: "uprocs_ok S U E"
    using ok by (simp_all add: own_ok_def)
  have v: "ev_uproc ?v = ev_uproc v" by simp
  obtain C' where C: "C = add_mset (s, e) C'" using c by (metis insert_DiffM)
  have "evnts_ok U (E(e \<mapsto> ?v)) ?A C' owned"
  proof (rule evnts_ok_upd [OF ev])
    have *: "ev_refs v = rec_refs ?A e + (count (image_mset snd C') e + 1) + (if e \<in> owned then 1 else 0)"
      "\<exists>p. U (ev_uproc v) = Some p \<and> e \<in> set (up_event_list p)"
      "ev_rec_cnt v = ev_fin_cnt v + rec_refs ?A e" "ev_rec_cnt v < 2 ^ 32"
      using evnts_okD [OF ev e(1)] unfolding evnt_entry_def C by simp_all
    then show "evnt_entry U ?A C' owned e ?v" using e(2) unfolding evnt_entry_def by (simp del: power_numeral)
  next
    fix e' y assume "e' \<noteq> e" "evnt_entry U ?A C owned e' y"
    then show "evnt_entry U ?A C' owned e' y" unfolding C by (subst evnt_entry_cong [symmetric]) simp_all
  qed
  moreover have "held_ok S (E(e \<mapsto> ?v)) H C' owned"
    unfolding held_evnt [where E = E and v = v, OF e(1) v] using h unfolding held_ok_def C by auto
  ultimately show ?thesis
    using ok tk uprocs_evnt [where v = v, OF e(1) v up] tasks_evnt [where E = E and v = v, OF e(1) v]
    unfolding own_ok_def by (simp add: C)
qed

lemma sess_entry_uprocs: "sess_entry U A B H s x \<Longrightarrow> U' (s2_uproc x) \<noteq> None \<Longrightarrow> sess_entry U' A B H s x"
  unfolding sess_entry_def by blast

lemma sess_ok_uprocs: "sess_ok S U A B H \<Longrightarrow> (\<And>u. U u \<noteq> None \<Longrightarrow> U' u \<noteq> None) \<Longrightarrow> sess_ok S U' A B H"
  unfolding sess_ok_def sess_entry_def by blast

text \<open>The last reference to an event goes: it leaves the list of its process and the store.\<close>

lemma own_evnt_gone:
  assumes ok: "own_ok S U E B D H C owned" and e: "E e = Some v" and p: "U (ev_uproc v) = Some p"
    and z: "rec_refs (all_tasks B D) e = 0"
    and C': "\<And>c. c \<in># C' \<Longrightarrow> c \<in># C" "e \<notin> snd ` set_mset C'"
      "\<And>e'. e' \<noteq> e \<Longrightarrow> count (image_mset snd C') e' = count (image_mset snd C) e'"
    and O': "owned' \<subseteq> owned" "e \<notin> owned'" "\<And>e'. e' \<noteq> e \<Longrightarrow> e' \<in> owned' \<longleftrightarrow> e' \<in> owned"
  shows "own_ok S (U(ev_uproc v \<mapsto> p\<lparr>up_event_list := remove1 e (up_event_list p)\<rparr>)) (E(e := None)) B D H C' owned'"
    (is "own_ok S ?U ?E B D H C' owned'")
proof -
  let ?A = "all_tasks B D"
  have s: "sess_ok S U ?A B H" and tk: "tasks_ok S E ?A" and ev: "evnts_ok U E ?A C owned"
    and h: "held_ok S E H C owned" and up: "uprocs_ok S U E"
    using ok by (simp_all add: own_ok_def)
  have d: "distinct (up_event_list p)" using up p unfolding uprocs_ok_def by blast
  have l: "linked S ?E s' e'" if "linked S E s' e'" "e' \<noteq> e" for s' e' using that by (simp add: linked_def)
  have "tasks_ok S ?E ?A"
    unfolding tasks_ok_def
  proof (intro allI impI)
    fix i t assume i: "i < KL2_HWQ_CNT" "t \<in># ?A i"
    have "\<not> is_rec e t" using rec_refs_pos [where A = ?A and e = e, OF i] z by auto
    then show "(\<exists>x. S (tk_sess t) = Some x \<and> s2_hwq x = Some i) \<and>
      (tk_type t = KL2_TASKTYPE_EVNTREC \<longrightarrow> (\<exists>e. tk_evnt t = Some e \<and> linked S ?E (tk_sess t) e))"
      using tasks_okD [OF tk i] l unfolding is_rec_def by blast
  qed
  moreover have "sess_ok S ?U ?A B H"
    by (rule sess_ok_uprocs [OF s]) simp
  moreover have "evnts_ok ?U ?E ?A C' owned'"
    unfolding evnts_ok_def
  proof (intro allI impI)
    fix e' v' assume e': "?E e' = Some v'"
    then have ne: "e' \<noteq> e" and E': "E e' = Some v'" by (auto split: if_splits)
    have *: "evnt_entry U ?A C' owned' e' v'"
      using evnts_okD [OF ev E'] C'(3) [OF ne] O'(3) [OF ne] by (subst evnt_entry_cong [symmetric]) simp_all
    then obtain p' where p': "U (ev_uproc v') = Some p'" "e' \<in> set (up_event_list p')" unfolding evnt_entry_def by blast
    have "\<exists>p. ?U (ev_uproc v') = Some p \<and> e' \<in> set (up_event_list p)"
      using p' p ne d by (cases "ev_uproc v' = ev_uproc v") (auto simp: set_remove1_eq)
    with * show "evnt_entry ?U ?A C' owned' e' v'" unfolding evnt_entry_def by blast
  qed
  moreover have "uprocs_ok S ?U ?E"
    unfolding uprocs_ok_def
  proof (intro conjI allI impI)
    show "finite (dom S)" using up by (simp add: uprocs_ok_def)
  next
    fix u p' assume "?U u = Some p'"
    then obtain q where q: "U u = Some q" and f: "up_refs p' = up_refs q" "set (up_event_list p') \<subseteq> set (up_event_list q)"
        "distinct (up_event_list q) \<longrightarrow> distinct (up_event_list p')" "u = ev_uproc v \<longrightarrow> e \<notin> set (up_event_list p')"
      using p d by (auto split: if_splits simp: set_remove1_eq intro: distinct_remove1)
    have k: "up_refs q = card (sessions_of S u)" "0 < up_refs q" "distinct (up_event_list q)"
      "\<And>e. e \<in> set (up_event_list q) \<Longrightarrow> \<exists>v. E e = Some v \<and> ev_uproc v = u"
      using up q unfolding uprocs_ok_def by blast+
    show "up_refs p' = card (sessions_of S u)" "0 < up_refs p'" "distinct (up_event_list p')"
      using k f by simp_all
    fix e' assume "e' \<in> set (up_event_list p')"
    with f k(4) [of e'] e show "\<exists>v. ?E e' = Some v \<and> ev_uproc v = u" by (cases "e' = e") auto
  qed
  moreover have "held_ok S ?E H C' owned'"
    using h C' O' l unfolding held_ok_def by (auto simp: image_iff) force+
  ultimately show ?thesis unfolding own_ok_def by blast
qed

lemma own_put_evnt_last:
  assumes ok: "own_ok S U E B D H C owned" and c: "(s, e) \<in># C" and e: "E e = Some v" "ev_refs v = 1"
    and p: "U (ev_uproc v) = Some p"
  shows "own_ok S (U(ev_uproc v \<mapsto> p\<lparr>up_event_list := remove1 e (up_event_list p)\<rparr>)) (E(e := None)) B D H
     (C - {#(s, e)#}) owned"
proof -
  obtain C' where C: "C = add_mset (s, e) C'" using c by (metis insert_DiffM)
  have "evnt_entry U (all_tasks B D) C owned e v" using ok e by (simp add: own_ok_def evnts_ok_def)
  then have z: "rec_refs (all_tasks B D) e = 0" "count (image_mset snd C') e = 0" "e \<notin> owned"
    using e(2) unfolding evnt_entry_def C by (auto split: if_splits)
  show ?thesis
    by (rule own_evnt_gone [OF ok e(1) p z(1)]) (use z C in \<open>auto simp: count_eq_zero_iff\<close>)
qed

lemma own_destroy_evnt_last:
  assumes ok: "own_ok S U E B D H C owned" and c: "e \<in> owned" and e: "E e = Some v" "ev_refs v = 1"
    and p: "U (ev_uproc v) = Some p"
  shows "own_ok S (U(ev_uproc v \<mapsto> p\<lparr>up_event_list := remove1 e (up_event_list p)\<rparr>)) (E(e := None)) B D H C
     (owned - {e})"
proof -
  have "evnt_entry U (all_tasks B D) C owned e v" using ok e by (simp add: own_ok_def evnts_ok_def)
  then have z: "rec_refs (all_tasks B D) e = 0" "count (image_mset snd C) e = 0"
    using e(2) c unfolding evnt_entry_def by (auto split: if_splits)
  show ?thesis
    by (rule own_evnt_gone [OF ok e(1) p z(1)]) (use z in \<open>auto simp: count_eq_zero_iff\<close>)
qed

lemma own_destroy_evnt_more:
  assumes ok: "own_ok S U E B D H C owned" and c: "e \<in> owned" and e: "E e = Some v" "ev_refs v \<noteq> 1"
    and v': "ev_uproc v' = ev_uproc v" "ev_refs v' = ev_refs v - 1" "ev_rec_cnt v' = ev_rec_cnt v"
      "ev_fin_cnt v' = ev_fin_cnt v"
  shows "own_ok S U (E(e \<mapsto> v')) B D H C (owned - {e})"
proof -
  let ?A = "all_tasks B D"
  have tk: "tasks_ok S E ?A" and ev: "evnts_ok U E ?A C owned" and h: "held_ok S E H C owned" and up: "uprocs_ok S U E"
    using ok by (simp_all add: own_ok_def)
  have "evnts_ok U (E(e \<mapsto> v')) ?A C (owned - {e})"
  proof (rule evnts_ok_upd [OF ev])
    show "evnt_entry U ?A C (owned - {e}) e v'"
      using evnts_okD [OF ev e(1)] e(2) v' c unfolding evnt_entry_def by (auto simp del: power_numeral)
  next
    fix e' y assume "e' \<noteq> e" "evnt_entry U ?A C owned e' y"
    then show "evnt_entry U ?A C (owned - {e}) e' y" by (subst evnt_entry_cong [symmetric]) simp_all
  qed
  moreover have "held_ok S (E(e \<mapsto> v')) H C (owned - {e})"
    unfolding held_evnt [where E = E and v = v, OF e(1) v'(1)] using h unfolding held_ok_def by auto
  ultimately show ?thesis
    using ok tk uprocs_evnt [where v = v, OF e(1) v'(1) up] tasks_evnt [where E = E and v = v, OF e(1) v'(1)]
    unfolding own_ok_def by blast
qed

lemma own_new_evnt:
  assumes ok: "own_ok S U E B D H C owned" and s: "S s = Some x" and fresh: "E e = None"
    and p: "U (s2_uproc x) = Some p"
    and v: "ev_uproc v = s2_uproc x" "ev_refs v = 1" "ev_rec_cnt v = 0" "ev_fin_cnt v = 0"
  shows "own_ok S (U(s2_uproc x \<mapsto> p\<lparr>up_event_list := up_event_list p @ [e]\<rparr>)) (E(e \<mapsto> v)) B D H C (insert e owned)"
    (is "own_ok S ?U ?E B D H C ?O")
proof -
  let ?A = "all_tasks B D"
  have sk: "sess_ok S U ?A B H" and tk: "tasks_ok S E ?A" and ev: "evnts_ok U E ?A C owned"
    and h: "held_ok S E H C owned" and up: "uprocs_ok S U E"
    using ok by (simp_all add: own_ok_def)
  have l: "linked S ?E s' e'" if "linked S E s' e'" for s' e' using that fresh by (auto simp: linked_def)
  have no: "\<not> linked S E s' e" for s' using fresh by (simp add: linked_def)
  have e1: "e \<notin> owned" using h fresh unfolding held_ok_def by blast
  have "(s', e) \<notin># C" for s' using h no unfolding held_ok_def by blast
  with e1 have e0: "e \<notin> owned" "count (image_mset snd C) e = 0" unfolding count_eq_zero_iff by auto
  have r0: "rec_refs ?A e = 0"
    by (rule rec_refs_zeroI) (use tasks_okD [OF tk] no in \<open>fastforce simp: is_rec_def\<close>)
  have nl: "e \<notin> set (up_event_list p)" using up p fresh unfolding uprocs_ok_def by force
  have "tasks_ok S ?E ?A" using tk l unfolding tasks_ok_def by blast
  moreover have "sess_ok S ?U ?A B H" by (rule sess_ok_uprocs [OF sk]) simp
  moreover have "evnts_ok ?U ?E ?A C ?O"
  proof (rule evnts_ok_upd [OF ev])
    show "evnt_entry ?U ?A C ?O e v" using v e0 r0 unfolding evnt_entry_def by simp
  next
    fix e' y assume "e' \<noteq> e" "E e' = Some y" and *: "evnt_entry U ?A C owned e' y"
    then have "evnt_entry U ?A C ?O e' y" by (subst evnt_entry_cong [symmetric]) simp_all
    moreover have "\<exists>q. ?U (ev_uproc y) = Some q \<and> e' \<in> set (up_event_list q)"
      using * p unfolding evnt_entry_def by auto
    ultimately show "evnt_entry ?U ?A C ?O e' y" unfolding evnt_entry_def by blast
  qed
  moreover have "uprocs_ok S ?U ?E"
    unfolding uprocs_ok_def
  proof (intro conjI allI impI)
    show "finite (dom S)" using up by (simp add: uprocs_ok_def)
  next
    fix u p' assume "?U u = Some p'"
    then obtain q where q: "U u = Some q" and f: "up_refs p' = up_refs q"
        "up_event_list p' = up_event_list q \<or> u = s2_uproc x \<and> q = p \<and> up_event_list p' = up_event_list p @ [e]"
      using p by (auto split: if_splits)
    have k: "up_refs q = card (sessions_of S u)" "0 < up_refs q" "distinct (up_event_list q)"
      "\<And>e. e \<in> set (up_event_list q) \<Longrightarrow> \<exists>v. E e = Some v \<and> ev_uproc v = u"
      using up q unfolding uprocs_ok_def by blast+
    show "up_refs p' = card (sessions_of S u)" "0 < up_refs p'" "distinct (up_event_list p')"
      using k f nl by auto
    fix e' assume "e' \<in> set (up_event_list p')"
    with f k(4) [of e'] v(1) fresh nl show "\<exists>v. ?E e' = Some v \<and> ev_uproc v = u" by (cases "e' = e") auto
  qed
  moreover have "held_ok S ?E H C ?O" using h l unfolding held_ok_def by simp
  ultimately show ?thesis unfolding own_ok_def by blast
qed

section \<open>Session references\<close>

lemma sessions_of_new: "S s = None \<Longrightarrow> sessions_of (S(s \<mapsto> x)) u =
    (if s2_uproc x = u then insert s (sessions_of S u) else sessions_of S u)"
  by (auto simp: sessions_of_def)

lemma sessions_of_gone: "S s = Some x \<Longrightarrow> sessions_of (S(s := None)) u =
    (if s2_uproc x = u then sessions_of S u - {s} else sessions_of S u)"
  by (auto simp: sessions_of_def)

lemma finite_sessions_of: "finite (dom S) \<Longrightarrow> finite (sessions_of S u)"
  by (rule finite_subset [of _ "dom S"]) (auto simp: sessions_of_def)

text \<open>A session opened in a process that is known (\<open>n\<close> sessions) or new.\<close>

lemma own_new_sess:
  assumes ok: "own_ok S U E B D H C owned" and fresh: "S s = None"
    and x: "s2_hwq x = None" "s2_unfinished_cnt x = 0" "s2_refs x = 1"
    and p: "case U (s2_uproc x) of Some p \<Rightarrow> p' = p\<lparr>up_refs := up_refs p + 1\<rparr>
            | None \<Rightarrow> up_refs p' = 1 \<and> up_event_list p' = []"
  shows "own_ok (S(s \<mapsto> x)) (U(s2_uproc x \<mapsto> p')) E B D (add_mset s H) C owned"
    (is "own_ok ?S ?U E B D ?H C owned")
proof -
  let ?A = "all_tasks B D"
  have sk: "sess_ok S U ?A B H" and tk: "tasks_ok S E ?A" and ev: "evnts_ok U E ?A C owned"
    and h: "held_ok S E H C owned" and up: "uprocs_ok S U E"
    using ok by (simp_all add: own_ok_def)
  have l: "linked ?S E s' e'" if "linked S E s' e'" for s' e' using that fresh by (auto simp: linked_def)
  have H0: "count H s = 0" using h fresh unfolding held_ok_def count_eq_zero_iff by blast
  have "tasks_ok ?S E ?A"
    unfolding tasks_ok_def
  proof (intro allI impI)
    fix i t assume i: "i < KL2_HWQ_CNT" "t \<in># ?A i"
    from tasks_okD [OF tk i] fresh have "tk_sess t \<noteq> s" by auto
    with tasks_okD [OF tk i] l show "(\<exists>x. ?S (tk_sess t) = Some x \<and> s2_hwq x = Some i) \<and>
        (tk_type t = KL2_TASKTYPE_EVNTREC \<longrightarrow> (\<exists>e. tk_evnt t = Some e \<and> linked ?S E (tk_sess t) e))" by auto
  qed
  moreover have "sess_ok ?S ?U ?A B ?H"
  proof (rule sess_ok_upd [OF sk])
    show "sess_entry ?U ?A B ?H s x" using x H0 by (simp add: sess_entry_def on_queue_def)
  next
    fix s' y assume "s' \<noteq> s" and *: "sess_entry U ?A B H s' y"
    then have "sess_entry U ?A B ?H s' y" by (subst sess_entry_cong [where B = B and H = H and A = ?A]) simp_all
    moreover have "?U (s2_uproc y) \<noteq> None" using * by (auto simp: sess_entry_def)
    ultimately show "sess_entry ?U ?A B ?H s' y" by (rule sess_entry_uprocs)
  qed
  moreover have "evnts_ok ?U E ?A C owned"
    unfolding evnts_ok_def
  proof (intro allI impI)
    fix e v assume "E e = Some v"
    from evnts_okD [OF ev this] p show "evnt_entry ?U ?A C owned e v"
      unfolding evnt_entry_def by (auto split: option.splits)
  qed
  moreover have "uprocs_ok ?S ?U E"
    unfolding uprocs_ok_def
  proof (intro conjI allI impI)
    show "finite (dom ?S)" using up by (simp add: uprocs_ok_def)
  next
    fix u q assume q: "?U u = Some q"
    have fin: "finite (sessions_of S u)" using up by (simp add: uprocs_ok_def finite_sessions_of)
    have ns: "s \<notin> sessions_of S u" using fresh by (simp add: sessions_of_def)
    have none: "U u = None \<Longrightarrow> sessions_of S u = {}"
      using sk unfolding sess_ok_def sess_entry_def sessions_of_def by blast
    have k: "\<And>q. U u = Some q \<Longrightarrow> up_refs q = card (sessions_of S u) \<and> 0 < up_refs q \<and> distinct (up_event_list q) \<and>
       (\<forall>e. e \<in> set (up_event_list q) \<longrightarrow> (\<exists>v. E e = Some v \<and> ev_uproc v = u))"
      using up unfolding uprocs_ok_def by blast
    show "up_refs q = card (sessions_of ?S u)" "0 < up_refs q" "distinct (up_event_list q)"
      using q p k none fin ns fresh by (auto simp: sessions_of_new split: if_splits option.splits)
    show "\<exists>v. E e = Some v \<and> ev_uproc v = u" if "e \<in> set (up_event_list q)" for e
      using that q p k by (auto split: if_splits option.splits)
  qed
  moreover have "held_ok ?S E ?H C owned"
    using h l fresh unfolding held_ok_def by auto
  ultimately show ?thesis unfolding own_ok_def by blast
qed

lemma own_get_sess:
  assumes ok: "own_ok S U E B D H C owned" and x: "S s = Some x"
  shows "own_ok (S(s \<mapsto> x\<lparr>s2_refs := s2_refs x + 1\<rparr>)) U E B D (add_mset s H) C owned"
    (is "own_ok (S(s \<mapsto> ?x)) U E B D ?H C owned")
proof -
  let ?A = "all_tasks B D"
  have sk: "sess_ok S U ?A B H" and h: "held_ok S E H C owned"
    using ok by (simp_all add: own_ok_def)
  have same: "same_ends S (S(s \<mapsto> ?x))" by (rule same_endsI [where x = x]) (simp_all add: x)
  have "sess_ok (S(s \<mapsto> ?x)) U ?A B ?H"
  proof (rule sess_ok_upd [OF sk])
    show "sess_entry U ?A B ?H s ?x"
      using sess_okD [OF sk x] by (simp add: sess_entry_def on_queue_def split: option.splits)
  next
    fix s' y assume "s' \<noteq> s" "sess_entry U ?A B H s' y"
    then show "sess_entry U ?A B ?H s' y"
      by (subst sess_entry_cong [where B = B and H = H and A = ?A]) simp_all
  qed
  moreover have "held_ok S E ?H C owned" using h x unfolding held_ok_def by auto
  ultimately show ?thesis
    using ok tasks_same [OF same] uprocs_same [OF same] held_same [OF same] unfolding own_ok_def by simp
qed

lemma own_put_sess_more:
  assumes ok: "own_ok S U E B D H C owned" and c: "s \<in># H" "\<And>e. (s, e) \<in># C \<Longrightarrow> s \<in># H - {#s#}"
    and x: "S s = Some x" "s2_refs x \<noteq> 1"
  shows "own_ok (S(s \<mapsto> x\<lparr>s2_refs := s2_refs x - 1\<rparr>)) U E B D (H - {#s#}) C owned"
    (is "own_ok (S(s \<mapsto> ?x)) U E B D ?H C owned")
proof -
  let ?A = "all_tasks B D"
  have sk: "sess_ok S U ?A B H" and h: "held_ok S E H C owned"
    using ok by (simp_all add: own_ok_def)
  obtain H' where H: "H = add_mset s H'" using c(1) by (metis insert_DiffM)
  have same: "same_ends S (S(s \<mapsto> ?x))" by (rule same_endsI [where x = x]) (simp_all add: x)
  have "sess_ok (S(s \<mapsto> ?x)) U ?A B H'"
  proof (rule sess_ok_upd [OF sk])
    have *: "s2_refs x = on_queue ?A x s + (count H' s + 1)"
      using sess_okD [OF sk x(1)] unfolding sess_entry_def H by simp
    then have r: "s2_refs ?x = on_queue ?A ?x s + count H' s" "0 < s2_refs ?x" using x(2) by (auto simp: on_queue_def split: option.splits)
    then show "sess_entry U ?A B H' s ?x"
      using sess_okD [OF sk x(1)] unfolding sess_entry_def r(1) by (simp add: on_queue_def split: option.splits)
  next
    fix s' y assume "s' \<noteq> s" "sess_entry U ?A B H s' y"
    then show "sess_entry U ?A B H' s' y"
      unfolding H by (subst (asm) sess_entry_cong [where B = B and H = H' and A = ?A]) simp_all
  qed
  moreover have "held_ok S E H' C owned" using h c(2) unfolding held_ok_def H by auto
  ultimately show ?thesis
    using ok tasks_same [OF same] uprocs_same [OF same] held_same [OF same] unfolding own_ok_def H by simp
qed

text \<open>The last reference to a session goes.\<close>

lemma own_sess_gone:
  assumes ok: "own_ok S U E B D H C owned" and c: "s \<in># H" "\<And>e. (s, e) \<notin># C"
    and x: "S s = Some x" "s2_refs x = 1" and U: "U (s2_uproc x) = Some p"
  shows "(up_refs p \<noteq> 1 \<longrightarrow> own_ok (S(s := None)) (U(s2_uproc x \<mapsto> p\<lparr>up_refs := up_refs p - 1\<rparr>)) E B D (H - {#s#}) C owned) \<and>
     (up_refs p = 1 \<longrightarrow> (\<forall>e\<in>set (up_event_list p). \<exists>v. E e = Some v \<and> ev_refs v = 1 \<and> ev_uproc v = s2_uproc x) \<and>
        own_ok (S(s := None)) (U(s2_uproc x := None)) (\<lambda>e. if e \<in> set (up_event_list p) then None else E e) B D
          (H - {#s#}) C (owned - set (up_event_list p)))"
proof -
  let ?A = "all_tasks B D" let ?S = "S(s := None)" let ?u = "s2_uproc x"
  have sk: "sess_ok S U ?A B H" and tk: "tasks_ok S E ?A" and ev: "evnts_ok U E ?A C owned"
    and h: "held_ok S E H C owned" and up: "uprocs_ok S U E"
    using ok by (simp_all add: own_ok_def)
  obtain H' where H: "H = add_mset s H'" using c(1) by (metis insert_DiffM)
  have q: "on_queue ?A x s = 0" "count H' s = 0"
    using sess_okD [OF sk x(1)] x(2) unfolding sess_entry_def H by simp_all
  have nt: "tk_sess t \<noteq> s" if "i < KL2_HWQ_CNT" "t \<in># ?A i" for i t
  proof
    assume s: "tk_sess t = s"
    with tasks_okD [OF tk that] x have "s2_hwq x = Some i" by auto
    with q(1) have "n_of (of_sess s) (?A i) = 0" by (simp add: on_queue_def)
    from n_of_zeroD [OF this that(2)] s show False by (simp add: of_sess_def)
  qed
  have l: "linked ?S E s' e" if "linked S E s' e" "s' \<noteq> s" for s' e using that by (auto simp: linked_def)
  have S': "sess_entry U ?A B H' s' y" if "?S s' = Some y" for s' y
  proof -
    from that have "s' \<noteq> s" "S s' = Some y" by (auto split: if_splits)
    then show ?thesis using sess_okD [OF sk, of s' y] unfolding H
      by (subst (asm) sess_entry_cong [where B = B and H = H' and A = ?A]) simp_all
  qed
  have tk': "tasks_ok ?S E ?A"
    unfolding tasks_ok_def
  proof (intro allI impI)
    fix i t assume i: "i < KL2_HWQ_CNT" "t \<in># ?A i"
    show "(\<exists>x. ?S (tk_sess t) = Some x \<and> s2_hwq x = Some i) \<and>
        (tk_type t = KL2_TASKTYPE_EVNTREC \<longrightarrow> (\<exists>e. tk_evnt t = Some e \<and> linked ?S E (tk_sess t) e))"
      using tasks_okD [OF tk i] nt [OF i] l by auto
  qed
  have Hs: "s' \<in># H' \<Longrightarrow> s' \<noteq> s" for s' using q(2) by (metis count_eq_zero_iff)
  have h': "held_ok ?S E H' C owned"
    unfolding held_ok_def
  proof (intro conjI allI impI)
    fix s' e assume a: "(s', e) \<in># C"
    with c(2) have ne: "s' \<noteq> s" by blast
    from a h have "s' \<in># H" "linked S E s' e" unfolding held_ok_def by blast+
    with ne l show "s' \<in># H'" "linked ?S E s' e" by (simp_all add: H)
  qed (use h Hs in \<open>auto simp: held_ok_def H\<close>)
  have fin: "finite (sessions_of S u)" for u using up by (simp add: uprocs_ok_def finite_sessions_of)
  have k: "up_refs q = card (sessions_of S u) \<and> 0 < up_refs q \<and> distinct (up_event_list q) \<and>
       (\<forall>e. e \<in> set (up_event_list q) \<longrightarrow> (\<exists>v. E e = Some v \<and> ev_uproc v = u))" if "U u = Some q" for u q
    using up that unfolding uprocs_ok_def by blast
  have su: "s \<in> sessions_of S ?u" using x by (simp add: sessions_of_def)
  show ?thesis
  proof (intro conjI impI)
    let ?U = "U(?u \<mapsto> p\<lparr>up_refs := up_refs p - 1\<rparr>)"
    assume n: "up_refs p \<noteq> 1"
    have "sess_ok ?S ?U ?A B H'"
      unfolding sess_ok_def by (intro allI impI, rule sess_entry_uprocs [OF S']) (use S' in \<open>auto simp: sess_entry_def\<close>)
    moreover have "evnts_ok ?U E ?A C owned"
      unfolding evnts_ok_def
    proof (intro allI impI)
      fix e v assume "E e = Some v"
      from evnts_okD [OF ev this] U show "evnt_entry ?U ?A C owned e v" unfolding evnt_entry_def by auto
    qed
    moreover have "uprocs_ok ?S ?U E"
      unfolding uprocs_ok_def
    proof (intro conjI allI impI)
      show "finite (dom ?S)" using up by (simp add: uprocs_ok_def)
    next
      fix u r assume r: "?U u = Some r"
      show "up_refs r = card (sessions_of ?S u)" "0 < up_refs r" "distinct (up_event_list r)"
        using r k [of u] k [OF U] n su fin [of ?u] x by (auto simp: sessions_of_gone split: if_splits)
      show "\<exists>v. E e = Some v \<and> ev_uproc v = u" if "e \<in> set (up_event_list r)" for e
        using that r k [of u] k [OF U] by (auto split: if_splits)
    qed
    ultimately show "own_ok ?S ?U E B D (H - {#s#}) C owned" using tk' h' unfolding own_ok_def H by simp
  next
    let ?E = "\<lambda>e. if e \<in> set (up_event_list p) then None else E e"
    assume n: "up_refs p = 1"
    have only: "sessions_of S ?u = {s}"
      using k [OF U] n su fin [of ?u] by (metis One_nat_def card_1_singletonE singletonD)
    have nl: "s' = s" if e: "e \<in> set (up_event_list p)" and "linked S E s' e" for s' e
    proof -
      from k [OF U] e obtain v where "E e = Some v" "ev_uproc v = ?u" by blast
      with that(2) have "s' \<in> sessions_of S ?u" by (auto simp: linked_def sessions_of_def)
      with only show ?thesis by simp
    qed
    have r0: "rec_refs ?A e = 0" if "e \<in> set (up_event_list p)" for e
    proof (rule rec_refs_zeroI)
      fix i t assume i: "i < KL2_HWQ_CNT" "t \<in># ?A i"
      then show "\<not> is_rec e t" using tasks_okD [OF tk i] nt [OF i] nl [OF that] by (auto simp: is_rec_def)
    qed
    have c0: "count (image_mset snd C) e = 0" if "e \<in> set (up_event_list p)" for e
    proof -
      have "(s', e) \<notin># C" for s' using h c(2) nl [OF that] unfolding held_ok_def by blast
      then show ?thesis unfolding count_eq_zero_iff by auto
    qed
    show "\<forall>e\<in>set (up_event_list p). \<exists>v. E e = Some v \<and> ev_refs v = 1 \<and> ev_uproc v = ?u"
    proof
      fix e assume e: "e \<in> set (up_event_list p)"
      then obtain v where v: "E e = Some v" "ev_uproc v = ?u" using k [OF U] by blast
      from evnts_okD [OF ev v(1)] r0 [OF e] c0 [OF e] have "ev_refs v = 1" unfolding evnt_entry_def by (auto split: if_splits)
      with v show "\<exists>v. E e = Some v \<and> ev_refs v = 1 \<and> ev_uproc v = ?u" by blast
    qed
    have lE: "linked ?S ?E s' e" if "linked S E s' e" "s' \<noteq> s" for s' e
      using l [OF that] nl that by (auto simp: linked_def split: if_splits)
    have "tasks_ok ?S ?E ?A"
      unfolding tasks_ok_def
    proof (intro allI impI)
      fix i t assume i: "i < KL2_HWQ_CNT" "t \<in># ?A i"
      show "(\<exists>x. ?S (tk_sess t) = Some x \<and> s2_hwq x = Some i) \<and>
          (tk_type t = KL2_TASKTYPE_EVNTREC \<longrightarrow> (\<exists>e. tk_evnt t = Some e \<and> linked ?S ?E (tk_sess t) e))"
        using tasks_okD [OF tk i] nt [OF i] lE by auto
    qed
    moreover have "sess_ok ?S (U(?u := None)) ?A B H'"
    proof -
      have nu: "s2_uproc y \<noteq> ?u" if "?S s' = Some y" for s' y
        using only that by (auto simp: sessions_of_def split: if_splits)
      have nn: "U (s2_uproc y) \<noteq> None" if "?S s' = Some y" for s' y using S' [OF that] unfolding sess_entry_def by blast
      show ?thesis
        unfolding sess_ok_def by (intro allI impI, rule sess_entry_uprocs, erule S') (use nu nn in simp)
    qed
    moreover have "evnts_ok (U(?u := None)) ?E ?A C (owned - set (up_event_list p))"
      unfolding evnts_ok_def
    proof (intro allI impI)
      fix e v assume a: "?E e = Some v"
      then have e: "e \<notin> set (up_event_list p)" "E e = Some v" by (auto split: if_splits)
      then have *: "evnt_entry U ?A C (owned - set (up_event_list p)) e v"
        using evnts_okD [OF ev e(2)] by (subst evnt_entry_cong [symmetric]) simp_all
      with e(1) U have "ev_uproc v \<noteq> ?u" unfolding evnt_entry_def by auto
      then have "(U(?u := None)) (ev_uproc v) = U (ev_uproc v)" by simp
      with * show "evnt_entry (U(?u := None)) ?A C (owned - set (up_event_list p)) e v"
        unfolding evnt_entry_def by metis
    qed
    moreover have "uprocs_ok ?S (U(?u := None)) ?E"
      unfolding uprocs_ok_def
    proof (intro conjI allI impI)
      show "finite (dom ?S)" using up by (simp add: uprocs_ok_def)
    next
      fix u r assume "(U(?u := None)) u = Some r"
      then have u: "u \<noteq> ?u" and r: "U u = Some r" by (auto split: if_splits)
      show "up_refs r = card (sessions_of ?S u)" "0 < up_refs r" "distinct (up_event_list r)"
        using k [OF r] u x by (auto simp: sessions_of_gone)
      fix e assume e: "e \<in> set (up_event_list r)"
      then obtain v where v: "E e = Some v" "ev_uproc v = u" using k [OF r] by blast
      have "e \<notin> set (up_event_list p)" using k [OF U] v u by auto
      with v show "\<exists>v. ?E e = Some v \<and> ev_uproc v = u" by simp
    qed
    moreover have "held_ok ?S ?E H' C (owned - set (up_event_list p))"
      unfolding held_ok_def
    proof (intro conjI allI impI)
      fix s' e assume a: "(s', e) \<in># C"
      from a h' show "s' \<in># H'" unfolding held_ok_def by blast
      from a c(2) have "s' \<noteq> s" by blast
      with a h lE show "linked ?S ?E s' e" unfolding held_ok_def by blast
    qed (use h' in \<open>auto simp: held_ok_def\<close>)
    ultimately show "own_ok ?S (U(?u := None)) ?E B D (H - {#s#}) C (owned - set (up_event_list p))"
      unfolding own_ok_def H by simp
  qed
qed

end
