(* ===== verification/Kl2_Sched.thy ===== *)
theory Kl2_Sched
  imports Kl2_Own
begin

text \<open>
  The KL2 task path under concurrency. System calls of several processes, completion interrupts,
  the timer, the work items of the queues and the recovery after an exception interleave at the
  granularity of the critical sections of \<^verbatim>\<open>kl2/hwq.c\<close>, \<^verbatim>\<open>kl2/session.c\<close>, \<^verbatim>\<open>kl2/event.c\<close> and
  \<^verbatim>\<open>kl2/exception.c\<close>; the last put of a reference and the release of its object are one step. A
  request on an event is split into taking the reference, reading or adding the task, publishing a
  record and giving the reference back.

  What the driver takes for granted is in the guards: new objects have new addresses and identifiers,
  a queue holds fewer than \<open>2 ^ 32\<close> tasks and has made fewer than \<open>2 ^ 64\<close> records, an event has been
  recorded fewer than \<open>2 ^ 32\<close> times, a file is released only when no request on it is in progress,
  and no process destroys an event a second time. What happens without the last two is shown
  separately.
\<close>

section \<open>The steps\<close>

text \<open>
  A request in progress on an event, with its session: holding the reference, about to publish a
  record, or about to add a wait for a record it has read.
\<close>

datatype ev_call =
    EvHold nat nat
  | EvPublish nat nat nat nat
  | EvWait nat nat nat nat

fun call_refs :: "ev_call \<Rightarrow> nat \<times> nat" where
  "call_refs (EvHold s e) = (s, e)"
| "call_refs (EvPublish s e i n) = (s, e)"
| "call_refs (EvWait s e i n) = (s, e)"

text \<open>
  The device, the sessions with an open file, the requests in progress, the events not destroyed by
  their creator, the tasks in each hardware queue, and the address of the next task.
\<close>

record sys2 =
  y2_dev :: kl2_dev
  y2_open :: "nat multiset"
  y2_calls :: "ev_call multiset"
  y2_owned :: "nat set"
  y2_hw :: "nat \<Rightarrow> kl2_task list"
  y2_next :: nat

definition alive :: "kl2_dev \<Rightarrow> nat set \<Rightarrow> nat set" where
  "alive d W = {e \<in> W. d2_evnt d e \<noteq> None}"

fun apply_hw :: "(nat \<Rightarrow> kl2_task list) \<Rightarrow> hw_op list \<Rightarrow> (nat \<Rightarrow> kl2_task list)" where
  "apply_hw hw [] = hw"
| "apply_hw hw (HwReset i # ops) = apply_hw (hw(i := [])) ops"
| "apply_hw hw (HwWrite i t # ops) = apply_hw (hw(i := hw i @ [t])) ops"

text \<open>Adding a task in a session whose queue is known, within the bounds.\<close>

definition adds :: "sys2 \<Rightarrow> nat \<Rightarrow> kl2_task \<Rightarrow> kl2_dev \<Rightarrow> kl2_task list \<Rightarrow> kl2_task \<Rightarrow> nat \<Rightarrow> bool" where
  "adds y s t d' w t1 i \<longleftrightarrow>
     s \<in># y2_open y \<and> (\<exists>x. d2_sess (y2_dev y) s = Some x \<and> s2_hwq x = Some i) \<and> tk_ref t = y2_next y \<and>
     hq_cnt_all (d2_hwq (y2_dev y) ! i) + 1 < 2 ^ 32 \<and> add_task_locked (y2_dev y) s t = Some (None, d', w, t1)"

inductive kl2_step :: "sys2 \<Rightarrow> sys2 \<Rightarrow> bool" where
  create: "kl2_create_session env (y2_dev y) = Some (r, d') \<Longrightarrow>
     (\<forall>s. c2_sess env = Some s \<longrightarrow> d2_sess (y2_dev y) s = None) \<Longrightarrow>
     (\<forall>k. c2_id env = Some k \<longrightarrow> k \<notin> fst ` set (d2_session_idr (y2_dev y))) \<Longrightarrow>
     (\<forall>u. c2_uproc env = Some u \<longrightarrow> d2_uproc (y2_dev y) u = None) \<Longrightarrow>
     kl2_step y (y\<lparr>y2_dev := d', y2_open := y2_open y + (case r of Inl _ \<Rightarrow> {#} | Inr s \<Rightarrow> {#s#})\<rparr>)"
| bind: "s \<in># y2_open y \<Longrightarrow> kl2_session_bind_hwq (y2_dev y) s = Some d' \<Longrightarrow> kl2_step y (y\<lparr>y2_dev := d'\<rparr>)"
| token: "take_token (y2_dev y) = (n, d') \<Longrightarrow> kl2_step y (y\<lparr>y2_dev := d'\<rparr>)"
| add_kernel: "adds y s t d' w t1 i \<Longrightarrow> tk_type t = KL2_TASKTYPE_KERNEL \<Longrightarrow>
     kl2_step y (y\<lparr>y2_dev := d', y2_hw := (y2_hw y)(i := y2_hw y i @ w), y2_next := y2_next y + 1\<rparr>)"
| evnt_create: "s \<in># y2_open y \<Longrightarrow> kl2_create_event (y2_dev y) s (Some e) (Some k) = Some (Some e, d') \<Longrightarrow>
     d2_evnt (y2_dev y) e = None \<Longrightarrow> k \<notin> fst ` set (d2_event_idr (y2_dev y)) \<Longrightarrow>
     kl2_step y (y\<lparr>y2_dev := d', y2_owned := insert e (y2_owned y)\<rparr>)"
| evnt_get: "s \<in># y2_open y \<Longrightarrow> event_of_session (y2_dev y) s k = Some (Some e, d') \<Longrightarrow>
     kl2_step y (y\<lparr>y2_dev := d', y2_calls := add_mset (EvHold s e) (y2_calls y)\<rparr>)"
| evnt_put: "EvHold s e \<in># y2_calls y \<Longrightarrow> evnt_put (y2_dev y) e = Some d' \<Longrightarrow>
     kl2_step y (y\<lparr>y2_dev := d', y2_calls := y2_calls y - {#EvHold s e#}\<rparr>)"
| evnt_destroy: "s \<in># y2_open y \<Longrightarrow> idr_find (d2_event_idr (y2_dev y)) k = Some e \<Longrightarrow>
     ioctl_event_destroy (y2_dev y) s (Some k) = Some (None, d') \<Longrightarrow> e \<in> y2_owned y \<Longrightarrow>
     kl2_step y (y\<lparr>y2_dev := d', y2_owned := y2_owned y - {e}\<rparr>)"
| record_add: "EvHold s e \<in># y2_calls y \<Longrightarrow> adds y s t d' w t1 i \<Longrightarrow>
     tk_type t = KL2_TASKTYPE_EVNTREC \<Longrightarrow> tk_evnt t = Some e \<Longrightarrow>
     (\<exists>v. d2_evnt (y2_dev y) e = Some v \<and> ev_rec_cnt v + 1 < 2 ^ 32) \<Longrightarrow>
     hq_evnt_seq (d2_hwq (y2_dev y) ! i) + 1 < 2 ^ 64 \<Longrightarrow>
     kl2_step y (y\<lparr>y2_dev := d', y2_hw := (y2_hw y)(i := y2_hw y i @ w), y2_next := y2_next y + 1,
       y2_calls := add_mset (EvPublish s e (tk_hwq_id t1) (tk_record_seq t1)) (y2_calls y - {#EvHold s e#})\<rparr>)"
| record_publish: "EvPublish s e i n \<in># y2_calls y \<Longrightarrow> publish_record (y2_dev y) e i n = Some d' \<Longrightarrow>
     kl2_step y (y\<lparr>y2_dev := d', y2_calls := add_mset (EvHold s e) (y2_calls y - {#EvPublish s e i n#})\<rparr>)"
| wait_read: "EvHold s e \<in># y2_calls y \<Longrightarrow> d2_evnt (y2_dev y) e = Some v \<Longrightarrow> ev_rec v = Some (i, n) \<Longrightarrow>
     kl2_step y (y\<lparr>y2_calls := add_mset (EvWait s e i n) (y2_calls y - {#EvHold s e#})\<rparr>)"
| wait_add: "EvWait s e j n \<in># y2_calls y \<Longrightarrow> adds y s t d' w t1 i \<Longrightarrow>
     tk_type t = KL2_TASKTYPE_EVNTWAIT \<Longrightarrow> tk_wait_vstream_id t = j \<Longrightarrow> tk_record_seq t = n \<Longrightarrow>
     kl2_step y (y\<lparr>y2_dev := d', y2_hw := (y2_hw y)(i := y2_hw y i @ w), y2_next := y2_next y + 1,
       y2_calls := add_mset (EvHold s e) (y2_calls y - {#EvWait s e j n#})\<rparr>)"
| wait_fail: "EvWait s e j n \<in># y2_calls y \<Longrightarrow>
     kl2_step y (y\<lparr>y2_calls := add_mset (EvHold s e) (y2_calls y - {#EvWait s e j n#})\<rparr>)"
| dispatch: "i < KL2_HWQ_CNT \<Longrightarrow> kl2_hwq_dispatch_locked (y2_dev y) i = Some (d', w) \<Longrightarrow>
     kl2_step y (y\<lparr>y2_dev := d', y2_hw := (y2_hw y)(i := y2_hw y i @ w)\<rparr>)"
| intr: "i < KL2_HWQ_CNT \<Longrightarrow> kl2_handle_hwq_intr (y2_dev y) i cnt = Some (d', w) \<Longrightarrow>
     kl2_step y (y\<lparr>y2_dev := d', y2_hw := (y2_hw y)(i := drop cnt (y2_hw y i) @ w)\<rparr>)"
| work_start: "i < KL2_HWQ_CNT \<Longrightarrow> hq_finish_work (d2_hwq (y2_dev y) ! i) \<Longrightarrow> hq_free (d2_hwq (y2_dev y) ! i) = [] \<Longrightarrow>
     finish_work_collect (y2_dev y) i = Some d' \<Longrightarrow> kl2_step y (y\<lparr>y2_dev := d'\<rparr>)"
| work_one: "i < KL2_HWQ_CNT \<Longrightarrow> hq_free (d2_hwq (y2_dev y) ! i) \<noteq> [] \<Longrightarrow> finish_work_one (y2_dev y) i = Some d' \<Longrightarrow>
     kl2_step y (y\<lparr>y2_dev := d', y2_owned := alive d' (y2_owned y)\<rparr>)"
| mark: "upd_sess (y2_dev y) s (\<lambda>x. kl2_session_taint x err) = Some d' \<Longrightarrow> kl2_step y (y\<lparr>y2_dev := d'\<rparr>)"
| release_wait: "s \<in># y2_open y \<Longrightarrow> taint_unfinished (y2_dev y) s = Some d' \<Longrightarrow> kl2_step y (y\<lparr>y2_dev := d'\<rparr>)"
| release: "s \<in># y2_open y \<Longrightarrow> (\<forall>c. c \<in># y2_calls y \<longrightarrow> fst (call_refs c) \<noteq> s) \<Longrightarrow> kl2_release (y2_dev y) s = Some d' \<Longrightarrow>
     kl2_step y (y\<lparr>y2_dev := d', y2_open := y2_open y - {#s#}, y2_owned := alive d' (y2_owned y)\<rparr>)"
| set_state: "kl2_step y (y\<lparr>y2_dev := (y2_dev y)\<lparr>d2_state := st, d2_in_reset_state := b\<rparr>\<rparr>)"
| report: "i < KL2_HWQ_CNT \<Longrightarrow> kl2_step y (y\<lparr>y2_dev := upd_board (y2_dev y) i (\<lambda>_. b)\<rparr>)"
| excp_taint: "i < KL2_HWQ_CNT \<Longrightarrow> taint_from_queue (y2_dev y) i = Some d' \<Longrightarrow> kl2_step y (y\<lparr>y2_dev := d'\<rparr>)"
| excp_convert: "convert_taint (y2_dev y) (d2_session_idr (y2_dev y)) = Some d' \<Longrightarrow> kl2_step y (y\<lparr>y2_dev := d'\<rparr>)"
| excp_settle: "i < KL2_HWQ_CNT \<Longrightarrow> kl2_step y (y\<lparr>y2_dev := settle_board z (y2_dev y) i\<rparr>)"
| excp_reset: "i < KL2_HWQ_CNT \<Longrightarrow> reset_queue (y2_dev y) i = Some (d', ops) \<Longrightarrow>
     kl2_step y (y\<lparr>y2_dev := d', y2_hw := apply_hw (y2_hw y) ops\<rparr>)"

definition sys2_init :: "32 word \<Rightarrow> sys2" where
  "sys2_init hwq_bits =
     \<lparr>y2_dev = kl2_hwq_init hwq_bits \<lparr>d2_state = KL2_RUNNING, d2_in_reset_state = False, d2_hwq = [],
        d2_hwq_bitmap = 0, d2_task_token = 100,
        d2_board = replicate KL2_HWQ_CNT \<lparr>eb_token = 0, eb_excp_cnt = 0, eb_taint_cnt = 0, eb_taint_2_reset_cnt = 0\<rparr>,
        d2_sess = Map.empty, d2_session_idr = [], d2_uproc = Map.empty, d2_uproc_idr = [],
        d2_evnt = Map.empty, d2_event_idr = [], d2_mm_calls = []\<rparr>,
      y2_open = {#}, y2_calls = {#}, y2_owned = {}, y2_hw = (\<lambda>_. []), y2_next = 0\<rparr>"

inductive kl2_reachable :: "32 word \<Rightarrow> sys2 \<Rightarrow> bool" for hwq_bits where
  init: "kl2_reachable hwq_bits (sys2_init hwq_bits)"
| step: "kl2_reachable hwq_bits y \<Longrightarrow> kl2_step y z \<Longrightarrow> kl2_reachable hwq_bits z"

section \<open>What the code keeps\<close>

text \<open>The parts of the objects that ownership is about: marks, error numbers and published records do not count.\<close>

definition clean_s :: "kl2_session \<Rightarrow> kl2_session" where
  "clean_s x = x\<lparr>s2_state := KL2_SESS_NORMAL, s2_taint_state := KL2_SESS_NORMAL, s2_errno := None, s2_taint_errno := None\<rparr>"

definition clean_u :: "kl2_userprocess \<Rightarrow> kl2_userprocess" where
  "clean_u p = p\<lparr>up_state := KL2_UPROC_NORMAL\<rparr>"

definition clean_e :: "kl2_event \<Rightarrow> kl2_event" where
  "clean_e v = v\<lparr>ev_state := KL2_EVNT_NORMAL, ev_rec := None\<rparr>"

definition busy_of :: "kl2_hwq \<Rightarrow> kl2_task multiset" where
  "busy_of q = mset (hq_pt_list q) + mset (hq_rt_list q) + mset (hq_exception_list q)"

definition done_of :: "kl2_hwq \<Rightarrow> kl2_task multiset" where
  "done_of q = mset (hq_ft_list q) + mset (hq_free q)"

definition own :: "kl2_dev \<Rightarrow> nat multiset \<Rightarrow> (nat \<times> nat) multiset \<Rightarrow> nat set \<Rightarrow> bool" where
  "own d H C W \<longleftrightarrow> own_ok (map_option clean_s \<circ> d2_sess d) (map_option clean_u \<circ> d2_uproc d)
     (map_option clean_e \<circ> d2_evnt d) (\<lambda>i. busy_of (d2_hwq d ! i)) (\<lambda>i. done_of (d2_hwq d ! i)) H C W"

text \<open>The shape of a queue; \<open>hw\<close> is what the hardware holds.\<close>

definition queue_shape :: "nat \<Rightarrow> kl2_hwq \<Rightarrow> kl2_task list \<Rightarrow> bool" where
  "queue_shape i q hw \<longleftrightarrow>
     hq_id q = i \<and> hq_cnt_running q = length (hq_rt_list q) \<and> length (hq_rt_list q) \<le> KL2_HWQ_DEPTH \<and>
     hq_cnt_all q = length (hq_pt_list q) + length (hq_rt_list q) \<and> hq_cnt_all q < 2 ^ 32 \<and>
     hw = hq_rt_list q \<and> (hq_ft_list q @ hq_exception_list q \<noteq> [] \<longrightarrow> hq_finish_work q)"

definition shape :: "kl2_dev \<Rightarrow> (nat \<Rightarrow> kl2_task list) \<Rightarrow> bool" where
  "shape d hw \<longleftrightarrow> length (d2_hwq d) = KL2_HWQ_CNT \<and> length (d2_board d) = KL2_HWQ_CNT \<and>
     (\<forall>i < KL2_HWQ_CNT. queue_shape i (d2_hwq d ! i) (hw i))"

definition idr_ok :: "(nat \<times> nat) list \<Rightarrow> (nat \<Rightarrow> 'a option) \<Rightarrow> ('a \<Rightarrow> nat) \<Rightarrow> bool" where
  "idr_ok idr M idf \<longleftrightarrow> distinct (map fst idr) \<and> (\<forall>k p. (k, p) \<in> set idr \<longleftrightarrow> (\<exists>x. M p = Some x \<and> idf x = k))"

definition tables :: "kl2_dev \<Rightarrow> bool" where
  "tables d \<longleftrightarrow> idr_ok (d2_session_idr d) (d2_sess d) s2_id \<and> idr_ok (d2_event_idr d) (d2_evnt d) ev_id \<and>
     idr_ok (d2_uproc_idr d) (d2_uproc d) up_pid"

definition bound_to :: "(nat \<Rightarrow> kl2_session option) \<Rightarrow> nat \<Rightarrow> nat set" where
  "bound_to S i = {s. \<exists>x. S s = Some x \<and> s2_hwq x = Some i}"

definition binding :: "kl2_dev \<Rightarrow> bool" where
  "binding d \<longleftrightarrow> (\<forall>i < KL2_HWQ_CNT. let q = d2_hwq d ! i in
     distinct (hq_session_list q) \<and> set (hq_session_list q) = bound_to (d2_sess d) i \<and>
     hq_session_cnt q = int (length (hq_session_list q)))"

definition evnt_states :: "kl2_dev \<Rightarrow> nat set \<Rightarrow> bool" where
  "evnt_states d W \<longleftrightarrow> (\<forall>e v. d2_evnt d e = Some v \<longrightarrow>
     (e \<in> W \<longrightarrow> ev_state v \<noteq> KL2_EVNT_DESTROYED) \<and> (e \<notin> W \<longrightarrow> ev_state v \<noteq> KL2_EVNT_NORMAL))"

definition dev_ok ::
    "kl2_dev \<Rightarrow> (nat \<Rightarrow> kl2_task list) \<Rightarrow> nat multiset \<Rightarrow> (nat \<times> nat) multiset \<Rightarrow> nat set \<Rightarrow> bool" where
  "dev_ok d hw H C W \<longleftrightarrow> own d H C W \<and> shape d hw \<and> tables d \<and> binding d \<and> evnt_states d W"

definition sys2_ok :: "sys2 \<Rightarrow> bool" where
  "sys2_ok y \<longleftrightarrow> dev_ok (y2_dev y) (y2_hw y) (y2_open y) (image_mset call_refs (y2_calls y)) (y2_owned y)"

end
