(* ===== verification/Kl2_Sched_Props.thy ===== *)
theory Kl2_Sched_Props
  imports Kl2_Sched
begin

text \<open>
  Every step of the KL2 task path succeeds where its guard holds and keeps what \<^verbatim>\<open>Kl2_Sched\<close> says
  the code keeps: one lemma per operation, then the summary over all reachable states.
\<close>

section \<open>Views\<close>

lemma clean_simps [simp]:
  "s2_id (clean_s x) = s2_id x" "s2_uproc (clean_s x) = s2_uproc x" "s2_unfinished_cnt (clean_s x) = s2_unfinished_cnt x"
  "s2_refs (clean_s x) = s2_refs x" "s2_hwq (clean_s x) = s2_hwq x"
  "up_pid (clean_u p) = up_pid p" "up_refs (clean_u p) = up_refs p" "up_event_list (clean_u p) = up_event_list p"
  "ev_id (clean_e v) = ev_id v" "ev_uproc (clean_e v) = ev_uproc v" "ev_rec_cnt (clean_e v) = ev_rec_cnt v"
  "ev_fin_cnt (clean_e v) = ev_fin_cnt v" "ev_refs (clean_e v) = ev_refs v"
  by (simp_all add: clean_s_def clean_u_def clean_e_def)

lemma clean_upd:
  "clean_s (x\<lparr>s2_hwq := h\<rparr>) = (clean_s x)\<lparr>s2_hwq := h\<rparr>"
  "clean_s (x\<lparr>s2_unfinished_cnt := n\<rparr>) = (clean_s x)\<lparr>s2_unfinished_cnt := n\<rparr>"
  "clean_s (x\<lparr>s2_refs := r\<rparr>) = (clean_s x)\<lparr>s2_refs := r\<rparr>"
  "clean_u (p\<lparr>up_refs := r\<rparr>) = (clean_u p)\<lparr>up_refs := r\<rparr>"
  "clean_u (p\<lparr>up_event_list := l\<rparr>) = (clean_u p)\<lparr>up_event_list := l\<rparr>"
  "clean_e (v\<lparr>ev_refs := r\<rparr>) = (clean_e v)\<lparr>ev_refs := r\<rparr>"
  "clean_e (v\<lparr>ev_rec_cnt := r\<rparr>) = (clean_e v)\<lparr>ev_rec_cnt := r\<rparr>"
  "clean_e (v\<lparr>ev_fin_cnt := r\<rparr>) = (clean_e v)\<lparr>ev_fin_cnt := r\<rparr>"
  by (simp_all add: clean_s_def clean_u_def clean_e_def)

lemma clean_marks [simp]:
  "clean_s (x\<lparr>s2_state := a\<rparr>) = clean_s x" "clean_s (x\<lparr>s2_taint_state := a\<rparr>) = clean_s x"
  "clean_s (x\<lparr>s2_errno := n\<rparr>) = clean_s x" "clean_s (x\<lparr>s2_taint_errno := n\<rparr>) = clean_s x"
  "clean_u (p\<lparr>up_state := b\<rparr>) = clean_u p"
  "clean_e (v\<lparr>ev_state := c\<rparr>) = clean_e v" "clean_e (v\<lparr>ev_rec := l\<rparr>) = clean_e v"
  by (simp_all add: clean_s_def clean_u_def clean_e_def)

lemma clean_mark [simp]:
  "clean_s (kl2_session_mark_error x err b) = clean_s x" "clean_s (kl2_session_taint x e) = clean_s x"
  by (simp_all add: kl2_session_mark_error_def kl2_session_taint_def Let_def)

lemma view_upd:
  "map_option f \<circ> M(k \<mapsto> x) = (map_option f \<circ> M)(k \<mapsto> f x)"
  "map_option f \<circ> M(k := None) = (map_option f \<circ> M)(k := None)"
  by auto

lemma view_same: "M k = Some x \<Longrightarrow> f x' = f x \<Longrightarrow> (map_option f \<circ> M)(k \<mapsto> f x') = map_option f \<circ> M"
  by auto

lemma nth_view: "i < length qs \<Longrightarrow> (\<lambda>j. f (qs[i := q] ! j)) = (\<lambda>j. f (qs ! j))(i := f q)"
  by (auto simp: nth_update_if)

lemma nth_view_same: "i < length qs \<Longrightarrow> f q = f (qs ! i) \<Longrightarrow> (\<lambda>j. f (qs[i := q] ! j)) = (\<lambda>j. f (qs ! j))"
  by (auto simp: nth_update_if)

lemma sess_view: "d2_sess d s = Some x \<Longrightarrow> (map_option clean_s \<circ> d2_sess d) s = Some (clean_s x)"
  by simp

lemma evnt_view: "d2_evnt d e = Some v \<Longrightarrow> (map_option clean_e \<circ> d2_evnt d) e = Some (clean_e v)"
  by simp

lemma uproc_view: "d2_uproc d u = Some p \<Longrightarrow> (map_option clean_u \<circ> d2_uproc d) u = Some (clean_u p)"
  by simp

lemma busy_frame [simp]:
  "busy_of (q\<lparr>hq_session_list := sl\<rparr>) = busy_of q" "busy_of (q\<lparr>hq_session_cnt := n\<rparr>) = busy_of q"
  "busy_of (q\<lparr>hq_cnt_running := k\<rparr>) = busy_of q" "busy_of (q\<lparr>hq_cnt_all := k\<rparr>) = busy_of q"
  "busy_of (q\<lparr>hq_evnt_seq := k\<rparr>) = busy_of q" "busy_of (q\<lparr>hq_taint_state := st\<rparr>) = busy_of q"
  "busy_of (q\<lparr>hq_finish_work := b\<rparr>) = busy_of q" "busy_of (q\<lparr>hq_free := ts\<rparr>) = busy_of q"
  "busy_of (q\<lparr>hq_ft_list := ts\<rparr>) = busy_of q"
  by (simp_all add: busy_of_def)

lemma done_frame [simp]:
  "done_of (q\<lparr>hq_session_list := sl\<rparr>) = done_of q" "done_of (q\<lparr>hq_session_cnt := n\<rparr>) = done_of q"
  "done_of (q\<lparr>hq_cnt_running := k\<rparr>) = done_of q" "done_of (q\<lparr>hq_cnt_all := k\<rparr>) = done_of q"
  "done_of (q\<lparr>hq_evnt_seq := k\<rparr>) = done_of q" "done_of (q\<lparr>hq_taint_state := st\<rparr>) = done_of q"
  "done_of (q\<lparr>hq_finish_work := b\<rparr>) = done_of q" "done_of (q\<lparr>hq_pt_list := ts\<rparr>) = done_of q"
  "done_of (q\<lparr>hq_rt_list := ts\<rparr>) = done_of q" "done_of (q\<lparr>hq_exception_list := ts\<rparr>) = done_of q"
  by (simp_all add: done_of_def)

section \<open>Tables\<close>

lemma idr_find_iff: "idr_ok idr M idf \<Longrightarrow> idr_find idr k = Some p \<longleftrightarrow> (\<exists>x. M p = Some x \<and> idf x = k)"
  by (simp add: idr_ok_def idr_find_def)

lemma distinct_fst_insort:
  "k \<notin> fst ` set idr \<Longrightarrow> distinct (map fst idr) \<Longrightarrow> distinct (map fst (insort_key fst (k, p) idr))"
  by (induction idr) (auto simp: set_insort_key)

lemma idr_ok_insert:
  assumes "idr_ok idr M idf" "M p = None" "k \<notin> fst ` set idr" "idf x = k"
  shows "idr_ok (idr_insert k p idr) (M(p \<mapsto> x)) idf"
proof -
  have *: "(k', p') \<in> set idr \<longleftrightarrow> (\<exists>x. M p' = Some x \<and> idf x = k')" for k' p' using assms(1) by (simp add: idr_ok_def)
  have "(k', p') \<in> set (idr_insert k p idr) \<longleftrightarrow> (\<exists>y. (M(p \<mapsto> x)) p' = Some y \<and> idf y = k')" for k' p'
    using assms(2,4) by (cases "p' = p") (auto simp: idr_insert_def set_insort_key *)
  moreover have "distinct (map fst (idr_insert k p idr))"
    unfolding idr_insert_def using assms(1,3) by (intro distinct_fst_insort) (simp_all add: idr_ok_def)
  ultimately show ?thesis unfolding idr_ok_def by blast
qed

lemma idr_ok_remove:
  assumes "idr_ok idr M idf" "M p = Some x"
  shows "idr_ok (idr_remove idr (idf x)) (M(p := None)) idf"
proof -
  have *: "(k', p') \<in> set idr \<longleftrightarrow> (\<exists>x. M p' = Some x \<and> idf x = k')" for k' p' using assms(1) by (simp add: idr_ok_def)
  have d: "distinct (map fst idr)" using assms(1) by (simp add: idr_ok_def)
  have u: "q = p" if "M q = Some y" "idf y = idf x" for q y
  proof -
    have "(idf x, q) \<in> set idr" "(idf x, p) \<in> set idr" using that assms(2) by (auto simp: *)
    then show ?thesis using eq_key_imp_eq_value [OF d] by blast
  qed
  have "(k', p') \<in> set (idr_remove idr (idf x)) \<longleftrightarrow> (\<exists>y. (M(p := None)) p' = Some y \<and> idf y = k')" for k' p'
  proof -
    have "(k', p') \<in> set (idr_remove idr (idf x)) \<longleftrightarrow> (\<exists>y. M p' = Some y \<and> idf y = k') \<and> k' \<noteq> idf x"
      by (simp add: idr_remove_def *)
    also have "\<dots> \<longleftrightarrow> (\<exists>y. (M(p := None)) p' = Some y \<and> idf y = k')"
      using assms(2) u [of p'] by (cases "p' = p") auto
    finally show ?thesis .
  qed
  moreover have "distinct (map fst (idr_remove idr (idf x)))"
    using d unfolding idr_remove_def by (rule distinct_map_filter)
  ultimately show ?thesis unfolding idr_ok_def by blast
qed

lemma idr_ok_upd: "idr_ok idr M idf \<Longrightarrow> M p = Some x \<Longrightarrow> idf x' = idf x \<Longrightarrow> idr_ok idr (M(p \<mapsto> x')) idf"
  by (auto simp: idr_ok_def)

lemma idr_live: "idr_ok idr M idf \<Longrightarrow> (k, p) \<in> set idr \<Longrightarrow> \<exists>x. M p = Some x"
  by (auto simp: idr_ok_def)

lemma idr_live_all: "idr_ok idr M idf \<Longrightarrow> snd ` set idr = dom M"
  unfolding idr_ok_def by force

section \<open>Frames\<close>

lemma bound_to_upd: "S s = Some x \<Longrightarrow> s2_hwq x' = s2_hwq x \<Longrightarrow> bound_to (S(s \<mapsto> x')) i = bound_to S i"
  by (auto simp: bound_to_def)

text \<open>Changes of marks: what is kept does not see them.\<close>

lemma dev_ok_sess_mark:
  assumes ok: "dev_ok d hw H C W" and x: "d2_sess d s = Some x" and x': "clean_s x' = clean_s x"
  shows "dev_ok (d\<lparr>d2_sess := (d2_sess d)(s \<mapsto> x')\<rparr>) hw H C W"
proof -
  have f: "s2_id x' = s2_id x" "s2_hwq x' = s2_hwq x" using x' by (metis clean_simps(1), metis clean_simps(5))
  show ?thesis
    using ok unfolding dev_ok_def own_def shape_def tables_def binding_def evnt_states_def
    by (simp add: view_same [where M = "d2_sess d" and f = clean_s, OF x x'] idr_ok_upd [where M = "d2_sess d" and idf = s2_id and x' = x', OF _ x f(1)] bound_to_upd [where S = "d2_sess d", OF x f(2)])
qed

lemma dev_ok_uproc_mark:
  assumes ok: "dev_ok d hw H C W" and x: "d2_uproc d u = Some p" and x': "clean_u p' = clean_u p"
  shows "dev_ok (d\<lparr>d2_uproc := (d2_uproc d)(u \<mapsto> p')\<rparr>) hw H C W"
proof -
  have f: "up_pid p' = up_pid p" using x' by (metis clean_simps(6))
  show ?thesis
    using ok unfolding dev_ok_def own_def shape_def tables_def binding_def evnt_states_def
    by (simp add: view_same [where M = "d2_uproc d" and f = clean_u, OF x x'] idr_ok_upd [where M = "d2_uproc d" and idf = up_pid and x' = p', OF _ x f])
qed

lemma dev_ok_evnt_mark:
  assumes ok: "dev_ok d hw H C W" and x: "d2_evnt d e = Some v" and x': "clean_e v' = clean_e v"
    and st: "ev_state v' = ev_state v \<or> ev_state v' = KL2_EVNT_REVOKED"
  shows "dev_ok (d\<lparr>d2_evnt := (d2_evnt d)(e \<mapsto> v')\<rparr>) hw H C W"
proof -
  have f: "ev_id v' = ev_id v" using x' by (metis clean_simps(9))
  have st': "evnt_states (d\<lparr>d2_evnt := (d2_evnt d)(e \<mapsto> v')\<rparr>) W"
    using ok x st by (auto simp: dev_ok_def evnt_states_def) (metis+)
  show ?thesis
    using ok unfolding dev_ok_def own_def shape_def tables_def binding_def
    by (simp add: view_same [where M = "d2_evnt d" and f = clean_e, OF x x']
        idr_ok_upd [where M = "d2_evnt d" and idf = ev_id and x' = v', OF _ x f] st')
qed

text \<open>Fields of the device that nothing kept depends on.\<close>

lemma dev_ok_other [simp]:
  "dev_ok (d\<lparr>d2_state := st\<rparr>) hw H C W = dev_ok d hw H C W"
  "dev_ok (d\<lparr>d2_in_reset_state := b\<rparr>) hw H C W = dev_ok d hw H C W"
  "dev_ok (d\<lparr>d2_task_token := n\<rparr>) hw H C W = dev_ok d hw H C W"
  "dev_ok (d\<lparr>d2_mm_calls := l\<rparr>) hw H C W = dev_ok d hw H C W"
  by (simp_all add: dev_ok_def own_def shape_def tables_def binding_def evnt_states_def)

text \<open>A change of one queue that moves no task.\<close>

lemma dev_ok_queue:
  assumes ok: "dev_ok d hw H C W" and i: "i < KL2_HWQ_CNT" and q: "q = d2_hwq d ! i"
    and same: "busy_of q' = busy_of q" "done_of q' = done_of q" "hq_session_list q' = hq_session_list q"
      "hq_session_cnt q' = hq_session_cnt q"
    and sh: "queue_shape i q (hw i) \<Longrightarrow> queue_shape i q' hw'"
  shows "dev_ok (d\<lparr>d2_hwq := (d2_hwq d)[i := q']\<rparr>) (hw(i := hw')) H C W"
proof -
  have len: "i < length (d2_hwq d)" using ok i by (simp add: dev_ok_def shape_def)
  have "own (d\<lparr>d2_hwq := (d2_hwq d)[i := q']\<rparr>) H C W"
    using ok same q unfolding dev_ok_def own_def by (simp add: nth_view_same [OF len])
  moreover have "shape (d\<lparr>d2_hwq := (d2_hwq d)[i := q']\<rparr>) (hw(i := hw'))"
    using ok sh q i unfolding dev_ok_def shape_def by (auto simp: nth_update_if)
  moreover have "binding (d\<lparr>d2_hwq := (d2_hwq d)[i := q']\<rparr>)"
    using ok same q unfolding dev_ok_def binding_def by (auto simp: nth_update_if Let_def)
  ultimately show ?thesis using ok by (simp add: dev_ok_def tables_def evnt_states_def)
qed

lemma dev_ok_board: "dev_ok d hw H C W \<Longrightarrow> dev_ok (upd_board d i f) hw H C W"
  by (simp add: upd_board_def dev_ok_def own_def shape_def tables_def binding_def evnt_states_def)

section \<open>References\<close>

lemma dev_okD:
  assumes "dev_ok d hw H C W"
  shows "own d H C W" "shape d hw" "tables d" "binding d" "evnt_states d W"
  using assms by (simp_all add: dev_ok_def)

lemma own_held:
  assumes "own d H C W"
  shows "s \<in># H \<Longrightarrow> \<exists>x. d2_sess d s = Some x"
    and "(s, e) \<in># C \<Longrightarrow> s \<in># H \<and> (\<exists>x v. d2_sess d s = Some x \<and> d2_evnt d e = Some v \<and> ev_uproc v = s2_uproc x)"
    and "e \<in> W \<Longrightarrow> \<exists>v. d2_evnt d e = Some v"
  using assms unfolding own_def own_ok_def held_ok_def linked_def by (auto, (fastforce+)?)

lemma own_parents:
  assumes "own d H C W"
  shows "d2_sess d s = Some x \<Longrightarrow> \<exists>p. d2_uproc d (s2_uproc x) = Some p"
    and "d2_evnt d e = Some v \<Longrightarrow> \<exists>p. d2_uproc d (ev_uproc v) = Some p"
proof -
  have s: "sess_ok (map_option clean_s \<circ> d2_sess d) (map_option clean_u \<circ> d2_uproc d)
      (all_tasks (\<lambda>i. busy_of (d2_hwq d ! i)) (\<lambda>i. done_of (d2_hwq d ! i))) (\<lambda>i. busy_of (d2_hwq d ! i)) H"
    and e: "evnts_ok (map_option clean_u \<circ> d2_uproc d) (map_option clean_e \<circ> d2_evnt d)
      (all_tasks (\<lambda>i. busy_of (d2_hwq d ! i)) (\<lambda>i. done_of (d2_hwq d ! i))) C W"
    using assms by (simp_all add: own_def own_ok_def)
  show "d2_sess d s = Some x \<Longrightarrow> \<exists>p. d2_uproc d (s2_uproc x) = Some p"
    using sess_okD [OF s sess_view] unfolding sess_entry_def by auto
  show "d2_evnt d e = Some v \<Longrightarrow> \<exists>p. d2_uproc d (ev_uproc v) = Some p"
    using evnts_okD [OF e evnt_view] unfolding evnt_entry_def by auto
qed

lemma own_task:
  assumes "own d H C W" "i < KL2_HWQ_CNT" "t \<in># busy_of (d2_hwq d ! i) + done_of (d2_hwq d ! i)"
  shows "\<exists>x. d2_sess d (tk_sess t) = Some x \<and> s2_hwq x = Some i"
    and "tk_type t = KL2_TASKTYPE_EVNTREC \<Longrightarrow>
      \<exists>e v x. tk_evnt t = Some e \<and> d2_evnt d e = Some v \<and> d2_sess d (tk_sess t) = Some x \<and> ev_uproc v = s2_uproc x"
  using assms tasks_okD [of "map_option clean_s \<circ> d2_sess d" "map_option clean_e \<circ> d2_evnt d"
      "all_tasks (\<lambda>i. busy_of (d2_hwq d ! i)) (\<lambda>i. done_of (d2_hwq d ! i))" i t]
  unfolding own_def own_ok_def linked_def by (fastforce simp: all_tasks_def)+

text \<open>Giving back a reference to an event.\<close>

lemma destroy_event_eq:
  assumes "d2_evnt d e = Some v" "d2_uproc d (ev_uproc v) = Some p"
  shows "kl2_destroy_event_ref d e = Some (d\<lparr>
     d2_uproc := (d2_uproc d)(ev_uproc v \<mapsto> p\<lparr>up_event_list := remove1 e (up_event_list p)\<rparr>),
     d2_event_idr := idr_remove (d2_event_idr d) (ev_id v), d2_evnt := (d2_evnt d)(e := None)\<rparr>)"
  using assms by (simp add: kl2_destroy_event_ref_def upd_uproc_def)

lemma evnt_put_ok:
  assumes ok: "dev_ok d hw H C W" and c: "(s, e) \<in># C"
  shows "\<exists>d'. evnt_put d e = Some d' \<and> dev_ok d' hw H (C - {#(s, e)#}) W \<and>
     d2_hwq d' = d2_hwq d \<and> d2_sess d' = d2_sess d"
proof -
  note o = dev_okD [OF ok]
  obtain v where v: "d2_evnt d e = Some v" using own_held(2) [OF o(1) c] by blast
  obtain p where p: "d2_uproc d (ev_uproc v) = Some p" using own_parents(2) [OF o(1) v] by blast
  have oo: "own_ok (map_option clean_s \<circ> d2_sess d) (map_option clean_u \<circ> d2_uproc d)
     (map_option clean_e \<circ> d2_evnt d) (\<lambda>i. busy_of (d2_hwq d ! i)) (\<lambda>i. done_of (d2_hwq d ! i)) H C W"
    using o(1) by (simp add: own_def)
  show ?thesis
  proof (cases "ev_refs v = 1")
    case True
    let ?d = "d\<lparr>d2_uproc := (d2_uproc d)(ev_uproc v \<mapsto> p\<lparr>up_event_list := remove1 e (up_event_list p)\<rparr>),
       d2_event_idr := idr_remove (d2_event_idr d) (ev_id v), d2_evnt := (d2_evnt d)(e := None)\<rparr>"
    have "own ?d H (C - {#(s, e)#}) W"
      using own_put_evnt_last [OF oo c, of "clean_e v" "clean_u p"] v p True
      by (simp add: own_def clean_upd view_upd)
    moreover have "tables ?d"
      using o(3) idr_ok_remove [where M = "d2_evnt d" and idf = ev_id, OF _ v]
        idr_ok_upd [where M = "d2_uproc d" and idf = up_pid and x' = "p\<lparr>up_event_list := remove1 e (up_event_list p)\<rparr>", OF _ p]
      by (simp add: tables_def)
    moreover have "evnt_states ?d W" using o(5) by (auto simp: evnt_states_def)
    ultimately have "dev_ok ?d hw H (C - {#(s, e)#}) W"
      using o(2,4) by (simp add: dev_ok_def shape_def binding_def)
    moreover have "evnt_put d e = Some ?d" using v True destroy_event_eq [OF v p] by (simp add: evnt_put_def)
    ultimately show ?thesis by fastforce
  next
    case False
    let ?d = "d\<lparr>d2_evnt := (d2_evnt d)(e \<mapsto> v\<lparr>ev_refs := ev_refs v - 1\<rparr>)\<rparr>"
    have "own ?d H (C - {#(s, e)#}) W"
      using own_put_evnt_more [OF oo c, of "clean_e v"] v False by (simp add: own_def clean_upd view_upd)
    moreover have "tables ?d"
      using o(3) idr_ok_upd [where M = "d2_evnt d" and idf = ev_id and x' = "v\<lparr>ev_refs := ev_refs v - 1\<rparr>", OF _ v]
      by (simp add: tables_def)
    moreover have "evnt_states ?d W" using o(5) v by (auto simp: evnt_states_def)
    ultimately have "dev_ok ?d hw H (C - {#(s, e)#}) W"
      using o(2,4) by (simp add: dev_ok_def shape_def binding_def)
    moreover have "evnt_put d e = Some ?d" using v False by (simp add: evnt_put_def upd_evnt_def)
    ultimately show ?thesis by fastforce
  qed
qed

lemma own_raw: "own d H C W \<Longrightarrow> own_ok (map_option clean_s \<circ> d2_sess d) (map_option clean_u \<circ> d2_uproc d)
     (map_option clean_e \<circ> d2_evnt d) (\<lambda>i. busy_of (d2_hwq d ! i)) (\<lambda>i. done_of (d2_hwq d ! i)) H C W"
  by (simp add: own_def)

lemma evnt_get_ok:
  assumes ok: "dev_ok d hw H C W" and s: "s \<in># H" "d2_sess d s = Some x" "d2_evnt d e = Some v" "ev_uproc v = s2_uproc x"
  shows "dev_ok (d\<lparr>d2_evnt := (d2_evnt d)(e \<mapsto> v\<lparr>ev_refs := ev_refs v + 1\<rparr>)\<rparr>) hw H (add_mset (s, e) C) W"
    (is "dev_ok ?d hw H ?C W")
proof -
  note o = dev_okD [OF ok]
  have "linked (map_option clean_s \<circ> d2_sess d) (map_option clean_e \<circ> d2_evnt d) s e"
    using s by (simp add: linked_def)
  then have "own ?d H ?C W"
    using own_get_evnt [OF own_raw [OF o(1)] s(1), of e "clean_e v"] s(3) by (simp add: own_def clean_upd view_upd)
  moreover have "tables ?d"
    using o(3) idr_ok_upd [where M = "d2_evnt d" and idf = ev_id and x' = "v\<lparr>ev_refs := ev_refs v + 1\<rparr>", OF _ s(3)]
    by (simp add: tables_def)
  moreover have "evnt_states ?d W" using o(5) s(3) by (auto simp: evnt_states_def)
  ultimately show ?thesis using o(2,4) by (simp add: dev_ok_def shape_def binding_def)
qed

lemma find_evnt: "dev_ok d hw H C W \<Longrightarrow> idr_find (d2_event_idr d) k = Some e \<Longrightarrow> \<exists>v. d2_evnt d e = Some v \<and> ev_id v = k"
  using idr_find_iff [of "d2_event_idr d" "d2_evnt d" ev_id] by (simp add: dev_ok_def tables_def)

text \<open>Taking a reference for a session never fails; for a foreign event nothing changes.\<close>

lemma event_of_session_ok:
  assumes ok: "dev_ok d hw H C W" and s: "s \<in># H"
  shows "\<exists>r d'. event_of_session d s k = Some (r, d') \<and> d2_hwq d' = d2_hwq d \<and> d2_sess d' = d2_sess d \<and>
    (case r of Some e \<Rightarrow> dev_ok d' hw H (add_mset (s, e) C) W | None \<Rightarrow> dev_ok d' hw H C W)"
proof (cases "idr_find (d2_event_idr d) k")
  case None
  then show ?thesis using ok by (simp add: event_of_session_def kl2_event_find_and_get_def)
next
  case (Some e)
  note o = dev_okD [OF ok]
  obtain v where v: "d2_evnt d e = Some v" using find_evnt [OF ok Some] by blast
  obtain x where x: "d2_sess d s = Some x" using own_held(1) [OF o(1) s] by blast
  have pos: "0 < ev_refs v"
  proof -
    have "evnts_ok (map_option clean_u \<circ> d2_uproc d) (map_option clean_e \<circ> d2_evnt d)
      (all_tasks (\<lambda>i. busy_of (d2_hwq d ! i)) (\<lambda>i. done_of (d2_hwq d ! i))) C W"
      using o(1) by (simp add: own_def own_ok_def)
    from evnts_okD [OF this evnt_view [OF v]] show ?thesis unfolding evnt_entry_def clean_simps by blast
  qed
  show ?thesis
  proof (cases "ev_uproc v = s2_uproc x")
    case True
    then show ?thesis using evnt_get_ok [OF ok s x v True] Some v x
      by (simp add: event_of_session_def kl2_event_find_and_get_def evnt_get_def upd_evnt_def)
  next
    case False
    have "evnt_put (d\<lparr>d2_evnt := (d2_evnt d)(e \<mapsto> v\<lparr>ev_refs := Suc (ev_refs v)\<rparr>)\<rparr>) e = Some d"
      using v pos by (auto simp: evnt_put_def upd_evnt_def fun_upd_idem)
    then show ?thesis using False Some v x ok
      by (simp add: event_of_session_def kl2_event_find_and_get_def evnt_get_def upd_evnt_def)
  qed
qed

lemma evnt_destroy_ok:
  assumes ok: "dev_ok d hw H C W" and e: "e \<in> W" "d2_evnt d e = Some v"
  shows "\<exists>d'. do { d1 \<leftarrow> upd_evnt d e (\<lambda>v. v\<lparr>ev_state := KL2_EVNT_DESTROYED\<rparr>); evnt_put d1 e } = Some d' \<and>
     dev_ok d' hw H C (W - {e}) \<and> d2_hwq d' = d2_hwq d \<and> d2_sess d' = d2_sess d"
proof -
  note o = dev_okD [OF ok]
  obtain p where p: "d2_uproc d (ev_uproc v) = Some p" using own_parents(2) [OF o(1) e(2)] by blast
  let ?dm = "d\<lparr>d2_evnt := (d2_evnt d)(e \<mapsto> v\<lparr>ev_state := KL2_EVNT_DESTROYED\<rparr>)\<rparr>"
  show ?thesis
  proof (cases "ev_refs v = 1")
    case True
    let ?d = "d\<lparr>d2_uproc := (d2_uproc d)(ev_uproc v \<mapsto> p\<lparr>up_event_list := remove1 e (up_event_list p)\<rparr>),
       d2_event_idr := idr_remove (d2_event_idr d) (ev_id v), d2_evnt := (d2_evnt d)(e := None)\<rparr>"
    have "own ?d H C (W - {e})"
      using own_destroy_evnt_last [OF own_raw [OF o(1)] e(1), of "clean_e v" "clean_u p"] e p True
      by (simp add: own_def clean_upd view_upd)
    moreover have "tables ?d"
      using o(3) idr_ok_remove [where M = "d2_evnt d" and idf = ev_id, OF _ e(2)]
        idr_ok_upd [where M = "d2_uproc d" and idf = up_pid and x' = "p\<lparr>up_event_list := remove1 e (up_event_list p)\<rparr>", OF _ p]
      by (simp add: tables_def)
    moreover have "evnt_states ?d (W - {e})" using o(5) by (auto simp: evnt_states_def)
    ultimately have "dev_ok ?d hw H C (W - {e})" using o(2,4) by (simp add: dev_ok_def shape_def binding_def)
    moreover have "evnt_put ?dm e = Some ?d"
    proof -
      have "d2_evnt ?dm e = Some (v\<lparr>ev_state := KL2_EVNT_DESTROYED\<rparr>)"
        "d2_uproc ?dm (ev_uproc (v\<lparr>ev_state := KL2_EVNT_DESTROYED\<rparr>)) = Some p" using p by simp_all
      from destroy_event_eq [OF this] True show ?thesis by (simp add: evnt_put_def)
    qed
    ultimately show ?thesis using e by (simp add: upd_evnt_def)
  next
    case False
    let ?v = "v\<lparr>ev_state := KL2_EVNT_DESTROYED, ev_refs := ev_refs v - 1\<rparr>"
    let ?d = "d\<lparr>d2_evnt := (d2_evnt d)(e \<mapsto> ?v)\<rparr>"
    have "own ?d H C (W - {e})"
      using own_destroy_evnt_more [OF own_raw [OF o(1)] e(1), of "clean_e v" "clean_e ?v"] e False by (simp add: own_def view_upd)
    moreover have "tables ?d"
      using o(3) idr_ok_upd [where M = "d2_evnt d" and idf = ev_id and x' = ?v, OF _ e(2)] by (simp add: tables_def)
    moreover have "evnt_states ?d (W - {e})" using o(5) by (auto simp: evnt_states_def)
    ultimately have "dev_ok ?d hw H C (W - {e})" using o(2,4) by (simp add: dev_ok_def shape_def binding_def)
    moreover have "evnt_put ?dm e = Some ?d" using False by (simp add: evnt_put_def upd_evnt_def)
    ultimately show ?thesis using e by (simp add: upd_evnt_def)
  qed
qed

lemma evnt_create_ok:
  assumes ok: "dev_ok d hw H C W" and s: "s \<in># H" and fresh: "d2_evnt d e = None" "k \<notin> fst ` set (d2_event_idr d)"
  shows "\<exists>d'. kl2_create_event d s (Some e) (Some k) = Some (Some e, d') \<and> dev_ok d' hw H C (insert e W) \<and>
     d2_hwq d' = d2_hwq d \<and> d2_sess d' = d2_sess d"
proof -
  note o = dev_okD [OF ok]
  obtain x where x: "d2_sess d s = Some x" using own_held(1) [OF o(1) s] by blast
  obtain p where p: "d2_uproc d (s2_uproc x) = Some p" using own_parents(1) [OF o(1) x] by blast
  let ?v = "\<lparr>ev_id = k, ev_uproc = s2_uproc x, ev_state = KL2_EVNT_NORMAL, ev_rec = None,
                  ev_rec_cnt = 0, ev_fin_cnt = 0, ev_refs = 1\<rparr>"
  let ?p = "p\<lparr>up_event_list := up_event_list p @ [e]\<rparr>"
  let ?d = "d\<lparr>d2_event_idr := idr_insert k e (d2_event_idr d), d2_uproc := (d2_uproc d)(s2_uproc x \<mapsto> ?p),
     d2_evnt := (d2_evnt d)(e \<mapsto> ?v)\<rparr>"
  have "own ?d H C (insert e W)"
    using own_new_evnt [OF own_raw [OF o(1)], of s "clean_s x" e "clean_u p" "clean_e ?v"] x p fresh
    by (simp add: own_def view_upd clean_upd)
  moreover have "tables ?d"
    using o(3) idr_ok_insert [where M = "d2_evnt d" and idf = ev_id and x = ?v, OF _ fresh]
      idr_ok_upd [where M = "d2_uproc d" and idf = up_pid and x' = ?p, OF _ p] by (simp add: tables_def)
  moreover have "evnt_states ?d (insert e W)" using o(5) by (auto simp: evnt_states_def)
  ultimately have "dev_ok ?d hw H C (insert e W)" using o(2,4) by (simp add: dev_ok_def shape_def binding_def)
  then show ?thesis using x p by (simp add: kl2_create_event_def upd_uproc_def)
qed

section \<open>Sessions\<close>

lemma destroy_list_eq:
  "\<forall>e\<in>set es. \<exists>v. d2_evnt d e = Some v \<and> ev_refs v = 1 \<and> ev_uproc v = u \<Longrightarrow> distinct es \<Longrightarrow>
   d2_uproc d u = Some p \<Longrightarrow> idr_ok (d2_event_idr d) (d2_evnt d) ev_id \<Longrightarrow>
   \<exists>l idr. kl2_destroy_uproc_event_list d es = Some (d\<lparr>d2_uproc := (d2_uproc d)(u \<mapsto> p\<lparr>up_event_list := l\<rparr>),
       d2_event_idr := idr, d2_evnt := (\<lambda>e. if e \<in> set es then None else d2_evnt d e)\<rparr>) \<and>
     idr_ok idr (\<lambda>e. if e \<in> set es then None else d2_evnt d e) ev_id"
proof (induction es arbitrary: d p)
  case Nil
  then show ?case by (intro exI [of _ "up_event_list p"] exI [of _ "d2_event_idr d"]) (simp add: fun_upd_idem)
next
  case (Cons e es)
  then obtain v where v: "d2_evnt d e = Some v" "ev_refs v = 1" "ev_uproc v = u" by auto
  let ?p = "p\<lparr>up_event_list := remove1 e (up_event_list p)\<rparr>"
  let ?d = "d\<lparr>d2_uproc := (d2_uproc d)(u \<mapsto> ?p), d2_event_idr := idr_remove (d2_event_idr d) (ev_id v),
     d2_evnt := (d2_evnt d)(e := None)\<rparr>"
  have put: "evnt_put d e = Some ?d"
    using v Cons.prems(3) destroy_event_eq [OF v(1), of p] by (simp add: evnt_put_def)
  have "\<exists>l idr. kl2_destroy_uproc_event_list ?d es = Some (?d\<lparr>d2_uproc := (d2_uproc ?d)(u \<mapsto> ?p\<lparr>up_event_list := l\<rparr>),
       d2_event_idr := idr, d2_evnt := (\<lambda>e. if e \<in> set es then None else d2_evnt ?d e)\<rparr>) \<and>
     idr_ok idr (\<lambda>e. if e \<in> set es then None else d2_evnt ?d e) ev_id"
  proof (rule Cons.IH)
    show "idr_ok (d2_event_idr ?d) (d2_evnt ?d) ev_id"
      using idr_ok_remove [where M = "d2_evnt d" and idf = ev_id, OF Cons.prems(4) v(1)] by simp
    show "\<forall>e\<in>set es. \<exists>v. d2_evnt ?d e = Some v \<and> ev_refs v = 1 \<and> ev_uproc v = u"
      using Cons.prems(1,2) by auto
  qed (use Cons.prems(2) in simp_all)
  then obtain l idr where l: "kl2_destroy_uproc_event_list ?d es = Some (?d\<lparr>d2_uproc := (d2_uproc ?d)(u \<mapsto> ?p\<lparr>up_event_list := l\<rparr>),
       d2_event_idr := idr, d2_evnt := (\<lambda>e. if e \<in> set es then None else d2_evnt ?d e)\<rparr>)"
    "idr_ok idr (\<lambda>e. if e \<in> set es then None else d2_evnt ?d e) ev_id" by blast
  have *: "(\<lambda>e'. if e' \<in> set es then None else d2_evnt ?d e') = (\<lambda>e'. if e' \<in> set (e # es) then None else d2_evnt d e')"
    by auto
  have u: "(d2_uproc ?d)(u \<mapsto> ?p\<lparr>up_event_list := l\<rparr>) = (d2_uproc d)(u \<mapsto> p\<lparr>up_event_list := l\<rparr>)" by simp
  have "kl2_destroy_uproc_event_list d (e # es) = kl2_destroy_uproc_event_list ?d es" using put by simp
  also note l(1) [unfolded * u]
  finally have "kl2_destroy_uproc_event_list d (e # es) = Some (d\<lparr>d2_uproc := (d2_uproc d)(u \<mapsto> p\<lparr>up_event_list := l\<rparr>),
       d2_event_idr := idr, d2_evnt := (\<lambda>e'. if e' \<in> set (e # es) then None else d2_evnt d e')\<rparr>)" by simp
  with l(2) show ?case unfolding * by blast
qed

lemma bound_to_gone: "bound_to (S(s := None)) i = bound_to S i - {s}"
  by (auto simp: bound_to_def)

lemma sess_put_ok:
  assumes ok: "dev_ok d hw H C W" and s: "s \<in># H" and c: "\<And>e. (s, e) \<in># C \<Longrightarrow> s \<in># H - {#s#}"
  shows "\<exists>d'. sess_put d s = Some d' \<and> dev_ok d' hw (H - {#s#}) C (alive d' W)"
proof -
  note o = dev_okD [OF ok]
  obtain x where x: "d2_sess d s = Some x" using own_held(1) [OF o(1) s] by blast
  obtain p where p: "d2_uproc d (s2_uproc x) = Some p" using own_parents(1) [OF o(1) x] by blast
  have WW: "alive d W = W" using own_held(3) [OF o(1)] by (force simp: alive_def)
  show ?thesis
  proof (cases "s2_refs x = 1")
    case False
    let ?x = "x\<lparr>s2_refs := s2_refs x - 1\<rparr>" let ?d = "d\<lparr>d2_sess := (d2_sess d)(s \<mapsto> ?x)\<rparr>"
    have "own ?d (H - {#s#}) C W"
      using own_put_sess_more [where x = "clean_s x", OF own_raw [OF o(1)] s c] x False by (simp add: own_def view_upd clean_upd)
    moreover have "tables ?d"
      using o(3) idr_ok_upd [where M = "d2_sess d" and idf = s2_id and x' = ?x, OF _ x] by (simp add: tables_def)
    moreover have "binding ?d" using o(4) x by (simp add: binding_def bound_to_upd)
    ultimately have "dev_ok ?d hw (H - {#s#}) C (alive ?d W)"
      using o(2,5) WW by (simp add: dev_ok_def shape_def evnt_states_def alive_def)
    moreover have "sess_put d s = Some ?d" using x False by (simp add: sess_put_def upd_sess_def)
    ultimately show ?thesis by blast
  next
    case True
    have sess: "sess_entry (map_option clean_u \<circ> d2_uproc d)
      (all_tasks (\<lambda>i. busy_of (d2_hwq d ! i)) (\<lambda>i. done_of (d2_hwq d ! i))) (\<lambda>i. busy_of (d2_hwq d ! i)) H s (clean_s x)"
      using own_raw [OF o(1)] x by (simp add: own_ok_def sess_ok_def)
    then have hi: "s2_hwq x = Some i \<Longrightarrow> i < KL2_HWQ_CNT" for i by (simp add: sess_entry_def)
    have H1: "s \<notin># H - {#s#}"
    proof
      assume "s \<in># H - {#s#}"
      then have "0 < count (H - {#s#}) s" by (simp only: count_greater_zero_iff)
      then have "1 < count H s" by (simp del: count_greater_zero_iff)
      with sess True show False by (simp add: sess_entry_def)
    qed
    have cn: "(s, e) \<notin># C" for e using c H1 by blast
    let ?U = "map_option clean_u \<circ> d2_uproc d" let ?E = "map_option clean_e \<circ> d2_evnt d"
    note gone = own_sess_gone [where x = "clean_s x" and p = "clean_u p", OF own_raw [OF o(1)] s cn]
    let ?idr = "idr_remove (d2_session_idr d) (s2_id x)"
    let ?hwq = "case s2_hwq x of None \<Rightarrow> d2_hwq d
        | Some i \<Rightarrow> (d2_hwq d)[i := (d2_hwq d ! i)\<lparr>hq_session_list := remove1 s (hq_session_list (d2_hwq d ! i)),
                                            hq_session_cnt := hq_session_cnt (d2_hwq d ! i) - 1\<rparr>]"
    let ?d3 = "d\<lparr>d2_session_idr := ?idr, d2_hwq := ?hwq, d2_mm_calls := d2_mm_calls d @ [MmFreeByOwner s]\<rparr>"
    have put: "sess_put d s = do { d4 \<leftarrow> uproc_put ?d3 (s2_uproc x); Some (d4\<lparr>d2_sess := (d2_sess d4)(s := None)\<rparr>) }"
      using x True by (simp add: sess_put_def kl2_destroy_session_ref_def kl2_session_release_hwq_locked_def upd_hwq_def
          split: option.split)
    have len: "length (d2_hwq d) = KL2_HWQ_CNT" using o(2) by (simp add: shape_def)
    have busy: "(\<lambda>j. busy_of (?hwq ! j)) = (\<lambda>j. busy_of (d2_hwq d ! j))"
      "(\<lambda>j. done_of (?hwq ! j)) = (\<lambda>j. done_of (d2_hwq d ! j))"
      using hi len by (auto simp: nth_update_if busy_of_def done_of_def split: option.split)
    have "shape ?d3 hw" using o(2) hi by (auto simp: shape_def nth_update_if queue_shape_def split: option.split)
    moreover have bind: "binding (?d3\<lparr>d2_sess := (d2_sess d)(s := None)\<rparr>)"
      unfolding binding_def Let_def
    proof (intro allI impI)
      fix j assume j: "j < KL2_HWQ_CNT"
      let ?q = "d2_hwq d ! j"
      have q: "distinct (hq_session_list ?q)" "set (hq_session_list ?q) = bound_to (d2_sess d) j"
        "hq_session_cnt ?q = int (length (hq_session_list ?q))" using o(4) j by (auto simp: binding_def Let_def)
      have m: "s \<in> set (hq_session_list ?q) \<longleftrightarrow> s2_hwq x = Some j" using q(2) x by (auto simp: bound_to_def)
      have n: "s2_hwq x = Some j \<Longrightarrow> int (length (hq_session_list ?q)) - 1 = int (length (remove1 s (hq_session_list ?q)))"
        using m length_pos_if_in_set [of s "hq_session_list ?q"] by (auto simp: length_remove1 of_nat_diff Suc_le_eq)
      show "distinct (hq_session_list (d2_hwq (?d3\<lparr>d2_sess := (d2_sess d)(s := None)\<rparr>) ! j)) \<and>
         set (hq_session_list (d2_hwq (?d3\<lparr>d2_sess := (d2_sess d)(s := None)\<rparr>) ! j)) =
           bound_to (d2_sess (?d3\<lparr>d2_sess := (d2_sess d)(s := None)\<rparr>)) j \<and>
         hq_session_cnt (d2_hwq (?d3\<lparr>d2_sess := (d2_sess d)(s := None)\<rparr>) ! j) =
           int (length (hq_session_list (d2_hwq (?d3\<lparr>d2_sess := (d2_sess d)(s := None)\<rparr>) ! j)))"
        using q m n len j by (cases "s2_hwq x = Some j") (auto simp: nth_update_if bound_to_gone set_remove1_eq split: option.split)
    qed
    moreover have idr: "idr_ok ?idr ((d2_sess d)(s := None)) s2_id"
      using o(3) x by (intro idr_ok_remove) (simp_all add: tables_def)
    ultimately have base: "shape ?d3 hw" "binding (?d3\<lparr>d2_sess := (d2_sess d)(s := None)\<rparr>)"
      "idr_ok ?idr ((d2_sess d)(s := None)) s2_id" by blast+
    show ?thesis
    proof (cases "up_refs p = 1")
      case False
      let ?d4 = "?d3\<lparr>d2_uproc := (d2_uproc d)(s2_uproc x \<mapsto> p\<lparr>up_refs := up_refs p - 1\<rparr>)\<rparr>"
      let ?d5 = "?d4\<lparr>d2_sess := (d2_sess d)(s := None)\<rparr>"
      have "uproc_put ?d3 (s2_uproc x) = Some ?d4" using p False by (simp add: uproc_put_def upd_uproc_def)
      then have "sess_put d s = Some ?d5" by (simp add: put)
      moreover have "own ?d5 (H - {#s#}) C W"
        using gone x True p False by (simp add: own_def view_upd clean_upd busy)
      moreover have "tables ?d5"
        using base(3) o(3) idr_ok_upd [where M = "d2_uproc d" and idf = up_pid and x' = "p\<lparr>up_refs := up_refs p - 1\<rparr>", OF _ p]
        by (simp add: tables_def)
      ultimately show ?thesis
        using base o(5) WW by (simp add: dev_ok_def shape_def binding_def evnt_states_def alive_def)
    next
      case up: True
      have ev: "\<forall>e\<in>set (up_event_list p). \<exists>v. d2_evnt d e = Some v \<and> ev_refs v = 1 \<and> ev_uproc v = s2_uproc x"
        using gone x True p up by fastforce
      have dist: "distinct (up_event_list p)"
        using own_raw [OF o(1)] uproc_view [OF p] unfolding own_ok_def uprocs_ok_def by fastforce
      let ?d3' = "?d3\<lparr>d2_uproc_idr := idr_remove (d2_uproc_idr d) (up_pid p)\<rparr>"
      obtain l idr' where l: "kl2_destroy_uproc_event_list ?d3' (up_event_list p) =
          Some (?d3'\<lparr>d2_uproc := (d2_uproc ?d3')(s2_uproc x \<mapsto> p\<lparr>up_event_list := l\<rparr>), d2_event_idr := idr',
            d2_evnt := (\<lambda>e. if e \<in> set (up_event_list p) then None else d2_evnt ?d3' e)\<rparr>)"
        and idr': "idr_ok idr' (\<lambda>e. if e \<in> set (up_event_list p) then None else d2_evnt ?d3' e) ev_id"
        using destroy_list_eq [of "up_event_list p" ?d3' "s2_uproc x" p] ev dist p o(3) by (auto simp: tables_def)
      have dv: "d2_evnt ?d3' = d2_evnt d" by simp
      let ?d5 = "?d3'\<lparr>d2_event_idr := idr', d2_evnt := (\<lambda>e. if e \<in> set (up_event_list p) then None else d2_evnt d e),
            d2_uproc := (d2_uproc d)(s2_uproc x := None), d2_sess := (d2_sess d)(s := None)\<rparr>"
      have "sess_put d s = Some ?d5"
        unfolding put using p up l [unfolded dv] by (simp add: uproc_put_def kl2_destroy_userprocess_ref_def)
      moreover have "own ?d5 (H - {#s#}) C (W - set (up_event_list p))"
      proof -
        have "(map_option clean_e \<circ> (\<lambda>e. if e \<in> set (up_event_list p) then None else d2_evnt d e)) =
           (\<lambda>e. if e \<in> set (up_event_list p) then None else (map_option clean_e \<circ> d2_evnt d) e)" by auto
        then show ?thesis using gone x True p up by (simp add: own_def view_upd busy)
      qed
      moreover have "alive ?d5 W = W - set (up_event_list p)"
        using WW by (auto simp: alive_def)
      moreover have "tables ?d5"
        using base(3) idr' [unfolded dv] o(3) idr_ok_remove [where M = "d2_uproc d" and idf = up_pid, OF _ p] by (simp add: tables_def)
      moreover have "evnt_states ?d5 (W - set (up_event_list p))" using o(5) by (auto simp: evnt_states_def)
      ultimately show ?thesis
        using base by (simp add: dev_ok_def shape_def binding_def)
    qed
  qed
qed

section \<open>Opening and binding\<close>

lemma bind_scan_lt: "best < n \<Longrightarrow> k + length qs \<le> n \<Longrightarrow> bind_scan qs bm k least best < n"
  by (induction qs bm k least best rule: bind_scan.induct) auto

lemma sess_bind_ok:
  assumes ok: "dev_ok d hw H C W" and x: "d2_sess d s = Some x"
  shows "\<exists>d' x' i. kl2_session_bind_hwq d s = Some d' \<and> dev_ok d' hw H C W \<and>
    d2_sess d' s = Some x' \<and> s2_hwq x' = Some i \<and> i < KL2_HWQ_CNT \<and> dom (d2_sess d') = dom (d2_sess d) \<and>
    d2_session_idr d' = d2_session_idr d \<and> d2_evnt d' = d2_evnt d"
proof (cases "s2_hwq x")
  case (Some i)
  have "sess_ok (map_option clean_s \<circ> d2_sess d) (map_option clean_u \<circ> d2_uproc d)
      (all_tasks (\<lambda>i. busy_of (d2_hwq d ! i)) (\<lambda>i. done_of (d2_hwq d ! i))) (\<lambda>i. busy_of (d2_hwq d ! i)) H"
    using ok by (simp add: dev_ok_def own_def own_ok_def)
  from sess_okD [OF this sess_view [OF x]] Some have "i < KL2_HWQ_CNT" by (simp add: sess_entry_def)
  with Some x ok show ?thesis by (simp add: kl2_session_bind_hwq_def)
next
  case None
  note o = dev_okD [OF ok]
  have len: "length (d2_hwq d) = KL2_HWQ_CNT" using o(2) by (simp add: shape_def)
  define i where "i = bind_scan (d2_hwq d) (d2_hwq_bitmap d) 0 (2 ^ 32 - 1) 0"
  have i: "i < KL2_HWQ_CNT" unfolding i_def by (rule bind_scan_lt) (simp_all add: len KL2_HWQ_CNT_def)
  let ?q = "(d2_hwq d ! i)\<lparr>hq_session_list := hq_session_list (d2_hwq d ! i) @ [s], hq_session_cnt := hq_session_cnt (d2_hwq d ! i) + 1\<rparr>"
  let ?x = "x\<lparr>s2_hwq := Some i\<rparr>"
  let ?d = "d\<lparr>d2_hwq := (d2_hwq d)[i := ?q], d2_sess := (d2_sess d)(s \<mapsto> ?x)\<rparr>"
  have eq: "kl2_session_bind_hwq d s = Some ?d"
    using x None by (simp add: kl2_session_bind_hwq_def upd_sess_def upd_hwq_def Let_def i_def)
  have "own ?d H C W"
    using own_bind [OF own_raw [OF o(1)], of s "clean_s x" i] x None i len
    by (simp add: own_def view_upd clean_upd nth_view_same)
  moreover have "shape ?d hw" using o(2) by (auto simp: shape_def nth_update_if queue_shape_def)
  moreover have "tables ?d"
    using o(3) idr_ok_upd [where M = "d2_sess d" and idf = s2_id and x' = ?x, OF _ x] by (simp add: tables_def)
  moreover have "binding ?d"
    unfolding binding_def Let_def
  proof (intro allI impI)
    fix j assume j: "j < KL2_HWQ_CNT"
    have b: "bound_to ((d2_sess d)(s \<mapsto> ?x)) j = (if j = i then insert s (bound_to (d2_sess d) j) else bound_to (d2_sess d) j)"
      using x None by (auto simp: bound_to_def)
    have n: "s \<notin> bound_to (d2_sess d) i" using x None by (simp add: bound_to_def)
    have "distinct (hq_session_list (d2_hwq d ! j)) \<and> set (hq_session_list (d2_hwq d ! j)) = bound_to (d2_sess d) j \<and>
      hq_session_cnt (d2_hwq d ! j) = int (length (hq_session_list (d2_hwq d ! j)))"
      using o(4) j by (simp add: binding_def Let_def)
    then show "distinct (hq_session_list (d2_hwq ?d ! j)) \<and> set (hq_session_list (d2_hwq ?d ! j)) = bound_to (d2_sess ?d) j \<and>
      hq_session_cnt (d2_hwq ?d ! j) = int (length (hq_session_list (d2_hwq ?d ! j)))"
      using b n len i by (auto simp: nth_update_if)
  qed
  moreover have "evnt_states ?d W" using o(5) by (simp add: evnt_states_def)
  ultimately have "dev_ok ?d hw H C W" by (simp add: dev_ok_def)
  with eq x i show ?thesis by (intro exI [of _ ?d] exI [of _ ?x] exI [of _ i]) auto
qed

lemma idr_none: "idr_ok idr M idf \<Longrightarrow> idr_find idr k = None \<Longrightarrow> k \<notin> fst ` set idr"
  by (auto simp: idr_find_def map_of_eq_None_iff)

lemma idr_remove_insert: "k \<notin> fst ` set idr \<Longrightarrow> idr_remove (idr_insert k p idr) k = idr"
  unfolding idr_remove_def idr_insert_def
  by (induction idr) (auto simp: filter_id_conv image_iff, (force+)?)

lemma new_sess_ok:
  assumes ok: "dev_ok d hw H C W" and fresh: "d2_sess d s = None" "k \<notin> fst ` set (d2_session_idr d)"
    and u: "case d2_uproc d u of Some p \<Rightarrow> p' = p\<lparr>up_refs := up_refs p + 1\<rparr> \<and> idr = d2_uproc_idr d
      | None \<Rightarrow> up_refs p' = 1 \<and> up_event_list p' = [] \<and> up_pid p' \<notin> fst ` set (d2_uproc_idr d) \<and>
          idr = idr_insert (up_pid p') u (d2_uproc_idr d)"
  shows "dev_ok (d\<lparr>d2_session_idr := idr_insert k s (d2_session_idr d), d2_uproc_idr := idr,
     d2_uproc := (d2_uproc d)(u \<mapsto> p'), d2_sess := (d2_sess d)(s \<mapsto> new_session2 k u)\<rparr>) hw (add_mset s H) C W"
    (is "dev_ok ?d hw _ C W")
proof -
  note o = dev_okD [OF ok]
  have "own ?d (add_mset s H) C W"
  proof -
    have "own_ok ((map_option clean_s \<circ> d2_sess d)(s \<mapsto> clean_s (new_session2 k u)))
      ((map_option clean_u \<circ> d2_uproc d)(s2_uproc (clean_s (new_session2 k u)) \<mapsto> clean_u p'))
      (map_option clean_e \<circ> d2_evnt d) (\<lambda>i. busy_of (d2_hwq d ! i)) (\<lambda>i. done_of (d2_hwq d ! i)) (add_mset s H) C W"
      by (rule own_new_sess [OF own_raw [OF o(1)]])
        (use fresh u in \<open>simp_all add: new_session2_def clean_upd split: option.splits\<close>)
    then show ?thesis by (simp add: own_def view_upd new_session2_def)
  qed
  moreover have "tables ?d"
  proof -
    have "idr_ok (idr_insert k s (d2_session_idr d)) ((d2_sess d)(s \<mapsto> new_session2 k u)) s2_id"
      using o(3) fresh by (intro idr_ok_insert) (simp_all add: tables_def new_session2_def)
    moreover have "idr_ok idr ((d2_uproc d)(u \<mapsto> p')) up_pid"
    proof (cases "d2_uproc d u")
      case None
      then show ?thesis using o(3) u by (auto simp: tables_def intro!: idr_ok_insert)
    next
      case (Some p)
      then show ?thesis using o(3) u by (auto simp: tables_def intro!: idr_ok_upd)
    qed
    ultimately show ?thesis using o(3) by (simp add: tables_def)
  qed
  moreover have "binding ?d"
  proof -
    have "bound_to ((d2_sess d)(s \<mapsto> new_session2 k u)) i = bound_to (d2_sess d) i" for i
      using fresh by (auto simp: bound_to_def new_session2_def)
    then show ?thesis using o(4) by (simp add: binding_def)
  qed
  ultimately show ?thesis using o(2,5) by (simp add: dev_ok_def shape_def evnt_states_def)
qed

lemma create_session_ok:
  assumes ok: "dev_ok d hw H C W"
    and fresh: "\<forall>s. c2_sess env = Some s \<longrightarrow> d2_sess d s = None"
      "\<forall>k. c2_id env = Some k \<longrightarrow> k \<notin> fst ` set (d2_session_idr d)"
      "\<forall>u. c2_uproc env = Some u \<longrightarrow> d2_uproc d u = None"
  shows "\<exists>r d'. kl2_create_session env d = Some (r, d') \<and> d2_hwq d' = d2_hwq d \<and> d2_evnt d' = d2_evnt d \<and>
    dev_ok d' hw (H + (case r of Inl _ \<Rightarrow> {#} | Inr s \<Rightarrow> {#s#})) C W"
proof (cases "c2_sess env")
  case None
  then show ?thesis using ok by (simp add: kl2_create_session_def)
next
  case s: (Some s)
  show ?thesis
  proof (cases "c2_id env")
    case None
    then show ?thesis using s ok by (simp add: kl2_create_session_def)
  next
    case k: (Some k)
    note o = dev_okD [OF ok]
    have fs: "d2_sess d s = None" "k \<notin> fst ` set (d2_session_idr d)" using fresh s k by auto
    have bk: "d\<lparr>d2_session_idr := idr_remove (idr_insert k s (d2_session_idr d)) k\<rparr> = d"
      using idr_remove_insert [OF fs(2)] by simp
    show ?thesis
    proof (cases "idr_find (d2_uproc_idr d) (c2_pid env)")
      case None
      have np: "c2_pid env \<notin> fst ` set (d2_uproc_idr d)" using None idr_none o(3) unfolding tables_def by blast
      show ?thesis
      proof (cases "c2_uproc env = None \<or> \<not> c2_uproc_idr env")
        case True
        then show ?thesis using s k None ok bk
          by (auto simp: kl2_create_session_def find_or_create_uproc_def kl2_create_userprocess_locked_def Let_def
              split: option.splits)
      next
        case False
        then obtain u where u: "c2_uproc env = Some u" "c2_uproc_idr env" by auto
        let ?p = "\<lparr>up_pid = c2_pid env, up_refs = 1, up_state = KL2_UPROC_NORMAL, up_event_list = []\<rparr>"
        have "dev_ok (d\<lparr>d2_session_idr := idr_insert k s (d2_session_idr d), d2_uproc_idr := idr_insert (c2_pid env) u (d2_uproc_idr d),
          d2_uproc := (d2_uproc d)(u \<mapsto> ?p), d2_sess := (d2_sess d)(s \<mapsto> new_session2 k u)\<rparr>) hw (add_mset s H) C W"
          using fresh(3) u np by (intro new_sess_ok [OF ok fs]) simp
        then show ?thesis using s k None u
          by (simp add: kl2_create_session_def find_or_create_uproc_def kl2_create_userprocess_locked_def)
      qed
    next
      case (Some u)
      then obtain p where p: "d2_uproc d u = Some p" using o(3) idr_find_iff [of "d2_uproc_idr d" "d2_uproc d" up_pid] by (auto simp: tables_def)
      show ?thesis
      proof (cases "up_state p = KL2_UPROC_NORMAL")
        case False
        then show ?thesis using s k Some p ok bk
          by (simp add: kl2_create_session_def find_or_create_uproc_def)
      next
        case True
        have "dev_ok (d\<lparr>d2_session_idr := idr_insert k s (d2_session_idr d), d2_uproc_idr := d2_uproc_idr d,
          d2_uproc := (d2_uproc d)(u \<mapsto> p\<lparr>up_refs := up_refs p + 1\<rparr>), d2_sess := (d2_sess d)(s \<mapsto> new_session2 k u)\<rparr>) hw (add_mset s H) C W"
          using p by (intro new_sess_ok [OF ok fs]) simp
        then show ?thesis using s k Some p True
          by (simp add: kl2_create_session_def find_or_create_uproc_def upd_uproc_def)
      qed
    qed
  qed
qed

section \<open>Dispatch\<close>

text \<open>What a dispatch does: it moves a prefix of the pending list to the hardware.\<close>

lemma dispatch_nocheck_ok:
  assumes "queue_shape i q h" and "\<forall>t\<in>set (hq_pt_list q). sess (tk_sess t) \<noteq> None"
  shows "\<exists>w pt. dispatch_nocheck sess q = Some (q\<lparr>hq_pt_list := pt, hq_rt_list := hq_rt_list q @ w,
      hq_cnt_running := hq_cnt_running q + length w\<rparr>, w) \<and> hq_pt_list q = w @ pt \<and>
    length (hq_rt_list q @ w) \<le> KL2_HWQ_DEPTH \<and>
    (\<forall>t\<in>set w. \<exists>x. sess (tk_sess t) = Some x \<and> kl2_session_state_normal x) \<and>
    (length (hq_rt_list q @ w) < KL2_HWQ_DEPTH \<longrightarrow>
       (\<forall>t. pt \<noteq> [] \<longrightarrow> t = hd pt \<longrightarrow> (\<exists>x. sess (tk_sess t) = Some x \<and> \<not> kl2_session_state_normal x)))"
  using assms
proof (induction sess q arbitrary: h rule: dispatch_nocheck.induct)
  case (1 sess q)
  have r: "hq_cnt_running q = length (hq_rt_list q)" "length (hq_rt_list q) \<le> KL2_HWQ_DEPTH"
    using "1.prems"(1) by (simp_all add: queue_shape_def)
  show ?case
  proof (cases "hq_cnt_running q < KL2_HWQ_DEPTH")
    case False
    then show ?thesis using r by (subst dispatch_nocheck.simps) simp
  next
    case lt: True
    show ?thesis
    proof (cases "hq_pt_list q")
      case Nil
      then show ?thesis using r lt by (subst dispatch_nocheck.simps) simp
    next
      case (Cons t ts)
      then obtain x where x: "sess (tk_sess t) = Some x" using "1.prems"(2) by auto
      show ?thesis
      proof (cases "kl2_session_state_normal x")
        case False
        then show ?thesis using r lt Cons x by (subst dispatch_nocheck.simps) simp
      next
        case True
        let ?q = "q\<lparr>hq_pt_list := ts, hq_rt_list := hq_rt_list q @ [t], hq_cnt_running := u32 (hq_cnt_running q + 1)\<rparr>"
        have u: "u32 (hq_cnt_running q + 1) = hq_cnt_running q + 1"
          using lt by (intro u32_id) (simp add: KL2_HWQ_DEPTH_def)
        have sh: "queue_shape i ?q (hq_rt_list q @ [t])"
          using "1.prems"(1) lt Cons r u by (simp add: queue_shape_def)
        obtain w pt where w: "dispatch_nocheck sess ?q = Some (?q\<lparr>hq_pt_list := pt, hq_rt_list := hq_rt_list ?q @ w,
            hq_cnt_running := hq_cnt_running ?q + length w\<rparr>, w)" "ts = w @ pt"
          "length (hq_rt_list ?q @ w) \<le> KL2_HWQ_DEPTH"
          "\<forall>t\<in>set w. \<exists>x. sess (tk_sess t) = Some x \<and> kl2_session_state_normal x"
          "length (hq_rt_list ?q @ w) < KL2_HWQ_DEPTH \<longrightarrow>
            (\<forall>t. pt \<noteq> [] \<longrightarrow> t = hd pt \<longrightarrow> (\<exists>x. sess (tk_sess t) = Some x \<and> \<not> kl2_session_state_normal x))"
          using "1.IH" [OF lt Cons x True sh] "1.prems"(2) Cons by auto
        have eq: "dispatch_nocheck sess q = Some (q\<lparr>hq_pt_list := pt, hq_rt_list := hq_rt_list q @ (t # w),
           hq_cnt_running := hq_cnt_running q + length (t # w)\<rparr>, t # w)"
          using lt Cons x True w(1) u by (subst dispatch_nocheck.simps) simp
        show ?thesis
          by (intro exI [of _ "t # w"] exI [of _ pt] conjI) (use eq w Cons x True in simp_all)
      qed
    qed
  qed
qed

lemma queue_tasks_live:
  assumes "own d H C W" "i < KL2_HWQ_CNT"
  shows "\<forall>t\<in>set (hq_pt_list (d2_hwq d ! i) @ hq_rt_list (d2_hwq d ! i) @ hq_exception_list (d2_hwq d ! i)
     @ hq_ft_list (d2_hwq d ! i) @ hq_free (d2_hwq d ! i)). \<exists>x. d2_sess d (tk_sess t) = Some x"
proof
  fix t assume "t \<in> set (hq_pt_list (d2_hwq d ! i) @ hq_rt_list (d2_hwq d ! i) @ hq_exception_list (d2_hwq d ! i)
     @ hq_ft_list (d2_hwq d ! i) @ hq_free (d2_hwq d ! i))"
  then have "t \<in># busy_of (d2_hwq d ! i) + done_of (d2_hwq d ! i)" by (auto simp: busy_of_def done_of_def)
  from own_task(1) [OF assms this] show "\<exists>x. d2_sess d (tk_sess t) = Some x" by blast
qed

lemma nocheck_ok:
  assumes ok: "dev_ok d hw H C W" and i: "i < KL2_HWQ_CNT"
  shows "\<exists>q w. dispatch_nocheck (d2_sess d) (d2_hwq d ! i) = Some (q, w) \<and>
    dev_ok (upd_hwq d i (\<lambda>_. q)) (hw(i := hw i @ w)) H C W \<and>
    hq_rt_list q @ hq_pt_list q = hq_rt_list (d2_hwq d ! i) @ hq_pt_list (d2_hwq d ! i) \<and>
    hq_evnt_seq q = hq_evnt_seq (d2_hwq d ! i) \<and> hq_ft_list q = hq_ft_list (d2_hwq d ! i)"
proof -
  note o = dev_okD [OF ok]
  have sh: "queue_shape i (d2_hwq d ! i) (hw i)" using o(2) i by (simp add: shape_def)
  have "\<forall>t\<in>set (hq_pt_list (d2_hwq d ! i)). d2_sess d (tk_sess t) \<noteq> None"
    using queue_tasks_live [OF o(1) i] by auto
  from dispatch_nocheck_ok [OF sh this] obtain w pt where
    w: "dispatch_nocheck (d2_sess d) (d2_hwq d ! i) = Some ((d2_hwq d ! i)\<lparr>hq_pt_list := pt,
      hq_rt_list := hq_rt_list (d2_hwq d ! i) @ w, hq_cnt_running := hq_cnt_running (d2_hwq d ! i) + length w\<rparr>, w)"
    and pt: "hq_pt_list (d2_hwq d ! i) = w @ pt" and depth: "length (hq_rt_list (d2_hwq d ! i) @ w) \<le> KL2_HWQ_DEPTH" by blast
  let ?q = "(d2_hwq d ! i)\<lparr>hq_pt_list := pt, hq_rt_list := hq_rt_list (d2_hwq d ! i) @ w,
      hq_cnt_running := hq_cnt_running (d2_hwq d ! i) + length w\<rparr>"
  have "dev_ok (d\<lparr>d2_hwq := (d2_hwq d)[i := ?q]\<rparr>) (hw(i := hw i @ w)) H C W"
    by (rule dev_ok_queue [OF ok i refl]) (use pt depth sh in \<open>simp_all add: busy_of_def done_of_def queue_shape_def\<close>)
  with w pt show ?thesis by (intro exI [of _ ?q] exI [of _ w]) (simp add: upd_hwq_def)
qed

lemma hwq_dispatch_ok:
  assumes ok: "dev_ok d hw H C W" and i: "i < KL2_HWQ_CNT"
  shows "\<exists>d' w. kl2_hwq_dispatch_locked d i = Some (d', w) \<and> dev_ok d' (hw(i := hw i @ w)) H C W \<and>
    d2_sess d' = d2_sess d \<and> d2_evnt d' = d2_evnt d \<and> (\<forall>j. j \<noteq> i \<longrightarrow> d2_hwq d' ! j = d2_hwq d ! j) \<and>
    hq_rt_list (d2_hwq d' ! i) @ hq_pt_list (d2_hwq d' ! i) = hq_rt_list (d2_hwq d ! i) @ hq_pt_list (d2_hwq d ! i) \<and>
    hq_evnt_seq (d2_hwq d' ! i) = hq_evnt_seq (d2_hwq d ! i) \<and> hq_ft_list (d2_hwq d' ! i) = hq_ft_list (d2_hwq d ! i)"
proof (cases "d2_state d \<noteq> KL2_RUNNING \<or> d2_in_reset_state d")
  case True
  then show ?thesis using ok by (simp add: kl2_hwq_dispatch_locked_def)
next
  case False
  have len: "i < length (d2_hwq d)" using ok i by (simp add: dev_ok_def shape_def)
  from nocheck_ok [OF ok i] False len show ?thesis
    by (fastforce simp: kl2_hwq_dispatch_locked_def upd_hwq_def nth_update_if)
qed

section \<open>Adding a task\<close>

lemma add_state:
  assumes ok: "dev_ok d hw H C W" and x: "d2_sess d s = Some x" "s2_hwq x = Some i"
    and t: "tk_sess t = s"
    and room: "hq_cnt_all (d2_hwq d ! i) + 1 < 2 ^ 32"
    and ev: "tk_type t \<noteq> KL2_TASKTYPE_EVNTREC \<and> evs = d2_evnt d \<or>
       tk_type t = KL2_TASKTYPE_EVNTREC \<and> (\<exists>e v. tk_evnt t = Some e \<and> d2_evnt d e = Some v \<and> ev_uproc v = s2_uproc x \<and>
         ev_rec_cnt v + 1 < 2 ^ 32 \<and> evs = (d2_evnt d)(e \<mapsto> v\<lparr>ev_rec_cnt := ev_rec_cnt v + 1, ev_refs := ev_refs v + 1\<rparr>))"
    and q': "q' = (d2_hwq d ! i)\<lparr>hq_evnt_seq := n, hq_pt_list := hq_pt_list (d2_hwq d ! i) @ [t],
       hq_cnt_all := hq_cnt_all (d2_hwq d ! i) + 1\<rparr>"
  shows "i < KL2_HWQ_CNT" "dev_ok (d\<lparr>d2_evnt := evs,
     d2_sess := (d2_sess d)(s \<mapsto> x\<lparr>s2_unfinished_cnt := s2_unfinished_cnt x + 1, s2_refs := s2_refs x + 1\<rparr>),
     d2_hwq := (d2_hwq d)[i := q']\<rparr>) hw H C W"
    (is "dev_ok ?d hw H C W")
proof -
  note o = dev_okD [OF ok]
  let ?x = "x\<lparr>s2_unfinished_cnt := s2_unfinished_cnt x + 1, s2_refs := s2_refs x + 1\<rparr>"
  have "sess_ok (map_option clean_s \<circ> d2_sess d) (map_option clean_u \<circ> d2_uproc d)
      (all_tasks (\<lambda>i. busy_of (d2_hwq d ! i)) (\<lambda>i. done_of (d2_hwq d ! i))) (\<lambda>i. busy_of (d2_hwq d ! i)) H"
    using o(1) by (simp add: own_def own_ok_def)
  from sess_okD [OF this sess_view [OF x(1)]] x(2) show i: "i < KL2_HWQ_CNT" by (simp add: sess_entry_def)
  have len: "i < length (d2_hwq d)" using o(2) i by (simp add: shape_def)
  have busy: "busy_of q' = add_mset t (busy_of (d2_hwq d ! i))" "done_of q' = done_of (d2_hwq d ! i)"
    by (simp_all add: q' busy_of_def done_of_def)
  have B: "(\<lambda>j. busy_of ((d2_hwq d)[i := q'] ! j)) = (\<lambda>j. busy_of (d2_hwq d ! j))(i := add_mset t (busy_of (d2_hwq d ! i)))"
    "(\<lambda>j. done_of ((d2_hwq d)[i := q'] ! j)) = (\<lambda>j. done_of (d2_hwq d ! j))"
    using nth_view [OF len, of busy_of q'] nth_view_same [OF len, of done_of q'] busy by simp_all
  have "own ?d H C W"
    using ev
  proof
    assume "tk_type t \<noteq> KL2_TASKTYPE_EVNTREC \<and> evs = d2_evnt d"
    then show ?thesis
      using own_add [OF own_raw [OF o(1)], of s "clean_s x" i t "clean_s ?x"] x t
      by (simp add: own_def view_upd B)
  next
    assume "tk_type t = KL2_TASKTYPE_EVNTREC \<and> (\<exists>e v. tk_evnt t = Some e \<and> d2_evnt d e = Some v \<and> ev_uproc v = s2_uproc x \<and>
         ev_rec_cnt v + 1 < 2 ^ 32 \<and> evs = (d2_evnt d)(e \<mapsto> v\<lparr>ev_rec_cnt := ev_rec_cnt v + 1, ev_refs := ev_refs v + 1\<rparr>))"
    then obtain e v where e: "tk_type t = KL2_TASKTYPE_EVNTREC" "tk_evnt t = Some e" "d2_evnt d e = Some v"
      "ev_uproc v = s2_uproc x" "ev_rec_cnt v + 1 < 2 ^ 32"
      "evs = (d2_evnt d)(e \<mapsto> v\<lparr>ev_rec_cnt := ev_rec_cnt v + 1, ev_refs := ev_refs v + 1\<rparr>)" by blast
    then show ?thesis
      using own_add_rec [OF own_raw [OF o(1)], of s "clean_s x" i t "clean_s ?x" e "clean_e v"
          "clean_e (v\<lparr>ev_rec_cnt := ev_rec_cnt v + 1, ev_refs := ev_refs v + 1\<rparr>)"] x t
      by (simp add: own_def view_upd B)
  qed
  moreover have "shape ?d hw" using o(2) room by (auto simp: shape_def nth_update_if queue_shape_def q')
  moreover have "tables ?d"
    using o(3) idr_ok_upd [where M = "d2_sess d" and idf = s2_id and x' = ?x, OF _ x(1)] ev
    by (auto simp: tables_def intro!: idr_ok_upd)
  moreover have "binding ?d"
    using o(4) len bound_to_upd [where S = "d2_sess d" and x' = ?x, OF x(1)]
    by (auto simp: binding_def Let_def nth_update_if q')
  moreover have "evnt_states ?d W" using o(5) ev by (auto simp: evnt_states_def split: if_splits)
  ultimately show "dev_ok ?d hw H C W" by (simp add: dev_ok_def)
qed

text \<open>The task as it is queued.\<close>

definition queued :: "kl2_dev \<Rightarrow> nat \<Rightarrow> nat \<Rightarrow> kl2_task \<Rightarrow> kl2_task" where
  "queued d s i t = (let t1 = t\<lparr>tk_sess := s, tk_hwq_id := i\<rparr> in
     if tk_type t = KL2_TASKTYPE_EVNTREC then t1\<lparr>tk_record_seq := hq_evnt_seq (d2_hwq d ! i) + 1\<rparr> else t1)"

lemma hwq_add_ok:
  assumes ok: "dev_ok d hw H C W" and x: "d2_sess d s = Some x" "s2_hwq x = Some i"
    and normal: "kl2_session_state_normal x" and room: "hq_cnt_all (d2_hwq d ! i) + 1 < 2 ^ 32"
    and ev: "tk_type t = KL2_TASKTYPE_EVNTREC \<Longrightarrow> hq_evnt_seq (d2_hwq d ! i) + 1 < 2 ^ 64 \<and>
       (\<exists>e v. tk_evnt t = Some e \<and> d2_evnt d e = Some v \<and> ev_uproc v = s2_uproc x \<and> ev_rec_cnt v + 1 < 2 ^ 32)"
  shows "\<exists>d' w. add_task_locked d s t = Some (None, d', w, queued d s i t) \<and> dev_ok d' (hw(i := hw i @ w)) H C W \<and>
    (\<forall>j. j \<noteq> i \<longrightarrow> d2_hwq d' ! j = d2_hwq d ! j) \<and>
    hq_rt_list (d2_hwq d' ! i) @ hq_pt_list (d2_hwq d' ! i) =
      hq_rt_list (d2_hwq d ! i) @ hq_pt_list (d2_hwq d ! i) @ [queued d s i t] \<and>
    hq_evnt_seq (d2_hwq d' ! i) = hq_evnt_seq (d2_hwq d ! i) + (if tk_type t = KL2_TASKTYPE_EVNTREC then 1 else 0) \<and>
    (\<forall>e. map_option ev_rec (d2_evnt d' e) = map_option ev_rec (d2_evnt d e)) \<and> i < KL2_HWQ_CNT"
proof -
  note o = dev_okD [OF ok]
  let ?t = "queued d s i t"
  define rec where "rec = (tk_type t = KL2_TASKTYPE_EVNTREC)"
  define evs where "evs = (if rec then (case d2_evnt d (the (tk_evnt t)) of None \<Rightarrow> d2_evnt d
      | Some v \<Rightarrow> (d2_evnt d)(the (tk_evnt t) \<mapsto> v\<lparr>ev_rec_cnt := ev_rec_cnt v + 1, ev_refs := ev_refs v + 1\<rparr>)) else d2_evnt d)"
  let ?n = "hq_evnt_seq (d2_hwq d ! i) + (if rec then 1 else 0)"
  let ?q = "(d2_hwq d ! i)\<lparr>hq_evnt_seq := ?n, hq_pt_list := hq_pt_list (d2_hwq d ! i) @ [?t],
       hq_cnt_all := hq_cnt_all (d2_hwq d ! i) + 1\<rparr>"
  have ev': "tk_type ?t \<noteq> KL2_TASKTYPE_EVNTREC \<and> evs = d2_evnt d \<or>
       tk_type ?t = KL2_TASKTYPE_EVNTREC \<and> (\<exists>e v. tk_evnt ?t = Some e \<and> d2_evnt d e = Some v \<and> ev_uproc v = s2_uproc x \<and>
         ev_rec_cnt v + 1 < 2 ^ 32 \<and> evs = (d2_evnt d)(e \<mapsto> v\<lparr>ev_rec_cnt := ev_rec_cnt v + 1, ev_refs := ev_refs v + 1\<rparr>))"
    using ev by (cases rec) (auto simp: queued_def Let_def evs_def rec_def)
  have ts: "tk_sess ?t = s" by (simp add: queued_def Let_def)
  note st = add_state [where n = ?n, OF ok x ts room ev' refl]
  let ?d = "d\<lparr>d2_evnt := evs,
     d2_sess := (d2_sess d)(s \<mapsto> x\<lparr>s2_unfinished_cnt := s2_unfinished_cnt x + 1, s2_refs := s2_refs x + 1\<rparr>),
     d2_hwq := (d2_hwq d)[i := ?q]\<rparr>"
  have i: "i < KL2_HWQ_CNT" by (rule st(1))
  have len: "i < length (d2_hwq d)" using o(2) i by (simp add: shape_def)
  have id: "hq_id (d2_hwq d ! i) = i" using o(2) i by (simp add: shape_def queue_shape_def)
  obtain d' w where dw: "kl2_hwq_dispatch_locked ?d i = Some (d', w)" "dev_ok d' (hw(i := hw i @ w)) H C W"
    "d2_evnt d' = d2_evnt ?d" "\<forall>j. j \<noteq> i \<longrightarrow> d2_hwq d' ! j = d2_hwq ?d ! j"
    "hq_rt_list (d2_hwq d' ! i) @ hq_pt_list (d2_hwq d' ! i) = hq_rt_list (d2_hwq ?d ! i) @ hq_pt_list (d2_hwq ?d ! i)"
    "hq_evnt_seq (d2_hwq d' ! i) = hq_evnt_seq (d2_hwq ?d ! i)"
    using hwq_dispatch_ok [OF st(2) i] by blast
  have r32: "u32 (hq_cnt_all (d2_hwq d ! i) + 1) = hq_cnt_all (d2_hwq d ! i) + 1" using room by (intro u32_id) simp
  have "add_task_locked d s t = do { (d5, written) \<leftarrow> kl2_hwq_dispatch_locked ?d i; Some (None, d5, written, ?t) }"
  proof (cases rec)
    case True
    then obtain e v where e: "tk_evnt t = Some e" "d2_evnt d e = Some v" "ev_rec_cnt v + 1 < 2 ^ 32"
      and n: "hq_evnt_seq (d2_hwq d ! i) + 1 < 2 ^ 64" using ev by (auto simp: rec_def)
    have u: "u32 (Suc (ev_rec_cnt v)) = Suc (ev_rec_cnt v)" "u64 (Suc (hq_evnt_seq (d2_hwq d ! i))) = Suc (hq_evnt_seq (d2_hwq d ! i))"
      using e(3) n by (simp_all add: kl_wrap)
    show ?thesis
      using x normal True e r32 u len id
      by (simp add: add_task_locked_def account_task_def rec_def upd_hwq_def upd_evnt_def evnt_get_def sess_get_def upd_sess_def
          queued_def evs_def Let_def)
  next
    case False
    then have "tk_type t = KL2_TASKTYPE_KERNEL \<or> tk_type t = KL2_TASKTYPE_EVNTWAIT"
      unfolding rec_def by (cases "tk_type t") auto
    then show ?thesis
      using x normal r32 len id
      by (auto simp add: add_task_locked_def account_task_def rec_def upd_hwq_def sess_get_def upd_sess_def
          queued_def evs_def Let_def)
  qed
  then have "add_task_locked d s t = Some (None, d', w, ?t)" unfolding dw(1) by simp
  moreover have "\<forall>e. map_option ev_rec (d2_evnt d' e) = map_option ev_rec (d2_evnt d e)"
    by (auto simp: dw(3) evs_def split: option.split)
  ultimately show ?thesis using dw len i by (auto simp: rec_def nth_update_if)
qed

section \<open>Completion\<close>

lemma sub_unfinished_ok:
  assumes "S (tk_sess t) = Some x"
  shows "sub_unfinished2 S t = Some (S(tk_sess t \<mapsto> x\<lparr>s2_unfinished_cnt := s2_unfinished_cnt x - 1\<rparr>))"
  using assms by (simp add: sub_unfinished2_def)

text \<open>What taking tasks off the counts of their sessions leaves alone.\<close>

definition sess_key :: "kl2_session \<Rightarrow> nat \<times> nat option \<times> nat \<times> kl2_sess_state \<times> kl2_sess_state" where
  "sess_key x = (s2_id x, s2_hwq x, s2_uproc x, s2_state x, s2_taint_state x)"

definition sess_like2 :: "(nat \<Rightarrow> kl2_session option) \<Rightarrow> (nat \<Rightarrow> kl2_session option) \<Rightarrow> bool" where
  "sess_like2 S S' \<longleftrightarrow> (\<forall>s. map_option sess_key (S' s) = map_option sess_key (S s))"

lemma sess_like2_refl [simp]: "sess_like2 S S"
  by (simp add: sess_like2_def)

lemma sess_like2_trans: "sess_like2 S T \<Longrightarrow> sess_like2 T U \<Longrightarrow> sess_like2 S U"
  by (simp add: sess_like2_def)

lemma sess_like2_upd: "S s = Some x \<Longrightarrow> sess_key x' = sess_key x \<Longrightarrow> sess_like2 S (S(s \<mapsto> x'))"
  by (simp add: sess_like2_def)

lemma sess_like2_ex:
  assumes l: "sess_like2 S S'" and P: "\<And>x x'. sess_key x' = sess_key x \<Longrightarrow> P x' \<longleftrightarrow> P x"
  shows "(\<exists>x. S' s = Some x \<and> P x) \<longleftrightarrow> (\<exists>x. S s = Some x \<and> P x)"
proof -
  have k: "map_option sess_key (S' s) = map_option sess_key (S s)" using l by (simp add: sess_like2_def)
  show ?thesis
  proof (cases "S s")
    case None
    with k show ?thesis by simp
  next
    case (Some x)
    with k obtain x' where x': "S' s = Some x'" "sess_key x' = sess_key x" by auto
    with Some P [OF x'(2)] show ?thesis by simp
  qed
qed

lemma idr_ok_like:
  assumes "sess_like2 S S'" "idr_ok idr S s2_id"
  shows "idr_ok idr S' s2_id"
proof -
  have "(\<exists>x. S' p = Some x \<and> s2_id x = k) \<longleftrightarrow> (\<exists>x. S p = Some x \<and> s2_id x = k)" for p k
    by (rule sess_like2_ex [OF assms(1)]) (simp add: sess_key_def)
  with assms(2) show ?thesis by (simp add: idr_ok_def)
qed

lemma bound_to_like:
  assumes "sess_like2 S S'"
  shows "bound_to S' i = bound_to S i"
proof -
  have "(\<exists>x. S' s = Some x \<and> s2_hwq x = Some i) \<longleftrightarrow> (\<exists>x. S s = Some x \<and> s2_hwq x = Some i)" for s
    by (rule sess_like2_ex [OF assms]) (simp add: sess_key_def)
  then show ?thesis by (simp add: bound_to_def)
qed

text \<open>The tasks of a list, counted by \<open>B i\<close>, go over to \<open>D i\<close> one after the other.\<close>

lemma own_sub_all:
  assumes "own_ok (map_option clean_s \<circ> S) U E B D H C W" and "i < KL2_HWQ_CNT" and "mset ts \<subseteq># B i"
    and "\<forall>t\<in>set ts. S (tk_sess t) \<noteq> None"
  shows "\<exists>S'. sub_all S ts = Some S' \<and> sess_like2 S S' \<and>
    own_ok (map_option clean_s \<circ> S') U E (B(i := B i - mset ts)) (D(i := D i + mset ts)) H C W"
  using assms
proof (induction ts arbitrary: S B D)
  case Nil
  then show ?case by (simp add: fun_upd_idem)
next
  case (Cons t ts)
  obtain x where x: "S (tk_sess t) = Some x" using Cons.prems(4) by auto
  let ?x = "x\<lparr>s2_unfinished_cnt := s2_unfinished_cnt x - 1\<rparr>" let ?S = "S(tk_sess t \<mapsto> ?x)"
  have tB: "t \<in># B i" using Cons.prems(3) by (auto dest: mset_subset_eqD)
  have own: "own_ok (map_option clean_s \<circ> ?S) U E (B(i := B i - {#t#})) (D(i := add_mset t (D i))) H C W"
    using own_finish [where S = "map_option clean_s \<circ> S" and x = "clean_s x", OF Cons.prems(1) tB Cons.prems(2)] x by (simp add: view_upd clean_upd)
  have sub: "mset ts \<subseteq># (B(i := B i - {#t#})) i" using Cons.prems(3) by (simp add: insert_subset_eq_iff)
  obtain S' where S': "sub_all ?S ts = Some S'" "sess_like2 ?S S'"
    "own_ok (map_option clean_s \<circ> S') U E ((B(i := B i - {#t#}))(i := (B(i := B i - {#t#})) i - mset ts))
       ((D(i := add_mset t (D i)))(i := (D(i := add_mset t (D i))) i + mset ts)) H C W"
    using Cons.IH [OF own Cons.prems(2) sub] Cons.prems(4) by fastforce
  have "sub_all S (t # ts) = Some S'" using S'(1) sub_unfinished_ok [of S t x] x by simp
  moreover have "sess_like2 S ?S" by (rule sess_like2_upd [where x = x]) (simp_all add: x sess_key_def)
  then have "sess_like2 S S'" using S'(2) by (rule sess_like2_trans)
  moreover have "own_ok (map_option clean_s \<circ> S') U E (B(i := B i - mset (t # ts))) (D(i := D i + mset (t # ts))) H C W"
    using S'(3) by simp
  ultimately show ?case by blast
qed

lemma finish_running_sub_all:
  "finish_running S n rt ft = map_option (\<lambda>S'. (S', drop n rt, ft @ take n rt)) (sub_all S (take n rt))"
proof (induction S n rt ft rule: finish_running.induct)
  case (2 S n t rt ft)
  then show ?case by (cases n; cases "sub_unfinished2 S t") simp_all
qed simp

text \<open>A change of one queue and of the counts of its sessions.\<close>

lemma dev_ok_finish:
  assumes ok: "dev_ok d hw H C W" and i: "i < KL2_HWQ_CNT" and q: "q = d2_hwq d ! i"
    and S': "sess_like2 (d2_sess d) S'"
      "own_ok (map_option clean_s \<circ> S') (map_option clean_u \<circ> d2_uproc d) (map_option clean_e \<circ> d2_evnt d)
         ((\<lambda>j. busy_of (d2_hwq d ! j))(i := busy_of q')) ((\<lambda>j. done_of (d2_hwq d ! j))(i := done_of q')) H C W"
    and same: "hq_session_list q' = hq_session_list q" "hq_session_cnt q' = hq_session_cnt q"
    and sh: "queue_shape i q (hw i) \<Longrightarrow> queue_shape i q' hw'"
  shows "dev_ok (d\<lparr>d2_sess := S', d2_hwq := (d2_hwq d)[i := q']\<rparr>) (hw(i := hw')) H C W"
proof -
  note o = dev_okD [OF ok]
  have len: "i < length (d2_hwq d)" using o(2) i by (simp add: shape_def)
  have "own (d\<lparr>d2_sess := S', d2_hwq := (d2_hwq d)[i := q']\<rparr>) H C W"
    using S'(2) by (simp add: own_def nth_view [OF len] fun_upd_def)
  moreover have "shape (d\<lparr>d2_sess := S', d2_hwq := (d2_hwq d)[i := q']\<rparr>) (hw(i := hw'))"
    using o(2) sh q i unfolding shape_def by (auto simp: nth_update_if)
  moreover have "binding (d\<lparr>d2_sess := S', d2_hwq := (d2_hwq d)[i := q']\<rparr>)"
    using o(4) same q bound_to_like [OF S'(1)] unfolding binding_def by (auto simp: nth_update_if Let_def)
  moreover have "tables (d\<lparr>d2_sess := S', d2_hwq := (d2_hwq d)[i := q']\<rparr>)"
    using o(3) idr_ok_like [OF S'(1)] by (simp add: tables_def)
  ultimately show ?thesis using o(5) by (simp add: dev_ok_def evnt_states_def)
qed

lemma dispatch_nocheck_work:
  "dispatch_nocheck sess (q\<lparr>hq_finish_work := b\<rparr>) =
     map_option (\<lambda>(q', w). (q'\<lparr>hq_finish_work := b\<rparr>, w)) (dispatch_nocheck sess q)"
proof (induction sess q rule: dispatch_nocheck.induct)
  case (1 sess q)
  show ?case
  proof (cases "hq_pt_list q")
    case Nil
    then show ?thesis by (subst (1 2) dispatch_nocheck.simps) simp
  next
    case (Cons t ts)
    show ?thesis
    proof (cases "hq_cnt_running q < KL2_HWQ_DEPTH \<and> (\<exists>x. sess (tk_sess t) = Some x \<and> kl2_session_state_normal x)")
      case True
      then obtain x where x: "sess (tk_sess t) = Some x" "kl2_session_state_normal x" and lt: "hq_cnt_running q < KL2_HWQ_DEPTH" by blast
      let ?q = "q\<lparr>hq_pt_list := ts, hq_rt_list := hq_rt_list q @ [t], hq_cnt_running := u32 (hq_cnt_running q + 1)\<rparr>"
      have sw [symmetric]: "q\<lparr>hq_finish_work := b, hq_pt_list := ts, hq_rt_list := hq_rt_list q @ [t],
          hq_cnt_running := u32 (hq_cnt_running q + 1)\<rparr> = ?q\<lparr>hq_finish_work := b\<rparr>" by (cases q) simp
      show ?thesis
        using lt Cons x "1.IH" [OF lt Cons x, unfolded sw]
        by (subst (1 2) dispatch_nocheck.simps) (simp add: split_def, cases "dispatch_nocheck sess ?q", simp_all add: split_def)
    next
      case False
      then show ?thesis using Cons
        by (subst (1 2) dispatch_nocheck.simps) (cases "sess (tk_sess t)", auto)
    qed
  qed
qed

lemma dispatch_locked_work:
  "kl2_hwq_dispatch_locked (upd_hwq d i (\<lambda>q. q\<lparr>hq_finish_work := b\<rparr>)) i =
     map_option (\<lambda>(d', w). (upd_hwq d' i (\<lambda>q. q\<lparr>hq_finish_work := b\<rparr>), w)) (kl2_hwq_dispatch_locked d i)"
proof (cases "i < length (d2_hwq d)")
  case True
  then show ?thesis
    by (cases "dispatch_nocheck (d2_sess d) (d2_hwq d ! i)")
      (auto simp: kl2_hwq_dispatch_locked_def upd_hwq_def dispatch_nocheck_work split: prod.split)
next
  case False
  then show ?thesis
    by (cases "dispatch_nocheck (d2_sess d) (d2_hwq d ! i)")
      (auto simp: kl2_hwq_dispatch_locked_def upd_hwq_def list_update_beyond split: prod.split)
qed

lemma intr_ok:
  assumes ok: "dev_ok d hw H C W" and i: "i < KL2_HWQ_CNT"
  shows "\<exists>d' w. kl2_handle_hwq_intr d i cnt = Some (d', w) \<and> dev_ok d' (hw(i := drop cnt (hw i) @ w)) H C W \<and>
    (\<forall>j. j \<noteq> i \<longrightarrow> d2_hwq d' ! j = d2_hwq d ! j) \<and> d2_evnt d' = d2_evnt d \<and>
    hq_rt_list (d2_hwq d' ! i) @ hq_pt_list (d2_hwq d' ! i) = drop cnt (hq_rt_list (d2_hwq d ! i)) @ hq_pt_list (d2_hwq d ! i) \<and>
    hq_evnt_seq (d2_hwq d' ! i) = hq_evnt_seq (d2_hwq d ! i) \<and>
    (cnt \<noteq> 0 \<longrightarrow> hq_ft_list (d2_hwq d' ! i) = hq_ft_list (d2_hwq d ! i) @ take cnt (hq_rt_list (d2_hwq d ! i)))"
proof (cases "cnt = 0")
  case True
  then show ?thesis using ok by (simp add: kl2_handle_hwq_intr_def)
next
  case False
  note o = dev_okD [OF ok]
  define q where "q = d2_hwq d ! i"
  define n where "n = (if hq_cnt_running q < cnt then hq_cnt_running q else cnt)"
  have sh: "queue_shape i q (hw i)" using o(2) i by (simp add: shape_def q_def)
  then have r: "hq_cnt_running q = length (hq_rt_list q)" "hq_cnt_all q = length (hq_pt_list q) + length (hq_rt_list q)"
    "length (hq_rt_list q) \<le> 32" "hq_cnt_all q < 2 ^ 32" "hw i = hq_rt_list q"
    by (simp_all add: queue_shape_def KL2_HWQ_DEPTH_def)
  have nn: "take n (hq_rt_list q) = take cnt (hq_rt_list q)" "drop n (hq_rt_list q) = drop cnt (hq_rt_list q)"
    "n \<le> length (hq_rt_list q)" "length (hq_rt_list q) - cnt = length (hq_rt_list q) - n" using r(1) by (auto simp: n_def)
  have len: "i < length (d2_hwq d)" using o(2) i by (simp add: shape_def)
  obtain S' where S': "sub_all (d2_sess d) (take n (hq_rt_list q)) = Some S'" "sess_like2 (d2_sess d) S'"
    "own_ok (map_option clean_s \<circ> S') (map_option clean_u \<circ> d2_uproc d) (map_option clean_e \<circ> d2_evnt d)
       ((\<lambda>j. busy_of (d2_hwq d ! j))(i := busy_of (d2_hwq d ! i) - mset (take n (hq_rt_list q))))
       ((\<lambda>j. done_of (d2_hwq d ! j))(i := done_of (d2_hwq d ! i) + mset (take n (hq_rt_list q)))) H C W"
  proof -
    have "mset (take n (hq_rt_list q)) \<subseteq># mset (hq_rt_list q)" by (metis append_take_drop_id mset_append mset_subset_eq_add_left)
    then have "mset (take n (hq_rt_list q)) \<subseteq># busy_of (d2_hwq d ! i)"
      unfolding busy_of_def q_def by (simp add: subset_mset.add_increasing subset_mset.add_increasing2)
    moreover have "\<forall>t\<in>set (take n (hq_rt_list q)). d2_sess d (tk_sess t) \<noteq> None"
      using queue_tasks_live [OF o(1) i] unfolding q_def by (auto dest!: in_set_takeD)
    ultimately show ?thesis using own_sub_all [OF own_raw [OF o(1)] i] that by blast
  qed
  let ?q = "q\<lparr>hq_rt_list := drop n (hq_rt_list q), hq_ft_list := hq_ft_list q @ take n (hq_rt_list q),
     hq_cnt_running := u32_sub (hq_cnt_running q) n, hq_cnt_all := u32_sub (hq_cnt_all q) n, hq_finish_work := True\<rparr>"
  have sub: "u32_sub (hq_cnt_running q) n = hq_cnt_running q - n" "u32_sub (hq_cnt_all q) n = hq_cnt_all q - n"
    using r nn(3) by (simp_all add: kl_wrap)
  have busy: "busy_of ?q = busy_of q - mset (take n (hq_rt_list q))" "done_of ?q = done_of q + mset (take n (hq_rt_list q))"
  proof -
    have "mset (hq_rt_list q) = mset (take n (hq_rt_list q)) + mset (drop n (hq_rt_list q))"
      by (metis append_take_drop_id mset_append)
    then show "busy_of ?q = busy_of q - mset (take n (hq_rt_list q))" "done_of ?q = done_of q + mset (take n (hq_rt_list q))"
      by (simp_all add: busy_of_def done_of_def)
  qed
  let ?d = "d\<lparr>d2_sess := S', d2_hwq := (d2_hwq d)[i := ?q]\<rparr>"
  have ok1: "dev_ok ?d (hw(i := drop cnt (hw i))) H C W"
  proof (rule dev_ok_finish [OF ok i q_def S'(2)])
    show "queue_shape i ?q (drop cnt (hw i))"
      using sh r nn sub by (auto simp: queue_shape_def KL2_HWQ_DEPTH_def)
  qed (use S'(3) busy in \<open>simp_all add: q_def\<close>)
  from hwq_dispatch_ok [OF ok1 i] obtain d' w where
    dw: "kl2_hwq_dispatch_locked ?d i = Some (d', w)" "dev_ok d' ((hw(i := drop cnt (hw i)))(i := drop cnt (hw i) @ w)) H C W"
    "d2_evnt d' = d2_evnt ?d" "\<forall>j. j \<noteq> i \<longrightarrow> d2_hwq d' ! j = d2_hwq ?d ! j"
    "hq_rt_list (d2_hwq d' ! i) @ hq_pt_list (d2_hwq d' ! i) = hq_rt_list (d2_hwq ?d ! i) @ hq_pt_list (d2_hwq ?d ! i)"
    "hq_evnt_seq (d2_hwq d' ! i) = hq_evnt_seq (d2_hwq ?d ! i)" "hq_ft_list (d2_hwq d' ! i) = hq_ft_list (d2_hwq ?d ! i)" by auto
  let ?dm = "d\<lparr>d2_hwq := (d2_hwq d)[i := ?q\<lparr>hq_finish_work := hq_finish_work q\<rparr>], d2_sess := S'\<rparr>"
  have "kl2_hwq_dispatch_locked (upd_hwq ?dm i (\<lambda>q. q\<lparr>hq_finish_work := True\<rparr>)) i = Some (d', w)"
    using dw(1) len by (simp add: upd_hwq_def)
  then obtain d1 where d1: "kl2_hwq_dispatch_locked ?dm i = Some (d1, w)" "d' = upd_hwq d1 i (\<lambda>q. q\<lparr>hq_finish_work := True\<rparr>)"
    unfolding dispatch_locked_work by auto
  have "kl2_handle_hwq_intr d i cnt = Some (d', w)"
    using False S'(1) d1 unfolding kl2_handle_hwq_intr_def finish_running_sub_all q_def [symmetric] Let_def n_def [symmetric]
    by (simp add: upd_hwq_def q_def)
  then show ?thesis using dw len i nn by (simp add: nth_update_if q_def)
qed

section \<open>The work item of a queue\<close>

lemma work_collect_ok:
  assumes ok: "dev_ok d hw H C W" and i: "i < KL2_HWQ_CNT" and free: "hq_free (d2_hwq d ! i) = []"
  shows "\<exists>d'. finish_work_collect d i = Some d' \<and> dev_ok d' hw H C W \<and>
    (\<forall>j. hq_rt_list (d2_hwq d' ! j) = hq_rt_list (d2_hwq d ! j) \<and> hq_pt_list (d2_hwq d' ! j) = hq_pt_list (d2_hwq d ! j) \<and>
       hq_evnt_seq (d2_hwq d' ! j) = hq_evnt_seq (d2_hwq d ! j)) \<and> d2_evnt d' = d2_evnt d"
proof -
  note o = dev_okD [OF ok]
  define q where "q = d2_hwq d ! i"
  have len: "i < length (d2_hwq d)" using o(2) i by (simp add: shape_def)
  obtain S' where S': "sub_all (d2_sess d) (hq_exception_list q) = Some S'" "sess_like2 (d2_sess d) S'"
    "own_ok (map_option clean_s \<circ> S') (map_option clean_u \<circ> d2_uproc d) (map_option clean_e \<circ> d2_evnt d)
       ((\<lambda>j. busy_of (d2_hwq d ! j))(i := busy_of (d2_hwq d ! i) - mset (hq_exception_list q)))
       ((\<lambda>j. done_of (d2_hwq d ! j))(i := done_of (d2_hwq d ! i) + mset (hq_exception_list q))) H C W"
  proof -
    have "mset (hq_exception_list q) \<subseteq># busy_of (d2_hwq d ! i)" unfolding busy_of_def q_def by simp
    moreover have "\<forall>t\<in>set (hq_exception_list q). d2_sess d (tk_sess t) \<noteq> None"
      using queue_tasks_live [OF o(1) i] unfolding q_def by auto
    ultimately show ?thesis using own_sub_all [OF own_raw [OF o(1)] i] that by blast
  qed
  let ?q = "q\<lparr>hq_finish_work := False, hq_exception_list := [], hq_ft_list := [],
     hq_free := hq_exception_list q @ hq_ft_list q\<rparr>"
  have "busy_of ?q = busy_of q - mset (hq_exception_list q)" "done_of ?q = done_of q + mset (hq_exception_list q)"
    using free by (simp_all add: busy_of_def done_of_def q_def)
  then have "dev_ok (d\<lparr>d2_sess := S', d2_hwq := (d2_hwq d)[i := ?q]\<rparr>) (hw(i := hw i)) H C W"
    using S'(3) by (intro dev_ok_finish [OF ok i q_def S'(2)]) (simp_all add: q_def queue_shape_def)
  moreover have "finish_work_collect d i = Some (d\<lparr>d2_sess := S', d2_hwq := (d2_hwq d)[i := ?q]\<rparr>)"
    using S'(1) unfolding finish_work_collect_def q_def [symmetric] by (cases d) (simp add: upd_hwq_def q_def)
  ultimately show ?thesis by (simp add: nth_update_if q_def)
qed

lemma evnt_put_hwq: "evnt_put (d\<lparr>d2_hwq := Q\<rparr>) e = map_option (\<lambda>d'. d'\<lparr>d2_hwq := Q\<rparr>) (evnt_put d e)"
  by (cases d) (auto simp: evnt_put_def kl2_destroy_event_ref_def upd_evnt_def upd_uproc_def bind_eq_None_conv
      split: option.splits bind_splits)

lemma evnt_put_frame: "evnt_put d e = Some d' \<Longrightarrow> d2_hwq d' = d2_hwq d"
  by (auto simp: evnt_put_def kl2_destroy_event_ref_def upd_evnt_def upd_uproc_def bind_eq_Some_conv split: if_splits)

lemma sess_put_more_ok:
  assumes ok: "dev_ok d hw H C W" and s: "s \<in># H" and c: "\<And>e. (s, e) \<in># C \<Longrightarrow> s \<in># H - {#s#}"
    and x: "d2_sess d s = Some x" "s2_refs x \<noteq> 1"
  shows "dev_ok (d\<lparr>d2_sess := (d2_sess d)(s \<mapsto> x\<lparr>s2_refs := s2_refs x - 1\<rparr>)\<rparr>) hw (H - {#s#}) C W"
    (is "dev_ok ?d hw _ C W")
proof -
  note o = dev_okD [OF ok]
  have "own ?d (H - {#s#}) C W"
    using own_put_sess_more [where x = "clean_s x", OF own_raw [OF o(1)] s c] x by (simp add: own_def view_upd clean_upd)
  moreover have "tables ?d"
    using o(3) idr_ok_upd [where M = "d2_sess d" and idf = s2_id and x' = "x\<lparr>s2_refs := s2_refs x - 1\<rparr>", OF _ x(1)]
    by (simp add: tables_def)
  moreover have "binding ?d" using o(4) x by (simp add: binding_def bound_to_upd)
  ultimately show ?thesis using o(2,5) by (simp add: dev_ok_def shape_def evnt_states_def)
qed

lemma sess_get_ok:
  assumes ok: "dev_ok d hw H C W" and x: "d2_sess d s = Some x"
  shows "dev_ok (d\<lparr>d2_sess := (d2_sess d)(s \<mapsto> x\<lparr>s2_refs := s2_refs x + 1\<rparr>)\<rparr>) hw (add_mset s H) C W"
    (is "dev_ok ?d hw _ C W")
proof -
  note o = dev_okD [OF ok]
  have "own ?d (add_mset s H) C W"
    using own_get_sess [OF own_raw [OF o(1)], of s "clean_s x"] x by (simp add: own_def view_upd clean_upd)
  moreover have "tables ?d"
    using o(3) idr_ok_upd [where M = "d2_sess d" and idf = s2_id and x' = "x\<lparr>s2_refs := s2_refs x + 1\<rparr>", OF _ x]
    by (simp add: tables_def)
  moreover have "binding ?d" using o(4) x by (simp add: binding_def bound_to_upd)
  ultimately show ?thesis using o(2,5) by (simp add: dev_ok_def shape_def evnt_states_def)
qed

text \<open>A task taken off the local list: its references become loose.\<close>

lemma drop_task_ok:
  assumes ok: "dev_ok d hw H C W" and i: "i < KL2_HWQ_CNT" and f: "hq_free (d2_hwq d ! i) = t # rest"
  defines "Q \<equiv> (d2_hwq d)[i := (d2_hwq d ! i)\<lparr>hq_free := rest\<rparr>]"
  shows "tk_type t \<noteq> KL2_TASKTYPE_EVNTREC \<Longrightarrow> dev_ok (d\<lparr>d2_hwq := Q\<rparr>) hw (add_mset (tk_sess t) H) C W"
    and "tk_type t = KL2_TASKTYPE_EVNTREC \<Longrightarrow> \<exists>e v. tk_evnt t = Some e \<and> d2_evnt d e = Some v \<and> ev_fin_cnt v + 1 < 2 ^ 32 \<and>
      dev_ok (d\<lparr>d2_evnt := (d2_evnt d)(e \<mapsto> v\<lparr>ev_fin_cnt := ev_fin_cnt v + 1\<rparr>), d2_hwq := Q\<rparr>) hw
        (add_mset (tk_sess t) H) (add_mset (tk_sess t, e) C) W"
proof -
  note o = dev_okD [OF ok]
  have len: "i < length (d2_hwq d)" using o(2) i by (simp add: shape_def)
  have dn: "done_of ((d2_hwq d ! i)\<lparr>hq_free := rest\<rparr>) = done_of (d2_hwq d ! i) - {#t#}"
    using f by (simp add: done_of_def)
  have tD: "t \<in># done_of (d2_hwq d ! i)" using f by (simp add: done_of_def)
  have v: "(\<lambda>j. busy_of (Q ! j)) = (\<lambda>j. busy_of (d2_hwq d ! j))"
    "(\<lambda>j. done_of (Q ! j)) = (\<lambda>j. done_of (d2_hwq d ! j))(i := done_of (d2_hwq d ! i) - {#t#})"
    unfolding Q_def using nth_view_same [OF len, of busy_of] nth_view [OF len, of done_of] dn by simp_all
  have sh: "shape (d\<lparr>d2_hwq := Q\<rparr>) hw" using o(2) by (auto simp: shape_def nth_update_if queue_shape_def Q_def)
  have bi: "binding (d\<lparr>d2_hwq := Q\<rparr>)" using o(4) len by (auto simp: binding_def Let_def nth_update_if Q_def)
  {
    assume "tk_type t \<noteq> KL2_TASKTYPE_EVNTREC"
    then have "own (d\<lparr>d2_hwq := Q\<rparr>) (add_mset (tk_sess t) H) C W"
      using own_drop [where i = i, OF own_raw [OF o(1)] tD i] unfolding own_def by (simp add: v [unfolded fun_upd_def] fun_upd_def)
    with o sh bi show "dev_ok (d\<lparr>d2_hwq := Q\<rparr>) hw (add_mset (tk_sess t) H) C W"
      by (simp add: dev_ok_def tables_def evnt_states_def)
  }
  {
    assume ty: "tk_type t = KL2_TASKTYPE_EVNTREC"
    obtain e v0 where e: "tk_evnt t = Some e" "d2_evnt d e = Some v0"
      using own_task(2) [OF o(1) i, of t] ty tD by auto
    have "evnts_ok (map_option clean_u \<circ> d2_uproc d) (map_option clean_e \<circ> d2_evnt d)
      (all_tasks (\<lambda>i. busy_of (d2_hwq d ! i)) (\<lambda>i. done_of (d2_hwq d ! i))) C W"
      using o(1) by (simp add: own_def own_ok_def)
    from evnts_okD [OF this evnt_view [OF e(2)]] rec_refs_pos [where A = "all_tasks (\<lambda>i. busy_of (d2_hwq d ! i)) (\<lambda>i. done_of (d2_hwq d ! i))" and i = i and e = e and t = t]
    have fin: "ev_fin_cnt v0 + 1 < 2 ^ 32"
      using i tD ty e by (simp add: evnt_entry_def all_tasks_def is_rec_def)
    let ?v = "v0\<lparr>ev_fin_cnt := ev_fin_cnt v0 + 1\<rparr>"
    have "own_ok (map_option clean_s \<circ> d2_sess d) (map_option clean_u \<circ> d2_uproc d)
      ((map_option clean_e \<circ> d2_evnt d)(e \<mapsto> clean_e ?v)) (\<lambda>j. busy_of (d2_hwq d ! j))
      ((\<lambda>j. done_of (d2_hwq d ! j))(i := done_of (d2_hwq d ! i) - {#t#})) (add_mset (tk_sess t) H) (add_mset (tk_sess t, e) C) W"
      by (rule own_drop_rec [where i = i and v = "clean_e v0", OF own_raw [OF o(1)] tD i ty e(1)]) (simp_all add: e(2))
    then have "own (d\<lparr>d2_evnt := (d2_evnt d)(e \<mapsto> ?v), d2_hwq := Q\<rparr>) (add_mset (tk_sess t) H) (add_mset (tk_sess t, e) C) W"
      unfolding own_def v [symmetric] view_upd(1) [symmetric] by simp
    moreover have "tables (d\<lparr>d2_evnt := (d2_evnt d)(e \<mapsto> ?v), d2_hwq := Q\<rparr>)"
      using o(3) idr_ok_upd [where M = "d2_evnt d" and idf = ev_id and x' = ?v, OF _ e(2)] by (simp add: tables_def)
    moreover have "evnt_states (d\<lparr>d2_evnt := (d2_evnt d)(e \<mapsto> ?v), d2_hwq := Q\<rparr>) W"
      using o(5) e(2) by (auto simp: evnt_states_def split: if_splits)
    ultimately have "dev_ok (d\<lparr>d2_evnt := (d2_evnt d)(e \<mapsto> ?v), d2_hwq := Q\<rparr>) hw (add_mset (tk_sess t) H) (add_mset (tk_sess t, e) C) W"
      using sh bi by (simp add: dev_ok_def shape_def binding_def)
    with e fin show "\<exists>e v. tk_evnt t = Some e \<and> d2_evnt d e = Some v \<and> ev_fin_cnt v + 1 < 2 ^ 32 \<and>
      dev_ok (d\<lparr>d2_evnt := (d2_evnt d)(e \<mapsto> v\<lparr>ev_fin_cnt := ev_fin_cnt v + 1\<rparr>), d2_hwq := Q\<rparr>) hw
        (add_mset (tk_sess t) H) (add_mset (tk_sess t, e) C) W" by blast
  }
qed

lemma work_one_ok:
  assumes ok: "dev_ok d hw H C W" and i: "i < KL2_HWQ_CNT" and f: "hq_free (d2_hwq d ! i) = t # rest"
  shows "\<exists>d'. finish_work_one d i = Some d' \<and> dev_ok d' hw H C (alive d' W)"
proof -
  note o = dev_okD [OF ok]
  let ?Q = "(d2_hwq d)[i := (d2_hwq d ! i)\<lparr>hq_free := rest\<rparr>]"
  let ?s = "tk_sess t"
  have Cs: "(s, e) \<in># C \<Longrightarrow> s \<in># add_mset ?s H - {#?s#}" for s e using own_held(2) [OF o(1)] by simp
  obtain x where x: "d2_sess d ?s = Some x" using queue_tasks_live [OF o(1) i] f by auto
  show ?thesis
  proof (cases "tk_type t = KL2_TASKTYPE_EVNTREC")
    case True
    obtain e v where e: "tk_evnt t = Some e" "d2_evnt d e = Some v" "ev_fin_cnt v + 1 < 2 ^ 32"
      "dev_ok (d\<lparr>d2_evnt := (d2_evnt d)(e \<mapsto> v\<lparr>ev_fin_cnt := ev_fin_cnt v + 1\<rparr>), d2_hwq := ?Q\<rparr>) hw
        (add_mset ?s H) (add_mset (?s, e) C) W"
      using drop_task_ok(2) [OF ok i f True] by blast
    let ?d1 = "d\<lparr>d2_evnt := (d2_evnt d)(e \<mapsto> v\<lparr>ev_fin_cnt := ev_fin_cnt v + 1\<rparr>)\<rparr>"
    obtain d2 where d2: "evnt_put (?d1\<lparr>d2_hwq := ?Q\<rparr>) e = Some d2" "dev_ok d2 hw (add_mset ?s H) C W"
      using evnt_put_ok [OF e(4), of ?s e] by auto
    obtain d1' where d1': "evnt_put ?d1 e = Some d1'" "d2 = d1'\<lparr>d2_hwq := ?Q\<rparr>"
      using d2(1) unfolding evnt_put_hwq by auto
    have hq: "d2_hwq d1' = d2_hwq d" using evnt_put_frame [OF d1'(1)] by simp
    obtain d3 where d3: "sess_put d2 ?s = Some d3" "dev_ok d3 hw H C (alive d3 W)"
      using sess_put_ok [OF d2(2), of ?s] Cs by auto
    have "finish_task d t = Some d1'"
      using x True e d1'(1) u32_id [of "ev_fin_cnt v + 1"] by (simp add: finish_task_def upd_evnt_def)
    then have "finish_work_one d i = Some d3"
      using f d3(1) d1'(2) hq by (simp add: finish_work_one_def kl2_session_free_task_def upd_hwq_def)
    with d3(2) show ?thesis by blast
  next
    case False
    define m where "m = (if tk_type t = KL2_TASKTYPE_KERNEL \<and> tk_free_param t
       then d2_mm_calls d @ [MmFreeParam (tk_param_addr t) ?s] else d2_mm_calls d)"
    have ok1: "dev_ok (d\<lparr>d2_hwq := ?Q, d2_mm_calls := m\<rparr>) hw (add_mset ?s H) C W"
      using drop_task_ok(1) [OF ok i f False] by simp
    obtain d3 where d3: "sess_put (d\<lparr>d2_hwq := ?Q, d2_mm_calls := m\<rparr>) ?s = Some d3" "dev_ok d3 hw H C (alive d3 W)"
      using sess_put_ok [OF ok1, of ?s] Cs by auto
    have "finish_task d t = Some (d\<lparr>d2_mm_calls := m\<rparr>)"
      using x False by (cases "tk_type t") (simp_all add: finish_task_def m_def)
    moreover have "upd_hwq (d\<lparr>d2_mm_calls := m\<rparr>) i (\<lambda>q. q\<lparr>hq_free := rest\<rparr>) = d\<lparr>d2_hwq := ?Q, d2_mm_calls := m\<rparr>"
      by (cases d) (simp add: upd_hwq_def)
    ultimately have "finish_work_one d i = Some d3"
      using f d3(1) by (simp add: finish_work_one_def kl2_session_free_task_def)
    with d3(2) show ?thesis by blast
  qed
qed

end
