(* ===== verification/Kl2_Recovery.thy ===== *)
theory Kl2_Recovery
  imports Kl2_Sched_Props
begin

text \<open>
  The recovery of \<^verbatim>\<open>kl2/exception.c\<close> keeps the invariant \<^term>\<open>dev_ok\<close>: revoking the tasks of sessions
  in error, resetting and refilling a queue, and spreading an error over the sessions of a process.
\<close>

section \<open>Revoking tasks\<close>

definition revoked_in :: "(nat \<Rightarrow> kl2_event option) \<Rightarrow> (nat \<Rightarrow> kl2_event option) \<Rightarrow> bool" where
  "revoked_in E E' \<longleftrightarrow> (\<forall>e. E' e = E e \<or> (\<exists>v. E e = Some v \<and> E' e = Some (v\<lparr>ev_state := KL2_EVNT_REVOKED\<rparr>)))"

lemma revoked_in_refl [simp]: "revoked_in E E"
  by (simp add: revoked_in_def)

lemma revoked_in_trans:
  assumes "revoked_in E F" "revoked_in F G"
  shows "revoked_in E G"
  unfolding revoked_in_def
proof
  fix e
  from assms(1) consider "F e = E e" | v where "E e = Some v" "F e = Some (v\<lparr>ev_state := KL2_EVNT_REVOKED\<rparr>)"
    unfolding revoked_in_def by blast
  then show "G e = E e \<or> (\<exists>v. E e = Some v \<and> G e = Some (v\<lparr>ev_state := KL2_EVNT_REVOKED\<rparr>))"
  proof cases
    case 1
    then show ?thesis using assms(2) unfolding revoked_in_def by metis
  next
    case (2 v)
    have "G e = F e \<or> (\<exists>v. F e = Some v \<and> G e = Some (v\<lparr>ev_state := KL2_EVNT_REVOKED\<rparr>))"
      using assms(2) unfolding revoked_in_def by blast
    then show ?thesis using 2 by auto
  qed
qed

lemma revoked_in_None: "revoked_in E E' \<Longrightarrow> E' e = None \<longleftrightarrow> E e = None"
  unfolding revoked_in_def by (metis option.distinct(1))

lemma revoked_in_state:
  assumes "revoked_in E E'" "\<exists>v. E e = Some v \<and> ev_state v = KL2_EVNT_REVOKED"
  shows "\<exists>v. E' e = Some v \<and> ev_state v = KL2_EVNT_REVOKED"
proof -
  have "E' e = E e \<or> (\<exists>v. E e = Some v \<and> E' e = Some (v\<lparr>ev_state := KL2_EVNT_REVOKED\<rparr>))"
    using assms(1) unfolding revoked_in_def by blast
  then show ?thesis using assms(2) by auto
qed

lemma revoked_in_upd: "E e = Some v \<Longrightarrow> revoked_in E (E(e \<mapsto> v\<lparr>ev_state := KL2_EVNT_REVOKED\<rparr>))"
  by (simp add: revoked_in_def)

lemma dev_ok_revoked:
  assumes ok: "dev_ok d hw H C W" and r: "revoked_in (d2_evnt d) E'"
  shows "dev_ok (d\<lparr>d2_evnt := E'\<rparr>) hw H C W"
proof -
  note o = dev_okD [OF ok]
  have v: "map_option clean_e \<circ> E' = map_option clean_e \<circ> d2_evnt d"
  proof
    fix e show "(map_option clean_e \<circ> E') e = (map_option clean_e \<circ> d2_evnt d) e"
      using r unfolding revoked_in_def by (cases "E' e = d2_evnt d e") (simp, metis clean_marks(6) comp_apply option.map(2))
  qed
  have i: "(\<exists>x. E' p = Some x \<and> ev_id x = k) \<longleftrightarrow> (\<exists>x. d2_evnt d p = Some x \<and> ev_id x = k)" for p k
    using r unfolding revoked_in_def by (cases "E' p = d2_evnt d p") (simp, fastforce)
  have "evnt_states (d\<lparr>d2_evnt := E'\<rparr>) W"
    unfolding evnt_states_def
  proof (intro allI impI)
    fix e v assume "d2_evnt (d\<lparr>d2_evnt := E'\<rparr>) e = Some v"
    moreover have "E' e = d2_evnt d e \<or> (\<exists>v. d2_evnt d e = Some v \<and> E' e = Some (v\<lparr>ev_state := KL2_EVNT_REVOKED\<rparr>))"
      using r unfolding revoked_in_def by blast
    ultimately have "d2_evnt d e = Some v \<or> ev_state v = KL2_EVNT_REVOKED" by auto
    then show "(e \<in> W \<longrightarrow> ev_state v \<noteq> KL2_EVNT_DESTROYED) \<and> (e \<notin> W \<longrightarrow> ev_state v \<noteq> KL2_EVNT_NORMAL)"
      using o(5) unfolding evnt_states_def by auto
  qed
  moreover have "tables (d\<lparr>d2_evnt := E'\<rparr>)" using o(3) i by (simp add: tables_def idr_ok_def)
  ultimately show ?thesis using o by (simp add: dev_ok_def own_def v shape_def binding_def)
qed

definition keeps :: "(nat \<Rightarrow> kl2_session option) \<Rightarrow> kl2_task \<Rightarrow> bool" where
  "keeps sess t \<longleftrightarrow> (\<exists>x. sess (tk_sess t) = Some x \<and> s2_state x = KL2_SESS_NORMAL)"

lemma revoke_list_ok:
  assumes "\<forall>t\<in>set ts. sess (tk_sess t) \<noteq> None \<and> (tk_type t = KL2_TASKTYPE_EVNTREC \<longrightarrow> (\<exists>e. tk_evnt t = Some e \<and> E e \<noteq> None))"
  shows "\<exists>E'. revoke_list sess E ts = Some (E', filter (keeps sess) ts, filter (\<lambda>t. \<not> keeps sess t) ts) \<and> revoked_in E E' \<and>
    (\<forall>t\<in>set ts. \<not> keeps sess t \<longrightarrow> tk_type t = KL2_TASKTYPE_EVNTREC \<longrightarrow>
       (\<exists>v. E' (the (tk_evnt t)) = Some v \<and> ev_state v = KL2_EVNT_REVOKED))"
  using assms
proof (induction ts arbitrary: E)
  case Nil
  show ?case by simp
next
  case (Cons t ts)
  obtain x where x: "sess (tk_sess t) = Some x" using Cons.prems by auto
  show ?case
  proof (cases "s2_state x = KL2_SESS_NORMAL")
    case True
    then have k: "keeps sess t" using x by (simp add: keeps_def)
    obtain E' where E': "revoke_list sess E ts = Some (E', filter (keeps sess) ts, filter (\<lambda>t. \<not> keeps sess t) ts)"
      "revoked_in E E'" "\<forall>t\<in>set ts. \<not> keeps sess t \<longrightarrow> tk_type t = KL2_TASKTYPE_EVNTREC \<longrightarrow>
         (\<exists>v. E' (the (tk_evnt t)) = Some v \<and> ev_state v = KL2_EVNT_REVOKED)"
      using Cons.IH [of E] Cons.prems by auto
    show ?thesis using x True k E' by (intro exI [of _ E']) simp
  next
    case False
    then have k: "\<not> keeps sess t" using x by (simp add: keeps_def)
    obtain E1 where E1: "(if tk_type t = KL2_TASKTYPE_EVNTREC then do {
                    e \<leftarrow> tk_evnt t; v \<leftarrow> E e; Some (E(e \<mapsto> v\<lparr>ev_state := KL2_EVNT_REVOKED\<rparr>)) } else Some E) = Some E1"
      "revoked_in E E1" "tk_type t = KL2_TASKTYPE_EVNTREC \<longrightarrow> (\<exists>v. E1 (the (tk_evnt t)) = Some v \<and> ev_state v = KL2_EVNT_REVOKED)"
      using Cons.prems revoked_in_upd [of E] by (cases "tk_type t = KL2_TASKTYPE_EVNTREC") fastforce+
    obtain E' where E': "revoke_list sess E1 ts = Some (E', filter (keeps sess) ts, filter (\<lambda>t. \<not> keeps sess t) ts)"
      "revoked_in E1 E'" "\<forall>t\<in>set ts. \<not> keeps sess t \<longrightarrow> tk_type t = KL2_TASKTYPE_EVNTREC \<longrightarrow>
         (\<exists>v. E' (the (tk_evnt t)) = Some v \<and> ev_state v = KL2_EVNT_REVOKED)"
      using Cons.IH [of E1] Cons.prems revoked_in_None [OF E1(2)] by auto
    have "tk_type t = KL2_TASKTYPE_EVNTREC \<longrightarrow> (\<exists>v. E' (the (tk_evnt t)) = Some v \<and> ev_state v = KL2_EVNT_REVOKED)"
      using E1(3) revoked_in_state [OF E'(2)] by blast
    then show ?thesis using x False k E1 E' revoked_in_trans [OF E1(2) E'(2)]
      by (intro exI [of _ E']) (simp del: if_split)
  qed
qed

text \<open>The queue after its tasks in error have been taken out.\<close>

definition revoked_queue :: "(nat \<Rightarrow> kl2_session option) \<Rightarrow> kl2_hwq \<Rightarrow> kl2_hwq" where
  "revoked_queue sess q =
     q\<lparr>hq_rt_list := filter (keeps sess) (hq_rt_list q), hq_pt_list := filter (keeps sess) (hq_pt_list q),
       hq_exception_list := hq_exception_list q @ filter (\<lambda>t. \<not> keeps sess t) (hq_rt_list q @ hq_pt_list q),
       hq_cnt_all := length (filter (keeps sess) (hq_pt_list q @ hq_rt_list q)),
       hq_cnt_running := length (filter (keeps sess) (hq_rt_list q))\<rparr>"

lemma length_filter_not: "length xs - length (filter (\<lambda>x. \<not> P x) xs) = length (filter P xs)"
  by (metis diff_add_inverse2 sum_length_filter_compl)

lemma u32_sub_filter:
  "n + length xs < 2 ^ 32 \<Longrightarrow> u32_sub (n + length xs) (length (filter (\<lambda>x. \<not> P x) xs)) = n + length (filter P xs)"
  using u32_sub_le [of "length (filter (\<lambda>x. \<not> P x) xs)" "n + length xs"] sum_length_filter_compl [of P xs] by linarith

lemma revoke_ok:
  assumes ok: "dev_ok d hw H C W" and i: "i < KL2_HWQ_CNT"
  shows "\<exists>E'. revoke_task_from_err_session_locked d i =
      Some ((upd_hwq d i (\<lambda>_. revoked_queue (d2_sess d) (d2_hwq d ! i)))\<lparr>d2_evnt := E'\<rparr>) \<and> revoked_in (d2_evnt d) E' \<and>
    (\<forall>t\<in>set (hq_rt_list (d2_hwq d ! i) @ hq_pt_list (d2_hwq d ! i)). \<not> keeps (d2_sess d) t \<longrightarrow> tk_type t = KL2_TASKTYPE_EVNTREC \<longrightarrow>
       (\<exists>v. E' (the (tk_evnt t)) = Some v \<and> ev_state v = KL2_EVNT_REVOKED)) \<and>
    dev_ok ((upd_hwq d i (\<lambda>_. (revoked_queue (d2_sess d) (d2_hwq d ! i))\<lparr>hq_finish_work := True\<rparr>))\<lparr>d2_evnt := E'\<rparr>)
      (hw(i := filter (keeps (d2_sess d)) (hq_rt_list (d2_hwq d ! i)))) H C W"
proof -
  note o = dev_okD [OF ok]
  define q where "q = d2_hwq d ! i"
  let ?S = "d2_sess d" let ?k = "keeps ?S"
  have live: "\<forall>t\<in>set (hq_rt_list q @ hq_pt_list q). ?S (tk_sess t) \<noteq> None \<and>
    (tk_type t = KL2_TASKTYPE_EVNTREC \<longrightarrow> (\<exists>e. tk_evnt t = Some e \<and> d2_evnt d e \<noteq> None))"
  proof
    fix t assume "t \<in> set (hq_rt_list q @ hq_pt_list q)"
    then have "t \<in># busy_of (d2_hwq d ! i) + done_of (d2_hwq d ! i)" by (auto simp: busy_of_def q_def)
    from own_task [OF o(1) i this] show "?S (tk_sess t) \<noteq> None \<and>
      (tk_type t = KL2_TASKTYPE_EVNTREC \<longrightarrow> (\<exists>e. tk_evnt t = Some e \<and> d2_evnt d e \<noteq> None))" by auto
  qed
  obtain E1 where E1: "revoke_list ?S (d2_evnt d) (hq_rt_list q) = Some (E1, filter ?k (hq_rt_list q), filter (\<lambda>t. \<not> ?k t) (hq_rt_list q))"
    "revoked_in (d2_evnt d) E1" "\<forall>t\<in>set (hq_rt_list q). \<not> ?k t \<longrightarrow> tk_type t = KL2_TASKTYPE_EVNTREC \<longrightarrow>
       (\<exists>v. E1 (the (tk_evnt t)) = Some v \<and> ev_state v = KL2_EVNT_REVOKED)"
    using revoke_list_ok [of "hq_rt_list q" ?S "d2_evnt d"] live by auto
  obtain E2 where E2: "revoke_list ?S E1 (hq_pt_list q) = Some (E2, filter ?k (hq_pt_list q), filter (\<lambda>t. \<not> ?k t) (hq_pt_list q))"
    "revoked_in E1 E2" "\<forall>t\<in>set (hq_pt_list q). \<not> ?k t \<longrightarrow> tk_type t = KL2_TASKTYPE_EVNTREC \<longrightarrow>
       (\<exists>v. E2 (the (tk_evnt t)) = Some v \<and> ev_state v = KL2_EVNT_REVOKED)"
    using revoke_list_ok [of "hq_pt_list q" ?S E1] live revoked_in_None [OF E1(2)] by auto
  have mark: "\<forall>t\<in>set (hq_rt_list q @ hq_pt_list q). \<not> ?k t \<longrightarrow> tk_type t = KL2_TASKTYPE_EVNTREC \<longrightarrow>
       (\<exists>v. E2 (the (tk_evnt t)) = Some v \<and> ev_state v = KL2_EVNT_REVOKED)"
    using E1(3) E2(3) revoked_in_state [OF E2(2)] by (auto; blast)
  have sh: "queue_shape i q (hw i)" using o(2) i by (simp add: shape_def q_def)
  then have r: "hq_cnt_running q = length (hq_rt_list q)" "hq_cnt_all q = length (hq_pt_list q) + length (hq_rt_list q)"
    "hq_cnt_all q < 2 ^ 32" "length (hq_rt_list q) \<le> KL2_HWQ_DEPTH" "hq_id q = i" by (simp_all add: queue_shape_def)
  have c1: "u32_sub (hq_cnt_running q) (length (filter (\<lambda>t. \<not> ?k t) (hq_rt_list q))) = length (filter ?k (hq_rt_list q))"
    using u32_sub_filter [of 0 "hq_rt_list q" ?k] r by (simp add: KL2_HWQ_DEPTH_def)
  have c2: "u32_sub (u32_sub (hq_cnt_all q) (length (filter (\<lambda>t. \<not> ?k t) (hq_rt_list q)))) (length (filter (\<lambda>t. \<not> ?k t) (hq_pt_list q)))
     = length (filter ?k (hq_pt_list q @ hq_rt_list q))"
  proof -
    have "length (filter ?k (hq_rt_list q)) + length (hq_pt_list q) < 2 ^ 32"
      using r(2,3) length_filter_le [of ?k "hq_rt_list q"] by linarith
    from u32_sub_filter [OF this, of ?k] show ?thesis
      using u32_sub_filter [of "length (hq_pt_list q)" "hq_rt_list q" ?k] r(2,3) by (simp add: add.commute)
  qed
  have len: "i < length (d2_hwq d)" using o(2) i by (simp add: shape_def)
  have "revoke_task_from_err_session_locked d i = Some ((upd_hwq d i (\<lambda>_. revoked_queue ?S q))\<lparr>d2_evnt := E2\<rparr>)"
    unfolding revoke_task_from_err_session_locked_def q_def [symmetric] Let_def
    using E1(1) E2(1) c1 c2 by (simp add: upd_hwq_def revoked_queue_def q_def [symmetric])
  moreover have "revoked_in (d2_evnt d) E2" by (rule revoked_in_trans [OF E1(2) E2(2)])
  moreover have "dev_ok ((upd_hwq d i (\<lambda>_. (revoked_queue ?S q)\<lparr>hq_finish_work := True\<rparr>))\<lparr>d2_evnt := E2\<rparr>)
      (hw(i := filter ?k (hq_rt_list q))) H C W"
  proof (rule dev_ok_revoked)
    have fm: "mset (filter P xs) + mset (filter (\<lambda>t. \<not> P t) xs) = mset xs" for P and xs :: "kl2_task list"
      by (simp add: multiset_partition [symmetric])
    have "busy_of (revoked_queue ?S q) = busy_of q"
      unfolding busy_of_def fm [of ?k "hq_rt_list q", symmetric] fm [of ?k "hq_pt_list q", symmetric]
      by (simp add: revoked_queue_def ac_simps del: mset_filter)
    moreover have "queue_shape i ((revoked_queue ?S q)\<lparr>hq_finish_work := True\<rparr>) (filter ?k (hq_rt_list q))"
      using sh r le_trans [OF length_filter_le r(4)] add_le_mono [OF length_filter_le length_filter_le, of ?k "hq_pt_list q" ?k "hq_rt_list q"]
      by (simp add: queue_shape_def revoked_queue_def)
    ultimately have "dev_ok (d\<lparr>d2_hwq := (d2_hwq d)[i := (revoked_queue ?S q)\<lparr>hq_finish_work := True\<rparr>]\<rparr>) (hw(i := filter ?k (hq_rt_list q))) H C W"
      by (intro dev_ok_queue [OF ok i q_def]) (simp_all add: revoked_queue_def)
    then show "dev_ok (upd_hwq d i (\<lambda>_. (revoked_queue ?S q)\<lparr>hq_finish_work := True\<rparr>)) (hw(i := filter ?k (hq_rt_list q))) H C W"
      by (simp add: upd_hwq_def)
    show "revoked_in (d2_evnt (upd_hwq d i (\<lambda>_. (revoked_queue ?S q)\<lparr>hq_finish_work := True\<rparr>))) E2"
      using revoked_in_trans [OF E1(2) E2(2)] by (simp add: upd_hwq_def)
  qed
  ultimately show ?thesis using mark unfolding q_def by blast
qed


section \<open>Resetting a queue\<close>

lemma sess_entry_of:
  assumes "dev_ok d hw H C W" "d2_sess d s = Some x"
  shows "0 < s2_refs x" "s2_hwq x = Some i \<Longrightarrow> i < KL2_HWQ_CNT"
proof -
  have "sess_ok (map_option clean_s \<circ> d2_sess d) (map_option clean_u \<circ> d2_uproc d)
      (all_tasks (\<lambda>i. busy_of (d2_hwq d ! i)) (\<lambda>i. done_of (d2_hwq d ! i))) (\<lambda>i. busy_of (d2_hwq d ! i)) H"
    using assms by (simp add: dev_ok_def own_def own_ok_def)
  from sess_okD [OF this sess_view [OF assms(2)]]
  show "0 < s2_refs x" "s2_hwq x = Some i \<Longrightarrow> i < KL2_HWQ_CNT" by (auto simp: sess_entry_def)
qed

lemma refill_ok:
  assumes ok: "dev_ok d hw H C W" and i: "i < KL2_HWQ_CNT"
  defines "rq \<equiv> revoked_queue (d2_sess d) (d2_hwq d ! i)"
  shows "\<exists>E' w pt. let d2 = (upd_hwq d i (\<lambda>_. rq))\<lparr>d2_evnt := E'\<rparr>;
      q = rq\<lparr>hq_pt_list := pt, hq_rt_list := hq_rt_list rq @ w, hq_cnt_running := hq_cnt_running rq + length w\<rparr>
    in revoke_task_from_err_session_locked d i = Some d2 \<and>
      redispatch_running_task_locked rq = Some (hq_rt_list rq) \<and> dispatch_nocheck (d2_sess d) rq = Some (q, w) \<and>
      dev_ok ((upd_hwq d i (\<lambda>_. q\<lparr>hq_finish_work := True\<rparr>))\<lparr>d2_evnt := E'\<rparr>) (hw(i := hq_rt_list rq @ w)) H C W \<and>
      hq_pt_list rq = w @ pt \<and> revoked_in (d2_evnt d) E' \<and>
      (\<forall>t\<in>set (hq_rt_list (d2_hwq d ! i) @ hq_pt_list (d2_hwq d ! i)). \<not> keeps (d2_sess d) t \<longrightarrow> tk_type t = KL2_TASKTYPE_EVNTREC \<longrightarrow>
        (\<exists>v. E' (the (tk_evnt t)) = Some v \<and> ev_state v = KL2_EVNT_REVOKED))"
proof -
  from revoke_ok [OF ok i] obtain E' where E': "revoke_task_from_err_session_locked d i = Some ((upd_hwq d i (\<lambda>_. rq))\<lparr>d2_evnt := E'\<rparr>)"
    "revoked_in (d2_evnt d) E'"
    "\<forall>t\<in>set (hq_rt_list (d2_hwq d ! i) @ hq_pt_list (d2_hwq d ! i)). \<not> keeps (d2_sess d) t \<longrightarrow> tk_type t = KL2_TASKTYPE_EVNTREC \<longrightarrow>
       (\<exists>v. E' (the (tk_evnt t)) = Some v \<and> ev_state v = KL2_EVNT_REVOKED)"
    and ok2: "dev_ok ((upd_hwq d i (\<lambda>_. rq\<lparr>hq_finish_work := True\<rparr>))\<lparr>d2_evnt := E'\<rparr>)
      (hw(i := filter (keeps (d2_sess d)) (hq_rt_list (d2_hwq d ! i)))) H C W" (is "dev_ok ?d2 ?hw H C W")
    unfolding rq_def by blast
  have len: "i < length (d2_hwq d)" using ok i by (simp add: dev_ok_def shape_def)
  have rt: "filter (keeps (d2_sess d)) (hq_rt_list (d2_hwq d ! i)) = hq_rt_list rq" by (simp add: rq_def revoked_queue_def)
  have q2: "d2_hwq ?d2 ! i = rq\<lparr>hq_finish_work := True\<rparr>" using len by (simp add: upd_hwq_def)
  have s2: "d2_sess ?d2 = d2_sess d" by (simp add: upd_hwq_def)
  have sh: "queue_shape i (rq\<lparr>hq_finish_work := True\<rparr>) (hq_rt_list rq)"
    using ok2 i q2 rt unfolding dev_ok_def shape_def by auto
  have live: "\<forall>t\<in>set (hq_pt_list (rq\<lparr>hq_finish_work := True\<rparr>)). d2_sess d (tk_sess t) \<noteq> None"
    using queue_tasks_live [OF dev_okD(1) [OF ok2] i] unfolding q2 s2 by auto
  from dispatch_nocheck_ok [OF sh live] obtain w pt where
    w: "dispatch_nocheck (d2_sess d) (rq\<lparr>hq_finish_work := True\<rparr>) = Some ((rq\<lparr>hq_finish_work := True\<rparr>)\<lparr>hq_pt_list := pt,
      hq_rt_list := hq_rt_list rq @ w, hq_cnt_running := hq_cnt_running rq + length w\<rparr>, w)"
    and pt: "hq_pt_list rq = w @ pt" by auto
  let ?q = "rq\<lparr>hq_pt_list := pt, hq_rt_list := hq_rt_list rq @ w, hq_cnt_running := hq_cnt_running rq + length w\<rparr>"
  have "dispatch_nocheck (d2_sess d) rq = Some (?q, w)"
  proof -
    obtain q0 where q0: "dispatch_nocheck (d2_sess d) rq = Some (q0, w)" "?q\<lparr>hq_finish_work := True\<rparr> = q0\<lparr>hq_finish_work := True\<rparr>"
      using w unfolding dispatch_nocheck_work by auto
    have "dispatch_nocheck (d2_sess d) (rq\<lparr>hq_finish_work := hq_finish_work rq\<rparr>) = Some (q0\<lparr>hq_finish_work := hq_finish_work rq\<rparr>, w)"
      unfolding dispatch_nocheck_work using q0 by simp
    then have "q0 = q0\<lparr>hq_finish_work := hq_finish_work rq\<rparr>" using q0 by simp
    also have "\<dots> = (q0\<lparr>hq_finish_work := True\<rparr>)\<lparr>hq_finish_work := hq_finish_work rq\<rparr>" by simp
    also have "\<dots> = ?q" unfolding q0(2) [symmetric] by simp
    finally show ?thesis using q0 by simp
  qed
  moreover have "dev_ok ((upd_hwq d i (\<lambda>_. ?q\<lparr>hq_finish_work := True\<rparr>))\<lparr>d2_evnt := E'\<rparr>) (hw(i := hq_rt_list rq @ w)) H C W"
  proof -
    from nocheck_ok [OF ok2 i] obtain q w' where n: "dispatch_nocheck (d2_sess d) (rq\<lparr>hq_finish_work := True\<rparr>) = Some (q, w')"
      "dev_ok (upd_hwq ?d2 i (\<lambda>_. q)) (?hw(i := ?hw i @ w')) H C W" unfolding q2 s2 by blast
    with w have e: "q = ?q\<lparr>hq_finish_work := True\<rparr>" "w' = w" by simp_all
    have "upd_hwq ?d2 i (\<lambda>_. q) = (upd_hwq d i (\<lambda>_. ?q\<lparr>hq_finish_work := True\<rparr>))\<lparr>d2_evnt := E'\<rparr>"
      unfolding e by (simp add: upd_hwq_def)
    with n(2) rt show ?thesis unfolding e by simp
  qed
  moreover have "redispatch_running_task_locked rq = Some (hq_rt_list rq)"
    using sh by (simp add: redispatch_running_task_locked_def queue_shape_def)
  ultimately show ?thesis using E' pt unfolding Let_def by blast
qed

text \<open>The sessions after the reset has blamed the task the hardware reported.\<close>

definition excp_task :: "kl2_dev \<Rightarrow> nat \<Rightarrow> kl2_task option" where
  "excp_task d i = (if eb_excp_cnt (d2_board d ! i) \<noteq> 0
     then find (\<lambda>task. tk_token task = eb_token (d2_board d ! i)) (hq_rt_list (d2_hwq d ! i)) else None)"

definition blamed :: "kl2_dev \<Rightarrow> nat \<Rightarrow> nat \<Rightarrow> kl2_session option" where
  "blamed d i = (case excp_task d i of None \<Rightarrow> d2_sess d
     | Some task \<Rightarrow> (d2_sess d)(tk_sess task := map_option
         (\<lambda>x. kl2_session_mark_error x (Some XPUERR_KEXCEPTION) False) (d2_sess d (tk_sess task))))"

lemma apply_hw_writes: "apply_hw hw (map (HwWrite i) w) = hw(i := hw i @ w)"
  by (induction w arbitrary: hw) simp_all

lemma apply_hw_reset: "apply_hw hw (HwReset i # map (HwWrite i) w) = hw(i := w)"
  by (simp add: apply_hw_writes)

definition board_zero :: kl2_board where
  "board_zero = \<lparr>eb_token = 0, eb_excp_cnt = 0, eb_taint_cnt = 0, eb_taint_2_reset_cnt = 0\<rparr>"

lemma keeps_refs: "S s = Some x \<Longrightarrow> s2_state x' = s2_state x \<Longrightarrow> keeps (S(s \<mapsto> x')) = keeps S"
  by (auto simp: keeps_def fun_eq_iff)


definition reset_spec :: "kl2_dev \<Rightarrow> nat \<Rightarrow> kl2_dev \<Rightarrow> bool" where
  "reset_spec d i d' \<longleftrightarrow> (let q = d2_hwq d ! i; q' = d2_hwq d' ! i; k = keeps (d2_sess d') in
     d2_sess d' = blamed d i \<and> (\<forall>j. j \<noteq> i \<longrightarrow> d2_hwq d' ! j = d2_hwq d ! j) \<and>
     hq_rt_list q' @ hq_pt_list q' = filter k (hq_rt_list q @ hq_pt_list q) \<and>
     hq_exception_list q' = hq_exception_list q @ filter (\<lambda>t. \<not> k t) (hq_rt_list q @ hq_pt_list q) \<and>
     hq_evnt_seq q' = hq_evnt_seq q \<and> hq_finish_work q' \<and> d2_board d' ! i = board_zero \<and> revoked_in (d2_evnt d) (d2_evnt d') \<and>
     (\<forall>t\<in>set (hq_rt_list q @ hq_pt_list q). \<not> k t \<longrightarrow> tk_type t = KL2_TASKTYPE_EVNTREC \<longrightarrow>
        (\<exists>v. d2_evnt d' (the (tk_evnt t)) = Some v \<and> ev_state v = KL2_EVNT_REVOKED)))"

lemma reset_run:
  assumes "(case excp_task d i of None \<Rightarrow> Some d | Some task \<Rightarrow> do {
       d1 \<leftarrow> sess_get d (tk_sess task);
       upd_sess d1 (tk_sess task) (\<lambda>x. kl2_session_mark_error x (Some XPUERR_KEXCEPTION) False) }) = Some d1"
    and "revoke_task_from_err_session_locked d1 i = Some d2"
    and "redispatch_running_task_locked (d2_hwq d2 ! i) = Some again"
    and "dispatch_nocheck (d2_sess d2) (d2_hwq d2 ! i) = Some (q, w)"
    and "(case excp_task d i of None \<Rightarrow> Some (upd_hwq d2 i (\<lambda>_. q)) | Some task \<Rightarrow> sess_put (upd_hwq d2 i (\<lambda>_. q)) (tk_sess task)) = Some d4"
  shows "reset_queue d i = Some (upd_board (upd_hwq d4 i (\<lambda>q. q\<lparr>hq_finish_work := True\<rparr>)) i (\<lambda>_. board_zero),
     HwReset i # map (HwWrite i) (again @ w))"
  unfolding reset_queue_def Let_def excp_task_def [symmetric] board_zero_def [symmetric] assms
    bind.bind_lunit split_conv by (simp add: assms)

lemma reset_queue_ok:
  assumes ok: "dev_ok d hw H C W" and i: "i < KL2_HWQ_CNT"
  shows "\<exists>d'. reset_queue d i = Some (d', HwReset i # map (HwWrite i) (hq_rt_list (d2_hwq d' ! i))) \<and>
    dev_ok d' (hw(i := hq_rt_list (d2_hwq d' ! i))) H C W \<and> reset_spec d i d'"
proof -
  define S where "S = blamed d i"
  have len: "i < length (d2_hwq d)" and lenb: "i < length (d2_board d)" using ok i by (simp_all add: dev_ok_def shape_def)
  define rq where "rq = revoked_queue S (d2_hwq d ! i)"
  let ?last = "\<lambda>E q. upd_board ((upd_hwq d i (\<lambda>_. q\<lparr>hq_finish_work := True\<rparr>))\<lparr>d2_evnt := E, d2_sess := S\<rparr>) i (\<lambda>_. board_zero)"
  have main: "\<exists>d'. reset_queue d i = Some (d', HwReset i # map (HwWrite i) (hq_rt_list (d2_hwq d' ! i))) \<and>
      dev_ok d' (hw(i := hq_rt_list (d2_hwq d' ! i))) H C W \<and> reset_spec d i d'"
    if r: "reset_queue d i = Some (?last E' q, HwReset i # map (HwWrite i) (hq_rt_list rq @ w))"
      and q: "q = rq\<lparr>hq_pt_list := pt, hq_rt_list := hq_rt_list rq @ w, hq_cnt_running := hq_cnt_running rq + length w\<rparr>"
      and dok: "dev_ok ((upd_hwq d i (\<lambda>_. q\<lparr>hq_finish_work := True\<rparr>))\<lparr>d2_evnt := E', d2_sess := S\<rparr>) (hw(i := hq_rt_list rq @ w)) H C W"
      and pt: "hq_pt_list rq = w @ pt" and rev: "revoked_in (d2_evnt d) E'"
      and mk: "\<forall>t\<in>set (hq_rt_list (d2_hwq d ! i) @ hq_pt_list (d2_hwq d ! i)). \<not> keeps S t \<longrightarrow> tk_type t = KL2_TASKTYPE_EVNTREC \<longrightarrow>
        (\<exists>v. E' (the (tk_evnt t)) = Some v \<and> ev_state v = KL2_EVNT_REVOKED)" for E' q w pt
  proof (intro exI conjI)
    have p: "d2_hwq (?last E' q) ! i = q\<lparr>hq_finish_work := True\<rparr>" using len by (simp add: upd_board_def upd_hwq_def)
    show "reset_queue d i = Some (?last E' q, HwReset i # map (HwWrite i) (hq_rt_list (d2_hwq (?last E' q) ! i)))"
      using r unfolding p by (simp add: q)
    show "dev_ok (?last E' q) (hw(i := hq_rt_list (d2_hwq (?last E' q) ! i))) H C W"
      using dev_ok_board [OF dok] unfolding p by (simp add: q)
    have "hq_rt_list q @ hq_pt_list q = hq_rt_list rq @ hq_pt_list rq" by (simp add: q pt)
    then show "reset_spec d i (?last E' q)"
      using len lenb rev mk unfolding reset_spec_def p
      by (simp add: Let_def upd_board_def upd_hwq_def S_def [symmetric]) (simp add: q rq_def revoked_queue_def)
  qed
  show ?thesis
  proof (cases "excp_task d i")
    case None
    then have S: "S = d2_sess d" by (simp add: S_def blamed_def)
    from refill_ok [OF ok i] obtain E' w pt where R: "let d2 = (upd_hwq d i (\<lambda>_. rq))\<lparr>d2_evnt := E'\<rparr>;
      q = rq\<lparr>hq_pt_list := pt, hq_rt_list := hq_rt_list rq @ w, hq_cnt_running := hq_cnt_running rq + length w\<rparr>
    in revoke_task_from_err_session_locked d i = Some d2 \<and>
      redispatch_running_task_locked rq = Some (hq_rt_list rq) \<and> dispatch_nocheck (d2_sess d) rq = Some (q, w) \<and>
      dev_ok ((upd_hwq d i (\<lambda>_. q\<lparr>hq_finish_work := True\<rparr>))\<lparr>d2_evnt := E'\<rparr>) (hw(i := hq_rt_list rq @ w)) H C W \<and>
      hq_pt_list rq = w @ pt \<and> revoked_in (d2_evnt d) E' \<and>
      (\<forall>t\<in>set (hq_rt_list (d2_hwq d ! i) @ hq_pt_list (d2_hwq d ! i)). \<not> keeps (d2_sess d) t \<longrightarrow> tk_type t = KL2_TASKTYPE_EVNTREC \<longrightarrow>
        (\<exists>v. E' (the (tk_evnt t)) = Some v \<and> ev_state v = KL2_EVNT_REVOKED))"
      unfolding rq_def S by blast
    let ?q = "rq\<lparr>hq_pt_list := pt, hq_rt_list := hq_rt_list rq @ w, hq_cnt_running := hq_cnt_running rq + length w\<rparr>"
    have e: "(x\<lparr>d2_evnt := E'\<rparr>) = x\<lparr>d2_evnt := E', d2_sess := S\<rparr>" if "d2_sess x = S" for x
      using that by (cases x) simp
    have "reset_queue d i = Some (?last E' ?q, HwReset i # map (HwWrite i) (hq_rt_list rq @ w))"
    proof -
      let ?d2 = "(upd_hwq d i (\<lambda>_. rq))\<lparr>d2_evnt := E'\<rparr>"
      have d2: "d2_hwq ?d2 ! i = rq" "d2_sess ?d2 = d2_sess d" using len by (simp_all add: upd_hwq_def)
      have "reset_queue d i = Some (upd_board (upd_hwq (upd_hwq ?d2 i (\<lambda>_. ?q)) i (\<lambda>q. q\<lparr>hq_finish_work := True\<rparr>)) i (\<lambda>_. board_zero),
          HwReset i # map (HwWrite i) (hq_rt_list rq @ w))"
      proof (rule reset_run [where again = "hq_rt_list rq"])
        show "(case excp_task d i of None \<Rightarrow> Some d | Some task \<Rightarrow> do {
          d1 \<leftarrow> sess_get d (tk_sess task);
          upd_sess d1 (tk_sess task) (\<lambda>x. kl2_session_mark_error x (Some XPUERR_KEXCEPTION) False) }) = Some d"
          using None by simp
        show "(case excp_task d i of None \<Rightarrow> Some (upd_hwq ?d2 i (\<lambda>_. ?q))
          | Some task \<Rightarrow> sess_put (upd_hwq ?d2 i (\<lambda>_. ?q)) (tk_sess task)) = Some (upd_hwq ?d2 i (\<lambda>_. ?q))"
          using None by simp
        show "revoke_task_from_err_session_locked d i = Some ?d2" using R unfolding Let_def by blast
        show "redispatch_running_task_locked (d2_hwq ?d2 ! i) = Some (hq_rt_list rq)" using R unfolding d2 Let_def by blast
        show "dispatch_nocheck (d2_sess ?d2) (d2_hwq ?d2 ! i) = Some (?q, w)" using R unfolding d2 Let_def by blast
      qed
      moreover have "upd_hwq (upd_hwq ?d2 i (\<lambda>_. ?q)) i (\<lambda>q. q\<lparr>hq_finish_work := True\<rparr>) =
          (upd_hwq d i (\<lambda>_. ?q\<lparr>hq_finish_work := True\<rparr>))\<lparr>d2_evnt := E', d2_sess := S\<rparr>"
        using len S by (cases d) (simp add: upd_hwq_def)
      ultimately show ?thesis by simp
    qed
    moreover have "dev_ok ((upd_hwq d i (\<lambda>_. ?q\<lparr>hq_finish_work := True\<rparr>))\<lparr>d2_evnt := E', d2_sess := S\<rparr>) (hw(i := hq_rt_list rq @ w)) H C W"
      using R e [of "upd_hwq d i (\<lambda>_. ?q\<lparr>hq_finish_work := True\<rparr>)"] S by (simp add: Let_def upd_hwq_def)
    ultimately show ?thesis using R by (intro main [where E' = E' and w = w and pt = pt, OF _ refl]) (simp_all add: Let_def S)
  next
    case (Some t)
    then have tr: "t \<in> set (hq_rt_list (d2_hwq d ! i))"
      by (auto simp: excp_task_def find_Some_iff split: if_splits)
    let ?s = "tk_sess t"
    obtain x where x: "d2_sess d ?s = Some x" using queue_tasks_live [OF dev_okD(1) [OF ok] i] tr by auto
    let ?m = "\<lambda>x. kl2_session_mark_error x (Some XPUERR_KEXCEPTION) False"
    let ?x1 = "?m (x\<lparr>s2_refs := s2_refs x + 1\<rparr>)"
    let ?d1 = "d\<lparr>d2_sess := (d2_sess d)(?s \<mapsto> ?x1)\<rparr>"
    have S: "S = (d2_sess d)(?s \<mapsto> ?m x)" using Some x by (simp add: S_def blamed_def)
    have m: "s2_refs ?x1 = s2_refs x + 1" "?x1\<lparr>s2_refs := s2_refs x\<rparr> = ?m x" "s2_state ?x1 = s2_state (?m x)"
      by (simp_all add: kl2_session_mark_error_def Let_def)
    have ok1: "dev_ok ?d1 hw (add_mset ?s H) C W"
      using dev_ok_sess_mark [OF sess_get_ok [OF ok x], of ?s "x\<lparr>s2_refs := s2_refs x + 1\<rparr>" ?x1] by simp
    have k: "keeps (d2_sess ?d1) = keeps S" unfolding S by (auto simp: keeps_def m(3) [unfolded One_nat_def add_Suc_right add_0_right] kl2_session_mark_error_def Let_def fun_eq_iff)
    have h1: "d2_hwq ?d1 = d2_hwq d" by simp
    have rqe: "rq = revoked_queue (d2_sess ?d1) (d2_hwq ?d1 ! i)" unfolding rq_def revoked_queue_def k h1 ..
    from refill_ok [OF ok1 i] obtain E' w pt where R: "let d2 = (upd_hwq ?d1 i (\<lambda>_. rq))\<lparr>d2_evnt := E'\<rparr>;
      q = rq\<lparr>hq_pt_list := pt, hq_rt_list := hq_rt_list rq @ w, hq_cnt_running := hq_cnt_running rq + length w\<rparr>
    in revoke_task_from_err_session_locked ?d1 i = Some d2 \<and>
      redispatch_running_task_locked rq = Some (hq_rt_list rq) \<and> dispatch_nocheck (d2_sess ?d1) rq = Some (q, w) \<and>
      dev_ok ((upd_hwq ?d1 i (\<lambda>_. q\<lparr>hq_finish_work := True\<rparr>))\<lparr>d2_evnt := E'\<rparr>) (hw(i := hq_rt_list rq @ w)) (add_mset ?s H) C W \<and>
      hq_pt_list rq = w @ pt \<and> revoked_in (d2_evnt ?d1) E' \<and>
      (\<forall>t\<in>set (hq_rt_list (d2_hwq ?d1 ! i) @ hq_pt_list (d2_hwq ?d1 ! i)). \<not> keeps (d2_sess ?d1) t \<longrightarrow> tk_type t = KL2_TASKTYPE_EVNTREC \<longrightarrow>
        (\<exists>v. E' (the (tk_evnt t)) = Some v \<and> ev_state v = KL2_EVNT_REVOKED))"
      unfolding rqe by blast
    let ?q = "rq\<lparr>hq_pt_list := pt, hq_rt_list := hq_rt_list rq @ w, hq_cnt_running := hq_cnt_running rq + length w\<rparr>"
    let ?d3 = "(upd_hwq ?d1 i (\<lambda>_. ?q\<lparr>hq_finish_work := True\<rparr>))\<lparr>d2_evnt := E'\<rparr>"
    have pos: "s2_refs x \<noteq> 0" using sess_entry_of(1) [OF ok x] by simp
    have R1: "revoke_task_from_err_session_locked ?d1 i = Some ((upd_hwq ?d1 i (\<lambda>_. rq))\<lparr>d2_evnt := E'\<rparr>)"
      "redispatch_running_task_locked rq = Some (hq_rt_list rq)" "dispatch_nocheck (d2_sess ?d1) rq = Some (?q, w)"
      "dev_ok ?d3 (hw(i := hq_rt_list rq @ w)) (add_mset ?s H) C W"
      using R unfolding Let_def by blast+
    have put: "d2_sess ?d1 ?s = Some ?x1" "s2_refs ?x1 \<noteq> 1" using m(1) pos by simp_all
    have fin: "(d2_sess ?d1)(?s \<mapsto> ?x1\<lparr>s2_refs := s2_refs ?x1 - 1\<rparr>) = S" using m S by simp
    have "dev_ok (?d3\<lparr>d2_sess := (d2_sess ?d3)(?s \<mapsto> ?x1\<lparr>s2_refs := s2_refs ?x1 - 1\<rparr>)\<rparr>) (hw(i := hq_rt_list rq @ w)) (add_mset ?s H - {#?s#}) C W"
      using own_held(2) [OF dev_okD(1) [OF ok]] put
      by (intro sess_put_more_ok [OF R1(4)]) (auto simp: upd_hwq_def)
    moreover have "d2_sess ?d3 = d2_sess ?d1" by (simp add: upd_hwq_def)
    ultimately have "dev_ok (?d3\<lparr>d2_sess := S\<rparr>) (hw(i := hq_rt_list rq @ w)) H C W" using fin by simp
    moreover have "?d3\<lparr>d2_sess := S\<rparr> = (upd_hwq d i (\<lambda>_. ?q\<lparr>hq_finish_work := True\<rparr>))\<lparr>d2_evnt := E', d2_sess := S\<rparr>"
      by (cases d) (simp add: upd_hwq_def)
    ultimately have dok: "dev_ok ((upd_hwq d i (\<lambda>_. ?q\<lparr>hq_finish_work := True\<rparr>))\<lparr>d2_evnt := E', d2_sess := S\<rparr>) (hw(i := hq_rt_list rq @ w)) H C W"
      by simp
    have get: "do { d1 \<leftarrow> sess_get d ?s; upd_sess d1 ?s ?m } = Some ?d1" using x by (simp add: sess_get_def upd_sess_def)
    have put1: "sess_put (upd_hwq ((upd_hwq ?d1 i (\<lambda>_. rq))\<lparr>d2_evnt := E'\<rparr>) i (\<lambda>_. ?q)) ?s =
        Some ((upd_hwq ?d1 i (\<lambda>_. ?q))\<lparr>d2_evnt := E', d2_sess := S\<rparr>)"
      using put fin by (simp add: sess_put_def upd_sess_def upd_hwq_def del: fun_upd_apply) 
    have "reset_queue d i = Some (?last E' ?q, HwReset i # map (HwWrite i) (hq_rt_list rq @ w))"
    proof -
      let ?d2 = "(upd_hwq ?d1 i (\<lambda>_. rq))\<lparr>d2_evnt := E'\<rparr>"
      have d2: "d2_hwq ?d2 ! i = rq" "d2_sess ?d2 = d2_sess ?d1" using len by (simp_all add: upd_hwq_def)
      have "reset_queue d i = Some (upd_board (upd_hwq ((upd_hwq ?d1 i (\<lambda>_. ?q))\<lparr>d2_evnt := E', d2_sess := S\<rparr>) i (\<lambda>q. q\<lparr>hq_finish_work := True\<rparr>)) i (\<lambda>_. board_zero),
          HwReset i # map (HwWrite i) (hq_rt_list rq @ w))"
      proof (rule reset_run [where again = "hq_rt_list rq"])
        show "(case excp_task d i of None \<Rightarrow> Some d | Some task \<Rightarrow> do {
          d1 \<leftarrow> sess_get d (tk_sess task);
          upd_sess d1 (tk_sess task) (\<lambda>x. kl2_session_mark_error x (Some XPUERR_KEXCEPTION) False) }) = Some ?d1"
          unfolding Some option.case using get .
        show "revoke_task_from_err_session_locked ?d1 i = Some ?d2" by (rule R1(1))
        show "redispatch_running_task_locked (d2_hwq ?d2 ! i) = Some (hq_rt_list rq)" unfolding d2 by (rule R1(2))
        show "dispatch_nocheck (d2_sess ?d2) (d2_hwq ?d2 ! i) = Some (?q, w)" unfolding d2 by (rule R1(3))
        show "(case excp_task d i of None \<Rightarrow> Some (upd_hwq ?d2 i (\<lambda>_. ?q))
          | Some task \<Rightarrow> sess_put (upd_hwq ?d2 i (\<lambda>_. ?q)) (tk_sess task)) =
            Some ((upd_hwq ?d1 i (\<lambda>_. ?q))\<lparr>d2_evnt := E', d2_sess := S\<rparr>)"
          unfolding Some option.case by (rule put1)
      qed
      moreover have "upd_hwq ((upd_hwq ?d1 i (\<lambda>_. ?q))\<lparr>d2_evnt := E', d2_sess := S\<rparr>) i (\<lambda>q. q\<lparr>hq_finish_work := True\<rparr>) =
          (upd_hwq d i (\<lambda>_. ?q\<lparr>hq_finish_work := True\<rparr>))\<lparr>d2_evnt := E', d2_sess := S\<rparr>"
        using len by (cases d) (simp add: upd_hwq_def)
      ultimately show ?thesis by simp
    qed
    moreover note dok
    ultimately show ?thesis using R k by (intro main [where E' = E' and w = w and pt = pt, OF _ refl]) (simp_all add: Let_def)
  qed
qed


section \<open>Spreading an error\<close>

lemma mark_sess_ok:
  assumes ok: "dev_ok d hw H C W" and x: "d2_sess d s = Some x" and c: "\<And>x. clean_s (f x) = clean_s x"
  shows "\<exists>d'. upd_sess d s f = Some d' \<and> dev_ok d' hw H C W \<and> dom (d2_sess d') = dom (d2_sess d) \<and>
    d2_session_idr d' = d2_session_idr d"
  using dev_ok_sess_mark [OF ok x, of "f x"] x c by (auto simp: upd_sess_def)

lemma taint_sessions_ok:
  "dev_ok d hw H C W \<Longrightarrow> snd ` set idr \<subseteq> dom (d2_sess d) \<Longrightarrow>
   \<exists>d'. taint_sessions d u es idr = Some d' \<and> dev_ok d' hw H C W"
proof (induction d u es idr rule: taint_sessions.induct)
  case (2 d u es sid s idr)
  then obtain x where x: "d2_sess d s = Some x" by auto
  show ?case
  proof (cases "s2_uproc x = u \<and> s \<noteq> es")
    case False
    with 2 x show ?thesis by auto
  next
    case True
    obtain d1 where d1: "upd_sess d s (\<lambda>x. kl2_session_mark_error x (Some XPUERR_EVENTWAIT) True) = Some d1"
      "dev_ok d1 hw H C W" "dom (d2_sess d1) = dom (d2_sess d)"
      using mark_sess_ok [OF "2.prems"(1) x, of "\<lambda>x. kl2_session_mark_error x (Some XPUERR_EVENTWAIT) True"] by auto
    then obtain x1 where "d2_sess d1 s = Some x1" using x by blast
    from sess_bind_ok [OF d1(2) this] obtain d2 x2 i where d2: "kl2_session_bind_hwq d1 s = Some d2" "dev_ok d2 hw H C W"
      "d2_sess d2 s = Some x2" "s2_hwq x2 = Some i" "dom (d2_sess d2) = dom (d2_sess d1)" by blast
    let ?d3 = "upd_board d2 i (\<lambda>b. b\<lparr>eb_taint_cnt := u32 (eb_taint_cnt b + 1)\<rparr>)"
    have t: "kl2_excp_taint_hwq d1 s = Some ?d3" using d2 by (simp add: kl2_excp_taint_hwq_def)
    have "snd ` set idr \<subseteq> dom (d2_sess ?d3)" using "2.prems"(2) d1(3) d2(5) by (auto simp: upd_board_def)
    from "2.IH"(1) [OF x True d1(1) t dev_ok_board [OF d2(2)] this] show ?thesis
      using x True d1(1) t by simp
  qed
qed simp

lemma find_sess_ok:
  assumes ok: "dev_ok d hw H C W" and i: "i < KL2_HWQ_CNT" and f: "kl2_excp_find_sess_tainting_from d i = Some s"
  shows "\<exists>t\<in>set (hq_rt_list (d2_hwq d ! i)). tk_sess t = s \<and> tk_token t = eb_token (d2_board d ! i) \<and> (\<exists>x. d2_sess d s = Some x)"
proof -
  from f obtain t ts where t: "dropWhile (\<lambda>task. tk_token task \<noteq> eb_token (d2_board d ! i)) (hq_rt_list (d2_hwq d ! i)) = t # ts"
    "tk_sess t = s"
    by (auto simp: kl2_excp_find_sess_tainting_from_def Let_def split: list.splits if_splits)
  then have "t \<in> set (hq_rt_list (d2_hwq d ! i))" by (metis list.set_intros(1) set_dropWhileD)
  moreover have "tk_token t = eb_token (d2_board d ! i)" using t(1) by (metis (mono_tags, lifting) dropWhile_eq_Cons_conv)
  ultimately show ?thesis using queue_tasks_live [OF dev_okD(1) [OF ok] i] t(2) by auto
qed

lemma taint_from_queue_ok:
  assumes ok: "dev_ok d hw H C W" and i: "i < KL2_HWQ_CNT"
  shows "\<exists>d'. taint_from_queue d i = Some d' \<and> dev_ok d' hw H C W"
proof (cases "eb_excp_cnt (d2_board d ! i) = 0 \<or> kl2_excp_find_sess_tainting_from d i = None")
  case True
  then show ?thesis using ok by (auto simp: taint_from_queue_def)
next
  case False
  then obtain s where f: "kl2_excp_find_sess_tainting_from d i = Some s" by auto
  let ?m = "\<lambda>x. kl2_session_mark_error x (Some XPUERR_KEXCEPTION) False"
  obtain x where x: "d2_sess d s = Some x" using find_sess_ok [OF ok i f] by blast
  obtain d1 where d1: "upd_sess d s ?m = Some d1" "dev_ok d1 hw H C W" "dom (d2_sess d1) = dom (d2_sess d)"
    using mark_sess_ok [OF ok x, of ?m] by auto
  obtain x1 where x1: "d2_sess d1 s = Some x1" using d1(3) x by blast
  obtain p where p: "d2_uproc d1 (s2_uproc x1) = Some p" using own_parents(1) [OF dev_okD(1) [OF d1(2)] x1] by blast
  show ?thesis
  proof (cases "up_state p = KL2_UPROC_NORMAL")
    case False
    then show ?thesis using f d1 x1 p \<open>\<not> (eb_excp_cnt (d2_board d ! i) = 0 \<or> _)\<close>
      by (simp add: taint_from_queue_def kl2_excp_taint_uproc_sess_def)
  next
    case True
    let ?p = "p\<lparr>up_state := KL2_UPROC_ERROR\<rparr>"
    let ?d2 = "d1\<lparr>d2_uproc := (d2_uproc d1)(s2_uproc x1 \<mapsto> ?p)\<rparr>"
    have ok2: "dev_ok ?d2 hw H C W" by (rule dev_ok_uproc_mark [OF d1(2) p]) simp
    have "snd ` set (d2_session_idr ?d2) \<subseteq> dom (d2_sess ?d2)"
      using idr_live_all [of "d2_session_idr d1" "d2_sess d1" s2_id] dev_okD(3) [OF d1(2)] by (simp add: tables_def)
    from taint_sessions_ok [OF ok2 this] show ?thesis
      using f d1(1) x1 p True False by (simp add: taint_from_queue_def kl2_excp_taint_uproc_sess_def upd_uproc_def)
  qed
qed

lemma convert_taint_ok:
  "dev_ok d hw H C W \<Longrightarrow> snd ` set idr \<subseteq> dom (d2_sess d) \<Longrightarrow>
   \<exists>d'. convert_taint d idr = Some d' \<and> dev_ok d' hw H C W"
proof (induction d idr rule: convert_taint.induct)
  case (2 d sid s idr)
  then obtain x where x: "d2_sess d s = Some x" by auto
  obtain d1 where d1: "(if s2_taint_state x \<noteq> KL2_SESS_NORMAL
            then upd_sess d s (\<lambda>x. kl2_session_mark_error x (s2_taint_errno x) True) else Some d) = Some d1"
    "dev_ok d1 hw H C W" "dom (d2_sess d1) = dom (d2_sess d)"
    using mark_sess_ok [OF "2.prems"(1) x, of "\<lambda>x. kl2_session_mark_error x (s2_taint_errno x) True"] "2.prems"(1)
    by (cases "s2_taint_state x = KL2_SESS_NORMAL") auto
  have "snd ` set idr \<subseteq> dom (d2_sess d1)" using "2.prems"(2) d1(3) by auto
  from "2.IH" [OF x d1(1,2) this] show ?case using x d1(1) by simp
qed simp

lemma queue_mark_ok:
  assumes ok: "dev_ok d hw H C W" and i: "i < KL2_HWQ_CNT"
  shows "dev_ok (upd_hwq d i (\<lambda>q. q\<lparr>hq_taint_state := b\<rparr>)) hw H C W"
  using dev_ok_queue [OF ok i refl, of "(d2_hwq d ! i)\<lparr>hq_taint_state := b\<rparr>" "hw i"]
  by (simp add: upd_hwq_def busy_of_def done_of_def queue_shape_def)

lemma settle_ok:
  assumes ok: "dev_ok d hw H C W" and i: "i < KL2_HWQ_CNT"
  shows "dev_ok (settle_board z d i) hw H C W"
  using ok queue_mark_ok [OF ok i] by (auto simp: settle_board_def Let_def intro!: dev_ok_board)

lemma taint_unfinished_ok:
  assumes ok: "dev_ok d hw H C W" and x: "d2_sess d s = Some x"
  shows "\<exists>d'. taint_unfinished d s = Some d' \<and> dev_ok d' hw H C W"
proof -
  obtain d1 where d1: "upd_sess d s (\<lambda>x. kl2_session_taint x XPUERR_TIMEOUT) = Some d1" "dev_ok d1 hw H C W"
    using mark_sess_ok [OF ok x, of "\<lambda>x. kl2_session_taint x XPUERR_TIMEOUT"] by auto
  show ?thesis
    using ok x d1 queue_mark_ok [OF d1(2), of _ KL2_HWQ_TAINT] sess_entry_of(2) [OF ok x]
    by (cases "s2_unfinished_cnt x = 0"; cases "s2_hwq x") (auto simp: taint_unfinished_def)
qed


section \<open>Every step\<close>

lemma adds_ok:
  assumes a: "adds y s t d' w t1 i" and ok: "dev_ok (y2_dev y) (y2_hw y) (y2_open y) C W"
    and ev: "tk_type t = KL2_TASKTYPE_EVNTREC \<Longrightarrow> hq_evnt_seq (d2_hwq (y2_dev y) ! i) + 1 < 2 ^ 64 \<and>
       (\<exists>e v. tk_evnt t = Some e \<and> (s, e) \<in># C \<and> d2_evnt (y2_dev y) e = Some v \<and> ev_rec_cnt v + 1 < 2 ^ 32)"
  shows "dev_ok d' ((y2_hw y)(i := y2_hw y i @ w)) (y2_open y) C W"
proof -
  from a obtain x where x: "d2_sess (y2_dev y) s = Some x" "s2_hwq x = Some i"
    and room: "hq_cnt_all (d2_hwq (y2_dev y) ! i) + 1 < 2 ^ 32" and r: "add_task_locked (y2_dev y) s t = Some (None, d', w, t1)"
    unfolding adds_def by blast
  have n: "kl2_session_state_normal x" using r x by (auto simp: add_task_locked_def Let_def split: if_splits)
  have ev': "tk_type t = KL2_TASKTYPE_EVNTREC \<Longrightarrow> hq_evnt_seq (d2_hwq (y2_dev y) ! i) + 1 < 2 ^ 64 \<and>
       (\<exists>e v. tk_evnt t = Some e \<and> d2_evnt (y2_dev y) e = Some v \<and> ev_uproc v = s2_uproc x \<and> ev_rec_cnt v + 1 < 2 ^ 32)"
    using ev own_held(2) [OF dev_okD(1) [OF ok]] x(1) by (metis option.inject)
  from hwq_add_ok [OF ok x n room ev'] r show ?thesis by auto
qed

lemma call_in: "c \<in># M \<Longrightarrow> call_refs c \<in># image_mset call_refs M"
  by simp

lemma calls_swap: "c \<in># M \<Longrightarrow> call_refs c' = call_refs c \<Longrightarrow>
    image_mset call_refs (add_mset c' (M - {#c#})) = image_mset call_refs M"
  by (metis image_mset_add_mset insert_DiffM)

lemma calls_drop: "c \<in># M \<Longrightarrow> image_mset call_refs (M - {#c#}) = image_mset call_refs M - {#call_refs c#}"
  by (metis image_mset_Diff image_mset_single single_subset_iff)

lemma alive_all: "dev_ok d hw H C W \<Longrightarrow> d2_evnt d' = d2_evnt d \<Longrightarrow> alive d' W = W"
  using own_held(3) [OF dev_okD(1)] by (force simp: alive_def)

theorem kl2_step_ok:
  assumes "kl2_step y z" and "sys2_ok y"
  shows "sys2_ok z"
  using assms
proof (induction rule: kl2_step.cases)
  case (create env y r d')
  then show ?case using create_session_ok [of "y2_dev y" "y2_hw y" "y2_open y" _ _ env] by (auto simp: sys2_ok_def)
next
  case (bind s y d')
  then obtain x where "d2_sess (y2_dev y) s = Some x" using own_held(1) [OF dev_okD(1)] by (metis sys2_ok_def)
  then show ?case using bind sess_bind_ok by (fastforce simp: sys2_ok_def)
next
  case (token y n d')
  then show ?case by (auto simp: sys2_ok_def take_token_def)
next
  case (add_kernel y s t d' w t1 i)
  then show ?case using adds_ok [OF add_kernel(3)] by (simp add: sys2_ok_def)
next
  case (evnt_create s y e k d')
  then show ?case using evnt_create_ok [of "y2_dev y" "y2_hw y" "y2_open y" _ _ s e k] by (auto simp: sys2_ok_def)
next
  case (evnt_get s y k e d')
  then show ?case using event_of_session_ok [of "y2_dev y" "y2_hw y" "y2_open y" _ _ s k] by (auto simp: sys2_ok_def)
next
  case (evnt_put s e y d')
  then have "(s, e) \<in># image_mset call_refs (y2_calls y)" using call_in [of "EvHold s e"] by simp
  from evnt_put_ok [OF _ this] show ?case using evnt_put by (fastforce simp: sys2_ok_def calls_drop)
next
  case (evnt_destroy s y k e d')
  let ?d = "y2_dev y"
  have ok: "dev_ok ?d (y2_hw y) (y2_open y) (image_mset call_refs (y2_calls y)) (y2_owned y)" using evnt_destroy by (simp add: sys2_ok_def)
  obtain v where v: "d2_evnt ?d e = Some v" using find_evnt [OF ok evnt_destroy(4)] by blast
  obtain x where x: "d2_sess ?d s = Some x" using own_held(1) [OF dev_okD(1) [OF ok] evnt_destroy(3)] by blast
  have "do { d1 \<leftarrow> upd_evnt ?d e (\<lambda>v. v\<lparr>ev_state := KL2_EVNT_DESTROYED\<rparr>); evnt_put d1 e } = Some d'"
    using evnt_destroy(4,5) v x by (auto simp: ioctl_event_destroy_def upd_evnt_def bind_eq_Some_conv split: if_splits)
  with evnt_destroy_ok [OF ok evnt_destroy(6) v] show ?case using evnt_destroy(2) by (simp add: sys2_ok_def)
next
  case (record_add s e y t d' w t1 i)
  then have c: "(s, e) \<in># image_mset call_refs (y2_calls y)" using call_in [of "EvHold s e"] by simp
  have "dev_ok d' ((y2_hw y)(i := y2_hw y i @ w)) (y2_open y) (image_mset call_refs (y2_calls y)) (y2_owned y)"
    using record_add c by (intro adds_ok [OF record_add(4)]) (auto simp: sys2_ok_def)
  then show ?case using record_add calls_swap [of "EvHold s e" "y2_calls y" "EvPublish s e (tk_hwq_id t1) (tk_record_seq t1)"]
    by (simp add: sys2_ok_def)
next
  case (record_publish s e i n y d')
  have ok: "dev_ok (y2_dev y) (y2_hw y) (y2_open y) (image_mset call_refs (y2_calls y)) (y2_owned y)" using record_publish by (simp add: sys2_ok_def)
  obtain v where v: "d2_evnt (y2_dev y) e = Some v" and d': "d' = (y2_dev y)\<lparr>d2_evnt := (d2_evnt (y2_dev y))(e \<mapsto> v\<lparr>ev_rec := Some (i, n)\<rparr>)\<rparr>"
    using record_publish(4) by (auto simp: publish_record_def upd_evnt_def)
  have "dev_ok d' (y2_hw y) (y2_open y) (image_mset call_refs (y2_calls y)) (y2_owned y)"
    unfolding d' by (rule dev_ok_evnt_mark [OF ok v]) simp_all
  then show ?case using record_publish calls_swap [of "EvPublish s e i n" "y2_calls y" "EvHold s e"] by (simp add: sys2_ok_def)
next
  case (wait_read s e y v i n)
  then show ?case using calls_swap [of "EvHold s e" "y2_calls y" "EvWait s e i n"] by (simp add: sys2_ok_def)
next
  case (wait_add s e j n y t d' w t1 i)
  have "dev_ok d' ((y2_hw y)(i := y2_hw y i @ w)) (y2_open y) (image_mset call_refs (y2_calls y)) (y2_owned y)"
    using wait_add by (intro adds_ok [OF wait_add(4)]) (auto simp: sys2_ok_def)
  then show ?case using wait_add calls_swap [of "EvWait s e j n" "y2_calls y" "EvHold s e"] by (simp add: sys2_ok_def)
next
  case (wait_fail s e j n y)
  then show ?case using calls_swap [of "EvWait s e j n" "y2_calls y" "EvHold s e"] by (simp add: sys2_ok_def)
next
  case (dispatch i y d' w)
  then show ?case using hwq_dispatch_ok [of "y2_dev y" "y2_hw y" "y2_open y" _ _ i] by (auto simp: sys2_ok_def)
next
  case (intr i y cnt d' w)
  then show ?case using intr_ok [of "y2_dev y" "y2_hw y" "y2_open y" _ _ i cnt] by (auto simp: sys2_ok_def)
next
  case (work_start i y d')
  then show ?case using work_collect_ok [of "y2_dev y" "y2_hw y" "y2_open y" _ _ i] by (auto simp: sys2_ok_def)
next
  case (work_one i y d')
  then obtain t ts where "hq_free (d2_hwq (y2_dev y) ! i) = t # ts" by (cases "hq_free (d2_hwq (y2_dev y) ! i)") auto
  then show ?case using work_one work_one_ok by (fastforce simp: sys2_ok_def)
next
  case (mark y s err d')
  then obtain x where "d2_sess (y2_dev y) s = Some x" by (auto simp: upd_sess_def)
  then show ?case using mark mark_sess_ok [of "y2_dev y" "y2_hw y" "y2_open y" _ _ s x "\<lambda>x. kl2_session_taint x err"]
    by (auto simp: sys2_ok_def)
next
  case (release_wait s y d')
  then obtain x where "d2_sess (y2_dev y) s = Some x" using own_held(1) [OF dev_okD(1)] by (metis sys2_ok_def)
  then show ?case using release_wait taint_unfinished_ok [of "y2_dev y" "y2_hw y" "y2_open y" _ _ s x] by (auto simp: sys2_ok_def)
next
  case (release s y d')
  have "(s, e) \<in># image_mset call_refs (y2_calls y) \<Longrightarrow> s \<in># y2_open y - {#s#}" for e
    using release(4) by (metis (no_types, lifting) fst_conv image_iff set_image_mset)
  then show ?case using release sess_put_ok [of "y2_dev y" "y2_hw y" "y2_open y" "image_mset call_refs (y2_calls y)" "y2_owned y" s]
    by (auto simp: sys2_ok_def kl2_release_def)
next
  case (set_state y st b)
  then show ?case by (simp add: sys2_ok_def)
next
  case (report i y b)
  then show ?case by (simp add: sys2_ok_def dev_ok_board)
next
  case (excp_taint i y d')
  then show ?case using taint_from_queue_ok [of "y2_dev y" "y2_hw y" "y2_open y" _ _ i] by (auto simp: sys2_ok_def)
next
  case (excp_convert y d')
  let ?d = "y2_dev y"
  have ok: "dev_ok ?d (y2_hw y) (y2_open y) (image_mset call_refs (y2_calls y)) (y2_owned y)" using excp_convert by (simp add: sys2_ok_def)
  have "snd ` set (d2_session_idr ?d) \<subseteq> dom (d2_sess ?d)"
    using idr_live_all [of "d2_session_idr ?d" "d2_sess ?d" s2_id] dev_okD(3) [OF ok] by (simp add: tables_def)
  from convert_taint_ok [OF ok this] show ?case using excp_convert by (auto simp: sys2_ok_def)
next
  case (excp_settle i y z)
  then show ?case by (simp add: sys2_ok_def settle_ok)
next
  case (excp_reset i y d' ops)
  have ok: "dev_ok (y2_dev y) (y2_hw y) (y2_open y) (image_mset call_refs (y2_calls y)) (y2_owned y)" using excp_reset by (simp add: sys2_ok_def)
  from reset_queue_ok [OF ok excp_reset(3)] excp_reset(2,4) show ?case
    by (auto simp: sys2_ok_def apply_hw_reset simp del: apply_hw.simps)
qed


section \<open>Reachable states\<close>

lemma sys2_init_ok: "sys2_ok (sys2_init hwq_bits)"
proof -
  have q: "i < KL2_HWQ_CNT \<Longrightarrow> d2_hwq (y2_dev (sys2_init b)) ! i = hwq_init_one b i" for i b
    by (simp add: sys2_init_def kl2_hwq_init_def)
  have e: "busy_of (hwq_init_one b i) = {#}" "done_of (hwq_init_one b i) = {#}" for b i
    by (simp_all add: busy_of_def done_of_def hwq_init_one_def)
  let ?y = "sys2_init hwq_bits"
  have maps: "d2_sess (y2_dev ?y) = Map.empty" "d2_uproc (y2_dev ?y) = Map.empty" "d2_evnt (y2_dev ?y) = Map.empty"
    "d2_session_idr (y2_dev ?y) = []" "d2_uproc_idr (y2_dev ?y) = []" "d2_event_idr (y2_dev ?y) = []"
    "y2_open ?y = {#}" "y2_calls ?y = {#}" "y2_owned ?y = {}" "\<And>i. y2_hw ?y i = []"
    "length (d2_hwq (y2_dev ?y)) = KL2_HWQ_CNT" "length (d2_board (y2_dev ?y)) = KL2_HWQ_CNT"
    by (simp_all add: sys2_init_def kl2_hwq_init_def)
  have em: "map_option f \<circ> Map.empty = Map.empty" for f :: "'a \<Rightarrow> 'b" by (simp add: fun_eq_iff)
  have "own (y2_dev ?y) {#} {#} {}"
    unfolding own_def maps em own_defs by (auto simp: all_tasks_def q e linked_def)
  moreover have "shape (y2_dev ?y) (y2_hw ?y)"
    by (auto simp: shape_def maps q queue_shape_def hwq_init_one_def)
  moreover have "tables (y2_dev ?y)" by (simp add: tables_def idr_ok_def maps)
  moreover have "binding (y2_dev ?y)"
    by (auto simp: binding_def q hwq_init_one_def bound_to_def maps)
  moreover have "evnt_states (y2_dev ?y) {}" by (simp add: evnt_states_def maps)
  ultimately show ?thesis by (simp add: sys2_ok_def dev_ok_def maps)
qed

theorem kl2_reachable_ok: "kl2_reachable hwq_bits y \<Longrightarrow> sys2_ok y"
  by (induction rule: kl2_reachable.induct) (auto intro: sys2_init_ok kl2_step_ok)

text \<open>
  An outcome \<^term>\<open>None\<close> is a read of a freed object or a \<^verbatim>\<open>BUG()\<close>. No operation has it where the
  driver may start it.
\<close>

definition evnt_ops_safe :: "sys2 \<Rightarrow> bool" where
  "evnt_ops_safe y \<longleftrightarrow> (let d = y2_dev y in
     (\<forall>s k. s \<in># y2_open y \<longrightarrow> event_of_session d s k \<noteq> None \<and>
        (\<forall>e. d2_evnt d e = None \<longrightarrow> k \<notin> fst ` set (d2_event_idr d) \<longrightarrow> kl2_create_event d s (Some e) (Some k) \<noteq> None) \<and>
        (\<forall>e. idr_find (d2_event_idr d) k = Some e \<longrightarrow> e \<in> y2_owned y \<longrightarrow> ioctl_event_destroy d s (Some k) \<noteq> None)) \<and>
     (\<forall>c s e. c \<in># y2_calls y \<longrightarrow> call_refs c = (s, e) \<longrightarrow>
        evnt_put d e \<noteq> None \<and> (\<forall>i n. publish_record d e i n \<noteq> None)))"

definition sess_ops_safe :: "sys2 \<Rightarrow> bool" where
  "sess_ops_safe y \<longleftrightarrow> (let d = y2_dev y in
     (\<forall>s. s \<in># y2_open y \<longrightarrow> kl2_session_bind_hwq d s \<noteq> None \<and> taint_unfinished d s \<noteq> None \<and>
        ((\<forall>c. c \<in># y2_calls y \<longrightarrow> fst (call_refs c) \<noteq> s) \<longrightarrow> kl2_release d s \<noteq> None)) \<and>
     (\<forall>s x i t. s \<in># y2_open y \<longrightarrow> d2_sess d s = Some x \<longrightarrow> s2_hwq x = Some i \<longrightarrow>
        hq_cnt_all (d2_hwq d ! i) + 1 < 2 ^ 32 \<longrightarrow>
        (tk_type t = KL2_TASKTYPE_EVNTREC \<longrightarrow> (\<exists>e c v. tk_evnt t = Some e \<and> c \<in># y2_calls y \<and> call_refs c = (s, e) \<and>
           d2_evnt d e = Some v \<and> ev_rec_cnt v + 1 < 2 ^ 32 \<and> hq_evnt_seq (d2_hwq d ! i) + 1 < 2 ^ 64)) \<longrightarrow>
        add_task_locked d s t \<noteq> None))"

definition queue_ops_safe :: "sys2 \<Rightarrow> bool" where
  "queue_ops_safe y \<longleftrightarrow> (let d = y2_dev y in
     (\<forall>i < KL2_HWQ_CNT. kl2_hwq_dispatch_locked d i \<noteq> None \<and> (\<forall>cnt. kl2_handle_hwq_intr d i cnt \<noteq> None) \<and>
        (hq_free (d2_hwq d ! i) = [] \<longrightarrow> finish_work_collect d i \<noteq> None) \<and> finish_work_one d i \<noteq> None \<and>
        taint_from_queue d i \<noteq> None \<and> reset_queue d i \<noteq> None) \<and>
     convert_taint d (d2_session_idr d) \<noteq> None)"

lemma evnt_ops_safe:
  assumes "sys2_ok y" shows "evnt_ops_safe y"
proof -
  let ?d = "y2_dev y"
  have ok: "dev_ok ?d (y2_hw y) (y2_open y) (image_mset call_refs (y2_calls y)) (y2_owned y)" using assms by (simp add: sys2_ok_def)
  have dest: "ioctl_event_destroy ?d s (Some k) \<noteq> None"
    if s: "s \<in># y2_open y" and k: "idr_find (d2_event_idr ?d) k = Some e" and e: "e \<in> y2_owned y" for s k e
  proof -
    obtain v where v: "d2_evnt ?d e = Some v" using find_evnt [OF ok k] by blast
    obtain x where x: "d2_sess ?d s = Some x" using own_held(1) [OF dev_okD(1) [OF ok] s] by blast
    from evnt_destroy_ok [OF ok e v] obtain d1 d2 where
      "upd_evnt ?d e (\<lambda>v. v\<lparr>ev_state := KL2_EVNT_DESTROYED\<rparr>) = Some d1" "evnt_put d1 e = Some d2"
      by (auto simp: bind_eq_Some_conv)
    with k v x show ?thesis by (simp add: ioctl_event_destroy_def)
  qed
  have call: "evnt_put ?d e \<noteq> None \<and> publish_record ?d e i n \<noteq> None"
    if "c \<in># y2_calls y" "call_refs c = (s, e)" for c s e i n
  proof -
    have c: "(s, e) \<in># image_mset call_refs (y2_calls y)" using call_in [OF that(1)] that(2) by simp
    then obtain v where "d2_evnt ?d e = Some v" using own_held(2) [OF dev_okD(1) [OF ok]] by blast
    with evnt_put_ok [OF ok c] show ?thesis by (auto simp: publish_record_def upd_evnt_def)
  qed
  show ?thesis unfolding evnt_ops_safe_def Let_def
    using dest call event_of_session_ok [OF ok] evnt_create_ok [OF ok] by (metis option.distinct(1))
qed

lemma sess_ops_safe:
  assumes "sys2_ok y" shows "sess_ops_safe y"
proof -
  let ?d = "y2_dev y"
  have ok: "dev_ok ?d (y2_hw y) (y2_open y) (image_mset call_refs (y2_calls y)) (y2_owned y)" using assms by (simp add: sys2_ok_def)
  have s: "kl2_session_bind_hwq ?d s \<noteq> None \<and> taint_unfinished ?d s \<noteq> None" if o: "s \<in># y2_open y" for s
  proof -
    obtain x where x: "d2_sess ?d s = Some x" using own_held(1) [OF dev_okD(1) [OF ok] o] by blast
    from sess_bind_ok [OF ok x] taint_unfinished_ok [OF ok x] show ?thesis by auto
  qed
  have r: "kl2_release ?d s \<noteq> None" if "s \<in># y2_open y" "\<forall>c. c \<in># y2_calls y \<longrightarrow> fst (call_refs c) \<noteq> s" for s
    using sess_put_ok [OF ok that(1)] that(2) unfolding kl2_release_def
    by (metis (no_types, lifting) fst_conv image_iff option.distinct(1) set_image_mset)
  have a: "add_task_locked ?d s t \<noteq> None"
    if "s \<in># y2_open y" and x: "d2_sess ?d s = Some x" "s2_hwq x = Some i" and room: "hq_cnt_all (d2_hwq ?d ! i) + 1 < 2 ^ 32"
      and ev: "tk_type t = KL2_TASKTYPE_EVNTREC \<longrightarrow> (\<exists>e c v. tk_evnt t = Some e \<and> c \<in># y2_calls y \<and> call_refs c = (s, e) \<and>
           d2_evnt ?d e = Some v \<and> ev_rec_cnt v + 1 < 2 ^ 32 \<and> hq_evnt_seq (d2_hwq ?d ! i) + 1 < 2 ^ 64)" for s x i t
  proof (cases "kl2_session_state_normal x")
    case False
    then show ?thesis using x by (simp add: add_task_locked_def Let_def)
  next
    case True
    have ev': "tk_type t = KL2_TASKTYPE_EVNTREC \<Longrightarrow> hq_evnt_seq (d2_hwq ?d ! i) + 1 < 2 ^ 64 \<and>
       (\<exists>e v. tk_evnt t = Some e \<and> d2_evnt ?d e = Some v \<and> ev_uproc v = s2_uproc x \<and> ev_rec_cnt v + 1 < 2 ^ 32)"
      using ev own_held(2) [OF dev_okD(1) [OF ok], of s] call_in x(1) by (metis option.inject)
    from hwq_add_ok [OF ok x True room ev'] show ?thesis by auto
  qed
  show ?thesis unfolding sess_ops_safe_def Let_def using s r a by blast
qed

lemma queue_ops_safe:
  assumes "sys2_ok y" shows "queue_ops_safe y"
proof -
  let ?d = "y2_dev y"
  have ok: "dev_ok ?d (y2_hw y) (y2_open y) (image_mset call_refs (y2_calls y)) (y2_owned y)" using assms by (simp add: sys2_ok_def)
  have live: "snd ` set (d2_session_idr ?d) \<subseteq> dom (d2_sess ?d)"
    using idr_live_all [of "d2_session_idr ?d" "d2_sess ?d" s2_id] dev_okD(3) [OF ok] by (simp add: tables_def)
  have w: "finish_work_one ?d i \<noteq> None" if "i < KL2_HWQ_CNT" for i
    using work_one_ok [OF ok that] by (cases "hq_free (d2_hwq ?d ! i)") (auto simp: finish_work_one_def)
  show ?thesis unfolding queue_ops_safe_def Let_def
    using w hwq_dispatch_ok [OF ok] intr_ok [OF ok] work_collect_ok [OF ok] taint_from_queue_ok [OF ok] reset_queue_ok [OF ok]
      convert_taint_ok [OF ok live] by (metis option.distinct(1))
qed

end
