(* ===== verification/Kl2_Order.thy ===== *)
theory Kl2_Order
  imports Kl2_Recovery "HOL-Library.Sublist"
begin

text \<open>
  The order of the tasks in the KL2 queues. A record numbers itself from its queue and a wait names
  a queue and a number it read from an event, so a wait can only name a record that was queued before
  it. The order of creation, the address of a task here, therefore orders all tasks of all queues, and
  the oldest task is never a wait for a queued record: the queues cannot block each other.
\<close>

section \<open>The invariant\<close>

definition tasks_of :: "kl2_hwq \<Rightarrow> kl2_task list" where
  "tasks_of q = hq_rt_list q @ hq_pt_list q"

definition is_record :: "kl2_task \<Rightarrow> bool" where
  "is_record t \<longleftrightarrow> tk_type t = KL2_TASKTYPE_EVNTREC"

definition is_wait :: "kl2_task \<Rightarrow> bool" where
  "is_wait t \<longleftrightarrow> tk_type t = KL2_TASKTYPE_EVNTWAIT"

definition known :: "(nat \<Rightarrow> nat) \<Rightarrow> nat \<times> nat \<Rightarrow> bool" where
  "known Q w \<longleftrightarrow> fst w < KL2_HWQ_CNT \<and> snd w \<le> Q (fst w)"

definition wait_ok :: "(nat \<Rightarrow> kl2_task list) \<Rightarrow> (nat \<Rightarrow> nat) \<Rightarrow> kl2_task \<Rightarrow> bool" where
  "wait_ok T Q t \<longleftrightarrow> known Q (tk_wait_vstream_id t, tk_record_seq t) \<and>
     (\<forall>r\<in>set (T (tk_wait_vstream_id t)). is_record r \<longrightarrow> tk_record_seq r \<le> tk_record_seq t \<longrightarrow> tk_ref r < tk_ref t)"

definition queue_order :: "(nat \<Rightarrow> kl2_task list) \<Rightarrow> (nat \<Rightarrow> nat) \<Rightarrow> nat \<Rightarrow> nat \<Rightarrow> bool" where
  "queue_order T Q N i \<longleftrightarrow>
     sorted_wrt (\<lambda>a b. tk_ref a < tk_ref b) (T i) \<and> (\<forall>t\<in>set (T i). tk_ref t < N) \<and>
     sorted_wrt (\<lambda>a b. tk_record_seq a < tk_record_seq b) (filter is_record (T i)) \<and>
     (\<forall>t\<in>set (T i). is_record t \<longrightarrow> tk_record_seq t \<le> Q i) \<and>
     (\<forall>t\<in>set (T i). is_wait t \<longrightarrow> wait_ok T Q t)"

definition order_ok :: "(nat \<Rightarrow> kl2_task list) \<Rightarrow> (nat \<Rightarrow> nat) \<Rightarrow> (nat \<times> nat) set \<Rightarrow> nat \<Rightarrow> bool" where
  "order_ok T Q R N \<longleftrightarrow> (\<forall>i < KL2_HWQ_CNT. queue_order T Q N i) \<and> (\<forall>w\<in>R. known Q w)"

lemma subseq_set: "subseq xs ys \<Longrightarrow> set xs \<subseteq> set ys"
  by (induction rule: list_emb.induct) auto

lemma sorted_wrt_subseq: "subseq xs ys \<Longrightarrow> sorted_wrt P ys \<Longrightarrow> sorted_wrt P xs"
proof (induction rule: list_emb.induct)
  case (list_emb_Cons2 x y xs ys)
  then show ?case using subseq_set [of xs ys] by auto
qed auto

lemma order_ok_less:
  assumes ok: "order_ok T Q R N" and sub: "\<And>i. i < KL2_HWQ_CNT \<Longrightarrow> subseq (T' i) (T i)" and R: "R' \<subseteq> R"
  shows "order_ok T' Q R' N"
proof -
  have "queue_order T' Q N i" if i: "i < KL2_HWQ_CNT" for i
  proof -
    have q: "queue_order T Q N i" using ok i by (simp add: order_ok_def)
    note s = subseq_set [OF sub [OF i]]
    have "wait_ok T' Q t" if "t \<in> set (T' i)" "is_wait t" for t
    proof -
      have w: "wait_ok T Q t" using q s that unfolding queue_order_def by blast
      then have "tk_wait_vstream_id t < KL2_HWQ_CNT" by (simp add: wait_ok_def known_def)
      with subseq_set [OF sub [OF this]] w show ?thesis unfolding wait_ok_def by blast
    qed
    then show ?thesis
      using q s sorted_wrt_subseq [OF sub [OF i]] sorted_wrt_subseq [OF subseq_filter [OF sub [OF i]]]
      unfolding queue_order_def by blast
  qed
  then show ?thesis using ok R unfolding order_ok_def by blast
qed

text \<open>A task added at the end of a queue.\<close>

lemma order_ok_add:
  assumes ok: "order_ok T Q R N" and i: "i < KL2_HWQ_CNT" and ref: "tk_ref t = N"
    and T': "T' = T(i := T i @ [t])"
    and Q': "Q' = Q(i := Q i + (if is_record t then 1 else 0))"
    and r: "is_record t \<Longrightarrow> tk_record_seq t = Q i + 1"
    and w: "is_wait t \<Longrightarrow> (tk_wait_vstream_id t, tk_record_seq t) \<in> R"
    and R': "\<forall>w\<in>R'. w \<in> R \<or> is_record t \<and> w = (i, Q i + 1)"
  shows "order_ok T' Q' R' (N + 1)"
proof -
  have mono: "known Q w \<Longrightarrow> known Q' w" for w using Q' by (auto simp: known_def)
  have old: "\<forall>j < KL2_HWQ_CNT. \<forall>u\<in>set (T j). tk_ref u < N" using ok by (auto simp: order_ok_def queue_order_def)
  have seq: "\<forall>j < KL2_HWQ_CNT. \<forall>u\<in>set (T j). is_record u \<longrightarrow> tk_record_seq u \<le> Q j" using ok by (auto simp: order_ok_def queue_order_def)
  have wo: "wait_ok T' Q' u" if u: "wait_ok T Q u" for u
    unfolding wait_ok_def
  proof (intro conjI ballI impI)
    show k: "known Q' (tk_wait_vstream_id u, tk_record_seq u)" using mono u unfolding wait_ok_def by blast
    fix x assume x: "x \<in> set (T' (tk_wait_vstream_id u))" "is_record x" "tk_record_seq x \<le> tk_record_seq u"
    show "tk_ref x < tk_ref u"
    proof (cases "x \<in> set (T (tk_wait_vstream_id u))")
      case True
      then show ?thesis using u x by (simp add: wait_ok_def)
    next
      case False
      then have "tk_wait_vstream_id u = i" "x = t" using x(1) T' by (auto split: if_splits)
      moreover have "tk_record_seq u \<le> Q (tk_wait_vstream_id u)" using u by (simp add: wait_ok_def known_def)
      ultimately show ?thesis using x r by simp
    qed
  qed
  have "wait_ok T' Q' t" if t: "is_wait t"
  proof -
    have k: "known Q (tk_wait_vstream_id t, tk_record_seq t)" using ok w [OF t] by (auto simp: order_ok_def)
    have nr: "\<not> is_record t" using t by (simp add: is_wait_def is_record_def)
    have "x \<in> set (T' (tk_wait_vstream_id t)) \<Longrightarrow> is_record x \<Longrightarrow> tk_ref x < tk_ref t" for x
      using old k nr ref T' by (auto simp: known_def split: if_splits)
    with mono [OF k] show ?thesis by (simp add: wait_ok_def)
  qed
  then have "queue_order T' Q' (N + 1) j" if j: "j < KL2_HWQ_CNT" for j
    using ok j old seq ref r T' Q' wo less_imp_le_nat unfolding order_ok_def queue_order_def
    by (cases "j = i") (auto simp: sorted_wrt_append less_Suc_eq dest!: spec [of _ j])
  moreover have "\<forall>w\<in>R'. known Q' w" using R' ok mono i Q' by (fastforce simp: order_ok_def known_def)
  ultimately show ?thesis by (simp add: order_ok_def)
qed

lemma order_ok_known: "order_ok T Q R N \<Longrightarrow> R' \<subseteq> R \<Longrightarrow> order_ok T Q R' N"
  by (auto simp: order_ok_def)

text \<open>The queues cannot block each other.\<close>

definition blocked :: "(nat \<Rightarrow> kl2_task list) \<Rightarrow> kl2_task \<Rightarrow> bool" where
  "blocked T t \<longleftrightarrow> is_wait t \<and> (\<exists>r\<in>set (T (tk_wait_vstream_id t)). is_record r \<and> tk_record_seq r \<le> tk_record_seq t)"

lemma head_free:
  assumes ok: "order_ok T Q R N" and ex: "j < KL2_HWQ_CNT" "T j \<noteq> []"
  shows "\<exists>i < KL2_HWQ_CNT. T i \<noteq> [] \<and> \<not> blocked T (hd (T i))"
proof -
  let ?A = "{tk_ref (hd (T i)) | i. i < KL2_HWQ_CNT \<and> T i \<noteq> []}"
  have fin: "finite ?A" by simp
  have ne: "?A \<noteq> {}" using ex by blast
  from Min_in [OF fin ne] obtain i where i: "i < KL2_HWQ_CNT" "T i \<noteq> []" "Min ?A = tk_ref (hd (T i))" by blast
  have le: "tk_ref (hd (T i)) \<le> tk_ref t" if "k < KL2_HWQ_CNT" "t \<in> set (T k)" for k t
  proof -
    have ne: "T k \<noteq> []" using that by auto
    have "tk_ref (hd (T i)) \<le> tk_ref (hd (T k))" using Min_le [OF fin] i(3) that(1) ne by auto
    moreover have "tk_ref (hd (T k)) \<le> tk_ref t"
    proof -
      obtain a l where T: "T k = a # l" using ne by (cases "T k") auto
      have "sorted_wrt (\<lambda>a b. tk_ref a < tk_ref b) (a # l)"
        using ok that(1) unfolding order_ok_def queue_order_def T [symmetric] by blast
      then show ?thesis using that(2) T by auto
    qed
    ultimately show ?thesis by linarith
  qed
  have "\<not> blocked T (hd (T i))"
  proof
    assume b: "blocked T (hd (T i))"
    then have "wait_ok T Q (hd (T i))" using ok i unfolding order_ok_def queue_order_def blocked_def by simp
    with b le show False unfolding blocked_def wait_ok_def known_def by fastforce
  qed
  with i show ?thesis by blast
qed


section \<open>Operations that move no task\<close>

definition recs :: "kl2_dev \<Rightarrow> (nat \<times> nat) set" where
  "recs d = {w. \<exists>e v. d2_evnt d e = Some v \<and> ev_rec v = Some w}"

definition same_order :: "kl2_dev \<Rightarrow> kl2_dev \<Rightarrow> bool" where
  "same_order d d' \<longleftrightarrow> (\<forall>j. tasks_of (d2_hwq d' ! j) = tasks_of (d2_hwq d ! j) \<and>
     hq_evnt_seq (d2_hwq d' ! j) = hq_evnt_seq (d2_hwq d ! j)) \<and> recs d' \<subseteq> recs d"

named_theorems kl2_order \<open>operations that keep the order of tasks\<close>

lemma same_order_refl [simp, kl2_order]: "same_order d d"
  by (simp add: same_order_def)

lemma same_order_trans: "same_order d d1 \<Longrightarrow> same_order d1 d2 \<Longrightarrow> same_order d d2"
  unfolding same_order_def by auto

lemma same_order_fields:
  assumes "d2_hwq d' = d2_hwq d" "d2_evnt d' = d2_evnt d"
  shows "same_order d d'"
  using assms by (simp add: same_order_def recs_def)

lemma same_order_hwq:
  assumes "\<And>q. tasks_of (f q) = tasks_of q" "\<And>q. hq_evnt_seq (f q) = hq_evnt_seq q"
  shows "same_order d (upd_hwq d i f)"
  using assms by (simp add: same_order_def recs_def upd_hwq_def nth_update_if)

lemma same_order_evnt:
  assumes "d2_hwq d' = d2_hwq d" "\<And>e v w. d2_evnt d' e = Some v \<Longrightarrow> ev_rec v = Some w \<Longrightarrow> w \<in> recs d"
  shows "same_order d d'"
  using assms by (auto simp: same_order_def recs_def)

lemma recsI: "d2_evnt d e = Some v \<Longrightarrow> ev_rec v = Some w \<Longrightarrow> w \<in> recs d"
  by (auto simp: recs_def)

lemma upd_sess_order [kl2_order]: "upd_sess d s f = Some d' \<Longrightarrow> same_order d d'"
  by (auto simp: upd_sess_def intro!: same_order_fields)

lemma upd_uproc_order [kl2_order]: "upd_uproc d s f = Some d' \<Longrightarrow> same_order d d'"
  by (auto simp: upd_uproc_def intro!: same_order_fields)

lemma upd_evnt_order:
  assumes "upd_evnt d e f = Some d'" "\<And>v. ev_rec (f v) = ev_rec v"
  shows "same_order d d'"
proof -
  obtain v where v: "d2_evnt d e = Some v" "d' = d\<lparr>d2_evnt := (d2_evnt d)(e \<mapsto> f v)\<rparr>"
    using assms(1) by (auto simp: upd_evnt_def)
  show ?thesis unfolding v(2)
    by (rule same_order_evnt) (use assms(2) v(1) recsI in \<open>auto split: if_splits\<close>)
qed

lemma board_order [kl2_order]: "same_order d (upd_board d i f)"
  by (simp add: same_order_fields upd_board_def)

lemma evnt_put_order [kl2_order]: "evnt_put d e = Some d' \<Longrightarrow> same_order d d'"
proof -
  assume p: "evnt_put d e = Some d'"
  then obtain v where v: "d2_evnt d e = Some v" by (auto simp: evnt_put_def bind_eq_Some_conv)
  show ?thesis
  proof (cases "ev_refs v = 1")
    case True
    then show ?thesis using p v
      by (auto simp: evnt_put_def bind_eq_Some_conv kl2_destroy_event_ref_def upd_uproc_def intro!: same_order_evnt
          intro: recsI split: if_splits)
  next
    case False
    then have "upd_evnt d e (\<lambda>v. v\<lparr>ev_refs := ev_refs v - 1\<rparr>) = Some d'" using p v by (simp add: evnt_put_def)
    then show ?thesis by (rule upd_evnt_order) simp
  qed
qed

lemma destroy_list_order: "kl2_destroy_uproc_event_list d es = Some d' \<Longrightarrow> same_order d d'"
  by (induction es arbitrary: d) (auto simp: bind_eq_Some_conv intro: same_order_trans evnt_put_order)

lemma uproc_put_order:
  assumes "uproc_put d u = Some d'" shows "same_order d d'"
proof -
  obtain p where p: "d2_uproc d u = Some p" using assms by (auto simp: uproc_put_def bind_eq_Some_conv)
  show ?thesis
  proof (cases "up_refs p = 1")
    case False
    then show ?thesis using assms p by (auto simp: uproc_put_def dest: upd_uproc_order)
  next
    case True
    then obtain d2 where d2: "kl2_destroy_uproc_event_list (d\<lparr>d2_uproc_idr := idr_remove (d2_uproc_idr d) (up_pid p)\<rparr>) (up_event_list p) = Some d2"
      "d' = d2\<lparr>d2_uproc := (d2_uproc d2)(u := None)\<rparr>"
      using assms p by (auto simp: uproc_put_def kl2_destroy_userprocess_ref_def bind_eq_Some_conv)
    have "same_order d (d\<lparr>d2_uproc_idr := idr_remove (d2_uproc_idr d) (up_pid p)\<rparr>)" by (rule same_order_fields) simp_all
    moreover have "same_order d2 d'" unfolding d2(2) by (rule same_order_fields) simp_all
    ultimately show ?thesis using destroy_list_order [OF d2(1)] same_order_trans by blast
  qed
qed

lemma release_hwq_order: "kl2_session_release_hwq_locked d s = Some d' \<Longrightarrow> same_order d d'"
  by (auto simp: kl2_session_release_hwq_locked_def bind_eq_Some_conv tasks_of_def intro!: same_order_hwq split: option.splits)

lemma sess_put_order [kl2_order]:
  assumes "sess_put d s = Some d'" shows "same_order d d'"
proof -
  obtain x where x: "d2_sess d s = Some x" using assms by (auto simp: sess_put_def bind_eq_Some_conv)
  show ?thesis
  proof (cases "s2_refs x = 1")
    case False
    then show ?thesis using assms x by (auto simp: sess_put_def dest: upd_sess_order)
  next
    case True
    let ?d1 = "d\<lparr>d2_session_idr := idr_remove (d2_session_idr d) (s2_id x)\<rparr>"
    obtain dr d4 where d: "kl2_session_release_hwq_locked ?d1 s = Some dr"
      "uproc_put (dr\<lparr>d2_mm_calls := d2_mm_calls dr @ [MmFreeByOwner s]\<rparr>) (s2_uproc x) = Some d4"
      "d' = d4\<lparr>d2_sess := (d2_sess d4)(s := None)\<rparr>"
      using assms x True by (auto simp: sess_put_def kl2_destroy_session_ref_def bind_eq_Some_conv)
    have "same_order d ?d1" "same_order dr (dr\<lparr>d2_mm_calls := d2_mm_calls dr @ [MmFreeByOwner s]\<rparr>)" "same_order d4 d'"
      by (simp_all add: same_order_fields d(3))
    then show ?thesis using release_hwq_order [OF d(1)] uproc_put_order [OF d(2)] same_order_trans by blast
  qed
qed

lemma bind_order [kl2_order]: "kl2_session_bind_hwq d s = Some d' \<Longrightarrow> same_order d d'"
proof -
  assume b: "kl2_session_bind_hwq d s = Some d'"
  have q: "same_order d (upd_hwq d i (\<lambda>q. q\<lparr>hq_session_list := hq_session_list q @ [s], hq_session_cnt := hq_session_cnt q + 1\<rparr>))" for i
    by (rule same_order_hwq) (simp_all add: tasks_of_def)
  obtain x where x: "d2_sess d s = Some x" using b by (auto simp: kl2_session_bind_hwq_def bind_eq_Some_conv)
  show ?thesis
  proof (cases "s2_hwq x")
    case None
    then have "\<exists>i. upd_sess (upd_hwq d i (\<lambda>q. q\<lparr>hq_session_list := hq_session_list q @ [s], hq_session_cnt := hq_session_cnt q + 1\<rparr>))
        s (\<lambda>x. x\<lparr>s2_hwq := Some i\<rparr>) = Some d'" using b x by (auto simp: kl2_session_bind_hwq_def Let_def)
    then show ?thesis using same_order_trans [OF q upd_sess_order] by blast
  next
    case (Some i)
    then show ?thesis using b x by (simp add: kl2_session_bind_hwq_def)
  qed
qed

lemma find_or_create_frame:
  assumes "find_or_create_uproc env d = Some (r, d')"
  shows "d2_hwq d' = d2_hwq d \<and> d2_evnt d' = d2_evnt d"
  using assms by (auto simp: find_or_create_uproc_def kl2_create_userprocess_locked_def upd_uproc_def
      bind_eq_Some_conv split: option.splits if_splits)

lemma create_order [kl2_order]:
  assumes "kl2_create_session env d = Some (r, d')"
  shows "same_order d d'"
proof (cases "c2_sess env = None \<or> c2_id env = None")
  case True
  then show ?thesis using assms by (auto simp: kl2_create_session_def split: option.splits)
next
  case False
  then obtain s k where k: "c2_sess env = Some s" "c2_id env = Some k" by auto
  with assms obtain r2 d2 where d2: "find_or_create_uproc env (d\<lparr>d2_session_idr := idr_insert k s (d2_session_idr d)\<rparr>) = Some (r2, d2)"
    and d': "(case r2 of Inl err \<Rightarrow> Some (Inl err, d2\<lparr>d2_session_idr := idr_remove (d2_session_idr d2) k\<rparr>)
      | Inr u \<Rightarrow> Some (Inr s, d2\<lparr>d2_sess := (d2_sess d2)(s \<mapsto> new_session2 k u)\<rparr>)) = Some (r, d')"
    by (auto simp: kl2_create_session_def Let_def bind_eq_Some_conv)
  have "d2_hwq d' = d2_hwq d2 \<and> d2_evnt d' = d2_evnt d2" using d' by (cases r2) auto
  with find_or_create_frame [OF d2] show ?thesis by (auto intro: same_order_fields)
qed

lemma taint_sessions_order: "taint_sessions d u es idr = Some d' \<Longrightarrow> same_order d d'"
proof (induction d u es idr rule: taint_sessions.induct)
  case (2 d u es sid s idr)
  then obtain x where x: "d2_sess d s = Some x" by (auto simp: bind_eq_Some_conv)
  show ?case
  proof (cases "s2_uproc x = u \<and> s \<noteq> es")
    case False
    with 2 x show ?thesis by auto
  next
    case True
    with 2(3) x obtain d1 d2 where d: "upd_sess d s (\<lambda>x. kl2_session_mark_error x (Some XPUERR_EVENTWAIT) True) = Some d1"
      "kl2_excp_taint_hwq d1 s = Some d2" "taint_sessions d2 u es idr = Some d'" by (auto simp: bind_eq_Some_conv)
    then obtain d3 i where "kl2_session_bind_hwq d1 s = Some d3" "d2 = upd_board d3 i (\<lambda>b. b\<lparr>eb_taint_cnt := u32 (eb_taint_cnt b + 1)\<rparr>)"
      by (auto simp: kl2_excp_taint_hwq_def bind_eq_Some_conv)
    then have "same_order d1 d2" using bind_order board_order same_order_trans by blast
    with 2(1) [OF x True d(1,2) d(3)] upd_sess_order [OF d(1)] show ?thesis using same_order_trans by blast
  qed
qed simp

lemma taint_from_queue_order [kl2_order]:
  assumes "taint_from_queue d i = Some d'" shows "same_order d d'"
proof (cases "eb_excp_cnt (d2_board d ! i) = 0 \<or> kl2_excp_find_sess_tainting_from d i = None")
  case True
  then show ?thesis using assms by (auto simp: taint_from_queue_def split: if_splits)
next
  case False
  then obtain s d1 where d1: "upd_sess d s (\<lambda>x. kl2_session_mark_error x (Some XPUERR_KEXCEPTION) False) = Some d1"
    "kl2_excp_taint_uproc_sess d1 s = Some d'"
    using assms by (auto simp: taint_from_queue_def bind_eq_Some_conv)
  have "same_order d1 d'"
    using d1(2) by (auto simp: kl2_excp_taint_uproc_sess_def bind_eq_Some_conv split: if_splits
        dest!: taint_sessions_order upd_uproc_order intro: same_order_trans)
  with upd_sess_order [OF d1(1)] show ?thesis by (rule same_order_trans)
qed

lemma convert_taint_order [kl2_order]: "convert_taint d idr = Some d' \<Longrightarrow> same_order d d'"
proof (induction d idr rule: convert_taint.induct)
  case (2 d sid s idr)
  then obtain x d1 where d1: "d2_sess d s = Some x" "(if s2_taint_state x \<noteq> KL2_SESS_NORMAL
      then upd_sess d s (\<lambda>x. kl2_session_mark_error x (s2_taint_errno x) True) else Some d) = Some d1"
    "convert_taint d1 idr = Some d'" by (auto simp: bind_eq_Some_conv)
  have "same_order d d1" using d1(2) by (auto dest: upd_sess_order split: if_splits)
  with "2.IH" [OF d1] show ?case by (rule same_order_trans [rotated])
qed simp

lemma settle_order [kl2_order]: "same_order d (settle_board z d i)"
proof -
  have "same_order d (upd_hwq d i (\<lambda>q. q\<lparr>hq_taint_state := KL2_HWQ_TAINT\<rparr>))"
    by (rule same_order_hwq) (simp_all add: tasks_of_def)
  then show ?thesis
    using same_order_trans [OF _ board_order] board_order by (auto simp: settle_board_def Let_def)
qed

lemma taint_unfinished_order [kl2_order]:
  assumes "taint_unfinished d s = Some d'" shows "same_order d d'"
proof -
  have q: "same_order d (upd_hwq d i (\<lambda>q. q\<lparr>hq_taint_state := KL2_HWQ_TAINT\<rparr>))" for d i
    by (rule same_order_hwq) (simp_all add: tasks_of_def)
  show ?thesis using assms q
    by (auto simp: taint_unfinished_def bind_eq_Some_conv split: if_splits option.splits dest!: upd_sess_order intro: same_order_trans)
qed

lemma work_one_order [kl2_order]:
  assumes "finish_work_one d i = Some d'" shows "same_order d d'"
proof (cases "hq_free (d2_hwq d ! i)")
  case Nil
  then show ?thesis using assms by (simp add: finish_work_one_def)
next
  case (Cons t ts)
  then obtain d1 where d1: "finish_task d t = Some d1" "sess_put (upd_hwq d1 i (\<lambda>q. q\<lparr>hq_free := ts\<rparr>)) (tk_sess t) = Some d'"
    using assms by (auto simp: finish_work_one_def kl2_session_free_task_def bind_eq_Some_conv)
  have e: "upd_evnt d e (\<lambda>v. v\<lparr>ev_fin_cnt := u32 (ev_fin_cnt v + 1)\<rparr>) = Some d2 \<Longrightarrow> same_order d d2" for e d2
    by (erule upd_evnt_order) simp
  have "same_order d d1"
    using d1(1) by (auto simp: finish_task_def bind_eq_Some_conv same_order_fields split: kl2_tasktype.splits if_splits
        intro: same_order_trans [OF e evnt_put_order])
  moreover have "same_order d1 (upd_hwq d1 i (\<lambda>q. q\<lparr>hq_free := ts\<rparr>))"
    by (rule same_order_hwq) (simp_all add: tasks_of_def)
  ultimately show ?thesis using sess_put_order [OF d1(2)] same_order_trans by blast
qed

lemma event_of_session_order [kl2_order]:
  assumes "event_of_session d s k = Some (r, d')" shows "same_order d d'"
proof -
  have g: "evnt_get d e = Some d1 \<Longrightarrow> same_order d d1" for e d1
    unfolding evnt_get_def by (erule upd_evnt_order) simp
  show ?thesis using assms g
    by (auto simp: event_of_session_def kl2_event_find_and_get_def bind_eq_Some_conv split: option.splits if_splits
        dest!: evnt_put_order intro: same_order_trans)
qed

lemma create_event_order [kl2_order]:
  assumes "kl2_create_event d s a k = Some (r, d')" shows "same_order d d'"
  using assms by (auto simp: kl2_create_event_def bind_eq_Some_conv upd_uproc_def split: option.splits if_splits
      intro!: same_order_evnt dest: recsI)

lemma event_destroy_order [kl2_order]:
  assumes "ioctl_event_destroy d s a = Some (r, d')" shows "same_order d d'"
proof -
  have e: "upd_evnt d e (\<lambda>v. v\<lparr>ev_state := KL2_EVNT_DESTROYED\<rparr>) = Some d2 \<Longrightarrow> same_order d d2" for e d2
    by (erule upd_evnt_order) simp
  show ?thesis using assms
    by (auto simp: ioctl_event_destroy_def bind_eq_Some_conv split: option.splits if_splits
        intro: same_order_trans [OF e evnt_put_order])
qed


section \<open>Every step\<close>

definition call_recs :: "ev_call multiset \<Rightarrow> (nat \<times> nat) set" where
  "call_recs M = {(i, n). \<exists>s e. EvPublish s e i n \<in># M \<or> EvWait s e i n \<in># M}"

definition T_of :: "kl2_dev \<Rightarrow> nat \<Rightarrow> kl2_task list" where
  "T_of d i = tasks_of (d2_hwq d ! i)"

definition Q_of :: "kl2_dev \<Rightarrow> nat \<Rightarrow> nat" where
  "Q_of d i = hq_evnt_seq (d2_hwq d ! i)"

definition sys2_order :: "sys2 \<Rightarrow> bool" where
  "sys2_order y \<longleftrightarrow> order_ok (T_of (y2_dev y)) (Q_of (y2_dev y)) (recs (y2_dev y) \<union> call_recs (y2_calls y)) (y2_next y)"

lemma call_recs_mono: "set_mset M \<subseteq> set_mset N \<Longrightarrow> call_recs M \<subseteq> call_recs N"
  by (auto simp: call_recs_def)

lemma call_recs_simps [simp]:
  "call_recs (add_mset (EvHold s e) M) = call_recs M"
  "call_recs (add_mset (EvPublish s e i n) M) = insert (i, n) (call_recs M)"
  "call_recs (add_mset (EvWait s e i n) M) = insert (i, n) (call_recs M)"
  by (auto simp: call_recs_def)

lemma call_recs_minus: "call_recs (M - N) \<subseteq> call_recs M"
  by (rule call_recs_mono) (meson in_diffD subsetI)

lemma same_order_views: "same_order d d' \<Longrightarrow> T_of d' = T_of d \<and> Q_of d' = Q_of d"
  by (simp add: same_order_def T_of_def Q_of_def fun_eq_iff)

lemma sys2_order_same:
  assumes "sys2_order y" "same_order (y2_dev y) (y2_dev z)" "y2_next z = y2_next y"
    and "call_recs (y2_calls z) \<subseteq> call_recs (y2_calls y) \<union> recs (y2_dev y)"
  shows "sys2_order z"
proof -
  have "recs (y2_dev z) \<union> call_recs (y2_calls z) \<subseteq> recs (y2_dev y) \<union> call_recs (y2_calls y)"
    using assms(2,4) unfolding same_order_def by blast
  then show ?thesis
    using assms order_ok_known [of "T_of (y2_dev y)" "Q_of (y2_dev y)"] same_order_views [OF assms(2)] unfolding sys2_order_def by metis
qed

text \<open>A step that only takes tasks away from queues.\<close>

lemma sys2_order_less:
  assumes "sys2_order y" "\<And>i. i < KL2_HWQ_CNT \<Longrightarrow> subseq (T_of (y2_dev z) i) (T_of (y2_dev y) i)"
    and "Q_of (y2_dev z) = Q_of (y2_dev y)" "recs (y2_dev z) \<subseteq> recs (y2_dev y)" "y2_next z = y2_next y" "y2_calls z = y2_calls y"
  shows "sys2_order z"
  using assms order_ok_less [of "T_of (y2_dev y)" "Q_of (y2_dev y)" "recs (y2_dev y) \<union> call_recs (y2_calls y)" "y2_next y" "T_of (y2_dev z)"
      "recs (y2_dev z) \<union> call_recs (y2_calls z)"] unfolding sys2_order_def by auto

lemma adds_order:
  assumes a: "adds y s t d' w t1 i" and ok: "dev_ok (y2_dev y) (y2_hw y) (y2_open y) C W" and o: "sys2_order y"
    and ev: "tk_type t = KL2_TASKTYPE_EVNTREC \<Longrightarrow> hq_evnt_seq (d2_hwq (y2_dev y) ! i) + 1 < 2 ^ 64 \<and>
       (\<exists>e v. tk_evnt t = Some e \<and> (s, e) \<in># C \<and> d2_evnt (y2_dev y) e = Some v \<and> ev_rec_cnt v + 1 < 2 ^ 32)"
    and wt: "tk_type t = KL2_TASKTYPE_EVNTWAIT \<Longrightarrow> (tk_wait_vstream_id t, tk_record_seq t) \<in> call_recs (y2_calls y)"
    and calls: "call_recs calls \<subseteq> call_recs (y2_calls y) \<union>
      (if tk_type t = KL2_TASKTYPE_EVNTREC then {(tk_hwq_id t1, tk_record_seq t1)} else {})"
  shows "order_ok (T_of d') (Q_of d') (recs d' \<union> call_recs calls) (y2_next y + 1)"
proof -
  let ?d = "y2_dev y"
  from a obtain x where x: "d2_sess ?d s = Some x" "s2_hwq x = Some i" and ref: "tk_ref t = y2_next y"
    and room: "hq_cnt_all (d2_hwq ?d ! i) + 1 < 2 ^ 32" and r: "add_task_locked ?d s t = Some (None, d', w, t1)"
    unfolding adds_def by blast
  have n: "kl2_session_state_normal x" using r x by (auto simp: add_task_locked_def Let_def split: if_splits)
  have ev': "tk_type t = KL2_TASKTYPE_EVNTREC \<Longrightarrow> hq_evnt_seq (d2_hwq ?d ! i) + 1 < 2 ^ 64 \<and>
       (\<exists>e v. tk_evnt t = Some e \<and> d2_evnt ?d e = Some v \<and> ev_uproc v = s2_uproc x \<and> ev_rec_cnt v + 1 < 2 ^ 32)"
    using ev own_held(2) [OF dev_okD(1) [OF ok]] x(1) by (metis option.inject)
  from hwq_add_ok [OF ok x n room ev'] r have t1: "t1 = queued ?d s i t" and i: "i < KL2_HWQ_CNT"
    and T: "\<forall>j. j \<noteq> i \<longrightarrow> d2_hwq d' ! j = d2_hwq ?d ! j" "tasks_of (d2_hwq d' ! i) = tasks_of (d2_hwq ?d ! i) @ [t1]"
    and Q: "hq_evnt_seq (d2_hwq d' ! i) = hq_evnt_seq (d2_hwq ?d ! i) + (if tk_type t = KL2_TASKTYPE_EVNTREC then 1 else 0)"
    and E: "\<forall>e. map_option ev_rec (d2_evnt d' e) = map_option ev_rec (d2_evnt ?d e)"
    by (auto simp: tasks_of_def)
  have rec: "recs d' \<subseteq> recs ?d"
  proof
    fix w assume "w \<in> recs d'"
    then obtain e where "map_option ev_rec (d2_evnt d' e) = Some (Some w)" by (auto simp: recs_def)
    then have "map_option ev_rec (d2_evnt ?d e) = Some (Some w)" using E by simp
    then show "w \<in> recs ?d" by (auto simp: recs_def)
  qed
  have ty: "is_record t1 \<longleftrightarrow> tk_type t = KL2_TASKTYPE_EVNTREC" "is_wait t1 \<longleftrightarrow> tk_type t = KL2_TASKTYPE_EVNTWAIT"
    "tk_ref t1 = y2_next y" "is_wait t1 \<Longrightarrow> tk_wait_vstream_id t1 = tk_wait_vstream_id t \<and> tk_record_seq t1 = tk_record_seq t"
    "is_record t1 \<Longrightarrow> tk_record_seq t1 = hq_evnt_seq (d2_hwq ?d ! i) + 1" "tk_hwq_id t1 = i"
    by (cases "tk_type t"; simp add: t1 queued_def is_record_def is_wait_def ref Let_def)+
  show ?thesis
  proof (rule order_ok_add [OF o [unfolded sys2_order_def] i ty(3)])
    show "T_of d' = (T_of ?d)(i := T_of ?d i @ [t1])" using T by (auto simp: T_of_def fun_eq_iff)
    show "Q_of d' = (Q_of ?d)(i := Q_of ?d i + (if is_record t1 then 1 else 0))" using T(1) Q ty(1) by (auto simp: Q_of_def fun_eq_iff)
    show "is_record t1 \<Longrightarrow> tk_record_seq t1 = Q_of ?d i + 1" using ty(5) by (simp add: Q_of_def)
    show "is_wait t1 \<Longrightarrow> (tk_wait_vstream_id t1, tk_record_seq t1) \<in> recs ?d \<union> call_recs (y2_calls y)" using wt ty by auto
    show "\<forall>w\<in>recs d' \<union> call_recs calls. w \<in> recs ?d \<union> call_recs (y2_calls y) \<or> is_record t1 \<and> w = (i, Q_of ?d i + 1)"
      using rec calls ty by (auto simp: Q_of_def split: if_splits)
  qed
qed


lemma call_in_hold: "EvHold s e \<in># M \<Longrightarrow> (s, e) \<in># image_mset call_refs M"
  using call_in [of "EvHold s e"] by simp

lemma call_in_recs: "EvPublish s e i n \<in># M \<Longrightarrow> (i, n) \<in> call_recs M" "EvWait s e i n \<in># M \<Longrightarrow> (i, n) \<in> call_recs M"
  by (auto simp: call_recs_def)

lemma subseq_drop_append: "subseq (drop n xs @ ys) (xs @ ys)"
proof -
  have "subseq (drop n xs) xs" by (metis append_take_drop_id list_emb_append2 subseq_order.refl)
  then show ?thesis by simp
qed

theorem kl2_step_order:
  assumes "kl2_step y z" and "sys2_ok y" and "sys2_order y"
  shows "sys2_order z"
  using assms
proof (induction rule: kl2_step.cases)
  case (create env y r d')
  then show ?case using sys2_order_same [of y z] create_order by simp
next
  case (bind s y d')
  then show ?case using sys2_order_same [of y z] bind_order by simp
next
  case (token y n d')
  then show ?case using sys2_order_same [of y z] by (auto simp: take_token_def same_order_fields)
next
  case (add_kernel y s t d' w t1 i)
  have "order_ok (T_of d') (Q_of d') (recs d' \<union> call_recs (y2_calls y)) (y2_next y + 1)"
    using add_kernel by (intro adds_order [OF add_kernel(3)]) (auto simp: sys2_ok_def)
  then show ?case using add_kernel(2) by (simp add: sys2_order_def)
next
  case (evnt_create s y e k d')
  then show ?case using sys2_order_same [of y z] create_event_order by simp
next
  case (evnt_get s y k e d')
  then show ?case using sys2_order_same [of y z] event_of_session_order by simp
next
  case (evnt_put s e y d')
  then show ?case using sys2_order_same [of y z] evnt_put_order call_recs_minus by fastforce
next
  case (evnt_destroy s y k e d')
  then show ?case using sys2_order_same [of y z] event_destroy_order by simp
next
  case (record_add s e y t d' w t1 i)
  have "call_recs (y2_calls y - {#EvHold s e#}) \<subseteq> call_recs (y2_calls y)" by (rule call_recs_minus)
  then have "order_ok (T_of d') (Q_of d') (recs d' \<union>
      call_recs (add_mset (EvPublish s e (tk_hwq_id t1) (tk_record_seq t1)) (y2_calls y - {#EvHold s e#}))) (y2_next y + 1)"
    using record_add call_in_hold [OF record_add(3)] by (intro adds_order [OF record_add(4)]) (auto simp: sys2_ok_def)
  then show ?case using record_add(2) by (simp add: sys2_order_def)
next
  case (record_publish s e i n y d')
  let ?R = "recs (y2_dev y) \<union> call_recs (y2_calls y)"
  have "recs d' \<subseteq> insert (i, n) (recs (y2_dev y))" and h: "d2_hwq d' = d2_hwq (y2_dev y)"
    using record_publish(4) by (auto simp: publish_record_def upd_evnt_def recs_def split: if_splits)
  then have "recs d' \<union> call_recs (add_mset (EvHold s e) (y2_calls y - {#EvPublish s e i n#})) \<subseteq> ?R"
    using call_in_recs(1) [OF record_publish(3)] call_recs_minus [of "y2_calls y" "{#EvPublish s e i n#}"] by auto
  moreover have "order_ok (T_of (y2_dev y)) (Q_of (y2_dev y)) ?R (y2_next y)" using record_publish(1,6) by (simp add: sys2_order_def)
  ultimately have "order_ok (T_of (y2_dev y)) (Q_of (y2_dev y))
      (recs d' \<union> call_recs (add_mset (EvHold s e) (y2_calls y - {#EvPublish s e i n#}))) (y2_next y)"
    by (rule order_ok_known [rotated])
  moreover have "T_of d' = T_of (y2_dev y)" "Q_of d' = Q_of (y2_dev y)" using h by (simp_all add: T_of_def Q_of_def fun_eq_iff)
  ultimately show ?case unfolding record_publish(2) sys2_order_def by simp
next
  case (wait_read s e y v i n)
  have "(i, n) \<in> recs (y2_dev y)" using wait_read(4,5) by (rule recsI)
  then show ?case using wait_read sys2_order_same [of y z] call_recs_minus [of "y2_calls y" "{#EvHold s e#}"] by auto
next
  case (wait_add s e j n y t d' w t1 i)
  have "call_recs (add_mset (EvHold s e) (y2_calls y - {#EvWait s e j n#})) \<subseteq> call_recs (y2_calls y)"
    using call_recs_minus by simp
  then have "order_ok (T_of d') (Q_of d') (recs d' \<union> call_recs (add_mset (EvHold s e) (y2_calls y - {#EvWait s e j n#}))) (y2_next y + 1)"
    using wait_add call_in_recs(2) [OF wait_add(3)] by (intro adds_order [OF wait_add(4)]) (auto simp: sys2_ok_def)
  then show ?case using wait_add(2) by (simp add: sys2_order_def)
next
  case (wait_fail s e j n y)
  then show ?case using sys2_order_same [of y z] call_recs_minus [of "y2_calls y" "{#EvWait s e j n#}"] by auto
next
  case (dispatch i y d' w)
  have ok: "dev_ok (y2_dev y) (y2_hw y) (y2_open y) (image_mset call_refs (y2_calls y)) (y2_owned y)" using dispatch by (simp add: sys2_ok_def)
  have "same_order (y2_dev y) d'"
  proof -
    from hwq_dispatch_ok [OF ok dispatch(3)] dispatch(4)
    have e: "d2_evnt d' = d2_evnt (y2_dev y)" "\<forall>j. j \<noteq> i \<longrightarrow> d2_hwq d' ! j = d2_hwq (y2_dev y) ! j"
      "tasks_of (d2_hwq d' ! i) = tasks_of (d2_hwq (y2_dev y) ! i)" "hq_evnt_seq (d2_hwq d' ! i) = hq_evnt_seq (d2_hwq (y2_dev y) ! i)"
      by (auto simp: tasks_of_def)
    then have "\<forall>j. tasks_of (d2_hwq d' ! j) = tasks_of (d2_hwq (y2_dev y) ! j) \<and> hq_evnt_seq (d2_hwq d' ! j) = hq_evnt_seq (d2_hwq (y2_dev y) ! j)"
      by metis
    with e(1) show ?thesis by (simp add: same_order_def recs_def)
  qed
  then show ?case using dispatch sys2_order_same [of y z] by simp
next
  case (intr i y cnt d' w)
  have ok: "dev_ok (y2_dev y) (y2_hw y) (y2_open y) (image_mset call_refs (y2_calls y)) (y2_owned y)" using intr by (simp add: sys2_ok_def)
  from intr_ok [OF ok intr(3), of cnt] intr(4)
  have e: "d2_evnt d' = d2_evnt (y2_dev y)" "\<forall>j. j \<noteq> i \<longrightarrow> d2_hwq d' ! j = d2_hwq (y2_dev y) ! j"
    "tasks_of (d2_hwq d' ! i) = drop cnt (hq_rt_list (d2_hwq (y2_dev y) ! i)) @ hq_pt_list (d2_hwq (y2_dev y) ! i)"
    "hq_evnt_seq (d2_hwq d' ! i) = hq_evnt_seq (d2_hwq (y2_dev y) ! i)"
    by (auto simp: tasks_of_def)
  have "subseq (T_of d' j) (T_of (y2_dev y) j)" for j
    using e(2,3) subseq_drop_append [of cnt "hq_rt_list (d2_hwq (y2_dev y) ! i)"] by (cases "j = i") (simp_all add: T_of_def tasks_of_def)
  moreover have "Q_of d' = Q_of (y2_dev y)" using e(2,4) by (auto simp: Q_of_def fun_eq_iff)
  ultimately show ?case using intr sys2_order_less [of y z] e(1) by (simp add: recs_def)
next
  case (work_start i y d')
  have ok: "dev_ok (y2_dev y) (y2_hw y) (y2_open y) (image_mset call_refs (y2_calls y)) (y2_owned y)" using work_start by (simp add: sys2_ok_def)
  from work_collect_ok [OF ok work_start(3,5)] work_start(6) have "same_order (y2_dev y) d'"
    by (auto simp: same_order_def tasks_of_def recs_def)
  then show ?case using work_start sys2_order_same [of y z] by simp
next
  case (work_one i y d')
  then show ?case using sys2_order_same [of y z] work_one_order by simp
next
  case (mark y s err d')
  then show ?case using sys2_order_same [of y z] upd_sess_order by simp
next
  case (release_wait s y d')
  then show ?case using sys2_order_same [of y z] taint_unfinished_order by simp
next
  case (release s y d')
  then show ?case using sys2_order_same [of y z] sess_put_order by (simp add: kl2_release_def)
next
  case (set_state y st b)
  then show ?case using sys2_order_same [of y z] by (simp add: same_order_fields)
next
  case (report i y b)
  then show ?case using sys2_order_same [of y z] board_order by simp
next
  case (excp_taint i y d')
  then show ?case using sys2_order_same [of y z] taint_from_queue_order by simp
next
  case (excp_convert y d')
  then show ?case using sys2_order_same [of y z] convert_taint_order by simp
next
  case (excp_settle i y zz)
  then show ?case using sys2_order_same [of y z] settle_order by simp
next
  case (excp_reset i y d' ops)
  have ok: "dev_ok (y2_dev y) (y2_hw y) (y2_open y) (image_mset call_refs (y2_calls y)) (y2_owned y)" using excp_reset by (simp add: sys2_ok_def)
  from reset_queue_ok [OF ok excp_reset(3)] excp_reset(4) have r: "reset_spec (y2_dev y) i d'" by auto
  have e: "\<forall>j. j \<noteq> i \<longrightarrow> d2_hwq d' ! j = d2_hwq (y2_dev y) ! j"
    "tasks_of (d2_hwq d' ! i) = filter (keeps (d2_sess d')) (tasks_of (d2_hwq (y2_dev y) ! i))"
    "hq_evnt_seq (d2_hwq d' ! i) = hq_evnt_seq (d2_hwq (y2_dev y) ! i)" "revoked_in (d2_evnt (y2_dev y)) (d2_evnt d')"
    using r unfolding reset_spec_def Let_def tasks_of_def by blast+
  have "subseq (T_of d' j) (T_of (y2_dev y) j)" for j
    using e(1,2) by (cases "j = i") (simp_all add: T_of_def)
  moreover have "Q_of d' = Q_of (y2_dev y)" using e(1,3) by (auto simp: Q_of_def fun_eq_iff)
  moreover have "recs d' \<subseteq> recs (y2_dev y)"
  proof
    fix w assume "w \<in> recs d'"
    then obtain ev v where v: "d2_evnt d' ev = Some v" "ev_rec v = Some w" by (auto simp: recs_def)
    have "d2_evnt d' ev = d2_evnt (y2_dev y) ev \<or> (\<exists>v. d2_evnt (y2_dev y) ev = Some v \<and> d2_evnt d' ev = Some (v\<lparr>ev_state := KL2_EVNT_REVOKED\<rparr>))"
      using e(4) unfolding revoked_in_def by blast
    then obtain v0 where "d2_evnt (y2_dev y) ev = Some v0" "ev_rec v0 = Some w"
    proof
      assume "d2_evnt d' ev = d2_evnt (y2_dev y) ev"
      then show ?thesis using v that [of v] by simp
    next
      assume "\<exists>v. d2_evnt (y2_dev y) ev = Some v \<and> d2_evnt d' ev = Some (v\<lparr>ev_state := KL2_EVNT_REVOKED\<rparr>)"
      then show ?thesis using v that by auto
    qed
    then show "w \<in> recs (y2_dev y)" by (rule recsI)
  qed
  ultimately show ?case using excp_reset sys2_order_less [of y z] by simp
qed

lemma sys2_init_order: "sys2_order (sys2_init hwq_bits)"
proof -
  have q: "i < KL2_HWQ_CNT \<Longrightarrow> d2_hwq (y2_dev (sys2_init b)) ! i = hwq_init_one b i" for i b
    by (simp add: sys2_init_def kl2_hwq_init_def)
  have "recs (y2_dev (sys2_init hwq_bits)) = {}" "y2_calls (sys2_init hwq_bits) = {#}"
    by (simp_all add: recs_def sys2_init_def kl2_hwq_init_def)
  then show ?thesis
    by (simp add: sys2_order_def order_ok_def queue_order_def T_of_def q tasks_of_def hwq_init_one_def call_recs_def)
qed

theorem kl2_reachable_order: "kl2_reachable hwq_bits y \<Longrightarrow> sys2_order y"
  by (induction rule: kl2_reachable.induct) (auto intro: sys2_init_order kl2_step_order kl2_reachable_ok)

end
