(* ===== verification/Kl2_Runs.thy ===== *)
theory Kl2_Runs
  imports Kl2_Order
begin

text \<open>
  The system calls on events are runs of the step relation: a record or wait request that succeeds is
  the sequence of its critical sections, with nothing between them. A small system with one session,
  one event, a record and a wait for it shows that such runs exist.
\<close>

section \<open>Requests as runs\<close>

text \<open>The bounds the driver takes for granted, in all queues and events.\<close>

definition room :: "kl2_dev \<Rightarrow> bool" where
  "room d \<longleftrightarrow> (\<forall>i < KL2_HWQ_CNT. hq_cnt_all (d2_hwq d ! i) + 1 < 2 ^ 32 \<and> hq_evnt_seq (d2_hwq d ! i) + 1 < 2 ^ 64) \<and>
     (\<forall>e v. d2_evnt d e = Some v \<longrightarrow> ev_rec_cnt v + 1 < 2 ^ 32)"

definition same_room :: "kl2_dev \<Rightarrow> kl2_dev \<Rightarrow> bool" where
  "same_room d d' \<longleftrightarrow> (\<forall>j. hq_cnt_all (d2_hwq d' ! j) = hq_cnt_all (d2_hwq d ! j) \<and> hq_evnt_seq (d2_hwq d' ! j) = hq_evnt_seq (d2_hwq d ! j)) \<and>
     (\<forall>e v'. d2_evnt d' e = Some v' \<longrightarrow> (\<exists>v. d2_evnt d e = Some v \<and> ev_rec_cnt v' = ev_rec_cnt v))"

lemma room_same: "same_room d d' \<Longrightarrow> room d \<Longrightarrow> room d'"
  unfolding same_room_def room_def by metis

lemma same_room_fields: "d2_hwq d' = d2_hwq d \<Longrightarrow> d2_evnt d' = d2_evnt d \<Longrightarrow> same_room d d'"
  by (simp add: same_room_def)

lemma bind_room:
  assumes "kl2_session_bind_hwq d s = Some d'" shows "same_room d d'"
proof -
  obtain x where x: "d2_sess d s = Some x" using assms by (auto simp: kl2_session_bind_hwq_def bind_eq_Some_conv)
  show ?thesis
    using assms x by (cases "s2_hwq x") (auto simp: kl2_session_bind_hwq_def Let_def upd_sess_def upd_hwq_def same_room_def nth_update_if)
qed

lemma event_of_session_get:
  assumes "event_of_session d s k = Some (Some e, d')"
  shows "evnt_get d e = Some d'"
  using assms by (auto simp: event_of_session_def kl2_event_find_and_get_def bind_eq_Some_conv split: option.splits if_splits)

lemma evnt_get_room: "evnt_get d e = Some d' \<Longrightarrow> same_room d d'"
  by (auto simp: evnt_get_def upd_evnt_def same_room_def split: if_splits)

lemma take_token_room: "take_token d = (n, d') \<Longrightarrow> same_room d d'"
  by (auto simp: take_token_def intro!: same_room_fields)

text \<open>The part of adding a task before its critical section.\<close>

lemma add_task_parts:
  assumes "kl2_session_add_task d s t = Some (None, d', w)"
  shows "\<exists>d1 d2 t1. kl2_session_bind_hwq d s = Some d1 \<and> add_task_locked d1 s t = Some (None, d2, w, t1) \<and>
    tk_type t1 = tk_type t \<and> tk_evnt t1 = tk_evnt t \<and>
    (if tk_type t = KL2_TASKTYPE_EVNTREC then \<exists>e. tk_evnt t = Some e \<and> publish_record d2 e (tk_hwq_id t1) (tk_record_seq t1) = Some d'
     else d' = d2)"
proof -
  from assms obtain d1 err d2 w1 t1 where b: "kl2_session_bind_hwq d s = Some d1"
    "add_task_locked d1 s t = Some (err, d2, w1, t1)"
    and r: "(if err \<noteq> None then Some (err, d2, w1)
         else (case tk_type t1 of
              KL2_TASKTYPE_EVNTREC \<Rightarrow> do {
                e \<leftarrow> tk_evnt t1;
                d3 \<leftarrow> publish_record d2 e (tk_hwq_id t1) (tk_record_seq t1);
                Some (None, d3, w1)
              }
            | _ \<Rightarrow> Some (None, d2, w1))) = Some (None, d', w)"
    by (auto simp: kl2_session_add_task_def bind_eq_Some_conv split: if_splits)
  then have e: "err = None" "w1 = w" by (auto simp: bind_eq_Some_conv split: if_splits kl2_tasktype.splits)
  have t: "tk_type t1 = tk_type t \<and> tk_evnt t1 = tk_evnt t"
    using b(2) by (auto simp: add_task_locked_def account_task_def Let_def bind_eq_Some_conv split: if_splits kl2_tasktype.splits)
  show ?thesis using b r e t by (intro exI [of _ d1] exI [of _ d2] exI [of _ t1]) (auto simp: bind_eq_Some_conv split: kl2_tasktype.splits)
qed

lemma bound_queue:
  assumes ok: "dev_ok d hw H C W" and s: "s \<in># H" and b: "kl2_session_bind_hwq d s = Some d1"
  shows "dev_ok d1 hw H C W \<and> (\<exists>x i. d2_sess d1 s = Some x \<and> s2_hwq x = Some i \<and> i < KL2_HWQ_CNT) \<and> d2_evnt d1 = d2_evnt d"
proof -
  obtain x where x: "d2_sess d s = Some x" using own_held(1) [OF dev_okD(1) [OF ok] s] by blast
  from sess_bind_ok [OF ok x] b show ?thesis by auto
qed

lemma step_trans: "rtranclp kl2_step x y \<Longrightarrow> kl2_step y z \<Longrightarrow> rtranclp kl2_step x z"
  by (rule rtranclp.rtrancl_into_rtrancl)

lemma record_run:
  assumes ok: "sys2_ok y" and s: "s \<in># y2_open y" and rm: "room (y2_dev y)"
    and r: "ioctl_event_record (y2_dev y) s (Some k) (Some (y2_next y)) = Some (None, d', w)"
  shows "\<exists>i < KL2_HWQ_CNT. rtranclp kl2_step y (y\<lparr>y2_dev := d', y2_hw := (y2_hw y)(i := y2_hw y i @ w), y2_next := y2_next y + 1\<rparr>)"
proof -
  from r obtain e d1 n d2 d5 where e: "event_of_session (y2_dev y) s k = Some (Some e, d1)" "take_token d1 = (n, d2)"
    "kl2_session_add_task d2 s (event_task KL2_TASKTYPE_EVNTREC (y2_next y) n (Some e) (0, 0)) = Some (None, d5, w)"
    "evnt_put d5 e = Some d'"
    by (auto simp: ioctl_event_record_def take_token_def bind_eq_Some_conv split: option.splits prod.splits)
  let ?t = "event_task KL2_TASKTYPE_EVNTREC (y2_next y) n (Some e) (0, 0)"
  have t: "tk_type ?t = KL2_TASKTYPE_EVNTREC" "tk_evnt ?t = Some e" "tk_ref ?t = y2_next y" by (simp_all add: event_task_def)
  from add_task_parts [OF e(3)] t obtain d3 d4 t1 where p: "kl2_session_bind_hwq d2 s = Some d3" "add_task_locked d3 s ?t = Some (None, d4, w, t1)"
    "publish_record d4 e (tk_hwq_id t1) (tk_record_seq t1) = Some d5" by auto
  define y1 where "y1 = y\<lparr>y2_dev := d1, y2_calls := add_mset (EvHold s e) (y2_calls y)\<rparr>"
  define y2 where "y2 = y1\<lparr>y2_dev := d2\<rparr>"
  define y3 where "y3 = y2\<lparr>y2_dev := d3\<rparr>"
  have s1: "kl2_step y y1" unfolding y1_def by (rule kl2_step.evnt_get [OF s e(1)])
  have s2: "kl2_step y1 y2" unfolding y2_def by (rule kl2_step.token) (use e(2) y1_def in simp)
  have s3: "kl2_step y2 y3" unfolding y3_def by (rule kl2_step.bind) (use p(1) s y1_def y2_def in simp_all)
  have f2: "y2_open y2 = y2_open y" "y2_dev y2 = d2" "y2_hw y2 = y2_hw y" by (simp_all add: y2_def y1_def)
  have ok2: "sys2_ok y2" using kl2_step_ok [OF s2 kl2_step_ok [OF s1 ok]] .
  from bound_queue [OF ok2 [unfolded sys2_ok_def] s [folded f2(1)], unfolded f2, OF p(1)] obtain x i where
    x: "d2_sess d3 s = Some x" "s2_hwq x = Some i" and i: "i < KL2_HWQ_CNT" by blast
  have rm3: "room d3"
    using room_same [OF bind_room [OF p(1)] room_same [OF take_token_room [OF e(2)] room_same [OF evnt_get_room [OF event_of_session_get [OF e(1)]] rm]]] .
  have ad: "adds y3 s ?t d4 w t1 i"
    using x p(2) rm3 i s t(3) by (auto simp: adds_def y3_def y2_def y1_def room_def)
  have hold: "EvHold s e \<in># y2_calls y3" by (simp add: y3_def y2_def y1_def)
  have ev: "\<exists>v. d2_evnt d3 e = Some v"
    using own_held(2) [OF dev_okD(1) [OF kl2_step_ok [OF s3 ok2, unfolded sys2_ok_def]] call_in_hold [OF hold]] by (auto simp: y3_def)
  define y4 where "y4 = y3\<lparr>y2_dev := d4, y2_hw := (y2_hw y3)(i := y2_hw y3 i @ w), y2_next := y2_next y3 + 1,
       y2_calls := add_mset (EvPublish s e (tk_hwq_id t1) (tk_record_seq t1)) (y2_calls y3 - {#EvHold s e#})\<rparr>"
  have s4: "kl2_step y3 y4" unfolding y4_def
    by (rule kl2_step.record_add [OF hold ad t(1,2)]) (use ev rm3 i in \<open>auto simp: y3_def room_def\<close>)
  define y5 where "y5 = y4\<lparr>y2_dev := d5, y2_calls := add_mset (EvHold s e) (y2_calls y4 - {#EvPublish s e (tk_hwq_id t1) (tk_record_seq t1)#})\<rparr>"
  have s5: "kl2_step y4 y5" unfolding y5_def by (rule kl2_step.record_publish) (use p(3) in \<open>simp_all add: y4_def\<close>)
  have s6: "kl2_step y5 (y5\<lparr>y2_dev := d', y2_calls := y2_calls y5 - {#EvHold s e#}\<rparr>)"
    by (rule kl2_step.evnt_put) (use e(4) in \<open>simp_all add: y5_def\<close>)
  have "y5\<lparr>y2_dev := d', y2_calls := y2_calls y5 - {#EvHold s e#}\<rparr> =
      y\<lparr>y2_dev := d', y2_hw := (y2_hw y)(i := y2_hw y i @ w), y2_next := y2_next y + 1\<rparr>"
    by (simp add: y5_def y4_def y3_def y2_def y1_def)
  moreover have "rtranclp kl2_step y (y5\<lparr>y2_dev := d', y2_calls := y2_calls y5 - {#EvHold s e#}\<rparr>)"
    by (intro step_trans [OF _ s6] step_trans [OF _ s5] step_trans [OF _ s4] step_trans [OF _ s3] step_trans [OF _ s2] r_into_rtranclp s1)
  ultimately show ?thesis using i by metis
qed

lemma wait_run:
  assumes ok: "sys2_ok y" and s: "s \<in># y2_open y" and rm: "room (y2_dev y)"
    and r: "ioctl_event_stream_wait (y2_dev y) s (Some k) (Some (y2_next y)) = Some (None, d', w)"
  shows "\<exists>i < KL2_HWQ_CNT. rtranclp kl2_step y (y\<lparr>y2_dev := d', y2_hw := (y2_hw y)(i := y2_hw y i @ w), y2_next := y2_next y + 1\<rparr>)"
proof -
  from r obtain e d1 n d2 v j m d4 where e: "event_of_session (y2_dev y) s k = Some (Some e, d1)" "take_token d1 = (n, d2)"
    "d2_evnt d2 e = Some v" "ev_rec v = Some (j, m)"
    "kl2_session_add_task d2 s (event_task KL2_TASKTYPE_EVNTWAIT (y2_next y) n None (j, m)) = Some (None, d4, w)"
    "evnt_put d4 e = Some d'"
    by (auto simp: ioctl_event_stream_wait_def take_token_def bind_eq_Some_conv split: option.splits prod.splits)
  let ?t = "event_task KL2_TASKTYPE_EVNTWAIT (y2_next y) n None (j, m)"
  have t: "tk_type ?t = KL2_TASKTYPE_EVNTWAIT" "tk_wait_vstream_id ?t = j" "tk_record_seq ?t = m" "tk_ref ?t = y2_next y"
    by (simp_all add: event_task_def)
  from add_task_parts [OF e(5)] t obtain d3 t1 where p: "kl2_session_bind_hwq d2 s = Some d3" "add_task_locked d3 s ?t = Some (None, d4, w, t1)"
    by auto
  define y1 where "y1 = y\<lparr>y2_dev := d1, y2_calls := add_mset (EvHold s e) (y2_calls y)\<rparr>"
  define y2 where "y2 = y1\<lparr>y2_dev := d2\<rparr>"
  define ya where "ya = y2\<lparr>y2_calls := add_mset (EvWait s e j m) (y2_calls y2 - {#EvHold s e#})\<rparr>"
  define y3 where "y3 = ya\<lparr>y2_dev := d3\<rparr>"
  have s1: "kl2_step y y1" unfolding y1_def by (rule kl2_step.evnt_get [OF s e(1)])
  have s2: "kl2_step y1 y2" unfolding y2_def by (rule kl2_step.token) (use e(2) y1_def in simp)
  have sa: "kl2_step y2 ya" unfolding ya_def by (rule kl2_step.wait_read) (use e(3,4) in \<open>simp_all add: y2_def y1_def\<close>)
  have s3: "kl2_step ya y3" unfolding y3_def by (rule kl2_step.bind) (use p(1) s y1_def y2_def ya_def in simp_all)
  have f2: "y2_open y2 = y2_open y" "y2_dev y2 = d2" "y2_hw y2 = y2_hw y" by (simp_all add: y2_def y1_def)
  have ok2: "sys2_ok y2" using kl2_step_ok [OF s2 kl2_step_ok [OF s1 ok]] .
  from bound_queue [OF ok2 [unfolded sys2_ok_def] s [folded f2(1)], unfolded f2, OF p(1)] obtain x i where
    x: "d2_sess d3 s = Some x" "s2_hwq x = Some i" and i: "i < KL2_HWQ_CNT" by blast
  have rm3: "room d3"
    using room_same [OF bind_room [OF p(1)] room_same [OF take_token_room [OF e(2)] room_same [OF evnt_get_room [OF event_of_session_get [OF e(1)]] rm]]] .
  have ad: "adds y3 s ?t d4 w t1 i"
    using x p(2) rm3 i s t(4) by (auto simp: adds_def y3_def ya_def y2_def y1_def room_def)
  have hold: "EvWait s e j m \<in># y2_calls y3" by (simp add: y3_def ya_def)
  define y4 where "y4 = y3\<lparr>y2_dev := d4, y2_hw := (y2_hw y3)(i := y2_hw y3 i @ w), y2_next := y2_next y3 + 1,
       y2_calls := add_mset (EvHold s e) (y2_calls y3 - {#EvWait s e j m#})\<rparr>"
  have s4: "kl2_step y3 y4" unfolding y4_def by (rule kl2_step.wait_add [OF hold ad t(1-3)])
  have s6: "kl2_step y4 (y4\<lparr>y2_dev := d', y2_calls := y2_calls y4 - {#EvHold s e#}\<rparr>)"
    by (rule kl2_step.evnt_put) (use e(6) in \<open>simp_all add: y4_def\<close>)
  have "y4\<lparr>y2_dev := d', y2_calls := y2_calls y4 - {#EvHold s e#}\<rparr> =
      y\<lparr>y2_dev := d', y2_hw := (y2_hw y)(i := y2_hw y i @ w), y2_next := y2_next y + 1\<rparr>"
    by (simp add: y4_def y3_def ya_def y2_def y1_def)
  moreover have "rtranclp kl2_step y (y4\<lparr>y2_dev := d', y2_calls := y2_calls y4 - {#EvHold s e#}\<rparr>)"
    by (intro step_trans [OF _ s6] step_trans [OF _ s4] step_trans [OF _ s3] step_trans [OF _ sa] step_trans [OF _ s2] r_into_rtranclp s1)
  ultimately show ?thesis using i by metis
qed

lemma reachable_run: "rtranclp kl2_step y z \<Longrightarrow> kl2_reachable b y \<Longrightarrow> kl2_reachable b z"
  by (induction rule: rtranclp_induct) (auto intro: kl2_reachable.step)


section \<open>A small system\<close>

text \<open>One process with one session and one event; all queues are enabled.\<close>

definition demo_env :: "nat \<Rightarrow> nat \<Rightarrow> create2_env" where
  "demo_env s k = \<lparr>c2_sess = Some s, c2_id = Some k, c2_pid = 7, c2_uproc = Some 20, c2_uproc_idr = True\<rparr>"

definition demo_uproc :: kl2_userprocess where
  "demo_uproc = \<lparr>up_pid = 7, up_refs = 1, up_state = KL2_UPROC_NORMAL, up_event_list = []\<rparr>"

definition demo_event :: kl2_event where
  "demo_event = \<lparr>ev_id = 0, ev_uproc = 20, ev_state = KL2_EVNT_NORMAL, ev_rec = None, ev_rec_cnt = 0, ev_fin_cnt = 0, ev_refs = 1\<rparr>"

definition demo_hwqs :: "kl2_hwq list" where
  "demo_hwqs = map (hwq_init_one 0xfff) [0..<KL2_HWQ_CNT]"

definition demo1 :: sys2 where
  "demo1 = (sys2_init 0xfff)\<lparr>y2_dev := (y2_dev (sys2_init 0xfff))\<lparr>d2_session_idr := [(0, 10)], d2_uproc_idr := [(7, 20)],
     d2_uproc := [20 \<mapsto> demo_uproc], d2_sess := [10 \<mapsto> new_session2 0 20]\<rparr>, y2_open := {#10#}\<rparr>"

definition demo2 :: sys2 where
  "demo2 = demo1\<lparr>y2_dev := (y2_dev demo1)\<lparr>d2_event_idr := [(0, 30)],
     d2_uproc := [20 \<mapsto> demo_uproc\<lparr>up_event_list := [30]\<rparr>], d2_evnt := [30 \<mapsto> demo_event]\<rparr>, y2_owned := {30}\<rparr>"

lemma demo1_reachable: "kl2_reachable 0xfff demo1"
proof -
  let ?d = "y2_dev (sys2_init 0xfff)"
  have "kl2_create_session (demo_env 10 0) ?d = Some (Inr 10, y2_dev demo1)"
    by (simp add: kl2_create_session_def demo_env_def find_or_create_uproc_def kl2_create_userprocess_locked_def Let_def
      demo1_def sys2_init_def kl2_hwq_init_def idr_find_def idr_insert_def demo_uproc_def)
  from kl2_step.create [OF this] have "kl2_step (sys2_init 0xfff) demo1"
    by (simp add: demo1_def demo_env_def sys2_init_def kl2_hwq_init_def)
  then show ?thesis by (rule kl2_reachable.step [OF kl2_reachable.init])
qed

lemma demo2_reachable: "kl2_reachable 0xfff demo2"
proof -
  have c: "kl2_create_event (y2_dev demo1) 10 (Some 30) (Some 0) = Some (Some 30, y2_dev demo2)"
    by (simp add: kl2_create_event_def demo2_def demo1_def new_session2_def upd_uproc_def idr_insert_def Let_def
        sys2_init_def kl2_hwq_init_def demo_uproc_def demo_event_def)
  have "kl2_step demo1 (demo1\<lparr>y2_dev := y2_dev demo2, y2_owned := insert 30 (y2_owned demo1)\<rparr>)"
    by (rule kl2_step.evnt_create [OF _ c]) (simp_all add: demo1_def sys2_init_def kl2_hwq_init_def)
  moreover have "demo1\<lparr>y2_dev := y2_dev demo2, y2_owned := insert 30 (y2_owned demo1)\<rparr> = demo2"
    by (simp add: demo2_def demo1_def sys2_init_def)
  ultimately show ?thesis using kl2_reachable.step [OF demo1_reachable] by simp
qed

lemma demo_dev:
  "d2_hwq (y2_dev demo2) = demo_hwqs" "d2_hwq_bitmap (y2_dev demo2) = 0" "d2_sess (y2_dev demo2) = [10 \<mapsto> new_session2 0 20]"
  "d2_evnt (y2_dev demo2) = [30 \<mapsto> demo_event]" "d2_uproc (y2_dev demo2) = [20 \<mapsto> demo_uproc\<lparr>up_event_list := [30]\<rparr>]"
  "d2_event_idr (y2_dev demo2) = [(0, 30)]" "d2_state (y2_dev demo2) = KL2_RUNNING" "\<not> d2_in_reset_state (y2_dev demo2)"
  "d2_task_token (y2_dev demo2) = 100" "y2_next demo2 = 0" "y2_open demo2 = {#10#}" "y2_hw demo2 = (\<lambda>_. [])" "y2_calls demo2 = {#}"
  "y2_owned demo2 = {30}"
  by (simp_all add: demo2_def demo1_def sys2_init_def kl2_hwq_init_def demo_hwqs_def KL2_HWQ_CNT_def upt_rec)
    (code_simp)?

lemma demo_scan: "bind_scan demo_hwqs 0 0 (2 ^ 32 - 1) 0 = 0"
  by (simp add: demo_hwqs_def KL2_HWQ_CNT_def upt_rec hwq_init_one_def)

lemma demo_hwqs_nth: "demo_hwqs ! 0 = hwq_init_one 0xfff 0" "length demo_hwqs = KL2_HWQ_CNT"
  by (simp_all add: demo_hwqs_def KL2_HWQ_CNT_def)

text \<open>The record as it is queued, the queue and the session after it.\<close>

definition demo_record :: kl2_task where
  "demo_record = (event_task KL2_TASKTYPE_EVNTREC 0 100 (Some 30) (0, 0))\<lparr>tk_sess := 10, tk_hwq_id := 0, tk_record_seq := 1\<rparr>"

definition demo3_dev :: kl2_dev where
  "demo3_dev = (y2_dev demo2)\<lparr>d2_task_token := 102,
     d2_sess := [10 \<mapsto> (new_session2 0 20)\<lparr>s2_hwq := Some 0, s2_unfinished_cnt := 1, s2_refs := 2\<rparr>],
     d2_hwq := demo_hwqs[0 := (hwq_init_one 0xfff 0)\<lparr>hq_session_list := [10], hq_session_cnt := 1, hq_evnt_seq := 1,
       hq_cnt_all := 1, hq_pt_list := [], hq_rt_list := [demo_record], hq_cnt_running := 1\<rparr>],
     d2_evnt := [30 \<mapsto> demo_event\<lparr>ev_rec_cnt := 1, ev_refs := 2, ev_rec := Some (0, 1)\<rparr>]\<rparr>"

lemma demo_record_runs: "ioctl_event_record (y2_dev demo2) 10 (Some 0) (Some 0) = Some (None, demo3_dev, [demo_record])"
proof -
  let ?t = "event_task KL2_TASKTYPE_EVNTREC 0 100 (Some 30) (0, 0)"
  define d1 where "d1 = (y2_dev demo2)\<lparr>d2_evnt := [30 \<mapsto> demo_event\<lparr>ev_refs := 2\<rparr>]\<rparr>"
  have g: "event_of_session (y2_dev demo2) 10 0 = Some (Some 30, d1)"
    by (simp add: event_of_session_def kl2_event_find_and_get_def idr_find_def evnt_get_def upd_evnt_def demo_dev demo_event_def
        new_session2_def d1_def numeral_2_eq_2)
  define d2 where "d2 = d1\<lparr>d2_task_token := 102\<rparr>"
  have t: "take_token d1 = (100, d2)" by (simp add: take_token_def d2_def d1_def demo_dev u32_def)
  define q where "q = (hwq_init_one 0xfff 0)\<lparr>hq_session_list := [10], hq_session_cnt := 1\<rparr>"
  define x where "x = (new_session2 0 20)\<lparr>s2_hwq := Some 0\<rparr>"
  define d3 where "d3 = d2\<lparr>d2_hwq := demo_hwqs[0 := q], d2_sess := [10 \<mapsto> x]\<rparr>"
  have b: "kl2_session_bind_hwq d2 10 = Some d3"
    unfolding kl2_session_bind_hwq_def
    using demo_scan by (simp add: d2_def d1_def demo_dev new_session2_def Let_def upd_sess_def upd_hwq_def demo_hwqs_nth d3_def q_def x_def
        hwq_init_one_def)
  have q3: "d2_hwq d3 ! 0 = q" "length (d2_hwq d3) = KL2_HWQ_CNT" "hq_id q = 0"
    by (simp_all add: d3_def demo_hwqs_nth KL2_HWQ_CNT_def q_def hwq_init_one_def)
  define v4 where "v4 = demo_event\<lparr>ev_rec_cnt := 1, ev_refs := 3\<rparr>"
  define d4 where "d4 = d3\<lparr>d2_hwq := demo_hwqs[0 := q\<lparr>hq_evnt_seq := 1\<rparr>], d2_evnt := [30 \<mapsto> v4]\<rparr>"
  have a: "account_task d3 0 (?t\<lparr>tk_sess := 10, tk_hwq_id := 0\<rparr>) = Some (demo_record, d4)"
    using q3 by (simp add: account_task_def event_task_def Let_def upd_hwq_def upd_evnt_def evnt_get_def d3_def d2_def d1_def demo_event_def
        d4_def v4_def demo_record_def u64_def u32_def q_def hwq_init_one_def)
  define x5 where "x5 = x\<lparr>s2_unfinished_cnt := 1, s2_refs := 2\<rparr>"
  define q5 where "q5 = q\<lparr>hq_evnt_seq := 1, hq_pt_list := [demo_record], hq_cnt_all := 1\<rparr>"
  define d5 where "d5 = d4\<lparr>d2_hwq := demo_hwqs[0 := q5], d2_sess := [10 \<mapsto> x5]\<rparr>"
  define q6 where "q6 = q5\<lparr>hq_pt_list := [], hq_rt_list := [demo_record], hq_cnt_running := 1\<rparr>"
  have n: "dispatch_nocheck [10 \<mapsto> x5] q5 = Some (q6, [demo_record])"
    by (subst dispatch_nocheck.simps, subst dispatch_nocheck.simps)
      (simp add: q5_def q6_def q_def x5_def x_def hwq_init_one_def KL2_HWQ_DEPTH_def demo_record_def event_task_def
        kl2_session_state_normal_def new_session2_def u32_def)
  define d6 where "d6 = d5\<lparr>d2_hwq := demo_hwqs[0 := q6]\<rparr>"
  have l: "0 < length demo_hwqs" by (simp add: demo_hwqs_nth KL2_HWQ_CNT_def)
  have disp: "kl2_hwq_dispatch_locked d5 0 = Some (d6, [demo_record])"
    using n l by (simp add: kl2_hwq_dispatch_locked_def d6_def d5_def d4_def d3_def d2_def d1_def demo_dev upd_hwq_def)
  have add: "add_task_locked d3 10 ?t = Some (None, d6, [demo_record], demo_record)"
  proof -
    have "d2_sess d3 10 = Some x" "s2_hwq x = Some 0" "kl2_session_state_normal x" "d2_sess d4 10 = Some x"
      by (simp_all add: d4_def d3_def x_def new_session2_def kl2_session_state_normal_def)
    moreover have "do { d' \<leftarrow> upd_sess d4 10 (\<lambda>x. x\<lparr>s2_unfinished_cnt := s2_unfinished_cnt x + 1\<rparr>); sess_get d' 10 } =
        Some (d4\<lparr>d2_sess := [10 \<mapsto> x5]\<rparr>)"
      by (simp add: upd_sess_def sess_get_def d4_def d3_def x5_def x_def new_session2_def numeral_2_eq_2)
    then obtain d' where "upd_sess d4 10 (\<lambda>x. x\<lparr>s2_unfinished_cnt := s2_unfinished_cnt x + 1\<rparr>) = Some d'"
      "sess_get d' 10 = Some (d4\<lparr>d2_sess := [10 \<mapsto> x5]\<rparr>)" by (auto simp: bind_eq_Some_conv)
    moreover have "upd_hwq (d4\<lparr>d2_sess := [10 \<mapsto> x5]\<rparr>) 0 (\<lambda>q. q\<lparr>hq_pt_list := hq_pt_list q @ [demo_record], hq_cnt_all := u32 (hq_cnt_all q + 1)\<rparr>) = d5"
      using l by (simp add: upd_hwq_def d5_def d4_def q5_def q_def hwq_init_one_def u32_def)
    ultimately show ?thesis using a disp q3 by (simp add: add_task_locked_def)
  qed
  define d7 where "d7 = d6\<lparr>d2_evnt := [30 \<mapsto> v4\<lparr>ev_rec := Some (0, 1)\<rparr>]\<rparr>"
  have p: "publish_record d6 30 (tk_hwq_id demo_record) (tk_record_seq demo_record) = Some d7"
    by (simp add: publish_record_def upd_evnt_def d7_def d6_def d5_def d4_def demo_record_def)
  have r: "tk_type demo_record = KL2_TASKTYPE_EVNTREC" "tk_evnt demo_record = Some 30" by (simp_all add: demo_record_def event_task_def)
  have "kl2_session_add_task d2 10 ?t = Some (None, d7, [demo_record])"
    using b add p r by (simp add: kl2_session_add_task_def d2_def d1_def demo_dev new_session2_def kl2_session_state_normal_def)
  moreover have "evnt_put d7 30 = Some demo3_dev"
    by (simp add: evnt_put_def upd_evnt_def d7_def d6_def d5_def d4_def d3_def d2_def d1_def v4_def q6_def q5_def q_def x5_def x_def
        demo3_dev_def demo_event_def numeral_2_eq_2 numeral_3_eq_3)
  ultimately show ?thesis using g t by (simp add: ioctl_event_record_def)
qed

text \<open>The wait for it, which the hardware gets behind it.\<close>

lemma demo_room: "room (y2_dev demo2)"
  by (auto simp: room_def demo_dev demo_hwqs_def hwq_init_one_def demo_event_def)

definition demo3 :: sys2 where
  "demo3 = demo2\<lparr>y2_dev := demo3_dev, y2_hw := (\<lambda>_. [])(0 := [demo_record]), y2_next := 1\<rparr>"

lemma demo3_reachable: "kl2_reachable 0xfff demo3"
proof -
  have r: "ioctl_event_record (y2_dev demo2) 10 (Some 0) (Some (y2_next demo2)) = Some (None, demo3_dev, [demo_record])"
    using demo_record_runs by (simp add: demo_dev)
  have "10 \<in># y2_open demo2" by (simp add: demo_dev)
  from record_run [OF kl2_reachable_ok [OF demo2_reachable] this demo_room r] obtain i where
    i: "i < KL2_HWQ_CNT" "rtranclp kl2_step demo2 (demo2\<lparr>y2_dev := demo3_dev, y2_hw := (y2_hw demo2)(i := y2_hw demo2 i @ [demo_record]), y2_next := y2_next demo2 + 1\<rparr>)"
    by blast
  let ?z = "demo2\<lparr>y2_dev := demo3_dev, y2_hw := (y2_hw demo2)(i := y2_hw demo2 i @ [demo_record]), y2_next := y2_next demo2 + 1\<rparr>"
  have z: "kl2_reachable 0xfff ?z" using reachable_run [OF i(2) demo2_reachable] .
  have "y2_hw ?z i = hq_rt_list (d2_hwq (y2_dev ?z) ! i)"
    using kl2_reachable_ok [OF z] i(1) by (auto simp: sys2_ok_def dev_ok_def shape_def queue_shape_def)
  then have "hq_rt_list (d2_hwq demo3_dev ! i) = [demo_record]" by (simp add: demo_dev)
  then have "i = 0" using i(1) by (auto simp: demo3_dev_def nth_update_if demo_hwqs_def hwq_init_one_def split: if_splits)
  with z show ?thesis by (simp add: demo3_def demo_dev)
qed


end
