(* ===== verification/Kl2_Claims.thy ===== *)
theory Kl2_Claims
  imports Kl2_Runs
begin

text \<open>
  The properties of the KL2 task path. Each holds in every reachable state of \<^verbatim>\<open>Kl2_Sched\<close>, whatever
  the interleaving, or follows a call from start to end.
\<close>

section \<open>What the invariants say\<close>

lemma reach_dev_ok:
  "kl2_reachable hwq_bits y \<Longrightarrow> dev_ok (y2_dev y) (y2_hw y) (y2_open y) (image_mset call_refs (y2_calls y)) (y2_owned y)"
  using kl2_reachable_ok by (simp add: sys2_ok_def)

lemma own_parts:
  assumes "own d H C W"
  defines "B \<equiv> \<lambda>i. busy_of (d2_hwq d ! i)" and "A \<equiv> all_tasks (\<lambda>i. busy_of (d2_hwq d ! i)) (\<lambda>i. done_of (d2_hwq d ! i))"
  shows "d2_sess d s = Some x \<Longrightarrow> s2_unfinished_cnt x = int (on_queue B x s) \<and> s2_refs x = on_queue A x s + count H s \<and>
      0 < s2_refs x \<and> (\<exists>p. d2_uproc d (s2_uproc x) = Some p)"
    and "d2_evnt d e = Some v \<Longrightarrow> ev_refs v = rec_refs A e + count (image_mset snd C) e + (if e \<in> W then 1 else 0) \<and>
      0 < ev_refs v \<and> ev_rec_cnt v = ev_fin_cnt v + rec_refs A e \<and>
      (\<exists>p. d2_uproc d (ev_uproc v) = Some p \<and> e \<in> set (up_event_list p))"
    and "d2_uproc d u = Some p \<Longrightarrow> up_refs p = card {s. \<exists>x. d2_sess d s = Some x \<and> s2_uproc x = u} \<and> 0 < up_refs p \<and>
      set (up_event_list p) = {e. \<exists>v. d2_evnt d e = Some v \<and> ev_uproc v = u}"
proof -
  have o: "sess_ok (map_option clean_s \<circ> d2_sess d) (map_option clean_u \<circ> d2_uproc d) A B H"
    "evnts_ok (map_option clean_u \<circ> d2_uproc d) (map_option clean_e \<circ> d2_evnt d) A C W"
    "uprocs_ok (map_option clean_s \<circ> d2_sess d) (map_option clean_u \<circ> d2_uproc d) (map_option clean_e \<circ> d2_evnt d)"
    using assms by (simp_all add: own_def own_ok_def)
  show "d2_sess d s = Some x \<Longrightarrow> s2_unfinished_cnt x = int (on_queue B x s) \<and> s2_refs x = on_queue A x s + count H s \<and>
      0 < s2_refs x \<and> (\<exists>p. d2_uproc d (s2_uproc x) = Some p)"
    using sess_okD [OF o(1) sess_view, of s x] by (auto simp: sess_entry_def on_queue_def)
  show E: "ev_refs v = rec_refs A e + count (image_mset snd C) e + (if e \<in> W then 1 else 0) \<and>
      0 < ev_refs v \<and> ev_rec_cnt v = ev_fin_cnt v + rec_refs A e \<and>
      (\<exists>p. d2_uproc d (ev_uproc v) = Some p \<and> e \<in> set (up_event_list p))" if "d2_evnt d e = Some v" for e v
    using evnts_okD [OF o(2) evnt_view [OF that]] by (auto simp: evnt_entry_def)
  show "up_refs p = card {s. \<exists>x. d2_sess d s = Some x \<and> s2_uproc x = u} \<and> 0 < up_refs p \<and>
      set (up_event_list p) = {e. \<exists>v. d2_evnt d e = Some v \<and> ev_uproc v = u}" if p: "d2_uproc d u = Some p"
  proof -
    have "sessions_of (map_option clean_s \<circ> d2_sess d) u = {s. \<exists>x. d2_sess d s = Some x \<and> s2_uproc x = u}"
      by (auto simp: sessions_of_def)
    moreover have "up_refs p = card (sessions_of (map_option clean_s \<circ> d2_sess d) u) \<and> 0 < up_refs p \<and>
      (\<forall>e. e \<in> set (up_event_list p) \<longrightarrow> (\<exists>v. d2_evnt d e = Some v \<and> ev_uproc v = u))"
    proof -
      have "\<forall>u q. (map_option clean_u \<circ> d2_uproc d) u = Some q \<longrightarrow> up_refs q = card (sessions_of (map_option clean_s \<circ> d2_sess d) u) \<and>
        0 < up_refs q \<and> (\<forall>e. e \<in> set (up_event_list q) \<longrightarrow> (\<exists>v. (map_option clean_e \<circ> d2_evnt d) e = Some v \<and> ev_uproc v = u))"
        using o(3) unfolding uprocs_ok_def by blast
      from this [rule_format, OF uproc_view [OF p]] show ?thesis by auto
    qed
    moreover have "e \<in> set (up_event_list p)" if "d2_evnt d e = Some v" "ev_uproc v = u" for e v
      using E [OF that(1)] that(2) p by simp
    ultimately have f: "up_refs p = card {s. \<exists>x. d2_sess d s = Some x \<and> s2_uproc x = u}" "0 < up_refs p"
      "\<And>e. e \<in> set (up_event_list p) \<longleftrightarrow> (\<exists>v. d2_evnt d e = Some v \<and> ev_uproc v = u)" by (simp_all, blast)
    from f(3) have "set (up_event_list p) = {e. \<exists>v. d2_evnt d e = Some v \<and> ev_uproc v = u}" by auto
    with f(1,2) show ?thesis by simp
  qed
qed

lemma count_calls: "count (image_mset snd (image_mset call_refs M)) e = size {#c \<in># M. snd (call_refs c) = e#}"
  by (induction M) auto

section \<open>Accounting\<close>



lemma demo3_dev_parts:
  "d2_sess demo3_dev 10 = Some ((new_session2 0 20)\<lparr>s2_hwq := Some 0, s2_unfinished_cnt := 1, s2_refs := 2\<rparr>)"
  "d2_hwq demo3_dev ! 0 = (hwq_init_one 0xfff 0)\<lparr>hq_session_list := [10], hq_session_cnt := 1, hq_evnt_seq := 1,
       hq_cnt_all := 1, hq_pt_list := [], hq_rt_list := [demo_record], hq_cnt_running := 1\<rparr>"
  "y2_dev demo3 = demo3_dev" "y2_hw demo3 0 = [demo_record]" "y2_open demo3 = {#10#}" "y2_calls demo3 = {#}"
  "d2_evnt demo3_dev = [30 \<mapsto> demo_event\<lparr>ev_rec_cnt := 1, ev_refs := 2, ev_rec := Some (0, 1)\<rparr>]"
  by (simp_all add: demo3_dev_def demo3_def demo_hwqs_nth KL2_HWQ_CNT_def demo_dev)


section \<open>No operation fails\<close>



section \<open>The hardware queues\<close>

text \<open>C20: In every reachable state, recoveries included, the hardware holds exactly the running list of
  each queue in order, never more than its depth, and both counters of the queue are exact.\<close>
theorem kl2_hw_exact:
  assumes "kl2_reachable hwq_bits y" and "i < KL2_HWQ_CNT"
  defines "q \<equiv> d2_hwq (y2_dev y) ! i"
  shows "y2_hw y i = hq_rt_list q \<and> length (y2_hw y i) \<le> KL2_HWQ_DEPTH \<and>
    hq_cnt_running q = length (hq_rt_list q) \<and> hq_cnt_all q = length (hq_pt_list q @ hq_rt_list q)"
  using dev_okD(2) [OF reach_dev_ok [OF assms(1)]] assms(2) by (simp add: q_def shape_def queue_shape_def)

theorem kl2_hw_exact_witness: "y2_hw demo3 0 = [demo_record] \<and> y2_hw demo3 0 = hq_rt_list (d2_hwq demo3_dev ! 0)"
  using kl2_hw_exact [OF demo3_reachable, of 0] by (simp add: demo3_dev_parts KL2_HWQ_CNT_def)

text \<open>C21: A completion interrupt that reports \<open>cnt\<close> tasks moves exactly the first \<open>cnt\<close> tasks of the
  hardware queue, at most all of them, to the end of the finished list in order, keeps the rest, and
  fills the queue from the pending list; no other queue changes.\<close>
theorem kl2_completion_fifo:
  assumes "kl2_reachable hwq_bits y" and "i < KL2_HWQ_CNT" and "cnt \<noteq> 0"
  defines "q \<equiv> d2_hwq (y2_dev y) ! i"
  shows "\<exists>d' w. kl2_handle_hwq_intr (y2_dev y) i cnt = Some (d', w) \<and>
    hq_ft_list (d2_hwq d' ! i) = hq_ft_list q @ take cnt (y2_hw y i) \<and>
    hq_rt_list (d2_hwq d' ! i) = drop cnt (y2_hw y i) @ w \<and> hq_pt_list q = w @ hq_pt_list (d2_hwq d' ! i) \<and>
    length (drop cnt (y2_hw y i) @ w) \<le> KL2_HWQ_DEPTH \<and> (\<forall>j. j \<noteq> i \<longrightarrow> d2_hwq d' ! j = d2_hwq (y2_dev y) ! j)"
proof -
  note ok = reach_dev_ok [OF assms(1)]
  have hw: "y2_hw y i = hq_rt_list q" using dev_okD(2) [OF ok] assms(2) by (simp add: q_def shape_def queue_shape_def)
  from intr_ok [OF ok assms(2), of cnt] obtain d' w where r: "kl2_handle_hwq_intr (y2_dev y) i cnt = Some (d', w)"
    and ok': "dev_ok d' ((y2_hw y)(i := drop cnt (y2_hw y i) @ w)) (y2_open y) (image_mset call_refs (y2_calls y)) (y2_owned y)"
    and f: "\<forall>j. j \<noteq> i \<longrightarrow> d2_hwq d' ! j = d2_hwq (y2_dev y) ! j"
      "hq_rt_list (d2_hwq d' ! i) @ hq_pt_list (d2_hwq d' ! i) = drop cnt (hq_rt_list q) @ hq_pt_list q"
      "hq_ft_list (d2_hwq d' ! i) = hq_ft_list q @ take cnt (hq_rt_list q)"
    using assms(3) by (auto simp: q_def)
  have s: "queue_shape i (d2_hwq d' ! i) (drop cnt (y2_hw y i) @ w)"
    using dev_okD(2) [OF ok'] assms(2) by (auto simp: shape_def)
  then have "hq_rt_list (d2_hwq d' ! i) = drop cnt (y2_hw y i) @ w" "length (drop cnt (y2_hw y i) @ w) \<le> KL2_HWQ_DEPTH"
    by (simp_all add: queue_shape_def)
  then show ?thesis using r f hw by (intro exI [of _ d'] exI [of _ w]) simp
qed

theorem kl2_completion_fifo_witness:
  "\<exists>d' w. kl2_handle_hwq_intr demo3_dev 0 40 = Some (d', w) \<and> hq_ft_list (d2_hwq d' ! 0) = [demo_record] \<and> hq_rt_list (d2_hwq d' ! 0) = w"
  using kl2_completion_fifo [OF demo3_reachable, of 0 40] by (auto simp: demo3_dev_parts KL2_HWQ_CNT_def hwq_init_one_def)

section \<open>The queues cannot block each other\<close>

text \<open>C19: In every reachable state in which some queue has tasks, the first task of some queue is not a
  wait for a record that is still queued: the hardware can always go on. Waits name records by queue
  and sequence number, and the numbers of the records of a queue increase strictly along it.\<close>
theorem kl2_no_deadlock:
  assumes "kl2_reachable hwq_bits y" and "j < KL2_HWQ_CNT" and "hq_rt_list (d2_hwq (y2_dev y) ! j) @ hq_pt_list (d2_hwq (y2_dev y) ! j) \<noteq> []"
  defines "T \<equiv> \<lambda>i. hq_rt_list (d2_hwq (y2_dev y) ! i) @ hq_pt_list (d2_hwq (y2_dev y) ! i)"
  shows "\<exists>i < KL2_HWQ_CNT. T i \<noteq> [] \<and> \<not> (tk_type (hd (T i)) = KL2_TASKTYPE_EVNTWAIT \<and>
      (\<exists>r \<in> set (T (tk_wait_vstream_id (hd (T i)))). tk_type r = KL2_TASKTYPE_EVNTREC \<and>
         tk_record_seq r \<le> tk_record_seq (hd (T i))))"
proof -
  have T: "T_of (y2_dev y) = T" by (simp add: T_of_def tasks_of_def T_def fun_eq_iff)
  have "order_ok T (Q_of (y2_dev y)) (recs (y2_dev y) \<union> call_recs (y2_calls y)) (y2_next y)"
    using kl2_reachable_order [OF assms(1)] by (simp add: sys2_order_def T)
  moreover have "T j \<noteq> []" using assms(3) by (simp add: T_def)
  ultimately show ?thesis using head_free assms(2) by (simp add: blocked_def is_wait_def is_record_def)
qed

theorem kl2_no_deadlock_witness:
  "\<exists>i < KL2_HWQ_CNT. hq_rt_list (d2_hwq demo3_dev ! i) @ hq_pt_list (d2_hwq demo3_dev ! i) \<noteq> []"
  using kl2_no_deadlock [OF demo3_reachable, of 0] by (auto simp: demo3_dev_parts KL2_HWQ_CNT_def)


section \<open>Recovery\<close>

text \<open>C22: In every reachable state, resetting a queue after an exception blames the session of the task
  the hardware reported, throws out exactly the tasks of sessions in error, running and pending, in
  order, marks the events of their records, keeps all other tasks in order, and leaves the hardware
  holding exactly the new running list. No other queue changes, and the board of the queue is clear.\<close>
theorem kl2_reset_exact:
  assumes "kl2_reachable hwq_bits y" and "i < KL2_HWQ_CNT"
  defines "q \<equiv> d2_hwq (y2_dev y) ! i"
  shows "\<exists>d' ops. reset_queue (y2_dev y) i = Some (d', ops) \<and>
    apply_hw (y2_hw y) ops = (y2_hw y)(i := hq_rt_list (d2_hwq d' ! i)) \<and>
    (let q' = d2_hwq d' ! i; err = \<lambda>t. s2_state (the (d2_sess d' (tk_sess t))) \<noteq> KL2_SESS_NORMAL; all = hq_rt_list q @ hq_pt_list q in
       d2_sess d' = blamed (y2_dev y) i \<and>
       hq_rt_list q' @ hq_pt_list q' = filter (\<lambda>t. \<not> err t) all \<and>
       hq_exception_list q' = hq_exception_list q @ filter err all \<and> hq_finish_work q' \<and>
       (\<forall>t \<in> set (filter err all). tk_type t = KL2_TASKTYPE_EVNTREC \<longrightarrow>
          ev_state (the (d2_evnt d' (the (tk_evnt t)))) = KL2_EVNT_REVOKED)) \<and>
    (\<forall>j. j \<noteq> i \<longrightarrow> d2_hwq d' ! j = d2_hwq (y2_dev y) ! j) \<and>
    d2_board d' ! i = \<lparr>eb_token = 0, eb_excp_cnt = 0, eb_taint_cnt = 0, eb_taint_2_reset_cnt = 0\<rparr>"
proof -
  note ok = reach_dev_ok [OF assms(1)]
  from reset_queue_ok [OF ok assms(2)] obtain d' where r: "reset_queue (y2_dev y) i = Some (d', HwReset i # map (HwWrite i) (hq_rt_list (d2_hwq d' ! i)))"
    and ok': "dev_ok d' ((y2_hw y)(i := hq_rt_list (d2_hwq d' ! i))) (y2_open y) (image_mset call_refs (y2_calls y)) (y2_owned y)"
    and s: "reset_spec (y2_dev y) i d'" by blast
  let ?err = "\<lambda>t. s2_state (the (d2_sess d' (tk_sess t))) \<noteq> KL2_SESS_NORMAL"
  let ?all = "hq_rt_list q @ hq_pt_list q"
  have k: "keeps (d2_sess d') t \<longleftrightarrow> \<not> ?err t" if t: "t \<in> set ?all" for t
  proof -
    have "\<exists>x. d2_sess (y2_dev y) (tk_sess t) = Some x"
      using queue_tasks_live [OF dev_okD(1) [OF ok] assms(2)] t by (auto simp: q_def)
    moreover have "d2_sess d' = blamed (y2_dev y) i" using s by (simp add: reset_spec_def Let_def)
    ultimately have "\<exists>x. d2_sess d' (tk_sess t) = Some x" by (auto simp: blamed_def split: option.splits)
    then show ?thesis by (auto simp: keeps_def)
  qed
  have f: "filter (keeps (d2_sess d')) ?all = filter (\<lambda>t. \<not> ?err t) ?all" "filter (\<lambda>t. \<not> keeps (d2_sess d') t) ?all = filter ?err ?all"
    by (rule filter_cong [OF refl]; use k in blast)+
  have m: "\<forall>t \<in> set (filter ?err ?all). tk_type t = KL2_TASKTYPE_EVNTREC \<longrightarrow>
          ev_state (the (d2_evnt d' (the (tk_evnt t)))) = KL2_EVNT_REVOKED"
  proof (intro ballI impI)
    fix t assume t: "t \<in> set (filter ?err ?all)" and r: "tk_type t = KL2_TASKTYPE_EVNTREC"
    then have "t \<in> set ?all" "\<not> keeps (d2_sess d') t" using k by auto
    with s r have "\<exists>v. d2_evnt d' (the (tk_evnt t)) = Some v \<and> ev_state v = KL2_EVNT_REVOKED"
      unfolding reset_spec_def Let_def q_def [symmetric] by blast
    then show "ev_state (the (d2_evnt d' (the (tk_evnt t)))) = KL2_EVNT_REVOKED" by auto
  qed
  show ?thesis
    using r s m f unfolding reset_spec_def Let_def q_def [symmetric] board_zero_def
    by (intro exI [of _ d'] exI [of _ "HwReset i # map (HwWrite i) (hq_rt_list (d2_hwq d' ! i))"]) (simp only: apply_hw_reset, blast)
qed

theorem kl2_reset_exact_witness:
  "\<exists>d' ops. reset_queue demo3_dev 0 = Some (d', ops) \<and> apply_hw (y2_hw demo3) ops 0 = hq_rt_list (d2_hwq d' ! 0)"
  using kl2_reset_exact [OF demo3_reachable, of 0] by (auto simp: demo3_dev_parts(3) KL2_HWQ_CNT_def)

section \<open>Requests on events\<close>

text \<open>C23: A record request and a stream-wait request that succeed are runs of the step relation: the
  device they leave, the tasks they write to the hardware and the queue they use are those of the
  sequence of their critical sections, so everything shown of reachable states holds of them.\<close>
theorem kl2_request_refines:
  assumes "kl2_reachable hwq_bits y" and "s \<in># y2_open y" and "room (y2_dev y)"
    and "ioctl_event_record (y2_dev y) s (Some k) (Some (y2_next y)) = Some (None, d', w) \<or>
      ioctl_event_stream_wait (y2_dev y) s (Some k) (Some (y2_next y)) = Some (None, d', w)"
  shows "\<exists>i < KL2_HWQ_CNT. rtranclp kl2_step y (y\<lparr>y2_dev := d', y2_hw := (y2_hw y)(i := y2_hw y i @ w), y2_next := y2_next y + 1\<rparr>)"
  using assms(4) record_run [OF kl2_reachable_ok [OF assms(1)] assms(2,3)] wait_run [OF kl2_reachable_ok [OF assms(1)] assms(2,3)] by blast

theorem kl2_request_refines_witness:
  "\<exists>i < KL2_HWQ_CNT. rtranclp kl2_step demo2
     (demo2\<lparr>y2_dev := demo3_dev, y2_hw := (y2_hw demo2)(i := y2_hw demo2 i @ [demo_record]), y2_next := y2_next demo2 + 1\<rparr>)"
  by (rule kl2_request_refines [OF demo2_reachable _ demo_room, of 10 0]) (use demo_record_runs in \<open>simp_all add: demo_dev\<close>)

text \<open>Polling an event reports the end of the recorded work, with the error number of the session,
  exactly when no record of the event is pending, running, thrown out or being ended on any queue;
  until then it goes on or reports an error.\<close>
theorem kl2_event_wait_sound:
  assumes "kl2_reachable hwq_bits y" and v: "d2_evnt (y2_dev y) e = Some v" and "d2_sess (y2_dev y) s = Some x" and "s2_errno x = None"
  shows "wait_evnt_poll x v time_up signal = Some None \<longleftrightarrow>
    (\<forall>i < KL2_HWQ_CNT. \<forall>t. t \<in># busy_of (d2_hwq (y2_dev y) ! i) + done_of (d2_hwq (y2_dev y) ! i) \<longrightarrow>
       \<not> (tk_type t = KL2_TASKTYPE_EVNTREC \<and> tk_evnt t = Some e))"
    (is "_ \<longleftrightarrow> ?none")
proof -
  let ?A = "all_tasks (\<lambda>i. busy_of (d2_hwq (y2_dev y) ! i)) (\<lambda>i. done_of (d2_hwq (y2_dev y) ! i))"
  have c: "ev_rec_cnt v = ev_fin_cnt v + rec_refs ?A e"
    using own_parts(2) [OF dev_okD(1) [OF reach_dev_ok [OF assms(1)]] v] by blast
  have z: "rec_refs ?A e = 0 \<longleftrightarrow> ?none"
  proof
    assume "rec_refs ?A e = 0"
    then show ?none using rec_refs_pos [of _ _ ?A e] by (fastforce simp: all_tasks_def is_rec_def)
  next
    assume ?none
    then show "rec_refs ?A e = 0" by (intro rec_refs_zeroI) (auto simp: all_tasks_def is_rec_def)
  qed
  have "wait_evnt_poll x v time_up signal = Some None \<longleftrightarrow> rec_refs ?A e = 0"
    using c assms(4) by (auto simp: wait_evnt_poll_def)
  with z show ?thesis by simp
qed

theorem kl2_event_wait_sound_witness:
  "wait_evnt_poll ((new_session2 0 20)\<lparr>s2_hwq := Some 0, s2_unfinished_cnt := 1, s2_refs := 2\<rparr>)
     (demo_event\<lparr>ev_rec_cnt := 1, ev_refs := 2, ev_rec := Some (0, 1)\<rparr>) False False \<noteq> Some None"
proof -
  let ?v = "demo_event\<lparr>ev_rec_cnt := 1, ev_refs := 2, ev_rec := Some (0, 1)\<rparr>"
  have v: "d2_evnt (y2_dev demo3) 30 = Some ?v" by (simp add: demo3_dev_parts)
  have t: "demo_record \<in># busy_of (d2_hwq (y2_dev demo3) ! 0) + done_of (d2_hwq (y2_dev demo3) ! 0)"
    by (simp add: demo3_dev_parts busy_of_def)
  have r: "tk_type demo_record = KL2_TASKTYPE_EVNTREC" "tk_evnt demo_record = Some 30" by (simp_all add: demo_record_def event_task_def)
  have e: "s2_errno ((new_session2 0 20)\<lparr>s2_hwq := Some 0, s2_unfinished_cnt := 1, s2_refs := 2\<rparr>) = None" by (simp add: new_session2_def)
  have i: "0 < KL2_HWQ_CNT" by (simp add: KL2_HWQ_CNT_def)
  show ?thesis
    unfolding kl2_event_wait_sound [OF demo3_reachable v demo3_dev_parts(1) [folded demo3_dev_parts(3)] e] using t r i by blast
qed


section \<open>Closing a session\<close>

lemma evnt_put_rest: "evnt_put d e = Some d' \<Longrightarrow> d2_sess d' = d2_sess d \<and> d2_mm_calls d' = d2_mm_calls d"
  by (auto simp: evnt_put_def bind_eq_Some_conv kl2_destroy_event_ref_def upd_uproc_def upd_evnt_def split: if_splits)

lemma destroy_list_rest: "kl2_destroy_uproc_event_list d es = Some d' \<Longrightarrow> d2_sess d' = d2_sess d \<and> d2_mm_calls d' = d2_mm_calls d"
  by (induction es arbitrary: d) (auto simp: bind_eq_Some_conv dest!: evnt_put_rest)

lemma uproc_put_rest: "uproc_put d u = Some d' \<Longrightarrow> d2_sess d' = d2_sess d \<and> d2_mm_calls d' = d2_mm_calls d"
  by (auto simp: uproc_put_def bind_eq_Some_conv kl2_destroy_userprocess_ref_def upd_uproc_def split: if_splits
      dest!: destroy_list_rest)

lemma sess_put_last:
  assumes "d2_sess d s = Some x" "s2_refs x = 1" "sess_put d s = Some d'"
  shows "d2_sess d' = (d2_sess d)(s := None) \<and> d2_mm_calls d' = d2_mm_calls d @ [MmFreeByOwner s]"
proof -
  obtain dr d4 where d: "kl2_session_release_hwq_locked (d\<lparr>d2_session_idr := idr_remove (d2_session_idr d) (s2_id x)\<rparr>) s = Some dr"
    "uproc_put (dr\<lparr>d2_mm_calls := d2_mm_calls dr @ [MmFreeByOwner s]\<rparr>) (s2_uproc x) = Some d4"
    "d' = d4\<lparr>d2_sess := (d2_sess d4)(s := None)\<rparr>"
    using assms by (auto simp: sess_put_def kl2_destroy_session_ref_def bind_eq_Some_conv)
  have "d2_sess dr = d2_sess d \<and> d2_mm_calls dr = d2_mm_calls d"
    using d(1) assms(1) by (auto simp: kl2_session_release_hwq_locked_def upd_hwq_def split: option.splits)
  with uproc_put_rest [OF d(2)] d(3) show ?thesis by simp
qed

text \<open>In every reachable state, closing a session that nothing else refers to frees it, removes its
  identifier, takes it off its hardware queue and returns its device memory. When it was the last
  session of its process, the process is freed and so is every event it ever made and did not destroy.\<close>
theorem kl2_close_frees:
  assumes "kl2_reachable hwq_bits y" and s: "s \<in># y2_open y" and calls: "\<forall>c. c \<in># y2_calls y \<longrightarrow> fst (call_refs c) \<noteq> s"
    and x: "d2_sess (y2_dev y) s = Some x" "s2_refs x = 1"
  shows "\<exists>d'. kl2_release (y2_dev y) s = Some d' \<and> d2_sess d' = (d2_sess (y2_dev y))(s := None) \<and>
    idr_find (d2_session_idr d') (s2_id x) = None \<and> (\<forall>i < KL2_HWQ_CNT. s \<notin> set (hq_session_list (d2_hwq d' ! i))) \<and>
    d2_mm_calls d' = d2_mm_calls (y2_dev y) @ [MmFreeByOwner s] \<and>
    ((\<forall>s' x'. d2_sess (y2_dev y) s' = Some x' \<longrightarrow> s2_uproc x' = s2_uproc x \<longrightarrow> s' = s) \<longrightarrow>
      d2_uproc d' (s2_uproc x) = None \<and> (\<forall>e v. d2_evnt d' e = Some v \<longrightarrow> ev_uproc v \<noteq> s2_uproc x))"
proof -
  note ok = reach_dev_ok [OF assms(1)]
  have c: "(s, e) \<in># image_mset call_refs (y2_calls y) \<Longrightarrow> s \<in># y2_open y - {#s#}" for e
    using calls by (metis (no_types, lifting) fst_conv image_iff set_image_mset)
  have "\<exists>d'. sess_put (y2_dev y) s = Some d' \<and>
      dev_ok d' (y2_hw y) (y2_open y - {#s#}) (image_mset call_refs (y2_calls y)) (alive d' (y2_owned y))"
    by (rule sess_put_ok [OF ok s c])
  then obtain d' where r: "sess_put (y2_dev y) s = Some d'"
    and ok': "dev_ok d' (y2_hw y) (y2_open y - {#s#}) (image_mset call_refs (y2_calls y)) (alive d' (y2_owned y))" by blast
  from sess_put_last [OF x r] have f: "d2_sess d' = (d2_sess (y2_dev y))(s := None)"
    "d2_mm_calls d' = d2_mm_calls (y2_dev y) @ [MmFreeByOwner s]" by simp_all
  have i1: "idr_ok (d2_session_idr (y2_dev y)) (d2_sess (y2_dev y)) s2_id" and i2: "idr_ok (d2_session_idr d') (d2_sess d') s2_id"
    using dev_okD(3) [OF ok] dev_okD(3) [OF ok'] by (simp_all add: tables_def)
  have idr: "idr_find (d2_session_idr d') (s2_id x) = None"
  proof (rule ccontr)
    assume "idr_find (d2_session_idr d') (s2_id x) \<noteq> None"
    then obtain p z where z: "d2_sess d' p = Some z" "s2_id z = s2_id x" using idr_find_iff [OF i2] by auto
    then have "d2_sess (y2_dev y) p = Some z" "p \<noteq> s" using f by (auto split: if_splits)
    then show False using idr_find_iff [OF i1, of "s2_id x"] z(2) x(1) by (metis option.inject)
  qed
  have q: "\<forall>i < KL2_HWQ_CNT. s \<notin> set (hq_session_list (d2_hwq d' ! i))"
    using dev_okD(4) [OF ok'] f(1) by (auto simp: binding_def bound_to_def Let_def)
  have gone: "d2_uproc d' (s2_uproc x) = None \<and> (\<forall>e v. d2_evnt d' e = Some v \<longrightarrow> ev_uproc v \<noteq> s2_uproc x)"
    if o: "\<forall>s' x'. d2_sess (y2_dev y) s' = Some x' \<longrightarrow> s2_uproc x' = s2_uproc x \<longrightarrow> s' = s"
  proof -
    note P = own_parts [OF dev_okD(1) [OF ok']]
    have "{s. \<exists>z. d2_sess d' s = Some z \<and> s2_uproc z = s2_uproc x} = {}" using o f(1) by (auto split: if_splits)
    then have c: "card {s. \<exists>z. d2_sess d' s = Some z \<and> s2_uproc z = s2_uproc x} = 0" by (simp only: card.empty)
    have u: "d2_uproc d' (s2_uproc x) = None"
    proof (rule ccontr)
      assume "d2_uproc d' (s2_uproc x) \<noteq> None"
      then obtain p where "d2_uproc d' (s2_uproc x) = Some p" by blast
      from P(3) [OF this] show False unfolding c by linarith
    qed
    then show ?thesis using P(2) by fastforce
  qed
  show ?thesis using r f idr q gone by (intro exI [of _ d']) (simp add: kl2_release_def)
qed

theorem kl2_close_frees_witness:
  "\<exists>d'. kl2_release (y2_dev demo2) 10 = Some d' \<and> d2_sess d' 10 = None \<and> d2_uproc d' 20 = None \<and>
     \<not> (\<exists>e v. d2_evnt d' e = Some v \<and> ev_uproc v = 20)"
  using kl2_close_frees [OF demo2_reachable, of 10 "new_session2 0 20"]
  by (auto simp: demo_dev new_session2_def split: if_splits)

section \<open>Choosing a queue\<close>

lemma bind_scan_least:
  assumes "\<forall>q\<in>set qs. 0 \<le> hq_session_cnt q \<and> hq_session_cnt q < 2 ^ 32"
  shows "let r = bind_scan qs bm k least best in
    (r = best \<and> (\<forall>j < length qs. \<not> bit bm (k + j) \<longrightarrow> least \<le> hq_session_cnt (qs ! j))) \<or>
    (k \<le> r \<and> r < k + length qs \<and> \<not> bit bm r \<and> hq_session_cnt (qs ! (r - k)) < least \<and>
      (\<forall>j < length qs. \<not> bit bm (k + j) \<longrightarrow> hq_session_cnt (qs ! (r - k)) \<le> hq_session_cnt (qs ! j)))"
  using assms
proof (induction qs bm k least best rule: bind_scan.induct)
  case (2 q qs bm k least best)
  have m: "hq_session_cnt q mod 2 ^ 32 = hq_session_cnt q" using "2.prems" by simp
  have all: "(\<forall>j < length (q # qs). P j) \<longleftrightarrow> P 0 \<and> (\<forall>j < length qs. P (Suc j))" for P
    using less_Suc_eq_0_disj by auto
  let ?r = "bind_scan (q # qs) bm k least best"
  show ?case
  proof (cases "bit bm k")
    case True
    from "2.IH"(1) [OF True] "2.prems" True show ?thesis
      by (auto simp: Let_def all nth_Cons' simp del: bind_scan.simps(1))
  next
    case b: False
    show ?thesis
    proof (cases "hq_session_cnt q < least")
      case True
      from "2.IH"(2) [OF b] m "2.prems" True b show ?thesis
        by (auto simp: Let_def all nth_Cons' simp del: bind_scan.simps(1))
    next
      case False
      from "2.IH"(3) [OF b] m "2.prems" False b show ?thesis
        by (auto simp: Let_def all nth_Cons' simp del: bind_scan.simps(1))
    qed
  qed
qed simp


text \<open>In every reachable state with an enabled queue, binding an unbound session chooses an enabled
  queue with the fewest sessions and appends the session to its list.\<close>
theorem kl2_bind_least:
  assumes "kl2_reachable hwq_bits y" and "s \<in># y2_open y" and x: "d2_sess (y2_dev y) s = Some x" "s2_hwq x = None"
    and enabled: "\<exists>j < KL2_HWQ_CNT. \<not> bit (d2_hwq_bitmap (y2_dev y)) j"
    and few: "\<forall>j < KL2_HWQ_CNT. length (hq_session_list (d2_hwq (y2_dev y) ! j)) < 2 ^ 32 - 1"
  shows "\<exists>d' i. kl2_session_bind_hwq (y2_dev y) s = Some d' \<and> i < KL2_HWQ_CNT \<and> \<not> bit (d2_hwq_bitmap (y2_dev y)) i \<and>
    d2_sess d' s = Some (x\<lparr>s2_hwq := Some i\<rparr>) \<and>
    hq_session_list (d2_hwq d' ! i) = hq_session_list (d2_hwq (y2_dev y) ! i) @ [s] \<and>
    (\<forall>j < KL2_HWQ_CNT. \<not> bit (d2_hwq_bitmap (y2_dev y)) j \<longrightarrow>
       length (hq_session_list (d2_hwq (y2_dev y) ! i)) \<le> length (hq_session_list (d2_hwq (y2_dev y) ! j)))"
proof -
  let ?d = "y2_dev y"
  note ok = reach_dev_ok [OF assms(1)]
  define i where "i = bind_scan (d2_hwq ?d) (d2_hwq_bitmap ?d) 0 (2 ^ 32 - 1) 0"
  have len: "length (d2_hwq ?d) = KL2_HWQ_CNT" using dev_okD(2) [OF ok] by (simp add: shape_def)
  have cnt: "hq_session_cnt (d2_hwq ?d ! j) = int (length (hq_session_list (d2_hwq ?d ! j)))" if "j < KL2_HWQ_CNT" for j
    using dev_okD(4) [OF ok] that by (simp add: binding_def Let_def)
  have lt: "hq_session_cnt (d2_hwq ?d ! j) < 2 ^ 32 - 1" "0 \<le> hq_session_cnt (d2_hwq ?d ! j)" if "j < KL2_HWQ_CNT" for j
    using cnt [OF that] few that by auto
  have "\<forall>q\<in>set (d2_hwq ?d). 0 \<le> hq_session_cnt q \<and> hq_session_cnt q < 2 ^ 32"
    using lt len by (fastforce simp: in_set_conv_nth)
  from bind_scan_least [OF this, of "d2_hwq_bitmap ?d" 0 "2 ^ 32 - 1" 0, folded i_def]
  have "(\<forall>j < KL2_HWQ_CNT. \<not> bit (d2_hwq_bitmap ?d) j \<longrightarrow> 2 ^ 32 - 1 \<le> hq_session_cnt (d2_hwq ?d ! j)) \<or>
    (i < KL2_HWQ_CNT \<and> \<not> bit (d2_hwq_bitmap ?d) i \<and>
      (\<forall>j < KL2_HWQ_CNT. \<not> bit (d2_hwq_bitmap ?d) j \<longrightarrow> hq_session_cnt (d2_hwq ?d ! i) \<le> hq_session_cnt (d2_hwq ?d ! j)))"
    by (auto simp: Let_def len)
  moreover have "\<not> (\<forall>j < KL2_HWQ_CNT. \<not> bit (d2_hwq_bitmap ?d) j \<longrightarrow> 2 ^ 32 - 1 \<le> hq_session_cnt (d2_hwq ?d ! j))"
    using enabled lt(1) by (meson not_le)
  ultimately have i: "i < KL2_HWQ_CNT" "\<not> bit (d2_hwq_bitmap ?d) i"
    "\<forall>j < KL2_HWQ_CNT. \<not> bit (d2_hwq_bitmap ?d) j \<longrightarrow> hq_session_cnt (d2_hwq ?d ! i) \<le> hq_session_cnt (d2_hwq ?d ! j)" by blast+
  let ?d' = "(upd_hwq ?d i (\<lambda>q. q\<lparr>hq_session_list := hq_session_list q @ [s], hq_session_cnt := hq_session_cnt q + 1\<rparr>))
      \<lparr>d2_sess := (d2_sess ?d)(s \<mapsto> x\<lparr>s2_hwq := Some i\<rparr>)\<rparr>"
  have r: "kl2_session_bind_hwq ?d s = Some ?d'"
    unfolding kl2_session_bind_hwq_def Let_def i_def [symmetric] using x by (simp add: upd_sess_def upd_hwq_def)
  have m: "\<forall>j < KL2_HWQ_CNT. \<not> bit (d2_hwq_bitmap ?d) j \<longrightarrow>
       length (hq_session_list (d2_hwq ?d ! i)) \<le> length (hq_session_list (d2_hwq ?d ! j))"
    using i(1,3) cnt by simp
  show ?thesis using r i m len by (intro exI [of _ ?d'] exI [of _ i]) (simp add: upd_hwq_def)
qed

theorem kl2_bind_least_witness:
  "\<exists>d' i. kl2_session_bind_hwq (y2_dev demo2) 10 = Some d' \<and> i < KL2_HWQ_CNT \<and> hq_session_list (d2_hwq d' ! i) = [10]"
proof -
  have "d2_sess (y2_dev demo2) 10 = Some (new_session2 0 20)" "s2_hwq (new_session2 0 20) = None" "10 \<in># y2_open demo2"
    "\<exists>j < KL2_HWQ_CNT. \<not> bit (d2_hwq_bitmap (y2_dev demo2)) j"
    by (auto simp: demo_dev new_session2_def KL2_HWQ_CNT_def intro: exI [of _ 0])
  moreover have q: "hq_session_list (d2_hwq (y2_dev demo2) ! j) = []" if "j < KL2_HWQ_CNT" for j
    using that by (simp add: demo_dev demo_hwqs_def hwq_init_one_def)
  ultimately show ?thesis using kl2_bind_least [OF demo2_reachable, of 10 "new_session2 0 20"] by fastforce
qed

section \<open>What the driver takes for granted\<close>

text \<open>C24: Destroying an event, an exception that throws out its last record, and destroying it again
  frees it while the record still refers to it: the second destroy succeeds because the exception has
  overwritten the mark of the first, and ending the record then reads the freed event.\<close>
theorem kl2_destroyed_twice:
  assumes e: "idr_find (d2_event_idr d) k = Some e" "d2_evnt d e = Some v" "ev_state v = KL2_EVNT_DESTROYED" "ev_refs v = 1"
    and s: "d2_sess d s = Some x" "ev_uproc v = s2_uproc x" "d2_uproc d (ev_uproc v) = Some p"
    and t: "tk_type t = KL2_TASKTYPE_EVNTREC" "tk_evnt t = Some e" "d2_sess d (tk_sess t) = Some z" "s2_state z \<noteq> KL2_SESS_NORMAL"
    and q: "i < length (d2_hwq d)" "hq_rt_list (d2_hwq d ! i) = [t]" "hq_pt_list (d2_hwq d ! i) = []"
      "hq_exception_list (d2_hwq d ! i) = []" "hq_ft_list (d2_hwq d ! i) = []"
  shows "ioctl_event_destroy d s (Some k) = Some (Some XPUERR_INVALID_PARAM, d) \<and>
    (\<exists>d1 d2 d3. revoke_task_from_err_session_locked d i = Some d1 \<and> ioctl_event_destroy d1 s (Some k) = Some (None, d2) \<and>
      d2_evnt d2 e = None \<and> finish_work_collect d2 i = Some d3 \<and> hq_free (d2_hwq d3 ! i) = [t] \<and> finish_work_one d3 i = None)"
proof -
  let ?q = "(d2_hwq d ! i)\<lparr>hq_rt_list := [], hq_pt_list := [], hq_exception_list := [t],
      hq_cnt_all := u32_sub (u32_sub (hq_cnt_all (d2_hwq d ! i)) 1) 0, hq_cnt_running := u32_sub (hq_cnt_running (d2_hwq d ! i)) 1\<rparr>"
  let ?d1 = "d\<lparr>d2_hwq := (d2_hwq d)[i := ?q], d2_evnt := (d2_evnt d)(e \<mapsto> v\<lparr>ev_state := KL2_EVNT_REVOKED\<rparr>)\<rparr>"
  have r1: "revoke_task_from_err_session_locked d i = Some ?d1"
    using e t q by (simp add: revoke_task_from_err_session_locked_def Let_def upd_hwq_def)
  let ?d2 = "?d1\<lparr>d2_uproc := (d2_uproc d)(ev_uproc v \<mapsto> p\<lparr>up_event_list := remove1 e (up_event_list p)\<rparr>),
      d2_event_idr := idr_remove (d2_event_idr d) (ev_id v), d2_evnt := (d2_evnt d)(e := None)\<rparr>"
  have r2: "ioctl_event_destroy ?d1 s (Some k) = Some (None, ?d2)"
    using e s by (simp add: ioctl_event_destroy_def upd_evnt_def evnt_put_def kl2_destroy_event_ref_def upd_uproc_def)
  obtain d3 where r3: "finish_work_collect ?d2 i = Some d3" "hq_free (d2_hwq d3 ! i) = [t]" "d2_evnt d3 e = None"
    "d2_sess d3 (tk_sess t) = Some (z\<lparr>s2_unfinished_cnt := s2_unfinished_cnt z - 1\<rparr>)"
    using q t by (simp add: finish_work_collect_def Let_def upd_hwq_def sub_unfinished2_def)
  have "finish_task d3 t = None" using r3 t by (simp add: finish_task_def upd_evnt_def)
  then have "finish_work_one d3 i = None" using r3(2) by (simp add: finish_work_one_def)
  moreover have "ioctl_event_destroy d s (Some k) = Some (Some XPUERR_INVALID_PARAM, d)"
    using e s by (simp add: ioctl_event_destroy_def)
  ultimately show ?thesis using r1 r2 r3 by fastforce
qed

text \<open>The small system after its event has been destroyed and an exception has blamed its session.\<close>

definition demo4_dev :: kl2_dev where
  "demo4_dev = demo3_dev\<lparr>
     d2_sess := [10 \<mapsto> kl2_session_mark_error ((new_session2 0 20)\<lparr>s2_hwq := Some 0, s2_unfinished_cnt := 1, s2_refs := 2\<rparr>) (Some XPUERR_KEXCEPTION) False],
     d2_evnt := [30 \<mapsto> demo_event\<lparr>ev_rec_cnt := 1, ev_refs := 1, ev_rec := Some (0, 1), ev_state := KL2_EVNT_DESTROYED\<rparr>]\<rparr>"

lemma demo4_from_demo3:
  "do { (r, d) \<leftarrow> ioctl_event_destroy demo3_dev 10 (Some 0);
        upd_sess d 10 (\<lambda>x. kl2_session_mark_error x (Some XPUERR_KEXCEPTION) False) } = Some demo4_dev"
  by (simp add: ioctl_event_destroy_def demo3_dev_def demo4_dev_def demo_dev idr_find_def demo_event_def new_session2_def
      upd_evnt_def evnt_put_def upd_sess_def)

theorem kl2_destroyed_twice_witness:
  "\<exists>d1 d2 d3. revoke_task_from_err_session_locked demo4_dev 0 = Some d1 \<and> ioctl_event_destroy d1 10 (Some 0) = Some (None, d2) \<and>
     finish_work_collect d2 0 = Some d3 \<and> finish_work_one d3 0 = None"
proof -
  let ?v = "demo_event\<lparr>ev_rec_cnt := 1, ev_refs := 1, ev_rec := Some (0, 1), ev_state := KL2_EVNT_DESTROYED\<rparr>"
  let ?x = "kl2_session_mark_error ((new_session2 0 20)\<lparr>s2_hwq := Some 0, s2_unfinished_cnt := 1, s2_refs := 2\<rparr>) (Some XPUERR_KEXCEPTION) False"
  have "idr_find (d2_event_idr demo4_dev) 0 = Some 30" "d2_evnt demo4_dev 30 = Some ?v" "ev_state ?v = KL2_EVNT_DESTROYED"
    "ev_refs ?v = 1" "d2_sess demo4_dev 10 = Some ?x" "ev_uproc ?v = s2_uproc ?x"
    "d2_uproc demo4_dev (ev_uproc ?v) = Some (demo_uproc\<lparr>up_event_list := [30]\<rparr>)"
    "tk_type demo_record = KL2_TASKTYPE_EVNTREC" "tk_evnt demo_record = Some 30" "d2_sess demo4_dev (tk_sess demo_record) = Some ?x"
    "s2_state ?x \<noteq> KL2_SESS_NORMAL" "0 < length (d2_hwq demo4_dev)" "hq_rt_list (d2_hwq demo4_dev ! 0) = [demo_record]"
    "hq_pt_list (d2_hwq demo4_dev ! 0) = []" "hq_exception_list (d2_hwq demo4_dev ! 0) = []" "hq_ft_list (d2_hwq demo4_dev ! 0) = []"
    by (simp_all add: demo4_dev_def demo3_dev_def demo_dev idr_find_def demo_event_def new_session2_def demo_record_def event_task_def
        demo_hwqs_nth KL2_HWQ_CNT_def hwq_init_one_def kl2_session_mark_error_def)
  from kl2_destroyed_twice [OF this] show ?thesis by blast
qed

text \<open>A request that names an event of another process takes a reference to it before it checks
  whose it is. When that process ends meanwhile, its own reference to the event is given back but the
  event stays, now with a freed process, and giving back the last reference reads the freed process.\<close>
theorem kl2_foreign_event:
  assumes e: "idr_find (d2_event_idr d) k = Some e" "d2_evnt d e = Some v" "ev_refs v = 1" "ev_uproc v = u"
    and s: "d2_sess d s = Some x" "s2_refs x = 1" "s2_uproc x = u" "s2_hwq x = None"
    and p: "d2_uproc d u = Some p" "up_refs p = 1" "up_event_list p = [e]"
  shows "\<exists>d1 d2. kl2_event_find_and_get d k = Some (Some e, d1) \<and> kl2_release d1 s = Some d2 \<and>
    d2_uproc d2 u = None \<and> d2_evnt d2 e \<noteq> None \<and> evnt_put d2 e = None"
proof -
  let ?v = "v\<lparr>ev_refs := ev_refs v + 1\<rparr>"
  let ?d1 = "d\<lparr>d2_evnt := (d2_evnt d)(e \<mapsto> ?v)\<rparr>"
  have g: "kl2_event_find_and_get d k = Some (Some e, ?d1)"
    using e by (simp add: kl2_event_find_and_get_def evnt_get_def upd_evnt_def)
  obtain d2 where r: "kl2_release ?d1 s = Some d2" "d2_uproc d2 u = None" "d2_evnt d2 e = Some v"
    using e s p by (simp add: kl2_release_def sess_put_def kl2_destroy_session_ref_def kl2_session_release_hwq_locked_def
        uproc_put_def kl2_destroy_userprocess_ref_def evnt_put_def upd_evnt_def Let_def)
  have "evnt_put d2 e = None" using r e(3,4) by (simp add: evnt_put_def kl2_destroy_event_ref_def upd_uproc_def)
  with g r show ?thesis by fastforce
qed

theorem kl2_foreign_event_witness:
  "\<exists>d1 d2. kl2_event_find_and_get (y2_dev demo2) 0 = Some (Some 30, d1) \<and> kl2_release d1 10 = Some d2 \<and> evnt_put d2 30 = None"
proof -
  have "\<exists>d1 d2. kl2_event_find_and_get (y2_dev demo2) 0 = Some (Some 30, d1) \<and> kl2_release d1 10 = Some d2 \<and>
    d2_uproc d2 20 = None \<and> d2_evnt d2 30 \<noteq> None \<and> evnt_put d2 30 = None"
    by (rule kl2_foreign_event [where v = demo_event and x = "new_session2 0 20" and p = "demo_uproc\<lparr>up_event_list := [30]\<rparr>"])
      (simp_all add: demo_dev idr_find_def demo_event_def new_session2_def demo_uproc_def)
  then show ?thesis by blast
qed

end
