(* ===== verification/Kl2_Alloc.thy ===== *)
theory Kl2_Alloc
  imports Kl_Cxpu_Props
begin

text \<open>
  Device memory of the processes that use a KL2 device: the requests for memory of \<^verbatim>\<open>kl2/ioctl.c\<close>,
  the counters that \<^verbatim>\<open>kl2/session.c\<close> keeps for a process and its instance, and the life of sessions
  and processes as far as memory is concerned. The memory manager is that of \<open>Kl_Mm\<close>, with sessions
  as owners; the instances are those of \<open>Kl_Cxpu\<close>.

  A session is known by its address, a process by its process id. Each section of \<^verbatim>\<open>ioctl_malloc\<close>
  that other threads can interleave with is one definition: the test of the limit and the charge,
  both under the lock of the process; the allocation with its callback; taking the charge back. A
  call of the memory manager is one step. A thread in a request keeps its session open.
\<close>

section \<open>State\<close>

record kl2_mem_uproc =
  mu_refs :: nat
  mu_locked :: bool
  mu_used :: "nat list"
  mu_instance :: "nat option"

record kl2_mem_dev =
  ad_mm :: "nat kl_mm"
  ad_cxpu :: kl_cxpu
  ad_uproc :: "nat \<Rightarrow> kl2_mem_uproc option"
  ad_sess :: "nat \<Rightarrow> nat option"

definition upd_mu :: "kl2_mem_dev \<Rightarrow> nat \<Rightarrow> (kl2_mem_uproc \<Rightarrow> kl2_mem_uproc) \<Rightarrow> kl2_mem_dev option" where
  "upd_mu d u f = map_option (\<lambda>p. d\<lparr>ad_uproc := (ad_uproc d)(u \<mapsto> f p)\<rparr>) (ad_uproc d u)"

section \<open>Counting pages\<close>

definition cb_pages :: "nat kl_mm_cb_call \<Rightarrow> nat" where
  "cb_pages c = u64_sub (u64 (cb_size c + cb_mem_page_size c)) 1 div 2 ^ cb_mem_page_bits c"

definition count_pages :: "(nat \<Rightarrow> nat) \<Rightarrow> kl2_mem_dev \<Rightarrow> nat \<Rightarrow> nat \<Rightarrow> kl2_mem_dev option" where
  "count_pages f d u kind = upd_mu d u (\<lambda>p. p\<lparr>mu_used := (mu_used p)[kind := f (mu_used p ! kind)]\<rparr>)"

definition kl2_mm_malloc_update_stat_cb :: "nat kl_mm_cb_call \<Rightarrow> kl2_mem_dev \<Rightarrow> kl2_mem_dev option" where
  "kl2_mm_malloc_update_stat_cb c d = do {
     u \<leftarrow> ad_sess d (cb_owner c);
     count_pages (\<lambda>n. u64 (n + cb_pages c)) d u (cb_mem_kind c)
   }"

definition kl2_mm_free_update_stat_cb :: "nat kl_mm_cb_call \<Rightarrow> kl2_mem_dev \<Rightarrow> kl2_mem_dev option" where
  "kl2_mm_free_update_stat_cb c d = do {
     u \<leftarrow> ad_sess d (cb_owner c);
     p \<leftarrow> ad_uproc d u;
     d1 \<leftarrow> count_pages (\<lambda>n. u64_sub n (cb_pages c)) d u (cb_mem_kind c);
     cx \<leftarrow> kl_cxpu_instance_sub_mem_used (ad_cxpu d1) (mu_instance p) (cb_mem_kind c) (cb_pages c);
     Some (d1\<lparr>ad_cxpu := cx\<rparr>)
   }"

text \<open>The manager calls back once for each allocation it makes or frees.\<close>

fun call_back :: "('c \<Rightarrow> kl2_mem_dev \<Rightarrow> kl2_mem_dev option) \<Rightarrow> 'c list \<Rightarrow> kl2_mem_dev \<Rightarrow> kl2_mem_dev option" where
  "call_back cb [] d = Some d"
| "call_back cb (c # cs) d = do { d1 \<leftarrow> cb c d; call_back cb cs d1 }"

section \<open>Requests for memory\<close>

text \<open>The region \<^verbatim>\<open>ioctl_malloc\<close> takes its page size from: its index.\<close>

definition malloc_region :: "kl2_mem_dev \<Rightarrow> nat \<Rightarrow> nat \<Rightarrow> (kl_err + nat \<times> nat)" where
  "malloc_region d sz args_kind =
     (case mk2md (ad_mm d) (if args_kind = XPU_MEM_MAIN_KL2_HUGE then XPU_MEM_MAIN else args_kind) of
        None \<Rightarrow> Inl XPUERR_INVALID_PARAM
      | Some mem \<Rightarrow> Inr (km_kind mem, malloc_pages_needed mem sz))"

definition session_instance :: "kl2_mem_dev \<Rightarrow> nat \<Rightarrow> (nat \<times> kl2_mem_uproc) option" where
  "session_instance d s = do { u \<leftarrow> ad_sess d s; p \<leftarrow> ad_uproc d u; Some (u, p) }"

text \<open>Testing the limit, which leaves the process locked when the request may go on.\<close>

definition malloc_test ::
    "kl2_mem_dev \<Rightarrow> nat \<Rightarrow> nat \<Rightarrow> nat \<Rightarrow> ((kl_err + nat \<times> nat) \<times> kl2_mem_dev) option" where
  "malloc_test d s sz args_kind = do {
     (u, p) \<leftarrow> session_instance d s;
     (case malloc_region d sz args_kind of
        Inl e \<Rightarrow> Some (Inl e, d)
      | Inr (kind, page_needed) \<Rightarrow> do {
          err_cg \<leftarrow> kl_cxpu_instance_check_mem_limit (ad_cxpu d) (mu_instance p) kind page_needed;
          (if err_cg \<noteq> None then Some (Inl XPUERR_NOMEM, d)
           else map_option (Pair (Inr (kind, page_needed))) (upd_mu d u (\<lambda>p. p\<lparr>mu_locked := True\<rparr>)))
        })
   }"

definition malloc_charge :: "kl2_mem_dev \<Rightarrow> nat \<Rightarrow> nat \<Rightarrow> nat \<Rightarrow> kl2_mem_dev option" where
  "malloc_charge d s kind page_needed = do {
     (u, p) \<leftarrow> session_instance d s;
     cx \<leftarrow> kl_cxpu_instance_add_mem_used (ad_cxpu d) (mu_instance p) kind page_needed;
     upd_mu (d\<lparr>ad_cxpu := cx\<rparr>) u (\<lambda>p. p\<lparr>mu_locked := False\<rparr>)
   }"

definition malloc_take ::
    "(bool list \<Rightarrow> nat \<Rightarrow> nat \<Rightarrow> nat \<Rightarrow> nat) \<Rightarrow> kl2_mem_dev \<Rightarrow> nat \<Rightarrow> nat \<Rightarrow> nat \<Rightarrow>
     ((kl_err + nat) \<times> kl2_mem_dev) option" where
  "malloc_take find_area d s sz args_kind = do {
     (r, mm, cbs) \<leftarrow> kl_mm_malloc find_area (ad_mm d) sz args_kind (Some s) True;
     d1 \<leftarrow> call_back kl2_mm_malloc_update_stat_cb cbs (d\<lparr>ad_mm := mm\<rparr>);
     Some (case r of Inl e \<Rightarrow> Inl e | Inr (addr, _) \<Rightarrow> Inr addr, d1)
   }"

definition malloc_undo :: "kl2_mem_dev \<Rightarrow> nat \<Rightarrow> nat \<Rightarrow> nat \<Rightarrow> kl2_mem_dev option" where
  "malloc_undo d s kind page_needed = do {
     (u, p) \<leftarrow> session_instance d s;
     cx \<leftarrow> kl_cxpu_instance_sub_mem_used (ad_cxpu d) (mu_instance p) kind page_needed;
     Some (d\<lparr>ad_cxpu := cx\<rparr>)
   }"

definition mem_free :: "kl2_mem_dev \<Rightarrow> nat \<Rightarrow> nat \<Rightarrow> (kl_status \<times> kl2_mem_dev) option" where
  "mem_free d s addr = do {
     (err, mm, cbs) \<leftarrow> kl_mm_free (ad_mm d) addr s True;
     d1 \<leftarrow> call_back kl2_mm_free_update_stat_cb cbs (d\<lparr>ad_mm := mm\<rparr>);
     Some (err, d1)
   }"

text \<open>
  The whole request with nothing in between, and with \<open>copy_out\<close> saying whether its result can be
  copied to the user.
\<close>

definition ioctl_malloc ::
    "(bool list \<Rightarrow> nat \<Rightarrow> nat \<Rightarrow> nat \<Rightarrow> nat) \<Rightarrow> kl2_mem_dev \<Rightarrow> nat \<Rightarrow> nat \<Rightarrow> nat \<Rightarrow> bool \<Rightarrow>
     ((kl_err + nat) \<times> kl2_mem_dev) option" where
  "ioctl_malloc find_area d s sz args_kind copy_out = do {
     (t, d1) \<leftarrow> malloc_test d s sz args_kind;
     (case t of
        Inl e \<Rightarrow> Some (Inl e, d1)
      | Inr (kind, page_needed) \<Rightarrow> do {
          d2 \<leftarrow> malloc_charge d1 s kind page_needed;
          (r, d3) \<leftarrow> malloc_take find_area d2 s sz args_kind;
          (case r of
             Inl e \<Rightarrow> map_option (Pair (Inl e)) (malloc_undo d3 s kind page_needed)
           | Inr addr \<Rightarrow>
               if copy_out then Some (Inr addr, d3)
               else do { (_, d4) \<leftarrow> mem_free d3 s addr; Some (Inl EFAULT, d4) })
        })
   }"

text \<open>
  \<^verbatim>\<open>ioctl_free\<close> also looks up the length of the allocation before it takes the lock, and does not
  use it.
\<close>

definition ioctl_free :: "kl2_mem_dev \<Rightarrow> nat \<Rightarrow> nat \<Rightarrow> (kl_status \<times> kl2_mem_dev) option" where
  "ioctl_free d s addr = mem_free d s addr"

text \<open>
  The parameters of a task: \<^verbatim>\<open>kl2_ioctl_launch\<close> allocates them and \<^verbatim>\<open>finish_task\<close>, or the launch when it
  fails, frees them, both without a callback.
\<close>

definition param_alloc ::
    "(bool list \<Rightarrow> nat \<Rightarrow> nat \<Rightarrow> nat \<Rightarrow> nat) \<Rightarrow> kl2_mem_dev \<Rightarrow> nat \<Rightarrow> nat \<Rightarrow>
     ((kl_err + nat) \<times> kl2_mem_dev) option" where
  "param_alloc find_area d s bytes = do {
     (r, mm, _) \<leftarrow> kl_mm_malloc find_area (ad_mm d) bytes XPU_MEM_PARAM (Some s) False;
     Some (case r of Inl e \<Rightarrow> Inl e | Inr (addr, _) \<Rightarrow> Inr addr, d\<lparr>ad_mm := mm\<rparr>)
   }"

definition param_free :: "kl2_mem_dev \<Rightarrow> nat \<Rightarrow> nat \<Rightarrow> kl2_mem_dev option" where
  "param_free d s addr = do {
     (_, mm, _) \<leftarrow> kl_mm_free (ad_mm d) addr s False;
     Some (d\<lparr>ad_mm := mm\<rparr>)
   }"

section \<open>Sessions and processes\<close>

text \<open>
  The parts of \<^verbatim>\<open>kl2_create_session\<close> and \<^verbatim>\<open>kl2_create_userprocess_locked\<close> that concern memory. The
  token is the control group of the caller.
\<close>

definition create_mem_uproc :: "kl2_mem_dev \<Rightarrow> nat \<Rightarrow> nat \<Rightarrow> kl2_mem_dev option" where
  "create_mem_uproc d u token = do {
     (ins, cx) \<leftarrow> kl_cxpu_get_instance_by_token_locked (ad_cxpu d) token;
     Some (d\<lparr>ad_cxpu := cx, ad_uproc := (ad_uproc d)(u \<mapsto>
       \<lparr>mu_refs = 1, mu_locked = False, mu_used = replicate XPU_MEM_COUNT 0, mu_instance = ins\<rparr>)\<rparr>)
   }"

definition open_session :: "kl2_mem_dev \<Rightarrow> nat \<Rightarrow> nat \<Rightarrow> nat \<Rightarrow> kl2_mem_dev option" where
  "open_session d s u token = do {
     d1 \<leftarrow> (if ad_uproc d u = None then create_mem_uproc d u token
            else upd_mu d u (\<lambda>p. p\<lparr>mu_refs := mu_refs p + 1\<rparr>));
     Some (d1\<lparr>ad_sess := (ad_sess d1)(s \<mapsto> u)\<rparr>)
   }"

definition destroy_mem_uproc :: "kl2_mem_dev \<Rightarrow> nat \<Rightarrow> kl2_mem_dev option" where
  "destroy_mem_uproc d u = do {
     p \<leftarrow> ad_uproc d u;
     cx \<leftarrow> kl_cxpu_put_instance_locked (ad_cxpu d) (mu_instance p);
     Some (d\<lparr>ad_cxpu := cx, ad_uproc := (ad_uproc d)(u := None)\<rparr>)
   }"

definition put_mem_uproc :: "kl2_mem_dev \<Rightarrow> nat \<Rightarrow> kl2_mem_dev option" where
  "put_mem_uproc d u = do {
     p \<leftarrow> ad_uproc d u;
     (if mu_refs p = 1 then destroy_mem_uproc d u else upd_mu d u (\<lambda>p. p\<lparr>mu_refs := mu_refs p - 1\<rparr>))
   }"

text \<open>The end of a session, \<^verbatim>\<open>kl2_destroy_session_ref\<close>: its memory is freed before its process is left.\<close>

definition close_session :: "kl2_mem_dev \<Rightarrow> nat \<Rightarrow> kl2_mem_dev option" where
  "close_session d s = do {
     (mm, cbs) \<leftarrow> kl_mm_free_by_owner (ad_mm d) s True;
     d1 \<leftarrow> call_back kl2_mm_free_update_stat_cb cbs (d\<lparr>ad_mm := mm\<rparr>);
     u \<leftarrow> ad_sess d1 s;
     d2 \<leftarrow> put_mem_uproc d1 u;
     Some (d2\<lparr>ad_sess := (ad_sess d2)(s := None)\<rparr>)
   }"

section \<open>Threads\<close>

text \<open>Where a thread stands in \<^verbatim>\<open>ioctl_malloc\<close>: the session, the request, what it has worked out.\<close>

datatype malloc_pc =
    Mp_idle
  | Mp_tested nat nat nat nat nat
  | Mp_charged nat nat nat nat nat
  | Mp_failed nat nat nat

record kl2_mem_state =
  ms_dev :: kl2_mem_dev
  ms_threads :: "malloc_pc list"

fun pc_session :: "malloc_pc \<Rightarrow> nat option" where
  "pc_session Mp_idle = None"
| "pc_session (Mp_tested s sz args_kind kind pages) = Some s"
| "pc_session (Mp_charged s sz args_kind kind pages) = Some s"
| "pc_session (Mp_failed s kind pages) = Some s"

text \<open>
  The steps. \<open>Op_test\<close> to \<open>Op_undo\<close> are a thread's sections of \<^verbatim>\<open>ioctl_malloc\<close>; a thread whose copy to
  the user fails goes on like one that frees at once. The calls for instances come from the control
  device; the address of a new instance is given.
\<close>

datatype mem_op =
    Op_test nat nat nat nat
  | Op_charge nat
  | Op_take nat
  | Op_undo nat
  | Op_free nat nat
  | Op_param_alloc nat nat
  | Op_param_free nat nat
  | Op_open nat nat nat
  | Op_close nat
  | Op_create nat nat string
  | Op_destroy string
  | Op_set_limit string nat nat

definition unlocked :: "kl2_mem_dev \<Rightarrow> nat \<Rightarrow> bool" where
  "unlocked d s =
     (case ad_sess d s of None \<Rightarrow> False
      | Some u \<Rightarrow> (case ad_uproc d u of None \<Rightarrow> False | Some p \<Rightarrow> \<not> mu_locked p))"

definition busy :: "kl2_mem_state \<Rightarrow> nat \<Rightarrow> bool" where
  "busy st s \<longleftrightarrow> Some s \<in> pc_session ` set (ms_threads st)"

text \<open>
  When a step can happen: the session it names is open, a thread is at the right place, and a step
  that takes the lock of a process finds it free. Sizes are those the memory manager handles without
  wrapping, and kinds those that have counters: huge allocations, which come from several regions,
  are left out, and so is kind -1, which the table of a physical function has for its empty region.
  What a task frees is an address in parameter memory, where the launch got it from.
\<close>

fun enabled :: "mem_op \<Rightarrow> kl2_mem_state \<Rightarrow> bool" where
  "enabled (Op_test t s sz args_kind) st \<longleftrightarrow>
     t < length (ms_threads st) \<and> ms_threads st ! t = Mp_idle \<and> unlocked (ms_dev st) s \<and>
     sz + 2 ^ 32 \<le> 2 ^ 64 \<and> args_kind < XPU_MEM_COUNT"
| "enabled (Op_charge t) st \<longleftrightarrow>
     t < length (ms_threads st) \<and> (case ms_threads st ! t of Mp_tested _ _ _ _ _ \<Rightarrow> True | _ \<Rightarrow> False)"
| "enabled (Op_take t) st \<longleftrightarrow>
     t < length (ms_threads st) \<and>
     (case ms_threads st ! t of Mp_charged s _ _ _ _ \<Rightarrow> unlocked (ms_dev st) s | _ \<Rightarrow> False)"
| "enabled (Op_undo t) st \<longleftrightarrow>
     t < length (ms_threads st) \<and> (case ms_threads st ! t of Mp_failed _ _ _ \<Rightarrow> True | _ \<Rightarrow> False)"
| "enabled (Op_free s addr) st \<longleftrightarrow> unlocked (ms_dev st) s"
| "enabled (Op_param_alloc s bytes) st \<longleftrightarrow> ad_sess (ms_dev st) s \<noteq> None \<and> bytes + 2 ^ 32 \<le> 2 ^ 64"
| "enabled (Op_param_free s addr) st \<longleftrightarrow>
     ad_sess (ms_dev st) s \<noteq> None \<and>
     (case find_memory_by_addr (ad_mm (ms_dev st)) addr of None \<Rightarrow> False
      | Some i \<Rightarrow> km_kind (mm_mem (ad_mm (ms_dev st)) ! i) = XPU_MEM_PARAM)"
| "enabled (Op_open s u token) st \<longleftrightarrow> ad_sess (ms_dev st) s = None"
| "enabled (Op_close s) st \<longleftrightarrow> unlocked (ms_dev st) s \<and> \<not> busy st s"
| "enabled (Op_create a token iid) st \<longleftrightarrow> cx_store (ad_cxpu (ms_dev st)) a = None"
| "enabled (Op_destroy iid) st \<longleftrightarrow> True"
| "enabled (Op_set_limit iid kind bytes) st \<longleftrightarrow> True"

definition set_pc :: "nat \<Rightarrow> malloc_pc \<Rightarrow> kl2_mem_state \<Rightarrow> kl2_mem_dev \<Rightarrow> kl2_mem_state" where
  "set_pc t pc st d = \<lparr>ms_dev = d, ms_threads = (ms_threads st)[t := pc]\<rparr>"

fun exec :: "(bool list \<Rightarrow> nat \<Rightarrow> nat \<Rightarrow> nat \<Rightarrow> nat) \<Rightarrow> mem_op \<Rightarrow> kl2_mem_state \<Rightarrow> kl2_mem_state option" where
  "exec find_area (Op_test t s sz args_kind) st = do {
     (r, d) \<leftarrow> malloc_test (ms_dev st) s sz args_kind;
     Some (case r of Inl _ \<Rightarrow> set_pc t Mp_idle st d
           | Inr (kind, pages) \<Rightarrow> set_pc t (Mp_tested s sz args_kind kind pages) st d)
   }"
| "exec find_area (Op_charge t) st =
     (case ms_threads st ! t of
        Mp_tested s sz args_kind kind pages \<Rightarrow>
          map_option (set_pc t (Mp_charged s sz args_kind kind pages) st) (malloc_charge (ms_dev st) s kind pages)
      | _ \<Rightarrow> None)"
| "exec find_area (Op_take t) st =
     (case ms_threads st ! t of
        Mp_charged s sz args_kind kind pages \<Rightarrow> do {
          (r, d) \<leftarrow> malloc_take find_area (ms_dev st) s sz args_kind;
          Some (case r of Inl _ \<Rightarrow> set_pc t (Mp_failed s kind pages) st d | Inr _ \<Rightarrow> set_pc t Mp_idle st d)
        }
      | _ \<Rightarrow> None)"
| "exec find_area (Op_undo t) st =
     (case ms_threads st ! t of
        Mp_failed s kind pages \<Rightarrow> map_option (set_pc t Mp_idle st) (malloc_undo (ms_dev st) s kind pages)
      | _ \<Rightarrow> None)"
| "exec find_area (Op_free s addr) st = do {
     (_, d) \<leftarrow> ioctl_free (ms_dev st) s addr;
     Some (st\<lparr>ms_dev := d\<rparr>)
   }"
| "exec find_area (Op_param_alloc s bytes) st = do {
     (_, d) \<leftarrow> param_alloc find_area (ms_dev st) s bytes;
     Some (st\<lparr>ms_dev := d\<rparr>)
   }"
| "exec find_area (Op_param_free s addr) st =
     map_option (\<lambda>d. st\<lparr>ms_dev := d\<rparr>) (param_free (ms_dev st) s addr)"
| "exec find_area (Op_open s u token) st =
     map_option (\<lambda>d. st\<lparr>ms_dev := d\<rparr>) (open_session (ms_dev st) s u token)"
| "exec find_area (Op_close s) st = map_option (\<lambda>d. st\<lparr>ms_dev := d\<rparr>) (close_session (ms_dev st) s)"
| "exec find_area (Op_create a token iid) st = do {
     (_, cx) \<leftarrow> create_locked (ad_cxpu (ms_dev st)) (Some a) token iid;
     Some (st\<lparr>ms_dev := (ms_dev st)\<lparr>ad_cxpu := cx\<rparr>\<rparr>)
   }"
| "exec find_area (Op_destroy iid) st = do {
     (_, cx) \<leftarrow> kl_cxpu_destroy_instance (ad_cxpu (ms_dev st)) iid;
     Some (st\<lparr>ms_dev := (ms_dev st)\<lparr>ad_cxpu := cx\<rparr>\<rparr>)
   }"
| "exec find_area (Op_set_limit iid kind bytes) st = do {
     (_, cx) \<leftarrow> kl_cxpu_set_instance_mem_limit (ad_mm (ms_dev st)) (ad_cxpu (ms_dev st)) iid kind bytes;
     Some (st\<lparr>ms_dev := (ms_dev st)\<lparr>ad_cxpu := cx\<rparr>\<rparr>)
   }"

text \<open>The states that steps lead to; \<open>P\<close> restricts which steps are taken in a state.\<close>

inductive mem_reach ::
    "(bool list \<Rightarrow> nat \<Rightarrow> nat \<Rightarrow> nat \<Rightarrow> nat) \<Rightarrow> (mem_op \<Rightarrow> kl2_mem_state \<Rightarrow> bool) \<Rightarrow>
     kl2_mem_state \<Rightarrow> kl2_mem_state \<Rightarrow> bool"
  for find_area P st0
where
  mem_refl: "mem_reach find_area P st0 st0"
| mem_more: "mem_reach find_area P st0 st1 \<Longrightarrow> P op st1 \<Longrightarrow> enabled op st1 \<Longrightarrow> exec find_area op st1 = Some st2 \<Longrightarrow>
    mem_reach find_area P st0 st2"

text \<open>The device after it has been probed, with \<open>n\<close> threads to come.\<close>

definition mem_start :: "nat kl_mm \<Rightarrow> bool \<Rightarrow> nat \<Rightarrow> kl2_mem_state" where
  "mem_start mm ecc_on n =
     \<lparr>ms_dev = \<lparr>ad_mm = mm, ad_cxpu = kl_cxpu_init mm ecc_on, ad_uproc = Map.empty, ad_sess = Map.empty\<rparr>,
      ms_threads = replicate n Mp_idle\<rparr>"

end
