(* ===== verification/Kl2_Alloc_Pages.thy ===== *)
theory Kl2_Alloc_Pages
  imports Kl2_Alloc
begin

text \<open>
  Counting the pages of a manager by kind and by class of owner: how allocating, freeing one block and freeing
  all blocks of an owner change the count, and what the page counts in the callbacks come to.
\<close>

section \<open>Pages of a group of sessions\<close>

definition kind_pages :: "(nat \<Rightarrow> nat) \<Rightarrow> nat \<Rightarrow> nat \<Rightarrow> nat kl_mm \<Rightarrow> nat" where
  "kind_pages g c k mm =
     (\<Sum>m\<leftarrow>mm_mem mm. if km_kind m = k then owned g c (mem_blocks m) else 0)"

definition has_owner :: "nat kl_mm \<Rightarrow> nat \<Rightarrow> bool" where
  "has_owner mm w \<longleftrightarrow> (\<exists>m\<in>set (mm_mem mm). \<exists>q k. mem_blocks m q = Some (k, w))"

lemma owned_cong:
  assumes "\<And>q k w. bl q = Some (k, w) \<Longrightarrow> (g w = c) = (g' w = c')"
  shows "owned g c bl = owned g' c' bl"
  unfolding owned_def by (rule sum.cong) (use assms in fastforce)+

lemma kind_pages_cong:
  assumes "\<And>w. has_owner mm w \<Longrightarrow> (g w = c) = (g' w = c')"
  shows "kind_pages g c k mm = kind_pages g' c' k mm"
  unfolding kind_pages_def
proof (rule arg_cong [where f = sum_list], rule map_cong [OF refl])
  fix m assume "m \<in> set (mm_mem mm)"
  then have "owned g c (mem_blocks m) = owned g' c' (mem_blocks m)"
    by (intro owned_cong assms) (auto simp: has_owner_def)
  then show "(if km_kind m = k then owned g c (mem_blocks m) else 0) =
      (if km_kind m = k then owned g' c' (mem_blocks m) else 0)" by simp
qed

lemma kind_pages_none: "(\<And>w. has_owner mm w \<Longrightarrow> g w \<noteq> c) \<Longrightarrow> kind_pages g c k mm = 0"
proof -
  assume a: "\<And>w. has_owner mm w \<Longrightarrow> g w \<noteq> c"
  have "owned (\<lambda>_. 0) (Suc 0) bl = 0" for bl :: "nat \<rightharpoonup> nat \<times> nat" by (simp add: owned_def)
  then have "kind_pages (\<lambda>_. 0) (Suc 0) k mm = 0" by (simp add: kind_pages_def cong: if_cong)
  with kind_pages_cong [of mm g c "\<lambda>_. 0" "Suc 0" k] a show ?thesis by simp
qed

lemma kind_pages_set_mem:
  assumes i: "i < length (mm_mem mm)" and kd: "km_kind m' = km_kind (mm_mem mm ! i)"
  shows "kind_pages g c k (set_mem mm i m') + (if km_kind (mm_mem mm ! i) = k then owned g c (mem_blocks (mm_mem mm ! i)) else 0)
       = kind_pages g c k mm + (if km_kind (mm_mem mm ! i) = k then owned g c (mem_blocks m') else 0)"
  using sum_list_update_nat [of i "map (\<lambda>m. if km_kind m = k then owned g c (mem_blocks m) else 0) (mm_mem mm)"
      "if km_kind m' = k then owned g c (mem_blocks m') else 0"] i
  by (simp add: kind_pages_def set_mem_def map_update kd)

lemma wf_blocks_finite: "mem_wf m \<Longrightarrow> finite (dom (mem_blocks m))"
  by (rule blocks_finite [OF mem_wf_tables(1)])

lemma kind_pages_alloc:
  assumes wf: "mm_wf mm" and i: "i < length (mm_mem mm)"
    and al: "allocated (mm_mem mm ! i) pg s m' addr"
  shows "kind_pages g c k (set_mem mm i m') =
           kind_pages g c k mm + (if km_kind (mm_mem mm ! i) = k \<and> g s = c then pg else 0)"
proof -
  let ?m = "mm_mem mm ! i" and ?q = "addr_to_pageid (mm_mem mm ! i) addr"
  have m: "mem_wf ?m" using mm_wfD [OF wf i] by simp
  have al': "mem_blocks ?m ?q = None" "mem_blocks m' = (mem_blocks ?m)(?q \<mapsto> (pg, s))" "km_kind m' = km_kind ?m"
    using al by (auto simp: allocated_def same_region_def)
  have "owned g c (mem_blocks m') = owned g c (mem_blocks ?m) + (if g s = c then pg else 0)"
    using owned_new [OF wf_blocks_finite [OF m] al'(1), of g c pg s] al'(2) by simp
  then show ?thesis using kind_pages_set_mem [OF i al'(3), of g c k] by (auto split: if_splits)
qed

lemma kind_pages_release:
  assumes wf: "mm_wf mm" and i: "i < length (mm_mem mm)" and b: "mem_blocks (mm_mem mm ! i) q = Some (pg, s)"
  shows "kind_pages g c k (set_mem mm i (release_pages (mm_mem mm ! i) q pg)) +
           (if km_kind (mm_mem mm ! i) = k \<and> g s = c then pg else 0) = kind_pages g c k mm"
proof -
  let ?m = "mm_mem mm ! i" and ?m' = "release_pages (mm_mem mm ! i) q pg"
  have m: "mem_wf ?m" using mm_wfD [OF wf i] by simp
  have r: "mem_blocks ?m' = (mem_blocks ?m)(q := None)" by (rule release_pages_wf(2) [OF m b])
  have kd: "km_kind ?m' = km_kind ?m" by (simp add: release_pages_def)
  have "owned g c (mem_blocks ?m') + (if g s = c then pg else 0) = owned g c (mem_blocks ?m)"
    using owned_gone [OF wf_blocks_finite [OF m] b, of g c] r by simp
  then show ?thesis using kind_pages_set_mem [OF i kd, of g c k] by (auto split: if_splits)
qed

text \<open>The pages of the calls the manager makes when it frees.\<close>

definition calls_pages :: "nat \<Rightarrow> nat kl_mm_cb_call list \<Rightarrow> nat" where
  "calls_pages k cs = (\<Sum>c\<leftarrow>cs. if cb_mem_kind c = k then cb_pages c else 0)"

lemma cb_pages_call: "cb_pages (cb_call addr sz kind w m) = malloc_pages_needed m sz"
  by (simp add: cb_pages_def cb_call_def malloc_pages_needed_def)

lemma cb_kind_call: "cb_mem_kind (cb_call addr sz kind w m) = km_kind m"
  by (simp add: cb_call_def)

lemma owned_drop:
  assumes fin: "finite (dom bl)"
  shows "owned g c (drop_owner s bl) + (if g s = c then owned (\<lambda>w. if w = s then 1 else 0) 1 bl else 0) = owned g c bl"
proof -
  let ?d = "dom (drop_owner s bl)" and ?f = "\<lambda>p. if g (snd (the (bl p))) = c then fst (the (bl p)) else 0"
  have d: "?d = {p \<in> dom bl. snd (the (bl p)) \<noteq> s}" by (auto simp: drop_owner_def split: option.splits if_splits)
  have 1: "owned g c (drop_owner s bl) = (\<Sum>p\<in>?d. ?f p)"
    unfolding owned_def by (rule sum.cong) (auto simp: drop_owner_def split: option.splits if_splits)
  have 2: "(if g s = c then owned (\<lambda>w. if w = s then 1 else 0) 1 bl else 0) = (\<Sum>p\<in>dom bl - ?d. ?f p)"
  proof -
    have "(\<Sum>p\<in>dom bl - ?d. ?f p) = (\<Sum>p\<in>dom bl. if snd (the (bl p)) = s then ?f p else 0)"
      by (rule sum.mono_neutral_cong_left) (use fin d in auto)
    also have "\<dots> = (if g s = c then owned (\<lambda>w. if w = s then 1 else 0) 1 bl else 0)"
      unfolding owned_def by (auto intro!: sum.cong sum.neutral)
    finally show ?thesis by simp
  qed
  have "?d \<subseteq> dom bl" using d by auto
  from sum.subset_diff [OF this fin, of ?f] show ?thesis using 1 2 by (simp add: owned_def)
qed

lemma free_calls_pages:
  assumes m: "mem_wf m"
  shows "calls_pages k (free_calls m s 0) = (if km_kind m = k then owned (\<lambda>w. if w = s then 1 else 0) 1 (mem_blocks m) else 0)"
proof -
  let ?own = "{q. \<exists>n. mem_blocks m q = Some (n, s)}"
  have lt: "q < km_page_count m" if "mem_blocks m q = Some (n, w)" for q n w
    using blocks_range [OF mem_wf_tables(1) [OF m] that] by simp
  have pg: "cb_pages (cb_call (pageid_to_addr m q) (u64 (km_free_table m ! q * km_page_size m)) (km_kind m) s m)
      = fst (the (mem_blocks m q))" if q: "mem_blocks m q = Some (n, s)" for q n
  proof -
    from blocks_range [OF mem_wf_tables(1) [OF m] q] q have n: "0 < n" "n \<le> km_page_count m" "km_free_table m ! q = n"
      by (auto simp: blocks_iff)
    have "n * km_page_size m \<le> km_page_count m * km_page_size m" using n by simp
    also have "\<dots> \<le> km_limit m" using m by (simp add: mem_wf_def)
    also have "\<dots> < 2 ^ 64" using m by (simp add: mem_wf_def)
    finally have "n * km_page_size m < 2 ^ 64" .
    then have "u64 (n * km_page_size m) = n * km_page_size m" by (rule u64_id)
    then show ?thesis using malloc_pages_needed_whole [OF m n(1,2)] n q by (simp add: cb_pages_call)
  qed
  have "calls_pages k (free_calls m s 0) = (\<Sum>q\<leftarrow>owned_pages m s 0. if km_kind m = k then fst (the (mem_blocks m q)) else 0)"
    unfolding calls_pages_def free_calls_def map_map
    by (rule arg_cong [where f = sum_list], rule map_cong [OF refl])
      (auto simp: owned_pages_def pg cb_kind_call)
  also have "\<dots> = (\<Sum>q\<in>?own. if km_kind m = k then fst (the (mem_blocks m q)) else 0)"
  proof -
    have "set (owned_pages m s 0) = ?own" using lt by (auto simp: owned_pages_def)
    then show ?thesis by (metis (no_types, lifting) sum_list_distinct_conv_sum_set owned_pages_def distinct_filter distinct_upt)
  qed
  also have "\<dots> = (if km_kind m = k then owned (\<lambda>w. if w = s then 1 else 0) 1 (mem_blocks m) else 0)"
    unfolding owned_def
    by (auto intro!: sum.mono_neutral_cong_left wf_blocks_finite [OF m] split: if_splits)
  finally show ?thesis .
qed

lemma calls_pages_append: "calls_pages k (cs @ ds) = calls_pages k cs + calls_pages k ds"
  by (simp add: calls_pages_def)

lemma calls_pages_concat: "calls_pages k (concat css) = (\<Sum>cs\<leftarrow>css. calls_pages k cs)"
  by (induction css) (simp_all add: calls_pages_append, simp add: calls_pages_def)

lemma kind_pages_drop:
  assumes wf: "mm_wf mm" and len: "length (mm_mem mm') = length (mm_mem mm)"
    and eff: "\<forall>i < length (mm_mem mm). same_region (mm_mem mm ! i) (mm_mem mm' ! i) \<and>
         mem_blocks (mm_mem mm' ! i) = drop_owner s (mem_blocks (mm_mem mm ! i))"
  shows "kind_pages g c k mm' + (if g s = c then calls_pages k (concat (map (\<lambda>m. free_calls m s 0) (mm_mem mm))) else 0)
       = kind_pages g c k mm"
proof -
  have each: "(if km_kind (mm_mem mm' ! i) = k then owned g c (mem_blocks (mm_mem mm' ! i)) else 0) +
      (if g s = c then calls_pages k (free_calls (mm_mem mm ! i) s 0) else 0) =
      (if km_kind (mm_mem mm ! i) = k then owned g c (mem_blocks (mm_mem mm ! i)) else 0)"
    if i: "i < length (mm_mem mm)" for i
  proof -
    have m: "mem_wf (mm_mem mm ! i)" using mm_wfD [OF wf i] by simp
    have "km_kind (mm_mem mm' ! i) = km_kind (mm_mem mm ! i)" using eff i by (simp add: same_region_def)
    then show ?thesis using owned_drop [OF wf_blocks_finite [OF m], of g c s] free_calls_pages [OF m, of k s] eff i
      by auto
  qed
  have "kind_pages g c k mm' + (\<Sum>m\<leftarrow>mm_mem mm. if g s = c then calls_pages k (free_calls m s 0) else 0)
      = kind_pages g c k mm"
    unfolding kind_pages_def sum_list_sum_nth length_map len
    by (subst sum.distrib [symmetric], rule sum.cong [OF refl]) (use each len in simp)
  then show ?thesis by (cases "g s = c") (simp_all add: calls_pages_concat comp_def)
qed

end
