(* ===== verification/Kl2_Alloc_Inv.thy ===== *)
theory Kl2_Alloc_Inv
  imports Kl2_Alloc_Pages
begin

text \<open>
  The invariant of device memory: the manager and the instances are sound, references match sessions and
  processes, every allocation belongs to an open session, the counters match what is held and what requests
  under way have charged, and the locks match the positions of the threads.
\<close>

section \<open>Counters\<close>

lemma u64_add_id [simp]: "u64 (u64 x + y) = u64 (x + y)"
  by (simp add: u64_def mod_add_left_eq)

lemma mod_sub_add:
  assumes "0 < (n :: nat)"
  shows "((x + y) mod n + (n - y mod n)) mod n = x mod n"
proof -
  have "y mod n < n" using assms by simp
  then have "x + y mod n + (n - y mod n) = x + n" by simp
  moreover have "((x + y) mod n + (n - y mod n)) mod n = (x + y mod n + (n - y mod n)) mod n"
    by (metis mod_add_left_eq mod_add_right_eq)
  ultimately show ?thesis by simp
qed

lemma u64_sub_add [simp]: "u64_sub (u64 (x + y)) y = u64 x"
  unfolding u64_sub_def u64_def by (rule mod_sub_add) simp

text \<open>What a series of callbacks does to the counters of the process and of its instance.\<close>

definition uncount_all :: "nat kl_mm_cb_call list \<Rightarrow> nat list \<Rightarrow> nat list" where
  "uncount_all cs xs = fold (\<lambda>c xs. xs[cb_mem_kind c := u64_sub (xs ! cb_mem_kind c) (cb_pages c)]) cs xs"

lemma uncount_all_length [simp]: "length (uncount_all cs xs) = length xs"
  unfolding uncount_all_def by (induction cs arbitrary: xs) simp_all

lemma uncount_all_nth:
  assumes "k < length xs" "xs ! k = u64 (x + calls_pages k cs)"
  shows "uncount_all cs xs ! k = u64 x"
  using assms
proof (induction cs arbitrary: xs)
  case Nil
  then show ?case by (simp add: uncount_all_def calls_pages_def)
next
  case (Cons c cs)
  let ?xs = "xs[cb_mem_kind c := u64_sub (xs ! cb_mem_kind c) (cb_pages c)]"
  have "?xs ! k = u64 (x + calls_pages k cs)"
  proof (cases "cb_mem_kind c = k")
    case True
    then have "calls_pages k (c # cs) = calls_pages k cs + cb_pages c" by (simp add: calls_pages_def)
    then have "xs ! k = u64 ((x + calls_pages k cs) + cb_pages c)" using Cons.prems by (simp add: add.assoc)
    then have "u64_sub (xs ! k) (cb_pages c) = u64 (x + calls_pages k cs)" by (simp only: u64_sub_add)
    with True Cons.prems(1) show ?thesis by simp
  next
    case False
    with Cons.prems show ?thesis by (simp add: calls_pages_def)
  qed
  with Cons.IH [of ?xs] Cons.prems show ?case by (simp add: uncount_all_def)
qed

lemma uncount_all_other:
  assumes "k < length xs" "\<forall>c\<in>set cs. cb_mem_kind c \<noteq> k"
  shows "uncount_all cs xs ! k = xs ! k"
  using assms unfolding uncount_all_def by (induction cs arbitrary: xs) simp_all

section \<open>The shape of the memory\<close>

definition same_regions :: "nat kl_mm \<Rightarrow> nat kl_mm \<Rightarrow> bool" where
  "same_regions mm mm' \<longleftrightarrow> list_all2 same_region (mm_mem mm) (mm_mem mm')"

definition mm_ok :: "nat \<Rightarrow> nat \<Rightarrow> nat kl_mm \<Rightarrow> bool" where
  "mm_ok mt lt mm \<longleftrightarrow>
     mm_wf mm \<and>
     (\<forall>m\<in>set (mm_mem mm). \<forall>n\<in>set (mm_mem mm). km_kind m = km_kind n \<longrightarrow> km_page_bits m = km_page_bits n) \<and>
     (\<Sum>m\<leftarrow>mm_mem mm. km_page_count m) < 2 ^ 63 \<and>
     pages_for_limits mm XPU_MEM_MAIN = mt \<and> pages_for_limits mm XPU_MEM_L3 = lt"

lemma same_regions_set_mem:
  "same_region (mm_mem mm ! i) m' \<Longrightarrow> same_regions mm (set_mem mm i m')"
  by (cases "i < length (mm_mem mm)")
    (simp_all add: same_regions_def set_mem_def list_all2_conv_all_nth nth_update_if list_update_beyond not_less)

lemma same_regions_map:
  assumes "same_regions mm mm'" and "\<And>m n. same_region m n \<Longrightarrow> f n = f m"
  shows "map f (mm_mem mm') = map f (mm_mem mm)"
  using assms(1) unfolding same_regions_def
  by (induction rule: list_all2_induct) (simp_all add: assms(2))

lemma find_kind_same:
  assumes "same_regions mm mm'"
  shows "rel_option same_region (mk2md mm kind) (mk2md mm' kind)"
  using assms unfolding same_regions_def mk2md_def
  by (induction rule: list_all2_induct) (auto simp: same_region_def)

lemma sum_of_kind_same:
  assumes "same_regions mm mm'" and "\<And>m n. same_region m n \<Longrightarrow> f n = f m"
  shows "sum_of_kind f mm' kind = sum_of_kind f mm kind"
proof -
  have "foldl (\<lambda>ret m. if km_kind m = kind then u64 (ret + f m) else ret) z ns =
      foldl (\<lambda>ret m. if km_kind m = kind then u64 (ret + f m) else ret) z ms" if "list_all2 same_region ms ns" for z ms ns
    using that by (induction arbitrary: z rule: list_all2_induct) (simp_all add: assms(2), simp add: same_region_def)
  with assms(1) show ?thesis by (simp add: sum_of_kind_def same_regions_def)
qed

lemma pgsz_same: "same_regions mm mm' \<Longrightarrow> kl_mm_get_pgsz mm' kind = kl_mm_get_pgsz mm kind"
  using find_kind_same [of mm mm' kind]
  by (auto simp: kl_mm_get_pgsz_def mk2md_def same_region_def option.rel_sel split: option.splits)

lemma pages_for_limits_same:
  assumes sr: "same_regions mm mm'"
  shows "pages_for_limits mm' kind = pages_for_limits mm kind"
proof -
  have bytes: "kl_mm_get_bytes_all mm' kind = kl_mm_get_bytes_all mm kind" for kind
    unfolding kl_mm_get_bytes_all_def by (rule sum_of_kind_same [OF sr]) (simp add: same_region_def)
  have pgs: "kl_mm_get_pg_all mm' kind = kl_mm_get_pg_all mm kind" for kind
    unfolding kl_mm_get_pg_all_def by (rule sum_of_kind_same [OF sr]) (simp add: same_region_def)
  show ?thesis
    unfolding pages_for_limits_def kl_cxpu_get_mainmem_cnt_all_def bytes pgs pgsz_same [OF sr] ..
qed

lemma same_regions_in:
  assumes "same_regions mm mm'" "n \<in> set (mm_mem mm')"
  shows "\<exists>m\<in>set (mm_mem mm). same_region m n"
  using assms unfolding same_regions_def by (induction rule: list_all2_induct) auto

lemma mm_ok_same:
  assumes ok: "mm_ok mt lt mm" and sr: "same_regions mm mm'" and wf: "mm_wf mm'"
  shows "mm_ok mt lt mm'"
proof -
  have 2: "km_page_bits m = km_page_bits n" if "m \<in> set (mm_mem mm')" "n \<in> set (mm_mem mm')" "km_kind m = km_kind n" for m n
    using same_regions_in [OF sr that(1)] same_regions_in [OF sr that(2)] that(3) ok
    unfolding mm_ok_def same_region_def by metis
  have "map km_page_count (mm_mem mm') = map km_page_count (mm_mem mm)"
    by (rule same_regions_map [OF sr]) (simp add: same_region_def)
  with ok 2 wf pages_for_limits_same [OF sr] show ?thesis unfolding mm_ok_def by metis
qed

lemma malloc_region_same:
  assumes "same_regions (ad_mm d) (ad_mm d')"
  shows "malloc_region d' sz args_kind = malloc_region d sz args_kind"
proof -
  let ?k = "if args_kind = XPU_MEM_MAIN_KL2_HUGE then XPU_MEM_MAIN else args_kind"
  from find_kind_same [OF assms, of ?k] show ?thesis
  proof (cases rule: option.rel_cases)
    case None
    then show ?thesis by (simp only: malloc_region_def option.case)
  next
    case (Some m n)
    then show ?thesis by (simp only: malloc_region_def option.case) (simp add: same_region_def malloc_pages_needed_def)
  qed
qed

lemma malloc_region_kind:
  assumes r: "malloc_region d sz args_kind = Inr (kind, pages)" and ak: "args_kind < XPU_MEM_COUNT"
    and ok: "mm_ok mt lt (ad_mm d)"
  shows "kind = args_kind" "kind < XPU_MEM_COUNT"
    "m \<in> set (mm_mem (ad_mm d)) \<Longrightarrow> km_kind m = kind \<Longrightarrow> malloc_pages_needed m sz = pages"
proof -
  have nh: "args_kind \<noteq> XPU_MEM_MAIN_KL2_HUGE" using ak by (auto simp: xpu_mem_kinds)
  obtain n where n: "mk2md (ad_mm d) args_kind = Some n"
  proof (cases "mk2md (ad_mm d) args_kind")
    case None
    with r nh have False by (simp add: malloc_region_def)
    then show ?thesis ..
  qed
  with r nh have n2: "kind = km_kind n" "pages = malloc_pages_needed n sz" by (simp_all add: malloc_region_def)
  from n have n': "n \<in> set (mm_mem (ad_mm d))" "km_kind n = args_kind"
    unfolding mk2md_def find_Some_iff by (metis nth_mem)+
  show "kind = args_kind" using n2 n' by simp
  show "kind < XPU_MEM_COUNT" using n2 n' ak by simp
  assume m: "m \<in> set (mm_mem (ad_mm d))" "km_kind m = kind"
  have "mem_wf m" "mem_wf n" using m n' ok unfolding mm_ok_def mm_wf_def by metis+
  moreover have "km_page_bits m = km_page_bits n" using m n' n2 ok unfolding mm_ok_def by metis
  ultimately show "malloc_pages_needed m sz = pages" using n2 by (simp only: malloc_pages_needed_for)
qed

section \<open>The invariant\<close>

definition proc_of :: "kl2_mem_dev \<Rightarrow> nat \<Rightarrow> nat" where
  "proc_of d s = (case ad_sess d s of None \<Rightarrow> 0 | Some u \<Rightarrow> Suc u)"

definition inst_of :: "kl2_mem_dev \<Rightarrow> nat \<Rightarrow> nat" where
  "inst_of d s =
     (case ad_sess d s of None \<Rightarrow> 0
      | Some u \<Rightarrow> (case ad_uproc d u of None \<Rightarrow> 0
         | Some p \<Rightarrow> (case mu_instance p of None \<Rightarrow> 0 | Some a \<Rightarrow> Suc a)))"

definition holders :: "kl2_mem_dev \<Rightarrow> nat \<Rightarrow> nat" where
  "holders d a = card {u. \<exists>p. ad_uproc d u = Some p \<and> mu_instance p = Some a}"

definition procs_ok :: "kl2_mem_dev \<Rightarrow> bool" where
  "procs_ok d \<longleftrightarrow>
     finite (dom (ad_sess d)) \<and> (\<forall>s u. ad_sess d s = Some u \<longrightarrow> ad_uproc d u \<noteq> None) \<and>
     (\<forall>u p. ad_uproc d u = Some p \<longrightarrow>
        mu_refs p = card {s. ad_sess d s = Some u} \<and> 0 < mu_refs p \<and> length (mu_used p) = XPU_MEM_COUNT \<and>
        (\<forall>a. mu_instance p = Some a \<longrightarrow> cx_store (ad_cxpu d) a \<noteq> None))"

text \<open>Pages that threads have charged and neither taken nor given back, for a group of sessions.\<close>

fun pc_pages :: "(nat \<Rightarrow> nat) \<Rightarrow> nat \<Rightarrow> nat \<Rightarrow> malloc_pc \<Rightarrow> nat" where
  "pc_pages g c k (Mp_charged s sz args_kind kind pages) = (if g s = c \<and> kind = k then pages else 0)"
| "pc_pages g c k (Mp_failed s kind pages) = (if g s = c \<and> kind = k then pages else 0)"
| "pc_pages g c k _ = 0"

definition pending :: "(nat \<Rightarrow> nat) \<Rightarrow> nat \<Rightarrow> nat \<Rightarrow> malloc_pc list \<Rightarrow> nat" where
  "pending g c k ths = (\<Sum>pc\<leftarrow>ths. pc_pages g c k pc)"

fun pc_locks :: "kl2_mem_dev \<Rightarrow> nat \<Rightarrow> malloc_pc \<Rightarrow> nat" where
  "pc_locks d u (Mp_tested s sz args_kind kind pages) = (if ad_sess d s = Some u then 1 else 0)"
| "pc_locks d u _ = 0"

definition inst_total :: "kl2_mem_state \<Rightarrow> nat \<Rightarrow> nat \<Rightarrow> nat" where
  "inst_total st a k =
     kind_pages (inst_of (ms_dev st)) (Suc a) k (ad_mm (ms_dev st)) +
     pending (inst_of (ms_dev st)) (Suc a) k (ms_threads st)"

definition proc_total :: "kl2_mem_dev \<Rightarrow> nat \<Rightarrow> nat \<Rightarrow> nat" where
  "proc_total d u k = kind_pages (proc_of d) (Suc u) k (ad_mm d)"

text \<open>
  The counters of parameter memory are left out: launches allocate and free it without counting.
\<close>

definition mem_counts_ok :: "kl2_mem_state \<Rightarrow> bool" where
  "mem_counts_ok st \<longleftrightarrow>
     (\<forall>k. k < XPU_MEM_COUNT \<and> k \<noteq> XPU_MEM_PARAM \<longrightarrow>
        (\<forall>u p. ad_uproc (ms_dev st) u = Some p \<longrightarrow> mu_used p ! k = u64 (proc_total (ms_dev st) u k)) \<and>
        (\<forall>a i. cx_store (ad_cxpu (ms_dev st)) a = Some i \<longrightarrow> ci_mem_used_pgcnt i ! k = u64 (inst_total st a k)))"

fun pc_ok :: "kl2_mem_dev \<Rightarrow> malloc_pc \<Rightarrow> bool" where
  "pc_ok d Mp_idle \<longleftrightarrow> True"
| "pc_ok d (Mp_tested s sz args_kind kind pages) \<longleftrightarrow>
     ad_sess d s \<noteq> None \<and> sz + 2 ^ 32 \<le> 2 ^ 64 \<and> args_kind < XPU_MEM_COUNT \<and>
     malloc_region d sz args_kind = Inr (kind, pages)"
| "pc_ok d (Mp_charged s sz args_kind kind pages) \<longleftrightarrow>
     ad_sess d s \<noteq> None \<and> sz + 2 ^ 32 \<le> 2 ^ 64 \<and> args_kind < XPU_MEM_COUNT \<and>
     malloc_region d sz args_kind = Inr (kind, pages)"
| "pc_ok d (Mp_failed s kind pages) \<longleftrightarrow> ad_sess d s \<noteq> None"

definition locks_ok :: "kl2_mem_state \<Rightarrow> bool" where
  "locks_ok st \<longleftrightarrow>
     (\<forall>u p. ad_uproc (ms_dev st) u = Some p \<longrightarrow>
        (\<Sum>pc\<leftarrow>ms_threads st. pc_locks (ms_dev st) u pc) = (if mu_locked p then 1 else 0))"

definition mem_ok :: "nat \<Rightarrow> nat \<Rightarrow> kl2_mem_state \<Rightarrow> bool" where
  "mem_ok mt lt st \<longleftrightarrow>
     mm_ok mt lt (ad_mm (ms_dev st)) \<and> cx_ok (holders (ms_dev st)) mt lt (ad_cxpu (ms_dev st)) \<and>
     procs_ok (ms_dev st) \<and> (\<forall>w. has_owner (ad_mm (ms_dev st)) w \<longrightarrow> ad_sess (ms_dev st) w \<noteq> None) \<and>
     (\<forall>pc\<in>set (ms_threads st). pc_ok (ms_dev st) pc) \<and> mem_counts_ok st \<and> locks_ok st"

lemma mem_okD:
  assumes "mem_ok mt lt st"
  shows "mm_ok mt lt (ad_mm (ms_dev st))" "cx_ok (holders (ms_dev st)) mt lt (ad_cxpu (ms_dev st))"
    "procs_ok (ms_dev st)" "\<And>w. has_owner (ad_mm (ms_dev st)) w \<Longrightarrow> ad_sess (ms_dev st) w \<noteq> None"
    "\<And>pc. pc \<in> set (ms_threads st) \<Longrightarrow> pc_ok (ms_dev st) pc" "mem_counts_ok st" "locks_ok st"
    "mm_wf (ad_mm (ms_dev st))"
  using assms unfolding mem_ok_def mm_ok_def by blast+

text \<open>
  What an instance has promised: the pages it holds, has charged, and has found to fit. A calm step
  promises nothing new, leaves limits as they are, and gives a process only an instance of its group.
\<close>

fun pc_tested :: "(nat \<Rightarrow> nat) \<Rightarrow> nat \<Rightarrow> nat \<Rightarrow> malloc_pc \<Rightarrow> nat" where
  "pc_tested g c k (Mp_tested s sz args_kind kind pages) = (if g s = c \<and> kind = k then pages else 0)"
| "pc_tested g c k _ = 0"

definition reserved :: "kl2_mem_state \<Rightarrow> nat \<Rightarrow> nat \<Rightarrow> nat" where
  "reserved st a k =
     kind_pages (inst_of (ms_dev st)) (Suc a) k (ad_mm (ms_dev st)) +
     (\<Sum>pc\<leftarrow>ms_threads st. pc_pages (inst_of (ms_dev st)) (Suc a) k pc + pc_tested (inst_of (ms_dev st)) (Suc a) k pc)"

definition calm :: "(nat \<Rightarrow> nat) \<Rightarrow> kl2_mem_state \<Rightarrow> kl2_mem_state \<Rightarrow> bool" where
  "calm grp st st' \<longleftrightarrow>
     (\<forall>a k. k \<noteq> XPU_MEM_PARAM \<longrightarrow> reserved st' a k \<le> reserved st a k) \<and>
     (\<forall>a i. cx_store (ad_cxpu (ms_dev st')) a = Some i \<longrightarrow>
        (\<exists>j. cx_store (ad_cxpu (ms_dev st)) a = Some j \<and> ci_mem_limit_pgcnt i = ci_mem_limit_pgcnt j \<and> ci_token i = ci_token j) \<or>
        (cx_store (ad_cxpu (ms_dev st)) a = None \<and> ci_mem_limit_pgcnt i = replicate XPU_MEM_COUNT CXPU_INSTANCE_MEM_UNLIMIT)) \<and>
     (\<forall>u p. ad_uproc (ms_dev st') u = Some p \<longrightarrow>
        (\<exists>q. ad_uproc (ms_dev st) u = Some q \<and> mu_instance p = mu_instance q) \<or>
        (\<forall>a i. mu_instance p = Some a \<and> cx_store (ad_cxpu (ms_dev st')) a = Some i \<longrightarrow> ci_token i = grp u))"

text \<open>A step that leaves sessions, references and instances as they are.\<close>

definition same_shape :: "kl2_mem_dev \<Rightarrow> kl2_mem_dev \<Rightarrow> bool" where
  "same_shape d d' \<longleftrightarrow>
     ad_sess d' = ad_sess d \<and>
     (\<forall>u. map_option (\<lambda>p. (mu_refs p, length (mu_used p), mu_instance p)) (ad_uproc d' u) =
          map_option (\<lambda>p. (mu_refs p, length (mu_used p), mu_instance p)) (ad_uproc d u)) \<and>
     (\<forall>a. cx_store (ad_cxpu d') a = None \<longleftrightarrow> cx_store (ad_cxpu d) a = None)"

lemma same_shape_uproc:
  assumes "same_shape d d'"
  shows "ad_uproc d' u = None \<longleftrightarrow> ad_uproc d u = None"
    "ad_uproc d' u = Some p' \<Longrightarrow> \<exists>p. ad_uproc d u = Some p \<and> mu_refs p' = mu_refs p \<and>
       length (mu_used p') = length (mu_used p) \<and> mu_instance p' = mu_instance p"
proof -
  have "map_option (\<lambda>p. (mu_refs p, length (mu_used p), mu_instance p)) (ad_uproc d' u) =
          map_option (\<lambda>p. (mu_refs p, length (mu_used p), mu_instance p)) (ad_uproc d u)"
    using assms by (simp add: same_shape_def)
  then show "ad_uproc d' u = None \<longleftrightarrow> ad_uproc d u = None"
    "ad_uproc d' u = Some p' \<Longrightarrow> \<exists>p. ad_uproc d u = Some p \<and> mu_refs p' = mu_refs p \<and>
       length (mu_used p') = length (mu_used p) \<and> mu_instance p' = mu_instance p"
    by (cases "ad_uproc d' u"; cases "ad_uproc d u"; simp)+
qed

lemma same_shape_keeps:
  assumes sh: "same_shape d d'"
  shows "proc_of d' = proc_of d" "inst_of d' = inst_of d" "holders d' = holders d"
    "procs_ok d \<Longrightarrow> procs_ok d'" "ad_sess d' = ad_sess d" "pc_locks d' = pc_locks d"
proof -
  show s: "ad_sess d' = ad_sess d" using sh by (simp add: same_shape_def)
  then show "proc_of d' = proc_of d" by (simp add: proc_of_def fun_eq_iff)
  have i: "map_option mu_instance (ad_uproc d' u) = map_option mu_instance (ad_uproc d u)" for u
    using same_shape_uproc [OF sh, of u] by (cases "ad_uproc d' u"; cases "ad_uproc d u") auto
  then have c: "(case ad_uproc d' u of None \<Rightarrow> x | Some p \<Rightarrow> f (mu_instance p)) =
      (case ad_uproc d u of None \<Rightarrow> x | Some p \<Rightarrow> f (mu_instance p))" for u f and x :: 'b
    by (metis option.case_eq_if option.map_disc_iff option.map_sel)
  show "inst_of d' = inst_of d"
    unfolding inst_of_def s fun_eq_iff using c [of 0 "\<lambda>ins. case ins of None \<Rightarrow> 0 | Some a \<Rightarrow> Suc a"] by (simp split: option.splits)
  have "(\<exists>p. ad_uproc d' u = Some p \<and> mu_instance p = Some a) = (\<exists>p. ad_uproc d u = Some p \<and> mu_instance p = Some a)" for u a
    using i [of u] by (cases "ad_uproc d' u"; cases "ad_uproc d u") auto
  then show "holders d' = holders d" by (simp add: holders_def fun_eq_iff)
  have cx: "cx_store (ad_cxpu d') a = None \<longleftrightarrow> cx_store (ad_cxpu d) a = None" for a using sh by (simp add: same_shape_def)
  show "procs_ok d \<Longrightarrow> procs_ok d'"
    unfolding procs_ok_def s cx same_shape_uproc(1) [OF sh] using same_shape_uproc(2) [OF sh] by fastforce
  show "pc_locks d' = pc_locks d"
  proof (intro ext)
    fix u pc show "pc_locks d' u pc = pc_locks d u pc" using s by (cases pc) simp_all
  qed
qed

end
