(* ===== verification/Kl2_Alloc_Steps.thy ===== *)
theory Kl2_Alloc_Steps
  imports Kl2_Alloc_Inv
begin

text \<open>
  What the sections of \<^verbatim>\<open>ioctl_malloc\<close> do to a device that satisfies the invariant: test, charge, taking pages
  and taking the charge back, each with its effect and with the invariant afterwards.
\<close>

section \<open>Steps of a thread\<close>

lemma sum_threads:
  "t < length ths \<Longrightarrow> (\<Sum>pc\<leftarrow>ths[t := pc']. f pc) + f (ths ! t) = (\<Sum>pc\<leftarrow>ths. f pc) + (f pc' :: nat)"
  using sum_list_update_nat [of t "map f ths" "f pc'"] by (simp add: map_update)

lemma pending_update:
  "t < length ths \<Longrightarrow> pending g c k (ths[t := pc']) + pc_pages g c k (ths ! t) = pending g c k ths + pc_pages g c k pc'"
  unfolding pending_def by (rule sum_threads)

definition recharge ::
    "(nat \<Rightarrow> nat) \<Rightarrow> nat option \<Rightarrow> nat \<Rightarrow> (nat \<Rightarrow> kl_cxpu_instance option) \<Rightarrow> nat \<Rightarrow> kl_cxpu_instance option" where
  "recharge f ins k st a =
     (if ins = Some a
      then map_option (\<lambda>i. i\<lparr>ci_mem_used_pgcnt := (ci_mem_used_pgcnt i)[k := f (ci_mem_used_pgcnt i ! k)]\<rparr>) (st a)
      else st a)"

lemma recharge_None [simp]: "recharge f ins k st a = None \<longleftrightarrow> st a = None"
  by (simp add: recharge_def)

lemma charge_with_ok:
  assumes ok: "cx_ok hold mt lt cx" and live: "\<And>a. ins = Some a \<Longrightarrow> cx_store cx a \<noteq> None"
  shows "\<exists>cx'. charge_with f cx ins k = Some cx' \<and> cx_ok hold mt lt cx' \<and>
    cx_store cx' = recharge f ins k (cx_store cx)"
proof (cases ins)
  case None
  with ok show ?thesis by (simp add: charge_with_def recharge_def fun_eq_iff)
next
  case (Some a)
  then obtain i where i: "cx_store cx a = Some i" using live by blast
  show ?thesis
    using charge_ok [OF ok i, of k "f (ci_mem_used_pgcnt i ! k)"] Some i
    by (auto simp: charge_with_def upd_instance_def recharge_def fun_eq_iff)
qed

lemma open_session_proc:
  assumes "procs_ok d" "ad_sess d s \<noteq> None"
  obtains u p where "ad_sess d s = Some u" "ad_uproc d u = Some p" "session_instance d s = Some (u, p)"
    "proc_of d s = Suc u" "inst_of d s = (case mu_instance p of None \<Rightarrow> 0 | Some a \<Rightarrow> Suc a)"
    "length (mu_used p) = XPU_MEM_COUNT" "\<And>a. mu_instance p = Some a \<Longrightarrow> cx_store (ad_cxpu d) a \<noteq> None"
proof -
  obtain u where u: "ad_sess d s = Some u" using assms(2) by blast
  moreover obtain p where p: "ad_uproc d u = Some p" using assms(1) u unfolding procs_ok_def by blast
  moreover have "length (mu_used p) = XPU_MEM_COUNT" "\<And>a. mu_instance p = Some a \<Longrightarrow> cx_store (ad_cxpu d) a \<noteq> None"
    using assms(1) p unfolding procs_ok_def by blast+
  ultimately show ?thesis by (intro that [of u p]) (simp_all add: session_instance_def proc_of_def inst_of_def)
qed

lemma mem_ok_shape:
  assumes ok: "mem_ok mt lt st" and sh: "same_shape (ms_dev st) (ms_dev st')"
    and mm: "same_regions (ad_mm (ms_dev st)) (ad_mm (ms_dev st'))" "mm_wf (ad_mm (ms_dev st'))"
    and cx: "cx_ok (holders (ms_dev st)) mt lt (ad_cxpu (ms_dev st'))"
    and ow: "\<And>w. has_owner (ad_mm (ms_dev st')) w \<Longrightarrow> ad_sess (ms_dev st) w \<noteq> None"
    and th: "\<And>pc. pc \<in> set (ms_threads st') \<Longrightarrow> pc \<in> set (ms_threads st) \<or> pc_ok (ms_dev st) pc"
    and ct: "mem_counts_ok st'" and lk: "locks_ok st'"
  shows "mem_ok mt lt st'"
proof -
  note k = same_shape_keeps [OF sh]
  have "pc_ok (ms_dev st') pc" if "pc \<in> set (ms_threads st')" for pc
  proof -
    have "pc_ok (ms_dev st) pc" using th [OF that] mem_okD(5) [OF ok] by blast
    then show ?thesis using k(5) malloc_region_same [OF mm(1)] by (cases pc) simp_all
  qed
  then show ?thesis unfolding mem_ok_def
    using mm_ok_same [OF mem_okD(1) [OF ok] mm] cx k ow ct lk k(4) [OF mem_okD(3) [OF ok]] by simp
qed

lemma same_regions_refl [simp]: "same_regions mm mm"
  by (simp add: same_regions_def list_all2_refl)

lemma unlocked_open: "unlocked d s \<Longrightarrow> ad_sess d s \<noteq> None"
  by (auto simp: unlocked_def split: option.splits)

lemma test_effect:
  assumes ok: "mem_ok mt lt st" and en: "enabled (Op_test t s sz args_kind) st"
  obtains (refused) "exec find_area (Op_test t s sz args_kind) st = Some st"
  | (tested) u p kind pages where
      "exec find_area (Op_test t s sz args_kind) st =
         Some (set_pc t (Mp_tested s sz args_kind kind pages) st
           ((ms_dev st)\<lparr>ad_uproc := (ad_uproc (ms_dev st))(u \<mapsto> p\<lparr>mu_locked := True\<rparr>)\<rparr>))"
      "ad_sess (ms_dev st) s = Some u" "ad_uproc (ms_dev st) u = Some p" "\<not> mu_locked p"
      "malloc_region (ms_dev st) sz args_kind = Inr (kind, pages)"
      "\<And>a i. mu_instance p = Some a \<Longrightarrow> cx_store (ad_cxpu (ms_dev st)) a = Some i \<Longrightarrow>
         u64 (ci_mem_used_pgcnt i ! kind + pages) \<le> ci_mem_limit_pgcnt i ! kind"
proof -
  let ?d = "ms_dev st"
  have e: "t < length (ms_threads st)" "ms_threads st ! t = Mp_idle" "unlocked ?d s" using en by auto
  have idle: "set_pc t Mp_idle st ?d = st" using e list_update_id [of "ms_threads st" t] by (simp add: set_pc_def)
  obtain u p where up: "ad_sess ?d s = Some u" "ad_uproc ?d u = Some p" "session_instance ?d s = Some (u, p)"
    "\<And>a. mu_instance p = Some a \<Longrightarrow> cx_store (ad_cxpu ?d) a \<noteq> None"
    using open_session_proc [OF mem_okD(3) [OF ok] unlocked_open [OF e(3)]] by metis
  have nl: "\<not> mu_locked p" using e(3) up by (simp add: unlocked_def)
  show ?thesis
  proof (cases "malloc_region ?d sz args_kind")
    case (Inl er)
    then show ?thesis using up idle by (intro refused) (simp add: malloc_test_def)
  next
    case (Inr kp)
    obtain kind pages where kp: "kp = (kind, pages)" by (cases kp)
    obtain r where r: "kl_cxpu_instance_check_mem_limit (ad_cxpu ?d) (mu_instance p) kind pages = Some r"
      using up(4) by (cases "mu_instance p") (fastforce simp: kl_cxpu_instance_check_mem_limit_def)+
    show ?thesis
    proof (cases "r = None")
      case False
      then show ?thesis using up Inr kp r idle by (intro refused) (simp add: malloc_test_def)
    next
      case True
      show ?thesis
      proof (rule tested [OF _ up(1,2) nl])
        show "malloc_region ?d sz args_kind = Inr (kind, pages)" using Inr kp by simp
        show "exec find_area (Op_test t s sz args_kind) st =
         Some (set_pc t (Mp_tested s sz args_kind kind pages) st
           (?d\<lparr>ad_uproc := (ad_uproc ?d)(u \<mapsto> p\<lparr>mu_locked := True\<rparr>)\<rparr>))"
          using up Inr kp r True by (simp add: malloc_test_def upd_mu_def)
        show "u64 (ci_mem_used_pgcnt i ! kind + pages) \<le> ci_mem_limit_pgcnt i ! kind"
          if "mu_instance p = Some a" "cx_store (ad_cxpu ?d) a = Some i" for a i
          using r True that by (simp add: kl_cxpu_instance_check_mem_limit_def exceed_limit_def split: if_splits)
      qed
    qed
  qed
qed

lemma charge_effect:
  assumes ok: "mem_ok mt lt st" and t: "t < length (ms_threads st)"
    and pc: "ms_threads st ! t = Mp_tested s sz args_kind kind pages"
  obtains u p cx' where
      "exec find_area (Op_charge t) st =
         Some (set_pc t (Mp_charged s sz args_kind kind pages) st
           ((ms_dev st)\<lparr>ad_cxpu := cx', ad_uproc := (ad_uproc (ms_dev st))(u \<mapsto> p\<lparr>mu_locked := False\<rparr>)\<rparr>))"
      "ad_sess (ms_dev st) s = Some u" "ad_uproc (ms_dev st) u = Some p" "cx_ok (holders (ms_dev st)) mt lt cx'"
      "cx_store cx' = recharge (\<lambda>n. u64 (n + pages)) (mu_instance p) kind (cx_store (ad_cxpu (ms_dev st)))"
proof -
  let ?d = "ms_dev st"
  have "pc_ok ?d (Mp_tested s sz args_kind kind pages)" using mem_okD(5) [OF ok] t pc nth_mem by metis
  then have "ad_sess ?d s \<noteq> None" by simp
  from open_session_proc [OF mem_okD(3) [OF ok] this] obtain u p where
    up: "ad_sess ?d s = Some u" "ad_uproc ?d u = Some p" "session_instance ?d s = Some (u, p)"
    "\<And>a. mu_instance p = Some a \<Longrightarrow> cx_store (ad_cxpu ?d) a \<noteq> None" by metis
  from charge_with_ok [OF mem_okD(2) [OF ok] up(4), where f = "\<lambda>n. u64 (n + pages)" and k = kind] obtain cx' where
    cx': "charge_with (\<lambda>n. u64 (n + pages)) (ad_cxpu ?d) (mu_instance p) kind = Some cx'" "cx_ok (holders ?d) mt lt cx'"
      "cx_store cx' = recharge (\<lambda>n. u64 (n + pages)) (mu_instance p) kind (cx_store (ad_cxpu ?d))" by blast
  show ?thesis
    by (rule that [OF _ up(1,2) cx'(2,3)])
      (use pc up cx'(1) in \<open>simp add: malloc_charge_def kl_cxpu_instance_add_mem_used_def upd_mu_def\<close>)
qed

lemma set_pc_simps [simp]:
  "ms_dev (set_pc t pc st d) = d" "ms_threads (set_pc t pc st d) = (ms_threads st)[t := pc]"
  by (simp_all add: set_pc_def)

lemma same_shape_upd:
  assumes "ad_sess d' = ad_sess d" "ad_uproc d' = (ad_uproc d)(u \<mapsto> p')" "ad_uproc d u = Some p"
    and "mu_refs p' = mu_refs p" "length (mu_used p') = length (mu_used p)" "mu_instance p' = mu_instance p"
    and "\<And>a. cx_store (ad_cxpu d') a = None \<longleftrightarrow> cx_store (ad_cxpu d) a = None"
  shows "same_shape d d'"
  using assms by (simp add: same_shape_def)

text \<open>Totals and locks after a step of thread \<open>t\<close>.\<close>

lemma inst_total_set_pc:
  assumes "same_shape (ms_dev st) d'" "t < length (ms_threads st)"
  shows "inst_total (set_pc t pc st d') a k + pc_pages (inst_of (ms_dev st)) (Suc a) k (ms_threads st ! t) =
     kind_pages (inst_of (ms_dev st)) (Suc a) k (ad_mm d') +
     pending (inst_of (ms_dev st)) (Suc a) k (ms_threads st) + pc_pages (inst_of (ms_dev st)) (Suc a) k pc"
  using pending_update [OF assms(2), of "inst_of (ms_dev st)" "Suc a" k pc]
  by (simp add: inst_total_def same_shape_keeps(2) [OF assms(1)])

lemma locks_set_pc:
  assumes ok: "locks_ok st" and sh: "same_shape (ms_dev st) d'" and t: "t < length (ms_threads st)"
    and lk: "\<And>u' p. ad_uproc d' u' = Some p \<Longrightarrow> \<exists>q. ad_uproc (ms_dev st) u' = Some q \<and>
      (if mu_locked q then 1 else 0) + pc_locks (ms_dev st) u' pc =
      (if mu_locked p then 1 else 0) + pc_locks (ms_dev st) u' (ms_threads st ! t)"
  shows "locks_ok (set_pc t pc st d')"
proof -
  have "(\<Sum>x\<leftarrow>(ms_threads st)[t := pc]. pc_locks (ms_dev st) u' x) = (if mu_locked p then 1 else 0)"
    if p: "ad_uproc d' u' = Some p" for u' p
  proof -
    from lk [OF p] obtain q where q: "ad_uproc (ms_dev st) u' = Some q"
      "(if mu_locked q then 1 else 0) + pc_locks (ms_dev st) u' pc =
       (if mu_locked p then 1 else 0) + pc_locks (ms_dev st) u' (ms_threads st ! t)" by blast
    have "(\<Sum>x\<leftarrow>ms_threads st. pc_locks (ms_dev st) u' x) = (if mu_locked q then 1 else 0)"
      using ok q(1) unfolding locks_ok_def by blast
    with sum_threads [OF t, of "pc_locks (ms_dev st) u'" pc] q(2) show ?thesis by linarith
  qed
  then show ?thesis by (simp add: locks_ok_def same_shape_keeps(6) [OF sh])
qed

lemma mem_counts_okD:
  assumes "mem_counts_ok st" "k < XPU_MEM_COUNT" "k \<noteq> XPU_MEM_PARAM"
  shows "ad_uproc (ms_dev st) u = Some p \<Longrightarrow> mu_used p ! k = u64 (proc_total (ms_dev st) u k)"
    "cx_store (ad_cxpu (ms_dev st)) a = Some i \<Longrightarrow> ci_mem_used_pgcnt i ! k = u64 (inst_total st a k)"
  using assms unfolding mem_counts_ok_def by blast+

lemma reserved_set_pc:
  assumes "same_shape (ms_dev st) d'" "t < length (ms_threads st)"
  shows "reserved (set_pc t pc st d') a k + (pc_pages (inst_of (ms_dev st)) (Suc a) k (ms_threads st ! t) +
       pc_tested (inst_of (ms_dev st)) (Suc a) k (ms_threads st ! t)) + kind_pages (inst_of (ms_dev st)) (Suc a) k (ad_mm (ms_dev st)) =
     reserved st a k + kind_pages (inst_of (ms_dev st)) (Suc a) k (ad_mm d') +
       (pc_pages (inst_of (ms_dev st)) (Suc a) k pc + pc_tested (inst_of (ms_dev st)) (Suc a) k pc)"
  using sum_threads [OF assms(2), of "\<lambda>x. pc_pages (inst_of (ms_dev st)) (Suc a) k x + pc_tested (inst_of (ms_dev st)) (Suc a) k x" pc]
  by (simp add: reserved_def same_shape_keeps(2) [OF assms(1)])

lemma calm_shape:
  assumes sh: "same_shape (ms_dev st) (ms_dev st')"
    and r: "\<And>a k. k \<noteq> XPU_MEM_PARAM \<Longrightarrow> reserved st' a k \<le> reserved st a k"
    and l: "\<And>a i. cx_store (ad_cxpu (ms_dev st')) a = Some i \<Longrightarrow>
      \<exists>j. cx_store (ad_cxpu (ms_dev st)) a = Some j \<and> ci_mem_limit_pgcnt i = ci_mem_limit_pgcnt j \<and> ci_token i = ci_token j"
  shows "calm grp st st'"
proof -
  have "\<exists>q. ad_uproc (ms_dev st) u = Some q \<and> mu_instance p = mu_instance q" if "ad_uproc (ms_dev st') u = Some p" for u p
    using same_shape_uproc(2) [OF sh that] by blast
  with r l show ?thesis unfolding calm_def by blast
qed

lemma recharge_keeps:
  assumes "recharge f ins k st a = Some i"
  shows "\<exists>j. st a = Some j \<and> ci_mem_limit_pgcnt i = ci_mem_limit_pgcnt j \<and> ci_token i = ci_token j"
  using assms by (auto simp: recharge_def split: if_splits)

lemma test_ok:
  assumes ok: "mem_ok mt lt st" and en: "enabled (Op_test t s sz args_kind) st"
  shows "\<exists>st'. exec find_area (Op_test t s sz args_kind) st = Some st' \<and> mem_ok mt lt st'"
proof (cases rule: test_effect [OF ok en, where find_area = find_area, case_names refused tested])
  case refused
  with ok show ?thesis by blast
next
  case (tested u p kind pages)
  let ?d = "ms_dev st" and ?d' = "(ms_dev st)\<lparr>ad_uproc := (ad_uproc (ms_dev st))(u \<mapsto> p\<lparr>mu_locked := True\<rparr>)\<rparr>"
  let ?pc = "Mp_tested s sz args_kind kind pages"
  have e: "t < length (ms_threads st)" "ms_threads st ! t = Mp_idle" "unlocked ?d s" "sz + 2 ^ 32 \<le> 2 ^ 64"
    "args_kind < XPU_MEM_COUNT" using en by auto
  have sh: "same_shape ?d ?d'" by (rule same_shape_upd [where u = u and p = p and p' = "p\<lparr>mu_locked := True\<rparr>"])
    (simp_all add: tested)
  have tot: "inst_total (set_pc t ?pc st ?d') a k = inst_total st a k" for a k
    using inst_total_set_pc [OF sh e(1), of ?pc a k] e(2) by (simp add: inst_total_def)
  have ptot: "proc_total ?d' u' k = proc_total ?d u' k" for u' k
    by (simp add: proc_total_def same_shape_keeps(1) [OF sh])
  have "mem_ok mt lt (set_pc t ?pc st ?d')"
  proof (rule mem_ok_shape [OF ok])
    show "mem_counts_ok (set_pc t ?pc st ?d')"
      unfolding mem_counts_ok_def set_pc_simps tot ptot
      using mem_counts_okD [OF mem_okD(6) [OF ok]] tested(3) by (auto split: if_splits)
    show "locks_ok (set_pc t ?pc st ?d')"
      by (rule locks_set_pc [OF mem_okD(7) [OF ok] sh e(1)])
        (use tested e in \<open>auto split: if_splits simp del: One_nat_def\<close>)
    show "pc \<in> set (ms_threads st) \<or> pc_ok ?d pc" if "pc \<in> set (ms_threads (set_pc t ?pc st ?d'))" for pc
      using that set_update_subset_insert [of "ms_threads st" t ?pc] tested e by auto
  qed (use sh mem_okD(2,4,8) [OF ok] in auto)
  with tested(1) show ?thesis by blast
qed


lemma used_length: "cx_ok hold mt lt cx \<Longrightarrow> cx_store cx a = Some i \<Longrightarrow> length (ci_mem_used_pgcnt i) = XPU_MEM_COUNT"
  using cx_okD(5) [of hold mt lt cx a i] by (simp add: instance_ok_def)

text \<open>The counters of the instances after one of them was charged or relieved.\<close>

lemma recharge_count:
  assumes ok: "mem_ok mt lt st" and k: "k < XPU_MEM_COUNT" "k \<noteq> XPU_MEM_PARAM"
    and a: "recharge f ins kind (cx_store (ad_cxpu (ms_dev st))) a = Some i"
    and hit: "ins = Some a \<Longrightarrow> kind = k \<Longrightarrow> f (u64 (inst_total st a k)) = u64 n"
    and miss: "\<not> (ins = Some a \<and> kind = k) \<Longrightarrow> n = inst_total st a k"
  shows "ci_mem_used_pgcnt i ! k = u64 n"
proof -
  obtain j where j: "cx_store (ad_cxpu (ms_dev st)) a = Some j"
    using a recharge_None [of f ins kind "cx_store (ad_cxpu (ms_dev st))" a] by fastforce
  note u = mem_counts_okD(2) [OF mem_okD(6) [OF ok] k j] used_length [OF mem_okD(2) [OF ok] j]
  show ?thesis
  proof (cases "ins = Some a \<and> kind = k")
    case True
    then show ?thesis using a j u k hit by (auto simp: recharge_def)
  next
    case False
    then show ?thesis using a j u miss by (auto simp: recharge_def split: if_splits)
  qed
qed

lemma charge_step_ok:
  assumes ok: "mem_ok mt lt st" and en: "enabled (Op_charge t) st"
  shows "\<exists>st'. exec find_area (Op_charge t) st = Some st' \<and> mem_ok mt lt st' \<and> calm grp st st'"
proof -
  let ?d = "ms_dev st"
  from en obtain s sz args_kind kind pages where t: "t < length (ms_threads st)"
    and pc: "ms_threads st ! t = Mp_tested s sz args_kind kind pages" by (auto split: malloc_pc.splits)
  show ?thesis
  proof (rule charge_effect [OF ok t pc, where find_area = find_area])
    fix u p cx'
    let ?d' = "?d\<lparr>ad_cxpu := cx', ad_uproc := (ad_uproc ?d)(u \<mapsto> p\<lparr>mu_locked := False\<rparr>)\<rparr>"
    let ?pc = "Mp_charged s sz args_kind kind pages"
    assume ex: "exec find_area (Op_charge t) st = Some (set_pc t ?pc st ?d')"
      and up: "ad_sess ?d s = Some u" "ad_uproc ?d u = Some p" and cx: "cx_ok (holders ?d) mt lt cx'"
      and st: "cx_store cx' = recharge (\<lambda>n. u64 (n + pages)) (mu_instance p) kind (cx_store (ad_cxpu ?d))"
    have "pc_ok ?d (ms_threads st ! t)" using mem_okD(5) [OF ok] t by simp
    then have pok: "pc_ok ?d ?pc" "malloc_region ?d sz args_kind = Inr (kind, pages)" "args_kind < XPU_MEM_COUNT"
      using pc by auto
    note kd = malloc_region_kind(2) [OF pok(2,3) mem_okD(1) [OF ok]]
    have sh: "same_shape ?d ?d'"
      by (rule same_shape_upd [where u = u and p = p and p' = "p\<lparr>mu_locked := False\<rparr>"]) (simp_all add: up st)
    have tot: "inst_total (set_pc t ?pc st ?d') a k =
        inst_total st a k + (if mu_instance p = Some a \<and> kind = k then pages else 0)" for a k
      using inst_total_set_pc [OF sh t, of ?pc a k] pc up
      by (auto simp: inst_total_def inst_of_def split: option.splits)
    have ptot: "proc_total ?d' u' k = proc_total ?d u' k" for u' k
      by (simp add: proc_total_def same_shape_keeps(1) [OF sh])
    have "mem_ok mt lt (set_pc t ?pc st ?d')"
    proof (rule mem_ok_shape [OF ok])
      have "ci_mem_used_pgcnt i ! k = u64 (inst_total st a k + (if mu_instance p = Some a \<and> kind = k then pages else 0))"
        if "cx_store cx' a = Some i" "k < XPU_MEM_COUNT" "k \<noteq> XPU_MEM_PARAM" for a i k
        by (rule recharge_count [OF ok that(2,3) that(1) [unfolded st]]) auto
      then show "mem_counts_ok (set_pc t ?pc st ?d')"
        unfolding mem_counts_ok_def set_pc_simps tot ptot
        using mem_counts_okD(1) [OF mem_okD(6) [OF ok]] up(2) by (auto split: if_splits)
      show "locks_ok (set_pc t ?pc st ?d')"
      proof (rule locks_set_pc [OF mem_okD(7) [OF ok] sh t])
        have "(\<Sum>x\<leftarrow>ms_threads st. pc_locks ?d u x) = (if mu_locked p then 1 else 0)"
          using mem_okD(7) [OF ok] up(2) unfolding locks_ok_def by blast
        moreover have "pc_locks ?d u (ms_threads st ! t) \<le> (\<Sum>x\<leftarrow>ms_threads st. pc_locks ?d u x)"
          using nth_le_sum_list [of t "map (pc_locks ?d u) (ms_threads st)"] t by simp
        ultimately have "mu_locked p" using pc up by (auto split: if_splits)
        then show "\<exists>q. ad_uproc ?d u' = Some q \<and> (if mu_locked q then 1 else 0) + pc_locks ?d u' ?pc =
          (if mu_locked p' then 1 else 0) + pc_locks ?d u' (ms_threads st ! t)" if "ad_uproc ?d' u' = Some p'" for u' p'
          using that pc up by (auto split: if_splits)
      qed
      show "x \<in> set (ms_threads st) \<or> pc_ok ?d x" if "x \<in> set (ms_threads (set_pc t ?pc st ?d'))" for x
        using that set_update_subset_insert [of "ms_threads st" t ?pc] pok by auto
    qed (use sh cx mem_okD(4,8) [OF ok] in auto)
    moreover have "calm grp st (set_pc t ?pc st ?d')"
    proof (rule calm_shape)
      show "reserved (set_pc t ?pc st ?d') a k \<le> reserved st a k" for a k
        using reserved_set_pc [OF sh t, of ?pc a k] pc by simp
    qed (use sh st recharge_keeps in simp_all)
    ultimately show ?thesis using ex by blast
  qed
qed


lemma undo_effect:
  assumes ok: "mem_ok mt lt st" and t: "t < length (ms_threads st)"
    and pc: "ms_threads st ! t = Mp_failed s kind pages"
  obtains u p cx' where
      "exec find_area (Op_undo t) st = Some (set_pc t Mp_idle st ((ms_dev st)\<lparr>ad_cxpu := cx'\<rparr>))"
      "ad_sess (ms_dev st) s = Some u" "ad_uproc (ms_dev st) u = Some p" "cx_ok (holders (ms_dev st)) mt lt cx'"
      "cx_store cx' = recharge (\<lambda>n. u64_sub n pages) (mu_instance p) kind (cx_store (ad_cxpu (ms_dev st)))"
proof -
  let ?d = "ms_dev st"
  have "pc_ok ?d (Mp_failed s kind pages)" using mem_okD(5) [OF ok] t pc nth_mem by metis
  then have "ad_sess ?d s \<noteq> None" by simp
  from open_session_proc [OF mem_okD(3) [OF ok] this] obtain u p where
    up: "ad_sess ?d s = Some u" "ad_uproc ?d u = Some p" "session_instance ?d s = Some (u, p)"
    "\<And>a. mu_instance p = Some a \<Longrightarrow> cx_store (ad_cxpu ?d) a \<noteq> None" by metis
  from charge_with_ok [OF mem_okD(2) [OF ok] up(4), where f = "\<lambda>n. u64_sub n pages" and k = kind] obtain cx' where
    cx': "charge_with (\<lambda>n. u64_sub n pages) (ad_cxpu ?d) (mu_instance p) kind = Some cx'" "cx_ok (holders ?d) mt lt cx'"
      "cx_store cx' = recharge (\<lambda>n. u64_sub n pages) (mu_instance p) kind (cx_store (ad_cxpu ?d))" by blast
  show ?thesis
    by (rule that [OF _ up(1,2) cx'(2,3)])
      (use pc up cx'(1) in \<open>simp add: malloc_undo_def kl_cxpu_instance_sub_mem_used_def\<close>)
qed

lemma undo_step_ok:
  assumes ok: "mem_ok mt lt st" and en: "enabled (Op_undo t) st"
  shows "\<exists>st'. exec find_area (Op_undo t) st = Some st' \<and> mem_ok mt lt st' \<and> calm grp st st'"
proof -
  let ?d = "ms_dev st"
  from en obtain s kind pages where t: "t < length (ms_threads st)"
    and pc: "ms_threads st ! t = Mp_failed s kind pages" by (auto split: malloc_pc.splits)
  show ?thesis
  proof (rule undo_effect [OF ok t pc, where find_area = find_area])
    fix u p cx'
    let ?d' = "?d\<lparr>ad_cxpu := cx'\<rparr>"
    assume ex: "exec find_area (Op_undo t) st = Some (set_pc t Mp_idle st ?d')"
      and up: "ad_sess ?d s = Some u" "ad_uproc ?d u = Some p" and cx: "cx_ok (holders ?d) mt lt cx'"
      and st: "cx_store cx' = recharge (\<lambda>n. u64_sub n pages) (mu_instance p) kind (cx_store (ad_cxpu ?d))"
    have sh: "same_shape ?d ?d'" by (simp add: same_shape_def st)
    have tot: "inst_total (set_pc t Mp_idle st ?d') a k +
        (if mu_instance p = Some a \<and> kind = k then pages else 0) = inst_total st a k" for a k
      using inst_total_set_pc [OF sh t, of Mp_idle a k] pc up
      by (auto simp: inst_total_def inst_of_def split: option.splits if_splits)
    have ptot: "proc_total ?d' u' k = proc_total ?d u' k" for u' k
      by (simp add: proc_total_def same_shape_keeps(1) [OF sh])
    have "mem_ok mt lt (set_pc t Mp_idle st ?d')"
    proof (rule mem_ok_shape [OF ok])
      have "ci_mem_used_pgcnt i ! k = u64 (inst_total (set_pc t Mp_idle st ?d') a k)"
        if "cx_store cx' a = Some i" "k < XPU_MEM_COUNT" "k \<noteq> XPU_MEM_PARAM" for a i k
      proof (rule recharge_count [OF ok that(2,3) that(1) [unfolded st]])
        show "u64_sub (u64 (inst_total st a k)) pages = u64 (inst_total (set_pc t Mp_idle st ?d') a k)"
          if "mu_instance p = Some a" "kind = k"
          using tot [of a k] that u64_sub_add [of "inst_total (set_pc t Mp_idle st ?d') a k" pages] by simp
        show "inst_total (set_pc t Mp_idle st ?d') a k = inst_total st a k" if "\<not> (mu_instance p = Some a \<and> kind = k)"
          using tot [of a k] that by simp
      qed
      then show "mem_counts_ok (set_pc t Mp_idle st ?d')"
        unfolding mem_counts_ok_def set_pc_simps ptot
        using mem_counts_okD(1) [OF mem_okD(6) [OF ok]] by simp
      show "locks_ok (set_pc t Mp_idle st ?d')"
        by (rule locks_set_pc [OF mem_okD(7) [OF ok] sh t]) (simp add: pc)
      show "x \<in> set (ms_threads st) \<or> pc_ok ?d x" if "x \<in> set (ms_threads (set_pc t Mp_idle st ?d'))" for x
        using that set_update_subset_insert [of "ms_threads st" t Mp_idle] by auto
    qed (use sh cx mem_okD(4,8) [OF ok] in auto)
    moreover have "calm grp st (set_pc t Mp_idle st ?d')"
    proof (rule calm_shape)
      show "reserved (set_pc t Mp_idle st ?d') a k \<le> reserved st a k" for a k
        using reserved_set_pc [OF sh t, of Mp_idle a k] pc by simp
    qed (use sh st recharge_keeps in simp_all)
    ultimately show ?thesis using ex by blast
  qed
qed

section \<open>Taking pages\<close>

lemma has_owner_set_mem:
  assumes "has_owner (set_mem mm i m') w"
  shows "has_owner mm w \<or> (\<exists>q k. mem_blocks m' q = Some (k, w))"
  using assms set_update_subset_insert [of "mm_mem mm" i m'] by (auto simp: has_owner_def set_mem_def)

lemma take_effect:
  assumes fa: "zero_area_finder find_area" and ok: "mem_ok mt lt st" and t: "t < length (ms_threads st)"
    and pc: "ms_threads st ! t = Mp_charged s sz args_kind kind pages"
  obtains (failed) "exec find_area (Op_take t) st = Some (set_pc t (Mp_failed s kind pages) st (ms_dev st))"
  | (taken) u p i m' addr where
      "exec find_area (Op_take t) st = Some (set_pc t Mp_idle st ((ms_dev st)\<lparr>ad_mm := set_mem (ad_mm (ms_dev st)) i m',
         ad_uproc := (ad_uproc (ms_dev st))(u \<mapsto> p\<lparr>mu_used := (mu_used p)[kind := u64 (mu_used p ! kind + pages)]\<rparr>)\<rparr>))"
      "ad_sess (ms_dev st) s = Some u" "ad_uproc (ms_dev st) u = Some p"
      "i < length (mm_mem (ad_mm (ms_dev st)))" "km_kind (mm_mem (ad_mm (ms_dev st)) ! i) = kind"
      "allocated (mm_mem (ad_mm (ms_dev st)) ! i) pages s m' addr" "mm_wf (set_mem (ad_mm (ms_dev st)) i m')"
proof -
  let ?d = "ms_dev st" and ?mm = "ad_mm (ms_dev st)"
  have pok: "ad_sess ?d s \<noteq> None" "sz + 2 ^ 32 \<le> 2 ^ 64" "args_kind < XPU_MEM_COUNT"
    "malloc_region ?d sz args_kind = Inr (kind, pages)"
    using mem_okD(5) [OF ok nth_mem [OF t]] pc by simp_all
  note kd = malloc_region_kind [OF pok(4,3) mem_okD(1) [OF ok]]
  from open_session_proc [OF mem_okD(3) [OF ok] pok(1)] obtain u p where
    up: "ad_sess ?d s = Some u" "ad_uproc ?d u = Some p" by metis
  show ?thesis
  proof (cases "sz = 0")
    case True
    then show ?thesis using pc by (intro failed) (simp add: malloc_take_def kl_mm_malloc_def)
  next
    case False
    then have sz: "0 < sz" by simp
    have nh: "args_kind \<noteq> XPU_MEM_MAIN_KL2_HUGE" using pok(3) by (auto simp: xpu_mem_kinds)
    from kl_mm_malloc_cases [OF fa mem_okD(8) [OF ok] sz pok(2) nh, of s True] show ?thesis
    proof (elim disjE conjE exE)
      assume "kl_mm_malloc find_area ?mm sz args_kind (Some s) True = Some (Inl XPUERR_NOMEM, ?mm, [])"
      then show ?thesis using pc by (intro failed) (simp add: malloc_take_def)
    next
      fix i m' addr
      assume r: "kl_mm_malloc find_area ?mm sz args_kind (Some s) True = Some (Inr (addr, Some i), set_mem ?mm i m',
          if True then [cb_call addr sz args_kind s (mm_mem ?mm ! i)] else [])"
        and i: "i < length (mm_mem ?mm)" "km_kind (mm_mem ?mm ! i) = args_kind"
        and al: "allocated (mm_mem ?mm ! i) (malloc_pages_needed (mm_mem ?mm ! i) sz) s m' addr"
        and wf: "mm_wf (set_mem ?mm i m')"
      have pg: "malloc_pages_needed (mm_mem ?mm ! i) sz = pages" using kd(3) [of "mm_mem ?mm ! i"] kd(1) i by simp
      have ow: "cb_owner (cb_call addr sz args_kind s (mm_mem ?mm ! i)) = s" by (simp add: cb_call_def)
      show ?thesis
      proof (rule taken [OF _ up i(1) _ _ wf])
        show "exec find_area (Op_take t) st = Some (set_pc t Mp_idle st (?d\<lparr>ad_mm := set_mem ?mm i m',
         ad_uproc := (ad_uproc ?d)(u \<mapsto> p\<lparr>mu_used := (mu_used p)[kind := u64 (mu_used p ! kind + pages)]\<rparr>)\<rparr>))"
          using pc r up i kd(1) pg
          by (simp add: malloc_take_def kl2_mm_malloc_update_stat_cb_def ow cb_kind_call cb_pages_call count_pages_def upd_mu_def)
      qed (use i kd(1) al pg in simp_all)
    qed
  qed
qed

end
