(* ===== verification/Kl2_Alloc_Free.thy ===== *)
theory Kl2_Alloc_Free
  imports Kl2_Alloc_Steps
begin

text \<open>
  Freeing: the callbacks of a run of frees take their pages off the counters, and one request to free keeps
  the invariant.
\<close>

lemma counts_okI:
  assumes "\<And>u p k. k < XPU_MEM_COUNT \<Longrightarrow> k \<noteq> XPU_MEM_PARAM \<Longrightarrow> ad_uproc (ms_dev st) u = Some p \<Longrightarrow>
      mu_used p ! k = u64 (proc_total (ms_dev st) u k)"
    and "\<And>a i k. k < XPU_MEM_COUNT \<Longrightarrow> k \<noteq> XPU_MEM_PARAM \<Longrightarrow> cx_store (ad_cxpu (ms_dev st)) a = Some i \<Longrightarrow>
      ci_mem_used_pgcnt i ! k = u64 (inst_total st a k)"
  shows "mem_counts_ok st"
  using assms unfolding mem_counts_ok_def by blast

lemma allocated_owner:
  assumes "allocated m k w m' addr" "mem_blocks m' q = Some (n, v)"
  shows "v = w \<or> mem_blocks m q = Some (n, v)"
  using assms by (auto simp: allocated_def split: if_splits)

lemma take_owners:
  assumes ok: "mem_ok mt lt st" and i: "i < length (mm_mem (ad_mm (ms_dev st)))"
    and al: "allocated (mm_mem (ad_mm (ms_dev st)) ! i) k s m' addr" and s: "ad_sess (ms_dev st) s \<noteq> None"
    and w: "has_owner (set_mem (ad_mm (ms_dev st)) i m') w"
  shows "ad_sess (ms_dev st) w \<noteq> None"
proof -
  from has_owner_set_mem [OF w] show ?thesis
  proof
    assume "\<exists>q k. mem_blocks m' q = Some (k, w)"
    then obtain q n where "mem_blocks m' q = Some (n, w)" by blast
    from allocated_owner [OF al this] show ?thesis
    proof
      assume "mem_blocks (mm_mem (ad_mm (ms_dev st)) ! i) q = Some (n, w)"
      then have "has_owner (ad_mm (ms_dev st)) w" using nth_mem [OF i] unfolding has_owner_def by blast
      then show ?thesis by (rule mem_okD(4) [OF ok])
    qed (use s in simp)
  qed (rule mem_okD(4) [OF ok])
qed

lemma take_step_ok:
  assumes fa: "zero_area_finder find_area" and ok: "mem_ok mt lt st" and en: "enabled (Op_take t) st"
  shows "\<exists>st'. exec find_area (Op_take t) st = Some st' \<and> mem_ok mt lt st' \<and> calm grp st st'"
proof -
  let ?d = "ms_dev st" and ?mm = "ad_mm (ms_dev st)"
  from en obtain s sz args_kind kind pages where t: "t < length (ms_threads st)"
    and pc: "ms_threads st ! t = Mp_charged s sz args_kind kind pages" by (auto split: malloc_pc.splits)
  have pok: "ad_sess ?d s \<noteq> None" "sz + 2 ^ 32 \<le> 2 ^ 64" "args_kind < XPU_MEM_COUNT"
    "malloc_region ?d sz args_kind = Inr (kind, pages)"
    using mem_okD(5) [OF ok nth_mem [OF t]] pc by simp_all
  note kd = malloc_region_kind [OF pok(4,3) mem_okD(1) [OF ok]]
  show ?thesis
  proof (cases rule: take_effect [OF fa ok t pc, case_names failed taken])
    case failed
    let ?st = "set_pc t (Mp_failed s kind pages) st ?d"
    have sh: "same_shape ?d ?d" by (simp add: same_shape_def)
    have tot: "inst_total ?st a k = inst_total st a k" for a k
      using inst_total_set_pc [OF sh t, of "Mp_failed s kind pages" a k] pc by (simp add: inst_total_def)
    have "mem_ok mt lt ?st"
    proof (rule mem_ok_shape [OF ok])
      show "mem_counts_ok ?st" using mem_okD(6) [OF ok] by (simp add: mem_counts_ok_def tot)
      show "locks_ok ?st" by (rule locks_set_pc [OF mem_okD(7) [OF ok] sh t]) (simp add: pc)
      show "x \<in> set (ms_threads st) \<or> pc_ok ?d x" if "x \<in> set (ms_threads ?st)" for x
        using that set_update_subset_insert [of "ms_threads st" t "Mp_failed s kind pages"] pok(1) by auto
    qed (use sh mem_okD(2,4,8) [OF ok] in auto)
    moreover have "calm grp st ?st"
    proof (rule calm_shape)
      show "reserved ?st a k \<le> reserved st a k" for a k
        using reserved_set_pc [OF sh t, of "Mp_failed s kind pages" a k] pc by simp
    qed (use sh in simp_all)
    ultimately show ?thesis using failed by blast
  next
    case (taken u p i m' addr)
    let ?p = "p\<lparr>mu_used := (mu_used p)[kind := u64 (mu_used p ! kind + pages)]\<rparr>"
    let ?d' = "?d\<lparr>ad_mm := set_mem ?mm i m', ad_uproc := (ad_uproc ?d)(u \<mapsto> ?p)\<rparr>"
    let ?st = "set_pc t Mp_idle st ?d'"
    have sh: "same_shape ?d ?d'"
      by (rule same_shape_upd [where u = u and p = p and p' = ?p]) (simp_all add: taken)
    note kp = kind_pages_alloc [OF mem_okD(8) [OF ok] taken(4,6)]
    have tot: "inst_total ?st a k = inst_total st a k" for a k
    proof -
      have "inst_total ?st a k + (if inst_of ?d s = Suc a \<and> kind = k then pages else 0) =
          kind_pages (inst_of ?d) (Suc a) k (set_mem ?mm i m') + pending (inst_of ?d) (Suc a) k (ms_threads st)"
        using inst_total_set_pc [OF sh t, of Mp_idle a k] pc by simp
      moreover have "kind_pages (inst_of ?d) (Suc a) k (set_mem ?mm i m') =
          kind_pages (inst_of ?d) (Suc a) k ?mm + (if inst_of ?d s = Suc a \<and> kind = k then pages else 0)"
        unfolding kp taken(5) by (simp only: conj_commute)
      ultimately show ?thesis unfolding inst_total_def [of st] by linarith
    qed
    have ptot: "proc_total ?d' u' k = proc_total ?d u' k + (if u' = u \<and> kind = k then pages else 0)" for u' k
      using kp [of "proc_of ?d" "Suc u'" k] taken(2,5)
      by (auto simp: proc_total_def same_shape_keeps(1) [OF sh] proc_of_def split: if_splits)
    have len: "length (mu_used p) = XPU_MEM_COUNT" using mem_okD(3) [OF ok] taken(3) unfolding procs_ok_def by blast
    have "mem_ok mt lt ?st"
    proof (rule mem_ok_shape [OF ok])
      show "mem_counts_ok ?st"
      proof (rule counts_okI, unfold set_pc_simps tot ptot)
        show "mu_used q ! k = u64 (proc_total ?d u' k + (if u' = u \<and> kind = k then pages else 0))"
          if k: "k < XPU_MEM_COUNT" "k \<noteq> XPU_MEM_PARAM" and q: "ad_uproc ?d' u' = Some q" for u' q k
          using q mem_counts_okD(1) [OF mem_okD(6) [OF ok] k, of u'] taken(3) kd(2) len
          by (auto simp: nth_update_if split: if_splits)
        show "ci_mem_used_pgcnt x ! k = u64 (inst_total st a k)"
          if k: "k < XPU_MEM_COUNT" "k \<noteq> XPU_MEM_PARAM" and a: "cx_store (ad_cxpu ?d') a = Some x" for a x k
          using mem_counts_okD(2) [OF mem_okD(6) [OF ok] k, of a x] a by simp
      qed
      show "locks_ok ?st"
        by (rule locks_set_pc [OF mem_okD(7) [OF ok] sh t]) (use pc taken(3) in \<open>auto split: if_splits\<close>)
      show "x \<in> set (ms_threads st) \<or> pc_ok ?d x" if "x \<in> set (ms_threads ?st)" for x
        using that set_update_subset_insert [of "ms_threads st" t Mp_idle] by auto
      show "same_regions (ad_mm ?d) (ad_mm (ms_dev ?st))"
        using same_regions_set_mem [OF allocated_same [OF taken(6)]] by simp
      show "ad_sess ?d w \<noteq> None" if "has_owner (ad_mm (ms_dev ?st)) w" for w
        by (rule take_owners [OF ok taken(4,6) pok(1)]) (use that in simp)
    qed (use sh mem_okD(2) [OF ok] taken(7) in auto)
    moreover have "calm grp st ?st"
    proof (rule calm_shape)
      show "reserved ?st a k \<le> reserved st a k" for a k
      proof -
        have "reserved ?st a k + (if inst_of ?d s = Suc a \<and> kind = k then pages else 0) +
            kind_pages (inst_of ?d) (Suc a) k ?mm = reserved st a k + kind_pages (inst_of ?d) (Suc a) k (set_mem ?mm i m')"
          using reserved_set_pc [OF sh t, of Mp_idle a k] pc by simp
        moreover have "kind_pages (inst_of ?d) (Suc a) k (set_mem ?mm i m') =
          kind_pages (inst_of ?d) (Suc a) k ?mm + (if inst_of ?d s = Suc a \<and> kind = k then pages else 0)"
          unfolding kp taken(5) by (simp only: conj_commute)
        ultimately show ?thesis by linarith
      qed
    qed (use sh in simp_all)
    ultimately show ?thesis using taken(1) by blast
  qed
qed

section \<open>Freeing\<close>

text \<open>The callbacks of a series of frees of one session.\<close>

lemma free_calls_effect:
  assumes "ad_sess d s = Some u" "ad_uproc d u = Some p"
    and "cx_ok hold mt lt (ad_cxpu d)" "\<And>a. mu_instance p = Some a \<Longrightarrow> cx_store (ad_cxpu d) a \<noteq> None"
    and "\<forall>c\<in>set cs. cb_owner c = s"
  shows "\<exists>cx'. call_back kl2_mm_free_update_stat_cb cs d =
      Some (d\<lparr>ad_uproc := (ad_uproc d)(u \<mapsto> p\<lparr>mu_used := uncount_all cs (mu_used p)\<rparr>), ad_cxpu := cx'\<rparr>) \<and>
      cx_ok hold mt lt cx' \<and>
      cx_store cx' = (\<lambda>a. if mu_instance p = Some a
        then map_option (\<lambda>i. i\<lparr>ci_mem_used_pgcnt := uncount_all cs (ci_mem_used_pgcnt i)\<rparr>) (cx_store (ad_cxpu d) a)
        else cx_store (ad_cxpu d) a)"
  using assms
proof (induction cs arbitrary: d p)
  case Nil
  have 1: "d\<lparr>ad_uproc := (ad_uproc d)(u \<mapsto> p\<lparr>mu_used := uncount_all [] (mu_used p)\<rparr>), ad_cxpu := ad_cxpu d\<rparr> = d"
    using Nil.prems(2) by (simp add: uncount_all_def fun_upd_idem)
  have 2: "(\<lambda>a. if mu_instance p = Some a
        then map_option (\<lambda>i. i\<lparr>ci_mem_used_pgcnt := uncount_all [] (ci_mem_used_pgcnt i)\<rparr>) (cx_store (ad_cxpu d) a)
        else cx_store (ad_cxpu d) a) = cx_store (ad_cxpu d)"
    by (auto simp: uncount_all_def fun_eq_iff option.map_ident)
  show ?case
    by (rule exI [of _ "ad_cxpu d"]) (simp only: 1 2 call_back.simps Nil.prems(3) simp_thms)
next
  case (Cons c cs)
  let ?k = "cb_mem_kind c" and ?f = "\<lambda>n. u64_sub n (cb_pages c)"
  let ?p = "p\<lparr>mu_used := (mu_used p)[?k := ?f (mu_used p ! ?k)]\<rparr>"
  from charge_with_ok [OF Cons.prems(3,4), where f = ?f and k = ?k] obtain cx1 where
    cx1: "charge_with ?f (ad_cxpu d) (mu_instance p) ?k = Some cx1" "cx_ok hold mt lt cx1"
      "cx_store cx1 = recharge ?f (mu_instance p) ?k (cx_store (ad_cxpu d))" by blast
  let ?d = "d\<lparr>ad_uproc := (ad_uproc d)(u \<mapsto> ?p), ad_cxpu := cx1\<rparr>"
  have one: "kl2_mm_free_update_stat_cb c d = Some ?d"
    using Cons.prems cx1(1)
    by (simp add: kl2_mm_free_update_stat_cb_def count_pages_def upd_mu_def kl_cxpu_instance_sub_mem_used_def)
  have "\<exists>cx'. call_back kl2_mm_free_update_stat_cb cs ?d =
      Some (?d\<lparr>ad_uproc := (ad_uproc ?d)(u \<mapsto> ?p\<lparr>mu_used := uncount_all cs (mu_used ?p)\<rparr>), ad_cxpu := cx'\<rparr>) \<and>
      cx_ok hold mt lt cx' \<and>
      cx_store cx' = (\<lambda>a. if mu_instance ?p = Some a
        then map_option (\<lambda>i. i\<lparr>ci_mem_used_pgcnt := uncount_all cs (ci_mem_used_pgcnt i)\<rparr>) (cx_store (ad_cxpu ?d) a)
        else cx_store (ad_cxpu ?d) a)"
    by (rule Cons.IH) (use Cons.prems cx1 in simp_all)
  then obtain cx' where cx': "call_back kl2_mm_free_update_stat_cb cs ?d =
      Some (?d\<lparr>ad_uproc := (ad_uproc ?d)(u \<mapsto> ?p\<lparr>mu_used := uncount_all cs (mu_used ?p)\<rparr>), ad_cxpu := cx'\<rparr>)"
      "cx_ok hold mt lt cx'"
      "cx_store cx' = (\<lambda>a. if mu_instance ?p = Some a
        then map_option (\<lambda>i. i\<lparr>ci_mem_used_pgcnt := uncount_all cs (ci_mem_used_pgcnt i)\<rparr>) (cx_store (ad_cxpu ?d) a)
        else cx_store (ad_cxpu ?d) a)" by blast
  have step: "uncount_all (c # cs) xs = uncount_all cs (xs[?k := ?f (xs ! ?k)])" for xs by (simp add: uncount_all_def)
  have st: "cx_store cx' = (\<lambda>a. if mu_instance p = Some a
        then map_option (\<lambda>i. i\<lparr>ci_mem_used_pgcnt := uncount_all (c # cs) (ci_mem_used_pgcnt i)\<rparr>) (cx_store (ad_cxpu d) a)
        else cx_store (ad_cxpu d) a)"
    unfolding cx'(3) step by (auto simp: fun_eq_iff cx1(3) recharge_def option.map_comp comp_def)
  have "call_back kl2_mm_free_update_stat_cb (c # cs) d =
      Some (d\<lparr>ad_uproc := (ad_uproc d)(u \<mapsto> p\<lparr>mu_used := uncount_all (c # cs) (mu_used p)\<rparr>), ad_cxpu := cx'\<rparr>)"
    using one cx'(1) by (simp add: step)
  with cx'(2) st show ?case by blast
qed


lemma free_step:
  assumes ok: "mem_ok mt lt st" and up: "ad_sess (ms_dev st) s = Some u" "ad_uproc (ms_dev st) u = Some p"
    and mm: "same_regions (ad_mm (ms_dev st)) mm'" "mm_wf mm'"
    and ow: "\<And>w. has_owner mm' w \<Longrightarrow> has_owner (ad_mm (ms_dev st)) w"
    and cs: "\<forall>c\<in>set cs. cb_owner c = s"
    and pages: "\<And>g c k. kind_pages g c k mm' + (if g s = c then calls_pages k cs else 0) = kind_pages g c k (ad_mm (ms_dev st))"
  obtains d' where "call_back kl2_mm_free_update_stat_cb cs ((ms_dev st)\<lparr>ad_mm := mm'\<rparr>) = Some d'"
    "mem_ok mt lt (st\<lparr>ms_dev := d'\<rparr>)" "same_shape (ms_dev st) d'" "ad_mm d' = mm'"
    "\<And>grp. calm grp st (st\<lparr>ms_dev := d'\<rparr>)"
    "ad_uproc d' = (ad_uproc (ms_dev st))(u \<mapsto> p\<lparr>mu_used := uncount_all cs (mu_used p)\<rparr>)"
proof -
  let ?d = "ms_dev st" and ?p = "p\<lparr>mu_used := uncount_all cs (mu_used p)\<rparr>"
  have ins: "cx_store (ad_cxpu ?d) a \<noteq> None" if "mu_instance p = Some a" for a
    using mem_okD(3) [OF ok] up(2) that unfolding procs_ok_def by blast
  have len: "length (mu_used p) = XPU_MEM_COUNT" using mem_okD(3) [OF ok] up(2) unfolding procs_ok_def by blast
  have "\<exists>cx'. call_back kl2_mm_free_update_stat_cb cs (?d\<lparr>ad_mm := mm'\<rparr>) =
      Some (?d\<lparr>ad_mm := mm', ad_uproc := (ad_uproc ?d)(u \<mapsto> ?p), ad_cxpu := cx'\<rparr>) \<and>
      cx_ok (holders ?d) mt lt cx' \<and>
      cx_store cx' = (\<lambda>a. if mu_instance p = Some a
        then map_option (\<lambda>i. i\<lparr>ci_mem_used_pgcnt := uncount_all cs (ci_mem_used_pgcnt i)\<rparr>) (cx_store (ad_cxpu ?d) a)
        else cx_store (ad_cxpu ?d) a)"
    using free_calls_effect [of "?d\<lparr>ad_mm := mm'\<rparr>" s u p "holders ?d" mt lt cs] up mem_okD(2) [OF ok] ins cs by (simp cong: if_cong)
  then obtain cx' where cb: "call_back kl2_mm_free_update_stat_cb cs (?d\<lparr>ad_mm := mm'\<rparr>) =
      Some (?d\<lparr>ad_mm := mm', ad_uproc := (ad_uproc ?d)(u \<mapsto> ?p), ad_cxpu := cx'\<rparr>)"
    and cx: "cx_ok (holders ?d) mt lt cx'"
    and sto: "cx_store cx' = (\<lambda>a. if mu_instance p = Some a
        then map_option (\<lambda>i. i\<lparr>ci_mem_used_pgcnt := uncount_all cs (ci_mem_used_pgcnt i)\<rparr>) (cx_store (ad_cxpu ?d) a)
        else cx_store (ad_cxpu ?d) a)" by blast
  let ?d' = "?d\<lparr>ad_mm := mm', ad_uproc := (ad_uproc ?d)(u \<mapsto> ?p), ad_cxpu := cx'\<rparr>"
  let ?st = "st\<lparr>ms_dev := ?d'\<rparr>"
  have sh: "same_shape ?d ?d'"
    by (rule same_shape_upd [where u = u and p = p and p' = ?p]) (simp_all add: up sto)
  have tot: "inst_total ?st a k + (if mu_instance p = Some a then calls_pages k cs else 0) = inst_total st a k" for a k
  proof -
    have "inst_of ?d s = Suc a \<longleftrightarrow> mu_instance p = Some a" using up by (simp add: inst_of_def split: option.splits)
    then have "kind_pages (inst_of ?d) (Suc a) k mm' + (if mu_instance p = Some a then calls_pages k cs else 0) =
        kind_pages (inst_of ?d) (Suc a) k (ad_mm ?d)" using pages [of "inst_of ?d" "Suc a" k] by simp
    moreover have "inst_total ?st a k = kind_pages (inst_of ?d) (Suc a) k mm' + pending (inst_of ?d) (Suc a) k (ms_threads st)"
      by (simp add: inst_total_def same_shape_keeps(2) [OF sh])
    ultimately show ?thesis unfolding inst_total_def [of st] by linarith
  qed
  have ptot: "proc_total ?d' u' k + (if u' = u then calls_pages k cs else 0) = proc_total ?d u' k" for u' k
  proof -
    have "proc_of ?d s = Suc u' \<longleftrightarrow> u' = u" using up by (auto simp: proc_of_def)
    then show ?thesis using pages [of "proc_of ?d" "Suc u'" k]
      unfolding proc_total_def same_shape_keeps(1) [OF sh] by simp
  qed
  have "mem_counts_ok ?st"
  proof (rule counts_okI)
    fix u' q k assume k: "k < XPU_MEM_COUNT" "k \<noteq> XPU_MEM_PARAM" and q: "ad_uproc (ms_dev ?st) u' = Some q"
    show "mu_used q ! k = u64 (proc_total (ms_dev ?st) u' k)"
    proof (cases "u' = u")
      case True
      then have "mu_used p ! k = u64 (proc_total ?d' u k + calls_pages k cs)"
        using mem_counts_okD(1) [OF mem_okD(6) [OF ok] k up(2)] ptot [of u k] by simp
      then have "uncount_all cs (mu_used p) ! k = u64 (proc_total ?d' u k)" using k(1) len by (intro uncount_all_nth) simp_all
      moreover have "q = ?p" using True q by simp
      ultimately show ?thesis using True by simp
    next
      case False
      then show ?thesis using mem_counts_okD(1) [OF mem_okD(6) [OF ok] k, of u' q] ptot [of u' k] q by simp
    qed
  next
    fix a i k assume k: "k < XPU_MEM_COUNT" "k \<noteq> XPU_MEM_PARAM" and i: "cx_store (ad_cxpu (ms_dev ?st)) a = Some i"
    show "ci_mem_used_pgcnt i ! k = u64 (inst_total ?st a k)"
    proof (cases "mu_instance p = Some a")
      case True
      then obtain j where j: "cx_store (ad_cxpu ?d) a = Some j" "i = j\<lparr>ci_mem_used_pgcnt := uncount_all cs (ci_mem_used_pgcnt j)\<rparr>"
        using i sto by auto
      have "ci_mem_used_pgcnt j ! k = u64 (inst_total ?st a k + calls_pages k cs)"
        using mem_counts_okD(2) [OF mem_okD(6) [OF ok] k j(1)] tot [of a k] True by simp
      then have "uncount_all cs (ci_mem_used_pgcnt j) ! k = u64 (inst_total ?st a k)"
        using k(1) used_length [OF mem_okD(2) [OF ok] j(1)] by (intro uncount_all_nth) simp_all
      then show ?thesis using j(2) by simp
    next
      case False
      then show ?thesis using mem_counts_okD(2) [OF mem_okD(6) [OF ok] k, of a i] tot [of a k] i sto by simp
    qed
  qed
  moreover have "locks_ok ?st"
    using mem_okD(7) [OF ok] up(2) by (auto simp: locks_ok_def same_shape_keeps(6) [OF sh] split: if_splits)
  ultimately have "mem_ok mt lt ?st"
    using ow mem_okD(4) [OF ok] by (intro mem_ok_shape [OF ok]) (simp_all add: sh mm cx)
  moreover have "calm grp st ?st" for grp
  proof (rule calm_shape)
    show "reserved ?st a k \<le> reserved st a k" for a k
      using pages [of "inst_of ?d" "Suc a" k] by (simp add: reserved_def same_shape_keeps(2) [OF sh])
    show "\<exists>j. cx_store (ad_cxpu (ms_dev st)) a = Some j \<and> ci_mem_limit_pgcnt i = ci_mem_limit_pgcnt j \<and> ci_token i = ci_token j"
      if "cx_store (ad_cxpu (ms_dev ?st)) a = Some i" for a i
      using that by (auto simp: sto split: if_splits)
  qed (use sh in simp)
  ultimately show ?thesis using cb sh by (intro that [of ?d']) simp_all
qed

lemma block_pages:
  assumes m: "mem_wf m" and q: "mem_blocks m q = Some (n, s)"
  shows "malloc_pages_needed m (u64 (n * km_page_size m)) = n"
proof -
  from blocks_range [OF mem_wf_tables(1) [OF m] q] have n: "0 < n" "n \<le> km_page_count m" by auto
  have "n * km_page_size m \<le> km_page_count m * km_page_size m" using n by simp
  also have "\<dots> \<le> km_limit m" using m by (simp add: mem_wf_def)
  also have "\<dots> < 2 ^ 64" using m by (simp add: mem_wf_def)
  finally show ?thesis using malloc_pages_needed_whole [OF m n] by (simp add: u64_id)
qed

lemma kl_mm_free_cases:
  assumes wf: "mm_wf mm"
  obtains (rejected) "\<And>cb. kl_mm_free mm addr w cb = Some (Some XPUERR_INVALID_PARAM, mm, [])"
  | (freed) i q k where "i < length (mm_mem mm)" "mem_blocks (mm_mem mm ! i) q = Some (k, w)"
      "find_memory_by_addr mm addr = Some i"
      "\<And>cb. kl_mm_free mm addr w cb = Some (None, set_mem mm i (release_pages (mm_mem mm ! i) q k),
         if cb then [cb_call addr (u64 (k * km_page_size (mm_mem mm ! i))) (km_kind (mm_mem mm ! i)) w (mm_mem mm ! i)] else [])"
      "mm_wf (set_mem mm i (release_pages (mm_mem mm ! i) q k))"
proof (cases "find_memory_by_addr mm addr")
  case None
  then show ?thesis by (intro rejected) (simp add: kl_mm_free_def)
next
  case (Some i)
  then have i: "i < length (mm_mem mm)" "km_base (mm_mem mm ! i) \<le> addr" "addr < km_limit (mm_mem mm ! i)"
    by (auto simp: find_memory_by_addr_def find_Some_iff)
  let ?q = "addr_to_pageid (mm_mem mm ! i) addr"
  show ?thesis
  proof (cases "\<exists>k. mem_blocks (mm_mem mm ! i) ?q = Some (k, w)")
    case True
    then obtain k where k: "mem_blocks (mm_mem mm ! i) ?q = Some (k, w)" by blast
    show ?thesis by (rule freed [OF i(1) k Some kl_mm_free_own(1) [OF wf i k] kl_mm_free_own(2) [OF wf i k]])
  next
    case False
    then show ?thesis by (intro rejected kl_mm_free_reject [OF wf i])
  qed
qed

lemma has_owner_release:
  assumes wf: "mem_wf (mm_mem mm ! i)" and i: "i < length (mm_mem mm)" and b: "mem_blocks (mm_mem mm ! i) q = Some (k, s)"
    and w: "has_owner (set_mem mm i (release_pages (mm_mem mm ! i) q k)) w"
  shows "has_owner mm w"
  using has_owner_set_mem [OF w]
proof
  assume "\<exists>r n. mem_blocks (release_pages (mm_mem mm ! i) q k) r = Some (n, w)"
  then have "\<exists>r n. mem_blocks (mm_mem mm ! i) r = Some (n, w)"
    using release_pages_wf(2) [OF wf b] by (auto split: if_splits)
  then show ?thesis using nth_mem [OF i] unfolding has_owner_def by blast
qed

lemma mem_free_effect:
  assumes ok: "mem_ok mt lt st" and up: "ad_sess (ms_dev st) s = Some u" "ad_uproc (ms_dev st) u = Some p"
  obtains (rejected) "mem_free (ms_dev st) s addr = Some (Some XPUERR_INVALID_PARAM, ms_dev st)"
  | (freed) d' i q k where "mem_free (ms_dev st) s addr = Some (None, d')" "mem_ok mt lt (st\<lparr>ms_dev := d'\<rparr>)"
      "same_shape (ms_dev st) d'"
      "\<And>grp. calm grp st (st\<lparr>ms_dev := d'\<rparr>)"
      "i < length (mm_mem (ad_mm (ms_dev st)))" "mem_blocks (mm_mem (ad_mm (ms_dev st)) ! i) q = Some (k, s)"
      "ad_mm d' = set_mem (ad_mm (ms_dev st)) i (release_pages (mm_mem (ad_mm (ms_dev st)) ! i) q k)"
      "ad_uproc d' = (ad_uproc (ms_dev st))(u \<mapsto> p\<lparr>mu_used := (mu_used p)
         [km_kind (mm_mem (ad_mm (ms_dev st)) ! i) := u64_sub (mu_used p ! km_kind (mm_mem (ad_mm (ms_dev st)) ! i)) k]\<rparr>)"
proof (cases rule: kl_mm_free_cases [OF mem_okD(8) [OF ok], where addr = addr and w = s, case_names rejected freed])
  case rejected
  then show ?thesis by (intro that(1)) (simp add: mem_free_def)
next
  case (freed i q k)
  let ?d = "ms_dev st" and ?m = "mm_mem (ad_mm (ms_dev st)) ! i"
  let ?mm' = "set_mem (ad_mm ?d) i (release_pages ?m q k)"
  let ?c = "cb_call addr (u64 (k * km_page_size ?m)) (km_kind ?m) s ?m"
  have m: "mem_wf ?m" using mm_wfD [OF mem_okD(8) [OF ok] freed(1)] by simp
  have pg: "cb_pages ?c = k" unfolding cb_pages_call by (rule block_pages [OF m freed(2)])
  have pages: "kind_pages g c n ?mm' + (if g s = c then calls_pages n [?c] else 0) = kind_pages g c n (ad_mm ?d)" for g c n
    using kind_pages_release [OF mem_okD(8) [OF ok] freed(1,2), of g c n] pg
    by (auto simp: calls_pages_def cb_kind_call)
  obtain d' where d': "call_back kl2_mm_free_update_stat_cb [?c] (?d\<lparr>ad_mm := ?mm'\<rparr>) = Some d'"
    "mem_ok mt lt (st\<lparr>ms_dev := d'\<rparr>)" "same_shape ?d d'" "ad_mm d' = ?mm'"
    "\<forall>grp. calm grp st (st\<lparr>ms_dev := d'\<rparr>)"
    "ad_uproc d' = (ad_uproc ?d)(u \<mapsto> p\<lparr>mu_used := uncount_all [?c] (mu_used p)\<rparr>)"
  proof (rule free_step [OF ok up _ freed(5) _ _ pages])
    show "same_regions (ad_mm ?d) ?mm'" by (rule same_regions_set_mem) simp
    show "has_owner (ad_mm ?d) w" if "has_owner ?mm' w" for w by (rule has_owner_release [OF m freed(1,2) that])
    show "\<forall>c\<in>set [?c]. cb_owner c = s" by (simp add: cb_call_def)
  qed blast
  show ?thesis
  proof (rule that(2) [OF _ d'(2,3) _ freed(1,2) d'(4)])
    show "mem_free ?d s addr = Some (None, d')"
      using freed(4) [of True] d'(1) unfolding mem_free_def by simp
    show "ad_uproc d' = (ad_uproc ?d)(u \<mapsto> p\<lparr>mu_used := (mu_used p)[km_kind ?m := u64_sub (mu_used p ! km_kind ?m) k]\<rparr>)"
      using d'(6) by (simp add: uncount_all_def pg cb_kind_call)
  qed (use d'(5) in blast)
qed

end
