(* ===== verification/Kl2_Alloc_Frame.thy ===== *)
theory Kl2_Alloc_Frame
  imports Kl2_Alloc_Free
begin

text \<open>
  The step that takes pages, and the steps of launches, which allocate and free parameter memory without
  counting it.
\<close>

section \<open>Steps of requests that free, and of tasks\<close>

lemma calm_refl [simp]: "calm grp st st"
  unfolding calm_def by fastforce

lemma free_step_ok:
  assumes ok: "mem_ok mt lt st" and en: "enabled (Op_free s addr) st"
  shows "\<exists>st'. exec find_area (Op_free s addr) st = Some st' \<and> mem_ok mt lt st' \<and> calm grp st st'"
proof -
  from en have "ad_sess (ms_dev st) s \<noteq> None" by (simp add: unlocked_open)
  from open_session_proc [OF mem_okD(3) [OF ok] this] obtain u p where
    up: "ad_sess (ms_dev st) s = Some u" "ad_uproc (ms_dev st) u = Some p" by metis
  show ?thesis
    by (rule mem_free_effect [OF ok up, where addr = addr]) (use ok in \<open>simp_all add: ioctl_free_def\<close>)
qed

lemma param_frame_step:
  assumes ok: "mem_ok mt lt st" and mm: "same_regions (ad_mm (ms_dev st)) mm'" "mm_wf mm'"
    and ow: "\<And>w. has_owner mm' w \<Longrightarrow> ad_sess (ms_dev st) w \<noteq> None"
    and pages: "\<And>g c k. k \<noteq> XPU_MEM_PARAM \<Longrightarrow> kind_pages g c k mm' = kind_pages g c k (ad_mm (ms_dev st))"
  shows "mem_ok mt lt (st\<lparr>ms_dev := (ms_dev st)\<lparr>ad_mm := mm'\<rparr>\<rparr>) \<and> calm grp st (st\<lparr>ms_dev := (ms_dev st)\<lparr>ad_mm := mm'\<rparr>\<rparr>)"
proof -
  let ?d = "ms_dev st" and ?d' = "(ms_dev st)\<lparr>ad_mm := mm'\<rparr>"
  have sh: "same_shape ?d ?d'" by (simp add: same_shape_def)
  have tot: "inst_total (st\<lparr>ms_dev := ?d'\<rparr>) a k = inst_total st a k" if "k \<noteq> XPU_MEM_PARAM" for a k
    using pages [OF that] by (simp add: inst_total_def same_shape_keeps(2) [OF sh])
  have ptot: "proc_total ?d' u k = proc_total ?d u k" if "k \<noteq> XPU_MEM_PARAM" for u k
    using pages [OF that] by (simp add: proc_total_def same_shape_keeps(1) [OF sh])
  have "calm grp st (st\<lparr>ms_dev := ?d'\<rparr>)"
  proof (rule calm_shape)
    show "reserved (st\<lparr>ms_dev := ?d'\<rparr>) a k \<le> reserved st a k" if "k \<noteq> XPU_MEM_PARAM" for a k
      using pages [OF that] by (simp add: reserved_def same_shape_keeps(2) [OF sh])
  qed (use sh in simp_all)
  moreover have "mem_ok mt lt (st\<lparr>ms_dev := ?d'\<rparr>)"
  proof (rule mem_ok_shape [OF ok])
    show "mem_counts_ok (st\<lparr>ms_dev := ?d'\<rparr>)"
      by (rule counts_okI) (use mem_counts_okD [OF mem_okD(6) [OF ok]] in \<open>simp_all add: tot ptot\<close>)
    show "locks_ok (st\<lparr>ms_dev := ?d'\<rparr>)"
      using mem_okD(7) [OF ok] by (simp add: locks_ok_def same_shape_keeps(6) [OF sh])
  qed (use sh mm ow mem_okD(2) [OF ok] in simp_all)
  ultimately show ?thesis by blast
qed

lemma param_alloc_step_ok:
  assumes fa: "zero_area_finder find_area" and ok: "mem_ok mt lt st" and en: "enabled (Op_param_alloc s bytes) st"
  shows "\<exists>st'. exec find_area (Op_param_alloc s bytes) st = Some st' \<and> mem_ok mt lt st' \<and> calm grp st st'"
proof (cases "bytes = 0")
  case True
  have "st\<lparr>ms_dev := (ms_dev st)\<lparr>ad_mm := ad_mm (ms_dev st)\<rparr>\<rparr> = st" by simp
  with True ok show ?thesis by (simp add: param_alloc_def kl_mm_malloc_def)
next
  case False
  let ?d = "ms_dev st" and ?mm = "ad_mm (ms_dev st)"
  have b: "0 < bytes" "bytes + 2 ^ 32 \<le> 2 ^ 64" "XPU_MEM_PARAM \<noteq> XPU_MEM_MAIN_KL2_HUGE" "ad_sess ?d s \<noteq> None"
    using False en by (simp_all add: xpu_mem_kinds)
  from kl_mm_malloc_cases [OF fa mem_okD(8) [OF ok] b(1-3), of s False] show ?thesis
  proof (elim disjE conjE exE)
    assume "kl_mm_malloc find_area ?mm bytes XPU_MEM_PARAM (Some s) False = Some (Inl XPUERR_NOMEM, ?mm, [])"
    then have "exec find_area (Op_param_alloc s bytes) st = Some st" by (simp add: param_alloc_def)
    with ok calm_refl show ?thesis by blast
  next
    fix i m' addr
    assume r: "kl_mm_malloc find_area ?mm bytes XPU_MEM_PARAM (Some s) False = Some (Inr (addr, Some i), set_mem ?mm i m',
          if False then [cb_call addr bytes XPU_MEM_PARAM s (mm_mem ?mm ! i)] else [])"
      and i: "i < length (mm_mem ?mm)" "km_kind (mm_mem ?mm ! i) = XPU_MEM_PARAM"
      and al: "allocated (mm_mem ?mm ! i) (malloc_pages_needed (mm_mem ?mm ! i) bytes) s m' addr"
      and wf: "mm_wf (set_mem ?mm i m')"
    have "mem_ok mt lt (st\<lparr>ms_dev := ?d\<lparr>ad_mm := set_mem ?mm i m'\<rparr>\<rparr>) \<and> calm grp st (st\<lparr>ms_dev := ?d\<lparr>ad_mm := set_mem ?mm i m'\<rparr>\<rparr>)"
    proof (rule param_frame_step [OF ok same_regions_set_mem [OF allocated_same [OF al]] wf])
      show "ad_sess ?d w \<noteq> None" if "has_owner (set_mem ?mm i m') w" for w
        by (rule take_owners [OF ok i(1) al b(4) that])
      show "kind_pages g c k (set_mem ?mm i m') = kind_pages g c k ?mm" if "k \<noteq> XPU_MEM_PARAM" for g c k
        using kind_pages_alloc [OF mem_okD(8) [OF ok] i(1) al, of g c k] i(2) that by simp
    qed
    with r show ?thesis by (simp add: param_alloc_def)
  qed
qed

lemma param_free_step_ok:
  assumes ok: "mem_ok mt lt st" and en: "enabled (Op_param_free s addr) st"
  shows "\<exists>st'. exec find_area (Op_param_free s addr) st = Some st' \<and> mem_ok mt lt st' \<and> calm grp st st'"
proof (cases rule: kl_mm_free_cases [OF mem_okD(8) [OF ok], where addr = addr and w = s, case_names rejected freed])
  case rejected
  then have "exec find_area (Op_param_free s addr) st = Some st" by (simp add: param_free_def)
  with ok calm_refl show ?thesis by blast
next
  case (freed i q k)
  let ?mm = "ad_mm (ms_dev st)" and ?m = "mm_mem (ad_mm (ms_dev st)) ! i"
  have m: "mem_wf ?m" using mm_wfD [OF mem_okD(8) [OF ok] freed(1)] by simp
  have kd: "km_kind ?m = XPU_MEM_PARAM" using en freed(3) by simp
  have "mem_ok mt lt (st\<lparr>ms_dev := (ms_dev st)\<lparr>ad_mm := set_mem ?mm i (release_pages ?m q k)\<rparr>\<rparr>) \<and>
      calm grp st (st\<lparr>ms_dev := (ms_dev st)\<lparr>ad_mm := set_mem ?mm i (release_pages ?m q k)\<rparr>\<rparr>)"
  proof (rule param_frame_step [OF ok _ freed(5)])
    show "same_regions ?mm (set_mem ?mm i (release_pages ?m q k))" by (rule same_regions_set_mem) simp
    show "ad_sess (ms_dev st) w \<noteq> None" if "has_owner (set_mem ?mm i (release_pages ?m q k)) w" for w
      by (rule mem_okD(4) [OF ok has_owner_release [OF m freed(1,2) that]])
    show "kind_pages g c n (set_mem ?mm i (release_pages ?m q k)) = kind_pages g c n ?mm" if "n \<noteq> XPU_MEM_PARAM" for g c n
      using kind_pages_release [OF mem_okD(8) [OF ok] freed(1,2), of g c n] kd that by simp
  qed
  with freed(4) show ?thesis by (simp add: param_free_def)
qed

section \<open>Steps that leave memory and threads alone\<close>

lemma pc_pages_cong:
  "(\<And>w. pc_session pc = Some w \<Longrightarrow> (g w = c) = (g' w = c)) \<Longrightarrow> pc_pages g c k pc = pc_pages g' c k pc"
  by (cases pc) simp_all

lemma pending_cong:
  assumes "\<And>pc w. pc \<in> set ths \<Longrightarrow> pc_session pc = Some w \<Longrightarrow> (g w = c) = (g' w = c)"
  shows "pending g c k ths = pending g' c k ths"
  unfolding pending_def by (rule arg_cong [where f = sum_list], rule map_cong [OF refl], rule pc_pages_cong) (rule assms)

definition live :: "kl2_mem_state \<Rightarrow> nat \<Rightarrow> bool" where
  "live st w \<longleftrightarrow> has_owner (ad_mm (ms_dev st)) w \<or> busy st w"

lemma live_open: "mem_ok mt lt st \<Longrightarrow> live st w \<Longrightarrow> ad_sess (ms_dev st) w \<noteq> None"
proof -
  assume ok: "mem_ok mt lt st" and l: "live st w"
  show ?thesis
  proof (cases "has_owner (ad_mm (ms_dev st)) w")
    case True then show ?thesis by (rule mem_okD(4) [OF ok])
  next
    case False
    then obtain pc where pc: "pc \<in> set (ms_threads st)" "pc_session pc = Some w"
      using l by (force simp: live_def busy_def)
    from mem_okD(5) [OF ok pc(1)] pc(2) show ?thesis by (cases pc) auto
  qed
qed

lemma busyI: "pc \<in> set (ms_threads st) \<Longrightarrow> pc_session pc = Some w \<Longrightarrow> busy st w"
  by (force simp: busy_def)

lemma mem_ok_frame:
  assumes ok: "mem_ok mt lt st" and mm: "ad_mm d' = ad_mm (ms_dev st)"
    and cx: "cx_ok (holders d') mt lt (ad_cxpu d')" and pr: "procs_ok d'"
    and lv: "\<And>w. live st w \<Longrightarrow> ad_sess d' w = ad_sess (ms_dev st) w \<and> inst_of d' w = inst_of (ms_dev st) w"
    and up: "\<And>u p. ad_uproc d' u = Some p \<Longrightarrow>
      (\<exists>q. ad_uproc (ms_dev st) u = Some q \<and> mu_used p = mu_used q \<and> mu_locked p = mu_locked q) \<or>
      (ad_uproc (ms_dev st) u = None \<and> mu_used p = replicate XPU_MEM_COUNT 0 \<and> \<not> mu_locked p)"
    and ins: "\<And>a i. cx_store (ad_cxpu d') a = Some i \<Longrightarrow>
      (\<exists>j. cx_store (ad_cxpu (ms_dev st)) a = Some j \<and> ci_mem_used_pgcnt i = ci_mem_used_pgcnt j) \<or>
      (cx_store (ad_cxpu (ms_dev st)) a = None \<and> ci_mem_used_pgcnt i = replicate XPU_MEM_COUNT 0)"
  shows "mem_ok mt lt (st\<lparr>ms_dev := d'\<rparr>)" "reserved (st\<lparr>ms_dev := d'\<rparr>) a k = reserved st a k"
proof -
  let ?d = "ms_dev st" and ?st = "st\<lparr>ms_dev := d'\<rparr>"
  have lo: "live st w" if "has_owner (ad_mm ?d) w" for w using that by (simp add: live_def)
  have lb: "live st w" if "pc \<in> set (ms_threads st)" "pc_session pc = Some w" for pc w
    using busyI [OF that] by (simp add: live_def)
  have tot: "inst_total ?st a k = inst_total st a k" for a k
  proof -
    have "kind_pages (inst_of d') (Suc a) k (ad_mm ?d) = kind_pages (inst_of ?d) (Suc a) k (ad_mm ?d)"
      by (rule kind_pages_cong) (use lv lo in simp)
    moreover have "pending (inst_of d') (Suc a) k (ms_threads st) = pending (inst_of ?d) (Suc a) k (ms_threads st)"
      by (rule pending_cong) (use lv lb in simp)
    ultimately show ?thesis by (simp add: inst_total_def mm)
  qed
  have "(\<Sum>pc\<leftarrow>ms_threads st. pc_pages (inst_of d') (Suc a) k pc + pc_tested (inst_of d') (Suc a) k pc) =
      (\<Sum>pc\<leftarrow>ms_threads st. pc_pages (inst_of ?d) (Suc a) k pc + pc_tested (inst_of ?d) (Suc a) k pc)"
  proof (rule arg_cong [where f = sum_list], rule map_cong [OF refl])
    fix pc assume pc: "pc \<in> set (ms_threads st)"
    show "pc_pages (inst_of d') (Suc a) k pc + pc_tested (inst_of d') (Suc a) k pc =
        pc_pages (inst_of ?d) (Suc a) k pc + pc_tested (inst_of ?d) (Suc a) k pc"
      using lv [OF lb [OF pc]] by (cases pc) simp_all
  qed
  moreover have "kind_pages (inst_of d') (Suc a) k (ad_mm ?d) = kind_pages (inst_of ?d) (Suc a) k (ad_mm ?d)"
    by (rule kind_pages_cong) (use lv lo in simp)
  ultimately show "reserved ?st a k = reserved st a k" by (simp add: reserved_def mm)
  have ptot: "proc_total d' u k = proc_total ?d u k" for u k
    unfolding proc_total_def mm by (rule kind_pages_cong) (use lv lo in \<open>simp add: proc_of_def\<close>)
  have lk: "(\<Sum>pc\<leftarrow>ms_threads st. pc_locks d' u pc) = (\<Sum>pc\<leftarrow>ms_threads st. pc_locks ?d u pc)" for u
  proof (rule arg_cong [where f = sum_list], rule map_cong [OF refl])
    fix pc assume pc: "pc \<in> set (ms_threads st)"
    show "pc_locks d' u pc = pc_locks ?d u pc" using lv [OF lb [OF pc]] by (cases pc) simp_all
  qed
  have new: "ad_sess ?d w \<noteq> Some u" if "ad_uproc ?d u = None" for w u
    using mem_okD(3) [OF ok] that unfolding procs_ok_def by blast
  have pz: "proc_total ?d u k = 0" if "ad_uproc ?d u = None" for u k
    unfolding proc_total_def by (rule kind_pages_none) (use new [OF that] in \<open>auto simp: proc_of_def split: option.splits\<close>)
  have nins: "inst_of ?d w \<noteq> Suc a" if "cx_store (ad_cxpu ?d) a = None" for w a
  proof
    assume "inst_of ?d w = Suc a"
    then obtain u p where "ad_uproc ?d u = Some p" "mu_instance p = Some a"
      by (auto simp: inst_of_def split: option.splits)
    with that mem_okD(3) [OF ok] show False unfolding procs_ok_def by blast
  qed
  have iz: "inst_total st a k = 0" if "cx_store (ad_cxpu ?d) a = None" for a k
  proof -
    have "kind_pages (inst_of ?d) (Suc a) k (ad_mm ?d) = 0" by (rule kind_pages_none) (rule nins [OF that])
    moreover have "pc_pages (inst_of ?d) (Suc a) k pc = 0" for pc using nins [OF that] by (cases pc) simp_all
    ultimately show ?thesis by (simp add: inst_total_def pending_def)
  qed
  have "mem_counts_ok ?st"
  proof (rule counts_okI)
    fix u p k assume k: "k < XPU_MEM_COUNT" "k \<noteq> XPU_MEM_PARAM" and p: "ad_uproc (ms_dev ?st) u = Some p"
    from up [of u p] p show "mu_used p ! k = u64 (proc_total (ms_dev ?st) u k)"
      using mem_counts_okD(1) [OF mem_okD(6) [OF ok] k, of u] k(1) pz [of u k] by (auto simp: ptot u64_def)
  next
    fix a i k assume k: "k < XPU_MEM_COUNT" "k \<noteq> XPU_MEM_PARAM" and i: "cx_store (ad_cxpu (ms_dev ?st)) a = Some i"
    from ins [of a i] i show "ci_mem_used_pgcnt i ! k = u64 (inst_total ?st a k)"
      using mem_counts_okD(2) [OF mem_okD(6) [OF ok] k, of a] k(1) iz [of a k] by (auto simp: tot u64_def)
  qed
  moreover have "locks_ok ?st"
  proof -
    have "(\<Sum>pc\<leftarrow>ms_threads st. pc_locks ?d u pc) = (if mu_locked p then 1 else 0)" if p: "ad_uproc d' u = Some p" for u p
      using up [OF p]
    proof
      assume "\<exists>q. ad_uproc ?d u = Some q \<and> mu_used p = mu_used q \<and> mu_locked p = mu_locked q"
      then show ?thesis using mem_okD(7) [OF ok] unfolding locks_ok_def by metis
    next
      assume n: "ad_uproc ?d u = None \<and> mu_used p = replicate XPU_MEM_COUNT 0 \<and> \<not> mu_locked p"
      have "pc_locks ?d u pc = 0" for pc using new [of u] n by (cases pc) simp_all
      with n show ?thesis by simp
    qed
    then show ?thesis by (simp add: locks_ok_def lk)
  qed
  moreover have "pc_ok d' pc" if "pc \<in> set (ms_threads st)" for pc
    using mem_okD(5) [OF ok that] lv [OF lb [OF that]] malloc_region_same [of ?d d'] mm by (cases pc) simp_all
  moreover have "ad_sess d' w \<noteq> None" if "has_owner (ad_mm d') w" for w
    using that mem_okD(4) [OF ok, of w] lv [OF lo [of w]] mm by simp
  ultimately show "mem_ok mt lt ?st" using mem_okD(1) [OF ok] cx pr mm by (simp add: mem_ok_def)
qed

end
