(* ===== verification/Kl2_Alloc_Life.thy ===== *)
theory Kl2_Alloc_Life
  imports Kl2_Alloc_Frame
begin

text \<open>
  Opening sessions: the references of processes and instances, and the first session of a process.
\<close>

section \<open>Sessions and processes come and go\<close>

lemma procs_okD:
  assumes "procs_ok d"
  shows "finite (dom (ad_sess d))" "ad_sess d s = Some u \<Longrightarrow> ad_uproc d u \<noteq> None"
    "ad_uproc d u = Some p \<Longrightarrow> mu_refs p = card {s. ad_sess d s = Some u}" "ad_uproc d u = Some p \<Longrightarrow> 0 < mu_refs p"
    "ad_uproc d u = Some p \<Longrightarrow> length (mu_used p) = XPU_MEM_COUNT"
    "ad_uproc d u = Some p \<Longrightarrow> mu_instance p = Some a \<Longrightarrow> cx_store (ad_cxpu d) a \<noteq> None"
  using assms unfolding procs_ok_def by blast+

lemma sessions_finite: "procs_ok d \<Longrightarrow> finite {s. ad_sess d s = Some u}"
  by (rule finite_subset [OF _ procs_okD(1)]) auto

lemma uproc_finite:
  assumes "procs_ok d"
  shows "finite {u. \<exists>p. ad_uproc d u = Some p \<and> P p}"
proof (rule finite_subset [OF _ finite_imageI [OF procs_okD(1) [OF assms]]])
  show "{u. \<exists>p. ad_uproc d u = Some p \<and> P p} \<subseteq> (\<lambda>s. the (ad_sess d s)) ` dom (ad_sess d)"
  proof
    fix u assume "u \<in> {u. \<exists>p. ad_uproc d u = Some p \<and> P p}"
    then obtain p where "ad_uproc d u = Some p" by blast
    with procs_okD(3,4) [OF assms, of u p] have "{s. ad_sess d s = Some u} \<noteq> {}" by (metis card.empty less_irrefl)
    then show "u \<in> (\<lambda>s. the (ad_sess d s)) ` dom (ad_sess d)" by force
  qed
qed

lemma inst_of_cong:
  assumes "ad_sess d' w = ad_sess d w"
    and "\<And>u. ad_sess d w = Some u \<Longrightarrow> map_option mu_instance (ad_uproc d' u) = map_option mu_instance (ad_uproc d u)"
  shows "inst_of d' w = inst_of d w"
proof (cases "ad_sess d w")
  case (Some u)
  from assms(2) [OF this] show ?thesis
    using assms(1) Some by (cases "ad_uproc d' u"; cases "ad_uproc d u") (simp_all add: inst_of_def)
qed (use assms(1) in \<open>simp add: inst_of_def\<close>)

lemma holders_set:
  assumes "procs_ok d" "\<not> (\<exists>p. ad_uproc d u = Some p \<and> mu_instance p \<noteq> None)" "ad_uproc d' = (ad_uproc d)(u \<mapsto> p')"
  shows "holders d' = (\<lambda>a. holders d a + (if mu_instance p' = Some a then 1 else 0))"
proof
  fix a
  let ?H = "{v. \<exists>p. ad_uproc d v = Some p \<and> mu_instance p = Some a}"
  have "{v. \<exists>p. ad_uproc d' v = Some p \<and> mu_instance p = Some a} = (if mu_instance p' = Some a then insert u ?H else ?H)"
    using assms(2,3) by (auto split: if_splits)
  moreover have "u \<notin> ?H" "finite ?H" using assms(2) uproc_finite [OF assms(1)] by auto
  ultimately show "holders d' a = holders d a + (if mu_instance p' = Some a then 1 else 0)"
    by (simp add: holders_def)
qed

lemma holders_unset:
  assumes "procs_ok d" "ad_uproc d u = Some p" "ad_uproc d' = (ad_uproc d)(u := None)"
  shows "holders d' = (\<lambda>a. holders d a - (if mu_instance p = Some a then 1 else 0))"
proof
  fix a
  let ?H = "{v. \<exists>p. ad_uproc d v = Some p \<and> mu_instance p = Some a}"
  have "{v. \<exists>p. ad_uproc d' v = Some p \<and> mu_instance p = Some a} = ?H - {u}"
    using assms(3) by (auto split: if_splits)
  moreover have "u \<in> ?H \<longleftrightarrow> mu_instance p = Some a" "finite ?H" using assms(2) uproc_finite [OF assms(1)] by auto
  ultimately show "holders d' a = holders d a - (if mu_instance p = Some a then 1 else 0)"
    by (auto simp: holders_def)
qed

lemma holders_pos:
  "procs_ok d \<Longrightarrow> ad_uproc d u = Some p \<Longrightarrow> mu_instance p = Some a \<Longrightarrow> 0 < holders d a"
  unfolding holders_def card_gt_0_iff using uproc_finite [of d "\<lambda>p. mu_instance p = Some a"] by blast

lemma open_sess_procs:
  assumes ok: "procs_ok d" and s: "ad_sess d s = None" and d': "ad_sess d' = (ad_sess d)(s \<mapsto> u)"
    "ad_uproc d' = (ad_uproc d)(u \<mapsto> p')" and p': "length (mu_used p') = XPU_MEM_COUNT"
      "mu_refs p' = Suc (card {x. ad_sess d x = Some u})"
      "\<And>a. mu_instance p' = Some a \<Longrightarrow> cx_store (ad_cxpu d') a \<noteq> None"
    and cx: "\<And>a. cx_store (ad_cxpu d) a \<noteq> None \<Longrightarrow> cx_store (ad_cxpu d') a \<noteq> None"
  shows "procs_ok d'"
proof -
  have 1: "card {x. ad_sess d' x = Some u} = Suc (card {x. ad_sess d x = Some u})"
  proof -
    have "{x. ad_sess d' x = Some u} = insert s {x. ad_sess d x = Some u}" using d'(1) by auto
    then show ?thesis using sessions_finite [OF ok, of u] s by simp
  qed
  have 2: "{x. ad_sess d' x = Some v} = {x. ad_sess d x = Some v}" if "v \<noteq> u" for v
    using that d'(1) s by auto
  show ?thesis unfolding procs_ok_def
  proof (intro conjI allI impI)
    show "finite (dom (ad_sess d'))" using procs_okD(1) [OF ok] d'(1) by simp
    show "ad_uproc d' v \<noteq> None" if "ad_sess d' x = Some v" for x v
      using that d' procs_okD(2) [OF ok, of x v] by (auto split: if_splits)
    fix v p assume p: "ad_uproc d' v = Some p"
    show "mu_refs p = card {x. ad_sess d' x = Some v}"
      using p d'(2) 1 2 [of v] p'(2) procs_okD(3) [OF ok, of v p] by (cases "v = u") simp_all
    show "0 < mu_refs p" "length (mu_used p) = XPU_MEM_COUNT"
      using p d'(2) p' procs_okD(4,5) [OF ok, of v p] by (auto split: if_splits)
    fix a assume "mu_instance p = Some a"
    then show "cx_store (ad_cxpu d') a \<noteq> None"
      using p d'(2) p'(3) cx procs_okD(6) [OF ok, of v p a] by (cases "v = u") auto
  qed
qed

lemma calmI:
  assumes "\<And>a k. k \<noteq> XPU_MEM_PARAM \<Longrightarrow> reserved st' a k \<le> reserved st a k"
    and "\<And>a i. cx_store (ad_cxpu (ms_dev st')) a = Some i \<Longrightarrow>
        (\<exists>j. cx_store (ad_cxpu (ms_dev st)) a = Some j \<and> ci_mem_limit_pgcnt i = ci_mem_limit_pgcnt j \<and> ci_token i = ci_token j) \<or>
        (cx_store (ad_cxpu (ms_dev st)) a = None \<and> ci_mem_limit_pgcnt i = replicate XPU_MEM_COUNT CXPU_INSTANCE_MEM_UNLIMIT)"
    and "\<And>u p. ad_uproc (ms_dev st') u = Some p \<Longrightarrow>
        (\<exists>q. ad_uproc (ms_dev st) u = Some q \<and> mu_instance p = mu_instance q) \<or>
        (\<forall>a i. mu_instance p = Some a \<and> cx_store (ad_cxpu (ms_dev st')) a = Some i \<longrightarrow> ci_token i = grp u)"
  shows "calm grp st st'"
  using assms unfolding calm_def by blast

lemma open_step_ok:
  assumes ok: "mem_ok mt lt st" and en: "enabled (Op_open s u token) st"
  shows "\<exists>st'. exec find_area (Op_open s u token) st = Some st' \<and> mem_ok mt lt st' \<and> (grp u = token \<longrightarrow> calm grp st st')"
proof -
  let ?d = "ms_dev st" and ?cx = "ad_cxpu (ms_dev st)"
  have s: "ad_sess ?d s = None" using en by simp
  note pr = mem_okD(3) [OF ok] and cxo = mem_okD(2) [OF ok]
  have lv: "w \<noteq> s" if "live st w" for w using live_open [OF ok that] s by auto
  show ?thesis
  proof (cases "ad_uproc ?d u")
    case (Some p)
    let ?p = "p\<lparr>mu_refs := mu_refs p + 1\<rparr>"
    let ?d' = "?d\<lparr>ad_uproc := (ad_uproc ?d)(u \<mapsto> ?p), ad_sess := (ad_sess ?d)(s \<mapsto> u)\<rparr>"
    have ex: "exec find_area (Op_open s u token) st = Some (st\<lparr>ms_dev := ?d'\<rparr>)"
      using Some by (simp add: open_session_def upd_mu_def)
    have hd: "holders ?d' = holders ?d"
      using Some by (auto simp: holders_def fun_eq_iff intro!: arg_cong [where f = card])
    have pr': "procs_ok ?d'"
      by (rule open_sess_procs [OF pr s, where u = u and p' = ?p])
        (use procs_okD(3,5,6) [OF pr Some] in simp_all)
    have lv': "ad_sess ?d' w = ad_sess ?d w \<and> inst_of ?d' w = inst_of ?d w" if "live st w" for w
      using lv [OF that] Some by (intro conjI inst_of_cong) simp_all
    have cx': "cx_ok (holders ?d') mt lt (ad_cxpu ?d')" using cxo hd by simp
    have "mem_ok mt lt (st\<lparr>ms_dev := ?d'\<rparr>)"
      by (rule mem_ok_frame(1) [OF ok _ cx' pr' lv']) (use Some in \<open>auto split: if_splits\<close>)
    moreover have r: "reserved (st\<lparr>ms_dev := ?d'\<rparr>) a k = reserved st a k" for a k
      by (rule mem_ok_frame(2) [OF ok _ cx' pr' lv']) (use Some in \<open>auto split: if_splits\<close>)
    moreover from r have "calm grp st (st\<lparr>ms_dev := ?d'\<rparr>)"
      unfolding calm_def using Some by auto
    ultimately show ?thesis using ex by blast
  next
    case None
    have nos: "ad_sess ?d w \<noteq> Some u" for w using procs_okD(2) [OF pr, of w u] None by auto
    have card: "card {x. ad_sess ?d x = Some u} = 0" using nos by simp
    have main: "mem_ok mt lt (st\<lparr>ms_dev := d'\<rparr>) \<and> (grp u = token \<longrightarrow> calm grp st (st\<lparr>ms_dev := d'\<rparr>))"
      if d': "d' = ?d\<lparr>ad_cxpu := cx, ad_uproc := (ad_uproc ?d)(u \<mapsto>
            \<lparr>mu_refs = 1, mu_locked = False, mu_used = replicate XPU_MEM_COUNT 0, mu_instance = ins\<rparr>),
            ad_sess := (ad_sess ?d)(s \<mapsto> u)\<rparr>"
        and cx: "cx_ok (\<lambda>a. holders ?d a + (if ins = Some a then 1 else 0)) mt lt cx"
        and st: "\<And>a. map_option (\<lambda>i. (ci_mem_used_pgcnt i, ci_mem_limit_pgcnt i, ci_token i)) (cx_store cx a) =
              map_option (\<lambda>i. (ci_mem_used_pgcnt i, ci_mem_limit_pgcnt i, ci_token i)) (cx_store ?cx a)"
        and ins: "\<And>a. ins = Some a \<Longrightarrow> \<exists>i. cx_store cx a = Some i \<and> ci_token i = token" for d' cx ins
    proof -
      let ?new = "\<lparr>mu_refs = 1, mu_locked = False, mu_used = replicate XPU_MEM_COUNT 0, mu_instance = ins\<rparr>"
      have keep: "\<exists>j. cx_store ?cx a = Some j \<and> ci_mem_used_pgcnt i = ci_mem_used_pgcnt j \<and>
          ci_mem_limit_pgcnt i = ci_mem_limit_pgcnt j \<and> ci_token i = ci_token j" if "cx_store cx a = Some i" for a i
        using st [of a] that by (cases "cx_store ?cx a") auto
      have live: "cx_store cx a \<noteq> None" if "cx_store ?cx a \<noteq> None" for a using st [of a] that by (metis map_option_is_None)
      have pr': "procs_ok d'"
        by (rule open_sess_procs [OF pr s, where u = u and p' = ?new]) (use d' card ins live in auto)
      have hd: "holders d' = (\<lambda>a. holders ?d a + (if ins = Some a then 1 else 0))"
        using holders_set [OF pr, of u d' ?new] None d' by simp
      have cx': "cx_ok (holders d') mt lt (ad_cxpu d')" using cx d' hd by simp
      have lv': "ad_sess d' w = ad_sess ?d w \<and> inst_of d' w = inst_of ?d w" if "live st w" for w
        using lv [OF that] nos [of w] d' by (intro conjI inst_of_cong) auto
      have 1: "mem_ok mt lt (st\<lparr>ms_dev := d'\<rparr>)"
        by (rule mem_ok_frame(1) [OF ok _ cx' pr' lv']) (use d' None keep in \<open>auto split: if_splits\<close>)
      have 2: "reserved (st\<lparr>ms_dev := d'\<rparr>) a k = reserved st a k" for a k
        by (rule mem_ok_frame(2) [OF ok _ cx' pr' lv']) (use d' None keep in \<open>auto split: if_splits\<close>)
      have "calm grp st (st\<lparr>ms_dev := d'\<rparr>)" if "grp u = token"
      proof (rule calmI)
        show "(\<exists>j. cx_store ?cx a = Some j \<and> ci_mem_limit_pgcnt i = ci_mem_limit_pgcnt j \<and> ci_token i = ci_token j) \<or>
            (cx_store ?cx a = None \<and> ci_mem_limit_pgcnt i = replicate XPU_MEM_COUNT CXPU_INSTANCE_MEM_UNLIMIT)"
          if "cx_store (ad_cxpu (ms_dev (st\<lparr>ms_dev := d'\<rparr>))) a = Some i" for a i
          using keep [of a i] that d' by auto
        show "(\<exists>q. ad_uproc ?d v = Some q \<and> mu_instance p = mu_instance q) \<or>
            (\<forall>a i. mu_instance p = Some a \<and> cx_store (ad_cxpu (ms_dev (st\<lparr>ms_dev := d'\<rparr>))) a = Some i \<longrightarrow> ci_token i = grp v)"
          if "ad_uproc (ms_dev (st\<lparr>ms_dev := d'\<rparr>)) v = Some p" for v p
          using that d' ins \<open>grp u = token\<close> by (cases "v = u") (auto dest: ins)
      qed (simp add: 2)
      with 1 show ?thesis by blast
    qed
    from get_by_token_cases [OF cxo, of token] show ?thesis
    proof (elim disjE conjE exE)
      let ?d' = "?d\<lparr>ad_cxpu := ?cx, ad_uproc := (ad_uproc ?d)(u \<mapsto>
            \<lparr>mu_refs = 1, mu_locked = False, mu_used = replicate XPU_MEM_COUNT 0, mu_instance = None\<rparr>),
            ad_sess := (ad_sess ?d)(s \<mapsto> u)\<rparr>"
      assume r: "kl_cxpu_get_instance_by_token_locked ?cx token = Some (None, ?cx)"
      then have "exec find_area (Op_open s u token) st = Some (st\<lparr>ms_dev := ?d'\<rparr>)"
        using None by (simp add: open_session_def create_mem_uproc_def)
      moreover have "mem_ok mt lt (st\<lparr>ms_dev := ?d'\<rparr>) \<and> (grp u = token \<longrightarrow> calm grp st (st\<lparr>ms_dev := ?d'\<rparr>))"
        by (rule main [OF refl]) (use cxo in simp_all)
      ultimately show ?thesis by blast
    next
      fix a i
      let ?cx' = "?cx\<lparr>cx_store := (cx_store ?cx)(a \<mapsto> i\<lparr>ci_refs := ci_refs i + 1\<rparr>)\<rparr>"
      let ?d' = "?d\<lparr>ad_cxpu := ?cx', ad_uproc := (ad_uproc ?d)(u \<mapsto>
            \<lparr>mu_refs = 1, mu_locked = False, mu_used = replicate XPU_MEM_COUNT 0, mu_instance = Some a\<rparr>),
            ad_sess := (ad_sess ?d)(s \<mapsto> u)\<rparr>"
      assume i: "cx_store ?cx a = Some i" and tok: "ci_token i = token"
        and r: "kl_cxpu_get_instance_by_token_locked ?cx token = Some (Some a, ?cx')"
      then have "exec find_area (Op_open s u token) st = Some (st\<lparr>ms_dev := ?d'\<rparr>)"
        using None by (simp add: open_session_def create_mem_uproc_def)
      moreover have "mem_ok mt lt (st\<lparr>ms_dev := ?d'\<rparr>) \<and> (grp u = token \<longrightarrow> calm grp st (st\<lparr>ms_dev := ?d'\<rparr>))"
      proof (rule main [OF refl])
        have "(holders ?d)(a := holders ?d a + 1) = (\<lambda>b. holders ?d b + (if Some a = Some b then 1 else 0))" by auto
        then show "cx_ok (\<lambda>b. holders ?d b + (if Some a = Some b then 1 else 0)) mt lt ?cx'"
          using instance_get_ok(2) [OF cxo i] by simp
      qed (use i tok in auto)
      ultimately show ?thesis by blast
    qed
  qed
qed

end
