(* ===== verification/Kl2_Alloc_Close.thy ===== *)
theory Kl2_Alloc_Close
  imports Kl2_Alloc_Life
begin

text \<open>
  Closing sessions: the memory of the session is freed with its callbacks before the process is left.
\<close>

lemma leave_procs:
  assumes ok: "procs_ok d" and s: "ad_sess d s = Some u" and d': "ad_sess d' = (ad_sess d)(s := None)"
    and up: "ad_uproc d' = (ad_uproc d)(u := (if mu_refs p = 1 then None else Some (p\<lparr>mu_refs := mu_refs p - 1\<rparr>)))"
    and p: "ad_uproc d u = Some p"
    and cx: "\<And>a. cx_store (ad_cxpu d) a \<noteq> None \<Longrightarrow> cx_store (ad_cxpu d') a \<noteq> None"
  shows "procs_ok d'"
proof -
  note r = procs_okD(3) [OF ok p] procs_okD(4) [OF ok p]
  have 1: "card {x. ad_sess d' x = Some u} = mu_refs p - 1"
  proof -
    have "{x. ad_sess d' x = Some u} = {x. ad_sess d x = Some u} - {s}" using d' by auto
    then show ?thesis using sessions_finite [OF ok, of u] s r by simp
  qed
  have 2: "{x. ad_sess d' x = Some v} = {x. ad_sess d x = Some v}" if "v \<noteq> u" for v
    using that d' s by auto
  have 3: "ad_sess d' x \<noteq> Some u" if "mu_refs p = 1" for x
    using 1 that sessions_finite [OF ok, of u] d' by (auto simp: card_eq_0_iff split: if_splits)
  show ?thesis unfolding procs_ok_def
  proof (intro conjI allI impI)
    show "finite (dom (ad_sess d'))" using procs_okD(1) [OF ok] d' by simp
    show "ad_uproc d' v \<noteq> None" if "ad_sess d' x = Some v" for x v
    proof (cases "v = u")
      case True
      then have "mu_refs p \<noteq> 1" using 3 that by blast
      then show ?thesis using up True by simp
    next
      case False
      then show ?thesis using that d' up procs_okD(2) [OF ok, of x v] by (auto split: if_splits)
    qed
    fix v q assume q: "ad_uproc d' v = Some q"
    show "mu_refs q = card {x. ad_sess d' x = Some v}" "0 < mu_refs q"
      using q up 1 2 [of v] r procs_okD(3,4) [OF ok, of v q] by (cases "v = u"; force split: if_splits)+
    show "length (mu_used q) = XPU_MEM_COUNT"
      using q up p procs_okD(5) [OF ok] by (cases "v = u") (auto split: if_splits)
    fix a assume "mu_instance q = Some a"
    then show "cx_store (ad_cxpu d') a \<noteq> None"
      using q up p cx procs_okD(6) [OF ok] by (cases "v = u") (auto split: if_splits)
  qed
qed

lemma leave_ok:
  assumes ok: "mem_ok mt lt st" and s: "ad_sess (ms_dev st) s = Some u" and nl: "\<not> live st s"
  shows "\<exists>d'. put_mem_uproc (ms_dev st) u = Some d' \<and> ad_sess d' = ad_sess (ms_dev st) \<and>
    mem_ok mt lt (st\<lparr>ms_dev := d'\<lparr>ad_sess := (ad_sess d')(s := None)\<rparr>\<rparr>) \<and>
    calm grp st (st\<lparr>ms_dev := d'\<lparr>ad_sess := (ad_sess d')(s := None)\<rparr>\<rparr>)"
proof -
  let ?d = "ms_dev st" and ?cx = "ad_cxpu (ms_dev st)"
  note pr = mem_okD(3) [OF ok] and cxo = mem_okD(2) [OF ok]
  obtain p where p: "ad_uproc ?d u = Some p" using procs_okD(2) [OF pr s] by blast
  let ?u' = "if mu_refs p = 1 then None else Some (p\<lparr>mu_refs := mu_refs p - 1\<rparr>)"
  have main: "mem_ok mt lt (st\<lparr>ms_dev := d'\<rparr>) \<and> calm grp st (st\<lparr>ms_dev := d'\<rparr>)"
    if d': "d' = ?d\<lparr>ad_cxpu := cx, ad_uproc := (ad_uproc ?d)(u := ?u'), ad_sess := (ad_sess ?d)(s := None)\<rparr>"
      and cx: "cx_ok (holders d') mt lt cx"
      and st: "\<And>a. map_option (\<lambda>i. (ci_mem_used_pgcnt i, ci_mem_limit_pgcnt i, ci_token i)) (cx_store cx a) =
            map_option (\<lambda>i. (ci_mem_used_pgcnt i, ci_mem_limit_pgcnt i, ci_token i)) (cx_store ?cx a)" for d' cx
  proof -
    have keep: "\<exists>j. cx_store ?cx a = Some j \<and> ci_mem_used_pgcnt i = ci_mem_used_pgcnt j \<and>
        ci_mem_limit_pgcnt i = ci_mem_limit_pgcnt j \<and> ci_token i = ci_token j" if "cx_store cx a = Some i" for a i
      using st [of a] that by (cases "cx_store ?cx a") auto
    have live: "cx_store cx a \<noteq> None" if "cx_store ?cx a \<noteq> None" for a using st [of a] that by (metis map_option_is_None)
    have pr': "procs_ok d'" by (rule leave_procs [OF pr s _ _ p]) (use d' live in auto)
    have cx': "cx_ok (holders d') mt lt (ad_cxpu d')" using cx d' by simp
    have lv: "ad_sess d' w = ad_sess ?d w \<and> inst_of d' w = inst_of ?d w" if "live st w" for w
    proof -
      have w: "w \<noteq> s" using that nl by blast
      have one: "w = s" if "mu_refs p = 1" "ad_sess ?d w = Some u"
      proof -
        have "card {x. ad_sess ?d x = Some u} = 1" using procs_okD(3) [OF pr p] that(1) by simp
        then obtain y where y: "{x. ad_sess ?d x = Some u} = {y}" by (auto simp: card_1_singleton_iff)
        have "w \<in> {x. ad_sess ?d x = Some u}" "s \<in> {x. ad_sess ?d x = Some u}" using s that(2) by simp_all
        then show ?thesis unfolding y by simp
      qed
      show ?thesis using w one p d' by (intro conjI inst_of_cong) auto
    qed
    have 1: "mem_ok mt lt (st\<lparr>ms_dev := d'\<rparr>)"
      by (rule mem_ok_frame(1) [OF ok _ cx' pr' lv]) (use d' p keep in \<open>auto split: if_splits\<close>)
    have 2: "reserved (st\<lparr>ms_dev := d'\<rparr>) a k = reserved st a k" for a k
      by (rule mem_ok_frame(2) [OF ok _ cx' pr' lv]) (use d' p keep in \<open>auto split: if_splits\<close>)
    have "calm grp st (st\<lparr>ms_dev := d'\<rparr>)"
    proof (rule calmI)
      show "(\<exists>j. cx_store ?cx a = Some j \<and> ci_mem_limit_pgcnt i = ci_mem_limit_pgcnt j \<and> ci_token i = ci_token j) \<or>
          (cx_store ?cx a = None \<and> ci_mem_limit_pgcnt i = replicate XPU_MEM_COUNT CXPU_INSTANCE_MEM_UNLIMIT)"
        if "cx_store (ad_cxpu (ms_dev (st\<lparr>ms_dev := d'\<rparr>))) a = Some i" for a i
        using keep [of a i] that d' by auto
      show "(\<exists>q. ad_uproc ?d v = Some q \<and> mu_instance r = mu_instance q) \<or>
          (\<forall>a i. mu_instance r = Some a \<and> cx_store (ad_cxpu (ms_dev (st\<lparr>ms_dev := d'\<rparr>))) a = Some i \<longrightarrow> ci_token i = grp v)"
        if "ad_uproc (ms_dev (st\<lparr>ms_dev := d'\<rparr>)) v = Some r" for v r
        using that d' p by (cases "v = u") (auto split: if_splits)
    qed (simp add: 2)
    with 1 show ?thesis by blast
  qed
  show ?thesis
  proof (cases "mu_refs p = 1")
    case False
    let ?d' = "?d\<lparr>ad_uproc := (ad_uproc ?d)(u \<mapsto> p\<lparr>mu_refs := mu_refs p - 1\<rparr>)\<rparr>"
    have "put_mem_uproc ?d u = Some ?d'" using p False by (simp add: put_mem_uproc_def upd_mu_def)
    moreover have "holders (?d'\<lparr>ad_sess := (ad_sess ?d')(s := None)\<rparr>) = holders ?d"
      using p by (auto simp: holders_def fun_eq_iff intro!: arg_cong [where f = card])
    ultimately show ?thesis
      using main [of "?d'\<lparr>ad_sess := (ad_sess ?d')(s := None)\<rparr>" ?cx] cxo False by (intro exI [of _ ?d']) simp
  next
    case True
    let ?go = "\<lambda>cx. ?d\<lparr>ad_cxpu := cx, ad_uproc := (ad_uproc ?d)(u := None)\<rparr>"
    have hd: "holders ((?go cx)\<lparr>ad_sess := (ad_sess ?d)(s := None)\<rparr>) = (\<lambda>a. holders ?d a - (if mu_instance p = Some a then 1 else 0))"
      for cx by (rule holders_unset [OF pr p]) simp
    have "\<exists>cx. kl_cxpu_put_instance_locked ?cx (mu_instance p) = Some cx \<and>
        cx_ok (\<lambda>a. holders ?d a - (if mu_instance p = Some a then 1 else 0)) mt lt cx \<and>
        (\<forall>a. map_option (\<lambda>i. (ci_mem_used_pgcnt i, ci_mem_limit_pgcnt i, ci_token i)) (cx_store cx a) =
             map_option (\<lambda>i. (ci_mem_used_pgcnt i, ci_mem_limit_pgcnt i, ci_token i)) (cx_store ?cx a))"
    proof (cases "mu_instance p")
      case None
      then show ?thesis using cxo by (intro exI [of _ ?cx]) (simp add: kl_cxpu_put_instance_locked_def)
    next
      case (Some a)
      obtain i where i: "cx_store ?cx a = Some i" using procs_okD(6) [OF pr p Some] by blast
      have eq: "(\<lambda>b. holders ?d b - (if mu_instance p = Some b then 1 else 0)) = (holders ?d)(a := holders ?d a - 1)"
        using Some by auto
      note pt = put_holder [OF cxo i holders_pos [OF pr p Some]]
      show ?thesis unfolding eq using pt Some i
        by (intro exI [of _ "?cx\<lparr>cx_store := (cx_store ?cx)(a \<mapsto> i\<lparr>ci_refs := ci_refs i - 1\<rparr>)\<rparr>"]) simp
    qed
    then obtain cx where cx: "kl_cxpu_put_instance_locked ?cx (mu_instance p) = Some cx"
      "cx_ok (\<lambda>a. holders ?d a - (if mu_instance p = Some a then 1 else 0)) mt lt cx"
      "\<And>a. map_option (\<lambda>i. (ci_mem_used_pgcnt i, ci_mem_limit_pgcnt i, ci_token i)) (cx_store cx a) =
             map_option (\<lambda>i. (ci_mem_used_pgcnt i, ci_mem_limit_pgcnt i, ci_token i)) (cx_store ?cx a)" by blast
    have "put_mem_uproc ?d u = Some (?go cx)" using p True cx(1) by (simp add: put_mem_uproc_def destroy_mem_uproc_def)
    moreover have "mem_ok mt lt (st\<lparr>ms_dev := (?go cx)\<lparr>ad_sess := (ad_sess ?d)(s := None)\<rparr>\<rparr>) \<and>
        calm grp st (st\<lparr>ms_dev := (?go cx)\<lparr>ad_sess := (ad_sess ?d)(s := None)\<rparr>\<rparr>)"
      by (rule main [OF _ _ cx(3)]) (use True hd cx(2) in simp_all)
    ultimately show ?thesis by (intro exI [of _ "?go cx"]) simp
  qed
qed


lemma calmD:
  assumes "calm grp st st'"
  shows "k \<noteq> XPU_MEM_PARAM \<Longrightarrow> reserved st' a k \<le> reserved st a k"
    "cx_store (ad_cxpu (ms_dev st')) a = Some i \<Longrightarrow>
        (\<exists>j. cx_store (ad_cxpu (ms_dev st)) a = Some j \<and> ci_mem_limit_pgcnt i = ci_mem_limit_pgcnt j \<and> ci_token i = ci_token j) \<or>
        (cx_store (ad_cxpu (ms_dev st)) a = None \<and> ci_mem_limit_pgcnt i = replicate XPU_MEM_COUNT CXPU_INSTANCE_MEM_UNLIMIT)"
    "ad_uproc (ms_dev st') u = Some p \<Longrightarrow>
        (\<exists>q. ad_uproc (ms_dev st) u = Some q \<and> mu_instance p = mu_instance q) \<or>
        (\<forall>a i. mu_instance p = Some a \<and> cx_store (ad_cxpu (ms_dev st')) a = Some i \<longrightarrow> ci_token i = grp u)"
  using assms unfolding calm_def by simp_all

lemma calm_trans:
  assumes ok: "mem_ok mt lt st" and c1: "calm grp st st1" and c2: "calm grp st1 st2"
    and same: "\<And>a. cx_store (ad_cxpu (ms_dev st1)) a = None \<longleftrightarrow> cx_store (ad_cxpu (ms_dev st)) a = None"
    and tok: "\<And>u. map_option mu_instance (ad_uproc (ms_dev st1) u) = map_option mu_instance (ad_uproc (ms_dev st) u)"
  shows "calm grp st st2"
proof (rule calmI)
  show "reserved st2 a k \<le> reserved st a k" if "k \<noteq> XPU_MEM_PARAM" for a k
    using calmD(1) [OF c1 that] calmD(1) [OF c2 that] by (rule le_trans [rotated])
  show "(\<exists>j. cx_store (ad_cxpu (ms_dev st)) a = Some j \<and> ci_mem_limit_pgcnt i = ci_mem_limit_pgcnt j \<and> ci_token i = ci_token j) \<or>
        (cx_store (ad_cxpu (ms_dev st)) a = None \<and> ci_mem_limit_pgcnt i = replicate XPU_MEM_COUNT CXPU_INSTANCE_MEM_UNLIMIT)"
    if i: "cx_store (ad_cxpu (ms_dev st2)) a = Some i" for a i
    using calmD(2) [OF c2 i]
  proof (elim disjE exE conjE)
    fix j assume j: "cx_store (ad_cxpu (ms_dev st1)) a = Some j" "ci_mem_limit_pgcnt i = ci_mem_limit_pgcnt j" "ci_token i = ci_token j"
    from calmD(2) [OF c1 j(1)] same [of a] j show ?thesis by auto
  next
    assume "cx_store (ad_cxpu (ms_dev st1)) a = None" "ci_mem_limit_pgcnt i = replicate XPU_MEM_COUNT CXPU_INSTANCE_MEM_UNLIMIT"
    then show ?thesis using same [of a] by simp
  qed
  show "(\<exists>q. ad_uproc (ms_dev st) u = Some q \<and> mu_instance p = mu_instance q) \<or>
        (\<forall>a i. mu_instance p = Some a \<and> cx_store (ad_cxpu (ms_dev st2)) a = Some i \<longrightarrow> ci_token i = grp u)"
    if p: "ad_uproc (ms_dev st2) u = Some p" for u p
    using calmD(3) [OF c2 p]
  proof (elim disjE exE conjE)
    fix q assume "ad_uproc (ms_dev st1) u = Some q" "mu_instance p = mu_instance q"
    then show ?thesis using tok [of u] by (cases "ad_uproc (ms_dev st) u") auto
  qed (rule disjI2)
qed

lemma close_step_ok:
  assumes ok: "mem_ok mt lt st" and en: "enabled (Op_close s) st"
  shows "\<exists>st'. exec find_area (Op_close s) st = Some st' \<and> mem_ok mt lt st' \<and> calm grp st st'"
proof -
  let ?d = "ms_dev st" and ?mm = "ad_mm (ms_dev st)"
  have e: "ad_sess ?d s \<noteq> None" "\<not> busy st s" using en unlocked_open by auto
  obtain u p where up: "ad_sess ?d s = Some u" "ad_uproc ?d u = Some p"
    using open_session_proc [OF mem_okD(3) [OF ok] e(1)] by metis
  let ?cs = "concat (map (\<lambda>m. free_calls m s 0) (mm_mem ?mm))"
  from kl_mm_free_by_owner_effect [OF mem_okD(8) [OF ok], of s True] obtain mm' where
    mm': "kl_mm_free_by_owner ?mm s True = Some (mm', ?cs)" "mm_wf mm'" "length (mm_mem mm') = length (mm_mem ?mm)"
      "\<forall>i < length (mm_mem ?mm). same_region (mm_mem ?mm ! i) (mm_mem mm' ! i) \<and>
         mem_blocks (mm_mem mm' ! i) = drop_owner s (mem_blocks (mm_mem ?mm ! i))" by auto
  have sr: "same_regions ?mm mm'" using mm'(3,4) by (simp add: same_regions_def list_all2_conv_all_nth)
  have ow: "has_owner ?mm w \<and> w \<noteq> s" if "has_owner mm' w" for w
  proof -
    from that obtain i q k where i: "i < length (mm_mem ?mm)" "mem_blocks (mm_mem mm' ! i) q = Some (k, w)"
      using mm'(3) by (auto simp: has_owner_def in_set_conv_nth)
    then have "mem_blocks (mm_mem ?mm ! i) q = Some (k, w) \<and> w \<noteq> s"
      using mm'(4) by (auto simp: drop_owner_def split: option.splits if_splits)
    then show ?thesis using nth_mem [OF i(1)] unfolding has_owner_def by blast
  qed
  obtain d1 where d1: "call_back kl2_mm_free_update_stat_cb ?cs (?d\<lparr>ad_mm := mm'\<rparr>) = Some d1"
    "mem_ok mt lt (st\<lparr>ms_dev := d1\<rparr>)" "same_shape ?d d1" "ad_mm d1 = mm'" "\<And>grp. calm grp st (st\<lparr>ms_dev := d1\<rparr>)"
  proof (rule free_step [OF ok up sr mm'(2) _ _ kind_pages_drop [OF mem_okD(8) [OF ok] mm'(3,4)]])
    show "has_owner ?mm w" if "has_owner mm' w" for w using ow [OF that] by blast
    show "\<forall>c\<in>set ?cs. cb_owner c = s" by (auto simp: free_calls_def cb_call_def)
  qed blast
  let ?st1 = "st\<lparr>ms_dev := d1\<rparr>"
  have s1: "ad_sess d1 s = Some u" using up same_shape_keeps(5) [OF d1(3)] by simp
  have "\<not> live ?st1 s" using ow [of s] d1(4) e(2) by (auto simp: live_def busy_def)
  from leave_ok [OF d1(2) _ this, of u grp] s1 obtain d' where d':
    "put_mem_uproc d1 u = Some d'" "mem_ok mt lt (st\<lparr>ms_dev := d'\<lparr>ad_sess := (ad_sess d')(s := None)\<rparr>\<rparr>)"
    "calm grp ?st1 (st\<lparr>ms_dev := d'\<lparr>ad_sess := (ad_sess d')(s := None)\<rparr>\<rparr>)" by auto
  have "exec find_area (Op_close s) st = Some (st\<lparr>ms_dev := d'\<lparr>ad_sess := (ad_sess d')(s := None)\<rparr>\<rparr>)"
    using mm'(1) d1(1) s1 d'(1) by (simp add: close_session_def)
  moreover have "calm grp st (st\<lparr>ms_dev := d'\<lparr>ad_sess := (ad_sess d')(s := None)\<rparr>\<rparr>)"
  proof (rule calm_trans [OF ok d1(5) d'(3)])
    show "cx_store (ad_cxpu (ms_dev ?st1)) a = None \<longleftrightarrow> cx_store (ad_cxpu ?d) a = None" for a
      using d1(3) by (simp add: same_shape_def)
    show "map_option mu_instance (ad_uproc (ms_dev ?st1) v) = map_option mu_instance (ad_uproc ?d v)" for v
      using same_shape_uproc [OF d1(3), of v] by (cases "ad_uproc d1 v"; cases "ad_uproc ?d v") auto
  qed
  ultimately show ?thesis using d'(2) by blast
qed

section \<open>The control device\<close>

lemma control_step:
  assumes ok: "mem_ok mt lt st" and cx: "cx_ok (holders (ms_dev st)) mt lt cx"
    and keep: "\<And>a i. cx_store cx a = Some i \<Longrightarrow>
      (\<exists>j. cx_store (ad_cxpu (ms_dev st)) a = Some j \<and> ci_mem_used_pgcnt i = ci_mem_used_pgcnt j) \<or>
      (cx_store (ad_cxpu (ms_dev st)) a = None \<and> ci_mem_used_pgcnt i = replicate XPU_MEM_COUNT 0)"
    and held: "\<And>a. 0 < holders (ms_dev st) a \<Longrightarrow> cx_store cx a \<noteq> None"
  shows "mem_ok mt lt (st\<lparr>ms_dev := (ms_dev st)\<lparr>ad_cxpu := cx\<rparr>\<rparr>)"
    and "reserved (st\<lparr>ms_dev := (ms_dev st)\<lparr>ad_cxpu := cx\<rparr>\<rparr>) a k = reserved st a k"
proof -
  let ?d = "ms_dev st" and ?d' = "(ms_dev st)\<lparr>ad_cxpu := cx\<rparr>"
  note pr = mem_okD(3) [OF ok]
  have pr': "procs_ok ?d'"
    unfolding procs_ok_def
    by (intro conjI allI impI) (use procs_okD [OF pr] held holders_pos [OF pr] in simp_all)
  have hd: "cx_ok (holders ?d') mt lt (ad_cxpu ?d')"
  proof -
    have "holders ?d' = holders ?d" by (simp add: holders_def fun_eq_iff)
    with cx show ?thesis by simp
  qed
  have io: "inst_of ?d' w = inst_of ?d w" for w by (rule inst_of_cong) simp_all
  show "mem_ok mt lt (st\<lparr>ms_dev := ?d'\<rparr>)"
    by (rule mem_ok_frame(1) [OF ok _ hd pr']) (use keep io in simp_all)
  show "reserved (st\<lparr>ms_dev := ?d'\<rparr>) a k = reserved st a k"
    by (rule mem_ok_frame(2) [OF ok _ hd pr']) (use keep io in simp_all)
qed

lemma held_live: "mem_ok mt lt st \<Longrightarrow> 0 < holders (ms_dev st) a \<Longrightarrow> cx_store (ad_cxpu (ms_dev st)) a \<noteq> None"
proof -
  assume ok: "mem_ok mt lt st" and h: "0 < holders (ms_dev st) a"
  then have "{u. \<exists>p. ad_uproc (ms_dev st) u = Some p \<and> mu_instance p = Some a} \<noteq> {}"
    unfolding holders_def by (metis card.empty less_irrefl)
  then show ?thesis using procs_okD(6) [OF mem_okD(3) [OF ok]] by blast
qed

lemma calm_control:
  assumes "\<And>a k. reserved (st\<lparr>ms_dev := (ms_dev st)\<lparr>ad_cxpu := cx\<rparr>\<rparr>) a k = reserved st a k"
    and "\<And>a i. cx_store cx a = Some i \<Longrightarrow> cx_store (ad_cxpu (ms_dev st)) a = Some i \<or>
      (cx_store (ad_cxpu (ms_dev st)) a = None \<and> ci_mem_limit_pgcnt i = replicate XPU_MEM_COUNT CXPU_INSTANCE_MEM_UNLIMIT)"
  shows "calm grp st (st\<lparr>ms_dev := (ms_dev st)\<lparr>ad_cxpu := cx\<rparr>\<rparr>)"
  by (rule calmI) (use assms in \<open>auto dest!: assms(2)\<close>)

lemma create_step_ok:
  assumes ok: "mem_ok mt lt st" and en: "enabled (Op_create a token iid) st"
  shows "\<exists>st'. exec find_area (Op_create a token iid) st = Some st' \<and> mem_ok mt lt st' \<and> calm grp st st'"
proof -
  let ?d = "ms_dev st" and ?cx = "ad_cxpu (ms_dev st)"
  have a: "cx_store ?cx a = None" using en by simp
  have h: "holders ?d a = 0" using held_live [OF ok, of a] a by auto
  have same: "st\<lparr>ms_dev := ?d\<lparr>ad_cxpu := ?cx\<rparr>\<rparr> = st" by simp
  from create_locked_cases [OF mem_okD(2) [OF ok] a h, of token iid] show ?thesis
  proof (elim disjE conjE exE)
    assume "create_locked ?cx (Some a) token iid = Some (Some EEXIST, ?cx)"
    then have "exec find_area (Op_create a token iid) st = Some st" using same by simp
    with ok calm_refl show ?thesis by blast
  next
    fix cx' assume r: "create_locked ?cx (Some a) token iid = Some (None, cx')" and cx: "cx_ok (holders ?d) mt lt cx'"
      and st: "cx_store cx' = (cx_store ?cx)(a \<mapsto> new_instance token iid)"
    have k: "(\<exists>j. cx_store ?cx b = Some j \<and> ci_mem_used_pgcnt i = ci_mem_used_pgcnt j) \<or>
      (cx_store ?cx b = None \<and> ci_mem_used_pgcnt i = replicate XPU_MEM_COUNT 0)" if "cx_store cx' b = Some i" for b i
      using that st a by (auto simp: new_instance_def split: if_splits)
    have hl: "cx_store cx' b \<noteq> None" if "0 < holders ?d b" for b using held_live [OF ok that] st by simp
    note c = control_step [OF ok cx k hl]
    have "calm grp st (st\<lparr>ms_dev := ?d\<lparr>ad_cxpu := cx'\<rparr>\<rparr>)"
      by (rule calm_control [OF c(2)]) (use st a in \<open>auto simp: new_instance_def split: if_splits\<close>)
    with r c(1) show ?thesis by simp
  qed
qed

lemma destroy_step_ok:
  assumes ok: "mem_ok mt lt st"
  shows "\<exists>st'. exec find_area (Op_destroy iid) st = Some st' \<and> mem_ok mt lt st' \<and> calm grp st st'"
proof -
  let ?d = "ms_dev st" and ?cx = "ad_cxpu (ms_dev st)"
  have same: "st\<lparr>ms_dev := ?d\<lparr>ad_cxpu := ?cx\<rparr>\<rparr> = st" by simp
  have stay: ?thesis if "kl_cxpu_destroy_instance ?cx iid = Some (e, ?cx)" for e
  proof -
    have "exec find_area (Op_destroy iid) st = Some st" using that same by simp
    with ok calm_refl show ?thesis by blast
  qed
  show ?thesis
  proof (cases rule: destroy_instance_cases [OF mem_okD(2) [OF ok], of iid, case_names busy gone unknown])
    case (gone a i cx')
    have k: "(\<exists>j. cx_store ?cx b = Some j \<and> ci_mem_used_pgcnt x = ci_mem_used_pgcnt j) \<or>
      (cx_store ?cx b = None \<and> ci_mem_used_pgcnt x = replicate XPU_MEM_COUNT 0)" if "cx_store cx' b = Some x" for b x
      using that gone(6) by (auto split: if_splits)
    have hl: "cx_store cx' b \<noteq> None" if "0 < holders ?d b" for b
      using held_live [OF ok that] that gone(4,6) by auto
    note c = control_step [OF ok gone(5) k hl]
    have "calm grp st (st\<lparr>ms_dev := ?d\<lparr>ad_cxpu := cx'\<rparr>\<rparr>)"
      by (rule calm_control [OF c(2)]) (use gone(6) in \<open>auto split: if_splits\<close>)
    with gone(1) c(1) show ?thesis by simp
  qed (rule stay, assumption)+
qed

end
