(* ===== verification/Kl2_Alloc_Reach.thy ===== *)
theory Kl2_Alloc_Reach
  imports Kl2_Alloc_Close Kl2_Spec_Props
begin

text \<open>
  The control device, which creates and destroys instances and sets their limits, and the summary: no
  step faults and every step keeps the invariant.
\<close>

lemma by_id_cases:
  assumes ok: "cx_ok hold mt lt cx"
  shows "kl_cxpu_get_instance_by_id_locked cx iid = Some (None, cx) \<or>
         (\<exists>a i. cx_store cx a = Some i \<and>
            kl_cxpu_get_instance_by_id_locked cx iid =
              Some (Some a, cx\<lparr>cx_store := (cx_store cx)(a \<mapsto> i\<lparr>ci_refs := ci_refs i + 1\<rparr>)\<rparr>))"
  using cx_find [OF ok, of "\<lambda>i. same_name (ci_instance_id i) iid"] cx_okD(1) [OF ok]
  by (auto simp: kl_cxpu_get_instance_by_id_locked_def instance_get_def upd_instance_def)

text \<open>Setting a limit changes at most the limits of one instance.\<close>

lemma set_limit_cases:
  assumes ok: "cx_ok hold mt lt cx"
    and tot: "pages_for_limits mm XPU_MEM_MAIN = mt" "pages_for_limits mm XPU_MEM_L3 = lt"
  shows "\<exists>ret cx'. kl_cxpu_set_instance_mem_limit mm cx iid k bytes = Some (ret, cx') \<and> cx_ok hold mt lt cx' \<and>
    (\<forall>a. map_option (\<lambda>i. (ci_mem_used_pgcnt i, ci_token i)) (cx_store cx' a) =
         map_option (\<lambda>i. (ci_mem_used_pgcnt i, ci_token i)) (cx_store cx a))"
  using by_id_cases [OF ok, of iid]
proof (elim disjE exE conjE)
  assume "kl_cxpu_get_instance_by_id_locked cx iid = Some (None, cx)"
  then show ?thesis using ok
    by (intro exI [of _ "Some EINVAL"] exI [of _ cx])
      (simp add: kl_cxpu_set_instance_mem_limit_def kl_cxpu_instance_set_mem_limit_locked_def kl_cxpu_put_instance_locked_def)
next
  fix a and i :: kl_cxpu_instance
  let ?i1 = "i\<lparr>ci_refs := ci_refs i + 1\<rparr>"
  let ?cx1 = "cx\<lparr>cx_store := (cx_store cx)(a \<mapsto> ?i1)\<rparr>" and ?h1 = "hold(a := hold a + 1)"
  assume i: "cx_store cx a = Some i" and g: "kl_cxpu_get_instance_by_id_locked cx iid = Some (Some a, ?cx1)"
  have ok1: "cx_ok ?h1 mt lt ?cx1" by (rule instance_get_ok(2) [OF ok i])
  have st1: "cx_store ?cx1 a = Some ?i1" by simp
  have h: "?h1(a := ?h1 a - 1) = hold" by auto
  have put: "\<exists>cx3. kl_cxpu_put_instance_locked cx2 (Some a) = Some cx3 \<and> cx_ok hold mt lt cx3 \<and>
      (\<forall>b. map_option (\<lambda>i. (ci_mem_used_pgcnt i, ci_token i)) (cx_store cx3 b) =
           map_option (\<lambda>i. (ci_mem_used_pgcnt i, ci_token i)) (cx_store cx b))"
    if ok2: "cx_ok ?h1 mt lt cx2" and st2: "cx_store cx2 = (cx_store cx)(a \<mapsto> j)"
      and j: "ci_mem_used_pgcnt j = ci_mem_used_pgcnt i" "ci_token j = ci_token i" for cx2 j
  proof -
    have "cx_store cx2 a = Some j" using st2 by simp
    from put_holder [OF ok2 this] h
    have "kl_cxpu_put_instance_locked cx2 (Some a) = Some (cx2\<lparr>cx_store := (cx_store cx2)(a \<mapsto> j\<lparr>ci_refs := ci_refs j - 1\<rparr>)\<rparr>)"
      "cx_ok hold mt lt (cx2\<lparr>cx_store := (cx_store cx2)(a \<mapsto> j\<lparr>ci_refs := ci_refs j - 1\<rparr>)\<rparr>)" by simp_all
    then show ?thesis using st2 j i by auto
  qed
  from set_mem_limit_cases [OF ok1 st1 tot, of k bytes] show ?thesis
  proof (elim disjE exE conjE)
    fix e assume e: "kl_cxpu_instance_set_mem_limit_locked mm ?cx1 (Some a) k bytes = Some (Some e, ?cx1)"
    from put [OF ok1, of ?i1] obtain cx3 where "kl_cxpu_put_instance_locked ?cx1 (Some a) = Some cx3" "cx_ok hold mt lt cx3"
      "\<forall>b. map_option (\<lambda>i. (ci_mem_used_pgcnt i, ci_token i)) (cx_store cx3 b) =
           map_option (\<lambda>i. (ci_mem_used_pgcnt i, ci_token i)) (cx_store cx b)" by auto
    with e g show ?thesis
      by (intro exI [of _ "Some e"] exI [of _ cx3]) (simp add: kl_cxpu_set_instance_mem_limit_def)
  next
    fix cx2 v
    assume e: "kl_cxpu_instance_set_mem_limit_locked mm ?cx1 (Some a) k bytes = Some (None, cx2)"
      and ok2: "cx_ok ?h1 mt lt cx2"
      and st2: "cx_store cx2 = (cx_store ?cx1)(a \<mapsto> ?i1\<lparr>ci_mem_limit_pgcnt := (ci_mem_limit_pgcnt ?i1)[k := v]\<rparr>)"
    from put [OF ok2, of "?i1\<lparr>ci_mem_limit_pgcnt := (ci_mem_limit_pgcnt ?i1)[k := v]\<rparr>"] st2
    obtain cx3 where "kl_cxpu_put_instance_locked cx2 (Some a) = Some cx3" "cx_ok hold mt lt cx3"
      "\<forall>b. map_option (\<lambda>i. (ci_mem_used_pgcnt i, ci_token i)) (cx_store cx3 b) =
           map_option (\<lambda>i. (ci_mem_used_pgcnt i, ci_token i)) (cx_store cx b)" by auto
    with e g show ?thesis
      by (intro exI [of _ "None"] exI [of _ cx3]) (simp add: kl_cxpu_set_instance_mem_limit_def)
  qed
qed

lemma set_limit_step_ok:
  assumes ok: "mem_ok mt lt st"
  shows "\<exists>st'. exec find_area (Op_set_limit iid k bytes) st = Some st' \<and> mem_ok mt lt st' \<and>
    ad_uproc (ms_dev st') = ad_uproc (ms_dev st) \<and>
    (\<forall>a. map_option ci_token (cx_store (ad_cxpu (ms_dev st')) a) = map_option ci_token (cx_store (ad_cxpu (ms_dev st)) a))"
proof -
  let ?d = "ms_dev st" and ?cx = "ad_cxpu (ms_dev st)"
  have tot: "pages_for_limits (ad_mm ?d) XPU_MEM_MAIN = mt" "pages_for_limits (ad_mm ?d) XPU_MEM_L3 = lt"
    using mem_okD(1) [OF ok] by (simp_all add: mm_ok_def)
  from set_limit_cases [OF mem_okD(2) [OF ok] tot, of iid k bytes] obtain ret cx' where
    r: "kl_cxpu_set_instance_mem_limit (ad_mm ?d) ?cx iid k bytes = Some (ret, cx')" and cx: "cx_ok (holders ?d) mt lt cx'"
    and st: "\<And>a. map_option (\<lambda>i. (ci_mem_used_pgcnt i, ci_token i)) (cx_store cx' a) =
         map_option (\<lambda>i. (ci_mem_used_pgcnt i, ci_token i)) (cx_store ?cx a)" by blast
  have live: "cx_store cx' a \<noteq> None" if "cx_store ?cx a \<noteq> None" for a using st [of a] that by (cases "cx_store cx' a") auto
  have keep: "(\<exists>j. cx_store ?cx a = Some j \<and> ci_mem_used_pgcnt i = ci_mem_used_pgcnt j) \<or>
      (cx_store ?cx a = None \<and> ci_mem_used_pgcnt i = replicate XPU_MEM_COUNT 0)" if "cx_store cx' a = Some i" for a i
    using st [of a] that by (cases "cx_store ?cx a") auto
  have "mem_ok mt lt (st\<lparr>ms_dev := ?d\<lparr>ad_cxpu := cx'\<rparr>\<rparr>)"
    by (rule control_step(1) [OF ok cx keep live [OF held_live [OF ok]]])
  moreover have "map_option ci_token (cx_store cx' a) = map_option ci_token (cx_store ?cx a)" for a
    using st [of a] by (cases "cx_store cx' a"; cases "cx_store ?cx a") auto
  moreover have "exec find_area (Op_set_limit iid k bytes) st = Some (st\<lparr>ms_dev := ?d\<lparr>ad_cxpu := cx'\<rparr>\<rparr>)"
    using r by simp
  ultimately show ?thesis by (intro exI [of _ "st\<lparr>ms_dev := ?d\<lparr>ad_cxpu := cx'\<rparr>\<rparr>"]) simp
qed

section \<open>Every step\<close>

lemma exec_ok:
  assumes fa: "zero_area_finder find_area" and ok: "mem_ok mt lt st" and en: "enabled op st"
  shows "\<exists>st'. exec find_area op st = Some st' \<and> mem_ok mt lt st'"
proof (cases op)
  case (Op_test t s sz args_kind) with test_ok [OF ok] en show ?thesis by blast
next
  case (Op_charge t) with charge_step_ok [OF ok] en show ?thesis by blast
next
  case (Op_take t) with take_step_ok [OF fa ok] en show ?thesis by blast
next
  case (Op_undo t) with undo_step_ok [OF ok] en show ?thesis by blast
next
  case (Op_free s addr) with free_step_ok [OF ok] en show ?thesis by blast
next
  case (Op_param_alloc s bytes) with param_alloc_step_ok [OF fa ok] en show ?thesis by blast
next
  case (Op_param_free s addr) with param_free_step_ok [OF ok] en show ?thesis by blast
next
  case (Op_open s u token) with open_step_ok [OF ok] en show ?thesis by blast
next
  case (Op_close s) with close_step_ok [OF ok] en show ?thesis by blast
next
  case (Op_create a token iid) with create_step_ok [OF ok] en show ?thesis by blast
next
  case (Op_destroy iid) with destroy_step_ok [OF ok] show ?thesis by blast
next
  case (Op_set_limit iid k bytes) with set_limit_step_ok [OF ok] show ?thesis by blast
qed

lemma reach_ok:
  assumes "mem_reach find_area P st0 st" and fa: "zero_area_finder find_area" and ok: "mem_ok mt lt st0"
  shows "mem_ok mt lt st"
  using assms(1)
proof induction
  case (mem_more st1 op st2)
  with exec_ok [OF fa mem_more.IH mem_more.hyps(3)] show ?case by simp
qed (rule ok)

end
