(* ===== verification/Kl2_Alloc_Start.thy ===== *)
theory Kl2_Alloc_Start
  imports Kl2_Alloc_Reach
begin

text \<open>
  The start: every table of \<open>Kl2_Spec\<close> initialises a manager for which the invariant holds, totals of limits,
  and what is left when all sessions are closed.
\<close>

section \<open>The start\<close>

definition mem_infos_ok :: "kl_memory_info list \<Rightarrow> bool" where
  "mem_infos_ok infos \<longleftrightarrow> infos_ok infos \<and> uniform_pages infos \<and> length infos \<le> 64"

lemma tables_mem_ok:
  assumes "info \<in> set all_tables"
  shows "mem_infos_ok (nfo_mem info)"
proof -
  have "list_all (\<lambda>info. length (nfo_mem info) \<le> 64) all_tables"
    by (simp add: all_tables_def region_tables)
  then show ?thesis using all_tables_ok [OF assms] assms by (simp add: mem_infos_ok_def table_ok_def list_all_iff)
qed

lemma sum_of_kind_le: "sum_of_kind f mm kind \<le> (\<Sum>m\<leftarrow>mm_mem mm. f m)"
proof -
  have "foldl (\<lambda>ret m. if km_kind m = kind then u64 (ret + f m) else ret) z ms \<le> z + (\<Sum>m\<leftarrow>ms. f m)" for z ms
  proof (induction ms arbitrary: z)
    case (Cons m ms)
    have "(if km_kind m = kind then u64 (z + f m) else z) \<le> z + f m" using u64_le by simp
    with Cons [of "if km_kind m = kind then u64 (z + f m) else z"] show ?case by simp
  qed simp
  from this [of 0] show ?thesis by (simp add: sum_of_kind_def)
qed

lemma init_mm_ok:
  assumes inf: "mem_infos_ok infos" and i0: "kl_mm_init ka infos = Inr (mm :: nat kl_mm)"
  shows "mm_ok (pages_for_limits mm XPU_MEM_MAIN) (pages_for_limits mm XPU_MEM_L3) mm"
    and "\<And>w. \<not> has_owner mm w" and "kind_pages g c k mm = 0"
proof -
  note fr = kl_mm_init_fresh [OF _ i0]
  have ok: "infos_ok infos" using inf by (simp add: mem_infos_ok_def)
  have each: "\<exists>i < length infos. fresh_region i (infos ! i) m" if m: "m \<in> set (mm_mem mm)" for m
  proof -
    from m obtain i where i: "i < length (mm_mem mm)" "mm_mem mm ! i = m" unfolding in_set_conv_nth by blast
    then show ?thesis using fr(2) [OF ok] fr(3) [OF ok, of i] by auto
  qed
  have 2: "km_page_bits m = km_page_bits n" if "m \<in> set (mm_mem mm)" "n \<in> set (mm_mem mm)" "km_kind m = km_kind n" for m n
  proof -
    from each [OF that(1)] each [OF that(2)] obtain i j where ij: "i < length infos" "j < length infos"
      "fresh_region i (infos ! i) m" "fresh_region j (infos ! j) n" by blast
    then have "info_kind (infos ! i) = info_kind (infos ! j)" using that(3) by (simp add: fresh_region_def)
    then have "info_page_bits (infos ! i) = info_page_bits (infos ! j)"
      using inf ij(1,2) unfolding mem_infos_ok_def uniform_pages_def list_all_length by blast
    then show ?thesis using ij by (simp add: fresh_region_def)
  qed
  have "(\<Sum>m\<leftarrow>mm_mem mm. km_page_count m) \<le> length (mm_mem mm) * 2 ^ 32"
  proof -
    have "km_page_count m \<le> 2 ^ 32" if "m \<in> set (mm_mem mm)" for m
      using fr(1) [OF ok] that by (auto simp: mm_wf_def mem_wf_def less_imp_le)
    then have "(\<Sum>m\<leftarrow>mm_mem mm. km_page_count m) \<le> (\<Sum>m\<leftarrow>mm_mem mm. 2 ^ 32)" by (rule sum_list_mono)
    then show ?thesis by (simp add: sum_list_triv)
  qed
  also have "\<dots> \<le> 64 * 2 ^ 32" using fr(2) [OF ok] inf by (simp add: mem_infos_ok_def)
  finally have 3: "(\<Sum>m\<leftarrow>mm_mem mm. km_page_count m) < 2 ^ 63" by simp
  show "mm_ok (pages_for_limits mm XPU_MEM_MAIN) (pages_for_limits mm XPU_MEM_L3) mm"
    unfolding mm_ok_def using fr(1) [OF ok] 2 3 by blast
  show no: "\<not> has_owner mm w" for w
  proof
    assume "has_owner mm w"
    then obtain m q k where m: "m \<in> set (mm_mem mm)" "mem_blocks m q = Some (k, w)" by (auto simp: has_owner_def)
    from each [OF m(1)] have "mem_blocks m = Map.empty" by (auto simp: fresh_region_def)
    with m(2) show False by simp
  qed
  show "kind_pages g c k mm = 0" by (rule kind_pages_none) (use no in blast)
qed

lemma u64_div_half: "p = 0 \<or> 2 \<le> p \<Longrightarrow> u64 x div p < 2 ^ 63"
proof (cases "p = 0")
  case False
  assume "p = 0 \<or> 2 \<le> p"
  with False have "u64 x div p \<le> u64 x div 2" by (intro div_le_mono2) simp_all
  also have "\<dots> < 2 ^ 63" using u64_lt [of x] by simp
  finally show ?thesis .
qed simp

lemma pages_for_limits_half:
  assumes ok: "mm_ok mt lt mm"
  shows "mt < 2 ^ 63" "lt < 2 ^ 63"
proof -
  have k: "XPU_MEM_L3 \<noteq> XPU_MEM_MAIN" by (simp add: xpu_mem_kinds)
  have "lt = sum_of_kind km_page_count mm XPU_MEM_L3"
    using ok k unfolding mm_ok_def pages_for_limits_def kl_mm_get_pg_all_def by metis
  also have "\<dots> \<le> (\<Sum>m\<leftarrow>mm_mem mm. km_page_count m)" by (rule sum_of_kind_le)
  also have "\<dots> < 2 ^ 63" using ok unfolding mm_ok_def by blast
  finally show "lt < 2 ^ 63" .
  have pg: "kl_mm_get_pgsz mm XPU_MEM_MAIN = 0 \<or> 2 \<le> kl_mm_get_pgsz mm XPU_MEM_MAIN"
  proof (cases "List.find (\<lambda>m. km_kind m = XPU_MEM_MAIN) (mm_mem mm)")
    case (Some m)
    then have "m \<in> set (mm_mem mm)" by (auto simp: find_Some_iff)
    then have "mem_wf m" using ok unfolding mm_ok_def mm_wf_def by blast
    then have "km_page_size m = 2 ^ km_page_bits m" "0 < km_page_bits m" unfolding mem_wf_def by blast+
    then have "2 \<le> km_page_size m" using self_le_power [of 2 "km_page_bits m"] by simp
    with Some show ?thesis by (simp add: kl_mm_get_pgsz_def)
  qed (simp add: kl_mm_get_pgsz_def)
  have "mt = kl_cxpu_get_mainmem_cnt_all mm" using ok unfolding mm_ok_def pages_for_limits_def by metis
  then show "mt < 2 ^ 63" unfolding kl_cxpu_get_mainmem_cnt_all_def using u64_div_half [OF pg] by simp
qed

lemma start_ok:
  assumes "mem_infos_ok infos" and "kl_mm_init ka infos = Inr mm"
  shows "mem_ok (pages_for_limits mm XPU_MEM_MAIN) (pages_for_limits mm XPU_MEM_L3) (mem_start mm ecc_on n)"
proof -
  note i = init_mm_ok [OF assms]
  let ?mt = "pages_for_limits mm XPU_MEM_MAIN" and ?lt = "pages_for_limits mm XPU_MEM_L3"
  let ?d = "ms_dev (mem_start mm ecc_on n)"
  have cx: "cx_ok hold ?mt ?lt (kl_cxpu_init mm ecc_on)" for hold
    using pages_for_limits_half [OF i(1)]
    by (simp add: cx_ok_def kl_cxpu_init_def info_sum_ok_def limit_info_def limit_total_def
        pages_for_limits_def xpu_mem_kinds)
  have "proc_total ?d u k = 0" "kind_pages (inst_of ?d) (Suc a) k mm = 0" for u a k
    using i(3) by (simp_all add: proc_total_def mem_start_def)
  then have "mem_counts_ok (mem_start mm ecc_on n)"
    by (simp add: mem_counts_ok_def mem_start_def kl_cxpu_init_def)
  moreover have "locks_ok (mem_start mm ecc_on n)" by (simp add: locks_ok_def mem_start_def)
  moreover have "procs_ok ?d" by (simp add: procs_ok_def mem_start_def)
  ultimately show ?thesis using i(1,2) cx by (simp add: mem_ok_def mem_start_def)
qed

text \<open>A board with its memory table, and the state in which its driver starts.\<close>

lemma board_ok:
  assumes "kl2_get_df_spec c old = (None, spec)" "kl2_get_mm_info spec c = Some (Some info)"
    and "kl_mm_init ka (nfo_mem info) = Inr mm"
  shows "mem_ok (pages_for_limits mm XPU_MEM_MAIN) (pages_for_limits mm XPU_MEM_L3) (mem_start mm ecc_on n)"
proof (rule start_ok [OF tables_mem_ok assms(3)])
  show "info \<in> set all_tables" using get_mm_info_eq [OF assms(1)] assms(2) general_table by simp
qed

section \<open>Exact counters\<close>

lemma kind_pages_half:
  assumes ok: "mm_ok mt lt mm"
  shows "kind_pages g c k mm < 2 ^ 63"
proof -
  have "kind_pages g c k mm \<le> (\<Sum>m\<leftarrow>mm_mem mm. km_page_count m)"
    unfolding kind_pages_def
  proof (rule sum_list_mono)
    fix m assume "m \<in> set (mm_mem mm)"
    then have "mem_wf m" using ok by (simp add: mm_ok_def mm_wf_def)
    then have "owned g c (mem_blocks m) \<le> km_page_count m" by (rule owned_le [OF mem_wf_tables(1)])
    then show "(if km_kind m = k then owned g c (mem_blocks m) else 0) \<le> km_page_count m" by simp
  qed
  then show ?thesis using ok by (simp add: mm_ok_def)
qed

lemma nothing_left:
  assumes ok: "mem_ok mt lt st" and none: "ad_sess (ms_dev st) = Map.empty"
  shows "m \<in> set (mm_mem (ad_mm (ms_dev st))) \<Longrightarrow> mem_blocks m = Map.empty" "ad_uproc (ms_dev st) = Map.empty"
    "k < XPU_MEM_COUNT \<Longrightarrow> k \<noteq> XPU_MEM_PARAM \<Longrightarrow> cx_store (ad_cxpu (ms_dev st)) a = Some i \<Longrightarrow> ci_mem_used_pgcnt i ! k = 0"
proof -
  have no: "\<not> has_owner (ad_mm (ms_dev st)) w" for w using mem_okD(4) [OF ok, of w] none by auto
  show "mem_blocks m = Map.empty" if "m \<in> set (mm_mem (ad_mm (ms_dev st)))"
    using no that by (fastforce simp: has_owner_def fun_eq_iff intro: ccontr)
  show "ad_uproc (ms_dev st) = Map.empty"
  proof
    fix u show "ad_uproc (ms_dev st) u = None"
      using procs_okD(3,4) [OF mem_okD(3) [OF ok], of u] none by (cases "ad_uproc (ms_dev st) u") fastforce+
  qed
  show "ci_mem_used_pgcnt i ! k = 0" if k: "k < XPU_MEM_COUNT" "k \<noteq> XPU_MEM_PARAM" and a: "cx_store (ad_cxpu (ms_dev st)) a = Some i"
  proof -
    have i0: "inst_of (ms_dev st) w = 0" for w using none by (simp add: inst_of_def)
    have "pc_pages (inst_of (ms_dev st)) (Suc a) k pc = 0" for pc using i0 by (cases pc) simp_all
    then have "pending (inst_of (ms_dev st)) (Suc a) k (ms_threads st) = 0" by (simp add: pending_def)
    moreover have "kind_pages (inst_of (ms_dev st)) (Suc a) k (ad_mm (ms_dev st)) = 0"
      by (rule kind_pages_none) (use no in blast)
    ultimately have "inst_total st a k = 0" by (simp add: inst_total_def)
    then show ?thesis using mem_counts_okD(2) [OF mem_okD(6) [OF ok] k a] by (simp add: u64_def)
  qed
qed

end
