(* ===== verification/Kl2_Alloc_Limit.thy ===== *)
theory Kl2_Alloc_Limit
  imports Kl2_Alloc_Start
begin

text \<open>
  Keeping within a limit: when each process has an instance of its own, what it holds and has asked for
  stays within the limit under every step.
\<close>

section \<open>Keeping within the limit\<close>

text \<open>
  Which steps are taken when every process has a control group of its own, named by \<open>grp\<close>, and
  limits are set before processes come.
\<close>

fun own_group :: "(nat \<Rightarrow> nat) \<Rightarrow> mem_op \<Rightarrow> kl2_mem_state \<Rightarrow> bool" where
  "own_group grp (Op_set_limit iid k bytes) st \<longleftrightarrow> ad_uproc (ms_dev st) = Map.empty"
| "own_group grp (Op_open s u token) st \<longleftrightarrow> token = grp u"
| "own_group grp _ st \<longleftrightarrow> True"

definition within :: "(nat \<Rightarrow> nat) \<Rightarrow> kl2_mem_state \<Rightarrow> bool" where
  "within grp st \<longleftrightarrow>
     (\<forall>a i k. cx_store (ad_cxpu (ms_dev st)) a = Some i \<and> (k = XPU_MEM_MAIN \<or> k = XPU_MEM_L3) \<and>
        ci_mem_limit_pgcnt i ! k \<noteq> CXPU_INSTANCE_MEM_UNLIMIT \<longrightarrow> reserved st a k \<le> ci_mem_limit_pgcnt i ! k) \<and>
     (\<forall>u p a i. ad_uproc (ms_dev st) u = Some p \<and> mu_instance p = Some a \<and>
        cx_store (ad_cxpu (ms_dev st)) a = Some i \<longrightarrow> ci_token i = grp u)"

lemma withinD:
  assumes "within grp st"
  shows "cx_store (ad_cxpu (ms_dev st)) a = Some i \<Longrightarrow> k = XPU_MEM_MAIN \<or> k = XPU_MEM_L3 \<Longrightarrow>
      ci_mem_limit_pgcnt i ! k \<noteq> CXPU_INSTANCE_MEM_UNLIMIT \<Longrightarrow> reserved st a k \<le> ci_mem_limit_pgcnt i ! k"
    "ad_uproc (ms_dev st) u = Some p \<Longrightarrow> mu_instance p = Some a \<Longrightarrow>
      cx_store (ad_cxpu (ms_dev st)) a = Some i \<Longrightarrow> ci_token i = grp u"
  using assms unfolding within_def by blast+

lemma kind_limits: "k = XPU_MEM_MAIN \<or> k = XPU_MEM_L3 \<Longrightarrow> k < XPU_MEM_COUNT \<and> k \<noteq> XPU_MEM_PARAM"
  by (auto simp: xpu_mem_kinds)

lemma within_calm:
  assumes ok: "mem_ok mt lt st" and w: "within grp st" and c: "calm grp st st'"
  shows "within grp st'"
  unfolding within_def
proof (intro conjI allI impI; elim conjE)
  fix a i k
  assume i: "cx_store (ad_cxpu (ms_dev st')) a = Some i" and k: "k = XPU_MEM_MAIN \<or> k = XPU_MEM_L3"
    and l: "ci_mem_limit_pgcnt i ! k \<noteq> CXPU_INSTANCE_MEM_UNLIMIT"
  show "reserved st' a k \<le> ci_mem_limit_pgcnt i ! k"
    using calmD(2) [OF c i]
  proof (elim disjE exE conjE)
    fix j assume j: "cx_store (ad_cxpu (ms_dev st)) a = Some j" "ci_mem_limit_pgcnt i = ci_mem_limit_pgcnt j"
    have "reserved st a k \<le> ci_mem_limit_pgcnt j ! k" by (rule withinD(1) [OF w j(1) k]) (use l j(2) in simp)
    moreover have "reserved st' a k \<le> reserved st a k" by (rule calmD(1) [OF c]) (use kind_limits [OF k] in simp)
    ultimately show ?thesis using j(2) by simp
  next
    assume "ci_mem_limit_pgcnt i = replicate XPU_MEM_COUNT CXPU_INSTANCE_MEM_UNLIMIT"
    then show ?thesis using l kind_limits [OF k] by simp
  qed
next
  fix u p a i
  assume p: "ad_uproc (ms_dev st') u = Some p" "mu_instance p = Some a" and i: "cx_store (ad_cxpu (ms_dev st')) a = Some i"
  show "ci_token i = grp u"
    using calmD(3) [OF c p(1)]
  proof (elim disjE exE conjE)
    fix q assume q: "ad_uproc (ms_dev st) u = Some q" "mu_instance p = mu_instance q"
    then have "cx_store (ad_cxpu (ms_dev st)) a \<noteq> None" using procs_okD(6) [OF mem_okD(3) [OF ok]] p(2) by simp
    with calmD(2) [OF c i] obtain j where j: "cx_store (ad_cxpu (ms_dev st)) a = Some j" "ci_token i = ci_token j" by auto
    have "mu_instance q = Some a" using q(2) p(2) by simp
    from withinD(2) [OF w q(1) this j(1)] j(2) show ?thesis by simp
  qed (use p(2) i in blast)
qed

text \<open>A limit is at most the number of pages of its kind.\<close>

lemma limit_half:
  assumes ok: "mem_ok mt lt st" and i: "cx_store (ad_cxpu (ms_dev st)) a = Some i" and k: "k = XPU_MEM_MAIN \<or> k = XPU_MEM_L3"
    and l: "ci_mem_limit_pgcnt i ! k \<noteq> CXPU_INSTANCE_MEM_UNLIMIT"
  shows "ci_mem_limit_pgcnt i ! k < 2 ^ 63"
proof -
  have "ci_mem_limit_pgcnt i ! k \<le> limit_total (ad_cxpu (ms_dev st)) k"
    using limit_total_upd(2) [OF mem_okD(2) [OF ok] i, of k] l by (simp add: limit_pages_def)
  also have "\<dots> < 2 ^ 63"
    using k cx_okD(7,8) [OF mem_okD(2) [OF ok]] by (auto simp: info_sum_ok_def)
  finally show ?thesis .
qed

text \<open>When the process of an instance is not locked, no request of the instance is between test and charge.\<close>

lemma none_tested:
  assumes ok: "mem_ok mt lt st" and w: "within grp st" and inj: "inj grp"
    and p: "ad_uproc (ms_dev st) u = Some p" "\<not> mu_locked p" "mu_instance p = Some a"
  shows "reserved st a k = inst_total st a k"
proof -
  let ?d = "ms_dev st"
  obtain i where i: "cx_store (ad_cxpu ?d) a = Some i" using procs_okD(6) [OF mem_okD(3) [OF ok] p(1,3)] by blast
  have nolock: "pc_locks ?d u pc = 0" if "pc \<in> set (ms_threads st)" for pc
  proof -
    have "(\<Sum>pc\<leftarrow>ms_threads st. pc_locks ?d u pc) = 0" using mem_okD(7) [OF ok] p(1,2) unfolding locks_ok_def by auto
    then show ?thesis using that by (simp add: sum_list_eq_0_iff)
  qed
  have z: "pc_tested (inst_of ?d) (Suc a) k pc = 0" if pc: "pc \<in> set (ms_threads st)" for pc
  proof (cases pc)
    case (Mp_tested s sz args_kind kind pages)
    have "inst_of ?d s \<noteq> Suc a"
    proof
      assume "inst_of ?d s = Suc a"
      then obtain v q where v: "ad_sess ?d s = Some v" "ad_uproc ?d v = Some q" "mu_instance q = Some a"
        by (auto simp: inst_of_def split: option.splits)
      have "grp v = grp u" using withinD(2) [OF w v(2,3) i] withinD(2) [OF w p(1,3) i] by simp
      then have "v = u" using inj by (simp add: inj_eq)
      with nolock [OF pc] v(1) Mp_tested show False by simp
    qed
    with Mp_tested show ?thesis by simp
  qed simp_all
  have "(\<Sum>pc\<leftarrow>ms_threads st. pc_pages (inst_of ?d) (Suc a) k pc + pc_tested (inst_of ?d) (Suc a) k pc) =
      pending (inst_of ?d) (Suc a) k (ms_threads st)"
    unfolding pending_def by (rule arg_cong [where f = sum_list], rule map_cong [OF refl]) (simp add: z)
  then show ?thesis by (simp add: reserved_def inst_total_def)
qed

lemma within_test:
  assumes ok: "mem_ok mt lt st" and w: "within grp st" and inj: "inj grp"
    and en: "enabled (Op_test t s sz args_kind) st" and ex: "exec find_area (Op_test t s sz args_kind) st = Some st'"
  shows "within grp st'"
proof (cases rule: test_effect [OF ok en, where find_area = find_area, case_names refused tested])
  case refused
  with ex w show ?thesis by simp
next
  case (tested u p kind pages)
  let ?d = "ms_dev st" and ?d' = "(ms_dev st)\<lparr>ad_uproc := (ad_uproc (ms_dev st))(u \<mapsto> p\<lparr>mu_locked := True\<rparr>)\<rparr>"
  let ?pc = "Mp_tested s sz args_kind kind pages"
  have e: "t < length (ms_threads st)" "ms_threads st ! t = Mp_idle" "args_kind < XPU_MEM_COUNT" using en by auto
  have st': "st' = set_pc t ?pc st ?d'" using ex tested(1) by simp
  have sh: "same_shape ?d ?d'"
    by (rule same_shape_upd [where u = u and p = p and p' = "p\<lparr>mu_locked := True\<rparr>"]) (simp_all add: tested)
  have ins: "inst_of ?d s = (case mu_instance p of None \<Rightarrow> 0 | Some a \<Rightarrow> Suc a)" using tested(2,3) by (simp add: inst_of_def)
  have res: "reserved st' a k = reserved st a k + (if mu_instance p = Some a \<and> kind = k then pages else 0)" for a k
    using reserved_set_pc [OF sh e(1), of ?pc a k] e(2) ins unfolding st' by (auto split: option.splits)
  have "reserved st' a k \<le> ci_mem_limit_pgcnt i ! k"
    if i: "cx_store (ad_cxpu ?d) a = Some i" and k: "k = XPU_MEM_MAIN \<or> k = XPU_MEM_L3"
      and l: "ci_mem_limit_pgcnt i ! k \<noteq> CXPU_INSTANCE_MEM_UNLIMIT" for a i k
  proof (cases "mu_instance p = Some a \<and> kind = k")
    case False
    then have "reserved st' a k = reserved st a k" by (simp only: res False if_False add_0_right)
    then show ?thesis using withinD(1) [OF w i k l] by simp
  next
    case True
    have tot: "reserved st a k = inst_total st a k" using none_tested [OF ok w inj tested(3,4)] True by blast
    have le: "inst_total st a k \<le> ci_mem_limit_pgcnt i ! k" using withinD(1) [OF w i k l] tot by simp
    note h = limit_half [OF ok i k l]
    have used: "ci_mem_used_pgcnt i ! k = inst_total st a k"
      using mem_counts_okD(2) [OF mem_okD(6) [OF ok] _ _ i, of k] kind_limits [OF k] le h by (simp add: u64_id)
    obtain n m where m: "mk2md (ad_mm ?d) n = Some m" "pages = malloc_pages_needed m sz"
      using tested(5) by (auto simp: malloc_region_def split: option.splits)
    have "m \<in> set (mm_mem (ad_mm ?d))" using m(1) unfolding mk2md_def find_Some_iff by (metis nth_mem)
    then have "mem_wf m" using mem_okD(8) [OF ok] unfolding mm_wf_def by blast
    then have "pages < 2 ^ 63" unfolding m(2) by (rule malloc_pages_needed_half)
    then have "u64 (ci_mem_used_pgcnt i ! kind + pages) = inst_total st a k + pages"
      using used True le h by (intro trans [OF u64_id]) simp_all
    with tested(6) [of a i] True i have "inst_total st a k + pages \<le> ci_mem_limit_pgcnt i ! k" by simp
    then show ?thesis unfolding res using True tot by simp
  qed
  moreover have "ci_token i = grp v" if "ad_uproc ?d' v = Some q" "mu_instance q = Some a" "cx_store (ad_cxpu ?d) a = Some i" for v q a i
    using that withinD(2) [OF w] tested(3) by (cases "v = u") auto
  ultimately show ?thesis unfolding within_def st' set_pc_simps by simp
qed

lemma within_step:
  assumes fa: "zero_area_finder find_area" and ok: "mem_ok mt lt st" and w: "within grp st" and inj: "inj grp"
    and en: "enabled op st" and P: "own_group grp op st" and ex: "exec find_area op st = Some st'"
  shows "within grp st'"
proof -
  have c: "within grp st'" if "\<exists>st2. exec find_area op st = Some st2 \<and> mem_ok mt lt st2 \<and> calm grp st st2"
    using within_calm [OF ok w] that ex by auto
  show ?thesis
  proof (cases op)
    case (Op_test t s sz args_kind) with within_test [OF ok w inj] en ex show ?thesis by blast
  next
    case (Op_charge t) with charge_step_ok [OF ok] en c show ?thesis by blast
  next
    case (Op_take t) with take_step_ok [OF fa ok] en c show ?thesis by blast
  next
    case (Op_undo t) with undo_step_ok [OF ok] en c show ?thesis by blast
  next
    case (Op_free s addr) with free_step_ok [OF ok] en c show ?thesis by blast
  next
    case (Op_param_alloc s bytes) with param_alloc_step_ok [OF fa ok] en c show ?thesis by blast
  next
    case (Op_param_free s addr) with param_free_step_ok [OF ok] en c show ?thesis by blast
  next
    case (Op_open s u token)
    with P have "grp u = token" by simp
    with Op_open open_step_ok [OF ok, of s u token find_area grp] en c show ?thesis by blast
  next
    case (Op_close s) with close_step_ok [OF ok] en c show ?thesis by blast
  next
    case (Op_create a token iid) with create_step_ok [OF ok] en c show ?thesis by blast
  next
    case (Op_destroy iid) with destroy_step_ok [OF ok] c show ?thesis by blast
  next
    case (Op_set_limit iid k bytes)
    have none: "ad_uproc (ms_dev st) = Map.empty" using P Op_set_limit by simp
    from set_limit_step_ok [OF ok, of find_area iid k bytes] Op_set_limit ex
    have e: "mem_ok mt lt st'" "ad_uproc (ms_dev st') = Map.empty" using none by auto
    have i0: "inst_of (ms_dev st') s = 0" for s using e(2) by (simp add: inst_of_def split: option.splits)
    have "pc_pages (inst_of (ms_dev st')) (Suc a) k pc + pc_tested (inst_of (ms_dev st')) (Suc a) k pc = 0" for a k pc
      using i0 by (cases pc) simp_all
    moreover have "kind_pages (inst_of (ms_dev st')) (Suc a) k (ad_mm (ms_dev st')) = 0" for a k
      by (rule kind_pages_none) (simp add: i0)
    ultimately have "reserved st' a k = 0" for a k by (simp add: reserved_def)
    then show ?thesis using e(2) by (simp add: within_def)
  qed
qed

lemma within_start: "within grp (mem_start mm ecc_on n)"
  by (simp add: within_def mem_start_def kl_cxpu_init_def)

lemma within_reach:
  assumes r: "mem_reach find_area (own_group grp) st0 st" and fa: "zero_area_finder find_area" and inj: "inj grp"
    and ok: "mem_ok mt lt st0" and w: "within grp st0"
  shows "within grp st"
  using r
proof induction
  case (mem_more st1 op st2)
  show ?case
    by (rule within_step [OF fa reach_ok [OF mem_more.hyps(1) fa ok] mem_more.IH inj mem_more.hyps(3,2,4)])
qed (rule w)

end
