(* ===== verification/Kl2_Alloc_Runs.thy ===== *)
theory Kl2_Alloc_Runs
  imports Kl2_Alloc_Limit
begin

text \<open>
  Runs on a concrete board, for the witnesses of the properties in \<open>Kl2_Alloc_Claims\<close>: the general 16 GB
  board, a list of steps as a function, and three short runs.
\<close>

section \<open>A board with two containers' worth of processes\<close>

lemma r200_mm:
  obtains mm :: "nat kl_mm" where "kl_mm_init demo_allocs (nfo_mem kl_mm_info_eccoff_16g) = Inr mm"
    "map (\<lambda>m. (km_kind m, km_page_bits m, km_page_size m, km_page_count m)) (mm_mem mm) =
     map (\<lambda>i. (info_kind i, info_page_bits i, 2 ^ info_page_bits i, info_size i div 2 ^ info_page_bits i))
       (nfo_mem kl_mm_info_eccoff_16g)"
proof -
  obtain mm :: "nat kl_mm" where m0: "kl_mm_init demo_allocs (nfo_mem kl_mm_info_eccoff_16g) = Inr mm"
    using table_init [OF all_tables_ok demo_all_allocated, of kl_mm_info_eccoff_16g] by (auto simp: all_tables_def)
  have "infos_ok (nfo_mem kl_mm_info_eccoff_16g)"
    using all_tables_ok [of kl_mm_info_eccoff_16g] by (simp add: table_ok_def all_tables_def)
  note fr = kl_mm_init_fresh [OF this m0]
  have "map (\<lambda>m. (km_kind m, km_page_bits m, km_page_size m, km_page_count m)) (mm_mem mm) =
     map (\<lambda>i. (info_kind i, info_page_bits i, 2 ^ info_page_bits i, info_size i div 2 ^ info_page_bits i))
       (nfo_mem kl_mm_info_eccoff_16g)"
  proof (rule nth_equalityI)
    fix i assume "i < length (map (\<lambda>m. (km_kind m, km_page_bits m, km_page_size m, km_page_count m)) (mm_mem mm))"
    then have i: "i < length (mm_mem mm)" "i < length (nfo_mem kl_mm_info_eccoff_16g)" using fr(2) by simp_all
    have "mem_wf (mm_mem mm ! i)" using mm_wfD [OF fr(1) i(1)] by simp
    with fr(3) [OF i(2)] i show "map (\<lambda>m. (km_kind m, km_page_bits m, km_page_size m, km_page_count m)) (mm_mem mm) ! i =
        map (\<lambda>i. (info_kind i, info_page_bits i, 2 ^ info_page_bits i, info_size i div 2 ^ info_page_bits i))
          (nfo_mem kl_mm_info_eccoff_16g) ! i"
      by (simp add: fresh_region_def mem_wf_def)
  qed (use fr(2) in simp)
  with m0 show ?thesis by (rule that)
qed

text \<open>What the steps read of a manager is in the geometry of its regions.\<close>

definition geometry :: "nat kl_mm \<Rightarrow> (nat \<times> nat \<times> nat \<times> nat) list" where
  "geometry mm = map (\<lambda>m. (km_kind m, km_page_bits m, km_page_size m, km_page_count m)) (mm_mem mm)"

lemma find_map_Some:
  "List.find (\<lambda>x. fst x = k) (map (\<lambda>m. (f m, g m)) ms) = Some (k, y) \<Longrightarrow>
     \<exists>m. List.find (\<lambda>m. f m = k) ms = Some m \<and> g m = y"
  by (induction ms) (auto split: if_splits)

lemma geometry_find:
  assumes "List.find (\<lambda>x. fst x = k) (geometry mm) = Some (k, b, s, c)"
  obtains m where "mk2md mm k = Some m" "km_kind m = k" "km_page_bits m = b" "km_page_size m = s" "km_page_count m = c"
proof -
  from find_map_Some [OF assms [unfolded geometry_def]] obtain m where
    m: "List.find (\<lambda>m. km_kind m = k) (mm_mem mm) = Some m" "(km_page_bits m, km_page_size m, km_page_count m) = (b, s, c)" by blast
  then have "km_kind m = k" by (auto simp: find_Some_iff)
  with m show ?thesis by (intro that) (auto simp: mk2md_def)
qed

lemma geometry_pages:
  "kl_mm_get_pg_all mm k = foldl (\<lambda>ret x. if fst x = k then u64 (ret + snd (snd (snd x))) else ret) 0 (geometry mm)"
  unfolding kl_mm_get_pg_all_def sum_of_kind_def geometry_def foldl_map by (simp cong: if_cong)

lemma r200_geometry:
  obtains mm :: "nat kl_mm" where "kl_mm_init demo_allocs (nfo_mem kl_mm_info_eccoff_16g) = Inr mm"
    "List.find (\<lambda>x. fst x = XPU_MEM_L3) (geometry mm) = Some (XPU_MEM_L3, 12, 4096, 16383)"
    "kl_mm_get_pg_all mm XPU_MEM_L3 = 16383"
proof (rule r200_mm)
  fix mm :: "nat kl_mm"
  assume i: "kl_mm_init demo_allocs (nfo_mem kl_mm_info_eccoff_16g) = Inr mm"
    and g: "map (\<lambda>m. (km_kind m, km_page_bits m, km_page_size m, km_page_count m)) (mm_mem mm) =
     map (\<lambda>i. (info_kind i, info_page_bits i, 2 ^ info_page_bits i, info_size i div 2 ^ info_page_bits i))
       (nfo_mem kl_mm_info_eccoff_16g)"
  have "List.find (\<lambda>x. fst x = XPU_MEM_L3) (geometry mm) = Some (XPU_MEM_L3, 12, 4096, 16383)"
    unfolding geometry_def g
    by (simp add: kl_mm_info_eccoff_16g_def kl_mem_info_eccoff_16g_def mem_info_def xpu_mem_kinds)
  moreover have "kl_mm_get_pg_all mm XPU_MEM_L3 = 16383"
    unfolding geometry_pages unfolding geometry_def g
    by (simp add: kl_mm_info_eccoff_16g_def kl_mem_info_eccoff_16g_def mem_info_def xpu_mem_kinds u64_def)
  ultimately show ?thesis by (rule that [OF i])
qed

lemma pow_half: "(2 :: nat) ^ 63 < 2 ^ 64"
  by simp

fun run_ops ::
    "(bool list \<Rightarrow> nat \<Rightarrow> nat \<Rightarrow> nat \<Rightarrow> nat) \<Rightarrow> (mem_op \<Rightarrow> kl2_mem_state \<Rightarrow> bool) \<Rightarrow> mem_op list \<Rightarrow>
     kl2_mem_state \<Rightarrow> kl2_mem_state option" where
  "run_ops find_area P [] st = Some st"
| "run_ops find_area P (op # ops) st =
     (if P op st \<and> enabled op st
      then (case exec find_area op st of None \<Rightarrow> None | Some st' \<Rightarrow> run_ops find_area P ops st') else None)"

lemma run_reach: "mem_reach find_area P st0 st \<Longrightarrow> run_ops find_area P ops st = Some st' \<Longrightarrow> mem_reach find_area P st0 st'"
proof (induction ops arbitrary: st)
  case (Cons op ops)
  from Cons.prems(2) obtain st1 where "P op st" "enabled op st" "exec find_area op st = Some st1" "run_ops find_area P ops st1 = Some st'"
    by (auto split: if_splits option.splits)
  then show ?case using Cons.IH [OF mem_reach.mem_more [OF Cons.prems(1)]] by blast
qed simp

abbreviation any_step :: "mem_op \<Rightarrow> kl2_mem_state \<Rightarrow> bool" where
  "any_step \<equiv> \<lambda>_ _. True"

lemmas run_eval = mem_start_def kl_cxpu_init_def create_locked_def kl_cxpu_set_instance_mem_limit_def
  kl_cxpu_get_instance_by_id_locked_def instance_get_def upd_instance_def new_instance_def same_name_def
  CXPU_INSTANCE_ID_LEN_def kl_cxpu_instance_set_mem_limit_locked_def Let_def limit_pages_def limit_info_def
  set_limit_pages_def set_limit_used_def showmem_to_actmem_def pages_for_limits_def kl_cxpu_put_instance_locked_def
  instance_put_def open_session_def create_mem_uproc_def kl_cxpu_get_instance_by_token_locked_def
  unlocked_def session_instance_def malloc_test_def malloc_charge_def malloc_region_def
  kl_cxpu_instance_check_mem_limit_def kl_cxpu_instance_add_mem_used_def charge_with_def exceed_limit_def upd_mu_def set_pc_def

lemma run_facts:
  "XPU_MEM_L3 \<noteq> XPU_MEM_MAIN" "XPU_MEM_L3 < XPU_MEM_COUNT" "XPU_MEM_L3 \<noteq> XPU_MEM_MAIN_KL2_HUGE"
  "CXPU_INSTANCE_MEM_UNLIMIT \<noteq> 8192" "CXPU_INSTANCE_MEM_UNLIMIT \<noteq> 2"
  "u64_sub 0 0 = 0" "u64 2 = 2" "u64 (Suc (Suc 0)) = 2" "u64 16383 = 16383" "u64_sub 16383 0 = 16383"
  by (simp_all add: xpu_mem_kinds CXPU_INSTANCE_MEM_UNLIMIT_def u64_def u64_sub_def)

lemma L3_region:
  assumes "mk2md mm XPU_MEM_L3 = Some m" "km_page_bits m = 12" "km_page_size m = 4096"
  shows "bytes2pgcnt m 8192 = 2" "malloc_pages_needed m 5000 = 2"
  by (simp_all add: bytes2pgcnt_def malloc_pages_needed_def assms u64_def u64_sub_def)

text \<open>
  Two processes of one control group, each with a session, and an instance for the group that is
  limited to two pages of L3.
\<close>

definition two_users :: "mem_op list" where
  "two_users = [Op_create 5 3 ''c'', Op_set_limit ''c'' XPU_MEM_L3 8192, Op_open 1 7 3, Op_open 2 8 3]"

lemma two_users_run:
  assumes g: "List.find (\<lambda>x. fst x = XPU_MEM_L3) (geometry mm) = Some (XPU_MEM_L3, 12, 4096, 16383)"
    and a: "kl_mm_get_pg_all mm XPU_MEM_L3 = 16383"
  obtains cx where "run_ops first_fit any_step two_users (mem_start mm False 2) = Some \<lparr>ms_dev = \<lparr>ad_mm = mm, ad_cxpu = cx,
      ad_uproc = [7 \<mapsto> \<lparr>mu_refs = 1, mu_locked = False, mu_used = replicate XPU_MEM_COUNT 0, mu_instance = Some 5\<rparr>,
                  8 \<mapsto> \<lparr>mu_refs = 1, mu_locked = False, mu_used = replicate XPU_MEM_COUNT 0, mu_instance = Some 5\<rparr>],
      ad_sess = [1 \<mapsto> 7, 2 \<mapsto> 8]\<rparr>, ms_threads = replicate 2 Mp_idle\<rparr>"
    "cx_store cx = [5 \<mapsto> \<lparr>ci_refs = Suc (Suc (Suc 0)), ci_instance_id = ''c'', ci_token = 3,
      ci_mem_used_pgcnt = replicate XPU_MEM_COUNT 0,
      ci_mem_limit_pgcnt = (replicate XPU_MEM_COUNT CXPU_INSTANCE_MEM_UNLIMIT)[XPU_MEM_L3 := 2],
      ci_core_limit = CXPU_INSTANCE_CORE_UNLIMIT\<rparr>]"
proof -
  obtain m where m: "mk2md mm XPU_MEM_L3 = Some m" "km_page_bits m = 12" "km_page_size m = 4096"
    by (rule geometry_find [OF g])
  have "\<exists>cx. run_ops first_fit any_step two_users (mem_start mm False 2) = Some \<lparr>ms_dev = \<lparr>ad_mm = mm, ad_cxpu = cx,
      ad_uproc = [7 \<mapsto> \<lparr>mu_refs = 1, mu_locked = False, mu_used = replicate XPU_MEM_COUNT 0, mu_instance = Some 5\<rparr>,
                  8 \<mapsto> \<lparr>mu_refs = 1, mu_locked = False, mu_used = replicate XPU_MEM_COUNT 0, mu_instance = Some 5\<rparr>],
      ad_sess = [1 \<mapsto> 7, 2 \<mapsto> 8]\<rparr>, ms_threads = replicate 2 Mp_idle\<rparr> \<and>
    cx_store cx = [5 \<mapsto> \<lparr>ci_refs = Suc (Suc (Suc 0)), ci_instance_id = ''c'', ci_token = 3,
      ci_mem_used_pgcnt = replicate XPU_MEM_COUNT 0,
      ci_mem_limit_pgcnt = (replicate XPU_MEM_COUNT CXPU_INSTANCE_MEM_UNLIMIT)[XPU_MEM_L3 := 2],
      ci_core_limit = CXPU_INSTANCE_CORE_UNLIMIT\<rparr>]"
    by (simp add: two_users_def run_eval m(1) L3_region [OF m] a run_facts)
  then show ?thesis using that by blast
qed

text \<open>One process in a group of its own, which has just been charged two pages of the two it may have.\<close>

definition one_user :: "mem_op list" where
  "one_user = [Op_create 5 7 ''c'', Op_set_limit ''c'' XPU_MEM_L3 8192, Op_open 1 7 7,
     Op_test 0 1 5000 XPU_MEM_L3, Op_charge 0]"

lemma one_user_run:
  assumes g: "List.find (\<lambda>x. fst x = XPU_MEM_L3) (geometry mm) = Some (XPU_MEM_L3, 12, 4096, 16383)"
    and a: "kl_mm_get_pg_all mm XPU_MEM_L3 = 16383"
  obtains st where "run_ops first_fit (own_group (\<lambda>u. u)) one_user (mem_start mm False 2) = Some st"
    "cx_store (ad_cxpu (ms_dev st)) 5 = Some \<lparr>ci_refs = Suc (Suc 0), ci_instance_id = ''c'', ci_token = 7,
      ci_mem_used_pgcnt = (replicate XPU_MEM_COUNT 0)[XPU_MEM_L3 := 2],
      ci_mem_limit_pgcnt = (replicate XPU_MEM_COUNT CXPU_INSTANCE_MEM_UNLIMIT)[XPU_MEM_L3 := 2],
      ci_core_limit = CXPU_INSTANCE_CORE_UNLIMIT\<rparr>"
proof -
  obtain m where m: "mk2md mm XPU_MEM_L3 = Some m" "km_kind m = XPU_MEM_L3" "km_page_bits m = 12" "km_page_size m = 4096"
    by (rule geometry_find [OF g])
  have "\<exists>st. run_ops first_fit (own_group (\<lambda>u. u)) one_user (mem_start mm False 2) = Some st \<and>
    cx_store (ad_cxpu (ms_dev st)) 5 = Some \<lparr>ci_refs = Suc (Suc 0), ci_instance_id = ''c'', ci_token = 7,
      ci_mem_used_pgcnt = (replicate XPU_MEM_COUNT 0)[XPU_MEM_L3 := 2],
      ci_mem_limit_pgcnt = (replicate XPU_MEM_COUNT CXPU_INSTANCE_MEM_UNLIMIT)[XPU_MEM_L3 := 2],
      ci_core_limit = CXPU_INSTANCE_CORE_UNLIMIT\<rparr>"
    by (simp add: one_user_def run_eval m(1,2) L3_region [OF m(1,3,4)] a run_facts)
  then show ?thesis using that by blast
qed

end
