(* ===== verification/Kl2_Alloc_Claims.thy ===== *)
theory Kl2_Alloc_Claims
  imports Kl2_Alloc_Runs
begin

text \<open>
  What holds of the memory of processes in every state requests lead to: the accounting is exact and
  complete, limits are kept where every process has its own instance, and the two ways round them.
\<close>

section \<open>Properties\<close>



text \<open>
  C38: the limit. When every process has a control group of its own and limits are set before
  processes come, then, whatever else interleaves, an instance with a limit is never charged more than
  it, and so its process never holds more pages of the kind: test and charge are one section under
  the lock of the process, and a charge outlives the allocation it is for.
\<close>

theorem kl2_limit_kept:
  assumes "kl2_get_df_spec c old = (None, spec)" and "kl2_get_mm_info spec c = Some (Some info)"
    and "kl_mm_init ka (nfo_mem info) = Inr mm" and "zero_area_finder find_area" and "inj grp"
    and "mem_reach find_area (own_group grp) (mem_start mm ecc_on n) st"
    and "cx_store (ad_cxpu (ms_dev st)) a = Some i" and "k = XPU_MEM_MAIN \<or> k = XPU_MEM_L3"
    and "ci_mem_limit_pgcnt i ! k \<noteq> CXPU_INSTANCE_MEM_UNLIMIT"
  shows "kind_pages (inst_of (ms_dev st)) (Suc a) k (ad_mm (ms_dev st)) \<le> ci_mem_used_pgcnt i ! k \<and>
    ci_mem_used_pgcnt i ! k \<le> ci_mem_limit_pgcnt i ! k"
proof -
  note start = board_ok [OF assms(1-3), of ecc_on n]
  note ok = reach_ok [OF assms(6,4) start]
  have "reserved st a k \<le> ci_mem_limit_pgcnt i ! k"
    by (rule withinD(1) [OF within_reach [OF assms(6,4,5) start within_start] assms(7-9)])
  moreover have "inst_total st a k \<le> reserved st a k"
    unfolding inst_total_def reserved_def pending_def by (simp add: sum_list_mono)
  ultimately have le: "inst_total st a k \<le> ci_mem_limit_pgcnt i ! k" by simp
  then have "inst_total st a k < 2 ^ 64" using limit_half [OF ok assms(7-9)] by simp
  then have "ci_mem_used_pgcnt i ! k = inst_total st a k"
    using mem_counts_okD(2) [OF mem_okD(6) [OF ok] _ _ assms(7)] kind_limits [OF assms(8)] by (simp add: u64_id)
  with le show ?thesis by (simp add: inst_total_def)
qed

lemma kl2_limit_kept_witness:
  "\<exists>(mm :: nat kl_mm) st i. mem_reach first_fit (own_group (\<lambda>u. u)) (mem_start mm False 2) st \<and>
     cx_store (ad_cxpu (ms_dev st)) 5 = Some i \<and> ci_mem_limit_pgcnt i ! XPU_MEM_L3 = 2 \<and>
     ci_mem_used_pgcnt i ! XPU_MEM_L3 = 2 \<and>
     kind_pages (inst_of (ms_dev st)) 6 XPU_MEM_L3 (ad_mm (ms_dev st)) \<le> 2"
proof -
  obtain mm :: "nat kl_mm" where m: "kl_mm_init demo_allocs (nfo_mem kl_mm_info_eccoff_16g) = Inr mm"
    "List.find (\<lambda>x. fst x = XPU_MEM_L3) (geometry mm) = Some (XPU_MEM_L3, 12, 4096, 16383)"
    "kl_mm_get_pg_all mm XPU_MEM_L3 = 16383" by (rule r200_geometry)
  obtain st where r: "run_ops first_fit (own_group (\<lambda>u. u)) one_user (mem_start mm False 2) = Some st"
    and i: "cx_store (ad_cxpu (ms_dev st)) 5 = Some \<lparr>ci_refs = Suc (Suc 0), ci_instance_id = ''c'', ci_token = 7,
      ci_mem_used_pgcnt = (replicate XPU_MEM_COUNT 0)[XPU_MEM_L3 := 2],
      ci_mem_limit_pgcnt = (replicate XPU_MEM_COUNT CXPU_INSTANCE_MEM_UNLIMIT)[XPU_MEM_L3 := 2],
      ci_core_limit = CXPU_INSTANCE_CORE_UNLIMIT\<rparr>"
    by (rule one_user_run [OF m(2,3)])
  have reach: "mem_reach first_fit (own_group (\<lambda>u. u)) (mem_start mm False 2) st" by (rule run_reach [OF mem_reach.mem_refl r])
  have len: "XPU_MEM_L3 < XPU_MEM_COUNT" by (simp add: xpu_mem_kinds)
  from kl2_limit_kept [OF r200_spec r200_table m(1) ff.zero_area_finder_axioms _ reach i disjI2 [OF refl]] i len reach
  show ?thesis by (intro exI [of _ mm] exI [of _ st]) (simp add: CXPU_INSTANCE_MEM_UNLIMIT_def)
qed

section \<open>Two processes with one limit\<close>

lemma malloc_region_upd [simp]:
  "malloc_region (d\<lparr>ad_uproc := f\<rparr>) sz kind0 = malloc_region d sz kind0"
  "malloc_region (d\<lparr>ad_cxpu := cx\<rparr>) sz kind0 = malloc_region d sz kind0"
  by (simp_all add: malloc_region_def)

text \<open>
  C39: two processes of one control group. Each has a lock of its own, but they share the instance
  and its limit. When the sections of two requests interleave as test, test, charge, charge, and each
  request alone is within the limit but both are not, both are let through: the instance is charged
  beyond its limit.
\<close>

theorem kl2_limit_race:
  assumes "kl2_get_df_spec c old = (None, spec)" and "kl2_get_mm_info spec c = Some (Some info)"
    and "kl_mm_init ka (nfo_mem info) = Inr mm" and "zero_area_finder find_area"
    and "mem_reach find_area any_step (mem_start mm ecc_on n) st"
    and "t1 \<noteq> t2" and "t1 < length (ms_threads st)" and "ms_threads st ! t1 = Mp_idle"
    and "t2 < length (ms_threads st)" and "ms_threads st ! t2 = Mp_idle"
    and "u1 \<noteq> u2" and "ad_sess (ms_dev st) s1 = Some u1" and "ad_sess (ms_dev st) s2 = Some u2"
    and "ad_uproc (ms_dev st) u1 = Some p1" and "\<not> mu_locked p1" and "mu_instance p1 = Some a"
    and "ad_uproc (ms_dev st) u2 = Some p2" and "\<not> mu_locked p2" and "mu_instance p2 = Some a"
    and "cx_store (ad_cxpu (ms_dev st)) a = Some i"
    and "args_kind < XPU_MEM_COUNT" and "sz + 2 ^ 32 \<le> 2 ^ 64"
    and "malloc_region (ms_dev st) sz args_kind = Inr (kind, pages)" and "kind = XPU_MEM_MAIN \<or> kind = XPU_MEM_L3"
    and "ci_mem_limit_pgcnt i ! kind \<noteq> CXPU_INSTANCE_MEM_UNLIMIT"
    and "ci_mem_used_pgcnt i ! kind + pages \<le> ci_mem_limit_pgcnt i ! kind"
    and "ci_mem_limit_pgcnt i ! kind < ci_mem_used_pgcnt i ! kind + 2 * pages"
  shows "\<exists>st' i'. run_ops find_area any_step
      [Op_test t1 s1 sz args_kind, Op_test t2 s2 sz args_kind, Op_charge t1, Op_charge t2] st = Some st' \<and>
    cx_store (ad_cxpu (ms_dev st')) a = Some i' \<and> ci_mem_limit_pgcnt i' = ci_mem_limit_pgcnt i \<and>
    ci_mem_limit_pgcnt i' ! kind < ci_mem_used_pgcnt i' ! kind"
proof -
  have ok: "mem_ok (pages_for_limits mm XPU_MEM_MAIN) (pages_for_limits mm XPU_MEM_L3) st"
    by (rule reach_ok [OF assms(5,4) board_ok [OF assms(1-3)]])
  have lim: "ci_mem_limit_pgcnt i ! kind < 2 ^ 63" by (rule limit_half [OF ok assms(20,24,25)])
  have "length (ci_mem_used_pgcnt i) = XPU_MEM_COUNT"
    using cx_okD(5) [OF mem_okD(2) [OF ok] assms(20)] by (simp add: instance_ok_def)
  then have len: "kind < length (ci_mem_used_pgcnt i)" using kind_limits [OF assms(24)] by simp
  have u: "u64 (ci_mem_used_pgcnt i ! kind + pages) = ci_mem_used_pgcnt i ! kind + pages"
    "u64 (ci_mem_used_pgcnt i ! kind + pages + pages) = ci_mem_used_pgcnt i ! kind + pages + pages"
    using assms(26) lim by (simp_all add: u64_id)
  show ?thesis
    using assms(6-23) assms(26,27) len u
    by (simp add: malloc_test_def malloc_charge_def session_instance_def unlocked_def upd_mu_def
        kl_cxpu_instance_check_mem_limit_def exceed_limit_def kl_cxpu_instance_add_mem_used_def charge_with_def
        upd_instance_def set_pc_def)
qed

lemma kl2_limit_race_witness:
  "\<exists>(mm :: nat kl_mm) st st' i. mem_reach first_fit any_step (mem_start mm False 2) st \<and>
     run_ops first_fit any_step
       [Op_test 0 1 5000 XPU_MEM_L3, Op_test 1 2 5000 XPU_MEM_L3, Op_charge 0, Op_charge 1] st = Some st' \<and>
     cx_store (ad_cxpu (ms_dev st')) 5 = Some i \<and> ci_mem_limit_pgcnt i ! XPU_MEM_L3 < ci_mem_used_pgcnt i ! XPU_MEM_L3"
proof -
  obtain mm :: "nat kl_mm" where m: "kl_mm_init demo_allocs (nfo_mem kl_mm_info_eccoff_16g) = Inr mm"
    "List.find (\<lambda>x. fst x = XPU_MEM_L3) (geometry mm) = Some (XPU_MEM_L3, 12, 4096, 16383)"
    "kl_mm_get_pg_all mm XPU_MEM_L3 = 16383" by (rule r200_geometry)
  obtain r where r: "mk2md mm XPU_MEM_L3 = Some r" "km_kind r = XPU_MEM_L3" "km_page_bits r = 12" "km_page_size r = 4096"
    by (rule geometry_find [OF m(2)])
  have len: "XPU_MEM_L3 < XPU_MEM_COUNT" "XPU_MEM_L3 \<noteq> XPU_MEM_MAIN_KL2_HUGE" by (simp_all add: xpu_mem_kinds)
  obtain cx where st: "run_ops first_fit any_step two_users (mem_start mm False 2) = Some \<lparr>ms_dev = \<lparr>ad_mm = mm, ad_cxpu = cx,
      ad_uproc = [7 \<mapsto> \<lparr>mu_refs = 1, mu_locked = False, mu_used = replicate XPU_MEM_COUNT 0, mu_instance = Some 5\<rparr>,
                  8 \<mapsto> \<lparr>mu_refs = 1, mu_locked = False, mu_used = replicate XPU_MEM_COUNT 0, mu_instance = Some 5\<rparr>],
      ad_sess = [1 \<mapsto> 7, 2 \<mapsto> 8]\<rparr>, ms_threads = replicate 2 Mp_idle\<rparr>" (is "_ = Some ?st")
    and cx: "cx_store cx = [5 \<mapsto> \<lparr>ci_refs = Suc (Suc (Suc 0)), ci_instance_id = ''c'', ci_token = 3,
      ci_mem_used_pgcnt = replicate XPU_MEM_COUNT 0,
      ci_mem_limit_pgcnt = (replicate XPU_MEM_COUNT CXPU_INSTANCE_MEM_UNLIMIT)[XPU_MEM_L3 := 2],
      ci_core_limit = CXPU_INSTANCE_CORE_UNLIMIT\<rparr>]"
    by (rule two_users_run [OF m(2,3)])
  have reach: "mem_reach first_fit any_step (mem_start mm False 2) ?st" by (rule run_reach [OF mem_reach.mem_refl st])
  have region: "malloc_region (ms_dev ?st) 5000 XPU_MEM_L3 = Inr (XPU_MEM_L3, 2)"
    using r len L3_region(2) [OF r(1,3,4)] by (simp add: malloc_region_def)
  have "\<exists>st' i'. run_ops first_fit any_step
       [Op_test 0 1 5000 XPU_MEM_L3, Op_test 1 2 5000 XPU_MEM_L3, Op_charge 0, Op_charge 1] ?st = Some st' \<and>
     cx_store (ad_cxpu (ms_dev st')) 5 = Some i' \<and>
     ci_mem_limit_pgcnt i' = (replicate XPU_MEM_COUNT CXPU_INSTANCE_MEM_UNLIMIT)[XPU_MEM_L3 := 2] \<and>
     ci_mem_limit_pgcnt i' ! XPU_MEM_L3 < ci_mem_used_pgcnt i' ! XPU_MEM_L3"
    using kl2_limit_race [OF r200_spec r200_table m(1) ff.zero_area_finder_axioms reach, where ?t1.0 = 0 and ?t2.0 = 1 and ?u1.0 = 7 and ?u2.0 = 8
        and ?s1.0 = 1 and ?s2.0 = 2 and a = 5 and ?p1.0 = "\<lparr>mu_refs = 1, mu_locked = False, mu_used = replicate XPU_MEM_COUNT 0, mu_instance = Some 5\<rparr>"
        and ?p2.0 = "\<lparr>mu_refs = 1, mu_locked = False, mu_used = replicate XPU_MEM_COUNT 0, mu_instance = Some 5\<rparr>"
        and i = "\<lparr>ci_refs = Suc (Suc (Suc 0)), ci_instance_id = ''c'', ci_token = 3,
      ci_mem_used_pgcnt = replicate XPU_MEM_COUNT 0,
      ci_mem_limit_pgcnt = (replicate XPU_MEM_COUNT CXPU_INSTANCE_MEM_UNLIMIT)[XPU_MEM_L3 := 2],
      ci_core_limit = CXPU_INSTANCE_CORE_UNLIMIT\<rparr>" and sz = 5000 and args_kind = XPU_MEM_L3 and kind = XPU_MEM_L3 and pages = 2]
      region cx len by (simp add: CXPU_INSTANCE_MEM_UNLIMIT_def del: run_ops.simps exec.simps)
  with reach show ?thesis by blast
qed

section \<open>Parameters a user frees\<close>

text \<open>Freeing the block that parameters are in, with the callback of \<^verbatim>\<open>ioctl_free\<close>.\<close>

lemma free_block_effect:
  assumes ok: "mem_ok mt lt st" and up: "ad_sess (ms_dev st) s = Some u" "ad_uproc (ms_dev st) u = Some p"
    and i: "i < length (mm_mem (ad_mm (ms_dev st)))"
    and a: "km_base (mm_mem (ad_mm (ms_dev st)) ! i) \<le> addr" "addr < km_limit (mm_mem (ad_mm (ms_dev st)) ! i)"
    and b: "mem_blocks (mm_mem (ad_mm (ms_dev st)) ! i) (addr_to_pageid (mm_mem (ad_mm (ms_dev st)) ! i) addr) = Some (n, s)"
  shows "\<exists>d2 p2. ioctl_free (ms_dev st) s addr = Some (None, d2) \<and> ad_uproc d2 u = Some p2 \<and>
    mu_used p2 = (mu_used p)[km_kind (mm_mem (ad_mm (ms_dev st)) ! i) :=
      u64_sub (mu_used p ! km_kind (mm_mem (ad_mm (ms_dev st)) ! i)) n] \<and> param_free d2 s addr = Some d2"
proof -
  let ?d = "ms_dev st" and ?m = "mm_mem (ad_mm (ms_dev st)) ! i"
  let ?q = "addr_to_pageid ?m addr"
  let ?mm' = "set_mem (ad_mm ?d) i (release_pages ?m ?q n)"
  let ?c = "cb_call addr (u64 (n * km_page_size ?m)) (km_kind ?m) s ?m"
  have wf: "mm_wf (ad_mm ?d)" by (rule mem_okD(8) [OF ok])
  have m: "mem_wf ?m" using mm_wfD [OF wf i] by simp
  have pg: "cb_pages ?c = n" unfolding cb_pages_call by (rule block_pages [OF m b])
  note fr = kl_mm_free_own [OF wf i a b]
  have "\<exists>cx'. call_back kl2_mm_free_update_stat_cb [?c] (?d\<lparr>ad_mm := ?mm'\<rparr>) =
      Some (?d\<lparr>ad_mm := ?mm', ad_uproc := (ad_uproc ?d)(u \<mapsto> p\<lparr>mu_used := uncount_all [?c] (mu_used p)\<rparr>), ad_cxpu := cx'\<rparr>)"
    using free_calls_effect [of "?d\<lparr>ad_mm := ?mm'\<rparr>" s u p "holders ?d" mt lt "[?c]"] up mem_okD(2) [OF ok]
      procs_okD(6) [OF mem_okD(3) [OF ok] up(2)] by (auto simp: cb_call_def)
  then obtain cx' where c: "call_back kl2_mm_free_update_stat_cb [?c] (?d\<lparr>ad_mm := ?mm'\<rparr>) =
      Some (?d\<lparr>ad_mm := ?mm', ad_uproc := (ad_uproc ?d)(u \<mapsto> p\<lparr>mu_used := uncount_all [?c] (mu_used p)\<rparr>), ad_cxpu := cx'\<rparr>)"
    (is "_ = Some ?d2") by blast
  have free: "ioctl_free ?d s addr = Some (None, ?d2)"
    using fr(1) [of True] c unfolding ioctl_free_def mem_free_def by simp
  have i': "i < length (mm_mem ?mm')" "mm_mem ?mm' ! i = release_pages ?m ?q n" using i by (simp_all add: set_mem_def)
  have "addr_to_pageid (release_pages ?m ?q n) addr = ?q" "km_base (release_pages ?m ?q n) = km_base ?m"
    "km_limit (release_pages ?m ?q n) = km_limit ?m" by (simp_all add: release_pages_def addr_to_pageid_def)
  note keeps = this
  have "kl_mm_free ?mm' addr s False = Some (Some XPUERR_INVALID_PARAM, ?mm', [])"
    by (rule kl_mm_free_reject [OF fr(2) i'(1)])
      (use keeps a i' release_pages_wf(2) [OF m b] in simp_all)
  then have "param_free ?d2 s addr = Some ?d2" by (simp add: param_free_def)
  with free show ?thesis
    by (intro exI [of _ ?d2] exI [of _ "p\<lparr>mu_used := uncount_all [?c] (mu_used p)\<rparr>"]) (simp add: uncount_all_def pg cb_kind_call)
qed

text \<open>
  C40: parameters of a task. A launch allocates them without counting, in the name of the session, and
  finds out nothing when they are gone. A user who frees their address gets a success, the counter of
  the process for parameter memory wraps round to almost \<open>2 ^ 64\<close>, and when the task has finished its
  own free finds nothing and changes nothing.
\<close>

theorem kl2_param_free_wraps:
  assumes "kl2_get_df_spec c old = (None, spec)" and "kl2_get_mm_info spec c = Some (Some info)"
    and "kl_mm_init ka (nfo_mem info) = Inr mm" and "zero_area_finder find_area"
    and "mem_reach find_area any_step (mem_start mm ecc_on th) st"
    and "enabled (Op_param_alloc s bytes) st" and "0 < bytes"
    and "param_alloc find_area (ms_dev st) s bytes = Some (Inr addr, d1)"
    and "ad_sess (ms_dev st) s = Some u" and "ad_uproc (ms_dev st) u = Some p" and "mu_used p ! XPU_MEM_PARAM = 0"
  shows "\<exists>d2 p2 n. 0 < n \<and> n < 2 ^ 63 \<and> ioctl_free d1 s addr = Some (None, d2) \<and>
    ad_uproc d2 u = Some p2 \<and> mu_used p2 ! XPU_MEM_PARAM = 2 ^ 64 - n \<and> param_free d2 s addr = Some d2"
proof -
  let ?d = "ms_dev st" and ?mm = "ad_mm (ms_dev st)"
  have ok: "mem_ok (pages_for_limits mm XPU_MEM_MAIN) (pages_for_limits mm XPU_MEM_L3) st"
    by (rule reach_ok [OF assms(5,4) board_ok [OF assms(1-3)]])
  have wf: "mm_wf ?mm" by (rule mem_okD(8) [OF ok])
  have b: "bytes + 2 ^ 32 \<le> 2 ^ 64" "XPU_MEM_PARAM \<noteq> XPU_MEM_MAIN_KL2_HUGE"
    using assms(6) by (simp_all add: xpu_mem_kinds)
  from kl_mm_malloc_cases [OF assms(4) wf assms(7) b, of s False] assms(8) obtain i m' where
    i: "i < length (mm_mem ?mm)" "km_kind (mm_mem ?mm ! i) = XPU_MEM_PARAM" and d1: "d1 = ?d\<lparr>ad_mm := set_mem ?mm i m'\<rparr>"
    and al: "allocated (mm_mem ?mm ! i) (malloc_pages_needed (mm_mem ?mm ! i) bytes) s m' addr"
    by (auto simp: param_alloc_def)
  let ?n = "malloc_pages_needed (mm_mem ?mm ! i) bytes" and ?st = "st\<lparr>ms_dev := d1\<rparr>"
  have m: "mem_wf (mm_mem ?mm ! i)" using mm_wfD [OF wf i(1)] by simp
  have "km_page_size (mm_mem ?mm ! i) \<le> 2 ^ 32"
    using m power_increasing [of "km_page_bits (mm_mem ?mm ! i)" 32 "2 :: nat"] by (auto simp: mem_wf_def)
  then have n: "0 < ?n" "?n < 2 ^ 63"
    using malloc_pages_needed_eq(2) [OF m assms(7)] b(1) malloc_pages_needed_half [OF m] by auto
  have ok1: "mem_ok (pages_for_limits mm XPU_MEM_MAIN) (pages_for_limits mm XPU_MEM_L3) ?st"
    using exec_ok [OF assms(4) ok assms(6)] assms(8) by simp
  have m': "mm_mem (ad_mm d1) ! i = m'" "i < length (mm_mem (ad_mm d1))" "km_kind m' = XPU_MEM_PARAM"
    "km_base m' \<le> addr" "addr < km_limit m'" "mem_blocks m' (addr_to_pageid m' addr) = Some (?n, s)"
    using al i unfolding d1 allocated_def same_region_def by (auto simp: set_mem_def addr_to_pageid_def)
  have len: "XPU_MEM_PARAM < length (mu_used p)"
    using procs_okD(5) [OF mem_okD(3) [OF ok] assms(10)] by (simp add: xpu_mem_kinds)
  have "ad_sess d1 s = Some u" "ad_uproc d1 u = Some p" using assms(9,10) d1 by simp_all
  from free_block_effect [OF ok1, of s u p i addr ?n] this m' obtain d2 p2 where
    "ioctl_free d1 s addr = Some (None, d2)" "ad_uproc d2 u = Some p2"
    "mu_used p2 = (mu_used p)[XPU_MEM_PARAM := u64_sub (mu_used p ! XPU_MEM_PARAM) ?n]" "param_free d2 s addr = Some d2" by auto
  moreover have "u64_sub 0 ?n = 2 ^ 64 - ?n" using n by (simp add: u64_sub_def u64_def)
  ultimately show ?thesis using n len assms(11) by (intro exI [of _ d2] exI [of _ p2] exI [of _ ?n]) simp
qed

lemma r200_param:
  assumes m0: "kl_mm_init demo_allocs (nfo_mem kl_mm_info_eccoff_16g) = Inr mm0"
  shows "\<exists>addr j mm' cbs. kl_mm_malloc first_fit mm0 100 XPU_MEM_PARAM (Some 1) False = Some (Inr (addr, j), mm', cbs)"
proof -
  have "table_ok kl_mm_info_eccoff_16g" by (rule all_tables_ok) (simp add: all_tables_def)
  then have inf: "infos_ok (nfo_mem kl_mm_info_eccoff_16g)" by (simp add: table_ok_def)
  note fr = kl_mm_init_fresh [OF inf m0]
  have l: "length (nfo_mem kl_mm_info_eccoff_16g) = 9"
    by (simp add: kl_mm_info_eccoff_16g_def kl_mem_info_eccoff_16g_def)
  have i6: "nfo_mem kl_mm_info_eccoff_16g ! 6 = mem_info 0x810000000 0x10000000 10 XPU_MEM_PARAM"
    by (simp add: kl_mm_info_eccoff_16g_def kl_mem_info_eccoff_16g_def)
  let ?m = "mm_mem mm0 ! 6"
  have f6: "fresh_region 6 (nfo_mem kl_mm_info_eccoff_16g ! 6) ?m" by (rule fr(3)) (simp add: l)
  then have f: "km_kind ?m = XPU_MEM_PARAM" "km_size ?m = 0x10000000" "mem_blocks ?m = Map.empty"
    by (simp_all add: i6 mem_info_def fresh_region_def)
  have wf: "mem_wf ?m" using mm_wfD [OF fr(1), of 6] fr(2) l by simp
  have m: "?m \<in> set (mm_mem mm0)" using fr(2) l by (intro nth_mem) simp
  have ps: "km_page_size ?m = 1024" "km_page_count ?m = 262144"
    using wf f f6 by (simp_all add: mem_wf_def fresh_region_def i6 mem_info_def)
  have "malloc_pages_needed ?m 100 = 1"
    using malloc_pages_needed_eq(1) [OF wf, of 100] ps by simp
  then have "\<not> cannot_serve ?m (malloc_pages_needed ?m 100)"
    using ps f(3) by (auto simp: cannot_serve_def intro: exI [of _ 0])
  then show ?thesis
    using kl_mm_malloc_cases [OF ff.zero_area_finder_axioms fr(1), of 100 XPU_MEM_PARAM 1 False] f(1) m
    by (fastforce simp: xpu_mem_kinds)
qed

lemma kl2_param_free_wraps_witness:
  "\<exists>(mm :: nat kl_mm) st addr d1 d2 p2. mem_reach first_fit any_step (mem_start mm False 0) st \<and>
     param_alloc first_fit (ms_dev st) 1 100 = Some (Inr addr, d1) \<and>
     ioctl_free d1 1 addr = Some (None, d2) \<and> ad_uproc d2 7 = Some p2 \<and> 2 ^ 63 < mu_used p2 ! XPU_MEM_PARAM"
proof -
  obtain mm :: "nat kl_mm" where m: "kl_mm_init demo_allocs (nfo_mem kl_mm_info_eccoff_16g) = Inr mm"
    by (rule r200_mm)
  let ?p = "\<lparr>mu_refs = 1, mu_locked = False, mu_used = replicate XPU_MEM_COUNT 0, mu_instance = None\<rparr>"
  have "\<exists>st. run_ops first_fit any_step [Op_open 1 7 3] (mem_start mm False 0) = Some st \<and>
      ad_mm (ms_dev st) = mm \<and> ad_sess (ms_dev st) = [1 \<mapsto> 7] \<and> ad_uproc (ms_dev st) = [7 \<mapsto> ?p]"
    by (simp add: run_eval)
  then obtain st where run: "run_ops first_fit any_step [Op_open 1 7 3] (mem_start mm False 0) = Some st"
    and st: "ad_mm (ms_dev st) = mm" "ad_sess (ms_dev st) = [1 \<mapsto> 7]" "ad_uproc (ms_dev st) = [7 \<mapsto> ?p]" by blast
  have reach: "mem_reach first_fit any_step (mem_start mm False 0) st" by (rule run_reach [OF mem_reach.mem_refl run])
  obtain addr d1 where d1: "param_alloc first_fit (ms_dev st) 1 100 = Some (Inr addr, d1)"
    using r200_param [OF m] st(1) by (auto simp: param_alloc_def)
  have en: "enabled (Op_param_alloc 1 100) st" using st(2) by simp
  from kl2_param_free_wraps [OF r200_spec r200_table m ff.zero_area_finder_axioms reach en _ d1, of 7 ?p]
  obtain d2 p2 n where "n < 2 ^ 63" "ioctl_free d1 1 addr = Some (None, d2)" "ad_uproc d2 7 = Some p2"
    "mu_used p2 ! XPU_MEM_PARAM = 2 ^ 64 - n" using st by (auto simp: xpu_mem_kinds)
  with reach d1 show ?thesis
    by (intro exI [of _ mm] exI [of _ st] exI [of _ addr] exI [of _ d1] exI [of _ d2] exI [of _ p2]) simp
qed

end
