(* ===== verification/Kl2_Unit.thy ===== *)
theory Kl2_Unit
  imports Kl2_Excp
begin

text \<open>
  The compute units of KL2, clusters and SDNNs, from the first sign of an exception to their return to
  work: the shadowed mask registers of \<^verbatim>\<open>kl2/hw.c\<close>, the interrupt that takes a unit off and records its
  exception (\<^verbatim>\<open>kl2/irq.c\<close>, \<^verbatim>\<open>kl2/exception.c\<close>), and the work item that resets units until no queue has
  a task under way and then turns to the tasks, which are those of \<open>Kl2_Excp\<close>.

  The code has every function twice, for clusters and for SDNNs; here the kind of unit is an argument.
  What a register reads is an argument too, what is written is a list of operations. The debug
  registers that are saved with an exception are left out, and so are the tables of names.
\<close>

unbundle bit_operations_syntax

section \<open>State\<close>

datatype unit_kind = Cluster | Sdnn

text \<open>The exception board of a unit. A cluster has no status of an SDNN.\<close>

record kl2_unit_board =
  ub_excp_cnt :: nat
  ub_reset_cnt :: nat
  ub_token :: nat
  ub_timeout_cnt :: nat
  ub_timeout_reset_cnt :: nat
  ub_timeout_token :: nat
  ub_cl_st :: "32 word"
  ub_cl_mask :: "32 word"
  ub_sd_st :: "32 word"
  ub_sd_mask :: "32 word"

definition clear_board :: kl2_unit_board where
  "clear_board = \<lparr>ub_excp_cnt = 0, ub_reset_cnt = 0, ub_token = 0, ub_timeout_cnt = 0, ub_timeout_reset_cnt = 0,
     ub_timeout_token = 0, ub_cl_st = 0, ub_cl_mask = 0, ub_sd_st = 0, ub_sd_mask = 0\<rparr>"

datatype unit_op =
    ResetUnit unit_kind nat
  | WriteExcpMask unit_kind nat "32 word \<times> 32 word"
  | WriteIntMask nat "32 word"
  | ForceDone unit_kind nat
  | WriteDisable "32 word"
  | StallAll
  | UnstallAll
  | QueueOp hw_op

text \<open>
  \<open>un_int_mask\<close>, \<open>un_disable\<close> and \<open>un_shadow\<close> are the shadows of registers, which hold what was written
  last; \<open>un_work\<close> says that the work item is queued. The device itself has the queues and their boards.
\<close>

record kl2_units =
  un_dev :: kl2_dev
  un_vf :: bool
  un_pf :: bool
  un_default_cuen :: "32 word"
  un_board :: "unit_kind \<Rightarrow> nat \<Rightarrow> kl2_unit_board"
  un_int_mask :: "nat \<Rightarrow> 32 word"
  un_shadow :: "unit_kind \<Rightarrow> nat \<Rightarrow> 32 word \<times> 32 word"
  un_cuen_mask :: "32 word"
  un_excp_mask :: "32 word"
  un_disable :: "32 word"
  un_running :: bool
  un_errno :: "kl_err option"
  un_work :: bool
  un_ops :: "unit_op list"

definition emit :: "unit_op \<Rightarrow> kl2_units \<Rightarrow> kl2_units" where
  "emit op u = u\<lparr>un_ops := un_ops u @ [op]\<rparr>"

definition upd_unit :: "unit_kind \<Rightarrow> nat \<Rightarrow> (kl2_unit_board \<Rightarrow> kl2_unit_board) \<Rightarrow> kl2_units \<Rightarrow> kl2_units" where
  "upd_unit k i f u = u\<lparr>un_board := (un_board u)(k := (un_board u k)(i := f (un_board u k i)))\<rparr>"

fun over_units :: "('a \<Rightarrow> 's \<Rightarrow> 's option) \<Rightarrow> 'a list \<Rightarrow> 's \<Rightarrow> 's option" where
  "over_units f [] u = Some u"
| "over_units f (x # xs) u = do { u1 \<leftarrow> f x u; over_units f xs u1 }"

section \<open>Which units there are\<close>

fun unit_max :: "unit_kind \<Rightarrow> nat" where
  "unit_max Cluster = 8"
| "unit_max Sdnn = 6"

definition cluster_invalid :: "kl2_units \<Rightarrow> nat \<Rightarrow> bool" where
  "cluster_invalid u i \<longleftrightarrow> drop_bit 18 (un_default_cuen u) AND push_bit i 1 = 0"

definition sdnn_invalid :: "kl2_units \<Rightarrow> nat \<Rightarrow> bool" where
  "sdnn_invalid u i \<longleftrightarrow> drop_bit 12 (un_default_cuen u) AND push_bit i 1 = 0"

definition valid_units :: "kl2_units \<Rightarrow> unit_kind \<Rightarrow> nat list" where
  "valid_units u k =
     filter (\<lambda>i. \<not> (case k of Cluster \<Rightarrow> cluster_invalid u i | Sdnn \<Rightarrow> sdnn_invalid u i)) [0..<unit_max k]"

section \<open>Masks\<close>

text \<open>Interrupt sources: number 1 has the clusters, number 0 the SDNNs, with the exception of unit \<open>i\<close> at bit \<open>2 i + 1\<close>.\<close>

fun int_source :: "unit_kind \<Rightarrow> nat" where
  "int_source Cluster = 1"
| "int_source Sdnn = 0"

definition excp_bit :: "nat \<Rightarrow> 32 word" where
  "excp_bit i = push_bit (i * 2 + 1) 1"

definition kl2_intc_set_int_mask :: "nat \<Rightarrow> 32 word \<Rightarrow> kl2_units \<Rightarrow> kl2_units" where
  "kl2_intc_set_int_mask n m u = emit (WriteIntMask n m) (u\<lparr>un_int_mask := (un_int_mask u)(n := m)\<rparr>)"

definition kl2_intc_int_mask :: "nat \<Rightarrow> 32 word \<Rightarrow> kl2_units \<Rightarrow> kl2_units" where
  "kl2_intc_int_mask n m u = kl2_intc_set_int_mask n (un_int_mask u n OR m) u"

definition kl2_intc_int_unmask :: "nat \<Rightarrow> 32 word \<Rightarrow> kl2_units \<Rightarrow> kl2_units" where
  "kl2_intc_int_unmask n unmask u = kl2_intc_set_int_mask n (un_int_mask u n AND NOT unmask) u"

definition write_disable :: "kl2_units \<Rightarrow> kl2_units" where
  "write_disable u =
     (let v = (un_cuen_mask u OR un_excp_mask u) AND 0x003f00ff in emit (WriteDisable v) (u\<lparr>un_disable := v\<rparr>))"

fun cu_bits :: "unit_kind \<Rightarrow> 32 word \<Rightarrow> 32 word" where
  "cu_bits Cluster m = m AND 0xff"
| "cu_bits Sdnn m = push_bit 16 (m AND 0x3f)"

definition kl2_sse_excp_disable :: "unit_kind \<Rightarrow> 32 word \<Rightarrow> kl2_units \<Rightarrow> kl2_units" where
  "kl2_sse_excp_disable k m u = write_disable (u\<lparr>un_excp_mask := un_excp_mask u OR cu_bits k m\<rparr>)"

definition kl2_sse_excp_enable :: "unit_kind \<Rightarrow> 32 word \<Rightarrow> kl2_units \<Rightarrow> kl2_units" where
  "kl2_sse_excp_enable k m u = write_disable (u\<lparr>un_excp_mask := un_excp_mask u AND NOT (cu_bits k m)\<rparr>)"

definition kl2_sse_set_cuen_cu_disable_mask :: "32 word \<Rightarrow> kl2_units \<Rightarrow> kl2_units" where
  "kl2_sse_set_cuen_cu_disable_mask m u = write_disable (u\<lparr>un_cuen_mask := m AND 0x003f00ff\<rparr>)"

text \<open>The check at the end of the work item, which reads the register again and logs a difference.\<close>

definition kl2_check_sse_cu_disable_mask :: "kl2_units \<Rightarrow> bool" where
  "kl2_check_sse_cu_disable_mask u \<longleftrightarrow> un_pf u \<or> un_disable u = un_cuen_mask u"

section \<open>Taking units off\<close>

text \<open>What the registers of a unit read.\<close>

record unit_regs =
  ur_token :: nat
  ur_cl_st :: "32 word"
  ur_cl_mask :: "32 word"
  ur_sd_st :: "32 word"
  ur_sd_mask :: "32 word"

definition units_flagged :: "kl2_units \<Rightarrow> unit_kind \<Rightarrow> 32 word \<Rightarrow> nat list" where
  "units_flagged u k st = filter (\<lambda>i. st AND excp_bit i \<noteq> 0) (valid_units u k)"

definition unit_mask :: "nat list \<Rightarrow> 32 word" where
  "unit_mask is = foldl (\<lambda>m i. m OR push_bit i 1) 0 is"

text \<open>
  A queue's board is charged with an exception. The queue comes from a register or a message and is
  not compared with the number of boards; outside of the boards the outcome is \<^term>\<open>None\<close>.
\<close>

definition charge_board :: "int \<Rightarrow> nat \<Rightarrow> kl2_units \<Rightarrow> kl2_units option" where
  "charge_board hwq_id token u =
     (if 0 \<le> hwq_id \<and> nat hwq_id < length (d2_board (un_dev u))
      then Some (u\<lparr>un_dev := upd_board (un_dev u) (nat hwq_id)
                     (\<lambda>b. b\<lparr>eb_token := token, eb_excp_cnt := u32 (eb_excp_cnt b + 1)\<rparr>)\<rparr>)
      else None)"

definition record_excp :: "unit_kind \<Rightarrow> (nat \<Rightarrow> unit_regs) \<Rightarrow> (nat \<Rightarrow> nat) \<Rightarrow> nat \<Rightarrow> kl2_units \<Rightarrow> kl2_units option" where
  "record_excp k regs map_hwq i u = do {
     let r = regs i;
     u1 \<leftarrow> (if un_vf u then Some u else charge_board (int (map_hwq i)) (ur_token r) u);
     Some (upd_unit k i (\<lambda>b. b\<lparr>ub_token := ur_token r, ub_cl_st := ur_cl_st r, ub_cl_mask := ur_cl_mask r,
       ub_sd_st := ur_sd_st r, ub_sd_mask := ur_sd_mask r, ub_excp_cnt := u32 (ub_excp_cnt b + 1)\<rparr>) u1)
   }"

definition kl2_disable_and_record_excp ::
    "unit_kind \<Rightarrow> 32 word \<Rightarrow> (nat \<Rightarrow> unit_regs) \<Rightarrow> (nat \<Rightarrow> nat) \<Rightarrow> kl2_units \<Rightarrow> kl2_units option" where
  "kl2_disable_and_record_excp k st regs map_hwq u =
     over_units (record_excp k regs map_hwq) (units_flagged u k st) (kl2_sse_excp_disable k (unit_mask (units_flagged u k st)) u)"

definition CE_TASK_TIMEOUT :: nat where "CE_TASK_TIMEOUT = 28"
definition CE_SDNN_TASK_TIMEOUT :: nat where "CE_SDNN_TASK_TIMEOUT = 10"

definition record_timeout :: "unit_kind \<Rightarrow> (nat \<Rightarrow> nat) \<Rightarrow> nat \<Rightarrow> kl2_units \<Rightarrow> kl2_units" where
  "record_timeout k timeout_token i u =
     upd_unit k i (\<lambda>b. b\<lparr>ub_cl_st := push_bit CE_TASK_TIMEOUT 1, ub_cl_mask := 0,
       ub_sd_st := (case k of Cluster \<Rightarrow> ub_sd_st b | Sdnn \<Rightarrow> push_bit CE_SDNN_TASK_TIMEOUT 1),
       ub_sd_mask := (case k of Cluster \<Rightarrow> ub_sd_mask b | Sdnn \<Rightarrow> 0),
       ub_timeout_token := timeout_token i, ub_timeout_cnt := u32 (ub_timeout_cnt b + 1)\<rparr>) u"

definition kl2_disable_and_record_timeout ::
    "unit_kind \<Rightarrow> 32 word \<Rightarrow> (nat \<Rightarrow> nat) \<Rightarrow> kl2_units \<Rightarrow> kl2_units" where
  "kl2_disable_and_record_timeout k st timeout_token u =
     foldl (\<lambda>u i. record_timeout k timeout_token i u) (kl2_sse_excp_disable k (unit_mask (units_flagged u k st)) u)
       (units_flagged u k st)"

text \<open>The interrupt: \<open>st k\<close> is the status of the source of the units of kind \<open>k\<close>.\<close>

definition excp_irq_kind ::
    "(unit_kind \<Rightarrow> 32 word) \<Rightarrow> (unit_kind \<Rightarrow> nat \<Rightarrow> unit_regs) \<Rightarrow> (unit_kind \<Rightarrow> nat \<Rightarrow> nat) \<Rightarrow> unit_kind \<Rightarrow>
     kl2_units \<Rightarrow> kl2_units option" where
  "excp_irq_kind st regs map_hwq k u =
     (if st k = 0 then Some u
      else kl2_disable_and_record_excp k (st k) (regs k) (map_hwq k) (kl2_intc_int_mask (int_source k) (st k) u))"

definition kl2_handle_excp_irq ::
    "(unit_kind \<Rightarrow> 32 word) \<Rightarrow> (unit_kind \<Rightarrow> nat \<Rightarrow> unit_regs) \<Rightarrow> (unit_kind \<Rightarrow> nat \<Rightarrow> nat) \<Rightarrow>
     kl2_units \<Rightarrow> kl2_units option" where
  "kl2_handle_excp_irq st regs map_hwq u =
     (if un_pf u then Some u
      else do {
        let some = (st Cluster \<noteq> 0 \<or> st Sdnn \<noteq> 0);
        u1 \<leftarrow> over_units (excp_irq_kind st regs map_hwq) [Cluster, Sdnn] (if some then emit StallAll u else u);
        Some (if some then u1\<lparr>un_work := True\<rparr> else u1)
      })"

section \<open>Bringing units back\<close>

text \<open>
  The steps the work item takes for one unit, in the order of the code. Interrupts and the timer may
  come between them. \<open>S_reset\<close> is \<^verbatim>\<open>excp_reset_cluster\<close> or \<^verbatim>\<open>excp_reset_sdnn\<close>, which a virtual function
  leaves to the physical one; \<open>S_clear\<close> counts the reset and zeroes the board, the count included.
\<close>

datatype unit_sect =
    S_account unit_kind nat int
  | S_reset unit_kind nat
  | S_mask unit_kind nat
  | S_unmask unit_kind nat
  | S_clear unit_kind nat
  | S_done unit_kind nat
  | S_enable unit_kind nat

fun exec_sect :: "unit_sect \<Rightarrow> kl2_units \<Rightarrow> kl2_units option" where
  "exec_sect (S_account k i hwq_id) u = charge_board hwq_id (ub_token (un_board u k i)) u"
| "exec_sect (S_reset k i) u = Some (emit (ResetUnit k i) u)"
| "exec_sect (S_mask k i) u = Some (emit (WriteExcpMask k i (un_shadow u k i)) u)"
| "exec_sect (S_unmask k i) u = Some (kl2_intc_int_unmask (int_source k) (excp_bit i) u)"
| "exec_sect (S_clear k i) u = Some (upd_unit k i (\<lambda>_. clear_board) u)"
| "exec_sect (S_done k i) u = Some (emit (ForceDone k i) u)"
| "exec_sect (S_enable k i) u = Some (kl2_sse_excp_enable k (push_bit i 1) u)"

definition reset_sects :: "unit_kind \<Rightarrow> nat \<Rightarrow> unit_sect list" where
  "reset_sects k i = [S_reset k i, S_mask k i, S_unmask k i, S_clear k i, S_done k i, S_enable k i]"

text \<open>
  What the work item has decided once it has read the board of a unit and the token the unit is busy
  with. Both decisions rest on the board as it was read before the first.
\<close>

definition unit_plan :: "bool \<Rightarrow> kl2_unit_board \<Rightarrow> unit_kind \<Rightarrow> nat \<Rightarrow> nat \<Rightarrow> int \<Rightarrow> unit_sect list" where
  "unit_plan vf b k i busy_token hwq_id =
     (if ub_reset_cnt b < ub_excp_cnt b
      then (if vf then [S_account k i hwq_id] else []) @ reset_sects k i else []) @
     (if ub_timeout_reset_cnt b < ub_timeout_cnt b
      then (if busy_token \<noteq> ub_timeout_token b then [S_clear k i, S_enable k i] else reset_sects k i) else [])"

definition recover_unit ::
    "(unit_kind \<Rightarrow> nat \<Rightarrow> nat) \<Rightarrow> (unit_kind \<Rightarrow> nat \<Rightarrow> int) \<Rightarrow> unit_kind \<times> nat \<Rightarrow> kl2_units \<Rightarrow> kl2_units option" where
  "recover_unit busy hwq_id ki u =
     (case ki of (k, i) \<Rightarrow>
        over_units exec_sect (unit_plan (un_vf u) (un_board u k i) k i (busy k i) (hwq_id k i)) u)"

definition all_units :: "kl2_units \<Rightarrow> (unit_kind \<times> nat) list" where
  "all_units u = map (Pair Cluster) (valid_units u Cluster) @ map (Pair Sdnn) (valid_units u Sdnn)"

definition kl2_excp_reset_excp_timeout_cu ::
    "(unit_kind \<Rightarrow> nat \<Rightarrow> nat) \<Rightarrow> (unit_kind \<Rightarrow> nat \<Rightarrow> int) \<Rightarrow> kl2_units \<Rightarrow> kl2_units option" where
  "kl2_excp_reset_excp_timeout_cu busy hwq_id u = over_units (recover_unit busy hwq_id) (all_units u) u"

section \<open>The work item\<close>

definition unit_pending :: "kl2_unit_board \<Rightarrow> bool" where
  "unit_pending b \<longleftrightarrow> ub_reset_cnt b < ub_excp_cnt b \<or> ub_timeout_reset_cnt b < ub_timeout_cnt b"

definition kl2_in_excp :: "kl2_units \<Rightarrow> bool" where
  "kl2_in_excp u \<longleftrightarrow>
     list_ex (\<lambda>(k, i). unit_pending (un_board u k i)) (all_units u) \<or>
     list_ex (\<lambda>i. let b = d2_board (un_dev u) ! i
                  in eb_excp_cnt b \<noteq> 0 \<or> eb_taint_2_reset_cnt b \<noteq> 0 \<or> eb_taint_cnt b \<noteq> 0)
       (valid_queues (un_dev u))"

text \<open>
  One turn of the loop that waits for a queue: what the units are busy with and, for a virtual
  function, the answers about their queues; then whether the queue has tasks under way and whether
  the time is up. When the turns end without a decision, the work item is still waiting: \<^term>\<open>None\<close>.
\<close>

record unit_poll =
  po_busy :: "unit_kind \<Rightarrow> nat \<Rightarrow> nat"
  po_hwq :: "unit_kind \<Rightarrow> nat \<Rightarrow> int"
  po_underway :: nat
  po_late :: bool

fun poll_queue :: "unit_poll list \<Rightarrow> kl2_units \<Rightarrow> (bool \<times> kl2_units) option" where
  "poll_queue [] u = None"
| "poll_queue (p # ps) u = do {
     u1 \<leftarrow> kl2_excp_reset_excp_timeout_cu (po_busy p) (po_hwq p) u;
     (if po_underway p = 0 then Some (True, u1)
      else if po_late p then Some (False, u1)
      else poll_queue ps u1)
   }"

fun poll_queues ::
    "(nat \<Rightarrow> unit_poll list) \<Rightarrow> nat list \<Rightarrow> kl2_units \<Rightarrow> ((nat \<Rightarrow> bool) \<times> kl2_units) option" where
  "poll_queues polls [] u = Some (\<lambda>_. False, u)"
| "poll_queues polls (i # is) u = do {
     (z, u1) \<leftarrow> poll_queue (polls i) u;
     (zs, u2) \<leftarrow> poll_queues polls is u1;
     Some (zs(i := z), u2)
   }"

definition kl2_handle_excp_work_func :: "(nat \<Rightarrow> unit_poll list) \<Rightarrow> kl2_units \<Rightarrow> kl2_units option" where
  "kl2_handle_excp_work_func polls u =
     (if \<not> kl2_in_excp u then Some u
      else do {
        let qs = valid_queues (un_dev u);
        (zero, u1) \<leftarrow> poll_queues polls qs ((emit StallAll u)\<lparr>un_running := True\<rparr>);
        (if \<not> list_all zero qs
         then Some (u1\<lparr>un_dev := (un_dev u1)\<lparr>d2_state := KL2_ERROR\<rparr>, un_errno := Some XPUERR_KEXCEPTION,
           un_running := False\<rparr>)
         else do {
           (d, ops) \<leftarrow> excp_work_tasks zero (un_dev u1);
           let u2 = u1\<lparr>un_dev := d, un_ops := un_ops u1 @ map QueueOp ops\<rparr>;
           let u3 = (if d2_in_reset_state d then u2 else emit UnstallAll u2);
           Some (u3\<lparr>un_running := False\<rparr>)
         })
      })"

end
