(* ===== verification/Kl2_Timer.thy ===== *)
theory Kl2_Timer
  imports Kl2_Unit
begin

text \<open>
  The regular timer of KL2, \<^verbatim>\<open>kl2_regular_timer_func\<close> in \<^verbatim>\<open>kl2/hwq.c\<close>. It hands over waiting tasks,
  looks at the first task of every queue, takes off the units that have been at it for too long, sees to the
  queues that wait to be reset, and wakes the work item of \<open>Kl2_Unit\<close>.

  What it reads of the device is an input. Temperatures, frequencies and copies of debug registers are
  left out.
\<close>

unbundle bit_operations_syntax

section \<open>State\<close>

text \<open>What the timer remembers of a queue: the task it saw last, since when, and the subtasks it has reported.\<close>

record queue_watch =
  qw_busy :: bool
  qw_token :: nat
  qw_since :: int
  qw_virt :: "unit_kind \<Rightarrow> nat \<Rightarrow> nat"

text \<open>\<open>tm_unit_token\<close> is \<^verbatim>\<open>cl_timeout_token\<close> and \<^verbatim>\<open>sd_timeout_token\<close>, which live as long as the device.\<close>

record kl2_timer =
  tm_un :: kl2_units
  tm_watch :: "nat \<Rightarrow> queue_watch"
  tm_threshold :: int
  tm_unit_token :: "unit_kind \<Rightarrow> nat \<Rightarrow> nat"
  tm_seq :: nat

text \<open>
  The time, in nanoseconds; whether the status of the units is there when it is asked for on behalf of a
  queue, and what it is (a virtual function asks the physical one and gets the answer at a later tick); the locks
  that were free; the registers of the units; and the tasks under way.
\<close>

record timer_input =
  ti_now :: int
  ti_status :: "nat \<Rightarrow> 32 word option"
  ti_lock :: "nat \<Rightarrow> bool"
  ti_token :: "nat \<Rightarrow> unit_kind \<Rightarrow> nat \<Rightarrow> nat"
  ti_virt :: "nat \<Rightarrow> unit_kind \<Rightarrow> nat \<Rightarrow> nat"
  ti_lock_stall :: "nat \<Rightarrow> bool"
  ti_underway :: "nat \<Rightarrow> nat"

text \<open>The variables of a tick.\<close>

record timer_run =
  tr_tm :: kl2_timer
  tr_status :: "32 word"
  tr_found :: bool
  tr_hit :: "nat \<Rightarrow> nat option"
  tr_st :: "unit_kind \<Rightarrow> 32 word"
  tr_signal :: bool

definition set_watch :: "nat \<Rightarrow> queue_watch \<Rightarrow> timer_run \<Rightarrow> timer_run" where
  "set_watch j w r = r\<lparr>tr_tm := (tr_tm r)\<lparr>tm_watch := (tm_watch (tr_tm r))(j := w)\<rparr>\<rparr>"

definition set_dev :: "kl2_dev \<Rightarrow> kl2_timer \<Rightarrow> kl2_timer" where
  "set_dev d t = t\<lparr>tm_un := (tm_un t)\<lparr>un_dev := d\<rparr>\<rparr>"

definition ktime_to_ms :: "int \<Rightarrow> int" where
  "ktime_to_ms t = (if 0 \<le> t then t div 1000000 else - (- t div 1000000))"

definition KL2_TASK_TIMEOUT_DETECT_THRESHOLD_IN_MS :: int where
  "KL2_TASK_TIMEOUT_DETECT_THRESHOLD_IN_MS = 10000"

section \<open>Handing over\<close>

definition dispatch_one :: "nat \<Rightarrow> kl2_units \<Rightarrow> kl2_units option" where
  "dispatch_one j u = do {
     (d, written) \<leftarrow> kl2_hwq_dispatch_locked (un_dev u) j;
     Some (u\<lparr>un_dev := d, un_ops := un_ops u @ map (\<lambda>t. QueueOp (HwWrite j t)) written\<rparr>)
   }"

section \<open>Looking at a queue\<close>

text \<open>The token of the first running task, whether its session asks for an early end, and whether it uses units.\<close>

definition look_at :: "kl2_dev \<Rightarrow> nat \<Rightarrow> (nat \<times> bool \<times> bool) option" where
  "look_at d j =
     (case hq_rt_list (d2_hwq d ! j) of
        [] \<Rightarrow> Some (0, False, False)
      | task # _ \<Rightarrow> do {
          x \<leftarrow> d2_sess d (tk_sess task);
          Some (tk_token task, \<not> kl2_session_state_normal x, tk_type task \<noteq> KL2_TASKTYPE_EVNTWAIT)
        })"

definition threshold_in_use :: "kl2_timer \<Rightarrow> int" where
  "threshold_in_use t =
     (if KL2_TASK_TIMEOUT_DETECT_THRESHOLD_IN_MS < tm_threshold t \<and> un_running (tm_un t)
      then KL2_TASK_TIMEOUT_DETECT_THRESHOLD_IN_MS else tm_threshold t)"

fun busy_pos :: "unit_kind \<Rightarrow> nat \<Rightarrow> nat" where
  "busy_pos Cluster i = i"
| "busy_pos Sdnn i = 8 + i"

definition busy_units :: "kl2_units \<Rightarrow> 32 word \<Rightarrow> (unit_kind \<times> nat) list" where
  "busy_units u status = filter (\<lambda>(k, i). bit status (busy_pos k i)) (all_units u)"

text \<open>A busy unit is reported when it has the token of the task, once for each of the task's subtasks unless the end is due.\<close>

definition look_at_unit :: "timer_input \<Rightarrow> nat \<Rightarrow> nat \<Rightarrow> bool \<Rightarrow> timer_run \<Rightarrow> unit_kind \<times> nat \<Rightarrow> timer_run" where
  "look_at_unit inp j cur_token cur_earlyout r ki =
     (case ki of (k, i) \<Rightarrow>
        let t = tr_tm r; w = tm_watch t j; virt = ti_virt inp j k i
        in if ti_token inp j k i = cur_token \<and> (virt \<noteq> qw_virt w k i \<or> cur_earlyout)
           then r\<lparr>tr_tm := t\<lparr>tm_unit_token := (tm_unit_token t)(k := (tm_unit_token t k)(i := cur_token)),
                          tm_watch := (tm_watch t)(j := w\<lparr>qw_virt := (qw_virt w)(k := (qw_virt w k)(i := virt))\<rparr>)\<rparr>,
                  tr_st := (tr_st r)(k := tr_st r k OR excp_bit i), tr_found := True\<rparr>
           else r)"

definition taint_head :: "kl2_dev \<Rightarrow> nat \<Rightarrow> nat \<Rightarrow> kl2_dev option" where
  "taint_head d j token =
     (case hq_rt_list (d2_hwq d ! j) of
        [] \<Rightarrow> Some d
      | task # _ \<Rightarrow>
          if tk_token task = token then upd_sess d (tk_sess task) (\<lambda>x. kl2_session_taint x XPUERR_TIMEOUT) else Some d)"

text \<open>The units of a task that is late. The outcome says whether the tick ends here.\<close>

definition look_at_units :: "timer_input \<Rightarrow> nat \<Rightarrow> nat \<Rightarrow> bool \<Rightarrow> timer_run \<Rightarrow> (bool \<times> timer_run) option" where
  "look_at_units inp j cur_token cur_earlyout r =
     (case (if tr_status r = 0 then ti_status inp j else Some (tr_status r)) of
        None \<Rightarrow> Some (True, r)
      | Some status \<Rightarrow>
          let r1 = r\<lparr>tr_status := status, tr_found := False\<rparr>
          in if \<not> ti_lock inp j then Some (False, r1)
             else
               let r2 = foldl (look_at_unit inp j cur_token cur_earlyout) r1 (busy_units (tm_un (tr_tm r)) status)
               in if \<not> tr_found r2 then Some (False, r2)
                  else do {
                    d \<leftarrow> taint_head (un_dev (tm_un (tr_tm r2))) j cur_token;
                    Some (False, r2\<lparr>tr_tm := set_dev d (tr_tm r2), tr_hit := (tr_hit r2)(j \<mapsto> cur_token), tr_signal := True\<rparr>)
                  })"

definition look_at_queue :: "timer_input \<Rightarrow> nat \<Rightarrow> timer_run \<Rightarrow> (bool \<times> timer_run) option" where
  "look_at_queue inp j r = do {
     (cur_token, cur_earlyout, cur_task) \<leftarrow> look_at (un_dev (tm_un (tr_tm r))) j;
     let w = tm_watch (tr_tm r) j;
     (if \<not> cur_task then Some (False, set_watch j (w\<lparr>qw_busy := False, qw_token := 0, qw_since := ti_now inp\<rparr>) r)
      else if \<not> (qw_busy w \<and> qw_token w = cur_token \<or> cur_earlyout)
      then Some (False, set_watch j \<lparr>qw_busy = True, qw_token = cur_token, qw_since = ti_now inp,
                                     qw_virt = (\<lambda>_ _. 2 ^ 32 - 1)\<rparr> r)
      else if \<not> (threshold_in_use (tr_tm r) < ktime_to_ms (ti_now inp - qw_since w) \<or> cur_earlyout) then Some (False, r)
      else look_at_units inp j cur_token cur_earlyout r)
   }"

fun look_at_queues :: "timer_input \<Rightarrow> nat list \<Rightarrow> timer_run \<Rightarrow> (bool \<times> timer_run) option" where
  "look_at_queues inp [] r = Some (False, r)"
| "look_at_queues inp (j # js) r = do {
     (stop, r1) \<leftarrow> look_at_queue inp j r;
     (if stop then Some (True, r1) else look_at_queues inp js r1)
   }"

section \<open>Queues that wait to be reset\<close>

text \<open>A mark of \<^verbatim>\<open>taint_state\<close> turns into a request to stall, and that into a request to reset once nothing is under way.\<close>

definition take_mark :: "kl2_dev \<Rightarrow> nat \<Rightarrow> kl2_dev" where
  "take_mark d j =
     (if hq_taint_state (d2_hwq d ! j) \<noteq> KL2_HWQ_NORMAL
      then upd_hwq d j (\<lambda>q. q\<lparr>hq_regular_timer_state := KL2_HWQ_STALL, hq_taint_state := KL2_HWQ_NORMAL\<rparr>) else d)"

definition see_idle :: "timer_input \<Rightarrow> kl2_dev \<times> bool \<Rightarrow> nat \<Rightarrow> kl2_dev \<times> bool" where
  "see_idle inp ds j =
     (case ds of (d, signal) \<Rightarrow>
        if hq_regular_timer_state (d2_hwq d ! j) = KL2_HWQ_STALL \<and> ti_lock_stall inp j \<and> ti_underway inp j = 0
        then (upd_hwq d j (\<lambda>q. q\<lparr>hq_regular_timer_state := KL2_HWQ_UNDERWAY_EQUALS_ZERO\<rparr>), True) else (d, signal))"

text \<open>What the work item finds on the board of a queue.\<close>

definition charge_queue :: "(nat \<Rightarrow> nat option) \<Rightarrow> kl2_dev \<Rightarrow> nat \<Rightarrow> kl2_dev" where
  "charge_queue hit d j =
     (let d1 = (case hit j of
                  None \<Rightarrow> d
                | Some token \<Rightarrow> upd_board d j (\<lambda>b. b\<lparr>eb_token := token, eb_excp_cnt := u32 (eb_excp_cnt b + 1)\<rparr>))
      in if hq_regular_timer_state (d2_hwq d1 ! j) = KL2_HWQ_UNDERWAY_EQUALS_ZERO
         then upd_hwq (upd_board d1 j (\<lambda>b. b\<lparr>eb_taint_2_reset_cnt := u32 (eb_taint_2_reset_cnt b + 1)\<rparr>))
                j (\<lambda>q. q\<lparr>hq_regular_timer_state := KL2_HWQ_NORMAL\<rparr>)
         else d1)"

definition record_late :: "timer_run \<Rightarrow> unit_kind \<Rightarrow> kl2_units \<Rightarrow> kl2_units" where
  "record_late r k u =
     (if tr_st r k = 0 then u else kl2_disable_and_record_timeout k (tr_st r k) (tm_unit_token (tr_tm r) k) u)"

definition send_signal :: "timer_run \<Rightarrow> kl2_units \<Rightarrow> kl2_units" where
  "send_signal r u =
     (let u1 = record_late r Sdnn (record_late r Cluster (emit StallAll u))
      in u1\<lparr>un_dev := foldl (charge_queue (tr_hit r)) (un_dev u1) (valid_queues (un_dev u1)), un_work := True\<rparr>)"

section \<open>The tick\<close>

definition after_looking :: "timer_input \<Rightarrow> timer_run \<Rightarrow> kl2_timer" where
  "after_looking inp r =
     (let u = tm_un (tr_tm r);
          qs = valid_queues (un_dev u);
          d1 = foldl take_mark (un_dev u) qs;
          need_stall = list_ex (\<lambda>j. hq_regular_timer_state (d2_hwq d1 ! j) \<noteq> KL2_HWQ_NORMAL) qs;
          u1 = (if need_stall then emit StallAll (u\<lparr>un_dev := d1\<rparr>) else u\<lparr>un_dev := d1\<rparr>);
          (d2, signal) = foldl (see_idle inp) (un_dev u1, tr_signal r) qs;
          u2 = u1\<lparr>un_dev := d2\<rparr>
      in (tr_tm r)\<lparr>tm_un := if signal then send_signal r u2 else u2, tm_seq := u32 (tm_seq (tr_tm r) + 1)\<rparr>)"

definition kl2_regular_timer_func :: "timer_input \<Rightarrow> kl2_timer \<Rightarrow> kl2_timer option" where
  "kl2_regular_timer_func inp t = do {
     let qs = valid_queues (un_dev (tm_un t));
     u \<leftarrow> over_units dispatch_one qs (tm_un t);
     (stop, r) \<leftarrow> look_at_queues inp qs \<lparr>tr_tm = t\<lparr>tm_un := u\<rparr>, tr_status = 0, tr_found = False, tr_hit = Map.empty,
                                          tr_st = (\<lambda>_. 0), tr_signal = False\<rparr>;
     Some (if stop then tr_tm r else after_looking inp r)
   }"

end
