(* ===== verification/Kl2_Unit_Props.thy ===== *)
theory Kl2_Unit_Props
  imports Kl2_Unit
begin

text \<open>
  The recovery of compute units, interleaved with the interrupt and the timer that take units off: what
  is on record, what the scheduler may use and which interrupts are masked agree in every state.
\<close>

section \<open>Bits of the masks\<close>

fun cu_pos :: "unit_kind \<Rightarrow> nat \<Rightarrow> nat" where
  "cu_pos Cluster i = i"
| "cu_pos Sdnn i = 16 + i"

lemma ff_mask: "(0xff :: 32 word) = mask 8" "(0x3f :: 32 word) = mask 6"
  "(0x003f00ff :: 32 word) = mask 8 OR push_bit 16 (mask 6)"
  by (simp_all add: mask_eq_exp_minus_1 push_bit_eq_mult)

lemma bit_cu_bits:
  "bit (cu_bits k m) n \<longleftrightarrow> (\<exists>j<unit_max k. n = cu_pos k j \<and> bit m j)"
  by (cases k) (auto simp: ff_mask bit_simps intro!: exI [of _ "n - 16"])

lemma bit_all_units: "bit (0x003f00ff :: 32 word) n \<longleftrightarrow> (\<exists>k i. i < unit_max k \<and> n = cu_pos k i)"
proof -
  have "bit (0x003f00ff :: 32 word) n \<longleftrightarrow> n < 8 \<or> (16 \<le> n \<and> n < 22)"
    unfolding ff_mask by (auto simp: bit_simps)
  also have "\<dots> \<longleftrightarrow> (\<exists>k i. i < unit_max k \<and> n = cu_pos k i)"
  proof
    assume "n < 8 \<or> (16 \<le> n \<and> n < 22)"
    then show "\<exists>k i. i < unit_max k \<and> n = cu_pos k i"
    proof
      assume "n < 8" then show ?thesis by (intro exI [of _ Cluster] exI [of _ n]) simp
    next
      assume "16 \<le> n \<and> n < 22" then show ?thesis by (intro exI [of _ Sdnn] exI [of _ "n - 16"]) auto
    qed
  next
    assume "\<exists>k i. i < unit_max k \<and> n = cu_pos k i"
    then obtain k i where "i < unit_max k" "n = cu_pos k i" by blast
    then show "n < 8 \<or> (16 \<le> n \<and> n < 22)" by (cases k) simp_all
  qed
  finally show ?thesis .
qed

lemma cu_pos_inj: "i < unit_max k \<Longrightarrow> j < unit_max l \<Longrightarrow> cu_pos k i = cu_pos l j \<longleftrightarrow> k = l \<and> i = j"
  by (cases k; cases l) auto

lemma cu_pos_32: "i < unit_max k \<Longrightarrow> cu_pos k i < 32"
  by (cases k) auto

lemma bit_unit_mask: "bit (unit_mask is) n \<longleftrightarrow> n \<in> set is \<and> n < 32"
proof -
  have "bit (foldl (\<lambda>m i. m OR push_bit i 1) m is) n \<longleftrightarrow> bit m n \<or> n \<in> set is \<and> n < 32" for m :: "32 word"
    by (induction "is" arbitrary: m) (auto simp: bit_simps dest: bit_imp_le_length)
  then show ?thesis by (simp add: unit_mask_def)
qed

lemma bit_cu_bits_pos: "i < unit_max k \<Longrightarrow> bit (cu_bits l m) (cu_pos k i) \<longleftrightarrow> l = k \<and> bit m i"
  using cu_pos_inj by (auto simp: bit_cu_bits)

lemma bit_shifted_one: "i < unit_max k \<Longrightarrow> bit (push_bit j (1 :: 32 word)) i \<longleftrightarrow> i = j"
  by (cases k) (auto simp: bit_push_bit_iff bit_1_iff simp del: push_bit_of_1)

lemma bit_cu_one: "i < unit_max k \<Longrightarrow> j < unit_max l \<Longrightarrow> bit (cu_bits l (push_bit j 1)) (cu_pos k i) \<longleftrightarrow> l = k \<and> i = j"
  using bit_shifted_one [of i k j] by (subst bit_cu_bits_pos) (auto simp del: push_bit_of_1)

lemma bit_excp_bit: "bit (excp_bit i) n \<longleftrightarrow> n = i * 2 + 1 \<and> n < 32"
  unfolding excp_bit_def by (auto simp: bit_simps)

lemma and_excp_bit: "i < unit_max k \<Longrightarrow> st AND excp_bit i \<noteq> 0 \<longleftrightarrow> bit st (i * 2 + 1)"
proof -
  assume "i < unit_max k"
  then have i: "i * 2 + 1 < 32" by (cases k) simp_all
  show ?thesis
  proof
    assume "st AND excp_bit i \<noteq> 0"
    then obtain n where "bit (st AND excp_bit i) n" using bit_eqI [of "st AND excp_bit i" 0] by auto
    then show "bit st (i * 2 + 1)" by (auto simp: bit_and_iff bit_excp_bit)
  next
    assume "bit st (i * 2 + 1)"
    then have "bit (st AND excp_bit i) (i * 2 + 1)" using i by (simp add: bit_and_iff bit_excp_bit)
    then show "st AND excp_bit i \<noteq> 0" by auto
  qed
qed

lemma valid_max: "i \<in> set (valid_units u k) \<Longrightarrow> i < unit_max k"
  by (simp add: valid_units_def)

lemma flagged_iff: "i \<in> set (units_flagged u k st) \<longleftrightarrow> i \<in> set (valid_units u k) \<and> bit st (i * 2 + 1)"
  using and_excp_bit [OF valid_max] by (auto simp: units_flagged_def)

section \<open>Interleaving\<close>

text \<open>
  A state of the device, what the work item is still to do for the unit it is at, and, only for the
  statements, the units whose exception has been recorded and that have not been reset since. The
  interrupt and the timer come between the steps of the work item, each as a whole; so do changes of
  the configuration and whatever happens to the queues and to the fields that are not about units.
\<close>

record unit_sys =
  us_un :: kl2_units
  us_todo :: "unit_sect list"
  us_hurt :: "(unit_kind \<times> nat) set"

fun ends_report :: "unit_kind \<Rightarrow> nat \<Rightarrow> unit_sect \<Rightarrow> bool" where
  "ends_report k i (S_reset l j) \<longleftrightarrow> l = k \<and> j = i"
| "ends_report k i (S_clear l j) \<longleftrightarrow> l = k \<and> j = i"
| "ends_report k i (S_enable l j) \<longleftrightarrow> l = k \<and> j = i"
| "ends_report k i _ \<longleftrightarrow> False"

definition next_move :: "unit_sect list \<Rightarrow> unit_kind \<Rightarrow> nat \<Rightarrow> unit_sect option" where
  "next_move todo k i = List.find (ends_report k i) todo"

text \<open>
  A unit reports nothing from its reset until the scheduler may use it again, nor while the work item
  clears its board without a reset; that it does in the second case is the subject of a property of its
  own. A report finds room in the counter.
\<close>

definition may_report :: "unit_sect list \<Rightarrow> unit_kind \<Rightarrow> nat \<Rightarrow> bool" where
  "may_report todo k i \<longleftrightarrow> next_move todo k i = None \<or> next_move todo k i = Some (S_reset k i)"

definition reports :: "unit_sys \<Rightarrow> (unit_kind \<Rightarrow> 32 word) \<Rightarrow> (unit_kind \<times> nat) set" where
  "reports s st = {(k, i). i \<in> set (units_flagged (us_un s) k (st k))}"

inductive unit_reach :: "kl2_units \<Rightarrow> unit_sys \<Rightarrow> bool" for u0 where
  ur_start: "unit_reach u0 \<lparr>us_un = u0, us_todo = [], us_hurt = {}\<rparr>"
| ur_irq: "unit_reach u0 s \<Longrightarrow>
    \<forall>(k, i)\<in>reports s st. may_report (us_todo s) k i \<and> ub_excp_cnt (un_board (us_un s) k i) + 1 < 2 ^ 32 \<Longrightarrow>
    kl2_handle_excp_irq st regs map_hwq (us_un s) = Some u \<Longrightarrow>
    unit_reach u0 (s\<lparr>us_un := u, us_hurt := us_hurt s \<union> reports s st\<rparr>)"
| ur_timeout: "unit_reach u0 s \<Longrightarrow>
    \<forall>i\<in>set (units_flagged (us_un s) k st). may_report (us_todo s) k i \<and>
      ub_timeout_cnt (un_board (us_un s) k i) + 1 < 2 ^ 32 \<Longrightarrow>
    unit_reach u0 (s\<lparr>us_un := kl2_disable_and_record_timeout k st tokens (us_un s)\<rparr>)"
| ur_cuen: "unit_reach u0 s \<Longrightarrow> unit_reach u0 (s\<lparr>us_un := kl2_sse_set_cuen_cu_disable_mask m (us_un s)\<rparr>)"
| ur_dev: "unit_reach u0 s \<Longrightarrow> unit_reach u0 (s\<lparr>us_un := (us_un s)\<lparr>un_dev := d, un_running := b, un_errno := err, un_work := w,
      un_ops := ops\<rparr>\<rparr>)"
| ur_plan: "unit_reach u0 s \<Longrightarrow> us_todo s = [] \<Longrightarrow> i \<in> set (valid_units (us_un s) k) \<Longrightarrow>
    unit_reach u0 (s\<lparr>us_todo := unit_plan (un_vf (us_un s)) (un_board (us_un s) k i) k i busy_token hwq_id\<rparr>)"
| ur_work: "unit_reach u0 s \<Longrightarrow> us_todo s = x # xs \<Longrightarrow> exec_sect x (us_un s) = Some u \<Longrightarrow>
    unit_reach u0 \<lparr>us_un = u, us_todo = xs, us_hurt = us_hurt s - {(k, i). x = S_reset k i}\<rparr>"

text \<open>A device that drives its units, after it has been set up.\<close>

definition units_fresh :: "kl2_units \<Rightarrow> bool" where
  "units_fresh u \<longleftrightarrow>
     \<not> un_pf u \<and> (\<forall>k i. un_board u k i = clear_board) \<and> un_excp_mask u = 0 \<and>
     un_cuen_mask u AND 0x003f00ff = un_cuen_mask u \<and> un_disable u = un_cuen_mask u \<and>
     (\<forall>k. \<forall>i\<in>set (valid_units u k). \<not> bit (un_int_mask u (int_source k)) (i * 2 + 1))"

section \<open>What a step changes of a unit\<close>

text \<open>The counters of a board, on which all decisions rest, and the two bits of a unit in the masks.\<close>

definition counts :: "kl2_unit_board \<Rightarrow> nat \<times> nat \<times> nat \<times> nat" where
  "counts b = (ub_excp_cnt b, ub_reset_cnt b, ub_timeout_cnt b, ub_timeout_reset_cnt b)"

definition is_off :: "kl2_units \<Rightarrow> unit_kind \<Rightarrow> nat \<Rightarrow> bool" where
  "is_off u k i \<longleftrightarrow> bit (un_excp_mask u) (cu_pos k i)"

definition is_masked :: "kl2_units \<Rightarrow> unit_kind \<Rightarrow> nat \<Rightarrow> bool" where
  "is_masked u k i \<longleftrightarrow> bit (un_int_mask u (int_source k)) (i * 2 + 1)"

text \<open>The masks belong together, and nothing but units of the device is off.\<close>

definition masks_ok :: "kl2_units \<Rightarrow> bool" where
  "masks_ok u \<longleftrightarrow>
     un_disable u = (un_cuen_mask u OR un_excp_mask u) AND 0x003f00ff \<and>
     un_cuen_mask u AND 0x003f00ff = un_cuen_mask u \<and>
     (\<forall>n. bit (un_excp_mask u) n \<longrightarrow> (\<exists>k i. i \<in> set (valid_units u k) \<and> n = cu_pos k i))"

text \<open>What stays the same under every step.\<close>

definition same_device :: "kl2_units \<Rightarrow> kl2_units \<Rightarrow> bool" where
  "same_device u u' \<longleftrightarrow> un_default_cuen u' = un_default_cuen u \<and> un_pf u' = un_pf u \<and> un_vf u' = un_vf u"

lemma same_device_valid [simp]: "same_device u u' \<Longrightarrow> valid_units u' k = valid_units u k"
  by (cases k) (simp_all add: same_device_def valid_units_def cluster_invalid_def sdnn_invalid_def)

lemma same_device_refl [simp]: "same_device u u"
  by (simp add: same_device_def)

lemma same_device_trans: "same_device u v \<Longrightarrow> same_device v w \<Longrightarrow> same_device u w"
  by (simp add: same_device_def)

text \<open>A step that keeps the masks.\<close>

definition same_masks :: "kl2_units \<Rightarrow> kl2_units \<Rightarrow> bool" where
  "same_masks u u' \<longleftrightarrow> same_device u u' \<and> un_int_mask u' = un_int_mask u \<and> un_cuen_mask u' = un_cuen_mask u \<and>
     un_excp_mask u' = un_excp_mask u \<and> un_disable u' = un_disable u"

lemma same_masks_keeps:
  assumes "same_masks u u'"
  shows "masks_ok u \<Longrightarrow> masks_ok u'" "is_off u' k i = is_off u k i" "is_masked u' k i = is_masked u k i"
    "same_device u u'"
  using assms by (auto simp: same_masks_def masks_ok_def is_off_def is_masked_def)

lemma same_masks_refl [simp]: "same_masks u u"
  by (simp add: same_masks_def)

lemma same_masks_trans: "same_masks u v \<Longrightarrow> same_masks v w \<Longrightarrow> same_masks u w"
  unfolding same_masks_def using same_device_trans by metis

lemma disable_effect:
  assumes "masks_ok u" "\<And>i. bit m i \<Longrightarrow> i < unit_max k \<Longrightarrow> i \<in> set (valid_units u k)"
  shows "masks_ok (kl2_sse_excp_disable k m u)" "same_device u (kl2_sse_excp_disable k m u)"
    "un_board (kl2_sse_excp_disable k m u) = un_board u" "un_int_mask (kl2_sse_excp_disable k m u) = un_int_mask u"
    "i < unit_max l \<Longrightarrow> is_off (kl2_sse_excp_disable k m u) l i \<longleftrightarrow> is_off u l i \<or> l = k \<and> bit m i"
proof -
  let ?u = "kl2_sse_excp_disable k m u"
  show sd: "same_device u ?u" and "un_board ?u = un_board u" "un_int_mask ?u = un_int_mask u"
    by (simp_all add: kl2_sse_excp_disable_def write_disable_def emit_def same_device_def Let_def)
  have m: "un_excp_mask ?u = un_excp_mask u OR cu_bits k m" "un_cuen_mask ?u = un_cuen_mask u"
    "un_disable ?u = (un_cuen_mask ?u OR un_excp_mask ?u) AND 0x003f00ff"
    by (simp_all add: kl2_sse_excp_disable_def write_disable_def emit_def Let_def)
  show "masks_ok ?u" unfolding masks_ok_def same_device_valid [OF sd] m
    using assms by (auto simp: masks_ok_def bit_or_iff bit_cu_bits)
  show "is_off ?u l i \<longleftrightarrow> is_off u l i \<or> l = k \<and> bit m i" if "i < unit_max l"
    using that by (auto simp: is_off_def m bit_or_iff bit_cu_bits_pos)
qed

lemma enable_effect:
  assumes "masks_ok u" "j < unit_max k"
  defines "u' \<equiv> kl2_sse_excp_enable k (push_bit j 1) u"
  shows "masks_ok u'" "same_device u u'" "un_board u' = un_board u" "un_int_mask u' = un_int_mask u"
    "i < unit_max l \<Longrightarrow> is_off u' l i \<longleftrightarrow> is_off u l i \<and> \<not> (l = k \<and> i = j)"
proof -
  show sd: "same_device u u'" and "un_board u' = un_board u" "un_int_mask u' = un_int_mask u"
    by (simp_all add: u'_def kl2_sse_excp_enable_def write_disable_def emit_def same_device_def Let_def)
  have m: "un_excp_mask u' = un_excp_mask u AND NOT (cu_bits k (push_bit j 1))" "un_cuen_mask u' = un_cuen_mask u"
    "un_disable u' = (un_cuen_mask u' OR un_excp_mask u') AND 0x003f00ff"
    by (simp_all add: u'_def kl2_sse_excp_enable_def write_disable_def emit_def Let_def)
  show "masks_ok u'" unfolding masks_ok_def same_device_valid [OF sd] m
    using assms(1) by (auto simp: masks_ok_def bit_and_iff)
  show "is_off u' l i \<longleftrightarrow> is_off u l i \<and> \<not> (l = k \<and> i = j)" if i: "i < unit_max l"
    using bit_cu_one [OF i assms(2)] cu_pos_32 [OF i]
    by (auto simp: is_off_def m bit_and_iff bit_not_iff simp del: push_bit_of_1)
qed

lemma int_source_inj: "int_source k = int_source l \<longleftrightarrow> k = l"
  by (cases k; cases l) simp_all

lemma int_mask_effect:
  "masks_ok u \<Longrightarrow> masks_ok (kl2_intc_set_int_mask n m u)" "same_device u (kl2_intc_set_int_mask n m u)"
  "un_board (kl2_intc_set_int_mask n m u) = un_board u" "is_off (kl2_intc_set_int_mask n m u) = is_off u"
  "is_masked (kl2_intc_set_int_mask (int_source l) m u) k i \<longleftrightarrow> (if k = l then bit m (i * 2 + 1) else is_masked u k i)"
proof -
  show sd: "same_device u (kl2_intc_set_int_mask n m u)"
    by (simp add: kl2_intc_set_int_mask_def emit_def same_device_def)
  show "masks_ok u \<Longrightarrow> masks_ok (kl2_intc_set_int_mask n m u)"
    unfolding masks_ok_def same_device_valid [OF sd] by (simp add: kl2_intc_set_int_mask_def emit_def)
  show "un_board (kl2_intc_set_int_mask n m u) = un_board u" "is_off (kl2_intc_set_int_mask n m u) = is_off u"
    by (simp_all add: kl2_intc_set_int_mask_def emit_def is_off_def fun_eq_iff)
  show "is_masked (kl2_intc_set_int_mask (int_source l) m u) k i \<longleftrightarrow> (if k = l then bit m (i * 2 + 1) else is_masked u k i)"
    by (simp add: kl2_intc_set_int_mask_def emit_def is_masked_def int_source_inj)
qed

lemma int_unmask_effect:
  assumes "i < unit_max k" "j < unit_max l"
  shows "is_masked (kl2_intc_int_unmask (int_source l) (excp_bit j) u) k i \<longleftrightarrow> is_masked u k i \<and> \<not> (k = l \<and> i = j)"
proof -
  have "i * 2 + 1 < 32" using assms(1) by (cases k) simp_all
  then show ?thesis
    using bit_excp_bit [of j "i * 2 + 1"] unfolding kl2_intc_int_unmask_def int_mask_effect(5)
    by (auto simp: bit_and_iff bit_not_iff is_masked_def)
qed

lemma charge_board_masks: "charge_board h t u = Some u' \<Longrightarrow> same_masks u u' \<and> un_board u' = un_board u"
  by (auto simp: charge_board_def same_masks_def same_device_def split: if_splits)

lemma record_excp_effect:
  assumes "record_excp k regs map_hwq i u = Some u'"
  shows "same_masks u u'" "counts (un_board u' l j) =
    (if l = k \<and> j = i then counts (un_board u l j\<lparr>ub_excp_cnt := u32 (ub_excp_cnt (un_board u l j) + 1)\<rparr>)
     else counts (un_board u l j))"
proof -
  obtain u1 where c: "(if un_vf u then Some u else charge_board (int (map_hwq i)) (ur_token (regs i)) u) = Some u1"
    and u': "u' = upd_unit k i (\<lambda>b. b\<lparr>ub_token := ur_token (regs i), ub_cl_st := ur_cl_st (regs i), ub_cl_mask := ur_cl_mask (regs i),
       ub_sd_st := ur_sd_st (regs i), ub_sd_mask := ur_sd_mask (regs i), ub_excp_cnt := u32 (ub_excp_cnt b + 1)\<rparr>) u1"
    using assms unfolding record_excp_def Let_def bind_eq_Some_conv by auto
  have u1: "same_masks u u1 \<and> un_board u1 = un_board u"
  proof (cases "un_vf u")
    case True with c show ?thesis by simp
  next
    case False with c charge_board_masks show ?thesis by simp
  qed
  from u1 show "same_masks u u'" unfolding u' by (simp add: upd_unit_def same_masks_def same_device_def)
  show "counts (un_board u' l j) =
    (if l = k \<and> j = i then counts (un_board u l j\<lparr>ub_excp_cnt := u32 (ub_excp_cnt (un_board u l j) + 1)\<rparr>)
     else counts (un_board u l j))"
    unfolding u' by (auto simp: upd_unit_def counts_def u1)
qed

lemma record_excps_effect:
  assumes "over_units (record_excp k regs map_hwq) is u = Some u'" "distinct is"
  shows "same_masks u u' \<and> (\<forall>l j. counts (un_board u' l j) =
    (if l = k \<and> j \<in> set is then counts (un_board u l j\<lparr>ub_excp_cnt := u32 (ub_excp_cnt (un_board u l j) + 1)\<rparr>)
     else counts (un_board u l j)))"
  using assms
proof (induction "is" arbitrary: u)
  case Nil
  then show ?case by (simp add: same_masks_def)
next
  case (Cons i "is")
  from Cons.prems obtain u1 where u1: "record_excp k regs map_hwq i u = Some u1" "over_units (record_excp k regs map_hwq) is u1 = Some u'"
    by (auto split: bind_splits)
  note a = record_excp_effect [OF u1(1)] and b = Cons.IH [OF u1(2)]
  have "same_masks u u'" using a(1) b Cons.prems(2) same_masks_trans by simp
  moreover have "counts (un_board u' l j) =
    (if l = k \<and> j \<in> set (i # is) then counts (un_board u l j\<lparr>ub_excp_cnt := u32 (ub_excp_cnt (un_board u l j) + 1)\<rparr>)
     else counts (un_board u l j))" for l j
    using a(2) [of l j] b Cons.prems(2) by (auto simp: counts_def)
  ultimately show ?case by blast
qed

lemma flagged_distinct: "distinct (units_flagged u k st)"
  by (simp add: units_flagged_def valid_units_def)

lemma flagged_32: "i \<in> set (units_flagged u k st) \<Longrightarrow> i < 32 \<and> i < unit_max k"
  by (cases k) (auto simp: units_flagged_def valid_units_def)

lemma flagged_mask: "bit (unit_mask (units_flagged u k st)) i \<longleftrightarrow> i \<in> set (units_flagged u k st)"
  using flagged_32 by (auto simp: bit_unit_mask)

lemma flagged_same [simp]: "same_device u u' \<Longrightarrow> units_flagged u' k st = units_flagged u k st"
  by (simp add: units_flagged_def)

lemma flagged_valid: "i \<in> set (units_flagged u k st) \<Longrightarrow> i \<in> set (valid_units u k)"
  by (simp add: units_flagged_def)

lemma flagged_off:
  fixes k st
  assumes "masks_ok u"
  defines "u' \<equiv> kl2_sse_excp_disable k (unit_mask (units_flagged u k st)) u"
  shows "masks_ok u'" "same_device u u'" "un_board u' = un_board u" "un_int_mask u' = un_int_mask u"
    "i < unit_max l \<Longrightarrow> is_off u' l i \<longleftrightarrow> is_off u l i \<or> l = k \<and> i \<in> set (units_flagged u k st)"
  using disable_effect [OF assms(1), of "unit_mask (units_flagged u k st)" k]
  by (simp_all add: u'_def flagged_mask flagged_valid)

text \<open>The interrupt, for the units of a kind.\<close>

definition counted :: "(unit_kind \<times> nat) set \<Rightarrow> kl2_units \<Rightarrow> unit_kind \<Rightarrow> nat \<Rightarrow> nat \<times> nat \<times> nat \<times> nat" where
  "counted A u k i =
     (let b = un_board u k i
      in if (k, i) \<in> A then counts (b\<lparr>ub_excp_cnt := u32 (ub_excp_cnt b + 1)\<rparr>) else counts b)"

lemma excp_irq_kind_effect:
  assumes ok: "masks_ok u" and ex: "excp_irq_kind st regs map_hwq k u = Some u'"
  shows "masks_ok u' \<and> same_device u u' \<and>
    (\<forall>l. \<forall>i\<in>set (valid_units u l).
       (is_off u' l i \<longleftrightarrow> is_off u l i \<or> l = k \<and> i \<in> set (units_flagged u k (st k))) \<and>
       (is_masked u' l i \<longleftrightarrow> is_masked u l i \<or> l = k \<and> i \<in> set (units_flagged u k (st k)))) \<and>
    (\<forall>l i. counts (un_board u' l i) = counted ({k} \<times> set (units_flagged u k (st k))) u l i)"
proof (cases "st k = 0")
  case True
  then have "units_flagged u k (st k) = []" by (simp add: units_flagged_def)
  with True ex ok show ?thesis by (simp add: excp_irq_kind_def counted_def Let_def)
next
  case False
  let ?F = "units_flagged u k (st k)" and ?u1 = "kl2_intc_int_mask (int_source k) (st k) u"
  have u1: "masks_ok ?u1" "same_device u ?u1" "un_board ?u1 = un_board u" "is_off ?u1 = is_off u"
    using int_mask_effect(1-4) ok by (simp_all add: kl2_intc_int_mask_def)
  have m1: "is_masked ?u1 l i \<longleftrightarrow> is_masked u l i \<or> l = k \<and> bit (st k) (i * 2 + 1)" for l i
    unfolding kl2_intc_int_mask_def int_mask_effect(5) by (auto simp: bit_or_iff is_masked_def)
  let ?u2 = "kl2_sse_excp_disable k (unit_mask (units_flagged ?u1 k (st k))) ?u1"
  have F: "units_flagged ?u1 k (st k) = ?F" using u1(2) by simp
  note u2 = flagged_off [OF u1(1), where k = k and st = "st k", unfolded F]
  have ex2: "over_units (record_excp k (regs k) (map_hwq k)) ?F ?u2 = Some u'"
    using ex False F by (simp add: excp_irq_kind_def kl2_disable_and_record_excp_def)
  note r = record_excps_effect [OF ex2 flagged_distinct]
  note sm = conjunct1 [OF r, unfolded F]
  have "masks_ok u'" "same_device u u'"
    using r same_masks_keeps(1,4) u2(1,2) u1(2) same_device_trans unfolding F by blast+
  moreover have "is_off u' l i \<longleftrightarrow> is_off u l i \<or> l = k \<and> i \<in> set ?F"
    "is_masked u' l i \<longleftrightarrow> is_masked u l i \<or> l = k \<and> i \<in> set ?F" if i: "i \<in> set (valid_units u l)" for l i
  proof -
    show "is_off u' l i \<longleftrightarrow> is_off u l i \<or> l = k \<and> i \<in> set ?F"
      using same_masks_keeps(2) [OF sm] u2(5) [OF valid_max [OF i]] u1(4) by simp
    have "is_masked u' l i \<longleftrightarrow> is_masked ?u1 l i"
      using same_masks_keeps(3) [OF sm] u2(4) by (simp add: is_masked_def)
    then show "is_masked u' l i \<longleftrightarrow> is_masked u l i \<or> l = k \<and> i \<in> set ?F"
      unfolding m1 using i by (auto simp: flagged_iff)
  qed
  moreover have "counts (un_board u' l i) = counted ({k} \<times> set ?F) u l i" for l i
    using r u2(3) u1(3) by (simp add: counted_def Let_def F)
  ultimately show ?thesis by blast
qed

lemma irq_effect:
  fixes st
  assumes ok: "masks_ok u" and pf: "\<not> un_pf u" and ex: "kl2_handle_excp_irq st regs map_hwq u = Some u'"
  defines "A \<equiv> {(k, i). i \<in> set (units_flagged u k (st k))}"
  shows "masks_ok u' \<and> same_device u u' \<and>
    (\<forall>l. \<forall>i\<in>set (valid_units u l). (is_off u' l i \<longleftrightarrow> is_off u l i \<or> (l, i) \<in> A) \<and> (is_masked u' l i \<longleftrightarrow> is_masked u l i \<or> (l, i) \<in> A)) \<and>
    (\<forall>l i. counts (un_board u' l i) = counted A u l i)"
proof -
  let ?some = "st Cluster \<noteq> 0 \<or> st Sdnn \<noteq> 0"
  let ?u0 = "if ?some then emit StallAll u else u"
  from ex obtain u2 where v: "over_units (excp_irq_kind st regs map_hwq) [Cluster, Sdnn] ?u0 = Some u2"
    "u' = (if ?some then u2\<lparr>un_work := True\<rparr> else u2)"
    unfolding kl2_handle_excp_irq_def Let_def bind_eq_Some_conv if_not_P [OF pf] by blast
  from v(1) obtain u1 where "excp_irq_kind st regs map_hwq Cluster ?u0 = Some u1" "excp_irq_kind st regs map_hwq Sdnn u1 = Some u2"
    unfolding over_units.simps bind_eq_Some_conv by blast
  note u = this v(2)
  have s0: "same_masks u ?u0" "un_board ?u0 = un_board u"
    by (cases ?some; simp add: emit_def same_masks_def same_device_def)+
  have s2: "same_masks u2 u'" "un_board u' = un_board u2"
    unfolding u(3) by (cases ?some; simp add: same_masks_def same_device_def)+
  have dev0: "same_device u ?u0" by (rule same_masks_keeps(4) [OF s0(1)])
  note e1 = excp_irq_kind_effect [OF same_masks_keeps(1) [OF s0(1) ok] u(1)]
  note e2 = excp_irq_kind_effect [OF conjunct1 [OF e1] u(2)]
  have dev1: "same_device u u1" by (rule same_device_trans [OF dev0 conjunct1 [OF conjunct2 [OF e1]]])
  have dev2: "same_device u u2" by (rule same_device_trans [OF dev1 conjunct1 [OF conjunct2 [OF e2]]])
  have F: "units_flagged ?u0 k s = units_flagged u k s" "units_flagged u1 k s = units_flagged u k s"
    "valid_units ?u0 l = valid_units u l" "valid_units u1 l = valid_units u l" for k s l
    using dev0 dev1 by simp_all
  have "masks_ok u'" by (rule same_masks_keeps(1) [OF s2(1) conjunct1 [OF e2]])
  moreover have "same_device u u'" by (rule same_device_trans [OF dev2 same_masks_keeps(4) [OF s2(1)]])
  moreover have "(is_off u' l i \<longleftrightarrow> is_off u l i \<or> (l, i) \<in> A) \<and> (is_masked u' l i \<longleftrightarrow> is_masked u l i \<or> (l, i) \<in> A)"
    if i: "i \<in> set (valid_units u l)" for l i
  proof -
    have 1: "is_off u1 l i \<longleftrightarrow> is_off u l i \<or> l = Cluster \<and> i \<in> set (units_flagged u Cluster (st Cluster))"
      "is_masked u1 l i \<longleftrightarrow> is_masked u l i \<or> l = Cluster \<and> i \<in> set (units_flagged u Cluster (st Cluster))"
      using conjunct1 [OF conjunct2 [OF conjunct2 [OF e1]]] i same_masks_keeps(2,3) [OF s0(1)] unfolding F by simp_all
    have 2: "is_off u2 l i \<longleftrightarrow> is_off u1 l i \<or> l = Sdnn \<and> i \<in> set (units_flagged u Sdnn (st Sdnn))"
      "is_masked u2 l i \<longleftrightarrow> is_masked u1 l i \<or> l = Sdnn \<and> i \<in> set (units_flagged u Sdnn (st Sdnn))"
      using conjunct1 [OF conjunct2 [OF conjunct2 [OF e2]]] i unfolding F by simp_all
    show ?thesis unfolding same_masks_keeps(2,3) [OF s2(1)] 2 1 A_def by (cases l) simp_all
  qed
  moreover have "counts (un_board u' l i) = counted A u l i" for l i
  proof -
    have c1: "counts (un_board u1 l i) = counted ({Cluster} \<times> set (units_flagged u Cluster (st Cluster))) u l i"
      using conjunct2 [OF conjunct2 [OF conjunct2 [OF e1]]] unfolding F counted_def s0(2) by simp
    have c2: "counts (un_board u2 l i) = counted ({Sdnn} \<times> set (units_flagged u Sdnn (st Sdnn))) u1 l i"
      using conjunct2 [OF conjunct2 [OF conjunct2 [OF e2]]] unfolding F by simp
    show ?thesis
    proof (cases l)
      case Cluster with c1 c2 show ?thesis unfolding s2(2) by (simp add: counted_def Let_def A_def)
    next
      case Sdnn with c1 c2 show ?thesis unfolding s2(2) by (simp add: counted_def Let_def A_def counts_def)
    qed
  qed
  ultimately show ?thesis by blast
qed

text \<open>The timer.\<close>

lemma timeouts_effect:
  fixes k st tokens
  assumes ok: "masks_ok u"
  defines "u' \<equiv> kl2_disable_and_record_timeout k st tokens u"
  shows "masks_ok u' \<and> same_device u u' \<and> un_int_mask u' = un_int_mask u \<and>
    (\<forall>l i. i < unit_max l \<longrightarrow> (is_off u' l i \<longleftrightarrow> is_off u l i \<or> l = k \<and> i \<in> set (units_flagged u k st))) \<and>
    (\<forall>l i. counts (un_board u' l i) =
       (let b = un_board u l i
        in if l = k \<and> i \<in> set (units_flagged u k st) then counts (b\<lparr>ub_timeout_cnt := u32 (ub_timeout_cnt b + 1)\<rparr>) else counts b))"
proof -
  have fold: "distinct is \<Longrightarrow> same_masks v (foldl (\<lambda>u i. record_timeout k tokens i u) v is) \<and>
      (\<forall>l i. counts (un_board (foldl (\<lambda>u i. record_timeout k tokens i u) v is) l i) =
       (let b = un_board v l i
        in if l = k \<and> i \<in> set is then counts (b\<lparr>ub_timeout_cnt := u32 (ub_timeout_cnt b + 1)\<rparr>) else counts b))"
    for v "is"
  proof (induction "is" arbitrary: v)
    case (Cons i "is")
    have one: "same_masks v (record_timeout k tokens i v)"
      by (simp add: record_timeout_def upd_unit_def same_masks_def same_device_def)
    have at: "counts (un_board (record_timeout k tokens i v) k i) =
       counts (un_board v k i\<lparr>ub_timeout_cnt := u32 (ub_timeout_cnt (un_board v k i) + 1)\<rparr>)"
      by (simp add: record_timeout_def upd_unit_def counts_def)
    have other: "un_board (record_timeout k tokens i v) l j = un_board v l j" if "\<not> (l = k \<and> j = i)" for l j
      using that by (auto simp: record_timeout_def upd_unit_def)
    show ?case
    proof (intro conjI allI)
      show "same_masks v (foldl (\<lambda>u i. record_timeout k tokens i u) v (i # is))"
        using Cons same_masks_trans [OF one] by simp
      show "counts (un_board (foldl (\<lambda>u i. record_timeout k tokens i u) v (i # is)) l j) =
       (let b = un_board v l j
        in if l = k \<and> j \<in> set (i # is) then counts (b\<lparr>ub_timeout_cnt := u32 (ub_timeout_cnt b + 1)\<rparr>) else counts b)" for l j
        using Cons at other [of l j] by (cases "l = k \<and> j = i") (auto simp: Let_def)
    qed
  qed simp
  let ?F = "units_flagged u k st" and ?v = "kl2_sse_excp_disable k (unit_mask (units_flagged u k st)) u"
  note v = flagged_off [OF ok, where k = k and st = st]
  note f = fold [OF flagged_distinct, of ?v u k st]
  have u': "u' = foldl (\<lambda>u i. record_timeout k tokens i u) ?v ?F"
    by (simp add: u'_def kl2_disable_and_record_timeout_def)
  have sm: "same_masks ?v u'" using f u' by simp
  show ?thesis
    using same_masks_keeps(1,2) [OF sm] v sm f u' same_device_trans [OF v(2) same_masks_keeps(4) [OF sm]]
    by (simp add: same_masks_def)
qed

end
