(* ===== verification/Kl2_Unit_Inv.thy ===== *)
theory Kl2_Unit_Inv
  imports Kl2_Unit_Props
begin

text \<open>
  The invariant of the recovery of compute units, and that every step of the interrupt, of the timer, of the
  work item and of a change of configuration keeps it.
\<close>

section \<open>The invariant\<close>

fun todo_ok :: "unit_sect list \<Rightarrow> bool" where
  "todo_ok (S_reset k i # xs) \<longleftrightarrow> S_unmask k i \<in> set xs \<and> next_move xs k i = Some (S_clear k i) \<and> todo_ok xs"
| "todo_ok (S_unmask k i # xs) \<longleftrightarrow> next_move xs k i = Some (S_clear k i) \<and> todo_ok xs"
| "todo_ok (S_clear k i # xs) \<longleftrightarrow> S_enable k i \<in> set xs \<and> next_move xs k i = Some (S_enable k i) \<and> todo_ok xs"
| "todo_ok (S_enable k i # xs) \<longleftrightarrow> next_move xs k i \<noteq> Some (S_enable k i) \<and> todo_ok xs"
| "todo_ok (x # xs) \<longleftrightarrow> todo_ok xs"
| "todo_ok [] \<longleftrightarrow> True"

text \<open>
  A unit with something on record is off; a unit is off only with something on record or when it is
  about to be enabled; its interrupt is masked only with an exception on record or when it is about to be
  unmasked; a unit that is hurt is on record, may be reset, and is masked.
\<close>

fun unit_ok :: "unit_kind \<Rightarrow> nat \<Rightarrow> nat \<times> nat \<times> nat \<times> nat \<Rightarrow> bool \<Rightarrow> bool \<Rightarrow> unit_sect list \<Rightarrow> bool \<Rightarrow> bool" where
  "unit_ok k i (e, r, t, tr) off masked todo hurt \<longleftrightarrow>
     r = 0 \<and> tr = 0 \<and> (0 < e \<or> 0 < t \<longrightarrow> off) \<and> (off \<longrightarrow> 0 < e \<or> 0 < t \<or> S_enable k i \<in> set todo) \<and>
     (masked \<longrightarrow> 0 < e \<and> may_report todo k i \<or> S_unmask k i \<in> set todo) \<and>
     (hurt \<longrightarrow> 0 < e \<and> may_report todo k i \<and> masked) \<and>
     (next_move todo k i = Some (S_enable k i) \<longrightarrow> e = 0 \<and> t = 0)"

fun sect_unit :: "unit_sect \<Rightarrow> unit_kind \<times> nat" where
  "sect_unit (S_account k i h) = (k, i)"
| "sect_unit (S_reset k i) = (k, i)"
| "sect_unit (S_mask k i) = (k, i)"
| "sect_unit (S_unmask k i) = (k, i)"
| "sect_unit (S_clear k i) = (k, i)"
| "sect_unit (S_done k i) = (k, i)"
| "sect_unit (S_enable k i) = (k, i)"

definition the_units :: "kl2_units \<Rightarrow> (unit_kind \<times> nat) set" where
  "the_units u = {(k, i). i \<in> set (valid_units u k)}"

definition units_inv :: "unit_sys \<Rightarrow> bool" where
  "units_inv s \<longleftrightarrow>
     \<not> un_pf (us_un s) \<and> masks_ok (us_un s) \<and> todo_ok (us_todo s) \<and>
     sect_unit ` set (us_todo s) \<subseteq> the_units (us_un s) \<and> us_hurt s \<subseteq> the_units (us_un s) \<and>
     (\<forall>(k, i)\<in>the_units (us_un s). unit_ok k i (counts (un_board (us_un s) k i)) (is_off (us_un s) k i)
        (is_masked (us_un s) k i) (us_todo s) ((k, i) \<in> us_hurt s))"

lemma next_move_simps [simp]:
  "next_move [] k i = None"
  "next_move (x # xs) k i = (if ends_report k i x then Some x else next_move xs k i)"
  by (simp_all add: next_move_def)

lemma may_report_other: "sect_unit x \<noteq> (k, i) \<Longrightarrow> may_report (x # xs) k i = may_report xs k i"
  by (cases x) (auto simp: may_report_def)

lemma unit_ok_other:
  "sect_unit x \<noteq> (k, i) \<Longrightarrow> unit_ok k i c off masked (x # xs) hurt \<longleftrightarrow> unit_ok k i c off masked xs hurt"
  by (cases c; cases x) (auto simp: may_report_def)

lemma same_device_units [simp]: "same_device u u' \<Longrightarrow> the_units u' = the_units u"
  by (simp add: the_units_def)

lemma the_units_max: "(k, i) \<in> the_units u \<Longrightarrow> i < unit_max k"
  by (simp add: the_units_def valid_max)

text \<open>What the work item decides for a unit.\<close>

lemma plan_unit: "x \<in> set (unit_plan vf b k i busy hwq_id) \<Longrightarrow> sect_unit x = (k, i)"
  by (auto simp: unit_plan_def reset_sects_def split: if_splits)

lemma plan_other:
  assumes "(l, j) \<noteq> (k, i)"
  shows "unit_ok l j c off masked (unit_plan vf b k i busy hwq_id) hurt \<longleftrightarrow> unit_ok l j c off masked [] hurt"
proof -
  have "(\<forall>x\<in>set xs. sect_unit x = (k, i)) \<Longrightarrow> unit_ok l j c off masked xs hurt \<longleftrightarrow> unit_ok l j c off masked [] hurt" for xs
    using assms by (induction xs) (auto simp: unit_ok_other)
  then show ?thesis using plan_unit by blast
qed

lemma plan_todo: "todo_ok (unit_plan vf b k i busy hwq_id)"
  by (simp add: unit_plan_def reset_sects_def)

lemma plan_ok:
  assumes "unit_ok k i (counts b) off masked [] hurt"
  shows "unit_ok k i (counts b) off masked (unit_plan vf b k i busy hwq_id) hurt"
  using assms by (auto simp: unit_plan_def reset_sects_def counts_def may_report_def)

text \<open>One step of the work item, for the unit it is at.\<close>

lemma work_unit:
  assumes "unit_ok k i (counts (un_board u k i)) (is_off u k i) (is_masked u k i) (x # xs) hurt"
    and "todo_ok (x # xs)" and "masks_ok u" and "sect_unit x = (k, i)" and "i < unit_max k" and "exec_sect x u = Some u'"
  shows "unit_ok k i (counts (un_board u' k i)) (is_off u' k i) (is_masked u' k i) xs (hurt \<and> x \<noteq> S_reset k i)"
proof -
  obtain e r t tr where c: "counts (un_board u k i) = (e, r, t, tr)" by (metis prod_cases4)
  show ?thesis
  proof (cases x)
    case (S_account l j h)
    with assms(6) have "same_masks u u'" "un_board u' = un_board u" using charge_board_masks by auto
    with assms(1,2,4) c S_account show ?thesis by (simp add: same_masks_keeps may_report_def)
  next
    case (S_reset l j)
    with assms(6) have "same_masks u u'" "un_board u' = un_board u"
      by (auto simp: emit_def same_masks_def same_device_def)
    with assms(1,2,4) c S_reset show ?thesis by (auto simp: same_masks_keeps may_report_def)
  next
    case (S_mask l j)
    with assms(6) have "same_masks u u'" "un_board u' = un_board u"
      by (auto simp: emit_def same_masks_def same_device_def)
    with assms(1,2,4) c S_mask show ?thesis by (auto simp: same_masks_keeps may_report_def)
  next
    case (S_unmask l j)
    with assms(4,6) have u': "u' = kl2_intc_int_unmask (int_source k) (excp_bit i) u" by simp
    have "\<not> is_masked u' k i" using int_unmask_effect [OF assms(5,5)] u' by simp
    moreover have "un_board u' = un_board u" "is_off u' = is_off u"
      unfolding u' kl2_intc_int_unmask_def using int_mask_effect(3,4) by blast+
    ultimately show ?thesis using assms(1,2,4) c S_unmask by (auto simp: may_report_def)
  next
    case (S_clear l j)
    with assms(4,6) have "u' = upd_unit k i (\<lambda>_. clear_board) u" by simp
    then have "counts (un_board u' k i) = (0, 0, 0, 0)" "is_off u' k i = is_off u k i" "is_masked u' k i = is_masked u k i"
      by (simp_all add: upd_unit_def counts_def clear_board_def is_off_def is_masked_def)
    then show ?thesis using assms(1,2,4) c S_clear by (auto simp: may_report_def)
  next
    case (S_done l j)
    with assms(6) have "same_masks u u'" "un_board u' = un_board u"
      by (auto simp: emit_def same_masks_def same_device_def)
    with assms(1,2,4) c S_done show ?thesis by (auto simp: same_masks_keeps may_report_def)
  next
    case (S_enable l j)
    with assms(4,6) have u': "u' = kl2_sse_excp_enable k (push_bit i 1) u" by (simp del: push_bit_of_1)
    note en = enable_effect [OF assms(3,5), folded u']
    have "is_masked u' k i = is_masked u k i" by (simp add: is_masked_def en(4))
    moreover have "\<not> is_off u' k i" using en(5) [OF assms(5)] by simp
    ultimately show ?thesis using assms(1,2,4) c S_enable en(3) by (auto simp: may_report_def)
  qed
qed

lemma exec_sect_effect:
  assumes ok: "masks_ok u" and x: "sect_unit x = (k, i)" "i < unit_max k" and ex: "exec_sect x u = Some u'"
  shows "masks_ok u' \<and> same_device u u' \<and>
    (\<forall>l j. j < unit_max l \<and> (l, j) \<noteq> (k, i) \<longrightarrow>
       un_board u' l j = un_board u l j \<and> is_off u' l j = is_off u l j \<and> is_masked u' l j = is_masked u l j)"
proof -
  have same: ?thesis if "same_masks u u'" "un_board u' = un_board u"
    using same_masks_keeps [OF that(1)] that(2) ok by simp
  show ?thesis
  proof (cases x)
    case (S_account l j h)
    with ex charge_board_masks show ?thesis by (intro same) auto
  next
    case (S_unmask l j)
    with x ex have u': "u' = kl2_intc_int_unmask (int_source k) (excp_bit i) u" by simp
    have "is_masked u' l j = is_masked u l j" if "j < unit_max l" "(l, j) \<noteq> (k, i)" for l j
      using int_unmask_effect [OF that(1) x(2)] that(2) u' by auto
    moreover have "masks_ok u'" "same_device u u'" "un_board u' = un_board u" "is_off u' = is_off u"
      unfolding u' kl2_intc_int_unmask_def using int_mask_effect(1-4) ok by blast+
    ultimately show ?thesis by simp
  next
    case (S_clear l j)
    with x ex have u': "u' = upd_unit k i (\<lambda>_. clear_board) u" by simp
    then have "same_masks u u'" by (simp add: upd_unit_def same_masks_def same_device_def)
    moreover have "un_board u' l j = un_board u l j" if "(l, j) \<noteq> (k, i)" for l j
      using that by (auto simp: u' upd_unit_def)
    ultimately show ?thesis using same_masks_keeps ok by blast
  next
    case (S_enable l j)
    with x ex have u': "u' = kl2_sse_excp_enable k (push_bit i 1) u" by (simp del: push_bit_of_1)
    note en = enable_effect [OF ok x(2), folded u']
    have "is_masked u' = is_masked u" by (simp add: is_masked_def en(4) fun_eq_iff)
    with en show ?thesis by auto
  qed (use ex in \<open>intro same; auto simp: emit_def same_masks_def same_device_def\<close>)+
qed

lemma todo_ok_tl: "todo_ok (x # xs) \<Longrightarrow> todo_ok xs"
  by (cases x) auto

section \<open>Every step keeps it\<close>

lemma units_invD:
  assumes "units_inv s" "(k, i) \<in> the_units (us_un s)"
  shows "unit_ok k i (counts (un_board (us_un s) k i)) (is_off (us_un s) k i) (is_masked (us_un s) k i) (us_todo s) ((k, i) \<in> us_hurt s)"
    "i < unit_max k"
  using assms the_units_max unfolding units_inv_def by blast+

lemma unit_ok_excp:
  assumes "unit_ok k i (counts b) off masked todo hurt" "may_report todo k i" "ub_excp_cnt b + 1 < 2 ^ 32"
  shows "unit_ok k i (counts (b\<lparr>ub_excp_cnt := u32 (ub_excp_cnt b + 1)\<rparr>)) True True todo True"
proof -
  have "u32 (ub_excp_cnt b + 1) = ub_excp_cnt b + 1" using assms(3) by (intro u32_id)
  then show ?thesis using assms(1,2) by (auto simp: counts_def may_report_def)
qed

lemma unit_ok_timeout:
  assumes "unit_ok k i (counts b) off masked todo hurt" "may_report todo k i" "ub_timeout_cnt b + 1 < 2 ^ 32"
  shows "unit_ok k i (counts (b\<lparr>ub_timeout_cnt := u32 (ub_timeout_cnt b + 1)\<rparr>)) True masked todo hurt"
proof -
  have "u32 (ub_timeout_cnt b + 1) = ub_timeout_cnt b + 1" using assms(3) by (intro u32_id)
  then show ?thesis using assms(1,2) by (auto simp: counts_def may_report_def)
qed

lemma units_invI:
  assumes inv: "units_inv s" and sd: "same_device (us_un s) u" and "masks_ok u" and "todo_ok xs"
    and "sect_unit ` set xs \<subseteq> the_units (us_un s)" and "H \<subseteq> the_units (us_un s)"
    and all: "\<And>k i. (k, i) \<in> the_units (us_un s) \<Longrightarrow>
      unit_ok k i (counts (un_board u k i)) (is_off u k i) (is_masked u k i) xs ((k, i) \<in> H)"
  shows "units_inv \<lparr>us_un = u, us_todo = xs, us_hurt = H\<rparr>"
proof -
  have "\<not> un_pf (us_un s)" using inv unfolding units_inv_def by (rule conjunct1)
  then have "\<not> un_pf u" using sd by (simp add: same_device_def)
  then show ?thesis unfolding units_inv_def unit_sys.select_convs same_device_units [OF sd]
    by (intro conjI ballI case_prodI2 assms(3-6)) (assumption, rule all, hypsubst, assumption)
qed

lemma units_inv_parts:
  assumes "units_inv s"
  shows "\<not> un_pf (us_un s)" "masks_ok (us_un s)" "todo_ok (us_todo s)"
    "sect_unit ` set (us_todo s) \<subseteq> the_units (us_un s)" "us_hurt s \<subseteq> the_units (us_un s)"
  using assms by (simp_all add: units_inv_def)

lemma unit_sys_updates:
  "s\<lparr>us_un := u, us_hurt := H\<rparr> = \<lparr>us_un = u, us_todo = us_todo s, us_hurt = H\<rparr>"
  "s\<lparr>us_un := u\<rparr> = \<lparr>us_un = u, us_todo = us_todo s, us_hurt = us_hurt s\<rparr>"
  "s\<lparr>us_todo := xs\<rparr> = \<lparr>us_un = us_un s, us_todo = xs, us_hurt = us_hurt s\<rparr>"
  for s :: unit_sys
  by simp_all

lemma irq_inv:
  assumes inv: "units_inv s"
    and rep: "\<forall>(k, i)\<in>reports s st. may_report (us_todo s) k i \<and> ub_excp_cnt (un_board (us_un s) k i) + 1 < 2 ^ 32"
    and ex: "kl2_handle_excp_irq st regs map_hwq (us_un s) = Some u"
  shows "units_inv (s\<lparr>us_un := u, us_hurt := us_hurt s \<union> reports s st\<rparr>)"
proof -
  have i: "\<not> un_pf (us_un s)" "masks_ok (us_un s)" using inv by (simp_all add: units_inv_def)
  have A: "{(k, i). i \<in> set (units_flagged (us_un s) k (st k))} = reports s st" by (simp add: reports_def)
  note e = irq_effect [OF i(2,1) ex, unfolded A]
  have sd: "same_device (us_un s) u" by (rule conjunct1 [OF conjunct2 [OF e]])
  have sub: "reports s st \<subseteq> the_units (us_un s)" by (auto simp: reports_def the_units_def units_flagged_def)
  have "unit_ok k i (counts (un_board u k i)) (is_off u k i) (is_masked u k i) (us_todo s) ((k, i) \<in> us_hurt s \<union> reports s st)"
    if k: "(k, i) \<in> the_units (us_un s)" for k i
  proof -
    have v: "i \<in> set (valid_units (us_un s) k)" using k by (simp add: the_units_def)
    have c: "counts (un_board u k i) = counted (reports s st) (us_un s) k i"
      using conjunct2 [OF conjunct2 [OF conjunct2 [OF e]]] by simp
    have o: "is_off u k i \<longleftrightarrow> is_off (us_un s) k i \<or> (k, i) \<in> reports s st"
      "is_masked u k i \<longleftrightarrow> is_masked (us_un s) k i \<or> (k, i) \<in> reports s st"
      using conjunct1 [OF conjunct2 [OF conjunct2 [OF e]]] v by simp_all
    note k0 = units_invD(1) [OF inv k]
    show ?thesis
    proof (cases "(k, i) \<in> reports s st")
      case True
      with rep have "may_report (us_todo s) k i" "ub_excp_cnt (un_board (us_un s) k i) + 1 < 2 ^ 32" by auto
      from unit_ok_excp [OF k0 this] show ?thesis unfolding c o using True by (simp add: counted_def Let_def)
    next
      case False with k0 show ?thesis unfolding c o by (simp add: counted_def Let_def)
    qed
  qed
  then show ?thesis unfolding unit_sys_updates(1)
    by (intro units_invI [OF inv sd conjunct1 [OF e] units_inv_parts(3,4) [OF inv]] Un_least units_inv_parts(5) [OF inv] sub)
qed

lemma timeout_inv:
  assumes inv: "units_inv s"
    and rep: "\<forall>i\<in>set (units_flagged (us_un s) k st). may_report (us_todo s) k i \<and> ub_timeout_cnt (un_board (us_un s) k i) + 1 < 2 ^ 32"
  shows "units_inv (s\<lparr>us_un := kl2_disable_and_record_timeout k st tokens (us_un s)\<rparr>)"
proof -
  let ?u = "kl2_disable_and_record_timeout k st tokens (us_un s)"
  have i: "masks_ok (us_un s)" using inv by (simp add: units_inv_def)
  note e = timeouts_effect [OF i, of k st tokens]
  have sd: "same_device (us_un s) ?u" by (rule conjunct1 [OF conjunct2 [OF e]])
  have "unit_ok l i (counts (un_board ?u l i)) (is_off ?u l i) (is_masked ?u l i) (us_todo s) ((l, i) \<in> us_hurt s)"
    if k: "(l, i) \<in> the_units (us_un s)" for l i
  proof -
    note k0 = units_invD [OF inv k]
    have m: "is_masked ?u l i = is_masked (us_un s) l i"
      using conjunct1 [OF conjunct2 [OF conjunct2 [OF e]]] by (simp add: is_masked_def)
    have o: "is_off ?u l i \<longleftrightarrow> is_off (us_un s) l i \<or> l = k \<and> i \<in> set (units_flagged (us_un s) k st)"
      using conjunct1 [OF conjunct2 [OF conjunct2 [OF conjunct2 [OF e]]]] k0(2) by simp
    have c: "counts (un_board ?u l i) = (let b = un_board (us_un s) l i
        in if l = k \<and> i \<in> set (units_flagged (us_un s) k st) then counts (b\<lparr>ub_timeout_cnt := u32 (ub_timeout_cnt b + 1)\<rparr>) else counts b)"
      using conjunct2 [OF conjunct2 [OF conjunct2 [OF conjunct2 [OF e]]]] by simp
    show ?thesis
    proof (cases "l = k \<and> i \<in> set (units_flagged (us_un s) k st)")
      case True
      with rep have "may_report (us_todo s) l i" "ub_timeout_cnt (un_board (us_un s) l i) + 1 < 2 ^ 32" by auto
      from unit_ok_timeout [OF k0(1) this] show ?thesis unfolding c o m using True by (simp add: Let_def)
    next
      case False
      then have "is_off ?u l i = is_off (us_un s) l i" "counts (un_board ?u l i) = counts (un_board (us_un s) l i)"
        unfolding c o Let_def by (blast, rule if_not_P)
      with k0(1) m show ?thesis by simp
    qed
  qed
  then show ?thesis unfolding unit_sys_updates(2)
    by (intro units_invI [OF inv sd conjunct1 [OF e] units_inv_parts(3,4,5) [OF inv]])
qed

lemma work_inv:
  assumes inv: "units_inv s" and todo: "us_todo s = x # xs" and ex: "exec_sect x (us_un s) = Some u"
  shows "units_inv \<lparr>us_un = u, us_todo = xs, us_hurt = us_hurt s - {(k, i). x = S_reset k i}\<rparr>"
proof -
  obtain k i where x: "sect_unit x = (k, i)" by (cases "sect_unit x")
  have t: "todo_ok (x # xs)" "masks_ok (us_un s)" "(k, i) \<in> the_units (us_un s)"
    using inv todo x by (auto simp: units_inv_def)
  note k0 = units_invD [OF inv t(3)]
  note e = exec_sect_effect [OF t(2) x k0(2) ex]
  have sd: "same_device (us_un s) u" by (rule conjunct1 [OF conjunct2 [OF e]])
  have "unit_ok l j (counts (un_board u l j)) (is_off u l j) (is_masked u l j) xs ((l, j) \<in> us_hurt s - {(k, i). x = S_reset k i})"
    if l: "(l, j) \<in> the_units (us_un s)" for l j
  proof (cases "(l, j) = (k, i)")
    case True
    have "((k, i) \<in> us_hurt s - {(k, i). x = S_reset k i}) \<longleftrightarrow> (k, i) \<in> us_hurt s \<and> x \<noteq> S_reset k i" by blast
    with work_unit [OF k0(1) [unfolded todo] t(1,2) x k0(2) ex] True show ?thesis by simp
  next
    case False
    have h: "((l, j) \<in> us_hurt s - {(k, i). x = S_reset k i}) \<longleftrightarrow> (l, j) \<in> us_hurt s" using x False by auto
    have "un_board u l j = un_board (us_un s) l j" "is_off u l j = is_off (us_un s) l j" "is_masked u l j = is_masked (us_un s) l j"
      using e False the_units_max [OF l] by blast+
    moreover have "sect_unit x \<noteq> (l, j)" using x False by metis
    note iffD1 [OF unit_ok_other [OF this] units_invD(1) [OF inv l, unfolded todo]]
    ultimately show ?thesis unfolding h by simp
  qed
  moreover have "us_hurt s - {(k, i). x = S_reset k i} \<subseteq> the_units (us_un s)" "sect_unit ` set xs \<subseteq> the_units (us_un s)"
    using units_inv_parts(4,5) [OF inv] todo by auto
  ultimately show ?thesis by (intro units_invI [OF inv sd conjunct1 [OF e] todo_ok_tl [OF t(1)]])
qed

lemma cuen_effect:
  assumes "masks_ok u"
  shows "masks_ok (kl2_sse_set_cuen_cu_disable_mask m u)" "same_device u (kl2_sse_set_cuen_cu_disable_mask m u)"
    "un_board (kl2_sse_set_cuen_cu_disable_mask m u) = un_board u" "is_off (kl2_sse_set_cuen_cu_disable_mask m u) = is_off u"
    "is_masked (kl2_sse_set_cuen_cu_disable_mask m u) = is_masked u"
proof -
  let ?u = "kl2_sse_set_cuen_cu_disable_mask m u"
  show sd: "same_device u ?u" and "un_board ?u = un_board u" "is_off ?u = is_off u" "is_masked ?u = is_masked u"
    by (simp_all add: kl2_sse_set_cuen_cu_disable_mask_def write_disable_def emit_def same_device_def Let_def is_off_def is_masked_def fun_eq_iff)
  show "masks_ok ?u" unfolding masks_ok_def same_device_valid [OF sd]
    using assms by (simp add: masks_ok_def kl2_sse_set_cuen_cu_disable_mask_def write_disable_def emit_def Let_def and.assoc)
qed

lemma fresh_inv: "units_fresh u \<Longrightarrow> units_inv \<lparr>us_un = u, us_todo = [], us_hurt = {}\<rparr>"
  by (auto simp: units_fresh_def units_inv_def masks_ok_def the_units_def counts_def clear_board_def is_off_def is_masked_def)

lemma reach_inv:
  assumes "units_fresh u0" and "unit_reach u0 s"
  shows "units_inv s"
  using assms(2)
proof induction
  case ur_start show ?case by (rule fresh_inv [OF assms(1)])
next
  case ur_irq then show ?case by (intro irq_inv)
next
  case ur_timeout then show ?case by (intro timeout_inv)
next
  case (ur_cuen s m)
  then have "masks_ok (us_un s)" by (simp add: units_inv_def)
  note c = cuen_effect [OF this, of m]
  have "un_pf (kl2_sse_set_cuen_cu_disable_mask m (us_un s)) = un_pf (us_un s)" using c(2) by (simp add: same_device_def)
  then show ?case using ur_cuen.IH c by (simp add: units_inv_def)
next
  case (ur_dev s ops w err b d)
  have "same_masks (us_un s) ((us_un s)\<lparr>un_dev := d, un_running := b, un_errno := err, un_work := w, un_ops := ops\<rparr>)" by (simp add: same_masks_def same_device_def)
  from same_masks_keeps [OF this] ur_dev.IH show ?case by (simp add: units_inv_def)
next
  case (ur_plan s i k busy hwq_id)
  let ?plan = "unit_plan (un_vf (us_un s)) (un_board (us_un s) k i) k i busy hwq_id"
  have "unit_ok l j (counts (un_board (us_un s) l j)) (is_off (us_un s) l j) (is_masked (us_un s) l j) ?plan ((l, j) \<in> us_hurt s)"
    if "(l, j) \<in> the_units (us_un s)" for l j
    using units_invD(1) [OF ur_plan.IH that] plan_other [of l j k i] plan_ok ur_plan.hyps(2) by (cases "(l, j) = (k, i)") auto
  moreover have "sect_unit ` set ?plan \<subseteq> the_units (us_un s)"
    using plan_unit ur_plan.hyps(3) by (force simp: the_units_def)
  ultimately show ?case using ur_plan.IH plan_todo by (auto simp: units_inv_def)
next
  case ur_work then show ?case by (intro work_inv)
qed

end
