(* ===== verification/Kl2_Unit_Pass.thy ===== *)
theory Kl2_Unit_Pass
  imports Kl2_Unit_Inv
begin

text \<open>
  What the invariant says about the registers, and what one pass of the work item over the units does when
  nothing comes between its steps.
\<close>

section \<open>What the masks mean\<close>

lemma off_disabled:
  assumes "masks_ok u" "i \<in> set (valid_units u k)" "is_off u k i"
  shows "bit (un_disable u) (cu_pos k i)"
proof -
  have "bit (0x003f00ff :: 32 word) (cu_pos k i)" using valid_max [OF assms(2)] bit_all_units by blast
  then show ?thesis using assms(1,3) by (simp add: masks_ok_def is_off_def bit_and_iff bit_or_iff)
qed

lemma nothing_off:
  assumes "masks_ok u" "\<And>k i. i \<in> set (valid_units u k) \<Longrightarrow> \<not> is_off u k i"
  shows "un_excp_mask u = 0" "un_disable u = un_cuen_mask u"
proof -
  show "un_excp_mask u = 0"
    by (rule bit_eqI) (use assms in \<open>auto simp: masks_ok_def is_off_def\<close>)
  then show "un_disable u = un_cuen_mask u" using assms(1) by (simp add: masks_ok_def)
qed

lemma idle_unit:
  assumes "unit_ok k i (counts b) off masked [] hurt"
  shows "unit_pending b \<longleftrightarrow> off" "\<not> unit_pending b \<Longrightarrow> \<not> off \<and> \<not> masked \<and> \<not> hurt"
  using assms by (auto simp: counts_def unit_pending_def)

lemma idle_pending:
  assumes inv: "units_inv s" and idle: "us_todo s = []" and v: "i \<in> set (valid_units (us_un s) k)"
    and p: "\<not> unit_pending (un_board (us_un s) k i)"
  shows "\<not> is_off (us_un s) k i" "\<not> is_masked (us_un s) k i"
proof -
  have "(k, i) \<in> the_units (us_un s)" using v by (simp add: the_units_def)
  from idle_unit [OF units_invD(1) [OF inv this, unfolded idle]] p
  show "\<not> is_off (us_un s) k i" "\<not> is_masked (us_un s) k i" by blast+
qed

lemma inv_safe:
  assumes inv: "units_inv s"
  shows "(\<forall>(k, i)\<in>us_hurt s. i \<in> set (valid_units (us_un s) k) \<and> unit_pending (un_board (us_un s) k i) \<and>
      bit (un_disable (us_un s)) (cu_pos k i) \<and> bit (un_int_mask (us_un s) (int_source k)) (i * 2 + 1))"
    and "\<forall>k. \<forall>i\<in>set (valid_units (us_un s) k).
      unit_pending (un_board (us_un s) k i) \<longrightarrow> bit (un_disable (us_un s)) (cu_pos k i)"
    and "us_todo s = [] \<Longrightarrow> \<forall>k. \<forall>i\<in>set (valid_units (us_un s) k). \<not> unit_pending (un_board (us_un s) k i) \<Longrightarrow>
      un_disable (us_un s) = un_cuen_mask (us_un s) \<and>
      (\<forall>k. \<forall>i\<in>set (valid_units (us_un s) k). \<not> bit (un_int_mask (us_un s) (int_source k)) (i * 2 + 1))"
proof -
  note p = units_inv_parts [OF inv]
  have unit: "(unit_pending (un_board (us_un s) k i) \<longrightarrow> is_off (us_un s) k i) \<and>
      ((k, i) \<in> us_hurt s \<longrightarrow> unit_pending (un_board (us_un s) k i) \<and> is_masked (us_un s) k i)"
    if "(k, i) \<in> the_units (us_un s)" for k i
    using units_invD(1) [OF inv that] by (auto simp: counts_def unit_pending_def)
  show 2: "\<forall>k. \<forall>i\<in>set (valid_units (us_un s) k).
      unit_pending (un_board (us_un s) k i) \<longrightarrow> bit (un_disable (us_un s)) (cu_pos k i)"
    using unit off_disabled [OF p(2)] by (simp add: the_units_def)
  show "\<forall>(k, i)\<in>us_hurt s. i \<in> set (valid_units (us_un s) k) \<and> unit_pending (un_board (us_un s) k i) \<and>
      bit (un_disable (us_un s)) (cu_pos k i) \<and> bit (un_int_mask (us_un s) (int_source k)) (i * 2 + 1)"
  proof (intro ballI case_prodI2)
    fix x k i assume x: "x \<in> us_hurt s" "x = (k, i)"
    then have u: "(k, i) \<in> the_units (us_un s)" using p(5) by blast
    then have v: "i \<in> set (valid_units (us_un s) k)" by (simp add: the_units_def)
    with unit [OF u] x 2 show "i \<in> set (valid_units (us_un s) k) \<and> unit_pending (un_board (us_un s) k i) \<and>
      bit (un_disable (us_un s)) (cu_pos k i) \<and> bit (un_int_mask (us_un s) (int_source k)) (i * 2 + 1)"
      by (simp add: is_masked_def)
  qed
  show "un_disable (us_un s) = un_cuen_mask (us_un s) \<and>
      (\<forall>k. \<forall>i\<in>set (valid_units (us_un s) k). \<not> bit (un_int_mask (us_un s) (int_source k)) (i * 2 + 1))"
    if "us_todo s = []" "\<forall>k. \<forall>i\<in>set (valid_units (us_un s) k). \<not> unit_pending (un_board (us_un s) k i)"
    using nothing_off(2) [OF p(2)] idle_pending [OF inv that(1)] that(2) by (simp add: is_masked_def)
qed

section \<open>A pass over the units\<close>

text \<open>A run of the steps for one unit, on its own.\<close>

lemma sects_run:
  assumes "units_inv \<lparr>us_un = u, us_todo = xs, us_hurt = H\<rparr>" "over_units exec_sect xs u = Some u'"
  shows "\<exists>H'. units_inv \<lparr>us_un = u', us_todo = [], us_hurt = H'\<rparr>"
  using assms
proof (induction xs arbitrary: u H)
  case Nil then show ?case by auto
next
  case (Cons x xs)
  from Cons.prems(2) obtain u1 where u1: "exec_sect x u = Some u1" "over_units exec_sect xs u1 = Some u'"
    unfolding over_units.simps bind_eq_Some_conv by blast
  have "units_inv \<lparr>us_un = u1, us_todo = xs, us_hurt = H - {(k, i). x = S_reset k i}\<rparr>"
    using work_inv [OF Cons.prems(1) _ ] u1(1) by simp
  from Cons.IH [OF this u1(2)] show ?case .
qed

lemma plan_inv:
  assumes inv: "units_inv \<lparr>us_un = u, us_todo = [], us_hurt = H\<rparr>" and i: "i \<in> set (valid_units u k)"
  shows "units_inv \<lparr>us_un = u, us_todo = unit_plan (un_vf u) (un_board u k i) k i busy hwq_id, us_hurt = H\<rparr>"
proof -
  let ?s = "\<lparr>us_un = u, us_todo = [], us_hurt = H\<rparr>" and ?plan = "unit_plan (un_vf u) (un_board u k i) k i busy hwq_id"
  note p = units_inv_parts [OF inv, unfolded unit_sys.select_convs]
  show ?thesis
  proof (rule units_invI [OF inv, unfolded unit_sys.select_convs])
    show "sect_unit ` set ?plan \<subseteq> the_units u" using plan_unit i by (force simp: the_units_def)
    show "unit_ok l j (counts (un_board u l j)) (is_off u l j) (is_masked u l j) ?plan ((l, j) \<in> H)"
      if "(l, j) \<in> the_units u" for l j
      using units_invD(1) [OF inv, unfolded unit_sys.select_convs, OF that] plan_other [of l j k i] plan_ok
      by (cases "(l, j) = (k, i)") auto
  qed (use p plan_todo in simp_all)
qed

text \<open>Outside of a virtual function the steps always go through; only those for the unit change its board.\<close>

lemma sects_total:
  "\<forall>x\<in>set xs. \<forall>k i h. x \<noteq> S_account k i h \<Longrightarrow> \<exists>u'. over_units exec_sect xs u = Some u'"
proof (induction xs arbitrary: u)
  case (Cons x xs)
  then obtain u1 where "exec_sect x u = Some u1" by (cases x) auto
  with Cons show ?case by simp
qed simp

fun resets_of :: "unit_op list \<Rightarrow> (unit_kind \<times> nat) list" where
  "resets_of [] = []"
| "resets_of (ResetUnit k i # ops) = (k, i) # resets_of ops"
| "resets_of (_ # ops) = resets_of ops"

lemma resets_append [simp]: "resets_of (xs @ ys) = resets_of xs @ resets_of ys"
  by (induction xs rule: resets_of.induct) simp_all

fun queue_ops :: "unit_op list \<Rightarrow> hw_op list" where
  "queue_ops [] = []"
| "queue_ops (QueueOp op # ops) = op # queue_ops ops"
| "queue_ops (_ # ops) = queue_ops ops"

lemma queue_ops_append [simp]: "queue_ops (xs @ ys) = queue_ops xs @ queue_ops ys"
  by (induction xs rule: queue_ops.induct) simp_all

lemma queue_ops_map [simp]: "queue_ops (map QueueOp ops) = ops"
  by (induction ops) simp_all

lemma exec_sect_frame:
  assumes "exec_sect x u = Some u'" "\<forall>k i h. x \<noteq> S_account k i h"
  shows "un_dev u' = un_dev u" "un_vf u' = un_vf u" "un_default_cuen u' = un_default_cuen u"
    "sect_unit x \<noteq> (l, j) \<Longrightarrow> un_board u' l j = un_board u l j"
    "resets_of (un_ops u') = resets_of (un_ops u) @ (case x of S_reset k i \<Rightarrow> [(k, i)] | _ \<Rightarrow> [])"
    "queue_ops (un_ops u') = queue_ops (un_ops u)"
  using assms
  by (cases x; auto simp: emit_def upd_unit_def kl2_intc_int_unmask_def kl2_intc_set_int_mask_def kl2_sse_excp_enable_def
    write_disable_def Let_def)+


lemma exec_sect_board:
  "exec_sect x u = Some u' \<Longrightarrow> \<forall>k i h. x \<noteq> S_account k i h \<Longrightarrow>
    un_board u' k i = (if x = S_clear k i then clear_board else un_board u k i)"
  by (cases x) (auto simp: emit_def upd_unit_def kl2_intc_int_unmask_def kl2_intc_set_int_mask_def kl2_sse_excp_enable_def
    write_disable_def Let_def)

definition sect_resets :: "unit_sect list \<Rightarrow> (unit_kind \<times> nat) list" where
  "sect_resets xs = concat (map (\<lambda>x. case x of S_reset k i \<Rightarrow> [(k, i)] | _ \<Rightarrow> []) xs)"

lemma sects_frame:
  assumes "over_units exec_sect xs u = Some u'" "\<forall>x\<in>set xs. \<forall>k i h. x \<noteq> S_account k i h"
  shows "un_dev u' = un_dev u \<and> un_vf u' = un_vf u \<and> un_default_cuen u' = un_default_cuen u \<and>
    resets_of (un_ops u') = resets_of (un_ops u) @ sect_resets xs \<and> queue_ops (un_ops u') = queue_ops (un_ops u) \<and>
    (\<forall>k i. un_board u' k i = (if S_clear k i \<in> set xs then clear_board else un_board u k i))"
  using assms
proof (induction xs arbitrary: u)
  case Nil then show ?case by (simp add: sect_resets_def)
next
  case (Cons x xs)
  from Cons.prems(1) obtain u1 where u1: "exec_sect x u = Some u1" "over_units exec_sect xs u1 = Some u'"
    unfolding over_units.simps bind_eq_Some_conv by blast
  have x: "\<forall>k i h. x \<noteq> S_account k i h" and xs: "\<forall>x\<in>set xs. \<forall>k i h. x \<noteq> S_account k i h"
    using Cons.prems(2) by auto
  note f = exec_sect_frame(1,2,3,5,6) [OF u1(1) x] and b = exec_sect_board [OF u1(1) x] and IH = Cons.IH [OF u1(2) xs]
  have "un_board u' k i = (if S_clear k i \<in> set (x # xs) then clear_board else un_board u k i)" for k i
    using IH b [of k i] by auto
  then show ?case using IH f by (simp add: sect_resets_def)
qed

text \<open>What the registers and the board of a unit ask for.\<close>

definition resets_due :: "kl2_unit_board \<Rightarrow> nat \<Rightarrow> unit_kind \<times> nat \<Rightarrow> (unit_kind \<times> nat) list" where
  "resets_due b busy_token ki =
     (if ub_reset_cnt b < ub_excp_cnt b then [ki] else []) @
     (if ub_timeout_reset_cnt b < ub_timeout_cnt b \<and> busy_token = ub_timeout_token b then [ki] else [])"

lemma plan_facts:
  "\<forall>x\<in>set (unit_plan False b k i busy_token hwq_id). \<forall>l j h. x \<noteq> S_account l j h"
  "sect_resets (unit_plan False b k i busy_token hwq_id) = resets_due b busy_token (k, i)"
  "S_clear l j \<in> set (unit_plan False b k i busy_token hwq_id) \<longleftrightarrow> (l, j) = (k, i) \<and> unit_pending b"
  by (auto simp: unit_plan_def reset_sects_def sect_resets_def resets_due_def unit_pending_def)

lemma recover_effect:
  assumes inv: "units_inv \<lparr>us_un = u, us_todo = [], us_hurt = H\<rparr>" and i: "i \<in> set (valid_units u k)" and vf: "\<not> un_vf u"
  shows "\<exists>u' H'. recover_unit busy hwq_id (k, i) u = Some u' \<and> units_inv \<lparr>us_un = u', us_todo = [], us_hurt = H'\<rparr> \<and>
    un_dev u' = un_dev u \<and> un_vf u' = un_vf u \<and> un_default_cuen u' = un_default_cuen u \<and>
    resets_of (un_ops u') = resets_of (un_ops u) @ resets_due (un_board u k i) (busy k i) (k, i) \<and>
    queue_ops (un_ops u') = queue_ops (un_ops u) \<and>
    \<not> unit_pending (un_board u' k i) \<and> (\<forall>l j. (l, j) \<noteq> (k, i) \<longrightarrow> un_board u' l j = un_board u l j)"
proof -
  let ?plan = "unit_plan False (un_board u k i) k i (busy k i) (hwq_id k i)"
  obtain u' where u': "over_units exec_sect ?plan u = Some u'" using sects_total [OF plan_facts(1)] by blast
  have r: "recover_unit busy hwq_id (k, i) u = Some u'" using u' vf by (simp add: recover_unit_def)
  have "units_inv \<lparr>us_un = u, us_todo = ?plan, us_hurt = H\<rparr>" using plan_inv [OF inv i] vf by simp
  from sects_run [OF this u'] obtain H' where H': "units_inv \<lparr>us_un = u', us_todo = [], us_hurt = H'\<rparr>" by blast
  have "\<not> unit_pending (un_board u' k i)" "\<forall>l j. (l, j) \<noteq> (k, i) \<longrightarrow> un_board u' l j = un_board u l j"
    using sects_frame [OF u' plan_facts(1)] by (auto simp: plan_facts unit_pending_def clear_board_def)
  with r H' sects_frame [OF u' plan_facts(1)] show ?thesis unfolding plan_facts(2) by blast
qed

lemma recovers_effect:
  assumes "units_inv \<lparr>us_un = u, us_todo = [], us_hurt = H\<rparr>" and "\<forall>(k, i)\<in>set xs. i \<in> set (valid_units u k)"
    and "distinct xs" and "\<not> un_vf u"
  shows "\<exists>u' H'. over_units (recover_unit busy hwq_id) xs u = Some u' \<and> units_inv \<lparr>us_un = u', us_todo = [], us_hurt = H'\<rparr> \<and>
    un_dev u' = un_dev u \<and> un_default_cuen u' = un_default_cuen u \<and>
    resets_of (un_ops u') = resets_of (un_ops u) @ concat (map (\<lambda>(k, i). resets_due (un_board u k i) (busy k i) (k, i)) xs) \<and>
    un_vf u' = un_vf u \<and> queue_ops (un_ops u') = queue_ops (un_ops u) \<and>
    (\<forall>(k, i)\<in>set xs. \<not> unit_pending (un_board u' k i)) \<and> (\<forall>l j. (l, j) \<notin> set xs \<longrightarrow> un_board u' l j = un_board u l j)"
  using assms
proof (induction xs arbitrary: u H)
  case Nil then show ?case by auto
next
  case (Cons x xs)
  obtain k i where x: "x = (k, i)" by (cases x)
  have i: "i \<in> set (valid_units u k)" using Cons.prems(2) x by simp
  from recover_effect [OF Cons.prems(1) i Cons.prems(4), of busy hwq_id] obtain u1 H1 where u1:
    "recover_unit busy hwq_id (k, i) u = Some u1" "units_inv \<lparr>us_un = u1, us_todo = [], us_hurt = H1\<rparr>"
    "un_dev u1 = un_dev u" "un_vf u1 = un_vf u" "un_default_cuen u1 = un_default_cuen u"
    "resets_of (un_ops u1) = resets_of (un_ops u) @ resets_due (un_board u k i) (busy k i) (k, i)"
    "\<not> unit_pending (un_board u1 k i)" "\<And>l j. (l, j) \<noteq> (k, i) \<Longrightarrow> un_board u1 l j = un_board u l j"
    "queue_ops (un_ops u1) = queue_ops (un_ops u)"
    by blast
  have vu: "valid_units u1 l = valid_units u l" for l
    using u1(5) by (cases l) (simp_all add: valid_units_def cluster_invalid_def sdnn_invalid_def)
  have d: "distinct xs" "(k, i) \<notin> set xs" using Cons.prems(3) x by simp_all
  have v: "\<forall>(k, i)\<in>set xs. i \<in> set (valid_units u1 k)" using Cons.prems(2) vu by simp
  have nvf: "\<not> un_vf u1" using u1(4) Cons.prems(4) by simp
  from Cons.IH [OF u1(2) v d(1) nvf] obtain u' H' where u': "over_units (recover_unit busy hwq_id) xs u1 = Some u'"
    "units_inv \<lparr>us_un = u', us_todo = [], us_hurt = H'\<rparr>"
    "un_dev u' = un_dev u1" "un_default_cuen u' = un_default_cuen u1"
    "resets_of (un_ops u') = resets_of (un_ops u1) @ concat (map (\<lambda>(k, i). resets_due (un_board u1 k i) (busy k i) (k, i)) xs)"
    "\<forall>(k, i)\<in>set xs. \<not> unit_pending (un_board u' k i)" "\<And>l j. (l, j) \<notin> set xs \<Longrightarrow> un_board u' l j = un_board u1 l j"
    "un_vf u' = un_vf u1" "queue_ops (un_ops u') = queue_ops (un_ops u1)"
    by blast
  have eq: "map (\<lambda>(k, i). resets_due (un_board u1 k i) (busy k i) (k, i)) xs = map (\<lambda>(k, i). resets_due (un_board u k i) (busy k i) (k, i)) xs"
  proof (intro map_cong refl)
    fix y assume y: "y \<in> set xs"
    obtain l j where "y = (l, j)" by (cases y)
    with y d(2) have "un_board u1 l j = un_board u l j" by (intro u1(8)) auto
    with \<open>y = (l, j)\<close> show "(case y of (k, i) \<Rightarrow> resets_due (un_board u1 k i) (busy k i) (k, i)) =
      (case y of (k, i) \<Rightarrow> resets_due (un_board u k i) (busy k i) (k, i))" by simp
  qed
  have "over_units (recover_unit busy hwq_id) (x # xs) u = Some u'" using u1(1) u'(1) x by simp
  moreover have "un_dev u' = un_dev u" "un_default_cuen u' = un_default_cuen u" "un_vf u' = un_vf u"
    "queue_ops (un_ops u') = queue_ops (un_ops u)" using u1(3-5,9) u'(3,4,8,9) by simp_all
  moreover have "resets_of (un_ops u') = resets_of (un_ops u) @ concat (map (\<lambda>(k, i). resets_due (un_board u k i) (busy k i) (k, i)) (x # xs))"
    using u1(6) u'(5) eq x by simp
  moreover have "\<forall>(k, i)\<in>set (x # xs). \<not> unit_pending (un_board u' k i)"
    using u'(6) u'(7) [OF d(2)] u1(7) x by auto
  moreover have "\<forall>l j. (l, j) \<notin> set (x # xs) \<longrightarrow> un_board u' l j = un_board u l j"
    using u'(7) u1(8) x by auto
  ultimately show ?case using u'(2) by blast
qed

lemma all_units_iff: "(k, i) \<in> set (all_units u) \<longleftrightarrow> i \<in> set (valid_units u k)"
  by (cases k) (auto simp: all_units_def)

lemma all_units_distinct: "distinct (all_units u)"
  by (auto simp: all_units_def valid_units_def distinct_map inj_on_def)

end
