(* ===== verification/Kl2_Work_Tasks.thy ===== *)
theory Kl2_Work_Tasks
  imports Kl2_Recovery
begin

text \<open>
  The task side of the work item as a whole: it returns, keeps what the task path keeps, clears the board of
  every queue in use and leaves the hardware with the running lists.
\<close>

section \<open>Frames\<close>

definition boards_kept :: "kl2_dev \<Rightarrow> kl2_dev \<Rightarrow> bool" where
  "boards_kept d d' \<longleftrightarrow> d2_board d' = d2_board d \<and> d2_hwq_bitmap d' = d2_hwq_bitmap d"

lemma boards_kept_refl [simp]: "boards_kept d d"
  by (simp add: boards_kept_def)

lemma boards_kept_trans: "boards_kept a b \<Longrightarrow> boards_kept b c \<Longrightarrow> boards_kept a c"
  by (simp add: boards_kept_def)

lemma upd_boards:
  "boards_kept d (upd_hwq d i f)" "upd_sess d s g = Some d' \<Longrightarrow> boards_kept d d'" "upd_uproc d u h = Some d' \<Longrightarrow> boards_kept d d'"
  by (auto simp: boards_kept_def upd_hwq_def upd_sess_def upd_uproc_def)

lemma bind_boards:
  assumes "kl2_session_bind_hwq d s = Some d'" shows "boards_kept d d'"
proof -
  obtain x where "d2_sess d s = Some x" using assms unfolding kl2_session_bind_hwq_def bind_eq_Some_conv by blast
  with assms show ?thesis
    by (cases "s2_hwq x") (auto simp: kl2_session_bind_hwq_def Let_def upd_hwq_def boards_kept_def upd_sess_def)
qed

lemma evnt_put_boards:
  assumes "evnt_put d e = Some d'" shows "boards_kept d d'"
proof -
  obtain v where "d2_evnt d e = Some v" using assms unfolding evnt_put_def bind_eq_Some_conv by blast
  with assms show ?thesis
    by (cases "ev_refs v = 1")
      (auto simp: evnt_put_def kl2_destroy_event_ref_def upd_evnt_def upd_uproc_def boards_kept_def bind_eq_Some_conv)
qed

lemma event_list_boards: "kl2_destroy_uproc_event_list d es = Some d' \<Longrightarrow> boards_kept d d'"
  by (induction d es rule: kl2_destroy_uproc_event_list.induct)
    (auto simp: bind_eq_Some_conv dest: evnt_put_boards intro: boards_kept_trans)

lemma uproc_put_boards:
  assumes "uproc_put d u = Some d'" shows "boards_kept d d'"
proof -
  obtain p where p: "d2_uproc d u = Some p" using assms unfolding uproc_put_def bind_eq_Some_conv by blast
  show ?thesis
  proof (cases "up_refs p = 1")
    case False with p assms upd_boards(3) show ?thesis by (simp add: uproc_put_def)
  next
    case True
    with p assms obtain d2 where "kl2_destroy_uproc_event_list (d\<lparr>d2_uproc_idr := idr_remove (d2_uproc_idr d) (up_pid p)\<rparr>)
        (up_event_list p) = Some d2" "d' = d2\<lparr>d2_uproc := (d2_uproc d2)(u := None)\<rparr>"
      by (auto simp: uproc_put_def kl2_destroy_userprocess_ref_def Let_def bind_eq_Some_conv)
    with event_list_boards [of "d\<lparr>d2_uproc_idr := idr_remove (d2_uproc_idr d) (up_pid p)\<rparr>"] show ?thesis
      by (auto simp: boards_kept_def)
  qed
qed

lemma sess_put_boards:
  assumes "sess_put d s = Some d'" shows "boards_kept d d'"
proof -
  obtain x where x: "d2_sess d s = Some x"
    "(if s2_refs x = 1 then kl2_destroy_session_ref d s else upd_sess d s (\<lambda>x. x\<lparr>s2_refs := s2_refs x - 1\<rparr>)) = Some d'"
    using assms unfolding sess_put_def bind_eq_Some_conv by blast
  show ?thesis
  proof (cases "s2_refs x = 1")
    case False with x upd_boards(2) show ?thesis by simp
  next
    case True
    with x obtain d2 d4 where d: "kl2_session_release_hwq_locked (d\<lparr>d2_session_idr := idr_remove (d2_session_idr d) (s2_id x)\<rparr>) s = Some d2"
      "uproc_put (d2\<lparr>d2_mm_calls := d2_mm_calls d2 @ [MmFreeByOwner s]\<rparr>) (s2_uproc x) = Some d4" "d' = d4\<lparr>d2_sess := (d2_sess d4)(s := None)\<rparr>"
      by (auto simp: kl2_destroy_session_ref_def Let_def bind_eq_Some_conv)
    have "boards_kept d d2"
      using d(1) by (auto simp: kl2_session_release_hwq_locked_def bind_eq_Some_conv boards_kept_def upd_hwq_def split: option.splits)
    with uproc_put_boards [OF d(2)] d(3) show ?thesis by (simp add: boards_kept_def)
  qed
qed

lemma revoke_boards: "revoke_task_from_err_session_locked d i = Some d' \<Longrightarrow> boards_kept d d'"
  by (auto simp: revoke_task_from_err_session_locked_def Let_def bind_eq_Some_conv boards_kept_def upd_hwq_def)

text \<open>A reset clears the board of its queue and no other.\<close>

lemma reset_queue_boards:
  assumes "reset_queue d i = Some (d', ops)"
  shows "d2_hwq_bitmap d' = d2_hwq_bitmap d" "d2_board d' = (d2_board d)[i := board_zero]"
proof -
  let ?e = "excp_task d i"
  from assms obtain d1 d2 again q w d4 where
    1: "(case ?e of None \<Rightarrow> Some d | Some task \<Rightarrow> do {
       d1 \<leftarrow> sess_get d (tk_sess task);
       upd_sess d1 (tk_sess task) (\<lambda>x. kl2_session_mark_error x (Some XPUERR_KEXCEPTION) False) }) = Some d1"
    and 2: "revoke_task_from_err_session_locked d1 i = Some d2"
    and 4: "(case ?e of None \<Rightarrow> Some (upd_hwq d2 i (\<lambda>_. q)) | Some task \<Rightarrow> sess_put (upd_hwq d2 i (\<lambda>_. q)) (tk_sess task)) = Some d4"
    and d': "d' = upd_board (upd_hwq d4 i (\<lambda>q. q\<lparr>hq_finish_work := True\<rparr>)) i (\<lambda>_. board_zero)"
    unfolding reset_queue_def Let_def excp_task_def [symmetric] board_zero_def [symmetric] bind_eq_Some_conv
    by (auto simp: bind_eq_Some_conv)
  have "boards_kept d d1"
    using 1 by (auto simp: bind_eq_Some_conv sess_get_def split: option.splits dest!: upd_boards(2) intro: boards_kept_trans)
  moreover have "boards_kept d1 d2" by (rule revoke_boards [OF 2])
  moreover have "boards_kept d2 d4"
  proof (cases ?e)
    case None with 4 upd_boards(1) show ?thesis by auto
  next
    case (Some t)
    with 4 have "boards_kept (upd_hwq d2 i (\<lambda>_. q)) d4" by (auto intro: sess_put_boards)
    then show ?thesis by (rule boards_kept_trans [OF upd_boards(1)])
  qed
  ultimately have "boards_kept d d4" using boards_kept_trans by blast
  then show "d2_hwq_bitmap d' = d2_hwq_bitmap d" "d2_board d' = (d2_board d)[i := board_zero]"
    unfolding d' by (simp_all add: boards_kept_def upd_board_def upd_hwq_def)
qed


section \<open>The part of the work item after the units are idle\<close>

text \<open>Spreading the error keeps the set of queues in use.\<close>

definition queues_kept :: "kl2_dev \<Rightarrow> kl2_dev \<Rightarrow> bool" where
  "queues_kept d d' \<longleftrightarrow> d2_hwq_bitmap d' = d2_hwq_bitmap d"

lemma boards_queues: "boards_kept d d' \<Longrightarrow> queues_kept d d'"
  by (simp add: boards_kept_def queues_kept_def)

lemma queues_kept_trans: "queues_kept a b \<Longrightarrow> queues_kept b c \<Longrightarrow> queues_kept a c"
  by (simp add: queues_kept_def)

lemma queues_kept_valid: "queues_kept d d' \<Longrightarrow> valid_queues d' = valid_queues d"
  by (simp add: queues_kept_def valid_queues_def)

lemma taint_hwq_queues: "kl2_excp_taint_hwq d s = Some d' \<Longrightarrow> queues_kept d d'"
  by (auto simp: kl2_excp_taint_hwq_def bind_eq_Some_conv queues_kept_def upd_board_def boards_kept_def dest!: bind_boards)

lemma taint_sessions_queues: "taint_sessions d u e idr = Some d' \<Longrightarrow> queues_kept d d'"
proof (induction d u e idr rule: taint_sessions.induct)
  case (1 d u e) then show ?case by (simp add: queues_kept_def)
next
  case (2 d u e sid s idr)
  from 2 obtain x where x: "d2_sess d s = Some x" by (auto simp: bind_eq_Some_conv)
  show ?case
  proof (cases "s2_uproc x = u \<and> s \<noteq> e")
    case False
    with x "2.prems" have "taint_sessions d u e idr = Some d'" by (auto split: if_splits)
    from "2.IH"(2) [OF x False this] show ?thesis .
  next
    case True
    with x "2.prems" obtain d1 d2 where d: "upd_sess d s (\<lambda>x. kl2_session_mark_error x (Some XPUERR_EVENTWAIT) True) = Some d1"
      "kl2_excp_taint_hwq d1 s = Some d2" "taint_sessions d2 u e idr = Some d'"
      by (auto simp: bind_eq_Some_conv)
    from queues_kept_trans [OF boards_queues [OF upd_boards(2) [OF d(1)]] queues_kept_trans [OF taint_hwq_queues [OF d(2)] "2.IH"(1) [OF x True d]]]
    show ?thesis .
  qed
qed

lemma taint_from_queue_queues:
  assumes "taint_from_queue d i = Some d'" shows "queues_kept d d'"
proof (cases "eb_excp_cnt (d2_board d ! i) = 0 \<or> kl2_excp_find_sess_tainting_from d i = None")
  case True with assms show ?thesis by (auto simp: taint_from_queue_def queues_kept_def split: if_splits)
next
  case False
  then obtain s where s: "kl2_excp_find_sess_tainting_from d i = Some s" by blast
  with False assms obtain d1 where d1: "upd_sess d s (\<lambda>x. kl2_session_mark_error x (Some XPUERR_KEXCEPTION) False) = Some d1"
    "kl2_excp_taint_uproc_sess d1 s = Some d'"
    by (auto simp: taint_from_queue_def bind_eq_Some_conv)
  from d1(2) have "queues_kept d1 d'"
    by (auto simp: kl2_excp_taint_uproc_sess_def bind_eq_Some_conv queues_kept_def upd_uproc_def split: if_splits
      dest!: taint_sessions_queues)
  with queues_kept_trans [OF boards_queues [OF upd_boards(2) [OF d1(1)]]] show ?thesis by blast
qed

lemma convert_taint_queues: "convert_taint d idr = Some d' \<Longrightarrow> queues_kept d d'"
proof (induction d idr rule: convert_taint.induct)
  case (1 d) then show ?case by (simp add: queues_kept_def)
next
  case (2 d sid s idr)
  then obtain x d1 where x: "d2_sess d s = Some x" and d1: "(if s2_taint_state x \<noteq> KL2_SESS_NORMAL
      then upd_sess d s (\<lambda>x. kl2_session_mark_error x (s2_taint_errno x) True) else Some d) = Some d1"
    "convert_taint d1 idr = Some d'"
    unfolding convert_taint.simps bind_eq_Some_conv by blast
  have "queues_kept d d1"
    by (cases "s2_taint_state x = KL2_SESS_NORMAL") (use d1(1) boards_queues upd_boards(2) in \<open>auto simp: queues_kept_def\<close>)
  from queues_kept_trans [OF this "2.IH" [OF x d1]] show ?case .
qed

lemma idr_live_sess: "dev_ok d hw H C W \<Longrightarrow> snd ` set (d2_session_idr d) \<subseteq> dom (d2_sess d)"
  using idr_live_all [of "d2_session_idr d" "d2_sess d" s2_id] dev_okD(3) by (simp add: tables_def)

lemma taint_queues_ok:
  "dev_ok d hw H C W \<Longrightarrow> \<forall>i\<in>set is. i < KL2_HWQ_CNT \<Longrightarrow>
   \<exists>d'. over_queues taint_from_queue d is = Some d' \<and> dev_ok d' hw H C W \<and> queues_kept d d'"
proof (induction "is" arbitrary: d)
  case Nil then show ?case by (auto simp: queues_kept_def)
next
  case (Cons i "is")
  then obtain d1 where d1: "taint_from_queue d i = Some d1" "dev_ok d1 hw H C W" using taint_from_queue_ok by fastforce
  with Cons obtain d' where "over_queues taint_from_queue d1 is = Some d'" "dev_ok d' hw H C W" "queues_kept d1 d'" by fastforce
  with d1 taint_from_queue_queues [OF d1(1)] queues_kept_trans show ?case by fastforce
qed

text \<open>After the boards have been settled, what is left on one is a reason for a reset.\<close>

definition board_idle :: "kl2_board \<Rightarrow> bool" where
  "board_idle b \<longleftrightarrow> eb_excp_cnt b = 0 \<and> eb_taint_2_reset_cnt b = 0 \<and> eb_taint_cnt b = 0"

definition board_settled :: "kl2_board \<Rightarrow> bool" where
  "board_settled b \<longleftrightarrow> eb_excp_cnt b = 0 \<and> eb_taint_2_reset_cnt b = 0 \<longrightarrow> eb_taint_cnt b = 0"

lemma settle_board_effect:
  assumes "i < length (d2_board d)" "z i"
  shows "board_settled (d2_board (settle_board z d i) ! i)" "j \<noteq> i \<Longrightarrow> d2_board (settle_board z d i) ! j = d2_board d ! j"
    "length (d2_board (settle_board z d i)) = length (d2_board d)" "queues_kept d (settle_board z d i)"
  using assms by (auto simp: settle_board_def Let_def upd_board_def board_settled_def u32_id queues_kept_def)

lemma settle_all:
  assumes "dev_ok d hw H C W" "\<forall>i\<in>set is. i < KL2_HWQ_CNT \<and> z i"
  shows "dev_ok (foldl (settle_board z) d is) hw H C W \<and> queues_kept d (foldl (settle_board z) d is) \<and>
    (\<forall>i < KL2_HWQ_CNT. i \<in> set is \<or> board_settled (d2_board d ! i) \<longrightarrow> board_settled (d2_board (foldl (settle_board z) d is) ! i))"
  using assms
proof (induction "is" arbitrary: d)
  case Nil then show ?case by (simp add: queues_kept_def)
next
  case (Cons i "is")
  let ?d1 = "settle_board z d i"
  have i: "i < KL2_HWQ_CNT" "z i" using Cons.prems(2) by simp_all
  have len: "i < length (d2_board d)" using dev_okD(2) [OF Cons.prems(1)] i(1) by (simp add: shape_def)
  note e = settle_board_effect [where z = z and i = i, OF len i(2)]
  have ok1: "dev_ok ?d1 hw H C W" by (rule settle_ok [OF Cons.prems(1) i(1)])
  have "\<forall>i\<in>set is. i < KL2_HWQ_CNT \<and> z i" using Cons.prems(2) by simp
  note IH = Cons.IH [OF ok1 this]
  have "board_settled (d2_board ?d1 ! j)" if "j = i \<or> board_settled (d2_board d ! j)" for j
    using that e(1,2) by (cases "j = i") auto
  then have "board_settled (d2_board (foldl (settle_board z) ?d1 is) ! j)"
    if "j < KL2_HWQ_CNT" "j \<in> set (i # is) \<or> board_settled (d2_board d ! j)" for j
    using IH that by auto
  moreover have "queues_kept d (foldl (settle_board z) ?d1 is)" using e(4) IH queues_kept_trans by blast
  ultimately show ?case using IH by simp
qed


lemma apply_hw_append: "apply_hw hw (xs @ ys) = apply_hw (apply_hw hw xs) ys"
  by (induction hw xs rule: apply_hw.induct) (simp_all add: fun_upd_def)

lemma resets_ok:
  assumes "dev_ok d hw H C W" "\<forall>i\<in>set is. i < KL2_HWQ_CNT \<and> z i"
  shows "\<exists>d' ops. reset_queues z d is = Some (d', ops) \<and> dev_ok d' (apply_hw hw ops) H C W \<and> queues_kept d d' \<and>
    (\<forall>j < KL2_HWQ_CNT. j \<in> set is \<and> board_settled (d2_board d ! j) \<or> board_idle (d2_board d ! j) \<longrightarrow> board_idle (d2_board d' ! j))"
  using assms
proof (induction "is" arbitrary: d hw)
  case Nil then show ?case by (auto simp: queues_kept_def)
next
  case (Cons i "is")
  have i: "i < KL2_HWQ_CNT" "z i" and "is": "\<forall>i\<in>set is. i < KL2_HWQ_CNT \<and> z i" using Cons.prems(2) by simp_all
  let ?b = "d2_board d ! i"
  show ?case
  proof (cases "eb_excp_cnt ?b = 0 \<and> eb_taint_2_reset_cnt ?b = 0")
    case True
    from Cons.IH [OF Cons.prems(1) "is"] obtain d' ops where r: "reset_queues z d is = Some (d', ops)"
      "dev_ok d' (apply_hw hw ops) H C W" "queues_kept d d'"
      "\<And>j. j < KL2_HWQ_CNT \<Longrightarrow> j \<in> set is \<and> board_settled (d2_board d ! j) \<or> board_idle (d2_board d ! j) \<Longrightarrow> board_idle (d2_board d' ! j)"
      by blast
    have "board_idle (d2_board d' ! j)" if j: "j < KL2_HWQ_CNT" "j \<in> set (i # is) \<and> board_settled (d2_board d ! j) \<or> board_idle (d2_board d ! j)" for j
    proof (rule r(4) [OF j(1)])
      show "j \<in> set is \<and> board_settled (d2_board d ! j) \<or> board_idle (d2_board d ! j)"
        using j(2) True by (auto simp: board_settled_def board_idle_def)
    qed
    with r(1-3) True show ?thesis by auto
  next
    case False
    from reset_queue_ok [OF Cons.prems(1) i(1)] obtain d1 where d1:
      "reset_queue d i = Some (d1, HwReset i # map (HwWrite i) (hq_rt_list (d2_hwq d1 ! i)))"
      "dev_ok d1 (hw(i := hq_rt_list (d2_hwq d1 ! i))) H C W" by blast
    note b = reset_queue_boards [OF d1(1)]
    from Cons.IH [OF d1(2) "is"] obtain d' ops where r: "reset_queues z d1 is = Some (d', ops)"
      "dev_ok d' (apply_hw (hw(i := hq_rt_list (d2_hwq d1 ! i))) ops) H C W" "queues_kept d1 d'"
      "\<And>j. j < KL2_HWQ_CNT \<Longrightarrow> j \<in> set is \<and> board_settled (d2_board d1 ! j) \<or> board_idle (d2_board d1 ! j) \<Longrightarrow> board_idle (d2_board d' ! j)"
      by blast
    have len: "length (d2_board d) = KL2_HWQ_CNT" using dev_okD(2) [OF Cons.prems(1)] by (simp add: shape_def)
    have "reset_queues z d (i # is) = Some (d', (HwReset i # map (HwWrite i) (hq_rt_list (d2_hwq d1 ! i))) @ ops)"
    proof -
      have "\<not> (\<not> z i \<or> eb_excp_cnt ?b = 0 \<and> eb_taint_2_reset_cnt ?b = 0)" using False i(2) by blast
      from if_not_P [OF this] show ?thesis by (simp only: reset_queues.simps d1(1) r(1) bind.bind_lunit prod.case)
    qed
    moreover have "apply_hw hw ((HwReset i # map (HwWrite i) (hq_rt_list (d2_hwq d1 ! i))) @ ops) =
        apply_hw (hw(i := hq_rt_list (d2_hwq d1 ! i))) ops"
      by (simp only: apply_hw_append apply_hw_reset)
    moreover have "queues_kept d d'" using r(3) b(1) by (simp add: queues_kept_def)
    moreover have "board_idle (d2_board d' ! j)"
      if j: "j < KL2_HWQ_CNT" "j \<in> set (i # is) \<and> board_settled (d2_board d ! j) \<or> board_idle (d2_board d ! j)" for j
    proof (rule r(4) [OF j(1)])
      show "j \<in> set is \<and> board_settled (d2_board d1 ! j) \<or> board_idle (d2_board d1 ! j)"
        using j len b(2) by (cases "j = i") (auto simp: board_idle_def board_zero_def)
    qed
    ultimately show ?thesis using r(2) by (metis (no_types, lifting))
  qed
qed

lemma valid_queue_less: "i \<in> set (valid_queues d) \<Longrightarrow> i < KL2_HWQ_CNT"
  by (simp add: valid_queues_def)

lemma dev_ok_state: "dev_ok d hw H C W \<Longrightarrow> dev_ok (d\<lparr>d2_state := x\<rparr>) hw H C W"
  by (simp add: dev_ok_def own_def shape_def tables_def binding_def evnt_states_def)

text \<open>When no queue has a task under way, every queue that was charged is reset, and the device runs again.\<close>

lemma work_tasks_ok:
  assumes ok: "dev_ok d hw H C W" and z: "\<forall>i\<in>set (valid_queues d). z i"
  shows "\<exists>d' ops. excp_work_tasks z d = Some (d', ops) \<and> dev_ok d' (apply_hw hw ops) H C W \<and> valid_queues d' = valid_queues d \<and>
    (\<forall>i\<in>set (valid_queues d). board_idle (d2_board d' ! i)) \<and> (d2_in_reset_state d' \<or> d2_state d' = KL2_RUNNING)"
proof -
  let ?Q = "valid_queues d"
  have Q: "\<forall>i\<in>set ?Q. i < KL2_HWQ_CNT" using valid_queue_less by blast
  then have Qz: "\<forall>i\<in>set ?Q. i < KL2_HWQ_CNT \<and> z i" using z by blast
  obtain d1 where d1: "over_queues taint_from_queue d ?Q = Some d1" "dev_ok d1 hw H C W" "queues_kept d d1"
    using taint_queues_ok [OF ok Q] by blast
  obtain d2 where d2: "convert_taint d1 (d2_session_idr d1) = Some d2" "dev_ok d2 hw H C W"
    using convert_taint_ok [OF d1(2) idr_live_sess [OF d1(2)]] by blast
  have V2: "valid_queues d2 = ?Q"
    using queues_kept_valid [OF queues_kept_trans [OF d1(3) convert_taint_queues [OF d2(1)]]] .
  let ?d3 = "foldl (settle_board z) d2 ?Q"
  note s = settle_all [OF d2(2) Qz]
  have V3: "valid_queues ?d3 = ?Q" using queues_kept_valid [of d2 ?d3] s V2 by simp
  obtain d4 ops where d4: "reset_queues z ?d3 ?Q = Some (d4, ops)" "dev_ok d4 (apply_hw hw ops) H C W" "queues_kept ?d3 d4"
    "\<And>j. j < KL2_HWQ_CNT \<Longrightarrow> j \<in> set ?Q \<and> board_settled (d2_board ?d3 ! j) \<or> board_idle (d2_board ?d3 ! j) \<Longrightarrow> board_idle (d2_board d4 ! j)"
    using resets_ok [OF conjunct1 [OF s] Qz] by blast
  let ?d5 = "if d2_in_reset_state d4 then d4 else d4\<lparr>d2_state := KL2_RUNNING\<rparr>"
  have "excp_work_tasks z d = Some (?d5, ops)"
    unfolding excp_work_tasks_def kl2_excp_taint_all_def Let_def by (simp only: d1(1) d2(1) V2 V3 d4(1) bind.bind_lunit prod.case)
  moreover have "dev_ok ?d5 (apply_hw hw ops) H C W" using d4(2) dev_ok_state by simp
  moreover have "valid_queues ?d5 = ?Q" using queues_kept_valid [OF d4(3)] V3 by (simp add: valid_queues_def)
  moreover have "board_idle (d2_board ?d5 ! i)" if "i \<in> set ?Q" for i
    using d4(4) [of i] Q that s by simp
  ultimately show ?thesis by (intro exI [of _ ?d5] exI [of _ ops] conjI ballI) auto
qed

end
