(* ===== verification/Kl2_Timer_Props.thy ===== *)
theory Kl2_Timer_Props
  imports Kl2_Timer Kl2_Unit_Pass Kl2_Work_Tasks
begin

text \<open>What a tick of the timer does.\<close>

section \<open>Handing over\<close>

lemma nocheck_frame:
  "dispatch_nocheck S q = Some (q', w) \<Longrightarrow>
    hq_taint_state q' = hq_taint_state q \<and> hq_regular_timer_state q' = hq_regular_timer_state q \<and>
    (\<exists>ys. hq_rt_list q' = hq_rt_list q @ ys)"
proof (induction S q arbitrary: q' w rule: dispatch_nocheck.induct)
  case (1 S q)
  show ?case
  proof (cases "hq_cnt_running q < KL2_HWQ_DEPTH")
    case False with "1.prems" show ?thesis by (simp add: dispatch_nocheck.simps [of S q])
  next
    case room: True
    show ?thesis
    proof (cases "hq_pt_list q")
      case Nil with room "1.prems" show ?thesis by (simp add: dispatch_nocheck.simps [of S q])
    next
      case (Cons task rest)
      with room "1.prems" obtain x where x: "S (tk_sess task) = Some x"
        by (auto simp: dispatch_nocheck.simps [of S q] bind_eq_Some_conv)
      show ?thesis
      proof (cases "kl2_session_state_normal x")
        case False with room Cons x "1.prems" show ?thesis by (simp add: dispatch_nocheck.simps [of S q])
      next
        case True
        let ?q = "q\<lparr>hq_pt_list := rest, hq_rt_list := hq_rt_list q @ [task], hq_cnt_running := u32 (hq_cnt_running q + 1)\<rparr>"
        from room Cons x True "1.prems" obtain w' where "dispatch_nocheck S ?q = Some (q', w')"
          by (auto simp: dispatch_nocheck.simps [of S q] bind_eq_Some_conv)
        from "1.IH" [OF room Cons x True this] show ?thesis by auto
      qed
    qed
  qed
qed

text \<open>What handing over keeps.\<close>

definition handed :: "kl2_dev \<Rightarrow> kl2_dev \<Rightarrow> bool" where
  "handed d d' \<longleftrightarrow> d2_sess d' = d2_sess d \<and> d2_board d' = d2_board d \<and> d2_hwq_bitmap d' = d2_hwq_bitmap d \<and>
    length (d2_hwq d') = length (d2_hwq d) \<and>
    (\<forall>j < length (d2_hwq d). hq_taint_state (d2_hwq d' ! j) = hq_taint_state (d2_hwq d ! j) \<and>
       hq_regular_timer_state (d2_hwq d' ! j) = hq_regular_timer_state (d2_hwq d ! j) \<and>
       (\<exists>ys. hq_rt_list (d2_hwq d' ! j) = hq_rt_list (d2_hwq d ! j) @ ys))"

lemma handed_refl [simp]: "handed d d"
  by (simp add: handed_def)

lemma handed_trans:
  assumes "handed a b" "handed b c" shows "handed a c"
proof -
  have "\<exists>ys. hq_rt_list (d2_hwq c ! j) = hq_rt_list (d2_hwq a ! j) @ ys" if "j < length (d2_hwq a)" for j
  proof -
    from assms that obtain xs ys where "hq_rt_list (d2_hwq b ! j) = hq_rt_list (d2_hwq a ! j) @ xs"
      "hq_rt_list (d2_hwq c ! j) = hq_rt_list (d2_hwq b ! j) @ ys" unfolding handed_def by metis
    then show ?thesis by simp
  qed
  with assms show ?thesis unfolding handed_def by simp
qed

lemma dispatch_handed:
  assumes "kl2_hwq_dispatch_locked d i = Some (d', w)" shows "handed d d'"
proof (cases "d2_state d \<noteq> KL2_RUNNING \<or> d2_in_reset_state d")
  case True with assms show ?thesis by (simp add: kl2_hwq_dispatch_locked_def)
next
  case False
  with assms obtain q where q: "dispatch_nocheck (d2_sess d) (d2_hwq d ! i) = Some (q, w)" "d' = upd_hwq d i (\<lambda>_. q)"
    by (auto simp: kl2_hwq_dispatch_locked_def bind_eq_Some_conv)
  have "hq_taint_state ((d2_hwq d)[i := q] ! j) = hq_taint_state (d2_hwq d ! j) \<and>
      hq_regular_timer_state ((d2_hwq d)[i := q] ! j) = hq_regular_timer_state (d2_hwq d ! j) \<and>
      (\<exists>ys. hq_rt_list ((d2_hwq d)[i := q] ! j) = hq_rt_list (d2_hwq d ! j) @ ys)" if "j < length (d2_hwq d)" for j
    using nocheck_frame [OF q(1)] that by (cases "j = i") auto
  then show ?thesis unfolding q(2) handed_def upd_hwq_def by simp
qed

text \<open>The part of the state that handing over changes.\<close>

definition only_dev :: "kl2_units \<Rightarrow> kl2_units \<Rightarrow> bool" where
  "only_dev u u' \<longleftrightarrow> u' = u\<lparr>un_dev := un_dev u', un_ops := un_ops u'\<rparr>"

lemma only_dev_same: "only_dev u u' \<Longrightarrow> same_masks u u' \<and> un_board u' = un_board u \<and> un_vf u' = un_vf u \<and> un_running u' = un_running u \<and> un_work u' = un_work u"
  unfolding only_dev_def
  by (metis (no_types, lifting) kl2_units.ext_inject kl2_units.surjective kl2_units.update_convs(1,14) same_masks_def same_device_def)

lemma dispatch_all:
  assumes "dev_ok (un_dev u) hw H C W" "\<forall>j\<in>set qs. j < KL2_HWQ_CNT"
  shows "\<exists>u' hw'. over_units dispatch_one qs u = Some u' \<and> dev_ok (un_dev u') hw' H C W \<and> handed (un_dev u) (un_dev u') \<and>
    u' = u\<lparr>un_dev := un_dev u', un_ops := un_ops u'\<rparr> \<and> (\<exists>ops. un_ops u' = un_ops u @ ops)"
  using assms
proof (induction qs arbitrary: u hw)
  case Nil then show ?case by (auto intro!: exI [of _ hw])
next
  case (Cons j qs)
  have j: "j < KL2_HWQ_CNT" "\<forall>j\<in>set qs. j < KL2_HWQ_CNT" using Cons.prems(2) by simp_all
  from hwq_dispatch_ok [OF Cons.prems(1) j(1)] obtain d w where d: "kl2_hwq_dispatch_locked (un_dev u) j = Some (d, w)"
    "dev_ok d (hw(j := hw j @ w)) H C W" by blast
  let ?u = "u\<lparr>un_dev := d, un_ops := un_ops u @ map (\<lambda>t. QueueOp (HwWrite j t)) w\<rparr>"
  have "dev_ok (un_dev ?u) (hw(j := hw j @ w)) H C W" using d(2) by simp
  from Cons.IH [OF this j(2)] obtain u' hw' where u': "over_units dispatch_one qs ?u = Some u'" "dev_ok (un_dev u') hw' H C W"
    "handed d (un_dev u')" "u' = ?u\<lparr>un_dev := un_dev u', un_ops := un_ops u'\<rparr>" "\<exists>ops. un_ops u' = un_ops u @ ops" by auto
  have "over_units dispatch_one (j # qs) u = Some u'" using d(1) u'(1) by (simp add: dispatch_one_def)
  moreover have "u' = u\<lparr>un_dev := un_dev u', un_ops := un_ops u'\<rparr>" by (subst u'(4)) simp
  ultimately show ?case using u'(2,5) handed_trans [OF dispatch_handed [OF d(1)] u'(3)] by blast
qed

section \<open>Looking at the units of a queue\<close>

definition hit_unit :: "timer_input \<Rightarrow> nat \<Rightarrow> nat \<Rightarrow> bool \<Rightarrow> queue_watch \<Rightarrow> unit_kind \<Rightarrow> nat \<Rightarrow> bool" where
  "hit_unit inp j cur_token cur_earlyout w k i \<longleftrightarrow>
     ti_token inp j k i = cur_token \<and> (ti_virt inp j k i \<noteq> qw_virt w k i \<or> cur_earlyout)"

text \<open>What stays the same while units are looked at.\<close>

definition same_run :: "nat \<Rightarrow> timer_run \<Rightarrow> timer_run \<Rightarrow> bool" where
  "same_run j r r' \<longleftrightarrow> tm_un (tr_tm r') = tm_un (tr_tm r) \<and> tm_threshold (tr_tm r') = tm_threshold (tr_tm r) \<and>
     tm_seq (tr_tm r') = tm_seq (tr_tm r) \<and> tr_hit r' = tr_hit r \<and> tr_signal r' = tr_signal r \<and>
     (\<forall>l. l \<noteq> j \<longrightarrow> tm_watch (tr_tm r') l = tm_watch (tr_tm r) l)"

lemma excp_bit_eq: "i < unit_max k \<Longrightarrow> bit (excp_bit n) (i * 2 + 1) \<longleftrightarrow> i = n"
proof -
  assume "i < unit_max k"
  then have "i * 2 + 1 < 32" by (cases k) simp_all
  then show ?thesis using bit_excp_bit [of n "i * 2 + 1"] by auto
qed

lemma look_at_units_fold:
  fixes r j
  assumes "distinct xs"
  defines "w \<equiv> tm_watch (tr_tm r) j"
  shows "same_run j r (foldl (look_at_unit inp j cur early) r xs) \<and>
    (tr_found (foldl (look_at_unit inp j cur early) r xs) \<longleftrightarrow> tr_found r \<or> (\<exists>(k, i)\<in>set xs. hit_unit inp j cur early w k i)) \<and>
    (\<forall>k i. i < unit_max k \<longrightarrow> bit (tr_st (foldl (look_at_unit inp j cur early) r xs) k) (i * 2 + 1) =
       (bit (tr_st r k) (i * 2 + 1) \<or> (k, i) \<in> set xs \<and> hit_unit inp j cur early w k i)) \<and>
    (\<forall>k. tr_st (foldl (look_at_unit inp j cur early) r xs) k \<noteq> 0 \<longrightarrow> tr_st r k \<noteq> 0 \<or> (\<exists>(k, i)\<in>set xs. hit_unit inp j cur early w k i)) \<and>
    (\<forall>k i. tm_unit_token (tr_tm (foldl (look_at_unit inp j cur early) r xs)) k i =
       (if (k, i) \<in> set xs \<and> hit_unit inp j cur early w k i then cur else tm_unit_token (tr_tm r) k i))"
  using assms(1) unfolding w_def
proof (induction xs arbitrary: r)
  case Nil then show ?case by (simp add: same_run_def)
next
  case (Cons x xs)
  obtain l n where x: "x = (l, n)" by (cases x)
  let ?w = "tm_watch (tr_tm r) j" and ?r1 = "look_at_unit inp j cur early r x"
  have d: "distinct xs" "(l, n) \<notin> set xs" using Cons.prems x by simp_all
  note IH = Cons.IH [OF d(1), of ?r1]
  show ?case
  proof (cases "hit_unit inp j cur early ?w l n")
    case False
    then have "?r1 = r" by (auto simp: look_at_unit_def hit_unit_def x Let_def)
    with IH False show ?thesis unfolding x foldl_Cons by auto
  next
    case True
    have r1: "same_run j r ?r1" "tr_found ?r1" "tr_st ?r1 = (tr_st r)(l := tr_st r l OR excp_bit n)"
      "\<And>k i. tm_unit_token (tr_tm ?r1) k i = (if k = l \<and> i = n then cur else tm_unit_token (tr_tm r) k i)"
      "\<And>k i. (k, i) \<noteq> (l, n) \<Longrightarrow> qw_virt (tm_watch (tr_tm ?r1) j) k i = qw_virt ?w k i"
      using True by (auto simp: look_at_unit_def hit_unit_def x Let_def same_run_def)
    have h: "hit_unit inp j cur early (tm_watch (tr_tm ?r1) j) k i = hit_unit inp j cur early ?w k i" if "(k, i) \<in> set xs" for k i
    proof -
      have "(k, i) \<noteq> (l, n)" using that d(2) by blast
      from r1(5) [OF this] show ?thesis by (simp add: hit_unit_def)
    qed
    have S: "same_run j r (foldl (look_at_unit inp j cur early) ?r1 xs)" using r1(1) IH unfolding same_run_def by simp
    have "bit (tr_st ?r1 k) (i * 2 + 1) = (bit (tr_st r k) (i * 2 + 1) \<or> (k, i) = (l, n))" if "i < unit_max k" for k i
      using excp_bit_eq [OF that, of n] by (auto simp: r1(3) bit_or_iff)
    then have B: "bit (tr_st (foldl (look_at_unit inp j cur early) ?r1 xs) k) (i * 2 + 1) =
       (bit (tr_st r k) (i * 2 + 1) \<or> (k, i) \<in> set (x # xs) \<and> hit_unit inp j cur early ?w k i)" if "i < unit_max k" for k i
      using IH that h True x by auto
    have "tm_unit_token (tr_tm (foldl (look_at_unit inp j cur early) ?r1 xs)) k i =
       (if (k, i) \<in> set (x # xs) \<and> hit_unit inp j cur early ?w k i then cur else tm_unit_token (tr_tm r) k i)" for k i
      using IH h [of k i] r1(4) [of k i] True x by auto
    with S B IH r1(2) True x show ?thesis unfolding foldl_Cons by auto
  qed
qed


section \<open>Looking at the queues\<close>

text \<open>A task that is late, or whose end is due, on a unit that has its token.\<close>

definition late_at :: "timer_input \<Rightarrow> kl2_timer \<Rightarrow> nat \<Rightarrow> unit_kind \<Rightarrow> nat \<Rightarrow> bool" where
  "late_at inp t j k i \<longleftrightarrow> (\<exists>task ts x. hq_rt_list (d2_hwq (un_dev (tm_un t)) ! j) = task # ts \<and>
     tk_type task \<noteq> KL2_TASKTYPE_EVNTWAIT \<and> tk_token task = ti_token inp j k i \<and> d2_sess (un_dev (tm_un t)) (tk_sess task) = Some x \<and>
     (\<not> kl2_session_state_normal x \<or> (let w = tm_watch t j in qw_busy w \<and> qw_token w = tk_token task \<and>
        threshold_in_use t < ktime_to_ms (ti_now inp - qw_since w) \<and> ti_virt inp j k i \<noteq> qw_virt w k i)))"

definition hit_at :: "kl2_dev \<Rightarrow> kl2_dev \<Rightarrow> nat \<Rightarrow> nat \<Rightarrow> bool" where
  "hit_at d d' j token \<longleftrightarrow> (\<exists>task ts x. hq_rt_list (d2_hwq d ! j) = task # ts \<and> tk_type task \<noteq> KL2_TASKTYPE_EVNTWAIT \<and>
     tk_token task = token \<and> d2_sess d' (tk_sess task) = Some (kl2_session_taint x XPUERR_TIMEOUT))"

text \<open>The state of a tick once it has looked at the queues \<open>P\<close>, with the state \<open>t\<close> before.\<close>

definition marks_in :: "nat set \<Rightarrow> (nat \<Rightarrow> kl2_session option) \<Rightarrow> (nat \<Rightarrow> kl2_session option) \<Rightarrow> bool" where
  "marks_in P S S' \<longleftrightarrow> (\<forall>s. S' s = S s \<or> (\<exists>x. S s = Some x \<and> (\<exists>j\<in>P. s2_hwq x = Some j) \<and> S' s = Some (kl2_session_taint x XPUERR_TIMEOUT)))"

definition run_units :: "timer_input \<Rightarrow> kl2_timer \<Rightarrow> nat set \<Rightarrow> timer_run \<Rightarrow> bool" where
  "run_units inp t P r \<longleftrightarrow>
     (\<forall>k i. i < unit_max k \<and> bit (tr_st r k) (i * 2 + 1) \<longrightarrow> (\<exists>j\<in>P. late_at inp t j k i \<and> tr_hit r j = Some (ti_token inp j k i) \<and>
        tm_unit_token (tr_tm r) k i = ti_token inp j k i)) \<and>
     (\<forall>k. tr_st r k \<noteq> 0 \<longrightarrow> tr_signal r)"

definition run_rest :: "kl2_timer \<Rightarrow> nat set \<Rightarrow> timer_run \<Rightarrow> bool" where
  "run_rest t P r \<longleftrightarrow>
     tm_un (tr_tm r) = (tm_un t)\<lparr>un_dev := (un_dev (tm_un t))\<lparr>d2_sess := d2_sess (un_dev (tm_un (tr_tm r)))\<rparr>\<rparr> \<and>
     marks_in P (d2_sess (un_dev (tm_un t))) (d2_sess (un_dev (tm_un (tr_tm r)))) \<and>
     (\<forall>j. j \<notin> P \<longrightarrow> tm_watch (tr_tm r) j = tm_watch t j \<and> tr_hit r j = None) \<and>
     tm_threshold (tr_tm r) = tm_threshold t \<and> tm_seq (tr_tm r) = tm_seq t \<and>
     (\<forall>j token. tr_hit r j = Some token \<longrightarrow> tr_signal r \<and> hit_at (un_dev (tm_un t)) (un_dev (tm_un (tr_tm r))) j token)"

definition run_inv where
  "run_inv inp t hw H C W P r \<longleftrightarrow> run_units inp t P r \<and> run_rest t P r \<and> dev_ok (un_dev (tm_un (tr_tm r))) hw H C W"

lemma run_inv_quiet:
  assumes "run_inv inp t hw H C W P r" and "j \<notin> P" and "same_run j r r'" and "tr_st r' = tr_st r"
    and "tm_unit_token (tr_tm r') = tm_unit_token (tr_tm r)"
  shows "run_inv inp t hw H C W (insert j P) r'"
proof -
  have s: "tm_un (tr_tm r') = tm_un (tr_tm r)" "tm_threshold (tr_tm r') = tm_threshold (tr_tm r)" "tm_seq (tr_tm r') = tm_seq (tr_tm r)"
    "tr_hit r' = tr_hit r" "tr_signal r' = tr_signal r" "\<And>l. l \<noteq> j \<Longrightarrow> tm_watch (tr_tm r') l = tm_watch (tr_tm r) l"
    using assms(3) by (simp_all add: same_run_def)
  have "run_units inp t (insert j P) r'" using assms(1) unfolding run_inv_def run_units_def s(4,5) assms(4,5) by blast
  moreover have "marks_in (insert j P) A B" if "marks_in P A B" for A B using that unfolding marks_in_def by blast
  moreover have "tm_watch (tr_tm r') l = tm_watch t l \<and> tr_hit r l = None" if "l \<notin> insert j P" for l
    using assms(1) that s(6) unfolding run_inv_def run_rest_def by auto
  ultimately show ?thesis using assms(1) unfolding run_inv_def run_rest_def s(1-5) by blast
qed

lemma look_at_known:
  assumes inv: "run_inv inp t hw H C W P r" and ok: "dev_ok (un_dev (tm_un t)) hw' H' C' W'" and j: "j \<notin> P" "j < KL2_HWQ_CNT"
    and head: "hq_rt_list (d2_hwq (un_dev (tm_un t)) ! j) = task # ts"
  shows "\<exists>x. d2_sess (un_dev (tm_un t)) (tk_sess task) = Some x \<and> d2_sess (un_dev (tm_un (tr_tm r))) (tk_sess task) = Some x \<and> s2_hwq x = Some j"
proof -
  have "task \<in># busy_of (d2_hwq (un_dev (tm_un t)) ! j) + done_of (d2_hwq (un_dev (tm_un t)) ! j)"
    using head by (simp add: busy_of_def)
  from own_task(1) [OF dev_okD(1) [OF ok] j(2) this] obtain x where x: "d2_sess (un_dev (tm_un t)) (tk_sess task) = Some x" "s2_hwq x = Some j"
    by blast
  have "marks_in P (d2_sess (un_dev (tm_un t))) (d2_sess (un_dev (tm_un (tr_tm r))))"
    using inv by (simp add: run_inv_def run_rest_def)
  with x j(1) show ?thesis unfolding marks_in_def by (metis option.inject)
qed

lemma run_queues:
  assumes "run_inv inp t hw H C W P r"
  shows "d2_hwq (un_dev (tm_un (tr_tm r))) = d2_hwq (un_dev (tm_un t))" "valid_queues (un_dev (tm_un (tr_tm r))) = valid_queues (un_dev (tm_un t))"
    "d2_board (un_dev (tm_un (tr_tm r))) = d2_board (un_dev (tm_un t))" "all_units (tm_un (tr_tm r)) = all_units (tm_un t)"
    "un_running (tm_un (tr_tm r)) = un_running (tm_un t)"
proof -
  obtain S where u: "tm_un (tr_tm r) = (tm_un t)\<lparr>un_dev := (un_dev (tm_un t))\<lparr>d2_sess := S\<rparr>\<rparr>"
    using assms unfolding run_inv_def run_rest_def by blast
  show "d2_hwq (un_dev (tm_un (tr_tm r))) = d2_hwq (un_dev (tm_un t))" "d2_board (un_dev (tm_un (tr_tm r))) = d2_board (un_dev (tm_un t))"
    "valid_queues (un_dev (tm_un (tr_tm r))) = valid_queues (un_dev (tm_un t))" "un_running (tm_un (tr_tm r)) = un_running (tm_un t)"
    "all_units (tm_un (tr_tm r)) = all_units (tm_un t)"
    unfolding u by (simp_all add: valid_queues_def all_units_def valid_units_def cluster_invalid_def sdnn_invalid_def)
qed


lemma threshold_same: "run_inv inp t hw H C W P r \<Longrightarrow> threshold_in_use (tr_tm r) = threshold_in_use t"
  using run_queues(5) [of inp t hw H C W P r] by (simp add: threshold_in_use_def run_inv_def run_rest_def)

lemma busy_units_facts: "distinct (busy_units u s)" "(k, i) \<in> set (busy_units u s) \<Longrightarrow> i < unit_max k"
  using valid_max by (auto simp: busy_units_def all_units_distinct all_units_iff)

text \<open>The units of a queue whose first task is late or to be ended.\<close>

lemma look_at_units_inv:
  assumes inv: "run_inv inp t hw H C W P r" and j: "j \<notin> P" "j < KL2_HWQ_CNT"
    and head: "hq_rt_list (d2_hwq (un_dev (tm_un t)) ! j) = task # ts" "tk_type task \<noteq> KL2_TASKTYPE_EVNTWAIT"
    and x: "d2_sess (un_dev (tm_un t)) (tk_sess task) = Some x" "d2_sess (un_dev (tm_un (tr_tm r))) (tk_sess task) = Some x" "s2_hwq x = Some j"
    and w: "qw_busy (tm_watch t j) \<and> qw_token (tm_watch t j) = tk_token task \<or> \<not> kl2_session_state_normal x"
    and late: "threshold_in_use t < ktime_to_ms (ti_now inp - qw_since (tm_watch t j)) \<or> \<not> kl2_session_state_normal x"
  shows "\<exists>stop r1. look_at_units inp j (tk_token task) (\<not> kl2_session_state_normal x) r = Some (stop, r1) \<and>
    run_inv inp t hw H C W (insert j P) r1 \<and>
    (stop \<longleftrightarrow> tr_status r = 0 \<and> ti_status inp j = None)"
proof (cases "if tr_status r = 0 then ti_status inp j else Some (tr_status r)")
  case None
  have "run_inv inp t hw H C W (insert j P) r" by (rule run_inv_quiet [OF inv j(1)]) (simp_all add: same_run_def)
  with None show ?thesis by (auto simp: look_at_units_def split: if_splits)
next
  case (Some status)
  let ?cur = "tk_token task" and ?early = "\<not> kl2_session_state_normal x" and ?u = "tm_un (tr_tm r)"
  let ?r1 = "r\<lparr>tr_status := status, tr_found := False\<rparr>"
  have ns: "\<not> (tr_status r = 0 \<and> ti_status inp j = None)" using Some by (auto split: if_splits)
  show ?thesis
  proof (cases "ti_lock inp j")
    case False
    have "run_inv inp t hw H C W (insert j P) ?r1" by (rule run_inv_quiet [OF inv j(1)]) (simp_all add: same_run_def)
    with False Some ns show ?thesis by (auto simp: look_at_units_def Let_def)
  next
    case lock: True
    let ?xs = "busy_units ?u status" and ?w = "tm_watch t j"
    let ?r2 = "foldl (look_at_unit inp j ?cur ?early) ?r1 ?xs"
    have rest: "run_rest t P r" and units: "run_units inp t P r" and ok: "dev_ok (un_dev ?u) hw H C W"
      using inv by (simp_all add: run_inv_def)
    have wj: "tm_watch (tr_tm ?r1) j = ?w" using rest j(1) by (simp add: run_rest_def)
    note f = look_at_units_fold [where xs = ?xs and r = ?r1 and j = j and inp = inp and cur = ?cur and early = ?early, OF busy_units_facts(1), unfolded wj]
    have same: "same_run j ?r1 ?r2" by (rule conjunct1 [OF f])
    have un2: "tm_un (tr_tm ?r2) = ?u" "tr_hit ?r2 = tr_hit r" "tr_signal ?r2 = tr_signal r" using same by (simp_all add: same_run_def)
    have found: "tr_found ?r2 \<longleftrightarrow> (\<exists>(k, i)\<in>set ?xs. hit_unit inp j ?cur ?early ?w k i)" using conjunct1 [OF conjunct2 [OF f]] by simp
    have hit_late: "late_at inp t j k i \<and> ti_token inp j k i = ?cur" if "hit_unit inp j ?cur ?early ?w k i" for k i
      using that head x(1) w late by (auto simp: late_at_def hit_unit_def Let_def)
    have bits: "bit (tr_st ?r2 k) (i * 2 + 1) \<longleftrightarrow> bit (tr_st r k) (i * 2 + 1) \<or> (k, i) \<in> set ?xs \<and> hit_unit inp j ?cur ?early ?w k i"
      if "i < unit_max k" for k i using conjunct1 [OF conjunct2 [OF conjunct2 [OF f]]] that by simp
    have st: "tr_st ?r2 k \<noteq> 0 \<Longrightarrow> tr_st r k \<noteq> 0 \<or> tr_found ?r2" for k
      using conjunct1 [OF conjunct2 [OF conjunct2 [OF conjunct2 [OF f]]]] found by simp
    have tok: "tm_unit_token (tr_tm ?r2) k i = (if (k, i) \<in> set ?xs \<and> hit_unit inp j ?cur ?early ?w k i then ?cur else tm_unit_token (tr_tm r) k i)" for k i
      using conjunct2 [OF conjunct2 [OF conjunct2 [OF conjunct2 [OF f]]]] by simp
    show ?thesis
    proof (cases "tr_found ?r2")
      case nf: False
      have "run_units inp t (insert j P) ?r2"
        unfolding run_units_def
      proof (intro conjI allI impI)
        have none: "\<not> ((k, i) \<in> set ?xs \<and> hit_unit inp j ?cur ?early ?w k i)" for k i using nf found by blast
        fix k
        show "tr_st ?r2 k \<noteq> 0 \<Longrightarrow> tr_signal ?r2" using st nf units unfolding run_units_def un2 by blast
        fix i assume ki: "i < unit_max k \<and> bit (tr_st ?r2 k) (i * 2 + 1)"
        with bits [of i k] none [of k i] have "i < unit_max k \<and> bit (tr_st r k) (i * 2 + 1)" by blast
        with units obtain l where l: "l \<in> P" "late_at inp t l k i" "tr_hit r l = Some (ti_token inp l k i)"
          "tm_unit_token (tr_tm r) k i = ti_token inp l k i" unfolding run_units_def by blast
        have "tm_unit_token (tr_tm ?r2) k i = tm_unit_token (tr_tm r) k i" unfolding tok using if_not_P [OF none [of k i]] .
        with l show "\<exists>l\<in>insert j P. late_at inp t l k i \<and> tr_hit ?r2 l = Some (ti_token inp l k i) \<and>
            tm_unit_token (tr_tm ?r2) k i = ti_token inp l k i" unfolding un2 by (intro bexI [of _ l]) simp_all
      qed
      moreover have "run_rest t (insert j P) ?r2 \<and> dev_ok (un_dev (tm_un (tr_tm ?r2))) hw H C W"
      proof -
        have "run_inv inp t hw H C W (insert j P) (?r2\<lparr>tr_st := tr_st r, tr_tm := (tr_tm ?r2)\<lparr>tm_unit_token := tm_unit_token (tr_tm r)\<rparr>\<rparr>)"
          by (rule run_inv_quiet [OF inv j(1)]) (use same in \<open>simp_all add: same_run_def\<close>)
        then show ?thesis by (simp add: run_inv_def run_rest_def)
      qed
      ultimately have "run_inv inp t hw H C W (insert j P) ?r2" by (simp add: run_inv_def)
      with nf lock Some ns show ?thesis by (auto simp: look_at_units_def Let_def)
    next
      case fd: True
      let ?m = "\<lambda>x. kl2_session_taint x XPUERR_TIMEOUT"
      have hwq: "d2_hwq (un_dev ?u) = d2_hwq (un_dev (tm_un t))" by (rule run_queues(1) [OF inv])
      let ?d = "(un_dev ?u)\<lparr>d2_sess := (d2_sess (un_dev ?u))(tk_sess task \<mapsto> ?m x)\<rparr>"
      have t: "taint_head (un_dev (tm_un (tr_tm ?r2))) j ?cur = Some ?d"
        using head(1) x(2) unfolding un2 by (simp add: taint_head_def hwq upd_sess_def)
      let ?r3 = "?r2\<lparr>tr_tm := set_dev ?d (tr_tm ?r2), tr_hit := (tr_hit ?r2)(j \<mapsto> ?cur), tr_signal := True\<rparr>"
      have run: "look_at_units inp j ?cur ?early r = Some (False, ?r3)"
        using Some lock fd t by (simp add: look_at_units_def Let_def)
      have "dev_ok ?d hw H C W"
        using mark_sess_ok [OF ok x(2), of ?m] x(2) by (auto simp: upd_sess_def)
      moreover have "run_units inp t (insert j P) ?r3"
      proof -
        have "\<exists>l\<in>insert j P. late_at inp t l k i \<and> ((tr_hit r)(j \<mapsto> ?cur)) l = Some (ti_token inp l k i) \<and>
            tm_unit_token (tr_tm ?r2) k i = ti_token inp l k i"
          if ki: "i < unit_max k" "bit (tr_st ?r2 k) (i * 2 + 1)" for k i
        proof (cases "(k, i) \<in> set ?xs \<and> hit_unit inp j ?cur ?early ?w k i")
          case True with hit_late [of k i] tok [of k i] show ?thesis by (intro bexI [of _ j]) simp_all
        next
          case False
          with bits [OF ki(1)] ki(2) have "bit (tr_st r k) (i * 2 + 1)" by blast
          with units ki(1) obtain l where l: "l \<in> P" "late_at inp t l k i" "tr_hit r l = Some (ti_token inp l k i)"
            "tm_unit_token (tr_tm r) k i = ti_token inp l k i" unfolding run_units_def by blast
          have "l \<noteq> j" using l(1) j(1) by blast
          have "tm_unit_token (tr_tm ?r2) k i = tm_unit_token (tr_tm r) k i" unfolding tok using if_not_P [OF False] .
          with l \<open>l \<noteq> j\<close> show ?thesis by (intro bexI [of _ l]) simp_all
        qed
        then show ?thesis unfolding run_units_def by (simp add: set_dev_def un2)
      qed
      moreover have "run_rest t (insert j P) ?r3"
      proof -
        have u3: "tm_un (tr_tm ?r3) = ?u\<lparr>un_dev := ?d\<rparr>" using un2 by (simp add: set_dev_def)
        obtain S where S: "?u = (tm_un t)\<lparr>un_dev := (un_dev (tm_un t))\<lparr>d2_sess := S\<rparr>\<rparr>"
          using rest unfolding run_rest_def by blast
        have a: "tm_un (tr_tm ?r3) = (tm_un t)\<lparr>un_dev := (un_dev (tm_un t))\<lparr>d2_sess := d2_sess (un_dev (tm_un (tr_tm ?r3)))\<rparr>\<rparr>"
          unfolding u3 by (simp add: S)
        have b: "marks_in (insert j P) (d2_sess (un_dev (tm_un t))) (d2_sess (un_dev (tm_un (tr_tm ?r3))))"
          using rest x(1,3) unfolding u3 run_rest_def marks_in_def by (auto 0 4)
        have c: "tm_watch (tr_tm ?r3) l = tm_watch t l \<and> tr_hit ?r3 l = None" if "l \<notin> insert j P" for l
          using that rest same by (auto simp: run_rest_def same_run_def set_dev_def)
        have e: "hit_at (un_dev (tm_un t)) ?d l token" if l: "((tr_hit r)(j \<mapsto> ?cur)) l = Some token" for l token
        proof (cases "l = j")
          case True with l head show ?thesis by (auto simp: hit_at_def)
        next
          case False
          with l rest have "hit_at (un_dev (tm_un t)) (un_dev ?u) l token" unfolding run_rest_def by simp
          then obtain task' ts' x' where h: "hq_rt_list (d2_hwq (un_dev (tm_un t)) ! l) = task' # ts'"
            "tk_type task' \<noteq> KL2_TASKTYPE_EVNTWAIT" "tk_token task' = token"
            "d2_sess (un_dev ?u) (tk_sess task') = Some (?m x')" unfolding hit_at_def by blast
          then show ?thesis unfolding hit_at_def by auto
        qed
        have g: "tm_threshold (tr_tm ?r3) = tm_threshold t" "tm_seq (tr_tm ?r3) = tm_seq t"
          using rest same by (simp_all add: run_rest_def same_run_def set_dev_def)
        have hit3: "tr_hit ?r3 = (tr_hit r)(j \<mapsto> ?cur)" "tr_signal ?r3" "un_dev (tm_un (tr_tm ?r3)) = ?d" using un2 u3 by simp_all
        show ?thesis unfolding run_rest_def using a b c e g hit3 by metis
      qed
      moreover have "un_dev (tm_un (tr_tm ?r3)) = ?d" by (simp add: set_dev_def)
      ultimately have "run_inv inp t hw H C W (insert j P) ?r3" unfolding run_inv_def by simp
      with run ns show ?thesis by blast
    qed
  qed
qed


text \<open>What makes the tick end early: a queue asks for the status of the units and there is none.\<close>

lemma look_at_queue_inv:
  assumes inv: "run_inv inp t hw H C W P r" and ok: "dev_ok (un_dev (tm_un t)) hw' H' C' W'" and j: "j \<notin> P" "j < KL2_HWQ_CNT"
  shows "\<exists>stop r1. look_at_queue inp j r = Some (stop, r1) \<and> run_inv inp t hw H C W (insert j P) r1"
proof (cases "hq_rt_list (d2_hwq (un_dev (tm_un t)) ! j)")
  case Nil
  then have "look_at (un_dev (tm_un (tr_tm r))) j = Some (0, False, False)" using run_queues(1) [OF inv] by (simp add: look_at_def)
  moreover have "run_inv inp t hw H C W (insert j P) (set_watch j w r)" for w
    by (rule run_inv_quiet [OF inv j(1)]) (simp_all add: same_run_def set_watch_def)
  ultimately show ?thesis by (auto simp: look_at_queue_def)
next
  case (Cons task ts)
  from look_at_known [OF inv ok j Cons] obtain x where x: "d2_sess (un_dev (tm_un t)) (tk_sess task) = Some x"
    "d2_sess (un_dev (tm_un (tr_tm r))) (tk_sess task) = Some x" "s2_hwq x = Some j" by blast
  have l: "look_at (un_dev (tm_un (tr_tm r))) j = Some (tk_token task, \<not> kl2_session_state_normal x, tk_type task \<noteq> KL2_TASKTYPE_EVNTWAIT)"
    using Cons x(2) run_queues(1) [OF inv] by (simp add: look_at_def)
  have q: "run_inv inp t hw H C W (insert j P) (set_watch j w r)" for w
    by (rule run_inv_quiet [OF inv j(1)]) (simp_all add: same_run_def set_watch_def)
  have q': "run_inv inp t hw H C W (insert j P) r" by (rule run_inv_quiet [OF inv j(1)]) (simp_all add: same_run_def)
  have wj: "tm_watch (tr_tm r) j = tm_watch t j" using inv j(1) by (simp add: run_inv_def run_rest_def)
  let ?w = "tm_watch t j" and ?early = "\<not> kl2_session_state_normal x"
  have step: "look_at_queue inp j r =
     (if tk_type task = KL2_TASKTYPE_EVNTWAIT then Some (False, set_watch j (?w\<lparr>qw_busy := False, qw_token := 0, qw_since := ti_now inp\<rparr>) r)
      else if \<not> (qw_busy ?w \<and> qw_token ?w = tk_token task \<or> ?early)
      then Some (False, set_watch j \<lparr>qw_busy = True, qw_token = tk_token task, qw_since = ti_now inp, qw_virt = (\<lambda>_ _. 2 ^ 32 - 1)\<rparr> r)
      else if \<not> (threshold_in_use t < ktime_to_ms (ti_now inp - qw_since ?w) \<or> ?early) then Some (False, r)
      else look_at_units inp j (tk_token task) ?early r)"
    unfolding look_at_queue_def l bind.bind_lunit split_conv Let_def wj threshold_same [OF inv] not_not ..
  show ?thesis
  proof (cases "tk_type task = KL2_TASKTYPE_EVNTWAIT \<or> \<not> (qw_busy ?w \<and> qw_token ?w = tk_token task \<or> ?early) \<or>
      \<not> (threshold_in_use t < ktime_to_ms (ti_now inp - qw_since ?w) \<or> ?early)")
    case True
    then consider "tk_type task = KL2_TASKTYPE_EVNTWAIT"
      | "tk_type task \<noteq> KL2_TASKTYPE_EVNTWAIT" "\<not> (qw_busy ?w \<and> qw_token ?w = tk_token task \<or> ?early)"
      | "tk_type task \<noteq> KL2_TASKTYPE_EVNTWAIT" "qw_busy ?w \<and> qw_token ?w = tk_token task \<or> ?early"
        "\<not> (threshold_in_use t < ktime_to_ms (ti_now inp - qw_since ?w) \<or> ?early)" by blast
    then show ?thesis
    proof cases
      case 1 with q show ?thesis unfolding step by auto
    next
      case 2 with q show ?thesis unfolding step by auto
    next
      case 3 with q' show ?thesis unfolding step by auto
    qed
  next
    case False
    then have F: "tk_type task \<noteq> KL2_TASKTYPE_EVNTWAIT" "qw_busy ?w \<and> qw_token ?w = tk_token task \<or> ?early"
      "threshold_in_use t < ktime_to_ms (ti_now inp - qw_since ?w) \<or> ?early" by blast+
    then have "look_at_queue inp j r = look_at_units inp j (tk_token task) ?early r" unfolding step by simp
    with look_at_units_inv [OF inv j Cons F(1) x F(2,3)] show ?thesis by (metis (no_types, lifting))
  qed
qed

lemma look_at_queues_inv:
  assumes "run_inv inp t hw H C W P r" "dev_ok (un_dev (tm_un t)) hw' H' C' W'"
    "distinct js" "set js \<inter> P = {}" "\<forall>j\<in>set js. j < KL2_HWQ_CNT"
  shows "\<exists>stop r1 P'. look_at_queues inp js r = Some (stop, r1) \<and> run_inv inp t hw H C W P' r1 \<and> P' \<subseteq> P \<union> set js"
  using assms
proof (induction js arbitrary: P r)
  case Nil then show ?case by auto
next
  case (Cons j js)
  from Cons.prems have j: "j \<notin> P" "j < KL2_HWQ_CNT" by auto
  from look_at_queue_inv [OF Cons.prems(1,2) j] obtain stop r1 where r1: "look_at_queue inp j r = Some (stop, r1)"
    "run_inv inp t hw H C W (insert j P) r1" by blast
  show ?case
  proof (cases stop)
    case True with r1 show ?thesis by (intro exI [of _ True] exI [of _ r1] exI [of _ "insert j P"]) auto
  next
    case False
    have "distinct js" "set js \<inter> insert j P = {}" "\<forall>j\<in>set js. j < KL2_HWQ_CNT" using Cons.prems(3-5) by auto
    from Cons.IH [OF r1(2) Cons.prems(2) this] obtain stop' r' P' where "look_at_queues inp js r1 = Some (stop', r')"
      "run_inv inp t hw H C W P' r'" "P' \<subseteq> insert j P \<union> set js" by blast
    with r1(1) False show ?thesis by (intro exI [of _ stop'] exI [of _ r'] exI [of _ P']) auto
  qed
qed

lemma run_start:
  assumes "dev_ok (un_dev (tm_un t)) hw H C W"
  shows "run_inv inp t hw H C W {} \<lparr>tr_tm = t, tr_status = 0, tr_found = False, tr_hit = Map.empty, tr_st = (\<lambda>_. 0), tr_signal = False\<rparr>"
  using assms by (simp add: run_inv_def run_units_def run_rest_def marks_in_def)


section \<open>Marks, stalls and requests to reset\<close>

text \<open>The state of a queue after a tick that got so far.\<close>

definition idle_seen :: "timer_input \<Rightarrow> nat \<Rightarrow> bool" where
  "idle_seen inp j \<longleftrightarrow> ti_lock_stall inp j \<and> ti_underway inp j = 0"

lemma take_marks:
  assumes "distinct qs" "\<forall>j\<in>set qs. j < length (d2_hwq d)"
  shows "d2_board (foldl take_mark d qs) = d2_board d \<and> d2_hwq_bitmap (foldl take_mark d qs) = d2_hwq_bitmap d \<and>
    d2_sess (foldl take_mark d qs) = d2_sess d \<and> length (d2_hwq (foldl take_mark d qs)) = length (d2_hwq d) \<and>
    (\<forall>j < length (d2_hwq d). d2_hwq (foldl take_mark d qs) ! j = (let q = d2_hwq d ! j in
       if j \<in> set qs \<and> hq_taint_state q \<noteq> KL2_HWQ_NORMAL
       then q\<lparr>hq_regular_timer_state := KL2_HWQ_STALL, hq_taint_state := KL2_HWQ_NORMAL\<rparr> else q))"
  using assms
proof (induction qs arbitrary: d)
  case Nil then show ?case by simp
next
  case (Cons l qs)
  have l: "l < length (d2_hwq d)" "distinct qs" "l \<notin> set qs" using Cons.prems by simp_all
  let ?d = "take_mark d l"
  have d: "d2_board ?d = d2_board d" "d2_hwq_bitmap ?d = d2_hwq_bitmap d" "d2_sess ?d = d2_sess d" "length (d2_hwq ?d) = length (d2_hwq d)"
    by (simp_all add: take_mark_def upd_hwq_def)
  have q: "d2_hwq ?d ! j = (let q = d2_hwq d ! j in if j = l \<and> hq_taint_state q \<noteq> KL2_HWQ_NORMAL
       then q\<lparr>hq_regular_timer_state := KL2_HWQ_STALL, hq_taint_state := KL2_HWQ_NORMAL\<rparr> else q)" if "j < length (d2_hwq d)" for j
    using l(1) that by (auto simp: take_mark_def upd_hwq_def Let_def nth_list_update)
  have "\<forall>j\<in>set qs. j < length (d2_hwq ?d)" using Cons.prems(2) d(4) by simp
  note IH = Cons.IH [OF l(2) this, unfolded d]
  have "d2_hwq (foldl take_mark ?d qs) ! j = (let q = d2_hwq d ! j in
       if j \<in> set (l # qs) \<and> hq_taint_state q \<noteq> KL2_HWQ_NORMAL
       then q\<lparr>hq_regular_timer_state := KL2_HWQ_STALL, hq_taint_state := KL2_HWQ_NORMAL\<rparr> else q)" if "j < length (d2_hwq d)" for j
    using IH q [OF that] that l(3) by (auto simp: Let_def)
  with IH show ?case by simp
qed

lemma see_idles:
  assumes "distinct qs" "\<forall>j\<in>set qs. j < length (d2_hwq d)"
  shows "\<exists>d' signal'. foldl (see_idle inp) (d, signal) qs = (d', signal') \<and>
    d2_board d' = d2_board d \<and> d2_hwq_bitmap d' = d2_hwq_bitmap d \<and> d2_sess d' = d2_sess d \<and> length (d2_hwq d') = length (d2_hwq d) \<and>
    (\<forall>j < length (d2_hwq d). d2_hwq d' ! j = (let q = d2_hwq d ! j in
       if j \<in> set qs \<and> hq_regular_timer_state q = KL2_HWQ_STALL \<and> idle_seen inp j
       then q\<lparr>hq_regular_timer_state := KL2_HWQ_UNDERWAY_EQUALS_ZERO\<rparr> else q)) \<and>
    (signal' \<longleftrightarrow> signal \<or> (\<exists>j\<in>set qs. hq_regular_timer_state (d2_hwq d ! j) = KL2_HWQ_STALL \<and> idle_seen inp j))"
  using assms
proof (induction qs arbitrary: d signal)
  case Nil then show ?case by simp
next
  case (Cons l qs)
  have l: "l < length (d2_hwq d)" "distinct qs" "l \<notin> set qs" using Cons.prems by simp_all
  let ?c = "hq_regular_timer_state (d2_hwq d ! l) = KL2_HWQ_STALL \<and> idle_seen inp l"
  define d1 where "d1 = (if ?c then upd_hwq d l (\<lambda>q. q\<lparr>hq_regular_timer_state := KL2_HWQ_UNDERWAY_EQUALS_ZERO\<rparr>) else d)"
  have s1: "see_idle inp (d, signal) l = (d1, signal \<or> ?c)" by (auto simp: see_idle_def idle_seen_def d1_def)
  have d: "d2_board d1 = d2_board d" "d2_hwq_bitmap d1 = d2_hwq_bitmap d" "d2_sess d1 = d2_sess d" "length (d2_hwq d1) = length (d2_hwq d)"
    by (simp_all add: d1_def upd_hwq_def)
  have q: "d2_hwq d1 ! j = (if j = l \<and> ?c then (d2_hwq d ! j)\<lparr>hq_regular_timer_state := KL2_HWQ_UNDERWAY_EQUALS_ZERO\<rparr> else d2_hwq d ! j)"
    if "j < length (d2_hwq d)" for j
    using l(1) that by (auto simp: d1_def upd_hwq_def nth_list_update)
  have qs: "\<forall>j\<in>set qs. j < length (d2_hwq d1)" using Cons.prems(2) d(4) by simp
  from Cons.IH [OF l(2) qs, of "signal \<or> ?c", unfolded d] obtain d' signal' where IH:
    "foldl (see_idle inp) (d1, signal \<or> ?c) qs = (d', signal')"
    "d2_board d' = d2_board d" "d2_hwq_bitmap d' = d2_hwq_bitmap d" "d2_sess d' = d2_sess d" "length (d2_hwq d') = length (d2_hwq d)"
    "\<forall>j < length (d2_hwq d). d2_hwq d' ! j = (let q = d2_hwq d1 ! j in
       if j \<in> set qs \<and> hq_regular_timer_state q = KL2_HWQ_STALL \<and> idle_seen inp j
       then q\<lparr>hq_regular_timer_state := KL2_HWQ_UNDERWAY_EQUALS_ZERO\<rparr> else q)"
    "signal' \<longleftrightarrow> (signal \<or> ?c) \<or> (\<exists>j\<in>set qs. hq_regular_timer_state (d2_hwq d1 ! j) = KL2_HWQ_STALL \<and> idle_seen inp j)"
    by blast
  have other: "d2_hwq d1 ! j = d2_hwq d ! j" if "j \<in> set qs" for j
  proof -
    have "j < length (d2_hwq d)" "j \<noteq> l" using that Cons.prems(2) l(3) by auto
    with q show ?thesis by simp
  qed
  have "d2_hwq d' ! j = (let q = d2_hwq d ! j in
       if j \<in> set (l # qs) \<and> hq_regular_timer_state q = KL2_HWQ_STALL \<and> idle_seen inp j
       then q\<lparr>hq_regular_timer_state := KL2_HWQ_UNDERWAY_EQUALS_ZERO\<rparr> else q)" if j: "j < length (d2_hwq d)" for j
  proof (cases "j = l")
    case True with IH(6) l(1,3) q [OF l(1)] show ?thesis by (simp add: Let_def)
  next
    case False with IH(6) j q [OF j] show ?thesis by (simp add: Let_def)
  qed
  moreover have "signal' \<longleftrightarrow> signal \<or> (\<exists>j\<in>set (l # qs). hq_regular_timer_state (d2_hwq d ! j) = KL2_HWQ_STALL \<and> idle_seen inp j)"
    unfolding IH(7) using other by auto
  ultimately show ?case using IH(1-5) s1 by simp
qed


definition charged_board :: "nat option \<Rightarrow> bool \<Rightarrow> kl2_board \<Rightarrow> kl2_board" where
  "charged_board hit reset b =
     (let b1 = (case hit of None \<Rightarrow> b | Some token \<Rightarrow> b\<lparr>eb_token := token, eb_excp_cnt := u32 (eb_excp_cnt b + 1)\<rparr>)
      in if reset then b1\<lparr>eb_taint_2_reset_cnt := u32 (eb_taint_2_reset_cnt b1 + 1)\<rparr> else b1)"

lemma charge_one:
  fixes d l hit
  assumes "l < length (d2_hwq d)" "l < length (d2_board d)"
  defines "d1 \<equiv> charge_queue hit d l"
  shows "d2_hwq_bitmap d1 = d2_hwq_bitmap d" "d2_sess d1 = d2_sess d"
    "d2_hwq d1 = (d2_hwq d)[l := (let q = d2_hwq d ! l in if hq_regular_timer_state q = KL2_HWQ_UNDERWAY_EQUALS_ZERO
       then q\<lparr>hq_regular_timer_state := KL2_HWQ_NORMAL\<rparr> else q)]"
    "d2_board d1 = (d2_board d)[l := charged_board (hit l) (hq_regular_timer_state (d2_hwq d ! l) = KL2_HWQ_UNDERWAY_EQUALS_ZERO) (d2_board d ! l)]"
  using assms(1,2)
  by (cases "hit l"; auto simp: d1_def charge_queue_def Let_def upd_board_def upd_hwq_def charged_board_def)+

lemma charges:
  assumes "distinct qs" "\<forall>j\<in>set qs. j < length (d2_hwq d) \<and> j < length (d2_board d)"
  shows "d2_hwq_bitmap (foldl (charge_queue hit) d qs) = d2_hwq_bitmap d \<and> d2_sess (foldl (charge_queue hit) d qs) = d2_sess d \<and>
    length (d2_hwq (foldl (charge_queue hit) d qs)) = length (d2_hwq d) \<and>
    length (d2_board (foldl (charge_queue hit) d qs)) = length (d2_board d) \<and>
    (\<forall>j < length (d2_hwq d). d2_hwq (foldl (charge_queue hit) d qs) ! j = (let q = d2_hwq d ! j in
       if j \<in> set qs \<and> hq_regular_timer_state q = KL2_HWQ_UNDERWAY_EQUALS_ZERO then q\<lparr>hq_regular_timer_state := KL2_HWQ_NORMAL\<rparr> else q)) \<and>
    (\<forall>j < length (d2_board d). d2_board (foldl (charge_queue hit) d qs) ! j =
       (if j \<in> set qs then charged_board (hit j) (hq_regular_timer_state (d2_hwq d ! j) = KL2_HWQ_UNDERWAY_EQUALS_ZERO) (d2_board d ! j)
        else d2_board d ! j))"
  using assms
proof (induction qs arbitrary: d)
  case Nil then show ?case by simp
next
  case (Cons l qs)
  have l: "l < length (d2_hwq d)" "l < length (d2_board d)" "distinct qs" "l \<notin> set qs" using Cons.prems by simp_all
  let ?d = "charge_queue hit d l"
  note c = charge_one [OF l(1,2), of hit]
  have len: "length (d2_hwq ?d) = length (d2_hwq d)" "length (d2_board ?d) = length (d2_board d)" by (simp_all add: c)
  have "\<forall>j\<in>set qs. j < length (d2_hwq ?d) \<and> j < length (d2_board ?d)" using Cons.prems(2) len by simp
  note IH = Cons.IH [OF l(3) this, unfolded len c(1,2)]
  have other: "d2_hwq ?d ! j = d2_hwq d ! j" "d2_board ?d ! j = d2_board d ! j" if "j \<noteq> l" for j
    using that by (simp_all add: c)
  have "d2_hwq (foldl (charge_queue hit) ?d qs) ! j = (let q = d2_hwq d ! j in
       if j \<in> set (l # qs) \<and> hq_regular_timer_state q = KL2_HWQ_UNDERWAY_EQUALS_ZERO then q\<lparr>hq_regular_timer_state := KL2_HWQ_NORMAL\<rparr> else q)"
    if j: "j < length (d2_hwq d)" for j
  proof (cases "j = l")
    case True with IH l(1,4) show ?thesis by (simp add: c Let_def)
  next
    case False with IH j other show ?thesis by (simp add: Let_def)
  qed
  moreover have "d2_board (foldl (charge_queue hit) ?d qs) ! j =
       (if j \<in> set (l # qs) then charged_board (hit j) (hq_regular_timer_state (d2_hwq d ! j) = KL2_HWQ_UNDERWAY_EQUALS_ZERO) (d2_board d ! j)
        else d2_board d ! j)" if j: "j < length (d2_board d)" for j
  proof (cases "j = l")
    case True with IH l(2,4) show ?thesis by (simp add: c)
  next
    case False with IH j other show ?thesis by simp
  qed
  ultimately show ?case using IH by simp
qed

text \<open>The end of a tick: what becomes of each queue and of its board.\<close>

definition marked_queue :: "kl2_hwq \<Rightarrow> bool" where
  "marked_queue q \<longleftrightarrow> hq_taint_state q \<noteq> KL2_HWQ_NORMAL \<or> hq_regular_timer_state q = KL2_HWQ_STALL"

lemma record_late_dev: "un_dev (record_late r k u) = un_dev u" "un_vf (record_late r k u) = un_vf u"
proof -
  have "un_dev (foldl (\<lambda>u i. record_timeout k tok i u) u xs) = un_dev u \<and> un_vf (foldl (\<lambda>u i. record_timeout k tok i u) u xs) = un_vf u" for tok xs u
    by (induction xs arbitrary: u) (simp_all add: record_timeout_def upd_unit_def)
  then show "un_dev (record_late r k u) = un_dev u" "un_vf (record_late r k u) = un_vf u"
    by (simp_all add: record_late_def kl2_disable_and_record_timeout_def kl2_sse_excp_disable_def write_disable_def emit_def Let_def)
qed

lemma record_late_ops: "\<exists>ops. un_ops (record_late r k u) = un_ops u @ ops"
proof -
  have "un_ops (foldl (\<lambda>u i. record_timeout k tok i u) u xs) = un_ops u" for tok xs u
    by (induction xs arbitrary: u) (simp_all add: record_timeout_def upd_unit_def)
  then show ?thesis
    by (simp add: record_late_def kl2_disable_and_record_timeout_def kl2_sse_excp_disable_def write_disable_def emit_def Let_def)
qed

lemma send_signal_ops: "\<exists>ops. un_ops (send_signal r u) = un_ops u @ ops"
proof -
  obtain a where a: "un_ops (record_late r Cluster (emit StallAll u)) = un_ops u @ StallAll # a"
    using record_late_ops [of r Cluster "emit StallAll u"] by (auto simp: emit_def)
  obtain b where "un_ops (record_late r Sdnn (record_late r Cluster (emit StallAll u))) = un_ops u @ (StallAll # a) @ b"
    using record_late_ops [of r Sdnn "record_late r Cluster (emit StallAll u)"] a by auto
  then show ?thesis by (simp add: send_signal_def Let_def)
qed

lemma after_looking_effect:
  assumes u: "u = tm_un (tr_tm r)" "d = un_dev u" and len: "length (d2_hwq d) = KL2_HWQ_CNT" "length (d2_board d) = KL2_HWQ_CNT"
    and states: "\<forall>j\<in>set (valid_queues d). hq_regular_timer_state (d2_hwq d ! j) \<in> {KL2_HWQ_NORMAL, KL2_HWQ_STALL}"
    and hits: "\<forall>j token. tr_hit r j = Some token \<longrightarrow> tr_signal r"
  shows "\<forall>j\<in>set (valid_queues d). let q = d2_hwq d ! j; q' = d2_hwq (un_dev (tm_un (after_looking inp r))) ! j;
      reset = (marked_queue q \<and> idle_seen inp j)
    in hq_taint_state q' = KL2_HWQ_NORMAL \<and>
       hq_regular_timer_state q' = (if marked_queue q \<and> \<not> reset then KL2_HWQ_STALL else KL2_HWQ_NORMAL) \<and>
       hq_rt_list q' = hq_rt_list q \<and>
       d2_board (un_dev (tm_un (after_looking inp r))) ! j = charged_board (tr_hit r j) reset (d2_board d ! j)"
    and "d2_sess (un_dev (tm_un (after_looking inp r))) = d2_sess d"
    and "valid_queues (un_dev (tm_un (after_looking inp r))) = valid_queues d"
    and "\<exists>j\<in>set (valid_queues d). marked_queue (d2_hwq d ! j) \<Longrightarrow>
      \<exists>ops. un_ops (tm_un (after_looking inp r)) = un_ops u @ StallAll # ops"
    and "\<exists>j\<in>set (valid_queues d). marked_queue (d2_hwq d ! j) \<and> idle_seen inp j \<Longrightarrow> un_work (tm_un (after_looking inp r))"
    and "tr_signal r \<Longrightarrow> un_work (tm_un (after_looking inp r))"
    and "tm_seq (after_looking inp r) = u32 (tm_seq (tr_tm r) + 1)"
proof -
  let ?qs = "valid_queues d" and ?t' = "after_looking inp r"
  let ?S = "\<lambda>j. marked_queue (d2_hwq d ! j)"
  have Q: "distinct ?qs" "\<forall>j\<in>set ?qs. j < length (d2_hwq d)" using len(1) by (auto simp: valid_queues_def)
  define d1 where "d1 = foldl take_mark d ?qs"
  note m = take_marks [OF Q, folded d1_def]
  have len1: "length (d2_hwq d1) = length (d2_hwq d)" using m by blast
  have d1q: "d2_hwq d1 ! j = (let q = d2_hwq d ! j in if hq_taint_state q \<noteq> KL2_HWQ_NORMAL
       then q\<lparr>hq_regular_timer_state := KL2_HWQ_STALL, hq_taint_state := KL2_HWQ_NORMAL\<rparr> else q)" if "j \<in> set ?qs" for j
    using m that Q(2) by simp
  have stall1: "hq_regular_timer_state (d2_hwq d1 ! j) = (if ?S j then KL2_HWQ_STALL else KL2_HWQ_NORMAL)"
    "hq_taint_state (d2_hwq d1 ! j) = KL2_HWQ_NORMAL" "hq_rt_list (d2_hwq d1 ! j) = hq_rt_list (d2_hwq d ! j)" if j: "j \<in> set ?qs" for j
    using d1q [OF j] states j by (auto simp: marked_queue_def Let_def)
  have "\<forall>j\<in>set ?qs. j < length (d2_hwq d1)" using Q(2) len1 by simp
  from see_idles [OF Q(1) this, of inp "tr_signal r"] obtain d2 signal where s: "foldl (see_idle inp) (d1, tr_signal r) ?qs = (d2, signal)"
    "d2_board d2 = d2_board d1" "d2_hwq_bitmap d2 = d2_hwq_bitmap d1" "d2_sess d2 = d2_sess d1" "length (d2_hwq d2) = length (d2_hwq d1)"
    "\<forall>j < length (d2_hwq d1). d2_hwq d2 ! j = (let q = d2_hwq d1 ! j in
       if j \<in> set ?qs \<and> hq_regular_timer_state q = KL2_HWQ_STALL \<and> idle_seen inp j
       then q\<lparr>hq_regular_timer_state := KL2_HWQ_UNDERWAY_EQUALS_ZERO\<rparr> else q)"
    "signal \<longleftrightarrow> tr_signal r \<or> (\<exists>j\<in>set ?qs. hq_regular_timer_state (d2_hwq d1 ! j) = KL2_HWQ_STALL \<and> idle_seen inp j)" by blast
  have state2: "hq_regular_timer_state (d2_hwq d2 ! j) =
      (if ?S j then if idle_seen inp j then KL2_HWQ_UNDERWAY_EQUALS_ZERO else KL2_HWQ_STALL else KL2_HWQ_NORMAL)"
    "hq_taint_state (d2_hwq d2 ! j) = KL2_HWQ_NORMAL" "hq_rt_list (d2_hwq d2 ! j) = hq_rt_list (d2_hwq d ! j)" if j: "j \<in> set ?qs" for j
    using s(6) j Q(2) len1 stall1 [OF j] by (auto simp: Let_def)
  have bm: "d2_hwq_bitmap d2 = d2_hwq_bitmap d" "d2_sess d2 = d2_sess d" "d2_board d2 = d2_board d" using m s(2-4) by simp_all
  have V2: "valid_queues d2 = ?qs" using bm(1) by (simp add: valid_queues_def)
  define need where "need = list_ex (\<lambda>j. hq_regular_timer_state (d2_hwq d1 ! j) \<noteq> KL2_HWQ_NORMAL) ?qs"
  define u2 where "u2 = (if need then emit StallAll (u\<lparr>un_dev := d1\<rparr>) else u\<lparr>un_dev := d1\<rparr>)\<lparr>un_dev := d2\<rparr>"
  have dev1: "un_dev (if need then emit StallAll (u\<lparr>un_dev := d1\<rparr>) else u\<lparr>un_dev := d1\<rparr>) = d1" by (simp add: emit_def)
  have t': "?t' = (tr_tm r)\<lparr>tm_un := if signal then send_signal r u2 else u2, tm_seq := u32 (tm_seq (tr_tm r) + 1)\<rparr>"
    unfolding after_looking_def Let_def u(1) [symmetric] u(2) [symmetric] d1_def [symmetric] need_def [symmetric] dev1 s(1) split_conv u2_def [symmetric] ..
  have dev2: "un_dev u2 = d2" by (simp add: u2_def)
  have ss: "un_dev (send_signal r u2) = foldl (charge_queue (tr_hit r)) d2 ?qs" "un_work (send_signal r u2)"
    by (simp_all add: send_signal_def Let_def record_late_dev emit_def dev2 V2)
  have fin: "un_dev (tm_un ?t') = (if signal then foldl (charge_queue (tr_hit r)) d2 ?qs else d2)"
    unfolding t' by (simp add: ss dev2)
  have "\<forall>j\<in>set ?qs. j < length (d2_hwq d2) \<and> j < length (d2_board d2)" using Q(2) s(5) len1 bm(3) len by simp
  note c = charges [OF Q(1) this, of "tr_hit r"]
  show "tm_seq ?t' = u32 (tm_seq (tr_tm r) + 1)" unfolding t' by simp
  show "d2_sess (un_dev (tm_un ?t')) = d2_sess d" unfolding fin using c bm(2) by simp
  have "d2_hwq_bitmap (un_dev (tm_un ?t')) = d2_hwq_bitmap d" unfolding fin using c bm(1) by simp
  then show "valid_queues (un_dev (tm_un ?t')) = valid_queues d" by (simp add: valid_queues_def)
  show "un_work (tm_un ?t')" if "tr_signal r" using that s(7) unfolding t' by (simp add: ss)
  show "un_work (tm_un ?t')" if "\<exists>j\<in>set ?qs. ?S j \<and> idle_seen inp j"
  proof -
    from that stall1(1) have "\<exists>j\<in>set ?qs. hq_regular_timer_state (d2_hwq d1 ! j) = KL2_HWQ_STALL \<and> idle_seen inp j" by auto
    then show ?thesis using s(7) unfolding t' by (simp add: ss)
  qed
  show "\<exists>ops. un_ops (tm_un ?t') = un_ops u @ StallAll # ops" if ex: "\<exists>j\<in>set ?qs. ?S j"
  proof -
    have need using ex stall1(1) by (auto simp: need_def list_ex_iff)
    then have "un_ops u2 = un_ops u @ [StallAll]" by (simp add: u2_def emit_def)
    with send_signal_ops [of r u2] show ?thesis unfolding t' by auto
  qed
  show "\<forall>j\<in>set ?qs. let q = d2_hwq d ! j; q' = d2_hwq (un_dev (tm_un ?t')) ! j; reset = (marked_queue q \<and> idle_seen inp j)
    in hq_taint_state q' = KL2_HWQ_NORMAL \<and>
       hq_regular_timer_state q' = (if marked_queue q \<and> \<not> reset then KL2_HWQ_STALL else KL2_HWQ_NORMAL) \<and>
       hq_rt_list q' = hq_rt_list q \<and>
       d2_board (un_dev (tm_un ?t')) ! j = charged_board (tr_hit r j) reset (d2_board d ! j)"
  proof
    fix j assume j: "j \<in> set ?qs"
    note st2 = state2 [OF j]
    show "let q = d2_hwq d ! j; q' = d2_hwq (un_dev (tm_un ?t')) ! j; reset = (marked_queue q \<and> idle_seen inp j)
    in hq_taint_state q' = KL2_HWQ_NORMAL \<and>
       hq_regular_timer_state q' = (if marked_queue q \<and> \<not> reset then KL2_HWQ_STALL else KL2_HWQ_NORMAL) \<and>
       hq_rt_list q' = hq_rt_list q \<and>
       d2_board (un_dev (tm_un ?t')) ! j = charged_board (tr_hit r j) reset (d2_board d ! j)"
    proof (cases signal)
      case True
      have q: "d2_hwq (un_dev (tm_un ?t')) ! j = (let q = d2_hwq d2 ! j in
         if hq_regular_timer_state q = KL2_HWQ_UNDERWAY_EQUALS_ZERO then q\<lparr>hq_regular_timer_state := KL2_HWQ_NORMAL\<rparr> else q)"
        unfolding fin using True c j Q(2) s(5) len1 by simp
      have "d2_board (un_dev (tm_un ?t')) ! j =
          charged_board (tr_hit r j) (hq_regular_timer_state (d2_hwq d2 ! j) = KL2_HWQ_UNDERWAY_EQUALS_ZERO) (d2_board d ! j)"
        unfolding fin using True c j Q(2) bm(3) len by simp
      with q st2 show ?thesis by (auto simp: Let_def)
    next
      case False
      have h: "tr_hit r j = None"
      proof (rule ccontr)
        assume "tr_hit r j \<noteq> None"
        with hits have "tr_signal r" by auto
        with False s(7) show False by blast
      qed
      have ni: "\<not> (?S j \<and> idle_seen inp j)" using False s(7) stall1(1) [OF j] j by auto
      have "un_dev (tm_un ?t') = d2" unfolding fin using False by simp
      then show ?thesis using st2 h ni bm(3) by (auto simp: Let_def charged_board_def)
    qed
  qed
qed


section \<open>A tick\<close>

definition start_run :: "kl2_timer \<Rightarrow> timer_run" where
  "start_run t = \<lparr>tr_tm = t, tr_status = 0, tr_found = False, tr_hit = Map.empty, tr_st = (\<lambda>_. 0), tr_signal = False\<rparr>"

lemma tick_split:
  assumes "dev_ok (un_dev (tm_un t)) hw H C W"
  shows "\<exists>u stop r P hw'. over_units dispatch_one (valid_queues (un_dev (tm_un t))) (tm_un t) = Some u \<and>
    handed (un_dev (tm_un t)) (un_dev u) \<and> u = (tm_un t)\<lparr>un_dev := un_dev u, un_ops := un_ops u\<rparr> \<and> (\<exists>ops. un_ops u = un_ops (tm_un t) @ ops) \<and>
    dev_ok (un_dev u) hw' H C W \<and> look_at_queues inp (valid_queues (un_dev (tm_un t))) (start_run (t\<lparr>tm_un := u\<rparr>)) = Some (stop, r) \<and>
    run_inv inp (t\<lparr>tm_un := u\<rparr>) hw' H C W P r \<and> P \<subseteq> set (valid_queues (un_dev (tm_un t))) \<and>
    kl2_regular_timer_func inp t = Some (if stop then tr_tm r else after_looking inp r)"
proof -
  let ?qs = "valid_queues (un_dev (tm_un t))"
  have Q: "distinct ?qs" "\<forall>j\<in>set ?qs. j < KL2_HWQ_CNT" by (auto simp: valid_queues_def)
  from dispatch_all [OF assms Q(2)] obtain u hw' where u: "over_units dispatch_one ?qs (tm_un t) = Some u" "dev_ok (un_dev u) hw' H C W"
    "handed (un_dev (tm_un t)) (un_dev u)" "u = (tm_un t)\<lparr>un_dev := un_dev u, un_ops := un_ops u\<rparr>" "\<exists>ops. un_ops u = un_ops (tm_un t) @ ops" by blast
  have ok: "dev_ok (un_dev (tm_un (t\<lparr>tm_un := u\<rparr>))) hw' H C W" using u(2) by simp
  from look_at_queues_inv [where inp = inp, OF run_start [OF ok] ok Q(1) _ Q(2)] obtain stop r P where
    l: "look_at_queues inp ?qs (start_run (t\<lparr>tm_un := u\<rparr>)) = Some (stop, r)" "run_inv inp (t\<lparr>tm_un := u\<rparr>) hw' H C W P r" "P \<subseteq> set ?qs"
    unfolding start_run_def by auto
  have "kl2_regular_timer_func inp t = Some (if stop then tr_tm r else after_looking inp r)"
    unfolding kl2_regular_timer_func_def Let_def u(1) bind.bind_lunit l(1) [unfolded start_run_def] split_conv ..
  with u l show ?thesis by blast
qed

text \<open>What a time-out writes on a unit's board.\<close>

lemma record_timeout_cong:
  "un_board u' k i = un_board u k i \<Longrightarrow> un_board (record_timeout k tok i u') k i = un_board (record_timeout k tok i u) k i"
  by (cases k) (simp_all add: record_timeout_def upd_unit_def)

lemma timeout_boards:
  "un_board (kl2_disable_and_record_timeout k st tok u) l i =
    (if l = k \<and> i \<in> set (units_flagged u k st) then un_board (record_timeout k tok i u) k i else un_board u l i)"
proof -
  have fold: "distinct is \<Longrightarrow> un_board (foldl (\<lambda>u i. record_timeout k tok i u) v is) l i =
      (if l = k \<and> i \<in> set is then un_board (record_timeout k tok i v) k i else un_board v l i)" for v "is"
  proof (induction "is" arbitrary: v)
    case (Cons n ns)
    have o: "un_board (record_timeout k tok n v) l i = un_board v l i" if "(l, i) \<noteq> (k, n)" for v
      using that by (auto simp: record_timeout_def upd_unit_def)
    note e = record_timeout_cong
    show ?case
    proof (cases "l = k \<and> i = n")
      case True with Cons show ?thesis by simp
    next
      case False with Cons o e [of "record_timeout k tok n v" k i v tok] show ?thesis by auto
    qed
  qed simp
  have d: "distinct (units_flagged u k st)" by (rule flagged_distinct)
  have b: "un_board (kl2_sse_excp_disable k m u) = un_board u" for m
    by (simp add: kl2_sse_excp_disable_def write_disable_def emit_def Let_def)
  have e: "un_board (record_timeout k tok i (kl2_sse_excp_disable k m u)) k i = un_board (record_timeout k tok i u) k i" for m
    by (rule record_timeout_cong) (simp add: b)
  show ?thesis unfolding kl2_disable_and_record_timeout_def fold [OF d] b e ..
qed

lemma record_late_boards:
  "un_board (record_late r k u) l i = (if l = k \<and> i \<in> set (units_flagged u k (tr_st r k))
     then un_board (record_timeout k (tm_unit_token (tr_tm r) k) i u) k i else un_board u l i)"
  by (simp add: record_late_def timeout_boards units_flagged_def)

lemma record_late_units: "units_flagged (record_late r k u) l st = units_flagged u l st"
proof -
  have "un_default_cuen (foldl (\<lambda>u i. record_timeout k tok i u) u xs) = un_default_cuen u" for tok xs u
    by (induction xs arbitrary: u) (simp_all add: record_timeout_def upd_unit_def)
  then have "un_default_cuen (record_late r k u) = un_default_cuen u"
    by (simp add: record_late_def kl2_disable_and_record_timeout_def kl2_sse_excp_disable_def write_disable_def emit_def Let_def)
  then show ?thesis by (cases l) (simp_all add: units_flagged_def valid_units_def cluster_invalid_def sdnn_invalid_def)
qed

lemma send_signal_boards:
  "un_board (send_signal r u) k i = (if i \<in> set (units_flagged u k (tr_st r k))
     then un_board (record_timeout k (tm_unit_token (tr_tm r) k) i u) k i else un_board u k i)"
proof -
  have e: "un_board (emit StallAll u) = un_board u" "units_flagged (emit StallAll u) l st = units_flagged u l st" for l st
    by (cases l; simp add: emit_def units_flagged_def valid_units_def cluster_invalid_def sdnn_invalid_def)+
  have s: "un_board (send_signal r u) = un_board (record_late r Sdnn (record_late r Cluster (emit StallAll u)))"
    by (simp add: send_signal_def Let_def)
  show ?thesis
  proof (cases k)
    case Cluster
    have "un_board (record_timeout k tok i (emit StallAll u)) k i = un_board (record_timeout k tok i u) k i" for tok
      by (rule record_timeout_cong) (simp add: e)
    with Cluster show ?thesis unfolding s by (simp add: record_late_boards record_late_units e)
  next
    case Sdnn
    have "un_board (record_timeout k tok i (record_late r Cluster (emit StallAll u))) k i = un_board (record_timeout k tok i u) k i" for tok
      by (rule record_timeout_cong) (simp add: record_late_boards e Sdnn)
    with Sdnn show ?thesis unfolding s by (simp add: record_late_boards record_late_units e)
  qed
qed

end
