(* ===== verification/Kl2_Unit_Claims.thy ===== *)
theory Kl2_Unit_Claims
  imports Kl2_Unit_Pass Kl2_Work_Tasks Kl2_Runs
begin

text \<open>The properties of the recovery of compute units, and of the work item as a whole.\<close>

section \<open>The interrupt returns\<close>

text \<open>When the queues it names have a board.\<close>

definition queues_named :: "(unit_kind \<Rightarrow> nat \<Rightarrow> nat) \<Rightarrow> kl2_units \<Rightarrow> bool" where
  "queues_named map_hwq u \<longleftrightarrow> (\<forall>k i. map_hwq k i < length (d2_board (un_dev u)))"

lemma queues_named_dev: "length (d2_board (un_dev u')) = length (d2_board (un_dev u)) \<Longrightarrow> queues_named m u' = queues_named m u"
  by (simp add: queues_named_def)

lemma record_excp_returns:
  assumes "queues_named map_hwq u"
  shows "\<exists>u'. record_excp k regs (map_hwq k) i u = Some u' \<and> queues_named map_hwq u'"
  using assms by (cases "un_vf u") (auto simp: record_excp_def Let_def charge_board_def queues_named_def upd_unit_def upd_board_def)

lemma record_excps_return:
  "queues_named map_hwq u \<Longrightarrow> \<exists>u'. over_units (record_excp k regs (map_hwq k)) is u = Some u' \<and> queues_named map_hwq u'"
proof (induction "is" arbitrary: u)
  case (Cons i "is")
  from record_excp_returns [OF Cons.prems, of k regs i] Cons.IH show ?case by fastforce
qed auto

lemma excp_irq_kind_returns:
  assumes "queues_named map_hwq u"
  shows "\<exists>u'. excp_irq_kind st regs map_hwq k u = Some u' \<and> queues_named map_hwq u'"
proof (cases "st k = 0")
  case True with assms show ?thesis by (simp add: excp_irq_kind_def)
next
  case False
  let ?u = "kl2_intc_int_mask (int_source k) (st k) u"
  have "queues_named map_hwq (kl2_sse_excp_disable k (unit_mask (units_flagged ?u k (st k))) ?u)"
    using assms by (simp add: queues_named_def kl2_sse_excp_disable_def write_disable_def emit_def Let_def
      kl2_intc_int_mask_def kl2_intc_set_int_mask_def)
  from record_excps_return [OF this] False show ?thesis by (simp add: excp_irq_kind_def kl2_disable_and_record_excp_def)
qed

lemma irq_returns:
  assumes "queues_named map_hwq u"
  shows "\<exists>u'. kl2_handle_excp_irq st regs map_hwq u = Some u'"
proof -
  let ?u = "if st Cluster \<noteq> 0 \<or> st Sdnn \<noteq> 0 then emit StallAll u else u"
  have "queues_named map_hwq ?u" using assms by (simp add: queues_named_def emit_def)
  from excp_irq_kind_returns [OF this] obtain u1 where u1: "excp_irq_kind st regs map_hwq Cluster ?u = Some u1" "queues_named map_hwq u1" by blast
  from excp_irq_kind_returns [OF u1(2)] obtain u2 where "excp_irq_kind st regs map_hwq Sdnn u1 = Some u2" by blast
  with u1(1) show ?thesis unfolding kl2_handle_excp_irq_def Let_def over_units.simps by simp
qed

section \<open>A run\<close>

text \<open>
  A device with all units. A task of cluster 2 runs for too long, so that the timer takes the cluster
  off; then SDNN 1 has an exception, for which queue 0 is charged.
\<close>

definition demo_units :: kl2_units where
  "demo_units = \<lparr>un_dev = demo3_dev, un_vf = False, un_pf = False, un_default_cuen = 0xffffffff,
     un_board = (\<lambda>_ _. clear_board), un_int_mask = (\<lambda>_. 0), un_shadow = (\<lambda>_ _. (0, 0)), un_cuen_mask = 0,
     un_excp_mask = 0, un_disable = 0, un_running = False, un_errno = None, un_work = False, un_ops = []\<rparr>"

definition demo_late :: kl2_units where
  "demo_late = kl2_disable_and_record_timeout Cluster 0x20 (\<lambda>_. 7) demo_units"

definition demo_regs :: "unit_kind \<Rightarrow> nat \<Rightarrow> unit_regs" where
  "demo_regs k i = \<lparr>ur_token = 100, ur_cl_st = 0, ur_cl_mask = 0, ur_sd_st = 0, ur_sd_mask = 0\<rparr>"

fun demo_status :: "unit_kind \<Rightarrow> 32 word" where
  "demo_status Cluster = 0"
| "demo_status Sdnn = 8"

definition demo_hurt :: kl2_units where
  "demo_hurt = the (kl2_handle_excp_irq demo_status demo_regs (\<lambda>_ _. 0) demo_late)"

lemma demo_valid: "valid_units demo_units Cluster = [0..<8]" "valid_units demo_units Sdnn = [0..<6]"
  by (simp_all add: valid_units_def cluster_invalid_def sdnn_invalid_def demo_units_def upt_rec)

lemma demo_fresh: "units_fresh demo_units"
  by (simp add: units_fresh_def demo_units_def)

lemma demo_late_same: "same_device demo_units demo_late"
  unfolding demo_late_def using timeouts_effect [of demo_units] fresh_inv [OF demo_fresh] units_inv_parts(2) by fastforce

lemma demo_flagged: "units_flagged demo_units Cluster 0x20 = [2]" "units_flagged demo_units Sdnn 8 = [1]"
  by (simp_all add: units_flagged_def demo_valid excp_bit_def upt_rec)

lemma demo_board: "un_board demo_late k i = (if k = Cluster \<and> i = 2 then
    clear_board\<lparr>ub_cl_st := push_bit CE_TASK_TIMEOUT 1, ub_timeout_token := 7, ub_timeout_cnt := 1\<rparr> else clear_board)"
  by (simp add: demo_late_def kl2_disable_and_record_timeout_def demo_flagged record_timeout_def upd_unit_def
    kl2_sse_excp_disable_def write_disable_def emit_def Let_def u32_def clear_board_def) (simp add: demo_units_def clear_board_def)

lemma demo_late_reach: "unit_reach demo_units \<lparr>us_un = demo_late, us_todo = [], us_hurt = {}\<rparr>"
proof -
  have "unit_reach demo_units (\<lparr>us_un = demo_units, us_todo = [], us_hurt = {}\<rparr>
      \<lparr>us_un := kl2_disable_and_record_timeout Cluster 0x20 (\<lambda>_. 7) demo_units\<rparr>)"
    using ur_timeout [OF ur_start, where k = Cluster and st = "0x20" and tokens = "\<lambda>_. 7"]
    by (auto simp: demo_flagged may_report_def demo_units_def clear_board_def)
  then show ?thesis by (simp add: demo_late_def)
qed


lemma demo_late_flagged: "units_flagged demo_late k st = units_flagged demo_units k st"
  by (rule flagged_same [OF demo_late_same])

lemma demo_late_parts: "un_dev demo_late = demo3_dev" "\<not> un_vf demo_late" "\<not> un_pf demo_late" "length (d2_board demo3_dev) = KL2_HWQ_CNT"
proof -
  have "un_dev demo_late = un_dev demo_units" "un_vf demo_late = un_vf demo_units" "un_pf demo_late = un_pf demo_units"
    by (simp_all add: demo_late_def kl2_disable_and_record_timeout_def demo_flagged record_timeout_def upd_unit_def
      kl2_sse_excp_disable_def write_disable_def emit_def Let_def)
  then show "un_dev demo_late = demo3_dev" "\<not> un_vf demo_late" "\<not> un_pf demo_late" by (simp_all add: demo_units_def)
  have "y2_dev demo3 = demo3_dev" by (simp add: demo3_def)
  then show "length (d2_board demo3_dev) = KL2_HWQ_CNT"
    using dev_okD(2) [OF kl2_reachable_ok [OF demo3_reachable, unfolded sys2_ok_def]] by (simp add: shape_def)
qed

lemma demo_irq_runs: "\<exists>u. kl2_handle_excp_irq demo_status demo_regs (\<lambda>_ _. 0) demo_late = Some u \<and>
    un_dev u = upd_board demo3_dev 0 (\<lambda>b. b\<lparr>eb_token := 100, eb_excp_cnt := u32 (eb_excp_cnt b + 1)\<rparr>) \<and> \<not> un_vf u"
proof -
  let ?u1 = "kl2_intc_int_mask (int_source Sdnn) 8 (emit StallAll demo_late)"
  have sd: "same_device demo_late ?u1" using int_mask_effect(2) by (simp add: kl2_intc_int_mask_def emit_def same_device_def kl2_intc_set_int_mask_def)
  have f: "units_flagged ?u1 Sdnn 8 = [1]"
    unfolding flagged_same [OF sd] demo_late_flagged demo_flagged ..
  let ?u2 = "kl2_sse_excp_disable Sdnn (unit_mask [1]) ?u1"
  have u2: "un_dev ?u2 = demo3_dev" "\<not> un_vf ?u2"
    using demo_late_parts by (simp_all add: kl2_sse_excp_disable_def write_disable_def emit_def Let_def kl2_intc_int_mask_def kl2_intc_set_int_mask_def)
  have "0 < length (d2_board demo3_dev)" using demo_late_parts(4) by (simp add: KL2_HWQ_CNT_def)
  then obtain u3 where u3: "record_excp Sdnn (demo_regs Sdnn) (\<lambda>_. 0) 1 ?u2 = Some u3"
    "un_dev u3 = upd_board demo3_dev 0 (\<lambda>b. b\<lparr>eb_token := 100, eb_excp_cnt := u32 (eb_excp_cnt b + 1)\<rparr>)" "\<not> un_vf u3"
    using u2 by (auto simp: record_excp_def charge_board_def demo_regs_def upd_unit_def)
  have k: "kl2_disable_and_record_excp Sdnn 8 (demo_regs Sdnn) (\<lambda>_. 0) ?u1 = Some u3"
    unfolding kl2_disable_and_record_excp_def f using u3(1) by simp
  have "kl2_handle_excp_irq demo_status demo_regs (\<lambda>_ _. 0) demo_late = Some (u3\<lparr>un_work := True\<rparr>)"
    unfolding kl2_handle_excp_irq_def using demo_late_parts(3) k by (simp add: excp_irq_kind_def)
  with u3 show ?thesis by simp
qed

lemma demo_irq: "kl2_handle_excp_irq demo_status demo_regs (\<lambda>_ _. 0) demo_late = Some demo_hurt"
  and demo_hurt_parts: "un_dev demo_hurt = upd_board demo3_dev 0 (\<lambda>b. b\<lparr>eb_token := 100, eb_excp_cnt := u32 (eb_excp_cnt b + 1)\<rparr>)"
    "\<not> un_vf demo_hurt"
  using demo_irq_runs by (auto simp: demo_hurt_def)

lemma demo_hurt_reach: "unit_reach demo_units \<lparr>us_un = demo_hurt, us_todo = [], us_hurt = {(Sdnn, 1)}\<rparr>"
proof -
  have A: "reports \<lparr>us_un = demo_late, us_todo = [], us_hurt = {}\<rparr> demo_status = {(Sdnn, 1)}"
  proof (rule set_eqI)
    fix x :: "unit_kind \<times> nat"
    obtain k i where x: "x = (k, i)" by (cases x)
    have "units_flagged demo_units Cluster 0 = []" by (simp add: units_flagged_def)
    then show "x \<in> reports \<lparr>us_un = demo_late, us_todo = [], us_hurt = {}\<rparr> demo_status \<longleftrightarrow> x \<in> {(Sdnn, 1)}"
      unfolding x reports_def by (cases k) (simp_all add: demo_late_flagged demo_flagged)
  qed
  have "unit_reach demo_units (\<lparr>us_un = demo_late, us_todo = [], us_hurt = {}\<rparr>
      \<lparr>us_un := demo_hurt, us_hurt := us_hurt \<lparr>us_un = demo_late, us_todo = [], us_hurt = {}\<rparr> \<union>
        reports \<lparr>us_un = demo_late, us_todo = [], us_hurt = {}\<rparr> demo_status\<rparr>)"
    by (rule ur_irq [OF demo_late_reach])
      (use demo_irq in \<open>auto simp: A may_report_def demo_board clear_board_def\<close>)
  then show ?thesis by (simp add: A)
qed

lemma pass_effect:
  assumes inv: "units_inv \<lparr>us_un = u, us_todo = [], us_hurt = H\<rparr>" and vf: "\<not> un_vf u"
  shows "\<exists>u' H'. kl2_excp_reset_excp_timeout_cu busy hwq_id u = Some u' \<and>
    units_inv \<lparr>us_un = u', us_todo = [], us_hurt = H'\<rparr> \<and> un_dev u' = un_dev u \<and> un_vf u' = un_vf u \<and>
    queue_ops (un_ops u') = queue_ops (un_ops u) \<and> un_default_cuen u' = un_default_cuen u \<and>
    resets_of (un_ops u') = resets_of (un_ops u) @ concat (map (\<lambda>(k, i). resets_due (un_board u k i) (busy k i) (k, i)) (all_units u)) \<and>
    (\<forall>k. \<forall>i\<in>set (valid_units u k). \<not> unit_pending (un_board u' k i) \<and> \<not> bit (un_int_mask u' (int_source k)) (i * 2 + 1)) \<and>
    un_excp_mask u' = 0 \<and> kl2_check_sse_cu_disable_mask u'"
proof -
  have v: "\<forall>(k, i)\<in>set (all_units u). i \<in> set (valid_units u k)" by (auto simp: all_units_iff)
  from recovers_effect [OF inv v all_units_distinct vf] obtain u' H' where r:
    "over_units (recover_unit busy hwq_id) (all_units u) u = Some u'" "units_inv \<lparr>us_un = u', us_todo = [], us_hurt = H'\<rparr>"
    "un_dev u' = un_dev u" "un_default_cuen u' = un_default_cuen u"
    "resets_of (un_ops u') = resets_of (un_ops u) @ concat (map (\<lambda>(k, i). resets_due (un_board u k i) (busy k i) (k, i)) (all_units u))"
    "un_vf u' = un_vf u" "queue_ops (un_ops u') = queue_ops (un_ops u)"
    "\<forall>(k, i)\<in>set (all_units u). \<not> unit_pending (un_board u' k i)"
    by blast
  have vu: "valid_units u' k = valid_units u k" for k
    using r(4) by (cases k) (simp_all add: valid_units_def cluster_invalid_def sdnn_invalid_def)
  have np: "\<not> unit_pending (un_board u' k i)" if "i \<in> set (valid_units u k)" for k i
    using r(8) that by (auto simp: all_units_iff)
  note i = idle_pending [OF r(2), unfolded unit_sys.select_convs, OF refl, unfolded vu]
  note n = nothing_off [OF units_inv_parts(2) [OF r(2), unfolded unit_sys.select_convs], unfolded vu, OF i(1)]
  have "un_excp_mask u' = 0" "kl2_check_sse_cu_disable_mask u'"
    using n np by (simp_all add: kl2_check_sse_cu_disable_mask_def)
  moreover have "\<not> bit (un_int_mask u' (int_source k)) (i * 2 + 1)" if "i \<in> set (valid_units u k)" for k i
    using i(2) [OF that np [OF that]] by (simp add: is_masked_def)
  ultimately show ?thesis
    using r np unfolding kl2_excp_reset_excp_timeout_cu_def by blast
qed

section \<open>The units\<close>





lemma demo_hurt_valid: "valid_units demo_hurt k = valid_units demo_units k"
proof -
  have "same_device demo_late demo_hurt"
    by (rule conjunct1 [OF conjunct2 [OF irq_effect [OF _ demo_late_parts(3) demo_irq]]])
      (use units_inv_parts(2) [OF reach_inv [OF demo_fresh demo_late_reach]] in simp)
  then show ?thesis using same_device_trans [OF demo_late_same] by simp
qed


text \<open>When an exception and a time-out are on record and the unit is still busy, both decisions fall for a reset.\<close>

lemma kl2_reset_twice:
  assumes "\<not> un_vf u" and "ub_reset_cnt (un_board u k i) < ub_excp_cnt (un_board u k i)"
    and "ub_timeout_reset_cnt (un_board u k i) < ub_timeout_cnt (un_board u k i)"
    and "busy k i = ub_timeout_token (un_board u k i)" and "i < unit_max k" and "\<not> bit (un_cuen_mask u) (cu_pos k i)"
  shows "\<exists>u' m v. recover_unit busy hwq_id (k, i) u = Some u' \<and> \<not> bit v (cu_pos k i) \<and>
    un_ops u' = un_ops u @ [ResetUnit k i, WriteExcpMask k i (un_shadow u k i), WriteIntMask (int_source k) m, ForceDone k i, WriteDisable v,
      ResetUnit k i, WriteExcpMask k i (un_shadow u k i), WriteIntMask (int_source k) m, ForceDone k i, WriteDisable v]"
proof -
  let ?m = "un_int_mask u (int_source k) AND NOT (excp_bit i)"
  let ?v = "(un_cuen_mask u OR (un_excp_mask u AND NOT (cu_bits k (push_bit i 1)))) AND 0x003f00ff"
  have plan: "unit_plan (un_vf u) (un_board u k i) k i (busy k i) (hwq_id k i) = reset_sects k i @ reset_sects k i"
    using assms(1-4) by (simp add: unit_plan_def)
  have v: "\<not> bit ?v (cu_pos k i)"
    using assms(5,6) bit_cu_one [OF assms(5,5)] cu_pos_32 [OF assms(5)]
    by (auto simp: bit_and_iff bit_or_iff bit_not_iff simp del: push_bit_of_1)
  have again: "a AND NOT b AND NOT b = a AND NOT b" for a b :: "32 word" by (simp add: and.assoc)
  have "\<exists>u'. over_units exec_sect (reset_sects k i @ reset_sects k i) u = Some u' \<and>
    un_ops u' = un_ops u @ [ResetUnit k i, WriteExcpMask k i (un_shadow u k i), WriteIntMask (int_source k) ?m, ForceDone k i, WriteDisable ?v,
      ResetUnit k i, WriteExcpMask k i (un_shadow u k i), WriteIntMask (int_source k) ?m, ForceDone k i, WriteDisable ?v]"
    by (simp add: reset_sects_def emit_def upd_unit_def kl2_intc_int_unmask_def kl2_intc_set_int_mask_def kl2_sse_excp_enable_def
      write_disable_def Let_def again del: push_bit_of_1)
  with v show ?thesis unfolding recover_unit_def prod.case plan by blast
qed

text \<open>C28: A unit that was late and is found to have gone on, so that it is returned to work without a reset:
  if it has an exception after its board was read, the record of the exception is wiped, the unit is
  not reset, the scheduler may use it, and its interrupt stays masked; later passes find nothing to do.\<close>
theorem kl2_exception_lost:
  fixes k i
  assumes "units_fresh u0" and "unit_reach u0 s" and "us_todo s = []"
  defines "b \<equiv> un_board (us_un s) k i"
  assumes "i \<in> set (valid_units (us_un s) k)" and "ub_excp_cnt b = 0" and "0 < ub_timeout_cnt b" and "busy_token \<noteq> ub_timeout_token b"
    and irq: "kl2_handle_excp_irq st regs map_hwq (us_un s) = Some u1" and "bit (st k) (i * 2 + 1)"
    and work: "over_units exec_sect (unit_plan (un_vf (us_un s)) b k i busy_token hwq_id) u1 = Some u2"
  shows "ub_excp_cnt (un_board u1 k i) = 1 \<and> bit (un_disable u1) (cu_pos k i) \<and>
    un_board u2 k i = clear_board \<and> \<not> bit (un_excp_mask u2) (cu_pos k i) \<and> resets_of (un_ops u2) = resets_of (un_ops u1) \<and>
    bit (un_int_mask u2 (int_source k)) (i * 2 + 1) \<and> recover_unit busy hwq_id' (k, i) u2 = Some u2"
proof -
  note inv = reach_inv [OF assms(1,2)]
  have ki: "(k, i) \<in> the_units (us_un s)" using assms(5) by (simp add: the_units_def)
  have r: "ub_timeout_reset_cnt b = 0" using units_invD(1) [OF inv ki] by (simp add: b_def counts_def)
  have F: "i \<in> set (units_flagged (us_un s) k (st k))" using assms(5,10) by (simp add: flagged_iff)
  note p = units_inv_parts(1,2) [OF inv]
  note e = irq_effect [OF p(2,1) irq]
  have off: "is_off u1 k i" and m1: "is_masked u1 k i" using conjunct1 [OF conjunct2 [OF conjunct2 [OF e]]] assms(5) F by auto
  have "counts (un_board u1 k i) = counts (b\<lparr>ub_excp_cnt := u32 (ub_excp_cnt b + 1)\<rparr>)"
    using conjunct2 [OF conjunct2 [OF conjunct2 [OF e]]] F by (simp add: counted_def Let_def b_def)
  then have one: "ub_excp_cnt (un_board u1 k i) = 1" using assms(6) by (simp add: counts_def u32_def)
  have vu: "i \<in> set (valid_units u1 k)" using conjunct1 [OF conjunct2 [OF e]] assms(5) by simp
  have "unit_plan (un_vf (us_un s)) b k i busy_token hwq_id = [S_clear k i, S_enable k i]"
    using assms(6-8) r by (simp add: unit_plan_def)
  with work have u2: "u2 = kl2_sse_excp_enable k (push_bit i 1) (upd_unit k i (\<lambda>_. clear_board) u1)"
    by (simp del: push_bit_of_1)
  have mk: "masks_ok (upd_unit k i (\<lambda>_. clear_board) u1)"
    using conjunct1 [OF e] same_masks_keeps(1) [of u1 "upd_unit k i (\<lambda>_. clear_board) u1"]
    by (simp add: same_masks_def same_device_def upd_unit_def)
  note en = enable_effect [OF mk valid_max [OF assms(5)], folded u2]
  have "un_board u2 k i = clear_board" unfolding en(3) by (simp add: upd_unit_def)
  moreover have "\<not> bit (un_excp_mask u2) (cu_pos k i)" using en(5) [OF valid_max [OF assms(5)]] by (simp add: is_off_def)
  moreover have "resets_of (un_ops u2) = resets_of (un_ops u1)"
    unfolding u2 by (simp add: kl2_sse_excp_enable_def write_disable_def emit_def upd_unit_def Let_def)
  moreover have "bit (un_int_mask u2 (int_source k)) (i * 2 + 1)"
    using m1 unfolding en(4) by (simp add: is_masked_def upd_unit_def)
  moreover have "recover_unit busy hwq_id' (k, i) u2 = Some u2"
    using \<open>un_board u2 k i = clear_board\<close> by (simp add: recover_unit_def unit_plan_def clear_board_def)
  ultimately show ?thesis using one off_disabled [OF conjunct1 [OF e] vu off] by blast
qed


theorem kl2_exception_lost_witness:
  "\<exists>st u1 u2. kl2_handle_excp_irq st demo_regs (\<lambda>_ _. 0) demo_late = Some u1 \<and> ub_excp_cnt (un_board u1 Cluster 2) = 1 \<and>
    over_units exec_sect (unit_plan False (un_board demo_late Cluster 2) Cluster 2 8 0) u1 = Some u2 \<and>
    un_board u2 Cluster 2 = clear_board \<and> bit (un_int_mask u2 1) 5"
proof -
  let ?st = "case_unit_kind 0x20 0 :: unit_kind \<Rightarrow> 32 word"
  have "queues_named (\<lambda>_ _. 0) demo_late" using demo_late_parts(1,4) by (simp add: queues_named_def KL2_HWQ_CNT_def)
  from irq_returns [OF this] obtain u1 where u1: "kl2_handle_excp_irq ?st demo_regs (\<lambda>_ _. 0) demo_late = Some u1" by blast
  obtain u2 where u2: "over_units exec_sect (unit_plan False (un_board demo_late Cluster 2) Cluster 2 8 0) u1 = Some u2"
    using sects_total [OF plan_facts(1)] by blast
  have "2 \<in> set (valid_units demo_late Cluster)" using demo_valid same_device_valid [OF demo_late_same] by simp
  from kl2_exception_lost [OF demo_fresh demo_late_reach, unfolded unit_sys.select_convs, OF refl this _ _ _ u1, where busy_token = 8]
    u2 demo_late_parts(2)
  have "ub_excp_cnt (un_board u1 Cluster 2) = 1 \<and> un_board u2 Cluster 2 = clear_board \<and> bit (un_int_mask u2 1) 5"
    by (simp add: demo_board clear_board_def)
  with u1 u2 show ?thesis by blast
qed

section \<open>The work item as a whole\<close>

text \<open>The waits for a queue end: no task is under way before the time is up.\<close>

fun waits_end :: "unit_poll list \<Rightarrow> bool" where
  "waits_end [] \<longleftrightarrow> False"
| "waits_end (p # ps) \<longleftrightarrow> po_underway p = 0 \<or> (\<not> po_late p \<and> waits_end ps)"

definition all_quiet :: "kl2_units \<Rightarrow> bool" where
  "all_quiet u \<longleftrightarrow> (\<forall>k. \<forall>i\<in>set (valid_units u k). \<not> unit_pending (un_board u k i) \<and> \<not> bit (un_int_mask u (int_source k)) (i * 2 + 1)) \<and>
    un_excp_mask u = 0 \<and> kl2_check_sse_cu_disable_mask u"

definition units_only :: "kl2_units \<Rightarrow> kl2_units \<Rightarrow> bool" where
  "units_only u u' \<longleftrightarrow> un_dev u' = un_dev u \<and> un_vf u' = un_vf u \<and> queue_ops (un_ops u') = queue_ops (un_ops u)"

lemma pass_quiet:
  assumes "units_inv \<lparr>us_un = u, us_todo = [], us_hurt = H\<rparr>" and "\<not> un_vf u"
  shows "\<exists>u' H'. kl2_excp_reset_excp_timeout_cu busy hwq_id u = Some u' \<and>
    units_inv \<lparr>us_un = u', us_todo = [], us_hurt = H'\<rparr> \<and> units_only u u' \<and> all_quiet u'"
proof -
  from pass_effect [OF assms, of busy hwq_id] obtain u' H' where u': "kl2_excp_reset_excp_timeout_cu busy hwq_id u = Some u'"
    "units_inv \<lparr>us_un = u', us_todo = [], us_hurt = H'\<rparr>" "un_dev u' = un_dev u" "un_vf u' = un_vf u"
    "queue_ops (un_ops u') = queue_ops (un_ops u)" "un_default_cuen u' = un_default_cuen u"
    "\<forall>k. \<forall>i\<in>set (valid_units u k). \<not> unit_pending (un_board u' k i) \<and> \<not> bit (un_int_mask u' (int_source k)) (i * 2 + 1)"
    "un_excp_mask u' = 0" "kl2_check_sse_cu_disable_mask u'" by blast
  have "valid_units u' k = valid_units u k" for k
    using u'(6) by (cases k) (simp_all add: valid_units_def cluster_invalid_def sdnn_invalid_def)
  with u' show ?thesis by (auto simp: all_quiet_def units_only_def)
qed

lemma poll_queue_ends:
  assumes "waits_end ps" "units_inv \<lparr>us_un = u, us_todo = [], us_hurt = H\<rparr>" "\<not> un_vf u"
  shows "\<exists>u' H'. poll_queue ps u = Some (True, u') \<and> units_inv \<lparr>us_un = u', us_todo = [], us_hurt = H'\<rparr> \<and> units_only u u' \<and> all_quiet u'"
  using assms
proof (induction ps arbitrary: u H)
  case (Cons p ps)
  from pass_quiet [OF Cons.prems(2,3), of "po_busy p" "po_hwq p"] obtain u1 H1 where u1:
    "kl2_excp_reset_excp_timeout_cu (po_busy p) (po_hwq p) u = Some u1" "units_inv \<lparr>us_un = u1, us_todo = [], us_hurt = H1\<rparr>"
    "units_only u u1" "all_quiet u1" by blast
  show ?case
  proof (cases "po_underway p = 0")
    case True with u1 show ?thesis by auto
  next
    case False
    with Cons.prems(1) have w: "\<not> po_late p" "waits_end ps" by simp_all
    have "\<not> un_vf u1" using u1(3) Cons.prems(3) by (simp add: units_only_def)
    from Cons.IH [OF w(2) u1(2) this] u1 w(1) False show ?thesis by (auto simp: units_only_def)
  qed
qed simp

lemma poll_queues_end:
  assumes "\<forall>i\<in>set qs. waits_end (polls i)" "units_inv \<lparr>us_un = u, us_todo = [], us_hurt = H\<rparr>" "\<not> un_vf u"
  shows "\<exists>z u' H'. poll_queues polls qs u = Some (z, u') \<and> (\<forall>i\<in>set qs. z i) \<and> units_inv \<lparr>us_un = u', us_todo = [], us_hurt = H'\<rparr> \<and>
    units_only u u' \<and> (qs \<noteq> [] \<or> all_quiet u \<longrightarrow> all_quiet u')"
  using assms
proof (induction qs arbitrary: u H)
  case Nil then show ?case by (auto simp: units_only_def)
next
  case (Cons i qs)
  have "waits_end (polls i)" using Cons.prems(1) by simp
  from poll_queue_ends [OF this Cons.prems(2,3)] obtain u1 H1 where u1: "poll_queue (polls i) u = Some (True, u1)"
    "units_inv \<lparr>us_un = u1, us_todo = [], us_hurt = H1\<rparr>" "units_only u u1" "all_quiet u1" by blast
  have "\<forall>i\<in>set qs. waits_end (polls i)" "\<not> un_vf u1" using Cons.prems u1(3) by (simp_all add: units_only_def)
  from Cons.IH [OF this(1) u1(2) this(2)] obtain z u' H' where u': "poll_queues polls qs u1 = Some (z, u')" "\<forall>i\<in>set qs. z i"
    "units_inv \<lparr>us_un = u', us_todo = [], us_hurt = H'\<rparr>" "units_only u1 u'" "all_quiet u'" using u1(4) by blast
  have "units_only u u'" using u1(3) u'(4) by (simp add: units_only_def)
  with u1 u' show ?case by (auto simp: fun_upd_def)
qed


lemma all_quiet_frame:
  assumes "same_masks u u'" "un_board u' = un_board u" "all_quiet u"
  shows "all_quiet u'"
proof -
  have v: "valid_units u' k = valid_units u k" for k using same_masks_keeps(4) [OF assms(1)] by simp
  have "un_int_mask u' = un_int_mask u" "un_excp_mask u' = un_excp_mask u" "un_pf u' = un_pf u" "un_disable u' = un_disable u"
    "un_cuen_mask u' = un_cuen_mask u" using assms(1) by (simp_all add: same_masks_def same_device_def)
  note eqs = this
  have "all_quiet u' = all_quiet u" unfolding all_quiet_def kl2_check_sse_cu_disable_mask_def v assms(2) eqs by (rule refl)
  with assms(3) show ?thesis by blast
qed

lemma not_in_excp:
  assumes "all_quiet u" and "\<forall>i\<in>set (valid_queues (un_dev u)). board_idle (d2_board (un_dev u) ! i)"
  shows "\<not> kl2_in_excp u"
  using assms by (auto simp: kl2_in_excp_def all_quiet_def all_units_iff list_ex_iff board_idle_def Let_def)



end
