(* ===== verification/Kl2_Timer_Claims.thy ===== *)
theory Kl2_Timer_Claims
  imports Kl2_Timer_Props Kl2_Unit_Claims Kl2_Claims
begin

text \<open>
  The properties of the regular timer: what a tick takes off, what becomes of marked queues, that a tick is a
  run of the steps of the units, and when ticks end early for ever.
\<close>

section \<open>The units\<close>

lemma see_idle_signal: "signal \<Longrightarrow> snd (foldl (see_idle inp) (d, signal) js)"
proof (induction js arbitrary: d signal)
  case (Cons j js) then show ?case by (cases "see_idle inp (d, signal) j") (auto simp: see_idle_def split: if_splits)
qed simp

lemma after_looking_form:
  "\<exists>u2 signal. tm_un (after_looking inp r) = (if signal then send_signal r u2 else u2) \<and>
    u2 = (tm_un (tr_tm r))\<lparr>un_dev := un_dev u2, un_ops := un_ops u2\<rparr> \<and> (tr_signal r \<longrightarrow> signal)"
proof -
  let ?u = "tm_un (tr_tm r)"
  let ?qs = "valid_queues (un_dev ?u)"
  let ?d1 = "foldl take_mark (un_dev ?u) ?qs"
  let ?u1 = "if list_ex (\<lambda>j. hq_regular_timer_state (d2_hwq ?d1 ! j) \<noteq> KL2_HWQ_NORMAL) ?qs
    then emit StallAll (?u\<lparr>un_dev := ?d1\<rparr>) else ?u\<lparr>un_dev := ?d1\<rparr>"
  obtain d2 signal where s: "foldl (see_idle inp) (un_dev ?u1, tr_signal r) ?qs = (d2, signal)" by (cases "foldl (see_idle inp) (un_dev ?u1, tr_signal r) ?qs")
  have "tm_un (after_looking inp r) = (if signal then send_signal r (?u1\<lparr>un_dev := d2\<rparr>) else ?u1\<lparr>un_dev := d2\<rparr>)"
    unfolding after_looking_def Let_def s split_conv by simp
  moreover have "?u1\<lparr>un_dev := d2\<rparr> = ?u\<lparr>un_dev := un_dev (?u1\<lparr>un_dev := d2\<rparr>), un_ops := un_ops (?u1\<lparr>un_dev := d2\<rparr>)\<rparr>"
    by (simp add: emit_def)
  moreover have "tr_signal r \<longrightarrow> signal" using see_idle_signal [of "tr_signal r" inp "un_dev ?u1" ?qs] s by auto
  ultimately show ?thesis by blast
qed

lemma late_board_reported:
  assumes "ub_timeout_cnt (un_board (tm_un (after_looking inp r)) k i) \<noteq> ub_timeout_cnt (un_board (tm_un (tr_tm r)) k i)"
  shows "i < unit_max k \<and> bit (tr_st r k) (i * 2 + 1) \<and>
    ub_timeout_token (un_board (tm_un (after_looking inp r)) k i) = tm_unit_token (tr_tm r) k i"
proof -
  obtain u2 signal where f: "tm_un (after_looking inp r) = (if signal then send_signal r u2 else u2)"
    "u2 = (tm_un (tr_tm r))\<lparr>un_dev := un_dev u2, un_ops := un_ops u2\<rparr>" using after_looking_form by blast
  have b: "un_board u2 = un_board (tm_un (tr_tm r))" by (subst f(2)) simp
  have sig: signal using assms f(1) b by (cases signal) simp_all
  have fl: "i \<in> set (units_flagged u2 k (tr_st r k))"
    using assms sig unfolding f(1) by (auto simp: send_signal_boards b split: if_splits)
  have "bit (tr_st r k) (i * 2 + 1)" "i < unit_max k" using fl flagged_32 by (auto simp: flagged_iff)
  moreover have "ub_timeout_token (un_board (send_signal r u2) k i) = tm_unit_token (tr_tm r) k i"
    using fl by (simp add: send_signal_boards record_timeout_def upd_unit_def)
  ultimately show ?thesis using sig unfolding f(1) by simp
qed

text \<open>The timer leaves every queue in use in one of two states between its ticks.\<close>

definition timer_states :: "kl2_dev \<Rightarrow> bool" where
  "timer_states d \<longleftrightarrow> (\<forall>j\<in>set (valid_queues d). hq_regular_timer_state (d2_hwq d ! j) \<in> {KL2_HWQ_NORMAL, KL2_HWQ_STALL})"

lemma timer_states_handed:
  assumes "handed d d'" "length (d2_hwq d) = KL2_HWQ_CNT"
  shows "timer_states d' = timer_states d" "valid_queues d' = valid_queues d"
proof -
  show V: "valid_queues d' = valid_queues d" using assms(1) by (simp add: handed_def valid_queues_def)
  have "hq_regular_timer_state (d2_hwq d' ! j) = hq_regular_timer_state (d2_hwq d ! j)" if "j \<in> set (valid_queues d)" for j
    using assms valid_queue_less [OF that] by (simp add: handed_def)
  then show "timer_states d' = timer_states d" unfolding timer_states_def V by simp
qed

text \<open>What a tick leaves behind when it has looked at every queue.\<close>

lemma tick_end:
  assumes inv: "run_inv inp t hw H C W P r" and ok: "dev_ok (un_dev (tm_un t)) hw' H' C' W'" and ts: "timer_states (un_dev (tm_un t))"
  shows "\<forall>j\<in>set (valid_queues (un_dev (tm_un t))). let q = d2_hwq (un_dev (tm_un t)) ! j; q' = d2_hwq (un_dev (tm_un (after_looking inp r))) ! j;
      reset = (marked_queue q \<and> idle_seen inp j)
    in hq_taint_state q' = KL2_HWQ_NORMAL \<and>
       hq_regular_timer_state q' = (if marked_queue q \<and> \<not> reset then KL2_HWQ_STALL else KL2_HWQ_NORMAL) \<and>
       hq_rt_list q' = hq_rt_list q \<and>
       d2_board (un_dev (tm_un (after_looking inp r))) ! j = charged_board (tr_hit r j) reset (d2_board (un_dev (tm_un t)) ! j)"
    and "d2_sess (un_dev (tm_un (after_looking inp r))) = d2_sess (un_dev (tm_un (tr_tm r)))"
    and "valid_queues (un_dev (tm_un (after_looking inp r))) = valid_queues (un_dev (tm_un t))"
    and "\<exists>j\<in>set (valid_queues (un_dev (tm_un t))). marked_queue (d2_hwq (un_dev (tm_un t)) ! j) \<Longrightarrow>
      \<exists>ops. un_ops (tm_un (after_looking inp r)) = un_ops (tm_un t) @ StallAll # ops"
    and "\<exists>j\<in>set (valid_queues (un_dev (tm_un t))). marked_queue (d2_hwq (un_dev (tm_un t)) ! j) \<and> idle_seen inp j \<Longrightarrow>
      un_work (tm_un (after_looking inp r))"
    and "tr_signal r \<Longrightarrow> un_work (tm_un (after_looking inp r))"
    and "tm_seq (after_looking inp r) = u32 (tm_seq t + 1)"
proof -
  note q = run_queues [OF inv]
  have rest: "run_rest t P r" using inv by (simp add: run_inv_def)
  obtain S where u: "tm_un (tr_tm r) = (tm_un t)\<lparr>un_dev := (un_dev (tm_un t))\<lparr>d2_sess := S\<rparr>\<rparr>" using rest unfolding run_rest_def by blast
  have ops: "un_ops (tm_un (tr_tm r)) = un_ops (tm_un t)" unfolding u by simp
  have seq: "tm_seq (tr_tm r) = tm_seq t" using rest by (simp add: run_rest_def)
  have len: "length (d2_hwq (un_dev (tm_un (tr_tm r)))) = KL2_HWQ_CNT" "length (d2_board (un_dev (tm_un (tr_tm r)))) = KL2_HWQ_CNT"
    using dev_okD(2) [OF ok] by (simp_all add: shape_def q)
  have st: "\<forall>j\<in>set (valid_queues (un_dev (tm_un (tr_tm r)))). hq_regular_timer_state (d2_hwq (un_dev (tm_un (tr_tm r))) ! j) \<in> {KL2_HWQ_NORMAL, KL2_HWQ_STALL}"
    using ts by (simp add: timer_states_def q)
  have hits: "\<forall>j token. tr_hit r j = Some token \<longrightarrow> tr_signal r" using rest by (simp add: run_rest_def)
  note e = after_looking_effect [OF refl refl len st hits, of inp, unfolded q ops seq]
  show "\<forall>j\<in>set (valid_queues (un_dev (tm_un t))). let q = d2_hwq (un_dev (tm_un t)) ! j; q' = d2_hwq (un_dev (tm_un (after_looking inp r))) ! j;
      reset = (marked_queue q \<and> idle_seen inp j)
    in hq_taint_state q' = KL2_HWQ_NORMAL \<and>
       hq_regular_timer_state q' = (if marked_queue q \<and> \<not> reset then KL2_HWQ_STALL else KL2_HWQ_NORMAL) \<and>
       hq_rt_list q' = hq_rt_list q \<and>
       d2_board (un_dev (tm_un (after_looking inp r))) ! j = charged_board (tr_hit r j) reset (d2_board (un_dev (tm_un t)) ! j)" by (rule e(1))
  show "d2_sess (un_dev (tm_un (after_looking inp r))) = d2_sess (un_dev (tm_un (tr_tm r)))" by (rule e(2))
  show "valid_queues (un_dev (tm_un (after_looking inp r))) = valid_queues (un_dev (tm_un t))" by (rule e(3))
  show "\<exists>j\<in>set (valid_queues (un_dev (tm_un t))). marked_queue (d2_hwq (un_dev (tm_un t)) ! j) \<Longrightarrow>
      \<exists>ops. un_ops (tm_un (after_looking inp r)) = un_ops (tm_un t) @ StallAll # ops" by (rule e(4))
  show "\<exists>j\<in>set (valid_queues (un_dev (tm_un t))). marked_queue (d2_hwq (un_dev (tm_un t)) ! j) \<and> idle_seen inp j \<Longrightarrow>
      un_work (tm_un (after_looking inp r))" by (rule e(5))
  show "tr_signal r \<Longrightarrow> un_work (tm_un (after_looking inp r))" by (rule e(6))
  show "tm_seq (after_looking inp r) = u32 (tm_seq t + 1)" by (rule e(7))
qed

lemma reach_dev:
  assumes "unit_reach u0 s" and "u = (us_un s)\<lparr>un_dev := un_dev u, un_work := un_work u, un_ops := un_ops u\<rparr>"
  shows "unit_reach u0 (s\<lparr>us_un := u\<rparr>)"
proof -
  have "unit_reach u0 (s\<lparr>us_un := (us_un s)\<lparr>un_dev := un_dev u, un_running := un_running (us_un s), un_errno := un_errno (us_un s),
      un_work := un_work u, un_ops := un_ops u\<rparr>\<rparr>)" by (rule ur_dev [OF assms(1)])
  moreover have "(us_un s)\<lparr>un_dev := un_dev u, un_running := un_running (us_un s), un_errno := un_errno (us_un s),
      un_work := un_work u, un_ops := un_ops u\<rparr> = (us_un s)\<lparr>un_dev := un_dev u, un_work := un_work u, un_ops := un_ops u\<rparr>"
    by (cases "us_un s") simp
  ultimately show ?thesis using assms(2) by simp
qed

section \<open>An example\<close>

text \<open>
  The process of the session 10 closes its file while its task is stuck: the session is in error and its queue is
  marked. Cluster 2 is busy with the task.
\<close>

definition demo5_dev :: kl2_dev where
  "demo5_dev = the (taint_unfinished demo3_dev 10)"

definition demo_timer :: kl2_timer where
  "demo_timer = \<lparr>tm_un = demo_units\<lparr>un_dev := demo5_dev\<rparr>,
     tm_watch = (\<lambda>_. \<lparr>qw_busy = False, qw_token = 0, qw_since = 0, qw_virt = (\<lambda>_ _. 0)\<rparr>), tm_threshold = 10000,
     tm_unit_token = (\<lambda>_ _. 0), tm_seq = 0\<rparr>"

definition demo_tick :: timer_input where
  "demo_tick = \<lparr>ti_now = 0, ti_status = (\<lambda>_. Some 4), ti_lock = (\<lambda>_. True), ti_token = (\<lambda>_ _ _. 100), ti_virt = (\<lambda>_ _ _. 0),
     ti_lock_stall = (\<lambda>_. True), ti_underway = (\<lambda>_. 0)\<rparr>"

lemma demo5_dev: "taint_unfinished demo3_dev 10 = Some demo5_dev"
  "d2_hwq demo5_dev = (d2_hwq demo3_dev)[0 := (d2_hwq demo3_dev ! 0)\<lparr>hq_taint_state := KL2_HWQ_TAINT\<rparr>]"
  "d2_hwq_bitmap demo5_dev = d2_hwq_bitmap demo3_dev"
proof -
  have "taint_unfinished demo3_dev 10 \<noteq> None"
    by (simp add: taint_unfinished_def demo3_dev_parts upd_sess_def new_session2_def)
  then show "taint_unfinished demo3_dev 10 = Some demo5_dev" by (auto simp: demo5_dev_def)
  then obtain S where "demo3_dev\<lparr>d2_sess := S, d2_hwq := (d2_hwq demo3_dev)[0 := (d2_hwq demo3_dev ! 0)\<lparr>hq_taint_state := KL2_HWQ_TAINT\<rparr>]\<rparr> = demo5_dev"
    by (auto simp: taint_unfinished_def demo3_dev_parts(1) upd_sess_def new_session2_def upd_hwq_def)
  note d = this [symmetric]
  show "d2_hwq demo5_dev = (d2_hwq demo3_dev)[0 := (d2_hwq demo3_dev ! 0)\<lparr>hq_taint_state := KL2_HWQ_TAINT\<rparr>]" by (subst d) simp
  show "d2_hwq_bitmap demo5_dev = d2_hwq_bitmap demo3_dev" by (subst d) simp
qed

lemma demo5_reachable: "kl2_reachable 0xfff (demo3\<lparr>y2_dev := demo5_dev\<rparr>)"
  by (rule kl2_reachable.step [OF demo3_reachable release_wait [of 10]]) (simp_all add: demo3_dev_parts demo5_dev(1))

lemma demo5_queue: "j \<in> set (valid_queues demo5_dev) \<Longrightarrow> hq_regular_timer_state (d2_hwq demo5_dev ! j) = KL2_HWQ_NORMAL"
proof -
  assume "j \<in> set (valid_queues demo5_dev)"
  then have "j < KL2_HWQ_CNT" by (rule valid_queue_less)
  then show ?thesis
    by (cases "j = 0") (simp_all add: demo5_dev(2) demo3_dev_def demo_hwqs_def hwq_init_one_def KL2_HWQ_CNT_def)
qed

lemma demo_timer_parts: "timer_states (un_dev (tm_un demo_timer))" "un_dev (tm_un demo_timer) = demo5_dev"
  "0 \<in> set (valid_queues demo5_dev)" "marked_queue (d2_hwq demo5_dev ! 0)" "unit_reach demo_units \<lparr>us_un = tm_un demo_timer, us_todo = [], us_hurt = {}\<rparr>"
proof -
  show "un_dev (tm_un demo_timer) = demo5_dev" by (simp add: demo_timer_def)
  then show "timer_states (un_dev (tm_un demo_timer))" by (simp add: timer_states_def demo5_queue)
  show "0 \<in> set (valid_queues demo5_dev)"
    by (simp add: valid_queues_def demo5_dev(3) demo3_dev_def demo_dev KL2_HWQ_CNT_def upt_rec)
  have "0 < length (d2_hwq demo3_dev)" by (simp add: demo3_dev_def demo_hwqs_nth KL2_HWQ_CNT_def)
  then show "marked_queue (d2_hwq demo5_dev ! 0)" by (simp add: marked_queue_def demo5_dev(2))
  have "unit_reach demo_units (\<lparr>us_un = demo_units, us_todo = [], us_hurt = {}\<rparr>\<lparr>us_un := tm_un demo_timer\<rparr>)"
    by (rule reach_dev [OF ur_start]) (simp add: demo_timer_def)
  then show "unit_reach demo_units \<lparr>us_un = tm_un demo_timer, us_todo = [], us_hurt = {}\<rparr>" by simp
qed

text \<open>A tick that always hears the status looks at every queue.\<close>

lemma look_goes_on: "look_at_queue inp j r = Some (stop, r') \<Longrightarrow> ti_status inp j \<noteq> None \<Longrightarrow> \<not> stop"
proof -
  have u: "look_at_units inp j cur early r = Some (stop, r') \<Longrightarrow> ti_status inp j \<noteq> None \<Longrightarrow> \<not> stop" for cur early
    by (auto simp: look_at_units_def Let_def bind_eq_Some_conv split: option.splits if_splits)
  assume "look_at_queue inp j r = Some (stop, r')" "ti_status inp j \<noteq> None"
  then show "\<not> stop" using u by (auto simp: look_at_queue_def Let_def bind_eq_Some_conv split: if_splits prod.splits)
qed

lemma looks_go_on: "look_at_queues inp js r = Some (stop, r') \<Longrightarrow> \<forall>j\<in>set js. ti_status inp j \<noteq> None \<Longrightarrow> \<not> stop"
  by (induction js arbitrary: r) (auto simp: bind_eq_Some_conv split: if_splits prod.splits dest: look_goes_on)

lemma demo_tick_runs: "\<exists>t'. kl2_regular_timer_func demo_tick demo_timer = Some t' \<and> tm_seq t' \<noteq> tm_seq demo_timer \<and>
    (\<forall>k i. ub_timeout_cnt (un_board (tm_un t') k i) \<noteq> ub_timeout_cnt (un_board (tm_un demo_timer) k i) \<longrightarrow>
      may_report [] k i \<and> ub_timeout_cnt (un_board (tm_un demo_timer) k i) + 1 < 2 ^ 32)"
proof -
  have "sys2_ok (demo3\<lparr>y2_dev := demo5_dev\<rparr>)" by (rule kl2_reachable_ok [OF demo5_reachable])
  then obtain hw H C W where ok: "dev_ok (un_dev (tm_un demo_timer)) hw H C W" unfolding sys2_ok_def demo_timer_parts(2) by auto
  from tick_split [OF ok, of demo_tick] obtain stop r js P u hw' where s: "look_at_queues demo_tick js (start_run (demo_timer\<lparr>tm_un := u\<rparr>)) = Some (stop, r)"
    "run_inv demo_tick (demo_timer\<lparr>tm_un := u\<rparr>) hw' H C W P r" "kl2_regular_timer_func demo_tick demo_timer = Some (if stop then tr_tm r else after_looking demo_tick r)" by blast
  have "\<not> stop" by (rule looks_go_on [OF s(1)]) (simp add: demo_tick_def)
  moreover have "tm_seq (tr_tm r) = 0" using s(2) by (simp add: run_inv_def run_rest_def demo_timer_def)
  then have "tm_seq (after_looking demo_tick r) = 1" by (simp add: after_looking_def Let_def u32_def split: prod.split)
  moreover have "may_report [] k i \<and> ub_timeout_cnt (un_board (tm_un demo_timer) k i) + 1 < 2 ^ 32" for k i
    by (simp add: may_report_def demo_timer_def demo_units_def clear_board_def)
  ultimately show ?thesis using s(3) by (simp add: demo_timer_def)
qed

text \<open>C29: From any reachable state a tick returns, and it takes a unit off only when the unit has the token of the
  first running task of a queue in use, and that task has kept the queue for longer than the threshold with a
  subtask that was not reported yet, or its session is in error. The unit's board then names the task, its
  session is marked, and the queue is charged with it once.\<close>
theorem kl2_timer_sound:
  assumes "kl2_reachable hwq_bits y" and "y2_dev y = un_dev (tm_un t)" and "timer_states (un_dev (tm_un t))"
  shows "\<exists>t' u. kl2_regular_timer_func inp t = Some t' \<and>
    over_units dispatch_one (valid_queues (un_dev (tm_un t))) (tm_un t) = Some u \<and> timer_states (un_dev (tm_un t')) \<and>
    (\<forall>k i. ub_timeout_cnt (un_board (tm_un t') k i) \<noteq> ub_timeout_cnt (un_board (tm_un t) k i) \<longrightarrow>
      (\<exists>j\<in>set (valid_queues (un_dev (tm_un t))). late_at inp (t\<lparr>tm_un := u\<rparr>) j k i \<and>
         ub_timeout_token (un_board (tm_un t') k i) = ti_token inp j k i \<and>
         hit_at (un_dev u) (un_dev (tm_un t')) j (ti_token inp j k i) \<and>
         eb_token (d2_board (un_dev (tm_un t')) ! j) = ti_token inp j k i \<and>
         eb_excp_cnt (d2_board (un_dev (tm_un t')) ! j) = u32 (eb_excp_cnt (d2_board (un_dev (tm_un t)) ! j) + 1)))"
proof -
  let ?qs = "valid_queues (un_dev (tm_un t))"
  have ok: "dev_ok (un_dev (tm_un t)) (y2_hw y) (y2_open y) (image_mset call_refs (y2_calls y)) (y2_owned y)"
    using kl2_reachable_ok [OF assms(1)] by (simp add: sys2_ok_def assms(2))
  from tick_split [OF ok, of inp] obtain u stop r P hw' where s:
    "over_units dispatch_one ?qs (tm_un t) = Some u" "handed (un_dev (tm_un t)) (un_dev u)" "u = (tm_un t)\<lparr>un_dev := un_dev u, un_ops := un_ops u\<rparr>"
    "dev_ok (un_dev u) hw' (y2_open y) (image_mset call_refs (y2_calls y)) (y2_owned y)"
    "run_inv inp (t\<lparr>tm_un := u\<rparr>) hw' (y2_open y) (image_mset call_refs (y2_calls y)) (y2_owned y) P r" "P \<subseteq> set ?qs"
    "kl2_regular_timer_func inp t = Some (if stop then tr_tm r else after_looking inp r)" by blast
  let ?t = "t\<lparr>tm_un := u\<rparr>"
  have len: "length (d2_hwq (un_dev (tm_un t))) = KL2_HWQ_CNT" using dev_okD(2) [OF ok] by (simp add: shape_def)
  note h = timer_states_handed [OF s(2) len]
  have ts: "timer_states (un_dev (tm_un ?t))" and V: "valid_queues (un_dev (tm_un ?t)) = ?qs" using assms(3) h by simp_all
  have board: "un_board u = un_board (tm_un t)" by (subst s(3)) simp
  have rest: "run_rest ?t P r" and units: "run_units inp ?t P r" using s(5) by (simp_all add: run_inv_def)
  obtain S where r: "tm_un (tr_tm r) = u\<lparr>un_dev := (un_dev u)\<lparr>d2_sess := S\<rparr>\<rparr>" using rest unfolding run_rest_def by auto
  have rb: "un_board (tm_un (tr_tm r)) = un_board (tm_un t)" unfolding r using board by simp
  show ?thesis
  proof (cases stop)
    case True
    have "timer_states (un_dev (tm_un (tr_tm r)))" using ts run_queues(1,2) [OF s(5)] by (simp add: timer_states_def)
    with True s(1,7) rb show ?thesis by simp
  next
    case False
    let ?t' = "after_looking inp r"
    have "dev_ok (un_dev (tm_un ?t)) hw' (y2_open y) (image_mset call_refs (y2_calls y)) (y2_owned y)" using s(4) by simp
    note e = tick_end [OF s(5) this ts, unfolded V]
    have "timer_states (un_dev (tm_un ?t'))" unfolding timer_states_def e(3) using e(1) by (auto simp: Let_def)
    moreover have "\<exists>j\<in>set ?qs. late_at inp ?t j k i \<and> ub_timeout_token (un_board (tm_un ?t') k i) = ti_token inp j k i \<and>
         hit_at (un_dev u) (un_dev (tm_un ?t')) j (ti_token inp j k i) \<and> eb_token (d2_board (un_dev (tm_un ?t')) ! j) = ti_token inp j k i \<and>
         eb_excp_cnt (d2_board (un_dev (tm_un ?t')) ! j) = u32 (eb_excp_cnt (d2_board (un_dev (tm_un t)) ! j) + 1)"
      if c: "ub_timeout_cnt (un_board (tm_un ?t') k i) \<noteq> ub_timeout_cnt (un_board (tm_un t) k i)" for k i
    proof -
      note l = late_board_reported [of inp r k i, unfolded rb, OF c]
      with units obtain j where j: "j \<in> P" "late_at inp ?t j k i" "tr_hit r j = Some (ti_token inp j k i)"
        "tm_unit_token (tr_tm r) k i = ti_token inp j k i" unfolding run_units_def by blast
      have jq: "j \<in> set ?qs" using j(1) s(6) by blast
      have "hit_at (un_dev u) (un_dev (tm_un (tr_tm r))) j (ti_token inp j k i)" using rest j(3) by (simp add: run_rest_def)
      then have hit: "hit_at (un_dev u) (un_dev (tm_un ?t')) j (ti_token inp j k i)" unfolding hit_at_def e(2) .
      have ub: "d2_board (un_dev u) = d2_board (un_dev (tm_un t))" using s(2) by (simp add: handed_def)
      have "d2_board (un_dev (tm_un ?t')) ! j = charged_board (Some (ti_token inp j k i))
          (marked_queue (d2_hwq (un_dev u) ! j) \<and> idle_seen inp j) (d2_board (un_dev (tm_un t)) ! j)"
        using e(1) jq j(3) ub by (simp add: Let_def)
      then have "eb_token (d2_board (un_dev (tm_un ?t')) ! j) = ti_token inp j k i"
        "eb_excp_cnt (d2_board (un_dev (tm_un ?t')) ! j) = u32 (eb_excp_cnt (d2_board (un_dev (tm_un t)) ! j) + 1)"
        by (simp_all add: charged_board_def Let_def)
      with l j(2,4) jq hit show ?thesis by (intro bexI [of _ j]) simp_all
    qed
    ultimately show ?thesis using False s(1,7) by auto
  qed
qed

theorem kl2_timer_sound_witness:
  "\<exists>t'. kl2_regular_timer_func demo_tick demo_timer = Some t' \<and> timer_states (un_dev (tm_un t'))"
  using kl2_timer_sound [OF demo5_reachable _ demo_timer_parts(1), of demo_tick] demo_timer_parts(2) by auto


text \<open>C30: When a tick has looked at every queue, a queue that was marked, or that waits to be reset, has been stalled,
  and if nothing is under way on it its board asks for a reset and the work item is woken; otherwise it
  goes on waiting. Marks are taken off, and nothing else asks for a reset.\<close>
theorem kl2_mark_served:
  fixes j
  assumes "kl2_reachable hwq_bits y" and "y2_dev y = un_dev (tm_un t)" and "timer_states (un_dev (tm_un t))"
    and tick: "kl2_regular_timer_func inp t = Some t'" and "tm_seq t' \<noteq> tm_seq t" and "j \<in> set (valid_queues (un_dev (tm_un t)))"
  defines "q \<equiv> d2_hwq (un_dev (tm_un t)) ! j" and "q' \<equiv> d2_hwq (un_dev (tm_un t')) ! j"
    and "resets \<equiv> \<lambda>t. eb_taint_2_reset_cnt (d2_board (un_dev (tm_un t)) ! j)"
  shows "hq_taint_state q' = KL2_HWQ_NORMAL \<and>
    (if \<not> marked_queue q then hq_regular_timer_state q' = KL2_HWQ_NORMAL \<and> resets t' = resets t
     else StallAll \<in> set (drop (length (un_ops (tm_un t))) (un_ops (tm_un t'))) \<and>
       (if idle_seen inp j
        then un_work (tm_un t') \<and> hq_regular_timer_state q' = KL2_HWQ_NORMAL \<and> resets t' = u32 (resets t + 1)
        else hq_regular_timer_state q' = KL2_HWQ_STALL \<and> resets t' = resets t))"
proof -
  let ?qs = "valid_queues (un_dev (tm_un t))"
  have ok: "dev_ok (un_dev (tm_un t)) (y2_hw y) (y2_open y) (image_mset call_refs (y2_calls y)) (y2_owned y)"
    using kl2_reachable_ok [OF assms(1)] by (simp add: sys2_ok_def assms(2))
  from tick_split [OF ok, of inp] obtain u stop r P hw' where s:
    "over_units dispatch_one ?qs (tm_un t) = Some u" "handed (un_dev (tm_un t)) (un_dev u)" "\<exists>ops. un_ops u = un_ops (tm_un t) @ ops"
    "dev_ok (un_dev u) hw' (y2_open y) (image_mset call_refs (y2_calls y)) (y2_owned y)"
    "run_inv inp (t\<lparr>tm_un := u\<rparr>) hw' (y2_open y) (image_mset call_refs (y2_calls y)) (y2_owned y) P r"
    "kl2_regular_timer_func inp t = Some (if stop then tr_tm r else after_looking inp r)" by blast
  have "tm_seq (tr_tm r) = tm_seq t" using s(5) by (simp add: run_inv_def run_rest_def)
  with s(6) tick assms(5) have t': "t' = after_looking inp r" by (auto split: if_splits)
  have len: "length (d2_hwq (un_dev (tm_un t))) = KL2_HWQ_CNT" using dev_okD(2) [OF ok] by (simp add: shape_def)
  note h = timer_states_handed [OF s(2) len]
  have ts: "timer_states (un_dev (tm_un (t\<lparr>tm_un := u\<rparr>)))" and V: "valid_queues (un_dev (tm_un (t\<lparr>tm_un := u\<rparr>))) = ?qs" using assms(3) h by simp_all
  have "dev_ok (un_dev (tm_un (t\<lparr>tm_un := u\<rparr>))) hw' (y2_open y) (image_mset call_refs (y2_calls y)) (y2_owned y)" using s(4) by simp
  note e = tick_end [OF s(5) this ts, unfolded V]
  have jl: "j < length (d2_hwq (un_dev (tm_un t)))" using valid_queue_less [OF assms(6)] len by simp
  have m: "marked_queue (d2_hwq (un_dev u) ! j) = marked_queue q" using s(2) jl by (simp add: handed_def marked_queue_def q_def)
  have b: "d2_board (un_dev u) = d2_board (un_dev (tm_un t))" using s(2) by (simp add: handed_def)
  have q': "hq_taint_state q' = KL2_HWQ_NORMAL"
    "hq_regular_timer_state q' = (if marked_queue q \<and> \<not> (marked_queue q \<and> idle_seen inp j) then KL2_HWQ_STALL else KL2_HWQ_NORMAL)"
    "d2_board (un_dev (tm_un t')) ! j = charged_board (tr_hit r j) (marked_queue q \<and> idle_seen inp j) (d2_board (un_dev (tm_un t)) ! j)"
    using e(1) assms(6) m b unfolding t' q'_def by (simp_all add: Let_def)
  have res: "resets t' = (if marked_queue q \<and> idle_seen inp j then u32 (resets t + 1) else resets t)"
    unfolding resets_def q'(3) by (simp add: charged_board_def Let_def split: option.split)
  show ?thesis
  proof (cases "marked_queue q")
    case False with q'(1,2) res show ?thesis by simp
  next
    case True
    with m assms(6) have ex: "\<exists>j\<in>set ?qs. marked_queue (d2_hwq (un_dev u) ! j)" by blast
    obtain a b where "un_ops u = un_ops (tm_un t) @ a" "un_ops (tm_un t') = un_ops u @ StallAll # b"
      using s(3) e(4) ex unfolding t' by auto
    then have st: "StallAll \<in> set (drop (length (un_ops (tm_un t))) (un_ops (tm_un t')))" by simp
    show ?thesis
    proof (cases "idle_seen inp j")
      case idle: True
      have "un_work (tm_un t')" using e(5) m True idle assms(6) unfolding t' by auto
      with True idle q'(1,2) res st show ?thesis by simp
    next
      case False with True q'(1,2) res st show ?thesis by simp
    qed
  qed
qed

theorem kl2_mark_served_witness:
  "\<exists>t'. kl2_regular_timer_func demo_tick demo_timer = Some t' \<and> un_work (tm_un t') \<and>
    hq_taint_state (d2_hwq (un_dev (tm_un t')) ! 0) = KL2_HWQ_NORMAL \<and> StallAll \<in> set (un_ops (tm_un t'))"
proof -
  obtain t' where t': "kl2_regular_timer_func demo_tick demo_timer = Some t'" "tm_seq t' \<noteq> tm_seq demo_timer" using demo_tick_runs by blast
  have i: "idle_seen demo_tick 0" by (simp add: idle_seen_def demo_tick_def)
  have "un_dev (tm_un demo_timer) = y2_dev (demo3\<lparr>y2_dev := demo5_dev\<rparr>)" by (simp add: demo_timer_parts(2))
  from kl2_mark_served [OF demo5_reachable this [symmetric] demo_timer_parts(1) t', of 0] demo_timer_parts(2-4) i t'(1)
  show ?thesis by (auto dest: in_set_dropD)
qed


section \<open>A tick that ends early\<close>

text \<open>The first running task of a queue uses units, and its session is in error.\<close>

definition head_in_error :: "kl2_dev \<Rightarrow> nat \<Rightarrow> bool" where
  "head_in_error d j \<longleftrightarrow> (case hq_rt_list (d2_hwq d ! j) of [] \<Rightarrow> False
     | task # _ \<Rightarrow> tk_type task \<noteq> KL2_TASKTYPE_EVNTWAIT \<and>
         (case d2_sess d (tk_sess task) of None \<Rightarrow> False | Some x \<Rightarrow> \<not> kl2_session_state_normal x))"

definition tasks_live :: "kl2_dev \<Rightarrow> bool" where
  "tasks_live d \<longleftrightarrow> list_all (\<lambda>q. list_all (\<lambda>t. d2_sess d (tk_sess t) \<noteq> None) (hq_rt_list q @ hq_pt_list q)) (d2_hwq d)"

lemma nocheck_live:
  "list_all (\<lambda>t. S (tk_sess t) \<noteq> None) (hq_rt_list q @ hq_pt_list q) \<Longrightarrow>
    \<exists>q' w. dispatch_nocheck S q = Some (q', w) \<and> list_all (\<lambda>t. S (tk_sess t) \<noteq> None) (hq_rt_list q' @ hq_pt_list q')"
proof (induction S q rule: dispatch_nocheck.induct)
  case (1 S q)
  show ?case
  proof (cases "hq_cnt_running q < KL2_HWQ_DEPTH \<and> hq_pt_list q \<noteq> []")
    case False with "1.prems" show ?thesis by (auto simp: dispatch_nocheck.simps [of S q] split: list.splits)
  next
    case True
    then obtain task rest where Cons: "hq_pt_list q = task # rest" by (cases "hq_pt_list q") auto
    with "1.prems" obtain x where x: "S (tk_sess task) = Some x" by auto
    show ?thesis
    proof (cases "kl2_session_state_normal x")
      case False with True Cons x "1.prems" show ?thesis by (simp add: dispatch_nocheck.simps [of S q])
    next
      case nx: True
      let ?q = "q\<lparr>hq_pt_list := rest, hq_rt_list := hq_rt_list q @ [task], hq_cnt_running := u32 (hq_cnt_running q + 1)\<rparr>"
      have "list_all (\<lambda>t. S (tk_sess t) \<noteq> None) (hq_rt_list ?q @ hq_pt_list ?q)" using "1.prems" Cons by simp
      from "1.IH" [OF _ Cons x nx this] True obtain q' w where "dispatch_nocheck S ?q = Some (q', w)"
        "list_all (\<lambda>t. S (tk_sess t) \<noteq> None) (hq_rt_list q' @ hq_pt_list q')" by blast
      with True Cons x nx show ?thesis by (simp add: dispatch_nocheck.simps [of S q])
    qed
  qed
qed

lemma dispatch_live:
  assumes "tasks_live d" "j < length (d2_hwq d)"
  shows "\<exists>d' w. kl2_hwq_dispatch_locked d j = Some (d', w) \<and> tasks_live d'"
proof (cases "d2_state d \<noteq> KL2_RUNNING \<or> d2_in_reset_state d")
  case True with assms(1) show ?thesis by (simp add: kl2_hwq_dispatch_locked_def)
next
  case False
  have "list_all (\<lambda>t. d2_sess d (tk_sess t) \<noteq> None) (hq_rt_list (d2_hwq d ! j) @ hq_pt_list (d2_hwq d ! j))"
    using assms(1) nth_mem [OF assms(2)] unfolding tasks_live_def list_all_iff by blast
  from nocheck_live [OF this] obtain q' w where q: "dispatch_nocheck (d2_sess d) (d2_hwq d ! j) = Some (q', w)"
    "list_all (\<lambda>t. d2_sess d (tk_sess t) \<noteq> None) (hq_rt_list q' @ hq_pt_list q')" by blast
  have "tasks_live (upd_hwq d j (\<lambda>_. q'))"
    using assms(1) q(2) set_update_subset_insert [of "d2_hwq d" j q'] unfolding tasks_live_def upd_hwq_def list_all_iff by auto
  with q(1) False show ?thesis by (simp add: kl2_hwq_dispatch_locked_def)
qed

lemma dispatch_all_live:
  assumes "tasks_live (un_dev u)" "\<forall>j\<in>set qs. j < length (d2_hwq (un_dev u))"
  shows "\<exists>u'. over_units dispatch_one qs u = Some u' \<and> tasks_live (un_dev u') \<and> handed (un_dev u) (un_dev u') \<and>
    u' = u\<lparr>un_dev := un_dev u', un_ops := un_ops u'\<rparr>"
  using assms
proof (induction qs arbitrary: u)
  case Nil then show ?case by auto
next
  case (Cons j qs)
  from Cons.prems(2) dispatch_live [OF Cons.prems(1), of j] obtain d w where d: "kl2_hwq_dispatch_locked (un_dev u) j = Some (d, w)" "tasks_live d" by auto
  let ?u = "u\<lparr>un_dev := d, un_ops := un_ops u @ map (\<lambda>t. QueueOp (HwWrite j t)) w\<rparr>"
  have h: "handed (un_dev u) d" by (rule dispatch_handed [OF d(1)])
  then have "\<forall>j\<in>set qs. j < length (d2_hwq (un_dev ?u))" using Cons.prems(2) by (simp add: handed_def)
  with Cons.IH [of ?u] d(2) obtain u' where u': "over_units dispatch_one qs ?u = Some u'" "tasks_live (un_dev u')"
    "handed d (un_dev u')" "u' = ?u\<lparr>un_dev := un_dev u', un_ops := un_ops u'\<rparr>" by auto
  have "over_units dispatch_one (j # qs) u = Some u'" using d(1) u'(1) by (simp add: dispatch_one_def)
  moreover have "u' = u\<lparr>un_dev := un_dev u', un_ops := un_ops u'\<rparr>" by (subst u'(4)) simp
  ultimately show ?case using u'(2) handed_trans [OF h u'(3)] by blast
qed


text \<open>What is left alone by a tick that ends early.\<close>

definition same_queues :: "kl2_timer \<Rightarrow> kl2_timer \<Rightarrow> bool" where
  "same_queues t t' \<longleftrightarrow> handed (un_dev (tm_un t)) (un_dev (tm_un t')) \<and> un_board (tm_un t') = un_board (tm_un t) \<and>
    un_work (tm_un t') = un_work (tm_un t) \<and> tm_seq t' = tm_seq t"

lemma set_watch_same: "tm_un (tr_tm (set_watch j w r)) = tm_un (tr_tm r)" "tm_seq (tr_tm (set_watch j w r)) = tm_seq (tr_tm r)"
  "tr_status (set_watch j w r) = tr_status r"
  by (simp_all add: set_watch_def)

lemma look_at_live:
  assumes "tasks_live d" "j < length (d2_hwq d)"
  shows "\<exists>cur early task. look_at d j = Some (cur, early, task) \<and> (head_in_error d j \<longrightarrow> early \<and> task)"
proof (cases "hq_rt_list (d2_hwq d ! j)")
  case Nil then show ?thesis by (auto simp: look_at_def head_in_error_def)
next
  case (Cons tk ts)
  have "d2_hwq d ! j \<in> set (d2_hwq d)" using assms(2) by simp
  moreover have "tk \<in> set (hq_rt_list (d2_hwq d ! j) @ hq_pt_list (d2_hwq d ! j))" using Cons by simp
  ultimately have "d2_sess d (tk_sess tk) \<noteq> None" using assms(1) unfolding tasks_live_def list_all_iff by blast
  then obtain x where "d2_sess d (tk_sess tk) = Some x" by blast
  with Cons show ?thesis by (simp add: look_at_def head_in_error_def)
qed

lemma units_in_vain:
  assumes st: "tr_status r = 0" and ans: "ti_status inp j = None \<or> ti_status inp j = Some 0"
  shows "look_at_units inp j cur early r =
      (if ti_status inp j = None then Some (True, r) else Some (False, r\<lparr>tr_status := 0, tr_found := False\<rparr>))"
proof -
  have nb: "busy_units u 0 = []" for u by (simp add: busy_units_def)
  show ?thesis
  proof (cases "ti_status inp j")
    case None with st show ?thesis by (simp add: look_at_units_def)
  next
    case (Some a)
    with ans have "ti_status inp j = Some 0" by simp
    with st show ?thesis by (simp add: look_at_units_def Let_def nb)
  qed
qed

text \<open>A queue on whose behalf the status is asked for, in vain or with the answer that no unit is busy.\<close>

lemma look_in_vain:
  assumes live: "tasks_live (un_dev (tm_un (tr_tm r)))" "j < length (d2_hwq (un_dev (tm_un (tr_tm r))))" and st: "tr_status r = 0"
    and ans: "ti_status inp j = None \<or> ti_status inp j = Some 0"
  shows "\<exists>stop r'. look_at_queue inp j r = Some (stop, r') \<and> tm_un (tr_tm r') = tm_un (tr_tm r) \<and>
    tm_seq (tr_tm r') = tm_seq (tr_tm r) \<and> tr_status r' = 0 \<and>
    (stop \<longrightarrow> ti_status inp j = None) \<and> (ti_status inp j = None \<and> head_in_error (un_dev (tm_un (tr_tm r))) j \<longrightarrow> stop)"
proof -
  let ?d = "un_dev (tm_un (tr_tm r))" and ?w = "tm_watch (tr_tm r) j"
  obtain cur early task where l: "look_at ?d j = Some (cur, early, task)" "head_in_error ?d j \<Longrightarrow> early \<and> task"
    using look_at_live [OF live] by blast
  note units = units_in_vain [OF st ans, of cur early]
  have step: "look_at_queue inp j r =
     (if \<not> task then Some (False, set_watch j (?w\<lparr>qw_busy := False, qw_token := 0, qw_since := ti_now inp\<rparr>) r)
      else if \<not> (qw_busy ?w \<and> qw_token ?w = cur \<or> early)
      then Some (False, set_watch j \<lparr>qw_busy = True, qw_token = cur, qw_since = ti_now inp, qw_virt = (\<lambda>_ _. 2 ^ 32 - 1)\<rparr> r)
      else if \<not> (threshold_in_use (tr_tm r) < ktime_to_ms (ti_now inp - qw_since ?w) \<or> early) then Some (False, r)
      else look_at_units inp j cur early r)"
    unfolding look_at_queue_def l(1) bind.bind_lunit split_conv Let_def by (rule refl)
  have here: ?thesis if "look_at_queue inp j r = Some (False, r')" "tm_un (tr_tm r') = tm_un (tr_tm r)"
    "tm_seq (tr_tm r') = tm_seq (tr_tm r)" "tr_status r' = 0" "\<not> head_in_error ?d j \<or> ti_status inp j \<noteq> None" for r'
    by (intro exI [of _ False] exI [of _ r']) (use that in \<open>simp, blast\<close>)
  consider (none) "\<not> task" | (new) "task" "\<not> (qw_busy ?w \<and> qw_token ?w = cur \<or> early)"
    | (early) "task" "qw_busy ?w \<and> qw_token ?w = cur \<or> early"
        "\<not> (threshold_in_use (tr_tm r) < ktime_to_ms (ti_now inp - qw_since ?w) \<or> early)"
    | (late) "task" "qw_busy ?w \<and> qw_token ?w = cur \<or> early"
        "threshold_in_use (tr_tm r) < ktime_to_ms (ti_now inp - qw_since ?w) \<or> early" by blast
  then show ?thesis
  proof cases
    case none
    then have h: "\<not> head_in_error ?d j" using l(2) by blast
    have e: "look_at_queue inp j r = Some (False, set_watch j (?w\<lparr>qw_busy := False, qw_token := 0, qw_since := ti_now inp\<rparr>) r)"
      using step none by (simp only: if_True not_False_eq_True)
    show ?thesis using st h by (intro here [OF e]) (simp_all add: set_watch_same)
  next
    case new
    then have h: "\<not> head_in_error ?d j" using l(2) by blast
    have e: "look_at_queue inp j r = Some (False, set_watch j \<lparr>qw_busy = True, qw_token = cur, qw_since = ti_now inp, qw_virt = (\<lambda>_ _. 2 ^ 32 - 1)\<rparr> r)"
      using step new by (simp only: if_True if_False not_True_eq_False not_False_eq_True)
    show ?thesis using st h by (intro here [OF e]) (simp_all add: set_watch_same)
  next
    case early
    then have h: "\<not> head_in_error ?d j" using l(2) by blast
    have e: "look_at_queue inp j r = Some (False, r)" using step early by (simp only: if_True if_False not_True_eq_False not_False_eq_True)
    show ?thesis using st h by (intro here [OF e]) simp_all
  next
    case late
    then have s: "look_at_queue inp j r = look_at_units inp j cur early r" using step by (simp only: if_False not_True_eq_False)
    show ?thesis
    proof (cases "ti_status inp j")
      case None
      with s units have "look_at_queue inp j r = Some (True, r)" by simp
      with None st show ?thesis by (intro exI [of _ True] exI [of _ r]) simp
    next
      case (Some a)
      with s units show ?thesis by (intro here [of "r\<lparr>tr_status := 0, tr_found := False\<rparr>"]) simp_all
    qed
  qed
qed

lemma look_until_asked:
  assumes "tasks_live (un_dev (tm_un (tr_tm r)))" "\<forall>j\<in>set js. j < length (d2_hwq (un_dev (tm_un (tr_tm r))))" "tr_status r = 0"
    "\<forall>j\<in>set js. ti_status inp j = None" "j \<in> set js" "head_in_error (un_dev (tm_un (tr_tm r))) j"
  shows "\<exists>r'. look_at_queues inp js r = Some (True, r') \<and> tm_un (tr_tm r') = tm_un (tr_tm r) \<and> tm_seq (tr_tm r') = tm_seq (tr_tm r)"
  using assms
proof (induction js arbitrary: r)
  case (Cons l js)
  have ll: "l < length (d2_hwq (un_dev (tm_un (tr_tm r))))" "ti_status inp l = None" using Cons.prems(2,4) by simp_all
  from look_in_vain [OF Cons.prems(1) ll(1) Cons.prems(3), of inp] ll(2) obtain stop r1 where r1: "look_at_queue inp l r = Some (stop, r1)"
    "tm_un (tr_tm r1) = tm_un (tr_tm r)" "tm_seq (tr_tm r1) = tm_seq (tr_tm r)" "tr_status r1 = 0"
    "head_in_error (un_dev (tm_un (tr_tm r))) l \<longrightarrow> stop" by blast
  show ?case
  proof (cases stop)
    case True with r1 show ?thesis by simp
  next
    case False
    with r1(5) Cons.prems(5,6) have "j \<in> set js" by auto
    with Cons.IH [of r1] Cons.prems r1 False show ?thesis by simp
  qed
qed simp

lemma tick_in_vain:
  assumes live: "tasks_live (un_dev (tm_un t))" and V: "valid_queues (un_dev (tm_un t)) = i # js" and j: "j \<in> set js"
    and err: "head_in_error (un_dev (tm_un t)) j" and len: "length (d2_hwq (un_dev (tm_un t))) = KL2_HWQ_CNT"
    and ans: "ti_status inp i = Some 0" "\<forall>l. l \<noteq> i \<longrightarrow> ti_status inp l = None"
  shows "\<exists>t'. kl2_regular_timer_func inp t = Some t' \<and> same_queues t t' \<and> tasks_live (un_dev (tm_un t'))"
proof -
  have Q: "\<forall>l\<in>set (i # js). l < length (d2_hwq (un_dev (tm_un t)))" "distinct (i # js)"
    using valid_queue_less [of _ "un_dev (tm_un t)"] len unfolding V [symmetric] by (auto simp: valid_queues_def)
  from dispatch_all_live [OF live Q(1)] obtain u where u: "over_units dispatch_one (i # js) (tm_un t) = Some u" "tasks_live (un_dev u)"
    "handed (un_dev (tm_un t)) (un_dev u)" "u = (tm_un t)\<lparr>un_dev := un_dev u, un_ops := un_ops u\<rparr>" by blast
  let ?r = "start_run (t\<lparr>tm_un := u\<rparr>)"
  have ur: "tm_un (tr_tm ?r) = u" "tr_status ?r = 0" "tm_seq (tr_tm ?r) = tm_seq t" by (simp_all add: start_run_def)
  have len': "length (d2_hwq (un_dev u)) = length (d2_hwq (un_dev (tm_un t)))" using u(3) by (simp add: handed_def)
  have err': "head_in_error (un_dev u) j"
  proof -
    have "j < length (d2_hwq (un_dev (tm_un t)))" using Q(1) j by simp
    with u(3) obtain ys where "hq_rt_list (d2_hwq (un_dev u) ! j) = hq_rt_list (d2_hwq (un_dev (tm_un t)) ! j) @ ys"
      "d2_sess (un_dev u) = d2_sess (un_dev (tm_un t))" unfolding handed_def by blast
    with err show ?thesis by (cases "hq_rt_list (d2_hwq (un_dev (tm_un t)) ! j)") (simp_all add: head_in_error_def)
  qed
  have "tasks_live (un_dev (tm_un (tr_tm ?r)))" "i < length (d2_hwq (un_dev (tm_un (tr_tm ?r))))" using u(2) Q(1) len' by (simp_all add: ur)
  from look_in_vain [OF this ur(2), of inp] ans(1) obtain r1 where r1: "look_at_queue inp i ?r = Some (False, r1)"
    "tm_un (tr_tm r1) = u" "tm_seq (tr_tm r1) = tm_seq t" "tr_status r1 = 0" unfolding ur by auto
  have "tasks_live (un_dev (tm_un (tr_tm r1)))" "\<forall>l\<in>set js. l < length (d2_hwq (un_dev (tm_un (tr_tm r1))))"
    "\<forall>l\<in>set js. ti_status inp l = None" "head_in_error (un_dev (tm_un (tr_tm r1))) j"
    using u(2) Q len' err' ans(2) by (auto simp: r1(2))
  from look_until_asked [OF this(1,2) r1(4) this(3) j this(4)] obtain r2 where r2: "look_at_queues inp js r1 = Some (True, r2)"
    "tm_un (tr_tm r2) = u" "tm_seq (tr_tm r2) = tm_seq t" unfolding r1 by blast
  have "kl2_regular_timer_func inp t = Some (tr_tm r2)"
    unfolding kl2_regular_timer_func_def Let_def V u(1) bind.bind_lunit start_run_def [symmetric] look_at_queues.simps r1(1) split_conv
    using r2(1) by simp
  moreover have "un_board u = un_board (tm_un t)" "un_work u = un_work (tm_un t)" by (subst u(4), simp)+
  ultimately show ?thesis using r2 u(2,3) by (simp add: same_queues_def)
qed

fun timer_ticks :: "timer_input list \<Rightarrow> kl2_timer \<Rightarrow> kl2_timer option" where
  "timer_ticks [] t = Some t"
| "timer_ticks (inp # inps) t = do { t1 \<leftarrow> kl2_regular_timer_func inp t; timer_ticks inps t1 }"

text \<open>While the first running task of a queue in use, but not the first such queue, belongs to a session in error, and the
  first one is told that no unit is busy, which a virtual function hears once per request, no tick gets past
  the queues: whatever the number of ticks, no mark is taken, no queue stalled or asked to be reset, and the
  work item is not woken.\<close>
lemma kl2_timer_starves:
  assumes "tasks_live (un_dev (tm_un t))" and "length (d2_hwq (un_dev (tm_un t))) = KL2_HWQ_CNT"
    and "valid_queues (un_dev (tm_un t)) = i # js" and "j \<in> set js" and "head_in_error (un_dev (tm_un t)) j"
    and "\<forall>inp\<in>set inps. ti_status inp i = Some 0 \<and> (\<forall>l. l \<noteq> i \<longrightarrow> ti_status inp l = None)"
  shows "\<exists>t'. timer_ticks inps t = Some t' \<and> un_work (tm_un t') = un_work (tm_un t) \<and> un_board (tm_un t') = un_board (tm_un t) \<and>
    d2_board (un_dev (tm_un t')) = d2_board (un_dev (tm_un t)) \<and> tm_seq t' = tm_seq t \<and>
    (\<forall>l\<in>set (valid_queues (un_dev (tm_un t))). hq_taint_state (d2_hwq (un_dev (tm_un t')) ! l) = hq_taint_state (d2_hwq (un_dev (tm_un t)) ! l) \<and>
       hq_regular_timer_state (d2_hwq (un_dev (tm_un t')) ! l) = hq_regular_timer_state (d2_hwq (un_dev (tm_un t)) ! l))"
  using assms
proof (induction inps arbitrary: t)
  case Nil then show ?case by simp
next
  case (Cons inp inps)
  have ans: "ti_status inp i = Some 0" "\<forall>l. l \<noteq> i \<longrightarrow> ti_status inp l = None" using Cons.prems(6) by simp_all
  from tick_in_vain [OF Cons.prems(1,3,4,5,2) ans] obtain t1 where t1: "kl2_regular_timer_func inp t = Some t1" "same_queues t t1"
    "tasks_live (un_dev (tm_un t1))" by blast
  have h: "handed (un_dev (tm_un t)) (un_dev (tm_un t1))" using t1(2) by (simp add: same_queues_def)
  have V1: "valid_queues (un_dev (tm_un t1)) = valid_queues (un_dev (tm_un t))" by (rule timer_states_handed(2) [OF h Cons.prems(2)])
  have len1: "length (d2_hwq (un_dev (tm_un t1))) = KL2_HWQ_CNT" using h Cons.prems(2) by (simp add: handed_def)
  have less: "l < length (d2_hwq (un_dev (tm_un t)))" if "l \<in> set (valid_queues (un_dev (tm_un t)))" for l
    using valid_queue_less [OF that] Cons.prems(2) by simp
  have err1: "head_in_error (un_dev (tm_un t1)) j"
  proof -
    have "j < length (d2_hwq (un_dev (tm_un t)))" using less Cons.prems(3,4) by simp
    with h obtain ys where "hq_rt_list (d2_hwq (un_dev (tm_un t1)) ! j) = hq_rt_list (d2_hwq (un_dev (tm_un t)) ! j) @ ys"
      "d2_sess (un_dev (tm_un t1)) = d2_sess (un_dev (tm_un t))" unfolding handed_def by blast
    with Cons.prems(5) show ?thesis by (cases "hq_rt_list (d2_hwq (un_dev (tm_un t)) ! j)") (simp_all add: head_in_error_def)
  qed
  have "\<forall>inp\<in>set inps. ti_status inp i = Some 0 \<and> (\<forall>l. l \<noteq> i \<longrightarrow> ti_status inp l = None)" using Cons.prems(6) by simp
  from Cons.IH [OF t1(3) len1 V1 [unfolded Cons.prems(3)] Cons.prems(4) err1 this] obtain t' where t': "timer_ticks inps t1 = Some t'"
    "un_work (tm_un t') = un_work (tm_un t1)" "un_board (tm_un t') = un_board (tm_un t1)" "d2_board (un_dev (tm_un t')) = d2_board (un_dev (tm_un t1))"
    "tm_seq t' = tm_seq t1"
    "\<forall>l\<in>set (valid_queues (un_dev (tm_un t))). hq_taint_state (d2_hwq (un_dev (tm_un t')) ! l) = hq_taint_state (d2_hwq (un_dev (tm_un t1)) ! l) \<and>
       hq_regular_timer_state (d2_hwq (un_dev (tm_un t')) ! l) = hq_regular_timer_state (d2_hwq (un_dev (tm_un t1)) ! l)"
    unfolding V1 by blast
  have m: "hq_taint_state (d2_hwq (un_dev (tm_un t1)) ! l) = hq_taint_state (d2_hwq (un_dev (tm_un t)) ! l) \<and>
      hq_regular_timer_state (d2_hwq (un_dev (tm_un t1)) ! l) = hq_regular_timer_state (d2_hwq (un_dev (tm_un t)) ! l)"
    if "l \<in> set (valid_queues (un_dev (tm_un t)))" for l
    using h less [OF that] unfolding handed_def by blast
  have "timer_ticks (inp # inps) t = Some t'" using t1(1) t'(1) by simp
  moreover have "d2_board (un_dev (tm_un t1)) = d2_board (un_dev (tm_un t))" using h by (simp add: handed_def)
  ultimately show ?case using t' t1(2) m by (simp add: same_queues_def)
qed

section \<open>The timer among the other users of the units\<close>

lemma reach_late:
  assumes "unit_reach u0 s" and "us_un s = v" and "\<forall>i\<in>set (units_flagged v k (tr_st r k)). may_report (us_todo s) k i \<and> ub_timeout_cnt (un_board v k i) + 1 < 2 ^ 32"
  shows "unit_reach u0 (s\<lparr>us_un := record_late r k v\<rparr>)"
proof (cases "tr_st r k = 0")
  case True
  have "s\<lparr>us_un := v\<rparr> = s" using assms(2) by (cases s) simp
  with True assms(1) show ?thesis by (simp add: record_late_def)
next
  case False
  from ur_timeout [OF assms(1), of k "tr_st r k"] assms(2,3) False show ?thesis by (simp add: record_late_def)
qed

lemma late_count:
  "i \<in> set (units_flagged u k (tr_st r k)) \<Longrightarrow> ub_timeout_cnt (un_board (send_signal r u) k i) \<noteq> ub_timeout_cnt (un_board u k i)"
proof -
  assume "i \<in> set (units_flagged u k (tr_st r k))"
  then have "ub_timeout_cnt (un_board (send_signal r u) k i) = u32 (ub_timeout_cnt (un_board u k i) + 1)"
    by (cases k) (simp_all add: send_signal_boards record_timeout_def upd_unit_def)
  moreover have "u32 (n + 1) \<noteq> n" for n
  proof (cases "n + 1 < 2 ^ 32")
    case False
    have "u32 (n + 1) < 2 ^ 32" by (simp add: u32_def)
    moreover have "u32 (n + 1) = 0" if "n + 1 = 2 ^ 32" using that by (simp add: u32_def)
    ultimately show ?thesis using False by (cases "n + 1 = 2 ^ 32") auto
  qed (simp add: u32_def)
  ultimately show ?thesis by simp
qed



end
