(* ===== verification/Spec2Isabelle.thy ===== *)
theory Spec2Isabelle
  imports Kl_Mm_Props Kl_Cxpu_Props Kl2_Vf_Props Kl2_Mbox_Props Kl1_Mem_Props Kl1_Tq_Claims Kl1_Sched_Claims Kl2_Claims Kl2_Alloc_Claims Kl2_Timer_Claims
begin

text \<open>
  The kernel driver of the Kunlun accelerators, \<^verbatim>\<open>src/kunlun-driver/kunlun_module/kunlun\<close>. It drives two
  generations of devices. KL1 (\<^verbatim>\<open>kl1/\<close>) and KL2 (\<^verbatim>\<open>kl2/\<close>) have drivers of their own, with the same
  plan: a process opens a device file and gets a session; a session allocates device memory and
  launches tasks; tasks wait in queues in memory and are handed to the hardware queues of the
  scheduling engine (SSE), whose interrupts report how many of them finished. Files \<^verbatim>\<open>kl_*.c\<close> one
  level up are shared. File names below are relative to that directory.

  \<^bold>\<open>How the program is modelled.\<close> A struct is a record, an enumeration a datatype or named numbers,
  a pointer to a shared object an address into a store that maps freed addresses to \<^term>\<open>None\<close>.
  Functions pass the state explicitly. A C status is \<^typ>\<open>kl_status\<close>; a result with a value is a sum
  with the error on the left. On top of that an option marks what C does not define or does not
  return from: \<^term>\<open>None\<close> is a use of freed memory, a \<^verbatim>\<open>BUG()\<close>, a read outside of a table, a loop
  without progress, or a spin lock that is taken twice. Sizes, addresses and counters are natural
  numbers with the wrap-around at 64 and 32 bits written out (\<open>u64\<close>, \<open>u64_sub\<close>, \<open>u32\<close>, \<open>u32_sub\<close>).
  Concurrency is a step relation whose steps are the critical sections of the code, one per
  lock-protected region; system calls, timers, work items and interrupts interleave freely between
  them. Functions of the kernel that the driver calls are parameters with a contract (the search for
  a free area of a bitmap) or arguments that give their result (allocations that may fail, what a
  status register reads).

  \<^bold>\<open>Shared theories.\<close>
  \<^item> \<^theory_text>\<open>Kl_Prelude\<close>: error numbers, arithmetic with wrap-around, facts on lists.
  \<^item> \<^theory_text>\<open>Kl_Bitmap\<close>: the bitmap functions of the kernel, with the locale \<open>zero_area_finder\<close> for the
    search, interpreted by a first-fit search.
  \<^item> \<^theory_text>\<open>Kl_Bits\<close>: counting bits as \<^verbatim>\<open>kl_util.h\<close> does it, in parallel on 32 bits, against the sum
    of the bits.
  \<^item> \<^theory_text>\<open>Kl_Pages\<close>: the tables of a page allocator, their invariant and their abstraction to a map
    from first pages to lengths and owners.
  \<^item> \<^theory_text>\<open>Kl_Region\<close>: the locale \<open>page_region\<close>, the contract both memory managers offer, what any
    client gets from it over any history of calls, and the pages a group of owners holds.

  \<^bold>\<open>Memory.\<close>
  \<^item> \<^theory_text>\<open>Kl_Mm\<close> is \<^verbatim>\<open>kl_mm.c\<close>, function by function: set-up, first fit, free, free by owner, and huge
    allocations that cross regions. \<^theory_text>\<open>Kl_Mm_Region\<close> interprets \<open>page_region\<close> on it and shows that the
    purge loop ends; \<^theory_text>\<open>Kl_Mm_Props\<close> has the properties of the manager as a whole: every branch of
    an allocation, that a free undoes it and nobody else can, freeing by owner, initialisation, any
    history of calls, and two ways in which the code leaves its contract.
  \<^item> \<^theory_text>\<open>Kl1_Mem\<close> and \<^theory_text>\<open>Kl1_Mem_Props\<close> do the same for \<^verbatim>\<open>kl1/xpu_mem.c\<close>, with the page counters of the
    contexts.
  \<^item> \<^theory_text>\<open>Kl2_Spec\<close> is \<^verbatim>\<open>kl2/spec.c\<close>: the memory tables, DMA ranges and compute resources of each board
    and each way to share it, and the registers of \<^verbatim>\<open>kl2/hw.c\<close> that cut memory for virtual functions.
    \<^theory_text>\<open>Kl2_Spec_Props\<close> shows that every table is one the memory manager can be set up with, and
    \<^theory_text>\<open>Kl2_Vf_Props\<close> that the windows of two virtual functions share no byte.
  \<^item> \<^theory_text>\<open>Kl_Cxpu\<close> is \<^verbatim>\<open>kl_cxpu.c\<close>: instances that bound the memory of a container. \<^theory_text>\<open>Kl_Cxpu_Props\<close>
    shows that every operation keeps their list, references and limits in order.
  \<^item> \<^theory_text>\<open>Kl2_Alloc\<close> puts manager, instances, sessions and processes together: \<^verbatim>\<open>ioctl_malloc\<close> and
    \<^verbatim>\<open>ioctl_free\<close> of \<^verbatim>\<open>kl2/ioctl.c\<close> with the counters of \<^verbatim>\<open>kl2/session.c\<close>, the parameters of launches,
    opening and closing. A request is three sections, and a thread records between which of them it
    is. \<^theory_text>\<open>Kl2_Alloc_Inv\<close> is the invariant, with the page counts of \<^theory_text>\<open>Kl2_Alloc_Pages\<close>;
    \<^theory_text>\<open>Kl2_Alloc_Steps\<close>, \<^theory_text>\<open>Kl2_Alloc_Free\<close>, \<^theory_text>\<open>Kl2_Alloc_Frame\<close>, \<^theory_text>\<open>Kl2_Alloc_Life\<close>, \<^theory_text>\<open>Kl2_Alloc_Close\<close>
    and \<^theory_text>\<open>Kl2_Alloc_Reach\<close> preserve it, a few steps each; \<^theory_text>\<open>Kl2_Alloc_Start\<close> establishes it for the
    tables of \<^theory_text>\<open>Kl2_Spec\<close>. \<^theory_text>\<open>Kl2_Alloc_Limit\<close> is about limits, \<^theory_text>\<open>Kl2_Alloc_Runs\<close> has runs on a
    board, and \<^theory_text>\<open>Kl2_Alloc_Claims\<close> the properties: exact accounting with nothing left at the end,
    limits kept, and the two ways round limits and counters. Huge allocations and requests of kind -1,
    which a physical function with virtual functions accepts, are left out of these steps.

  \<^bold>\<open>Requests of virtual functions.\<close>
  \<^item> \<^theory_text>\<open>Kl2_Mbox\<close> is \<^verbatim>\<open>kl2/mbox.c\<close>, at the grain of accesses to the mailbox registers, which the
    thread of the physical function, the virtual functions and the device share: a schedule says
    whose step comes next. \<^theory_text>\<open>Kl2_Mbox_Props\<close> shows which answer a request gets, and how an answer of
    an earlier request can be taken for the one of this request.

  \<^bold>\<open>KL1 tasks.\<close>
  \<^item> \<^theory_text>\<open>Kl1_Pd\<close>: the power states of a domain, \<^verbatim>\<open>kl1/device_state.c\<close>.
  \<^item> \<^theory_text>\<open>Kl1_Sse\<close>: handing a task to the hardware, \<^verbatim>\<open>kl1/xpu_sse.c\<close>, as the register writes it makes.
  \<^item> \<^theory_text>\<open>Kl1_Tq\<close>: the task queues, \<^verbatim>\<open>kl1/xpu_tq.c\<close>, with the scheduler, pausing and the queue part of
    a reset; \<^theory_text>\<open>Kl1_Tq_Props\<close> is their invariant and \<^theory_text>\<open>Kl1_Tq_Claims\<close> the refinement of a FIFO.
  \<^item> \<^theory_text>\<open>Kl1_Session\<close>: sessions and contexts, \<^verbatim>\<open>kl1/xpu_session.c\<close> and \<^verbatim>\<open>kl1/xpu_pd.c\<close>.
  \<^item> \<^theory_text>\<open>Kl1_Sched\<close> puts them together in a step relation. \<^theory_text>\<open>Kl1_Sched_Props\<close> proves its invariant,
    \<^theory_text>\<open>Kl1_Sched_Claims\<close> what follows: exact accounting, no dangling pointer, a clean-up that frees
    what is closed, a sound and complete pause, fail-stop after an exception.

  \<^bold>\<open>KL2 tasks.\<close>
  \<^item> \<^theory_text>\<open>Kl2_Dev\<close>: the structures of \<^verbatim>\<open>kl2/kl2.h\<close> and their reference counts. \<^theory_text>\<open>Kl2_Hwq\<close>: the hardware
    queues, \<^verbatim>\<open>kl2/hwq.c\<close>. \<^theory_text>\<open>Kl2_Session\<close>: sessions, user processes and events, \<^verbatim>\<open>kl2/session.c\<close> and
    \<^verbatim>\<open>kl2/event.c\<close>. \<^theory_text>\<open>Kl2_Excp\<close>: the task side of the recovery, \<^verbatim>\<open>kl2/exception.c\<close>, and
    \<^theory_text>\<open>Kl2_Unit\<close> its other side: the compute units, from the interrupt that takes them off (\<^verbatim>\<open>kl2/irq.c\<close>)
    to the work item that resets them, with the mask registers of \<^verbatim>\<open>kl2/hw.c\<close>. \<^theory_text>\<open>Kl2_Timer\<close>: the regular
    timer of \<^verbatim>\<open>kl2/hwq.c\<close>, which wakes it when a task is late or a queue is to be reset.
  \<^item> \<^theory_text>\<open>Kl2_Own\<close>: who refers to what. \<^theory_text>\<open>Kl2_Sched\<close>: the step relation. \<^theory_text>\<open>Kl2_Sched_Props\<close>,
    \<^theory_text>\<open>Kl2_Recovery\<close> and \<^theory_text>\<open>Kl2_Order\<close>: its invariants, the last on the order of records and waits.
    \<^theory_text>\<open>Kl2_Runs\<close>: requests as runs of steps, and small reachable systems. \<^theory_text>\<open>Kl2_Claims\<close>: the
    properties of the task path, from exact accounting and freedom from use after free to the
    absence of a deadlock between queues.
  \<^item> \<^theory_text>\<open>Kl2_Unit_Props\<close>: what each step does to the boards and masks of the units, and how interrupt, timer
    and work item interleave. \<^theory_text>\<open>Kl2_Unit_Inv\<close>: the invariant. \<^theory_text>\<open>Kl2_Unit_Pass\<close>: one pass over the units.
    \<^theory_text>\<open>Kl2_Work_Tasks\<close>: the task side of the work item as a whole, on top of the invariants of
    \<^theory_text>\<open>Kl2_Recovery\<close>. \<^theory_text>\<open>Kl2_Unit_Claims\<close>: no unit is lost or left open to the scheduler, the work item
    ends every exception when its waits end, and the window in which an exception is wiped.
  \<^item> \<^theory_text>\<open>Kl2_Timer_Props\<close>: what a tick of the timer has found out of the queues and units at each point.
    \<^theory_text>\<open>Kl2_Timer_Claims\<close>: only units that hold up a queue are taken off, marks are served, a tick is a run
    of the steps of \<^theory_text>\<open>Kl2_Unit_Props\<close>, and the ticks of a virtual function that never get past the queues.

  \<^bold>\<open>Bounds.\<close> No fuel is used: loops are structural recursion, or partial functions whose results are
  proved to exist. Six steps of the thread of the physical function answer a mailbox request, whatever
  else happens in between. Addresses of new objects in the step relations are any unused ones. Requests for
  memory are assumed to be smaller than \<open>2 ^ 64 - 2 ^ 32\<close> bytes where a property says so; what happens
  beyond is stated in a property of its own.

  \<^bold>\<open>Not modelled.\<close> Register-level bring-up of the devices (clocks, PCIe, HBM and GDDR training,
  interrupt routing, DMA descriptors, and the descriptors of \<^verbatim>\<open>kl2/sse.c\<close>, of which only the look-ups
  of units and queues are modelled), the video and image units (\<^verbatim>\<open>video_*.c\<close>, \<^verbatim>\<open>img_proc.c\<close>: compiled
  only under \<^verbatim>\<open>ENABLE_CODEC\<close>, which no build file sets, with headers that are not in the repository),
  the files under \<^verbatim>\<open>/proc\<close> and \<^verbatim>\<open>/sys\<close>, peer-to-peer
  and host memory mapping, and the parts under \<^verbatim>\<open>port/\<close> and \<^verbatim>\<open>include/cudart\<close> that are copies of
  third-party code: they are sequences of register accesses or calls of kernel interfaces whose
  effect is not in the source. In the KL2 recovery the debug registers that are saved with an exception
  and the reports of past tasks are left out; what registers read is an argument.
\<close>

end
